(* ===== verification/Kernel_Prelude.thy ===== *)
theory Kernel_Prelude
  imports Main "HOL-Library.Word" "HOL-Library.Monad_Syntax"
begin

text \<open>
  What every component of the kernel model shares: the machine integer types, the error
  codes of \<open>kernel/error.hpp\<close>, the shape of a fallible operation, and lemmas on single bits
  of words, bounded lists and function updates that several components use.

  Conventions of all theories.  A function of the C++ code that can only succeed or fail
  with an \<open>Error\<close> returns the error code; \<open>WithError<T>\<close> is a sum, \<open>Inl\<close> the error and
  \<open>Inr\<close> the value.  Where the C++ would run into undefined behaviour (an access outside an
  array, \<open>front()\<close> of an empty deque) or would not return, the model returns \<open>None\<close>,
  so a theorem whose conclusion is \<open>\<exists>r. f x = Some r\<close> also says that the code is defined.
\<close>

unbundle bit_operations_syntax

type_synonym u8 = "8 word"
type_synonym u16 = "16 word"
type_synonym u32 = "32 word"
type_synonym u64 = "64 word"

section \<open>Error codes\<close>

datatype ErrorCode =
    kSuccess | kFull | kEmpty | kNoEnoughMemory | kIndexOutOfRange
  | kHostControllerNotHalted | kInvalidSlotID | kPortNotConnected
  | kInvalidEndpointNumber | kTransferRingNotSet | kAlreadyAllocated
  | kNotImplemented | kInvalidDescriptor | kBufferTooSmall | kUnknownDevice
  | kNoCorrespondingSetupStage | kTransferFailed | kInvalidPhase
  | kUnknownXHCISpeedID | kNoWaiter | kNoPCIMSI | kUnknownPixelFormat
  | kNoSuchTask | kInvalidFormat | kFrameTooSmall | kInvalidFile
  | kIsDirectory | kNoSuchEntry | kFreeTypeError

text \<open>The enumerators in declaration order, so that a code's position is its number.\<close>

definition error_codes :: "ErrorCode list" where
  "error_codes =
    [kSuccess, kFull, kEmpty, kNoEnoughMemory, kIndexOutOfRange,
     kHostControllerNotHalted, kInvalidSlotID, kPortNotConnected,
     kInvalidEndpointNumber, kTransferRingNotSet, kAlreadyAllocated,
     kNotImplemented, kInvalidDescriptor, kBufferTooSmall, kUnknownDevice,
     kNoCorrespondingSetupStage, kTransferFailed, kInvalidPhase,
     kUnknownXHCISpeedID, kNoWaiter, kNoPCIMSI, kUnknownPixelFormat,
     kNoSuchTask, kInvalidFormat, kFrameTooSmall, kInvalidFile,
     kIsDirectory, kNoSuchEntry, kFreeTypeError]"

definition kLastOfCode :: nat where
  "kLastOfCode = length error_codes"

fun error_number :: "ErrorCode \<Rightarrow> nat" where
  "error_number kSuccess = 0"
| "error_number kFull = 1"
| "error_number kEmpty = 2"
| "error_number kNoEnoughMemory = 3"
| "error_number kIndexOutOfRange = 4"
| "error_number kHostControllerNotHalted = 5"
| "error_number kInvalidSlotID = 6"
| "error_number kPortNotConnected = 7"
| "error_number kInvalidEndpointNumber = 8"
| "error_number kTransferRingNotSet = 9"
| "error_number kAlreadyAllocated = 10"
| "error_number kNotImplemented = 11"
| "error_number kInvalidDescriptor = 12"
| "error_number kBufferTooSmall = 13"
| "error_number kUnknownDevice = 14"
| "error_number kNoCorrespondingSetupStage = 15"
| "error_number kTransferFailed = 16"
| "error_number kInvalidPhase = 17"
| "error_number kUnknownXHCISpeedID = 18"
| "error_number kNoWaiter = 19"
| "error_number kNoPCIMSI = 20"
| "error_number kUnknownPixelFormat = 21"
| "error_number kNoSuchTask = 22"
| "error_number kInvalidFormat = 23"
| "error_number kFrameTooSmall = 24"
| "error_number kInvalidFile = 25"
| "error_number kIsDirectory = 26"
| "error_number kNoSuchEntry = 27"
| "error_number kFreeTypeError = 28"

definition code_names :: "string list" where
  "code_names =
    [''kSuccess'', ''kFull'', ''kEmpty'', ''kNoEnoughMemory'', ''kIndexOutOfRange'',
     ''kHostControllerNotHalted'', ''kInvalidSlotID'', ''kPortNotConnected'',
     ''kInvalidEndpointNumber'', ''kTransferRingNotSet'', ''kAlreadyAllocated'',
     ''kNotImplemented'', ''kInvalidDescriptor'', ''kBufferTooSmall'', ''kUnknownDevice'',
     ''kNoCorrespondingSetupStage'', ''kTransferFailed'', ''kInvalidPhase'',
     ''kUnknownXHCISpeedID'', ''kNoWaiter'', ''kNoPCIMSI'', ''kUnknownPixelFormat'',
     ''kNoSuchTask'', ''kInvalidFormat'', ''kFrameTooSmall'', ''kInvalidFile'',
     ''kIsDirectory'', ''kNoSuchEntry'', ''kFreeTypeError'']"

text \<open>\<open>Error\<close> carries a code, a file name and a line; \<open>operator bool\<close> tells failure.\<close>

record Error =
  err_code :: ErrorCode
  err_line :: int
  err_file :: string

definition Error_Cause :: "Error \<Rightarrow> ErrorCode" where
  "Error_Cause e = err_code e"

definition Error_bool :: "Error \<Rightarrow> bool" where
  "Error_bool e \<longleftrightarrow> err_code e \<noteq> kSuccess"

text \<open>The array access of \<open>Name()\<close>; \<open>None\<close> is an index outside the array.\<close>

definition Error_Name :: "Error \<Rightarrow> string option" where
  "Error_Name e =
    (let i = error_number (err_code e) in
     if i < length code_names then Some (code_names ! i) else None)"

type_synonym 'a WithError = "ErrorCode + 'a"

lemma error_codes_nth: "error_number c < length error_codes \<and> error_codes ! error_number c = c"
  by (cases c) (simp_all add: error_codes_def)

lemma error_number_inj: "error_number c = error_number d \<Longrightarrow> c = d"
  by (metis error_codes_nth)

section \<open>Collections of facts\<close>

named_theorems word_bits \<open>single bits of words built by the kernel's masks and shifts\<close>
named_theorems kernel_inv \<open>operations that keep a component's invariant\<close>

section \<open>Bits of words\<close>

text \<open>A mask \<open>1 << k\<close> is \<open>push_bit k 1\<close> in the definitions, which \<open>simp\<close> writes \<open>2 ^ k\<close>.\<close>

lemma bit_two_pow [word_bits]:
  "bit ((2 :: 'a::len word) ^ k) n \<longleftrightarrow> n = k \<and> n < LENGTH('a)"
  by (auto simp: bit_simps)

lemma bit_or_two_pow [word_bits]:
  "k < LENGTH('a) \<Longrightarrow> bit (w OR (2 :: 'a::len word) ^ k) n \<longleftrightarrow> bit w n \<or> n = k"
  by (auto simp: bit_simps)

lemma bit_and_not_two_pow [word_bits]:
  "bit (w AND NOT ((2 :: 'a::len word) ^ k)) n \<longleftrightarrow> bit w n \<and> n \<noteq> k"
  by (auto simp: bit_simps dest: bit_imp_le_length)

lemma unat_div_pow2: "unat ((w :: 'a::len word) div 2 ^ n) = unat w div 2 ^ n"
  by (metis drop_bit_eq_div unat_drop_bit_eq)

section \<open>Bit fields\<close>

text \<open>A C++ bit field of \<open>n\<close> bits that starts at bit \<open>lo\<close>: reading and writing it.\<close>

definition get_bits :: "nat \<Rightarrow> nat \<Rightarrow> 'a::len word \<Rightarrow> 'a word" where
  "get_bits lo n w = take_bit n (drop_bit lo w)"

definition put_bits :: "nat \<Rightarrow> nat \<Rightarrow> 'a::len word \<Rightarrow> 'a word \<Rightarrow> 'a word" where
  "put_bits lo n v w = (w AND NOT (push_bit lo (mask n))) OR push_bit lo (take_bit n v)"

lemma bit_get_bits [word_bits]:
  "bit (get_bits lo n w) k \<longleftrightarrow> k < n \<and> bit w (lo + k)"
  by (auto simp: get_bits_def bit_simps)

lemma bit_put_bits [word_bits]:
  "bit (put_bits lo n v (w :: 'a::len word)) k \<longleftrightarrow>
     k < LENGTH('a) \<and> (if lo \<le> k \<and> k < lo + n then bit v (k - lo) else bit w k)"
  by (auto simp: put_bits_def bit_simps dest: bit_imp_le_length)

lemma get_put_same [simp]:
  "lo + n \<le> LENGTH('a) \<Longrightarrow> get_bits lo n (put_bits lo n v (w :: 'a::len word)) = take_bit n v"
  by (rule bit_eqI) (auto simp: word_bits bit_simps)

lemma get_put_other [simp]:
  "lo + n \<le> lo' \<or> lo' + n' \<le> lo \<Longrightarrow> lo + n \<le> LENGTH('a) \<Longrightarrow>
     get_bits lo n (put_bits lo' n' v (w :: 'a::len word)) = get_bits lo n w"
  by (rule bit_eqI) (auto simp: word_bits)

lemma get_bits_less: "n < LENGTH('a) \<Longrightarrow> unat (get_bits lo n (w :: 'a::len word)) < 2 ^ n"
  by (simp add: get_bits_def unsigned_take_bit_eq take_bit_nat_less_exp)

lemma unat_get_bits: "unat (get_bits lo n w) = take_bit n (unat w div 2 ^ lo)"
  by (simp add: get_bits_def unsigned_take_bit_eq unat_drop_bit_eq flip: drop_bit_eq_div)

lemma unat_of_nat_less: "v < 2 ^ LENGTH('a) \<Longrightarrow> unat (of_nat v :: 'a::len word) = v"
  by (simp add: unsigned_of_nat take_bit_nat_eq_self)

lemma unat_take_bit_of_nat:
  "v < 2 ^ n \<Longrightarrow> n \<le> LENGTH('a) \<Longrightarrow> unat (take_bit n (of_nat v :: 'a::len word)) = v"
  by (simp add: unsigned_take_bit_eq unsigned_of_nat take_bit_nat_eq_self)

section \<open>Bytes and waiting\<close>

text \<open>An integer from its bytes, the lowest first.\<close>

fun le_word :: "u8 list \<Rightarrow> 'a::len word" where
  "le_word [] = 0"
| "le_word (b # bs) = ucast b OR push_bit 8 (le_word bs)"

text \<open>The number of the read that ends a loop of reads.\<close>

partial_function (option) busy_wait :: "(nat \<Rightarrow> 'a) \<Rightarrow> ('a \<Rightarrow> bool) \<Rightarrow> nat \<Rightarrow> nat option" where
  "busy_wait reads waiting n = (if waiting (reads n) then busy_wait reads waiting (n + 1) else Some n)"

section \<open>Option and list helpers\<close>

lemma bind_eq_Some: "(m \<bind> f = Some y) \<longleftrightarrow> (\<exists>x. m = Some x \<and> f x = Some y)"
  by (cases m) auto

lemma take_Suc_snoc: "n < length xs \<Longrightarrow> take (Suc n) xs = take n xs @ [xs ! n]"
  by (rule take_Suc_conv_app_nth)

lemma div_mod_eq_iff:
  "(0::nat) < k \<Longrightarrow> (a div k = b div k \<and> a mod k = b mod k) \<longleftrightarrow> a = b"
  by (metis div_mod_decomp)

end
