(* ===== verification/Memory_Manager.thy ===== *)
theory Memory_Manager
  imports Kernel_Prelude
begin

text \<open>
  The physical frame allocator: \<open>kernel/memory_manager.hpp\<close>, \<open>kernel/memory_manager.cpp\<close> and
  the memory map types of \<open>kernel/memory_map.hpp\<close>.  The array \<open>alloc_map\<close> of
  \<open>kFrameCount / 64\<close> lines is a function from line numbers to 64-bit words; an access to a
  line outside the array is \<open>None\<close>.  Frame numbers are natural numbers: any number that
  could wrap around is far outside the array, so the access itself is already \<open>None\<close>.
\<close>

section \<open>State\<close>

definition KiB :: "nat \<Rightarrow> nat" where "KiB kib = kib * 1024"
definition MiB :: "nat \<Rightarrow> nat" where "MiB mib = mib * KiB 1024"
definition GiB :: "nat \<Rightarrow> nat" where "GiB gib = gib * MiB 1024"

definition kBytesPerFrame :: nat where "kBytesPerFrame = KiB 4"
definition kMaxPhysicalMemoryBytes :: nat where "kMaxPhysicalMemoryBytes = GiB 128"
definition kFrameCount :: nat where "kFrameCount = kMaxPhysicalMemoryBytes div kBytesPerFrame"
definition kBitsPerMapLine :: nat where "kBitsPerMapLine = 64"
definition kMapLines :: nat where "kMapLines = kFrameCount div kBitsPerMapLine"
definition kNullFrame :: nat where "kNullFrame = 2 ^ 64 - 1"

record BitmapMemoryManager =
  alloc_map :: "nat \<Rightarrow> u64"
  range_begin :: nat
  range_end :: nat

definition Frame :: "nat \<Rightarrow> u64" where
  "Frame frame_id = of_nat (frame_id * kBytesPerFrame)"

definition BitmapMemoryManager_new :: BitmapMemoryManager where
  "BitmapMemoryManager_new =
    \<lparr>alloc_map = (\<lambda>_. 0), range_begin = 0, range_end = kFrameCount\<rparr>"

section \<open>Operations\<close>

definition GetBit :: "BitmapMemoryManager \<Rightarrow> nat \<Rightarrow> bool option" where
  "GetBit m frame =
    (let line_index = frame div kBitsPerMapLine; bit_index = frame mod kBitsPerMapLine in
     if line_index < kMapLines
     then Some ((alloc_map m line_index AND push_bit bit_index 1) \<noteq> 0)
     else None)"

definition SetBit ::
  "BitmapMemoryManager \<Rightarrow> nat \<Rightarrow> bool \<Rightarrow> BitmapMemoryManager option" where
  "SetBit m frame allocated =
    (let line_index = frame div kBitsPerMapLine; bit_index = frame mod kBitsPerMapLine;
         line = alloc_map m line_index in
     if line_index < kMapLines
     then Some (m\<lparr>alloc_map := (alloc_map m)(line_index :=
            (if allocated then line OR push_bit bit_index 1
             else line AND NOT (push_bit bit_index 1)))\<rparr>)
     else None)"

text \<open>The loop shared by \<open>Free\<close> and \<open>MarkAllocated\<close>, from index \<open>i\<close>.\<close>

fun SetBits :: "BitmapMemoryManager \<Rightarrow> nat \<Rightarrow> bool \<Rightarrow> nat \<Rightarrow> BitmapMemoryManager option" where
  "SetBits m start v 0 = Some m"
| "SetBits m start v (Suc n) =
     (case SetBit m start v of None \<Rightarrow> None | Some m' \<Rightarrow> SetBits m' (Suc start) v n)"

definition MarkAllocated ::
  "BitmapMemoryManager \<Rightarrow> nat \<Rightarrow> nat \<Rightarrow> BitmapMemoryManager option" where
  "MarkAllocated m start_frame num_frames = SetBits m start_frame True num_frames"

definition Free ::
  "BitmapMemoryManager \<Rightarrow> nat \<Rightarrow> nat \<Rightarrow> (BitmapMemoryManager \<times> ErrorCode) option" where
  "Free m start_frame num_frames =
    map_option (\<lambda>m'. (m', kSuccess)) (SetBits m start_frame False num_frames)"

text \<open>
  The inner loop of \<open>Allocate\<close>: it stops past the end of the range, at the first used
  frame (with its index) or when all \<open>num_frames\<close> frames were free.
\<close>

datatype scan = OutOfRange | UsedAt nat | AllFree

function scan_frames :: "BitmapMemoryManager \<Rightarrow> nat \<Rightarrow> nat \<Rightarrow> nat \<Rightarrow> scan option" where
  "scan_frames m start_frame_id i num_frames =
    (if i < num_frames then
       if start_frame_id + i \<ge> range_end m then Some OutOfRange
       else (case GetBit m (start_frame_id + i) of
               None \<Rightarrow> None
             | Some True \<Rightarrow> Some (UsedAt i)
             | Some False \<Rightarrow> scan_frames m start_frame_id (Suc i) num_frames)
     else Some AllFree)"
  by pat_completeness auto
termination by (relation "measure (\<lambda>(m, s, i, n). n - i)") auto

declare scan_frames.simps [simp del]

lemma scan_frames_used:
  "scan_frames m s i n = Some (UsedAt j) \<Longrightarrow>
     i \<le> j \<and> j < n \<and> s + j < range_end m \<and> GetBit m (s + j) = Some True"
proof (induction m s i n rule: scan_frames.induct)
  case (1 m s i n)
  then show ?case
    by (subst (asm) (2) scan_frames.simps)
      (fastforce split: if_splits option.splits bool.splits)
qed

function Allocate_from ::
  "BitmapMemoryManager \<Rightarrow> nat \<Rightarrow> nat \<Rightarrow> (BitmapMemoryManager \<times> nat WithError) option" where
  "Allocate_from m start_frame_id num_frames =
    (case scan_frames m start_frame_id 0 num_frames of
       None \<Rightarrow> None
     | Some OutOfRange \<Rightarrow> Some (m, Inl kNoEnoughMemory)
     | Some AllFree \<Rightarrow>
         map_option (\<lambda>m'. (m', Inr start_frame_id)) (MarkAllocated m start_frame_id num_frames)
     | Some (UsedAt i) \<Rightarrow> Allocate_from m (start_frame_id + i + 1) num_frames)"
  by pat_completeness auto
termination
  by (relation "measure (\<lambda>(m, s, n). range_end m - s)") (auto dest!: scan_frames_used)

declare Allocate_from.simps [simp del]

definition Allocate ::
  "BitmapMemoryManager \<Rightarrow> nat \<Rightarrow> (BitmapMemoryManager \<times> nat WithError) option" where
  "Allocate m num_frames = Allocate_from m (range_begin m) num_frames"

definition SetMemoryRange ::
  "BitmapMemoryManager \<Rightarrow> nat \<Rightarrow> nat \<Rightarrow> BitmapMemoryManager" where
  "SetMemoryRange m range_first range_last =
    m\<lparr>range_begin := range_first, range_end := range_last\<rparr>"

record MemoryStat =
  allocated_frames :: nat
  total_frames :: nat

definition popcount :: "u64 \<Rightarrow> nat" where
  "popcount w = length (filter (bit w) [0..<64])"

definition Stat :: "BitmapMemoryManager \<Rightarrow> MemoryStat" where
  "Stat m =
    \<lparr>allocated_frames =
       sum_list (map (\<lambda>i. popcount (alloc_map m i))
         [range_begin m div kBitsPerMapLine ..< range_end m div kBitsPerMapLine]),
     total_frames = range_end m - range_begin m\<rparr>"

section \<open>Abstraction: the set of allocated frames\<close>

definition frame_bit :: "BitmapMemoryManager \<Rightarrow> nat \<Rightarrow> bool" where
  "frame_bit m f \<longleftrightarrow> bit (alloc_map m (f div kBitsPerMapLine)) (f mod kBitsPerMapLine)"

definition allocated :: "BitmapMemoryManager \<Rightarrow> nat set" where
  "allocated m = {f. f < kFrameCount \<and> frame_bit m f}"

lemmas frame_consts =
  kFrameCount_def kMaxPhysicalMemoryBytes_def kBytesPerFrame_def KiB_def MiB_def GiB_def kBitsPerMapLine_def kMapLines_def

lemma line_in_map: "f div kBitsPerMapLine < kMapLines \<longleftrightarrow> f < kFrameCount"
  by (simp add: frame_consts) arith

lemma GetBit_eq:
  "GetBit m f = (if f < kFrameCount then Some (f \<in> allocated m) else None)"
  using line_in_map [of f]
  by (simp add: GetBit_def Let_def allocated_def frame_bit_def kBitsPerMapLine_def
      and_exp_eq_0_iff_not_bit)

lemma frame_bit_upd:
  "frame_bit (m\<lparr>alloc_map := (alloc_map m)(f div kBitsPerMapLine := w)\<rparr>) g \<longleftrightarrow>
     (if g div kBitsPerMapLine = f div kBitsPerMapLine then bit w (g mod kBitsPerMapLine)
      else frame_bit m g)"
  by (simp add: frame_bit_def)

lemma SetBit_None [simp]: "\<not> f < kFrameCount \<Longrightarrow> SetBit m f v = None"
  using line_in_map [of f] by (simp add: SetBit_def Let_def)

lemma SetBit_frame_bit:
  assumes "f < kFrameCount"
  shows "\<exists>m'. SetBit m f v = Some m' \<and>
           (\<forall>g. frame_bit m' g = (if g = f then v else frame_bit m g)) \<and>
           range_begin m' = range_begin m \<and> range_end m' = range_end m"
proof -
  have eq: "g mod 64 = f mod 64 \<longleftrightarrow> g = f" if "g div 64 = f div 64" for g :: nat
    using div_mod_eq_iff [of 64 g f] that by simp
  let ?w = "if v then alloc_map m (f div 64) OR 2 ^ (f mod 64)
            else alloc_map m (f div 64) AND NOT (2 ^ (f mod 64))"
  have w: "bit ?w k = (if k = f mod 64 then v else bit (alloc_map m (f div 64)) k)" for k
    by (simp add: bit_or_two_pow bit_and_not_two_pow)
  have "SetBit m f v = Some (m\<lparr>alloc_map := (alloc_map m)(f div kBitsPerMapLine := ?w)\<rparr>)"
    using assms line_in_map [of f] by (simp add: SetBit_def Let_def kBitsPerMapLine_def)
  moreover have "frame_bit (m\<lparr>alloc_map := (alloc_map m)(f div kBitsPerMapLine := ?w)\<rparr>) g =
      (if g = f then v else frame_bit m g)" for g
    unfolding frame_bit_upd w using eq [of g] by (auto simp: frame_bit_def kBitsPerMapLine_def)
  ultimately show ?thesis by simp
qed

lemma SetBit_Some:
  assumes "f < kFrameCount"
  shows "\<exists>m'. SetBit m f v = Some m' \<and>
           allocated m' = (if v then insert f (allocated m) else allocated m - {f}) \<and>
           range_begin m' = range_begin m \<and> range_end m' = range_end m"
  using SetBit_frame_bit [OF assms, of m v] assms by (auto simp: allocated_def)

lemma SetBits_Some:
  "f + n \<le> kFrameCount \<Longrightarrow>
     \<exists>m'. SetBits m f v n = Some m' \<and>
       allocated m' = (if v then allocated m \<union> {f..<f + n} else allocated m - {f..<f + n}) \<and>
       range_begin m' = range_begin m \<and> range_end m' = range_end m"
proof (induction n arbitrary: m f)
  case 0
  then show ?case by simp
next
  case (Suc n)
  then obtain m1 where m1: "SetBit m f v = Some m1"
    "allocated m1 = (if v then insert f (allocated m) else allocated m - {f})"
    "range_begin m1 = range_begin m" "range_end m1 = range_end m"
    using SetBit_Some [of f m v] by auto
  from Suc.prems have "Suc f + n \<le> kFrameCount" by simp
  from Suc.IH [OF this, of m1] m1 show ?case by auto
qed

lemma SetBits_None: "n > 0 \<Longrightarrow> f + n > kFrameCount \<Longrightarrow> SetBits m f v n = None"
proof (induction n arbitrary: m f)
  case 0
  then show ?case by simp
next
  case (Suc n)
  then show ?case
    by (cases "n = 0") (auto split: option.splits)
qed

lemma MarkAllocated_Some:
  "f + n \<le> kFrameCount \<Longrightarrow>
     \<exists>m'. MarkAllocated m f n = Some m' \<and> allocated m' = allocated m \<union> {f..<f + n} \<and>
       range_begin m' = range_begin m \<and> range_end m' = range_end m"
  using SetBits_Some [of f n m True] by (simp add: MarkAllocated_def)

lemma Free_Some:
  "f + n \<le> kFrameCount \<Longrightarrow>
     \<exists>m'. Free m f n = Some (m', kSuccess) \<and> allocated m' = allocated m - {f..<f + n} \<and>
       range_begin m' = range_begin m \<and> range_end m' = range_end m"
  using SetBits_Some [of f n m False] by (auto simp: Free_def)

section \<open>Allocate finds the first fit\<close>

text \<open>\<open>fits m t n\<close>: a request of \<open>n\<close> frames can be served at frame \<open>t\<close>.\<close>

definition fits :: "BitmapMemoryManager \<Rightarrow> nat \<Rightarrow> nat \<Rightarrow> bool" where
  "fits m t n \<longleftrightarrow>
     range_begin m \<le> t \<and> t + n \<le> range_end m \<and> (\<forall>f \<in> {t..<t + n}. f \<notin> allocated m)"

lemma scan_frames_cases:
  assumes "range_end m \<le> kFrameCount" "i \<le> n"
    and "\<forall>j<i. s + j < range_end m \<and> s + j \<notin> allocated m"
  shows "\<exists>r. scan_frames m s i n = Some r \<and>
    (case r of
       OutOfRange \<Rightarrow> 0 < n \<and> s + n > range_end m
     | UsedAt j \<Rightarrow> j < n \<and> s + j < range_end m \<and> s + j \<in> allocated m
     | AllFree \<Rightarrow> \<forall>j<n. s + j < range_end m \<and> s + j \<notin> allocated m)"
  using assms
proof (induction m s i n rule: scan_frames.induct)
  case (1 m s i n)
  show ?case
  proof (cases "i < n \<and> s + i < range_end m \<and> s + i \<notin> allocated m")
    case True
    then have "\<forall>j<Suc i. s + j < range_end m \<and> s + j \<notin> allocated m"
      using "1.prems"(3) less_Suc_eq by auto
    with True "1.prems" "1.IH" show ?thesis
      by (subst scan_frames.simps) (simp add: GetBit_eq)
  next
    case False
    with "1.prems" show ?thesis
      by (subst scan_frames.simps) (auto simp: GetBit_eq)
  qed
qed

lemma Allocate_from_cases:
  assumes "range_end m \<le> kFrameCount" "0 < n" "range_begin m \<le> s"
    and "\<forall>t. range_begin m \<le> t \<and> t < s \<longrightarrow> \<not> fits m t n"
  shows "\<exists>m' r. Allocate_from m s n = Some (m', r) \<and>
    (case r of
       Inr t \<Rightarrow> fits m t n \<and> (\<forall>t'<t. \<not> fits m t' n) \<and>
                allocated m' = allocated m \<union> {t..<t + n} \<and>
                range_begin m' = range_begin m \<and> range_end m' = range_end m
     | Inl e \<Rightarrow> e = kNoEnoughMemory \<and> m' = m \<and> (\<forall>t. \<not> fits m t n))"
  using assms
proof (induction m s n rule: Allocate_from.induct)
  case (1 m s n)
  from scan_frames_cases [OF "1.prems"(1), of 0 n s] obtain r
    where r: "scan_frames m s 0 n = Some r"
      "case r of
         OutOfRange \<Rightarrow> 0 < n \<and> s + n > range_end m
       | UsedAt j \<Rightarrow> j < n \<and> s + j < range_end m \<and> s + j \<in> allocated m
       | AllFree \<Rightarrow> \<forall>j<n. s + j < range_end m \<and> s + j \<notin> allocated m"
    by auto
  show ?case
  proof (cases r)
    case OutOfRange
    have "\<not> fits m t n" for t
      using OutOfRange r "1.prems"(4) by (cases "t < s") (auto simp: fits_def)
    with OutOfRange r show ?thesis by (subst Allocate_from.simps) simp
  next
    case (UsedAt j)
    have "\<not> fits m t n" if "range_begin m \<le> t" "t < s + j + 1" for t
    proof (cases "t < s")
      case True
      then show ?thesis using "1.prems"(4) that by blast
    next
      case False
      then have "s + j \<in> {t..<t + n}" using UsedAt r that by auto
      then show ?thesis using UsedAt r by (auto simp: fits_def)
    qed
    with UsedAt r "1.prems" "1.IH" [OF r(1)] show ?thesis
      by (subst Allocate_from.simps) simp
  next
    case AllFree
    then have free: "\<forall>j<n. s + j < range_end m \<and> s + j \<notin> allocated m" using r by simp
    from free [THEN spec, of "n - 1"] "1.prems"(2) have le: "s + n \<le> range_end m" by arith
    have "f \<notin> allocated m" if "f \<in> {s..<s + n}" for f
      using free [THEN spec, of "f - s"] that by auto
    then have fit: "fits m s n" using le "1.prems"(3) by (simp add: fits_def)
    have first: "\<forall>t'. t' < s \<longrightarrow> \<not> fits m t' n"
      using "1.prems"(4) by (auto simp: fits_def)
    obtain m' where "MarkAllocated m s n = Some m'" "allocated m' = allocated m \<union> {s..<s + n}"
      "range_begin m' = range_begin m" "range_end m' = range_end m"
      using MarkAllocated_Some [of s n m] le "1.prems"(1) by auto
    with AllFree r fit first show ?thesis by (subst Allocate_from.simps) simp
  qed
qed

lemma Allocate_cases:
  assumes "range_end m \<le> kFrameCount" "0 < n"
  shows "\<exists>m' r. Allocate m n = Some (m', r) \<and>
    (case r of
       Inr t \<Rightarrow> fits m t n \<and> (\<forall>t'<t. \<not> fits m t' n) \<and>
                allocated m' = allocated m \<union> {t..<t + n} \<and>
                range_begin m' = range_begin m \<and> range_end m' = range_end m
     | Inl e \<Rightarrow> e = kNoEnoughMemory \<and> m' = m \<and> (\<forall>t. \<not> fits m t n))"
  unfolding Allocate_def using assms by (intro Allocate_from_cases) auto

section \<open>The allocator interface\<close>

text \<open>
  What the page-table code relies on: a state type with a set of frames in use, an
  operation that hands out frames nobody uses, and one that gives them back.
\<close>

locale frame_allocator =
  fixes used :: "'s \<Rightarrow> nat set"
    and usable :: "'s \<Rightarrow> bool"
    and alloc :: "'s \<Rightarrow> nat \<Rightarrow> ('s \<times> nat WithError) option"
    and release :: "'s \<Rightarrow> nat \<Rightarrow> nat \<Rightarrow> ('s \<times> ErrorCode) option"
  assumes alloc_total: "usable s \<Longrightarrow> 0 < n \<Longrightarrow> \<exists>s' r. alloc s n = Some (s', r)"
    and alloc_fresh: "usable s \<Longrightarrow> 0 < n \<Longrightarrow> alloc s n = Some (s', Inr t) \<Longrightarrow>
           used s \<inter> {t..<t + n} = {} \<and> used s' = used s \<union> {t..<t + n} \<and> usable s' \<and>
           t + n \<le> kFrameCount"
    and alloc_error: "usable s \<Longrightarrow> 0 < n \<Longrightarrow> alloc s n = Some (s', Inl e) \<Longrightarrow> s' = s"
    and release_frames: "usable s \<Longrightarrow> t + n \<le> kFrameCount \<Longrightarrow>
           \<exists>s'. release s t n = Some (s', kSuccess) \<and> used s' = used s - {t..<t + n} \<and> usable s'"
begin

lemma alloc_release:
  assumes "usable s" "0 < n" "alloc s n = Some (s', Inr t)"
  shows "\<exists>s''. release s' t n = Some (s'', kSuccess) \<and> used s'' = used s \<and> usable s''"
proof -
  note fresh = alloc_fresh [OF assms]
  then obtain s'' where "release s' t n = Some (s'', kSuccess)"
    "used s'' = used s' - {t..<t + n}" "usable s''"
    using release_frames [of s' t n] by auto
  with fresh show ?thesis by auto
qed

lemma alloc_twice_disjoint:
  assumes "usable s" "0 < n" "0 < k"
    and "alloc s n = Some (s1, Inr t)" "alloc s1 k = Some (s2, Inr u)"
  shows "{t..<t + n} \<inter> {u..<u + k} = {}"
proof -
  have "used s1 = used s \<union> {t..<t + n}" "usable s1"
    using alloc_fresh [OF assms(1,2,4)] by auto
  moreover from this have "used s1 \<inter> {u..<u + k} = {}"
    using alloc_fresh [of s1 k s2 u] assms(3,5) by simp
  ultimately show ?thesis by blast
qed

end

definition mm_usable :: "BitmapMemoryManager \<Rightarrow> bool" where
  "mm_usable m \<longleftrightarrow> range_end m \<le> kFrameCount"

interpretation bmm: frame_allocator allocated mm_usable Allocate Free
proof
  fix m :: BitmapMemoryManager and n :: nat
  assume m: "mm_usable m" and n: "0 < n"
  note cases = Allocate_cases [OF m [unfolded mm_usable_def] n]
  show "\<exists>m' r. Allocate m n = Some (m', r)" using cases by auto
  show "m' = m" if "Allocate m n = Some (m', Inl e)" for m' e
    using cases that by auto
  show "allocated m \<inter> {t..<t + n} = {} \<and> allocated m' = allocated m \<union> {t..<t + n} \<and>
      mm_usable m' \<and> t + n \<le> kFrameCount" if "Allocate m n = Some (m', Inr t)" for m' t
    using cases that m by (auto simp: fits_def mm_usable_def)
next
  fix m :: BitmapMemoryManager and t n :: nat
  assume "mm_usable m" "t + n \<le> kFrameCount"
  then show "\<exists>m'. Free m t n = Some (m', kSuccess) \<and> allocated m' = allocated m - {t..<t + n} \<and>
      mm_usable m'"
    using Free_Some [of t n m] by (auto simp: mm_usable_def)
qed

section \<open>Building the allocator from the UEFI memory map\<close>

datatype MemoryType =
    kEfiReservedMemoryType | kEfiLoaderCode | kEfiLoaderData | kEfiBootServicesCode
  | kEfiBootServicesData | kEfiRuntimeServicesCode | kEfiRuntimeServicesData
  | kEfiConventionalMemory | kEfiUnusableMemory | kEfiACPIReclaimMemory
  | kEfiACPIMemoryNVS | kEfiMemoryMappedIO | kEfiMemoryMappedIOPortSpace | kEfiPalCode
  | kEfiPersistentMemory | kEfiMaxMemoryType

fun MemoryType_number :: "MemoryType \<Rightarrow> u32" where
  "MemoryType_number kEfiReservedMemoryType = 0"
| "MemoryType_number kEfiLoaderCode = 1"
| "MemoryType_number kEfiLoaderData = 2"
| "MemoryType_number kEfiBootServicesCode = 3"
| "MemoryType_number kEfiBootServicesData = 4"
| "MemoryType_number kEfiRuntimeServicesCode = 5"
| "MemoryType_number kEfiRuntimeServicesData = 6"
| "MemoryType_number kEfiConventionalMemory = 7"
| "MemoryType_number kEfiUnusableMemory = 8"
| "MemoryType_number kEfiACPIReclaimMemory = 9"
| "MemoryType_number kEfiACPIMemoryNVS = 10"
| "MemoryType_number kEfiMemoryMappedIO = 11"
| "MemoryType_number kEfiMemoryMappedIOPortSpace = 12"
| "MemoryType_number kEfiPalCode = 13"
| "MemoryType_number kEfiPersistentMemory = 14"
| "MemoryType_number kEfiMaxMemoryType = 15"

text \<open>
  \<open>operator==(uint32_t, MemoryType)\<close> of \<open>memory_map.hpp\<close> assigns its left argument
  and returns the assigned value as a boolean.  The kernel does not call it.
\<close>

definition eq_u32_MemoryType :: "u32 \<Rightarrow> MemoryType \<Rightarrow> bool" where
  "eq_u32_MemoryType lhs rhs = (let lhs' = MemoryType_number rhs in lhs' \<noteq> 0)"

definition eq_MemoryType_u32 :: "MemoryType \<Rightarrow> u32 \<Rightarrow> bool" where
  "eq_MemoryType_u32 lhs rhs = eq_u32_MemoryType rhs lhs"

text \<open>\<open>IsAvailable\<close> compares the cast type field, any 32-bit value, with enumerators.\<close>

definition IsAvailable :: "u32 \<Rightarrow> bool" where
  "IsAvailable memory_type \<longleftrightarrow>
     memory_type = MemoryType_number kEfiBootServicesCode \<or>
     memory_type = MemoryType_number kEfiBootServicesData \<or>
     memory_type = MemoryType_number kEfiConventionalMemory"

record MemoryDescriptor =
  mem_type :: u32
  physical_start :: u64
  virtual_start :: u64
  number_of_pages :: u64
  attribute :: u64

record MemoryMap =
  buffer :: nat
  map_size :: nat
  descriptor_size :: nat

definition kUEFIPageSize :: u64 where "kUEFIPageSize = 4096"

definition frame_of :: "u64 \<Rightarrow> nat" where
  "frame_of a = unat (a div of_nat kBytesPerFrame)"

text \<open>The loop body: mark the gap before a descriptor, then the descriptor if unavailable.\<close>

definition map_step ::
  "BitmapMemoryManager \<Rightarrow> u64 \<Rightarrow> MemoryDescriptor \<Rightarrow> (BitmapMemoryManager \<times> u64) option" where
  "map_step m available_end desc =
    do {
      m1 \<leftarrow> (if available_end < physical_start desc
             then MarkAllocated m (frame_of available_end)
                    (frame_of (physical_start desc - available_end))
             else Some m);
      let physical_end = physical_start desc + number_of_pages desc * kUEFIPageSize;
      if IsAvailable (mem_type desc) then Some (m1, physical_end)
      else do {
        m2 \<leftarrow> MarkAllocated m1 (frame_of (physical_start desc))
               (frame_of (number_of_pages desc * kUEFIPageSize));
        Some (m2, available_end)
      }
    }"

text \<open>
  The descriptors are read through \<open>mem\<close> at \<open>iter\<close>, which advances by
  \<open>descriptor_size\<close>; with a descriptor size of 0 the loop would not end.
\<close>

function map_loop ::
  "(nat \<Rightarrow> MemoryDescriptor) \<Rightarrow> MemoryMap \<Rightarrow> nat \<Rightarrow> BitmapMemoryManager \<Rightarrow> u64 \<Rightarrow>
     (BitmapMemoryManager \<times> u64) option" where
  "map_loop mem memory_map iter m available_end =
    (if iter < buffer memory_map + map_size memory_map then
       if descriptor_size memory_map = 0 then None
       else (case map_step m available_end (mem iter) of
               None \<Rightarrow> None
             | Some (m', e') \<Rightarrow>
                 map_loop mem memory_map (iter + descriptor_size memory_map) m' e')
     else Some (m, available_end))"
  by pat_completeness auto
termination
  by (relation "measure (\<lambda>(mem, mp, iter, m, e). buffer mp + map_size mp - iter)") auto

declare map_loop.simps [simp del]

definition kHeapFrames :: nat where "kHeapFrames = 64 * 512"

text \<open>\<open>InitializeHeap\<close>: the new manager and the bounds of the heap for \<open>sbrk\<close>.\<close>

definition InitializeHeap ::
  "BitmapMemoryManager \<Rightarrow> (BitmapMemoryManager \<times> (u64 \<times> u64) WithError) option" where
  "InitializeHeap m =
    (case Allocate m kHeapFrames of
       None \<Rightarrow> None
     | Some (m', Inl e) \<Rightarrow> Some (m', Inl e)
     | Some (m', Inr heap_start) \<Rightarrow>
         let program_break = of_nat (heap_start * kBytesPerFrame) in
         Some (m', Inr (program_break, program_break + of_nat (kHeapFrames * kBytesPerFrame))))"

text \<open>An error of \<open>InitializeHeap\<close> ends the kernel with \<open>exit(1)\<close>: it is the result \<open>Inl\<close>.\<close>

definition InitializeMemoryManager ::
  "(nat \<Rightarrow> MemoryDescriptor) \<Rightarrow> MemoryMap \<Rightarrow>
     (BitmapMemoryManager \<times> (u64 \<times> u64) WithError) option" where
  "InitializeMemoryManager mem memory_map =
    (case map_loop mem memory_map (buffer memory_map) BitmapMemoryManager_new 0 of
       None \<Rightarrow> None
     | Some (m, available_end) \<Rightarrow>
         InitializeHeap (SetMemoryRange m 1 (frame_of available_end)))"

section \<open>Correctness of the memory map loop\<close>

text \<open>The frames a descriptor covers, and the descriptors the loop visits from \<open>iter\<close>.\<close>

definition desc_frames :: "MemoryDescriptor \<Rightarrow> nat set" where
  "desc_frames d = {unat (physical_start d) div 4096 ..<
                    unat (physical_start d) div 4096 + unat (number_of_pages d)}"

definition wf_desc :: "MemoryDescriptor \<Rightarrow> bool" where
  "wf_desc d \<longleftrightarrow> 4096 dvd unat (physical_start d) \<and>
     unat (physical_start d) + unat (number_of_pages d) * 4096 \<le> kMaxPhysicalMemoryBytes"

definition visited :: "(nat \<Rightarrow> MemoryDescriptor) \<Rightarrow> MemoryMap \<Rightarrow> nat \<Rightarrow> MemoryDescriptor set" where
  "visited mem mp iter =
     {mem (iter + k * descriptor_size mp) | k.
        iter + k * descriptor_size mp < buffer mp + map_size mp}"

lemma frame_of_unat: "frame_of a = unat a div 4096"
  by (simp add: frame_of_def kBytesPerFrame_def KiB_def unat_div)

lemma desc_unat:
  assumes "wf_desc d"
  shows "unat (number_of_pages d * kUEFIPageSize) = unat (number_of_pages d) * 4096"
    and "unat (physical_start d + number_of_pages d * kUEFIPageSize) =
           unat (physical_start d) + unat (number_of_pages d) * 4096"
proof -
  have lt: "unat (physical_start d) + unat (number_of_pages d) * 4096 < 2 ^ 64"
    using assms by (simp add: wf_desc_def kMaxPhysicalMemoryBytes_def GiB_def MiB_def KiB_def)
  show eq: "unat (number_of_pages d * kUEFIPageSize) = unat (number_of_pages d) * 4096"
    using lt by (simp add: unat_word_ariths kUEFIPageSize_def)
  show "unat (physical_start d + number_of_pages d * kUEFIPageSize) =
      unat (physical_start d) + unat (number_of_pages d) * 4096"
    using lt unfolding unat_word_ariths(1) eq by simp
qed

lemma unat_gap:
  assumes "a < (b :: 'a::len word)" "(k::nat) dvd unat a" "k dvd unat b" "0 < k"
  shows "unat a div k + unat (b - a) div k = unat b div k"
proof -
  have "unat (b - a) = unat b - unat a" using assms(1) by (simp add: unat_sub less_imp_le)
  moreover have "unat a < unat b" using assms(1) by (simp add: word_less_nat_alt)
  ultimately show ?thesis using assms by (auto elim!: dvdE simp flip: diff_mult_distrib2)
qed

lemma map_step_cases:
  assumes d: "wf_desc d" and e: "4096 dvd unat e" "unat e \<le> kMaxPhysicalMemoryBytes"
  shows "\<exists>m' e'. map_step m e d = Some (m', e') \<and>
    4096 dvd unat e' \<and> unat e' \<le> kMaxPhysicalMemoryBytes \<and>
    allocated m \<subseteq> allocated m' \<and>
    (\<forall>f. f < unat e' div 4096 \<and> f \<notin> allocated m' \<longrightarrow>
       f < unat e div 4096 \<or> IsAvailable (mem_type d) \<and> f \<in> desc_frames d) \<and>
    (\<not> IsAvailable (mem_type d) \<longrightarrow> desc_frames d \<subseteq> allocated m')"
proof -
  let ?s = "physical_start d" and ?n = "number_of_pages d"
  have end_le: "unat ?s div 4096 + unat ?n \<le> kFrameCount"
    using d by (auto simp: wf_desc_def frame_consts elim!: dvdE)
  obtain m1 where m1: "(if e < ?s then MarkAllocated m (frame_of e) (frame_of (?s - e)) else Some m)
        = Some m1" "allocated m \<subseteq> allocated m1"
      "\<forall>f. unat e div 4096 \<le> f \<and> f < unat ?s div 4096 \<longrightarrow> f \<in> allocated m1"
  proof (cases "e < ?s")
    case True
    have gap: "unat e div 4096 + unat (?s - e) div 4096 = unat ?s div 4096"
      using True e(1) d by (intro unat_gap) (auto simp: wf_desc_def)
    then show ?thesis
      using that MarkAllocated_Some [of "frame_of e" "frame_of (?s - e)" m] end_le True
      by (auto simp: frame_of_unat)
  next
    case False
    then have "unat ?s div 4096 \<le> unat e div 4096"
      by (intro div_le_mono) (simp add: word_le_nat_alt not_less)
    with False show ?thesis by (intro that [of m]) auto
  qed
  show ?thesis
  proof (cases "IsAvailable (mem_type d)")
    case True
    have "f < unat e div 4096 \<or> f \<in> desc_frames d"
      if "f < unat (?s + ?n * kUEFIPageSize) div 4096" "f \<notin> allocated m1" for f
      using that m1(3) [THEN spec, of f] unfolding desc_unat(2) [OF d]
      by (auto simp: desc_frames_def not_less)
    with True m1 d show ?thesis
      by (auto simp: map_step_def desc_unat [OF d] wf_desc_def)
  next
    case False
    obtain m2 where "MarkAllocated m1 (frame_of ?s) (frame_of (?n * kUEFIPageSize)) = Some m2"
      "allocated m2 = allocated m1 \<union> desc_frames d"
      using MarkAllocated_Some [of "frame_of ?s" "frame_of (?n * kUEFIPageSize)" m1] end_le
      by (auto simp: frame_of_unat desc_unat [OF d] desc_frames_def)
    with False m1 e show ?thesis by (auto simp: map_step_def)
  qed
qed

lemma visited_step:
  assumes "iter < buffer mp + map_size mp"
  shows "visited mem mp iter =
     insert (mem iter) (visited mem mp (iter + descriptor_size mp))"
proof -
  have "(\<exists>k. d = mem (iter + k * descriptor_size mp) \<and>
           iter + k * descriptor_size mp < buffer mp + map_size mp) \<longleftrightarrow>
        d = mem iter \<or> (\<exists>k. d = mem (iter + descriptor_size mp + k * descriptor_size mp) \<and>
           iter + descriptor_size mp + k * descriptor_size mp < buffer mp + map_size mp)"
    (is "?l \<longleftrightarrow> ?r") for d
  proof
    assume ?l
    then obtain k where "d = mem (iter + k * descriptor_size mp)"
      "iter + k * descriptor_size mp < buffer mp + map_size mp" by blast
    then show ?r by (cases k) (auto simp: add.assoc)
  next
    assume ?r
    then show ?l using assms
      by (metis add.assoc add_0_right mult_0 mult_Suc)
  qed
  then show ?thesis by (auto simp: visited_def)
qed

lemma map_loop_cases:
  assumes "\<forall>d \<in> visited mem mp iter. wf_desc d" "0 < descriptor_size mp"
    and "4096 dvd unat e" "unat e \<le> kMaxPhysicalMemoryBytes"
  shows "\<exists>m' e'. map_loop mem mp iter m e = Some (m', e') \<and>
    unat e' \<le> kMaxPhysicalMemoryBytes \<and> allocated m \<subseteq> allocated m' \<and>
    (\<forall>f. f < unat e' div 4096 \<and> f \<notin> allocated m' \<longrightarrow>
       f < unat e div 4096 \<or>
       (\<exists>d \<in> visited mem mp iter. IsAvailable (mem_type d) \<and> f \<in> desc_frames d)) \<and>
    (\<forall>d \<in> visited mem mp iter. \<not> IsAvailable (mem_type d) \<longrightarrow> desc_frames d \<subseteq> allocated m')"
  using assms
proof (induction mem mp iter m e rule: map_loop.induct)
  case (1 mem mp iter m e)
  show ?case
  proof (cases "iter < buffer mp + map_size mp")
    case False
    then show ?thesis using "1.prems" by (subst map_loop.simps) (auto simp: visited_def)
  next
    case True
    note vis = visited_step [OF True, of mem]
    from map_step_cases [of "mem iter" e m] "1.prems" vis obtain m1 e1
      where s1: "map_step m e (mem iter) = Some (m1, e1)" "4096 dvd unat e1"
        "unat e1 \<le> kMaxPhysicalMemoryBytes" "allocated m \<subseteq> allocated m1"
        "\<forall>f. f < unat e1 div 4096 \<and> f \<notin> allocated m1 \<longrightarrow> f < unat e div 4096 \<or>
           IsAvailable (mem_type (mem iter)) \<and> f \<in> desc_frames (mem iter)"
        "\<not> IsAvailable (mem_type (mem iter)) \<longrightarrow> desc_frames (mem iter) \<subseteq> allocated m1"
      by auto
    from "1.IH" [OF True _ s1(1) refl] "1.prems" vis s1(2,3) obtain m2 e2
      where s2: "map_loop mem mp (iter + descriptor_size mp) m1 e1 = Some (m2, e2)"
        "unat e2 \<le> kMaxPhysicalMemoryBytes" "allocated m1 \<subseteq> allocated m2"
        "\<forall>f. f < unat e2 div 4096 \<and> f \<notin> allocated m2 \<longrightarrow> f < unat e1 div 4096 \<or>
           (\<exists>d \<in> visited mem mp (iter + descriptor_size mp).
              IsAvailable (mem_type d) \<and> f \<in> desc_frames d)"
        "\<forall>d \<in> visited mem mp (iter + descriptor_size mp). \<not> IsAvailable (mem_type d) \<longrightarrow>
           desc_frames d \<subseteq> allocated m2"
      by auto
    have "map_loop mem mp iter m e = Some (m2, e2)"
      using True "1.prems"(2) s1(1) s2(1) by (subst map_loop.simps) simp
    moreover have "\<forall>f. f < unat e2 div 4096 \<and> f \<notin> allocated m2 \<longrightarrow> f < unat e div 4096 \<or>
        (\<exists>d \<in> visited mem mp iter. IsAvailable (mem_type d) \<and> f \<in> desc_frames d)"
      using s1(5) s2(3,4) unfolding vis by blast
    ultimately show ?thesis using s1(4,6) s2(2,3,5) unfolding vis by blast
  qed
qed

section \<open>Counting allocated frames\<close>

lemma popcount_card: "popcount w = card {b. b < 64 \<and> bit w b}"
  by (auto simp: popcount_def length_filter_conv_card intro!: arg_cong [of _ _ card])

lemma card_line:
  assumes "l < kMapLines"
  shows "card (allocated m \<inter> {64 * l..<64 * Suc l}) = popcount (alloc_map m l)"
proof -
  have "allocated m \<inter> {64 * l..<64 * Suc l} =
      (\<lambda>b. 64 * l + b) ` {b. b < 64 \<and> bit (alloc_map m l) b}"
  proof (intro set_eqI iffI)
    fix f assume f: "f \<in> allocated m \<inter> {64 * l..<64 * Suc l}"
    then have "f div 64 = l" by auto
    with f show "f \<in> (\<lambda>b. 64 * l + b) ` {b. b < 64 \<and> bit (alloc_map m l) b}"
      by (intro image_eqI [of _ _ "f mod 64"])
        (auto simp: allocated_def frame_bit_def kBitsPerMapLine_def)
  next
    fix f assume "f \<in> (\<lambda>b. 64 * l + b) ` {b. b < 64 \<and> bit (alloc_map m l) b}"
    then show "f \<in> allocated m \<inter> {64 * l..<64 * Suc l}"
      using assms by (auto simp: allocated_def frame_bit_def frame_consts)
  qed
  then show ?thesis by (simp add: popcount_card card_image)
qed

lemma sum_lines:
  "lo \<le> hi \<Longrightarrow> hi \<le> kMapLines \<Longrightarrow>
     sum_list (map (\<lambda>i. popcount (alloc_map m i)) [lo..<hi]) =
     card (allocated m \<inter> {64 * lo..<64 * hi})"
proof (induction rule: dec_induct)
  case base
  then show ?case by simp
next
  case (step hi)
  have split: "allocated m \<inter> {64 * lo..<64 * Suc hi} =
      (allocated m \<inter> {64 * lo..<64 * hi}) \<union> (allocated m \<inter> {64 * hi..<64 * Suc hi})"
    using step.hyps by auto
  have "card (allocated m \<inter> {64 * lo..<64 * Suc hi}) =
      card (allocated m \<inter> {64 * lo..<64 * hi}) + card (allocated m \<inter> {64 * hi..<64 * Suc hi})"
    unfolding split by (intro card_Un_disjoint) auto
  then show ?case using step by (simp only: upt_Suc) (simp add: card_line del: mult_Suc_right)
qed

section \<open>Properties\<close>

text \<open>
  C5. \<open>Allocate\<close> is first fit: when some run of \<open>n\<close> free frames lies in the managed range it
  returns the lowest one and marks exactly those frames; otherwise it returns
  \<open>kNoEnoughMemory\<close> and changes nothing.  The bitmap is never accessed outside the array.
\<close>

theorem Allocate_first_fit:
  assumes "range_end m \<le> kFrameCount" "0 < n"
  shows "\<exists>m' r. Allocate m n = Some (m', r) \<and>
    (case r of
       Inr t \<Rightarrow> fits m t n \<and> (\<forall>t'<t. \<not> fits m t' n) \<and>
                allocated m' = allocated m \<union> {t..<t + n} \<and>
                range_begin m' = range_begin m \<and> range_end m' = range_end m
     | Inl e \<Rightarrow> e = kNoEnoughMemory \<and> m' = m \<and> (\<forall>t. \<not> fits m t n))"
  using assms by (rule Allocate_cases)

theorem Allocate_first_fit_witness:
  "\<exists>m' r. Allocate BitmapMemoryManager_new 2 = Some (m', r) \<and>
    (case r of
       Inr t \<Rightarrow> fits BitmapMemoryManager_new t 2 \<and>
                (\<forall>t'<t. \<not> fits BitmapMemoryManager_new t' 2) \<and>
                allocated m' = allocated BitmapMemoryManager_new \<union> {t..<t + 2} \<and>
                range_begin m' = range_begin BitmapMemoryManager_new \<and>
                range_end m' = range_end BitmapMemoryManager_new
     | Inl e \<Rightarrow> e = kNoEnoughMemory \<and> m' = BitmapMemoryManager_new \<and>
                (\<forall>t. \<not> fits BitmapMemoryManager_new t 2))"
  by (rule Allocate_first_fit) (simp_all add: BitmapMemoryManager_new_def)

text \<open>
  Freeing what \<open>Allocate\<close> returned always succeeds and restores exactly the set of
  frames that was in use before.
\<close>

lemma Allocate_Free_roundtrip:
  assumes "mm_usable m" "0 < n" "Allocate m n = Some (m', Inr t)"
  shows "\<exists>m''. Free m' t n = Some (m'', kSuccess) \<and> allocated m'' = allocated m \<and> mm_usable m''"
  using assms by (rule bmm.alloc_release)

lemma Allocate_Free_roundtrip_witness:
  "\<exists>m' m''. Allocate BitmapMemoryManager_new 1 = Some (m', Inr 0) \<and>
     Free m' 0 1 = Some (m'', kSuccess) \<and> allocated m'' = allocated BitmapMemoryManager_new"
proof -
  have a: "\<exists>m'. Allocate BitmapMemoryManager_new 1 = Some (m', Inr 0)"
    by (simp add: Allocate_def Allocate_from.simps [of _ 0] scan_frames.simps
        BitmapMemoryManager_new_def GetBit_def MarkAllocated_def SetBit_def frame_consts)
  then obtain m' where m': "Allocate BitmapMemoryManager_new 1 = Some (m', Inr 0)" by blast
  have u: "mm_usable BitmapMemoryManager_new"
    by (simp add: mm_usable_def BitmapMemoryManager_new_def)
  from Allocate_Free_roundtrip [OF u _ m'] m' show ?thesis by auto
qed

text \<open>
  \<open>Stat\<close> counts the allocated frames of the whole bitmap lines from the one of
  \<open>range_begin\<close> up to, and without, the one of \<open>range_end\<close>: exact when both are multiples of
  64, and otherwise rounded down to lines.
\<close>

lemma Stat_counts_lines:
  assumes "range_end m \<le> kFrameCount"
  shows "Stat m =
    \<lparr>allocated_frames =
       card (allocated m \<inter> {64 * (range_begin m div 64)..<64 * (range_end m div 64)}),
     total_frames = range_end m - range_begin m\<rparr>"
proof (cases "range_begin m div 64 \<le> range_end m div 64")
  case True
  have "range_end m div 64 \<le> kMapLines" using assms by (simp add: frame_consts)
  with sum_lines [OF True, of m] show ?thesis by (simp add: Stat_def kBitsPerMapLine_def)
next
  case False
  then show ?thesis by (simp add: Stat_def kBitsPerMapLine_def)
qed

lemma Stat_counts_lines_witness:
  "Stat BitmapMemoryManager_new =
    \<lparr>allocated_frames = card (allocated BitmapMemoryManager_new \<inter>
        {64 * (range_begin BitmapMemoryManager_new div 64)..<
         64 * (range_end BitmapMemoryManager_new div 64)}),
     total_frames = range_end BitmapMemoryManager_new - range_begin BitmapMemoryManager_new\<rparr>"
  by (rule Stat_counts_lines) (simp add: BitmapMemoryManager_new_def)

text \<open>
  C36. For a UEFI memory map of page-aligned descriptors below 128 GiB, initialisation never
  leaves the bitmap array; every frame the manager can still hand out lies inside a
  descriptor that UEFI reports as available; every frame of an unavailable descriptor is
  marked; and the kernel heap lies in available memory and is marked.
\<close>

theorem InitializeMemoryManager_safe:
  assumes "\<forall>d \<in> visited mem mp (buffer mp). wf_desc d" "0 < descriptor_size mp"
  shows "\<exists>m r. InitializeMemoryManager mem mp = Some (m, r) \<and> mm_usable m \<and>
    (\<forall>f. f < range_end m \<and> f \<notin> allocated m \<longrightarrow>
       (\<exists>d \<in> visited mem mp (buffer mp). IsAvailable (mem_type d) \<and> f \<in> desc_frames d)) \<and>
    (\<forall>d \<in> visited mem mp (buffer mp). \<not> IsAvailable (mem_type d) \<longrightarrow>
       desc_frames d \<subseteq> allocated m) \<and>
    (case r of
       Inl e \<Rightarrow> e = kNoEnoughMemory
     | Inr (b, e) \<Rightarrow> \<exists>s. b = of_nat (s * 4096) \<and> e = b + 2 ^ 27 \<and>
         (\<forall>f \<in> {s..<s + kHeapFrames}. f \<in> allocated m \<and>
            (\<exists>d \<in> visited mem mp (buffer mp). IsAvailable (mem_type d) \<and> f \<in> desc_frames d)))"
proof -
  from map_loop_cases [OF assms, of 0 BitmapMemoryManager_new] obtain m e
    where l: "map_loop mem mp (buffer mp) BitmapMemoryManager_new 0 = Some (m, e)"
      "unat e \<le> kMaxPhysicalMemoryBytes"
      "\<forall>f. f < unat e div 4096 \<and> f \<notin> allocated m \<longrightarrow>
         (\<exists>d \<in> visited mem mp (buffer mp). IsAvailable (mem_type d) \<and> f \<in> desc_frames d)"
      "\<forall>d \<in> visited mem mp (buffer mp). \<not> IsAvailable (mem_type d) \<longrightarrow> desc_frames d \<subseteq> allocated m"
    by auto
  define m0 where "m0 = SetMemoryRange m 1 (frame_of e)"
  have m0: "allocated m0 = allocated m" "range_end m0 = unat e div 4096"
    by (simp_all add: m0_def SetMemoryRange_def allocated_def frame_bit_def frame_of_unat)
  have le: "range_end m0 \<le> kFrameCount"
    using l(2) m0(2) by (simp add: frame_consts div_le_mono)
  from Allocate_cases [OF le, of kHeapFrames] obtain m1 r
    where a: "Allocate m0 kHeapFrames = Some (m1, r)" and
      r: "case r of
       Inr t \<Rightarrow> fits m0 t kHeapFrames \<and> (\<forall>t'<t. \<not> fits m0 t' kHeapFrames) \<and>
                allocated m1 = allocated m0 \<union> {t..<t + kHeapFrames} \<and>
                range_begin m1 = range_begin m0 \<and> range_end m1 = range_end m0
     | Inl e \<Rightarrow> e = kNoEnoughMemory \<and> m1 = m0 \<and> (\<forall>t. \<not> fits m0 t kHeapFrames)"
    by (auto simp: kHeapFrames_def)
  show ?thesis
  proof (cases r)
    case (Inl err)
    with l a r m0 le show ?thesis
      by (auto simp: InitializeMemoryManager_def InitializeHeap_def mm_usable_def m0_def)
  next
    case (Inr s)
    then have fit: "fits m0 s kHeapFrames" and al: "allocated m1 = allocated m \<union> {s..<s + kHeapFrames}"
      and re: "range_end m1 = unat e div 4096"
      using r m0 by auto
    have heap: "\<exists>d \<in> visited mem mp (buffer mp). IsAvailable (mem_type d) \<and> f \<in> desc_frames d"
      if "f \<in> {s..<s + kHeapFrames}" for f
      using l(3) fit m0 that by (auto simp: fits_def)
    have "InitializeMemoryManager mem mp =
        Some (m1, Inr (of_nat (s * 4096), of_nat (s * 4096) + 2 ^ 27))"
      using l(1) a Inr
      unfolding InitializeMemoryManager_def InitializeHeap_def l(1)
      by (simp add: m0_def [symmetric] kHeapFrames_def kBytesPerFrame_def KiB_def Let_def del: One_nat_def)
    with l(3,4) al re le m0(2) heap show ?thesis
      by (auto simp: mm_usable_def)
  qed
qed

definition sample_descriptor :: MemoryDescriptor where
  "sample_descriptor = \<lparr>mem_type = 7, physical_start = 0, virtual_start = 0,
                         number_of_pages = 40000, attribute = 0\<rparr>"

definition sample_map :: MemoryMap where
  "sample_map = \<lparr>buffer = 0, map_size = 48, descriptor_size = 48\<rparr>"

theorem InitializeMemoryManager_safe_witness:
  "\<exists>m r. InitializeMemoryManager (\<lambda>_. sample_descriptor) sample_map = Some (m, r) \<and> mm_usable m"
proof -
  have w: "\<forall>d \<in> visited (\<lambda>_. sample_descriptor) sample_map (buffer sample_map). wf_desc d"
    by (auto simp: visited_def sample_descriptor_def wf_desc_def kMaxPhysicalMemoryBytes_def GiB_def MiB_def KiB_def)
  have s: "0 < descriptor_size sample_map" by (simp add: sample_map_def)
  from InitializeMemoryManager_safe [OF w s] show ?thesis by blast
qed

end
