(* ===== verification/Paging.thy ===== *)
theory Paging
  imports Memory_Manager
begin

text \<open>
  Four-level page tables: \<open>kernel/paging.hpp\<close> and \<open>kernel/paging.cpp\<close>.  Physical memory is
  a function from the address of an aligned 64-bit word to its value; the kernel reaches page
  tables through the identity map, so a table pointer is a physical address.  The state is
  that memory, register CR3 and the frame allocator.  \<open>HandlePageFault\<close>, which also reads the
  current task, is in theory \<open>Interrupts\<close>.
\<close>

section \<open>Linear addresses\<close>

type_synonym LinearAddress4Level = u64

text \<open>The start bit and the width of \<open>parts.offset\<close>, \<open>page\<close>, \<open>dir\<close>, \<open>pdp\<close>, \<open>pml4\<close>.\<close>

fun part_lo :: "nat \<Rightarrow> nat" where
  "part_lo 0 = 0"
| "part_lo (Suc k) = 12 + 9 * k"

fun part_width :: "nat \<Rightarrow> nat" where
  "part_width 0 = 12"
| "part_width (Suc k) = 9"

definition Part :: "LinearAddress4Level \<Rightarrow> nat \<Rightarrow> nat" where
  "Part addr page_map_level =
    (if page_map_level \<le> 4
     then unat (get_bits (part_lo page_map_level) (part_width page_map_level) addr)
     else 0)"

definition SetPart :: "LinearAddress4Level \<Rightarrow> nat \<Rightarrow> nat \<Rightarrow> LinearAddress4Level" where
  "SetPart addr page_map_level v =
    (if page_map_level \<le> 4
     then put_bits (part_lo page_map_level) (part_width page_map_level) (of_nat v) addr
     else addr)"

section \<open>Page map entries\<close>

type_synonym PageMapEntry = u64

definition pme_present :: "PageMapEntry \<Rightarrow> bool" where "pme_present e = bit e 0"
definition pme_writable :: "PageMapEntry \<Rightarrow> bool" where "pme_writable e = bit e 1"
definition pme_user :: "PageMapEntry \<Rightarrow> bool" where "pme_user e = bit e 2"

definition set_present :: "bool \<Rightarrow> PageMapEntry \<Rightarrow> PageMapEntry" where
  "set_present b e = put_bits 0 1 (of_bool b) e"
definition set_writable :: "bool \<Rightarrow> PageMapEntry \<Rightarrow> PageMapEntry" where
  "set_writable b e = put_bits 1 1 (of_bool b) e"
definition set_user :: "bool \<Rightarrow> PageMapEntry \<Rightarrow> PageMapEntry" where
  "set_user b e = put_bits 2 1 (of_bool b) e"

definition Pointer :: "PageMapEntry \<Rightarrow> u64" where
  "Pointer e = push_bit 12 (get_bits 12 40 e)"

definition SetPointer :: "u64 \<Rightarrow> PageMapEntry \<Rightarrow> PageMapEntry" where
  "SetPointer p e = put_bits 12 40 (drop_bit 12 p) e"

section \<open>Machine state\<close>

type_synonym memory = "u64 \<Rightarrow> u64"

record paging_state =
  pmem :: memory
  cr3 :: u64
  memory_manager :: BitmapMemoryManager

text \<open>Address of \<open>page_map[i]\<close>, and reading and writing it.\<close>

definition entry_addr :: "u64 \<Rightarrow> nat \<Rightarrow> u64" where
  "entry_addr table i = table + of_nat (8 * i)"

definition get_entry :: "memory \<Rightarrow> u64 \<Rightarrow> nat \<Rightarrow> PageMapEntry" where
  "get_entry m table i = m (entry_addr table i)"

definition put_entry :: "u64 \<Rightarrow> nat \<Rightarrow> PageMapEntry \<Rightarrow> memory \<Rightarrow> memory" where
  "put_entry table i e m = m(entry_addr table i := e)"

definition upd_entry ::
  "u64 \<Rightarrow> nat \<Rightarrow> (PageMapEntry \<Rightarrow> PageMapEntry) \<Rightarrow> paging_state \<Rightarrow> paging_state" where
  "upd_entry table i f s = s\<lparr>pmem := put_entry table i (f (get_entry (pmem s) table i)) (pmem s)\<rparr>"

text \<open>\<open>memset(e, 0, 8 * n)\<close> and \<open>memcpy\<close> of \<open>n\<close> aligned words.\<close>

fun clear_words :: "u64 \<Rightarrow> nat \<Rightarrow> memory \<Rightarrow> memory" where
  "clear_words p 0 m = m"
| "clear_words p (Suc n) m = (clear_words p n m)(entry_addr p n := 0)"

fun copy_words :: "u64 \<Rightarrow> u64 \<Rightarrow> nat \<Rightarrow> memory \<Rightarrow> memory" where
  "copy_words dst src 0 m = m"
| "copy_words dst src (Suc n) m =
     (let m' = copy_words dst src n m in m'(entry_addr dst n := m' (entry_addr src n)))"

section \<open>The identity map of the kernel\<close>

definition kPageDirectoryCount :: nat where "kPageDirectoryCount = 64"
definition kPageSize4K :: u64 where "kPageSize4K = 4096"
definition kPageSize2M :: u64 where "kPageSize2M = 512 * kPageSize4K"
definition kPageSize1G :: u64 where "kPageSize1G = 512 * kPageSize2M"

text \<open>The static tables, at addresses chosen by the linker: parameters of the model.\<close>

record kernel_tables =
  pml4_table :: u64
  pdp_table :: u64
  page_directory :: u64

definition page_directory_at :: "kernel_tables \<Rightarrow> nat \<Rightarrow> u64" where
  "page_directory_at t i_pdpt = page_directory t + of_nat (4096 * i_pdpt)"

fun fill_page_directory :: "kernel_tables \<Rightarrow> nat \<Rightarrow> nat \<Rightarrow> memory \<Rightarrow> memory" where
  "fill_page_directory t i_pdpt 0 m = m"
| "fill_page_directory t i_pdpt (Suc i_pd) m =
     put_entry (page_directory_at t i_pdpt) i_pd
       ((of_nat i_pdpt * kPageSize1G + of_nat i_pd * kPageSize2M) OR 0x083)
       (fill_page_directory t i_pdpt i_pd m)"

fun fill_pdp_table :: "kernel_tables \<Rightarrow> nat \<Rightarrow> memory \<Rightarrow> memory" where
  "fill_pdp_table t 0 m = m"
| "fill_pdp_table t (Suc i_pdpt) m =
     fill_page_directory t i_pdpt 512
       (put_entry (pdp_table t) i_pdpt (page_directory_at t i_pdpt OR 0x003)
          (fill_pdp_table t i_pdpt m))"

definition ResetCR3 :: "kernel_tables \<Rightarrow> paging_state \<Rightarrow> paging_state" where
  "ResetCR3 t s = s\<lparr>cr3 := pml4_table t\<rparr>"

text \<open>The second component is CR0, whose WP bit (bit 16) is cleared.\<close>

definition SetupIdentityPageTable ::
  "kernel_tables \<Rightarrow> paging_state \<times> u64 \<Rightarrow> paging_state \<times> u64" where
  "SetupIdentityPageTable t = (\<lambda>(s, cr0).
    let m = put_entry (pml4_table t) 0 (pdp_table t OR 0x003) (pmem s);
        m' = fill_pdp_table t kPageDirectoryCount m
    in (ResetCR3 t (s\<lparr>pmem := m'\<rparr>), cr0 AND 0xfffeffff))"

definition InitializePaging ::
  "kernel_tables \<Rightarrow> paging_state \<times> u64 \<Rightarrow> paging_state \<times> u64" where
  "InitializePaging t = SetupIdentityPageTable t"

section \<open>Page table allocation\<close>

definition NewPageMap :: "paging_state \<Rightarrow> (paging_state \<times> u64 WithError) option" where
  "NewPageMap s =
    (case Allocate (memory_manager s) 1 of
       None \<Rightarrow> None
     | Some (mm, Inl e) \<Rightarrow> Some (s\<lparr>memory_manager := mm\<rparr>, Inl e)
     | Some (mm, Inr frame) \<Rightarrow>
         let e = Frame frame in
         Some (s\<lparr>memory_manager := mm, pmem := clear_words e 512 (pmem s)\<rparr>, Inr e))"

definition FreePageMap :: "paging_state \<Rightarrow> u64 \<Rightarrow> (paging_state \<times> ErrorCode) option" where
  "FreePageMap s table =
    map_option (\<lambda>(mm, e). (s\<lparr>memory_manager := mm\<rparr>, e))
      (Free (memory_manager s) (unat (table div of_nat kBytesPerFrame)) 1)"

definition SetNewPageMapIfNotPresent ::
  "paging_state \<Rightarrow> u64 \<Rightarrow> nat \<Rightarrow> (paging_state \<times> u64 WithError) option" where
  "SetNewPageMapIfNotPresent s table i =
    (let entry = get_entry (pmem s) table i in
     if pme_present entry then Some (s, Inr (Pointer entry))
     else (case NewPageMap s of
             None \<Rightarrow> None
           | Some (s', Inl e) \<Rightarrow> Some (s', Inl e)
           | Some (s', Inr child_map) \<Rightarrow>
               Some (upd_entry table i (\<lambda>en. set_present True (SetPointer child_map en)) s',
                     Inr child_map)))"

text \<open>The inner loop of \<open>SetupPageMap\<close>: clear the parts of all lower levels.\<close>

fun clear_parts :: "nat \<Rightarrow> LinearAddress4Level \<Rightarrow> LinearAddress4Level" where
  "clear_parts 0 addr = addr"
| "clear_parts (Suc lvl) addr = clear_parts lvl (SetPart addr (Suc lvl) 0)"

definition next_addr :: "nat \<Rightarrow> LinearAddress4Level \<Rightarrow> LinearAddress4Level" where
  "next_addr lvl addr = clear_parts (lvl - 1) (SetPart addr lvl (Part addr lvl + 1))"

lemma part_bounds: "lvl \<le> 4 \<Longrightarrow> part_lo lvl + part_width lvl \<le> 48"
  by (cases lvl) auto

lemma part_order: "i < j \<Longrightarrow> part_lo i + part_width i \<le> part_lo j"
  by (cases i; cases j) auto

lemma Part_SetPart_same:
  "lvl \<le> 4 \<Longrightarrow> v < 2 ^ part_width lvl \<Longrightarrow> Part (SetPart addr lvl v) lvl = v"
  using part_bounds [of lvl] by (simp add: Part_def SetPart_def unat_take_bit_of_nat)

lemma Part_SetPart_other: "i \<noteq> j \<Longrightarrow> Part (SetPart addr j v) i = Part addr i"
  using part_bounds [of i] part_order [of i j] part_order [of j i]
  by (auto simp: Part_def SetPart_def neq_iff)

lemma Part_clear_parts: "Part (clear_parts k addr) i = (if 1 \<le> i \<and> i \<le> k \<and> i \<le> 4 then 0 else Part addr i)"
proof (induction k arbitrary: addr)
  case 0
  then show ?case by simp
next
  case (Suc k)
  have "Part (SetPart addr (Suc k) 0) i = (if i = Suc k \<and> i \<le> 4 then 0 else Part addr i)"
    by (cases "i \<le> 4") (auto simp: Part_SetPart_other Part_SetPart_same, simp add: Part_def)
  then show ?case by (auto simp: Suc)
qed

lemma Part_less: "1 \<le> lvl \<Longrightarrow> Part addr lvl < 512"
  using get_bits_less [of 9 "part_lo lvl" addr] by (cases lvl) (auto simp: Part_def)

lemma Part_next_addr:
  assumes "1 \<le> lvl" "lvl \<le> 4" "Part addr lvl \<noteq> 511"
  shows "Part (next_addr lvl addr) lvl = Part addr lvl + 1"
  using Part_less [OF assms(1), of addr] assms
  by (cases lvl) (auto simp: next_addr_def Part_clear_parts Part_SetPart_same)

lemma next_addr_decreases:
  "0 < lvl \<Longrightarrow> lvl \<le> 4 \<Longrightarrow> Part addr lvl \<noteq> 511 \<Longrightarrow>
     511 - Part (next_addr lvl addr) lvl < 511 - Part addr lvl"
  using Part_next_addr [of lvl addr] Part_less [of lvl addr] by simp

section \<open>Mapping, unmapping and copying\<close>

text \<open>
  The \<open>while\<close> loop of \<open>SetupPageMap\<close> is the recursion at the same level, its recursive call
  the one at \<open>page_map_level - 1\<close>.  The callers use levels 4 to 1; at any other level the C++
  recursion would have no base case, so the model returns \<open>None\<close> there.
\<close>

function SetupPageMap ::
  "paging_state \<Rightarrow> u64 \<Rightarrow> nat \<Rightarrow> LinearAddress4Level \<Rightarrow> nat \<Rightarrow> bool \<Rightarrow>
     (paging_state \<times> nat WithError) option" where
  "SetupPageMap s page_map page_map_level addr num_4kpages writable =
    (if num_4kpages = 0 then Some (s, Inr 0)
     else if page_map_level = 0 \<or> page_map_level > 4 then None
     else let entry_index = Part addr page_map_level in
       case SetNewPageMapIfNotPresent s page_map entry_index of
         None \<Rightarrow> None
       | Some (s1, Inl e) \<Rightarrow> Some (s1, Inl e)
       | Some (s1, Inr child_map) \<Rightarrow>
           let s2 = upd_entry page_map entry_index (set_user True) s1 in
           if page_map_level = 1 then
             let s3 = upd_entry page_map entry_index (set_writable writable) s2 in
             if entry_index = 511 then Some (s3, Inr (num_4kpages - 1))
             else SetupPageMap s3 page_map page_map_level (next_addr page_map_level addr)
                    (num_4kpages - 1) writable
           else
             let s3 = upd_entry page_map entry_index (set_writable True) s2 in
             case SetupPageMap s3 child_map (page_map_level - 1) addr num_4kpages writable of
               None \<Rightarrow> None
             | Some (s4, Inl e) \<Rightarrow> Some (s4, Inl e)
             | Some (s4, Inr num_remain_pages) \<Rightarrow>
                 if entry_index = 511 then Some (s4, Inr num_remain_pages)
                 else SetupPageMap s4 page_map page_map_level (next_addr page_map_level addr)
                        num_remain_pages writable)"
  by pat_completeness auto
termination
  by (relation "measures [\<lambda>(s, t, lvl, a, n, w). lvl, \<lambda>(s, t, lvl, a, n, w). 511 - Part a lvl]")
    (auto simp: next_addr_decreases)

declare SetupPageMap.simps [simp del]

definition SetupPageMaps ::
  "paging_state \<Rightarrow> LinearAddress4Level \<Rightarrow> nat \<Rightarrow> bool \<Rightarrow> (paging_state \<times> ErrorCode) option" where
  "SetupPageMaps s addr num_4kpages writable =
    (case SetupPageMap s (cr3 s) 4 addr num_4kpages writable of
       None \<Rightarrow> None
     | Some (s', Inl e) \<Rightarrow> Some (s', e)
     | Some (s', Inr _) \<Rightarrow> Some (s', kSuccess))"

text \<open>
  The loop of \<open>CleanPageMap\<close> from index \<open>i\<close>.  The entry is read before the recursive call,
  and only the frame of a writable entry is given back.
\<close>

function CleanPageMap_from ::
  "paging_state \<Rightarrow> u64 \<Rightarrow> nat \<Rightarrow> LinearAddress4Level \<Rightarrow> nat \<Rightarrow>
     (paging_state \<times> ErrorCode) option" where
  "CleanPageMap_from s page_map page_map_level addr i =
    (if i < 512 then
       let entry = get_entry (pmem s) page_map i in
       if \<not> pme_present entry then CleanPageMap_from s page_map page_map_level addr (Suc i)
       else
         case (if page_map_level > 1
               then CleanPageMap_from s (Pointer entry) (page_map_level - 1) addr
                      (Part addr (page_map_level - 1))
               else Some (s, kSuccess)) of
           None \<Rightarrow> None
         | Some (s1, err) \<Rightarrow>
             if err \<noteq> kSuccess then Some (s1, err)
             else
               case (if pme_writable entry then FreePageMap s1 (Pointer entry)
                     else Some (s1, kSuccess)) of
                 None \<Rightarrow> None
               | Some (s2, err2) \<Rightarrow>
                   if err2 \<noteq> kSuccess then Some (s2, err2)
                   else CleanPageMap_from (upd_entry page_map i (\<lambda>_. 0) s2)
                          page_map page_map_level addr (Suc i)
     else Some (s, kSuccess))"
  by pat_completeness auto
termination
  by (relation "measures [\<lambda>(s, t, lvl, a, i). lvl, \<lambda>(s, t, lvl, a, i). 512 - i]") auto

declare CleanPageMap_from.simps [simp del]

definition CleanPageMap ::
  "paging_state \<Rightarrow> u64 \<Rightarrow> nat \<Rightarrow> LinearAddress4Level \<Rightarrow> (paging_state \<times> ErrorCode) option" where
  "CleanPageMap s page_map page_map_level addr =
     CleanPageMap_from s page_map page_map_level addr (Part addr page_map_level)"

definition CleanPageMaps ::
  "paging_state \<Rightarrow> LinearAddress4Level \<Rightarrow> (paging_state \<times> ErrorCode) option" where
  "CleanPageMaps s addr = CleanPageMap s (cr3 s) 4 addr"

text \<open>\<open>CopyPageMaps\<close> at level 1: copy each present entry, read only.\<close>

function copy_leaf_entries :: "u64 \<Rightarrow> u64 \<Rightarrow> nat \<Rightarrow> memory \<Rightarrow> memory" where
  "copy_leaf_entries dest src i m =
    (if i < 512 then
       let e = get_entry m src i in
       copy_leaf_entries dest src (Suc i)
         (if pme_present e then put_entry dest i (set_writable False e) m else m)
     else m)"
  by pat_completeness auto
termination by (relation "measure (\<lambda>(d, s, i, m). 512 - i)") auto

declare copy_leaf_entries.simps [simp del]

function CopyPageMaps ::
  "paging_state \<Rightarrow> u64 \<Rightarrow> u64 \<Rightarrow> nat \<Rightarrow> nat \<Rightarrow> (paging_state \<times> ErrorCode) option" where
  "CopyPageMaps s dest src part start =
    (if part = 0 then None
     else if part = 1 then
       Some (s\<lparr>pmem := copy_leaf_entries dest src start (pmem s)\<rparr>, kSuccess)
     else if start < 512 then
       let e = get_entry (pmem s) src start in
       if \<not> pme_present e then CopyPageMaps s dest src part (Suc start)
       else
         case NewPageMap s of
           None \<Rightarrow> None
         | Some (s1, Inl err) \<Rightarrow> Some (s1, err)
         | Some (s1, Inr table) \<Rightarrow>
             let e1 = get_entry (pmem s1) src start;
                 s2 = s1\<lparr>pmem := put_entry dest start (SetPointer table e1) (pmem s1)\<rparr> in
             case CopyPageMaps s2 table (Pointer (get_entry (pmem s2) src start)) (part - 1) 0 of
               None \<Rightarrow> None
             | Some (s3, err) \<Rightarrow>
                 if err \<noteq> kSuccess then Some (s3, err)
                 else CopyPageMaps s3 dest src part (Suc start)
     else Some (s, kSuccess))"
  by pat_completeness auto
termination
  by (relation "measures [\<lambda>(s, d, src, part, i). part, \<lambda>(s, d, src, part, i). 512 - i]") auto

declare CopyPageMaps.simps [simp del]

section \<open>Page fault support\<close>

record FileMapping =
  fm_fd :: nat
  vaddr_begin :: u64
  vaddr_end :: u64

fun FindFileMapping :: "FileMapping list \<Rightarrow> u64 \<Rightarrow> FileMapping option" where
  "FindFileMapping [] causal_vaddr = None"
| "FindFileMapping (m # fmaps) causal_vaddr =
    (if vaddr_begin m \<le> causal_vaddr \<and> causal_vaddr < vaddr_end m then Some m
     else FindFileMapping fmaps causal_vaddr)"

text \<open>
  \<open>memcpy\<close> and file loads through a virtual address use the processor's translation, a
  parameter \<open>xlat\<close>: the physical address of a virtual one under CR3, \<open>None\<close> for a fault.
\<close>

type_synonym translation = "memory \<Rightarrow> u64 \<Rightarrow> u64 \<Rightarrow> u64 option"

definition store_byte :: "u64 \<Rightarrow> u8 \<Rightarrow> memory \<Rightarrow> memory" where
  "store_byte p b m =
    (let q = p AND NOT 7 in m(q := put_bits (8 * unat (p AND 7)) 8 (ucast b) (m q)))"

fun store_bytes :: "u64 \<Rightarrow> u8 list \<Rightarrow> memory \<Rightarrow> memory" where
  "store_bytes p [] m = m"
| "store_bytes p (b # bs) m = store_bytes (p + 1) bs (store_byte p b m)"

text \<open>\<open>load len offset\<close> is \<open>fd.Load\<close>, the bytes it copies into the page.\<close>

definition PreparePageCache ::
  "translation \<Rightarrow> (nat \<Rightarrow> u64 \<Rightarrow> u8 list option) \<Rightarrow> paging_state \<Rightarrow> FileMapping \<Rightarrow> u64 \<Rightarrow>
     (paging_state \<times> ErrorCode) option" where
  "PreparePageCache xlat load s m causal_vaddr =
    (let page_vaddr = SetPart causal_vaddr 0 0 in
     case SetupPageMaps s page_vaddr 1 True of
       None \<Rightarrow> None
     | Some (s1, err) \<Rightarrow>
         if err \<noteq> kSuccess then Some (s1, err)
         else do {
           bytes \<leftarrow> load 4096 (page_vaddr - vaddr_begin m);
           phys \<leftarrow> xlat (pmem s1) (cr3 s1) page_vaddr;
           Some (s1\<lparr>pmem := store_bytes phys bytes (pmem s1)\<rparr>, kSuccess)
         })"

text \<open>\<open>InvalidateTLB\<close> has no effect on this state: the model has no TLB.\<close>

fun SetPageContent ::
  "paging_state \<Rightarrow> u64 \<Rightarrow> nat \<Rightarrow> LinearAddress4Level \<Rightarrow> u64 \<Rightarrow> (paging_state \<times> ErrorCode) option" where
  "SetPageContent s table 0 addr content = None"
| "SetPageContent s table (Suc 0) addr content =
     Some (upd_entry table (Part addr 1) (\<lambda>e. set_writable True (SetPointer content e)) s, kSuccess)"
| "SetPageContent s table (Suc (Suc n)) addr content =
     SetPageContent s (Pointer (get_entry (pmem s) table (Part addr (Suc (Suc n)))))
       (Suc n) addr content"

definition CopyOnePage ::
  "translation \<Rightarrow> paging_state \<Rightarrow> u64 \<Rightarrow> (paging_state \<times> ErrorCode) option" where
  "CopyOnePage xlat s causal_addr =
    (case NewPageMap s of
       None \<Rightarrow> None
     | Some (s1, Inl e) \<Rightarrow> Some (s1, e)
     | Some (s1, Inr p) \<Rightarrow>
         let aligned_addr = causal_addr AND 0xfffffffffffff000 in
         case xlat (pmem s1) (cr3 s1) aligned_addr of
           None \<Rightarrow> None
         | Some src \<Rightarrow>
             let s2 = s1\<lparr>pmem := copy_words p src 512 (pmem s1)\<rparr> in
             SetPageContent s2 (cr3 s2) 4 causal_addr p)"

end
