(* ===== verification/Paging_Correct.thy ===== *)
theory Paging_Correct
  imports Paging
begin

text \<open>
  What \<open>SetupPageMaps\<close> and its callers guarantee.  Page tables are described by the set of
  page addresses at each level below CR3; the invariant says that all of them are frames the
  allocator has handed out, so a fresh frame never overlaps a table in use.
\<close>

section \<open>Entries\<close>

lemma set_flags_present [simp]:
  "pme_present (set_user b e) = pme_present e"
  "pme_present (set_writable b e) = pme_present e"
  "pme_present (SetPointer p e) = pme_present e"
  "pme_present (set_present b e) = b"
  by (simp_all add: pme_present_def set_user_def set_writable_def SetPointer_def set_present_def
      bit_put_bits bit_simps)

lemma set_flags_user [simp]:
  "pme_user (set_user b e) = b"
  "pme_user (set_writable b e) = pme_user e"
  "pme_user (SetPointer p e) = pme_user e"
  "pme_user (set_present b e) = pme_user e"
  by (simp_all add: pme_user_def set_user_def set_writable_def SetPointer_def set_present_def
      bit_put_bits bit_simps)

lemma set_flags_writable [simp]:
  "pme_writable (set_user b e) = pme_writable e"
  "pme_writable (set_writable b e) = b"
  "pme_writable (SetPointer p e) = pme_writable e"
  "pme_writable (set_present b e) = pme_writable e"
  by (simp_all add: pme_writable_def set_user_def set_writable_def SetPointer_def set_present_def
      bit_put_bits bit_simps)

lemma set_flags_Pointer [simp]:
  "Pointer (set_user b e) = Pointer e"
  "Pointer (set_writable b e) = Pointer e"
  "Pointer (set_present b e) = Pointer e"
  by (simp_all add: Pointer_def set_user_def set_writable_def set_present_def)

text \<open>A page: 4 KiB aligned and below the 52-bit limit of the entry format.\<close>

definition page_ok :: "u64 \<Rightarrow> bool" where
  "page_ok p \<longleftrightarrow> take_bit 12 p = 0 \<and> take_bit 52 p = p"

lemma Pointer_SetPointer [simp]: "page_ok p \<Longrightarrow> Pointer (SetPointer p e) = p"
proof -
  assume "page_ok p"
  then have "bit p k \<Longrightarrow> 12 \<le> k \<and> k < 52" for k
    unfolding page_ok_def
    by (metis bit_0_eq bit_take_bit_iff bot_apply bot_bool_def linorder_not_less)
  then show ?thesis
    by (intro bit_eqI) (force simp: Pointer_def SetPointer_def bit_simps word_bits)
qed

lemma unat_Frame: "f < kFrameCount \<Longrightarrow> unat (Frame f) = 4096 * f"
proof -
  assume "f < kFrameCount"
  then have "f * kBytesPerFrame < 2 ^ LENGTH(64)" by (simp add: frame_consts)
  from unat_of_nat_less [OF this] show ?thesis by (simp only: Frame_def) (simp add: frame_consts)
qed

lemma page_ok_Frame: "f < kFrameCount \<Longrightarrow> page_ok (Frame f)"
proof -
  assume f: "f < kFrameCount"
  then have lt: "4096 * f < 2 ^ 52" by (simp add: frame_consts)
  have "unat (take_bit 12 (Frame f)) = 0"
    unfolding unsigned_take_bit_eq unat_Frame [OF f] by (simp add: take_bit_eq_mod)
  moreover have "unat (take_bit 52 (Frame f)) = unat (Frame f)"
    unfolding unsigned_take_bit_eq unat_Frame [OF f] using lt by (simp add: take_bit_nat_eq_self)
  ultimately show ?thesis unfolding page_ok_def by (simp only: word_unat_eq_iff unat_0)
qed

section \<open>Memory of pages\<close>

lemma unat_entry_addr:
  "f < kFrameCount \<Longrightarrow> i < 512 \<Longrightarrow> unat (entry_addr (Frame f) i) = 4096 * f + 8 * i"
proof -
  assume f: "f < kFrameCount" and i: "i < 512"
  then have lt: "f * kBytesPerFrame + 8 * i < 2 ^ LENGTH(64)" by (simp add: frame_consts)
  have "entry_addr (Frame f) i = of_nat (f * kBytesPerFrame + 8 * i)"
    by (simp only: entry_addr_def Frame_def of_nat_add)
  with unat_of_nat_less [OF lt] show ?thesis by (simp only:) (simp add: frame_consts)
qed

lemma page_offset_unique:
  "4096 * f + 8 * i = 4096 * g + 8 * j \<Longrightarrow> i < 512 \<Longrightarrow> j < 512 \<Longrightarrow> f = g \<and> i = (j :: nat)"
  by (cases f g rule: linorder_cases) auto

lemma entry_addr_inj:
  assumes "f < kFrameCount" "g < kFrameCount" "i < 512" "j < 512"
  shows "entry_addr (Frame f) i = entry_addr (Frame g) j \<longleftrightarrow> f = g \<and> i = j"
proof
  assume "entry_addr (Frame f) i = entry_addr (Frame g) j"
  then have "4096 * f + 8 * i = 4096 * g + 8 * j"
    using unat_entry_addr [OF assms(1,3)] unat_entry_addr [OF assms(2,4)] by simp
  then show "f = g \<and> i = j" using assms(3,4) by (rule page_offset_unique)
qed simp

lemma Frame_inj: "f < kFrameCount \<Longrightarrow> g < kFrameCount \<Longrightarrow> Frame f = Frame g \<longleftrightarrow> f = g"
  using entry_addr_inj [of f g 0 0] by (simp add: entry_addr_def)

lemma get_put_entry:
  "f < kFrameCount \<Longrightarrow> g < kFrameCount \<Longrightarrow> i < 512 \<Longrightarrow> j < 512 \<Longrightarrow>
     get_entry (put_entry (Frame f) i e m) (Frame g) j =
     (if f = g \<and> i = j then e else get_entry m (Frame g) j)"
  using entry_addr_inj [of g f j i] by (auto simp: get_entry_def put_entry_def)

lemma get_clear_words:
  "f < kFrameCount \<Longrightarrow> g < kFrameCount \<Longrightarrow> n \<le> 512 \<Longrightarrow> j < 512 \<Longrightarrow>
     get_entry (clear_words (Frame f) n m) (Frame g) j =
     (if f = g \<and> j < n then 0 else get_entry m (Frame g) j)"
proof (induction n)
  case (Suc n)
  have "clear_words (Frame f) (Suc n) m = put_entry (Frame f) n 0 (clear_words (Frame f) n m)"
    by (simp add: put_entry_def)
  with Suc show ?case
    by (auto simp del: clear_words.simps simp: get_put_entry less_Suc_eq)
qed simp

section \<open>The table invariant\<close>

text \<open>
  \<open>R l\<close> is the set of frames that hold a table of level \<open>l\<close> (data pages are level 0).  The
  kernel half of the top table, indices below 256, holds the identity map and is left out.
\<close>

definition upper :: "nat \<Rightarrow> nat \<Rightarrow> bool" where
  "upper lvl i \<longleftrightarrow> (lvl = 4 \<longrightarrow> 256 \<le> i)"

definition used_frames :: "paging_state \<Rightarrow> nat set" where
  "used_frames s = allocated (memory_manager s)"

abbreviation entry_of :: "paging_state \<Rightarrow> nat \<Rightarrow> nat \<Rightarrow> PageMapEntry" where
  "entry_of s f i \<equiv> get_entry (pmem s) (Frame f) i"

definition pt_inv :: "paging_state \<Rightarrow> (nat \<Rightarrow> nat set) \<Rightarrow> bool" where
  "pt_inv s R \<longleftrightarrow> mm_usable (memory_manager s) \<and> (\<forall>l. R l \<subseteq> used_frames s) \<and>
     (\<forall>l k. l \<noteq> k \<longrightarrow> R l \<inter> R k = {}) \<and>
     (\<forall>l f i. f \<in> R (Suc l) \<and> i < 512 \<and> upper (Suc l) i \<and> pme_present (entry_of s f i) \<longrightarrow>
        (\<exists>g \<in> R l. Pointer (entry_of s f i) = Frame g))"

definition entry_le :: "PageMapEntry \<Rightarrow> PageMapEntry \<Rightarrow> bool" where
  "entry_le e e' \<longleftrightarrow> (pme_present e \<longrightarrow>
     pme_present e' \<and> Pointer e' = Pointer e \<and> (pme_user e \<longrightarrow> pme_user e'))"

text \<open>
  A later state: mappings are kept, frames that are not tables keep their contents, and new
  tables are frames that were free before.
\<close>

definition grows ::
  "paging_state \<Rightarrow> (nat \<Rightarrow> nat set) \<Rightarrow> paging_state \<Rightarrow> (nat \<Rightarrow> nat set) \<Rightarrow> bool" where
  "grows s R s' R' \<longleftrightarrow> used_frames s \<subseteq> used_frames s' \<and> cr3 s' = cr3 s \<and>
     (\<forall>l. R l \<subseteq> R' l \<and> R' l \<inter> used_frames s \<subseteq> R l) \<and>
     (\<forall>f \<in> used_frames s. \<forall>i<512. entry_le (entry_of s f i) (entry_of s' f i)) \<and>
     (\<forall>f \<in> used_frames s. (\<forall>l. f \<notin> R (Suc l)) \<longrightarrow> (\<forall>i<512. entry_of s' f i = entry_of s f i))"

lemma entry_le_refl [simp]: "entry_le e e"
  by (simp add: entry_le_def)

lemma grows_refl [simp]: "grows s R s R"
  by (simp add: grows_def)

lemma grows_trans: "grows s R s' R' \<Longrightarrow> grows s' R' s'' R'' \<Longrightarrow> grows s R s'' R''"
proof -
  assume 1: "grows s R s' R'" and 2: "grows s' R' s'' R''"
  have sub: "used_frames s \<subseteq> used_frames s'" using 1 by (simp add: grows_def)
  show ?thesis
    unfolding grows_def
  proof (intro conjI allI ballI impI)
    show "used_frames s \<subseteq> used_frames s''" "cr3 s'' = cr3 s"
      using 1 2 by (auto simp: grows_def)
    show "R l \<subseteq> R'' l" for l
    proof -
      have "R l \<subseteq> R' l" using 1 by (simp add: grows_def)
      also have "\<dots> \<subseteq> R'' l" using 2 by (simp add: grows_def)
      finally show ?thesis .
    qed
    show "R'' l \<inter> used_frames s \<subseteq> R l" for l
    proof -
      have "R'' l \<inter> used_frames s' \<subseteq> R' l" using 2 by (simp add: grows_def)
      moreover have "R' l \<inter> used_frames s \<subseteq> R l" using 1 by (simp add: grows_def)
      ultimately show ?thesis using sub by blast
    qed
  next
    fix f i assume f: "f \<in> used_frames s" and i: "i < (512 :: nat)"
    have "entry_le (entry_of s f i) (entry_of s' f i)" "entry_le (entry_of s' f i) (entry_of s'' f i)"
      using 1 2 f sub i by (auto simp: grows_def)
    then show "entry_le (entry_of s f i) (entry_of s'' f i)" by (auto simp: entry_le_def)
    assume n: "\<forall>l. f \<notin> R (Suc l)"
    have "R' l \<inter> used_frames s \<subseteq> R l" for l using 1 by (simp add: grows_def)
    then have "\<forall>l. f \<notin> R' (Suc l)" using f n by blast
    then have "entry_of s'' f i = entry_of s' f i" using 2 f sub i by (auto simp: grows_def)
    also have "\<dots> = entry_of s f i" using 1 f n i by (simp add: grows_def)
    finally show "entry_of s'' f i = entry_of s f i" .
  qed
qed

lemma grows_used: "grows s R s' R' \<Longrightarrow> f \<in> used_frames s \<Longrightarrow> f \<in> used_frames s'"
  by (auto simp: grows_def)

lemma grows_entry:
  "grows s R s' R' \<Longrightarrow> f \<in> used_frames s \<Longrightarrow> i < 512 \<Longrightarrow> entry_le (entry_of s f i) (entry_of s' f i)"
  by (auto simp: grows_def)

lemma used_less: "f \<in> used_frames s \<Longrightarrow> f < kFrameCount"
  by (simp add: used_frames_def allocated_def)

lemma pt_inv_used: "pt_inv s R \<Longrightarrow> f \<in> R l \<Longrightarrow> f \<in> used_frames s"
  by (auto simp: pt_inv_def)

lemma upd_entry_simps [simp]:
  "memory_manager (upd_entry t i h s) = memory_manager s"
  "cr3 (upd_entry t i h s) = cr3 s"
  "used_frames (upd_entry t i h s) = used_frames s"
  by (simp_all add: upd_entry_def used_frames_def)

lemma entry_of_upd:
  "f < kFrameCount \<Longrightarrow> g < kFrameCount \<Longrightarrow> i < 512 \<Longrightarrow> j < 512 \<Longrightarrow>
     entry_of (upd_entry (Frame f) i h s) g j =
     (if f = g \<and> i = j then h (entry_of s f i) else entry_of s g j)"
  by (simp add: upd_entry_def get_put_entry)

lemma upd_entry_inv:
  assumes inv: "pt_inv s R" and f: "f \<in> R (Suc l)" and i: "i < 512"
    and le: "entry_le (entry_of s f i) (h (entry_of s f i))"
    and ptr: "pme_present (h (entry_of s f i)) \<Longrightarrow> upper (Suc l) i \<Longrightarrow>
                \<exists>g \<in> R l. Pointer (h (entry_of s f i)) = Frame g"
  shows "pt_inv (upd_entry (Frame f) i h s) R \<and> grows s R (upd_entry (Frame f) i h s) R"
proof
  have fu: "f \<in> used_frames s" using pt_inv_used [OF inv f] .
  note upd = entry_of_upd [OF used_less [OF fu] used_less i]
  have lvl: "f \<in> R k \<longleftrightarrow> k = Suc l" for k
    using inv f unfolding pt_inv_def by blast
  show "pt_inv (upd_entry (Frame f) i h s) R"
    unfolding pt_inv_def upd_entry_simps
  proof (intro conjI allI impI)
    fix k g j
    assume a: "g \<in> R (Suc k) \<and> j < 512 \<and> upper (Suc k) j \<and>
      pme_present (entry_of (upd_entry (Frame f) i h s) g j)"
    then have gu: "g \<in> used_frames s" using pt_inv_used [OF inv] by blast
    show "\<exists>q \<in> R k. Pointer (entry_of (upd_entry (Frame f) i h s) g j) = Frame q"
    proof (cases "f = g \<and> i = j")
      case True
      then have "k = l" using a lvl by auto
      with True a ptr upd [OF gu, of j] show ?thesis by simp
    next
      case False
      with a upd [OF gu, of j] inv show ?thesis by (auto simp: pt_inv_def)
    qed
  qed (use inv in \<open>auto simp: pt_inv_def\<close>)
  show "grows s R (upd_entry (Frame f) i h s) R"
    unfolding grows_def using le upd f by (auto simp: entry_le_def)
qed

lemma NewPageMap_cases:
  assumes "mm_usable (memory_manager s)"
  shows "\<exists>s' r. NewPageMap s = Some (s', r) \<and> cr3 s' = cr3 s \<and>
    (case r of
       Inl e \<Rightarrow> s' = s \<and> e = kNoEnoughMemory
     | Inr p \<Rightarrow> \<exists>f. p = Frame f \<and> f < kFrameCount \<and> f \<notin> used_frames s \<and>
         used_frames s' = insert f (used_frames s) \<and> mm_usable (memory_manager s') \<and>
         (\<forall>i<512. entry_of s' f i = 0) \<and>
         (\<forall>g i. g < kFrameCount \<and> g \<noteq> f \<and> i < 512 \<longrightarrow> entry_of s' g i = entry_of s g i))"
proof -
  have "range_end (memory_manager s) \<le> kFrameCount" using assms by (simp add: mm_usable_def)
  from Allocate_cases [OF this, of 1] obtain m r where
    m: "Allocate (memory_manager s) 1 = Some (m, r)" and
    r: "case r of
       Inr t \<Rightarrow> fits (memory_manager s) t 1 \<and> (\<forall>t'<t. \<not> fits (memory_manager s) t' 1) \<and>
                allocated m = allocated (memory_manager s) \<union> {t..<t + 1} \<and>
                range_begin m = range_begin (memory_manager s) \<and>
                range_end m = range_end (memory_manager s)
     | Inl e \<Rightarrow> e = kNoEnoughMemory \<and> m = memory_manager s \<and>
                (\<forall>t. \<not> fits (memory_manager s) t 1)"
    by (auto simp only: zero_less_one)
  show ?thesis
  proof (cases r)
    case (Inl e)
    with m r show ?thesis by (auto simp: NewPageMap_def)
  next
    case (Inr t)
    then have "t < kFrameCount" "t \<notin> allocated (memory_manager s)" "mm_usable m"
      "allocated m = insert t (allocated (memory_manager s))"
      using r assms by (auto simp: fits_def mm_usable_def)
    with Inr m show ?thesis
      by (auto simp: NewPageMap_def used_frames_def Let_def get_clear_words)
  qed
qed

lemma present_zero [simp]: "\<not> pme_present 0"
  by (simp add: pme_present_def)

lemma SetNewPageMapIfNotPresent_cases:
  assumes inv: "pt_inv s R" and f: "f \<in> R (Suc l)" and i: "i < 512" "upper (Suc l) i"
  shows "\<exists>s' r R'. SetNewPageMapIfNotPresent s (Frame f) i = Some (s', r) \<and>
    pt_inv s' R' \<and> grows s R s' R' \<and>
    (case r of
       Inl e \<Rightarrow> e = kNoEnoughMemory
     | Inr p \<Rightarrow> \<exists>g \<in> R' l. p = Frame g \<and> pme_present (entry_of s' f i) \<and>
                 Pointer (entry_of s' f i) = Frame g)"
proof (cases "pme_present (entry_of s f i)")
  case True
  with inv f i obtain g where "g \<in> R l" "Pointer (entry_of s f i) = Frame g"
    unfolding pt_inv_def by blast
  with True inv show ?thesis
    by (intro exI [of _ s] exI [of _ "Inr (Frame g)"] exI [of _ R])
      (auto simp: SetNewPageMapIfNotPresent_def Let_def)
next
  case False
  have mu: "mm_usable (memory_manager s)" using inv by (simp add: pt_inv_def)
  have fu: "f \<in> used_frames s" using pt_inv_used [OF inv f] .
  from NewPageMap_cases [OF mu] obtain s1 r where
    n: "NewPageMap s = Some (s1, r)" "cr3 s1 = cr3 s" and
    r: "case r of
       Inl e \<Rightarrow> s1 = s \<and> e = kNoEnoughMemory
     | Inr p \<Rightarrow> \<exists>f. p = Frame f \<and> f < kFrameCount \<and> f \<notin> used_frames s \<and>
         used_frames s1 = insert f (used_frames s) \<and> mm_usable (memory_manager s1) \<and>
         (\<forall>i<512. entry_of s1 f i = 0) \<and>
         (\<forall>g i. g < kFrameCount \<and> g \<noteq> f \<and> i < 512 \<longrightarrow> entry_of s1 g i = entry_of s g i)"
    by auto
  show ?thesis
  proof (cases r)
    case (Inl e)
    with False n r inv show ?thesis
      by (intro exI [of _ s] exI [of _ "Inl e"] exI [of _ R])
        (auto simp: SetNewPageMapIfNotPresent_def Let_def)
  next
    case (Inr p)
    then obtain g where g: "p = Frame g" "g < kFrameCount" "g \<notin> used_frames s"
      "used_frames s1 = insert g (used_frames s)" "mm_usable (memory_manager s1)"
      "\<forall>i<512. entry_of s1 g i = 0"
      "\<forall>h i. h < kFrameCount \<and> h \<noteq> g \<and> i < 512 \<longrightarrow> entry_of s1 h i = entry_of s h i"
      using r by auto
    define R1 where "R1 = R(l := insert g (R l))"
    have gR: "g \<notin> R k" for k using g(3) pt_inv_used [OF inv] by blast
    have same: "entry_of s1 h j = entry_of s h j" if "h \<in> used_frames s" "j < 512" for h j
      using g(7) used_less [OF that(1)] that g(3) by metis
    have inv1: "pt_inv s1 R1"
      unfolding pt_inv_def
    proof (intro conjI allI impI)
      show "mm_usable (memory_manager s1)" by fact
      show "R1 k \<subseteq> used_frames s1" for k
        using inv g(4) by (auto simp: pt_inv_def R1_def)
      show "R1 k \<inter> R1 k' = {}" if "k \<noteq> k'" for k k'
        using that inv gR unfolding R1_def pt_inv_def by auto
      fix k h j
      assume a: "h \<in> R1 (Suc k) \<and> j < 512 \<and> upper (Suc k) j \<and> pme_present (entry_of s1 h j)"
      then have "h \<noteq> g" using g(6) by auto
      then have h: "h \<in> R (Suc k)" using a by (auto simp: R1_def split: if_splits)
      then have "entry_of s1 h j = entry_of s h j"
        using a same pt_inv_used [OF inv] by blast
      with a h inv show "\<exists>q \<in> R1 k. Pointer (entry_of s1 h j) = Frame q"
        unfolding pt_inv_def R1_def by fastforce
    qed
    have gr1: "grows s R s1 R1"
      unfolding grows_def using n(2) g(3,4) same by (auto simp: R1_def)
    have f1: "f \<in> R1 (Suc l)" using f by (simp add: R1_def)
    let ?h = "\<lambda>en. set_present True (SetPointer p en)"
    have np: "\<not> pme_present (entry_of s1 f i)" using same [OF fu i(1)] False by simp
    have ptr: "Pointer (?h e) = Frame g" for e
      using page_ok_Frame [OF g(2)] g(1) by simp
    have gin: "g \<in> R1 l" by (simp add: R1_def)
    from upd_entry_inv [OF inv1 f1 i(1), of ?h] np ptr gin
    have u: "pt_inv (upd_entry (Frame f) i ?h s1) R1"
      "grows s1 R1 (upd_entry (Frame f) i ?h s1) R1"
      by (auto simp: entry_le_def)
    have e: "entry_of (upd_entry (Frame f) i ?h s1) f i = ?h (entry_of s1 f i)"
      using entry_of_upd used_less [OF fu] i(1) by simp
    have "SetNewPageMapIfNotPresent s (Frame f) i = Some (upd_entry (Frame f) i ?h s1, Inr p)"
      using False n(1) Inr by (simp add: SetNewPageMapIfNotPresent_def)
    with u(1) grows_trans [OF gr1 u(2)] gin g(1) e ptr show ?thesis
      by (intro exI [of _ "upd_entry (Frame f) i ?h s1"] exI [of _ "Inr p"] exI [of _ R1]) auto
  qed
qed

section \<open>Translations\<close>

text \<open>
  The path an address takes through the tables: the frame of its data page, if every entry
  on the way is present and accessible from user mode.
\<close>

fun walk :: "memory \<Rightarrow> u64 \<Rightarrow> nat \<Rightarrow> LinearAddress4Level \<Rightarrow> u64 option" where
  "walk m table 0 addr = Some table"
| "walk m table (Suc l) addr =
    (let e = get_entry m table (Part addr (Suc l)) in
     if pme_present e \<and> pme_user e then walk m (Pointer e) l addr else None)"

text \<open>The number of an address's page among the \<open>512 ^ l\<close> pages below a level-\<open>l\<close> table.\<close>

fun vpn :: "nat \<Rightarrow> LinearAddress4Level \<Rightarrow> nat" where
  "vpn 0 addr = 0"
| "vpn (Suc l) addr = Part addr (Suc l) * 512 ^ l + vpn l addr"

lemma vpn_less: "vpn l addr < 512 ^ l"
proof (induction l)
  case (Suc l)
  have "Part addr (Suc l) + 1 \<le> 512" using Part_less [of "Suc l" addr] by simp
  then have "(Part addr (Suc l) + 1) * 512 ^ l \<le> 512 * 512 ^ l" by (rule mult_right_mono) simp
  then have "Part addr (Suc l) * 512 ^ l + 512 ^ l \<le> 512 * 512 ^ l"
    by (simp only: add_mult_distrib nat_mult_1)
  with Suc show ?case unfolding vpn.simps power_Suc by linarith
qed simp

lemma vpn_clear_parts: "l \<le> k \<Longrightarrow> k \<le> 4 \<Longrightarrow> vpn l (clear_parts k addr) = 0"
  by (induction l) (auto simp: Part_clear_parts)

lemma vpn_next:
  assumes "1 \<le> lvl" "lvl \<le> 4" "Part addr lvl \<noteq> 511"
  shows "vpn lvl (next_addr lvl addr) = (Part addr lvl + 1) * 512 ^ (lvl - 1)"
  using Part_next_addr [OF assms] assms(1,2)
  by (cases lvl) (auto simp: next_addr_def vpn_clear_parts)

lemma vpn_Part_le:
  assumes "vpn (Suc l) a \<le> vpn (Suc l) b"
  shows "Part a (Suc l) \<le> Part b (Suc l)"
proof (rule ccontr)
  assume "\<not> ?thesis"
  then have "Part b (Suc l) + 1 \<le> Part a (Suc l)" by simp
  then have "(Part b (Suc l) + 1) * 512 ^ l \<le> Part a (Suc l) * 512 ^ l"
    by (rule mult_right_mono) simp
  with vpn_less [of l b] assms show False by (simp add: algebra_simps)
qed

lemma walk_grows:
  assumes "grows s R s' R'" "pt_inv s R"
  shows "f \<in> R l \<Longrightarrow> upper l (Part addr l) \<Longrightarrow> l \<le> 4 \<Longrightarrow>
    walk (pmem s) (Frame f) l addr = Some q \<Longrightarrow> walk (pmem s') (Frame f) l addr = Some q"
proof (induction l arbitrary: f)
  case 0
  then show ?case by simp
next
  case (Suc l)
  let ?i = "Part addr (Suc l)"
  have i: "?i < 512" by (simp add: Part_less)
  from Suc.prems have pu: "pme_present (entry_of s f ?i)" "pme_user (entry_of s f ?i)"
    and w: "walk (pmem s) (Pointer (entry_of s f ?i)) l addr = Some q"
    by (auto simp: Let_def split: if_splits)
  obtain g where g: "g \<in> R l" "Pointer (entry_of s f ?i) = Frame g"
    using assms(2) Suc.prems(1,2) i pu(1) unfolding pt_inv_def by blast
  have "entry_le (entry_of s f ?i) (entry_of s' f ?i)"
    using assms(1) pt_inv_used [OF assms(2) Suc.prems(1)] i by (auto simp: grows_def)
  with pu g have "pme_present (entry_of s' f ?i)" "pme_user (entry_of s' f ?i)"
    "Pointer (entry_of s' f ?i) = Frame g"
    by (auto simp: entry_le_def)
  moreover have "upper l (Part addr l)" using Suc.prems(3) by (simp add: upper_def)
  ultimately show ?case using Suc.IH [OF g(1)] Suc.prems(3) w g(2) by (simp add: Let_def)
qed

section \<open>SetupPageMap\<close>

lemma flag_inv:
  assumes "pt_inv s R" "f \<in> R (Suc l)" "i < 512" "upper (Suc l) i"
    and "\<And>e. pme_present (h e) = pme_present e" "\<And>e. Pointer (h e) = Pointer e"
    and "\<And>e. pme_user e \<Longrightarrow> pme_user (h e)"
  shows "pt_inv (upd_entry (Frame f) i h s) R \<and> grows s R (upd_entry (Frame f) i h s) R"
proof (rule upd_entry_inv [OF assms(1-3)])
  show "entry_le (entry_of s f i) (h (entry_of s f i))"
    using assms(5-7) by (simp add: entry_le_def)
  show "\<exists>g \<in> R l. Pointer (h (entry_of s f i)) = Frame g" if "pme_present (h (entry_of s f i))"
    using assms(1-4,5,6) that unfolding pt_inv_def by auto
qed

text \<open>
  The entry is made present and user accessible, whatever \<open>h\<close> does to the other flags: the
  part of one loop round that both cases of the level share.
\<close>

lemma enter_child:
  assumes inv: "pt_inv s R" and f: "f \<in> R (Suc l)" and i: "i < 512" "upper (Suc l) i"
  shows "\<exists>s1 r R1. SetNewPageMapIfNotPresent s (Frame f) i = Some (s1, r) \<and>
    (case r of
       Inl e \<Rightarrow> e = kNoEnoughMemory \<and> pt_inv s1 R1 \<and> grows s R s1 R1
     | Inr p \<Rightarrow> \<forall>b. \<exists>g \<in> R1 l. p = Frame g \<and>
        (let s3 = upd_entry (Frame f) i (set_writable b) (upd_entry (Frame f) i (set_user True) s1)
         in pt_inv s3 R1 \<and> grows s R s3 R1 \<and> pme_present (entry_of s3 f i) \<and>
            pme_user (entry_of s3 f i) \<and> Pointer (entry_of s3 f i) = Frame g))"
proof -
  from SetNewPageMapIfNotPresent_cases [OF assms] obtain s1 r R1 where
    s1: "SetNewPageMapIfNotPresent s (Frame f) i = Some (s1, r)" "pt_inv s1 R1" "grows s R s1 R1" and
    r: "case r of
       Inl e \<Rightarrow> e = kNoEnoughMemory
     | Inr p \<Rightarrow> \<exists>g \<in> R1 l. p = Frame g \<and> pme_present (entry_of s1 f i) \<and>
                 Pointer (entry_of s1 f i) = Frame g"
    by auto
  show ?thesis
  proof (cases r)
    case (Inl e)
    with s1 r show ?thesis by auto
  next
    case (Inr p)
    then obtain g where g: "g \<in> R1 l" "p = Frame g" "pme_present (entry_of s1 f i)"
      "Pointer (entry_of s1 f i) = Frame g" using r by auto
    have f1: "f \<in> R1 (Suc l)" using s1(3) f by (auto simp: grows_def)
    have fk: "f < kFrameCount" using used_less pt_inv_used [OF inv f] .
    let ?s2 = "upd_entry (Frame f) i (set_user True) s1"
    have s2: "pt_inv ?s2 R1 \<and> grows s1 R1 ?s2 R1"
      using f1 i s1(2) by (intro flag_inv) auto
    have s3: "pt_inv (upd_entry (Frame f) i (set_writable b) ?s2) R1 \<and>
        grows ?s2 R1 (upd_entry (Frame f) i (set_writable b) ?s2) R1" for b
      using f1 i s2 by (intro flag_inv) auto
    have "grows s R (upd_entry (Frame f) i (set_writable b) ?s2) R1" for b
      using grows_trans s1(3) s2 s3 by metis
    with s1(1) s3 g Inr fk i(1) show ?thesis
      by (intro exI [of _ s1] exI [of _ r] exI [of _ R1]) (auto simp: entry_of_upd Let_def)
  qed
qed

definition maps_pages :: "paging_state \<Rightarrow> nat \<Rightarrow> nat \<Rightarrow> LinearAddress4Level \<Rightarrow> nat \<Rightarrow> bool" where
  "maps_pages s f lvl addr n \<longleftrightarrow>
     (\<forall>b. vpn lvl addr \<le> vpn lvl b \<and> vpn lvl b < vpn lvl addr + n \<longrightarrow>
        (\<exists>q. walk (pmem s) (Frame f) lvl b = Some q))"

text \<open>What a run of \<open>SetupPageMap\<close> on the table in frame \<open>f\<close> achieves.\<close>

definition setup_post ::
  "paging_state \<Rightarrow> (nat \<Rightarrow> nat set) \<Rightarrow> nat \<Rightarrow> nat \<Rightarrow> LinearAddress4Level \<Rightarrow> nat \<Rightarrow>
     (paging_state \<times> nat WithError) option \<Rightarrow> bool" where
  "setup_post s R f lvl addr n res \<longleftrightarrow>
     (\<exists>s' r R'. res = Some (s', r) \<and> pt_inv s' R' \<and> grows s R s' R' \<and>
       (case r of
          Inl e \<Rightarrow> e = kNoEnoughMemory
        | Inr n' \<Rightarrow> n' = n - (512 ^ lvl - vpn lvl addr) \<and> maps_pages s' f lvl addr n))"

text \<open>The arithmetic of one round: pages left over by a child, and by the rest of the table.\<close>

lemma remaining_last:
  "i = 511 \<Longrightarrow> v \<le> K \<Longrightarrow> n - (512 * K - (i * K + v)) = n - (K - v :: nat)"
  by (simp add: diff_diff_left)

lemma remaining_next:
  fixes i v K n :: nat
  assumes "i < 511" "v \<le> K"
  shows "n - (K - v) - (512 * K - (i + 1) * K) = n - (512 * K - (i * K + v))"
proof -
  have "(i + 1) * K \<le> 512 * K" using assms(1) by (intro mult_right_mono) auto
  then have "(K - v) + (512 * K - (i + 1) * K) = 512 * K - (i * K + v)"
    using assms(2) by (simp add: add_mult_distrib)
  then show ?thesis by (simp only: diff_diff_left)
qed

lemma maps_round:
  assumes child: "\<forall>b. Part b (Suc l) = Part addr (Suc l) \<and> vpn l addr \<le> vpn l b \<and>
      vpn l b < vpn l addr + n \<longrightarrow> (\<exists>q. walk (pmem s) (Frame f) (Suc l) b = Some q)"
    and rest: "Part addr (Suc l) \<noteq> 511 \<Longrightarrow>
      maps_pages s f (Suc l) (next_addr (Suc l) addr) (n - (512 ^ l - vpn l addr))"
    and lvl: "Suc l \<le> 4"
  shows "maps_pages s f (Suc l) addr n"
  unfolding maps_pages_def
proof (intro allI impI)
  fix b assume b: "vpn (Suc l) addr \<le> vpn (Suc l) b \<and> vpn (Suc l) b < vpn (Suc l) addr + n"
  let ?i = "Part addr (Suc l)" and ?K = "512 ^ l :: nat"
  have le: "?i \<le> Part b (Suc l)" using b vpn_Part_le by blast
  show "\<exists>q. walk (pmem s) (Frame f) (Suc l) b = Some q"
  proof (cases "Part b (Suc l) = ?i")
    case True
    with b child show ?thesis by simp
  next
    case False
    with le have lt: "?i + 1 \<le> Part b (Suc l)" by simp
    then have ne: "?i \<noteq> 511" using Part_less [of "Suc l" b] by simp
    have nx: "vpn (Suc l) (next_addr (Suc l) addr) = ?i * ?K + ?K"
      using vpn_next [of "Suc l" addr] ne lvl by simp
    have "(?i + 1) * ?K \<le> Part b (Suc l) * ?K" using lt by (rule mult_right_mono) simp
    then have lo: "?i * ?K + ?K \<le> vpn (Suc l) b" by (simp add: add_mult_distrib)
    with b have "vpn (Suc l) b < ?i * ?K + ?K + (n - (?K - vpn l addr))"
      using vpn_less [of l addr] by simp
    with lo rest [OF ne] nx show ?thesis unfolding maps_pages_def by simp
  qed
qed

lemma round_finish:
  assumes lvl: "Suc l \<le> 4" "upper (Suc l) (Part addr (Suc l))" and f: "f \<in> R (Suc l)"
    and s4: "pt_inv s4 R4" "grows s R s4 R4"
    and child: "\<forall>b. Part b (Suc l) = Part addr (Suc l) \<and> vpn l addr \<le> vpn l b \<and>
      vpn l b < vpn l addr + n \<longrightarrow> (\<exists>q. walk (pmem s4) (Frame f) (Suc l) b = Some q)"
    and n4: "n4 = n - (512 ^ l - vpn l addr)"
    and rest: "\<And>s R n. Part addr (Suc l) \<noteq> 511 \<Longrightarrow> pt_inv s R \<Longrightarrow> f \<in> R (Suc l) \<Longrightarrow>
      setup_post s R f (Suc l) (next_addr (Suc l) addr) n
        (SetupPageMap s (Frame f) (Suc l) (next_addr (Suc l) addr) n w)"
  shows "setup_post s R f (Suc l) addr n
    (if Part addr (Suc l) = 511 then Some (s4, Inr n4)
     else SetupPageMap s4 (Frame f) (Suc l) (next_addr (Suc l) addr) n4 w)"
proof (cases "Part addr (Suc l) = 511")
  case True
  have "maps_pages s4 f (Suc l) addr n"
    using maps_round [OF child _ lvl(1)] True by blast
  moreover have "n4 = n - (512 ^ Suc l - vpn (Suc l) addr)"
    using remaining_last [of "Part addr (Suc l)" "vpn l addr" "512 ^ l" n] True n4
      vpn_less [of l addr] by simp
  ultimately show ?thesis using True s4 unfolding setup_post_def by auto
next
  case False
  have f4: "f \<in> R4 (Suc l)" using s4(2) f by (auto simp: grows_def)
  from rest [OF False s4(1) f4, of n4] obtain s' r R' where
    res: "SetupPageMap s4 (Frame f) (Suc l) (next_addr (Suc l) addr) n4 w = Some (s', r)"
      "pt_inv s' R'" "grows s4 R4 s' R'" and
    r: "case r of
          Inl e \<Rightarrow> e = kNoEnoughMemory
        | Inr n' \<Rightarrow> n' = n4 - (512 ^ Suc l - vpn (Suc l) (next_addr (Suc l) addr)) \<and>
                    maps_pages s' f (Suc l) (next_addr (Suc l) addr) n4"
    unfolding setup_post_def by auto
  have up: "upper (Suc l) (Part b (Suc l))" if "Part b (Suc l) = Part addr (Suc l)" for b
    using lvl(2) that by simp
  have "\<forall>b. Part b (Suc l) = Part addr (Suc l) \<and> vpn l addr \<le> vpn l b \<and>
      vpn l b < vpn l addr + n \<longrightarrow> (\<exists>q. walk (pmem s') (Frame f) (Suc l) b = Some q)"
    using child walk_grows [OF res(3) s4(1) f4 up lvl(1)] by blast
  then have maps: "maps_pages s' f (Suc l) addr n"
    if "maps_pages s' f (Suc l) (next_addr (Suc l) addr) n4"
    using maps_round lvl(1) that n4 by blast
  have i: "Part addr (Suc l) < 511" using False Part_less [of "Suc l" addr] by simp
  have nx: "vpn (Suc l) (next_addr (Suc l) addr) = (Part addr (Suc l) + 1) * 512 ^ l"
    using vpn_next [of "Suc l" addr] False lvl(1) by simp
  have num: "n4 - (512 ^ Suc l - vpn (Suc l) (next_addr (Suc l) addr)) =
      n - (512 ^ Suc l - vpn (Suc l) addr)"
    using remaining_next [OF i, of "vpn l addr" "512 ^ l" n] vpn_less [of l addr]
    unfolding nx n4 by simp
  from res r maps num grows_trans [OF s4(2) res(3)] False show ?thesis
    unfolding setup_post_def
    by (intro exI [of _ s'] exI [of _ r] exI [of _ R']) (auto split: sum.splits)
qed

lemma SetupPageMap_round:
  assumes n: "n \<noteq> 0" and lvl: "Suc l \<le> 4" "upper (Suc l) (Part addr (Suc l))"
    and inv: "pt_inv s R" and f: "f \<in> R (Suc l)"
    and child: "\<And>s R f. pt_inv s R \<Longrightarrow> f \<in> R l \<Longrightarrow> 1 \<le> l \<Longrightarrow>
      setup_post s R f l addr n (SetupPageMap s (Frame f) l addr n w)"
    and rest: "\<And>s R n. Part addr (Suc l) \<noteq> 511 \<Longrightarrow> pt_inv s R \<Longrightarrow> f \<in> R (Suc l) \<Longrightarrow>
      setup_post s R f (Suc l) (next_addr (Suc l) addr) n
        (SetupPageMap s (Frame f) (Suc l) (next_addr (Suc l) addr) n w)"
  shows "setup_post s R f (Suc l) addr n (SetupPageMap s (Frame f) (Suc l) addr n w)"
proof -
  let ?i = "Part addr (Suc l)"
  let ?s3 = "\<lambda>b s1. upd_entry (Frame f) ?i (set_writable b) (upd_entry (Frame f) ?i (set_user True) s1)"
  from enter_child [OF inv f Part_less lvl(2)] obtain s1 r R1 where
    s1: "SetNewPageMapIfNotPresent s (Frame f) ?i = Some (s1, r)" and
    r: "case r of
       Inl e \<Rightarrow> e = kNoEnoughMemory \<and> pt_inv s1 R1 \<and> grows s R s1 R1
     | Inr p \<Rightarrow> \<forall>b. \<exists>g \<in> R1 l. p = Frame g \<and>
        (let s3 = ?s3 b s1
         in pt_inv s3 R1 \<and> grows s R s3 R1 \<and> pme_present (entry_of s3 f ?i) \<and>
            pme_user (entry_of s3 f ?i) \<and> Pointer (entry_of s3 f ?i) = Frame g)"
    by auto
  show ?thesis
  proof (cases r)
    case (Inl e)
    with s1 r n lvl(1) show ?thesis unfolding setup_post_def
      by (intro exI [of _ s1] exI [of _ "Inl e"] exI [of _ R1]) (simp add: SetupPageMap.simps)
  next
    case (Inr p)
    define b where "b = (if l = 0 then w else True)"
    from r Inr obtain g where g: "g \<in> R1 l" "p = Frame g" and
      s3: "pt_inv (?s3 b s1) R1" "grows s R (?s3 b s1) R1" "pme_present (entry_of (?s3 b s1) f ?i)"
        "pme_user (entry_of (?s3 b s1) f ?i)" "Pointer (entry_of (?s3 b s1) f ?i) = Frame g"
      by (auto simp: Let_def)
    show ?thesis
    proof (cases "l = 0")
      case True
      have "\<forall>a. Part a (Suc l) = ?i \<and> vpn l addr \<le> vpn l a \<and> vpn l a < vpn l addr + n \<longrightarrow>
          (\<exists>q. walk (pmem (?s3 b s1)) (Frame f) (Suc l) a = Some q)"
        using s3 True by (auto simp: Let_def)
      moreover have "SetupPageMap s (Frame f) (Suc l) addr n w =
          (if ?i = 511 then Some (?s3 b s1, Inr (n - 1))
           else SetupPageMap (?s3 b s1) (Frame f) (Suc l) (next_addr (Suc l) addr) (n - 1) w)"
        using True s1 Inr n g by (subst SetupPageMap.simps) (simp add: b_def Let_def)
      moreover have "n - 1 = n - (512 ^ l - vpn l addr)" using True by simp
      ultimately show ?thesis using round_finish [OF lvl f s3(1,2) _ _ rest] by simp
    next
      case False
      have "1 \<le> l" using False by simp
      from child [OF s3(1) g(1) this] obtain s4 r4 R4 where
        c: "SetupPageMap (?s3 b s1) (Frame g) l addr n w = Some (s4, r4)"
          "pt_inv s4 R4" "grows (?s3 b s1) R1 s4 R4" and
        r4: "case r4 of
            Inl e \<Rightarrow> e = kNoEnoughMemory
          | Inr n' \<Rightarrow> n' = n - (512 ^ l - vpn l addr) \<and> maps_pages s4 g l addr n"
        unfolding setup_post_def by auto
      note gr = grows_trans [OF s3(2) c(3)]
      have eq: "SetupPageMap s (Frame f) (Suc l) addr n w =
          (case r4 of Inl e \<Rightarrow> Some (s4, Inl e)
           | Inr n4 \<Rightarrow> if ?i = 511 then Some (s4, Inr n4)
               else SetupPageMap s4 (Frame f) (Suc l) (next_addr (Suc l) addr) n4 w)"
        using False s1 Inr n g lvl(1) c(1)
        by (subst SetupPageMap.simps) (simp add: b_def Let_def split: sum.split)
      show ?thesis
      proof (cases r4)
        case (Inl e)
        with r4 c(2) gr eq show ?thesis unfolding setup_post_def by auto
      next
        case (Inr n4)
        have "entry_le (entry_of (?s3 b s1) f ?i) (entry_of s4 f ?i)"
          by (rule grows_entry [OF c(3) grows_used [OF s3(2) pt_inv_used [OF inv f]]])
            (simp add: Part_less)
        then have "\<forall>a. Part a (Suc l) = ?i \<and> vpn l addr \<le> vpn l a \<and> vpn l a < vpn l addr + n \<longrightarrow>
            (\<exists>q. walk (pmem s4) (Frame f) (Suc l) a = Some q)"
          using s3(3,4,5) r4 Inr unfolding maps_pages_def entry_le_def by (simp add: Let_def)
        from round_finish [OF lvl f c(2) gr this _ rest, of n4] show ?thesis
          using eq Inr r4 by simp
      qed
    qed
  qed
qed

lemma SetupPageMap_post:
  "pt_inv s R \<Longrightarrow> f \<in> R lvl \<Longrightarrow> 1 \<le> lvl \<Longrightarrow> lvl \<le> 4 \<Longrightarrow> upper lvl (Part addr lvl) \<Longrightarrow>
     setup_post s R f lvl addr n (SetupPageMap s (Frame f) lvl addr n w)"
proof (induction lvl arbitrary: s R f addr n)
  case 0
  then show ?case by simp
next
  case (Suc l)
  note outer = Suc.IH
  from Suc.prems show ?case
  proof (induction "511 - Part addr (Suc l)" arbitrary: s R addr n rule: less_induct)
    case less
    show ?case
    proof (cases "n = 0")
      case True
      with less.prems(1) show ?thesis
        unfolding setup_post_def maps_pages_def
        by (intro exI [of _ s] exI [of _ "Inr 0"] exI [of _ R]) (auto simp: SetupPageMap.simps)
    next
      case False
      show ?thesis
      proof (rule SetupPageMap_round [OF False less.prems(4,5,1,2)])
        show "setup_post s R f l addr n (SetupPageMap s (Frame f) l addr n w)"
          if "pt_inv s R" "f \<in> R l" "1 \<le> l" for s R f
          using outer [OF that] less.prems(4) by (simp add: upper_def)
      next
        fix s R n assume a: "Part addr (Suc l) \<noteq> 511" "pt_inv s R" "f \<in> R (Suc l)"
        have nx: "Part (next_addr (Suc l) addr) (Suc l) = Part addr (Suc l) + 1"
          using Part_next_addr a(1) less.prems(4) by simp
        have lt: "511 - Part (next_addr (Suc l) addr) (Suc l) < 511 - Part addr (Suc l)"
          using next_addr_decreases a(1) less.prems(4) by simp
        have "upper (Suc l) (Part (next_addr (Suc l) addr) (Suc l))"
          using less.prems(5) unfolding upper_def nx by (cases "Suc l = 4") auto
        then show "setup_post s R f (Suc l) (next_addr (Suc l) addr) n
            (SetupPageMap s (Frame f) (Suc l) (next_addr (Suc l) addr) n w)"
          using less.hyps [OF lt a(2,3)] less.prems(4) by simp
      qed
    qed
  qed
qed

lemma SetupPageMaps_cases:
  assumes "pt_inv s R" "root \<in> R 4" "cr3 s = Frame root" "256 \<le> Part addr 4"
  shows "\<exists>s' e R'. SetupPageMaps s addr n w = Some (s', e) \<and> pt_inv s' R' \<and> grows s R s' R' \<and>
    (if e = kSuccess
     then \<forall>b. vpn 4 addr \<le> vpn 4 b \<and> vpn 4 b < vpn 4 addr + n \<longrightarrow>
            (\<exists>q. walk (pmem s') (cr3 s') 4 b = Some q)
     else e = kNoEnoughMemory)"
proof -
  from SetupPageMap_post [OF assms(1,2), of addr n w] assms(4) obtain s' r R' where
    r: "SetupPageMap s (Frame root) 4 addr n w = Some (s', r)" "pt_inv s' R'" "grows s R s' R'"
      "case r of Inl e \<Rightarrow> e = kNoEnoughMemory
       | Inr n' \<Rightarrow> n' = n - (512 ^ 4 - vpn 4 addr) \<and> maps_pages s' root 4 addr n"
    unfolding setup_post_def upper_def by auto
  have "cr3 s' = Frame root" using r(3) assms(3) by (simp add: grows_def)
  with r assms(3) show ?thesis
    by (intro exI [of _ s'] exI [of _ "case r of Inl e \<Rightarrow> e | Inr _ \<Rightarrow> kSuccess"] exI [of _ R'])
      (auto simp: SetupPageMaps_def maps_pages_def split: sum.splits)
qed

section \<open>Copy on write\<close>

lemma Part_aligned: "1 \<le> l \<Longrightarrow> Part (addr AND 0xfffffffffffff000) l = Part addr l"
proof -
  assume l: "1 \<le> l"
  have eq: "(0xfffffffffffff000 :: u64) = NOT (mask 12)" by (simp add: mask_eq_exp_minus_1)
  have "12 \<le> part_lo l" using l by (cases l) auto
  then have "get_bits (part_lo l) (part_width l) (addr AND NOT (mask 12)) =
      get_bits (part_lo l) (part_width l) addr"
    by (intro bit_eqI) (auto simp: word_bits bit_simps simp del: mask_numeral
        dest: bit_imp_le_length)
  then show ?thesis unfolding Part_def eq by (simp del: mask_numeral)
qed

lemma walk_cong: "(\<And>l. 1 \<le> l \<Longrightarrow> Part a l = Part b l) \<Longrightarrow> walk m t k a = walk m t k b"
  by (induction k arbitrary: t) (auto simp: Let_def)

lemma walk_level0:
  "pt_inv s R \<Longrightarrow> f \<in> R l \<Longrightarrow> upper l (Part addr l) \<Longrightarrow> l \<le> 4 \<Longrightarrow>
     walk (pmem s) (Frame f) l addr = Some q \<Longrightarrow> \<exists>g \<in> R 0. q = Frame g"
proof (induction l arbitrary: f)
  case 0
  then show ?case by auto
next
  case (Suc l)
  let ?i = "Part addr (Suc l)"
  have i: "?i < 512" by (simp add: Part_less)
  from Suc.prems(5) have e: "pme_present (entry_of s f ?i)"
    "walk (pmem s) (Pointer (entry_of s f ?i)) l addr = Some q"
    by (auto simp: Let_def split: if_splits)
  obtain g where g: "g \<in> R l" "Pointer (entry_of s f ?i) = Frame g"
    using Suc.prems(1-3) i e(1) unfolding pt_inv_def by blast
  have "upper l (Part addr l)" using Suc.prems(4) by (simp add: upper_def)
  with Suc.IH [OF Suc.prems(1) g(1)] Suc.prems(4) e(2) g(2) show ?case by simp
qed

text \<open>Documented behaviour of the processor: where the tables translate a page, so does it.\<close>

definition mmu_walks :: "translation \<Rightarrow> bool" where
  "mmu_walks xlat \<longleftrightarrow>
     (\<forall>m c a q. walk m c 4 a = Some q \<longrightarrow> xlat m c (a AND 0xfffffffffffff000) = Some q)"

lemma get_copy_words:
  "f < kFrameCount \<Longrightarrow> g < kFrameCount \<Longrightarrow> h < kFrameCount \<Longrightarrow> f \<noteq> g \<Longrightarrow> n \<le> 512 \<Longrightarrow> j < 512 \<Longrightarrow>
     get_entry (copy_words (Frame f) (Frame g) n m) (Frame h) j =
     (if h = f \<and> j < n then get_entry m (Frame g) j else get_entry m (Frame h) j)"
proof (induction n arbitrary: h j)
  case (Suc n)
  let ?m = "copy_words (Frame f) (Frame g) n m"
  have src: "get_entry ?m (Frame g) n = get_entry m (Frame g) n"
    using Suc.IH [of g n] Suc.prems by simp
  have "copy_words (Frame f) (Frame g) (Suc n) m =
      put_entry (Frame f) n (get_entry ?m (Frame g) n) ?m"
    by (simp add: put_entry_def get_entry_def Let_def)
  with Suc src show ?case
    by (auto simp del: copy_words.simps simp: get_put_entry less_Suc_eq)
qed simp

text \<open>\<open>SetPageContent\<close> reaches the level 1 table that the translation of the address uses.\<close>

lemma SetPageContent_cases:
  "pt_inv s R \<Longrightarrow> f \<in> R (Suc l) \<Longrightarrow> upper (Suc l) (Part addr (Suc l)) \<Longrightarrow> l \<le> 3 \<Longrightarrow>
     walk (pmem s) (Frame f) (Suc l) addr = Some q \<Longrightarrow>
     \<exists>t \<in> R 1. SetPageContent s (Frame f) (Suc l) addr c =
         Some (upd_entry (Frame t) (Part addr 1) (\<lambda>e. set_writable True (SetPointer c e)) s, kSuccess) \<and>
       pme_present (entry_of s t (Part addr 1)) \<and> pme_user (entry_of s t (Part addr 1)) \<and>
       (\<forall>s'. (\<forall>k g i. g \<in> R (Suc (Suc k)) \<longrightarrow> i < 512 \<longrightarrow> entry_of s' g i = entry_of s g i) \<longrightarrow>
          walk (pmem s') (Frame f) (Suc l) addr = walk (pmem s') (Frame t) 1 addr)"
proof (induction l arbitrary: f)
  case 0
  then show ?case by (intro bexI [of _ f]) (auto simp: Let_def split: if_splits)
next
  case (Suc l)
  let ?i = "Part addr (Suc (Suc l))"
  have i: "?i < 512" by (simp add: Part_less)
  from Suc.prems(5) have e: "pme_present (entry_of s f ?i)" "pme_user (entry_of s f ?i)"
    "walk (pmem s) (Pointer (entry_of s f ?i)) (Suc l) addr = Some q"
    by (auto simp: Let_def split: if_splits)
  obtain g where g: "g \<in> R (Suc l)" "Pointer (entry_of s f ?i) = Frame g"
    using Suc.prems(1-3) i e(1) unfolding pt_inv_def by blast
  have "upper (Suc l) (Part addr (Suc l))" using Suc.prems(4) by (simp add: upper_def)
  from Suc.IH [OF Suc.prems(1) g(1) this] Suc.prems(4) e(3) g(2) obtain t where
    t: "t \<in> R 1" "SetPageContent s (Frame g) (Suc l) addr c =
         Some (upd_entry (Frame t) (Part addr 1) (\<lambda>e. set_writable True (SetPointer c e)) s, kSuccess)"
      "pme_present (entry_of s t (Part addr 1))" "pme_user (entry_of s t (Part addr 1))"
      "\<forall>s'. (\<forall>k g i. g \<in> R (Suc (Suc k)) \<longrightarrow> i < 512 \<longrightarrow> entry_of s' g i = entry_of s g i) \<longrightarrow>
          walk (pmem s') (Frame g) (Suc l) addr = walk (pmem s') (Frame t) 1 addr"
    by auto
  show ?case
  proof (intro bexI [of _ t] conjI allI impI)
    fix s' assume a: "\<forall>k g i. g \<in> R (Suc (Suc k)) \<longrightarrow> i < 512 \<longrightarrow> entry_of s' g i = entry_of s g i"
    then have "entry_of s' f ?i = entry_of s f ?i" using Suc.prems(2) i by blast
    with e(1,2) g(2) t(5) a
    show "walk (pmem s') (Frame f) (Suc (Suc l)) addr = walk (pmem s') (Frame t) 1 addr"
      by (simp add: Let_def)
  qed (use t g(2) in simp_all)
qed

text \<open>A fresh frame keeps the invariant: it belongs to no table.\<close>

lemma NewPageMap_fresh:
  assumes inv: "pt_inv s R" and n: "NewPageMap s = Some (s1, Inr p)"
  shows "\<exists>g. p = Frame g \<and> g < kFrameCount \<and> g \<notin> used_frames s \<and> pt_inv s1 R \<and>
    grows s R s1 R \<and> used_frames s1 = insert g (used_frames s) \<and> (\<forall>i<512. entry_of s1 g i = 0) \<and>
    (\<forall>h i. h \<in> used_frames s \<and> i < 512 \<longrightarrow> entry_of s1 h i = entry_of s h i)"
proof -
  have mu: "mm_usable (memory_manager s)" using inv by (simp add: pt_inv_def)
  from NewPageMap_cases [OF mu] n obtain g where g: "p = Frame g" "g < kFrameCount"
    "g \<notin> used_frames s" "used_frames s1 = insert g (used_frames s)" "cr3 s1 = cr3 s"
    "mm_usable (memory_manager s1)" "\<forall>i<512. entry_of s1 g i = 0"
    "\<forall>h i. h < kFrameCount \<and> h \<noteq> g \<and> i < 512 \<longrightarrow> entry_of s1 h i = entry_of s h i"
    by auto
  have same: "entry_of s1 h i = entry_of s h i" if "h \<in> used_frames s" "i < 512" for h i
    using g(8) used_less [OF that(1)] that g(3) by metis
  have inv1: "pt_inv s1 R"
    unfolding pt_inv_def
  proof (intro conjI allI impI)
    show "R l \<subseteq> used_frames s1" for l using inv g(4) by (auto simp: pt_inv_def)
    show "R l \<inter> R k = {}" if "l \<noteq> k" for l k using inv that by (simp add: pt_inv_def)
    fix l f i assume a: "f \<in> R (Suc l) \<and> i < 512 \<and> upper (Suc l) i \<and> pme_present (entry_of s1 f i)"
    then have "entry_of s1 f i = entry_of s f i" using same pt_inv_used [OF inv] by blast
    with a inv show "\<exists>q \<in> R l. Pointer (entry_of s1 f i) = Frame q"
      unfolding pt_inv_def by simp
  qed (rule g(6))
  have "grows s R s1 R" unfolding grows_def using g(4,5) same by auto
  with g inv1 same show ?thesis by auto
qed

lemma NewPageMap_total:
  assumes "mm_usable (memory_manager s)"
  shows "NewPageMap s = Some (s, Inl kNoEnoughMemory) \<or> (\<exists>s1 p. NewPageMap s = Some (s1, Inr p))"
proof -
  from NewPageMap_cases [OF assms] obtain s1 r where n: "NewPageMap s = Some (s1, r)"
    "case r of Inl e \<Rightarrow> s1 = s \<and> e = kNoEnoughMemory
     | Inr p \<Rightarrow> \<exists>f. p = Frame f \<and> f < kFrameCount \<and> f \<notin> used_frames s \<and>
         used_frames s1 = insert f (used_frames s) \<and> mm_usable (memory_manager s1) \<and>
         (\<forall>i<512. entry_of s1 f i = 0) \<and>
         (\<forall>g i. g < kFrameCount \<and> g \<noteq> f \<and> i < 512 \<longrightarrow> entry_of s1 g i = entry_of s g i)"
    by auto
  then show ?thesis by (cases r) auto
qed

text \<open>The fresh page, filled with a copy of the data page in frame \<open>old\<close>.\<close>

definition copied :: "paging_state \<Rightarrow> u64 \<Rightarrow> nat \<Rightarrow> paging_state" where
  "copied s1 p old = s1\<lparr>pmem := copy_words p (Frame old) 512 (pmem s1)\<rparr>"

lemma copied_page:
  assumes inv: "pt_inv s R" and n: "NewPageMap s = Some (s1, Inr p)" and old: "old \<in> R 0"
  shows "\<exists>g. p = Frame g \<and> g < kFrameCount \<and> g \<notin> used_frames s \<and> grows s R s1 R \<and>
    pt_inv (copied s1 p old) R \<and> grows s R (copied s1 p old) R \<and>
    used_frames (copied s1 p old) = insert g (used_frames s) \<and>
    (\<forall>i<512. entry_of (copied s1 p old) g i = entry_of s old i) \<and>
    (\<forall>h i. h \<in> used_frames s \<and> i < 512 \<longrightarrow> entry_of (copied s1 p old) h i = entry_of s h i)"
proof -
  from NewPageMap_fresh [OF inv n] obtain g where
    g: "p = Frame g" "g < kFrameCount" "g \<notin> used_frames s" "pt_inv s1 R" "grows s R s1 R"
      "used_frames s1 = insert g (used_frames s)"
      "\<forall>h i. h \<in> used_frames s \<and> i < 512 \<longrightarrow> entry_of s1 h i = entry_of s h i" by auto
  let ?s2 = "copied s1 p old"
  have oldu: "old \<in> used_frames s" by (rule pt_inv_used [OF inv old])
  have og: "g \<noteq> old" using g(3) oldu by blast
  have e2: "entry_of ?s2 h i = (if h = g then entry_of s1 old i else entry_of s1 h i)"
    if "h < kFrameCount" "i < 512" for h i
    using get_copy_words [OF g(2) used_less [OF oldu] that(1) og] that(2) g(1)
    by (simp add: copied_def)
  have used2: "used_frames ?s2 = insert g (used_frames s)"
    using g(6) by (simp add: copied_def used_frames_def)
  have same2: "entry_of ?s2 h i = entry_of s h i" if "h \<in> used_frames s" "i < 512" for h i
    using e2 [OF used_less [OF that(1)] that(2)] g(3,7) that by auto
  have inv2: "pt_inv ?s2 R"
    unfolding pt_inv_def
  proof (intro conjI allI impI)
    show "mm_usable (memory_manager ?s2)" using g(4) by (simp add: pt_inv_def copied_def)
    show "R l \<subseteq> used_frames ?s2" for l using inv used2 by (auto simp: pt_inv_def)
    show "R l \<inter> R k = {}" if "l \<noteq> k" for l k using inv that by (simp add: pt_inv_def)
    fix l f i assume a: "f \<in> R (Suc l) \<and> i < 512 \<and> upper (Suc l) i \<and> pme_present (entry_of ?s2 f i)"
    then have "entry_of ?s2 f i = entry_of s f i" using same2 pt_inv_used [OF inv] by blast
    with a inv show "\<exists>q \<in> R l. Pointer (entry_of ?s2 f i) = Frame q" unfolding pt_inv_def by simp
  qed
  have "grows s R ?s2 R"
    unfolding grows_def using used2 g(5) same2 by (auto simp: copied_def grows_def)
  moreover have "\<forall>i<512. entry_of ?s2 g i = entry_of s old i"
    using e2 [OF g(2)] g(7) oldu by simp
  ultimately show ?thesis using g(1,2,3,5) inv2 used2 same2 by auto
qed

text \<open>Redirecting the leaf entry of an address to the fresh page in frame \<open>g\<close>.\<close>

definition redirected :: "paging_state \<Rightarrow> nat \<Rightarrow> LinearAddress4Level \<Rightarrow> nat \<Rightarrow> paging_state" where
  "redirected s t addr g =
     upd_entry (Frame t) (Part addr 1) (\<lambda>e. set_writable True (SetPointer (Frame g) e)) s"

lemma redirect_page:
  assumes inv: "pt_inv s R" and root: "root \<in> R 4" "256 \<le> Part addr 4"
    and w: "walk (pmem s) (Frame root) 4 addr = Some q" and g: "g < kFrameCount" "\<forall>l. g \<notin> R l"
  shows "\<exists>t \<in> R 1. SetPageContent s (Frame root) 4 addr (Frame g) =
      Some (redirected s t addr g, kSuccess) \<and>
    walk (pmem (redirected s t addr g)) (Frame root) 4 addr = Some (Frame g) \<and>
    (\<forall>h i. h < kFrameCount \<and> h \<noteq> t \<and> i < 512 \<longrightarrow>
       entry_of (redirected s t addr g) h i = entry_of s h i)"
proof -
  have r3: "root \<in> R (Suc 3)" "upper (Suc 3) (Part addr (Suc 3))"
      "walk (pmem s) (Frame root) (Suc 3) addr = Some q"
    using root w by (simp_all add: upper_def eval_nat_numeral)
  from SetPageContent_cases [OF inv r3(1,2) _ r3(3), of "Frame g"] obtain t where t: "t \<in> R 1" and
    sp: "SetPageContent s (Frame root) (Suc 3) addr (Frame g) = Some (redirected s t addr g, kSuccess)"
    and pt: "pme_present (entry_of s t (Part addr 1))" "pme_user (entry_of s t (Part addr 1))" and
    wk: "\<And>s'. \<forall>k g i. g \<in> R (Suc (Suc k)) \<longrightarrow> i < 512 \<longrightarrow> entry_of s' g i = entry_of s g i \<Longrightarrow>
          walk (pmem s') (Frame root) (Suc 3) addr = walk (pmem s') (Frame t) 1 addr"
    by (auto simp: redirected_def)
  have tk: "t < kFrameCount" using used_less pt_inv_used [OF inv t] .
  have i1: "Part addr 1 < 512" by (simp add: Part_less)
  have e3: "entry_of (redirected s t addr g) h i = (if t = h \<and> Part addr 1 = i
      then set_writable True (SetPointer (Frame g) (entry_of s t i)) else entry_of s h i)"
    if "h < kFrameCount" "i < 512" for h i
    unfolding redirected_def using entry_of_upd [OF tk that(1) i1 that(2)] by auto
  have "entry_of (redirected s t addr g) h i = entry_of s h i"
    if "h \<in> R (Suc (Suc k))" "i < 512" for h i k
  proof -
    have "R (Suc (Suc k)) \<inter> R 1 = {}" using inv by (simp add: pt_inv_def)
    then have "h \<noteq> t" using that(1) t by blast
    then show ?thesis using e3 [OF used_less [OF pt_inv_used [OF inv that(1)]] that(2)] by simp
  qed
  then have "walk (pmem (redirected s t addr g)) (Frame root) 4 addr =
      walk (pmem (redirected s t addr g)) (Frame t) 1 addr"
    using wk [of "redirected s t addr g"] by (simp add: eval_nat_numeral)
  also have "\<dots> = Some (Frame g)"
    using e3 [OF tk i1] pt page_ok_Frame [OF g(1)] by (simp add: Let_def)
  finally show ?thesis using t sp e3 by (intro bexI [of _ t]) (auto simp: eval_nat_numeral)
qed

lemma CopyOnePage_cases:
  assumes inv: "pt_inv s R" and root: "root \<in> R 4" "cr3 s = Frame root" "256 \<le> Part addr 4"
    and w: "walk (pmem s) (cr3 s) 4 addr = Some (Frame old)" "old < kFrameCount"
    and mmu: "mmu_walks xlat"
  shows "\<exists>s' e. CopyOnePage xlat s addr = Some (s', e) \<and>
    (if e = kSuccess
     then \<exists>new. new \<notin> used_frames s \<and> used_frames s' = insert new (used_frames s) \<and>
        walk (pmem s') (cr3 s') 4 addr = Some (Frame new) \<and>
        (\<forall>i<512. entry_of s' new i = entry_of s old i) \<and>
        (\<forall>f \<in> used_frames s. (\<forall>l. f \<notin> R (Suc l)) \<longrightarrow> (\<forall>i<512. entry_of s' f i = entry_of s f i))
     else e = kNoEnoughMemory \<and> s' = s)"
proof -
  have mu: "mm_usable (memory_manager s)" using inv by (simp add: pt_inv_def)
  have up: "upper 4 (Part addr 4)" using root(3) by (simp add: upper_def)
  have w0: "walk (pmem s) (Frame root) 4 addr = Some (Frame old)" using w(1) root(2) by simp
  obtain o' where "o' \<in> R 0" "Frame old = Frame o'"
    using walk_level0 [OF inv root(1) up _ w0] by auto
  then have old: "old \<in> R 0"
    using Frame_inj [OF w(2), of o'] used_less pt_inv_used [OF inv] by blast
  consider "NewPageMap s = Some (s, Inl kNoEnoughMemory)" | s1 p where "NewPageMap s = Some (s1, Inr p)"
    using NewPageMap_total [OF mu] by blast
  then show ?thesis
  proof cases
    case 1
    then show ?thesis by (auto simp: CopyOnePage_def)
  next
    case 2
    from copied_page [OF inv 2 old] obtain g where g: "p = Frame g" "g < kFrameCount"
      "g \<notin> used_frames s" "grows s R s1 R" and c: "pt_inv (copied s1 p old) R"
      "grows s R (copied s1 p old) R" "used_frames (copied s1 p old) = insert g (used_frames s)"
      "\<forall>i<512. entry_of (copied s1 p old) g i = entry_of s old i"
      "\<forall>h i. h \<in> used_frames s \<and> i < 512 \<longrightarrow> entry_of (copied s1 p old) h i = entry_of s h i"
      by auto
    have cr: "cr3 s1 = Frame root" "cr3 (copied s1 p old) = Frame root"
      using g(4) c(2) root(2) by (simp_all add: grows_def)
    have gR: "\<forall>l. g \<notin> R l" using g(3) pt_inv_used [OF inv] by blast
    have "walk (pmem (copied s1 p old)) (Frame root) 4 addr = Some (Frame old)"
      using walk_grows [OF c(2) inv root(1) up _ w0] by simp
    from redirect_page [OF c(1) root(1,3) this g(2) gR] obtain t where t: "t \<in> R 1"
      "SetPageContent (copied s1 p old) (Frame root) 4 addr (Frame g) =
         Some (redirected (copied s1 p old) t addr g, kSuccess)"
      "walk (pmem (redirected (copied s1 p old) t addr g)) (Frame root) 4 addr = Some (Frame g)"
      "\<forall>h i. h < kFrameCount \<and> h \<noteq> t \<and> i < 512 \<longrightarrow>
         entry_of (redirected (copied s1 p old) t addr g) h i = entry_of (copied s1 p old) h i"
      by auto
    have "walk (pmem s1) (Frame root) 4 addr = Some (Frame old)"
      using walk_grows [OF g(4) inv root(1) up _ w0] by simp
    then have "xlat (pmem s1) (cr3 s1) (addr AND 0xfffffffffffff000) = Some (Frame old)"
      using mmu cr(1) unfolding mmu_walks_def by simp
    then have res: "CopyOnePage xlat s addr = Some (redirected (copied s1 p old) t addr g, kSuccess)"
      using 2 t(2) cr(2) g(1) by (simp add: CopyOnePage_def copied_def)
    have gt: "g \<noteq> t" using gR t(1) by blast
    have same: "entry_of (redirected (copied s1 p old) t addr g) f i = entry_of s f i"
      if "f \<in> used_frames s" "\<forall>l. f \<notin> R (Suc l)" "i < 512" for f i
    proof -
      have "f \<noteq> t" using that(2) t(1) by (metis One_nat_def)
      then show ?thesis using t(4) c(5) used_less [OF that(1)] that(1,3) by simp
    qed
    with res t(3,4) c(3,4) cr(2) g(2,3) gt show ?thesis
      by (intro exI [of _ "redirected (copied s1 p old) t addr g"] exI [of _ kSuccess])
        (auto simp: redirected_def intro!: exI [of _ g])
  qed
qed

section \<open>The identity map\<close>

text \<open>The linker places the static tables in page-aligned memory without overlap.\<close>

definition tables_placed :: "kernel_tables \<Rightarrow> nat \<Rightarrow> nat \<Rightarrow> nat \<Rightarrow> bool" where
  "tables_placed t a b d \<longleftrightarrow>
     pml4_table t = Frame a \<and> pdp_table t = Frame b \<and> page_directory t = Frame d \<and>
     a < kFrameCount \<and> b < kFrameCount \<and> d + kPageDirectoryCount \<le> kFrameCount \<and> a \<noteq> b \<and>
     a \<notin> {d..<d + kPageDirectoryCount} \<and> b \<notin> {d..<d + kPageDirectoryCount}"

definition large_entry :: "nat \<Rightarrow> nat \<Rightarrow> PageMapEntry" where
  "large_entry i j = (of_nat i * kPageSize1G + of_nat j * kPageSize2M) OR 0x083"

lemma page_directory_at_Frame:
  "page_directory t = Frame d \<Longrightarrow> page_directory_at t i = Frame (d + i)"
  by (simp add: page_directory_at_def Frame_def frame_consts algebra_simps)

lemma get_fill_page_directory:
  assumes "page_directory t = Frame d" "d + i < kFrameCount" "f < kFrameCount" "j < 512"
  shows "n \<le> 512 \<Longrightarrow> get_entry (fill_page_directory t i n m) (Frame f) j =
     (if f = d + i \<and> j < n then large_entry i j else get_entry m (Frame f) j)"
  using assms
  by (induction n) (auto simp: page_directory_at_Frame get_put_entry large_entry_def less_Suc_eq)

lemma get_fill_pdp_table:
  assumes "tables_placed t a b d" "f < kFrameCount" "j < 512"
  shows "n \<le> kPageDirectoryCount \<Longrightarrow> get_entry (fill_pdp_table t n m) (Frame f) j =
     (if f = b \<and> j < n then Frame (d + j) OR 0x003
      else if d \<le> f \<and> f < d + n then large_entry (f - d) j
      else get_entry m (Frame f) j)"
proof (induction n)
  case (Suc n)
  have "d + n < kFrameCount" "b < kFrameCount" "n < 512" "b \<noteq> d + n" and
    t: "pdp_table t = Frame b" "page_directory t = Frame d"
    using assms(1) Suc.prems by (auto simp: tables_placed_def kPageDirectoryCount_def)
  then show ?case
    using Suc assms(2,3) by (auto simp: get_fill_page_directory [OF t(2)] get_put_entry
        page_directory_at_Frame less_Suc_eq)
qed auto

lemma page_ok_bits: "page_ok p \<Longrightarrow> bit p n \<Longrightarrow> 12 \<le> n \<and> n < 52"
  unfolding page_ok_def
  by (metis bit_0_eq bit_take_bit_iff bot_apply bot_bool_def linorder_not_less)

lemma Pointer_or_low:
  assumes "take_bit 12 k = k" "page_ok p"
  shows "Pointer (p OR k) = p"
proof -
  have "bit k n \<Longrightarrow> n < 12" for n using assms(1) by (metis bit_take_bit_iff)
  then show ?thesis
    using page_ok_bits [OF assms(2)]
    by (intro bit_eqI) (force simp: Pointer_def bit_simps word_bits)
qed

text \<open>A 2 MiB page: its base, bits 21 and up of the entry, and the offset in the address.\<close>

definition large_page_addr :: "PageMapEntry \<Rightarrow> u64 \<Rightarrow> u64" where
  "large_page_addr e v = (e AND NOT (mask 21)) OR (v AND mask 21)"

lemma part_numerals:
  "part_lo 2 = 21" "part_lo 3 = 30" "part_lo 4 = 39"
  "part_width 2 = 9" "part_width 3 = 9" "part_width 4 = 9"
  by (simp_all add: eval_nat_numeral)

lemma large_entry_addr:
  assumes "unat v < 64 * 2 ^ 30"
  shows "Part v 4 = 0" "Part v 3 < 64"
    and "large_page_addr (large_entry (Part v 3) (Part v 2)) v = v"
proof -
  have p: "Part v 2 = unat v div 2 ^ 21 mod 512" "Part v 3 = unat v div 2 ^ 30 mod 512"
    "Part v 4 = unat v div 2 ^ 39 mod 512"
    by (simp_all add: Part_def unat_get_bits take_bit_eq_mod part_numerals)
  show "Part v 4 = 0" using assms p(3) by simp
  have lt: "unat v div 2 ^ 30 < 64" using assms by (simp add: div_less_iff_less_mult)
  then show "Part v 3 < 64" using p(2) by simp
  have "unat v div 2 ^ 21 div 512 = unat v div 2 ^ 30" by (simp add: div_mult2_eq [symmetric])
  then have "Part v 3 = unat v div 2 ^ 21 div 512" using p(2) lt by simp
  then have dec: "Part v 3 * 512 + Part v 2 = unat v div 2 ^ 21"
    unfolding p(1) by (simp only: div_mult_mod_eq)
  have "of_nat (Part v 3) * kPageSize1G + of_nat (Part v 2) * kPageSize2M =
      (of_nat (Part v 3 * 512 + Part v 2) :: u64) * 2 ^ 21"
    by (simp add: kPageSize1G_def kPageSize2M_def kPageSize4K_def algebra_simps)
  also have "\<dots> = push_bit 21 (drop_bit 21 v)"
    unfolding dec unat_div_pow2 [symmetric]
    by (simp only: push_bit_eq_mult drop_bit_eq_div of_nat_unat ucast_id)
  finally have e: "large_entry (Part v 3) (Part v 2) = push_bit 21 (drop_bit 21 v) OR 0x083"
    by (simp only: large_entry_def)
  have "take_bit 8 (0x083 :: u64) = 0x083" by simp
  then have "bit (0x083 :: u64) n \<Longrightarrow> n < 8" for n by (metis bit_take_bit_iff)
  then show "large_page_addr (large_entry (Part v 3) (Part v 2)) v = v"
    unfolding e large_page_addr_def by (intro bit_eqI) (force simp: bit_simps simp del: mask_numeral)
qed

lemma large_entry_flags: "pme_present (large_entry i j)" "pme_writable (large_entry i j)"
    "bit (large_entry i j) 7"
  by (simp_all add: large_entry_def pme_present_def pme_writable_def bit_or_iff)

section \<open>Properties\<close>

text \<open>
  C35. \<open>SetupIdentityPageTable\<close> maps the first 64 GiB onto themselves: for every such address
  the three table levels are present and end in a present, writable 2 MiB page whose
  physical address is the address itself.
\<close>

theorem SetupIdentityPageTable_identity:
  assumes "tables_placed t a b d" and "unat v < 64 * 2 ^ 30"
  shows "let s' = fst (SetupIdentityPageTable t (s, cr0));
             e4 = get_entry (pmem s') (cr3 s') (Part v 4);
             e3 = get_entry (pmem s') (Pointer e4) (Part v 3);
             e2 = get_entry (pmem s') (Pointer e3) (Part v 2)
         in pme_present e4 \<and> pme_present e3 \<and> pme_present e2 \<and> pme_writable e2 \<and> bit e2 7 \<and>
            large_page_addr e2 v = v"
proof -
  note v = large_entry_addr [OF assms(2)]
  have t: "pml4_table t = Frame a" "pdp_table t = Frame b" "a < kFrameCount" "b < kFrameCount"
    "d + 64 \<le> kFrameCount" "a \<noteq> b" "\<not> (d \<le> a \<and> a < d + 64)" "\<not> (d \<le> b \<and> b < d + 64)"
    using assms(1) by (auto simp: tables_placed_def kPageDirectoryCount_def)
  define s' where "s' = fst (SetupIdentityPageTable t (s, cr0))"
  have c: "cr3 s' = Frame a" and m: "pmem s' = fill_pdp_table t kPageDirectoryCount
      (put_entry (Frame a) 0 (Frame b OR 0x003) (pmem s))"
    using t by (simp_all add: s'_def SetupIdentityPageTable_def ResetCR3_def Let_def)
  have g: "get_entry (pmem s') (Frame f) j =
     (if f = b \<and> j < 64 then Frame (d + j) OR 0x003
      else if d \<le> f \<and> f < d + 64 then large_entry (f - d) j
      else get_entry (put_entry (Frame a) 0 (Frame b OR 0x003) (pmem s)) (Frame f) j)"
    if "f < kFrameCount" "j < 512" for f j
    unfolding m using get_fill_pdp_table [OF assms(1) that, of kPageDirectoryCount]
    by (simp add: kPageDirectoryCount_def)
  have p3: "pme_present (p OR 3)" for p by (simp add: pme_present_def bit_or_iff)
  have ptr: "Pointer (Frame f OR 3) = Frame f" if "f < kFrameCount" for f
    using Pointer_or_low [OF _ page_ok_Frame [OF that], of 3] by simp
  have e4: "get_entry (pmem s') (cr3 s') (Part v 4) = Frame b OR 3"
    using g [of a 0] v(1) t c get_put_entry [of a a 0 0] by simp
  have e3: "get_entry (pmem s') (Frame b) (Part v 3) = Frame (d + Part v 3) OR 3"
    using g [of b "Part v 3"] v(2) t by simp
  have e2: "get_entry (pmem s') (Frame (d + Part v 3)) (Part v 2) = large_entry (Part v 3) (Part v 2)"
    using g [of "d + Part v 3" "Part v 2"] v(2) t Part_less [of 2 v] by auto
  show ?thesis
    using e4 e3 e2 ptr t(4,5) v(2,3) p3 large_entry_flags
    unfolding s'_def [symmetric] Let_def by simp
qed

definition sample_tables :: kernel_tables where
  "sample_tables = \<lparr>pml4_table = Frame 1, pdp_table = Frame 2, page_directory = Frame 3\<rparr>"

theorem SetupIdentityPageTable_identity_witness:
  "tables_placed sample_tables 1 2 3 \<and>
   (let s' = fst (SetupIdentityPageTable sample_tables
               (\<lparr>pmem = \<lambda>_. 0, cr3 = 0, memory_manager = BitmapMemoryManager_new\<rparr>, 0));
        e4 = get_entry (pmem s') (cr3 s') (Part 0x12345678 4);
        e3 = get_entry (pmem s') (Pointer e4) (Part 0x12345678 3);
        e2 = get_entry (pmem s') (Pointer e3) (Part 0x12345678 2)
    in pme_present e4 \<and> pme_present e3 \<and> pme_present e2 \<and> pme_writable e2 \<and> bit e2 7 \<and>
       large_page_addr e2 0x12345678 = 0x12345678)"
proof -
  have p: "tables_placed sample_tables 1 2 3"
    by (simp add: tables_placed_def sample_tables_def kPageDirectoryCount_def frame_consts)
  have v: "unat (0x12345678 :: u64) < 64 * 2 ^ 30" by simp
  show ?thesis using p SetupIdentityPageTable_identity [OF p v] by simp
qed

text \<open>
  C2. On page tables whose frames are all allocated (the upper half, \<open>pt_inv\<close>), \<open>SetupPageMaps\<close>
  always returns.  On success every page from \<open>addr\<close> for \<open>n\<close> pages (or to the end of the
  address space) is mapped and user accessible, all earlier translations and the contents
  of all allocated pages that are not page tables are unchanged, and new frames were free
  before; the only error is \<open>kNoEnoughMemory\<close>.
\<close>

theorem SetupPageMaps_maps:
  assumes "pt_inv s R" "root \<in> R 4" "cr3 s = Frame root" "256 \<le> Part addr 4"
  shows "\<exists>s' e R'. SetupPageMaps s addr n w = Some (s', e) \<and> pt_inv s' R' \<and> grows s R s' R' \<and>
    (if e = kSuccess
     then \<forall>b. vpn 4 addr \<le> vpn 4 b \<and> vpn 4 b < vpn 4 addr + n \<longrightarrow>
            (\<exists>q. walk (pmem s') (cr3 s') 4 b = Some q)
     else e = kNoEnoughMemory)"
  using assms by (rule SetupPageMaps_cases)

text \<open>A state with one empty top-level table in frame 0.\<close>

definition sample_paging :: paging_state where
  "sample_paging = \<lparr>pmem = \<lambda>_. 0, cr3 = Frame 0,
     memory_manager = BitmapMemoryManager_new\<lparr>alloc_map := (\<lambda>_. 0)(0 := 0xff)\<rparr>\<rparr>"

definition sample_levels :: "nat \<Rightarrow> nat set" where
  "sample_levels l = (if l = 4 then {0} else {})"

lemma sample_paging_inv: "pt_inv sample_paging sample_levels"
proof -
  have "0 \<in> used_frames sample_paging"
    by (simp add: used_frames_def sample_paging_def allocated_def frame_bit_def frame_consts)
  then show ?thesis
    by (auto simp: pt_inv_def sample_levels_def sample_paging_def get_entry_def mm_usable_def
        BitmapMemoryManager_new_def split: if_splits)
qed

theorem SetupPageMaps_maps_witness:
  "\<exists>s' e. SetupPageMaps sample_paging 0xffff800000000000 3 True = Some (s', e) \<and>
    (e = kSuccess \<longrightarrow> (\<exists>q. walk (pmem s') (cr3 s') 4 0xffff800000000000 = Some q))"
proof -
  have p4: "256 \<le> Part 0xffff800000000000 4"
    by (simp add: Part_def unat_get_bits part_numerals take_bit_eq_mod)
  have r: "0 \<in> sample_levels 4" "cr3 sample_paging = Frame 0"
    by (simp_all add: sample_levels_def sample_paging_def)
  show ?thesis
    using SetupPageMaps_maps [OF sample_paging_inv r p4, of 3 True] by (auto split: if_splits)
qed

text \<open>
  C6. Copy on write: when the tables translate a faulting address to a page \<open>old\<close>,
  \<open>CopyOnePage\<close> gives it a frame nobody used, with the contents of \<open>old\<close>, and changes no
  other page that was in use except page tables; without memory nothing changes.
\<close>

theorem CopyOnePage_copies:
  assumes "pt_inv s R" "root \<in> R 4" "cr3 s = Frame root" "256 \<le> Part addr 4"
    and "walk (pmem s) (cr3 s) 4 addr = Some (Frame old)" "old < kFrameCount" "mmu_walks xlat"
  shows "\<exists>s' e. CopyOnePage xlat s addr = Some (s', e) \<and>
    (if e = kSuccess
     then \<exists>new. new \<notin> used_frames s \<and> used_frames s' = insert new (used_frames s) \<and>
        walk (pmem s') (cr3 s') 4 addr = Some (Frame new) \<and>
        (\<forall>i<512. entry_of s' new i = entry_of s old i) \<and>
        (\<forall>f \<in> used_frames s. (\<forall>l. f \<notin> R (Suc l)) \<longrightarrow> (\<forall>i<512. entry_of s' f i = entry_of s f i))
     else e = kNoEnoughMemory \<and> s' = s)"
  using assms by (rule CopyOnePage_cases)

text \<open>Frames 0 to 3 hold the tables of one upper-half page, frame 4 the page.\<close>

definition sample_mapped :: paging_state where
  "sample_mapped = sample_paging\<lparr>pmem :=
     put_entry (Frame 0) 256 0x1007 (put_entry (Frame 1) 0 0x2007
       (put_entry (Frame 2) 0 0x3007 (put_entry (Frame 3) 0 0x4005
         (put_entry (Frame 4) 0 42 (\<lambda>_. 0)))))\<rparr>"

definition mapped_levels :: "nat \<Rightarrow> nat set" where
  "mapped_levels l = (if l \<le> 4 then {4 - l} else {})"

definition sample_xlat :: translation where
  "sample_xlat m c a = walk m c 4 a"

lemma mmu_walks_sample: "mmu_walks sample_xlat"
proof -
  have "walk m c 4 (a AND 0xfffffffffffff000) = walk m c 4 a" for m c a
    by (rule walk_cong) (rule Part_aligned)
  then show ?thesis by (simp add: mmu_walks_def sample_xlat_def)
qed

lemma sample_mapped_entry:
  "f < kFrameCount \<Longrightarrow> i < 512 \<Longrightarrow> entry_of sample_mapped f i =
     (if f = 0 \<and> i = 256 then 0x1007 else if f = 1 \<and> i = 0 then 0x2007
      else if f = 2 \<and> i = 0 then 0x3007 else if f = 3 \<and> i = 0 then 0x4005
      else if f = 4 \<and> i = 0 then 42 else 0)"
  by (simp add: sample_mapped_def get_put_entry frame_consts) (simp add: get_entry_def)

lemma sample_pointers:
  "Pointer 0x1007 = Frame 1" "Pointer 0x2007 = Frame 2" "Pointer 0x3007 = Frame 3"
  "Pointer 0x4005 = Frame 4"
  by (simp_all add: Pointer_def get_bits_def Frame_def frame_consts drop_bit_eq_div take_bit_eq_mod
      push_bit_eq_mult)

lemma sample_mapped_inv: "pt_inv sample_mapped mapped_levels"
  unfolding pt_inv_def
proof (intro conjI allI impI)
  show "mm_usable (memory_manager sample_mapped)"
    using sample_paging_inv by (simp add: pt_inv_def sample_mapped_def)
  have u: "f \<in> used_frames sample_mapped" if "f \<in> {0, 1, 2, 3, 4}" for f
    using that by (auto simp: used_frames_def sample_mapped_def sample_paging_def allocated_def
        frame_bit_def frame_consts)
  have "4 - l \<in> {0, 1, 2, 3, 4 :: nat}" for l by auto
  with u show "mapped_levels l \<subseteq> used_frames sample_mapped" for l
    by (auto simp: mapped_levels_def simp del: insert_iff)
  show "mapped_levels l \<inter> mapped_levels k = {}" if "l \<noteq> k" for l k
    using that by (auto simp: mapped_levels_def)
  fix l f i
  assume a: "f \<in> mapped_levels (Suc l) \<and> i < 512 \<and> upper (Suc l) i \<and>
    pme_present (entry_of sample_mapped f i)"
  then have l: "l < 4" "f = 3 - l" "i < 512" by (auto simp: mapped_levels_def split: if_splits)
  then have fk: "f < kFrameCount" by (simp add: frame_consts)
  from l(1) consider "l = 0" | "l = 1" | "l = 2" | "l = 3" by linarith
  then show "\<exists>g \<in> mapped_levels l. Pointer (entry_of sample_mapped f i) = Frame g"
    using a l sample_mapped_entry [OF fk l(3)]
    by cases (auto simp: mapped_levels_def sample_pointers split: if_splits)
qed

theorem CopyOnePage_copies_witness:
  "\<exists>s' e. CopyOnePage sample_xlat sample_mapped 0xffff800000000018 = Some (s', e) \<and>
    (e = kSuccess \<longrightarrow> (\<exists>new. walk (pmem s') (cr3 s') 4 0xffff800000000018 = Some (Frame new) \<and>
       new \<notin> used_frames sample_mapped))"
proof -
  let ?a = "0xffff800000000018 :: u64"
  have parts: "Part ?a 4 = 256" "Part ?a 3 = 0" "Part ?a 2 = 0" "Part ?a 1 = 0"
    by (simp_all add: Part_def unat_get_bits part_numerals take_bit_eq_mod)
  have r: "0 \<in> mapped_levels 4" "cr3 sample_mapped = Frame 0" "256 \<le> Part ?a 4" "4 < kFrameCount"
    using parts by (simp_all add: mapped_levels_def sample_mapped_def sample_paging_def frame_consts)
  have e: "entry_of sample_mapped 0 256 = 0x1007" "entry_of sample_mapped 1 0 = 0x2007"
    "entry_of sample_mapped 2 0 = 0x3007" "entry_of sample_mapped 3 0 = 0x4005"
    by (simp_all add: sample_mapped_entry frame_consts)
  have step: "walk m t (Suc l) ?a = walk m (Pointer (get_entry m t (Part ?a (Suc l)))) l ?a"
    if "get_entry m t (Part ?a (Suc l)) \<in> {0x1007, 0x2007, 0x3007, 0x4005}" for m t l
    using that by (auto simp: Let_def pme_present_def pme_user_def)
  let ?w = "walk (pmem sample_mapped)"
  have "?w (Frame 3) (Suc 0) ?a = Some (Frame 4)"
    using step [of "pmem sample_mapped" "Frame 3" 0] e parts by (simp add: sample_pointers)
  then have "?w (Frame 2) (Suc 1) ?a = Some (Frame 4)"
    using step [of "pmem sample_mapped" "Frame 2" 1] e parts
    by (simp add: sample_pointers numeral_2_eq_2)
  then have "?w (Frame 1) (Suc 2) ?a = Some (Frame 4)"
    using step [of "pmem sample_mapped" "Frame 1" 2] e parts
    by (simp add: sample_pointers numeral_2_eq_2 numeral_3_eq_3)
  then have "?w (Frame 0) (Suc 3) ?a = Some (Frame 4)"
    using step [of "pmem sample_mapped" "Frame 0" 3] e parts
    by (simp add: sample_pointers eval_nat_numeral)
  then have "?w (cr3 sample_mapped) 4 ?a = Some (Frame 4)"
    using r(2) by (simp add: eval_nat_numeral)
  from CopyOnePage_copies [OF sample_mapped_inv r(1,2,3) this r(4) mmu_walks_sample]
  show ?thesis by (auto split: if_splits)
qed

end
