(* ===== verification/Messages.thy ===== *)
theory Messages
  imports Kernel_Prelude
begin

text \<open>
  Inter-task messages: \<open>kernel/message.hpp\<close>.  The union \<open>arg\<close> is a datatype with one
  constructor per member; \<open>NoArg\<close> is a message whose \<open>arg\<close> was not written.
\<close>

datatype LayerOperation = Move | MoveRelative | Draw | DrawArea

datatype MessageType =
    kInterruptXHCI | kTimerTimeout | kKeyPush | kLayer | kLayerFinish
  | kMouseMove | kMouseButton | kWindowActive | kPipe | kWindowClose

datatype MessageArg =
    NoArg
  | TimerArg (timer_timeout: u64) (timer_value: int)
  | KeyboardArg (kb_modifier: u8) (kb_keycode: u8) (kb_ascii: u8) (kb_press: int)
  | LayerArg (layer_op: LayerOperation) (layer_layer_id: nat) (layer_x: int) (layer_y: int)
      (layer_w: int) (layer_h: int)
  | MouseMoveArg (mm_x: int) (mm_y: int) (mm_dx: int) (mm_dy: int) (mm_buttons: u8)
  | MouseButtonArg (mb_x: int) (mb_y: int) (mb_press: int) (mb_button: int)
  | WindowActiveArg (wa_activate: int)
  | PipeArg (pipe_data: "u8 list") (pipe_len: nat)
  | WindowCloseArg (wc_layer_id: nat)

record Message =
  msg_type :: MessageType
  src_task :: nat
  arg :: MessageArg

end
