(* ===== verification/Task_Manager.thy ===== *)
theory Task_Manager
  imports Paging Messages
begin

text \<open>
  Tasks and the scheduler: \<open>kernel/task.hpp\<close> and \<open>kernel/task.cpp\<close>.  A \<open>Task*\<close> is the
  task's ID: identifiers are handed out by counting up and never reused, so the two agree as
  long as the task exists, and looking up the ID of a deleted task is \<open>None\<close>, as the
  dangling pointer would be undefined.  The processor's registers are a field of the state:
  \<open>SwitchContext\<close> stores them in one task's context and loads another's.
\<close>

section \<open>Tasks\<close>

record TaskContext =
  reg_cr3 :: u64
  reg_rip :: u64
  reg_rflags :: u64
  reg_reserved1 :: u64
  reg_cs :: u64
  reg_ss :: u64
  reg_fs :: u64
  reg_gs :: u64
  reg_rax :: u64
  reg_rbx :: u64
  reg_rcx :: u64
  reg_rdx :: u64
  reg_rdi :: u64
  reg_rsi :: u64
  reg_rsp :: u64
  reg_rbp :: u64
  reg_r8 :: u64
  reg_r9 :: u64
  reg_r10 :: u64
  reg_r11 :: u64
  reg_r12 :: u64
  reg_r13 :: u64
  reg_r14 :: u64
  reg_r15 :: u64
  fxsave_area :: "u8 list"

definition zero_context :: TaskContext where
  "zero_context = \<lparr>reg_cr3 = 0, reg_rip = 0, reg_rflags = 0, reg_reserved1 = 0, reg_cs = 0, reg_ss = 0, reg_fs = 0, reg_gs = 0,
     reg_rax = 0, reg_rbx = 0, reg_rcx = 0, reg_rdx = 0, reg_rdi = 0, reg_rsi = 0, reg_rsp = 0, reg_rbp = 0,
     reg_r8 = 0, reg_r9 = 0, reg_r10 = 0, reg_r11 = 0, reg_r12 = 0, reg_r13 = 0, reg_r14 = 0, reg_r15 = 0,
     fxsave_area = replicate 512 0\<rparr>"

definition kDefaultLevel :: nat where "kDefaultLevel = 1"
definition kDefaultStackBytes :: nat where "kDefaultStackBytes = 8 * 4096"
definition kMaxLevel :: nat where "kMaxLevel = 3"
definition kKernelCS :: u64 where "kKernelCS = 8"
definition kKernelSS :: u64 where "kKernelSS = 16"

text \<open>File descriptors are shared objects; a task's table holds references to them.\<close>

record Task =
  task_id :: nat
  stack_size :: nat
  ctx :: TaskContext
  os_stack_ptr :: u64
  msgs :: "Message list"
  level :: nat
  running :: bool
  files :: "nat option list"
  dpaging_begin :: u64
  dpaging_end :: u64
  file_map_end :: u64
  file_maps :: "FileMapping list"

definition Task_new :: "nat \<Rightarrow> Task" where
  "Task_new i = \<lparr>task_id = i, stack_size = 0, ctx = zero_context, os_stack_ptr = 0, msgs = [],
     level = kDefaultLevel, running = False, files = [], dpaging_begin = 0, dpaging_end = 0,
     file_map_end = 0, file_maps = []\<rparr>"

text \<open>\<open>stack_base\<close> is the address of \<open>stack_[0]\<close>, \<open>cr3\<close> what \<open>GetCR3\<close> returns.\<close>

definition InitContext :: "u64 \<Rightarrow> u64 \<Rightarrow> u64 \<Rightarrow> u64 \<Rightarrow> Task \<Rightarrow> Task" where
  "InitContext stack_base cr3' f data t =
    (let size = kDefaultStackBytes div 8;
         stack_end = stack_base + of_nat (8 * size) in
     t\<lparr>stack_size := size,
       ctx := zero_context\<lparr>reg_cr3 := cr3', reg_rflags := 0x202, reg_cs := kKernelCS, reg_ss := kKernelSS,
         reg_rsp := (stack_end AND NOT 0xf) - 8, reg_rip := f, reg_rdi := of_nat (task_id t), reg_rsi := data,
         fxsave_area := (replicate 512 0)[24 := 0x80, 25 := 0x1f]\<rparr>\<rparr>)"

definition push_message :: "Message \<Rightarrow> Task \<Rightarrow> Task" where
  "push_message m t = t\<lparr>msgs := msgs t @ [m]\<rparr>"

definition ReceiveMessage :: "Task \<Rightarrow> Task \<times> Message option" where
  "ReceiveMessage t =
    (case msgs t of [] \<Rightarrow> (t, None) | m # ms \<Rightarrow> (t\<lparr>msgs := ms\<rparr>, Some m))"

section \<open>The task manager\<close>

text \<open>\<open>cpu\<close> holds the processor's registers, the other fields are those of the class.\<close>

record TaskManager =
  tasks :: "Task list"
  latest_id :: nat
  run_queue :: "nat \<Rightarrow> nat list"
  current_level :: nat
  level_changed :: bool
  finish_tasks :: "nat \<Rightarrow> int option"
  finish_waiter :: "nat \<Rightarrow> nat option"
  cpu :: TaskContext

fun find_task :: "Task list \<Rightarrow> nat \<Rightarrow> Task option" where
  "find_task [] i = None"
| "find_task (t # ts) i = (if task_id t = i then Some t else find_task ts i)"

definition get_task :: "TaskManager \<Rightarrow> nat \<Rightarrow> Task option" where
  "get_task tm i = find_task (tasks tm) i"

definition upd_task :: "nat \<Rightarrow> (Task \<Rightarrow> Task) \<Rightarrow> TaskManager \<Rightarrow> TaskManager" where
  "upd_task i f tm = tm\<lparr>tasks := map (\<lambda>t. if task_id t = i then f t else t) (tasks tm)\<rparr>"

definition set_queue :: "nat \<Rightarrow> nat list \<Rightarrow> TaskManager \<Rightarrow> TaskManager" where
  "set_queue l q tm = tm\<lparr>run_queue := (run_queue tm)(l := q)\<rparr>"

definition Erase :: "'a list \<Rightarrow> 'a \<Rightarrow> 'a list" where
  "Erase c v = filter (\<lambda>x. x \<noteq> v) c"

definition NewTask :: "TaskManager \<Rightarrow> TaskManager \<times> nat" where
  "NewTask tm = (let i = latest_id tm + 1 in
     (tm\<lparr>latest_id := i, tasks := tasks tm @ [Task_new i]\<rparr>, i))"

text \<open>\<open>running_[level].front()\<close>, undefined for an empty deque or a level beyond the array.\<close>

definition front :: "TaskManager \<Rightarrow> nat \<Rightarrow> nat option" where
  "front tm l = (if l \<le> kMaxLevel then case run_queue tm l of [] \<Rightarrow> None | t # _ \<Rightarrow> Some t else None)"

definition CurrentTask :: "TaskManager \<Rightarrow> nat option" where
  "CurrentTask tm = front tm (current_level tm)"

text \<open>The constructor: the calling context becomes task 1 at the top level, the idle task is 2.\<close>

definition empty_manager :: "TaskContext \<Rightarrow> TaskManager" where
  "empty_manager c = \<lparr>tasks = [], latest_id = 0, run_queue = (\<lambda>_. []), current_level = kMaxLevel,
     level_changed = False, finish_tasks = (\<lambda>_. None), finish_waiter = (\<lambda>_. None), cpu = c\<rparr>"

definition TaskManager_new :: "u64 \<Rightarrow> u64 \<Rightarrow> TaskContext \<Rightarrow> TaskManager" where
  "TaskManager_new stack_base task_idle c =
    (let (tm1, task) = NewTask (empty_manager c);
         tm2 = upd_task task (\<lambda>t. t\<lparr>level := current_level tm1, running := True\<rparr>) tm1;
         tm3 = set_queue (current_level tm2) (run_queue tm2 (current_level tm2) @ [task]) tm2;
         (tm4, idle) = NewTask tm3;
         tm5 = upd_task idle (\<lambda>t. (InitContext stack_base (reg_cr3 c) task_idle 0 t)
                 \<lparr>level := 0, running := True\<rparr>) tm4
     in set_queue 0 (run_queue tm5 0 @ [idle]) tm5)"

text \<open>The search of \<open>RotateCurrentRunQueue\<close> for the highest level with a task, from \<open>lv\<close>.\<close>

fun highest_level :: "TaskManager \<Rightarrow> nat \<Rightarrow> nat option" where
  "highest_level tm 0 = (if run_queue tm 0 \<noteq> [] then Some 0 else None)"
| "highest_level tm (Suc lv) =
     (if run_queue tm (Suc lv) \<noteq> [] then Some (Suc lv) else highest_level tm lv)"

definition RotateCurrentRunQueue :: "TaskManager \<Rightarrow> bool \<Rightarrow> (TaskManager \<times> nat) option" where
  "RotateCurrentRunQueue tm current_sleep =
    (case front tm (current_level tm) of
       None \<Rightarrow> None
     | Some current_task \<Rightarrow>
         let rest = tl (run_queue tm (current_level tm));
             q = (if current_sleep then rest else rest @ [current_task]);
             tm1 = set_queue (current_level tm) q tm;
             tm2 = (if q = [] then tm1\<lparr>level_changed := True\<rparr> else tm1);
             tm3 = (if level_changed tm2
                    then (let tm' = tm2\<lparr>level_changed := False\<rparr> in
                          case highest_level tm' kMaxLevel of
                            None \<Rightarrow> tm' | Some lv \<Rightarrow> tm'\<lparr>current_level := lv\<rparr>)
                    else tm2)
         in Some (tm3, current_task))"

section \<open>Context switches\<close>

definition RestoreContext :: "nat \<Rightarrow> TaskManager \<Rightarrow> TaskManager option" where
  "RestoreContext i tm = map_option (\<lambda>t. tm\<lparr>cpu := ctx t\<rparr>) (get_task tm i)"

definition save_context :: "nat \<Rightarrow> TaskContext \<Rightarrow> TaskManager \<Rightarrow> TaskManager option" where
  "save_context i c tm =
    (case get_task tm i of None \<Rightarrow> None
     | Some _ \<Rightarrow> Some (upd_task i (\<lambda>t. t\<lparr>ctx := c\<rparr>) tm))"

definition SwitchContext :: "nat \<Rightarrow> nat \<Rightarrow> TaskManager \<Rightarrow> TaskManager option" where
  "SwitchContext next_task current_task tm =
     save_context current_task (cpu tm) tm \<bind> RestoreContext next_task"

definition SwitchTask :: "TaskManager \<Rightarrow> TaskContext \<Rightarrow> TaskManager option" where
  "SwitchTask tm current_ctx =
    do {
      cur \<leftarrow> CurrentTask tm;
      tm1 \<leftarrow> save_context cur current_ctx tm;
      (tm2, current_task) \<leftarrow> RotateCurrentRunQueue tm1 False;
      nxt \<leftarrow> CurrentTask tm2;
      if nxt \<noteq> current_task then RestoreContext nxt tm2 else Some tm2
    }"

section \<open>Sleeping and waking\<close>

definition Sleep_task :: "TaskManager \<Rightarrow> nat \<Rightarrow> TaskManager option" where
  "Sleep_task tm task =
    (case get_task tm task of
       None \<Rightarrow> None
     | Some t \<Rightarrow>
         if \<not> running t then Some tm
         else
           let tm1 = upd_task task (\<lambda>t. t\<lparr>running := False\<rparr>) tm in
           case front tm1 (current_level tm1) of
             None \<Rightarrow> None
           | Some cur \<Rightarrow>
               if task = cur then
                 do {
                   (tm2, current_task) \<leftarrow> RotateCurrentRunQueue tm1 True;
                   nxt \<leftarrow> CurrentTask tm2;
                   SwitchContext nxt current_task tm2
                 }
               else if level t \<le> kMaxLevel then
                 Some (set_queue (level t) (Erase (run_queue tm1 (level t)) task) tm1)
               else None)"

definition Sleep_id :: "TaskManager \<Rightarrow> nat \<Rightarrow> (TaskManager \<times> ErrorCode) option" where
  "Sleep_id tm i =
    (case get_task tm i of
       None \<Rightarrow> Some (tm, kNoSuchTask)
     | Some _ \<Rightarrow> map_option (\<lambda>tm'. (tm', kSuccess)) (Sleep_task tm i))"

definition ChangeLevelRunning :: "TaskManager \<Rightarrow> nat \<Rightarrow> int \<Rightarrow> TaskManager option" where
  "ChangeLevelRunning tm task lv =
    (case get_task tm task of
       None \<Rightarrow> None
     | Some t \<Rightarrow>
         if lv < 0 \<or> lv = int (level t) then Some tm
         else if lv > int kMaxLevel \<or> level t > kMaxLevel then None
         else
           let l = nat lv in
           case front tm (current_level tm) of
             None \<Rightarrow> None
           | Some cur \<Rightarrow>
               if task \<noteq> cur then
                 let tm1 = set_queue (level t) (Erase (run_queue tm (level t)) task) tm;
                     tm2 = set_queue l (run_queue tm1 l @ [task]) tm1;
                     tm3 = upd_task task (\<lambda>t. t\<lparr>level := l\<rparr>) tm2
                 in Some (if l > current_level tm3 then tm3\<lparr>level_changed := True\<rparr> else tm3)
               else
                 let tm1 = set_queue (current_level tm) (tl (run_queue tm (current_level tm))) tm;
                     tm2 = set_queue l (task # run_queue tm1 l) tm1;
                     tm3 = upd_task task (\<lambda>t. t\<lparr>level := l\<rparr>) tm2
                 in Some (if l \<ge> current_level tm3 then tm3\<lparr>current_level := l\<rparr>
                          else tm3\<lparr>current_level := l, level_changed := True\<rparr>))"

definition Wakeup_task :: "TaskManager \<Rightarrow> nat \<Rightarrow> int \<Rightarrow> TaskManager option" where
  "Wakeup_task tm task lv =
    (case get_task tm task of
       None \<Rightarrow> None
     | Some t \<Rightarrow>
         if running t then ChangeLevelRunning tm task lv
         else
           let lv' = (if lv < 0 then int (level t) else lv) in
           if lv' > int kMaxLevel then None
           else
             let l = nat lv';
                 tm1 = upd_task task (\<lambda>t. t\<lparr>level := l, running := True\<rparr>) tm;
                 tm2 = set_queue l (run_queue tm1 l @ [task]) tm1
             in Some (if l > current_level tm2 then tm2\<lparr>level_changed := True\<rparr> else tm2))"

definition Wakeup_id :: "TaskManager \<Rightarrow> nat \<Rightarrow> int \<Rightarrow> (TaskManager \<times> ErrorCode) option" where
  "Wakeup_id tm i lv =
    (case get_task tm i of
       None \<Rightarrow> Some (tm, kNoSuchTask)
     | Some _ \<Rightarrow> map_option (\<lambda>tm'. (tm', kSuccess)) (Wakeup_task tm i lv))"

text \<open>\<open>Task::SendMessage\<close> queues the message and wakes the task at its own level.\<close>

definition Task_SendMessage :: "TaskManager \<Rightarrow> nat \<Rightarrow> Message \<Rightarrow> TaskManager option" where
  "Task_SendMessage tm i msg = Wakeup_task (upd_task i (push_message msg) tm) i (-1)"

definition SendMessage :: "TaskManager \<Rightarrow> nat \<Rightarrow> Message \<Rightarrow> (TaskManager \<times> ErrorCode) option" where
  "SendMessage tm i msg =
    (case get_task tm i of
       None \<Rightarrow> Some (tm, kNoSuchTask)
     | Some _ \<Rightarrow> map_option (\<lambda>tm'. (tm', kSuccess)) (Task_SendMessage tm i msg))"

section \<open>Finishing\<close>

definition Finish :: "TaskManager \<Rightarrow> int \<Rightarrow> TaskManager option" where
  "Finish tm exit_code =
    do {
      (tm1, task) \<leftarrow> RotateCurrentRunQueue tm True;
      t \<leftarrow> get_task tm1 task;
      let tm2 = tm1\<lparr>tasks := filter (\<lambda>t. task_id t \<noteq> task) (tasks tm1),
                     finish_tasks := (finish_tasks tm1)(task \<mapsto> exit_code)\<rparr>;
      tm3 \<leftarrow> (case finish_waiter tm2 task of
                None \<Rightarrow> Some tm2
              | Some waiter \<Rightarrow>
                  Wakeup_task (tm2\<lparr>finish_waiter := (finish_waiter tm2)(task := None)\<rparr>) waiter (-1));
      nxt \<leftarrow> CurrentTask tm3;
      RestoreContext nxt tm3
    }"

text \<open>
  One round of the loop of \<open>WaitFinish\<close>: \<open>Inr\<close> is the exit code it returns, \<open>Inl\<close> that it
  went to sleep and runs the next round when the task is scheduled again.
\<close>

definition WaitFinish_round :: "TaskManager \<Rightarrow> nat \<Rightarrow> (TaskManager \<times> (unit + int)) option" where
  "WaitFinish_round tm i =
    (case CurrentTask tm of
       None \<Rightarrow> None
     | Some current_task \<Rightarrow>
         (case finish_tasks tm i of
            Some exit_code \<Rightarrow>
              Some (tm\<lparr>finish_tasks := (finish_tasks tm)(i := None)\<rparr>, Inr exit_code)
          | None \<Rightarrow>
              map_option (\<lambda>tm'. (tm', Inl ()))
                (Sleep_task (tm\<lparr>finish_waiter := (finish_waiter tm)(i \<mapsto> current_task)\<rparr>)
                   current_task)))"

end
