(* ===== verification/Scheduler.thy ===== *)
theory Scheduler
  imports Task_Manager
begin

text \<open>
  Correctness of the scheduler: the invariant that ties the run queues to the tasks' own
  \<open>running\<close> and \<open>level\<close> fields, its preservation by every operation, and what the operations
  do to the running task.
\<close>

section \<open>Lookups\<close>

lemma find_task_map:
  "(\<And>t. task_id (f t) = task_id t) \<Longrightarrow>
   find_task (map (\<lambda>t. if task_id t = i then f t else t) ts) j =
     (if i = j then map_option f (find_task ts j) else find_task ts j)"
  by (induction ts) auto

lemma get_upd_task [simp]:
  "(\<And>t. task_id (f t) = task_id t) \<Longrightarrow>
   get_task (upd_task i f tm) j = (if i = j then map_option f (get_task tm j) else get_task tm j)"
  by (simp add: get_task_def upd_task_def find_task_map)

lemma find_task_Some: "find_task ts i = Some t \<Longrightarrow> t \<in> set ts \<and> task_id t = i"
  by (induction ts) (auto split: if_splits)

lemma find_task_None: "find_task ts i = None \<longleftrightarrow> i \<notin> task_id ` set ts"
  by (induction ts) auto

lemma find_task_append: "find_task (xs @ ys) i = (case find_task xs i of None \<Rightarrow> find_task ys i | r \<Rightarrow> r)"
  by (induction xs) auto

lemma find_task_filter:
  "find_task (filter (\<lambda>t. task_id t \<noteq> i) ts) j = (if i = j then None else find_task ts j)"
  by (induction ts) auto

lemma get_task_tasks [simp]:
  "get_task (set_queue l q tm) i = get_task tm i"
  "get_task (tm\<lparr>level_changed := b\<rparr>) i = get_task tm i"
  "get_task (tm\<lparr>current_level := n\<rparr>) i = get_task tm i"
  "get_task (tm\<lparr>cpu := c\<rparr>) i = get_task tm i"
  "get_task (tm\<lparr>finish_tasks := ft\<rparr>) i = get_task tm i"
  "get_task (tm\<lparr>finish_waiter := fw\<rparr>) i = get_task tm i"
  by (simp_all add: get_task_def set_queue_def)

lemma upd_task_fields [simp]:
  "run_queue (upd_task i f tm) = run_queue tm"
  "current_level (upd_task i f tm) = current_level tm"
  "level_changed (upd_task i f tm) = level_changed tm"
  "finish_waiter (upd_task i f tm) = finish_waiter tm"
  "finish_tasks (upd_task i f tm) = finish_tasks tm"
  "cpu (upd_task i f tm) = cpu tm"
  "latest_id (upd_task i f tm) = latest_id tm"
  by (simp_all add: upd_task_def)

lemma set_queue_fields [simp]:
  "run_queue (set_queue l q tm) = (run_queue tm)(l := q)"
  "current_level (set_queue l q tm) = current_level tm"
  "level_changed (set_queue l q tm) = level_changed tm"
  "finish_waiter (set_queue l q tm) = finish_waiter tm"
  "finish_tasks (set_queue l q tm) = finish_tasks tm"
  "cpu (set_queue l q tm) = cpu tm"
  "latest_id (set_queue l q tm) = latest_id tm"
  "tasks (set_queue l q tm) = tasks tm"
  by (simp_all add: set_queue_def)

lemma front_upd_task [simp]: "front (upd_task i f tm) l = front tm l"
  by (simp add: front_def)

lemma front_Some: "front tm l = Some c \<longleftrightarrow> l \<le> kMaxLevel \<and> (\<exists>q. run_queue tm l = c # q)"
  by (auto simp: front_def split: list.splits)

lemma CurrentTask_cong:
  "run_queue tm' (current_level tm') = run_queue tm (current_level tm) \<Longrightarrow>
     current_level tm' = current_level tm \<Longrightarrow> CurrentTask tm' = CurrentTask tm"
  by (simp add: CurrentTask_def front_def)

section \<open>The invariant\<close>

text \<open>A task is in a run queue exactly if it is marked running at that level.\<close>

definition queues_ok :: "TaskManager \<Rightarrow> bool" where
  "queues_ok tm \<longleftrightarrow> (\<forall>l \<le> kMaxLevel. distinct (run_queue tm l) \<and>
     (\<forall>i. i \<in> set (run_queue tm l) \<longleftrightarrow>
        (\<exists>t. get_task tm i = Some t \<and> running t \<and> level t = l)))"

definition tasks_ok :: "TaskManager \<Rightarrow> bool" where
  "tasks_ok tm \<longleftrightarrow> (\<forall>i t. get_task tm i = Some t \<longrightarrow> level t \<le> kMaxLevel \<and> i \<le> latest_id tm) \<and>
     (\<forall>i w. finish_waiter tm i = Some w \<longrightarrow> get_task tm w \<noteq> None)"

text \<open>Unless \<open>level_changed\<close> is set, no task waits above the current level.\<close>

definition level_ok :: "TaskManager \<Rightarrow> bool" where
  "level_ok tm \<longleftrightarrow> current_level tm \<le> kMaxLevel \<and>
     (\<not> level_changed tm \<longrightarrow> (\<forall>l \<le> kMaxLevel. current_level tm < l \<longrightarrow> run_queue tm l = []))"

text \<open>The idle task, number 2, is always ready at level 0.\<close>

definition idle_ready :: "TaskManager \<Rightarrow> bool" where
  "idle_ready tm \<longleftrightarrow> 2 \<in> set (run_queue tm 0)"

definition tm_inv :: "TaskManager \<Rightarrow> bool" where
  "tm_inv tm \<longleftrightarrow> queues_ok tm \<and> tasks_ok tm \<and> level_ok tm \<and> idle_ready tm \<and>
     run_queue tm (current_level tm) \<noteq> []"

lemmas inv_defs = tm_inv_def queues_ok_def tasks_ok_def level_ok_def idle_ready_def kMaxLevel_def

lemma tm_inv_current:
  "tm_inv tm \<Longrightarrow> \<exists>c q. run_queue tm (current_level tm) = c # q \<and> CurrentTask tm = Some c"
  by (auto simp: inv_defs CurrentTask_def front_def neq_Nil_conv)

lemma tm_inv_new: "tm_inv (TaskManager_new stack_base task_idle c)"
  by (auto simp: inv_defs TaskManager_new_def NewTask_def Let_def empty_manager_def upd_task_def
      set_queue_def get_task_def InitContext_def Task_new_def kDefaultLevel_def split: if_splits)

lemma NewTask_inv:
  "tm_inv tm \<Longrightarrow> NewTask tm = (tm', i) \<Longrightarrow> tm_inv tm' \<and> get_task tm i = None \<and>
     get_task tm' i = Some (Task_new i) \<and> CurrentTask tm' = CurrentTask tm"
proof -
  assume inv: "tm_inv tm" and n: "NewTask tm = (tm', i)"
  have tm': "tm' = tm\<lparr>latest_id := i, tasks := tasks tm @ [Task_new i]\<rparr>" and i: "i = latest_id tm + 1"
    using n by (auto simp: NewTask_def Let_def)
  have none: "get_task tm i = None"
    using inv i by (cases "get_task tm i") (fastforce simp: tm_inv_def tasks_ok_def)+
  have g: "get_task tm' j = (if j = i then Some (Task_new i) else get_task tm j)" for j
    using none by (auto simp: tm' get_task_def find_task_append Task_new_def split: option.splits)
  have f: "run_queue tm' = run_queue tm" "current_level tm' = current_level tm"
    "level_changed tm' = level_changed tm" "finish_waiter tm' = finish_waiter tm" "latest_id tm' = i"
    by (simp_all add: tm')
  have new: "\<not> running (Task_new i)" "level (Task_new i) \<le> kMaxLevel"
    by (simp_all add: Task_new_def kDefaultLevel_def kMaxLevel_def)
  have notin: "i \<notin> set (run_queue tm l)" if "l \<le> kMaxLevel" for l
    using inv none that by (auto simp: tm_inv_def queues_ok_def)
  have "queues_ok tm'"
    unfolding queues_ok_def f
  proof (intro allI impI conjI)
    fix l j assume l: "l \<le> kMaxLevel"
    show "distinct (run_queue tm l)" using inv l by (simp add: tm_inv_def queues_ok_def)
    show "j \<in> set (run_queue tm l) \<longleftrightarrow> (\<exists>t. get_task tm' j = Some t \<and> running t \<and> level t = l)"
      using inv l new(1) notin [OF l] by (cases "j = i") (simp_all add: g tm_inv_def queues_ok_def)
  qed
  moreover have "tasks_ok tm'"
    unfolding tasks_ok_def f
  proof (intro conjI allI impI)
    show "level t \<le> kMaxLevel" "j \<le> i" if "get_task tm' j = Some t" for j t
      using that inv new(2) i by (auto simp: g tm_inv_def tasks_ok_def split: if_splits) fastforce
    show "get_task tm' w \<noteq> None" if "finish_waiter tm j = Some w" for j w
      using that inv by (simp add: g tm_inv_def tasks_ok_def)
  qed
  moreover have "level_ok tm'" "idle_ready tm'" "run_queue tm' (current_level tm') \<noteq> []"
    using inv by (simp_all add: tm_inv_def level_ok_def idle_ready_def f)
  ultimately have "tm_inv tm'" by (simp add: tm_inv_def)
  with none g show ?thesis by (simp add: tm' CurrentTask_def front_def)
qed

lemma highest_level_Some:
  "highest_level tm n = Some l \<Longrightarrow>
     l \<le> n \<and> run_queue tm l \<noteq> [] \<and> (\<forall>k. l < k \<and> k \<le> n \<longrightarrow> run_queue tm k = [])"
  by (induction n) (auto split: if_splits simp: le_Suc_eq)

lemma highest_level_None: "highest_level tm n = None \<Longrightarrow> k \<le> n \<Longrightarrow> run_queue tm k = []"
  by (induction n) (auto split: if_splits simp: le_Suc_eq)

lemma highest_level_cong:
  "run_queue tm = run_queue tm' \<Longrightarrow> highest_level tm n = highest_level tm' n"
  by (induction n) auto

text \<open>
  \<open>RotateCurrentRunQueue\<close> leaves the manager at the highest level that has a task, provided
  some queue has one afterwards.
\<close>

lemma Rotate_cases:
  assumes cur: "run_queue tm (current_level tm) = c # q" and lvl: "level_ok tm"
    and some: "\<exists>l \<le> kMaxLevel. run_queue tm' l \<noteq> []"
    and tm': "tm' = set_queue (current_level tm) (if slp then q else q @ [c]) tm"
  shows "\<exists>lv b. RotateCurrentRunQueue tm slp = Some (tm'\<lparr>level_changed := b, current_level := lv\<rparr>, c) \<and>
     \<not> b \<and> lv \<le> kMaxLevel \<and> run_queue tm' lv \<noteq> [] \<and>
     (\<forall>l \<le> kMaxLevel. lv < l \<longrightarrow> run_queue tm' l = [])"
proof -
  have f: "front tm (current_level tm) = Some c"
    using cur lvl by (simp add: front_def level_ok_def)
  let ?q = "if slp then q else q @ [c]"
  show ?thesis
  proof (cases "?q = [] \<or> level_changed tm")
    case True
    obtain lv where lv: "highest_level tm' kMaxLevel = Some lv"
      using some highest_level_None [of tm' kMaxLevel] by fastforce
    have hl: "highest_level (tm'\<lparr>level_changed := False\<rparr>) kMaxLevel = Some lv"
      using lv highest_level_cong [of "tm'\<lparr>level_changed := False\<rparr>" tm'] by simp
    have "RotateCurrentRunQueue tm slp =
        Some (tm'\<lparr>level_changed := False, current_level := lv\<rparr>, c)"
      using f cur True hl tm' by (auto simp: RotateCurrentRunQueue_def Let_def set_queue_def)
    with highest_level_Some [OF lv] show ?thesis by auto
  next
    case False
    have "RotateCurrentRunQueue tm slp =
        Some (tm'\<lparr>level_changed := False, current_level := current_level tm\<rparr>, c)"
      using f cur False tm' by (auto simp: RotateCurrentRunQueue_def Let_def set_queue_def)
    moreover have "run_queue tm' (current_level tm) \<noteq> []"
      "\<forall>l \<le> kMaxLevel. current_level tm < l \<longrightarrow> run_queue tm' l = []"
      using False lvl tm' by (auto simp: level_ok_def)
    ultimately show ?thesis using lvl unfolding level_ok_def by blast
  qed
qed

section \<open>Updates that leave the queues alone\<close>

lemma tm_inv_upd_task:
  assumes inv: "tm_inv tm"
    and f: "\<And>t. task_id (f t) = task_id t" "\<And>t. level (f t) = level t" "\<And>t. running (f t) = running t"
  shows "tm_inv (upd_task i f tm)"
proof -
  have g: "get_task (upd_task i f tm) j = (if i = j then map_option f (get_task tm j) else get_task tm j)"
    for j using f(1) by simp
  have "(\<exists>t. get_task (upd_task i f tm) j = Some t \<and> running t \<and> level t = l) \<longleftrightarrow>
      (\<exists>t. get_task tm j = Some t \<and> running t \<and> level t = l)" for j l
    by (cases "get_task tm j") (auto simp: g f)
  moreover have "level t \<le> kMaxLevel \<and> j \<le> latest_id tm" if "get_task (upd_task i f tm) j = Some t" for j t
    using that inv by (fastforce simp: g f tm_inv_def tasks_ok_def split: if_splits)
  moreover have "get_task (upd_task i f tm) j \<noteq> None" if "get_task tm j \<noteq> None" for j
    using that by (auto simp: g)
  ultimately show ?thesis
    using inv unfolding tm_inv_def queues_ok_def tasks_ok_def level_ok_def idle_ready_def
    by simp
qed

lemma tm_inv_cong:
  assumes "get_task tm' = get_task tm" "run_queue tm' = run_queue tm"
    "current_level tm' = current_level tm" "level_changed tm' = level_changed tm"
    "latest_id tm' = latest_id tm"
    and "\<forall>i w. finish_waiter tm' i = Some w \<longrightarrow> get_task tm w \<noteq> None"
  shows "tm_inv tm \<Longrightarrow> tm_inv tm'"
  using assms unfolding tm_inv_def queues_ok_def tasks_ok_def level_ok_def idle_ready_def by simp

lemma tm_inv_cpu: "tm_inv tm \<Longrightarrow> tm_inv (tm\<lparr>cpu := c\<rparr>)"
  by (rule tm_inv_cong [of _ tm]) (auto simp: tm_inv_def tasks_ok_def)

lemma RestoreContext_inv:
  "tm_inv tm \<Longrightarrow> get_task tm i = Some t \<Longrightarrow>
     \<exists>tm'. RestoreContext i tm = Some tm' \<and> tm_inv tm' \<and> cpu tm' = ctx t \<and>
       run_queue tm' = run_queue tm \<and> current_level tm' = current_level tm \<and>
       get_task tm' = get_task tm \<and> finish_tasks tm' = finish_tasks tm"
  by (auto simp: RestoreContext_def tm_inv_cpu intro!: ext)

lemma queued_task:
  "tm_inv tm \<Longrightarrow> i \<in> set (run_queue tm l) \<Longrightarrow> l \<le> kMaxLevel \<Longrightarrow>
     \<exists>t. get_task tm i = Some t \<and> running t \<and> level t = l"
  by (auto simp: tm_inv_def queues_ok_def)

lemma current_task:
  assumes "tm_inv tm"
  shows "\<exists>c q t. run_queue tm (current_level tm) = c # q \<and> CurrentTask tm = Some c \<and>
    get_task tm c = Some t \<and> running t \<and> level t = current_level tm"
proof -
  obtain c q where c: "run_queue tm (current_level tm) = c # q" "CurrentTask tm = Some c"
    using tm_inv_current [OF assms] by blast
  have "current_level tm \<le> kMaxLevel" using assms by (simp add: tm_inv_def level_ok_def)
  with queued_task [OF assms, of c "current_level tm"] c show ?thesis by auto
qed

section \<open>Switching tasks\<close>

text \<open>The running task is at the highest level with a ready task.\<close>

definition at_top :: "TaskManager \<Rightarrow> bool" where
  "at_top tm \<longleftrightarrow> (\<forall>l \<le> kMaxLevel. current_level tm < l \<longrightarrow> run_queue tm l = [])"

lemma rotate_inv:
  assumes inv: "tm_inv tm" and cur: "run_queue tm (current_level tm) = c # q"
  shows "\<exists>tm'. RotateCurrentRunQueue tm False = Some (tm', c) \<and> tm_inv tm' \<and> at_top tm' \<and>
    get_task tm' = get_task tm \<and> cpu tm' = cpu tm \<and>
    run_queue tm' = (run_queue tm)(current_level tm := q @ [c])"
proof -
  let ?t = "set_queue (current_level tm) (q @ [c]) tm"
  have cl: "current_level tm \<le> kMaxLevel" using inv by (simp add: tm_inv_def level_ok_def)
  have "\<exists>l \<le> kMaxLevel. run_queue ?t l \<noteq> []" using cl by (intro exI [of _ "current_level tm"]) simp
  from Rotate_cases [OF cur _ this, of False] inv obtain lv b where
    r: "RotateCurrentRunQueue tm False = Some (?t\<lparr>level_changed := b, current_level := lv\<rparr>, c)"
      "\<not> b" "lv \<le> kMaxLevel" "run_queue ?t lv \<noteq> []"
      "\<forall>l \<le> kMaxLevel. lv < l \<longrightarrow> run_queue ?t l = []"
    by (auto simp: tm_inv_def)
  let ?r = "?t\<lparr>level_changed := b, current_level := lv\<rparr>"
  have g: "get_task ?r = get_task tm" by (intro ext) simp
  define Q where "Q = run_queue ?t"
  have set: "set (Q l) = set (run_queue tm l)" "distinct (Q l) = distinct (run_queue tm l)" for l
    using cur by (auto simp: Q_def)
  have f: "run_queue ?r = Q" "current_level ?r = lv" "level_changed ?r = b"
    "finish_waiter ?r = finish_waiter tm" "latest_id ?r = latest_id tm"
    by (simp_all add: Q_def)
  have "tm_inv ?r"
    using inv r(2-5) set
    unfolding tm_inv_def queues_ok_def tasks_ok_def level_ok_def idle_ready_def g f Q_def [symmetric]
    by simp
  with r g show ?thesis by (intro exI [of _ ?r]) (simp add: at_top_def)
qed

lemma SwitchTask_cases:
  assumes inv: "tm_inv tm" and cur: "run_queue tm (current_level tm) = c # q"
  shows "\<exists>tm' n t. SwitchTask tm saved = Some tm' \<and> tm_inv tm' \<and> at_top tm' \<and>
    run_queue tm' = (run_queue tm)(current_level tm := q @ [c]) \<and>
    CurrentTask tm' = Some n \<and> get_task tm' n = Some t \<and>
    map_option ctx (get_task tm' c) = Some saved \<and>
    (\<forall>i. i \<noteq> c \<longrightarrow> get_task tm' i = get_task tm i) \<and>
    (if n = c then cpu tm' = cpu tm else cpu tm' = ctx t)"
proof -
  obtain tc where c: "CurrentTask tm = Some c" "get_task tm c = Some tc"
    using current_task [OF inv] cur by auto
  let ?t1 = "upd_task c (\<lambda>t. t\<lparr>ctx := saved\<rparr>) tm"
  have i1: "tm_inv ?t1" by (rule tm_inv_upd_task [OF inv]) simp_all
  from rotate_inv [OF i1, of c q] cur obtain t2 where
    t2: "RotateCurrentRunQueue ?t1 False = Some (t2, c)" "tm_inv t2" "at_top t2"
      "get_task t2 = get_task ?t1" "cpu t2 = cpu tm"
      "run_queue t2 = (run_queue tm)(current_level tm := q @ [c])"
    by auto
  obtain n t where n: "CurrentTask t2 = Some n" "get_task t2 n = Some t"
    using current_task [OF t2(2)] by auto
  have s: "SwitchTask tm saved = (if n \<noteq> c then RestoreContext n t2 else Some t2)"
    using c t2(1) n(1) by (simp add: SwitchTask_def save_context_def)
  show ?thesis
  proof (cases "n = c")
    case True
    with s n t2 c show ?thesis by (intro exI [of _ t2] exI [of _ n]) auto
  next
    case False
    from RestoreContext_inv [OF t2(2) n(2)] obtain t3 where
      t3: "RestoreContext n t2 = Some t3" "tm_inv t3" "cpu t3 = ctx t" "run_queue t3 = run_queue t2"
        "current_level t3 = current_level t2" "get_task t3 = get_task t2" by auto
    moreover have "CurrentTask t3 = CurrentTask t2" "at_top t3 = at_top t2"
      using t3(4,5) by (simp_all add: CurrentTask_def front_def at_top_def)
    ultimately show ?thesis
      using False s n t2 c by (intro exI [of _ t3] exI [of _ n] exI [of _ t]) simp
  qed
qed

section \<open>Sleeping\<close>

lemma erase_queue_inv:
  assumes inv: "tm_inv tm" and t: "get_task tm i = Some t" "running t" and i: "i \<noteq> 2"
    and q: "set q = set (run_queue tm (level t)) - {i}" "distinct q"
  shows "queues_ok (set_queue (level t) q (upd_task i (\<lambda>t. t\<lparr>running := False\<rparr>) tm))" (is "queues_ok ?t'")
    and "tasks_ok (set_queue (level t) q (upd_task i (\<lambda>t. t\<lparr>running := False\<rparr>) tm))"
    and "idle_ready (set_queue (level t) q (upd_task i (\<lambda>t. t\<lparr>running := False\<rparr>) tm))"
proof -
  have g: "get_task ?t' j = (if i = j then Some (t\<lparr>running := False\<rparr>) else get_task tm j)" for j
    using t(1) by (cases "i = j") simp_all
  show "queues_ok ?t'"
    unfolding queues_ok_def
  proof (intro allI impI conjI)
    fix l j assume l: "l \<le> kMaxLevel"
    show "distinct (run_queue ?t' l)" using inv q l by (simp add: tm_inv_def queues_ok_def)
    show "j \<in> set (run_queue ?t' l) \<longleftrightarrow> (\<exists>t. get_task ?t' j = Some t \<and> running t \<and> level t = l)"
      unfolding g using inv l q(1) t by (auto simp: tm_inv_def queues_ok_def)
  qed
  show "tasks_ok ?t'"
    using inv t unfolding tasks_ok_def g tm_inv_def by (auto simp: tasks_ok_def)
  show "idle_ready ?t'"
    using inv i q(1) by (auto simp: tm_inv_def idle_ready_def)
qed

text \<open>
  A task other than the idle one goes to sleep: afterwards it is in no queue; if it was the
  running task its registers are saved and the best ready task runs.
\<close>

lemma Sleep_task_current:
  assumes inv: "tm_inv tm" and cur: "run_queue tm (current_level tm) = c # q" and c: "c \<noteq> 2"
  shows "\<exists>tm' n t. Sleep_task tm c = Some tm' \<and> tm_inv tm' \<and> at_top tm' \<and>
    run_queue tm' = (run_queue tm)(current_level tm := q) \<and>
    CurrentTask tm' = Some n \<and> n \<noteq> c \<and> get_task tm' n = Some t \<and> cpu tm' = ctx t \<and>
    map_option ctx (get_task tm' c) = Some (cpu tm) \<and> finish_tasks tm' = finish_tasks tm \<and>
    finish_waiter tm' = finish_waiter tm"
proof -
  obtain tc where tc: "CurrentTask tm = Some c" "get_task tm c = Some tc" "running tc"
    "level tc = current_level tm"
    using current_task [OF inv] cur by auto
  let ?s = "upd_task c (\<lambda>t. t\<lparr>running := False\<rparr>) tm"
  let ?t = "set_queue (level tc) q ?s"
  have cl: "current_level tm \<le> kMaxLevel" using inv by (simp add: tm_inv_def level_ok_def)
  have dq: "distinct (c # q)" using inv cur cl unfolding tm_inv_def queues_ok_def by metis
  have q: "set q = set (run_queue tm (level tc)) - {c}" "distinct q"
    using dq cur tc(4) by auto
  note e = erase_queue_inv [OF inv tc(2,3) c q]
  have idle: "run_queue ?t 0 \<noteq> []" using e(3) unfolding idle_ready_def by (metis list.set_cases empty_iff list.set(1))
  have cs: "run_queue ?s (current_level ?s) = c # q" using cur by simp
  have ls: "level_ok ?s" using inv by (simp add: tm_inv_def level_ok_def)
  have "\<exists>l \<le> kMaxLevel. run_queue ?t l \<noteq> []" using idle by blast
  from Rotate_cases [OF cs ls this, of True] tc(4) obtain lv b where
    r: "RotateCurrentRunQueue ?s True = Some (?t\<lparr>level_changed := b, current_level := lv\<rparr>, c)"
      "\<not> b" "lv \<le> kMaxLevel" "run_queue ?t lv \<noteq> []"
      "\<forall>l \<le> kMaxLevel. lv < l \<longrightarrow> run_queue ?t l = []"
    by auto
  define u where "u = ?t\<lparr>level_changed := b, current_level := lv\<rparr>"
  have gu: "get_task u = get_task ?t" unfolding u_def by (intro ext) simp
  have fu: "run_queue u = run_queue ?t" "current_level u = lv" "level_changed u = b" "cpu u = cpu tm"
    "finish_waiter u = finish_waiter tm" "finish_tasks u = finish_tasks tm"
    by (simp_all add: u_def)
  have iu: "tm_inv u"
    using e r(2-5) fu gu unfolding tm_inv_def queues_ok_def tasks_ok_def level_ok_def idle_ready_def
    by (simp add: u_def)
  obtain n t where n: "CurrentTask u = Some n" "get_task u n = Some t" "running t"
    using current_task [OF iu] by auto
  have nc: "n \<noteq> c" using n(2,3) tc(2) gu by auto
  let ?v = "upd_task c (\<lambda>t. t\<lparr>ctx := cpu tm\<rparr>) u"
  have iv: "tm_inv ?v" by (rule tm_inv_upd_task [OF iu]) simp_all
  have gn: "get_task ?v n = Some t" using n(2) nc by simp
  from RestoreContext_inv [OF iv gn] obtain w where
    w: "RestoreContext n ?v = Some w" "tm_inv w" "cpu w = ctx t" "run_queue w = run_queue ?v"
      "current_level w = current_level ?v" "get_task w = get_task ?v" "finish_tasks w = finish_tasks ?v"
    by auto
  have fw: "finish_waiter w = finish_waiter tm"
    using w(1) fu(5) by (auto simp: RestoreContext_def)
  have cu: "get_task u c = Some (tc\<lparr>running := False\<rparr>)" using gu tc(2) by simp
  have "Sleep_task tm c = Some w"
    using tc(1-3) r(1) n(1) w(1) cu fu(4)
    by (simp add: Sleep_task_def CurrentTask_def SwitchContext_def save_context_def Let_def flip: u_def)
  moreover have "CurrentTask w = Some n"
    using n(1) CurrentTask_cong [of w u] w(4,5) by simp
  moreover have "at_top w" using w(4,5) r(5) fu(1,2) by (simp add: at_top_def)
  ultimately show ?thesis
    using w nc gn cu fu tc(4) fw by (intro exI [of _ w] exI [of _ n] exI [of _ t]) simp
qed

lemma Sleep_task_other:
  assumes inv: "tm_inv tm" and i: "i \<noteq> 2" "CurrentTask tm \<noteq> Some i" and t: "get_task tm i = Some t"
  shows "\<exists>tm'. Sleep_task tm i = Some tm' \<and> tm_inv tm' \<and> CurrentTask tm' = CurrentTask tm \<and>
    cpu tm' = cpu tm \<and>
    (running t \<longrightarrow> run_queue tm' = (run_queue tm)(level t := Erase (run_queue tm (level t)) i))"
proof (cases "running t")
  case False
  with t inv show ?thesis by (simp add: Sleep_task_def)
next
  case True
  obtain c q tc where c: "run_queue tm (current_level tm) = c # q" "CurrentTask tm = Some c"
    using current_task [OF inv] by auto
  let ?s = "upd_task i (\<lambda>t. t\<lparr>running := False\<rparr>) tm"
  let ?q = "Erase (run_queue tm (level t)) i"
  let ?t = "set_queue (level t) ?q ?s"
  have lt: "level t \<le> kMaxLevel" using inv t by (auto simp: tm_inv_def tasks_ok_def)
  have q: "set ?q = set (run_queue tm (level t)) - {i}" "distinct ?q"
    using inv lt by (auto simp: Erase_def tm_inv_def queues_ok_def)
  note e = erase_queue_inv [OF inv t True i(1) q]
  have fr: "front ?s (current_level ?s) = Some c" using c(2) by (simp add: CurrentTask_def)
  have ic: "i \<noteq> c" using i(2) c(2) by simp
  have s: "Sleep_task tm i = Some ?t"
    using t True fr ic lt by (simp add: Sleep_task_def Let_def)
  have "run_queue ?t (current_level ?t) \<noteq> []" "CurrentTask ?t = Some c"
    using c ic by (auto simp: CurrentTask_def front_Some Erase_def)
  then have ct: "run_queue ?t (current_level ?t) \<noteq> []" "CurrentTask ?t = CurrentTask tm"
    using c(2) by simp_all
  have "level_ok ?t" using inv by (auto simp: tm_inv_def level_ok_def Erase_def)
  with e ct have "tm_inv ?t" by (simp add: tm_inv_def)
  with s ct show ?thesis by simp
qed

section \<open>Waking and changing levels\<close>

lemma add_queue_inv:
  assumes inv: "tm_inv tm" and t: "get_task tm i = Some t" "\<not> running t" and l: "l \<le> kMaxLevel"
  shows "\<exists>tm'. (let tm1 = upd_task i (\<lambda>t. t\<lparr>level := l, running := True\<rparr>) tm;
                    tm2 = set_queue l (run_queue tm1 l @ [i]) tm1
                in (if l > current_level tm2 then tm2\<lparr>level_changed := True\<rparr> else tm2)) = tm' \<and>
    tm_inv tm' \<and> run_queue tm' = (run_queue tm)(l := run_queue tm l @ [i]) \<and>
    CurrentTask tm' = CurrentTask tm \<and> cpu tm' = cpu tm \<and>
    finish_tasks tm' = finish_tasks tm \<and>
    get_task tm' = (get_task tm)(i \<mapsto> t\<lparr>level := l, running := True\<rparr>)"
proof -
  define tm' where "tm' = (let tm1 = upd_task i (\<lambda>t. t\<lparr>level := l, running := True\<rparr>) tm;
                    tm2 = set_queue l (run_queue tm1 l @ [i]) tm1
                in (if l > current_level tm2 then tm2\<lparr>level_changed := True\<rparr> else tm2))"
  have g: "get_task tm' = (get_task tm)(i \<mapsto> t\<lparr>level := l, running := True\<rparr>)"
    using t by (intro ext) (simp add: tm'_def Let_def)
  have f: "run_queue tm' = (run_queue tm)(l := run_queue tm l @ [i])"
    "current_level tm' = current_level tm"
    "level_changed tm' = (level_changed tm \<or> l > current_level tm)"
    "finish_waiter tm' = finish_waiter tm" "latest_id tm' = latest_id tm" "cpu tm' = cpu tm"
    "finish_tasks tm' = finish_tasks tm"
    by (simp_all add: tm'_def Let_def)
  have notin: "i \<notin> set (run_queue tm k)" if "k \<le> kMaxLevel" for k
    using inv t that by (auto simp: tm_inv_def queues_ok_def)
  have "queues_ok tm'"
    unfolding queues_ok_def g f
  proof (intro allI impI conjI)
    fix k j assume k: "k \<le> kMaxLevel"
    show "distinct (((run_queue tm)(l := run_queue tm l @ [i])) k)"
      using inv notin [OF k] k by (auto simp: tm_inv_def queues_ok_def)
    show "j \<in> set (((run_queue tm)(l := run_queue tm l @ [i])) k) \<longleftrightarrow>
        (\<exists>t'. ((get_task tm)(i \<mapsto> t\<lparr>level := l, running := True\<rparr>)) j = Some t' \<and> running t' \<and> level t' = k)"
      using inv notin [OF k] k by (auto simp: tm_inv_def queues_ok_def)
  qed
  moreover have "tasks_ok tm'"
    using inv t l unfolding tasks_ok_def g f tm_inv_def by (auto simp: tasks_ok_def)
  moreover have "level_ok tm'" "idle_ready tm'" "run_queue tm' (current_level tm') \<noteq> []"
    using inv unfolding tm_inv_def level_ok_def idle_ready_def f by auto
  ultimately have "tm_inv tm'" by (simp add: tm_inv_def)
  moreover have "CurrentTask tm' = CurrentTask tm"
    using inv by (auto simp: CurrentTask_def front_def f tm_inv_def split: list.splits)
  ultimately show ?thesis using f g by (simp add: tm'_def)
qed

lemma ChangeLevelRunning_inv:
  assumes inv: "tm_inv tm" and i: "get_task tm i = Some t" "running t" "i \<noteq> 2" "lv \<le> int kMaxLevel"
  shows "\<exists>tm'. ChangeLevelRunning tm i lv = Some tm' \<and> tm_inv tm' \<and> CurrentTask tm' = CurrentTask tm \<and>
    cpu tm' = cpu tm"
proof (cases "lv < 0 \<or> lv = int (level t)")
  case True
  with i inv show ?thesis by (auto simp: ChangeLevelRunning_def)
next
  case False
  obtain c q where c: "run_queue tm (current_level tm) = c # q" "CurrentTask tm = Some c"
    using current_task [OF inv] by auto
  obtain tc where tc: "get_task tm c = Some tc" "level tc = current_level tm"
    using current_task [OF inv] c by auto
  let ?l = "nat lv"
  have l: "?l \<le> kMaxLevel" "?l \<noteq> level t" "level t \<le> kMaxLevel" "current_level tm \<le> kMaxLevel"
    using False i(4,1) inv by (auto simp: tm_inv_def tasks_ok_def level_ok_def)
  have mem: "j \<in> set (run_queue tm k) \<longleftrightarrow> (\<exists>t. get_task tm j = Some t \<and> running t \<and> level t = k)"
    and dis: "distinct (run_queue tm k)" if "k \<le> kMaxLevel" for j k
    using inv that by (auto simp: tm_inv_def queues_ok_def)
  define moved where "moved = (run_queue tm)(level t := Erase (run_queue tm (level t)) i)"
  define q' where "q' = (if i = c then moved(?l := i # moved ?l) else moved(?l := moved ?l @ [i]))"
  define cur' where "cur' = (if i = c then ?l else current_level tm)"
  define ch where "ch = (level_changed tm \<or> (if i = c then ?l < current_level tm else current_level tm < ?l))"
  define tm' where "tm' = upd_task i (\<lambda>t. t\<lparr>level := ?l\<rparr>)
      (tm\<lparr>run_queue := q', current_level := cur', level_changed := ch\<rparr>)"
  have er: "q = Erase (c # q) c"
    using dis [OF l(4)] c(1) by (auto simp: Erase_def intro!: filter_True [symmetric])
  have res: "ChangeLevelRunning tm i lv = Some tm'"
  proof -
    have fr: "front tm (current_level tm) = Some c" using c(2) by (simp add: CurrentTask_def)
    show ?thesis
    proof (cases "i = c")
      case True
      then have "level t = current_level tm" using tc i(1) by simp
      with True False fr i l c(1) er show ?thesis
        by (auto simp: ChangeLevelRunning_def tm'_def q'_def cur'_def ch_def moved_def
            set_queue_def upd_task_def Let_def)
    next
      case False' : False
      with False fr i l show ?thesis
        by (auto simp: ChangeLevelRunning_def tm'_def q'_def cur'_def ch_def moved_def
            set_queue_def upd_task_def Let_def)
    qed
  qed
  have g: "get_task tm' = (get_task tm)(i \<mapsto> t\<lparr>level := ?l\<rparr>)"
    using i(1) by (intro ext) (simp add: tm'_def get_task_def upd_task_def find_task_map)
  have f: "run_queue tm' = q'" "current_level tm' = cur'" "level_changed tm' = ch" "cpu tm' = cpu tm"
    "finish_waiter tm' = finish_waiter tm" "latest_id tm' = latest_id tm"
    by (simp_all add: tm'_def)
  have set_q': "set (q' k) = (if k = ?l then insert i (set (run_queue tm k)) else set (run_queue tm k) - {i})"
    and dist_q': "distinct (q' k)" if "k \<le> kMaxLevel" for k
    using mem [OF that] dis [OF that] l(2) i(1,2)
    by (auto simp: q'_def moved_def Erase_def)
  have "queues_ok tm'"
    unfolding queues_ok_def g f
    using set_q' dist_q' mem i(1,2) by (auto split: if_splits)
  moreover have "tasks_ok tm'"
    using inv i(1) l(1) unfolding tasks_ok_def g f tm_inv_def by (auto simp: tasks_ok_def)
  moreover have "idle_ready tm'"
    using inv i(3) set_q' [of 0] unfolding idle_ready_def f tm_inv_def by auto
  moreover have "level_ok tm'"
    using inv l c(1) i(1) tc unfolding level_ok_def f tm_inv_def
    by (auto simp: cur'_def ch_def q'_def moved_def Erase_def)
  moreover have "q' cur' \<noteq> []" "hd (q' cur') = c"
    using c(1) l(2) by (auto simp: q'_def cur'_def moved_def Erase_def)
  moreover have "cur' \<le> kMaxLevel" using l by (simp add: cur'_def)
  ultimately have "tm_inv tm' \<and> CurrentTask tm' = Some c"
    by (auto simp: tm_inv_def f CurrentTask_def front_def neq_Nil_conv)
  with res f(4) c(2) show ?thesis by simp
qed

text \<open>Waking at a given level (a negative one means the task's own).\<close>

lemma Wakeup_task_inv:
  assumes inv: "tm_inv tm" and t: "get_task tm i = Some t" and lv: "lv \<le> int kMaxLevel"
    and i: "i \<noteq> 2 \<or> lv < 0"
  shows "\<exists>tm'. Wakeup_task tm i lv = Some tm' \<and> tm_inv tm' \<and> CurrentTask tm' = CurrentTask tm \<and>
    cpu tm' = cpu tm"
proof (cases "running t")
  case True
  have w: "Wakeup_task tm i lv = ChangeLevelRunning tm i lv" using t True by (simp add: Wakeup_task_def)
  show ?thesis
  proof (cases "i = 2")
    case True
    with i t inv w show ?thesis by (simp add: ChangeLevelRunning_def)
  next
    case False
    with ChangeLevelRunning_inv [OF inv t \<open>running t\<close> _ lv] w show ?thesis by simp
  qed
next
  case False
  let ?l = "nat (if lv < 0 then int (level t) else lv)"
  have "level t \<le> kMaxLevel" using inv t by (auto simp: tm_inv_def tasks_ok_def)
  then have l: "?l \<le> kMaxLevel" using lv by auto
  have w: "Wakeup_task tm i lv = Some (let tm1 = upd_task i (\<lambda>t. t\<lparr>level := ?l, running := True\<rparr>) tm;
                    tm2 = set_queue ?l (run_queue tm1 ?l @ [i]) tm1
                in (if ?l > current_level tm2 then tm2\<lparr>level_changed := True\<rparr> else tm2))"
    using t False lv \<open>level t \<le> kMaxLevel\<close> by (simp add: Wakeup_task_def Let_def)
  from add_queue_inv [OF inv t False l] w show ?thesis by auto
qed

section \<open>Messages and finishing\<close>

lemma push_message_fields [simp]:
  "task_id (push_message m t) = task_id t" "level (push_message m t) = level t"
  "running (push_message m t) = running t" "msgs (push_message m t) = msgs t @ [m]"
  by (simp_all add: push_message_def)

lemma SendMessage_cases:
  assumes inv: "tm_inv tm"
  shows "\<exists>tm' e. SendMessage tm i m = Some (tm', e) \<and> tm_inv tm' \<and> CurrentTask tm' = CurrentTask tm \<and>
    cpu tm' = cpu tm \<and>
    (case get_task tm i of
       None \<Rightarrow> e = kNoSuchTask \<and> tm' = tm
     | Some t \<Rightarrow> e = kSuccess \<and> get_task tm' i = Some ((push_message m t)\<lparr>running := True\<rparr>))"
proof (cases "get_task tm i")
  case None
  with inv show ?thesis by (simp add: SendMessage_def)
next
  case (Some t)
  let ?s = "upd_task i (push_message m) tm"
  have si: "tm_inv ?s" by (rule tm_inv_upd_task [OF inv]) simp_all
  have gs: "get_task ?s i = Some (push_message m t)" using Some by simp
  have cs: "CurrentTask ?s = CurrentTask tm" by (simp add: CurrentTask_def)
  show ?thesis
  proof (cases "running t")
    case True
    then have eq: "(push_message m t)\<lparr>running := True\<rparr> = push_message m t" by (simp add: push_message_def)
    have "SendMessage tm i m = Some (?s, kSuccess)"
      using Some True gs
      by (simp add: SendMessage_def Task_SendMessage_def Wakeup_task_def ChangeLevelRunning_def)
    with si gs cs Some eq show ?thesis by simp
  next
    case False
    have l: "level t \<le> kMaxLevel" using inv Some by (auto simp: tm_inv_def tasks_ok_def)
    have nr: "\<not> running (push_message m t)" using False by simp
    from add_queue_inv [OF si gs nr l] obtain u where
      u: "(let tm1 = upd_task i (\<lambda>t'. t'\<lparr>level := level t, running := True\<rparr>) ?s;
               tm2 = set_queue (level t) (run_queue tm1 (level t) @ [i]) tm1
           in (if level t > current_level tm2 then tm2\<lparr>level_changed := True\<rparr> else tm2)) = u"
        "tm_inv u" "CurrentTask u = CurrentTask ?s" "cpu u = cpu ?s"
        "get_task u = (get_task ?s)(i \<mapsto> (push_message m t)\<lparr>level := level t, running := True\<rparr>)"
      by auto
    have "SendMessage tm i m = Some (u, kSuccess)"
      using Some False gs l u(1)
      by (simp add: SendMessage_def Task_SendMessage_def Wakeup_task_def Let_def)
    moreover have "(push_message m t)\<lparr>level := level t, running := True\<rparr> =
        (push_message m t)\<lparr>running := True\<rparr>" by (simp add: push_message_def)
    ultimately show ?thesis using u(2-5) cs Some by simp
  qed
qed

text \<open>The first half of \<open>Finish\<close>: the running task leaves its queue and is deleted.\<close>

lemma drop_current:
  assumes inv: "tm_inv tm" and cur: "run_queue tm (current_level tm) = c # q" and c: "c \<noteq> 2"
    and waiters: "\<forall>i. finish_waiter tm i \<noteq> Some c"
  shows "\<exists>u tc. RotateCurrentRunQueue tm True = Some (u, c) \<and> get_task u c = Some tc \<and>
    finish_waiter u = finish_waiter tm \<and> finish_tasks u = finish_tasks tm \<and>
    (\<forall>ft. let v = u\<lparr>tasks := filter (\<lambda>t. task_id t \<noteq> c) (tasks u), finish_tasks := ft\<rparr> in
       tm_inv v \<and> get_task v = (get_task tm)(c := None))"
proof -
  obtain tc where tc: "get_task tm c = Some tc" "running tc" "level tc = current_level tm"
    using current_task [OF inv] cur by auto
  let ?t = "set_queue (current_level tm) q tm"
  have cl: "current_level tm \<le> kMaxLevel" and lok: "level_ok tm"
    using inv by (auto simp: tm_inv_def level_ok_def)
  have mem: "j \<in> set (run_queue tm k) \<longleftrightarrow> (\<exists>t. get_task tm j = Some t \<and> running t \<and> level t = k)"
    and dis: "distinct (run_queue tm k)" if "k \<le> kMaxLevel" for j k
    using inv that by (auto simp: tm_inv_def queues_ok_def)
  have dq: "c \<notin> set q" "distinct q" using dis [OF cl] cur by auto
  have i2: "2 \<in> set (run_queue ?t 0)"
    using inv cur c by (auto simp: tm_inv_def idle_ready_def)
  then have "\<exists>l \<le> kMaxLevel. run_queue ?t l \<noteq> []" by (intro exI [of _ 0]) auto
  from Rotate_cases [OF cur lok this, of True] obtain lv b where
    r: "RotateCurrentRunQueue tm True = Some (?t\<lparr>level_changed := b, current_level := lv\<rparr>, c)"
      "\<not> b" "lv \<le> kMaxLevel" "run_queue ?t lv \<noteq> []"
      "\<forall>l \<le> kMaxLevel. lv < l \<longrightarrow> run_queue ?t l = []"
    by auto
  define u where "u = ?t\<lparr>level_changed := b, current_level := lv\<rparr>"
  have "tm_inv v \<and> get_task v = (get_task tm)(c := None)"
    if v: "v = u\<lparr>tasks := filter (\<lambda>t. task_id t \<noteq> c) (tasks u), finish_tasks := ft\<rparr>" for v ft
  proof
    show g: "get_task v = (get_task tm)(c := None)"
      by (intro ext) (simp add: v u_def get_task_def find_task_filter)
    have f: "run_queue v = (run_queue tm)(current_level tm := q)" "current_level v = lv"
      "level_changed v = b" "finish_waiter v = finish_waiter tm" "latest_id v = latest_id tm"
      by (simp_all add: v u_def)
    have "queues_ok v"
      unfolding queues_ok_def g f
    proof (intro allI impI conjI)
      fix k j assume k: "k \<le> kMaxLevel"
      show "distinct (((run_queue tm)(current_level tm := q)) k)" using dis [OF k] dq by simp
      show "j \<in> set (((run_queue tm)(current_level tm := q)) k) \<longleftrightarrow>
          (\<exists>t. ((get_task tm)(c := None)) j = Some t \<and> running t \<and> level t = k)"
        using mem [OF k, of j] cur dq tc by (cases "k = current_level tm") auto
    qed
    moreover have "tasks_ok v"
      using inv waiters unfolding tasks_ok_def g f tm_inv_def by (auto simp: tasks_ok_def)
    moreover have "idle_ready v" using i2 by (simp add: idle_ready_def f)
    moreover have "level_ok v" "run_queue v (current_level v) \<noteq> []"
      using r(2-5) by (simp_all add: level_ok_def f)
    ultimately show "tm_inv v" by (simp add: tm_inv_def)
  qed
  moreover have "get_task u c = Some tc" "finish_waiter u = finish_waiter tm"
    "finish_tasks u = finish_tasks tm"
    using tc(1) by (simp_all add: u_def)
  ultimately show ?thesis using r(1) by (auto simp: u_def Let_def)
qed

text \<open>
  The running task finishes.  \<open>finish_waiter\<close> holds only tasks that are blocked in
  \<open>WaitFinish\<close>, so the finishing task is not one of them.
\<close>

lemma Finish_cases:
  assumes inv: "tm_inv tm" and cur: "run_queue tm (current_level tm) = c # q" and c: "c \<noteq> 2"
    and waiters: "\<forall>i. finish_waiter tm i \<noteq> Some c"
  shows "\<exists>tm' n t. Finish tm code = Some tm' \<and> tm_inv tm' \<and> get_task tm' c = None \<and>
    finish_tasks tm' c = Some code \<and> CurrentTask tm' = Some n \<and> get_task tm' n = Some t \<and>
    cpu tm' = ctx t \<and>
    (\<forall>w. finish_waiter tm c = Some w \<longrightarrow> (\<exists>tw. get_task tm' w = Some tw \<and> running tw))"
proof -
  from drop_current [OF assms] obtain u tc where
    u: "RotateCurrentRunQueue tm True = Some (u, c)" "get_task u c = Some tc"
      "finish_waiter u = finish_waiter tm" "finish_tasks u = finish_tasks tm" and
    v0: "\<forall>ft. let v = u\<lparr>tasks := filter (\<lambda>t. task_id t \<noteq> c) (tasks u), finish_tasks := ft\<rparr> in
       tm_inv v \<and> get_task v = (get_task tm)(c := None)"
    by blast
  define v where "v = u\<lparr>tasks := filter (\<lambda>t. task_id t \<noteq> c) (tasks u),
      finish_tasks := (finish_tasks u)(c \<mapsto> code)\<rparr>"
  have v: "tm_inv v" "get_task v = (get_task tm)(c := None)" "finish_waiter v = finish_waiter tm"
    "finish_tasks v c = Some code"
    using v0 u(3) by (auto simp: v_def Let_def)
  define w where "w = (case finish_waiter v c of None \<Rightarrow> Some v
      | Some waiter \<Rightarrow> Wakeup_task (v\<lparr>finish_waiter := (finish_waiter v)(c := None)\<rparr>) waiter (-1))"
  have "\<exists>x. w = Some x \<and> tm_inv x \<and> get_task x c = None \<and> finish_tasks x c = Some code \<and>
      (\<forall>w. finish_waiter tm c = Some w \<longrightarrow> (\<exists>tw. get_task x w = Some tw \<and> running tw))"
  proof (cases "finish_waiter tm c")
    case None
    with v show ?thesis by (simp add: w_def)
  next
    case (Some wt)
    let ?v = "v\<lparr>finish_waiter := (finish_waiter v)(c := None)\<rparr>"
    have iv: "tm_inv ?v"
      using v(1) by (rule tm_inv_cong [rotated -1]) (use v(1) in \<open>auto simp: tm_inv_def tasks_ok_def\<close>)
    obtain tw where tw: "get_task ?v wt = Some tw"
      using v(1,3) Some by (fastforce simp: tm_inv_def tasks_ok_def)
    have wc: "wt \<noteq> c" using waiters Some by auto
    show ?thesis
    proof (cases "running tw")
      case True
      with Some v tw iv show ?thesis by (simp add: w_def Wakeup_task_def ChangeLevelRunning_def)
    next
      case False
      have l: "level tw \<le> kMaxLevel" using iv tw unfolding tm_inv_def tasks_ok_def by blast
      from add_queue_inv [OF iv tw False l] Some v tw l False wc show ?thesis
        by (auto simp: w_def Wakeup_task_def Let_def split del: if_split)
    qed
  qed
  then obtain x where x: "w = Some x" "tm_inv x" "get_task x c = None" "finish_tasks x c = Some code"
      "\<forall>w. finish_waiter tm c = Some w \<longrightarrow> (\<exists>tw. get_task x w = Some tw \<and> running tw)" by blast
  obtain n t where n: "CurrentTask x = Some n" "get_task x n = Some t"
    using current_task [OF x(2)] by auto
  from RestoreContext_inv [OF x(2) n(2)] obtain y where
    y: "RestoreContext n x = Some y" "tm_inv y" "cpu y = ctx t" "run_queue y = run_queue x"
      "current_level y = current_level x" "get_task y = get_task x" "finish_tasks y = finish_tasks x"
    by auto
  have "CurrentTask y = Some n" using n(1) CurrentTask_cong [of y x] y(4,5) by simp
  moreover have "Finish tm code = w \<bind> (\<lambda>tm3. CurrentTask tm3 \<bind> (\<lambda>nxt. RestoreContext nxt tm3))"
    unfolding Finish_def u(1) w_def v_def Let_def using u(2) by simp
  then have "Finish tm code = Some y" using x(1) n(1) y(1) by simp
  ultimately show ?thesis using y x n by (intro exI [of _ y] exI [of _ n] exI [of _ t]) simp
qed

section \<open>Runs of the scheduler\<close>

text \<open>
  One step of the system: a call of the task manager by the timer interrupt, by the running
  task or by an interrupt handler.  The idle task never sleeps, finishes or changes its level,
  and a task that is registered as waiter is blocked in \<open>WaitFinish\<close> and does not finish.
\<close>

inductive tm_step :: "TaskManager \<Rightarrow> TaskManager option \<Rightarrow> bool" where
  switch: "tm_step tm (SwitchTask tm saved)"
| sleep: "get_task tm i \<noteq> None \<Longrightarrow> i \<noteq> 2 \<Longrightarrow> tm_step tm (Sleep_task tm i)"
| sleep_id: "i \<noteq> 2 \<Longrightarrow> tm_step tm (map_option fst (Sleep_id tm i))"
| wakeup: "i \<noteq> 2 \<or> lv < 0 \<Longrightarrow> lv \<le> int kMaxLevel \<Longrightarrow> tm_step tm (map_option fst (Wakeup_id tm i lv))"
| send: "tm_step tm (map_option fst (SendMessage tm i m))"
| new: "tm_step tm (Some (fst (NewTask tm)))"
| finish: "CurrentTask tm = Some c \<Longrightarrow> c \<noteq> 2 \<Longrightarrow> \<forall>i. finish_waiter tm i \<noteq> Some c \<Longrightarrow>
     tm_step tm (Finish tm code)"
| wait: "CurrentTask tm = Some c \<Longrightarrow> c \<noteq> 2 \<Longrightarrow> tm_step tm (map_option fst (WaitFinish_round tm i))"

inductive tm_reachable :: "TaskManager \<Rightarrow> bool" where
  boot: "tm_reachable (TaskManager_new stack_base task_idle c)"
| step: "tm_reachable tm \<Longrightarrow> tm_step tm (Some tm') \<Longrightarrow> tm_reachable tm'"

inductive_cases tm_stepE: "tm_step tm r"

lemma Sleep_task_inv:
  assumes "tm_inv tm" "get_task tm i \<noteq> None" "i \<noteq> 2"
  shows "\<exists>tm'. Sleep_task tm i = Some tm' \<and> tm_inv tm'"
proof (cases "CurrentTask tm = Some i")
  case True
  then obtain q where "run_queue tm (current_level tm) = i # q"
    by (auto simp: CurrentTask_def front_Some)
  from Sleep_task_current [OF assms(1) this assms(3)] show ?thesis by blast
next
  case False
  with Sleep_task_other [OF assms(1,3)] assms(2) show ?thesis by blast
qed

lemma WaitFinish_inv:
  assumes inv: "tm_inv tm" and c: "CurrentTask tm = Some c" "c \<noteq> 2"
  shows "\<exists>tm' r. WaitFinish_round tm i = Some (tm', r) \<and> tm_inv tm'"
proof (cases "finish_tasks tm i")
  case None
  have gc: "get_task tm c \<noteq> None" using current_task [OF inv] c(1) by auto
  let ?s = "tm\<lparr>finish_waiter := (finish_waiter tm)(i \<mapsto> c)\<rparr>"
  have "tm_inv ?s"
    using inv by (rule tm_inv_cong [rotated -1]) (use inv gc in \<open>auto simp: tm_inv_def tasks_ok_def\<close>)
  from Sleep_task_inv [OF this _ c(2)] gc obtain u where "Sleep_task ?s c = Some u" "tm_inv u" by auto
  with None c(1) show ?thesis by (simp add: WaitFinish_round_def)
next
  case (Some code)
  have "tm_inv (tm\<lparr>finish_tasks := (finish_tasks tm)(i := None)\<rparr>)"
    using inv by (rule tm_inv_cong [rotated -1]) (use inv in \<open>auto simp: tm_inv_def tasks_ok_def\<close>)
  with Some c(1) show ?thesis by (simp add: WaitFinish_round_def)
qed

lemma tm_step_inv:
  assumes inv: "tm_inv tm" and step: "tm_step tm r"
  shows "\<exists>tm'. r = Some tm' \<and> tm_inv tm'"
  using step
proof cases
  case (switch saved)
  with SwitchTask_cases [OF inv] current_task [OF inv] show ?thesis by metis
next
  case (sleep i)
  with Sleep_task_inv [OF inv] show ?thesis by simp
next
  case (sleep_id i)
  with Sleep_task_inv [OF inv, of i] inv show ?thesis
    by (auto simp: Sleep_id_def split: option.splits)
next
  case (wakeup i lv)
  show ?thesis
  proof (cases "get_task tm i")
    case None
    with wakeup inv show ?thesis by (simp add: Wakeup_id_def)
  next
    case (Some t)
    from Wakeup_task_inv [OF inv Some wakeup(3,2)] Some wakeup(1) show ?thesis
      by (auto simp: Wakeup_id_def)
  qed
next
  case (send i m)
  with SendMessage_cases [OF inv, of i m] show ?thesis by auto
next
  case new
  with NewTask_inv [OF inv] show ?thesis by (metis prod.collapse)
next
  case (finish c code)
  then obtain q where "run_queue tm (current_level tm) = c # q"
    by (auto simp: CurrentTask_def front_Some)
  from Finish_cases [OF inv this] finish show ?thesis by blast
next
  case (wait c i)
  with WaitFinish_inv [OF inv, of c i] show ?thesis by auto
qed

lemma tm_reachable_inv: "tm_reachable tm \<Longrightarrow> tm_inv tm"
proof (induction rule: tm_reachable.induct)
  case boot
  show ?case by (rule tm_inv_new)
next
  case (step tm tm')
  from tm_step_inv [OF step.IH step.hyps(2)] show ?case by simp
qed

section \<open>Properties\<close>

abbreviation boot_manager :: TaskManager where
  "boot_manager \<equiv> TaskManager_new 0x1000 0x2000 zero_context"

lemma boot_current: "run_queue boot_manager (current_level boot_manager) = 1 # []"
  by (simp add: TaskManager_new_def NewTask_def Let_def empty_manager_def kMaxLevel_def)

text \<open>
  C3. In every state the scheduler can reach from boot, a task is in the run queue of a level
  exactly if it is marked running at that level and no queue holds it twice; the current queue
  is not empty, the idle task is ready, and unless \<open>level_changed\<close> is set nothing waits above
  the current level.  No call of the interface is undefined there: the queues are never
  accessed empty, no deleted task is touched.
\<close>

theorem scheduler_safe:
  assumes "tm_reachable tm"
  shows "tm_inv tm \<and> (\<forall>r. tm_step tm r \<longrightarrow> r \<noteq> None)"
  using tm_reachable_inv [OF assms] tm_step_inv [of tm] by auto

theorem scheduler_safe_witness: "tm_inv (fst (NewTask boot_manager))"
  using scheduler_safe [OF tm_reachable.step [OF tm_reachable.boot tm_step.new]] by blast

text \<open>
  C10. \<open>SwitchTask\<close>, called by the timer interrupt with the interrupted task's registers, saves
  them in that task, moves the task to the back of its queue, continues at the highest level
  with a ready task and loads the registers of the task at the front of it.
\<close>

theorem SwitchTask_round_robin:
  assumes "tm_inv tm" "run_queue tm (current_level tm) = c # q"
  shows "\<exists>tm' n t. SwitchTask tm saved = Some tm' \<and> tm_inv tm' \<and>
    (\<forall>l \<le> kMaxLevel. current_level tm' < l \<longrightarrow> run_queue tm' l = []) \<and>
    run_queue tm' = (run_queue tm)(current_level tm := q @ [c]) \<and>
    CurrentTask tm' = Some n \<and> get_task tm' n = Some t \<and>
    map_option ctx (get_task tm' c) = Some saved \<and>
    (\<forall>i. i \<noteq> c \<longrightarrow> get_task tm' i = get_task tm i) \<and>
    cpu tm' = (if n = c then cpu tm else ctx t)"
  using SwitchTask_cases [OF assms, of saved] unfolding at_top_def by metis

theorem SwitchTask_round_robin_witness:
  "\<exists>tm'. SwitchTask boot_manager zero_context = Some tm' \<and> run_queue tm' 3 = [1]"
proof -
  have "current_level boot_manager = 3"
    by (simp add: TaskManager_new_def NewTask_def Let_def empty_manager_def kMaxLevel_def)
  with SwitchTask_round_robin [OF tm_inv_new boot_current, of zero_context] show ?thesis by auto
qed

text \<open>
  \<open>SendMessage\<close> reports a task that does not exist and changes nothing; otherwise the message
  is the last of the task's queue, the task is ready, and the running task keeps the processor.
\<close>

lemma SendMessage_delivers:
  assumes "tm_inv tm"
  shows "\<exists>tm' e. SendMessage tm i m = Some (tm', e) \<and> tm_inv tm' \<and> CurrentTask tm' = CurrentTask tm \<and>
    (case get_task tm i of
       None \<Rightarrow> e = kNoSuchTask \<and> tm' = tm
     | Some t \<Rightarrow> e = kSuccess \<and>
         get_task tm' i = Some (t\<lparr>msgs := msgs t @ [m], running := True\<rparr>))"
  using SendMessage_cases [OF assms, of i m] by (cases "get_task tm i") (auto simp: push_message_def)

lemma SendMessage_delivers_witness:
  "\<exists>tm'. SendMessage boot_manager 7 \<lparr>msg_type = kTimerTimeout, src_task = 0, arg = NoArg\<rparr> =
     Some (tm', kNoSuchTask)"
proof -
  have "get_task boot_manager 7 = None"
    by (simp add: TaskManager_new_def NewTask_def Let_def empty_manager_def get_task_def upd_task_def
        set_queue_def InitContext_def Task_new_def)
  with SendMessage_delivers [OF tm_inv_new [of "0x1000" "0x2000" zero_context], where i = 7 and
      m = "\<lparr>msg_type = kTimerTimeout, src_task = 0, arg = NoArg\<rparr>"]
  show ?thesis by auto
qed

text \<open>
  C28. \<open>Finish\<close> removes the running task, records its exit code where \<open>WaitFinish\<close> finds it, makes
  the task waiting for it ready and continues with another task's registers.
\<close>

theorem Finish_wakes_waiter:
  assumes "tm_inv tm" "run_queue tm (current_level tm) = c # q" "c \<noteq> 2"
    and "\<forall>i. finish_waiter tm i \<noteq> Some c"
  shows "\<exists>tm' n t. Finish tm code = Some tm' \<and> tm_inv tm' \<and> get_task tm' c = None \<and>
    finish_tasks tm' c = Some code \<and> CurrentTask tm' = Some n \<and> get_task tm' n = Some t \<and>
    cpu tm' = ctx t \<and>
    (\<forall>w. finish_waiter tm c = Some w \<longrightarrow> (\<exists>tw. get_task tm' w = Some tw \<and> running tw))"
  by (rule Finish_cases [OF assms])

theorem Finish_wakes_waiter_witness:
  "\<exists>tm'. Finish boot_manager 5 = Some tm' \<and> finish_tasks tm' 1 = Some 5"
proof -
  have "\<forall>i. finish_waiter boot_manager i \<noteq> Some 1"
    by (simp add: TaskManager_new_def NewTask_def Let_def empty_manager_def)
  from Finish_wakes_waiter [OF tm_inv_new boot_current _ this] show ?thesis by fastforce
qed

end
