(* ===== verification/Timers.thy ===== *)
theory Timers
  imports Scheduler "HOL-Library.Multiset"
begin

text \<open>
  Timers and the timer interrupt: \<open>kernel/timer.hpp\<close> and \<open>kernel/timer.cpp\<close>.  The
  \<open>std::priority_queue\<close> is a list in order of timeouts with the top first; timers of equal
  timeout, whose order C++ leaves open, are kept in the order of their insertion.
\<close>

section \<open>The LAPIC timer\<close>

record LapicTimer =
  lvt_timer :: u32
  initial_count :: u32
  current_count :: u32
  divide_config :: u32

definition kCountMax :: u32 where "kCountMax = 0xffffffff"
definition kLAPICTimer :: u32 where "kLAPICTimer = 0x41"
definition kTimerFreq :: u64 where "kTimerFreq = 100"

definition StartLAPICTimer :: "LapicTimer \<Rightarrow> LapicTimer" where
  "StartLAPICTimer r = r\<lparr>initial_count := kCountMax\<rparr>"

definition LAPICTimerElapsed :: "LapicTimer \<Rightarrow> u32" where
  "LAPICTimerElapsed r = kCountMax - current_count r"

definition StopLAPICTimer :: "LapicTimer \<Rightarrow> LapicTimer" where
  "StopLAPICTimer r = r\<lparr>initial_count := 0\<rparr>"

text \<open>\<open>wait\<close> is what the hardware does to the registers during \<open>acpi::WaitMilliseconds(100)\<close>.\<close>

definition InitializeLAPICTimer ::
  "(LapicTimer \<Rightarrow> LapicTimer) \<Rightarrow> LapicTimer \<Rightarrow> LapicTimer \<times> u64" where
  "InitializeLAPICTimer wait r =
    (let r1 = wait (StartLAPICTimer (r\<lparr>divide_config := 11, lvt_timer := push_bit 16 1\<rparr>));
         elapsed = LAPICTimerElapsed r1;
         freq = ucast elapsed * 10 :: u64
     in ((StopLAPICTimer r1)
           \<lparr>divide_config := 11, lvt_timer := push_bit 16 2 OR kLAPICTimer,
            initial_count := ucast (freq div kTimerFreq)\<rparr>, freq))"

section \<open>The timer manager\<close>

record Timer =
  timeout :: u64
  timer_val :: int
  timer_task :: nat

record TimerManager =
  tick :: u64
  timers :: "Timer list"

definition kTaskTimerPeriod :: u64 where "kTaskTimerPeriod = 2"
definition kTaskTimerValue :: int where "kTaskTimerValue = 2147483647"

fun push_timer :: "Timer \<Rightarrow> Timer list \<Rightarrow> Timer list" where
  "push_timer x [] = [x]"
| "push_timer x (t # ts) = (if timeout x < timeout t then x # t # ts else t # push_timer x ts)"

definition TimerManager_new :: TimerManager where
  "TimerManager_new = \<lparr>tick = 0, timers = push_timer \<lparr>timeout = - 1, timer_val = 0, timer_task = 0\<rparr> []\<rparr>"

definition AddTimer :: "Timer \<Rightarrow> TimerManager \<Rightarrow> TimerManager" where
  "AddTimer t m = m\<lparr>timers := push_timer t (timers m)\<rparr>"

definition timer_message :: "Timer \<Rightarrow> Message" where
  "timer_message t = \<lparr>msg_type = kTimerTimeout, src_task = 0, arg = TimerArg (timeout t) (timer_val t)\<rparr>"

text \<open>
  The loop of \<open>Tick\<close>.  Its value is \<open>None\<close> when the queue runs empty, where \<open>top\<close> is
  undefined, and when it never ends, as it would if \<open>tick_ + kTaskTimerPeriod\<close> wrapped.
  \<open>send\<close> is \<open>TaskManager::SendMessage\<close>.
\<close>

partial_function (option) Tick_loop ::
  "('tm \<Rightarrow> nat \<Rightarrow> Message \<Rightarrow> ('tm \<times> ErrorCode) option) \<Rightarrow> u64 \<Rightarrow> Timer list \<Rightarrow> 'tm \<Rightarrow> bool \<Rightarrow>
     (Timer list \<times> 'tm \<times> bool) option" where
  "Tick_loop send now ts tm flag =
    (case ts of [] \<Rightarrow> None
     | t # rest \<Rightarrow>
         if timeout t > now then Some (ts, tm, flag)
         else if timer_val t = kTaskTimerValue then
           Tick_loop send now
             (push_timer \<lparr>timeout = now + kTaskTimerPeriod, timer_val = kTaskTimerValue, timer_task = 1\<rparr> rest)
             tm True
         else
           case send tm (timer_task t) (timer_message t) of
             None \<Rightarrow> None
           | Some (tm', _) \<Rightarrow> Tick_loop send now rest tm' flag)"

definition Tick :: "TimerManager \<Rightarrow> TaskManager \<Rightarrow> ((TimerManager \<times> TaskManager) \<times> bool) option" where
  "Tick m tm =
    (let now = tick m + 1 in
     map_option (\<lambda>(ts, tm', flag). ((m\<lparr>tick := now, timers := ts\<rparr>, tm'), flag))
       (Tick_loop SendMessage now (timers m) tm False))"

text \<open>The interrupt handler; \<open>saved\<close> are the registers of the interrupted task.\<close>

definition LAPICTimerOnInterrupt ::
  "TaskContext \<Rightarrow> TimerManager \<Rightarrow> TaskManager \<Rightarrow> (TimerManager \<times> TaskManager) option" where
  "LAPICTimerOnInterrupt saved m tm =
    (case Tick m tm of
       None \<Rightarrow> None
     | Some ((m', tm'), task_timer_timeout) \<Rightarrow>
         if task_timer_timeout then map_option (\<lambda>u. (m', u)) (SwitchTask tm' saved)
         else Some (m', tm'))"

definition InitializeTask :: "u64 \<Rightarrow> u64 \<Rightarrow> TaskContext \<Rightarrow> TimerManager \<Rightarrow> TimerManager \<times> TaskManager" where
  "InitializeTask stack_base task_idle c m =
    (AddTimer \<lparr>timeout = tick m + kTaskTimerPeriod, timer_val = kTaskTimerValue, timer_task = 1\<rparr> m,
     TaskManager_new stack_base task_idle c)"

section \<open>The queue\<close>

text \<open>What the timer loop relies on of a queue of timers.\<close>

locale timer_queue =
  fixes push :: "Timer \<Rightarrow> 'q \<Rightarrow> 'q"
    and elems :: "'q \<Rightarrow> Timer list"
  assumes push_elems: "mset (elems (push x q)) = add_mset x (mset (elems q))"
    and push_sorted: "sorted (map timeout (elems q)) \<Longrightarrow> sorted (map timeout (elems (push x q)))"
    and push_later: "sorted (map timeout (elems q)) \<Longrightarrow> timeout t \<le> now \<Longrightarrow> now < timeout x \<Longrightarrow>
      takeWhile (\<lambda>t. timeout t \<le> now) (elems (push x q)) = takeWhile (\<lambda>t. timeout t \<le> now) (elems q)"
begin

lemma push_nonempty: "elems (push x q) \<noteq> []"
  using push_elems [of x q] by (metis add_mset_not_empty mset_zero_iff)

lemma push_set: "set (elems (push x q)) = insert x (set (elems q))"
  using arg_cong [OF push_elems [of x q], of set_mset] by simp

lemma push_top: "sorted (map timeout (elems q)) \<Longrightarrow> t \<in> set (elems q) \<Longrightarrow>
    timeout (hd (elems (push x q))) \<le> timeout t"
proof -
  assume s: "sorted (map timeout (elems q))" and t: "t \<in> set (elems q)"
  obtain a r where a: "elems (push x q) = a # r" using push_nonempty [of x q] by (cases "elems (push x q)") auto
  have "t \<in> set (a # r)" using t push_set [of x q] unfolding a by simp
  with push_sorted [OF s, of x] show ?thesis unfolding a by auto
qed

end

lemma push_timer_mset: "mset (push_timer x ts) = add_mset x (mset ts)"
  by (induction ts) auto

lemma push_timer_sorted: "sorted (map timeout ts) \<Longrightarrow> sorted (map timeout (push_timer x ts))"
proof (induction ts)
  case (Cons t ts)
  have "set (push_timer x ts) = insert x (set ts)"
    using arg_cong [OF push_timer_mset [of x ts], of set_mset] by simp
  with Cons show ?case by (auto intro: order.strict_trans1 less_imp_le)
qed simp

lemma push_timer_due:
  "now < timeout x \<Longrightarrow>
     takeWhile (\<lambda>t. timeout t \<le> now) (push_timer x ts) = takeWhile (\<lambda>t. timeout t \<le> now) ts"
  by (induction ts) auto

lemma mset_take_drop: "mset (takeWhile P xs) + mset (dropWhile P xs) = mset xs"
  by (metis mset_append takeWhile_dropWhile_id)

lemma push_rest:
  assumes "takeWhile P (push_timer x r) = takeWhile P r"
  shows "mset (dropWhile P (push_timer x r)) = add_mset x (mset (dropWhile P r))"
proof -
  have "mset (takeWhile P r) + mset (dropWhile P (push_timer x r)) =
      add_mset x (mset (takeWhile P r) + mset (dropWhile P r))"
    using mset_take_drop [of P "push_timer x r"] mset_take_drop [of P r] assms push_timer_mset [of x r]
    by simp
  then show ?thesis by simp
qed

interpretation tq: timer_queue push_timer "\<lambda>ts. ts"
  by unfold_locales (simp_all add: push_timer_mset push_timer_sorted push_timer_due)

section \<open>The loop\<close>

text \<open>The messages a list of due timers sends to a task.\<close>

definition due_messages :: "Timer list \<Rightarrow> nat \<Rightarrow> Message list" where
  "due_messages ts i =
     map timer_message (filter (\<lambda>t. timer_val t \<noteq> kTaskTimerValue \<and> timer_task t = i) ts)"

definition due :: "u64 \<Rightarrow> Timer list \<Rightarrow> Timer list" where
  "due now ts = takeWhile (\<lambda>t. timeout t \<le> now) ts"

definition task_timers :: "Timer list \<Rightarrow> Timer list" where
  "task_timers ts = filter (\<lambda>t. timer_val t = kTaskTimerValue) ts"

text \<open>
  What the loop relies on of the receiver of its messages: every mailbox but the addressed one
  stays, and the message is the last of the addressed one.
\<close>

locale message_sink =
  fixes send :: "'tm \<Rightarrow> nat \<Rightarrow> Message \<Rightarrow> ('tm \<times> ErrorCode) option"
    and inv :: "'tm \<Rightarrow> bool"
    and box :: "'tm \<Rightarrow> nat \<Rightarrow> Message list option"
  assumes send_ok: "inv tm \<Longrightarrow> \<exists>tm' e. send tm i m = Some (tm', e) \<and> inv tm' \<and>
      box tm' = (box tm)(i := map_option (\<lambda>q. q @ [m]) (box tm i))"
begin

lemma Tick_loop_spec:
  assumes "inv tm" "sorted (map timeout ts)" "\<exists>t \<in> set ts. now < timeout t"
    and "now < now + kTaskTimerPeriod"
  shows "\<exists>ts' tm'. Tick_loop send now ts tm flag = Some (ts', tm',
        flag \<or> (\<exists>t \<in> set (takeWhile (\<lambda>t. timeout t \<le> now) ts). timer_val t = kTaskTimerValue)) \<and>
      inv tm' \<and> sorted (map timeout ts') \<and>
      mset ts' = mset (dropWhile (\<lambda>t. timeout t \<le> now) ts) +
        replicate_mset (length (filter (\<lambda>t. timer_val t = kTaskTimerValue) (takeWhile (\<lambda>t. timeout t \<le> now) ts)))
          \<lparr>timeout = now + kTaskTimerPeriod, timer_val = kTaskTimerValue, timer_task = 1\<rparr> \<and>
      (\<forall>i. box tm' i = map_option (\<lambda>q. q @ due_messages (takeWhile (\<lambda>t. timeout t \<le> now) ts) i) (box tm i))"
  using assms(1-3)
proof (induction "length (takeWhile (\<lambda>t. timeout t \<le> now) ts)" arbitrary: ts tm flag)
  case 0
  then obtain t r where ts: "ts = t # r" by (cases ts) auto
  with 0(1) have "now < timeout t" by (auto simp: not_le split: if_splits)
  with ts 0 show ?case
    by (simp add: Tick_loop.simps [of send now "t # r"] due_messages_def option.map_ident)
next
  case (Suc n)
  then obtain t r where ts: "ts = t # r" by (cases ts) auto
  with Suc(2) have t: "timeout t \<le> now" by (auto split: if_splits)
  have r: "n = length (takeWhile (\<lambda>t. timeout t \<le> now) r)" "sorted (map timeout r)"
    "\<exists>t \<in> set r. now < timeout t"
    using Suc.hyps(2) Suc.prems ts t by auto
  show ?case
  proof (cases "timer_val t = kTaskTimerValue")
    case True
    let ?x = "\<lparr>timeout = now + kTaskTimerPeriod, timer_val = kTaskTimerValue, timer_task = 1\<rparr>"
    let ?p = "push_timer ?x r"
    have s: "sorted (map timeout ?p)" using r(2) by (rule tq.push_sorted)
    have tw: "takeWhile (\<lambda>t. timeout t \<le> now) ?p = takeWhile (\<lambda>t. timeout t \<le> now) r"
      using tq.push_later [OF r(2) t] assms(4) by simp
    have ex: "\<exists>t \<in> set ?p. now < timeout t" using r(3) tq.push_set [of ?x r] by auto
    have dw: "mset (dropWhile (\<lambda>t. timeout t \<le> now) ?p) =
        add_mset ?x (mset (dropWhile (\<lambda>t. timeout t \<le> now) r))"
      by (rule push_rest [OF tw])
    have "Tick_loop send now ts tm flag = Tick_loop send now ?p tm True"
      using ts t True by (simp add: Tick_loop.simps [of send now "t # r"] leD)
    with Suc.hyps(1) [of ?p, OF _ Suc.prems(1) s ex, of True] r(1) tw dw ts t True show ?thesis
      by (simp add: due_messages_def)
  next
    case False
    obtain u e where u: "send tm (timer_task t) (timer_message t) = Some (u, e)" "inv u"
      "box u = (box tm)(timer_task t := map_option (\<lambda>q. q @ [timer_message t]) (box tm (timer_task t)))"
      using send_ok [OF Suc.prems(1)] by blast
    have "Tick_loop send now ts tm flag = Tick_loop send now r u flag"
      using ts t False u(1) by (simp add: Tick_loop.simps [of send now "t # r"] leD)
    with Suc.hyps(1) [OF r(1) u(2) r(2,3), of flag] u(3) ts t False show ?thesis
      by (auto simp: due_messages_def option.map_comp comp_def)
  qed
qed

end

lemma SendMessage_box:
  assumes "tm_inv tm"
  shows "\<exists>tm' e. SendMessage tm i m = Some (tm', e) \<and> tm_inv tm' \<and>
    (\<lambda>j. map_option msgs (get_task tm' j)) =
      (\<lambda>j. map_option msgs (get_task tm j))(i := map_option (\<lambda>q. q @ [m]) (map_option msgs (get_task tm i)))"
proof (cases "get_task tm i")
  case None
  with assms show ?thesis by (simp add: SendMessage_def fun_upd_idem)
next
  case (Some t)
  let ?s = "upd_task i (push_message m) tm"
  have gs: "get_task ?s = (get_task tm)(i \<mapsto> push_message m t)" using Some by (intro ext) simp
  obtain tm' e where s: "SendMessage tm i m = Some (tm', e)" "tm_inv tm'"
    using SendMessage_cases [OF assms] by blast
  have l: "level t \<le> kMaxLevel" using assms Some by (auto simp: tm_inv_def tasks_ok_def)
  have "map_option msgs (get_task tm' j) = (if j = i then Some (msgs t @ [m]) else map_option msgs (get_task tm j))"
    for j
  proof (cases "running t")
    case True
    then have "tm' = ?s"
      using Some s(1) gs
      by (simp add: SendMessage_def Task_SendMessage_def Wakeup_task_def ChangeLevelRunning_def)
    then show ?thesis using gs by simp
  next
    case False
    then have "get_task tm' j = get_task (upd_task i (\<lambda>t'. t'\<lparr>level := level t, running := True\<rparr>) ?s) j"
      using Some s(1) gs l
      by (auto simp: SendMessage_def Task_SendMessage_def Wakeup_task_def Let_def simp del: get_upd_task)
    then show ?thesis using gs by simp
  qed
  with s Some show ?thesis by (intro exI [of _ tm'] exI [of _ e]) auto
qed

interpretation ms: message_sink SendMessage tm_inv "\<lambda>tm i. map_option msgs (get_task tm i)"
  by unfold_locales (rule SendMessage_box)

section \<open>Properties\<close>

lemma sentinel_late: "(1::u64) < - 1" "\<not> (- 1::u64) \<le> 1"
  by code_simp+

lemma Tick_cases:
  assumes "tm_inv tm" "sorted (map timeout (timers m))" "\<exists>t \<in> set (timers m). tick m + 1 < timeout t"
    and "tick m + 1 < tick m + 3" and d: "d = due (tick m + 1) (timers m)"
  shows "\<exists>ts tm'. Tick m tm = Some ((m\<lparr>tick := tick m + 1, timers := ts\<rparr>, tm'), task_timers d \<noteq> []) \<and>
    tm_inv tm' \<and> sorted (map timeout ts) \<and>
    mset ts + mset d = mset (timers m) + replicate_mset (length (task_timers d))
      \<lparr>timeout = tick m + 3, timer_val = kTaskTimerValue, timer_task = 1\<rparr> \<and>
    (\<forall>i. map_option msgs (get_task tm' i) =
      map_option (\<lambda>q. q @ due_messages d i) (map_option msgs (get_task tm i)))"
proof -
  have n: "tick m + 1 + kTaskTimerPeriod = tick m + 3" by (simp add: kTaskTimerPeriod_def)
  from ms.Tick_loop_spec [OF assms(1-3), of False] assms(4) n obtain ts tm' where
    l: "Tick_loop SendMessage (tick m + 1) (timers m) tm False = Some (ts, tm',
          (\<exists>t \<in> set d. timer_val t = kTaskTimerValue))"
      "tm_inv tm'" "sorted (map timeout ts)"
      "mset ts = mset (dropWhile (\<lambda>t. timeout t \<le> tick m + 1) (timers m)) +
        replicate_mset (length (task_timers d))
          \<lparr>timeout = tick m + 3, timer_val = kTaskTimerValue, timer_task = 1\<rparr>"
      "\<forall>i. map_option msgs (get_task tm' i) =
        map_option (\<lambda>q. q @ due_messages d i) (map_option msgs (get_task tm i))"
    unfolding d due_def task_timers_def by auto
  have "mset ts + mset d = mset (timers m) + replicate_mset (length (task_timers d))
      \<lparr>timeout = tick m + 3, timer_val = kTaskTimerValue, timer_task = 1\<rparr>"
    using l(4) mset_take_drop [of "\<lambda>t. timeout t \<le> tick m + 1" "timers m"]
    unfolding d due_def by (simp add: ac_simps)
  moreover have "(\<exists>t \<in> set d. timer_val t = kTaskTimerValue) \<longleftrightarrow> task_timers d \<noteq> []"
    by (auto simp: task_timers_def filter_empty_conv)
  ultimately show ?thesis using l by (auto simp: Tick_def Let_def)
qed

text \<open>
  C9. \<open>Tick\<close> ends: it takes exactly the timers due at the new tick out of the queue, delivers the
  message of each, in the order of their timeouts, to its task if it exists, re-arms each due task timer two
  ticks ahead and reports whether there was one.  It needs a timer left in the queue (the
  constructor's sentinel) and a tick that does not wrap.
\<close>

theorem Tick_fires_due:
  assumes "tm_inv tm" "sorted (map timeout (timers m))" "\<exists>t \<in> set (timers m). tick m + 1 < timeout t"
    and "tick m + 1 < tick m + 3"
  shows "\<exists>ts tm'. Tick m tm = Some ((m\<lparr>tick := tick m + 1, timers := ts\<rparr>, tm'),
        task_timers (due (tick m + 1) (timers m)) \<noteq> []) \<and>
    tm_inv tm' \<and> sorted (map timeout ts) \<and>
    mset ts + mset (due (tick m + 1) (timers m)) =
      mset (timers m) + replicate_mset (length (task_timers (due (tick m + 1) (timers m))))
        \<lparr>timeout = tick m + 3, timer_val = kTaskTimerValue, timer_task = 1\<rparr> \<and>
    (\<forall>i. map_option msgs (get_task tm' i) =
      map_option (\<lambda>q. q @ due_messages (due (tick m + 1) (timers m)) i) (map_option msgs (get_task tm i)))"
  by (rule Tick_cases [OF assms refl])

theorem Tick_fires_due_witness:
  "\<exists>ts tm'. Tick (AddTimer \<lparr>timeout = 1, timer_val = 5, timer_task = 1\<rparr> TimerManager_new) boot_manager =
     Some ((\<lparr>tick = 1, timers = ts\<rparr>, tm'), False) \<and>
     map_option msgs (get_task tm' 1) = Some [timer_message \<lparr>timeout = 1, timer_val = 5, timer_task = 1\<rparr>]"
proof -
  define mm where "mm = AddTimer \<lparr>timeout = 1, timer_val = 5, timer_task = 1\<rparr> TimerManager_new"
  have m: "timers mm = [\<lparr>timeout = 1, timer_val = 5, timer_task = 1\<rparr>, \<lparr>timeout = - 1, timer_val = 0, timer_task = 0\<rparr>]"
    "tick mm = 0" "mm\<lparr>tick := x, timers := y\<rparr> = \<lparr>tick = x, timers = y\<rparr>" for x y
    by (simp_all add: mm_def AddTimer_def TimerManager_new_def sentinel_late)
  have d: "due (tick mm + 1) (timers mm) = [\<lparr>timeout = 1, timer_val = 5, timer_task = 1\<rparr>]"
    by (simp add: due_def m sentinel_late)
  have b: "map_option msgs (get_task boot_manager 1) = Some []"
    by (simp add: TaskManager_new_def NewTask_def Let_def empty_manager_def get_task_def upd_task_def
        set_queue_def InitContext_def Task_new_def)
  have s: "sorted (map timeout (timers mm))" "\<exists>t \<in> set (timers mm). tick mm + 1 < timeout t"
    "tick mm + 1 < tick mm + 3"
    by (simp_all add: sentinel_late m)
  let ?d = "[\<lparr>timeout = 1, timer_val = 5, timer_task = 1\<rparr>]"
  have e: "task_timers ?d = []" "due_messages ?d 1 = [timer_message \<lparr>timeout = 1, timer_val = 5, timer_task = 1\<rparr>]"
    by (simp_all add: task_timers_def due_messages_def kTaskTimerValue_def)
  from Tick_fires_due [OF tm_inv_new [of "0x1000" "0x2000" zero_context] s] obtain ts tm' where
    "Tick mm boot_manager = Some ((mm\<lparr>tick := tick mm + 1, timers := ts\<rparr>, tm'), task_timers ?d \<noteq> [])"
    "map_option msgs (get_task tm' 1) = map_option (\<lambda>q. q @ due_messages ?d 1) (map_option msgs (get_task boot_manager 1))"
    unfolding d by blast
  then show ?thesis unfolding mm_def [symmetric] b e m by (intro exI [of _ ts] exI [of _ tm']) simp
qed



end
