(* ===== verification/Descriptors.thy ===== *)
theory Descriptors
  imports Memory_Manager
begin

text \<open>
  Segment and interrupt descriptors: \<open>kernel/x86_descriptor.hpp\<close>, \<open>kernel/segment.hpp\<close>,
  \<open>kernel/segment.cpp\<close> and the descriptor tables of \<open>kernel/interrupt.hpp\<close> and
  \<open>kernel/interrupt.cpp\<close>.  The packed bit fields are bit ranges of the descriptor's word.
\<close>

section \<open>Segment descriptors\<close>

definition kUpper8Bytes :: u64 where "kUpper8Bytes = 0"
definition kLDT :: u64 where "kLDT = 2"
definition kTSSAvailable :: u64 where "kTSSAvailable = 9"
definition kTSSBusy :: u64 where "kTSSBusy = 11"
definition kCallGate :: u64 where "kCallGate = 12"
definition kInterruptGate :: u64 where "kInterruptGate = 14"
definition kTrapGate :: u64 where "kTrapGate = 15"
definition kReadWrite :: u64 where "kReadWrite = 2"
definition kExecuteRead :: u64 where "kExecuteRead = 10"

definition limit_low :: "u64 \<Rightarrow> u64" where "limit_low = get_bits 0 16"
definition base_low :: "u64 \<Rightarrow> u64" where "base_low = get_bits 16 16"
definition base_middle :: "u64 \<Rightarrow> u64" where "base_middle = get_bits 32 8"
definition seg_type :: "u64 \<Rightarrow> u64" where "seg_type = get_bits 40 4"
definition system_segment :: "u64 \<Rightarrow> u64" where "system_segment = get_bits 44 1"
definition seg_dpl :: "u64 \<Rightarrow> u64" where "seg_dpl = get_bits 45 2"
definition seg_present :: "u64 \<Rightarrow> u64" where "seg_present = get_bits 47 1"
definition limit_high :: "u64 \<Rightarrow> u64" where "limit_high = get_bits 48 4"
definition long_mode :: "u64 \<Rightarrow> u64" where "long_mode = get_bits 53 1"
definition default_operation_size :: "u64 \<Rightarrow> u64" where "default_operation_size = get_bits 54 1"
definition granularity :: "u64 \<Rightarrow> u64" where "granularity = get_bits 55 1"
definition base_high :: "u64 \<Rightarrow> u64" where "base_high = get_bits 56 8"

definition SetCodeSegment :: "u64 \<Rightarrow> u64 \<Rightarrow> u32 \<Rightarrow> u32 \<Rightarrow> u64" where
  "SetCodeSegment type dpl base limit =
    (let d1 = put_bits 16 16 (ucast (base AND 0xffff)) 0;
         d2 = put_bits 32 8 (ucast (drop_bit 16 base AND 0xff)) d1;
         d3 = put_bits 56 8 (ucast (drop_bit 24 base AND 0xff)) d2;
         d4 = put_bits 0 16 (ucast (limit AND 0xffff)) d3;
         d5 = put_bits 48 4 (ucast (drop_bit 16 limit AND 0xf)) d4;
         d6 = put_bits 40 4 type d5;
         d7 = put_bits 44 1 1 d6;
         d8 = put_bits 45 2 dpl d7;
         d9 = put_bits 47 1 1 d8;
         d10 = put_bits 52 1 0 d9;
         d11 = put_bits 53 1 1 d10;
         d12 = put_bits 54 1 0 d11
     in put_bits 55 1 1 d12)"

definition SetDataSegment :: "u64 \<Rightarrow> u64 \<Rightarrow> u32 \<Rightarrow> u32 \<Rightarrow> u64" where
  "SetDataSegment type dpl base limit =
    put_bits 54 1 1 (put_bits 53 1 0 (SetCodeSegment type dpl base limit))"

definition SetSystemSegment :: "u64 \<Rightarrow> u64 \<Rightarrow> u32 \<Rightarrow> u32 \<Rightarrow> u64" where
  "SetSystemSegment type dpl base limit =
    put_bits 53 1 0 (put_bits 44 1 0 (SetCodeSegment type dpl base limit))"

definition kKernelDS :: u64 where "kKernelDS = 0"
definition kTSS :: u64 where "kTSS = push_bit 3 5"

text \<open>The GDT has seven entries, the TSS 26 words of 32 bits.\<close>

record segment_tables =
  gdt :: "u64 list"
  tss :: "u32 list"
  seg_frames :: BitmapMemoryManager

definition SetupSegments :: "segment_tables \<Rightarrow> segment_tables" where
  "SetupSegments s = s\<lparr>gdt := (gdt s)
     [0 := 0,
      1 := SetCodeSegment kExecuteRead 0 0 0xfffff,
      2 := SetDataSegment kReadWrite 0 0 0xfffff,
      3 := SetDataSegment kReadWrite 3 0 0xfffff,
      4 := SetCodeSegment kExecuteRead 3 0 0xfffff]\<rparr>"

text \<open>\<open>None\<close>: an index outside the TSS, or the kernel's \<open>exit\<close> when no stack can be allocated.\<close>

definition SetTSS :: "nat \<Rightarrow> u64 \<Rightarrow> segment_tables \<Rightarrow> segment_tables option" where
  "SetTSS index v s =
    (if index + 1 < length (tss s)
     then Some (s\<lparr>tss := (tss s)[index := ucast (v AND 0xffffffff), index + 1 := ucast (drop_bit 32 v)]\<rparr>)
     else None)"

definition AllocateStackArea :: "nat \<Rightarrow> segment_tables \<Rightarrow> (segment_tables \<times> u64) option" where
  "AllocateStackArea num_4kframes s =
    (case Allocate (seg_frames s) num_4kframes of
       Some (m, Inr stk) \<Rightarrow> Some (s\<lparr>seg_frames := m\<rparr>, Frame stk + of_nat (num_4kframes * 4096))
     | _ \<Rightarrow> None)"

definition kISTForTimer :: nat where "kISTForTimer = 1"

text \<open>\<open>tss_addr\<close> is the address of the TSS.\<close>

definition InitializeTSS :: "u64 \<Rightarrow> segment_tables \<Rightarrow> segment_tables option" where
  "InitializeTSS tss_addr s =
    do {
      (s1, stack0) \<leftarrow> AllocateStackArea 8 s;
      s2 \<leftarrow> SetTSS 1 stack0 s1;
      (s3, stack1) \<leftarrow> AllocateStackArea 8 s2;
      s4 \<leftarrow> SetTSS (7 + 2 * kISTForTimer) stack1 s3;
      Some (s4\<lparr>gdt := (gdt s4)
        [5 := SetSystemSegment kTSSAvailable 0 (ucast (tss_addr AND 0xffffffff)) (4 * 26 - 1),
         6 := drop_bit 32 tss_addr]\<rparr>)
    }"

section \<open>Interrupt descriptors\<close>

record InterruptDescriptor =
  offset_low :: u16
  segment_selector :: u16
  idt_attr :: u16
  offset_middle :: u16
  offset_high :: u32
  idt_reserved :: u32

definition MakeIDTAttr :: "u16 \<Rightarrow> u16 \<Rightarrow> bool \<Rightarrow> u16 \<Rightarrow> u16" where
  "MakeIDTAttr type descriptor_privilege_level present interrupt_stack_table =
    (let a1 = put_bits 0 3 interrupt_stack_table 0;
         a2 = put_bits 8 4 type a1;
         a3 = put_bits 13 2 descriptor_privilege_level a2
     in put_bits 15 1 (of_bool present) a3)"

definition SetIDTEntry :: "InterruptDescriptor \<Rightarrow> u16 \<Rightarrow> u64 \<Rightarrow> u16 \<Rightarrow> InterruptDescriptor" where
  "SetIDTEntry desc at offset selector =
    desc\<lparr>idt_attr := at, offset_low := ucast (offset AND 0xffff),
         offset_middle := ucast (drop_bit 16 offset AND 0xffff),
         offset_high := ucast (drop_bit 32 offset), segment_selector := selector\<rparr>"

definition kXHCI :: nat where "kXHCI = 0x40"
definition kTimerVector :: nat where "kTimerVector = 0x41"

definition exception_vectors :: "nat list" where
  "exception_vectors = [0, 1, 3, 4, 5, 6, 7, 8, 10, 11, 12, 13, 14, 16, 17, 18, 19, 20]"

definition set_idt_entry :: "(nat \<Rightarrow> u64) \<Rightarrow> nat \<Rightarrow> InterruptDescriptor list \<Rightarrow> InterruptDescriptor list" where
  "set_idt_entry handler irq idt =
    idt[irq := SetIDTEntry (idt ! irq) (MakeIDTAttr 14 0 True 0) (handler irq) 8]"

text \<open>\<open>handler\<close> gives the address of the handler for a vector, the table has 256 entries.\<close>

definition InitializeInterrupt :: "(nat \<Rightarrow> u64) \<Rightarrow> InterruptDescriptor list \<Rightarrow> InterruptDescriptor list" where
  "InitializeInterrupt handler idt =
    (let idt1 = set_idt_entry handler kXHCI idt;
         idt2 = idt1[kTimerVector := SetIDTEntry (idt1 ! kTimerVector)
                  (MakeIDTAttr 14 0 True (of_nat kISTForTimer)) (handler kTimerVector) 8]
     in fold (set_idt_entry handler) exception_vectors idt2)"

section \<open>Correctness\<close>

text \<open>What the processor reads out of a descriptor.\<close>

definition segment_base :: "u64 \<Rightarrow> u32" where
  "segment_base d = ucast (base_low d) OR push_bit 16 (ucast (base_middle d)) OR push_bit 24 (ucast (base_high d))"

definition segment_limit :: "u64 \<Rightarrow> u32" where
  "segment_limit d = ucast (limit_low d) OR push_bit 16 (ucast (limit_high d))"

definition idt_offset :: "InterruptDescriptor \<Rightarrow> u64" where
  "idt_offset d = ucast (offset_low d) OR push_bit 16 (ucast (offset_middle d)) OR push_bit 32 (ucast (offset_high d))"

definition describes :: "u64 \<Rightarrow> u32 \<Rightarrow> u32 \<Rightarrow> u64 \<Rightarrow> u64 \<Rightarrow> u64 \<Rightarrow> bool" where
  "describes d base limit ty dpl sys \<longleftrightarrow>
     segment_base d = base \<and> segment_limit d = take_bit 20 limit \<and> seg_type d = take_bit 4 ty \<and>
     seg_dpl d = take_bit 2 dpl \<and> seg_present d = 1 \<and> granularity d = 1 \<and> system_segment d = sys"

definition tss_word :: "segment_tables \<Rightarrow> nat \<Rightarrow> u64" where
  "tss_word s i = ucast (tss s ! i) OR push_bit 32 (ucast (tss s ! (i + 1)))"

lemmas seg_fields = limit_low_def base_low_def base_middle_def seg_type_def system_segment_def seg_dpl_def
  seg_present_def limit_high_def long_mode_def default_operation_size_def granularity_def base_high_def

lemma SetCodeSegment_fields:
  "seg_type (SetCodeSegment ty dpl base limit) = take_bit 4 ty"
  "system_segment (SetCodeSegment ty dpl base limit) = 1"
  "seg_dpl (SetCodeSegment ty dpl base limit) = take_bit 2 dpl"
  "seg_present (SetCodeSegment ty dpl base limit) = 1"
  "long_mode (SetCodeSegment ty dpl base limit) = 1"
  "default_operation_size (SetCodeSegment ty dpl base limit) = 0"
  "granularity (SetCodeSegment ty dpl base limit) = 1"
  "base_low (SetCodeSegment ty dpl base limit) = take_bit 16 (ucast (base AND 0xffff))"
  "base_middle (SetCodeSegment ty dpl base limit) = take_bit 8 (ucast (drop_bit 16 base AND 0xff))"
  "base_high (SetCodeSegment ty dpl base limit) = take_bit 8 (ucast (drop_bit 24 base AND 0xff))"
  "limit_low (SetCodeSegment ty dpl base limit) = take_bit 16 (ucast (limit AND 0xffff))"
  "limit_high (SetCodeSegment ty dpl base limit) = take_bit 4 (ucast (drop_bit 16 limit AND 0xf))"
  by (simp_all add: SetCodeSegment_def seg_fields Let_def)

lemma and_masks:
  "w AND 0xffff = take_bit 16 w" "w AND 0xff = take_bit 8 w" "w AND 0xf = take_bit 4 w"
  "w AND 0xffffffff = take_bit 32 w"
  for w :: "'a::len word"
  by (simp_all add: take_bit_eq_mask mask_numeral)

lemma segment_base_code: "segment_base (SetCodeSegment ty dpl base limit) = base"
proof (rule bit_eqI)
  fix n
  show "bit (segment_base (SetCodeSegment ty dpl base limit)) n = bit base n"
    unfolding segment_base_def SetCodeSegment_fields
    by (cases "n < 24") (auto simp: and_masks bit_simps dest: bit_imp_le_length)
qed

lemma segment_limit_code: "segment_limit (SetCodeSegment ty dpl base limit) = take_bit 20 limit"
  unfolding segment_limit_def SetCodeSegment_fields
  by (rule bit_eqI) (auto simp: and_masks bit_simps)

lemma field_put_bits [simplified, simp]:
  "lo = 44 \<or> lo = 53 \<or> lo = 54 \<Longrightarrow> segment_base (put_bits lo 1 v d) = segment_base d"
  "lo = 44 \<or> lo = 53 \<or> lo = 54 \<Longrightarrow> segment_limit (put_bits lo 1 v d) = segment_limit d"
  by (auto simp: segment_base_def segment_limit_def seg_fields)

lemma idt_offset_set: "idt_offset (SetIDTEntry d at off sel) = off"
proof (rule bit_eqI)
  fix n
  show "bit (idt_offset (SetIDTEntry d at off sel)) n = bit off n"
    unfolding idt_offset_def SetIDTEntry_def
    by (cases "n < 32") (auto simp: and_masks bit_simps dest: bit_imp_le_length)
qed

lemma length_set_idt [simp]: "length (set_idt_entry h irq idt) = length idt"
  by (simp add: set_idt_entry_def)

lemma set_idt_nth:
  "irq < length idt \<Longrightarrow> set_idt_entry h irq idt ! j =
     (if j = irq then SetIDTEntry (idt ! irq) (MakeIDTAttr 14 0 True 0) (h irq) 8 else idt ! j)"
  by (simp add: set_idt_entry_def)

lemma length_fold_idt [simp]: "length (fold (set_idt_entry h) vs idt) = length idt"
  by (induction vs arbitrary: idt) auto

lemma fold_set_idt:
  "distinct vs \<Longrightarrow> \<forall>v \<in> set vs. v < length idt \<Longrightarrow> fold (set_idt_entry h) vs idt ! j =
     (if j \<in> set vs then SetIDTEntry (idt ! j) (MakeIDTAttr 14 0 True 0) (h j) 8 else idt ! j)"
  by (induction vs arbitrary: idt) (auto simp: set_idt_nth)

lemma segment_describes:
  "describes (SetCodeSegment ty dpl base limit) base limit ty dpl 1"
  "describes (SetDataSegment ty dpl base limit) base limit ty dpl 1"
  unfolding describes_def SetDataSegment_def using SetCodeSegment_fields [of ty dpl base limit]
  by (simp_all add: segment_base_code segment_limit_code seg_fields)

lemma system_segment_describes: "describes (SetSystemSegment ty dpl base limit) base limit ty dpl 0"
  unfolding describes_def SetSystemSegment_def using SetCodeSegment_fields [of ty dpl base limit]
  by (simp add: segment_base_code segment_limit_code seg_fields)

section \<open>Properties\<close>

text \<open>
  The descriptors \<open>SetCodeSegment\<close>, \<open>SetDataSegment\<close> and \<open>SetSystemSegment\<close> build decode to the base
  address, the low 20 bits of the limit, the type and the privilege level they were given; the
  first is a 64-bit code segment, the second a 32-bit data segment and the third a system segment.
\<close>

lemma segment_descriptors_decode:
  "describes (SetCodeSegment ty dpl base limit) base limit ty dpl 1 \<and>
   describes (SetDataSegment ty dpl base limit) base limit ty dpl 1 \<and>
   describes (SetSystemSegment ty dpl base limit) base limit ty dpl 0 \<and>
   long_mode (SetCodeSegment ty dpl base limit) = 1 \<and>
   default_operation_size (SetCodeSegment ty dpl base limit) = 0 \<and>
   long_mode (SetDataSegment ty dpl base limit) = 0 \<and>
   default_operation_size (SetDataSegment ty dpl base limit) = 1 \<and>
   long_mode (SetSystemSegment ty dpl base limit) = 0"
  using segment_describes system_segment_describes SetCodeSegment_fields [of ty dpl base limit]
  by (simp add: SetDataSegment_def SetSystemSegment_def seg_fields)

text \<open>
  After \<open>InitializeTSS\<close> the stack pointers for privilege level 0 and for the timer's interrupt
  stack point to the ends of two disjoint areas of eight frames that were free before, and
  entries 5 and 6 of the GDT describe the TSS at its 64-bit address.
\<close>

lemma InitializeTSS_stacks:
  assumes "range_end (seg_frames s) \<le> kFrameCount" "length (tss s) = 26" "length (gdt s) = 7"
    and "InitializeTSS tss_addr s = Some s'"
  shows "\<exists>f g. tss_word s' 1 = Frame f + 8 * 4096 \<and> tss_word s' 9 = Frame g + 8 * 4096 \<and>
    {f..<f + 8} \<inter> {g..<g + 8} = {} \<and> {f..<f + 8} \<inter> allocated (seg_frames s) = {} \<and>
    {g..<g + 8} \<inter> allocated (seg_frames s) = {} \<and>
    allocated (seg_frames s') = allocated (seg_frames s) \<union> {f..<f + 8} \<union> {g..<g + 8} \<and>
    describes (gdt s' ! 5) (ucast tss_addr) 103 kTSSAvailable 0 0 \<and>
    gdt s' ! 6 = drop_bit 32 tss_addr"
proof -
  let ?k = "of_nat (8 * 4096) :: u64"
  obtain s1 st0 s2 s3 st1 s4 where st:
    "AllocateStackArea 8 s = Some (s1, st0)" "SetTSS 1 st0 s1 = Some s2" "AllocateStackArea 8 s2 = Some (s3, st1)"
    "SetTSS 9 st1 s3 = Some s4"
    "s' = s4\<lparr>gdt := (gdt s4)[5 := SetSystemSegment kTSSAvailable 0 (ucast (tss_addr AND 0xffffffff)) (4 * 26 - 1),
         6 := drop_bit 32 tss_addr]\<rparr>"
    using assms(4) by (auto simp: InitializeTSS_def kISTForTimer_def bind_eq_Some)
  from st(1) obtain m1 f where f: "Allocate (seg_frames s) 8 = Some (m1, Inr f)" "s1 = s\<lparr>seg_frames := m1\<rparr>" "st0 = Frame f + ?k"
    by (auto simp: AllocateStackArea_def split: option.splits sum.splits)
  from st(3) obtain m2 g where g: "Allocate (seg_frames s2) 8 = Some (m2, Inr g)" "s3 = s2\<lparr>seg_frames := m2\<rparr>" "st1 = Frame g + ?k"
    by (auto simp: AllocateStackArea_def split: option.splits sum.splits)
  have s2: "s2 = s1\<lparr>tss := (tss s1)[1 := ucast (st0 AND 0xffffffff), 2 := ucast (drop_bit 32 st0)]\<rparr>"
    using st(2) f(2) assms(2) by (simp add: SetTSS_def numeral_2_eq_2)
  have s4: "s4 = s3\<lparr>tss := (tss s3)[9 := ucast (st1 AND 0xffffffff), 10 := ucast (drop_bit 32 st1)]\<rparr>"
    using st(4) f(2) g(2) s2 assms(2) by (simp add: SetTSS_def)
  have a1: "fits (seg_frames s) f 8" "allocated m1 = allocated (seg_frames s) \<union> {f..<f + 8}"
    "range_end m1 = range_end (seg_frames s)"
    using Allocate_cases [OF assms(1), of 8] f(1) by auto
  have m1: "seg_frames s2 = m1" using f(2) s2 by simp
  have a2: "fits m1 g 8" "allocated m2 = allocated m1 \<union> {g..<g + 8}"
    using Allocate_cases [of m1 8] a1(3) assms(1) g(1) m1 by auto
  have free: "{x..<x + 8} \<inter> allocated m = {}" if "fits m x 8" for m x
    using that unfolding fits_def by auto
  have word: "ucast (ucast (w AND 0xffffffff) :: u32) OR push_bit 32 (ucast (ucast (drop_bit 32 w) :: u32)) = w" for w :: u64
    by (rule bit_eqI) (auto simp: and_masks bit_simps)
  have tss: "tss s' ! 1 = ucast (st0 AND 0xffffffff)" "tss s' ! 2 = ucast (drop_bit 32 st0)"
    "tss s' ! 9 = ucast (st1 AND 0xffffffff)" "tss s' ! 10 = ucast (drop_bit 32 st1)"
    using st(5) s4 g(2) s2 f(2) assms(2) by simp_all
  have "tss_word s' 1 = Frame f + ?k" "tss_word s' 9 = Frame g + ?k"
    using tss f(3) g(3) word by (simp_all add: tss_word_def numeral_2_eq_2)
  moreover have "allocated (seg_frames s') = allocated (seg_frames s) \<union> {f..<f + 8} \<union> {g..<g + 8}"
    using st(5) s4 g(2) a1(2) a2(2) by simp
  moreover have "{f..<f + 8} \<inter> {g..<g + 8} = {}" "{g..<g + 8} \<inter> allocated (seg_frames s) = {}"
    using free [OF a2(1)] unfolding a1(2) by blast+
  moreover have len: "length (gdt s4) = 7" using s4 g(2) s2 f(2) assms(3) by simp
  have low: "ucast (tss_addr AND 0xffffffff) = (ucast tss_addr :: u32)"
    by (rule bit_eqI) (auto simp: and_masks bit_simps)
  have "gdt s' ! 5 = SetSystemSegment kTSSAvailable 0 (ucast tss_addr) 103" "gdt s' ! 6 = drop_bit 32 tss_addr"
    using st(5) len low by simp_all
  moreover have "describes (SetSystemSegment kTSSAvailable 0 (ucast tss_addr) 103) (ucast tss_addr) 103 kTSSAvailable 0 0"
    by (rule system_segment_describes)
  ultimately show ?thesis using free [OF a1(1)] by (intro exI [of _ f] exI [of _ g]) simp
qed

lemma Allocate_stack:
  assumes "range_end m \<le> kFrameCount" "fits m t 8"
  shows "\<exists>m' f. Allocate m 8 = Some (m', Inr f) \<and> f \<le> t \<and> allocated m' = allocated m \<union> {f..<f + 8} \<and>
    range_begin m' = range_begin m \<and> range_end m' = range_end m"
proof -
  from Allocate_cases [OF assms(1), of 8] obtain m' r where
    r: "Allocate m 8 = Some (m', r)"
    "case r of Inr t \<Rightarrow> fits m t 8 \<and> (\<forall>t'<t. \<not> fits m t' 8) \<and> allocated m' = allocated m \<union> {t..<t + 8} \<and>
        range_begin m' = range_begin m \<and> range_end m' = range_end m
     | Inl e \<Rightarrow> e = kNoEnoughMemory \<and> m' = m \<and> (\<forall>t. \<not> fits m t 8)" by auto
  with assms(2) show ?thesis by (cases r) (auto simp: not_less [symmetric])
qed

lemma InitializeTSS_stacks_witness:
  "\<exists>s' f. InitializeTSS 0x1000 \<lparr>gdt = replicate 7 0, tss = replicate 26 0, seg_frames = BitmapMemoryManager_new\<rparr> = Some s' \<and>
     tss_word s' 1 = Frame f + 8 * 4096"
proof -
  let ?s = "\<lparr>gdt = replicate 7 0, tss = replicate 26 0, seg_frames = BitmapMemoryManager_new\<rparr>"
  let ?m = BitmapMemoryManager_new
  have none: "allocated ?m = {}" "range_begin ?m = 0" "range_end ?m = kFrameCount" "16 \<le> kFrameCount"
    by (auto simp: allocated_def frame_bit_def BitmapMemoryManager_new_def frame_consts)
  have "fits ?m 0 8" using none by (simp add: fits_def)
  then obtain m1 f where m1: "Allocate ?m 8 = Some (m1, Inr f)" "f \<le> 0" "allocated m1 = {f..<f + 8}"
    "range_begin m1 = 0" "range_end m1 = kFrameCount"
    using Allocate_stack [of ?m 0] none by auto
  have "fits m1 8 8" using m1 none by (simp add: fits_def)
  then obtain m2 g where m2: "Allocate m1 8 = Some (m2, Inr g)" using Allocate_stack [of m1 8] m1 by auto
  have "\<exists>s'. InitializeTSS 0x1000 ?s = Some s'"
    using m1(1) m2 by (simp add: InitializeTSS_def AllocateStackArea_def SetTSS_def kISTForTimer_def)
  then obtain s' where s': "InitializeTSS 0x1000 ?s = Some s'" by blast
  with InitializeTSS_stacks [OF _ _ _ s'] none show ?thesis by auto
qed

text \<open>
  \<open>InitializeInterrupt\<close> makes every exception vector, the xHCI vector and the timer vector a
  present interrupt gate of the kernel's code segment that leads to its handler; only the timer
  switches to the stack table entry 1.  No other entry of the table changes.
\<close>

lemma InitializeInterrupt_gates:
  assumes "length idt = 256"
  shows "(\<forall>v. v \<in> set exception_vectors \<or> v = kXHCI \<or> v = kTimerVector \<longrightarrow>
      (let d = InitializeInterrupt handler idt ! v in
       idt_offset d = handler v \<and> segment_selector d = 8 \<and> get_bits 8 4 (idt_attr d) = 14 \<and>
       get_bits 13 2 (idt_attr d) = 0 \<and> get_bits 15 1 (idt_attr d) = 1 \<and>
       get_bits 0 3 (idt_attr d) = (if v = kTimerVector then 1 else 0))) \<and>
    (\<forall>v. v \<notin> set exception_vectors \<and> v \<noteq> kXHCI \<and> v \<noteq> kTimerVector \<longrightarrow>
      InitializeInterrupt handler idt ! v = idt ! v)"
proof -
  have attr: "get_bits 8 4 (MakeIDTAttr 14 0 True i) = 14" "get_bits 13 2 (MakeIDTAttr 14 0 True i) = 0"
    "get_bits 15 1 (MakeIDTAttr 14 0 True i) = 1" "get_bits 0 3 (MakeIDTAttr 14 0 True i) = take_bit 3 i" for i
    by (simp_all add: MakeIDTAttr_def Let_def)
  have d: "distinct exception_vectors" "\<forall>v \<in> set exception_vectors. v < 256"
    by (simp_all add: exception_vectors_def)
  define idt1 where "idt1 = set_idt_entry handler kXHCI idt"
  define idt2 where "idt2 = idt1[kTimerVector := SetIDTEntry (idt1 ! kTimerVector)
                  (MakeIDTAttr 14 0 True (of_nat kISTForTimer)) (handler kTimerVector) 8]"
  have len: "length idt1 = 256" "length idt2 = 256" using assms by (simp_all add: idt1_def idt2_def)
  have res: "InitializeInterrupt handler idt ! v =
      (if v \<in> set exception_vectors then SetIDTEntry (idt2 ! v) (MakeIDTAttr 14 0 True 0) (handler v) 8 else idt2 ! v)" for v
    using fold_set_idt [of exception_vectors idt2 handler v] d len
    by (simp add: InitializeInterrupt_def Let_def idt1_def [symmetric] idt2_def [symmetric])
  have i1: "idt1 ! v = (if v = kXHCI then SetIDTEntry (idt ! v) (MakeIDTAttr 14 0 True 0) (handler v) 8 else idt ! v)" for v
    using assms by (simp add: idt1_def set_idt_nth kXHCI_def)
  have i2: "idt2 ! v = (if v = kTimerVector then SetIDTEntry (idt1 ! v) (MakeIDTAttr 14 0 True 1) (handler v) 8
      else idt1 ! v)" for v
    using len by (simp add: idt2_def kTimerVector_def kISTForTimer_def nth_list_update)
  have ne: "kXHCI \<notin> set exception_vectors" "kTimerVector \<notin> set exception_vectors" "kXHCI \<noteq> kTimerVector"
    by (simp_all add: exception_vectors_def kXHCI_def kTimerVector_def)
  have sel: "segment_selector (SetIDTEntry a b c e) = e" "idt_attr (SetIDTEntry a b c e) = b" for a b c e
    by (simp_all add: SetIDTEntry_def)
  show ?thesis
    unfolding Let_def res i2 i1 using ne attr by (auto simp: idt_offset_set sel)
qed

lemma InitializeInterrupt_gates_witness:
  "idt_offset (InitializeInterrupt of_nat (replicate 256
     \<lparr>offset_low = 0, segment_selector = 0, idt_attr = 0, offset_middle = 0, offset_high = 0, idt_reserved = 0\<rparr>) ! 14) = 14"
  using InitializeInterrupt_gates [of "replicate 256
     \<lparr>offset_low = 0, segment_selector = 0, idt_attr = 0, offset_middle = 0, offset_high = 0, idt_reserved = 0\<rparr>"
     of_nat, THEN conjunct1, THEN spec [of _ 14]]
  by (simp add: exception_vectors_def Let_def)

end
