(* ===== verification/Interrupts.thy ===== *)
theory Interrupts
  imports Paging_Correct Timers Descriptors
begin

text \<open>
  Page faults and interrupt handlers: \<open>HandlePageFault\<close> of \<open>kernel/paging.cpp\<close> and the handlers of
  \<open>kernel/interrupt.cpp\<close>.  What a handler prints is a list of labels and hexadecimal digits; where
  on the screen it is drawn is not part of the model.
\<close>

section \<open>Page faults\<close>

text \<open>
  \<open>load file len offset\<close> is \<open>Load\<close> of the descriptor the task's table refers to, \<open>xlat\<close> the
  processor's address translation.  A file number outside the table, or of a closed file, is \<open>None\<close>.
\<close>

definition HandlePageFault ::
  "translation \<Rightarrow> (nat \<Rightarrow> nat \<Rightarrow> u64 \<Rightarrow> u8 list option) \<Rightarrow> Task \<Rightarrow> paging_state \<Rightarrow> u64 \<Rightarrow> u64 \<Rightarrow>
     (paging_state \<times> ErrorCode) option" where
  "HandlePageFault xlat load task s error_code causal_addr =
    (let present = bit error_code 0; rw = bit error_code 1; user = bit error_code 2 in
     if present \<and> rw \<and> user then CopyOnePage xlat s causal_addr
     else if present then Some (s, kAlreadyAllocated)
     else if dpaging_begin task \<le> causal_addr \<and> causal_addr < dpaging_end task then
       SetupPageMaps s causal_addr 1 True
     else case FindFileMapping (file_maps task) causal_addr of
       Some m \<Rightarrow>
         if fm_fd m < length (files task) then
           case files task ! fm_fd m of
             None \<Rightarrow> None
           | Some file_ref \<Rightarrow> PreparePageCache xlat (load file_ref) s m causal_addr
         else None
     | None \<Rightarrow> Some (s, kIndexOutOfRange))"

section \<open>Handlers\<close>

record InterruptFrame =
  frame_rip :: u64
  frame_cs :: u64
  frame_rflags :: u64
  frame_rsp :: u64
  frame_ss :: u64

fun PrintHex :: "u64 \<Rightarrow> nat \<Rightarrow> u8 list" where
  "PrintHex v width = map (\<lambda>i.
     let x = get_bits (4 * (width - i - 1)) 4 v in
     if x \<ge> 10 then ucast x + (0x61 - 10) else ucast x + 0x30) [0..<width]"

definition PrintFrame :: "InterruptFrame \<Rightarrow> (string \<times> u8 list) list" where
  "PrintFrame frame =
    [(''CS'', PrintHex (frame_cs frame) 4), (''RIP'', PrintHex (frame_rip frame) 16),
     (''RFLAGS'', PrintHex (frame_rflags frame) 16), (''SS'', PrintHex (frame_ss frame) 4),
     (''RSP'', PrintHex (frame_rsp frame) 16)]"

text \<open>What a fault leads to: back to the program, the end of the application, or a halt.\<close>

datatype fault_outcome =
    Resume
  | ExitApp (exit_stack: u64) (exit_status: int)
  | Halt "(string \<times> u8 list) list"

definition SIGSEGV :: int where "SIGSEGV = 11"

text \<open>\<open>None\<close>: the fault was in the kernel and \<open>KillApp\<close> returns.\<close>

definition KillApp :: "Task \<Rightarrow> InterruptFrame \<Rightarrow> fault_outcome option" where
  "KillApp task frame =
    (if frame_cs frame AND 3 \<noteq> 3 then None else Some (ExitApp (os_stack_ptr task) (128 + SIGSEGV)))"

definition IntHandlerFault :: "Task \<Rightarrow> InterruptFrame \<Rightarrow> u64 option \<Rightarrow> fault_outcome" where
  "IntHandlerFault task frame error_code =
    (case KillApp task frame of
       Some r \<Rightarrow> r
     | None \<Rightarrow>
         Halt (PrintFrame frame @
           (case error_code of None \<Rightarrow> [] | Some e \<Rightarrow> [(''ERR'', PrintHex e 16)])))"

definition IntHandlerPF ::
  "translation \<Rightarrow> (nat \<Rightarrow> nat \<Rightarrow> u64 \<Rightarrow> u8 list option) \<Rightarrow> Task \<Rightarrow> u64 \<Rightarrow> InterruptFrame \<Rightarrow> u64 \<Rightarrow> paging_state \<Rightarrow>
     (paging_state \<times> fault_outcome) option" where
  "IntHandlerPF xlat load task cr2 frame error_code s =
    (case HandlePageFault xlat load task s error_code cr2 of
       None \<Rightarrow> None
     | Some (s', err) \<Rightarrow>
         Some (s', if err = kSuccess then Resume else IntHandlerFault task frame (Some error_code)))"

definition IntHandlerXHCI :: "TaskManager \<Rightarrow> TaskManager option" where
  "IntHandlerXHCI tm =
    map_option fst (SendMessage tm 1 \<lparr>msg_type = kInterruptXHCI, src_task = 0, arg = NoArg\<rparr>)"

section \<open>Demand paging\<close>

text \<open>
  Demand paging: on well-formed tables a fault of a user program on a missing page inside the
  task's demand-paging range is resolved by mapping that page, so the program resumes, unless
  memory is exhausted; then an application ends with status 139 and a kernel fault halts.
\<close>

lemma PageFault_demand_paging:
  assumes "pt_inv s R" "root \<in> R 4" "cr3 s = Frame root" "256 \<le> Part addr 4"
    and "\<not> bit error_code 0" "dpaging_begin task \<le> addr" "addr < dpaging_end task"
  shows "\<exists>s' R' r. IntHandlerPF xlat load task addr frame error_code s = Some (s', r) \<and>
    pt_inv s' R' \<and> grows s R s' R' \<and>
    (r = Resume \<and> (\<exists>q. walk (pmem s') (cr3 s') 4 addr = Some q) \<or>
     frame_cs frame AND 3 = 3 \<and> r = ExitApp (os_stack_ptr task) 139 \<or>
     frame_cs frame AND 3 \<noteq> 3 \<and> (\<exists>out. r = Halt out))"
proof -
  from SetupPageMaps_cases [OF assms(1-4), of 1 True] obtain s' e R' where
    p: "SetupPageMaps s addr 1 True = Some (s', e)" "pt_inv s' R'" "grows s R s' R'"
      "if e = kSuccess then \<forall>b. vpn 4 addr \<le> vpn 4 b \<and> vpn 4 b < vpn 4 addr + 1 \<longrightarrow>
            (\<exists>q. walk (pmem s') (cr3 s') 4 b = Some q) else e = kNoEnoughMemory" by blast
  have "HandlePageFault xlat load task s error_code addr = Some (s', e)"
    using p(1) assms(5-7) by (simp add: HandlePageFault_def)
  then show ?thesis
    using p by (intro exI [of _ s'] exI [of _ R']
        exI [of _ "if e = kSuccess then Resume else IntHandlerFault task frame (Some error_code)"])
      (auto simp: IntHandlerPF_def IntHandlerFault_def KillApp_def SIGSEGV_def)
qed

end
