(* ===== verification/Graphics.thy ===== *)
theory Graphics
  imports Kernel_Prelude
begin

text \<open>
  Colours, vectors, rectangles and the drawing routines over a pixel writer:
  \<open>kernel/graphics.hpp\<close>, \<open>kernel/graphics.cpp\<close> and \<open>kernel/frame_buffer_config.hpp\<close>.  The virtual
  method \<open>PixelWriter::Write\<close> is an argument \<open>wr\<close>, whose value \<open>None\<close> is an access outside the
  writer's memory.  Coordinates are integers: those of the program stay far below \<open>2^31\<close>.
\<close>

section \<open>Values\<close>

datatype PixelColor = PixelColor (color_r: u8) (color_g: u8) (color_b: u8)

definition ToColor :: "u32 \<Rightarrow> PixelColor" where
  "ToColor c = PixelColor (ucast (drop_bit 16 c AND 0xff)) (ucast (drop_bit 8 c AND 0xff)) (ucast (c AND 0xff))"

datatype Vector2D = Vec (vx: int) (vy: int)

instantiation Vector2D :: "{plus, minus, zero}"
begin

definition "a + b = Vec (vx a + vx b) (vy a + vy b)"
definition "a - b = Vec (vx a - vx b) (vy a - vy b)"
definition "0 = Vec 0 0"

instance ..

end

lemma Vec_simps [simp]:
  "Vec a b + Vec c d = Vec (a + c) (b + d)" "Vec a b - Vec c d = Vec (a - c) (b - d)"
  "vx (p + q) = vx p + vx q" "vy (p + q) = vy p + vy q" "vx (p - q) = vx p - vx q" "vy (p - q) = vy p - vy q"
  "vx 0 = 0" "vy 0 = 0"
  by (simp_all add: plus_Vector2D_def minus_Vector2D_def zero_Vector2D_def)

definition ElementMax :: "Vector2D \<Rightarrow> Vector2D \<Rightarrow> Vector2D" where
  "ElementMax lhs rhs = Vec (max (vx lhs) (vx rhs)) (max (vy lhs) (vy rhs))"

definition ElementMin :: "Vector2D \<Rightarrow> Vector2D \<Rightarrow> Vector2D" where
  "ElementMin lhs rhs = Vec (min (vx lhs) (vx rhs)) (min (vy lhs) (vy rhs))"

datatype Rectangle = Rect (rpos: Vector2D) (rsize: Vector2D)

definition rect_and :: "Rectangle \<Rightarrow> Rectangle \<Rightarrow> Rectangle" where
  "rect_and lhs rhs =
    (let lhs_end = rpos lhs + rsize lhs; rhs_end = rpos rhs + rsize rhs in
     if vx lhs_end < vx (rpos rhs) \<or> vy lhs_end < vy (rpos rhs) \<or>
        vx rhs_end < vx (rpos lhs) \<or> vy rhs_end < vy (rpos lhs)
     then Rect (Vec 0 0) (Vec 0 0)
     else let new_pos = ElementMax (rpos lhs) (rpos rhs) in
          Rect new_pos (ElementMin lhs_end rhs_end - new_pos))"

section \<open>Drawing\<close>

fun write_all :: "('s \<Rightarrow> Vector2D \<Rightarrow> PixelColor \<Rightarrow> 's option) \<Rightarrow> Vector2D list \<Rightarrow> PixelColor \<Rightarrow> 's \<Rightarrow> 's option" where
  "write_all wr [] c s = Some s"
| "write_all wr (p # ps) c s = (case wr s p c of None \<Rightarrow> None | Some s' \<Rightarrow> write_all wr ps c s')"

definition border_points :: "Vector2D \<Rightarrow> Vector2D \<Rightarrow> Vector2D list" where
  "border_points pos sz =
    concat (map (\<lambda>dx. [pos + Vec dx 0, pos + Vec dx (vy sz - 1)]) [0..vx sz - 1]) @
    concat (map (\<lambda>dy. [pos + Vec 0 dy, pos + Vec (vx sz - 1) dy]) [1..vy sz - 2])"

definition fill_points :: "Vector2D \<Rightarrow> Vector2D \<Rightarrow> Vector2D list" where
  "fill_points pos sz = concat (map (\<lambda>dy. map (\<lambda>dx. pos + Vec dx dy) [0..vx sz - 1]) [0..vy sz - 1])"

definition DrawRectangle ::
  "('s \<Rightarrow> Vector2D \<Rightarrow> PixelColor \<Rightarrow> 's option) \<Rightarrow> Vector2D \<Rightarrow> Vector2D \<Rightarrow> PixelColor \<Rightarrow> 's \<Rightarrow> 's option" where
  "DrawRectangle wr pos sz c = write_all wr (border_points pos sz) c"

definition FillRectangle ::
  "('s \<Rightarrow> Vector2D \<Rightarrow> PixelColor \<Rightarrow> 's option) \<Rightarrow> Vector2D \<Rightarrow> Vector2D \<Rightarrow> PixelColor \<Rightarrow> 's \<Rightarrow> 's option" where
  "FillRectangle wr pos sz c = write_all wr (fill_points pos sz) c"

definition kDesktopBGColor :: PixelColor where "kDesktopBGColor = PixelColor 20 20 20"
definition kDesktopFGColor :: PixelColor where "kDesktopFGColor = PixelColor 0 255 255"
definition kDesktopBtmRhtColor :: PixelColor where "kDesktopBtmRhtColor = PixelColor 50 50 50"
definition kDesktopBtmLftColor :: PixelColor where "kDesktopBtmLftColor = PixelColor 80 80 80"
definition windowFGColor :: u32 where "windowFGColor = 0x00ffff"
definition windowBGColor :: u32 where "windowBGColor = 0x323232"
definition terminalFGColor :: u32 where "terminalFGColor = 0x00ffff"
definition terminalBGColor :: u32 where "terminalBGColor = 0x000000"

definition DrawDesktop ::
  "('s \<Rightarrow> Vector2D \<Rightarrow> PixelColor \<Rightarrow> 's option) \<Rightarrow> int \<Rightarrow> int \<Rightarrow> 's \<Rightarrow> 's option" where
  "DrawDesktop wr width height s =
    do {
      s1 \<leftarrow> FillRectangle wr (Vec 0 0) (Vec width (height - 50)) kDesktopBGColor s;
      s2 \<leftarrow> FillRectangle wr (Vec 0 (height - 50)) (Vec width 50) kDesktopBtmRhtColor s1;
      s3 \<leftarrow> FillRectangle wr (Vec 0 (height - 50)) (Vec (width div 5) 50) kDesktopBtmLftColor s2;
      DrawRectangle wr (Vec 10 (height - 40)) (Vec 30 30) (PixelColor 160 160 160) s3
    }"

section \<open>The contract of a pixel writer\<close>

definition in_rect :: "Vector2D \<Rightarrow> Vector2D \<Rightarrow> Vector2D \<Rightarrow> bool" where
  "in_rect pos sz p \<longleftrightarrow> vx pos \<le> vx p \<and> vx p < vx pos + vx sz \<and> vy pos \<le> vy p \<and> vy p < vy pos + vy sz"

lemma Vec_eq: "p = pos + Vec dx dy \<longleftrightarrow> vx p = vx pos + dx \<and> vy p = vy pos + dy"
  by (cases p) (simp add: plus_Vector2D_def)

lemma ex_shift: "(\<exists>d \<in> {l..n}. (a::int) = b + d \<and> Q) \<longleftrightarrow> l \<le> a - b \<and> a - b \<le> n \<and> Q"
  by (auto intro: bexI [of _ "a - b"])

lemma in_fill_points:
  "p \<in> set (fill_points pos sz) \<longleftrightarrow> (\<exists>dy \<in> {0..vy sz - 1}. \<exists>dx \<in> {0..vx sz - 1}. p = pos + Vec dx dy)"
  by (auto simp: fill_points_def)

lemma set_fill_points: "set (fill_points pos sz) = {p. in_rect pos sz p}"
proof -
  have "p \<in> set (fill_points pos sz)" if "in_rect pos sz p" for p
    unfolding in_fill_points using that
    by (intro bexI [of _ "vy p - vy pos"] bexI [of _ "vx p - vx pos"]) (auto simp: Vec_eq in_rect_def)
  then show ?thesis by (auto simp: in_fill_points in_rect_def)
qed

lemma in_border_points:
  assumes "0 < vx sz" "0 < vy sz"
  shows "p \<in> set (border_points pos sz) \<longleftrightarrow> in_rect pos sz p \<and>
    (vx p = vx pos \<or> vx p = vx pos + vx sz - 1 \<or> vy p = vy pos \<or> vy p = vy pos + vy sz - 1)"
proof -
  have "p \<in> set (border_points pos sz) \<longleftrightarrow>
      (\<exists>dx \<in> {0..vx sz - 1}. vx p = vx pos + dx \<and> (vy p = vy pos \<or> vy p = vy pos + vy sz - 1)) \<or>
      (\<exists>dy \<in> {1..vy sz - 2}. vy p = vy pos + dy \<and> (vx p = vx pos \<or> vx p = vx pos + vx sz - 1))"
    by (auto simp: border_points_def Vec_eq)
  then show ?thesis using assms unfolding ex_shift in_rect_def by auto
qed

locale pixel_writer =
  fixes wr :: "'s \<Rightarrow> Vector2D \<Rightarrow> PixelColor \<Rightarrow> 's option"
    and inv :: "'s \<Rightarrow> bool"
    and inside :: "'s \<Rightarrow> Vector2D \<Rightarrow> bool"
    and pix :: "'s \<Rightarrow> Vector2D \<Rightarrow> PixelColor"
  assumes write_ok: "inv s \<Longrightarrow> inside s p \<Longrightarrow> \<exists>s'. wr s p c = Some s' \<and> inv s' \<and> inside s' = inside s \<and>
      (\<forall>q. inside s q \<longrightarrow> pix s' q = (if q = p then c else pix s q))"
begin

lemma write_all_spec:
  "inv s \<Longrightarrow> \<forall>p \<in> set ps. inside s p \<Longrightarrow> \<exists>s'. write_all wr ps c s = Some s' \<and> inv s' \<and> inside s' = inside s \<and>
     (\<forall>q. inside s q \<longrightarrow> pix s' q = (if q \<in> set ps then c else pix s q))"
proof (induction ps arbitrary: s)
  case (Cons p ps)
  obtain u where u: "wr s p c = Some u" "inv u" "inside u = inside s"
    "\<forall>q. inside s q \<longrightarrow> pix u q = (if q = p then c else pix s q)"
    using write_ok [of s p c] Cons.prems by auto
  from Cons.IH [OF u(2)] u(3) Cons.prems(2) obtain s' where
    "write_all wr ps c u = Some s'" "inv s'" "inside s' = inside s"
    "\<forall>q. inside s q \<longrightarrow> pix s' q = (if q \<in> set ps then c else pix u q)" by auto
  with u show ?case by auto
qed simp

lemma FillRectangle_spec:
  "inv s \<Longrightarrow> \<forall>p. in_rect pos sz p \<longrightarrow> inside s p \<Longrightarrow>
     \<exists>s'. FillRectangle wr pos sz c s = Some s' \<and> inv s' \<and> inside s' = inside s \<and>
     (\<forall>q. inside s q \<longrightarrow> pix s' q = (if in_rect pos sz q then c else pix s q))"
  using write_all_spec [of s "fill_points pos sz" c] by (auto simp: FillRectangle_def set_fill_points)

lemma DrawRectangle_spec:
  "inv s \<Longrightarrow> 0 < vx sz \<Longrightarrow> 0 < vy sz \<Longrightarrow> \<forall>p. in_rect pos sz p \<longrightarrow> inside s p \<Longrightarrow>
     \<exists>s'. DrawRectangle wr pos sz c s = Some s' \<and> inv s' \<and> inside s' = inside s \<and>
     (\<forall>q. inside s q \<longrightarrow> pix s' q =
       (if in_rect pos sz q \<and> (vx q = vx pos \<or> vx q = vx pos + vx sz - 1 \<or>
             vy q = vy pos \<or> vy q = vy pos + vy sz - 1) then c else pix s q))"
  using write_all_spec [of s "border_points pos sz" c] by (auto simp: DrawRectangle_def in_border_points)

end

section \<open>Rectangles\<close>

lemma in_rect_and:
  "in_rect (rpos (rect_and a b)) (rsize (rect_and a b)) p \<longleftrightarrow>
     in_rect (rpos a) (rsize a) p \<and> in_rect (rpos b) (rsize b) p"
  by (auto simp: rect_and_def in_rect_def Let_def ElementMax_def ElementMin_def)

end
