(* ===== verification/Frame_Buffers.thy ===== *)
theory Frame_Buffers
  imports Graphics
begin

text \<open>
  Frame buffers: \<open>kernel/frame_buffer_config.hpp\<close>, \<open>kernel/frame_buffer.hpp\<close>,
  \<open>kernel/frame_buffer.cpp\<close> and the two frame buffer writers of \<open>kernel/graphics.cpp\<close>.  The memory
  behind the pointer \<open>frame_buffer\<close> is a list of bytes, whether it is the device's or the buffer's
  own vector; offsets are computed in 32 bits as in the source, and an access outside the
  memory is \<open>None\<close>.
\<close>

section \<open>Definitions\<close>

text \<open>Pixel formats are the values of the C enumeration.\<close>

definition kPixelRGBResv8BitPerColor :: nat where "kPixelRGBResv8BitPerColor = 0"
definition kPixelBGRResv8BitPerColor :: nat where "kPixelBGRResv8BitPerColor = 1"

record FrameBufferConfig =
  pixels_per_scan_line :: u32
  horizontal_resolution :: u32
  vertical_resolution :: u32
  pixel_format :: nat

record FrameBuffer =
  fb_config :: FrameBufferConfig
  fb_mem :: "u8 list"

definition BytesPerPixel :: "nat \<Rightarrow> int" where
  "BytesPerPixel format =
    (if format = kPixelRGBResv8BitPerColor then 4
     else if format = kPixelBGRResv8BitPerColor then 4 else - 1)"

definition FrameAddrAt :: "Vector2D \<Rightarrow> FrameBufferConfig \<Rightarrow> nat" where
  "FrameAddrAt pos config =
    unat (of_int (BytesPerPixel (pixel_format config)) *
      (pixels_per_scan_line config * of_int (vy pos) + of_int (vx pos)) :: u32)"

definition BytesPerScanLine :: "FrameBufferConfig \<Rightarrow> nat" where
  "BytesPerScanLine config = unat (of_int (BytesPerPixel (pixel_format config)) * pixels_per_scan_line config :: u32)"

definition FrameBufferSize :: "FrameBufferConfig \<Rightarrow> Vector2D" where
  "FrameBufferSize config =
    Vec (sint (horizontal_resolution config)) (sint (vertical_resolution config))"

text \<open>\<open>mem\<close> is the memory at \<open>frame_buffer\<close>, \<open>None\<close> for a null pointer.\<close>

definition FrameBuffer_Initialize :: "FrameBufferConfig \<Rightarrow> u8 list option \<Rightarrow> FrameBuffer WithError" where
  "FrameBuffer_Initialize config mem =
    (if BytesPerPixel (pixel_format config) \<le> 0 then Inl kUnknownPixelFormat
     else case mem of
       Some m \<Rightarrow> Inr \<lparr>fb_config = config, fb_mem = m\<rparr>
     | None \<Rightarrow>
         Inr \<lparr>fb_config = config\<lparr>pixels_per_scan_line := horizontal_resolution config\<rparr>,
              fb_mem = replicate (unat (of_int (BytesPerPixel (pixel_format config)) *
                 horizontal_resolution config * vertical_resolution config :: u32)) 0\<rparr>)"

definition PixelAt :: "FrameBufferConfig \<Rightarrow> Vector2D \<Rightarrow> nat" where
  "PixelAt config pos =
    unat (4 * (pixels_per_scan_line config * of_int (vy pos) + of_int (vx pos)) :: u32)"

text \<open>The two writers; there is none for another format.\<close>

definition WritePixel :: "FrameBuffer \<Rightarrow> Vector2D \<Rightarrow> PixelColor \<Rightarrow> FrameBuffer option" where
  "WritePixel fb pos c =
    (let p = PixelAt (fb_config fb) pos;
         bytes = (if pixel_format (fb_config fb) = kPixelRGBResv8BitPerColor
                  then [color_r c, color_g c, color_b c] else [color_b c, color_g c, color_r c])
     in if pixel_format (fb_config fb) \<le> 1 \<and> p + 3 \<le> length (fb_mem fb)
        then Some (fb\<lparr>fb_mem := (fb_mem fb)[p := bytes ! 0, p + 1 := bytes ! 1, p + 2 := bytes ! 2]\<rparr>)
        else None)"

definition copy_row :: "nat \<Rightarrow> nat \<Rightarrow> nat \<Rightarrow> u8 list \<Rightarrow> u8 list \<Rightarrow> u8 list option" where
  "copy_row d s n src dst =
    (if n = 0 then Some dst
     else if d + n \<le> length dst \<and> s + n \<le> length src
     then Some (take d dst @ take n (drop s src) @ drop (d + n) dst) else None)"

fun copy_rows :: "nat \<Rightarrow> nat \<Rightarrow> nat \<Rightarrow> nat \<Rightarrow> nat \<Rightarrow> nat \<Rightarrow> u8 list \<Rightarrow> u8 list \<Rightarrow> u8 list option" where
  "copy_rows d s n dline sline 0 src dst = Some dst"
| "copy_rows d s n dline sline (Suc h) src dst =
    (case copy_row d s n src dst of
       None \<Rightarrow> None
     | Some dst' \<Rightarrow> copy_rows (d + dline) (s + sline) n dline sline h src dst')"

text \<open>A negative width would be a huge length for \<open>memcpy\<close>.\<close>

definition Copy :: "FrameBuffer \<Rightarrow> Vector2D \<Rightarrow> FrameBuffer \<Rightarrow> Rectangle \<Rightarrow> (FrameBuffer \<times> ErrorCode) option" where
  "Copy fb dst_pos src src_area =
    (if pixel_format (fb_config fb) \<noteq> pixel_format (fb_config src) then Some (fb, kUnknownPixelFormat)
     else let bytes_per_pixel = BytesPerPixel (pixel_format (fb_config fb)) in
       if bytes_per_pixel \<le> 0 then Some (fb, kUnknownPixelFormat)
       else
         let src_area_shifted = Rect dst_pos (rsize src_area);
             dst_outline = Rect (Vec 0 0) (FrameBufferSize (fb_config fb));
             copy_area = rect_and dst_outline src_area_shifted;
             src_start_pos = rpos copy_area - (dst_pos - rpos src_area)
         in if vy (rsize copy_area) \<le> 0 then Some (fb, kSuccess)
            else if vx (rsize copy_area) < 0 then None
            else map_option (\<lambda>m. (fb\<lparr>fb_mem := m\<rparr>, kSuccess))
              (copy_rows (FrameAddrAt (rpos copy_area) (fb_config fb))
                 (FrameAddrAt src_start_pos (fb_config src))
                 (nat (bytes_per_pixel * vx (rsize copy_area)))
                 (BytesPerScanLine (fb_config fb)) (BytesPerScanLine (fb_config src))
                 (nat (vy (rsize copy_area))) (fb_mem src) (fb_mem fb)))"

text \<open>
  \<open>Move\<close> copies within one buffer, row by row in the direction that keeps the source intact;
  rows that overlap are undefined for \<open>memcpy\<close>.
\<close>

fun move_rows :: "nat \<Rightarrow> nat \<Rightarrow> nat \<Rightarrow> int \<Rightarrow> nat \<Rightarrow> u8 list \<Rightarrow> u8 list option" where
  "move_rows d s n line 0 mem = Some mem"
| "move_rows d s n line (Suc h) mem =
    (if 0 < n \<and> d < s + n \<and> s < d + n then None
     else case copy_row d s n mem mem of
       None \<Rightarrow> None
     | Some mem' \<Rightarrow>
         if h = 0 then Some mem'
         else if int d + line < 0 \<or> int s + line < 0 then None
         else move_rows (nat (int d + line)) (nat (int s + line)) n line h mem')"

definition FrameBuffer_Move :: "FrameBuffer \<Rightarrow> Vector2D \<Rightarrow> Rectangle \<Rightarrow> FrameBuffer option" where
  "FrameBuffer_Move fb dst_pos src =
    (let config = fb_config fb;
         bytes_per_pixel = BytesPerPixel (pixel_format config);
         line = int (BytesPerScanLine config) in
     if vy (rsize src) \<le> 0 then Some fb
     else if bytes_per_pixel * vx (rsize src) < 0 then None
     else let n = nat (bytes_per_pixel * vx (rsize src)); h = nat (vy (rsize src)) in
       map_option (\<lambda>m. fb\<lparr>fb_mem := m\<rparr>)
         (if vy dst_pos < vy (rpos src)
          then move_rows (FrameAddrAt dst_pos config) (FrameAddrAt (rpos src) config) n line h (fb_mem fb)
          else move_rows (FrameAddrAt (dst_pos + Vec 0 (vy (rsize src) - 1)) config)
                 (FrameAddrAt (rpos src + Vec 0 (vy (rsize src) - 1)) config) n (- line) h (fb_mem fb)))"

definition ScreenSize :: "FrameBufferConfig \<Rightarrow> Vector2D" where
  "ScreenSize screen_config =
    Vec (sint (horizontal_resolution screen_config)) (sint (vertical_resolution screen_config))"

text \<open>\<open>InitializeGraphics\<close> leaves the kernel for an unknown format.\<close>

definition InitializeGraphics :: "FrameBufferConfig \<Rightarrow> u8 list \<Rightarrow> FrameBuffer option" where
  "InitializeGraphics config mem =
    (if pixel_format config = kPixelRGBResv8BitPerColor \<or> pixel_format config = kPixelBGRResv8BitPerColor
     then DrawDesktop WritePixel (sint (horizontal_resolution config)) (sint (vertical_resolution config))
       \<lparr>fb_config = config, fb_mem = mem\<rparr>
     else None)"

section \<open>Pixels\<close>

text \<open>The resolution fits the scan lines, the lines fit the memory, and offsets fit 31 bits.\<close>

definition wf_fb :: "FrameBuffer \<Rightarrow> bool" where
  "wf_fb fb \<longleftrightarrow>
    (let c = fb_config fb in
     pixel_format c \<le> 1 \<and> horizontal_resolution c \<le> pixels_per_scan_line c \<and>
     4 * (unat (pixels_per_scan_line c) * unat (vertical_resolution c)) \<le> length (fb_mem fb) \<and>
     unat (pixels_per_scan_line c) < 2 ^ 29 \<and> unat (vertical_resolution c) < 2 ^ 29 \<and>
     unat (pixels_per_scan_line c) * unat (vertical_resolution c) < 2 ^ 29)"

definition fb_inside :: "FrameBuffer \<Rightarrow> Vector2D \<Rightarrow> bool" where
  "fb_inside fb p \<longleftrightarrow> 0 \<le> vx p \<and> nat (vx p) < unat (horizontal_resolution (fb_config fb)) \<and>
     0 \<le> vy p \<and> nat (vy p) < unat (vertical_resolution (fb_config fb))"

definition pixel_offset :: "FrameBuffer \<Rightarrow> Vector2D \<Rightarrow> nat" where
  "pixel_offset fb p = 4 * (unat (pixels_per_scan_line (fb_config fb)) * nat (vy p) + nat (vx p))"

definition fb_pixel :: "FrameBuffer \<Rightarrow> Vector2D \<Rightarrow> PixelColor" where
  "fb_pixel fb p =
    (let o' = pixel_offset fb p; m = fb_mem fb in
     if pixel_format (fb_config fb) = kPixelRGBResv8BitPerColor
     then PixelColor (m ! o') (m ! (o' + 1)) (m ! (o' + 2))
     else PixelColor (m ! (o' + 2)) (m ! (o' + 1)) (m ! o'))"

lemma row_bound: "y < h \<Longrightarrow> x < w \<Longrightarrow> w \<le> p \<Longrightarrow> p * y + x < p * (h :: nat)"
proof -
  assume "y < h" "x < w" "w \<le> p"
  then have "p * y + x < p * Suc y" by simp
  also have "\<dots> \<le> p * h" using \<open>y < h\<close> by (intro mult_le_mono2) simp
  finally show ?thesis .
qed

lemma pixel_range:
  assumes "wf_fb fb" "fb_inside fb p"
  shows "pixel_offset fb p + 4 \<le> length (fb_mem fb)" "pixel_offset fb p < 2 ^ 31"
proof -
  let ?c = "fb_config fb"
  have "nat (vx p) < unat (horizontal_resolution ?c)" "nat (vy p) < unat (vertical_resolution ?c)"
    "unat (horizontal_resolution ?c) \<le> unat (pixels_per_scan_line ?c)"
    using assms by (auto simp: wf_fb_def fb_inside_def Let_def word_le_nat_alt)
  from row_bound [OF this(2) this(1) this(3)]
  have b: "unat (pixels_per_scan_line ?c) * nat (vy p) + nat (vx p) <
      unat (pixels_per_scan_line ?c) * unat (vertical_resolution ?c)" .
  have "4 * (unat (pixels_per_scan_line ?c) * unat (vertical_resolution ?c)) \<le> length (fb_mem fb)"
    using assms(1) by (simp add: wf_fb_def Let_def)
  moreover have "4 * k + 4 \<le> l" if "k < n" "4 * n \<le> l" for k n l :: nat using that by linarith
  ultimately show "pixel_offset fb p + 4 \<le> length (fb_mem fb)" unfolding pixel_offset_def using b by blast
  show "pixel_offset fb p < 2 ^ 31"
    using b assms(1) unfolding pixel_offset_def wf_fb_def Let_def by simp
qed

lemma word_offset:
  assumes "0 \<le> vx p" "0 \<le> vy p" "k * (unat (w :: u32) * nat (vy p) + nat (vx p)) < 2 ^ 32"
  shows "unat (of_nat k * (w * of_int (vy p) + of_int (vx p)) :: u32) = k * (unat w * nat (vy p) + nat (vx p))"
proof -
  have "of_int (vx p) = (of_nat (nat (vx p)) :: u32)" "of_int (vy p) = (of_nat (nat (vy p)) :: u32)"
    using assms(1,2) by simp_all
  then have "of_nat k * (w * of_int (vy p) + of_int (vx p)) =
      (of_nat (k * (unat w * nat (vy p) + nat (vx p))) :: u32)" by simp
  then show ?thesis using assms(3) by (simp only:) (intro unat_of_nat_less, simp)
qed

lemma PixelAt_offset:
  assumes "wf_fb fb" "fb_inside fb p" shows "PixelAt (fb_config fb) p = pixel_offset fb p"
  using word_offset [of p 4 "pixels_per_scan_line (fb_config fb)"] pixel_range(2) [OF assms] assms(2)
  by (simp add: PixelAt_def pixel_offset_def fb_inside_def)

lemma offset_inj:
  assumes "wf_fb fb" "fb_inside fb p" "fb_inside fb q" "p \<noteq> q"
  shows "pixel_offset fb p + 4 \<le> pixel_offset fb q \<or> pixel_offset fb q + 4 \<le> pixel_offset fb p"
proof (rule ccontr)
  let ?w = "unat (pixels_per_scan_line (fb_config fb))"
  assume "\<not> ?thesis"
  then have eq: "?w * nat (vy p) + nat (vx p) = ?w * nat (vy q) + nat (vx q)"
    by (simp add: pixel_offset_def)
  have x: "nat (vx p) < ?w" "nat (vx q) < ?w"
    using assms(1-3) by (auto simp: wf_fb_def fb_inside_def Let_def word_le_nat_alt)
  have "nat (vy p) = nat (vy q) \<and> nat (vx p) = nat (vx q)"
    using arg_cong [OF eq, of "\<lambda>n. n div ?w"] arg_cong [OF eq, of "\<lambda>n. n mod ?w"] x by simp
  moreover have "0 \<le> vx p" "0 \<le> vx q" "0 \<le> vy p" "0 \<le> vy q"
    using assms(2,3) by (simp_all add: fb_inside_def)
  ultimately have "vx p = vx q" "vy p = vy q" by (metis nat_0_le)+
  then have "p = q" by (intro Vector2D.expand) simp
  with assms(4) show False by simp
qed

lemma WritePixel_ok:
  assumes "wf_fb fb" "fb_inside fb p"
  shows "\<exists>fb'. WritePixel fb p c = Some fb' \<and> wf_fb fb' \<and> fb_inside fb' = fb_inside fb \<and>
    fb_config fb' = fb_config fb \<and> length (fb_mem fb') = length (fb_mem fb) \<and>
    (\<forall>q. fb_inside fb q \<longrightarrow> fb_pixel fb' q = (if q = p then c else fb_pixel fb q))"
proof -
  let ?o = "pixel_offset fb p"
  define bytes where "bytes = (if pixel_format (fb_config fb) = kPixelRGBResv8BitPerColor
      then [color_r c, color_g c, color_b c] else [color_b c, color_g c, color_r c])"
  define fb' where "fb' = fb\<lparr>fb_mem := (fb_mem fb)[?o := bytes ! 0, ?o + 1 := bytes ! 1, ?o + 2 := bytes ! 2]\<rparr>"
  note r = pixel_range [OF assms]
  have "WritePixel fb p c = Some fb'"
    using assms r PixelAt_offset [OF assms]
    by (simp add: WritePixel_def fb'_def bytes_def wf_fb_def Let_def)
  moreover have "wf_fb fb'" "fb_inside fb' = fb_inside fb" "fb_config fb' = fb_config fb"
    "length (fb_mem fb') = length (fb_mem fb)"
    using assms(1) by (simp_all add: fb'_def wf_fb_def fb_inside_def fun_eq_iff)
  moreover have "fb_pixel fb' q = (if q = p then c else fb_pixel fb q)" if q: "fb_inside fb q" for q
  proof (cases "q = p")
    case True
    then show ?thesis using r
      by (cases c) (simp add: fb_pixel_def fb'_def pixel_offset_def bytes_def Let_def)
  next
    case False
    have off: "pixel_offset fb' q = pixel_offset fb q" by (simp add: pixel_offset_def fb'_def)
    show ?thesis using offset_inj [OF assms(1) q assms(2) False] False
      unfolding fb_pixel_def Let_def off by (auto simp: fb'_def)
  qed
  ultimately show ?thesis by blast
qed

interpretation fbw: pixel_writer WritePixel wf_fb fb_inside fb_pixel
  by unfold_locales (use WritePixel_ok in blast)

section \<open>Copying\<close>

lemma copy_row_ok:
  assumes "0 < n \<longrightarrow> d + n \<le> length dst \<and> s + n \<le> length src"
  shows "\<exists>m. copy_row d s n src dst = Some m \<and> length m = length dst \<and>
    (\<forall>i < length dst. m ! i = (if d \<le> i \<and> i < d + n then src ! (s + (i - d)) else dst ! i))"
proof (cases "n = 0")
  case False
  then have r: "d + n \<le> length dst" "s + n \<le> length src" using assms by auto
  let ?m = "take d dst @ take n (drop s src) @ drop (d + n) dst"
  have "?m ! i = (if d \<le> i \<and> i < d + n then src ! (s + (i - d)) else dst ! i)" if "i < length dst" for i
  proof -
    have "length (take n (drop s src)) = n" "length (take d dst) = d" using r by simp_all
    with r that show ?thesis by (auto simp: nth_append)
  qed
  moreover have "length ?m = length dst" using r by simp
  ultimately show ?thesis using r False by (auto simp: copy_row_def)
qed (auto simp: copy_row_def)

lemma copy_rows_ok:
  assumes "n \<le> dline"
    and "0 < n \<and> 0 < h \<longrightarrow> d + (h - 1) * dline + n \<le> length dst \<and> s + (h - 1) * sline + n \<le> length src"
  shows "\<exists>m. copy_rows d s n dline sline h src dst = Some m \<and> length m = length dst \<and>
    (\<forall>i < length dst.
       (\<forall>y < h. d + y * dline \<le> i \<and> i < d + y * dline + n \<longrightarrow> m ! i = src ! (s + y * sline + (i - (d + y * dline)))) \<and>
       ((\<forall>y < h. \<not> (d + y * dline \<le> i \<and> i < d + y * dline + n)) \<longrightarrow> m ! i = dst ! i))"
  using assms
proof (induction h arbitrary: d s dst)
  case (Suc h)
  have "0 < n \<longrightarrow> d + n \<le> length dst \<and> s + n \<le> length src"
  proof
    assume "0 < n"
    with Suc.prems(2) show "d + n \<le> length dst \<and> s + n \<le> length src" by simp
  qed
  from copy_row_ok [OF this] obtain u where
    u: "copy_row d s n src dst = Some u" "length u = length dst"
      "\<forall>i < length dst. u ! i = (if d \<le> i \<and> i < d + n then src ! (s + (i - d)) else dst ! i)" by blast
  have "0 < n \<and> 0 < h \<longrightarrow> (d + dline) + (h - 1) * dline + n \<le> length u \<and>
      (s + sline) + (h - 1) * sline + n \<le> length src"
    using Suc.prems(2) u(2) by (cases h) auto
  from Suc.IH [OF Suc.prems(1) this] obtain m where
    m: "copy_rows (d + dline) (s + sline) n dline sline h src u = Some m" "length m = length dst"
      "\<And>i y. i < length dst \<Longrightarrow> y < h \<Longrightarrow> d + dline + y * dline \<le> i \<Longrightarrow> i < d + dline + y * dline + n \<Longrightarrow>
         m ! i = src ! (s + sline + y * sline + (i - (d + dline + y * dline)))"
      "\<And>i. i < length dst \<Longrightarrow> \<forall>y < h. \<not> (d + dline + y * dline \<le> i \<and> i < d + dline + y * dline + n) \<Longrightarrow>
         m ! i = u ! i"
    using u(2) by auto
  have row: "m ! i = src ! (s + y * sline + (i - (d + y * dline)))"
    if i: "i < length dst" "y < Suc h" "d + y * dline \<le> i" "i < d + y * dline + n" for i y
  proof (cases y)
    case 0
    have "m ! i = u ! i" using 0 i Suc.prems(1) by (intro m(4)) auto
    with 0 i u(3) show ?thesis by simp
  next
    case (Suc k)
    then show ?thesis using m(3) [of i k] i by (simp add: add.assoc)
  qed
  have out: "m ! i = dst ! i"
    if i: "i < length dst" "\<forall>y < Suc h. \<not> (d + y * dline \<le> i \<and> i < d + y * dline + n)" for i
  proof -
    have "\<not> (d + dline + y * dline \<le> i \<and> i < d + dline + y * dline + n)" if "y < h" for y
      using i(2) [rule_format, of "Suc y"] that by (simp add: add.assoc)
    then have "m ! i = u ! i" by (intro m(4) i(1)) blast
    with i u(3) show ?thesis using i(2) [rule_format, of 0] by auto
  qed
  show ?case
    using u(1) m(1,2) row out by (intro exI [of _ m]) simp
qed simp

lemma row_unique:
  fixes P :: nat
  assumes "x < P" "cx + w \<le> P" "P * Y + cx \<le> P * qy + x" "P * qy + x < P * Y + cx + w"
  shows "Y = qy" "cx \<le> x" "x < cx + w"
proof -
  have "P * qy < P * Suc Y" using assms(2,4) by simp
  then have "qy < Suc Y" by (simp only: mult_less_cancel1)
  moreover have "P * Y < P * Suc qy" using assms(1,3) by simp
  then have "Y < Suc qy" by (simp only: mult_less_cancel1)
  ultimately show "Y = qy" by simp
  with assms show "cx \<le> x" "x < cx + w" by simp_all
qed

lemma FrameAddrAt_offset:
  assumes "wf_fb fb" "fb_inside fb p" shows "FrameAddrAt p (fb_config fb) = pixel_offset fb p"
proof -
  have "pixel_format (fb_config fb) \<le> 1" using assms(1) by (simp add: wf_fb_def Let_def)
  then have "BytesPerPixel (pixel_format (fb_config fb)) = 4"
    by (auto simp: BytesPerPixel_def kPixelRGBResv8BitPerColor_def kPixelBGRResv8BitPerColor_def)
  with PixelAt_offset [OF assms] show ?thesis by (simp add: FrameAddrAt_def PixelAt_def)
qed

lemma wf_line:
  assumes "wf_fb fb"
  shows "BytesPerPixel (pixel_format (fb_config fb)) = 4"
    "BytesPerScanLine (fb_config fb) = 4 * unat (pixels_per_scan_line (fb_config fb))"
    "FrameBufferSize (fb_config fb) =
      Vec (int (unat (horizontal_resolution (fb_config fb)))) (int (unat (vertical_resolution (fb_config fb))))"
proof -
  let ?c = "fb_config fb"
  have c: "pixel_format ?c \<le> 1" "unat (horizontal_resolution ?c) \<le> unat (pixels_per_scan_line ?c)"
    "unat (pixels_per_scan_line ?c) < 2 ^ 29" "unat (vertical_resolution ?c) < 2 ^ 29"
    using assms by (auto simp: wf_fb_def Let_def word_le_nat_alt)
  then show f: "BytesPerPixel (pixel_format ?c) = 4"
    by (auto simp: BytesPerPixel_def kPixelRGBResv8BitPerColor_def kPixelBGRResv8BitPerColor_def)
  have "unat (4 * pixels_per_scan_line ?c) = 4 * unat (pixels_per_scan_line ?c)"
    using c(3) by (simp add: unat_word_ariths)
  then show "BytesPerScanLine ?c = 4 * unat (pixels_per_scan_line ?c)" using f by (simp add: BytesPerScanLine_def)
  have s: "sint w = int (unat w)" if "unat w < 2 ^ 29" for w :: u32
  proof -
    have "int (unat w) < int (2 ^ 29)" using that by (simp only: of_nat_less_iff)
    then have "uint w < 2 ^ 31" unfolding uint_nat [symmetric] by simp
    moreover have "- (2 ^ 31) \<le> uint w" by (rule order_trans [OF _ uint_ge_0]) simp
    ultimately have "signed_take_bit 31 (uint w) = uint w" by (intro signed_take_bit_int_eq_self)
    then show ?thesis unfolding sint_uint by simp
  qed
  show "FrameBufferSize ?c = Vec (int (unat (horizontal_resolution ?c))) (int (unat (vertical_resolution ?c)))"
    using s [of "horizontal_resolution ?c"] s [of "vertical_resolution ?c"] c by (simp add: FrameBufferSize_def)
qed

lemma pixel_offset_row:
  assumes "0 \<le> vx p" "0 \<le> vy p" "vy q = vy p + int y" "vx q = vx p + int x"
  shows "pixel_offset fb q = pixel_offset fb p + y * (4 * unat (pixels_per_scan_line (fb_config fb))) + 4 * x"
proof -
  have "nat (vx q) = nat (vx p) + x" "nat (vy q) = nat (vy p) + y" using assms by auto
  then show ?thesis by (simp add: pixel_offset_def add_mult_distrib2)
qed

lemma fb_pixel_bytes:
  assumes "pixel_format (fb_config a) = pixel_format (fb_config b)"
    and "\<forall>j < 4. fb_mem a ! (pixel_offset a p + j) = fb_mem b ! (pixel_offset b q + j)"
  shows "fb_pixel a p = fb_pixel b q"
  using assms(1) assms(2) [rule_format, of 0] assms(2) [rule_format, of 1] assms(2) [rule_format, of 2]
  by (simp add: fb_pixel_def Let_def)

text \<open>The general form of a copy: a block of \<open>w\<close> by \<open>h\<close> pixels with corners \<open>p\<close> and \<open>s\<close>.\<close>

lemma copy_block:
  assumes wf: "wf_fb dst" "wf_fb src" and fmt: "pixel_format (fb_config dst) = pixel_format (fb_config src)"
    and dst: "fb_inside dst p" "fb_inside dst (p + Vec (int w - 1) (int h - 1))"
    and src: "fb_inside src s" "fb_inside src (s + Vec (int w - 1) (int h - 1))"
    and wh: "0 < w" "0 < h"
  shows "\<exists>m. copy_rows (pixel_offset dst p) (pixel_offset src s) (4 * w)
      (BytesPerScanLine (fb_config dst)) (BytesPerScanLine (fb_config src)) h (fb_mem src) (fb_mem dst) = Some m \<and>
    wf_fb (dst\<lparr>fb_mem := m\<rparr>) \<and> length m = length (fb_mem dst) \<and>
    (\<forall>q. fb_inside dst q \<longrightarrow> fb_pixel (dst\<lparr>fb_mem := m\<rparr>) q =
      (if in_rect p (Vec (int w) (int h)) q then fb_pixel src (s + (q - p)) else fb_pixel dst q))"
proof -
  define D where "D = unat (pixels_per_scan_line (fb_config dst))"
  define S where "S = unat (pixels_per_scan_line (fb_config src))"
  note line = wf_line(2) [OF wf(1), folded D_def] wf_line(2) [OF wf(2), folded S_def]
  have pos: "0 \<le> vx p" "0 \<le> vy p" "0 \<le> vx s" "0 \<le> vy s"
    using dst(1) src(1) by (simp_all add: fb_inside_def)
  have hd: "unat (horizontal_resolution (fb_config dst)) \<le> D"
    using wf(1) by (simp add: wf_fb_def Let_def D_def word_le_nat_alt)
  have wd: "nat (vx p) + w \<le> D"
    using dst(2) hd pos(1) wh(1) by (auto simp: fb_inside_def)
  then have "4 * w \<le> 4 * D" by simp
  have corner_d: "pixel_offset dst (p + Vec (int w - 1) (int h - 1)) = pixel_offset dst p + (h - 1) * (4 * D) + 4 * (w - 1)"
    using pixel_offset_row [OF pos(1,2), of "p + Vec (int w - 1) (int h - 1)" "h - 1" "w - 1" dst] wh
    by (simp add: D_def of_nat_diff)
  have corner_s: "pixel_offset src (s + Vec (int w - 1) (int h - 1)) = pixel_offset src s + (h - 1) * (4 * S) + 4 * (w - 1)"
    using pixel_offset_row [OF pos(3,4), of "s + Vec (int w - 1) (int h - 1)" "h - 1" "w - 1" src] wh
    by (simp add: S_def of_nat_diff)
  have "4 * (w - 1) + 4 = 4 * w" using wh(1) by simp
  then have range: "pixel_offset dst p + (h - 1) * (4 * D) + 4 * w \<le> length (fb_mem dst)"
    "pixel_offset src s + (h - 1) * (4 * S) + 4 * w \<le> length (fb_mem src)"
    using pixel_range(1) [OF wf(1) dst(2)] pixel_range(1) [OF wf(2) src(2)] unfolding corner_d corner_s by linarith+
  from copy_rows_ok [OF \<open>4 * w \<le> 4 * D\<close>, of h "pixel_offset dst p" "fb_mem dst" "pixel_offset src s" "4 * S" "fb_mem src"] range
  obtain m where m: "copy_rows (pixel_offset dst p) (pixel_offset src s) (4 * w) (4 * D) (4 * S) h (fb_mem src) (fb_mem dst) = Some m"
    "length m = length (fb_mem dst)"
    "\<And>i y. i < length (fb_mem dst) \<Longrightarrow> y < h \<Longrightarrow> pixel_offset dst p + y * (4 * D) \<le> i \<Longrightarrow>
       i < pixel_offset dst p + y * (4 * D) + 4 * w \<Longrightarrow>
       m ! i = fb_mem src ! (pixel_offset src s + y * (4 * S) + (i - (pixel_offset dst p + y * (4 * D))))"
    "\<And>i. i < length (fb_mem dst) \<Longrightarrow> \<forall>y < h. \<not> (pixel_offset dst p + y * (4 * D) \<le> i \<and>
       i < pixel_offset dst p + y * (4 * D) + 4 * w) \<Longrightarrow> m ! i = fb_mem dst ! i"
    by auto
  let ?r = "dst\<lparr>fb_mem := m\<rparr>"
  have off: "pixel_offset ?r q = pixel_offset dst q" for q by (simp add: pixel_offset_def)
  have "fb_pixel ?r q = (if in_rect p (Vec (int w) (int h)) q then fb_pixel src (s + (q - p)) else fb_pixel dst q)"
    if q: "fb_inside dst q" for q
  proof (cases "in_rect p (Vec (int w) (int h)) q")
    case True
    define x where "x = nat (vx q - vx p)"
    define y where "y = nat (vy q - vy p)"
    have xy: "vx q = vx p + int x" "vy q = vy p + int y" "x < w" "y < h"
      using True by (auto simp: in_rect_def x_def y_def)
    have oq: "pixel_offset dst q = pixel_offset dst p + y * (4 * D) + 4 * x"
      using pixel_offset_row [OF pos(1,2) xy(2,1), of dst] by (simp add: D_def)
    have os: "pixel_offset src (s + (q - p)) = pixel_offset src s + y * (4 * S) + 4 * x"
      using pixel_offset_row [OF pos(3,4), of "s + (q - p)" y x src] xy by (simp add: S_def)
    have "m ! (pixel_offset dst q + j) = fb_mem src ! (pixel_offset src (s + (q - p)) + j)" if "j < 4" for j
    proof -
      have "pixel_offset dst q + j < length (fb_mem dst)" using pixel_range(1) [OF wf(1) q] that by linarith
      from m(3) [OF this xy(4)] show ?thesis using xy(3) that by (simp add: oq os add.assoc)
    qed
    then show ?thesis using True fmt by (simp add: fb_pixel_bytes off)
  next
    case False
    have xq: "nat (vx q) < D" using q hd by (simp add: fb_inside_def)
    have "m ! (pixel_offset dst q + j) = fb_mem dst ! (pixel_offset dst q + j)" if j: "j < 4" for j
    proof (rule m(4))
      show "pixel_offset dst q + j < length (fb_mem dst)" using pixel_range(1) [OF wf(1) q] j by linarith
      show "\<forall>y < h. \<not> (pixel_offset dst p + y * (4 * D) \<le> pixel_offset dst q + j \<and>
          pixel_offset dst q + j < pixel_offset dst p + y * (4 * D) + 4 * w)"
      proof (intro allI impI notI)
        fix y assume y: "y < h" "pixel_offset dst p + y * (4 * D) \<le> pixel_offset dst q + j \<and>
          pixel_offset dst q + j < pixel_offset dst p + y * (4 * D) + 4 * w"
        have lin: "y * (4 * D) = 4 * (D * y)" by simp
        have "D * (nat (vy p) + y) + nat (vx p) \<le> D * nat (vy q) + nat (vx q)"
          "D * nat (vy q) + nat (vx q) < D * (nat (vy p) + y) + nat (vx p) + w"
          using y(2) j lin by (simp_all only: pixel_offset_def D_def [symmetric] add_mult_distrib2) linarith+
        from row_unique [OF xq wd this] have u: "nat (vy p) + y = nat (vy q)" "nat (vx p) \<le> nat (vx q)" "nat (vx q) < nat (vx p) + w"
          by simp_all
        have "0 \<le> vx q" "0 \<le> vy q" using q by (simp_all add: fb_inside_def)
        then have "in_rect p (Vec (int w) (int h)) q"
          using u y(1) pos by (auto simp: in_rect_def)
        with False show False by simp
      qed
    qed
    then show ?thesis using False by (simp add: fb_pixel_bytes off)
  qed
  moreover have "wf_fb ?r" using wf(1) m(2) by (simp add: wf_fb_def)
  ultimately show ?thesis using m(1,2) unfolding line by blast
qed

lemma screen_in_rect:
  assumes "wf_fb fb"
  shows "in_rect (Vec 0 0) (FrameBufferSize (fb_config fb)) = fb_inside fb"
proof
  fix q
  have "nat z < n \<longleftrightarrow> z < int n" if "0 \<le> z" for z n using that by (simp add: nat_less_iff)
  then show "in_rect (Vec 0 0) (FrameBufferSize (fb_config fb)) q = fb_inside fb q"
    unfolding wf_line(3) [OF assms] by (cases q) (auto simp: in_rect_def fb_inside_def)
qed

lemma rect_and_size:
  assumes "0 \<le> vx (rsize a)" "0 \<le> vy (rsize a)" "0 \<le> vx (rsize b)" "0 \<le> vy (rsize b)"
  shows "0 \<le> vx (rsize (rect_and a b))" "0 \<le> vy (rsize (rect_and a b))"
  using assms by (auto simp: rect_and_def Let_def ElementMax_def ElementMin_def)

lemma copy_rows_none: "copy_rows d s 0 dline sline h src dst = Some dst"
  by (induction h arbitrary: d s) (simp_all add: copy_row_def)

lemma corners:
  assumes "0 < vx sz" "0 < vy sz"
  shows "in_rect p sz p" "in_rect p sz (p + Vec (vx sz - 1) (vy sz - 1))"
  using assms by (simp_all add: in_rect_def)

lemma Copy_spec:
  assumes wf: "wf_fb dst" "wf_fb src" and fmt: "pixel_format (fb_config dst) = pixel_format (fb_config src)"
    and size: "0 \<le> vx (rsize area)" "0 \<le> vy (rsize area)"
    and inside: "\<And>q. in_rect (rpos area) (rsize area) q \<Longrightarrow> fb_inside dst (pos + (q - rpos area)) \<Longrightarrow> fb_inside src q"
  shows "\<exists>fb'. Copy dst pos src area = Some (fb', kSuccess) \<and> wf_fb fb' \<and> fb_config fb' = fb_config dst \<and>
    (\<forall>q. fb_inside dst q \<longrightarrow> fb_pixel fb' q =
      (if in_rect pos (rsize area) q then fb_pixel src (rpos area + (q - pos)) else fb_pixel dst q))"
proof -
  define ca where "ca = rect_and (Rect (Vec 0 0) (FrameBufferSize (fb_config dst))) (Rect pos (rsize area))"
  define s where "s = rpos ca - (pos - rpos area)"
  have mem: "in_rect (rpos ca) (rsize ca) q \<longleftrightarrow> fb_inside dst q \<and> in_rect pos (rsize area) q" for q
    unfolding ca_def in_rect_and Rectangle.sel screen_in_rect [OF wf(1)] ..
  have nonneg: "0 \<le> vx (rsize ca)" "0 \<le> vy (rsize ca)"
    unfolding ca_def by (rule rect_and_size; use size wf_line(3) [OF wf(1)] in simp)+
  have bpp: "BytesPerPixel (pixel_format (fb_config src)) = 4" by (rule wf_line(1) [OF wf(2)])
  show ?thesis
  proof (cases "vy (rsize ca) \<le> 0 \<or> vx (rsize ca) = 0")
    case True
    have "Copy dst pos src area = Some (dst, kSuccess)"
    proof (cases "vy (rsize ca) \<le> 0")
      case True
      then show ?thesis by (simp add: Copy_def fmt bpp ca_def [symmetric])
    next
      case False
      with True have "vx (rsize ca) = 0" by simp
      with False show ?thesis by (simp add: Copy_def fmt bpp ca_def [symmetric] copy_rows_none)
    qed
    moreover have "\<not> in_rect pos (rsize area) q" if "fb_inside dst q" for q
      using mem [of q] True that by (auto simp: in_rect_def)
    ultimately show ?thesis using wf(1) by simp
  next
    case False
    define w where "w = nat (vx (rsize ca))"
    define h where "h = nat (vy (rsize ca))"
    have wh: "vx (rsize ca) = int w" "vy (rsize ca) = int h" "0 < w" "0 < h"
      using False nonneg by (simp_all add: w_def h_def)
    have sz: "rsize ca = Vec (int w) (int h)" using wh(1,2) by (cases "rsize ca") simp
    note c = corners [of "rsize ca" "rpos ca", unfolded wh, simplified wh(3,4) of_nat_0_less_iff, OF TrueI TrueI]
    have d: "fb_inside dst (rpos ca)" "fb_inside dst (rpos ca + Vec (int w - 1) (int h - 1))"
      using c unfolding mem by blast+
    have i: "fb_inside src (q - (pos - rpos area))" if "in_rect (rpos ca) (rsize ca) q" for q
    proof (rule inside)
      have "pos + (q - (pos - rpos area) - rpos area) = q" by (simp add: plus_Vector2D_def minus_Vector2D_def)
      then show "fb_inside dst (pos + (q - (pos - rpos area) - rpos area))" using that mem by simp
      show "in_rect (rpos area) (rsize area) (q - (pos - rpos area))" using that unfolding mem by (auto simp: in_rect_def)
    qed
    have "rpos ca + Vec a b - (pos - rpos area) = s + Vec a b" for a b
      by (simp add: s_def plus_Vector2D_def minus_Vector2D_def)
    with i [OF c(2)] i [OF c(1)]
    have "fb_inside src s" "fb_inside src (s + Vec (int w - 1) (int h - 1))" by (simp_all add: s_def)
    from copy_block [OF wf fmt d this wh(3,4)] obtain m where
      m: "copy_rows (pixel_offset dst (rpos ca)) (pixel_offset src s) (4 * w) (BytesPerScanLine (fb_config dst))
           (BytesPerScanLine (fb_config src)) h (fb_mem src) (fb_mem dst) = Some m"
        "wf_fb (dst\<lparr>fb_mem := m\<rparr>)"
        "\<forall>q. fb_inside dst q \<longrightarrow> fb_pixel (dst\<lparr>fb_mem := m\<rparr>) q =
          (if in_rect (rpos ca) (Vec (int w) (int h)) q then fb_pixel src (s + (q - rpos ca)) else fb_pixel dst q)"
      by blast
    have n: "nat (4 * int w) = 4 * w" by simp
    have "Copy dst pos src area = Some (dst\<lparr>fb_mem := m\<rparr>, kSuccess)"
      using m(1) wh(3,4) FrameAddrAt_offset [OF wf(1) d(1)] FrameAddrAt_offset [OF wf(2) \<open>fb_inside src s\<close>]
      by (simp add: Copy_def fmt bpp ca_def [symmetric] s_def [symmetric] wh(1,2) n del: nat_mult_distrib)
    moreover have "s + (q - rpos ca) = rpos area + (q - pos)" for q
      by (simp add: s_def plus_Vector2D_def minus_Vector2D_def)
    ultimately show ?thesis using m(2,3) mem unfolding sz by (intro exI [of _ "dst\<lparr>fb_mem := m\<rparr>"]) simp
  qed
qed

section \<open>Properties\<close>

definition demo_config :: FrameBufferConfig where
  "demo_config = \<lparr>pixels_per_scan_line = 4, horizontal_resolution = 3, vertical_resolution = 2, pixel_format = 1\<rparr>"

definition demo_fb :: FrameBuffer where
  "demo_fb = \<lparr>fb_config = demo_config, fb_mem = replicate 32 7\<rparr>"

lemma demo_wf: "wf_fb demo_fb"
  by (simp add: wf_fb_def demo_fb_def demo_config_def)

lemma demo_inside: "fb_inside demo_fb q \<longleftrightarrow> in_rect (Vec 0 0) (Vec 3 2) q"
proof -
  have "nat z < 3 \<longleftrightarrow> z < 3" "nat z < 2 \<longleftrightarrow> z < 2" for z by auto
  then show ?thesis by (auto simp: fb_inside_def demo_fb_def demo_config_def in_rect_def)
qed

text \<open>
  Filling a rectangle that lies on a frame buffer succeeds without leaving the
  buffer's memory and paints exactly the rectangle: a pixel of the buffer has the
  given colour afterwards if it is inside, and its old colour otherwise.
\<close>

lemma FillRectangle_exact:
  assumes "wf_fb fb" and "\<forall>p. in_rect pos sz p \<longrightarrow> fb_inside fb p"
  shows "\<exists>fb'. FillRectangle WritePixel pos sz c fb = Some fb' \<and> wf_fb fb' \<and> fb_inside fb' = fb_inside fb \<and>
    (\<forall>q. fb_inside fb q \<longrightarrow> fb_pixel fb' q = (if in_rect pos sz q then c else fb_pixel fb q))"
  using assms by (rule fbw.FillRectangle_spec)

lemma FillRectangle_exact_witness:
  "\<exists>fb'. FillRectangle WritePixel (Vec 1 0) (Vec 2 2) kDesktopFGColor demo_fb = Some fb' \<and>
    wf_fb fb' \<and> fb_inside fb' = fb_inside demo_fb \<and>
    (\<forall>q. fb_inside demo_fb q \<longrightarrow> fb_pixel fb' q =
      (if in_rect (Vec 1 0) (Vec 2 2) q then kDesktopFGColor else fb_pixel demo_fb q))"
  by (rule FillRectangle_exact [OF demo_wf]) (auto simp: demo_inside in_rect_def)

text \<open>
  \<open>Copy\<close> between two buffers of the same format, of an area whose part that reaches the
  destination lies on the source (the area may stick out of the destination): it succeeds
  within both memories, and exactly the pixels of the destination that the shifted area
  covers become those of the source at the corresponding point.
\<close>

lemma Copy_clips_and_blits:
  assumes "wf_fb dst" "wf_fb src" "pixel_format (fb_config dst) = pixel_format (fb_config src)"
    and "0 \<le> vx (rsize area)" "0 \<le> vy (rsize area)"
    and "\<And>q. in_rect (rpos area) (rsize area) q \<Longrightarrow> fb_inside dst (pos + (q - rpos area)) \<Longrightarrow> fb_inside src q"
  shows "\<exists>fb'. Copy dst pos src area = Some (fb', kSuccess) \<and> wf_fb fb' \<and> fb_config fb' = fb_config dst \<and>
    (\<forall>q. fb_inside dst q \<longrightarrow> fb_pixel fb' q =
      (if in_rect pos (rsize area) q then fb_pixel src (rpos area + (q - pos)) else fb_pixel dst q))"
  using assms by (rule Copy_spec)

lemma Copy_clips_and_blits_witness:
  "\<exists>fb'. Copy demo_fb (Vec (- 1) 1) demo_fb (Rect (Vec 0 0) (Vec 3 2)) = Some (fb', kSuccess) \<and> wf_fb fb' \<and>
    fb_config fb' = fb_config demo_fb \<and>
    (\<forall>q. fb_inside demo_fb q \<longrightarrow> fb_pixel fb' q =
      (if in_rect (Vec (- 1) 1) (rsize (Rect (Vec 0 0) (Vec 3 2))) q
       then fb_pixel demo_fb (rpos (Rect (Vec 0 0) (Vec 3 2)) + (q - Vec (- 1) 1)) else fb_pixel demo_fb q))"
  by (rule Copy_clips_and_blits [OF demo_wf demo_wf]) (simp_all add: demo_inside)

end
