(* ===== verification/Fonts.thy ===== *)
theory Fonts
  imports Frame_Buffers "HOL-Library.Signed_Division"
begin

text \<open>
  Text drawing: \<open>kernel/font.cpp\<close>.  A C string is the list of the bytes from the pointer to the
  end of the readable memory; reading past that end is \<open>None\<close>.  The glyph table
  \<open>hankaku.bin\<close> is the argument \<open>hankaku\<close>, and the FreeType library is the argument \<open>ft\<close>: the
  result codes of its calls and the bitmap it renders.  Where nothing depends on the
  target of the drawing it is any pixel writer \<open>wr\<close>.
\<close>

section \<open>UTF-8\<close>

definition CountUTF8Size :: "u8 \<Rightarrow> nat" where
  "CountUTF8Size c =
    (if c < 0x80 then 1
     else if 0xc0 \<le> c \<and> c < 0xe0 then 2
     else if 0xe0 \<le> c \<and> c < 0xf0 then 3
     else if 0xf0 \<le> c \<and> c < 0xf8 then 4
     else 0)"

text \<open>\<open>char\<close> is signed on this target, so a byte is extended with its sign.\<close>

definition char32_at :: "u8 list \<Rightarrow> nat \<Rightarrow> u32 option" where
  "char32_at s k = (if k < length s then Some (scast (s ! k)) else None)"

definition ConvertUTF8To32 :: "u8 list \<Rightarrow> (u32 \<times> nat) option" where
  "ConvertUTF8To32 s =
    (if s = [] then None
     else let n = CountUTF8Size (s ! 0) in
       if n = 1 then do { a \<leftarrow> char32_at s 0; Some (a, 1) }
       else if n = 2 then do {
         a \<leftarrow> char32_at s 0; b \<leftarrow> char32_at s 1;
         Some (push_bit 6 (a AND 0x1f) OR (b AND 0x3f), 2) }
       else if n = 3 then do {
         a \<leftarrow> char32_at s 0; b \<leftarrow> char32_at s 1; c \<leftarrow> char32_at s 2;
         Some (push_bit 12 (a AND 0x0f) OR push_bit 6 (b AND 0x3f) OR (c AND 0x3f), 3) }
       else if n = 4 then do {
         a \<leftarrow> char32_at s 0; b \<leftarrow> char32_at s 1; c \<leftarrow> char32_at s 2; d \<leftarrow> char32_at s 3;
         Some (push_bit 18 (a AND 0x07) OR push_bit 12 (b AND 0x3f) OR push_bit 6 (c AND 0x3f) OR (d AND 0x3f), 4) }
       else Some (0, 0))"

definition IsHankaku :: "u32 \<Rightarrow> bool" where
  "IsHankaku c \<longleftrightarrow> c \<le> 0x7f"

section \<open>Glyphs\<close>

text \<open>The index is computed in unsigned 32-bit arithmetic from the sign-extended character.\<close>

definition GetFont :: "u8 list \<Rightarrow> u8 \<Rightarrow> u8 list option" where
  "GetFont hankaku c =
    (let index = 16 * scast c :: u32 in
     if length hankaku \<le> unat index then None else Some (drop (unat index) hankaku))"

definition ascii_points :: "u8 list \<Rightarrow> Vector2D \<Rightarrow> Vector2D list" where
  "ascii_points font pos =
    concat (map (\<lambda>dy. map (\<lambda>dx. pos + Vec (int dx) (int dy))
      (filter (\<lambda>dx. bit (font ! dy) (7 - dx)) [0..<8])) [0..<16])"

definition WriteAscii ::
  "('s \<Rightarrow> Vector2D \<Rightarrow> PixelColor \<Rightarrow> 's option) \<Rightarrow> u8 list \<Rightarrow> Vector2D \<Rightarrow> u8 \<Rightarrow> PixelColor \<Rightarrow> 's \<Rightarrow> 's option" where
  "WriteAscii wr hankaku pos c color s =
    (case GetFont hankaku c of
       None \<Rightarrow> Some s
     | Some font \<Rightarrow> if length font < 16 then None else write_all wr (ascii_points font pos) color s)"

text \<open>What the code relies on of FreeType: \<open>0\<close> is success, and a loaded glyph has a bitmap.\<close>

record Glyph =
  bitmap_rows :: nat
  bitmap_width :: nat
  bitmap_pitch :: int
  bitmap_buffer :: "u8 list"
  bitmap_left :: int
  bitmap_top :: int
  face_height :: int
  face_descender :: int
  face_y_ppem :: int
  face_units_per_EM :: int

record FreeType =
  ft_new_memory_face :: int
  ft_set_pixel_sizes :: int
  ft_get_char_index :: "u32 \<Rightarrow> nat"
  ft_load_glyph :: "nat \<Rightarrow> int"
  ft_glyph :: "nat \<Rightarrow> Glyph"

definition NewFTFace :: "FreeType \<Rightarrow> ErrorCode" where
  "NewFTFace ft =
    (if ft_new_memory_face ft \<noteq> 0 then kFreeTypeError
     else if ft_set_pixel_sizes ft \<noteq> 0 then kFreeTypeError
     else kSuccess)"

definition RenderUnicode :: "FreeType \<Rightarrow> u32 \<Rightarrow> ErrorCode" where
  "RenderUnicode ft c =
    (let glyph_index = ft_get_char_index ft c in
     if glyph_index = 0 then kFreeTypeError
     else if ft_load_glyph ft glyph_index \<noteq> 0 then kFreeTypeError
     else kSuccess)"

text \<open>The byte of row \<open>dy\<close> that holds column \<open>dx\<close>; rows run backwards for a negative pitch.\<close>

definition bitmap_index :: "Glyph \<Rightarrow> nat \<Rightarrow> nat \<Rightarrow> int" where
  "bitmap_index g dy dx =
    bitmap_pitch g * int dy - (if bitmap_pitch g < 0 then bitmap_pitch g * int (bitmap_rows g) else 0) + int (dx div 8)"

definition glyph_readable :: "Glyph \<Rightarrow> bool" where
  "glyph_readable g \<longleftrightarrow>
    (\<forall>dy \<in> set [0..<bitmap_rows g]. \<forall>dx \<in> set [0..<bitmap_width g].
       0 \<le> bitmap_index g dy dx \<and> bitmap_index g dy dx < int (length (bitmap_buffer g)))"

definition glyph_points :: "Glyph \<Rightarrow> Vector2D \<Rightarrow> Vector2D list" where
  "glyph_points g topleft =
    concat (map (\<lambda>dy. map (\<lambda>dx. topleft + Vec (int dx) (int dy))
      (filter (\<lambda>dx. bit (bitmap_buffer g ! nat (bitmap_index g dy dx)) (7 - dx mod 8)) [0..<bitmap_width g]))
      [0..<bitmap_rows g])"

definition WriteUnicode ::
  "('s \<Rightarrow> Vector2D \<Rightarrow> PixelColor \<Rightarrow> 's option) \<Rightarrow> u8 list \<Rightarrow> FreeType \<Rightarrow> Vector2D \<Rightarrow> u32 \<Rightarrow> PixelColor \<Rightarrow> 's
    \<Rightarrow> ('s \<times> ErrorCode) option" where
  "WriteUnicode wr hankaku ft pos c color s =
    (let question = (\<lambda>err. do {
           s1 \<leftarrow> WriteAscii wr hankaku pos 0x3f color s;
           s2 \<leftarrow> WriteAscii wr hankaku (pos + Vec 8 0) 0x3f color s1;
           Some (s2, err) })
     in if c \<le> 0x7f then map_option (\<lambda>s1. (s1, kSuccess)) (WriteAscii wr hankaku pos (ucast c) color s)
     else if NewFTFace ft \<noteq> kSuccess then question (NewFTFace ft)
     else if RenderUnicode ft c \<noteq> kSuccess then question (RenderUnicode ft c)
     else let g = ft_glyph ft (ft_get_char_index ft c) in
       if face_units_per_EM g = 0 \<or> \<not> glyph_readable g then None
       else let baseline = (face_height g + face_descender g) * face_y_ppem g sdiv face_units_per_EM g;
                topleft = pos + Vec (bitmap_left g) (baseline - bitmap_top g)
            in map_option (\<lambda>s1. (s1, kSuccess)) (write_all wr (glyph_points g topleft) color s))"

text \<open>
  The loop of \<open>WriteString\<close>, with as many iterations as \<open>fuel\<close>: \<open>None\<close> for every \<open>fuel\<close> is a
  call that does not return or leaves its memory.
\<close>

fun WriteString_loop ::
  "nat \<Rightarrow> ('s \<Rightarrow> Vector2D \<Rightarrow> PixelColor \<Rightarrow> 's option) \<Rightarrow> u8 list \<Rightarrow> FreeType \<Rightarrow> Vector2D \<Rightarrow> u8 list \<Rightarrow> int
    \<Rightarrow> PixelColor \<Rightarrow> 's \<Rightarrow> 's option" where
  "WriteString_loop 0 wr hankaku ft pos s x color t = None"
| "WriteString_loop (Suc fuel) wr hankaku ft pos s x color t =
    (if s = [] then None
     else if s ! 0 = 0 then Some t
     else do {
       (u32, bytes) \<leftarrow> ConvertUTF8To32 s;
       (t', err) \<leftarrow> WriteUnicode wr hankaku ft (pos + Vec (8 * x) 0) u32 color t;
       WriteString_loop fuel wr hankaku ft pos (drop bytes s) (x + (if IsHankaku u32 then 1 else 2)) color t'
     })"

definition WriteString ::
  "nat \<Rightarrow> ('s \<Rightarrow> Vector2D \<Rightarrow> PixelColor \<Rightarrow> 's option) \<Rightarrow> u8 list \<Rightarrow> FreeType \<Rightarrow> Vector2D \<Rightarrow> u8 list
    \<Rightarrow> PixelColor \<Rightarrow> 's \<Rightarrow> 's option" where
  "WriteString fuel wr hankaku ft pos s color t = WriteString_loop fuel wr hankaku ft pos s 0 color t"

section \<open>A reference encoder\<close>

definition utf8_encode :: "nat \<Rightarrow> u8 list" where
  "utf8_encode n =
    (if n < 0x80 then [of_nat n]
     else if n < 0x800 then [of_nat (192 + n div 64), of_nat (128 + n mod 64)]
     else if n < 0x10000 then
       [of_nat (224 + n div 4096), of_nat (128 + n div 64 mod 64), of_nat (128 + n mod 64)]
     else [of_nat (240 + n div 262144), of_nat (128 + n div 4096 mod 64),
           of_nat (128 + n div 64 mod 64), of_nat (128 + n mod 64)])"

lemma lead_bytes:
  "\<forall>k \<in> set [0..<128]. CountUTF8Size (of_nat k) = 1 \<and> (scast (of_nat k :: u8) :: u32) = of_nat k"
  "\<forall>k \<in> set [0..<32]. CountUTF8Size (of_nat (192 + k)) = 2 \<and> (scast (of_nat (192 + k) :: u8) :: u32) AND 0x1f = of_nat k"
  "\<forall>k \<in> set [0..<16]. CountUTF8Size (of_nat (224 + k)) = 3 \<and> (scast (of_nat (224 + k) :: u8) :: u32) AND 0x0f = of_nat k"
  "\<forall>k \<in> set [0..<8]. CountUTF8Size (of_nat (240 + k)) = 4 \<and> (scast (of_nat (240 + k) :: u8) :: u32) AND 0x07 = of_nat k"
  "\<forall>k \<in> set [0..<64]. (scast (of_nat (128 + k) :: u8) :: u32) AND 0x3f = of_nat k"
  by code_simp+

lemma or_low:
  assumes "unat b < 2 ^ n" shows "push_bit n a OR b = push_bit n a + (b :: u32)"
proof (rule disjunctive_add [symmetric])
  fix i
  have "take_bit n b = b" using assms
    by (simp add: word_unat_eq_iff unsigned_take_bit_eq take_bit_nat_eq_self)
  then have "bit b i \<Longrightarrow> i < n" by (metis bit_take_bit_iff)
  then show "\<not> bit (push_bit n a) i \<or> \<not> bit b i" by (auto simp: bit_simps)
qed

lemma or_low_nat:
  assumes "b < 2 ^ n" "b < 2 ^ 32"
  shows "push_bit n (of_nat a) OR of_nat b = (of_nat (a * 2 ^ n + b) :: u32)"
proof -
  have "unat (of_nat b :: u32) = b" using assms(2) by (intro unat_of_nat_less) simp
  then have "unat (of_nat b :: u32) < 2 ^ n" using assms(1) by simp
  from or_low [OF this, of "of_nat a"] show ?thesis by (simp add: push_bit_eq_mult)
qed

lemma of_nat_lead:
  "k < 128 \<Longrightarrow> CountUTF8Size (of_nat k) = 1" "k < 128 \<Longrightarrow> (scast (of_nat k :: u8) :: u32) = of_nat k"
  "k < 32 \<Longrightarrow> CountUTF8Size (of_nat (192 + k)) = 2" "k < 32 \<Longrightarrow> (scast (of_nat (192 + k) :: u8) :: u32) AND 0x1f = of_nat k"
  "k < 16 \<Longrightarrow> CountUTF8Size (of_nat (224 + k)) = 3" "k < 16 \<Longrightarrow> (scast (of_nat (224 + k) :: u8) :: u32) AND 0x0f = of_nat k"
  "k < 8 \<Longrightarrow> CountUTF8Size (of_nat (240 + k)) = 4" "k < 8 \<Longrightarrow> (scast (of_nat (240 + k) :: u8) :: u32) AND 0x07 = of_nat k"
  "k < 64 \<Longrightarrow> (scast (of_nat (128 + k) :: u8) :: u32) AND 0x3f = of_nat k"
  using lead_bytes by (simp_all only: set_upt atLeastLessThan_iff le0 simp_thms ball_simps Ball_def)

lemma Convert_bytes:
  "CountUTF8Size p = 1 \<Longrightarrow> ConvertUTF8To32 (p # rest) = Some (scast p, 1)"
  "CountUTF8Size p = 2 \<Longrightarrow> ConvertUTF8To32 (p # q # rest) =
     Some (push_bit 6 (scast p AND 0x1f) OR (scast q AND 0x3f), 2)"
  "CountUTF8Size p = 3 \<Longrightarrow> ConvertUTF8To32 (p # q # r # rest) =
     Some (push_bit 12 (scast p AND 0x0f) OR push_bit 6 (scast q AND 0x3f) OR (scast r AND 0x3f), 3)"
  "CountUTF8Size p = 4 \<Longrightarrow> ConvertUTF8To32 (p # q # r # u # rest) =
     Some (push_bit 18 (scast p AND 0x07) OR push_bit 12 (scast q AND 0x3f) OR push_bit 6 (scast r AND 0x3f)
       OR (scast u AND 0x3f), 4)"
  by (simp_all add: ConvertUTF8To32_def char32_at_def)

lemma or_assemble:
  assumes "b < 64" "c < 64" "d < 64"
  shows "push_bit 6 (of_nat a) OR of_nat b = (of_nat (a * 64 + b) :: u32)"
    "push_bit 12 (of_nat a) OR push_bit 6 (of_nat b) OR of_nat c = (of_nat (a * 4096 + b * 64 + c) :: u32)"
    "push_bit 18 (of_nat a) OR push_bit 12 (of_nat b) OR push_bit 6 (of_nat c) OR of_nat d =
      (of_nat (a * 262144 + b * 4096 + c * 64 + d) :: u32)"
proof -
  have s: "push_bit k (of_nat n :: u32) = of_nat (n * 2 ^ k)" for k n by (simp add: push_bit_eq_mult)
  have o: "of_nat (x * 2 ^ k) OR of_nat y = (of_nat (x * 2 ^ k + y) :: u32)" if "y < 2 ^ k" "y < 2 ^ 32" for x y k
    using or_low_nat [OF that, of x] unfolding s .
  from o [of b 6 a] assms show a: "push_bit 6 (of_nat a) OR of_nat b = (of_nat (a * 64 + b) :: u32)"
    by (simp add: s)
  have "b * 64 + c < 4096" "b * 4096 + c * 64 + d < 262144" "c * 64 + d < 4096" using assms by linarith+
  with o [of "b * 64 + c" 12 a] o [of c 6 b] assms
  show "push_bit 12 (of_nat a) OR push_bit 6 (of_nat b) OR of_nat c = (of_nat (a * 4096 + b * 64 + c) :: u32)"
    by (simp add: s or.assoc add.assoc)
  from \<open>b * 4096 + c * 64 + d < 262144\<close> \<open>c * 64 + d < 4096\<close>
    o [of "b * 4096 + (c * 64 + d)" 18 a] o [of "c * 64 + d" 12 b] o [of d 6 c] assms
  show "push_bit 18 (of_nat a) OR push_bit 12 (of_nat b) OR push_bit 6 (of_nat c) OR of_nat d =
      (of_nat (a * 262144 + b * 4096 + c * 64 + d) :: u32)"
    by (simp add: s or.assoc add.assoc)
qed

lemma Convert_encode:
  assumes "n < 0x200000"
  shows "ConvertUTF8To32 (utf8_encode n @ rest) = Some (of_nat n, length (utf8_encode n))"
proof -
  have m: "n div k mod 64 < 64" "n mod 64 < 64" for k by simp_all
  note tail = of_nat_lead(9) [OF m(1)] of_nat_lead(9) [OF m(2)]
  have d: "n div 4096 = n div 64 div 64" "n div 262144 = n div 64 div 64 div 64"
    by (simp_all flip: div_mult2_eq)
  have two: "n div 64 * 64 + n mod 64 = n"
    and "n div 64 div 64 * 64 + n div 64 mod 64 = n div 64"
    and "n div 64 div 64 div 64 * 64 + n div 64 div 64 mod 64 = n div 64 div 64" by simp_all
  then have three: "n div 4096 * 4096 + n div 64 mod 64 * 64 + n mod 64 = n"
    and four: "n div 262144 * 262144 + n div 4096 mod 64 * 4096 + n div 64 mod 64 * 64 + n mod 64 = n"
    unfolding d by linarith+
  consider "n < 0x80" | "0x80 \<le> n" "n < 0x800" | "0x800 \<le> n" "n < 0x10000" | "0x10000 \<le> n" by linarith
  then show ?thesis
  proof cases
    case 1
    then have "utf8_encode n = [of_nat n]" by (simp add: utf8_encode_def)
    then show ?thesis using of_nat_lead(2) [OF 1]
      by (simp only: append_Cons append_Nil Convert_bytes(1) [OF of_nat_lead(1) [OF 1]] list.size) simp
  next
    case 2
    then have l: "n div 64 < 32" by simp
    have "utf8_encode n = [of_nat (192 + n div 64), of_nat (128 + n mod 64)]" using 2 by (simp add: utf8_encode_def)
    then show ?thesis
      by (simp only: append_Cons append_Nil Convert_bytes(2) [OF of_nat_lead(3) [OF l]] of_nat_lead(4) [OF l] tail
        or_assemble(1) [OF m(2) m(2) m(2)] two list.size) simp
  next
    case 3
    then have l: "n div 4096 < 16" by simp
    have "utf8_encode n = [of_nat (224 + n div 4096), of_nat (128 + n div 64 mod 64), of_nat (128 + n mod 64)]"
      using 3 by (simp add: utf8_encode_def)
    then show ?thesis
      by (simp only: append_Cons append_Nil Convert_bytes(3) [OF of_nat_lead(5) [OF l]] of_nat_lead(6) [OF l] tail
        or_assemble(2) [OF m(1) m(2) m(2)] three list.size) simp
  next
    case 4
    then have l: "n div 262144 < 8" using assms by simp
    have "utf8_encode n = [of_nat (240 + n div 262144), of_nat (128 + n div 4096 mod 64),
        of_nat (128 + n div 64 mod 64), of_nat (128 + n mod 64)]" using 4 by (simp add: utf8_encode_def)
    then show ?thesis
      by (simp only: append_Cons append_Nil Convert_bytes(4) [OF of_nat_lead(7) [OF l]] of_nat_lead(8) [OF l] tail
        or_assemble(3) [OF m(1) m(1) m(2)] four list.size) simp
  qed
qed

section \<open>Strings\<close>

text \<open>What \<open>WriteString\<close> is to draw for a sequence of code points: one or two columns each.\<close>

fun draw_code_points ::
  "('s \<Rightarrow> Vector2D \<Rightarrow> PixelColor \<Rightarrow> 's option) \<Rightarrow> u8 list \<Rightarrow> FreeType \<Rightarrow> Vector2D \<Rightarrow> nat list \<Rightarrow> int
    \<Rightarrow> PixelColor \<Rightarrow> 's \<Rightarrow> 's option" where
  "draw_code_points wr hankaku ft pos [] x color t = Some t"
| "draw_code_points wr hankaku ft pos (n # ns) x color t =
    do {
      (t', err) \<leftarrow> WriteUnicode wr hankaku ft (pos + Vec (8 * x) 0) (of_nat n) color t;
      draw_code_points wr hankaku ft pos ns (x + (if n < 128 then 1 else 2)) color t'
    }"

definition utf8_string :: "nat list \<Rightarrow> u8 list" where
  "utf8_string ns = concat (map utf8_encode ns)"

definition code_point :: "nat \<Rightarrow> bool" where
  "code_point n \<longleftrightarrow> 0 < n \<and> n < 0x200000"

lemma IsHankaku_of_nat: "n < 0x200000 \<Longrightarrow> IsHankaku (of_nat n) \<longleftrightarrow> n < 128"
  by (simp add: IsHankaku_def word_le_nat_alt unat_of_nat_less) linarith

lemma lead_nonzero:
  "\<forall>k \<in> set [0..<32]. (of_nat (192 + k) :: u8) \<noteq> 0" "\<forall>k \<in> set [0..<16]. (of_nat (224 + k) :: u8) \<noteq> 0"
  "\<forall>k \<in> set [0..<8]. (of_nat (240 + k) :: u8) \<noteq> 0" "\<forall>k \<in> set [1..<128]. (of_nat k :: u8) \<noteq> 0"
  by code_simp+

lemma lead_nonzeroD:
  "k < 32 \<Longrightarrow> (of_nat (192 + k) :: u8) \<noteq> 0" "k < 16 \<Longrightarrow> (of_nat (224 + k) :: u8) \<noteq> 0"
  "k < 8 \<Longrightarrow> (of_nat (240 + k) :: u8) \<noteq> 0" "0 < k \<Longrightarrow> k < 128 \<Longrightarrow> (of_nat k :: u8) \<noteq> 0"
  using lead_nonzero by (simp_all only: set_upt atLeastLessThan_iff le0 simp_thms Ball_def One_nat_def Suc_le_eq)

lemma utf8_encode_head:
  assumes "code_point n" shows "utf8_encode n \<noteq> []" "utf8_encode n ! 0 \<noteq> 0"
proof -
  have "n div 64 < 32" if "n < 0x800" using that by simp
  moreover have "n div 4096 < 16" if "n < 0x10000" using that by simp
  moreover have "n div 262144 < 8" using assms unfolding code_point_def by linarith
  ultimately show "utf8_encode n ! 0 \<noteq> 0"
    using assms lead_nonzeroD(1) [of "n div 64"] lead_nonzeroD(2) [of "n div 4096"]
      lead_nonzeroD(3) [of "n div 262144"] lead_nonzeroD(4) [of n]
    unfolding utf8_encode_def code_point_def
    by (simp only: nth_Cons_0 split: if_split) blast
qed (simp add: utf8_encode_def)

lemma WriteString_loop_encoded:
  assumes "\<forall>n \<in> set ns. code_point n"
  shows "WriteString_loop (length ns + k) wr hankaku ft pos (utf8_string ns @ s) x color t =
    do {
      t' \<leftarrow> draw_code_points wr hankaku ft pos ns x color t;
      WriteString_loop k wr hankaku ft pos s (x + sum_list (map (\<lambda>n. if n < 128 then 1 else 2) ns)) color t'
    }"
  using assms
proof (induction ns arbitrary: x t)
  case (Cons n ns)
  let ?rest = "utf8_string ns @ s"
  have n: "code_point n" "n < 0x200000" using Cons.prems by (simp_all add: code_point_def)
  have str: "utf8_string (n # ns) @ s = utf8_encode n @ ?rest" by (simp add: utf8_string_def)
  have head: "utf8_encode n @ ?rest \<noteq> []" "(utf8_encode n @ ?rest) ! 0 \<noteq> 0"
    using utf8_encode_head [OF n(1)] by (simp_all add: nth_append)
  have step: "WriteString_loop (Suc (length ns + k)) wr hankaku ft pos (utf8_encode n @ ?rest) x color t =
    do {
      (t', err) \<leftarrow> WriteUnicode wr hankaku ft (pos + Vec (8 * x) 0) (of_nat n) color t;
      WriteString_loop (length ns + k) wr hankaku ft pos ?rest (x + (if n < 128 then 1 else 2)) color t'
    }"
    unfolding WriteString_loop.simps if_not_P [OF head(1)] if_not_P [OF head(2)]
    by (simp add: Convert_encode [OF n(2)] IsHankaku_of_nat [OF n(2)])
  have "\<forall>n \<in> set ns. code_point n" using Cons.prems by simp
  note IH = Cons.IH [OF this]
  have len: "length (n # ns) + k = Suc (length ns + k)" by simp
  show ?case
    unfolding str len step draw_code_points.simps list.map sum_list.Cons
    by (cases "WriteUnicode wr hankaku ft (pos + Vec (8 * x) 0) (of_nat n) color t")
      (auto simp: IH add.assoc simp del: WriteString_loop.simps)
qed (simp add: utf8_string_def)

lemma WriteString_loop_stuck:
  assumes "CountUTF8Size b = 0"
  shows "WriteString_loop fuel wr hankaku ft pos (b # rest) x color t = None"
proof (induction fuel arbitrary: x t)
  case (Suc fuel)
  have "b \<noteq> 0" using assms by (auto simp: CountUTF8Size_def split: if_splits)
  moreover have "ConvertUTF8To32 (b # rest) = Some (0, 0)" using assms by (simp add: ConvertUTF8To32_def)
  ultimately show ?case by (simp add: Suc.IH split: option.split prod.split Option.bind_split)
qed simp

lemma WriteString_loop_mono:
  "WriteString_loop k wr hankaku ft pos s x color t = Some r \<Longrightarrow>
   WriteString_loop (k + j) wr hankaku ft pos s x color t = Some r"
proof (induction k arbitrary: s x t)
  case (Suc k)
  from Suc.prems show ?case
    by (auto simp: Option.bind_eq_Some_conv split: if_splits intro!: Suc.IH)
qed simp

text \<open>A target that accepts every pixel and a font whose glyphs lie in memory.\<close>

definition writes_anywhere :: "('s \<Rightarrow> Vector2D \<Rightarrow> PixelColor \<Rightarrow> 's option) \<Rightarrow> bool" where
  "writes_anywhere wr \<longleftrightarrow> (\<forall>s p c. wr s p c \<noteq> None)"

definition font_ok :: "FreeType \<Rightarrow> bool" where
  "font_ok ft \<longleftrightarrow> (\<forall>i. face_units_per_EM (ft_glyph ft i) \<noteq> 0 \<and> glyph_readable (ft_glyph ft i))"

lemma write_all_total: "writes_anywhere wr \<Longrightarrow> \<exists>s'. write_all wr ps c s = Some s'"
  by (induction ps arbitrary: s) (auto simp: writes_anywhere_def split: option.split)

lemma GetFont_readable:
  assumes "length hankaku = 4096" "GetFont hankaku c = Some font" shows "16 \<le> length font"
proof -
  let ?i = "unat (16 * scast c :: u32)"
  have "16 dvd ?i" by (simp add: unat_word_ariths dvd_mod)
  moreover have "?i < 4096" "font = drop ?i hankaku"
    using assms by (auto simp: GetFont_def Let_def split: if_splits)
  ultimately show ?thesis using assms(1) by auto
qed

lemma WriteAscii_total:
  assumes "writes_anywhere wr" "length hankaku = 4096"
  shows "\<exists>s'. WriteAscii wr hankaku pos c color s = Some s'"
  using GetFont_readable [OF assms(2), of c] write_all_total [OF assms(1)]
  by (fastforce simp: WriteAscii_def split: option.split)

lemma WriteUnicode_total:
  assumes "writes_anywhere wr" "length hankaku = 4096" "font_ok ft"
  shows "\<exists>s' e. WriteUnicode wr hankaku ft pos c color s = Some (s', e)"
proof -
  obtain s1 where s1: "WriteAscii wr hankaku pos 63 color s = Some s1"
    using WriteAscii_total [OF assms(1,2)] by blast
  obtain s2 where s2: "WriteAscii wr hankaku (pos + Vec 8 0) 63 color s1 = Some s2"
    using WriteAscii_total [OF assms(1,2)] by blast
  have "\<exists>s'. WriteAscii wr hankaku pos (ucast c) color s = Some s'"
    by (rule WriteAscii_total [OF assms(1,2)])
  moreover have "\<exists>s'. write_all wr ps color s = Some s'" for ps by (rule write_all_total [OF assms(1)])
  ultimately show ?thesis using assms(3) unfolding WriteUnicode_def font_ok_def Let_def
    by (auto simp: s1 s2 split: if_split)
qed

lemma draw_code_points_total:
  assumes "writes_anywhere wr" "length hankaku = 4096" "font_ok ft"
  shows "\<exists>t'. draw_code_points wr hankaku ft pos ns x color t = Some t'"
proof (induction ns arbitrary: x t)
  case (Cons n ns)
  then show ?case using WriteUnicode_total [OF assms, of "pos + Vec (8 * x) 0" "of_nat n" color t]
    by (auto simp: bind_eq_Some_conv)
qed simp

section \<open>Properties\<close>

text \<open>
  C34. Decoding is the inverse of UTF-8 encoding: for every number below \<open>0x200000\<close> the
  decoder reads back the number from its encoding, whatever follows, and reports the length
  of the encoding as the number of bytes consumed.
\<close>

theorem ConvertUTF8To32_decodes:
  "n < 0x200000 \<Longrightarrow> ConvertUTF8To32 (utf8_encode n @ rest) = Some (of_nat n, length (utf8_encode n))"
  by (rule Convert_encode)

theorem ConvertUTF8To32_decodes_witness:
  "ConvertUTF8To32 ([0xe3, 0x81, 0x82] @ [0x41]) = Some (0x3042, 3)"
  using ConvertUTF8To32_decodes [of "0x3042" "[0x41]"] by (simp add: utf8_encode_def)

text \<open>
  C33. On a target that accepts every pixel, with a complete glyph table, \<open>WriteString\<close> of a
  sequence of encoded characters followed by a terminator returns, and has drawn exactly the
  characters, one column for ASCII and two for others; followed by a byte that starts no
  character (a stray continuation byte, or \<open>0xf8\<close> and above) it never returns, because
  \<open>ConvertUTF8To32\<close> then reports a length of zero.
\<close>

theorem WriteString_terminates_iff:
  assumes "\<forall>n \<in> set ns. code_point n" "writes_anywhere wr" "length hankaku = 4096" "font_ok ft"
    and "b = 0 \<or> CountUTF8Size b = 0"
  shows "(\<exists>fuel. WriteString fuel wr hankaku ft pos (utf8_string ns @ b # rest) color t = Some t') \<longleftrightarrow>
    b = 0 \<and> draw_code_points wr hankaku ft pos ns 0 color t = Some t'"
proof -
  obtain r where r: "draw_code_points wr hankaku ft pos ns 0 color t = Some r"
    using draw_code_points_total [OF assms(2-4)] by blast
  note run = WriteString_loop_encoded [OF assms(1), of _ wr hankaku ft pos "b # rest" 0 color t, unfolded r bind.bind_lunit]
  have none: "WriteString_loop fuel wr hankaku ft pos (utf8_string ns @ b # rest) 0 color t = None"
    if "CountUTF8Size b = 0" for fuel
    using run [of fuel] WriteString_loop_stuck [OF that] WriteString_loop_mono [of fuel wr hankaku ft pos _ 0 color t _ "length ns"]
    by (cases "WriteString_loop fuel wr hankaku ft pos (utf8_string ns @ b # rest) 0 color t") (auto simp: add.commute)
  have ret: "(\<exists>fuel. WriteString_loop fuel wr hankaku ft pos (utf8_string ns @ b # rest) 0 color t = Some t') \<longleftrightarrow> t' = r"
    if "b = 0"
  proof
    assume "t' = r"
    then show "\<exists>fuel. WriteString_loop fuel wr hankaku ft pos (utf8_string ns @ b # rest) 0 color t = Some t'"
      using run [of 1] that by (intro exI [of _ "length ns + 1"]) simp
  next
    assume "\<exists>fuel. WriteString_loop fuel wr hankaku ft pos (utf8_string ns @ b # rest) 0 color t = Some t'"
    then obtain fuel where "WriteString_loop fuel wr hankaku ft pos (utf8_string ns @ b # rest) 0 color t = Some t'" ..
    from WriteString_loop_mono [OF this, of "length ns + 1"] run [of "Suc fuel"] that
    show "t' = r" by (simp add: add.commute)
  qed
  show ?thesis
    using assms(5) none ret by (cases "b = 0") (auto simp: WriteString_def r)
qed

definition ink :: "(Vector2D \<times> PixelColor) list \<Rightarrow> Vector2D \<Rightarrow> PixelColor \<Rightarrow> (Vector2D \<times> PixelColor) list option" where
  "ink s p c = Some ((p, c) # s)"

definition demo_ft :: FreeType where
  "demo_ft = \<lparr>ft_new_memory_face = 1, ft_set_pixel_sizes = 0, ft_get_char_index = (\<lambda>_. 0), ft_load_glyph = (\<lambda>_. 0),
     ft_glyph = (\<lambda>_. \<lparr>bitmap_rows = 0, bitmap_width = 0, bitmap_pitch = 0, bitmap_buffer = [], bitmap_left = 0,
       bitmap_top = 0, face_height = 0, face_descender = 0, face_y_ppem = 0, face_units_per_EM = 1\<rparr>)\<rparr>"

theorem WriteString_terminates_iff_witness:
  "\<not> (\<exists>fuel. WriteString fuel ink (replicate 4096 1) demo_ft (Vec 0 0) (utf8_string [0x41] @ 0x80 # []) kDesktopFGColor [] = Some [])"
  by (subst WriteString_terminates_iff)
    (simp_all add: code_point_def writes_anywhere_def ink_def font_ok_def demo_ft_def glyph_readable_def CountUTF8Size_def)

end
