(* ===== verification/Windows.thy ===== *)
theory Windows
  imports Fonts
begin

text \<open>
  Windows: \<open>kernel/window.hpp\<close> and \<open>kernel/window.cpp\<close>, in the configuration the source selects
  (\<open>WINDOW_WRITER\<close> defined).  A window keeps its pixels twice, in \<open>data_\<close> and in the shadow
  frame buffer; \<open>ToplevelWindow\<close> is a window with a title.
\<close>

section \<open>Windows\<close>

datatype WindowRegion = kTitleBar | kCloseButton | kBorder | kOtherRegion

text \<open>\<open>win_shadow\<close> is \<open>None\<close> when its initialisation failed, so that it has no writer.\<close>

record Window =
  win_width :: int
  win_height :: int
  win_data :: "PixelColor list list"
  win_transparent :: "PixelColor option"
  win_shadow :: "FrameBuffer option"
  win_title :: "u8 list option"

definition new_Window :: "int \<Rightarrow> int \<Rightarrow> nat \<Rightarrow> Window option" where
  "new_Window width height shadow_format =
    (if width < 0 \<or> height < 0 then None
     else let config = \<lparr>pixels_per_scan_line = 0, horizontal_resolution = of_int width,
                vertical_resolution = of_int height, pixel_format = shadow_format\<rparr>
       in Some \<lparr>win_width = width, win_height = height,
           win_data = replicate (nat height) (replicate (nat width) (PixelColor 0 0 0)),
           win_transparent = None,
           win_shadow = (case FrameBuffer_Initialize config None of Inl err \<Rightarrow> None | Inr fb \<Rightarrow> Some fb),
           win_title = None\<rparr>)"

definition Window_Size :: "Window \<Rightarrow> Vector2D" where
  "Window_Size w = Vec (win_width w) (win_height w)"

definition SetTransparentColor :: "PixelColor option \<Rightarrow> Window \<Rightarrow> Window" where
  "SetTransparentColor c w = w\<lparr>win_transparent := c\<rparr>"

definition At :: "Window \<Rightarrow> Vector2D \<Rightarrow> PixelColor option" where
  "At w pos =
    (if 0 \<le> vy pos \<and> nat (vy pos) < length (win_data w) \<and>
        0 \<le> vx pos \<and> nat (vx pos) < length (win_data w ! nat (vy pos))
     then Some (win_data w ! nat (vy pos) ! nat (vx pos)) else None)"

definition Window_Write :: "Window \<Rightarrow> Vector2D \<Rightarrow> PixelColor \<Rightarrow> Window option" where
  "Window_Write w pos c =
    (case At w pos of
       None \<Rightarrow> None
     | Some _ \<Rightarrow>
         let y = nat (vy pos); d = (win_data w)[y := (win_data w ! y)[nat (vx pos) := c]] in
         do {
           fb \<leftarrow> win_shadow w;
           fb' \<leftarrow> WritePixel fb pos c;
           Some (w\<lparr>win_data := d, win_shadow := Some fb'\<rparr>)
         })"

definition Window_Move :: "Window \<Rightarrow> Vector2D \<Rightarrow> Rectangle \<Rightarrow> Window option" where
  "Window_Move w dst_pos src =
    do {
      fb \<leftarrow> win_shadow w;
      fb' \<leftarrow> FrameBuffer_Move fb dst_pos src;
      Some (w\<lparr>win_shadow := Some fb'\<rparr>)
    }"

text \<open>The pixels of a window with a transparent colour are written one by one.\<close>

fun draw_opaque :: "Window \<Rightarrow> PixelColor \<Rightarrow> Vector2D \<Rightarrow> Vector2D list \<Rightarrow> FrameBuffer \<Rightarrow> FrameBuffer option" where
  "draw_opaque w tc pos [] dst = Some dst"
| "draw_opaque w tc pos (p # ps) dst =
    do {
      c \<leftarrow> At w p;
      dst' \<leftarrow> (if c \<noteq> tc then WritePixel dst (pos + p) c else Some dst);
      draw_opaque w tc pos ps dst'
    }"

definition visible_points :: "Window \<Rightarrow> Vector2D \<Rightarrow> FrameBuffer \<Rightarrow> Vector2D list" where
  "visible_points w pos dst =
    concat (map (\<lambda>y. map (\<lambda>x. Vec x y)
        [max 0 (0 - vx pos)..min (win_width w) (sint (horizontal_resolution (fb_config dst)) - vx pos) - 1])
      [max 0 (0 - vy pos)..min (win_height w) (sint (vertical_resolution (fb_config dst)) - vy pos) - 1])"

definition Window_DrawTo :: "Window \<Rightarrow> FrameBuffer \<Rightarrow> Vector2D \<Rightarrow> Rectangle \<Rightarrow> FrameBuffer option" where
  "Window_DrawTo w dst pos area =
    (case win_transparent w of
       None \<Rightarrow>
         let window_area = Rect pos (Window_Size w);
             intersection = rect_and area window_area
         in do {
           shadow \<leftarrow> win_shadow w;
           map_option fst (Copy dst (rpos intersection) shadow (Rect (rpos intersection - pos) (rsize intersection)))
         }
     | Some tc \<Rightarrow> draw_opaque w tc pos (visible_points w pos dst) dst)"

section \<open>Decorations\<close>

definition kCloseButtonWidth :: int where "kCloseButtonWidth = 16"
definition kCloseButtonHeight :: int where "kCloseButtonHeight = 14"

definition close_button :: "string list" where
  "close_button =
    [''::::::::::::::::'',
     ''::::::::::::::::'',
     ''::::::::::::::::'',
     ''::::@::::::@::::'',
     '':::::@::::@:::::'',
     ''::::::@::@::::::'',
     '':::::::@@:::::::'',
     ''::::::@::@::::::'',
     '':::::@::::@:::::'',
     ''::::@::::::@::::'',
     ''::::::::::::::::'',
     ''::::::::::::::::'',
     ''::::::::::::::::'',
     ''::::::::::::::::'']"

definition kTopLeftMargin :: Vector2D where "kTopLeftMargin = Vec 4 24"
definition kBottomRightMargin :: Vector2D where "kBottomRightMargin = Vec 4 4"
definition kMarginX :: int where "kMarginX = vx kTopLeftMargin + vx kBottomRightMargin"
definition kMarginY :: int where "kMarginY = vy kTopLeftMargin + vy kBottomRightMargin"

text \<open>The base class answers \<open>kOther\<close>, the override of \<open>ToplevelWindow\<close> looks at the position.\<close>

definition Toplevel_GetWindowRegion :: "Window \<Rightarrow> Vector2D \<Rightarrow> WindowRegion" where
  "Toplevel_GetWindowRegion w pos =
    (if vx pos < 2 \<or> win_width w - 2 \<le> vx pos \<or> vy pos < 2 \<or> win_height w - 2 \<le> vy pos then kBorder
     else if vy pos < vy kTopLeftMargin then
       (if win_width w - 5 - kCloseButtonWidth \<le> vx pos \<and> vx pos < win_width w - 5 \<and>
           5 \<le> vy pos \<and> vy pos < 5 + kCloseButtonHeight then kCloseButton else kTitleBar)
     else kOtherRegion)"

definition GetWindowRegion :: "Window \<Rightarrow> Vector2D \<Rightarrow> WindowRegion" where
  "GetWindowRegion w pos =
    (case win_title w of None \<Rightarrow> kOtherRegion | Some _ \<Rightarrow> Toplevel_GetWindowRegion w pos)"

definition InnerSize :: "Window \<Rightarrow> Vector2D" where
  "InnerSize w = Window_Size w - kTopLeftMargin - kBottomRightMargin"

definition Inner_Write :: "Window \<Rightarrow> Vector2D \<Rightarrow> PixelColor \<Rightarrow> Window option" where
  "Inner_Write w pos c = Window_Write w (pos + kTopLeftMargin) c"

text \<open>
  \<open>WriteString\<close> with enough fuel for the string: every iteration that does not repeat for
  ever consumes a byte (lemma \<open>WriteString_fuel\<close>).
\<close>

definition DrawString ::
  "('s \<Rightarrow> Vector2D \<Rightarrow> PixelColor \<Rightarrow> 's option) \<Rightarrow> u8 list \<Rightarrow> FreeType \<Rightarrow> Vector2D \<Rightarrow> u8 list \<Rightarrow> PixelColor \<Rightarrow> 's \<Rightarrow> 's option" where
  "DrawString wr hankaku ft pos s color t = WriteString (length s + 1) wr hankaku ft pos s color t"

fun write_each :: "('s \<Rightarrow> Vector2D \<Rightarrow> PixelColor \<Rightarrow> 's option) \<Rightarrow> (Vector2D \<times> PixelColor) list \<Rightarrow> 's \<Rightarrow> 's option" where
  "write_each wr [] s = Some s"
| "write_each wr ((p, c) # ps) s = (case wr s p c of None \<Rightarrow> None | Some s' \<Rightarrow> write_each wr ps s')"

definition close_button_pixels :: "int \<Rightarrow> u32 \<Rightarrow> (Vector2D \<times> PixelColor) list" where
  "close_button_pixels win_w bgcolor =
    concat (map (\<lambda>y. map (\<lambda>x.
        (Vec (win_w - 5 - kCloseButtonWidth + int x) (5 + int y),
         if close_button ! y ! x = CHR ''@'' then ToColor windowFGColor
         else if close_button ! y ! x = CHR ''$'' then ToColor 0x848484
         else if close_button ! y ! x = CHR '':'' then ToColor bgcolor
         else ToColor windowFGColor)) [0..<nat kCloseButtonWidth]) [0..<nat kCloseButtonHeight])"

definition DrawWindowTitle ::
  "('s \<Rightarrow> Vector2D \<Rightarrow> PixelColor \<Rightarrow> 's option) \<Rightarrow> u8 list \<Rightarrow> FreeType \<Rightarrow> int \<Rightarrow> u8 list \<Rightarrow> bool \<Rightarrow> 's \<Rightarrow> 's option" where
  "DrawWindowTitle wr hankaku ft win_w title active s =
    (let bgcolor = (if active then 0x000000 else 0x202020);
         fgcolor = (if active then windowFGColor else 0x008585)
     in do {
       s1 \<leftarrow> FillRectangle wr (Vec 3 3) (Vec (win_w - 6) 18) (ToColor bgcolor) s;
       s2 \<leftarrow> DrawString wr hankaku ft (Vec 24 4) title (ToColor fgcolor) s1;
       write_each wr (close_button_pixels win_w bgcolor) s2
     })"

fun fill_rects :: "('s \<Rightarrow> Vector2D \<Rightarrow> PixelColor \<Rightarrow> 's option) \<Rightarrow> (Rectangle \<times> PixelColor) list \<Rightarrow> 's \<Rightarrow> 's option" where
  "fill_rects wr [] s = Some s"
| "fill_rects wr ((r, c) # rs) s =
    (case FillRectangle wr (rpos r) (rsize r) c s of None \<Rightarrow> None | Some s' \<Rightarrow> fill_rects wr rs s')"

definition DrawWindow ::
  "('s \<Rightarrow> Vector2D \<Rightarrow> PixelColor \<Rightarrow> 's option) \<Rightarrow> u8 list \<Rightarrow> FreeType \<Rightarrow> int \<Rightarrow> int \<Rightarrow> u8 list \<Rightarrow> 's \<Rightarrow> 's option" where
  "DrawWindow wr hankaku ft win_w win_h title s =
    do {
      s1 \<leftarrow> fill_rects wr
        [(Rect (Vec 0 0) (Vec win_w 1), ToColor windowBGColor),
         (Rect (Vec 1 1) (Vec (win_w - 2) 1), ToColor windowFGColor),
         (Rect (Vec 0 0) (Vec 1 win_h), ToColor windowBGColor),
         (Rect (Vec 1 1) (Vec 1 (win_h - 2)), ToColor windowFGColor),
         (Rect (Vec (win_w - 2) 1) (Vec 1 (win_h - 2)), ToColor 0x848484),
         (Rect (Vec (win_w - 1) 0) (Vec 1 win_h), ToColor 0x000000),
         (Rect (Vec 2 2) (Vec (win_w - 4) (win_h - 4)), ToColor windowBGColor),
         (Rect (Vec 1 (win_h - 2)) (Vec (win_w - 2) 1), ToColor 0x848484),
         (Rect (Vec 0 (win_h - 1)) (Vec win_w 1), ToColor 0x000000)] s;
      DrawWindowTitle wr hankaku ft win_w title False s1
    }"

definition DrawTextbox_colors ::
  "('s \<Rightarrow> Vector2D \<Rightarrow> PixelColor \<Rightarrow> 's option) \<Rightarrow> Vector2D \<Rightarrow> Vector2D \<Rightarrow> PixelColor \<Rightarrow> PixelColor \<Rightarrow> PixelColor
    \<Rightarrow> 's \<Rightarrow> 's option" where
  "DrawTextbox_colors wr pos sz background border_light border_dark s =
    fill_rects wr
      [(Rect (pos + Vec 1 1) (sz - Vec 2 2), background),
       (Rect pos (Vec (vx sz) 1), border_dark),
       (Rect pos (Vec 1 (vy sz)), border_dark),
       (Rect (pos + Vec 0 (vy sz)) (Vec (vx sz) 1), border_light),
       (Rect (pos + Vec (vx sz) 0) (Vec 1 (vy sz)), border_light)] s"

definition DrawTextbox :: "('s \<Rightarrow> Vector2D \<Rightarrow> PixelColor \<Rightarrow> 's option) \<Rightarrow> Vector2D \<Rightarrow> Vector2D \<Rightarrow> 's \<Rightarrow> 's option" where
  "DrawTextbox wr pos sz s =
    DrawTextbox_colors wr pos sz (ToColor windowBGColor) (ToColor 0xc6c6c6) (ToColor 0x848484) s"

definition DrawTerminal :: "('s \<Rightarrow> Vector2D \<Rightarrow> PixelColor \<Rightarrow> 's option) \<Rightarrow> Vector2D \<Rightarrow> Vector2D \<Rightarrow> 's \<Rightarrow> 's option" where
  "DrawTerminal wr pos sz s =
    DrawTextbox_colors wr pos sz (ToColor terminalBGColor) (ToColor 0xc6c6c6) (ToColor 0x848484) s"

text \<open>The constructor of \<open>ToplevelWindow\<close>; \<open>title\<close> includes the terminator.\<close>

definition new_ToplevelWindow :: "u8 list \<Rightarrow> FreeType \<Rightarrow> int \<Rightarrow> int \<Rightarrow> nat \<Rightarrow> u8 list \<Rightarrow> Window option" where
  "new_ToplevelWindow hankaku ft width height shadow_format title =
    do {
      w \<leftarrow> new_Window width height shadow_format;
      DrawWindow Window_Write hankaku ft width height title (w\<lparr>win_title := Some title\<rparr>)
    }"

definition Window_Activate :: "u8 list \<Rightarrow> FreeType \<Rightarrow> Window \<Rightarrow> Window option" where
  "Window_Activate hankaku ft w =
    (case win_title w of
       None \<Rightarrow> Some w
     | Some title \<Rightarrow> DrawWindowTitle Window_Write hankaku ft (win_width w) title True w)"

definition Window_Deactivate :: "u8 list \<Rightarrow> FreeType \<Rightarrow> Window \<Rightarrow> Window option" where
  "Window_Deactivate hankaku ft w =
    (case win_title w of
       None \<Rightarrow> Some w
     | Some title \<Rightarrow> DrawWindowTitle Window_Write hankaku ft (win_width w) title False w)"

section \<open>Enough fuel for a string\<close>

lemma Convert_consumes:
  "ConvertUTF8To32 s = Some (u, n) \<Longrightarrow> n = 0 \<Longrightarrow> s \<noteq> [] \<and> CountUTF8Size (s ! 0) = 0"
  by (auto simp: ConvertUTF8To32_def CountUTF8Size_def Let_def bind_eq_Some_conv split: if_splits)

lemma WriteString_fuel:
  "WriteString_loop k wr hankaku ft pos s x color t = Some r \<Longrightarrow>
   WriteString_loop (length s + 1) wr hankaku ft pos s x color t = Some r"
proof (induction k arbitrary: s x t)
  case (Suc k)
  show ?case
  proof (cases "s = [] \<or> s ! 0 = 0")
    case False
    from Suc.prems False obtain u n t' e where
      u: "ConvertUTF8To32 s = Some (u, n)" "WriteUnicode wr hankaku ft (pos + Vec (8 * x) 0) u color t = Some (t', e)"
        "WriteString_loop k wr hankaku ft pos (drop n s) (x + (if IsHankaku u then 1 else 2)) color t' = Some r"
      by (auto simp: bind_eq_Some_conv)
    have "n \<noteq> 0"
    proof
      assume "n = 0"
      from Convert_consumes [OF u(1) this] obtain b rest where "s = b # rest" "CountUTF8Size b = 0"
        by (cases s) auto
      with u(3) \<open>n = 0\<close> show False by (simp add: WriteString_loop_stuck)
    qed
    define j where "j = length s - length (drop n s) - 1"
    from \<open>n \<noteq> 0\<close> False have len: "length (drop n s) + 1 + j = length s"
      by (cases s) (auto simp: j_def)
    from WriteString_loop_mono [OF Suc.IH [OF u(3)], of j]
    have "WriteString_loop (length s) wr hankaku ft pos (drop n s) (x + (if IsHankaku u then 1 else 2)) color t' = Some r"
      unfolding len .
    with u(1,2) False show ?thesis by simp
  qed (use Suc.prems in auto)
qed simp

lemma DrawString_returns:
  "(\<exists>fuel. WriteString fuel wr hankaku ft pos s color t = Some r) \<longleftrightarrow> DrawString wr hankaku ft pos s color t = Some r"
  unfolding WriteString_def DrawString_def by (rule iffI, elim exE, erule WriteString_fuel, erule exI)

section \<open>Both copies of the pixels agree\<close>

definition win_inside :: "Window \<Rightarrow> Vector2D \<Rightarrow> bool" where
  "win_inside w p \<longleftrightarrow> in_rect (Vec 0 0) (Window_Size w) p"

definition win_pixel :: "Window \<Rightarrow> Vector2D \<Rightarrow> PixelColor" where
  "win_pixel w p = win_data w ! nat (vy p) ! nat (vx p)"

definition wf_win :: "Window \<Rightarrow> bool" where
  "wf_win w \<longleftrightarrow>
    0 \<le> win_width w \<and> 0 \<le> win_height w \<and> length (win_data w) = nat (win_height w) \<and>
    (\<forall>row \<in> set (win_data w). length row = nat (win_width w)) \<and>
    (\<exists>fb. win_shadow w = Some fb \<and> wf_fb fb \<and> fb_inside fb = win_inside w \<and>
       (\<forall>p. win_inside w p \<longrightarrow> fb_pixel fb p = win_pixel w p))"

lemma At_iff:
  assumes "wf_win w"
  shows "At w p = (if win_inside w p then Some (win_pixel w p) else None)"
proof -
  have len: "length (win_data w ! nat (vy p)) = nat (win_width w)" if "nat (vy p) < length (win_data w)"
    using assms nth_mem [OF that] by (simp add: wf_win_def)
  have "nat i < nat n \<longleftrightarrow> i < n" if "0 \<le> i" for i n :: int using that by auto
  moreover have "length (win_data w) = nat (win_height w)" using assms by (simp add: wf_win_def)
  ultimately show ?thesis using len
    by (auto simp: At_def win_inside_def win_pixel_def in_rect_def Window_Size_def)
qed

lemma Window_Write_ok:
  assumes "wf_win w" "win_inside w p"
  shows "\<exists>w'. Window_Write w p c = Some w' \<and> wf_win w' \<and> win_inside w' = win_inside w \<and>
    (\<forall>q. win_inside w q \<longrightarrow> win_pixel w' q = (if q = p then c else win_pixel w q))"
proof -
  obtain fb where fb: "win_shadow w = Some fb" "wf_fb fb" "fb_inside fb = win_inside w"
    "\<forall>p. win_inside w p \<longrightarrow> fb_pixel fb p = win_pixel w p"
    using assms(1) by (auto simp: wf_win_def)
  from WritePixel_ok [OF fb(2), of p c] fb(3) assms(2) obtain fb' where
    fb': "WritePixel fb p c = Some fb'" "wf_fb fb'" "fb_inside fb' = win_inside w"
      "\<forall>q. win_inside w q \<longrightarrow> fb_pixel fb' q = (if q = p then c else fb_pixel fb q)" by auto
  let ?y = "nat (vy p)"
  let ?x = "nat (vx p)"
  define w' where "w' = w\<lparr>win_data := (win_data w)[?y := (win_data w ! ?y)[?x := c]], win_shadow := Some fb'\<rparr>"
  have "Window_Write w p c = Some w'"
    using assms(2) by (simp add: Window_Write_def At_iff [OF assms(1)] fb(1) fb'(1) w'_def Let_def)
  moreover have "win_inside w' = win_inside w"
    by (simp add: w'_def fun_eq_iff win_inside_def Window_Size_def)
  moreover have p: "0 \<le> vx p" "0 \<le> vy p" "?y < length (win_data w)" "?x < nat (win_width w)"
    using assms by (auto simp: win_inside_def in_rect_def Window_Size_def wf_win_def)
  have row: "length (win_data w ! ?y) = nat (win_width w)"
    using assms(1) nth_mem [OF p(3)] by (simp add: wf_win_def)
  have pix: "win_pixel w' q = (if q = p then c else win_pixel w q)" if q: "win_inside w q" for q
  proof (cases "nat (vy q) = ?y")
    case True
    have "0 \<le> vx q" "0 \<le> vy q" using q by (auto simp: win_inside_def in_rect_def)
    with True p have "q = p \<longleftrightarrow> nat (vx q) = ?x" by (cases q; cases p) auto
    with True p row show ?thesis by (simp add: win_pixel_def w'_def nth_list_update)
  next
    case False
    then show ?thesis by (auto simp: win_pixel_def w'_def)
  qed
  moreover have "wf_win w'"
  proof -
    have "\<forall>r \<in> set (win_data w'). length r = nat (win_width w)"
      using assms(1) row set_update_subset_insert [of "win_data w" ?y "(win_data w ! ?y)[?x := c]"]
      by (auto simp: w'_def wf_win_def)
    with assms(1) fb' fb(4) pix \<open>win_inside w' = win_inside w\<close> show ?thesis
      by (simp add: wf_win_def) (simp add: w'_def)
  qed
  ultimately show ?thesis by blast
qed

interpretation winw: pixel_writer Window_Write wf_win win_inside win_pixel
  by unfold_locales (use Window_Write_ok in blast)

section \<open>Drawing a window\<close>

lemma rect_points_empty:
  assumes "vx (rsize r) \<le> 0 \<or> vy (rsize r) \<le> 0" shows "\<not> in_rect (rpos r) (rsize r) p"
  using assms by (auto simp: in_rect_def)

lemma Window_DrawTo_spec:
  assumes win: "wf_win w" "win_transparent w = None" and dst: "wf_fb dst"
    and fmt: "\<And>fb. win_shadow w = Some fb \<Longrightarrow> pixel_format (fb_config fb) = pixel_format (fb_config dst)"
    and area: "0 \<le> vx (rsize area)" "0 \<le> vy (rsize area)"
  shows "\<exists>dst'. Window_DrawTo w dst pos area = Some dst' \<and> wf_fb dst' \<and> fb_config dst' = fb_config dst \<and>
    (\<forall>q. fb_inside dst q \<longrightarrow> fb_pixel dst' q =
      (if in_rect (rpos area) (rsize area) q \<and> win_inside w (q - pos) then win_pixel w (q - pos) else fb_pixel dst q))"
proof -
  obtain fb where fb: "win_shadow w = Some fb" "wf_fb fb" "fb_inside fb = win_inside w"
    "\<forall>p. win_inside w p \<longrightarrow> fb_pixel fb p = win_pixel w p"
    using win(1) by (auto simp: wf_win_def)
  define i where "i = rect_and area (Rect pos (Window_Size w))"
  have size: "0 \<le> vx (rsize i)" "0 \<le> vy (rsize i)"
    unfolding i_def by (rule rect_and_size; use area win(1) in \<open>simp add: Window_Size_def wf_win_def\<close>)+
  have mem: "in_rect (rpos i) (rsize i) q \<longleftrightarrow> in_rect (rpos area) (rsize area) q \<and> win_inside w (q - pos)" for q
    unfolding i_def in_rect_and by (auto simp: in_rect_def win_inside_def)
  have src: "fb_inside fb q" if "in_rect (rpos (Rect (rpos i - pos) (rsize i))) (rsize (Rect (rpos i - pos) (rsize i))) q" for q
  proof -
    have "in_rect (rpos i) (rsize i) (q + pos)" using that by (simp add: in_rect_def)
    moreover have "q + pos - pos = q" by (simp add: plus_Vector2D_def minus_Vector2D_def)
    ultimately show ?thesis using mem [of "q + pos"] fb(3) by simp
  qed
  from Copy_spec [OF dst fb(2) fmt [OF fb(1), symmetric], of "Rect (rpos i - pos) (rsize i)" "rpos i"] src size obtain dst' where
    d: "Copy dst (rpos i) fb (Rect (rpos i - pos) (rsize i)) = Some (dst', kSuccess)" "wf_fb dst'"
      "fb_config dst' = fb_config dst"
      "\<forall>q. fb_inside dst q \<longrightarrow> fb_pixel dst' q =
        (if in_rect (rpos i) (rsize i) q then fb_pixel fb (rpos i - pos + (q - rpos i)) else fb_pixel dst q)"
    by auto
  have shift: "rpos i - pos + (q - rpos i) = q - pos" for q
    by (simp add: plus_Vector2D_def minus_Vector2D_def)
  have "Window_DrawTo w dst pos area = Some dst'"
    using d(1) by (simp add: Window_DrawTo_def win(2) fb(1) Let_def i_def)
  moreover have "fb_pixel dst' q = (if in_rect (rpos area) (rsize area) q \<and> win_inside w (q - pos)
      then win_pixel w (q - pos) else fb_pixel dst q)" if "fb_inside dst q" for q
    using d(4) that fb(4) mem [of q] by (auto simp: shift)
  ultimately show ?thesis using d(2,3) by blast
qed

lemma new_Window_ok:
  assumes "0 < width" "0 < height" "width * height < 2 ^ 29" "shadow_format \<le> 1"
  shows "\<exists>w. new_Window width height shadow_format = Some w \<and> wf_win w \<and> Window_Size w = Vec width height \<and>
    win_transparent w = None \<and> (\<forall>p. win_inside w p \<longrightarrow> win_pixel w p = PixelColor 0 0 0)"
proof -
  let ?W = "nat width"
  let ?H = "nat height"
  have prod: "?W * ?H < 2 ^ 29"
  proof -
    have "int (?W * ?H) < int (2 ^ 29)" using assms(1-3) by simp
    then show ?thesis by (simp only: of_nat_less_iff)
  qed
  moreover have "?W * 1 \<le> ?W * ?H" "1 * ?H \<le> ?W * ?H"
    using assms(1,2) by (intro mult_le_mono; simp)+
  ultimately have b: "?W < 2 ^ 29" "?H < 2 ^ 29" by linarith+
  have cast: "of_int width = (of_nat ?W :: u32)" "of_int height = (of_nat ?H :: u32)"
    using assms(1,2) by simp_all
  have u: "unat (of_nat ?W :: u32) = ?W" "unat (of_nat ?H :: u32) = ?H"
    using b by (intro unat_of_nat_less; simp)+
  have bpp: "BytesPerPixel shadow_format = 4"
    using assms(4) by (auto simp: BytesPerPixel_def kPixelRGBResv8BitPerColor_def kPixelBGRResv8BitPerColor_def)
  define c where "c = \<lparr>pixels_per_scan_line = (of_nat ?W :: u32), horizontal_resolution = of_nat ?W,
    vertical_resolution = of_nat ?H, pixel_format = shadow_format\<rparr>"
  define fb where "fb = \<lparr>fb_config = c, fb_mem = replicate (4 * (?W * ?H)) (0 :: u8)\<rparr>"
  have "unat (4 * of_nat ?W * of_nat ?H :: u32) = 4 * (?W * ?H)"
  proof -
    have "(4 * of_nat ?W * of_nat ?H :: u32) = of_nat (4 * (?W * ?H))" by simp
    also have "unat \<dots> = 4 * (?W * ?H)" by (rule unat_of_nat_less) (use prod in \<open>simp add: mult.commute\<close>)
    finally show ?thesis .
  qed
  then have init: "FrameBuffer_Initialize \<lparr>pixels_per_scan_line = 0, horizontal_resolution = of_int width,
      vertical_resolution = of_int height, pixel_format = shadow_format\<rparr> None = Inr fb"
    unfolding cast by (simp add: FrameBuffer_Initialize_def bpp fb_def c_def)
  have wf: "wf_fb fb"
    using assms(4) b prod by (simp add: wf_fb_def fb_def c_def u)
  define w where "w = \<lparr>win_width = width, win_height = height,
    win_data = replicate ?H (replicate ?W (PixelColor 0 0 0)), win_transparent = None,
    win_shadow = Some fb, win_title = None\<rparr>"
  have new: "new_Window width height shadow_format = Some w"
    using assms(1,2) by (simp add: new_Window_def init w_def)
  have lt: "nat a < nat n \<longleftrightarrow> a < n" if "0 \<le> a" for a n :: int using that by auto
  have inside: "fb_inside fb = win_inside w"
  proof
    fix p
    show "fb_inside fb p = win_inside w p"
      by (cases p) (auto simp: fb_inside_def win_inside_def in_rect_def Window_Size_def w_def fb_def c_def u lt)
  qed
  have pix: "win_pixel w p = PixelColor 0 0 0" if "win_inside w p" for p
    using that by (auto simp: win_pixel_def w_def win_inside_def in_rect_def Window_Size_def lt)
  have "fb_pixel fb p = PixelColor 0 0 0" if "win_inside w p" for p
    using pixel_range(1) [OF wf, of p] that inside by (simp add: fb_pixel_def Let_def) (simp add: fb_def)
  with assms(1,2) wf inside pix have "wf_win w"
    by (simp add: wf_win_def) (simp add: w_def)
  with new pix show ?thesis by (intro exI [of _ w]) (simp add: w_def Window_Size_def)
qed

section \<open>Properties\<close>

lemma in_rect_inside:
  "0 \<le> vx pos \<Longrightarrow> 0 \<le> vy pos \<Longrightarrow> vx pos + vx sz \<le> win_width w \<Longrightarrow> vy pos + vy sz \<le> win_height w \<Longrightarrow>
   \<forall>p. in_rect pos sz p \<longrightarrow> win_inside w p"
  by (auto simp: in_rect_def win_inside_def Window_Size_def)

lemma demo_Window:
  "\<exists>w. new_Window 6 4 1 = Some w \<and> wf_win w \<and> Window_Size w = Vec 6 4 \<and> win_transparent w = None \<and>
    (\<forall>p. win_inside w p \<longrightarrow> win_pixel w p = PixelColor 0 0 0)"
  by (rule new_Window_ok) simp_all

text \<open>
  Filling a rectangle of a window succeeds, paints the rectangle in \<open>data_\<close> and nothing
  else, and keeps the shadow buffer, which is what reaches the screen, equal to \<open>data_\<close>.
\<close>

lemma Window_fill_keeps_shadow:
  assumes "wf_win w" and "\<forall>p. in_rect pos sz p \<longrightarrow> win_inside w p"
  shows "\<exists>w'. FillRectangle Window_Write pos sz c w = Some w' \<and> wf_win w' \<and> win_inside w' = win_inside w \<and>
    (\<forall>q. win_inside w q \<longrightarrow> win_pixel w' q = (if in_rect pos sz q then c else win_pixel w q))"
  using assms by (rule winw.FillRectangle_spec)

lemma Window_fill_keeps_shadow_witness:
  "\<exists>w. new_Window 6 4 1 = Some w \<and> wf_win w \<and>
    (\<exists>w'. FillRectangle Window_Write (Vec 1 1) (Vec 3 2) kDesktopFGColor w = Some w' \<and> wf_win w' \<and>
      win_inside w' = win_inside w \<and>
      (\<forall>q. win_inside w q \<longrightarrow> win_pixel w' q = (if in_rect (Vec 1 1) (Vec 3 2) q then kDesktopFGColor else win_pixel w q)))"
proof -
  obtain w where w: "new_Window 6 4 1 = Some w" "wf_win w" "Window_Size w = Vec 6 4" using demo_Window by blast
  have "\<forall>p. in_rect (Vec 1 1) (Vec 3 2) p \<longrightarrow> win_inside w p"
    by (rule in_rect_inside) (use w(3) in \<open>auto simp: Window_Size_def\<close>)
  from Window_fill_keeps_shadow [OF w(2) this] w show ?thesis by blast
qed

text \<open>
  Drawing a window without a transparent colour at a position of a frame buffer changes
  exactly the pixels that lie in the given area and under the window, and each of them
  becomes the window's pixel at that point.
\<close>

lemma Window_DrawTo_blits:
  assumes "wf_win w" "win_transparent w = None" "wf_fb dst"
    and "\<And>fb. win_shadow w = Some fb \<Longrightarrow> pixel_format (fb_config fb) = pixel_format (fb_config dst)"
    and "0 \<le> vx (rsize area)" "0 \<le> vy (rsize area)"
  shows "\<exists>dst'. Window_DrawTo w dst pos area = Some dst' \<and> wf_fb dst' \<and> fb_config dst' = fb_config dst \<and>
    (\<forall>q. fb_inside dst q \<longrightarrow> fb_pixel dst' q =
      (if in_rect (rpos area) (rsize area) q \<and> win_inside w (q - pos) then win_pixel w (q - pos) else fb_pixel dst q))"
  using assms by (rule Window_DrawTo_spec)

definition demo_win :: Window where
  "demo_win = \<lparr>win_width = 3, win_height = 2, win_data = replicate 2 (replicate 3 (PixelColor 7 7 7)),
     win_transparent = None, win_shadow = Some demo_fb, win_title = None\<rparr>"

lemma demo_win_wf: "wf_win demo_win"
proof -
  have inside: "fb_inside demo_fb = win_inside demo_win"
    by (simp add: fun_eq_iff demo_inside win_inside_def demo_win_def Window_Size_def)
  have "fb_pixel demo_fb p = PixelColor 7 7 7" if "win_inside demo_win p" for p
  proof -
    have m: "fb_mem demo_fb = replicate 32 7" by (simp add: demo_fb_def)
    show ?thesis using pixel_range(1) [OF demo_wf, of p] that inside by (simp add: fb_pixel_def Let_def m)
  qed
  moreover have "win_pixel demo_win p = PixelColor 7 7 7" if "win_inside demo_win p" for p
  proof -
    have "nat (vy p) < 2" "nat (vx p) < 3"
      using that by (auto simp: win_inside_def in_rect_def Window_Size_def demo_win_def)
    then show ?thesis by (simp add: win_pixel_def demo_win_def)
  qed
  ultimately show ?thesis using demo_wf inside by (simp add: wf_win_def) (simp add: demo_win_def)
qed

lemma Window_DrawTo_blits_witness:
  "\<exists>dst'. Window_DrawTo demo_win demo_fb (Vec 1 1) (Rect (Vec 0 0) (Vec 3 2)) = Some dst' \<and> wf_fb dst' \<and>
    fb_config dst' = fb_config demo_fb \<and>
    (\<forall>q. fb_inside demo_fb q \<longrightarrow> fb_pixel dst' q =
      (if in_rect (rpos (Rect (Vec 0 0) (Vec 3 2))) (rsize (Rect (Vec 0 0) (Vec 3 2))) q \<and> win_inside demo_win (q - Vec 1 1)
       then win_pixel demo_win (q - Vec 1 1) else fb_pixel demo_fb q))"
  by (rule Window_DrawTo_blits [OF demo_win_wf _ demo_wf]) (simp_all add: demo_win_def)

section \<open>Moving rows within a window\<close>

lemma move_rows_up:
  assumes "d + n \<le> s" "0 < h \<Longrightarrow> s + (h - 1) * line + n \<le> length mem"
  shows "\<exists>m. move_rows d s n (int line) h mem = Some m \<and> length m = length mem"
  using assms
proof (induction h arbitrary: d s mem)
  case (Suc h)
  have b: "s + h * line + n \<le> length mem" using Suc.prems(2) by simp
  then have "0 < n \<longrightarrow> d + n \<le> length mem \<and> s + n \<le> length mem" using Suc.prems(1) by linarith
  from copy_row_ok [OF this] obtain u where u: "copy_row d s n mem mem = Some u" "length u = length mem" by blast
  have no: "\<not> (0 < n \<and> d < s + n \<and> s < d + n)" using Suc.prems(1) by simp
  show ?case
  proof (cases "h = 0")
    case False
    then have "s + line + (h - 1) * line + n \<le> length u" using b u(2) by (cases h) auto
    with Suc.IH [of "d + line" "s + line" u] Suc.prems(1) u(2) obtain m where
      "move_rows (d + line) (s + line) n (int line) h u = Some m" "length m = length mem" by auto
    then show ?thesis using u False no by (simp add: nat_add_distrib)
  qed (use u no in simp)
qed simp

section \<open>Windows without regard to their contents\<close>

text \<open>\<open>Move\<close> changes only the shadow buffer, so that the two copies need not agree after it.\<close>

definition wf_pixels :: "Window \<Rightarrow> bool" where
  "wf_pixels w \<longleftrightarrow> length (win_data w) = nat (win_height w) \<and>
    (\<forall>row \<in> set (win_data w). length row = nat (win_width w)) \<and>
    (\<exists>fb. win_shadow w = Some fb \<and> wf_fb fb \<and> fb_inside fb = win_inside w)"

lemma wf_win_pixels: "wf_win w \<Longrightarrow> wf_pixels w"
  by (auto simp: wf_pixels_def wf_win_def)

lemma wf_pixels_write:
  assumes "wf_pixels w" "win_inside w p"
  shows "\<exists>w'. Window_Write w p c = Some w' \<and> wf_pixels w' \<and> Window_Size w' = Window_Size w"
proof -
  obtain fb where fb: "win_shadow w = Some fb" "wf_fb fb" "fb_inside fb = win_inside w"
    using assms(1) by (auto simp: wf_pixels_def)
  from WritePixel_ok [OF fb(2), of p c] fb(3) assms(2) obtain fb' where
    fb': "WritePixel fb p c = Some fb'" "wf_fb fb'" "fb_inside fb' = win_inside w" by auto
  let ?y = "nat (vy p)"
  let ?x = "nat (vx p)"
  define w' where "w' = w\<lparr>win_data := (win_data w)[?y := (win_data w ! ?y)[?x := c]], win_shadow := Some fb'\<rparr>"
  have p: "0 \<le> vx p" "0 \<le> vy p" "?y < length (win_data w)" "?x < nat (win_width w)"
    using assms by (auto simp: win_inside_def in_rect_def Window_Size_def wf_pixels_def)
  have row: "length (win_data w ! ?y) = nat (win_width w)"
    using assms(1) nth_mem [OF p(3)] by (simp add: wf_pixels_def)
  have "Window_Write w p c = Some w'"
    using p row by (simp add: Window_Write_def At_def fb(1) fb'(1) w'_def Let_def)
  moreover have "\<forall>r \<in> set (win_data w'). length r = nat (win_width w')"
    using assms(1) row set_update_subset_insert [of "win_data w" ?y "(win_data w ! ?y)[?x := c]"]
    by (auto simp: w'_def wf_pixels_def)
  moreover have "Window_Size w' = Window_Size w" by (simp add: w'_def Window_Size_def)
  moreover have "win_inside w' = win_inside w"
    by (simp add: w'_def fun_eq_iff win_inside_def Window_Size_def)
  ultimately show ?thesis using assms(1) fb' by (auto simp: wf_pixels_def w'_def)
qed

lemma wf_pixels_move_up:
  assumes "wf_pixels w" and y: "y0 < y1" and size: "0 < a" "0 < b"
    and ins: "win_inside w (Vec x y0)" "win_inside w (Vec (x + a - 1) (y1 + b - 1))"
  shows "\<exists>w'. Window_Move w (Vec x y0) (Rect (Vec x y1) (Vec a b)) = Some w' \<and> wf_pixels w' \<and>
    Window_Size w' = Window_Size w"
proof -
  obtain fb where fb: "win_shadow w = Some fb" "wf_fb fb" "fb_inside fb = win_inside w"
    using assms(1) by (auto simp: wf_pixels_def)
  define D where "D = unat (pixels_per_scan_line (fb_config fb))"
  define off where "off = pixel_offset fb (Vec x y0)"
  have xy: "0 \<le> x" "0 \<le> y0" "x + a - 1 < win_width w" "y1 + b - 1 < win_height w"
    using ins size y by (auto simp: win_inside_def in_rect_def Window_Size_def)
  have i1: "fb_inside fb (Vec x y1)" using xy size y fb(3) by (simp add: win_inside_def in_rect_def Window_Size_def)
  have i2: "fb_inside fb (Vec x y0)" "fb_inside fb (Vec (x + a - 1) (y1 + b - 1))" using ins fb(3) by simp_all
  have o1: "pixel_offset fb (Vec x y1) = off + nat (y1 - y0) * (4 * D)"
    using pixel_offset_row [of "Vec x y0" "Vec x y1" "nat (y1 - y0)" 0 fb] xy y by (simp add: off_def D_def)
  have o2: "pixel_offset fb (Vec (x + a - 1) (y1 + b - 1)) = off + nat (y1 - y0) * (4 * D) + (nat b - 1) * (4 * D) + 4 * (nat a - 1)"
    using pixel_offset_row [of "Vec x y1" "Vec (x + a - 1) (y1 + b - 1)" "nat b - 1" "nat a - 1" fb] xy y size o1
    by (simp add: D_def nat_diff_distrib' of_nat_diff)
  have "nat (x + a - 1) < D"
    using i2(2) fb(2) by (auto simp: fb_inside_def wf_fb_def D_def Let_def word_le_nat_alt)
  then have aD: "nat a \<le> D" using xy size by linarith
  have len: "off + nat (y1 - y0) * (4 * D) + (nat b - 1) * (4 * D) + 4 * nat a \<le> length (fb_mem fb)"
    using pixel_range(1) [OF fb(2) i2(2)] size unfolding o2 by linarith
  have "1 * (4 * D) \<le> nat (y1 - y0) * (4 * D)" using y by (intro mult_le_mono1) simp
  then have above: "off + 4 * nat a \<le> off + nat (y1 - y0) * (4 * D)" using aD by linarith
  obtain m where m: "move_rows off (off + nat (y1 - y0) * (4 * D)) (4 * nat a) (int (4 * D)) (nat b) (fb_mem fb) = Some m"
    "length m = length (fb_mem fb)"
    using move_rows_up [OF above, of "nat b" "4 * D" "fb_mem fb"] len by auto
  note line = wf_line(1,2) [OF fb(2), folded D_def]
  have n: "nat (4 * a) = 4 * nat a" by simp
  have "FrameBuffer_Move fb (Vec x y0) (Rect (Vec x y1) (Vec a b)) = Some (fb\<lparr>fb_mem := m\<rparr>)"
    using m(1) FrameAddrAt_offset [OF fb(2) i2(1)] FrameAddrAt_offset [OF fb(2) i1] o1 y size
    by (simp add: FrameBuffer_Move_def Let_def line off_def nat_mult_distrib)
  then have "Window_Move w (Vec x y0) (Rect (Vec x y1) (Vec a b)) = Some (w\<lparr>win_shadow := Some (fb\<lparr>fb_mem := m\<rparr>)\<rparr>)"
    by (simp add: Window_Move_def fb(1))
  moreover have "wf_fb (fb\<lparr>fb_mem := m\<rparr>)" "fb_inside (fb\<lparr>fb_mem := m\<rparr>) = win_inside w"
    using fb(2,3) m(2) by (simp_all add: wf_fb_def fb_inside_def fun_eq_iff)
  ultimately show ?thesis using assms(1) by (auto simp: wf_pixels_def win_inside_def Window_Size_def)
qed

end
