(* ===== verification/Consoles.thy ===== *)
theory Consoles
  imports Windows
begin

text \<open>
  The text console: \<open>kernel/console.hpp\<close> and \<open>kernel/console.cpp\<close>.  What it draws on (the screen's
  frame buffer before \<open>SetWindow\<close>, the window afterwards) is a state with a pixel writer \<open>wr\<close>
  and, for the window, \<open>mv\<close>, its \<open>Move\<close>.
\<close>

section \<open>The console\<close>

definition kRows :: nat where "kRows = 25"
definition kColumns :: nat where "kColumns = 80"

record Console =
  con_has_window :: bool
  con_fg :: PixelColor
  con_bg :: PixelColor
  con_buffer :: "u8 list list"
  cursor_row :: nat
  cursor_column :: nat
  con_layer_id :: u32

definition new_Console :: "PixelColor \<Rightarrow> PixelColor \<Rightarrow> Console" where
  "new_Console fg_color bg_color =
    \<lparr>con_has_window = False, con_fg = fg_color, con_bg = bg_color,
     con_buffer = replicate kRows (replicate (kColumns + 1) 0),
     cursor_row = 0, cursor_column = 0, con_layer_id = 0\<rparr>"

definition SetLayerID :: "u32 \<Rightarrow> Console \<Rightarrow> Console" where
  "SetLayerID layer_id c = c\<lparr>con_layer_id := layer_id\<rparr>"

text \<open>The rows of \<open>buffer_\<close> follow one another in memory, so a string may run on into the next.\<close>

definition row_string :: "Console \<Rightarrow> nat \<Rightarrow> u8 list" where
  "row_string c row = concat (drop row (con_buffer c))"

fun draw_rows ::
  "('s \<Rightarrow> Vector2D \<Rightarrow> PixelColor \<Rightarrow> 's option) \<Rightarrow> u8 list \<Rightarrow> FreeType \<Rightarrow> Console \<Rightarrow> nat list \<Rightarrow> 's \<Rightarrow> 's option" where
  "draw_rows wr hankaku ft c [] s = Some s"
| "draw_rows wr hankaku ft c (row # rows) s =
    do {
      s' \<leftarrow> DrawString wr hankaku ft (Vec 0 (16 * int row)) (row_string c row) (con_fg c) s;
      draw_rows wr hankaku ft c rows s'
    }"

definition Refresh ::
  "('s \<Rightarrow> Vector2D \<Rightarrow> PixelColor \<Rightarrow> 's option) \<Rightarrow> u8 list \<Rightarrow> FreeType \<Rightarrow> Console \<Rightarrow> 's \<Rightarrow> 's option" where
  "Refresh wr hankaku ft c s =
    do {
      s' \<leftarrow> FillRectangle wr (Vec 0 0) (Vec (8 * int kColumns) (16 * int kRows)) (con_bg c) s;
      draw_rows wr hankaku ft c [0..<kRows] s'
    }"

text \<open>Without a window row after row moves up by one, and is drawn as soon as it is copied.\<close>

fun scroll_rows ::
  "('s \<Rightarrow> Vector2D \<Rightarrow> PixelColor \<Rightarrow> 's option) \<Rightarrow> u8 list \<Rightarrow> FreeType \<Rightarrow> nat list \<Rightarrow> Console \<Rightarrow> 's \<Rightarrow> (Console \<times> 's) option" where
  "scroll_rows wr hankaku ft [] c s = Some (c, s)"
| "scroll_rows wr hankaku ft (row # rows) c s =
    (let c' = c\<lparr>con_buffer := (con_buffer c)[row := con_buffer c ! (row + 1)]\<rparr> in
     do {
       s' \<leftarrow> DrawString wr hankaku ft (Vec 0 (16 * int row)) (row_string c' row) (con_fg c) s;
       scroll_rows wr hankaku ft rows c' s'
     })"

definition Newline ::
  "('s \<Rightarrow> Vector2D \<Rightarrow> PixelColor \<Rightarrow> 's option) \<Rightarrow> ('s \<Rightarrow> Vector2D \<Rightarrow> Rectangle \<Rightarrow> 's option) \<Rightarrow> u8 list \<Rightarrow> FreeType
    \<Rightarrow> Console \<Rightarrow> 's \<Rightarrow> (Console \<times> 's) option" where
  "Newline wr mv hankaku ft c s =
    (let c0 = c\<lparr>cursor_column := 0\<rparr> in
     if cursor_row c0 < kRows - 1 then Some (c0\<lparr>cursor_row := cursor_row c0 + 1\<rparr>, s)
     else if con_has_window c0 then
       do {
         s1 \<leftarrow> mv s (Vec 0 0) (Rect (Vec 0 16) (Vec (8 * int kColumns) (16 * (int kRows - 1))));
         s2 \<leftarrow> FillRectangle wr (Vec 0 (16 * (int kRows - 1))) (Vec (8 * int kColumns) 16) (con_bg c0) s1;
         Some (c0, s2)
       }
     else
       do {
         s1 \<leftarrow> FillRectangle wr (Vec 0 0) (Vec (8 * int kColumns) (16 * int kRows)) (con_bg c0) s;
         (c1, s2) \<leftarrow> scroll_rows wr hankaku ft [0..<kRows - 1] c0 s1;
         Some (c1\<lparr>con_buffer := (con_buffer c1)[kRows - 1 := replicate (kColumns + 1) 0]\<rparr>, s2)
       })"

definition put_char ::
  "('s \<Rightarrow> Vector2D \<Rightarrow> PixelColor \<Rightarrow> 's option) \<Rightarrow> ('s \<Rightarrow> Vector2D \<Rightarrow> Rectangle \<Rightarrow> 's option) \<Rightarrow> u8 list \<Rightarrow> FreeType
    \<Rightarrow> u8 \<Rightarrow> Console \<Rightarrow> 's \<Rightarrow> (Console \<times> 's) option" where
  "put_char wr mv hankaku ft ch c s =
    (if ch = 0x0a then Newline wr mv hankaku ft c s
     else if cursor_column c < kColumns - 1 then
       if cursor_row c < length (con_buffer c) \<and> cursor_column c < length (con_buffer c ! cursor_row c)
       then do {
         s' \<leftarrow> WriteAscii wr hankaku (Vec (8 * int (cursor_column c)) (16 * int (cursor_row c))) ch (con_fg c) s;
         Some (c\<lparr>con_buffer := (con_buffer c)[cursor_row c := (con_buffer c ! cursor_row c)[cursor_column c := ch]],
                 cursor_column := cursor_column c + 1\<rparr>, s')
       } else None
     else Some (c, s))"

text \<open>
  The characters up to the terminator, then \<open>redraw\<close>: \<open>layer_manager->Draw(layer_id_)\<close> when
  there is a layer manager.
\<close>

fun put_chars ::
  "('s \<Rightarrow> Vector2D \<Rightarrow> PixelColor \<Rightarrow> 's option) \<Rightarrow> ('s \<Rightarrow> Vector2D \<Rightarrow> Rectangle \<Rightarrow> 's option) \<Rightarrow> u8 list \<Rightarrow> FreeType
    \<Rightarrow> u8 list \<Rightarrow> Console \<Rightarrow> 's \<Rightarrow> (Console \<times> 's) option" where
  "put_chars wr mv hankaku ft [] c s = None"
| "put_chars wr mv hankaku ft (ch # str) c s =
    (if ch = 0 then Some (c, s)
     else do {
       (c', s') \<leftarrow> put_char wr mv hankaku ft ch c s;
       put_chars wr mv hankaku ft str c' s'
     })"

definition PutString ::
  "('s \<Rightarrow> Vector2D \<Rightarrow> PixelColor \<Rightarrow> 's option) \<Rightarrow> ('s \<Rightarrow> Vector2D \<Rightarrow> Rectangle \<Rightarrow> 's option) \<Rightarrow> u8 list \<Rightarrow> FreeType
    \<Rightarrow> (u32 \<Rightarrow> 's \<Rightarrow> 's option) \<Rightarrow> u8 list \<Rightarrow> Console \<Rightarrow> 's \<Rightarrow> (Console \<times> 's) option" where
  "PutString wr mv hankaku ft redraw str c s =
    do {
      (c', s') \<leftarrow> put_chars wr mv hankaku ft str c s;
      s'' \<leftarrow> redraw (con_layer_id c') s';
      Some (c', s'')
    }"

text \<open>
  A new target; \<open>s\<close> is the state of that target.  (For the writer or window already set the
  source returns at once.)
\<close>

definition SetWriter ::
  "('s \<Rightarrow> Vector2D \<Rightarrow> PixelColor \<Rightarrow> 's option) \<Rightarrow> u8 list \<Rightarrow> FreeType \<Rightarrow> bool \<Rightarrow> Console \<Rightarrow> 's \<Rightarrow> (Console \<times> 's) option" where
  "SetWriter wr hankaku ft same c s =
    (if same then Some (c, s)
     else let c' = c\<lparr>con_has_window := False\<rparr> in map_option (\<lambda>s'. (c', s')) (Refresh wr hankaku ft c' s))"

definition SetWindow ::
  "('s \<Rightarrow> Vector2D \<Rightarrow> PixelColor \<Rightarrow> 's option) \<Rightarrow> u8 list \<Rightarrow> FreeType \<Rightarrow> bool \<Rightarrow> Console \<Rightarrow> 's \<Rightarrow> (Console \<times> 's) option" where
  "SetWindow wr hankaku ft same c s =
    (if same then Some (c, s)
     else let c' = c\<lparr>con_has_window := True\<rparr> in map_option (\<lambda>s'. (c', s')) (Refresh wr hankaku ft c' s))"

definition InitializeConsole ::
  "('s \<Rightarrow> Vector2D \<Rightarrow> PixelColor \<Rightarrow> 's option) \<Rightarrow> u8 list \<Rightarrow> FreeType \<Rightarrow> 's \<Rightarrow> (Console \<times> 's) option" where
  "InitializeConsole wr hankaku ft s =
    SetWriter wr hankaku ft False (new_Console kDesktopFGColor kDesktopBGColor) s"

section \<open>The contract of a target with scrolling\<close>

definition console_area :: "Vector2D \<Rightarrow> bool" where
  "console_area p \<longleftrightarrow> in_rect (Vec 0 0) (Vec 640 400) p"

definition wf_console :: "Console \<Rightarrow> bool" where
  "wf_console c \<longleftrightarrow> length (con_buffer c) = kRows \<and> (\<forall>r \<in> set (con_buffer c). length r = kColumns + 1) \<and>
     cursor_row c < kRows \<and> cursor_column c < kColumns"

locale console_target =
  fixes wr :: "'s \<Rightarrow> Vector2D \<Rightarrow> PixelColor \<Rightarrow> 's option"
    and mv :: "'s \<Rightarrow> Vector2D \<Rightarrow> Rectangle \<Rightarrow> 's option"
    and inv :: "'s \<Rightarrow> bool"
  assumes write_ok: "inv s \<Longrightarrow> console_area p \<Longrightarrow> \<exists>s'. wr s p c = Some s' \<and> inv s'"
    and move_ok: "inv s \<Longrightarrow> \<exists>s'. mv s (Vec 0 0) (Rect (Vec 0 16) (Vec 640 384)) = Some s' \<and> inv s'"
begin

lemma write_all_ok: "inv s \<Longrightarrow> \<forall>p \<in> set ps. console_area p \<Longrightarrow> \<exists>s'. write_all wr ps c s = Some s' \<and> inv s'"
proof (induction ps arbitrary: s)
  case (Cons p ps)
  then obtain u where "wr s p c = Some u" "inv u" using write_ok [of s p c] by auto
  with Cons show ?case by auto
qed simp

lemma WriteAscii_ok:
  assumes "inv s" "length hankaku = 4096" "col < kColumns" "row < kRows"
  shows "\<exists>s'. WriteAscii wr hankaku (Vec (8 * int col) (16 * int row)) ch color s = Some s' \<and> inv s'"
proof -
  have "\<forall>p \<in> set (ascii_points font (Vec (8 * int col) (16 * int row))). console_area p" for font
    using assms(3,4) by (auto simp: ascii_points_def console_area_def in_rect_def kColumns_def kRows_def)
  from write_all_ok [OF assms(1) this] GetFont_readable [OF assms(2)] assms(1) show ?thesis
    by (fastforce simp: WriteAscii_def split: option.split)
qed

lemma Fill_ok:
  assumes "inv s" "0 \<le> y" "y + h \<le> 400"
  shows "\<exists>s'. FillRectangle wr (Vec 0 y) (Vec 640 h) color s = Some s' \<and> inv s'"
  unfolding FillRectangle_def
  by (rule write_all_ok [OF assms(1)]) (use assms(2,3) in \<open>simp add: set_fill_points console_area_def in_rect_def\<close>)

lemma Newline_ok:
  assumes "inv s" "wf_console c" "con_has_window c"
  shows "\<exists>c' s'. Newline wr mv hankaku ft c s = Some (c', s') \<and> inv s' \<and> wf_console c' \<and> con_has_window c'"
proof (cases "cursor_row c < kRows - 1")
  case True
  with assms show ?thesis by (simp add: Newline_def wf_console_def kColumns_def)
next
  case False
  obtain u where "mv s (Vec 0 0) (Rect (Vec 0 16) (Vec 640 384)) = Some u" "inv u" using move_ok [OF assms(1)] by blast
  moreover obtain v where "FillRectangle wr (Vec 0 384) (Vec 640 16) (con_bg c) u = Some v" "inv v"
    using Fill_ok [OF \<open>inv u\<close>, of 384 16 "con_bg c"] by auto
  ultimately show ?thesis using False assms
    by (simp add: Newline_def wf_console_def kColumns_def kRows_def)
qed

lemma put_char_ok:
  assumes "inv s" "wf_console c" "con_has_window c" "length hankaku = 4096"
  shows "\<exists>c' s'. put_char wr mv hankaku ft ch c s = Some (c', s') \<and> inv s' \<and> wf_console c' \<and> con_has_window c'"
proof (cases "ch = 0x0a \<or> \<not> cursor_column c < kColumns - 1")
  case True
  then show ?thesis using Newline_ok [OF assms(1-3)] assms by (auto simp: put_char_def)
next
  case False
  have c: "cursor_row c < kRows" "cursor_column c < kColumns" "length (con_buffer c) = kRows"
    and row: "length (con_buffer c ! cursor_row c) = kColumns + 1"
    using assms(2) by (auto simp: wf_console_def)
  from WriteAscii_ok [OF assms(1,4) c(2,1)] obtain s' where
    s': "WriteAscii wr hankaku (Vec (8 * int (cursor_column c)) (16 * int (cursor_row c))) ch (con_fg c) s = Some s'" "inv s'"
    by blast
  have "\<forall>r \<in> set ((con_buffer c)[cursor_row c := (con_buffer c ! cursor_row c)[cursor_column c := ch]]). length r = kColumns + 1"
    using assms(2) row set_update_subset_insert [of "con_buffer c"] by (fastforce simp: wf_console_def)
  moreover have "cursor_column c + 1 < kColumns" using False by auto
  ultimately show ?thesis using False c row s' assms(2,3) by (simp add: put_char_def wf_console_def)
qed

lemma put_chars_ok:
  assumes "length hankaku = 4096"
  shows "inv s \<Longrightarrow> wf_console c \<Longrightarrow> con_has_window c \<Longrightarrow> 0 \<in> set str \<Longrightarrow>
    \<exists>c' s'. put_chars wr mv hankaku ft str c s = Some (c', s') \<and> inv s' \<and> wf_console c' \<and> con_has_window c'"
proof (induction str arbitrary: c s)
  case (Cons ch str)
  show ?case
  proof (cases "ch = 0")
    case False
    from put_char_ok [OF Cons.prems(1-3) assms] obtain c' s' where
      "put_char wr mv hankaku ft ch c s = Some (c', s')" "inv s'" "wf_console c'" "con_has_window c'" by blast
    with Cons.IH [of s' c'] Cons.prems(4) False show ?thesis by auto
  qed (use Cons.prems in simp)
qed simp

end

section \<open>A window is such a target\<close>

definition drawable :: "Window \<Rightarrow> bool" where
  "drawable w \<longleftrightarrow> 640 \<le> win_width w \<and> 400 \<le> win_height w \<and> wf_pixels w"

lemma wf_win_drawable: "wf_win w \<Longrightarrow> 640 \<le> win_width w \<Longrightarrow> 400 \<le> win_height w \<Longrightarrow> drawable w"
  by (simp add: drawable_def wf_win_pixels)

lemma drawable_inside: "drawable w \<Longrightarrow> console_area p \<Longrightarrow> win_inside w p"
  by (auto simp: drawable_def console_area_def win_inside_def in_rect_def Window_Size_def)

lemma drawable_size: "wf_pixels w' \<Longrightarrow> Window_Size w' = Window_Size w \<Longrightarrow> drawable w \<Longrightarrow> drawable w'"
  by (simp add: drawable_def Window_Size_def)

lemma drawable_write:
  assumes "drawable w" "console_area p"
  shows "\<exists>w'. Window_Write w p c = Some w' \<and> drawable w'"
  using wf_pixels_write [of w p c] drawable_inside [OF assms] drawable_size [OF _ _ assms(1)] assms(1)
  by (auto simp: drawable_def)

lemma drawable_move:
  assumes "drawable w"
  shows "\<exists>w'. Window_Move w (Vec 0 0) (Rect (Vec 0 16) (Vec 640 384)) = Some w' \<and> drawable w'"
proof -
  have "win_inside w (Vec 0 0)" "win_inside w (Vec (0 + 640 - 1) (16 + 384 - 1))"
    using drawable_inside [OF assms] by (simp_all add: console_area_def in_rect_def)
  from wf_pixels_move_up [OF _ _ _ _ this] drawable_size [OF _ _ assms] assms show ?thesis
    by (auto simp: drawable_def)
qed

interpretation conw: console_target Window_Write Window_Move drawable
  by unfold_locales (use drawable_write drawable_move in blast)+

section \<open>Properties\<close>

text \<open>
  C31. On a window of at least 640 by 400 pixels, writing any terminated string to the console
  stays inside the text buffer, the window's pixel array and its shadow buffer: the cursor
  remains in the 25 by 80 grid whatever the string, and the text scrolls when it is full.
\<close>

theorem PutString_in_bounds:
  assumes "length hankaku = 4096" "drawable w" "wf_console c" "con_has_window c" "0 \<in> set str"
  shows "\<exists>c' w'. PutString Window_Write Window_Move hankaku ft (\<lambda>_. Some) str c w = Some (c', w') \<and>
    wf_console c' \<and> drawable w'"
  using conw.put_chars_ok [OF assms(1,2,3,4,5), of ft] by (auto simp: PutString_def)

theorem PutString_in_bounds_witness:
  "\<exists>w. new_Window 640 400 1 = Some w \<and> (\<exists>c' w'. PutString Window_Write Window_Move (replicate 4096 1) demo_ft (\<lambda>_. Some)
    [0x41, 0x0a, 0] (new_Console kDesktopFGColor kDesktopBGColor\<lparr>con_has_window := True\<rparr>) w = Some (c', w') \<and>
    wf_console c' \<and> drawable w')"
proof -
  obtain w where w: "new_Window 640 400 1 = Some w" "wf_win w" "Window_Size w = Vec 640 400"
    using new_Window_ok [of 640 400 1] by auto
  then have "drawable w" by (intro wf_win_drawable) (simp_all add: Window_Size_def)
  moreover have "wf_console (new_Console kDesktopFGColor kDesktopBGColor\<lparr>con_has_window := True\<rparr>)"
    by (simp add: wf_console_def new_Console_def kRows_def kColumns_def)
  ultimately show ?thesis using w(1)
    by (intro exI [of _ w] conjI PutString_in_bounds) simp_all
qed

end
