(* ===== verification/Layers.thy ===== *)
theory Layers
  imports Consoles Scheduler
begin

text \<open>
  Overlapping windows: \<open>kernel/layer.hpp\<close> and \<open>kernel/layer.cpp\<close>.  A \<open>Layer*\<close> is the layer's
  number (the numbers of the layers in \<open>layers_\<close> differ), \<open>None\<close> the null pointer; a shared
  pointer to a window is a key of the window store \<open>windows\<close>.
\<close>

section \<open>Layers\<close>

record Layer =
  layer_num :: nat
  layer_pos :: Vector2D
  layer_window :: "nat option"
  layer_draggable :: bool

definition new_Layer :: "nat \<Rightarrow> Layer" where
  "new_Layer i = \<lparr>layer_num = i, layer_pos = Vec 0 0, layer_window = None, layer_draggable = False\<rparr>"

definition Layer_Move :: "Vector2D \<Rightarrow> Layer \<Rightarrow> Layer" where
  "Layer_Move pos l = l\<lparr>layer_pos := pos\<rparr>"

definition Layer_MoveRelative :: "Vector2D \<Rightarrow> Layer \<Rightarrow> Layer" where
  "Layer_MoveRelative pos_diff l = l\<lparr>layer_pos := layer_pos l + pos_diff\<rparr>"

definition SetWindow_layer :: "nat \<Rightarrow> Layer \<Rightarrow> Layer" where
  "SetWindow_layer w l = l\<lparr>layer_window := Some w\<rparr>"

definition SetDraggable :: "bool \<Rightarrow> Layer \<Rightarrow> Layer" where
  "SetDraggable b l = l\<lparr>layer_draggable := b\<rparr>"

record LayerManager =
  lm_screen :: FrameBuffer
  lm_back :: FrameBuffer
  lm_layers :: "Layer list"
  layer_stack :: "nat option list"
  latest_id :: nat

text \<open>\<open>LayerManager::SetWriter\<close> on a new manager; the result of \<open>Initialize\<close> is ignored.\<close>

definition LM_SetWriter :: "FrameBuffer \<Rightarrow> LayerManager" where
  "LM_SetWriter scr =
    \<lparr>lm_screen = scr,
     lm_back = (case FrameBuffer_Initialize (fb_config scr) None of
        Inl e \<Rightarrow> \<lparr>fb_config = \<lparr>pixels_per_scan_line = 0, horizontal_resolution = 0, vertical_resolution = 0,
                   pixel_format = 0\<rparr>, fb_mem = []\<rparr>
      | Inr fb \<Rightarrow> fb),
     lm_layers = [], layer_stack = [], latest_id = 0\<rparr>"

definition NewLayer :: "LayerManager \<Rightarrow> LayerManager \<times> nat" where
  "NewLayer lm =
    (let i = (latest_id lm + 1) mod 2 ^ 32 in
     (lm\<lparr>latest_id := i, lm_layers := lm_layers lm @ [new_Layer i]\<rparr>, i))"

definition FindLayer :: "LayerManager \<Rightarrow> nat \<Rightarrow> Layer option" where
  "FindLayer lm i = find (\<lambda>l. layer_num l = i) (lm_layers lm)"

definition layer_ptr :: "LayerManager \<Rightarrow> nat \<Rightarrow> nat option" where
  "layer_ptr lm i = map_option layer_num (FindLayer lm i)"

definition deref :: "LayerManager \<Rightarrow> nat option \<Rightarrow> Layer option" where
  "deref lm p = (case p of None \<Rightarrow> None | Some i \<Rightarrow> FindLayer lm i)"

definition update_layer :: "nat \<Rightarrow> (Layer \<Rightarrow> Layer) \<Rightarrow> LayerManager \<Rightarrow> LayerManager" where
  "update_layer i f lm = lm\<lparr>lm_layers := map (\<lambda>l. if layer_num l = i then f l else l) (lm_layers lm)\<rparr>"

section \<open>The stack\<close>

definition Hide :: "nat \<Rightarrow> LayerManager \<Rightarrow> LayerManager" where
  "Hide i lm = lm\<lparr>layer_stack := remove1 (layer_ptr lm i) (layer_stack lm)\<rparr>"

definition RemoveLayer :: "nat \<Rightarrow> LayerManager \<Rightarrow> LayerManager" where
  "RemoveLayer i lm =
    (let lm1 = Hide i lm in lm1\<lparr>lm_layers := filter (\<lambda>l. layer_num l \<noteq> i) (lm_layers lm1)\<rparr>)"

definition insert_at :: "nat \<Rightarrow> 'a \<Rightarrow> 'a list \<Rightarrow> 'a list" where
  "insert_at k x xs = take k xs @ x # drop k xs"

definition UpDown :: "nat \<Rightarrow> int \<Rightarrow> LayerManager \<Rightarrow> LayerManager" where
  "UpDown i new_height lm =
    (if new_height < 0 then Hide i lm
     else
       let stack = layer_stack lm;
           height = (if int (length stack) < new_height then length stack else nat new_height);
           layer = layer_ptr lm i
       in if layer \<notin> set stack then lm\<lparr>layer_stack := insert_at height layer stack\<rparr>
          else let new_pos = (if height = length stack then height - 1 else height) in
            lm\<lparr>layer_stack := insert_at new_pos layer (remove1 layer stack)\<rparr>)"

text \<open>The search dereferences every pointer up to the one found.\<close>

fun height_from :: "LayerManager \<Rightarrow> nat \<Rightarrow> nat option list \<Rightarrow> int \<Rightarrow> int option" where
  "height_from lm i [] h = Some (- 1)"
| "height_from lm i (p # ps) h =
    (case deref lm p of
       None \<Rightarrow> None
     | Some l \<Rightarrow> if layer_num l = i then Some h else height_from lm i ps (h + 1))"

definition GetHeight :: "LayerManager \<Rightarrow> nat \<Rightarrow> int option" where
  "GetHeight lm i = height_from lm i (layer_stack lm) 0"

fun find_by_position ::
  "LayerManager \<Rightarrow> (nat \<Rightarrow> Window option) \<Rightarrow> Vector2D \<Rightarrow> nat \<Rightarrow> nat option list \<Rightarrow> Layer option option" where
  "find_by_position lm wins pos exclude_id [] = Some None"
| "find_by_position lm wins pos exclude_id (p # ps) =
    (case deref lm p of
       None \<Rightarrow> None
     | Some l \<Rightarrow>
         if layer_num l = exclude_id then find_by_position lm wins pos exclude_id ps
         else case layer_window l of
           None \<Rightarrow> find_by_position lm wins pos exclude_id ps
         | Some k \<Rightarrow>
             (case wins k of
                None \<Rightarrow> None
              | Some w \<Rightarrow>
                  if in_rect (layer_pos l) (Window_Size w) pos then Some (Some l)
                  else find_by_position lm wins pos exclude_id ps))"

definition FindLayerByPosition ::
  "LayerManager \<Rightarrow> (nat \<Rightarrow> Window option) \<Rightarrow> Vector2D \<Rightarrow> nat \<Rightarrow> Layer option option" where
  "FindLayerByPosition lm wins pos exclude_id =
    find_by_position lm wins pos exclude_id (rev (layer_stack lm))"

section \<open>Drawing\<close>

definition Layer_DrawTo :: "(nat \<Rightarrow> Window option) \<Rightarrow> Layer \<Rightarrow> FrameBuffer \<Rightarrow> Rectangle \<Rightarrow> FrameBuffer option" where
  "Layer_DrawTo wins l scr area =
    (case layer_window l of
       None \<Rightarrow> Some scr
     | Some k \<Rightarrow> (case wins k of None \<Rightarrow> None | Some w \<Rightarrow> Window_DrawTo w scr (layer_pos l) area))"

fun draw_layers ::
  "LayerManager \<Rightarrow> (nat \<Rightarrow> Window option) \<Rightarrow> nat option list \<Rightarrow> Rectangle \<Rightarrow> FrameBuffer \<Rightarrow> FrameBuffer option" where
  "draw_layers lm wins [] area bk = Some bk"
| "draw_layers lm wins (p # ps) area bk =
    do {
      l \<leftarrow> deref lm p;
      bk' \<leftarrow> Layer_DrawTo wins l bk area;
      draw_layers lm wins ps area bk'
    }"

definition show_area :: "Rectangle \<Rightarrow> FrameBuffer \<Rightarrow> LayerManager \<Rightarrow> LayerManager option" where
  "show_area area bk lm =
    map_option (\<lambda>r. lm\<lparr>lm_back := bk, lm_screen := fst r\<rparr>) (Copy (lm_screen lm) (rpos area) bk area)"

definition Draw_area :: "(nat \<Rightarrow> Window option) \<Rightarrow> Rectangle \<Rightarrow> LayerManager \<Rightarrow> LayerManager option" where
  "Draw_area wins area lm =
    do {
      bk \<leftarrow> draw_layers lm wins (layer_stack lm) area (lm_back lm);
      show_area area bk lm
    }"

text \<open>
  The layers from \<open>i\<close> upwards; \<open>window_area\<close> has no value before the layer is met.  (The
  argument \<open>area\<close> moves when it is met, which matters for the rest of the loop only if the
  same number came twice.)
\<close>

fun draw_above ::
  "LayerManager \<Rightarrow> (nat \<Rightarrow> Window option) \<Rightarrow> nat \<Rightarrow> nat option list \<Rightarrow> Rectangle \<Rightarrow> Rectangle option \<Rightarrow> FrameBuffer
    \<Rightarrow> (FrameBuffer \<times> Rectangle option) option" where
  "draw_above lm wins i [] area window_area bk = Some (bk, window_area)"
| "draw_above lm wins i (p # ps) area window_area bk =
    do {
      l \<leftarrow> deref lm p;
      (area', window_area') \<leftarrow>
        (if layer_num l = i then
           do {
             k \<leftarrow> layer_window l;
             w \<leftarrow> wins k;
             let wa = Rect (layer_pos l) (Window_Size w) in
             if 0 \<le> vx (rsize area) \<or> 0 \<le> vy (rsize area)
             then let area' = Rect (rpos area + rpos wa) (rsize area) in Some (area', Some (rect_and wa area'))
             else Some (area, Some wa)
           }
         else Some (area, window_area));
      bk' \<leftarrow> (case window_area' of None \<Rightarrow> Some bk | Some wa \<Rightarrow> Layer_DrawTo wins l bk wa);
      draw_above lm wins i ps area' window_area' bk'
    }"

definition Draw_layer_area :: "(nat \<Rightarrow> Window option) \<Rightarrow> nat \<Rightarrow> Rectangle \<Rightarrow> LayerManager \<Rightarrow> LayerManager option" where
  "Draw_layer_area wins i area lm =
    do {
      (bk, window_area) \<leftarrow> draw_above lm wins i (layer_stack lm) area None (lm_back lm);
      wa \<leftarrow> window_area;
      show_area wa bk lm
    }"

definition Draw_layer :: "(nat \<Rightarrow> Window option) \<Rightarrow> nat \<Rightarrow> LayerManager \<Rightarrow> LayerManager option" where
  "Draw_layer wins i lm = Draw_layer_area wins i (Rect (Vec 0 0) (Vec (- 1) (- 1))) lm"

definition move_and_draw ::
  "(nat \<Rightarrow> Window option) \<Rightarrow> nat \<Rightarrow> (Layer \<Rightarrow> Layer) \<Rightarrow> LayerManager \<Rightarrow> LayerManager option" where
  "move_and_draw wins i move lm =
    do {
      l \<leftarrow> FindLayer lm i;
      k \<leftarrow> layer_window l;
      w \<leftarrow> wins k;
      lm1 \<leftarrow> Draw_area wins (Rect (layer_pos l) (Window_Size w)) (update_layer i move lm);
      Draw_layer wins i lm1
    }"

definition LM_Move :: "(nat \<Rightarrow> Window option) \<Rightarrow> nat \<Rightarrow> Vector2D \<Rightarrow> LayerManager \<Rightarrow> LayerManager option" where
  "LM_Move wins i new_pos lm = move_and_draw wins i (Layer_Move new_pos) lm"

definition LM_MoveRelative :: "(nat \<Rightarrow> Window option) \<Rightarrow> nat \<Rightarrow> Vector2D \<Rightarrow> LayerManager \<Rightarrow> LayerManager option" where
  "LM_MoveRelative wins i pos_diff lm = move_and_draw wins i (Layer_MoveRelative pos_diff) lm"

section \<open>The active layer\<close>

record Desktop =
  layers :: LayerManager
  windows :: "nat \<Rightarrow> Window option"
  active_layer :: nat
  mouse_layer :: nat
  layer_task_map :: "nat \<Rightarrow> nat option"
  tasks :: TaskManager

definition SendWindowActiveMessage :: "nat \<Rightarrow> int \<Rightarrow> Desktop \<Rightarrow> (Desktop \<times> ErrorCode) option" where
  "SendWindowActiveMessage layer_id activate d =
    (case layer_task_map d layer_id of
       None \<Rightarrow> Some (d, kNoSuchTask)
     | Some task \<Rightarrow>
         map_option (\<lambda>(tm, e). (d\<lparr>tasks := tm\<rparr>, e))
           (SendMessage (tasks d) task \<lparr>msg_type = kWindowActive, src_task = 0, arg = WindowActiveArg activate\<rparr>))"

definition redecorate ::
  "(Window \<Rightarrow> Window option) \<Rightarrow> nat \<Rightarrow> Desktop \<Rightarrow> Desktop option" where
  "redecorate f i d =
    do {
      l \<leftarrow> FindLayer (layers d) i;
      k \<leftarrow> layer_window l;
      w \<leftarrow> windows d k;
      w' \<leftarrow> f w;
      Some (d\<lparr>windows := (windows d)(k \<mapsto> w')\<rparr>)
    }"

definition draw_desktop_layer :: "nat \<Rightarrow> Desktop \<Rightarrow> Desktop option" where
  "draw_desktop_layer i d = map_option (\<lambda>lm. d\<lparr>layers := lm\<rparr>) (Draw_layer (windows d) i (layers d))"

definition SetMouseLayer :: "nat \<Rightarrow> Desktop \<Rightarrow> Desktop" where
  "SetMouseLayer m d = d\<lparr>mouse_layer := m\<rparr>"

definition Activate :: "u8 list \<Rightarrow> FreeType \<Rightarrow> nat \<Rightarrow> Desktop \<Rightarrow> Desktop option" where
  "Activate hankaku ft layer_id d =
    (if active_layer d = layer_id then Some d
     else do {
       d1 \<leftarrow> (if 0 < active_layer d then do {
               d' \<leftarrow> redecorate (Window_Deactivate hankaku ft) (active_layer d) d;
               d'' \<leftarrow> draw_desktop_layer (active_layer d) d';
               map_option fst (SendWindowActiveMessage (active_layer d) 0 d'')
             } else Some d);
       let d2 = d1\<lparr>active_layer := layer_id\<rparr>;
       if 0 < layer_id then do {
         d3 \<leftarrow> redecorate (Window_Activate hankaku ft) layer_id d2;
         let lm3 = UpDown layer_id 0 (layers d3);
         h \<leftarrow> GetHeight lm3 (mouse_layer d3);
         let d4 = d3\<lparr>layers := UpDown layer_id (h - 1) lm3\<rparr>;
         d5 \<leftarrow> draw_desktop_layer layer_id d4;
         map_option fst (SendWindowActiveMessage layer_id 1 d5)
       } else Some d2
     })"

section \<open>Messages and closing\<close>

definition ProcessLayerMessage :: "MessageArg \<Rightarrow> Desktop \<Rightarrow> Desktop option" where
  "ProcessLayerMessage a d =
    map_option (\<lambda>lm. d\<lparr>layers := lm\<rparr>)
      (case layer_op a of
         Move \<Rightarrow> LM_Move (windows d) (layer_layer_id a) (Vec (layer_x a) (layer_y a)) (layers d)
       | MoveRelative \<Rightarrow> LM_MoveRelative (windows d) (layer_layer_id a) (Vec (layer_x a) (layer_y a)) (layers d)
       | Draw \<Rightarrow> Draw_layer (windows d) (layer_layer_id a) (layers d)
       | DrawArea \<Rightarrow> Draw_layer_area (windows d) (layer_layer_id a)
           (Rect (Vec (layer_x a) (layer_y a)) (Vec (layer_w a) (layer_h a))) (layers d))"

definition MakeLayerMessage :: "nat \<Rightarrow> nat \<Rightarrow> LayerOperation \<Rightarrow> Rectangle \<Rightarrow> Message" where
  "MakeLayerMessage src layer_id op area =
    \<lparr>msg_type = kLayer, src_task = src,
     arg = LayerArg op layer_id (vx (rpos area)) (vy (rpos area)) (vx (rsize area)) (vy (rsize area))\<rparr>"

definition CloseLayer :: "u8 list \<Rightarrow> FreeType \<Rightarrow> nat \<Rightarrow> Desktop \<Rightarrow> (Desktop \<times> ErrorCode) option" where
  "CloseLayer hankaku ft layer_id d =
    (case FindLayer (layers d) layer_id of
       None \<Rightarrow> Some (d, kNoSuchEntry)
     | Some l \<Rightarrow> do {
         k \<leftarrow> layer_window l;
         w \<leftarrow> windows d k;
         d1 \<leftarrow> Activate hankaku ft 0 d;
         lm \<leftarrow> Draw_area (windows d1) (Rect (layer_pos l) (Window_Size w)) (RemoveLayer layer_id (layers d1));
         Some (d1\<lparr>layers := lm, layer_task_map := (layer_task_map d1)(layer_id := None)\<rparr>, kSuccess)
       })"

text \<open>
  \<open>InitializeLayer\<close>: the desktop in window \<open>0\<close>, the console in window \<open>1\<close>; \<open>tm\<close> is the task
  manager that exists by the first use of \<open>SendMessage\<close>.
\<close>

definition InitializeLayer ::
  "u8 list \<Rightarrow> FreeType \<Rightarrow> FrameBufferConfig \<Rightarrow> u8 list \<Rightarrow> TaskManager \<Rightarrow> Console \<Rightarrow> (Desktop \<times> Console) option" where
  "InitializeLayer hankaku ft config mem tm con =
    do {
      let screen_size = ScreenSize config;
      bg0 \<leftarrow> new_Window (vx screen_size) (vy screen_size) (pixel_format config);
      bg \<leftarrow> DrawDesktop Window_Write (win_width bg0) (win_height bg0) bg0;
      cw \<leftarrow> new_Window (int kColumns * 8) (int kRows * 16) (pixel_format config);
      (con1, cw1) \<leftarrow> SetWindow Window_Write hankaku ft False con cw;
      scr \<leftarrow> (case FrameBuffer_Initialize config (Some mem) of Inl e \<Rightarrow> None | Inr fb \<Rightarrow> Some fb);
      let (lm1, bglayer) = NewLayer (LM_SetWriter scr);
      let lm2 = update_layer bglayer (\<lambda>l. Layer_Move (Vec 0 0) (SetWindow_layer 0 l)) lm1;
      let (lm3, conlayer) = NewLayer lm2;
      let lm4 = update_layer conlayer (\<lambda>l. Layer_Move (Vec 0 0) (SetWindow_layer 1 l)) lm3;
      let lm5 = UpDown conlayer 1 (UpDown bglayer 0 lm4);
      Some (\<lparr>layers = lm5, windows = [0 \<mapsto> bg, 1 \<mapsto> cw1], active_layer = 0, mouse_layer = 0,
             layer_task_map = Map.empty, tasks = tm\<rparr>,
            SetLayerID (of_nat conlayer) con1)
    }"

section \<open>The order of the stack\<close>

lemma insert_at_props:
  assumes "k \<le> length xs" "p \<notin> set xs" "distinct xs"
  shows "removeAll p (insert_at k p xs) = xs" "distinct (insert_at k p xs)" "insert_at k p xs ! k = p"
    "length (insert_at k p xs) = length xs + 1" "set (insert_at k p xs) = insert p (set xs)"
proof -
  have "p \<notin> set (take k xs)" "p \<notin> set (drop k xs)" using assms(2) by (auto dest: in_set_takeD in_set_dropD)
  then show "removeAll p (insert_at k p xs) = xs" by (simp add: insert_at_def)
  show "distinct (insert_at k p xs)"
    using assms(3) \<open>p \<notin> set (take k xs)\<close> \<open>p \<notin> set (drop k xs)\<close> set_take_disj_set_drop_if_distinct [of xs k k]
    by (simp add: insert_at_def)
  show "insert_at k p xs ! k = p" using assms(1) by (simp add: insert_at_def nth_append)
  show "length (insert_at k p xs) = length xs + 1" by (simp add: insert_at_def)
  have "set xs = set (take k xs) \<union> set (drop k xs)" by (metis append_take_drop_id set_append)
  then show "set (insert_at k p xs) = insert p (set xs)" by (simp add: insert_at_def)
qed

lemma UpDown_stack:
  assumes "distinct (layer_stack lm)" "0 \<le> h"
  shows "layer_stack (UpDown i h lm) =
    insert_at (min (nat h) (length (removeAll (layer_ptr lm i) (layer_stack lm)))) (layer_ptr lm i)
      (removeAll (layer_ptr lm i) (layer_stack lm))"
proof -
  let ?p = "layer_ptr lm i"
  let ?s = "layer_stack lm"
  have clip: "(if int (length ?s) < h then length ?s else nat h) = min (nat h) (length ?s)" using assms(2) by auto
  show ?thesis
  proof (cases "?p \<in> set ?s")
    case False
    then show ?thesis using assms(2) clip by (simp add: UpDown_def Let_def)
  next
    case True
    have rem: "remove1 ?p ?s = removeAll ?p ?s" by (rule distinct_remove1_removeAll [OF assms(1)])
    have len: "length (removeAll ?p ?s) = length ?s - 1" "0 < length ?s"
      using True unfolding rem [symmetric] by (auto simp: length_remove1)
    have "(if min (nat h) (length ?s) = length ?s then min (nat h) (length ?s) - 1 else min (nat h) (length ?s)) =
        min (nat h) (length (removeAll ?p ?s))" using len by auto
    moreover have "layer_stack (UpDown i h lm) = insert_at
        (if min (nat h) (length ?s) = length ?s then min (nat h) (length ?s) - 1 else min (nat h) (length ?s)) ?p (removeAll ?p ?s)"
      using True assms(2) unfolding UpDown_def Let_def clip rem by simp
    ultimately show ?thesis by simp
  qed
qed

lemma layer_ptr_stack [simp]: "layer_ptr (lm\<lparr>layer_stack := s\<rparr>) i = layer_ptr lm i"
  by (simp add: layer_ptr_def FindLayer_def)

lemma deref_stack [simp]: "deref (lm\<lparr>layer_stack := s\<rparr>) i = deref lm i"
  by (simp add: deref_def FindLayer_def split: option.split)

lemma UpDown_layers: "lm_layers (UpDown i h lm) = lm_layers lm"
  by (simp add: UpDown_def Hide_def Let_def)

lemma UpDown_more: "UpDown i h lm = lm\<lparr>layer_stack := layer_stack (UpDown i h lm)\<rparr>"
  by (simp add: UpDown_def Hide_def Let_def)

section \<open>Painting a window\<close>

lemma draw_opaque_spec:
  assumes "wf_win w" "\<forall>p \<in> set ps. win_inside w p \<and> fb_inside dst (pos + p)" "wf_fb dst"
  shows "\<exists>dst'. draw_opaque w tc pos ps dst = Some dst' \<and> wf_fb dst' \<and> fb_config dst' = fb_config dst \<and>
    (\<forall>q. fb_inside dst q \<longrightarrow> fb_pixel dst' q =
      (if q - pos \<in> set ps \<and> win_pixel w (q - pos) \<noteq> tc then win_pixel w (q - pos) else fb_pixel dst q))"
  using assms(2,3)
proof (induction ps arbitrary: dst)
  case (Cons p ps)
  define c where "c = win_pixel w p"
  have at: "At w p = Some c" using At_iff [OF assms(1), of p] Cons.prems(1) by (simp add: c_def)
  have "\<exists>u. (if c \<noteq> tc then WritePixel dst (pos + p) c else Some dst) = Some u \<and> wf_fb u \<and> fb_config u = fb_config dst \<and>
      (\<forall>q. fb_inside dst q \<longrightarrow> fb_pixel u q = (if q = pos + p \<and> c \<noteq> tc then c else fb_pixel dst q))"
  proof (cases "c = tc")
    case False
    have "fb_inside dst (pos + p)" using Cons.prems(1) by simp
    from WritePixel_ok [OF Cons.prems(2) this, of c] False show ?thesis by auto
  qed (use Cons.prems(2) in simp)
  then obtain u where u: "(if c \<noteq> tc then WritePixel dst (pos + p) c else Some dst) = Some u" "wf_fb u"
    "fb_config u = fb_config dst"
    "\<forall>q. fb_inside dst q \<longrightarrow> fb_pixel u q = (if q = pos + p \<and> c \<noteq> tc then c else fb_pixel dst q)" by blast
  have ins: "fb_inside u = fb_inside dst" using u(3) by (simp add: fb_inside_def fun_eq_iff)
  with Cons.prems(1) have "\<forall>p \<in> set ps. win_inside w p \<and> fb_inside u (pos + p)" by simp
  from Cons.IH [OF this u(2)] obtain r where r: "draw_opaque w tc pos ps u = Some r" "wf_fb r"
    "fb_config r = fb_config u"
    "\<forall>q. fb_inside u q \<longrightarrow> fb_pixel r q =
      (if q - pos \<in> set ps \<and> win_pixel w (q - pos) \<noteq> tc then win_pixel w (q - pos) else fb_pixel u q)" by blast
  have eq: "q = pos + p \<longleftrightarrow> q - pos = p" for q
    by (cases q; cases p; cases pos) auto
  have "draw_opaque w tc pos (p # ps) dst = Some r" using at u(1) r(1) by simp
  moreover have "fb_pixel r q = (if q - pos \<in> set (p # ps) \<and> win_pixel w (q - pos) \<noteq> tc
      then win_pixel w (q - pos) else fb_pixel dst q)" if "fb_inside dst q" for q
    using that u(4) r(4) unfolding ins eq c_def by auto
  ultimately show ?case using r(2,3) u(3) by auto
qed simp

lemma visible_points_spec:
  assumes "wf_win w" "wf_fb dst"
  shows "set (visible_points w pos dst) = {p. win_inside w p \<and> fb_inside dst (pos + p)}"
proof -
  have "vx (FrameBufferSize (fb_config dst)) = sint (horizontal_resolution (fb_config dst))"
    "vy (FrameBufferSize (fb_config dst)) = sint (vertical_resolution (fb_config dst))"
    by (simp_all add: FrameBufferSize_def)
  then have ins: "fb_inside dst p \<longleftrightarrow> 0 \<le> vx p \<and> vx p < sint (horizontal_resolution (fb_config dst)) \<and>
      0 \<le> vy p \<and> vy p < sint (vertical_resolution (fb_config dst))" for p
    using screen_in_rect [OF assms(2)] by (simp add: in_rect_def fun_eq_iff)
  have "p \<in> set (visible_points w pos dst) \<longleftrightarrow> win_inside w p \<and> fb_inside dst (pos + p)" for p
    unfolding ins win_inside_def in_rect_def Window_Size_def visible_points_def set_concat set_map set_upto
    by (cases p, simp add: image_iff, auto)
  then show ?thesis by blast
qed

text \<open>The pixel a layer contributes at a point of the screen, if any.\<close>

definition window_pixel :: "Window \<Rightarrow> Vector2D \<Rightarrow> PixelColor option" where
  "window_pixel w p =
    (if win_inside w p \<and> win_transparent w \<noteq> Some (win_pixel w p) then Some (win_pixel w p) else None)"

definition same_format :: "Window \<Rightarrow> FrameBuffer \<Rightarrow> bool" where
  "same_format w dst \<longleftrightarrow> (\<forall>fb. win_shadow w = Some fb \<longrightarrow> pixel_format (fb_config fb) = pixel_format (fb_config dst))"

lemma Window_DrawTo_paints:
  assumes "wf_win w" "wf_fb dst" "same_format w dst" "0 \<le> vx (rsize area)" "0 \<le> vy (rsize area)"
  shows "\<exists>dst'. Window_DrawTo w dst pos area = Some dst' \<and> wf_fb dst' \<and> fb_config dst' = fb_config dst \<and>
    (\<forall>q. fb_inside dst q \<and> in_rect (rpos area) (rsize area) q \<longrightarrow>
      fb_pixel dst' q = (case window_pixel w (q - pos) of None \<Rightarrow> fb_pixel dst q | Some c \<Rightarrow> c))"
proof (cases "win_transparent w")
  case None
  have "\<And>fb. win_shadow w = Some fb \<Longrightarrow> pixel_format (fb_config fb) = pixel_format (fb_config dst)"
    using assms(3) by (simp add: same_format_def)
  from Window_DrawTo_spec [OF assms(1) None assms(2) this assms(4,5), of pos] None show ?thesis
    by (auto simp: window_pixel_def)
next
  case (Some tc)
  have pos: "pos + (q - pos) = q" for q by (simp add: plus_Vector2D_def minus_Vector2D_def)
  have "\<forall>p \<in> set (visible_points w pos dst). win_inside w p \<and> fb_inside dst (pos + p)"
    by (simp add: visible_points_spec [OF assms(1,2)])
  from draw_opaque_spec [OF assms(1) this assms(2), of tc] Some show ?thesis
    by (auto simp: Window_DrawTo_def window_pixel_def visible_points_spec [OF assms(1,2)] pos)
qed

section \<open>What the screen shows\<close>

definition layer_pixel :: "(nat \<Rightarrow> Window option) \<Rightarrow> Layer \<Rightarrow> Vector2D \<Rightarrow> PixelColor option" where
  "layer_pixel wins l q =
    (case layer_window l of None \<Rightarrow> None
     | Some k \<Rightarrow> (case wins k of None \<Rightarrow> None | Some w \<Rightarrow> window_pixel w (q - layer_pos l)))"

text \<open>The stack is given from the bottom; the topmost layer that covers the point decides.\<close>

fun topmost_pixel ::
  "LayerManager \<Rightarrow> (nat \<Rightarrow> Window option) \<Rightarrow> nat option list \<Rightarrow> Vector2D \<Rightarrow> PixelColor option" where
  "topmost_pixel lm wins [] q = None"
| "topmost_pixel lm wins (p # ps) q =
    (case topmost_pixel lm wins ps q of
       Some c \<Rightarrow> Some c
     | None \<Rightarrow> (case deref lm p of None \<Rightarrow> None | Some l \<Rightarrow> layer_pixel wins l q))"

definition wf_layer :: "(nat \<Rightarrow> Window option) \<Rightarrow> FrameBuffer \<Rightarrow> Layer \<Rightarrow> bool" where
  "wf_layer wins dst l \<longleftrightarrow>
    (\<forall>k. layer_window l = Some k \<longrightarrow> (\<exists>w. wins k = Some w \<and> wf_win w \<and> same_format w dst))"

definition wf_layers :: "LayerManager \<Rightarrow> (nat \<Rightarrow> Window option) \<Rightarrow> bool" where
  "wf_layers lm wins \<longleftrightarrow>
    wf_fb (lm_screen lm) \<and> wf_fb (lm_back lm) \<and> fb_inside (lm_back lm) = fb_inside (lm_screen lm) \<and>
    pixel_format (fb_config (lm_back lm)) = pixel_format (fb_config (lm_screen lm)) \<and>
    (\<forall>p \<in> set (layer_stack lm). \<exists>l. deref lm p = Some l \<and> wf_layer wins (lm_back lm) l)"

lemma same_format_config: "fb_config a = fb_config b \<Longrightarrow> same_format w a = same_format w b"
  by (simp add: same_format_def)

lemma wf_layer_config: "fb_config a = fb_config b \<Longrightarrow> wf_layer wins a l = wf_layer wins b l"
  by (simp add: wf_layer_def same_format_config [of a b])

lemma inside_config: "fb_config a = fb_config b \<Longrightarrow> fb_inside a = fb_inside b"
  by (simp add: fb_inside_def fun_eq_iff)

lemma Layer_DrawTo_paints:
  assumes "wf_layer wins dst l" "wf_fb dst" "0 \<le> vx (rsize area)" "0 \<le> vy (rsize area)"
  shows "\<exists>dst'. Layer_DrawTo wins l dst area = Some dst' \<and> wf_fb dst' \<and> fb_config dst' = fb_config dst \<and>
    (\<forall>q. fb_inside dst q \<and> in_rect (rpos area) (rsize area) q \<longrightarrow>
      fb_pixel dst' q = (case layer_pixel wins l q of None \<Rightarrow> fb_pixel dst q | Some c \<Rightarrow> c))"
proof (cases "layer_window l")
  case (Some k)
  then obtain w where w: "wins k = Some w" "wf_win w" "same_format w dst"
    using assms(1) by (auto simp: wf_layer_def)
  from Window_DrawTo_paints [OF w(2) assms(2) w(3) assms(3,4), of "layer_pos l"] Some w(1) show ?thesis
    by (simp add: Layer_DrawTo_def layer_pixel_def)
qed (use assms(2) in \<open>simp add: Layer_DrawTo_def layer_pixel_def\<close>)

lemma draw_layers_paints:
  assumes "\<forall>p \<in> set ps. \<exists>l. deref lm p = Some l \<and> wf_layer wins bk l" "wf_fb bk"
    and area: "0 \<le> vx (rsize area)" "0 \<le> vy (rsize area)"
  shows "\<exists>bk'. draw_layers lm wins ps area bk = Some bk' \<and> wf_fb bk' \<and> fb_config bk' = fb_config bk \<and>
    (\<forall>q. fb_inside bk q \<and> in_rect (rpos area) (rsize area) q \<longrightarrow>
      fb_pixel bk' q = (case topmost_pixel lm wins ps q of None \<Rightarrow> fb_pixel bk q | Some c \<Rightarrow> c))"
  using assms(1,2)
proof (induction ps arbitrary: bk)
  case (Cons p ps)
  then obtain l where l: "deref lm p = Some l" "wf_layer wins bk l" by auto
  from Layer_DrawTo_paints [OF l(2) Cons.prems(2) area] obtain u where
    u: "Layer_DrawTo wins l bk area = Some u" "wf_fb u" "fb_config u = fb_config bk"
      "\<forall>q. fb_inside bk q \<and> in_rect (rpos area) (rsize area) q \<longrightarrow>
        fb_pixel u q = (case layer_pixel wins l q of None \<Rightarrow> fb_pixel bk q | Some c \<Rightarrow> c)" by blast
  have "\<forall>p \<in> set ps. \<exists>l. deref lm p = Some l \<and> wf_layer wins u l"
    using Cons.prems(1) by (simp add: wf_layer_config [OF u(3)])
  from Cons.IH [OF this u(2)] obtain r where
    r: "draw_layers lm wins ps area u = Some r" "wf_fb r" "fb_config r = fb_config u"
      "\<forall>q. fb_inside u q \<and> in_rect (rpos area) (rsize area) q \<longrightarrow>
        fb_pixel r q = (case topmost_pixel lm wins ps q of None \<Rightarrow> fb_pixel u q | Some c \<Rightarrow> c)" by blast
  have "draw_layers lm wins (p # ps) area bk = Some r" using l(1) u(1) r(1) by simp
  moreover have "fb_pixel r q = (case topmost_pixel lm wins (p # ps) q of None \<Rightarrow> fb_pixel bk q | Some c \<Rightarrow> c)"
    if "fb_inside bk q \<and> in_rect (rpos area) (rsize area) q" for q
    using that u(4) r(4) l(1) unfolding inside_config [OF u(3)] by (auto split: option.split)
  ultimately show ?case using r(2,3) u(3) by auto
qed simp

lemma show_area_spec:
  assumes "wf_fb (lm_screen lm)" "wf_fb bk" "fb_inside bk = fb_inside (lm_screen lm)"
    "pixel_format (fb_config bk) = pixel_format (fb_config (lm_screen lm))"
    and area: "0 \<le> vx (rsize area)" "0 \<le> vy (rsize area)"
  shows "\<exists>scr. show_area area bk lm = Some (lm\<lparr>lm_back := bk, lm_screen := scr\<rparr>) \<and> wf_fb scr \<and>
    fb_config scr = fb_config (lm_screen lm) \<and>
    (\<forall>q. fb_inside scr q \<longrightarrow> fb_pixel scr q =
      (if in_rect (rpos area) (rsize area) q then fb_pixel bk q else fb_pixel (lm_screen lm) q))"
proof -
  have pos: "rpos area + (q - rpos area) = q" for q by (simp add: plus_Vector2D_def minus_Vector2D_def)
  have "\<exists>scr. Copy (lm_screen lm) (rpos area) bk area = Some (scr, kSuccess) \<and> wf_fb scr \<and>
      fb_config scr = fb_config (lm_screen lm) \<and>
      (\<forall>q. fb_inside (lm_screen lm) q \<longrightarrow> fb_pixel scr q =
        (if in_rect (rpos area) (rsize area) q then fb_pixel bk (rpos area + (q - rpos area)) else fb_pixel (lm_screen lm) q))"
    by (rule Copy_spec [OF assms(1,2) assms(4) [symmetric] area]) (simp add: pos assms(3))
  then obtain scr where "Copy (lm_screen lm) (rpos area) bk area = Some (scr, kSuccess)" "wf_fb scr"
    "fb_config scr = fb_config (lm_screen lm)"
    "\<forall>q. fb_inside (lm_screen lm) q \<longrightarrow> fb_pixel scr q =
      (if in_rect (rpos area) (rsize area) q then fb_pixel bk q else fb_pixel (lm_screen lm) q)"
    unfolding pos by blast
  then show ?thesis using inside_config [of scr "lm_screen lm"] by (intro exI [of _ scr]) (simp add: show_area_def)
qed

definition same_layers :: "LayerManager \<Rightarrow> LayerManager \<Rightarrow> bool" where
  "same_layers lm lm' \<longleftrightarrow> lm_layers lm' = lm_layers lm \<and> layer_stack lm' = layer_stack lm \<and> latest_id lm' = latest_id lm \<and>
     fb_config (lm_screen lm') = fb_config (lm_screen lm) \<and> fb_config (lm_back lm') = fb_config (lm_back lm)"

lemma Draw_area_spec:
  assumes "wf_layers lm wins" "0 \<le> vx (rsize area)" "0 \<le> vy (rsize area)"
  shows "\<exists>lm'. Draw_area wins area lm = Some lm' \<and> wf_layers lm' wins \<and>
    lm_layers lm' = lm_layers lm \<and> layer_stack lm' = layer_stack lm \<and> latest_id lm' = latest_id lm \<and>
    same_layers lm lm' \<and>
    (\<forall>q. fb_inside (lm_screen lm) q \<longrightarrow> fb_pixel (lm_screen lm') q =
      (if in_rect (rpos area) (rsize area) q
       then case topmost_pixel lm wins (layer_stack lm) q of None \<Rightarrow> fb_pixel (lm_back lm) q | Some c \<Rightarrow> c
       else fb_pixel (lm_screen lm) q))"
proof -
  have wf: "wf_fb (lm_screen lm)" "wf_fb (lm_back lm)" "fb_inside (lm_back lm) = fb_inside (lm_screen lm)"
    "pixel_format (fb_config (lm_back lm)) = pixel_format (fb_config (lm_screen lm))"
    "\<forall>p \<in> set (layer_stack lm). \<exists>l. deref lm p = Some l \<and> wf_layer wins (lm_back lm) l"
    using assms(1) by (simp_all add: wf_layers_def)
  from draw_layers_paints [OF wf(5,2) assms(2,3)] obtain bk where
    b: "draw_layers lm wins (layer_stack lm) area (lm_back lm) = Some bk" "wf_fb bk"
      "fb_config bk = fb_config (lm_back lm)"
      "\<forall>q. fb_inside (lm_back lm) q \<and> in_rect (rpos area) (rsize area) q \<longrightarrow>
        fb_pixel bk q = (case topmost_pixel lm wins (layer_stack lm) q of None \<Rightarrow> fb_pixel (lm_back lm) q | Some c \<Rightarrow> c)"
    by blast
  have "fb_inside bk = fb_inside (lm_screen lm)" "pixel_format (fb_config bk) = pixel_format (fb_config (lm_screen lm))"
    using inside_config [OF b(3)] b(3) wf(3,4) by simp_all
  from show_area_spec [OF wf(1) b(2) this assms(2,3)] obtain scr where
    s: "show_area area bk lm = Some (lm\<lparr>lm_back := bk, lm_screen := scr\<rparr>)" "wf_fb scr"
      "fb_config scr = fb_config (lm_screen lm)"
      "\<forall>q. fb_inside scr q \<longrightarrow> fb_pixel scr q =
        (if in_rect (rpos area) (rsize area) q then fb_pixel bk q else fb_pixel (lm_screen lm) q)" by blast
  define lm' where "lm' = lm\<lparr>lm_back := bk, lm_screen := scr\<rparr>"
  have d: "deref lm' p = deref lm p" for p by (simp add: deref_def FindLayer_def lm'_def split: option.split)
  have "wf_layers lm' wins"
    using wf(5) b(2) s(2) \<open>fb_inside bk = _\<close> \<open>pixel_format (fb_config bk) = _\<close> inside_config [OF s(3)] s(3)
    unfolding wf_layers_def d by (simp add: lm'_def wf_layer_config [OF b(3)])
  moreover have "Draw_area wins area lm = Some lm'" using b(1) s(1) by (simp add: Draw_area_def lm'_def)
  moreover have "fb_pixel (lm_screen lm') q =
      (if in_rect (rpos area) (rsize area) q
       then case topmost_pixel lm wins (layer_stack lm) q of None \<Rightarrow> fb_pixel (lm_back lm) q | Some c \<Rightarrow> c
       else fb_pixel (lm_screen lm) q)" if "fb_inside (lm_screen lm) q" for q
    using that s(4) b(4) inside_config [OF s(3)] wf(3) by (simp add: lm'_def)
  moreover have "same_layers lm lm'" using b(3) s(3) by (simp add: same_layers_def lm'_def)
  ultimately show ?thesis by (auto simp: lm'_def)
qed

section \<open>Redrawing one layer\<close>

definition has_window :: "LayerManager \<Rightarrow> nat \<Rightarrow> bool" where
  "has_window lm i \<longleftrightarrow> (\<exists>l k. FindLayer lm i = Some l \<and> layer_window l = Some k)"

lemma FindLayer_num: "FindLayer lm i = Some l \<Longrightarrow> layer_num l = i"
  by (simp add: FindLayer_def find_Some_iff) blast

lemma deref_num: "deref lm p = Some l \<Longrightarrow> p = Some (layer_num l)"
  by (auto simp: deref_def FindLayer_num split: option.splits)

lemma draw_above_ok:
  assumes "\<forall>p \<in> set ps. \<exists>l. deref lm p = Some l \<and> wf_layer wins bk l" "wf_fb bk" "has_window lm i"
    and "\<forall>wa. window_area = Some wa \<longrightarrow> 0 \<le> vx (rsize wa) \<and> 0 \<le> vy (rsize wa)"
  shows "\<exists>bk' wa'. draw_above lm wins i ps (Rect (Vec 0 0) (Vec (- 1) (- 1))) window_area bk = Some (bk', wa') \<and>
    wf_fb bk' \<and> fb_config bk' = fb_config bk \<and>
    (\<forall>wa. wa' = Some wa \<longrightarrow> 0 \<le> vx (rsize wa) \<and> 0 \<le> vy (rsize wa)) \<and>
    (window_area \<noteq> None \<or> Some i \<in> set ps \<longrightarrow> wa' \<noteq> None)"
  using assms(1,2,4)
proof (induction ps arbitrary: bk window_area)
  case (Cons p ps)
  from Cons.prems(1) obtain l where l: "deref lm p = Some l" "wf_layer wins bk l" by auto
  have "\<exists>wa. (if layer_num l = i then
           do {
             k \<leftarrow> layer_window l;
             w \<leftarrow> wins k;
             let wa = Rect (layer_pos l) (Window_Size w) in
             if 0 \<le> vx (rsize (Rect (Vec 0 0) (Vec (- 1) (- 1)))) \<or> 0 \<le> vy (rsize (Rect (Vec 0 0) (Vec (- 1) (- 1))))
             then let area' = Rect (rpos (Rect (Vec 0 0) (Vec (- 1) (- 1))) + rpos wa) (rsize (Rect (Vec 0 0) (Vec (- 1) (- 1))))
               in Some (area', Some (rect_and wa area'))
             else Some (Rect (Vec 0 0) (Vec (- 1) (- 1)), Some wa)
           }
         else Some (Rect (Vec 0 0) (Vec (- 1) (- 1)), window_area)) = Some (Rect (Vec 0 0) (Vec (- 1) (- 1)), wa) \<and>
      (\<forall>a. wa = Some a \<longrightarrow> 0 \<le> vx (rsize a) \<and> 0 \<le> vy (rsize a)) \<and> (layer_num l = i \<or> window_area \<noteq> None \<longrightarrow> wa \<noteq> None)"
  proof (cases "layer_num l = i")
    case True
    then have "FindLayer lm i = Some l" using l(1) deref_num [OF l(1)] by (simp add: deref_def)
    with assms(3) obtain k where k: "layer_window l = Some k" by (auto simp: has_window_def)
    with l(2) obtain w where "wins k = Some w" "wf_win w" by (auto simp: wf_layer_def)
    with k True show ?thesis by (simp add: wf_win_def Window_Size_def)
  qed (use Cons.prems(3) in auto)
  then obtain wa where wa: "(if layer_num l = i then
           do {
             k \<leftarrow> layer_window l;
             w \<leftarrow> wins k;
             let wa = Rect (layer_pos l) (Window_Size w) in
             if 0 \<le> vx (rsize (Rect (Vec 0 0) (Vec (- 1) (- 1)))) \<or> 0 \<le> vy (rsize (Rect (Vec 0 0) (Vec (- 1) (- 1))))
             then let area' = Rect (rpos (Rect (Vec 0 0) (Vec (- 1) (- 1))) + rpos wa) (rsize (Rect (Vec 0 0) (Vec (- 1) (- 1))))
               in Some (area', Some (rect_and wa area'))
             else Some (Rect (Vec 0 0) (Vec (- 1) (- 1)), Some wa)
           }
         else Some (Rect (Vec 0 0) (Vec (- 1) (- 1)), window_area)) = Some (Rect (Vec 0 0) (Vec (- 1) (- 1)), wa)"
    "\<forall>a. wa = Some a \<longrightarrow> 0 \<le> vx (rsize a) \<and> 0 \<le> vy (rsize a)" "layer_num l = i \<or> window_area \<noteq> None \<longrightarrow> wa \<noteq> None"
    by blast
  have "\<exists>u. (case wa of None \<Rightarrow> Some bk | Some a \<Rightarrow> Layer_DrawTo wins l bk a) = Some u \<and> wf_fb u \<and> fb_config u = fb_config bk"
  proof (cases wa)
    case (Some a)
    with wa(2) Layer_DrawTo_paints [OF l(2) Cons.prems(2), of a] show ?thesis by auto
  qed (use Cons.prems(2) in simp)
  then obtain u where u: "(case wa of None \<Rightarrow> Some bk | Some a \<Rightarrow> Layer_DrawTo wins l bk a) = Some u" "wf_fb u"
    "fb_config u = fb_config bk" by blast
  have "\<forall>p \<in> set ps. \<exists>l. deref lm p = Some l \<and> wf_layer wins u l"
    using Cons.prems(1) by (simp add: wf_layer_config [OF u(3)])
  from Cons.IH [OF this u(2) wa(2)] obtain bk' wa' where
    r: "draw_above lm wins i ps (Rect (Vec 0 0) (Vec (- 1) (- 1))) wa u = Some (bk', wa')" "wf_fb bk'" "fb_config bk' = fb_config u"
      "\<forall>a. wa' = Some a \<longrightarrow> 0 \<le> vx (rsize a) \<and> 0 \<le> vy (rsize a)" "wa \<noteq> None \<or> Some i \<in> set ps \<longrightarrow> wa' \<noteq> None" by blast
  have "draw_above lm wins i (p # ps) (Rect (Vec 0 0) (Vec (- 1) (- 1))) window_area bk = Some (bk', wa')"
    unfolding draw_above.simps l(1) bind.bind_lunit wa(1) prod.case u(1) r(1) ..
  moreover have "window_area \<noteq> None \<or> Some i \<in> set (p # ps) \<longrightarrow> wa' \<noteq> None"
    using r(5) wa(3) deref_num [OF l(1)] by auto
  ultimately show ?case using r(2-4) u(3) by auto
qed auto

lemma Draw_layer_ok:
  assumes "wf_layers lm wins" "has_window lm i" "Some i \<in> set (layer_stack lm)"
  shows "\<exists>lm'. Draw_layer wins i lm = Some lm' \<and> wf_layers lm' wins \<and> same_layers lm lm'"
proof -
  have wf: "wf_fb (lm_screen lm)" "wf_fb (lm_back lm)" "fb_inside (lm_back lm) = fb_inside (lm_screen lm)"
    "pixel_format (fb_config (lm_back lm)) = pixel_format (fb_config (lm_screen lm))"
    "\<forall>p \<in> set (layer_stack lm). \<exists>l. deref lm p = Some l \<and> wf_layer wins (lm_back lm) l"
    using assms(1) by (simp_all add: wf_layers_def)
  from draw_above_ok [OF wf(5,2) assms(2), of None] assms(3) obtain bk wa where
    b: "draw_above lm wins i (layer_stack lm) (Rect (Vec 0 0) (Vec (- 1) (- 1))) None (lm_back lm) = Some (bk, Some wa)"
      "wf_fb bk" "fb_config bk = fb_config (lm_back lm)" "0 \<le> vx (rsize wa)" "0 \<le> vy (rsize wa)" by auto
  have "fb_inside bk = fb_inside (lm_screen lm)" "pixel_format (fb_config bk) = pixel_format (fb_config (lm_screen lm))"
    using inside_config [OF b(3)] b(3) wf(3,4) by simp_all
  from show_area_spec [OF wf(1) b(2) this b(4,5)] obtain scr where
    s: "show_area wa bk lm = Some (lm\<lparr>lm_back := bk, lm_screen := scr\<rparr>)" "wf_fb scr" "fb_config scr = fb_config (lm_screen lm)"
    by blast
  define lm' where "lm' = lm\<lparr>lm_back := bk, lm_screen := scr\<rparr>"
  have d: "deref lm' p = deref lm p" for p by (simp add: deref_def FindLayer_def lm'_def split: option.split)
  have "wf_layers lm' wins"
    using wf(5) b(2) s(2) \<open>fb_inside bk = _\<close> \<open>pixel_format (fb_config bk) = _\<close> inside_config [OF s(3)] s(3)
    unfolding wf_layers_def d by (simp add: lm'_def wf_layer_config [OF b(3)])
  moreover have "Draw_layer wins i lm = Some lm'" using b(1) s(1) by (simp add: Draw_layer_def Draw_layer_area_def lm'_def)
  moreover have "same_layers lm lm'" using b(3) s(3) by (simp add: same_layers_def lm'_def)
  ultimately show ?thesis by blast
qed

section \<open>Decorating a window\<close>

definition like :: "Window \<Rightarrow> Window \<Rightarrow> bool" where
  "like w w' \<longleftrightarrow> win_width w' = win_width w \<and> win_height w' = win_height w \<and> win_title w' = win_title w \<and>
     win_transparent w' = win_transparent w \<and> (\<forall>dst. same_format w dst \<longrightarrow> same_format w' dst)"

lemma like_trans: "like u v \<Longrightarrow> like v w \<Longrightarrow> like u w"
  by (auto simp: like_def)

lemma Window_Write_like: "Window_Write w p c = Some w' \<Longrightarrow> like w w'"
  by (auto simp: Window_Write_def like_def same_format_def Let_def WritePixel_def bind_eq_Some_conv
      split: option.splits if_splits)

interpretation winl: pixel_writer Window_Write "\<lambda>w. wf_win w \<and> like w0 w" win_inside win_pixel for w0
proof
  fix s p c assume "wf_win s \<and> like w0 s" "win_inside s p"
  with Window_Write_ok [of s p c] like_trans [OF _ Window_Write_like]
  show "\<exists>s'. Window_Write s p c = Some s' \<and> (wf_win s' \<and> like w0 s') \<and> win_inside s' = win_inside s \<and>
      (\<forall>q. win_inside s q \<longrightarrow> win_pixel s' q = (if q = p then c else win_pixel s q))" by blast
qed

context pixel_writer
begin

lemma write_each_ok:
  "inv s \<Longrightarrow> \<forall>(p, c) \<in> set ps. inside s p \<Longrightarrow> \<exists>s'. write_each wr ps s = Some s' \<and> inv s' \<and> inside s' = inside s"
proof (induction ps arbitrary: s)
  case (Cons a ps)
  obtain p c where a: "a = (p, c)" by (cases a)
  with write_ok [OF Cons.prems(1), of p c] Cons.prems(2) obtain u where
    "wr s p c = Some u" "inv u" "inside u = inside s" by auto
  with Cons.IH [of u] Cons.prems(2) a show ?case by auto
qed simp

lemma WriteAscii_ok:
  assumes "inv s" "length hankaku = 4096" "\<forall>p. in_rect pos (Vec 8 16) p \<longrightarrow> inside s p"
  shows "\<exists>s'. WriteAscii wr hankaku pos ch color s = Some s' \<and> inv s' \<and> inside s' = inside s"
proof -
  have "\<forall>p \<in> set (ascii_points font pos). inside s p" for font
    using assms(3) by (auto simp: ascii_points_def in_rect_def)
  from write_all_spec [OF assms(1) this, where c = color] GetFont_readable [OF assms(2)] assms(1) show ?thesis
    by (fastforce simp: WriteAscii_def split: option.split)
qed

lemma draw_ascii_ok:
  assumes "length hankaku = 4096"
  shows "inv s \<Longrightarrow> \<forall>n \<in> set ns. n < 128 \<Longrightarrow> 0 \<le> x \<Longrightarrow>
    \<forall>p. in_rect (pos + Vec (8 * x) 0) (Vec (8 * int (length ns)) 16) p \<longrightarrow> inside s p \<Longrightarrow>
    \<exists>s'. draw_code_points wr hankaku ft pos ns x color s = Some s' \<and> inv s' \<and> inside s' = inside s"
proof (induction ns arbitrary: x s)
  case (Cons n ns)
  have n: "(of_nat n :: u32) \<le> 0x7f" using Cons.prems(2) by (simp add: word_le_nat_alt unat_of_nat_less)
  have "\<forall>p. in_rect (pos + Vec (8 * x) 0) (Vec 8 16) p \<longrightarrow> inside s p"
    using Cons.prems(4) by (auto simp: in_rect_def)
  from WriteAscii_ok [OF Cons.prems(1) assms this] obtain u where
    u: "WriteAscii wr hankaku (pos + Vec (8 * x) 0) (ucast (of_nat n :: u32)) color s = Some u" "inv u" "inside u = inside s"
    by blast
  have "\<forall>p. in_rect (pos + Vec (8 * (x + 1)) 0) (Vec (8 * int (length ns)) 16) p \<longrightarrow> inside u p"
    using Cons.prems(4) u(3) by (auto simp: in_rect_def)
  with Cons.IH [OF u(2), of "x + 1"] Cons.prems(2,3) u n show ?case by (auto simp: WriteUnicode_def)
qed simp

lemma DrawWindowTitle_ok:
  assumes "inv s" "length hankaku = 4096" "\<forall>n \<in> set ns. 0 < n \<and> n < 128"
    and "21 \<le> win_w" "24 + 8 * int (length ns) \<le> win_w" "\<forall>p. in_rect (Vec 0 0) (Vec win_w 21) p \<longrightarrow> inside s p"
  shows "\<exists>s'. DrawWindowTitle wr hankaku ft win_w (utf8_string ns @ [0]) active s = Some s' \<and> inv s' \<and> inside s' = inside s"
proof -
  define bg where "bg = (if active then 0x000000 else 0x202020 :: u32)"
  define fg where "fg = (if active then windowFGColor else 0x008585)"
  have "\<forall>p. in_rect (Vec 3 3) (Vec (win_w - 6) 18) p \<longrightarrow> inside s p"
    using assms(6) by (auto simp: in_rect_def)
  from FillRectangle_spec [OF assms(1) this, of "ToColor bg"] obtain s1 where
    s1: "FillRectangle wr (Vec 3 3) (Vec (win_w - 6) 18) (ToColor bg) s = Some s1" "inv s1" "inside s1 = inside s" by blast
  have "\<forall>n \<in> set ns. n < 128" "\<forall>n \<in> set ns. code_point n" using assms(3) by (auto simp: code_point_def)
  moreover have "\<forall>p. in_rect (Vec 24 4 + Vec (8 * 0) 0) (Vec (8 * int (length ns)) 16) p \<longrightarrow> inside s1 p"
    using assms(5,6) s1(3) by (auto simp: in_rect_def)
  ultimately obtain s2 where
    s2: "draw_code_points wr hankaku ft (Vec 24 4) ns 0 (ToColor fg) s1 = Some s2" "inv s2" "inside s2 = inside s1"
    using draw_ascii_ok [OF assms(2) s1(2), of ns 0 "Vec 24 4" ft "ToColor fg"] by auto
  have "WriteString_loop (length ns + 1) wr hankaku ft (Vec 24 4) (utf8_string ns @ [0]) 0 (ToColor fg) s1 = Some s2"
    using WriteString_loop_encoded [OF \<open>\<forall>n \<in> set ns. code_point n\<close>, of 1 wr hankaku ft "Vec 24 4" "[0]" 0 "ToColor fg" s1]
    by (simp add: s2(1))
  then have "DrawString wr hankaku ft (Vec 24 4) (utf8_string ns @ [0]) (ToColor fg) s1 = Some s2"
    unfolding DrawString_returns [symmetric] WriteString_def by blast
  moreover have "\<forall>(p, c) \<in> set (close_button_pixels win_w bg). inside s2 p"
    using assms(4,6) s1(3) s2(3)
    by (auto simp: close_button_pixels_def kCloseButtonWidth_def kCloseButtonHeight_def in_rect_def)
  then obtain s3 where "write_each wr (close_button_pixels win_w bg) s2 = Some s3" "inv s3" "inside s3 = inside s2"
    using write_each_ok [OF s2(2)] by blast
  ultimately show ?thesis using s1 s2 by (auto simp: DrawWindowTitle_def Let_def bg_def fg_def)
qed

end

section \<open>A consistent desktop\<close>

definition title_fits :: "Window \<Rightarrow> bool" where
  "title_fits w \<longleftrightarrow>
    (\<forall>t. win_title w = Some t \<longrightarrow>
      21 \<le> win_width w \<and> 21 \<le> win_height w \<and>
      (\<exists>ns. t = utf8_string ns @ [0] \<and> (\<forall>n \<in> set ns. 0 < n \<and> n < 128) \<and> 24 + 8 * int (length ns) \<le> win_width w))"

definition visible :: "Desktop \<Rightarrow> nat \<Rightarrow> bool" where
  "visible d i \<longleftrightarrow> Some i \<in> set (layer_stack (layers d)) \<and> has_window (layers d) i"

definition wf_desktop :: "Desktop \<Rightarrow> bool" where
  "wf_desktop d \<longleftrightarrow>
    wf_layers (layers d) (windows d) \<and> distinct (layer_stack (layers d)) \<and>
    (\<forall>l \<in> set (lm_layers (layers d)). wf_layer (windows d) (lm_back (layers d)) l) \<and>
    (\<forall>k w. windows d k = Some w \<longrightarrow> title_fits w) \<and> tm_inv (tasks d)"

lemma like_title: "like w w' \<Longrightarrow> title_fits w \<Longrightarrow> title_fits w'"
  by (simp add: like_def title_fits_def)

lemma decorate_ok:
  assumes "wf_win w" "title_fits w" "length hankaku = 4096"
  shows "\<exists>w'. Window_Activate hankaku ft w = Some w' \<and> wf_win w' \<and> like w w'"
    "\<exists>w'. Window_Deactivate hankaku ft w = Some w' \<and> wf_win w' \<and> like w w'"
proof -
  have refl: "like w w" by (simp add: like_def)
  have "\<exists>w'. DrawWindowTitle Window_Write hankaku ft (win_width w) t active w = Some w' \<and> wf_win w' \<and> like w w'"
    if t: "win_title w = Some t" for t active
  proof -
    from assms(2) t obtain ns where ns: "t = utf8_string ns @ [0]" "\<forall>n \<in> set ns. 0 < n \<and> n < 128"
      "24 + 8 * int (length ns) \<le> win_width w" "21 \<le> win_width w" "21 \<le> win_height w"
      unfolding title_fits_def by blast
    have "\<forall>p. in_rect (Vec 0 0) (Vec (win_width w) 21) p \<longrightarrow> win_inside w p"
      using ns(5) by (auto simp: in_rect_def win_inside_def Window_Size_def)
    from winl.DrawWindowTitle_ok [of w w, OF _ assms(3) ns(2,4,3) this] assms(1) refl ns(1) show ?thesis by blast
  qed
  with assms(1) refl show "\<exists>w'. Window_Activate hankaku ft w = Some w' \<and> wf_win w' \<and> like w w'"
    "\<exists>w'. Window_Deactivate hankaku ft w = Some w' \<and> wf_win w' \<and> like w w'"
    by (auto simp: Window_Activate_def Window_Deactivate_def split: option.split)
qed

lemma wf_layer_upd:
  assumes "wf_layer wins dst l" "wins k = Some w" "wf_win w'" "like w w'"
  shows "wf_layer (wins(k \<mapsto> w')) dst l"
  unfolding wf_layer_def
proof (intro allI impI)
  fix j assume "layer_window l = Some j"
  with assms(1) obtain v where v: "wins j = Some v" "wf_win v" "same_format v dst" by (auto simp: wf_layer_def)
  show "\<exists>u. (wins(k \<mapsto> w')) j = Some u \<and> wf_win u \<and> same_format u dst"
  proof (cases "j = k")
    case True
    with v assms(2) have "v = w" by simp
    with v(3) assms(4) have "same_format w' dst" by (auto simp: like_def)
    with True assms(3) show ?thesis by simp
  qed (use v in simp)
qed

lemma redecorate_ok:
  assumes "wf_desktop d" "has_window (layers d) i"
    and f: "\<And>w. wf_win w \<Longrightarrow> title_fits w \<Longrightarrow> \<exists>w'. f w = Some w' \<and> wf_win w' \<and> like w w'"
  shows "\<exists>wins. redecorate f i d = Some (d\<lparr>windows := wins\<rparr>) \<and> wf_desktop (d\<lparr>windows := wins\<rparr>)"
proof -
  from assms(2) obtain l k where l: "FindLayer (layers d) i = Some l" "layer_window l = Some k"
    by (auto simp: has_window_def)
  have "l \<in> set (lm_layers (layers d))" using l(1) by (auto simp: FindLayer_def find_Some_iff)
  then have "wf_layer (windows d) (lm_back (layers d)) l" using assms(1) by (simp add: wf_desktop_def)
  with l(2) obtain w where w: "windows d k = Some w" "wf_win w" by (auto simp: wf_layer_def)
  then have "title_fits w" using assms(1) by (simp add: wf_desktop_def)
  from f [OF w(2) \<open>title_fits w\<close>] obtain w' where w': "f w = Some w'" "wf_win w'" "like w w'" by blast
  let ?w = "(windows d)(k \<mapsto> w')"
  have upd: "wf_layer ?w dst l'" if "wf_layer (windows d) dst l'" for dst l'
    using that w(1) w'(2,3) by (rule wf_layer_upd)
  have "wf_layers (layers d) ?w" using assms(1) upd unfolding wf_desktop_def wf_layers_def by blast
  moreover have "title_fits v" if "?w j = Some v" for j v
    using that assms(1) like_title [OF w'(3) \<open>title_fits w\<close>] by (auto simp: wf_desktop_def split: if_splits)
  ultimately have "wf_desktop (d\<lparr>windows := ?w\<rparr>)"
    using assms(1) upd unfolding wf_desktop_def by auto
  then show ?thesis using l w(1) w'(1) by (intro exI [of _ ?w]) (simp add: redecorate_def)
qed

lemma same_layers_find: "same_layers lm lm' \<Longrightarrow> FindLayer lm' i = FindLayer lm i"
  by (simp add: same_layers_def FindLayer_def)

lemma draw_desktop_ok:
  assumes "wf_desktop d" "visible d i"
  shows "\<exists>lm. draw_desktop_layer i d = Some (d\<lparr>layers := lm\<rparr>) \<and> wf_desktop (d\<lparr>layers := lm\<rparr>) \<and> same_layers (layers d) lm"
proof -
  from Draw_layer_ok [of "layers d" "windows d" i] assms obtain lm where
    lm: "Draw_layer (windows d) i (layers d) = Some lm" "wf_layers lm (windows d)" "same_layers (layers d) lm"
    by (auto simp: wf_desktop_def visible_def)
  have "fb_config (lm_back lm) = fb_config (lm_back (layers d))" using lm(3) by (simp add: same_layers_def)
  from wf_layer_config [OF this] have "wf_desktop (d\<lparr>layers := lm\<rparr>)"
    using assms(1) lm(2,3) by (simp add: wf_desktop_def same_layers_def)
  with lm show ?thesis by (intro exI [of _ lm]) (simp add: draw_desktop_layer_def)
qed

lemma SendWindowActiveMessage_ok:
  assumes "wf_desktop d"
  shows "\<exists>tm e. SendWindowActiveMessage i a d = Some (d\<lparr>tasks := tm\<rparr>, e) \<and> wf_desktop (d\<lparr>tasks := tm\<rparr>)"
proof (cases "layer_task_map d i")
  case None
  then show ?thesis using assms
    by (intro exI [of _ "tasks d"] exI [of _ kNoSuchTask]) (simp add: SendWindowActiveMessage_def)
next
  case (Some t)
  have "tm_inv (tasks d)" using assms by (simp add: wf_desktop_def)
  from SendMessage_cases [OF this, of t] obtain tm e where
    "SendMessage (tasks d) t \<lparr>msg_type = kWindowActive, src_task = 0, arg = WindowActiveArg a\<rparr> = Some (tm, e)" "tm_inv tm"
    by blast
  with Some assms show ?thesis by (auto simp: SendWindowActiveMessage_def wf_desktop_def)
qed

lemma visible_simps [simp]:
  "visible (d\<lparr>windows := a\<rparr>) i = visible d i" "visible (d\<lparr>tasks := t\<rparr>) i = visible d i"
  "visible (d\<lparr>active_layer := k\<rparr>) i = visible d i"
  by (simp_all add: visible_def)

lemma wf_desktop_active [simp]: "wf_desktop (d\<lparr>active_layer := k\<rparr>) = wf_desktop d"
  by (simp add: wf_desktop_def)

lemma deactivate_ok:
  assumes "wf_desktop d" "visible d i" "length hankaku = 4096"
  shows "\<exists>d'. (do {
        a \<leftarrow> redecorate (Window_Deactivate hankaku ft) i d;
        b \<leftarrow> draw_desktop_layer i a;
        map_option fst (SendWindowActiveMessage i 0 b)
      }) = Some d' \<and> wf_desktop d' \<and> same_layers (layers d) (layers d') \<and> mouse_layer d' = mouse_layer d \<and>
      active_layer d' = active_layer d \<and> layer_task_map d' = layer_task_map d"
proof -
  have "has_window (layers d) i" using assms(2) by (simp add: visible_def)
  from redecorate_ok [OF assms(1) this, of "Window_Deactivate hankaku ft"] decorate_ok(2) [OF _ _ assms(3)] obtain wins where
    a: "redecorate (Window_Deactivate hankaku ft) i d = Some (d\<lparr>windows := wins\<rparr>)" "wf_desktop (d\<lparr>windows := wins\<rparr>)"
    by blast
  from draw_desktop_ok [OF a(2), of i] assms(2) obtain lm where
    b: "draw_desktop_layer i (d\<lparr>windows := wins\<rparr>) = Some (d\<lparr>windows := wins, layers := lm\<rparr>)"
      "wf_desktop (d\<lparr>windows := wins, layers := lm\<rparr>)" "same_layers (layers d) lm" by auto
  from SendWindowActiveMessage_ok [OF b(2), of i 0] a(1) b show ?thesis by auto
qed

section \<open>Raising a layer under the mouse\<close>

lemma wf_layers_stack:
  assumes "wf_layers lm wins" "\<forall>p \<in> set s. \<exists>l. deref lm p = Some l \<and> wf_layer wins (lm_back lm) l"
  shows "wf_layers (lm\<lparr>layer_stack := s\<rparr>) wins"
  using assms unfolding wf_layers_def deref_stack by simp

lemma wf_desktop_UpDown:
  assumes "wf_desktop d" "FindLayer (layers d) i = Some l" "0 \<le> h"
  shows "wf_desktop (d\<lparr>layers := UpDown i h (layers d)\<rparr>)"
proof -
  let ?lm = "layers d"
  let ?s = "layer_stack (UpDown i h ?lm)"
  have ptr: "layer_ptr ?lm i = Some i" using assms(2) FindLayer_num [OF assms(2)] by (simp add: layer_ptr_def)
  have dist: "distinct (layer_stack ?lm)" using assms(1) by (simp add: wf_desktop_def)
  note st = UpDown_stack [OF dist assms(3), of i, unfolded ptr]
  have d: "distinct ?s" "set ?s \<subseteq> insert (Some i) (set (layer_stack ?lm))"
    unfolding st using dist insert_at_props(2,5) [of _ "removeAll (Some i) (layer_stack ?lm)" "Some i"]
    by (auto simp: distinct_removeAll)
  have "l \<in> set (lm_layers ?lm)" using assms(2) by (auto simp: FindLayer_def find_Some_iff)
  then have "wf_layer (windows d) (lm_back ?lm) l" using assms(1) by (simp add: wf_desktop_def)
  then have "\<forall>p \<in> set ?s. \<exists>l. deref ?lm p = Some l \<and> wf_layer (windows d) (lm_back ?lm) l"
    using d(2) assms(1,2) by (fastforce simp: wf_desktop_def wf_layers_def deref_def)
  with assms(1) have "wf_layers (?lm\<lparr>layer_stack := ?s\<rparr>) (windows d)"
    by (intro wf_layers_stack) (simp_all add: wf_desktop_def)
  then show ?thesis using assms(1) d(1) UpDown_more [of i h ?lm]
    by (simp add: wf_desktop_def) (metis LayerManager.select_convs(2,3) LayerManager.surjective LayerManager.update_convs(4))
qed

lemma height_from_found:
  assumes "\<forall>p \<in> set xs. \<exists>l. deref lm p = Some l" "Some m \<notin> set xs" "\<exists>l. deref lm (Some m) = Some l"
  shows "height_from lm m (xs @ Some m # ys) h = Some (h + int (length xs))"
  using assms(1,2)
proof (induction xs arbitrary: h)
  case Nil
  then show ?case using assms(3) deref_num by fastforce
next
  case (Cons p xs)
  then obtain l where l: "deref lm p = Some l" by auto
  with Cons.prems(2) deref_num [OF l] have "layer_num l \<noteq> m" by auto
  with Cons l show ?case by simp
qed

lemma Activate_raise:
  assumes wf: "wf_desktop d" "length hankaku = 4096"
    and a: "has_window (layers d) a" "0 < a" "a \<noteq> active_layer d"
    and old: "0 < active_layer d \<longrightarrow> visible d (active_layer d)"
    and stack: "removeAll (Some a) (layer_stack (layers d)) = xs @ Some (mouse_layer d) # ys"
  shows "\<exists>d'. Activate hankaku ft a d = Some d' \<and> wf_desktop d' \<and> active_layer d' = a \<and>
    layer_stack (layers d') = xs @ Some a # Some (mouse_layer d) # ys \<and> mouse_layer d' = mouse_layer d \<and>
    lm_layers (layers d') = lm_layers (layers d)"
proof -
  define pre where "pre = (if 0 < active_layer d then do {
               d' \<leftarrow> redecorate (Window_Deactivate hankaku ft) (active_layer d) d;
               d'' \<leftarrow> draw_desktop_layer (active_layer d) d';
               map_option fst (SendWindowActiveMessage (active_layer d) 0 d'')
             } else Some d)"
  have "\<exists>d1. pre = Some d1 \<and> wf_desktop d1 \<and> same_layers (layers d) (layers d1) \<and> mouse_layer d1 = mouse_layer d"
  proof (cases "0 < active_layer d")
    case True
    with deactivate_ok [OF wf(1) _ wf(2), of "active_layer d" ft] old show ?thesis by (auto simp: pre_def)
  qed (use wf(1) in \<open>simp add: pre_def same_layers_def\<close>)
  then obtain d1 where d1: "pre = Some d1" "wf_desktop d1" "same_layers (layers d) (layers d1)" "mouse_layer d1 = mouse_layer d"
    by blast
  let ?d2 = "d1\<lparr>active_layer := a\<rparr>"
  have win: "has_window (layers d1) a" using a(1) same_layers_find [OF d1(3)] by (simp add: has_window_def)
  with redecorate_ok [of ?d2 a "Window_Activate hankaku ft"] d1(2) decorate_ok(1) [OF _ _ wf(2)] obtain wins where
    d3: "redecorate (Window_Activate hankaku ft) a ?d2 = Some (?d2\<lparr>windows := wins\<rparr>)" "wf_desktop (?d2\<lparr>windows := wins\<rparr>)"
    by auto
  obtain l where l: "FindLayer (layers d1) a = Some l" using win by (auto simp: has_window_def)
  have ptr: "layer_ptr (layers d1) a = Some a" using l FindLayer_num [OF l] by (simp add: layer_ptr_def)
  let ?lm3 = "UpDown a 0 (layers d1)"
  let ?d3 = "?d2\<lparr>windows := wins\<rparr>"
  have wf3: "wf_desktop (?d3\<lparr>layers := ?lm3\<rparr>)" using wf_desktop_UpDown [OF d3(2), of a l 0] l by simp
  let ?m = "mouse_layer d"
  have st1: "removeAll (Some a) (layer_stack (layers d1)) = xs @ Some ?m # ys"
    using stack d1(3) by (simp add: same_layers_def)
  have dist: "distinct (layer_stack (layers d1))" using d1(2) by (simp add: wf_desktop_def)
  from UpDown_stack [OF dist, of 0 a, unfolded ptr st1] have st3: "layer_stack ?lm3 = Some a # xs @ Some ?m # ys"
    by (simp add: insert_at_def)
  have find3: "deref ?lm3 p = deref (layers d1) p" for p
    by (simp add: deref_def FindLayer_def UpDown_layers split: option.split)
  have ok3: "\<forall>p \<in> set (layer_stack ?lm3). \<exists>l. deref ?lm3 p = Some l"
    using wf3 by (auto simp: wf_desktop_def wf_layers_def)
  have "distinct (xs @ Some ?m # ys)" unfolding st1 [symmetric] by (rule distinct_removeAll [OF dist])
  moreover have fresh: "Some a \<notin> set (xs @ Some ?m # ys)" unfolding st1 [symmetric] by simp
  ultimately have "Some ?m \<notin> set (Some a # xs)" by auto
  from height_from_found [OF _ this, of ?lm3 ys 0] ok3 st3 have h: "GetHeight ?lm3 ?m = Some (int (length xs) + 1)"
    by (simp add: GetHeight_def)
  let ?lm4 = "UpDown a (int (length xs)) ?lm3"
  have l3: "FindLayer ?lm3 a = Some l" using l by (simp add: FindLayer_def UpDown_layers)
  have wf4: "wf_desktop (?d3\<lparr>layers := ?lm4\<rparr>)" using wf_desktop_UpDown [OF wf3, of a l "int (length xs)"] l3 by simp
  have "layer_ptr ?lm3 a = Some a" using l3 FindLayer_num [OF l3] by (simp add: layer_ptr_def)
  moreover have dist3: "distinct (layer_stack ?lm3)" using wf3 by (simp add: wf_desktop_def)
  moreover have "removeAll (Some a) (layer_stack ?lm3) = xs @ Some ?m # ys"
    unfolding st3 using removeAll_id [OF fresh] by simp
  ultimately have st4: "layer_stack ?lm4 = xs @ Some a # Some ?m # ys"
    using UpDown_stack [OF dist3, of "int (length xs)" a] by (simp add: insert_at_def)
  let ?d4 = "?d3\<lparr>layers := ?lm4\<rparr>"
  have "visible ?d4 a" using st4 l3 win l by (simp add: visible_def has_window_def FindLayer_def UpDown_layers)
  from draw_desktop_ok [OF wf4 this] obtain lm5 where
    d5: "draw_desktop_layer a ?d4 = Some (?d4\<lparr>layers := lm5\<rparr>)" "wf_desktop (?d4\<lparr>layers := lm5\<rparr>)" "same_layers ?lm4 lm5" by auto
  from SendWindowActiveMessage_ok [OF d5(2), of a 1] obtain tm e where
    s: "SendWindowActiveMessage a 1 (?d4\<lparr>layers := lm5\<rparr>) = Some (?d4\<lparr>layers := lm5, tasks := tm\<rparr>, e)"
      "wf_desktop (?d4\<lparr>layers := lm5, tasks := tm\<rparr>)" by auto
  have "Activate hankaku ft a d = Some (?d4\<lparr>layers := lm5, tasks := tm\<rparr>)"
    using a(2,3) d1(1,4) d3(1) h d5(1) s(1) unfolding Activate_def pre_def by (simp add: Let_def)
  then show ?thesis using s(2) d5(3) st4 d1(3,4) by (simp add: same_layers_def UpDown_layers)
qed

lemma Activate_none:
  assumes "wf_desktop d" "length hankaku = 4096" "0 < active_layer d \<longrightarrow> visible d (active_layer d)"
  shows "\<exists>d'. Activate hankaku ft 0 d = Some d' \<and> wf_desktop d' \<and> active_layer d' = 0 \<and>
    same_layers (layers d) (layers d') \<and> mouse_layer d' = mouse_layer d"
proof (cases "active_layer d = 0")
  case True
  then show ?thesis using assms(1) by (simp add: Activate_def same_layers_def)
next
  case False
  with deactivate_ok [OF assms(1) _ assms(2), of "active_layer d" ft] assms(3) obtain d' where
    "do { a \<leftarrow> redecorate (Window_Deactivate hankaku ft) (active_layer d) d;
          b \<leftarrow> draw_desktop_layer (active_layer d) a;
          map_option fst (SendWindowActiveMessage (active_layer d) 0 b) } = Some d'"
    "wf_desktop d'" "same_layers (layers d) (layers d')" "mouse_layer d' = mouse_layer d" by auto
  then show ?thesis using False by (auto simp: Activate_def)
qed

section \<open>Moving a layer\<close>

lemma find_update:
  "(\<And>l. layer_num (f l) = layer_num l) \<Longrightarrow>
     find (\<lambda>l. layer_num l = j) (map (\<lambda>l. if layer_num l = i then f l else l) ls)
     = map_option (\<lambda>l. if layer_num l = i then f l else l) (find (\<lambda>l. layer_num l = j) ls)"
  by (induction ls) auto

lemma FindLayer_update:
  "(\<And>l. layer_num (f l) = layer_num l) \<Longrightarrow>
     FindLayer (update_layer i f lm) j = map_option (\<lambda>l. if layer_num l = i then f l else l) (FindLayer lm j)"
  by (simp add: FindLayer_def update_layer_def find_update)

lemma move_and_draw_ok:
  assumes wf: "wf_desktop d" and vis: "visible d i"
    and f: "\<And>l. layer_num (f l) = layer_num l" "\<And>l. layer_window (f l) = layer_window l"
  shows "\<exists>lm. move_and_draw (windows d) i f (layers d) = Some lm \<and> wf_desktop (d\<lparr>layers := lm\<rparr>) \<and>
    same_layers (update_layer i f (layers d)) lm"
proof -
  let ?lm = "update_layer i f (layers d)"
  from vis obtain l k where l: "FindLayer (layers d) i = Some l" "layer_window l = Some k"
    by (auto simp: visible_def has_window_def)
  have up: "wf_layer wins dst (if layer_num l = i then f l else l) = wf_layer wins dst l" for wins dst l
    by (simp add: wf_layer_def f(2))
  have "l \<in> set (lm_layers (layers d))" using l(1) by (auto simp: FindLayer_def find_Some_iff)
  then obtain w where w: "windows d k = Some w" "wf_win w" using wf l(2) by (fastforce simp: wf_desktop_def wf_layer_def)
  have keep: "lm_screen ?lm = lm_screen (layers d)" "lm_back ?lm = lm_back (layers d)"
    "layer_stack ?lm = layer_stack (layers d)" by (simp_all add: update_layer_def)
  have "\<exists>l. deref ?lm p = Some l \<and> wf_layer (windows d) (lm_back (layers d)) l" if p: "p \<in> set (layer_stack (layers d))" for p
  proof -
    obtain l0 where "deref (layers d) p = Some l0" "wf_layer (windows d) (lm_back (layers d)) l0"
      using wf p by (auto simp: wf_desktop_def wf_layers_def)
    moreover have "deref ?lm p = map_option (\<lambda>l. if layer_num l = i then f l else l) (deref (layers d) p)"
      using FindLayer_update [of f i "layers d", OF f(1)] by (simp add: deref_def split: option.split)
    ultimately show ?thesis using up [of _ _ l0] by simp
  qed
  then have "wf_layers ?lm (windows d)" using wf by (simp add: wf_desktop_def wf_layers_def keep)
  then obtain lm1 where lm1: "Draw_area (windows d) (Rect (layer_pos l) (Window_Size w)) ?lm = Some lm1"
    "wf_layers lm1 (windows d)" "same_layers ?lm lm1"
    using Draw_area_spec [of ?lm "windows d" "Rect (layer_pos l) (Window_Size w)"] w(2)
    by (auto simp: wf_win_def Window_Size_def)
  have "has_window lm1 i"
    using l f same_layers_find [OF lm1(3), of i] FindLayer_update [of f i "layers d" i, OF f(1)]
    by (simp add: has_window_def)
  moreover have "Some i \<in> set (layer_stack lm1)"
    using vis lm1(3) keep(3) by (simp add: visible_def same_layers_def)
  ultimately obtain lm2 where lm2: "Draw_layer (windows d) i lm1 = Some lm2" "wf_layers lm2 (windows d)" "same_layers lm1 lm2"
    using Draw_layer_ok [OF lm1(2)] by blast
  have same: "same_layers ?lm lm2" using lm1(3) lm2(3) by (simp add: same_layers_def)
  have bcfg: "fb_config (lm_back lm2) = fb_config (lm_back (layers d))" using same keep(2) by (simp add: same_layers_def)
  have "wf_layer (windows d) (lm_back lm2) l'" if "l' \<in> set (lm_layers lm2)" for l'
  proof -
    have "l' \<in> (\<lambda>l. if layer_num l = i then f l else l) ` set (lm_layers (layers d))"
      using that same by (simp add: same_layers_def update_layer_def)
    then obtain l0 where "l' = (if layer_num l0 = i then f l0 else l0)" "l0 \<in> set (lm_layers (layers d))"
      by (rule imageE)
    then show ?thesis using wf up [of _ _ l0] wf_layer_config [OF bcfg] by (simp add: wf_desktop_def)
  qed
  then have "wf_desktop (d\<lparr>layers := lm2\<rparr>)"
    using wf lm2(2) same keep(3) by (simp add: wf_desktop_def same_layers_def)
  moreover have "move_and_draw (windows d) i f (layers d) = Some lm2"
    using l w(1) lm1(1) lm2(1) by (simp add: move_and_draw_def)
  ultimately show ?thesis using same by blast
qed

section \<open>Properties\<close>

definition demo_layers :: LayerManager where
  "demo_layers = \<lparr>lm_screen = demo_fb, lm_back = demo_fb,
     lm_layers = map (\<lambda>i. SetWindow_layer 0 (new_Layer i)) [1, 2, 3],
     layer_stack = [Some 1, Some 3, Some 2], latest_id = 3\<rparr>"

definition demo_desktop :: Desktop where
  "demo_desktop = \<lparr>layers = demo_layers, windows = [0 \<mapsto> demo_win], active_layer = 0, mouse_layer = 2,
     layer_task_map = Map.empty, tasks = boot_manager\<rparr>"

lemma demo_wf_layer: "layer_window l = Some 0 \<Longrightarrow> wf_layer [0 \<mapsto> demo_win] demo_fb l"
  using demo_win_wf by (simp add: wf_layer_def same_format_def demo_win_def)

lemma demo_find: "\<forall>p \<in> set [Some 1, Some 3, Some 2]. \<exists>l. deref demo_layers p = Some l \<and> layer_window l = Some 0"
  by (simp add: deref_def FindLayer_def demo_layers_def SetWindow_layer_def new_Layer_def)

lemma demo_wf_layers: "wf_layers demo_layers [0 \<mapsto> demo_win]"
  using demo_find demo_wf demo_wf_layer unfolding wf_layers_def
  by (simp add: demo_layers_def) blast

lemma demo_wf_desktop: "wf_desktop demo_desktop"
proof -
  have "tm_inv boot_manager" by (rule tm_inv_new)
  moreover have "wf_layer [0 \<mapsto> demo_win] demo_fb (SetWindow_layer 0 (new_Layer i))" for i
    by (rule demo_wf_layer) (simp add: SetWindow_layer_def)
  moreover have "title_fits demo_win" by (simp add: title_fits_def demo_win_def)
  ultimately show ?thesis using demo_wf_layers
    by (simp add: wf_desktop_def demo_desktop_def) (simp add: demo_layers_def)
qed

text \<open>
  C8. Drawing an area composes the windows: afterwards every pixel of the screen inside the
  area is the pixel of the topmost layer of the stack whose window covers the point with a
  colour other than its transparent one, or the old pixel of the background buffer if there
  is none; no pixel outside the area changes, and no memory outside the buffers is touched.
\<close>

theorem Draw_composites:
  assumes "wf_layers lm wins" "0 \<le> vx (rsize area)" "0 \<le> vy (rsize area)"
  shows "\<exists>lm'. Draw_area wins area lm = Some lm' \<and> wf_layers lm' wins \<and>
    lm_layers lm' = lm_layers lm \<and> layer_stack lm' = layer_stack lm \<and> latest_id lm' = latest_id lm \<and>
    (\<forall>q. fb_inside (lm_screen lm) q \<longrightarrow> fb_pixel (lm_screen lm') q =
      (if in_rect (rpos area) (rsize area) q
       then case topmost_pixel lm wins (layer_stack lm) q of None \<Rightarrow> fb_pixel (lm_back lm) q | Some c \<Rightarrow> c
       else fb_pixel (lm_screen lm) q))"
  using Draw_area_spec [OF assms] by blast

theorem Draw_composites_witness:
  "\<exists>lm'. Draw_area [0 \<mapsto> demo_win] (Rect (Vec 1 0) (Vec 2 2)) demo_layers = Some lm' \<and> wf_layers lm' [0 \<mapsto> demo_win]"
  using Draw_composites [OF demo_wf_layers, of "Rect (Vec 1 0) (Vec 2 2)"] by auto

text \<open>
  \<open>UpDown\<close> with a height that is not negative puts the layer at that height, or on top if
  the stack is lower, and keeps the order of all the others; no layer comes in twice.
\<close>

lemma UpDown_places:
  assumes "distinct (layer_stack lm)" "0 \<le> h"
  shows "let p = layer_ptr lm i; others = removeAll p (layer_stack lm); s = layer_stack (UpDown i h lm) in
    distinct s \<and> removeAll p s = others \<and> length s = length others + 1 \<and> s ! min (nat h) (length others) = p"
proof -
  let ?p = "layer_ptr lm i"
  let ?o = "removeAll ?p (layer_stack lm)"
  have "distinct ?o" "?p \<notin> set ?o" using assms(1) by (simp_all add: distinct_removeAll)
  from insert_at_props [OF _ this(2,1), of "min (nat h) (length ?o)"] show ?thesis
    unfolding Let_def UpDown_stack [OF assms] by simp
qed

lemma UpDown_places_witness:
  "layer_stack (UpDown 1 7 demo_layers) ! 2 = Some 1"
proof -
  have "layer_ptr demo_layers 1 = Some 1" "layer_stack demo_layers = [Some 1, Some 3, Some 2]"
    by (simp_all add: demo_layers_def layer_ptr_def FindLayer_def SetWindow_layer_def new_Layer_def)
  with UpDown_places [of demo_layers 7 1] show ?thesis by (simp add: Let_def eval_nat_numeral)
qed

text \<open>
  C26. Activating another window of a consistent desktop, with the mouse cursor's layer
  visible, succeeds: the window becomes the active one, the desktop stays consistent, and
  the new stack is the old order of the other layers with the window directly below the
  cursor's layer.
\<close>

theorem Activate_below_mouse:
  assumes "wf_desktop d" "length hankaku = 4096"
    and "has_window (layers d) a" "0 < a" "a \<noteq> active_layer d"
    and "0 < active_layer d \<longrightarrow> visible d (active_layer d)"
    and "removeAll (Some a) (layer_stack (layers d)) = xs @ Some (mouse_layer d) # ys"
  shows "\<exists>d'. Activate hankaku ft a d = Some d' \<and> wf_desktop d' \<and> active_layer d' = a \<and>
    layer_stack (layers d') = xs @ Some a # Some (mouse_layer d) # ys"
  using Activate_raise [OF assms] by blast

theorem Activate_below_mouse_witness:
  "\<exists>d'. Activate (replicate 4096 1) demo_ft 1 demo_desktop = Some d' \<and> wf_desktop d' \<and> active_layer d' = 1 \<and>
    layer_stack (layers d') = [Some 3] @ Some 1 # Some (mouse_layer demo_desktop) # []"
  by (rule Activate_below_mouse [OF demo_wf_desktop])
    (simp_all add: has_window_def demo_desktop_def demo_layers_def FindLayer_def SetWindow_layer_def new_Layer_def)

end
