(* ===== verification/Fat.thy ===== *)
theory Fat
  imports Kernel_Prelude
begin

text \<open>
  The FAT file system: \<open>kernel/fat.hpp\<close> and \<open>kernel/fat.cpp\<close>.  The volume image is a list of
  bytes; pointers into it are offsets from \<open>boot_volume_image\<close>.  The boot parameter block is read
  once, as nothing of the model writes to the reserved sectors.  C strings are byte lists without
  the terminator.  An access outside the image, or outside the first FAT, is \<open>None\<close>.
\<close>

section \<open>On-disk structures\<close>

record BPB =
  jump_boot :: "u8 list"
  oem_name :: "u8 list"
  bytes_per_sector :: u16
  sectors_per_cluster :: u8
  reserved_sector_count :: u16
  num_fats :: u8
  root_entry_count :: u16
  total_sectors_16 :: u16
  media :: u8
  fat_size_16 :: u16
  sectors_per_track :: u16
  num_heads :: u16
  hidden_sectors :: u32
  total_sectors_32 :: u32
  fat_size_32 :: u32
  ext_flags :: u16
  fs_version :: u16
  root_cluster :: u32
  fs_info :: u16
  backup_boot_sector :: u16
  bpb_reserved :: "u8 list"
  drive_number :: u8
  bpb_reserved1 :: u8
  boot_signature :: u8
  volume_id :: u32
  volume_label :: "u8 list"
  fs_type :: "u8 list"

definition le_bytes :: "'a::len word \<Rightarrow> u8 list" where
  "le_bytes w = map (\<lambda>i. ucast (drop_bit (8 * i) w)) [0..<LENGTH('a) div 8]"

definition bytes_at :: "nat \<Rightarrow> nat \<Rightarrow> u8 list \<Rightarrow> u8 list" where
  "bytes_at off n bs = take n (drop off bs)"

definition patch_bytes :: "nat \<Rightarrow> u8 list \<Rightarrow> u8 list \<Rightarrow> u8 list" where
  "patch_bytes off new bs = take off bs @ new @ drop (off + length new) bs"

definition bpb_of :: "u8 list \<Rightarrow> BPB" where
  "bpb_of bs = \<lparr>jump_boot = bytes_at 0 3 bs, oem_name = bytes_at 3 8 bs,
     bytes_per_sector = le_word (bytes_at 11 2 bs), sectors_per_cluster = le_word (bytes_at 13 1 bs),
     reserved_sector_count = le_word (bytes_at 14 2 bs), num_fats = le_word (bytes_at 16 1 bs),
     root_entry_count = le_word (bytes_at 17 2 bs), total_sectors_16 = le_word (bytes_at 19 2 bs),
     media = le_word (bytes_at 21 1 bs), fat_size_16 = le_word (bytes_at 22 2 bs),
     sectors_per_track = le_word (bytes_at 24 2 bs), num_heads = le_word (bytes_at 26 2 bs),
     hidden_sectors = le_word (bytes_at 28 4 bs), total_sectors_32 = le_word (bytes_at 32 4 bs),
     fat_size_32 = le_word (bytes_at 36 4 bs), ext_flags = le_word (bytes_at 40 2 bs),
     fs_version = le_word (bytes_at 42 2 bs), root_cluster = le_word (bytes_at 44 4 bs),
     fs_info = le_word (bytes_at 48 2 bs), backup_boot_sector = le_word (bytes_at 50 2 bs),
     bpb_reserved = bytes_at 52 12 bs, drive_number = le_word (bytes_at 64 1 bs),
     bpb_reserved1 = le_word (bytes_at 65 1 bs), boot_signature = le_word (bytes_at 66 1 bs),
     volume_id = le_word (bytes_at 67 4 bs), volume_label = bytes_at 71 11 bs,
     fs_type = bytes_at 82 8 bs\<rparr>"

definition kReadOnly :: u8 where "kReadOnly = 0x01"
definition kHidden :: u8 where "kHidden = 0x02"
definition kSystem :: u8 where "kSystem = 0x04"
definition kVolumeID :: u8 where "kVolumeID = 0x08"
definition kDirectory :: u8 where "kDirectory = 0x10"
definition kArchive :: u8 where "kArchive = 0x20"
definition kLongName :: u8 where "kLongName = 0x0f"

record DirectoryEntry =
  name :: "u8 list"
  attr :: u8
  ntres :: u8
  create_time_tenth :: u8
  create_time :: u16
  create_data :: u16
  last_access_date :: u16
  first_cluster_high :: u16
  write_time :: u16
  write_date :: u16
  first_cluster_low :: u16
  file_size :: u32

definition FirstCluster :: "DirectoryEntry \<Rightarrow> nat" where
  "FirstCluster e = unat (ucast (first_cluster_low e) OR push_bit 16 (ucast (first_cluster_high e)) :: u32)"

definition dir_entry_of :: "u8 list \<Rightarrow> DirectoryEntry" where
  "dir_entry_of bs = \<lparr>name = bytes_at 0 11 bs, attr = le_word (bytes_at 11 1 bs),
     ntres = le_word (bytes_at 12 1 bs), create_time_tenth = le_word (bytes_at 13 1 bs),
     create_time = le_word (bytes_at 14 2 bs), create_data = le_word (bytes_at 16 2 bs),
     last_access_date = le_word (bytes_at 18 2 bs), first_cluster_high = le_word (bytes_at 20 2 bs),
     write_time = le_word (bytes_at 22 2 bs), write_date = le_word (bytes_at 24 2 bs),
     first_cluster_low = le_word (bytes_at 26 2 bs), file_size = le_word (bytes_at 28 4 bs)\<rparr>"

section \<open>The volume\<close>

record volume =
  bpb :: BPB
  bytes_per_cluster :: nat
  img :: "u8 list"

definition Initialize :: "u8 list \<Rightarrow> volume" where
  "Initialize volume_image =
    (let b = bpb_of volume_image in
     \<lparr>bpb = b, bytes_per_cluster = unat (ucast (bytes_per_sector b) * ucast (sectors_per_cluster b) :: u64),
      img = volume_image\<rparr>)"

text \<open>\<open>GetClusterAddr\<close> relative to \<open>boot_volume_image\<close>, with the widths of the C++ operands.\<close>

definition GetClusterAddr :: "volume \<Rightarrow> nat \<Rightarrow> nat" where
  "GetClusterAddr v cluster =
    (let b = bpb v;
         sector_num = ucast (ucast (reserved_sector_count b) + ucast (num_fats b) * fat_size_32 b :: u32) +
           (of_nat cluster - 2) * ucast (sectors_per_cluster b) :: u64
     in unat (sector_num * ucast (bytes_per_sector b)))"

definition read_mem :: "volume \<Rightarrow> nat \<Rightarrow> nat \<Rightarrow> u8 list option" where
  "read_mem v a n = (if a + n \<le> length (img v) then Some (bytes_at a n (img v)) else None)"

definition write_mem :: "volume \<Rightarrow> nat \<Rightarrow> u8 list \<Rightarrow> volume option" where
  "write_mem v a bs =
    (if a + length bs \<le> length (img v) then Some (v\<lparr>img := patch_bytes a bs (img v)\<rparr>) else None)"

definition GetFAT :: "volume \<Rightarrow> nat" where
  "GetFAT v = unat (reserved_sector_count (bpb v)) * unat (bytes_per_sector (bpb v))"

definition fat_entries :: "volume \<Rightarrow> nat" where
  "fat_entries v = unat (fat_size_32 (bpb v)) * unat (bytes_per_sector (bpb v)) div 4"

definition fat_get :: "volume \<Rightarrow> nat \<Rightarrow> nat option" where
  "fat_get v c =
    (if c < fat_entries v then map_option (\<lambda>bs. unat (le_word bs :: u32)) (read_mem v (GetFAT v + 4 * c) 4)
     else None)"

definition fat_put :: "volume \<Rightarrow> nat \<Rightarrow> nat \<Rightarrow> volume option" where
  "fat_put v c x =
    (if c < fat_entries v then write_mem v (GetFAT v + 4 * c) (le_bytes (of_nat x :: u32)) else None)"

definition kEndOfClusterchain :: nat where "kEndOfClusterchain = 0x0fffffff"

definition IsEndOfClusterchain :: "nat \<Rightarrow> bool" where
  "IsEndOfClusterchain cluster \<longleftrightarrow> cluster \<ge> 0x0ffffff8"

definition NextCluster :: "volume \<Rightarrow> nat \<Rightarrow> nat option" where
  "NextCluster v cluster =
    map_option (\<lambda>nxt. if IsEndOfClusterchain nxt then kEndOfClusterchain else nxt) (fat_get v cluster)"

text \<open>Directory entries are 32 bytes.\<close>

definition dir_entry :: "volume \<Rightarrow> nat \<Rightarrow> DirectoryEntry option" where
  "dir_entry v a = map_option dir_entry_of (read_mem v a 32)"

definition entries_per_cluster :: "volume \<Rightarrow> nat" where
  "entries_per_cluster v = bytes_per_cluster v div 32"

section \<open>Names\<close>

text \<open>\<open>ReadName\<close> cuts the padding at the end of the two parts; both end at a NUL.\<close>

fun drop_spaces :: "u8 list \<Rightarrow> u8 list" where
  "drop_spaces [] = []"
| "drop_spaces (b # bs) = (if b = 0x20 then drop_spaces bs else b # bs)"

definition c_str :: "u8 list \<Rightarrow> u8 list" where
  "c_str bs = takeWhile (\<lambda>b. b \<noteq> 0) bs"

definition ReadName :: "DirectoryEntry \<Rightarrow> u8 list \<times> u8 list" where
  "ReadName e = (c_str (rev (drop_spaces (rev (take 8 (name e))))),
                 c_str (rev (drop_spaces (rev (bytes_at 8 3 (name e))))))"

definition dot :: u8 where "dot = 0x2e"
definition slash :: u8 where "slash = 0x2f"

definition FormatName :: "DirectoryEntry \<Rightarrow> u8 list" where
  "FormatName e = (let (base, ext) = ReadName e in if ext \<noteq> [] then base @ [dot] @ ext else base)"

definition toupper :: "u8 \<Rightarrow> u8" where
  "toupper c = (if 0x61 \<le> c \<and> c \<le> 0x7a then c - 0x20 else c)"

fun fill_name83 :: "u8 list \<Rightarrow> nat \<Rightarrow> u8 list \<Rightarrow> u8 list" where
  "fill_name83 [] i83 name83 = name83"
| "fill_name83 (c # cs) i83 name83 =
    (if i83 < 11 then
       if c = dot then fill_name83 cs 8 name83
       else fill_name83 cs (Suc i83) (name83[i83 := toupper c])
     else name83)"

definition NameIsEqual :: "DirectoryEntry \<Rightarrow> u8 list \<Rightarrow> bool" where
  "NameIsEqual e nm \<longleftrightarrow> name e = fill_name83 nm 0 (replicate 11 0x20)"

text \<open>\<open>strrchr\<close> splits at the last occurrence, \<open>strchr\<close> at the first.\<close>

fun split_last :: "u8 \<Rightarrow> u8 list \<Rightarrow> (u8 list \<times> u8 list) option" where
  "split_last c [] = None"
| "split_last c (x # xs) =
    (case split_last c xs of
       Some (a, b) \<Rightarrow> Some (x # a, b)
     | None \<Rightarrow> if x = c then Some ([], xs) else None)"

fun split_first :: "u8 \<Rightarrow> u8 list \<Rightarrow> (u8 list \<times> u8 list) option" where
  "split_first c [] = None"
| "split_first c (x # xs) =
    (if x = c then Some ([], xs) else map_option (\<lambda>(a, b). (x # a, b)) (split_first c xs))"

definition name83_of :: "u8 list \<Rightarrow> u8 list" where
  "name83_of nm =
    (case split_last dot nm of
       Some (base, ext) \<Rightarrow>
         let b = map toupper (take 8 base); e = map toupper (take 3 ext) in
         b @ replicate (8 - length b) 0x20 @ e @ replicate (3 - length e) 0x20
     | None \<Rightarrow> let b = map toupper (take 8 nm) in b @ replicate (11 - length b) 0x20)"

definition SetFileName :: "volume \<Rightarrow> nat \<Rightarrow> u8 list \<Rightarrow> volume option" where
  "SetFileName v entry nm = write_mem v entry (name83_of nm)"

text \<open>
  \<open>NextPathElement\<close>: the element and the rest behind the slash, if there is one.  The element
  is copied into an array of 13 characters.
\<close>

definition NextPathElement :: "u8 list \<Rightarrow> (u8 list \<times> u8 list option \<times> bool) option" where
  "NextPathElement path =
    (case split_first slash path of
       None \<Rightarrow> if length path < 13 then Some (path, None, False) else None
     | Some (elem, rest) \<Rightarrow> if length elem < 13 then Some (elem, Some rest, True) else None)"

section \<open>Directories\<close>

datatype dir_search = NotInCluster | EndOfDirectory | FoundEntry nat

text \<open>The search through the entries of one cluster, from entry \<open>i\<close> with \<open>k\<close> left.\<close>

fun search_cluster :: "volume \<Rightarrow> u8 list \<Rightarrow> nat \<Rightarrow> nat \<Rightarrow> nat \<Rightarrow> dir_search option" where
  "search_cluster v elem dir i 0 = Some NotInCluster"
| "search_cluster v elem dir i (Suc k) =
    (case dir_entry v (dir + 32 * i) of
       None \<Rightarrow> None
     | Some e \<Rightarrow>
         if hd (name e) = 0 then Some EndOfDirectory
         else if NameIsEqual e elem then Some (FoundEntry (dir + 32 * i))
         else search_cluster v elem dir (Suc i) k)"

text \<open>The search through the directory's cluster chain; a cyclic chain never ends.\<close>

partial_function (option) search_dir :: "volume \<Rightarrow> u8 list \<Rightarrow> nat \<Rightarrow> nat option option" where
  "search_dir v elem cluster =
    (if cluster = kEndOfClusterchain then Some None
     else case search_cluster v elem (GetClusterAddr v cluster) 0 (entries_per_cluster v) of
            None \<Rightarrow> None
          | Some EndOfDirectory \<Rightarrow> Some None
          | Some (FoundEntry a) \<Rightarrow> Some (Some a)
          | Some NotInCluster \<Rightarrow>
              (case NextCluster v cluster of None \<Rightarrow> None | Some nxt \<Rightarrow> search_dir v elem nxt))"

lemma split_first_length: "split_first c xs = Some (a, b) \<Longrightarrow> length b < length xs"
  by (induction xs arbitrary: a b) (auto split: if_splits)

text \<open>\<open>FindFile\<close>; the result is the entry's address and the flag for a slash after it.\<close>

function (sequential) FindFile :: "volume \<Rightarrow> u8 list \<Rightarrow> nat \<Rightarrow> (nat option \<times> bool) option" where
  "FindFile v path directory_cluster =
    (let (path', dir) =
           (case path of
              c # rest \<Rightarrow> if c = slash then (rest, unat (root_cluster (bpb v)))
                          else if directory_cluster = 0 then (path, unat (root_cluster (bpb v)))
                          else (path, directory_cluster)
            | [] \<Rightarrow> (path, if directory_cluster = 0 then unat (root_cluster (bpb v)) else directory_cluster))
     in case NextPathElement path' of
          None \<Rightarrow> None
        | Some (elem, next_path, post_slash) \<Rightarrow>
            (case search_dir v elem dir of
               None \<Rightarrow> None
             | Some None \<Rightarrow> Some (None, post_slash)
             | Some (Some a) \<Rightarrow>
                 (case dir_entry v a of
                    None \<Rightarrow> None
                  | Some e \<Rightarrow>
                      (case next_path of
                         Some rest \<Rightarrow>
                           if attr e = kDirectory \<and> rest \<noteq> [] then FindFile v rest (FirstCluster e)
                           else Some (Some a, post_slash)
                       | None \<Rightarrow> Some (Some a, post_slash)))))"
  by pat_completeness auto
termination
  by (relation "measure (\<lambda>(v, path, d). length path)")
    (auto simp: NextPathElement_def split: option.splits list.splits if_splits dest: split_first_length)

section \<open>Cluster chains\<close>

partial_function (option) chain_end :: "volume \<Rightarrow> nat \<Rightarrow> nat option" where
  "chain_end v c =
    (case fat_get v c of None \<Rightarrow> None
     | Some x \<Rightarrow> if IsEndOfClusterchain x then Some c else chain_end v x)"

lemma fat_put_entries: "fat_put v c x = Some v' \<Longrightarrow> fat_entries v' = fat_entries v"
  by (auto simp: fat_put_def write_mem_def fat_entries_def split: if_splits)

text \<open>The allocation loop, from \<open>candidate\<close> on; it leaves the FAT when there is no free entry.\<close>

function (sequential) extend_loop :: "volume \<Rightarrow> nat \<Rightarrow> nat \<Rightarrow> nat \<Rightarrow> (volume \<times> nat) option" where
  "extend_loop v current 0 candidate = Some (v, current)"
| "extend_loop v current (Suc n) candidate =
    (if candidate < fat_entries v then
       case fat_get v candidate of
         None \<Rightarrow> None
       | Some x \<Rightarrow>
           if x \<noteq> 0 then extend_loop v current (Suc n) (Suc candidate)
           else case fat_put v current candidate of
                  None \<Rightarrow> None
                | Some v' \<Rightarrow> extend_loop v' candidate n (Suc candidate)
     else None)"
  by pat_completeness auto
termination
  by (relation "measure (\<lambda>(v, current, n, candidate). fat_entries v - candidate)")
    (auto dest: fat_put_entries)

definition ExtendCluster :: "volume \<Rightarrow> nat \<Rightarrow> nat \<Rightarrow> (volume \<times> nat) option" where
  "ExtendCluster v eoc_cluster n =
    (case chain_end v eoc_cluster of
       None \<Rightarrow> None
     | Some e \<Rightarrow>
         (case extend_loop v e n 2 of
            None \<Rightarrow> None
          | Some (v', current) \<Rightarrow>
              map_option (\<lambda>v''. (v'', current)) (fat_put v' current kEndOfClusterchain)))"

function (sequential) first_free :: "volume \<Rightarrow> nat \<Rightarrow> nat option" where
  "first_free v c =
    (if c < fat_entries v then
       case fat_get v c of None \<Rightarrow> None | Some x \<Rightarrow> if x = 0 then Some c else first_free v (Suc c)
     else None)"
  by pat_completeness auto
termination by (relation "measure (\<lambda>(v, c). fat_entries v - c)") auto

definition AllocateClusterChain :: "volume \<Rightarrow> nat \<Rightarrow> (volume \<times> nat) option" where
  "AllocateClusterChain v n =
    (case first_free v 2 of
       None \<Rightarrow> None
     | Some first_cluster \<Rightarrow>
         (case fat_put v first_cluster kEndOfClusterchain of
            None \<Rightarrow> None
          | Some v' \<Rightarrow>
              if n > 1 then map_option (\<lambda>(v'', _). (v'', first_cluster)) (ExtendCluster v' first_cluster (n - 1))
              else Some (v', first_cluster)))"

section \<open>Creating files\<close>

fun free_entry :: "volume \<Rightarrow> nat \<Rightarrow> nat \<Rightarrow> nat \<Rightarrow> nat option option" where
  "free_entry v dir i 0 = Some None"
| "free_entry v dir i (Suc k) =
    (case dir_entry v (dir + 32 * i) of
       None \<Rightarrow> None
     | Some e \<Rightarrow>
         if hd (name e) = 0 \<or> hd (name e) = 0xe5 then Some (Some (dir + 32 * i))
         else free_entry v dir (Suc i) k)"

text \<open>\<open>Inl\<close> is a free entry, \<open>Inr\<close> the last cluster of a directory without one.\<close>

partial_function (option) find_free_entry :: "volume \<Rightarrow> nat \<Rightarrow> (nat + nat) option" where
  "find_free_entry v cluster =
    (case free_entry v (GetClusterAddr v cluster) 0 (entries_per_cluster v) of
       None \<Rightarrow> None
     | Some (Some a) \<Rightarrow> Some (Inl a)
     | Some None \<Rightarrow>
         (case NextCluster v cluster of
            None \<Rightarrow> None
          | Some nxt \<Rightarrow> if nxt = kEndOfClusterchain then Some (Inr cluster) else find_free_entry v nxt))"

definition AllocateEntry :: "volume \<Rightarrow> nat \<Rightarrow> (volume \<times> nat) option" where
  "AllocateEntry v dir_cluster =
    (case find_free_entry v dir_cluster of
       None \<Rightarrow> None
     | Some (Inl a) \<Rightarrow> Some (v, a)
     | Some (Inr last_cluster) \<Rightarrow>
         (case ExtendCluster v last_cluster 1 of
            None \<Rightarrow> None
          | Some (v', c) \<Rightarrow>
              map_option (\<lambda>v''. (v'', GetClusterAddr v' c))
                (write_mem v' (GetClusterAddr v' c) (replicate (bytes_per_cluster v') 0))))"

definition CreateFile :: "volume \<Rightarrow> u8 list \<Rightarrow> (volume \<times> (ErrorCode + nat)) option" where
  "CreateFile v path =
    (let create = (\<lambda>dir_cluster filename.
           case AllocateEntry v dir_cluster of
             None \<Rightarrow> None
           | Some (v1, entry) \<Rightarrow>
               (case SetFileName v1 entry filename of
                  None \<Rightarrow> None
                | Some v2 \<Rightarrow>
                    map_option (\<lambda>v3. (v3, Inr entry)) (write_mem v2 (entry + 28) (le_bytes (0::u32)))))
     in case split_last slash path of
          None \<Rightarrow> create (unat (root_cluster (bpb v))) path
        | Some (parent_dir_name, filename) \<Rightarrow>
            if filename = [] then Some (v, Inl kIsDirectory)
            else if parent_dir_name = [] then create (unat (root_cluster (bpb v))) filename
            else
              (case FindFile v parent_dir_name 0 of
                 None \<Rightarrow> None
               | Some (None, _) \<Rightarrow> Some (v, Inl kNoSuchEntry)
               | Some (Some a, _) \<Rightarrow>
                   (case dir_entry v a of
                      None \<Rightarrow> None
                    | Some e \<Rightarrow> create (FirstCluster e) filename)))"

section \<open>File descriptors\<close>

text \<open>\<open>fd_entry\<close> is the address of the referenced directory entry.\<close>

record FileDescriptor =
  fd_entry :: nat
  rd_off :: nat
  rd_cluster :: nat
  rd_cluster_off :: nat
  wr_off :: nat
  wr_cluster :: nat
  wr_cluster_off :: nat

definition FileDescriptor_new :: "nat \<Rightarrow> FileDescriptor" where
  "FileDescriptor_new e = \<lparr>fd_entry = e, rd_off = 0, rd_cluster = 0, rd_cluster_off = 0,
     wr_off = 0, wr_cluster = 0, wr_cluster_off = 0\<rparr>"

definition Size :: "volume \<Rightarrow> FileDescriptor \<Rightarrow> nat option" where
  "Size v fd = map_option (\<lambda>e. unat (file_size e)) (dir_entry v (fd_entry fd))"

text \<open>The copy loop of \<open>Read\<close>: \<open>rem\<close> is \<open>len - total\<close>.\<close>

partial_function (option) read_loop ::
  "volume \<Rightarrow> nat \<Rightarrow> nat \<Rightarrow> nat \<Rightarrow> u8 list \<Rightarrow> (nat \<times> nat \<times> u8 list) option" where
  "read_loop v cluster off rem buf =
    (if rem = 0 then Some (cluster, off, buf)
     else
       let n = min rem (bytes_per_cluster v - off) in
       case read_mem v (GetClusterAddr v cluster + off) n of
         None \<Rightarrow> None
       | Some bs \<Rightarrow>
           if off + n = bytes_per_cluster v then
             case NextCluster v cluster of
               None \<Rightarrow> None
             | Some nxt \<Rightarrow> read_loop v nxt 0 (rem - n) (buf @ bs)
           else read_loop v cluster (off + n) (rem - n) (buf @ bs))"

text \<open>\<open>file_size - rd_off_\<close> is computed in 64 bits and wraps when the offset is behind the end.\<close>

definition Read :: "volume \<Rightarrow> FileDescriptor \<Rightarrow> nat \<Rightarrow> (FileDescriptor \<times> u8 list) option" where
  "Read v fd len =
    (case dir_entry v (fd_entry fd) of
       None \<Rightarrow> None
     | Some e \<Rightarrow>
         let c = (if rd_cluster fd = 0 then FirstCluster e else rd_cluster fd);
             len' = min len (unat (ucast (file_size e) - of_nat (rd_off fd) :: u64))
         in case read_loop v c (rd_cluster_off fd) len' [] of
              None \<Rightarrow> None
            | Some (c', off', buf) \<Rightarrow>
                Some (fd\<lparr>rd_cluster := c', rd_cluster_off := off', rd_off := rd_off fd + length buf\<rparr>, buf))"

definition LoadFile :: "volume \<Rightarrow> nat \<Rightarrow> nat \<Rightarrow> u8 list option" where
  "LoadFile v len entry = map_option snd (Read v (FileDescriptor_new entry) len)"

partial_function (option) skip_clusters :: "volume \<Rightarrow> nat \<Rightarrow> nat \<Rightarrow> (nat \<times> nat) option" where
  "skip_clusters v cluster offset =
    (if offset \<ge> bytes_per_cluster v then
       case NextCluster v cluster of
         None \<Rightarrow> None
       | Some nxt \<Rightarrow> skip_clusters v nxt (offset - bytes_per_cluster v)
     else Some (cluster, offset))"

definition Load :: "volume \<Rightarrow> FileDescriptor \<Rightarrow> nat \<Rightarrow> nat \<Rightarrow> u8 list option" where
  "Load v fd len offset =
    (case dir_entry v (fd_entry fd) of
       None \<Rightarrow> None
     | Some e \<Rightarrow>
         (case skip_clusters v (FirstCluster e) offset of
            None \<Rightarrow> None
          | Some (cluster, off) \<Rightarrow>
              map_option snd
                (Read v ((FileDescriptor_new (fd_entry fd))
                   \<lparr>rd_off := offset, rd_cluster := cluster, rd_cluster_off := off\<rparr>) len)))"

definition num_cluster :: "volume \<Rightarrow> nat \<Rightarrow> nat" where
  "num_cluster v bytes = (bytes + bytes_per_cluster v - 1) div bytes_per_cluster v"

text \<open>
  The copy loop of \<open>Write\<close>.  \<open>buf\<close> is the memory from \<open>buf8\<close> on that may be read; the length of
  a piece is \<open>min(len, ...)\<close>, not \<open>min(len - total, ...)\<close>, as in the source.
\<close>

partial_function (option) write_loop ::
  "volume \<Rightarrow> nat \<Rightarrow> nat \<Rightarrow> nat \<Rightarrow> nat \<Rightarrow> u8 list \<Rightarrow> (volume \<times> nat \<times> nat \<times> nat) option" where
  "write_loop v cluster off tot len buf =
    (if tot < len then
       case (if off = bytes_per_cluster v then
               case NextCluster v cluster of
                 None \<Rightarrow> None
               | Some nxt \<Rightarrow>
                   if nxt = kEndOfClusterchain then
                     case ExtendCluster v cluster (num_cluster v (len - tot)) of
                       None \<Rightarrow> None
                     | Some (v', _) \<Rightarrow> map_option (\<lambda>c. (v', c, 0)) (NextCluster v' cluster)
                   else Some (v, nxt, 0)
             else Some (v, cluster, off)) of
         None \<Rightarrow> None
       | Some (v1, cluster1, off1) \<Rightarrow>
           let n = min len (bytes_per_cluster v1 - off1) in
           if tot + n \<le> length buf then
             case write_mem v1 (GetClusterAddr v1 cluster1 + off1) (bytes_at tot n buf) of
               None \<Rightarrow> None
             | Some v2 \<Rightarrow> write_loop v2 cluster1 (off1 + n) (tot + n) len buf
           else None
     else Some (v, cluster, off, tot))"

definition set_first_cluster :: "volume \<Rightarrow> nat \<Rightarrow> nat \<Rightarrow> volume option" where
  "set_first_cluster v entry c =
    (case write_mem v (entry + 26) (le_bytes (of_nat c :: u16)) of
       None \<Rightarrow> None
     | Some v' \<Rightarrow> write_mem v' (entry + 20) (le_bytes (of_nat (c div 2 ^ 16) :: u16)))"

definition Write :: "volume \<Rightarrow> FileDescriptor \<Rightarrow> u8 list \<Rightarrow> nat \<Rightarrow> (volume \<times> FileDescriptor \<times> nat) option" where
  "Write v fd buf len =
    (case dir_entry v (fd_entry fd) of
       None \<Rightarrow> None
     | Some e \<Rightarrow>
         (case (if wr_cluster fd = 0 then
                  if FirstCluster e \<noteq> 0 then Some (v, FirstCluster e)
                  else case AllocateClusterChain v (num_cluster v len) of
                         None \<Rightarrow> None
                       | Some (v', c) \<Rightarrow> map_option (\<lambda>v''. (v'', c)) (set_first_cluster v' (fd_entry fd) c)
                else Some (v, wr_cluster fd)) of
            None \<Rightarrow> None
          | Some (v1, c) \<Rightarrow>
              (case write_loop v1 c (wr_cluster_off fd) 0 len buf of
                 None \<Rightarrow> None
               | Some (v2, c', off', tot) \<Rightarrow>
                   map_option (\<lambda>v3. (v3, fd\<lparr>wr_cluster := c', wr_cluster_off := off', wr_off := wr_off fd + tot\<rparr>, tot))
                     (write_mem v2 (fd_entry fd + 28) (le_bytes (of_nat (wr_off fd + tot) :: u32))))))"

end
