(* ===== verification/Fat_Correct.thy ===== *)
theory Fat_Correct
  imports Fat
begin

text \<open>
  Correctness of the FAT file system: the volume as an array of FAT entries and an array of
  clusters, cluster chains and their extension, file contents, names and directories.
\<close>

section \<open>Bytes\<close>

lemma length_patch_bytes [simp]: "off + length new \<le> length bs \<Longrightarrow> length (patch_bytes off new bs) = length bs"
  by (simp add: patch_bytes_def)

lemma length_bytes_at [simp]: "length (bytes_at off n bs) = min n (length bs - off)"
  by (simp add: bytes_at_def)

lemma bytes_at_patch:
  "off + length new \<le> length bs \<Longrightarrow> n = length new \<Longrightarrow> bytes_at off n (patch_bytes off new bs) = new"
  by (simp add: bytes_at_def patch_bytes_def)

lemma nth_bytes_at: "i < n \<Longrightarrow> off + i < length bs \<Longrightarrow> bytes_at off n bs ! i = bs ! (off + i)"
  by (simp add: bytes_at_def)

lemma nth_patch_bytes:
  "off + length new \<le> length bs \<Longrightarrow> i < length bs \<Longrightarrow>
     patch_bytes off new bs ! i = (if off \<le> i \<and> i < off + length new then new ! (i - off) else bs ! i)"
  by (auto simp: patch_bytes_def nth_append min_def)

lemma bytes_at_patch_other:
  assumes "off + length new \<le> length bs" "a + n \<le> off \<or> off + length new \<le> a"
  shows "bytes_at a n (patch_bytes off new bs) = bytes_at a n bs"
  using assms by (intro nth_equalityI) (auto simp: nth_bytes_at nth_patch_bytes)

lemma bytes_at_bytes_at: "a + n \<le> m \<Longrightarrow> bytes_at a n (bytes_at b m bs) = bytes_at (b + a) n bs"
  by (intro nth_equalityI) (auto simp: nth_bytes_at ac_simps)

lemma length_le_bytes [simp]: "length (le_bytes (w :: 'a::len word)) = LENGTH('a) div 8"
  by (simp add: le_bytes_def)

lemma bit_le_word:
  "bit (le_word bs :: 'a::len word) k \<longleftrightarrow>
     k < LENGTH('a) \<and> k div 8 < length bs \<and> bit (bs ! (k div 8)) (k mod 8)"
proof (induction bs arbitrary: k)
  case (Cons b bs)
  show ?case
  proof (cases "k < 8")
    case True
    then show ?thesis by (auto simp: bit_or_iff bit_push_bit_iff bit_ucast_iff)
  next
    case False
    then have "k div 8 = Suc ((k - 8) div 8)" "k mod 8 = (k - 8) mod 8" "\<not> bit b k"
      by (auto simp: le_div_geq mod_if intro: bit_word.rep_eq dest: bit_imp_le_length)
    with False Cons.IH [of "k - 8"] show ?thesis
      by (auto simp: bit_or_iff bit_push_bit_iff bit_ucast_iff not_less)
  qed
qed simp

lemma le_word_bytes:
  assumes "LENGTH('a) mod 8 = 0" shows "le_word (le_bytes w) = (w :: 'a::len word)"
proof (rule bit_eqI)
  fix k assume "possible_bit TYPE('a word) k"
  then have k: "k < LENGTH('a)" by simp
  have "k div 8 < LENGTH('a) div 8" using k assms by (simp add: less_mult_imp_div_less mod_eq_0_iff_dvd)
  with k show "bit (le_word (le_bytes w) :: 'a word) k = bit w k"
    by (simp add: bit_le_word le_bytes_def bit_ucast_iff bit_drop_bit_eq)
qed

section \<open>Well-formed volumes\<close>

definition data_start :: "volume \<Rightarrow> nat" where
  "data_start v = (unat (reserved_sector_count (bpb v)) + unat (num_fats (bpb v)) * unat (fat_size_32 (bpb v))) *
     unat (bytes_per_sector (bpb v))"

text \<open>
  The sector numbers fit their C++ types, the first FAT lies before the data area, every FAT entry
  from 2 on stands for a cluster inside the image, and no FAT entry number looks like an end mark.
\<close>

definition wf_volume :: "volume \<Rightarrow> bool" where
  "wf_volume v \<longleftrightarrow>
     bytes_per_cluster v = unat (bytes_per_sector (bpb v)) * unat (sectors_per_cluster (bpb v)) \<and>
     bytes_per_cluster v > 0 \<and> 32 dvd bytes_per_cluster v \<and>
     unat (reserved_sector_count (bpb v)) + unat (num_fats (bpb v)) * unat (fat_size_32 (bpb v)) < 2 ^ 32 \<and>
     num_fats (bpb v) \<noteq> 0 \<and> 2 < fat_entries v \<and> fat_entries v < 0x0ffffff8 \<and>
     data_start v + (fat_entries v - 2) * bytes_per_cluster v \<le> length (img v) \<and>
     length (img v) < 2 ^ 64"

definition valid_cluster :: "volume \<Rightarrow> nat \<Rightarrow> bool" where
  "valid_cluster v c \<longleftrightarrow> 2 \<le> c \<and> c < fat_entries v"

definition cluster_data :: "volume \<Rightarrow> nat \<Rightarrow> u8 list" where
  "cluster_data v c = bytes_at (GetClusterAddr v c) (bytes_per_cluster v) (img v)"

lemma wf_bytes_per_cluster: "wf_volume v \<Longrightarrow> 0 < bytes_per_cluster v"
  unfolding wf_volume_def by blast

lemma wf_fat_before_data:
  assumes "wf_volume v" shows "GetFAT v + 4 * fat_entries v \<le> data_start v"
proof -
  have n: "1 \<le> unat (num_fats (bpb v))"
    using assms by (simp add: wf_volume_def Suc_le_eq unat_gt_0)
  have "4 * fat_entries v \<le> unat (fat_size_32 (bpb v)) * unat (bytes_per_sector (bpb v))"
    by (simp add: fat_entries_def)
  also have "\<dots> \<le> unat (num_fats (bpb v)) * unat (fat_size_32 (bpb v)) * unat (bytes_per_sector (bpb v))"
    using n by (simp add: mult_le_mono)
  finally show ?thesis by (simp add: GetFAT_def data_start_def add_mult_distrib)
qed

lemma cluster_addr:
  assumes wf: "wf_volume v" and c: "valid_cluster v c"
  shows "GetClusterAddr v c = data_start v + (c - 2) * bytes_per_cluster v"
    and "GetClusterAddr v c + bytes_per_cluster v \<le> length (img v)"
proof -
  define b where "b = bpb v"
  let ?s = "unat (reserved_sector_count b) + unat (num_fats b) * unat (fat_size_32 b)"
  have s: "?s < 2 ^ 32" using wf by (simp add: wf_volume_def b_def)
  have c2: "2 \<le> c" "c < fat_entries v" using c by (simp_all add: valid_cluster_def)
  have "(c - 2) + 1 \<le> fat_entries v - 2" using c2 by simp
  then have "((c - 2) + 1) * bytes_per_cluster v \<le> (fat_entries v - 2) * bytes_per_cluster v"
    by (rule mult_le_mono1)
  then have "(c - 2) * bytes_per_cluster v + bytes_per_cluster v \<le> (fat_entries v - 2) * bytes_per_cluster v"
    by (simp add: add_mult_distrib)
  moreover have "data_start v + (fat_entries v - 2) * bytes_per_cluster v \<le> length (img v)"
    using wf unfolding wf_volume_def by blast
  ultimately have top: "data_start v + (c - 2) * bytes_per_cluster v + bytes_per_cluster v \<le> length (img v)"
    by linarith
  have small: "unat (num_fats b) mod 4294967296 = unat (num_fats b)"
    using unsigned_less [of "num_fats b", where 'a = nat] by (intro mod_less) simp
  have "unat (ucast (reserved_sector_count b) + ucast (num_fats b) * fat_size_32 b :: u32) =
      (unat (reserved_sector_count b) + unat (num_fats b) * unat (fat_size_32 b) mod 2 ^ 32) mod 2 ^ 32"
    by (simp add: unat_word_ariths unsigned_ucast_eq take_bit_eq_mod small mod_add_right_eq mod_add_left_eq)
  then have u32: "unat (ucast (reserved_sector_count b) + ucast (num_fats b) * fat_size_32 b :: u32) = ?s"
    using s by (simp add: mod_simps)
  have sec: "(ucast (ucast (reserved_sector_count b) + ucast (num_fats b) * fat_size_32 b :: u32) +
        (of_nat c - 2) * ucast (sectors_per_cluster b)) * ucast (bytes_per_sector b) =
      (of_nat ((?s + (c - 2) * unat (sectors_per_cluster b)) * unat (bytes_per_sector b)) :: u64)"
  proof -
    have "ucast (ucast (reserved_sector_count b) + ucast (num_fats b) * fat_size_32 b :: u32) = (of_nat ?s :: u64)"
      by (simp only: u32 [symmetric] of_nat_unat)
    moreover have "of_nat c - 2 = (of_nat (c - 2) :: u64)" using c2 by simp
    moreover have "ucast (sectors_per_cluster b) = (of_nat (unat (sectors_per_cluster b)) :: u64)"
      "ucast (bytes_per_sector b) = (of_nat (unat (bytes_per_sector b)) :: u64)" by (simp_all add: of_nat_unat)
    ultimately show ?thesis by (simp only: of_nat_add of_nat_mult)
  qed
  have eq: "(?s + (c - 2) * unat (sectors_per_cluster b)) * unat (bytes_per_sector b) =
      data_start v + (c - 2) * bytes_per_cluster v"
    using wf by (simp add: wf_volume_def data_start_def b_def algebra_simps)
  have "data_start v + (c - 2) * bytes_per_cluster v < 2 ^ 64"
    using top wf by (simp add: wf_volume_def)
  then show a: "GetClusterAddr v c = data_start v + (c - 2) * bytes_per_cluster v"
    unfolding GetClusterAddr_def Let_def b_def [symmetric] sec eq by (intro unat_of_nat_less) simp
  show "GetClusterAddr v c + bytes_per_cluster v \<le> length (img v)" using top a by simp
qed

lemma cluster_disjoint:
  assumes "wf_volume v" "valid_cluster v c" "valid_cluster v d" "c \<noteq> d"
  shows "GetClusterAddr v c + bytes_per_cluster v \<le> GetClusterAddr v d \<or>
    GetClusterAddr v d + bytes_per_cluster v \<le> GetClusterAddr v c"
proof -
  have *: "data_start v + (i - 2) * k + k \<le> data_start v + (j - 2) * k" if "i < j" "2 \<le> i" for i j k :: nat
  proof -
    have "((i - 2) + 1) * k \<le> (j - 2) * k" using that by (intro mult_le_mono1) simp
    then show ?thesis by (simp add: add_mult_distrib)
  qed
  show ?thesis
    using assms *[of c d] *[of d c]
    by (auto simp: cluster_addr valid_cluster_def linorder_neq_iff)
qed

lemma cluster_after_fat:
  "wf_volume v \<Longrightarrow> valid_cluster v c \<Longrightarrow> GetFAT v + 4 * fat_entries v \<le> GetClusterAddr v c"
  using wf_fat_before_data by (fastforce simp: cluster_addr)

section \<open>Writes\<close>

definition same_shape :: "volume \<Rightarrow> volume \<Rightarrow> bool" where
  "same_shape v v' \<longleftrightarrow> bpb v' = bpb v \<and> bytes_per_cluster v' = bytes_per_cluster v \<and>
     length (img v') = length (img v)"

lemma same_shape_refl [simp]: "same_shape v v"
  by (simp add: same_shape_def)

lemma same_shape_trans: "same_shape u v \<Longrightarrow> same_shape v w \<Longrightarrow> same_shape u w"
  by (simp add: same_shape_def)

lemma same_shapeD:
  assumes "same_shape v v'"
  shows "GetClusterAddr v' = GetClusterAddr v" "GetFAT v' = GetFAT v" "fat_entries v' = fat_entries v"
    "valid_cluster v' = valid_cluster v" "wf_volume v' = wf_volume v"
    "bytes_per_cluster v' = bytes_per_cluster v" "bpb v' = bpb v"
    "entries_per_cluster v' = entries_per_cluster v"
  using assms
  by (auto simp: same_shape_def GetClusterAddr_def GetFAT_def fat_entries_def valid_cluster_def
      wf_volume_def data_start_def entries_per_cluster_def fun_eq_iff)

lemma write_mem_shape: "write_mem v a bs = Some v' \<Longrightarrow> same_shape v v'"
  by (auto simp: write_mem_def same_shape_def split: if_splits)

lemma fat_put_shape: "fat_put v c x = Some v' \<Longrightarrow> same_shape v v'"
  by (auto simp: fat_put_def write_mem_shape split: if_splits)

lemma write_mem_read:
  assumes "write_mem v a bs = Some v'"
  shows "n = length bs \<Longrightarrow> read_mem v' a n = Some bs"
    and "b + n \<le> a \<or> a + length bs \<le> b \<Longrightarrow> read_mem v' b n = read_mem v b n"
  using assms by (auto simp: write_mem_def read_mem_def bytes_at_patch bytes_at_patch_other split: if_splits)

lemma fat_index_range: "c < fat_entries v \<Longrightarrow> wf_volume v \<Longrightarrow> GetFAT v + 4 * c + 4 \<le> length (img v)"
proof -
  assume c: "c < fat_entries v" and wf: "wf_volume v"
  have "4 * c + 4 \<le> 4 * fat_entries v" using c by simp
  with wf_fat_before_data [OF wf] have "GetFAT v + 4 * c + 4 \<le> data_start v" by linarith
  with wf show ?thesis by (simp add: wf_volume_def)
qed

lemma fat_get_total: "wf_volume v \<Longrightarrow> c < fat_entries v \<Longrightarrow> \<exists>x. fat_get v c = Some x"
  using fat_index_range [of c v] by (simp add: fat_get_def read_mem_def)

lemma fat_put_total:
  assumes wf: "wf_volume v" and c: "c < fat_entries v" and x: "x < 2 ^ 32"
  shows "\<exists>v'. fat_put v c x = Some v' \<and> wf_volume v' \<and> same_shape v v' \<and>
    fat_get v' = (fat_get v)(c \<mapsto> x) \<and> (\<forall>d. valid_cluster v d \<longrightarrow> cluster_data v' d = cluster_data v d)"
proof -
  let ?bs = "le_bytes (of_nat x :: u32)"
  obtain v' where w: "write_mem v (GetFAT v + 4 * c) ?bs = Some v'"
    using fat_index_range [OF c wf] by (simp add: write_mem_def)
  have p: "fat_put v c x = Some v'" using c w by (simp add: fat_put_def)
  have sh: "same_shape v v'" by (rule fat_put_shape [OF p])
  note eqs = same_shapeD [OF sh]
  have "fat_get v' d = ((fat_get v)(c \<mapsto> x)) d" for d
  proof (cases "d = c")
    case True
    then show ?thesis
      using c x write_mem_read(1) [OF w, of 4]
      by (simp add: fat_get_def eqs le_word_bytes unat_of_nat)
  next
    case False
    then have "GetFAT v + 4 * d + 4 \<le> GetFAT v + 4 * c \<or> GetFAT v + 4 * c + length ?bs \<le> GetFAT v + 4 * d"
      by auto
    from write_mem_read(2) [OF w this] False show ?thesis by (simp add: fat_get_def eqs)
  qed
  moreover have "cluster_data v' d = cluster_data v d" if "valid_cluster v d" for d
  proof -
    have "GetFAT v + 4 * c + length ?bs \<le> GetClusterAddr v d"
      using cluster_after_fat [OF wf that] c by simp
    with w show ?thesis
      by (auto simp: cluster_data_def eqs write_mem_def bytes_at_patch_other split: if_splits)
  qed
  ultimately show ?thesis using p sh wf eqs(5) by auto
qed

text \<open>Bytes written into one cluster leave the FAT and the other clusters alone.\<close>

lemma cluster_write:
  assumes wf: "wf_volume v" and c: "valid_cluster v c" and n: "off + length bs \<le> bytes_per_cluster v"
  shows "\<exists>v'. write_mem v (GetClusterAddr v c + off) bs = Some v' \<and> wf_volume v' \<and> same_shape v v' \<and>
    fat_get v' = fat_get v \<and>
    (\<forall>d. valid_cluster v d \<longrightarrow>
      cluster_data v' d = (if d = c then patch_bytes off bs (cluster_data v c) else cluster_data v d))"
proof -
  have r: "GetClusterAddr v c + off + length bs \<le> length (img v)"
    using cluster_addr(2) [OF wf c] n by linarith
  then obtain v' where w: "write_mem v (GetClusterAddr v c + off) bs = Some v'"
    by (simp add: write_mem_def)
  have im: "img v' = patch_bytes (GetClusterAddr v c + off) bs (img v)"
    using w by (auto simp: write_mem_def split: if_splits)
  have sh: "same_shape v v'" by (rule write_mem_shape [OF w])
  note eqs = same_shapeD [OF sh]
  have "fat_get v' d = fat_get v d" for d
  proof (cases "d < fat_entries v")
    case True
    then have "GetFAT v + 4 * d + 4 \<le> GetClusterAddr v c + off"
      using cluster_after_fat [OF wf c] by linarith
    with write_mem_read(2) [OF w, of "GetFAT v + 4 * d" 4] show ?thesis by (simp add: fat_get_def eqs)
  qed (simp add: fat_get_def eqs)
  moreover have "cluster_data v' d = (if d = c then patch_bytes off bs (cluster_data v c) else cluster_data v d)"
    if d: "valid_cluster v d" for d
  proof (cases "d = c")
    case True
    have "bytes_at (GetClusterAddr v c) (bytes_per_cluster v) (img v') = patch_bytes off bs (cluster_data v c)"
      using r n cluster_addr(2) [OF wf c]
      by (intro nth_equalityI)
        (auto simp: im nth_bytes_at nth_patch_bytes cluster_data_def add.assoc)
    with True show ?thesis by (simp add: cluster_data_def eqs)
  next
    case False
    have "GetClusterAddr v d + bytes_per_cluster v \<le> GetClusterAddr v c + off \<or>
        GetClusterAddr v c + off + length bs \<le> GetClusterAddr v d"
      using cluster_disjoint [OF wf c d] False n by linarith
    with False r show ?thesis by (simp add: cluster_data_def eqs im bytes_at_patch_other)
  qed
  ultimately show ?thesis using w sh wf eqs(5) by auto
qed

section \<open>Cluster chains\<close>

fun is_chain :: "(nat \<Rightarrow> nat option) \<Rightarrow> (nat \<Rightarrow> bool) \<Rightarrow> nat list \<Rightarrow> bool" where
  "is_chain f ok [] = False"
| "is_chain f ok [c] = (ok c \<and> (\<exists>x. f c = Some x \<and> IsEndOfClusterchain x))"
| "is_chain f ok (c # d # cs) = (ok c \<and> f c = Some d \<and> \<not> IsEndOfClusterchain d \<and> is_chain f ok (d # cs))"

text \<open>\<open>chain v cs\<close>: the clusters linked from \<open>hd cs\<close> are those of \<open>cs\<close>, without repetition.\<close>

definition chain :: "volume \<Rightarrow> nat list \<Rightarrow> bool" where
  "chain v cs \<longleftrightarrow> is_chain (fat_get v) (valid_cluster v) cs \<and> distinct cs"

lemma is_chain_ok: "is_chain f ok cs \<Longrightarrow> c \<in> set cs \<Longrightarrow> ok c"
  by (induction f ok cs rule: is_chain.induct) auto

lemma is_chain_cong: "(\<And>c. c \<in> set cs \<Longrightarrow> f c = g c) \<Longrightarrow> is_chain f ok cs = is_chain g ok cs"
  by (induction f ok cs rule: is_chain.induct) auto

lemma is_chain_links: "is_chain f ok (cs @ c # d # ds) \<Longrightarrow> f c = Some d \<and> \<not> IsEndOfClusterchain d"
  by (induction cs rule: induct_list012) auto

lemma is_chain_last: "is_chain f ok cs \<Longrightarrow> \<exists>x. f (last cs) = Some x \<and> IsEndOfClusterchain x"
  by (induction f ok cs rule: is_chain.induct) auto

lemma is_chain_suffix: "is_chain f ok (cs @ ds) \<Longrightarrow> ds \<noteq> [] \<Longrightarrow> is_chain f ok ds"
proof (induction cs)
  case (Cons c cs)
  then show ?case by (cases "cs @ ds") auto
qed simp

lemma is_chain_nonzero: "is_chain f ok cs \<Longrightarrow> (\<And>c. ok c \<Longrightarrow> 2 \<le> c) \<Longrightarrow> c \<in> set cs \<Longrightarrow> f c \<noteq> Some 0"
proof (induction f ok cs rule: is_chain.induct)
  case (3 f ok c' d cs)
  then have "ok d" by (cases cs) auto
  with 3(3) have "d \<noteq> 0" by fastforce
  with 3 show ?case by auto
qed (auto simp: IsEndOfClusterchain_def)

text \<open>Linking a valid cluster behind the last one.\<close>

lemma is_chain_append:
  "is_chain f ok (cs @ [e]) \<Longrightarrow> ok c \<Longrightarrow> c \<notin> set (cs @ [e]) \<Longrightarrow> distinct (cs @ [e]) \<Longrightarrow>
     \<not> IsEndOfClusterchain c \<Longrightarrow> IsEndOfClusterchain x \<Longrightarrow>
     is_chain (f(e \<mapsto> c, c \<mapsto> x)) ok (cs @ [e, c])"
proof (induction cs rule: induct_list012)
  case (2 d)
  then show ?case by auto
next
  case (3 d d' cs)
  then have a: "is_chain (f(e \<mapsto> c, c \<mapsto> x)) ok (d' # cs @ [e, c])"
    using 3(2-8) by (simp del: fun_upd_apply)
  have "(f(e \<mapsto> c, c \<mapsto> x)) d = Some d'" using 3(3-6) by auto
  with a 3(3) show ?case by (simp del: fun_upd_apply)
qed auto

lemma chain_end_Some:
  "is_chain (fat_get v) ok cs \<Longrightarrow> c \<in> set cs \<Longrightarrow> chain_end v c = Some (last cs)"
proof (induction "fat_get v" ok cs arbitrary: c rule: is_chain.induct)
  case (2 ok c')
  then show ?case by (auto simp: chain_end.simps [of v c'])
next
  case (3 ok c' d cs)
  show ?case
  proof (cases "c = c'")
    case True
    with 3 show ?thesis by (simp add: chain_end.simps [of v c'])
  next
    case False
    with 3 show ?thesis by simp
  qed
qed simp

section \<open>Extending a chain\<close>

definition free_clusters :: "volume \<Rightarrow> nat set" where
  "free_clusters v = {c. valid_cluster v c \<and> fat_get v c = Some 0}"

definition free_from :: "volume \<Rightarrow> nat \<Rightarrow> nat set" where
  "free_from v k = {c \<in> free_clusters v. k \<le> c}"

lemma finite_free: "finite (free_from v k)"
  by (rule finite_subset [of _ "{..<fat_entries v}"]) (auto simp: free_from_def free_clusters_def valid_cluster_def)

text \<open>
  The loop overwrites the entry of \<open>current\<close> with the first free cluster, and so on; the entry of
  the last one is left free until the caller marks it as the end.
\<close>

lemma extend_loop_spec:
  assumes "wf_volume v" "2 \<le> k" "n \<le> card (free_from v k)" "valid_cluster v cur" "cur \<notin> free_from v k"
  shows "\<exists>v' new. extend_loop v cur n k = Some (v', last (cur # new)) \<and> wf_volume v' \<and> same_shape v v' \<and>
    length new = n \<and> distinct (cur # new) \<and> set new \<subseteq> free_from v k \<and>
    (\<forall>c. c \<notin> set (butlast (cur # new)) \<longrightarrow> fat_get v' c = fat_get v c) \<and>
    (\<forall>i < n. fat_get v' ((cur # new) ! i) = Some (new ! i)) \<and>
    (\<forall>d. valid_cluster v d \<longrightarrow> cluster_data v' d = cluster_data v d)"
  using assms
proof (induction v cur n k rule: extend_loop.induct)
  case (1 v current candidate)
  then show ?case by (intro exI [of _ v] exI [of _ "[]"]) simp
next
  case (2 v cur n k)
  have ne: "free_from v k \<noteq> {}" using 2(5) by auto
  then have k: "k < fat_entries v" by (auto simp: free_from_def free_clusters_def valid_cluster_def)
  obtain x where x: "fat_get v k = Some x" using fat_get_total [OF 2(3) k] by blast
  have kv: "valid_cluster v k" using k 2(4) by (simp add: valid_cluster_def)
  show ?case
  proof (cases "x = 0")
    case False
    then have eq: "free_from v (Suc k) = free_from v k"
      using x by (auto simp: free_from_def free_clusters_def Suc_le_eq le_less)
    have "extend_loop v cur (Suc n) k = extend_loop v cur (Suc n) (Suc k)" using k x False by simp
    with 2(1) [OF k x False 2(3)] 2(4-7) eq show ?thesis by (simp del: extend_loop.simps)
  next
    case True
    have kf: "k \<in> free_from v k" using x True kv by (simp add: free_from_def free_clusters_def)
    have ck: "cur \<noteq> k" using kf 2(7) by auto
    have "cur < fat_entries v" using 2(6) by (simp add: valid_cluster_def)
    moreover have "k < 2 ^ 32" using k 2(3) by (simp add: wf_volume_def)
    ultimately obtain v1 where v1: "fat_put v cur k = Some v1" "wf_volume v1" "same_shape v v1"
      "fat_get v1 = (fat_get v)(cur \<mapsto> k)" "\<forall>d. valid_cluster v d \<longrightarrow> cluster_data v1 d = cluster_data v d"
      using fat_put_total [OF 2(3)] by blast
    note eqs = same_shapeD [OF v1(3)]
    have ff: "free_from v1 (Suc k) = free_from v k - {k}"
      using 2(7) v1(4) kv 2(4,6) ck
      by (auto simp: free_from_def free_clusters_def eqs Suc_le_eq le_less)
    have card: "n \<le> card (free_from v1 (Suc k))" using 2(5) kf finite_free [of v k] by (simp add: ff)
    have "k \<notin> free_from v1 (Suc k)" by (simp add: free_from_def)
    from 2(2) [OF k x _ v1(1) v1(2) _ card _ this] True kv 2(4) eqs obtain v' new where
      ih: "extend_loop v1 k n (Suc k) = Some (v', last (k # new))" "wf_volume v'" "same_shape v1 v'"
        "length new = n" "distinct (k # new)" "set new \<subseteq> free_from v1 (Suc k)"
        "\<forall>c. c \<notin> set (butlast (k # new)) \<longrightarrow> fat_get v' c = fat_get v1 c"
        "\<forall>i < n. fat_get v' ((k # new) ! i) = Some (new ! i)"
        "\<forall>d. valid_cluster v1 d \<longrightarrow> cluster_data v' d = cluster_data v1 d"
      by auto
    have curn: "cur \<notin> set (k # new)" using 2(7) ih(6) ff ck by auto
    have "fat_get v' ((cur # k # new) ! i) = Some ((k # new) ! i)" if i: "i < Suc n" for i
    proof (cases i)
      case 0
      have "cur \<notin> set (butlast (k # new))" using curn by (meson in_set_butlastD)
      with ih(7) v1(4) 0 show ?thesis by simp
    next
      case (Suc j)
      with i ih(8) show ?thesis by simp
    qed
    moreover have "fat_get v' c = fat_get v c" if "c \<notin> set (butlast (cur # k # new))" for c
      using that ih(7) v1(4) by auto
    moreover have "extend_loop v cur (Suc n) k = Some (v', last (cur # k # new))"
      using k x True v1(1) ih(1) by simp
    moreover have "set (k # new) \<subseteq> free_from v k" using ih(6) ff kf by auto
    moreover have "\<forall>d. valid_cluster v d \<longrightarrow> cluster_data v' d = cluster_data v d"
      using ih(9) v1(5) eqs by simp
    ultimately show ?thesis
      using ih(2-5) curn same_shape_trans [OF v1(3) ih(3)]
      by (intro exI [of _ v'] exI [of _ "k # new"]) (simp del: extend_loop.simps)
  qed
qed

lemma is_chain_nth:
  "is_chain f ok cs \<longleftrightarrow> cs \<noteq> [] \<and> (\<forall>c \<in> set cs. ok c) \<and>
     (\<forall>i. Suc i < length cs \<longrightarrow> f (cs ! i) = Some (cs ! Suc i) \<and> \<not> IsEndOfClusterchain (cs ! Suc i)) \<and>
     (\<exists>x. f (last cs) = Some x \<and> IsEndOfClusterchain x)"
proof (induction f ok cs rule: is_chain.induct)
  case (3 f ok c d cs)
  have "(\<forall>i. Suc i < length (c # d # cs) \<longrightarrow> P i) \<longleftrightarrow> P 0 \<and> (\<forall>i. Suc i < length (d # cs) \<longrightarrow> P (Suc i))" for P
    by (auto simp: less_Suc_eq_0_disj)
  note split = this
  show ?case unfolding is_chain.simps 3 split by auto
qed auto

lemma valid_not_end: "wf_volume v \<Longrightarrow> valid_cluster v c \<Longrightarrow> \<not> IsEndOfClusterchain c"
  by (simp add: wf_volume_def valid_cluster_def IsEndOfClusterchain_def)

lemma ExtendCluster_spec:
  assumes wf: "wf_volume v" and cs: "chain v cs" and c: "c \<in> set cs"
    and n: "n \<le> card (free_from v 2)"
  shows "\<exists>v' new. ExtendCluster v c n = Some (v', last (cs @ new)) \<and> wf_volume v' \<and> same_shape v v' \<and>
    length new = n \<and> set new \<subseteq> free_clusters v \<and> chain v' (cs @ new) \<and>
    (\<forall>d. d \<notin> set (last cs # new) \<longrightarrow> fat_get v' d = fat_get v d) \<and>
    (\<forall>d. valid_cluster v d \<longrightarrow> cluster_data v' d = cluster_data v d)"
proof -
  have ch: "is_chain (fat_get v) (valid_cluster v) cs" "distinct cs" using cs by (auto simp: chain_def)
  let ?l = "last cs"
  have ne: "cs \<noteq> []" using c by auto
  have l: "valid_cluster v ?l" using is_chain_ok [OF ch(1)] ne by simp
  have "?l \<notin> free_from v 2"
    using is_chain_last [OF ch(1)] by (auto simp: free_from_def free_clusters_def IsEndOfClusterchain_def)
  from extend_loop_spec [OF wf _ n l this] obtain u new where
    u: "extend_loop v ?l n 2 = Some (u, last (?l # new))" "wf_volume u" "same_shape v u"
      "length new = n" "distinct (?l # new)" "set new \<subseteq> free_from v 2"
      "\<forall>c. c \<notin> set (butlast (?l # new)) \<longrightarrow> fat_get u c = fat_get v c"
      "\<forall>i < n. fat_get u ((?l # new) ! i) = Some (new ! i)"
      "\<forall>d. valid_cluster v d \<longrightarrow> cluster_data u d = cluster_data v d"
    by auto
  note eqs = same_shapeD [OF u(3)]
  let ?e = "last (?l # new)"
  have free: "set new \<subseteq> free_clusters v" using u(6) by (auto simp: free_from_def)
  have new_ok: "valid_cluster v d" if "d \<in> set new" for d using free that by (auto simp: free_clusters_def)
  have e_ok: "valid_cluster v ?e" using l new_ok by (cases "new = []") auto
  have "?e < fat_entries u" "kEndOfClusterchain < 2 ^ 32"
    using e_ok eqs by (auto simp: valid_cluster_def kEndOfClusterchain_def)
  from fat_put_total [OF u(2) this] obtain v' where
    p: "fat_put u ?e kEndOfClusterchain = Some v'" "wf_volume v'" "same_shape u v'"
      "fat_get v' = (fat_get u)(?e \<mapsto> kEndOfClusterchain)"
      "\<forall>d. valid_cluster u d \<longrightarrow> cluster_data v' d = cluster_data u d"
    by blast
  note eqs' = same_shapeD [OF p(3)]
  have disj: "set cs \<inter> set new = {}"
    using free is_chain_nonzero [OF ch(1)] by (fastforce simp: free_clusters_def valid_cluster_def)
  have e_last: "?e = last (cs @ new)" using ne by auto
  have out: "fat_get v' d = fat_get v d" if "d \<notin> set (?l # new)" for d
  proof -
    have "d \<notin> set (butlast (?l # new))" "d \<noteq> ?e" using that by (auto dest: in_set_butlastD)
    with u(7) p(4) show ?thesis by simp
  qed
  have "is_chain (fat_get v') (valid_cluster v) (cs @ new)"
    unfolding is_chain_nth
  proof (intro conjI ballI allI impI)
    show "cs @ new \<noteq> []" using ne by simp
    show "valid_cluster v d" if "d \<in> set (cs @ new)" for d
      using that new_ok is_chain_ok [OF ch(1)] by auto
    show "\<exists>x. fat_get v' (last (cs @ new)) = Some x \<and> IsEndOfClusterchain x"
      using p(4) e_last by (simp add: kEndOfClusterchain_def IsEndOfClusterchain_def)
    fix i assume i: "Suc i < length (cs @ new)"
    have "valid_cluster v ((cs @ new) ! Suc i)"
      using nth_mem [OF i] new_ok is_chain_ok [OF ch(1)] by auto
    then show "\<not> IsEndOfClusterchain ((cs @ new) ! Suc i)" by (rule valid_not_end [OF wf])
    show "fat_get v' ((cs @ new) ! i) = Some ((cs @ new) ! Suc i)"
    proof (cases "Suc i < length cs")
      case True
      have "cs ! i \<noteq> ?l" using True ch(2) ne by (simp add: last_conv_nth nth_eq_iff_index_eq)
      moreover have "cs ! i \<in> set cs" using True by simp
      ultimately have "fat_get v' (cs ! i) = fat_get v (cs ! i)" using disj by (intro out) auto
      with True ch(1) show ?thesis unfolding is_chain_nth by (simp add: nth_append)
    next
      case False
      define j where "j = i - (length cs - 1)"
      have j: "j < n" "i = length cs - 1 + j" using False i u(4) ne by (auto simp: j_def)
      obtain m where m: "length cs = Suc m" using ne by (cases cs) auto
      have a: "(cs @ new) ! i = (?l # new) ! j"
        using ne j m by (cases j) (auto simp: nth_append last_conv_nth)
      have b: "(cs @ new) ! Suc i = new ! j"
        using ne j by (simp add: nth_append Suc_diff_le Suc_leI)
      have "(?l # new) ! j \<noteq> (?l # new) ! n"
        using nth_eq_iff_index_eq [OF u(5), of j n] j u(4) by simp
      moreover have "(?l # new) ! n = ?e" using u(4) by (auto simp: last_conv_nth nth_Cons')
      ultimately have "(?l # new) ! j \<noteq> ?e" by simp
      with u(8) j p(4) a b show ?thesis by simp
    qed
  qed
  then have "chain v' (cs @ new)"
    using ch(2) u(5) disj eqs eqs' by (simp add: chain_def)
  moreover have "ExtendCluster v c n = Some (v', last (cs @ new))"
    using chain_end_Some [OF ch(1) c] u(1) p(1) e_last by (simp add: ExtendCluster_def)
  moreover have "\<forall>d. valid_cluster v d \<longrightarrow> cluster_data v' d = cluster_data v d"
    using u(9) p(5) eqs by simp
  ultimately show ?thesis
    using p(2) same_shape_trans [OF u(3) p(3)] u(4) free out by blast
qed

lemma first_free_spec:
  assumes "wf_volume v" "free_from v k \<noteq> {}" "2 \<le> k"
  shows "\<exists>c. first_free v k = Some c \<and> c \<in> free_from v k \<and> (\<forall>d \<in> free_from v k. c \<le> d)"
  using assms
proof (induction v k rule: first_free.induct)
  case (1 v k)
  have k: "k < fat_entries v" using 1(3) by (auto simp: free_from_def free_clusters_def valid_cluster_def)
  obtain x where x: "fat_get v k = Some x" using fat_get_total [OF 1(2) k] by blast
  show ?case
  proof (cases "x = 0")
    case True
    with k x 1(4) show ?thesis by (auto simp: free_from_def free_clusters_def valid_cluster_def)
  next
    case False
    then have eq: "free_from v (Suc k) = free_from v k"
      using x by (auto simp: free_from_def free_clusters_def Suc_le_eq le_less)
    with 1(1) [OF k x False 1(2)] 1(3,4) k x False show ?thesis by simp
  qed
qed

lemma free_from_2: "free_from v 2 = free_clusters v"
  by (auto simp: free_from_def free_clusters_def valid_cluster_def)

lemma AllocateClusterChain_spec:
  assumes wf: "wf_volume v" and n: "max 1 n \<le> card (free_clusters v)"
  shows "\<exists>v' cs. AllocateClusterChain v n = Some (v', hd cs) \<and> wf_volume v' \<and> same_shape v v' \<and>
    length cs = max 1 n \<and> set cs \<subseteq> free_clusters v \<and> chain v' cs \<and>
    (\<forall>d. d \<notin> set cs \<longrightarrow> fat_get v' d = fat_get v d) \<and>
    (\<forall>d. valid_cluster v d \<longrightarrow> cluster_data v' d = cluster_data v d)"
proof -
  have "free_from v 2 \<noteq> {}" using n by (auto simp: free_from_2)
  from first_free_spec [OF wf this] obtain c where
    c: "first_free v 2 = Some c" "c \<in> free_clusters v" by (auto simp: free_from_2)
  have cv: "valid_cluster v c" using c(2) by (simp add: free_clusters_def)
  then have "c < fat_entries v" "kEndOfClusterchain < 2 ^ 32"
    by (simp_all add: valid_cluster_def kEndOfClusterchain_def)
  from fat_put_total [OF wf this] obtain u where
    u: "fat_put v c kEndOfClusterchain = Some u" "wf_volume u" "same_shape v u"
      "fat_get u = (fat_get v)(c \<mapsto> kEndOfClusterchain)"
      "\<forall>d. valid_cluster v d \<longrightarrow> cluster_data u d = cluster_data v d" by blast
  note eqs = same_shapeD [OF u(3)]
  have ch: "chain u [c]"
    using u(4) cv eqs by (simp add: chain_def kEndOfClusterchain_def IsEndOfClusterchain_def)
  show ?thesis
  proof (cases "n > 1")
    case False
    with c u ch show ?thesis
      by (intro exI [of _ u] exI [of _ "[c]"]) (auto simp: AllocateClusterChain_def max_def)
  next
    case True
    have fr: "free_clusters u = free_clusters v - {c}"
      using u(4) by (auto simp: free_clusters_def eqs kEndOfClusterchain_def)
    have "n - 1 \<le> card (free_from u 2)"
      using n True c(2) finite_free [of v 2] by (simp add: free_from_2 fr)
    from ExtendCluster_spec [OF u(2) ch _ this] obtain v' new where
      e: "ExtendCluster u c (n - 1) = Some (v', last ([c] @ new))" "wf_volume v'" "same_shape u v'"
        "length new = n - 1" "set new \<subseteq> free_clusters u" "chain v' ([c] @ new)"
        "\<forall>d. d \<notin> set (c # new) \<longrightarrow> fat_get v' d = fat_get u d"
        "\<forall>d. valid_cluster u d \<longrightarrow> cluster_data v' d = cluster_data u d"
      by auto
    have "AllocateClusterChain v n = Some (v', hd (c # new))"
      using c(1) u(1) e(1) True by (simp add: AllocateClusterChain_def)
    moreover have "\<forall>d. d \<notin> set (c # new) \<longrightarrow> fat_get v' d = fat_get v d" using e(7) u(4) by simp
    moreover have "\<forall>d. valid_cluster v d \<longrightarrow> cluster_data v' d = cluster_data v d"
      using e(8) u(5) eqs by simp
    moreover have "length (c # new) = max 1 n" using e(4) True by simp
    moreover have "set (c # new) \<subseteq> free_clusters v" using e(5) fr c(2) by auto
    moreover have "chain v' (c # new)" using e(6) by simp
    ultimately show ?thesis using e(2) same_shape_trans [OF u(3) e(3)]
      by (intro exI [of _ v'] exI [of _ "c # new"] conjI)
  qed
qed

section \<open>Reading\<close>

definition content :: "volume \<Rightarrow> nat list \<Rightarrow> u8 list" where
  "content v cs = concat (map (cluster_data v) cs)"

definition cluster_at :: "nat list \<Rightarrow> nat \<Rightarrow> nat" where
  "cluster_at cs i = (if i < length cs then cs ! i else kEndOfClusterchain)"

lemma length_cluster_data: "wf_volume v \<Longrightarrow> valid_cluster v c \<Longrightarrow> length (cluster_data v c) = bytes_per_cluster v"
  using cluster_addr(2) [of v c] by (simp add: cluster_data_def)

lemma length_content:
  "wf_volume v \<Longrightarrow> \<forall>c \<in> set cs. valid_cluster v c \<Longrightarrow> length (content v cs) = length cs * bytes_per_cluster v"
  by (induction cs) (auto simp: content_def length_cluster_data)

lemma read_cluster:
  assumes "wf_volume v" "valid_cluster v c" "off + n \<le> bytes_per_cluster v"
  shows "read_mem v (GetClusterAddr v c + off) n = Some (take n (drop off (cluster_data v c)))"
proof -
  have "GetClusterAddr v c + off + n \<le> length (img v)" using cluster_addr(2) [OF assms(1,2)] assms(3) by linarith
  moreover have "take n (drop off (cluster_data v c)) = bytes_at (GetClusterAddr v c + off) n (img v)"
    unfolding cluster_data_def using bytes_at_bytes_at [OF assms(3)] by (simp add: bytes_at_def)
  ultimately show ?thesis by (simp add: read_mem_def)
qed

lemma NextCluster_chain:
  "is_chain (fat_get v) ok (c # cs) \<Longrightarrow> NextCluster v c = Some (cluster_at cs 0)"
  by (cases cs) (auto simp: NextCluster_def cluster_at_def)

lemma read_loop_0 [simp]: "read_loop v c off 0 buf = Some (c, off, buf)"
  by (simp add: read_loop.simps [of v c off 0])

lemma read_loop_spec:
  assumes wf: "wf_volume v" and ch: "is_chain (fat_get v) (valid_cluster v) cs"
    and off: "off < bytes_per_cluster v" and rem: "off + rem \<le> length cs * bytes_per_cluster v"
  shows "read_loop v (hd cs) off rem buf =
    Some (cluster_at cs ((off + rem) div bytes_per_cluster v), (off + rem) mod bytes_per_cluster v,
      buf @ take rem (drop off (content v cs)))"
  using ch off rem
proof (induction cs arbitrary: off rem buf)
  case (Cons c cs)
  let ?b = "bytes_per_cluster v"
  have b: "?b > 0" using Cons.prems by simp
  have cv: "valid_cluster v c" using is_chain_ok [OF Cons.prems(1)] by simp
  have content: "content v (c # cs) = cluster_data v c @ content v cs" by (simp add: content_def)
  have len: "length (cluster_data v c) = ?b" by (rule length_cluster_data [OF wf cv])
  show ?case
  proof (cases "rem = 0")
    case True
    with Cons.prems(2) show ?thesis by (simp add: read_loop.simps [of v c off 0] cluster_at_def)
  next
    case False
    define n where "n = min rem (?b - off)"
    have n: "off + n \<le> ?b" "n \<le> rem" using Cons.prems(2) by (auto simp: n_def)
    note rd = read_cluster [OF wf cv n(1)]
    show ?thesis
    proof (cases "off + n = ?b")
      case False
      then have nr: "n = rem" "off + rem < ?b" using n by (auto simp: n_def)
      have "read_loop v c off rem buf = read_loop v c (off + n) (rem - n) (buf @ take n (drop off (cluster_data v c)))"
        using rd \<open>rem \<noteq> 0\<close> False by (simp add: read_loop.simps [of v c off rem] n_def [symmetric] Let_def)
      also have "\<dots> = Some (c, off + rem, buf @ take rem (drop off (cluster_data v c)))"
        using nr by (simp add: read_loop.simps [of v c "off + rem" 0])
      finally show ?thesis using nr len by (simp add: cluster_at_def content)
    next
      case True
      have nx: "NextCluster v c = Some (cluster_at cs 0)" by (rule NextCluster_chain [OF Cons.prems(1)])
      have n1: "n = ?b - off" using True by simp
      have step: "read_loop v c off rem buf = read_loop v (cluster_at cs 0) 0 (rem - n) (buf @ take n (drop off (cluster_data v c)))"
        using rd \<open>rem \<noteq> 0\<close> True nx by (simp add: read_loop.simps [of v c off rem] n_def [symmetric] Let_def)
      have sum: "off + rem = ?b + (rem - n)" using True n(2) by simp
      have dv: "(off + rem) div ?b = Suc ((rem - n) div ?b)" "(off + rem) mod ?b = (rem - n) mod ?b"
        unfolding sum using b by (simp_all add: div_add_self1 [of ?b])
      have tk: "take rem (drop off (content v (c # cs))) =
          take n (drop off (cluster_data v c)) @ take (rem - n) (content v cs)"
        using len n1 n(2) Cons.prems(2) by (simp add: content)
      show ?thesis
      proof (cases "cs = []")
        case True
        then have "rem - n = 0" using Cons.prems(2,3) n1 by simp
        with True show ?thesis
          using step dv tk by (simp add: read_loop.simps [of v kEndOfClusterchain 0 0] cluster_at_def)
      next
        case False
        then have "is_chain (fat_get v) (valid_cluster v) cs" using Cons.prems(1) by (cases cs) auto
        moreover have "0 + (rem - n) \<le> length cs * ?b" using Cons.prems(3) sum by simp
        ultimately have "read_loop v (hd cs) 0 (rem - n) (buf @ take n (drop off (cluster_data v c))) =
          Some (cluster_at cs ((rem - n) div ?b), (rem - n) mod ?b,
            (buf @ take n (drop off (cluster_data v c))) @ take (rem - n) (content v cs))"
          using Cons.IH [of 0 "rem - n" "buf @ take n (drop off (cluster_data v c))"] b by simp
        moreover have "cluster_at cs 0 = hd cs" using False by (simp add: cluster_at_def hd_conv_nth)
        ultimately show ?thesis using step dv tk by (simp add: cluster_at_def)
      qed
    qed
  qed
qed simp

text \<open>A file: its entry is readable and its size fits the chain from its first cluster.\<close>

definition file_ok :: "volume \<Rightarrow> nat \<Rightarrow> nat list \<Rightarrow> bool" where
  "file_ok v a cs \<longleftrightarrow> (\<exists>e. dir_entry v a = Some e \<and> unat (file_size e) \<le> length cs * bytes_per_cluster v \<and>
     (if cs = [] then FirstCluster e = 0 else FirstCluster e = hd cs \<and> chain v cs))"

definition file_bytes :: "volume \<Rightarrow> nat \<Rightarrow> nat list \<Rightarrow> u8 list" where
  "file_bytes v a cs = take (case dir_entry v a of None \<Rightarrow> 0 | Some e \<Rightarrow> unat (file_size e)) (content v cs)"

text \<open>The descriptor's cluster and offset in it stand for its read offset.\<close>

definition rd_ok :: "volume \<Rightarrow> FileDescriptor \<Rightarrow> nat list \<Rightarrow> bool" where
  "rd_ok v fd cs \<longleftrightarrow> rd_off fd \<le> length (file_bytes v (fd_entry fd) cs) \<and>
     (if rd_cluster fd = 0 then rd_off fd = 0 \<and> rd_cluster_off fd = 0
      else rd_cluster fd = cluster_at cs (rd_off fd div bytes_per_cluster v) \<and>
        rd_cluster_off fd = rd_off fd mod bytes_per_cluster v)"

lemma Read_spec:
  assumes wf: "wf_volume v" and fok: "file_ok v (fd_entry fd) cs" and fd: "rd_ok v fd cs"
  shows "\<exists>fd'. Read v fd len = Some (fd', take len (drop (rd_off fd) (file_bytes v (fd_entry fd) cs))) \<and>
    rd_ok v fd' cs \<and> fd_entry fd' = fd_entry fd \<and>
    rd_off fd' = rd_off fd + min len (length (file_bytes v (fd_entry fd) cs) - rd_off fd)"
proof -
  let ?b = "bytes_per_cluster v"
  let ?c = "content v cs"
  have b: "?b > 0" by (rule wf_bytes_per_cluster [OF wf])
  obtain e where e: "dir_entry v (fd_entry fd) = Some e" "unat (file_size e) \<le> length cs * ?b"
    "if cs = [] then FirstCluster e = 0 else FirstCluster e = hd cs \<and> chain v cs"
    using fok by (auto simp: file_ok_def)
  have ok: "\<forall>c \<in> set cs. valid_cluster v c"
    using e(3) is_chain_ok by (cases "cs = []") (auto simp: chain_def)
  have lc: "length ?c = length cs * ?b" by (rule length_content [OF wf ok])
  define s where "s = unat (file_size e)"
  have fb: "file_bytes v (fd_entry fd) cs = take s ?c" "length (file_bytes v (fd_entry fd) cs) = s"
    using e lc by (simp_all add: file_bytes_def s_def)
  let ?p = "rd_off fd"
  have p: "?p \<le> s" using fd fb by (simp add: rd_ok_def)
  have s32: "s < 2 ^ 32" using unsigned_less [of "file_size e", where 'a = nat] by (simp add: s_def)
  have "ucast (file_size e) = (of_nat s :: u64)" by (simp add: s_def)
  then have "ucast (file_size e) - of_nat ?p = (of_nat (s - ?p) :: u64)"
    using p by (simp add: of_nat_diff)
  then have sub: "unat (ucast (file_size e) - of_nat ?p :: u64) = s - ?p"
    using s32 by (simp add: unat_of_nat_less)
  define r where "r = min len (s - ?p)"
  define c where "c = (if rd_cluster fd = 0 then FirstCluster e else rd_cluster fd)"
  have tk: "take len (drop ?p (file_bytes v (fd_entry fd) cs)) = take r (drop ?p ?c)"
    by (simp add: fb(1) r_def drop_take min.commute)
  have zero: "cluster_at cs 0 = hd cs" if "cs \<noteq> []" using that by (simp add: cluster_at_def hd_conv_nth)
  have "read_loop v c (rd_cluster_off fd) r [] =
      Some (if ?p + r = 0 \<and> cs = [] then c else cluster_at cs ((?p + r) div ?b), (?p + r) mod ?b, take r (drop ?p ?c))"
  proof (cases "r = 0")
    case True
    have "c = cluster_at cs (?p div ?b) \<or> ?p = 0 \<and> cs = []" "rd_cluster_off fd = ?p mod ?b"
      using fd e(3) zero b by (auto simp: rd_ok_def c_def split: if_splits)
    with True show ?thesis by auto
  next
    case False
    then have pr: "?p + r \<le> s" "?p < s" by (auto simp: r_def)
    then have ne: "cs \<noteq> []" using e(2) by (auto simp: s_def)
    have pi: "?p div ?b < length cs" using pr e(2) b by (simp add: s_def div_less_iff_less_mult)
    let ?ds = "drop (?p div ?b) cs"
    have hd: "c = hd ?ds" "rd_cluster_off fd = ?p mod ?b"
      using fd e(3) pi ne b
      by (auto simp: rd_ok_def c_def cluster_at_def hd_drop_conv_nth hd_conv_nth split: if_splits)
    have ch: "is_chain (fat_get v) (valid_cluster v) ?ds"
      using e(3) ne pi is_chain_suffix [of "fat_get v" "valid_cluster v" "take (?p div ?b) cs" ?ds]
      by (simp add: chain_def)
    have eq: "?p mod ?b + r + ?p div ?b * ?b = ?p + r" by (metis add.commute add.left_commute div_mult_mod_eq)
    have "?p mod ?b + r + ?p div ?b * ?b \<le> length cs * ?b" using eq pr e(2) by (simp add: s_def)
    moreover have "length ?ds * ?b = length cs * ?b - ?p div ?b * ?b" by (simp add: diff_mult_distrib)
    ultimately have rr: "?p mod ?b + r \<le> length ?ds * ?b" by linarith
    have dv: "(?p + r) div ?b = ?p div ?b + (?p mod ?b + r) div ?b" "(?p + r) mod ?b = (?p mod ?b + r) mod ?b"
      using div_mult_self1 [of ?b "?p mod ?b + r" "?p div ?b"] mod_mult_self1 [of "?p mod ?b + r" "?p div ?b" ?b] b
      unfolding eq by simp_all
    have cl: "cluster_at ?ds i = cluster_at cs (?p div ?b + i)" for i
      by (auto simp: cluster_at_def)
    have lt: "length (content v (take (?p div ?b) cs)) = ?p div ?b * ?b"
      using length_content [OF wf, of "take (?p div ?b) cs"] ok pi by (auto dest: in_set_takeD)
    have "?c = content v (take (?p div ?b) cs) @ content v ?ds"
      unfolding content_def by (metis append_take_drop_id concat_append map_append)
    then have "drop ?p ?c = drop (?p mod ?b) (content v ?ds)"
      using lt by (metis append_eq_conv_conj div_mult_mod_eq drop_drop add.commute)
    with read_loop_spec [OF wf ch _ rr, of "[]"] hd dv cl b ne show ?thesis by simp
  qed
  moreover have "length (take r (drop ?p ?c)) = r" using e(2) lc p by (auto simp: r_def s_def)
  ultimately have rd: "Read v fd len = Some (fd\<lparr>
        rd_cluster := (if ?p + r = 0 \<and> cs = [] then c else cluster_at cs ((?p + r) div ?b)),
        rd_cluster_off := (?p + r) mod ?b, rd_off := ?p + r\<rparr>, take r (drop ?p ?c))"
    using e(1) sub by (simp add: Read_def Let_def c_def [symmetric] r_def [symmetric])
  have r2: "?p + r \<le> s" using p by (simp add: r_def)
  define c' where "c' = (if ?p + r = 0 \<and> cs = [] then c else cluster_at cs ((?p + r) div ?b))"
  have nz: "cluster_at cs i \<noteq> 0" for i
  proof (cases "i < length cs")
    case True
    then have "valid_cluster v (cs ! i)" using ok nth_mem by blast
    with True show ?thesis by (simp add: cluster_at_def valid_cluster_def)
  qed (simp add: cluster_at_def kEndOfClusterchain_def)
  have "if c' = 0 then ?p + r = 0 \<and> (?p + r) mod ?b = 0 else c' = cluster_at cs ((?p + r) div ?b)"
  proof (cases "?p + r = 0 \<and> cs = []")
    case True
    then have "c = 0 \<or> c = cluster_at cs 0"
      using fd e(3) by (auto simp: rd_ok_def c_def)
    with True show ?thesis by (auto simp: c'_def)
  next
    case False
    then have "c' = cluster_at cs ((?p + r) div ?b)" unfolding c'_def by auto
    with nz show ?thesis by metis
  qed
  then have "rd_ok v (fd\<lparr>rd_cluster := c', rd_cluster_off := (?p + r) mod ?b, rd_off := ?p + r\<rparr>) cs"
    using r2 fb(2) by (simp add: rd_ok_def)
  then show ?thesis
    unfolding rd tk c'_def [symmetric] using fb(2)
    by (intro exI [of _ "fd\<lparr>rd_cluster := c', rd_cluster_off := (?p + r) mod ?b, rd_off := ?p + r\<rparr>"])
      (simp add: r_def)
qed

lemma skip_clusters_spec:
  assumes "is_chain (fat_get v) ok cs" "0 < bytes_per_cluster v" "off \<le> length cs * bytes_per_cluster v"
  shows "skip_clusters v (hd cs) off =
    Some (cluster_at cs (off div bytes_per_cluster v), off mod bytes_per_cluster v)"
  using assms
proof (induction cs arbitrary: off)
  case (Cons c cs)
  let ?b = "bytes_per_cluster v"
  show ?case
  proof (cases "off < ?b")
    case True
    then show ?thesis by (simp add: skip_clusters.simps [of v c off] cluster_at_def)
  next
    case False
    then have ge: "?b \<le> off" by simp
    have nx: "NextCluster v c = Some (cluster_at cs 0)" by (rule NextCluster_chain [OF Cons.prems(1)])
    have step: "skip_clusters v c off = skip_clusters v (cluster_at cs 0) (off - ?b)"
      using ge nx by (simp add: skip_clusters.simps [of v c off])
    have dv: "off div ?b = Suc ((off - ?b) div ?b)" "off mod ?b = (off - ?b) mod ?b"
      using ge Cons.prems(2) by (simp_all add: le_div_geq le_mod_geq)
    show ?thesis
    proof (cases "cs = []")
      case True
      then have "off - ?b = 0" using Cons.prems(3) by simp
      with True Cons.prems(2) show ?thesis
        using step dv by (simp add: skip_clusters.simps [of v kEndOfClusterchain 0] cluster_at_def)
    next
      case False
      then have "is_chain (fat_get v) ok cs" using Cons.prems(1) by (cases cs) auto
      moreover have "off - ?b \<le> length cs * ?b" using Cons.prems(3) by simp
      ultimately have "skip_clusters v (hd cs) (off - ?b) =
          Some (cluster_at cs ((off - ?b) div ?b), (off - ?b) mod ?b)"
        using Cons.IH Cons.prems(2) by blast
      moreover have "cluster_at cs 0 = hd cs" using False by (simp add: cluster_at_def hd_conv_nth)
      ultimately show ?thesis using step dv by (simp add: cluster_at_def)
    qed
  qed
qed simp

lemma Load_spec:
  assumes wf: "wf_volume v" and fok: "file_ok v (fd_entry fd) cs"
    and off: "off \<le> length (file_bytes v (fd_entry fd) cs)"
  shows "Load v fd len off = Some (take len (drop off (file_bytes v (fd_entry fd) cs)))"
proof -
  let ?b = "bytes_per_cluster v"
  note b = wf_bytes_per_cluster [OF wf]
  obtain e where e: "dir_entry v (fd_entry fd) = Some e" "unat (file_size e) \<le> length cs * ?b"
    "if cs = [] then FirstCluster e = 0 else FirstCluster e = hd cs \<and> chain v cs"
    using fok by (auto simp: file_ok_def)
  have le: "off \<le> unat (file_size e)" using off e(1) by (simp add: file_bytes_def)
  obtain c o' where sk: "skip_clusters v (FirstCluster e) off = Some (c, o')"
    "if c = 0 then off = 0 \<and> o' = 0 else c = cluster_at cs (off div ?b) \<and> o' = off mod ?b"
  proof (cases "cs = []")
    case True
    then have "off = 0" using le e(2) by simp
    with True e(3) b that [of 0 0] show ?thesis by (simp add: skip_clusters.simps [of v 0 0])
  next
    case False
    then have ch: "is_chain (fat_get v) (valid_cluster v) cs" using e(3) by (simp add: chain_def)
    have "cluster_at cs i \<noteq> 0" for i
      using is_chain_ok [OF ch] nth_mem [of i cs]
      by (fastforce simp: cluster_at_def valid_cluster_def kEndOfClusterchain_def)
    with skip_clusters_spec [OF ch b, of off] le e(2,3) False that show ?thesis by simp
  qed
  define g where "g = (FileDescriptor_new (fd_entry fd))\<lparr>rd_off := off, rd_cluster := c, rd_cluster_off := o'\<rparr>"
  have g: "fd_entry g = fd_entry fd" "rd_off g = off" by (simp_all add: g_def FileDescriptor_new_def)
  have "rd_ok v g cs" using off sk(2) by (auto simp: rd_ok_def g_def FileDescriptor_new_def)
  from Read_spec [OF wf _ this, of len] fok g obtain fd' where
    "Read v g len = Some (fd', take len (drop off (file_bytes v (fd_entry fd) cs)))" by auto
  then show ?thesis using e(1) sk(1) by (simp add: Load_def g_def)
qed

section \<open>Writing\<close>

lemma num_cluster_le: "0 < bytes_per_cluster v \<Longrightarrow> 0 < n \<Longrightarrow> n \<le> bytes_per_cluster v \<Longrightarrow> num_cluster v n = 1"
  by (auto simp: num_cluster_def intro!: div_nat_eqI)

lemma write_loop_done [simp]: "\<not> tot < len \<Longrightarrow> write_loop v c off tot len buf = Some (v, c, off, tot)"
  by (simp add: write_loop.simps [of v c off tot len])

text \<open>A write that fits the current cluster.\<close>

lemma write_loop_fits:
  assumes wf: "wf_volume v" and c: "valid_cluster v c" and fit: "off + len \<le> bytes_per_cluster v"
    and len: "0 < len" "len \<le> length buf"
  shows "\<exists>v'. write_loop v c off 0 len buf = Some (v', c, off + len, len) \<and>
    write_mem v (GetClusterAddr v c + off) (take len buf) = Some v'"
proof -
  have "off + length (take len buf) \<le> bytes_per_cluster v" using fit by simp
  from cluster_write [OF wf c this] obtain v' where
    w: "write_mem v (GetClusterAddr v c + off) (take len buf) = Some v'" by blast
  have "off \<noteq> bytes_per_cluster v" "min len (bytes_per_cluster v - off) = len" using fit len by auto
  with w len show ?thesis by (simp add: write_loop.simps [of v c off 0 len] bytes_at_def)
qed

text \<open>
  A write of more than one cluster, but not of whole clusters, from the start of a cluster reads
  behind the end of the caller's buffer.
\<close>

lemma extend_loop_shape: "extend_loop v c n k = Some (v', d) \<Longrightarrow> same_shape v v'"
proof (induction v c n k rule: extend_loop.induct)
  case (2 v c n k)
  from 2(3) obtain x where x: "k < fat_entries v" "fat_get v k = Some x"
    by (auto split: if_splits option.splits)
  show ?case
  proof (cases "x = 0")
    case True
    with 2(3) x obtain u where u: "fat_put v c k = Some u" "extend_loop u k n (Suc k) = Some (v', d)"
      by (auto split: option.splits)
    from 2(2) [OF x _ u] True same_shape_trans [OF fat_put_shape [OF u(1)]] show ?thesis by simp
  next
    case False
    with 2(3) x have "extend_loop v c (Suc n) (Suc k) = Some (v', d)" by simp
    with 2(1) [OF x False] show ?thesis by simp
  qed
qed simp

lemma ExtendCluster_shape: "ExtendCluster v c n = Some (v', d) \<Longrightarrow> same_shape v v'"
proof -
  assume "ExtendCluster v c n = Some (v', d)"
  then obtain e u where "extend_loop v e n 2 = Some (u, d)" "fat_put u d kEndOfClusterchain = Some v'"
    by (auto simp: ExtendCluster_def split: option.splits)
  then show ?thesis using extend_loop_shape fat_put_shape same_shape_trans by blast
qed

lemma write_loop_overrun:
  assumes "0 < bytes_per_cluster v" "tot < len" "len < tot + bytes_per_cluster v" "bytes_per_cluster v \<le> len"
    "length buf = len"
  shows "write_loop v c (bytes_per_cluster v) tot len buf = None"
proof -
  have big: "\<not> tot + bytes_per_cluster v \<le> length buf" "min len (bytes_per_cluster v) = bytes_per_cluster v"
    using assms by auto
  note unfold = write_loop.simps [of v c "bytes_per_cluster v" tot len buf]
  show ?thesis
  proof (cases "NextCluster v c")
    case None
    then show ?thesis using assms(2) by (simp add: unfold)
  next
    case (Some nxt)
    show ?thesis
    proof (cases "nxt = kEndOfClusterchain")
      case False
      with Some big assms(2) show ?thesis by (simp add: unfold Let_def)
    next
      case True
      show ?thesis
      proof (cases "ExtendCluster v c (num_cluster v (len - tot))")
        case None
        with Some True assms(2) show ?thesis by (simp add: unfold)
      next
        case (Some r)
        obtain u d where r: "r = (u, d)" by (cases r)
        have "bytes_per_cluster u = bytes_per_cluster v"
          using same_shapeD(6) [OF ExtendCluster_shape, of v c _ u d] Some r by simp
        with Some r True \<open>NextCluster v c = Some nxt\<close> big assms(2) show ?thesis
          by (cases "NextCluster u c") (simp_all add: unfold Let_def)
      qed
    qed
  qed
qed

lemma Write_overrun:
  assumes b: "bytes_per_cluster v < len" "len < 2 * bytes_per_cluster v"
    and buf: "length buf = len" and fd: "wr_cluster fd \<noteq> 0" "wr_cluster_off fd = 0"
  shows "Write v fd buf len = None"
proof -
  have "write_loop v c 0 0 len buf = None" for c
  proof (cases "write_mem v (GetClusterAddr v c) (bytes_at 0 (bytes_per_cluster v) buf)")
    case None
    with b show ?thesis by (simp add: write_loop.simps [of v c 0 0 len] Let_def)
  next
    case (Some v')
    have "bytes_per_cluster v' = bytes_per_cluster v"
      using same_shapeD [OF write_mem_shape [OF Some]] by simp
    with write_loop_overrun [of v' "bytes_per_cluster v" len buf c] b buf
    have "write_loop v' c (bytes_per_cluster v) (bytes_per_cluster v) len buf = None" by simp
    with Some b buf show ?thesis by (simp add: write_loop.simps [of v c 0 0 len] Let_def)
  qed
  with fd show ?thesis by (auto simp: Write_def split: option.splits)
qed

section \<open>Directory entries\<close>

lemma bytes_at_patch_sub:
  assumes "b \<le> off" "off + length new \<le> b + m" "b + m \<le> length bs"
  shows "bytes_at b m (patch_bytes off new bs) = patch_bytes (off - b) new (bytes_at b m bs)"
  using assms by (intro nth_equalityI) (auto simp: nth_bytes_at nth_patch_bytes add.commute)

lemma dir_entry_of_low:
  "length bs = 32 \<Longrightarrow> dir_entry_of (patch_bytes 26 (le_bytes w) bs) = (dir_entry_of bs)\<lparr>first_cluster_low := (w :: u16)\<rparr>"
  by (simp add: dir_entry_of_def bytes_at_patch bytes_at_patch_other le_word_bytes)

lemma dir_entry_of_high:
  "length bs = 32 \<Longrightarrow> dir_entry_of (patch_bytes 20 (le_bytes w) bs) = (dir_entry_of bs)\<lparr>first_cluster_high := (w :: u16)\<rparr>"
  by (simp add: dir_entry_of_def bytes_at_patch bytes_at_patch_other le_word_bytes)

lemma dir_entry_of_size:
  "length bs = 32 \<Longrightarrow> dir_entry_of (patch_bytes 28 (le_bytes w) bs) = (dir_entry_of bs)\<lparr>file_size := (w :: u32)\<rparr>"
  by (simp add: dir_entry_of_def bytes_at_patch bytes_at_patch_other le_word_bytes)

lemma dir_entry_of_name:
  "length bs = 32 \<Longrightarrow> length nm = 11 \<Longrightarrow> dir_entry_of (patch_bytes 0 nm bs) = (dir_entry_of bs)\<lparr>name := nm\<rparr>"
  by (simp add: dir_entry_of_def bytes_at_patch bytes_at_patch_other)

text \<open>\<open>a\<close> is the address of entry \<open>i\<close> of the used cluster \<open>d\<close>.\<close>

definition entry_in :: "volume \<Rightarrow> nat \<Rightarrow> nat \<Rightarrow> nat \<Rightarrow> bool" where
  "entry_in v a d i \<longleftrightarrow> valid_cluster v d \<and> i < entries_per_cluster v \<and> a = GetClusterAddr v d + 32 * i"

definition raw_entry :: "volume \<Rightarrow> nat \<Rightarrow> u8 list" where
  "raw_entry v a = bytes_at a 32 (img v)"

lemma entry_in_range:
  assumes "wf_volume v" "entry_in v a d i"
  shows "32 * i + 32 \<le> bytes_per_cluster v" "a + 32 \<le> length (img v)"
    "dir_entry v a = Some (dir_entry_of (raw_entry v a))" "length (raw_entry v a) = 32"
    "raw_entry v a = bytes_at (32 * i) 32 (cluster_data v d)"
proof -
  have "32 * (i + 1) \<le> 32 * entries_per_cluster v" using assms(2) by (simp add: entry_in_def)
  also have "\<dots> \<le> bytes_per_cluster v" by (simp add: entries_per_cluster_def)
  finally show r: "32 * i + 32 \<le> bytes_per_cluster v" by simp
  then show s: "a + 32 \<le> length (img v)"
    using cluster_addr(2) [OF assms(1)] assms(2) unfolding entry_in_def by fastforce
  then show "dir_entry v a = Some (dir_entry_of (raw_entry v a))" "length (raw_entry v a) = 32"
    by (simp_all add: dir_entry_def read_mem_def raw_entry_def)
  show "raw_entry v a = bytes_at (32 * i) 32 (cluster_data v d)"
    using assms(2) bytes_at_bytes_at [OF r] by (simp add: raw_entry_def cluster_data_def entry_in_def)
qed

lemma write_entry:
  assumes wf: "wf_volume v" and a: "entry_in v a d i" and k: "k + length bs \<le> 32"
  shows "\<exists>v'. write_mem v (a + k) bs = Some v' \<and> wf_volume v' \<and> same_shape v v' \<and> fat_get v' = fat_get v \<and>
    (\<forall>c. valid_cluster v c \<and> c \<noteq> d \<longrightarrow> cluster_data v' c = cluster_data v c) \<and>
    raw_entry v' a = patch_bytes k bs (raw_entry v a) \<and>
    (\<forall>a' d' i'. entry_in v a' d' i' \<and> a' \<noteq> a \<longrightarrow> raw_entry v' a' = raw_entry v a')"
proof -
  have d: "valid_cluster v d" and i: "a = GetClusterAddr v d + 32 * i" using a by (auto simp: entry_in_def)
  note r = entry_in_range [OF wf a]
  have "32 * i + k + length bs \<le> bytes_per_cluster v" using r(1) k by linarith
  from cluster_write [OF wf d this] obtain v' where
    v': "write_mem v (GetClusterAddr v d + (32 * i + k)) bs = Some v'" "wf_volume v'" "same_shape v v'"
      "fat_get v' = fat_get v"
      "\<forall>c. valid_cluster v c \<longrightarrow>
        cluster_data v' c = (if c = d then patch_bytes (32 * i + k) bs (cluster_data v d) else cluster_data v c)"
    by blast
  have w: "write_mem v (a + k) bs = Some v'" using v'(1) i by (simp add: add.assoc)
  then have im: "img v' = patch_bytes (a + k) bs (img v)" "a + k + length bs \<le> length (img v)"
    by (auto simp: write_mem_def split: if_splits)
  have "raw_entry v' a = patch_bytes k bs (raw_entry v a)"
    unfolding raw_entry_def im(1) using bytes_at_patch_sub [of a "a + k" bs 32 "img v"] k r(2) by simp
  moreover have "raw_entry v' a' = raw_entry v a'" if a': "entry_in v a' d' i'" "a' \<noteq> a" for a' d' i'
  proof -
    have "a' + 32 \<le> a \<or> a + 32 \<le> a'"
    proof (cases "d' = d")
      case True
      then have "a' = GetClusterAddr v d + 32 * i'" "i' \<noteq> i" using a' i by (auto simp: entry_in_def)
      with i show ?thesis by (cases "i' < i") auto
    next
      case False
      have "32 * i' + 32 \<le> bytes_per_cluster v" by (rule entry_in_range(1) [OF wf a'(1)])
      moreover have "valid_cluster v d'" "a' = GetClusterAddr v d' + 32 * i'" using a'(1) by (auto simp: entry_in_def)
      ultimately show ?thesis using cluster_disjoint [OF wf d] False i r(1) by fastforce
    qed
    then have "a' + 32 \<le> a + k \<or> a + k + length bs \<le> a'" using k by linarith
    with im show ?thesis by (simp add: raw_entry_def bytes_at_patch_other)
  qed
  moreover have "\<forall>c. valid_cluster v c \<and> c \<noteq> d \<longrightarrow> cluster_data v' c = cluster_data v c" using v'(5) by simp
  ultimately show ?thesis using w v'(2-4) by blast
qed

lemma entry_in_shape: "same_shape v v' \<Longrightarrow> entry_in v' = entry_in v"
  by (simp add: entry_in_def fun_eq_iff same_shapeD)

lemma bit_word_of_nat: "bit (of_nat n :: 'a::len word) k \<longleftrightarrow> k < LENGTH('a) \<and> bit n k"
  by transfer (simp add: bit_take_bit_iff bit_of_nat_iff_bit)

lemma FirstCluster_set:
  assumes "c < 2 ^ 32"
  shows "FirstCluster (e\<lparr>first_cluster_low := of_nat c, first_cluster_high := of_nat (c div 2 ^ 16)\<rparr>) = c"
proof -
  have "bit (c div 2 ^ 16) j = bit c (16 + j)" for j
    unfolding drop_bit_eq_div [symmetric] bit_drop_bit_eq by simp
  then have dv: "bit (c div 65536) j = bit c (16 + j)" for j by simp
  have "ucast (of_nat c :: u16) OR push_bit 16 (ucast (of_nat (c div 65536) :: u16)) = (of_nat c :: u32)"
    by (rule bit_eqI) (auto simp: bit_or_iff bit_push_bit_iff bit_ucast_iff bit_word_of_nat dv)
  then show ?thesis using assms by (simp add: FirstCluster_def unat_of_nat_less)
qed

text \<open>The first write to a file without clusters.\<close>

lemma set_first_cluster_spec:
  assumes wf: "wf_volume v" and a: "entry_in v a d i" and c: "c < 2 ^ 32"
  shows "\<exists>v'. set_first_cluster v a c = Some v' \<and> wf_volume v' \<and> same_shape v v' \<and> fat_get v' = fat_get v \<and>
    (\<forall>x. valid_cluster v x \<and> x \<noteq> d \<longrightarrow> cluster_data v' x = cluster_data v x) \<and>
    dir_entry_of (raw_entry v' a) = (dir_entry_of (raw_entry v a))
      \<lparr>first_cluster_low := of_nat c, first_cluster_high := of_nat (c div 2 ^ 16)\<rparr>"
proof -
  from write_entry [OF wf a, of 26 "le_bytes (of_nat c :: u16)"] obtain u where
    u: "write_mem v (a + 26) (le_bytes (of_nat c :: u16)) = Some u" "wf_volume u" "same_shape v u"
      "fat_get u = fat_get v" "\<forall>x. valid_cluster v x \<and> x \<noteq> d \<longrightarrow> cluster_data u x = cluster_data v x"
      "raw_entry u a = patch_bytes 26 (le_bytes (of_nat c :: u16)) (raw_entry v a)" by auto
  have au: "entry_in u a d i" using a entry_in_shape [OF u(3)] by simp
  from write_entry [OF u(2) au, of 20 "le_bytes (of_nat (c div 2 ^ 16) :: u16)"] obtain w where
    w: "write_mem u (a + 20) (le_bytes (of_nat (c div 2 ^ 16) :: u16)) = Some w" "wf_volume w" "same_shape u w"
      "fat_get w = fat_get u" "\<forall>x. valid_cluster u x \<and> x \<noteq> d \<longrightarrow> cluster_data w x = cluster_data u x"
      "raw_entry w a = patch_bytes 20 (le_bytes (of_nat (c div 2 ^ 16) :: u16)) (raw_entry u a)" by auto
  have "dir_entry_of (raw_entry w a) = (dir_entry_of (raw_entry v a))
      \<lparr>first_cluster_low := of_nat c, first_cluster_high := of_nat (c div 2 ^ 16)\<rparr>"
    unfolding w(6) dir_entry_of_high [OF entry_in_range(4) [OF u(2) au]]
    unfolding u(6) dir_entry_of_low [OF entry_in_range(4) [OF wf a]] by simp
  moreover have "\<forall>x. valid_cluster v x \<and> x \<noteq> d \<longrightarrow> cluster_data w x = cluster_data v x"
    using u(5) w(5) same_shapeD(4) [OF u(3)] by simp
  ultimately show ?thesis
    using u(1,4) w(1,2,4) same_shape_trans [OF u(3) w(3)] by (simp add: set_first_cluster_def)
qed

lemma Write_fresh:
  assumes wf: "wf_volume v" and a: "entry_in v a d i" and used: "fat_get v d \<noteq> Some 0"
    and fresh: "FirstCluster (dir_entry_of (raw_entry v a)) = 0" and free: "free_clusters v \<noteq> {}"
    and len: "0 < len" "len \<le> bytes_per_cluster v" "len \<le> length buf"
  shows "\<exists>v' fd' c. Write v (FileDescriptor_new a) buf len = Some (v', fd', len) \<and> wf_volume v' \<and>
    same_shape v v' \<and> c \<in> free_clusters v \<and> file_ok v' a [c] \<and> file_bytes v' a [c] = take len buf \<and>
    (\<forall>x. valid_cluster v x \<and> x \<noteq> c \<and> x \<noteq> d \<longrightarrow>
       fat_get v' x = fat_get v x \<and> cluster_data v' x = cluster_data v x)"
proof -
  let ?b = "bytes_per_cluster v"
  note b = wf_bytes_per_cluster [OF wf]
  have nc: "num_cluster v len = 1" using num_cluster_le [OF b len(1,2)] .
  have "max 1 (1::nat) \<le> card (free_clusters v)"
    using free finite_free [of v 2] by (simp add: free_from_2 card_gt_0_iff Suc_le_eq)
  from AllocateClusterChain_spec [OF wf this] obtain v1 cs where
    v1: "AllocateClusterChain v 1 = Some (v1, hd cs)" "wf_volume v1" "same_shape v v1" "length cs = 1"
      "set cs \<subseteq> free_clusters v" "chain v1 cs" "\<forall>x. x \<notin> set cs \<longrightarrow> fat_get v1 x = fat_get v x"
      "\<forall>x. valid_cluster v x \<longrightarrow> cluster_data v1 x = cluster_data v x" by auto
  obtain c where cs: "cs = [c]" using v1(4) by (cases cs) auto
  have c: "c \<in> free_clusters v" "valid_cluster v c" using v1(5) cs by (auto simp: free_clusters_def)
  have cd: "c \<noteq> d" using c used by (auto simp: free_clusters_def)
  have c32: "c < 2 ^ 32" using c(2) wf by (simp add: valid_cluster_def wf_volume_def)
  have a1: "entry_in v1 a d i" using a entry_in_shape [OF v1(3)] by simp
  have raw1: "raw_entry v1 a = raw_entry v a"
    using entry_in_range(5) [OF v1(2) a1] entry_in_range(5) [OF wf a] v1(8) a by (simp add: entry_in_def)
  from set_first_cluster_spec [OF v1(2) a1 c32] obtain v3 where
    v3: "set_first_cluster v1 a c = Some v3" "wf_volume v3" "same_shape v1 v3" "fat_get v3 = fat_get v1"
      "\<forall>x. valid_cluster v1 x \<and> x \<noteq> d \<longrightarrow> cluster_data v3 x = cluster_data v1 x"
      "dir_entry_of (raw_entry v3 a) = (dir_entry_of (raw_entry v1 a))
        \<lparr>first_cluster_low := of_nat c, first_cluster_high := of_nat (c div 2 ^ 16)\<rparr>" by blast
  note sh3 = same_shape_trans [OF v1(3) v3(3)]
  note eq3 = same_shapeD [OF sh3]
  have c3: "valid_cluster v3 c" using c(2) eq3 by simp
  have fit: "0 + len \<le> bytes_per_cluster v3" using len(2) eq3 by simp
  from write_loop_fits [OF v3(2) c3 fit len(1,3)] obtain v4 where
    l: "write_loop v3 c 0 0 len buf = Some (v4, c, len, len)"
      "write_mem v3 (GetClusterAddr v3 c + 0) (take len buf) = Some v4" by auto
  have "0 + length (take len buf) \<le> bytes_per_cluster v3" using fit by simp
  from cluster_write [OF v3(2) c3 this] l(2) have
    v4: "wf_volume v4" "same_shape v3 v4" "fat_get v4 = fat_get v3"
      "\<forall>x. valid_cluster v3 x \<longrightarrow>
        cluster_data v4 x = (if x = c then patch_bytes 0 (take len buf) (cluster_data v3 c) else cluster_data v3 x)"
    by auto
  note sh4 = same_shape_trans [OF sh3 v4(2)]
  have a3: "entry_in v3 a d i" and a4: "entry_in v4 a d i"
    using a entry_in_shape [OF sh3] entry_in_shape [OF sh4] by simp_all
  have raw4: "raw_entry v4 a = raw_entry v3 a"
    using entry_in_range(5) [OF v4(1) a4] entry_in_range(5) [OF v3(2) a3] v4(4) a3 cd by (simp add: entry_in_def)
  from write_entry [OF v4(1) a4, of 28 "le_bytes (of_nat len :: u32)"] obtain v5 where
    v5: "write_mem v4 (a + 28) (le_bytes (of_nat len :: u32)) = Some v5" "wf_volume v5" "same_shape v4 v5"
      "fat_get v5 = fat_get v4" "\<forall>x. valid_cluster v4 x \<and> x \<noteq> d \<longrightarrow> cluster_data v5 x = cluster_data v4 x"
      "raw_entry v5 a = patch_bytes 28 (le_bytes (of_nat len :: u32)) (raw_entry v4 a)" by auto
  note sh5 = same_shape_trans [OF sh4 v5(3)]
  note eq5 = same_shapeD [OF sh5]
  have a5: "entry_in v5 a d i" using a entry_in_shape [OF sh5] by simp
  let ?e = "(dir_entry_of (raw_entry v a))\<lparr>first_cluster_low := of_nat c,
      first_cluster_high := of_nat (c div 2 ^ 16), file_size := of_nat len\<rparr>"
  have e5: "dir_entry v5 a = Some ?e"
    unfolding entry_in_range(3) [OF v5(2) a5] v5(6) dir_entry_of_size [OF entry_in_range(4) [OF v4(1) a4]]
    unfolding raw4 v3(6) raw1 by simp
  have "FirstCluster ?e = FirstCluster ((dir_entry_of (raw_entry v a))\<lparr>first_cluster_low := of_nat c,
      first_cluster_high := of_nat (c div 2 ^ 16)\<rparr>)" by (simp add: FirstCluster_def)
  then have fc: "FirstCluster ?e = c" using FirstCluster_set [OF c32] by simp
  have data: "cluster_data v5 c = patch_bytes 0 (take len buf) (cluster_data v3 c)"
    using v5(5) v4(4) c3 cd same_shapeD(4) [OF v4(2)] by simp
  have lc3: "length (cluster_data v3 c) = ?b" using length_cluster_data [OF v3(2) c3] eq3 by simp
  have b32: "?b < 2 ^ 32"
  proof -
    have "unat (bytes_per_sector (bpb v)) < 2 ^ 16" "unat (sectors_per_cluster (bpb v)) < 2 ^ 8"
      using unsigned_less [of "bytes_per_sector (bpb v)", where 'a = nat]
        unsigned_less [of "sectors_per_cluster (bpb v)", where 'a = nat] by simp_all
    then have "unat (bytes_per_sector (bpb v)) * unat (sectors_per_cluster (bpb v)) \<le> 2 ^ 16 * 2 ^ 8"
      by (intro mult_le_mono) simp_all
    then show ?thesis using wf unfolding wf_volume_def by simp
  qed
  have sz: "unat (of_nat len :: u32) = len" using len(2) b32 by (intro unat_of_nat_less) simp
  have "file_bytes v5 a [c] = take len buf"
    using e5 sz len data lc3 by (simp add: file_bytes_def content_def patch_bytes_def)
  moreover have "file_ok v5 a [c]"
  proof -
    have "chain v5 [c]"
      using v1(6) cs v5(4) v4(3) v3(4) same_shapeD(4) [OF same_shape_trans [OF v3(3) same_shape_trans [OF v4(2) v5(3)]]]
      by (simp add: chain_def)
    then show ?thesis using e5 fc sz len(2) eq5 by (simp add: file_ok_def)
  qed
  moreover have "fat_get v5 x = fat_get v x \<and> cluster_data v5 x = cluster_data v x"
    if "valid_cluster v x" "x \<noteq> c" "x \<noteq> d" for x
    using that v1(7,8) v3(4,5) v4(3,4) v5(4,5) cs same_shapeD(4) [OF v1(3)] same_shapeD(4) [OF sh3] same_shapeD(4) [OF sh4]
    by simp
  moreover have "\<exists>fd'. Write v (FileDescriptor_new a) buf len = Some (v5, fd', len)"
    using entry_in_range(3) [OF wf a] fresh nc v1(1) cs v3(1) l(1) v5(1)
    by (simp add: Write_def FileDescriptor_new_def)
  ultimately show ?thesis using v5(2) sh5 c(1) by blast
qed

section \<open>Names\<close>

text \<open>An 8.3 name: a base of at most eight characters and, behind a dot, an extension of at most three.\<close>

definition valid83 :: "u8 list \<Rightarrow> bool" where
  "valid83 nm \<longleftrightarrow> (\<exists>base ext. (nm = base \<and> ext = [] \<or> nm = base @ dot # ext) \<and> base \<noteq> [] \<and>
     length base \<le> 8 \<and> length ext \<le> 3 \<and> dot \<notin> set base \<and> dot \<notin> set ext)"

lemma split_last_none: "c \<notin> set xs \<Longrightarrow> split_last c xs = None"
  by (induction xs) auto

lemma split_last_append: "c \<notin> set ys \<Longrightarrow> split_last c (xs @ c # ys) = Some (xs, ys)"
  by (induction xs) (auto simp: split_last_none)

lemma split_first_none: "c \<notin> set xs \<Longrightarrow> split_first c xs = None"
  by (induction xs) auto

lemma fill_name83_plain:
  "dot \<notin> set cs \<Longrightarrow> j + length cs \<le> 11 \<Longrightarrow> length b = 11 \<Longrightarrow>
     fill_name83 (cs @ rest) j b =
       fill_name83 rest (j + length cs) (take j b @ map toupper cs @ drop (j + length cs) b)"
proof (induction cs arbitrary: j b)
  case (Cons c cs)
  have "take (Suc j) (b[j := toupper c]) = take j b @ [toupper c]"
    using Cons.prems by (simp add: take_Suc_conv_app_nth)
  moreover have "drop (Suc j + length cs) (b[j := toupper c]) = drop (Suc j + length cs) b"
    by simp
  moreover have "c \<noteq> dot" using Cons.prems(1) by auto
  ultimately show ?case
    using Cons.prems Cons.IH [of "Suc j" "b[j := toupper c]"] by simp
qed simp

lemma SetFileName_NameIsEqual:
  assumes "valid83 nm" shows "name83_of nm = fill_name83 nm 0 (replicate 11 0x20)"
proof -
  obtain base ext where n: "nm = base \<and> ext = [] \<or> nm = base @ dot # ext" "length base \<le> 8" "length ext \<le> 3"
    "dot \<notin> set base" "dot \<notin> set ext" using assms by (auto simp: valid83_def)
  let ?b = "map toupper base @ replicate (11 - length base) 0x20"
  have base: "fill_name83 (base @ rest) 0 (replicate 11 0x20) = fill_name83 rest (length base) ?b" for rest
    using fill_name83_plain [OF n(4), of 0 "replicate 11 0x20" rest] n(2) by simp
  from n(1) show ?thesis
  proof
    assume e: "nm = base \<and> ext = []"
    then show ?thesis using base [of "[]"] n by (simp add: name83_of_def split_last_none)
  next
    assume e: "nm = base @ dot # ext"
    have len: "length ?b = 11" using n(2) by simp
    have tk: "take 8 ?b = map toupper base @ replicate (8 - length base) 0x20" using n(2) by simp
    have "drop (8 + length ext) ?b = replicate (3 - length ext) 0x20" using n(2,3) by simp
    then have "fill_name83 ext 8 ?b = map toupper base @ replicate (8 - length base) 0x20 @ map toupper ext @
        replicate (3 - length ext) 0x20"
      using fill_name83_plain [OF n(5), of 8 ?b "[]"] n(3) len unfolding tk by simp
    moreover have "fill_name83 (dot # ext) (length base) ?b = fill_name83 ext 8 ?b" using n(2) by simp
    moreover have "split_last dot nm = Some (base, ext)" using e n by (simp add: split_last_append)
    ultimately show ?thesis using base [of "dot # ext"] e n by (simp add: name83_of_def Let_def)
  qed
qed

lemma length_name83: "length (name83_of nm) = 11"
  by (auto simp: name83_of_def Let_def min_def split: option.splits)

section \<open>Directories\<close>

definition slots :: "volume \<Rightarrow> nat list \<Rightarrow> nat list" where
  "slots v cs = concat (map (\<lambda>c. map (\<lambda>i. GetClusterAddr v c + 32 * i) [0..<entries_per_cluster v]) cs)"

abbreviation slot_name :: "volume \<Rightarrow> nat \<Rightarrow> u8 list" where
  "slot_name v a \<equiv> name (dir_entry_of (raw_entry v a))"

fun scan_slots :: "volume \<Rightarrow> u8 list \<Rightarrow> nat list \<Rightarrow> dir_search" where
  "scan_slots v elem [] = NotInCluster"
| "scan_slots v elem (a # as) =
    (if hd (slot_name v a) = 0 then EndOfDirectory
     else if NameIsEqual (dir_entry_of (raw_entry v a)) elem then FoundEntry a
     else scan_slots v elem as)"

definition is_free :: "volume \<Rightarrow> nat \<Rightarrow> bool" where
  "is_free v a \<longleftrightarrow> hd (slot_name v a) = 0 \<or> hd (slot_name v a) = 0xe5"

lemma scan_append:
  "scan_slots v elem (xs @ ys) =
     (case scan_slots v elem xs of NotInCluster \<Rightarrow> scan_slots v elem ys | r \<Rightarrow> r)"
  by (induction xs) auto

lemma slots_entry_in:
  assumes "a \<in> set (slots v cs)" "\<forall>c \<in> set cs. valid_cluster v c"
  shows "\<exists>d i. d \<in> set cs \<and> entry_in v a d i"
  using assms by (auto simp: slots_def entry_in_def)

lemma search_cluster_scan:
  "wf_volume v \<Longrightarrow> valid_cluster v c \<Longrightarrow> i + k = entries_per_cluster v \<Longrightarrow>
     search_cluster v elem (GetClusterAddr v c) i k =
       Some (scan_slots v elem (map (\<lambda>i. GetClusterAddr v c + 32 * i) [i..<i + k]))"
proof (induction k arbitrary: i)
  case (Suc k)
  have "entry_in v (GetClusterAddr v c + 32 * i) c i" using Suc.prems by (simp add: entry_in_def)
  moreover have "[i..<i + Suc k] = i # [Suc i..<Suc i + k]" by (simp add: upt_rec)
  moreover have "Suc i + k = entries_per_cluster v" using Suc.prems(3) by simp
  ultimately show ?case
    using entry_in_range(3) [OF Suc.prems(1)] Suc.IH [of "Suc i"] Suc.prems(1,2) by (simp del: upt_Suc)
qed simp

lemma search_dir_scan:
  assumes wf: "wf_volume v" and ch: "is_chain (fat_get v) (valid_cluster v) cs"
  shows "search_dir v elem (hd cs) =
    Some (case scan_slots v elem (slots v cs) of FoundEntry a \<Rightarrow> Some a | _ \<Rightarrow> None)"
  using ch
proof (induction cs)
  case (Cons c cs)
  have c: "valid_cluster v c" using is_chain_ok [OF Cons.prems] by simp
  have ne: "c \<noteq> kEndOfClusterchain"
    using valid_not_end [OF wf c] by (auto simp: kEndOfClusterchain_def IsEndOfClusterchain_def)
  have s: "search_cluster v elem (GetClusterAddr v c) 0 (entries_per_cluster v) =
      Some (scan_slots v elem (slots v [c]))"
    using search_cluster_scan [OF wf c, of 0] by (simp add: slots_def)
  have nx: "NextCluster v c = Some (cluster_at cs 0)" by (rule NextCluster_chain [OF Cons.prems])
  have sl: "slots v (c # cs) = slots v [c] @ slots v cs" by (simp add: slots_def)
  have rest: "search_dir v elem (cluster_at cs 0) =
      Some (case scan_slots v elem (slots v cs) of FoundEntry a \<Rightarrow> Some a | _ \<Rightarrow> None)"
  proof (cases "cs = []")
    case True
    then show ?thesis by (simp add: cluster_at_def slots_def search_dir.simps [of v elem kEndOfClusterchain])
  next
    case False
    then have "is_chain (fat_get v) (valid_cluster v) cs" using Cons.prems by (cases cs) auto
    with Cons.IH False show ?thesis by (simp add: cluster_at_def hd_conv_nth)
  qed
  show ?case
    using s ne nx rest
    by (simp add: search_dir.simps [of v elem c] sl scan_append split: dir_search.split)
qed simp

lemma free_entry_find:
  "wf_volume v \<Longrightarrow> valid_cluster v c \<Longrightarrow> i + k = entries_per_cluster v \<Longrightarrow>
     free_entry v (GetClusterAddr v c) i k =
       Some (find (is_free v) (map (\<lambda>i. GetClusterAddr v c + 32 * i) [i..<i + k]))"
proof (induction k arbitrary: i)
  case (Suc k)
  have "entry_in v (GetClusterAddr v c + 32 * i) c i" using Suc.prems by (simp add: entry_in_def)
  moreover have "[i..<i + Suc k] = i # [Suc i..<Suc i + k]" by (simp add: upt_rec)
  moreover have "Suc i + k = entries_per_cluster v" using Suc.prems(3) by simp
  ultimately show ?case
    using entry_in_range(3) [OF Suc.prems(1)] Suc.IH [of "Suc i"] Suc.prems(1,2)
    by (simp add: is_free_def del: upt_Suc)
qed simp

lemma find_append: "find P (xs @ ys) = (case find P xs of None \<Rightarrow> find P ys | r \<Rightarrow> r)"
  by (induction xs) auto

lemma find_free_entry_spec:
  assumes wf: "wf_volume v" and ch: "is_chain (fat_get v) (valid_cluster v) cs"
  shows "find_free_entry v (hd cs) =
    Some (case find (is_free v) (slots v cs) of Some a \<Rightarrow> Inl a | None \<Rightarrow> Inr (last cs))"
  using ch
proof (induction cs)
  case (Cons c cs)
  have c: "valid_cluster v c" using is_chain_ok [OF Cons.prems] by simp
  have s: "free_entry v (GetClusterAddr v c) 0 (entries_per_cluster v) = Some (find (is_free v) (slots v [c]))"
    using free_entry_find [OF wf c, of 0] by (simp add: slots_def)
  have nx: "NextCluster v c = Some (cluster_at cs 0)" by (rule NextCluster_chain [OF Cons.prems])
  have sl: "slots v (c # cs) = slots v [c] @ slots v cs" by (simp add: slots_def)
  show ?case
  proof (cases "cs = []")
    case True
    with s nx show ?thesis
      by (auto simp: find_free_entry.simps [of v c] cluster_at_def slots_def split: option.split)
  next
    case False
    then have ch': "is_chain (fat_get v) (valid_cluster v) cs" using Cons.prems by (cases cs) auto
    have h: "cluster_at cs 0 = hd cs" "valid_cluster v (hd cs)"
      using False is_chain_ok [OF ch'] by (auto simp: cluster_at_def hd_conv_nth)
    have "hd cs \<noteq> kEndOfClusterchain"
      using valid_not_end [OF wf h(2)] by (auto simp: kEndOfClusterchain_def IsEndOfClusterchain_def)
    with s nx h Cons.IH [OF ch'] False show ?thesis
      by (simp add: find_free_entry.simps [of v c] sl find_append split: option.split)
  qed
qed simp

lemma toupper_nonzero: "c \<noteq> 0 \<Longrightarrow> toupper c \<noteq> 0"
proof -
  have "0x61 \<le> c \<Longrightarrow> c - 0x20 \<noteq> 0"
  proof
    assume c: "0x61 \<le> c" "c - 0x20 = 0"
    from c(2) have "c = 0x20" by simp
    with c(1) show False by simp
  qed
  then show "c \<noteq> 0 \<Longrightarrow> toupper c \<noteq> 0" by (auto simp: toupper_def)
qed

lemma hd_name83:
  assumes "valid83 nm" "hd nm \<noteq> 0"
  shows "hd (name83_of nm) \<noteq> 0"
proof -
  obtain base ext where n: "nm = base \<and> ext = [] \<or> nm = base @ dot # ext" "base \<noteq> []"
    "dot \<notin> set base" "dot \<notin> set ext" using assms(1) by (auto simp: valid83_def)
  obtain c cs where b: "base = c # cs" using n(2) by (cases base) auto
  have c: "toupper c \<noteq> 0" using assms(2) n(1) b by (intro toupper_nonzero) auto
  from n(1) show ?thesis
  proof
    assume "nm = base \<and> ext = []"
    then show ?thesis using split_last_none [OF n(3)] b c by (simp add: name83_of_def Let_def)
  next
    assume "nm = base @ dot # ext"
    then show ?thesis using split_last_append [OF n(4), of base] b c by (simp add: name83_of_def Let_def)
  qed
qed

lemma NextPathElement_plain:
  "slash \<notin> set nm \<Longrightarrow> length nm < 13 \<Longrightarrow> NextPathElement nm = Some (nm, None, False)"
  by (simp add: NextPathElement_def split_first_none)

lemma FindFile_plain:
  assumes wf: "wf_volume v" and ch: "is_chain (fat_get v) (valid_cluster v) rs"
    and root: "hd rs = unat (root_cluster (bpb v))"
    and nm: "nm \<noteq> []" "slash \<notin> set nm" "length nm < 13"
  shows "FindFile v nm 0 =
    Some (case scan_slots v nm (slots v rs) of FoundEntry a \<Rightarrow> Some a | _ \<Rightarrow> None, False)"
proof -
  obtain c cs where nm': "nm = c # cs" "c \<noteq> slash" using nm(1,2) by (cases nm) auto
  have ok: "\<forall>c \<in> set rs. valid_cluster v c" using is_chain_ok [OF ch] by blast
  have sd: "search_dir v nm (unat (root_cluster (bpb v))) =
      Some (case scan_slots v nm (slots v rs) of FoundEntry a \<Rightarrow> Some a | _ \<Rightarrow> None)"
    using search_dir_scan [OF wf ch, of nm] root by simp
  have de: "dir_entry v a = Some (dir_entry_of (raw_entry v a))" if "a \<in> set (slots v rs)" for a
    using slots_entry_in [OF that ok] entry_in_range(3) [OF wf] by blast
  have scan_in: "scan_slots v nm as = FoundEntry a \<Longrightarrow> a \<in> set as" for as a
    by (induction as) (auto split: if_splits)
  note np = NextPathElement_plain [OF nm(2,3)]
  show ?thesis
  proof (cases "scan_slots v nm (slots v rs)")
    case (FoundEntry a)
    with sd np nm' de [OF scan_in [OF FoundEntry]] show ?thesis by simp
  qed (use sd np nm' in simp_all)
qed

lemma find_split: "find P xs = Some a \<Longrightarrow> \<exists>pre post. xs = pre @ a # post \<and> P a \<and> (\<forall>x \<in> set pre. \<not> P x)"
proof (induction xs)
  case (Cons x xs)
  show ?case
  proof (cases "P x")
    case True
    with Cons.prems show ?thesis by (intro exI [of _ "[]"] exI [of _ xs]) auto
  next
    case False
    with Cons obtain pre post where "xs = pre @ a # post" "P a" "\<forall>x \<in> set pre. \<not> P x" by auto
    with False show ?thesis by (intro exI [of _ "x # pre"] exI [of _ post]) auto
  qed
qed simp

lemma scan_unchanged:
  "\<forall>x \<in> set pre. hd (slot_name v x) \<noteq> 0 \<and> raw_entry w x = raw_entry v x \<Longrightarrow>
     \<forall>x. scan_slots v nm (pre @ ys) \<noteq> FoundEntry x \<Longrightarrow> scan_slots w nm pre = NotInCluster"
proof (induction pre)
  case (Cons y pre)
  have "\<not> NameIsEqual (dir_entry_of (raw_entry v y)) nm"
    using Cons.prems(2) [rule_format, of y] Cons.prems(1) by auto
  with Cons show ?case by auto
qed simp

text \<open>Creating a file in the root directory when a directory slot is free.\<close>

lemma CreateFile_slot:
  assumes wf: "wf_volume v" and ch: "chain v rs" and root: "hd rs = unat (root_cluster (bpb v))"
    and nm: "valid83 nm" "hd nm \<noteq> 0" "slash \<notin> set nm" and new: "FindFile v nm 0 = Some (None, False)"
    and a: "find (is_free v) (slots v rs) = Some a"
  shows "\<exists>v'. CreateFile v nm = Some (v', Inr a) \<and> wf_volume v' \<and> same_shape v v' \<and>
    FindFile v' nm 0 = Some (Some a, False) \<and> fat_get v' = fat_get v \<and>
    dir_entry v' a = Some ((dir_entry_of (raw_entry v a))\<lparr>name := name83_of nm, file_size := 0\<rparr>) \<and>
    (\<forall>a' d i. entry_in v a' d i \<and> a' \<noteq> a \<longrightarrow> dir_entry v' a' = dir_entry v a') \<and>
    (\<forall>c. valid_cluster v c \<and> c \<notin> set rs \<longrightarrow> cluster_data v' c = cluster_data v c)"
proof -
  have ch': "is_chain (fat_get v) (valid_cluster v) rs" using ch by (simp add: chain_def)
  have ok: "\<forall>c \<in> set rs. valid_cluster v c" using is_chain_ok [OF ch'] by blast
  have len: "nm \<noteq> []" "length nm < 13" using nm(1) by (auto simp: valid83_def)
  obtain pre post where pp: "slots v rs = pre @ a # post" "is_free v a" "\<forall>x \<in> set pre. \<not> is_free v x"
    using find_split [OF a] by blast
  obtain d i where d: "d \<in> set rs" "entry_in v a d i"
    using slots_entry_in [of a v rs] ok pp(1) by auto
  from write_entry [OF wf d(2), of 0 "name83_of nm"] obtain u where
    u: "write_mem v (a + 0) (name83_of nm) = Some u" "wf_volume u" "same_shape v u" "fat_get u = fat_get v"
      "\<forall>c. valid_cluster v c \<and> c \<noteq> d \<longrightarrow> cluster_data u c = cluster_data v c"
      "raw_entry u a = patch_bytes 0 (name83_of nm) (raw_entry v a)"
      "\<forall>a' d' i'. entry_in v a' d' i' \<and> a' \<noteq> a \<longrightarrow> raw_entry u a' = raw_entry v a'"
    using length_name83 [of nm] by auto
  have du: "entry_in u a d i" using d(2) entry_in_shape [OF u(3)] by simp
  from write_entry [OF u(2) du, of 28 "le_bytes (0 :: u32)"] obtain w where
    w: "write_mem u (a + 28) (le_bytes (0 :: u32)) = Some w" "wf_volume w" "same_shape u w" "fat_get w = fat_get u"
      "\<forall>c. valid_cluster u c \<and> c \<noteq> d \<longrightarrow> cluster_data w c = cluster_data u c"
      "raw_entry w a = patch_bytes 28 (le_bytes (0 :: u32)) (raw_entry u a)"
      "\<forall>a' d' i'. entry_in u a' d' i' \<and> a' \<noteq> a \<longrightarrow> raw_entry w a' = raw_entry u a'" by auto
  note sh = same_shape_trans [OF u(3) w(3)]
  note eqs = same_shapeD [OF sh]
  let ?e = "(dir_entry_of (raw_entry v a))\<lparr>name := name83_of nm, file_size := 0\<rparr>"
  have ent: "dir_entry_of (raw_entry w a) = ?e"
    unfolding w(6) dir_entry_of_size [OF entry_in_range(4) [OF u(2) du]]
    unfolding u(6) dir_entry_of_name [OF entry_in_range(4) [OF wf d(2)] length_name83] by simp
  have other: "raw_entry w a' = raw_entry v a'" if "entry_in v a' d' i'" "a' \<noteq> a" for a' d' i'
    using that u(7) w(7) entry_in_shape [OF u(3)] by metis
  have "find_free_entry v (unat (root_cluster (bpb v))) = Some (Inl a)"
    using find_free_entry_spec [OF wf ch'] a root by simp
  then have "AllocateEntry v (unat (root_cluster (bpb v))) = Some (v, a)" by (simp add: AllocateEntry_def)
  then have create: "CreateFile v nm = Some (w, Inr a)"
    using u(1) w(1) split_last_none [OF nm(3)] by (simp add: CreateFile_def Let_def SetFileName_def)
  have ch_w: "is_chain (fat_get w) (valid_cluster w) rs"
    using ch' u(4) w(4) eqs by simp
  have "slots w rs = pre @ a # post" using pp(1) eqs by (simp add: slots_def)
  have scan_v: "scan_slots v nm (slots v rs) \<noteq> FoundEntry x" for x
    using new FindFile_plain [OF wf ch' root len(1) nm(3) len(2)] by auto
  have "\<forall>x \<in> set pre. hd (slot_name v x) \<noteq> 0 \<and> raw_entry w x = raw_entry v x"
  proof
    fix x assume x: "x \<in> set pre"
    then obtain d' i' where "entry_in v x d' i'" using slots_entry_in [of x v rs] ok pp(1) by auto
    moreover have "x \<noteq> a" using x pp(2,3) by auto
    ultimately show "hd (slot_name v x) \<noteq> 0 \<and> raw_entry w x = raw_entry v x"
      using other x pp(3) by (auto simp: is_free_def)
  qed
  from scan_unchanged [OF this, of nm "a # post"] scan_v pp(1)
  have "scan_slots w nm pre = NotInCluster" by simp
  moreover have "hd (slot_name w a) \<noteq> 0" "NameIsEqual (dir_entry_of (raw_entry w a)) nm"
    using ent hd_name83 [OF nm(1,2)] SetFileName_NameIsEqual [OF nm(1)] by (simp_all add: NameIsEqual_def)
  ultimately have "scan_slots w nm (slots w rs) = FoundEntry a"
    using \<open>slots w rs = pre @ a # post\<close> by (simp add: scan_append)
  then have "FindFile w nm 0 = Some (Some a, False)"
    using FindFile_plain [OF w(2) ch_w _ len(1) nm(3) len(2)] root eqs by simp
  moreover have "dir_entry w a = Some ?e"
    using entry_in_range(3) [OF w(2), of a d i] d(2) entry_in_shape [OF sh] ent by simp
  moreover have "dir_entry w a' = dir_entry v a'" if "entry_in v a' d' i'" "a' \<noteq> a" for a' d' i'
    using entry_in_range(3) [OF w(2), of a' d' i'] entry_in_range(3) [OF wf that(1)] that other
      entry_in_shape [OF sh] by simp
  moreover have "cluster_data w c = cluster_data v c" if "valid_cluster v c" "c \<notin> set rs" for c
    using that d(1) u(5) w(5) same_shapeD(4) [OF u(3)] by metis
  ultimately show ?thesis using create w(2,4) u(4) sh by auto
qed

section \<open>Properties\<close>

text \<open>A volume of six clusters of 64 bytes, the first one an empty root directory.\<close>

definition sample_volume :: volume where
  "sample_volume =
    \<lparr>bpb = (bpb_of (replicate 90 0))\<lparr>bytes_per_sector := 32, sectors_per_cluster := 2,
       reserved_sector_count := 3, num_fats := 1, fat_size_32 := 1, root_cluster := 2\<rparr>,
     bytes_per_cluster = 64,
     img = replicate 104 0 @ [0xff, 0xff, 0xff, 0x0f] @ replicate 404 0\<rparr>"

lemma sample_bpb:
  "bytes_per_sector (bpb sample_volume) = 32" "sectors_per_cluster (bpb sample_volume) = 2"
  "reserved_sector_count (bpb sample_volume) = 3" "num_fats (bpb sample_volume) = 1"
  "fat_size_32 (bpb sample_volume) = 1" "root_cluster (bpb sample_volume) = 2"
  "bytes_per_cluster sample_volume = 64" "length (img sample_volume) = 512"
  by (simp_all add: sample_volume_def)

lemma sample_fat_entries: "fat_entries sample_volume = 8" "GetFAT sample_volume = 96"
  "data_start sample_volume = 128" "entries_per_cluster sample_volume = 2"
  by (simp_all add: fat_entries_def GetFAT_def data_start_def entries_per_cluster_def sample_bpb)

lemma sample_wf: "wf_volume sample_volume"
  by (simp add: wf_volume_def sample_bpb sample_fat_entries)

lemma sample_fat:
  "fat_get sample_volume 2 = Some 0x0fffffff" "3 \<le> c \<Longrightarrow> c < 8 \<Longrightarrow> fat_get sample_volume c = Some 0"
proof -
  have "bytes_at 104 4 (img sample_volume) = [0xff, 0xff, 0xff, 0x0f]"
    by (simp add: sample_volume_def bytes_at_def)
  moreover have "(le_word [0xff, 0xff, 0xff, 0x0f] :: u32) = 0x0fffffff" by code_simp
  ultimately show "fat_get sample_volume 2 = Some 0x0fffffff"
    by (simp add: fat_get_def read_mem_def sample_fat_entries sample_bpb del: le_word.simps)
  assume c: "3 \<le> c" "c < 8"
  have "bytes_at (96 + 4 * c) 4 (img sample_volume) = replicate 4 0"
    using c by (simp add: sample_volume_def bytes_at_def drop_Cons')
  moreover have "(le_word (replicate 4 0) :: u32) = 0" by code_simp
  ultimately show "fat_get sample_volume c = Some 0"
    using c by (simp add: fat_get_def read_mem_def sample_fat_entries sample_bpb del: le_word.simps replicate.simps)
qed

lemma sample_root: "chain sample_volume [2]"
  by (simp add: chain_def sample_fat valid_cluster_def sample_fat_entries IsEndOfClusterchain_def)

lemma sample_free: "free_clusters sample_volume = {3..<8}"
  using sample_fat
  by (auto simp: free_clusters_def valid_cluster_def sample_fat_entries)
    (metis One_nat_def Suc_1 le_antisym not_less_eq_eq numeral_3_eq_3 option.inject zero_neq_numeral)

lemma sample_slots:
  "slots sample_volume [2] = [128, 160]" "entry_in sample_volume 128 2 0"
  "raw_entry sample_volume 128 = replicate 32 0"
proof -
  have "GetClusterAddr sample_volume 2 = 128"
    using cluster_addr(1) [OF sample_wf, of 2] by (simp add: valid_cluster_def sample_fat_entries)
  then show "slots sample_volume [2] = [128, 160]" "entry_in sample_volume 128 2 0"
    by (simp_all add: slots_def entry_in_def sample_fat_entries upt_rec valid_cluster_def)
  show "raw_entry sample_volume 128 = replicate 32 0"
    by (simp add: raw_entry_def bytes_at_def sample_volume_def drop_Cons')
qed

lemma sample_entry: "dir_entry_of (raw_entry sample_volume 128) = dir_entry_of (replicate 32 0)"
  by (simp only: sample_slots)

lemma zero_entry: "hd (name (dir_entry_of (replicate 32 0))) = 0" "FirstCluster (dir_entry_of (replicate 32 0)) = 0"
  by code_simp+

text \<open>The name A.TXT.\<close>

definition sample_name :: "u8 list" where
  "sample_name = [0x41, 0x2e, 0x54, 0x58, 0x54]"

lemma sample_name_ok:
  "valid83 sample_name" "hd sample_name \<noteq> 0" "slash \<notin> set sample_name" "sample_name \<noteq> []" "length sample_name < 13"
  unfolding valid83_def
  by (intro exI [of _ "[0x41]"] exI [of _ "[0x54, 0x58, 0x54]"]) (simp_all add: sample_name_def dot_def slash_def)

text \<open>
  C4. \<open>ExtendCluster\<close> follows the chain from any of its clusters to the end and links \<open>n\<close> clusters
  behind it that were free, in a chain without repetition.  It changes the FAT entries of
  the old last cluster and of the new ones only, and no cluster's data.
\<close>

theorem ExtendCluster_extends_chain:
  assumes "wf_volume v" "chain v cs" "c \<in> set cs" "n \<le> card (free_clusters v)"
  shows "\<exists>v' new. ExtendCluster v c n = Some (v', last (cs @ new)) \<and> wf_volume v' \<and>
    length new = n \<and> set new \<subseteq> free_clusters v \<and> chain v' (cs @ new) \<and>
    (\<forall>d. d \<notin> set (last cs # new) \<longrightarrow> fat_get v' d = fat_get v d) \<and>
    (\<forall>d. valid_cluster v d \<longrightarrow> cluster_data v' d = cluster_data v d)"
  using ExtendCluster_spec [OF assms(1-3)] assms(4) unfolding free_from_2 by blast

theorem ExtendCluster_extends_chain_witness:
  "\<exists>v' new. ExtendCluster sample_volume 2 3 = Some (v', last ([2] @ new)) \<and> length new = 3"
proof -
  have "2 \<in> set [2]" "3 \<le> card (free_clusters sample_volume)" by (simp_all add: sample_free)
  from ExtendCluster_extends_chain [OF sample_wf sample_root this] show ?thesis by blast
qed

text \<open>
  C11. \<open>Read\<close> returns the next bytes of the file: at most \<open>len\<close>, fewer only at its end, across
  cluster boundaries, and moves the descriptor behind them.
\<close>

theorem Read_next_bytes:
  assumes "wf_volume v" "file_ok v (fd_entry fd) cs" "rd_ok v fd cs"
  shows "\<exists>fd'. Read v fd len = Some (fd', take len (drop (rd_off fd) (file_bytes v (fd_entry fd) cs))) \<and>
    rd_ok v fd' cs \<and> fd_entry fd' = fd_entry fd \<and>
    rd_off fd' = rd_off fd + min len (length (file_bytes v (fd_entry fd) cs) - rd_off fd)"
  by (rule Read_spec [OF assms])

theorem Read_next_bytes_witness:
  "\<exists>fd'. Read sample_volume (FileDescriptor_new 128) 10 = Some (fd', [])"
proof -
  have e: "dir_entry sample_volume 128 = Some (dir_entry_of (replicate 32 0))"
    using entry_in_range(3) [OF sample_wf sample_slots(2)] sample_slots(3) by simp
  have z: "file_size (dir_entry_of (replicate 32 0)) = 0" by code_simp
  have "file_ok sample_volume (fd_entry (FileDescriptor_new 128)) []"
    using e z zero_entry(2) by (simp add: file_ok_def FileDescriptor_new_def del: replicate.simps)
  moreover have "rd_ok sample_volume (FileDescriptor_new 128) []"
    by (simp add: rd_ok_def FileDescriptor_new_def)
  ultimately obtain fd' where "Read sample_volume (FileDescriptor_new 128) 10 =
      Some (fd', take 10 (drop (rd_off (FileDescriptor_new 128))
        (file_bytes sample_volume (fd_entry (FileDescriptor_new 128)) [])))"
    using Read_next_bytes [OF sample_wf, of "FileDescriptor_new 128" "[]" 10] by blast
  then show ?thesis by (simp add: file_bytes_def content_def)
qed

text \<open>
  \<open>Load\<close> returns the bytes from an offset inside the file, whatever cluster it lies in.
\<close>

lemma Load_at_offset:
  assumes "wf_volume v" "file_ok v (fd_entry fd) cs" "off \<le> length (file_bytes v (fd_entry fd) cs)"
  shows "Load v fd len off = Some (take len (drop off (file_bytes v (fd_entry fd) cs)))"
  by (rule Load_spec [OF assms])

lemma Load_at_offset_witness: "Load sample_volume (FileDescriptor_new 128) 5 0 = Some []"
proof -
  have e: "dir_entry sample_volume 128 = Some (dir_entry_of (replicate 32 0))"
    using entry_in_range(3) [OF sample_wf sample_slots(2)] sample_slots(3) by simp
  have z: "file_size (dir_entry_of (replicate 32 0)) = 0" by code_simp
  have "file_ok sample_volume (fd_entry (FileDescriptor_new 128)) []"
    using e z zero_entry(2) by (simp add: file_ok_def FileDescriptor_new_def del: replicate.simps)
  from Load_at_offset [OF sample_wf this, of 0 5] show ?thesis by (simp add: file_bytes_def content_def)
qed

text \<open>
  C13. The first write to an empty file, of at most one cluster, allocates a free cluster, stores it
  in the directory entry, writes the bytes and the size: reading the file gives them back.
  No other cluster changes.
\<close>

theorem Write_then_Read:
  assumes "wf_volume v" "entry_in v a d i" "fat_get v d \<noteq> Some 0"
    and "FirstCluster (dir_entry_of (raw_entry v a)) = 0" "free_clusters v \<noteq> {}"
    and "0 < len" "len \<le> bytes_per_cluster v" "len \<le> length buf"
  shows "\<exists>v' fd' fd'' c. Write v (FileDescriptor_new a) buf len = Some (v', fd', len) \<and>
    Read v' (FileDescriptor_new a) n = Some (fd'', take n (take len buf)) \<and>
    wf_volume v' \<and> c \<in> free_clusters v \<and> chain v' [c] \<and>
    (\<forall>x. valid_cluster v x \<and> x \<noteq> c \<and> x \<noteq> d \<longrightarrow>
       fat_get v' x = fat_get v x \<and> cluster_data v' x = cluster_data v x)"
proof -
  from Write_fresh [OF assms] obtain v' fd' c where
    w: "Write v (FileDescriptor_new a) buf len = Some (v', fd', len)" "wf_volume v'" "c \<in> free_clusters v"
      "file_ok v' a [c]" "file_bytes v' a [c] = take len buf"
      "\<forall>x. valid_cluster v x \<and> x \<noteq> c \<and> x \<noteq> d \<longrightarrow>
         fat_get v' x = fat_get v x \<and> cluster_data v' x = cluster_data v x" by blast
  have "rd_ok v' (FileDescriptor_new a) [c]" by (simp add: rd_ok_def FileDescriptor_new_def)
  from Read_spec [OF w(2) _ this, of n] w(4,5) obtain fd'' where
    "Read v' (FileDescriptor_new a) n = Some (fd'', take n (take len buf))"
    by (auto simp: FileDescriptor_new_def)
  moreover have "chain v' [c]" using w(4) by (auto simp: file_ok_def)
  ultimately show ?thesis using w by blast
qed

theorem Write_then_Read_witness:
  "\<exists>v' fd' fd''. Write sample_volume (FileDescriptor_new 128) [1, 2, 3] 3 = Some (v', fd', 3) \<and>
     Read v' (FileDescriptor_new 128) 2 = Some (fd'', [1, 2])"
  using Write_then_Read [OF sample_wf sample_slots(2), of 3 "[1, 2, 3]" 2] sample_fat(1) sample_entry
    zero_entry(2) sample_free sample_bpb(7) by auto



text \<open>
  C12. A file created in the root directory under a valid 8.3 name that was not there takes the first
  free slot and is then found under this name.  Its size is 0; the slot's other fields, the first
  cluster and the attribute among them, keep what they held, and no other entry, FAT entry or
  cluster outside the directory changes.
\<close>

theorem CreateFile_then_FindFile:
  assumes "wf_volume v" "chain v rs" "hd rs = unat (root_cluster (bpb v))"
    and "valid83 nm" "hd nm \<noteq> 0" "slash \<notin> set nm" "FindFile v nm 0 = Some (None, False)"
    and "find (is_free v) (slots v rs) = Some a"
  shows "\<exists>v'. CreateFile v nm = Some (v', Inr a) \<and> wf_volume v' \<and>
    FindFile v' nm 0 = Some (Some a, False) \<and> fat_get v' = fat_get v \<and>
    dir_entry v' a = Some ((dir_entry_of (raw_entry v a))\<lparr>name := name83_of nm, file_size := 0\<rparr>) \<and>
    (\<forall>a' d i. entry_in v a' d i \<and> a' \<noteq> a \<longrightarrow> dir_entry v' a' = dir_entry v a') \<and>
    (\<forall>c. valid_cluster v c \<and> c \<notin> set rs \<longrightarrow> cluster_data v' c = cluster_data v c)"
  using CreateFile_slot [OF assms] by blast

theorem CreateFile_then_FindFile_witness:
  "\<exists>v'. CreateFile sample_volume sample_name = Some (v', Inr 128) \<and>
     FindFile v' sample_name 0 = Some (Some 128, False)"
proof -
  have ch: "is_chain (fat_get sample_volume) (valid_cluster sample_volume) [2]"
    using sample_root by (simp add: chain_def)
  have root: "hd [2] = unat (root_cluster (bpb sample_volume))" by (simp add: sample_bpb)
  have z: "hd (slot_name sample_volume 128) = 0" using sample_entry zero_entry(1) by simp
  have "FindFile sample_volume sample_name 0 = Some (None, False)"
    using FindFile_plain [OF sample_wf ch root sample_name_ok(4,3,5)] z by (simp add: sample_slots(1))
  moreover have "find (is_free sample_volume) (slots sample_volume [2]) = Some 128"
    using z by (simp add: sample_slots(1) is_free_def)
  ultimately show ?thesis
    using CreateFile_then_FindFile [OF sample_wf sample_root root sample_name_ok(1-3)] by blast
qed

end
