(* ===== verification/File_Streams.thy ===== *)
theory File_Streams
  imports Fat_Correct
begin

text \<open>
  The users of the file descriptor interface: \<open>kernel/file.hpp\<close> and \<open>kernel/file.cpp\<close>.  The virtual
  methods are arguments of the functions; the interface's contract is a locale, which the FAT
  file descriptor satisfies.
\<close>

section \<open>Operations\<close>

text \<open>
  \<open>ReadDelim\<close> returns the characters before the terminating NUL.  A length of 0 wraps to an
  unbounded one and is undefined.  \<open>k\<close> is \<open>len - 1 - i\<close>.
\<close>

fun ReadDelim_loop ::
  "('s \<Rightarrow> nat \<Rightarrow> ('s \<times> u8 list) option) \<Rightarrow> 's \<Rightarrow> u8 \<Rightarrow> nat \<Rightarrow> u8 list \<Rightarrow> ('s \<times> u8 list) option" where
  "ReadDelim_loop rd fd delim 0 buf = Some (fd, buf)"
| "ReadDelim_loop rd fd delim (Suc k) buf =
    (case rd fd 1 of
       None \<Rightarrow> None
     | Some (fd', []) \<Rightarrow> Some (fd', buf)
     | Some (fd', b # _) \<Rightarrow>
         if b = delim then Some (fd', buf @ [b]) else ReadDelim_loop rd fd' delim k (buf @ [b]))"

definition ReadDelim ::
  "('s \<Rightarrow> nat \<Rightarrow> ('s \<times> u8 list) option) \<Rightarrow> 's \<Rightarrow> u8 \<Rightarrow> nat \<Rightarrow> ('s \<times> u8 list) option" where
  "ReadDelim rd fd delim len = (if len = 0 then None else ReadDelim_loop rd fd delim (len - 1) [])"

text \<open>\<open>s\<close> is the formatted text; the buffer holds 128 characters with the terminator.\<close>

definition PrintToFD ::
  "('s \<Rightarrow> u8 list \<Rightarrow> nat \<Rightarrow> ('s \<times> nat) option) \<Rightarrow> 's \<Rightarrow> u8 list \<Rightarrow> ('s \<times> nat) option" where
  "PrintToFD wr fd s =
    (if length s < 128 then map_option (\<lambda>(fd', _). (fd', length s)) (wr fd s (length s)) else None)"

section \<open>The contract\<close>

lemma take_of_prefix: "xs = l @ ys \<Longrightarrow> xs = take k l @ drop (length (take k l)) xs"
  by (metis append_assoc append_eq_conv_conj append_take_drop_id)

locale byte_source =
  fixes rd :: "'s \<Rightarrow> nat \<Rightarrow> ('s \<times> u8 list) option"
    and inv :: "'s \<Rightarrow> bool"
    and rest :: "'s \<Rightarrow> u8 list"
  assumes read_ok: "inv s \<Longrightarrow> \<exists>s'. rd s n = Some (s', take n (rest s)) \<and> inv s' \<and> rest s' = drop n (rest s)"
begin

lemma ReadDelim_loop_spec:
  "inv s \<Longrightarrow> \<exists>s'. ReadDelim_loop rd s delim k buf = Some (s', buf @ take k (line delim (rest s))) \<and> inv s' \<and>
     rest s' = drop (length (take k (line delim (rest s)))) (rest s)"
  if line: "\<And>xs. line delim xs = takeWhile (\<lambda>b. b \<noteq> delim) xs @ (if delim \<in> set xs then [delim] else [])"
  for line :: "u8 \<Rightarrow> u8 list \<Rightarrow> u8 list"
proof (induction k arbitrary: s buf)
  case (Suc k)
  obtain s1 where s1: "rd s 1 = Some (s1, take 1 (rest s))" "inv s1" "rest s1 = drop 1 (rest s)"
    using read_ok [OF Suc.prems] by blast
  show ?case
  proof (cases "rest s")
    case Nil
    with s1 show ?thesis by (intro exI [of _ s1]) (simp add: line)
  next
    case (Cons b bs)
    show ?thesis
    proof (cases "b = delim")
      case True
      with s1 Cons show ?thesis by (intro exI [of _ s1]) (simp add: line)
    next
      case False
      from Suc.IH [OF s1(2), of "buf @ [b]"] s1 Cons False show ?thesis by (auto simp: line)
    qed
  qed
qed simp

lemma ReadDelim_spec:
  assumes "inv s" "0 < len"
  shows "\<exists>s' out. ReadDelim rd s delim len = Some (s', out) \<and> inv s' \<and> rest s = out @ rest s' \<and>
    out = take (len - 1) (takeWhile (\<lambda>b. b \<noteq> delim) (rest s) @ (if delim \<in> set (rest s) then [delim] else []))"
proof -
  let ?line = "\<lambda>d xs. takeWhile (\<lambda>b. b \<noteq> d) xs @ (if d \<in> set xs then [d] else [])"
  from ReadDelim_loop_spec [of ?line delim s "len - 1" "[]", OF refl assms(1)] obtain s' where
    s': "ReadDelim_loop rd s delim (len - 1) [] = Some (s', take (len - 1) (?line delim (rest s)))" "inv s'"
      "rest s' = drop (length (take (len - 1) (?line delim (rest s)))) (rest s)" by auto
  have "\<exists>ys. xs = ?line d xs @ ys" for d and xs :: "u8 list"
    by (induction xs) auto
  then obtain ys where ys: "rest s = ?line delim (rest s) @ ys" by blast
  then have "rest s = take (len - 1) (?line delim (rest s)) @ rest s'"
    unfolding s'(3) by (rule take_of_prefix)
  with s' assms(2) show ?thesis by (simp add: ReadDelim_def)
qed

end

interpretation fat_source: byte_source
  "\<lambda>fd len. Read v fd len"
  "\<lambda>fd. wf_volume v \<and> file_ok v (fd_entry fd) cs \<and> rd_ok v fd cs"
  "\<lambda>fd. drop (rd_off fd) (file_bytes v (fd_entry fd) cs)" for v cs
proof unfold_locales
  fix fd n
  assume a: "wf_volume v \<and> file_ok v (fd_entry fd) cs \<and> rd_ok v fd cs"
  from Read_spec [of v fd cs n] a obtain fd' where
    r: "Read v fd n = Some (fd', take n (drop (rd_off fd) (file_bytes v (fd_entry fd) cs)))" "rd_ok v fd' cs"
      "fd_entry fd' = fd_entry fd"
      "rd_off fd' = rd_off fd + min n (length (file_bytes v (fd_entry fd) cs) - rd_off fd)" by blast
  have "drop (rd_off fd') (file_bytes v (fd_entry fd') cs) = drop n (drop (rd_off fd) (file_bytes v (fd_entry fd) cs))"
    using r(3,4) by (auto simp: min_def add.commute)
  with a r show "\<exists>s'. Read v fd n = Some (s', take n (drop (rd_off fd) (file_bytes v (fd_entry fd) cs))) \<and>
      (wf_volume v \<and> file_ok v (fd_entry s') cs \<and> rd_ok v s' cs) \<and>
      drop (rd_off s') (file_bytes v (fd_entry s') cs) = drop n (drop (rd_off fd) (file_bytes v (fd_entry fd) cs))"
    by auto
qed

text \<open>
  \<open>ReadDelim\<close> on a file returns the rest of the line up to and including the delimiter, or as
  much of it as the buffer holds, and the descriptor continues right behind it: successive
  calls return the file's bytes without loss or repetition.
\<close>

lemma ReadDelim_line:
  assumes "wf_volume v" "file_ok v (fd_entry fd) cs" "rd_ok v fd cs" "0 < len"
  shows "\<exists>fd' out. ReadDelim (Read v) fd delim len = Some (fd', out) \<and> rd_ok v fd' cs \<and>
    drop (rd_off fd) (file_bytes v (fd_entry fd) cs) = out @ drop (rd_off fd') (file_bytes v (fd_entry fd') cs) \<and>
    out = take (len - 1) (takeWhile (\<lambda>b. b \<noteq> delim) (drop (rd_off fd) (file_bytes v (fd_entry fd) cs)) @
      (if delim \<in> set (drop (rd_off fd) (file_bytes v (fd_entry fd) cs)) then [delim] else []))"
  using fat_source.ReadDelim_spec [of v fd cs len delim] assms by blast

lemma ReadDelim_line_witness:
  "\<exists>fd'. ReadDelim (Read sample_volume) (FileDescriptor_new 128) 10 80 = Some (fd', [])"
proof -
  have e: "dir_entry sample_volume 128 = Some (dir_entry_of (replicate 32 0))"
    using entry_in_range(3) [OF sample_wf sample_slots(2)] sample_slots(3) by simp
  have z: "file_size (dir_entry_of (replicate 32 0)) = 0" by code_simp
  have f: "file_ok sample_volume (fd_entry (FileDescriptor_new 128)) []"
    using e z zero_entry(2) by (simp add: file_ok_def FileDescriptor_new_def del: replicate.simps)
  have "rd_ok sample_volume (FileDescriptor_new 128) []"
    by (simp add: rd_ok_def FileDescriptor_new_def)
  from ReadDelim_line [OF sample_wf f this, of 80 10] show ?thesis
    by (auto simp: file_bytes_def content_def)
qed

end
