(* ===== verification/Bit_Layouts.thy ===== *)
theory Bit_Layouts
  imports Kernel_Prelude
begin

text \<open>
  Packed C++ structures of bit fields, as the USB driver uses them for the structures it
  shares with the host controller.  A layout lists the members with their widths in the
  order of the declaration (the empty name is an unnamed bit field); on this target the first
  member starts at bit 0 and every other one where its predecessor ends.  A value of the
  structure is a word that holds all of its bytes, the lowest address in the lowest bits.
\<close>

type_synonym layout = "(string \<times> nat) list"

fun field_from :: "nat \<Rightarrow> layout \<Rightarrow> string \<Rightarrow> (nat \<times> nat) option" where
  "field_from off [] s = None"
| "field_from off ((n, w) # L) s = (if n = s then Some (off, w) else field_from (off + w) L s)"

definition field_at :: "layout \<Rightarrow> string \<Rightarrow> (nat \<times> nat) option" where
  "field_at L s = field_from 0 L s"

definition layout_size :: "layout \<Rightarrow> nat" where
  "layout_size L = sum_list (map snd L)"

definition get_field :: "layout \<Rightarrow> string \<Rightarrow> 'a::len word \<Rightarrow> 'a word" where
  "get_field L s x = (case field_at L s of None \<Rightarrow> 0 | Some (off, w) \<Rightarrow> get_bits off w x)"

definition set_field :: "layout \<Rightarrow> string \<Rightarrow> 'a::len word \<Rightarrow> 'a word \<Rightarrow> 'a word" where
  "set_field L s v x = (case field_at L s of None \<Rightarrow> x | Some (off, w) \<Rightarrow> put_bits off w v x)"

section \<open>Reading and writing members\<close>

lemma field_from_range:
  "field_from off L s = Some (a, w) \<Longrightarrow> off \<le> a \<and> a + w \<le> off + layout_size L"
  by (induction off L s rule: field_from.induct) (auto simp: layout_size_def split: if_splits)

lemma field_at_range: "field_at L s = Some (a, w) \<Longrightarrow> a + w \<le> layout_size L"
  using field_from_range [of 0 L s a w] by (simp add: field_at_def)

lemma field_from_disjoint:
  "field_from off L s = Some (a, w) \<Longrightarrow> field_from off L t = Some (b, v) \<Longrightarrow> s \<noteq> t \<Longrightarrow> a + w \<le> b \<or> b + v \<le> a"
proof (induction off L s rule: field_from.induct)
  case (2 off n w L s)
  then show ?case using field_from_range [of "off + w" L] by (fastforce split: if_splits)
qed simp

lemma field_at_disjoint:
  "field_at L s = Some (a, w) \<Longrightarrow> field_at L t = Some (b, v) \<Longrightarrow> s \<noteq> t \<Longrightarrow> a + w \<le> b \<or> b + v \<le> a"
  unfolding field_at_def by (rule field_from_disjoint)

lemma get_set_same:
  assumes "field_at L s = Some (a, w)" "layout_size L \<le> LENGTH('a)"
  shows "get_field L s (set_field L s v (x :: 'a::len word)) = take_bit w v"
  using assms field_at_range [OF assms(1)] by (simp add: get_field_def set_field_def)

lemma get_set_other:
  assumes "s \<noteq> t" "layout_size L \<le> LENGTH('a)"
  shows "get_field L s (set_field L t v (x :: 'a::len word)) = get_field L s x"
proof (cases "field_at L s")
  case (Some aw)
  obtain a w where aw: "aw = (a, w)" by (cases aw)
  show ?thesis
  proof (cases "field_at L t")
    case (Some bv)
    obtain b v' where bv: "bv = (b, v')" by (cases bv)
    show ?thesis
      using \<open>field_at L s = Some aw\<close> Some aw bv field_at_disjoint [of L s a w t b v'] assms
        field_at_range [of L s a w] field_at_range [of L t b v']
      by (simp add: get_field_def set_field_def)
  qed (simp add: set_field_def)
qed (simp add: get_field_def)

end
