(* ===== verification/Pci.thy ===== *)
theory Pci
  imports Bit_Layouts "HOL-Library.Monad_Syntax"
begin

text \<open>
  The PCI driver: \<open>kernel/pci.hpp\<close> and \<open>pci.cpp\<close>.  The configuration space is reached through
  two I/O ports.  What a device returns for a register is a parameter \<open>hw\<close>: a function of the
  registers written before and of the address.  A write is kept in the order of the writes.
  CONFIG_ADDRESS is written before every access, so reading does not return a new state.

  The scan of a bus calls itself for the bus behind a bridge.  Its fuel is the depth of these
  calls; as every call enters a device into a table of 32, a depth of 33 is enough, whatever the
  devices answer.
\<close>

section \<open>Ports and registers\<close>

type_synonym ConfigSpace = "(u32 \<times> u32) list \<Rightarrow> u32 \<Rightarrow> u32"

record PciPorts =
  config_address :: u32
  config_writes :: "(u32 \<times> u32) list"

record ClassCode =
  cc_base :: u8
  cc_sub :: u8
  cc_interface :: u8

definition Match1 :: "ClassCode \<Rightarrow> u8 \<Rightarrow> bool" where
  "Match1 cc b \<longleftrightarrow> b = cc_base cc"

definition Match2 :: "ClassCode \<Rightarrow> u8 \<Rightarrow> u8 \<Rightarrow> bool" where
  "Match2 cc b s \<longleftrightarrow> Match1 cc b \<and> s = cc_sub cc"

definition Match3 :: "ClassCode \<Rightarrow> u8 \<Rightarrow> u8 \<Rightarrow> u8 \<Rightarrow> bool" where
  "Match3 cc b s i \<longleftrightarrow> Match2 cc b s \<and> i = cc_interface cc"

record PciDevice =
  pci_bus :: u8
  pci_device :: u8
  pci_function :: u8
  header_type :: u8
  class_code :: ClassCode

definition WriteAddress :: "u32 \<Rightarrow> PciPorts \<Rightarrow> PciPorts" where
  "WriteAddress address p = p\<lparr>config_address := address\<rparr>"

definition WriteData :: "u32 \<Rightarrow> PciPorts \<Rightarrow> PciPorts" where
  "WriteData v p = p\<lparr>config_writes := config_writes p @ [(config_address p, v)]\<rparr>"

definition ReadData :: "ConfigSpace \<Rightarrow> PciPorts \<Rightarrow> u32" where
  "ReadData hw p = hw (config_writes p) (config_address p)"

definition MakeAddress :: "u8 \<Rightarrow> u8 \<Rightarrow> u8 \<Rightarrow> u8 \<Rightarrow> u32" where
  "MakeAddress bus device function reg_addr =
    push_bit 31 1 OR push_bit 16 (ucast bus) OR push_bit 11 (ucast device)
      OR push_bit 8 (ucast function) OR (ucast reg_addr AND 0xfc)"

definition ReadVendorId :: "ConfigSpace \<Rightarrow> u8 \<Rightarrow> u8 \<Rightarrow> u8 \<Rightarrow> PciPorts \<Rightarrow> u16" where
  "ReadVendorId hw bus device function p =
    ucast (ReadData hw (WriteAddress (MakeAddress bus device function 0) p) AND 0xffff)"

definition ReadVendorId_of :: "ConfigSpace \<Rightarrow> PciDevice \<Rightarrow> PciPorts \<Rightarrow> u16" where
  "ReadVendorId_of hw dev p = ReadVendorId hw (pci_bus dev) (pci_device dev) (pci_function dev) p"

definition ReadDeviceId :: "ConfigSpace \<Rightarrow> u8 \<Rightarrow> u8 \<Rightarrow> u8 \<Rightarrow> PciPorts \<Rightarrow> u16" where
  "ReadDeviceId hw bus device function p =
    ucast (drop_bit 16 (ReadData hw (WriteAddress (MakeAddress bus device function 0) p)))"

definition ReadHeaderType :: "ConfigSpace \<Rightarrow> u8 \<Rightarrow> u8 \<Rightarrow> u8 \<Rightarrow> PciPorts \<Rightarrow> u8" where
  "ReadHeaderType hw bus device function p =
    ucast (drop_bit 16 (ReadData hw (WriteAddress (MakeAddress bus device function 0x0c) p)) AND 0xff)"

definition ReadClassCode :: "ConfigSpace \<Rightarrow> u8 \<Rightarrow> u8 \<Rightarrow> u8 \<Rightarrow> PciPorts \<Rightarrow> ClassCode" where
  "ReadClassCode hw bus device function p =
    (let reg = ReadData hw (WriteAddress (MakeAddress bus device function 0x08) p)
     in \<lparr>cc_base = ucast (drop_bit 24 reg AND 0xff), cc_sub = ucast (drop_bit 16 reg AND 0xff),
         cc_interface = ucast (drop_bit 8 reg AND 0xff)\<rparr>)"

definition ReadBusNumbers :: "ConfigSpace \<Rightarrow> u8 \<Rightarrow> u8 \<Rightarrow> u8 \<Rightarrow> PciPorts \<Rightarrow> u32" where
  "ReadBusNumbers hw bus device function p =
    ReadData hw (WriteAddress (MakeAddress bus device function 0x18) p)"

definition IsSingleFunctionDevice :: "u8 \<Rightarrow> bool" where
  "IsSingleFunctionDevice ht \<longleftrightarrow> ht AND 0x80 = 0"

definition ReadConfReg :: "ConfigSpace \<Rightarrow> PciDevice \<Rightarrow> u8 \<Rightarrow> PciPorts \<Rightarrow> u32" where
  "ReadConfReg hw dev reg_addr p =
    ReadData hw (WriteAddress (MakeAddress (pci_bus dev) (pci_device dev) (pci_function dev) reg_addr) p)"

definition WriteConfReg :: "PciDevice \<Rightarrow> u8 \<Rightarrow> u32 \<Rightarrow> PciPorts \<Rightarrow> PciPorts" where
  "WriteConfReg dev reg_addr v p =
    WriteData v (WriteAddress (MakeAddress (pci_bus dev) (pci_device dev) (pci_function dev) reg_addr) p)"

section \<open>Scanning the buses\<close>

definition kMaxPciDevices :: nat where "kMaxPciDevices = 32"

text \<open>The first \<open>num_device\<close> elements of the table \<open>devices\<close>, the others are never read.\<close>

type_synonym bus_scan = "PciDevice list \<Rightarrow> (PciDevice list \<times> ErrorCode) option"

definition AddDevice :: "PciDevice \<Rightarrow> PciDevice list \<Rightarrow> PciDevice list \<times> ErrorCode" where
  "AddDevice dev devs = (if length devs = kMaxPciDevices then (devs, kFull) else (devs @ [dev], kSuccess))"

text \<open>A loop that returns the first error of its body.\<close>

fun for_each :: "('i \<Rightarrow> bus_scan) \<Rightarrow> 'i list \<Rightarrow> bus_scan" where
  "for_each body [] devs = Some (devs, kSuccess)"
| "for_each body (i # is) devs =
    do { (devs1, err) \<leftarrow> body i devs; if err \<noteq> kSuccess then Some (devs1, err) else for_each body is devs1 }"

definition read_device :: "ConfigSpace \<Rightarrow> PciPorts \<Rightarrow> u8 \<Rightarrow> u8 \<Rightarrow> u8 \<Rightarrow> PciDevice" where
  "read_device hw p bus device function =
    \<lparr>pci_bus = bus, pci_device = device, pci_function = function,
     header_type = ReadHeaderType hw bus device function p,
     class_code = ReadClassCode hw bus device function p\<rparr>"

definition secondary_bus :: "ConfigSpace \<Rightarrow> PciPorts \<Rightarrow> u8 \<Rightarrow> u8 \<Rightarrow> u8 \<Rightarrow> u8" where
  "secondary_bus hw p bus device function = ucast (drop_bit 8 (ReadBusNumbers hw bus device function p) AND 0xff)"

definition ScanFunction :: "(u8 \<Rightarrow> bus_scan) \<Rightarrow> ConfigSpace \<Rightarrow> PciPorts \<Rightarrow> u8 \<Rightarrow> u8 \<Rightarrow> u8 \<Rightarrow> bus_scan" where
  "ScanFunction scan_bus hw p bus device function devs =
    (let dev = read_device hw p bus device function;
         (devs1, err) = AddDevice dev devs
     in if err \<noteq> kSuccess then Some (devs1, err)
        else if Match2 (class_code dev) 0x06 0x04 then scan_bus (secondary_bus hw p bus device function) devs1
        else Some (devs1, kSuccess))"

definition ScanDevice :: "(u8 \<Rightarrow> bus_scan) \<Rightarrow> ConfigSpace \<Rightarrow> PciPorts \<Rightarrow> u8 \<Rightarrow> u8 \<Rightarrow> bus_scan" where
  "ScanDevice scan_bus hw p bus device devs =
    do { (devs1, err) \<leftarrow> ScanFunction scan_bus hw p bus device 0 devs;
         if err \<noteq> kSuccess then Some (devs1, err)
         else if IsSingleFunctionDevice (ReadHeaderType hw bus device 0 p) then Some (devs1, kSuccess)
         else for_each (\<lambda>function devs. if ReadVendorId hw bus device (of_nat function) p = 0xffff
                          then Some (devs, kSuccess)
                          else ScanFunction scan_bus hw p bus device (of_nat function) devs) [1..<8] devs1 }"

fun ScanBus :: "nat \<Rightarrow> ConfigSpace \<Rightarrow> PciPorts \<Rightarrow> u8 \<Rightarrow> bus_scan" where
  "ScanBus 0 hw p bus devs = None"
| "ScanBus (Suc n) hw p bus devs =
    for_each (\<lambda>device devs. if ReadVendorId hw bus (of_nat device) 0 p = 0xffff then Some (devs, kSuccess)
                else ScanDevice (ScanBus n hw p) hw p bus (of_nat device) devs) [0..<32] devs"

definition ScanAllBus :: "nat \<Rightarrow> ConfigSpace \<Rightarrow> PciPorts \<Rightarrow> (PciDevice list \<times> ErrorCode) option" where
  "ScanAllBus n hw p =
    (if IsSingleFunctionDevice (ReadHeaderType hw 0 0 0 p) then ScanBus n hw p 0 []
     else for_each (\<lambda>function devs. if ReadVendorId hw 0 0 (of_nat function) p = 0xffff then Some (devs, kSuccess)
                      else ScanBus n hw p (of_nat function) devs) [0..<8] [])"

text \<open>The kernel ends (\<open>None\<close> inside) when the scan fails.\<close>

definition InitializePCI :: "nat \<Rightarrow> ConfigSpace \<Rightarrow> PciPorts \<Rightarrow> PciDevice list option option" where
  "InitializePCI n hw p =
    do { (devs, err) \<leftarrow> ScanAllBus n hw p; Some (if err \<noteq> kSuccess then None else Some devs) }"

section \<open>Base addresses\<close>

definition CalcBarAddress :: "nat \<Rightarrow> u8" where
  "CalcBarAddress bar_index = of_nat (0x10 + 4 * bar_index)"

definition ReadBar :: "ConfigSpace \<Rightarrow> PciDevice \<Rightarrow> nat \<Rightarrow> PciPorts \<Rightarrow> u64 \<times> ErrorCode" where
  "ReadBar hw dev bar_index p =
    (if bar_index \<ge> 6 then (0, kIndexOutOfRange)
     else
       let addr = CalcBarAddress bar_index; bar = ReadConfReg hw dev addr p in
       if bar AND 4 = 0 then (ucast bar, kSuccess)
       else if bar_index \<ge> 5 then (0, kIndexOutOfRange)
       else
         let bar_upper = ReadConfReg hw dev (addr + 4) p
         in (ucast bar OR push_bit 32 (ucast bar_upper), kSuccess))"

section \<open>Message signalled interrupts\<close>

definition CapabilityHeader_bits :: layout where
  "CapabilityHeader_bits = [(''cap_id'', 8), (''next_ptr'', 8), (''cap'', 16)]"

definition kCapabilityMSI :: u32 where "kCapabilityMSI = 0x05"
definition kCapabilityMSIX :: u32 where "kCapabilityMSIX = 0x11"

definition ReadCapabilityHeader :: "ConfigSpace \<Rightarrow> PciDevice \<Rightarrow> u8 \<Rightarrow> PciPorts \<Rightarrow> u32" where
  "ReadCapabilityHeader hw dev addr p = ReadConfReg hw dev addr p"

definition MSI_header_bits :: layout where
  "MSI_header_bits =
    [(''cap_id'', 8), (''next_ptr'', 8), (''msi_enable'', 1), (''multi_msg_capable'', 3),
     (''multi_msg_enable'', 3), (''addr_64_capable'', 1), (''per_vector_mask_capable'', 1), ('''', 7)]"

record MSICapability =
  msi_header :: u32
  msg_addr :: u32
  msg_upper_addr :: u32
  msg_data :: u32
  mask_bits :: u32
  pending_bits :: u32

definition msg_data_addr :: "u32 \<Rightarrow> u8 \<Rightarrow> u8" where
  "msg_data_addr header cap_addr =
    (if get_field MSI_header_bits ''addr_64_capable'' header \<noteq> 0 then cap_addr + 12 else cap_addr + 8)"

definition ReadMSICapability :: "ConfigSpace \<Rightarrow> PciDevice \<Rightarrow> u8 \<Rightarrow> PciPorts \<Rightarrow> MSICapability" where
  "ReadMSICapability hw dev cap_addr p =
    (let header = ReadConfReg hw dev cap_addr p;
         data_addr = msg_data_addr header cap_addr;
         masks = get_field MSI_header_bits ''per_vector_mask_capable'' header \<noteq> 0
     in \<lparr>msi_header = header,
         msg_addr = ReadConfReg hw dev (cap_addr + 4) p,
         msg_upper_addr = (if get_field MSI_header_bits ''addr_64_capable'' header \<noteq> 0
                           then ReadConfReg hw dev (cap_addr + 8) p else 0),
         msg_data = ReadConfReg hw dev data_addr p,
         mask_bits = (if masks then ReadConfReg hw dev (data_addr + 4) p else 0),
         pending_bits = (if masks then ReadConfReg hw dev (data_addr + 8) p else 0)\<rparr>)"

definition WriteMSICapability :: "PciDevice \<Rightarrow> u8 \<Rightarrow> MSICapability \<Rightarrow> PciPorts \<Rightarrow> PciPorts" where
  "WriteMSICapability dev cap_addr cap p =
    (let header = msi_header cap;
         data_addr = msg_data_addr header cap_addr;
         p1 = WriteConfReg dev (cap_addr + 4) (msg_addr cap) (WriteConfReg dev cap_addr header p);
         p2 = (if get_field MSI_header_bits ''addr_64_capable'' header \<noteq> 0
               then WriteConfReg dev (cap_addr + 8) (msg_upper_addr cap) p1 else p1);
         p3 = WriteConfReg dev data_addr (msg_data cap) p2
     in if get_field MSI_header_bits ''per_vector_mask_capable'' header \<noteq> 0
        then WriteConfReg dev (data_addr + 8) (pending_bits cap)
               (WriteConfReg dev (data_addr + 4) (mask_bits cap) p3)
        else p3)"

definition ConfigureMSIRegister ::
  "ConfigSpace \<Rightarrow> PciDevice \<Rightarrow> u8 \<Rightarrow> u32 \<Rightarrow> u32 \<Rightarrow> u32 \<Rightarrow> PciPorts \<Rightarrow> PciPorts \<times> ErrorCode" where
  "ConfigureMSIRegister hw dev cap_addr addr data num_vector_exponent p =
    (let cap = ReadMSICapability hw dev cap_addr p;
         h = msi_header cap;
         capable = get_field MSI_header_bits ''multi_msg_capable'' h;
         h1 = set_field MSI_header_bits ''multi_msg_enable''
                (if capable \<le> num_vector_exponent then capable else num_vector_exponent) h;
         h2 = set_field MSI_header_bits ''msi_enable'' 1 h1
     in (WriteMSICapability dev cap_addr (cap\<lparr>msi_header := h2, msg_addr := addr, msg_data := data\<rparr>) p, kSuccess))"

definition ConfigureMSIXRegister ::
  "ConfigSpace \<Rightarrow> PciDevice \<Rightarrow> u8 \<Rightarrow> u32 \<Rightarrow> u32 \<Rightarrow> u32 \<Rightarrow> PciPorts \<Rightarrow> PciPorts \<times> ErrorCode" where
  "ConfigureMSIXRegister hw dev cap_addr addr data num_vector_exponent p = (p, kNotImplemented)"

text \<open>The walk along the list of capabilities; a list that runs in a circle is never left.\<close>

partial_function (option) find_capabilities ::
  "(u8 \<Rightarrow> u32) \<Rightarrow> u8 \<Rightarrow> u8 \<Rightarrow> u8 \<Rightarrow> (u8 \<times> u8) option" where
  "find_capabilities header_at cap_addr msi msix =
    (if cap_addr = 0 then Some (msi, msix)
     else
       let header = header_at cap_addr;
           cap_id = get_field CapabilityHeader_bits ''cap_id'' header
       in find_capabilities header_at (ucast (get_field CapabilityHeader_bits ''next_ptr'' header))
            (if cap_id = kCapabilityMSI then cap_addr else msi)
            (if cap_id = kCapabilityMSI then msix
             else if cap_id = kCapabilityMSIX then cap_addr else msix))"

definition ConfigureMSI ::
  "ConfigSpace \<Rightarrow> PciDevice \<Rightarrow> u32 \<Rightarrow> u32 \<Rightarrow> u32 \<Rightarrow> PciPorts \<Rightarrow> (PciPorts \<times> ErrorCode) option" where
  "ConfigureMSI hw dev addr data num_vector_exponent p =
    do { (msi_cap_addr, msix_cap_addr) \<leftarrow>
           find_capabilities (\<lambda>a. ReadCapabilityHeader hw dev a p) (ucast (ReadConfReg hw dev 0x34 p AND 0xff)) 0 0;
         Some (if msi_cap_addr \<noteq> 0 then ConfigureMSIRegister hw dev msi_cap_addr addr data num_vector_exponent p
               else if msix_cap_addr \<noteq> 0
               then ConfigureMSIXRegister hw dev msix_cap_addr addr data num_vector_exponent p
               else (p, kNoPCIMSI)) }"

datatype MSITriggerMode = kEdge | kLevel

datatype MSIDeliveryMode = kFixed | kLowestPriority | kSMI | kNMI | kINIT | kExtINT

fun delivery_number :: "MSIDeliveryMode \<Rightarrow> u32" where
  "delivery_number kFixed = 0"
| "delivery_number kLowestPriority = 1"
| "delivery_number kSMI = 2"
| "delivery_number kNMI = 4"
| "delivery_number kINIT = 5"
| "delivery_number kExtINT = 7"

definition ConfigureMSIFixedDestination ::
  "ConfigSpace \<Rightarrow> PciDevice \<Rightarrow> u8 \<Rightarrow> MSITriggerMode \<Rightarrow> MSIDeliveryMode \<Rightarrow> u8 \<Rightarrow> u32 \<Rightarrow> PciPorts
     \<Rightarrow> (PciPorts \<times> ErrorCode) option" where
  "ConfigureMSIFixedDestination hw dev apic_id trigger_mode delivery_mode vector num_vector_exponent p =
    (let addr = 0xfee00000 OR push_bit 12 (ucast apic_id);
         data = push_bit 8 (delivery_number delivery_mode) OR ucast vector;
         data1 = (if trigger_mode = kLevel then data OR 0xc000 else data)
     in ConfigureMSI hw dev addr data1 num_vector_exponent p)"

section \<open>The scan finds the functions depth first\<close>

text \<open>The functions below a bus in the order of the scan, bridges followed down to a depth.\<close>

definition functions_from ::
  "(u8 \<Rightarrow> PciDevice list) \<Rightarrow> ConfigSpace \<Rightarrow> PciPorts \<Rightarrow> u8 \<Rightarrow> u8 \<Rightarrow> u8 \<Rightarrow> PciDevice list" where
  "functions_from below hw p bus device function =
    read_device hw p bus device function #
      (if Match2 (ReadClassCode hw bus device function p) 0x06 0x04
       then below (secondary_bus hw p bus device function) else [])"

definition device_functions :: "ConfigSpace \<Rightarrow> PciPorts \<Rightarrow> u8 \<Rightarrow> u8 \<Rightarrow> u8 list" where
  "device_functions hw p bus device =
    0 # (if IsSingleFunctionDevice (ReadHeaderType hw bus device 0 p) then []
         else filter (\<lambda>function. ReadVendorId hw bus device function p \<noteq> 0xffff) (map of_nat [1..<8]))"

definition bus_devices :: "ConfigSpace \<Rightarrow> PciPorts \<Rightarrow> u8 \<Rightarrow> u8 list" where
  "bus_devices hw p bus = filter (\<lambda>device. ReadVendorId hw bus device 0 p \<noteq> 0xffff) (map of_nat [0..<32])"

fun bus_listing :: "nat \<Rightarrow> ConfigSpace \<Rightarrow> PciPorts \<Rightarrow> u8 \<Rightarrow> PciDevice list" where
  "bus_listing 0 hw p bus = []"
| "bus_listing (Suc n) hw p bus =
    concat (map (\<lambda>device. concat (map (functions_from (bus_listing n hw p) hw p bus device)
                                     (device_functions hw p bus device))) (bus_devices hw p bus))"

definition all_functions :: "nat \<Rightarrow> ConfigSpace \<Rightarrow> PciPorts \<Rightarrow> PciDevice list" where
  "all_functions n hw p =
    (if IsSingleFunctionDevice (ReadHeaderType hw 0 0 0 p) then bus_listing n hw p 0
     else concat (map (bus_listing n hw p)
            (filter (\<lambda>bus. ReadVendorId hw 0 0 bus p \<noteq> 0xffff) (map of_nat [0..<8]))))"

text \<open>What entering a list of functions into the table does.\<close>

definition entered :: "PciDevice list \<Rightarrow> PciDevice list \<Rightarrow> PciDevice list \<times> ErrorCode" where
  "entered L devs =
    (take kMaxPciDevices (devs @ L), if length (devs @ L) > kMaxPciDevices then kFull else kSuccess)"

definition enters :: "nat \<Rightarrow> bus_scan \<Rightarrow> PciDevice list \<Rightarrow> bool" where
  "enters k step L \<longleftrightarrow> (\<forall>devs. k \<le> length devs \<and> length devs \<le> kMaxPciDevices \<longrightarrow> step devs = Some (entered L devs))"

lemma enters_nothing: "enters k (\<lambda>devs. Some (devs, kSuccess)) []"
  by (simp add: enters_def entered_def)

lemma enters_seq:
  assumes "enters k step L" "enters k next M"
  shows "enters k (\<lambda>devs. do { (devs1, err) \<leftarrow> step devs; if err \<noteq> kSuccess then Some (devs1, err) else next devs1 }) (L @ M)"
  using assms by (auto simp: enters_def entered_def)

lemma for_each_enters:
  "(\<And>i. i \<in> set is \<Longrightarrow> enters k (body i) (L i)) \<Longrightarrow> enters k (for_each body is) (concat (map L is))"
proof (induction "is")
  case Nil
  then show ?case by (simp add: enters_def entered_def)
next
  case (Cons i "is")
  have "for_each body (i # is) =
      (\<lambda>devs. do { (devs1, err) \<leftarrow> body i devs; if err \<noteq> kSuccess then Some (devs1, err) else for_each body is devs1 })"
    by (rule ext) simp
  then show ?case using enters_seq [of k "body i" "L i" "for_each body is"] Cons by simp
qed

lemma concat_map_present:
  "concat (map (\<lambda>i. if P (f i) then [] else L (f i)) xs) = concat (map L (filter (\<lambda>x. \<not> P x) (map f xs)))"
  by (induction xs) auto

lemma for_present_enters:
  assumes "\<And>i. enters k (step (f i)) (L (f i))"
  shows "enters k (for_each (\<lambda>i devs. if P (f i) then Some (devs, kSuccess) else step (f i) devs) is)
           (concat (map L (filter (\<lambda>x. \<not> P x) (map f is))))"
  unfolding concat_map_present [symmetric]
proof (rule for_each_enters)
  fix i
  show "enters k (\<lambda>devs. if P (f i) then Some (devs, kSuccess) else step (f i) devs) (if P (f i) then [] else L (f i))"
    using assms enters_nothing by (cases "P (f i)") simp_all
qed

lemma ScanFunction_enters:
  assumes "\<And>bus. enters (Suc k) (rec bus) (below bus)"
  shows "enters k (ScanFunction rec hw p bus device function) (functions_from below hw p bus device function)"
proof -
  let ?dev = "read_device hw p bus device function"
  have cls: "class_code ?dev = ReadClassCode hw bus device function p" by (simp add: read_device_def)
  have "ScanFunction rec hw p bus device function devs = Some (entered (functions_from below hw p bus device function) devs)"
    if devs: "k \<le> length devs" "length devs \<le> kMaxPciDevices" for devs
  proof (cases "length devs = kMaxPciDevices")
    case True
    then show ?thesis by (simp add: ScanFunction_def AddDevice_def entered_def functions_from_def)
  next
    case False
    then have add: "AddDevice ?dev devs = (devs @ [?dev], kSuccess)" "Suc k \<le> length (devs @ [?dev])"
      "length (devs @ [?dev]) \<le> kMaxPciDevices"
      using devs by (simp_all add: AddDevice_def)
    show ?thesis
    proof (cases "Match2 (class_code ?dev) 0x06 0x04")
      case True
      have "rec (secondary_bus hw p bus device function) (devs @ [?dev])
          = Some (entered (below (secondary_bus hw p bus device function)) (devs @ [?dev]))"
        using assms add(2, 3) unfolding enters_def by blast
      then show ?thesis using True add(1) by (simp add: ScanFunction_def functions_from_def entered_def cls)
    next
      case notbridge: False
      then show ?thesis using add by (simp add: ScanFunction_def functions_from_def entered_def cls)
    qed
  qed
  then show ?thesis by (simp add: enters_def)
qed

lemma ScanDevice_enters:
  assumes "\<And>bus. enters (Suc k) (rec bus) (below bus)"
  shows "enters k (ScanDevice rec hw p bus device)
           (concat (map (functions_from below hw p bus device) (device_functions hw p bus device)))"
proof -
  note fn = ScanFunction_enters [of k rec below hw p bus device, OF assms]
  show ?thesis
  proof (cases "IsSingleFunctionDevice (ReadHeaderType hw bus device 0 p)")
    case True
    have "ScanDevice rec hw p bus device = (\<lambda>devs. do { (devs1, err) \<leftarrow> ScanFunction rec hw p bus device 0 devs;
        if err \<noteq> kSuccess then Some (devs1, err) else Some (devs1, kSuccess) })"
      by (rule ext) (simp add: ScanDevice_def True cong: if_cong)
    then show ?thesis
      using enters_seq [OF fn [of 0] enters_nothing] True by (simp add: device_functions_def)
  next
    case False
    let ?loop = "for_each (\<lambda>function devs. if ReadVendorId hw bus device (of_nat function) p = 0xffff
        then Some (devs, kSuccess) else ScanFunction rec hw p bus device (of_nat function) devs) [1..<8]"
    have "ScanDevice rec hw p bus device = (\<lambda>devs. do { (devs1, err) \<leftarrow> ScanFunction rec hw p bus device 0 devs;
        if err \<noteq> kSuccess then Some (devs1, err) else ?loop devs1 })"
      by (rule ext) (simp add: ScanDevice_def False cong: if_cong)
    moreover have "enters k ?loop (concat (map (functions_from below hw p bus device)
        (filter (\<lambda>function. ReadVendorId hw bus device function p \<noteq> 0xffff) (map of_nat [1..<8]))))"
      by (rule for_present_enters [where f = of_nat and step = "ScanFunction rec hw p bus device"
            and P = "\<lambda>function. ReadVendorId hw bus device function p = 0xffff"]) (rule fn)
    ultimately show ?thesis
      using enters_seq [OF fn [of 0]] False by (simp add: device_functions_def del: upt_Suc upt_rec_numeral)
  qed
qed

lemma ScanBus_enters:
  "kMaxPciDevices < n + k \<Longrightarrow> n \<le> m \<Longrightarrow> enters k (ScanBus n hw p bus) (bus_listing m hw p bus)"
proof (induction n arbitrary: k m bus)
  case 0
  then show ?case by (simp add: enters_def)
next
  case (Suc n)
  then obtain m' where m: "m = Suc m'" "n \<le> m'" by (cases m) auto
  have "enters (Suc k) (ScanBus n hw p b) (bus_listing m' hw p b)" for b
    using Suc.IH [of "Suc k" m' b] Suc.prems m by simp
  then have dev: "enters k (ScanDevice (ScanBus n hw p) hw p bus d)
      (concat (map (functions_from (bus_listing m' hw p) hw p bus d) (device_functions hw p bus d)))" for d
    by (rule ScanDevice_enters)
  have "enters k (ScanBus (Suc n) hw p bus) (concat (map (\<lambda>device. concat (map
      (functions_from (bus_listing m' hw p) hw p bus device) (device_functions hw p bus device)))
      (filter (\<lambda>device. ReadVendorId hw bus device 0 p \<noteq> 0xffff) (map of_nat [0..<32]))))"
    unfolding ScanBus.simps
    by (rule for_present_enters [where f = of_nat and step = "ScanDevice (ScanBus n hw p) hw p bus"
          and P = "\<lambda>device. ReadVendorId hw bus device 0 p = 0xffff"]) (rule dev)
  then show ?case unfolding m bus_listing.simps bus_devices_def .
qed

lemma ScanAllBus_enters:
  assumes "kMaxPciDevices < n" "n \<le> m"
  shows "ScanAllBus n hw p = Some (entered (all_functions m hw p) [])"
proof -
  have bus: "enters 0 (ScanBus n hw p bus) (bus_listing m hw p bus)" for bus
    using ScanBus_enters assms by simp
  have all: "enters 0 (for_each (\<lambda>function devs. if ReadVendorId hw 0 0 (of_nat function) p = 0xffff
      then Some (devs, kSuccess) else ScanBus n hw p (of_nat function) devs) [0..<8])
    (concat (map (bus_listing m hw p) (filter (\<lambda>bus. ReadVendorId hw 0 0 bus p \<noteq> 0xffff) (map of_nat [0..<8]))))"
    by (rule for_present_enters [where f = of_nat and step = "ScanBus n hw p"
          and P = "\<lambda>bus. ReadVendorId hw 0 0 bus p = 0xffff"]) (rule bus)
  show ?thesis
    using bus [of 0] all unfolding enters_def ScanAllBus_def all_functions_def by simp
qed

text \<open>
  C29. Scanning all buses always ends, with the table that a plain listing of the functions gives:
  depth first from bus 0 (or from the host bridges), the function behind every device number that
  answers, then, behind a bridge, those of its secondary bus.  The table is the listing itself, or
  its first 32 elements, and \<open>kFull\<close> is reported exactly if there are more.  A depth of 33 calls is
  enough, and no greater depth changes the result, even where bridges lead in a circle.
\<close>

theorem ScanAllBus_depth_first:
  assumes "32 < n" "n \<le> m"
  shows "ScanAllBus n hw p =
    Some (take 32 (all_functions m hw p), if length (all_functions m hw p) > 32 then kFull else kSuccess)"
  using ScanAllBus_enters [of n m hw p] assms by (simp add: entered_def kMaxPciDevices_def)

text \<open>A host bridge without functions beside it, and on its bus one multi-function device.\<close>

definition demo_pci_config :: ConfigSpace where
  "demo_pci_config writes a =
    (case map_of [(0x80000000, 0x12378086), (0x80000800, 0x70008086), (0x80000a00, 0x70008086),
       (0x8000080c, 0x00800000), (0x80000834, 0x40), (0x80000840, 0x5011), (0x80000850, 0x00860005)] a of
       Some v \<Rightarrow> v
     | None \<Rightarrow> if take_bit 8 a = 0 then 0xffffffff else 0)"

lemma ScanAllBus_depth_first_witness:
  "ScanAllBus 33 demo_pci_config \<lparr>config_address = 0, config_writes = []\<rparr>
   = Some ([read_device demo_pci_config \<lparr>config_address = 0, config_writes = []\<rparr> 0 0 0,
            read_device demo_pci_config \<lparr>config_address = 0, config_writes = []\<rparr> 0 1 0,
            read_device demo_pci_config \<lparr>config_address = 0, config_writes = []\<rparr> 0 1 2], kSuccess)"
proof -
  have "all_functions 33 demo_pci_config \<lparr>config_address = 0, config_writes = []\<rparr>
      = [read_device demo_pci_config \<lparr>config_address = 0, config_writes = []\<rparr> 0 0 0,
         read_device demo_pci_config \<lparr>config_address = 0, config_writes = []\<rparr> 0 1 0,
         read_device demo_pci_config \<lparr>config_address = 0, config_writes = []\<rparr> 0 1 2]"
    by code_simp
  then show ?thesis
    using ScanAllBus_depth_first [of 33 33 demo_pci_config "\<lparr>config_address = 0, config_writes = []\<rparr>"] by simp
qed

section \<open>The capability list\<close>

definition cap_id_at :: "(u8 \<Rightarrow> u32) \<Rightarrow> u8 \<Rightarrow> u32" where
  "cap_id_at h a = get_field CapabilityHeader_bits ''cap_id'' (h a)"

definition next_cap :: "(u8 \<Rightarrow> u32) \<Rightarrow> u8 \<Rightarrow> u8" where
  "next_cap h a = ucast (get_field CapabilityHeader_bits ''next_ptr'' (h a))"

fun capability_list :: "(u8 \<Rightarrow> u32) \<Rightarrow> u8 \<Rightarrow> u8 list \<Rightarrow> bool" where
  "capability_list h a [] \<longleftrightarrow> a = 0"
| "capability_list h a (c # cs) \<longleftrightarrow> a = c \<and> c \<noteq> 0 \<and> capability_list h (next_cap h c) cs"

definition last_cap :: "(u8 \<Rightarrow> u32) \<Rightarrow> u32 \<Rightarrow> u8 list \<Rightarrow> u8 \<Rightarrow> u8" where
  "last_cap h i cs d = fold (\<lambda>c d. if cap_id_at h c = i then c else d) cs d"

lemma find_capabilities_list:
  "capability_list h a cs \<Longrightarrow>
     find_capabilities h a msi msix = Some (last_cap h kCapabilityMSI cs msi, last_cap h kCapabilityMSIX cs msix)"
proof (induction cs arbitrary: a msi msix)
  case Nil
  then show ?case by (subst find_capabilities.simps) (simp add: last_cap_def)
next
  case (Cons c cs)
  then show ?case
    by (subst find_capabilities.simps)
      (simp add: Let_def last_cap_def cap_id_at_def next_cap_def kCapabilityMSI_def kCapabilityMSIX_def)
qed

lemma find_capabilities_ends_list:
  assumes "find_capabilities h a msi msix = Some r" shows "\<exists>cs. capability_list h a cs"
proof (rule find_capabilities.raw_induct [OF _ assms, where P = "\<lambda>h a msi msix r. \<exists>cs. capability_list h a cs"])
  fix rec :: "(u8 \<Rightarrow> u32) \<Rightarrow> u8 \<Rightarrow> u8 \<Rightarrow> u8 \<Rightarrow> (u8 \<times> u8) option" and h a msi msix r
  assume IH: "\<And>h a msi msix r. rec h a msi msix = Some r \<Longrightarrow> \<exists>cs. capability_list h a cs"
    and body: "(if a = 0 then Some (msi, msix)
     else
       let header = h a; cap_id = get_field CapabilityHeader_bits ''cap_id'' header
       in rec h (ucast (get_field CapabilityHeader_bits ''next_ptr'' header))
            (if cap_id = kCapabilityMSI then a else msi)
            (if cap_id = kCapabilityMSI then msix else if cap_id = kCapabilityMSIX then a else msix)) = Some r"
  show "\<exists>cs. capability_list h a cs"
  proof (cases "a = 0")
    case True
    then show ?thesis by (intro exI [of _ "[]"]) simp
  next
    case False
    then have "\<exists>msi msix. rec h (next_cap h a) msi msix = Some r"
      using body unfolding Let_def next_cap_def if_not_P [OF False] by blast
    then obtain cs where "capability_list h (next_cap h a) cs" using IH by blast
    then show ?thesis using False by (intro exI [of _ "a # cs"]) simp
  qed
qed

text \<open>The walk ends exactly on a list of capabilities that ends.\<close>

lemma find_capabilities_ends_iff:
  "find_capabilities h a msi msix \<noteq> None \<longleftrightarrow> (\<exists>cs. capability_list h a cs)"
  using find_capabilities_list find_capabilities_ends_list by fastforce

lemma last_cap_no: "\<forall>c \<in> set cs. cap_id_at h c \<noteq> i \<Longrightarrow> last_cap h i cs d = d"
  by (induction cs arbitrary: d) (simp_all add: last_cap_def)

lemma last_cap_found:
  assumes "cap_id_at h c = i" "\<forall>c \<in> set cs2. cap_id_at h c \<noteq> i"
  shows "last_cap h i (cs1 @ c # cs2) d = c"
  using last_cap_no [OF assms(2)] assms(1) by (simp add: last_cap_def)

lemma capability_list_nonzero: "capability_list h a cs \<Longrightarrow> c \<in> set cs \<Longrightarrow> c \<noteq> 0"
  by (induction cs arbitrary: a) auto

section \<open>What is written to enable the interrupt\<close>

lemma MSI_fields:
  "field_at MSI_header_bits ''msi_enable'' = Some (16, 1)"
  "field_at MSI_header_bits ''multi_msg_capable'' = Some (17, 3)"
  "field_at MSI_header_bits ''multi_msg_enable'' = Some (20, 3)"
  "layout_size MSI_header_bits = 32"
  by code_simp+

definition enabled_header :: "u32 \<Rightarrow> u32 \<Rightarrow> u32" where
  "enabled_header h e =
    (let capable = get_field MSI_header_bits ''multi_msg_capable'' h
     in set_field MSI_header_bits ''msi_enable'' 1
          (set_field MSI_header_bits ''multi_msg_enable'' (if capable \<le> e then capable else e) h))"

lemma capable_less: "get_field MSI_header_bits ''multi_msg_capable'' (h :: u32) < 8"
  using get_bits_less [of 3 17 h] by (simp add: get_field_def MSI_fields word_less_nat_alt)

lemma take_bit_small: "v < 8 \<Longrightarrow> take_bit 3 (v :: u32) = v"
  by (simp add: word_unat_eq_iff word_less_nat_alt unsigned_take_bit_eq take_bit_nat_eq_self)

lemma enabled_header_fields:
  "get_field MSI_header_bits ''msi_enable'' (enabled_header h e) = 1"
  "get_field MSI_header_bits ''multi_msg_enable'' (enabled_header h e)
     = min (get_field MSI_header_bits ''multi_msg_capable'' h) e"
  "f \<noteq> ''msi_enable'' \<Longrightarrow> f \<noteq> ''multi_msg_enable'' \<Longrightarrow>
     get_field MSI_header_bits f (enabled_header h e) = get_field MSI_header_bits f h"
proof -
  show "get_field MSI_header_bits ''msi_enable'' (enabled_header h e) = 1"
    by (simp add: enabled_header_def Let_def get_set_same MSI_fields)
  let ?c = "get_field MSI_header_bits ''multi_msg_capable'' h"
  have "(if ?c \<le> e then ?c else e) < 8" using capable_less [of h] by auto
  then show "get_field MSI_header_bits ''multi_msg_enable'' (enabled_header h e) = min ?c e"
    by (simp add: enabled_header_def Let_def get_set_same get_set_other MSI_fields take_bit_small min_def)
  show "f \<noteq> ''msi_enable'' \<Longrightarrow> f \<noteq> ''multi_msg_enable'' \<Longrightarrow>
     get_field MSI_header_bits f (enabled_header h e) = get_field MSI_header_bits f h"
    by (simp add: enabled_header_def Let_def get_set_other MSI_fields)
qed

definition reg_address :: "PciDevice \<Rightarrow> u8 \<Rightarrow> u32" where
  "reg_address dev r = MakeAddress (pci_bus dev) (pci_device dev) (pci_function dev) r"

lemma writes_WriteConfReg [simp]:
  "config_writes (WriteConfReg dev r v p) = config_writes p @ [(reg_address dev r, v)]"
  by (simp add: WriteConfReg_def WriteData_def WriteAddress_def reg_address_def)

lemma WriteMSICapability_writes:
  "config_writes (WriteMSICapability dev c cap p) = config_writes p @
     [(reg_address dev c, msi_header cap), (reg_address dev (c + 4), msg_addr cap)]
     @ (if get_field MSI_header_bits ''addr_64_capable'' (msi_header cap) \<noteq> 0
        then [(reg_address dev (c + 8), msg_upper_addr cap)] else [])
     @ [(reg_address dev (msg_data_addr (msi_header cap) c), msg_data cap)]
     @ (if get_field MSI_header_bits ''per_vector_mask_capable'' (msi_header cap) \<noteq> 0
        then [(reg_address dev (msg_data_addr (msi_header cap) c + 4), mask_bits cap),
              (reg_address dev (msg_data_addr (msi_header cap) c + 8), pending_bits cap)] else [])"
  by (simp add: WriteMSICapability_def Let_def)

lemma msg_data_addr_enabled: "msg_data_addr (enabled_header h e) c = msg_data_addr h c"
  by (simp add: msg_data_addr_def enabled_header_fields)

text \<open>
  On a device whose capability list ends and has an MSI capability, \<open>ConfigureMSI\<close> returns
  and succeeds, and it writes, in this order: the header of the last MSI capability of the list,
  with the interrupt enabled, the smaller one of the wanted and the possible number of messages,
  and every other field as it was; the message address; for a 64-bit capability the upper half,
  as it was read; the message data, behind it; and the mask registers, if there are any, as
  they were.  Nothing else is written.
\<close>

lemma ConfigureMSI_enables:
  fixes c :: u8 and p :: PciPorts and dev :: PciDevice and hw :: ConfigSpace
  defines "h \<equiv> \<lambda>a. ReadConfReg hw dev a p"
  assumes "capability_list h (ucast (h 0x34 AND 0xff)) (cs1 @ c # cs2)"
    and "cap_id_at h c = 0x05" and "\<forall>c2 \<in> set cs2. cap_id_at h c2 \<noteq> 0x05"
  shows "\<exists>p' header. ConfigureMSI hw dev addr data e p = Some (p', kSuccess) \<and>
    config_writes p' = config_writes p @
      [(reg_address dev c, header), (reg_address dev (c + 4), addr)]
      @ (if get_field MSI_header_bits ''addr_64_capable'' (h c) \<noteq> 0
         then [(reg_address dev (c + 8), h (c + 8)), (reg_address dev (c + 12), data)]
         else [(reg_address dev (c + 8), data)])
      @ (if get_field MSI_header_bits ''per_vector_mask_capable'' (h c) \<noteq> 0
         then let d = msg_data_addr (h c) c
              in [(reg_address dev (d + 4), h (d + 4)), (reg_address dev (d + 8), h (d + 8))] else []) \<and>
    get_field MSI_header_bits ''msi_enable'' header = 1 \<and>
    get_field MSI_header_bits ''multi_msg_enable'' header
      = min (get_field MSI_header_bits ''multi_msg_capable'' (h c)) e \<and>
    (\<forall>f. f \<notin> {''msi_enable'', ''multi_msg_enable''} \<longrightarrow>
       get_field MSI_header_bits f header = get_field MSI_header_bits f (h c))"
proof -
  have "c \<noteq> 0" using capability_list_nonzero assms(2) by fastforce
  have find: "find_capabilities h (ucast (h 0x34 AND 0xff)) 0 0
      = Some (c, last_cap h kCapabilityMSIX (cs1 @ c # cs2) 0)"
    using find_capabilities_list [OF assms(2)] last_cap_found assms(3, 4)
    by (simp add: kCapabilityMSI_def)
  define cap where "cap = (ReadMSICapability hw dev c p)\<lparr>msi_header := enabled_header (h c) e, msg_addr := addr, msg_data := data\<rparr>"
  have msi: "ConfigureMSI hw dev addr data e p = Some (WriteMSICapability dev c cap p, kSuccess)"
    using find \<open>c \<noteq> 0\<close>
    by (simp add: ConfigureMSI_def ReadCapabilityHeader_def h_def ConfigureMSIRegister_def Let_def cap_def
        enabled_header_def ReadMSICapability_def)
  show ?thesis
    by (rule exI [of _ "WriteMSICapability dev c cap p"], rule exI [of _ "enabled_header (h c) e"])
      (simp add: msi WriteMSICapability_writes cap_def enabled_header_fields msg_data_addr_enabled
        ReadMSICapability_def Let_def h_def msg_data_addr_def)
qed

lemma ConfigureMSI_enables_witness:
  "\<exists>p' header. ConfigureMSI demo_pci_config (read_device demo_pci_config \<lparr>config_address = 0, config_writes = []\<rparr> 0 1 0)
      0xfee00000 0xc041 0 \<lparr>config_address = 0, config_writes = []\<rparr> = Some (p', kSuccess) \<and>
    config_writes p' = [(0x80000850, header), (0x80000854, 0xfee00000), (0x80000858, 0), (0x8000085c, 0xc041)] \<and>
    get_field MSI_header_bits ''msi_enable'' header = 1"
proof -
  let ?p = "\<lparr>config_address = 0, config_writes = []\<rparr>" and ?dev = "read_device demo_pci_config \<lparr>config_address = 0, config_writes = []\<rparr> 0 1 0"
  have list: "capability_list (\<lambda>a. ReadConfReg demo_pci_config ?dev a ?p) (ucast (ReadConfReg demo_pci_config ?dev 0x34 ?p AND 0xff)) ([0x40] @ 0x50 # [])"
    by code_simp
  have id: "cap_id_at (\<lambda>a. ReadConfReg demo_pci_config ?dev a ?p) 0x50 = 0x05" by code_simp
  have shape: "get_field MSI_header_bits ''addr_64_capable'' (ReadConfReg demo_pci_config ?dev 0x50 ?p) \<noteq> 0"
    "get_field MSI_header_bits ''per_vector_mask_capable'' (ReadConfReg demo_pci_config ?dev 0x50 ?p) = 0"
    "ReadConfReg demo_pci_config ?dev (0x50 + 8) ?p = 0"
    "reg_address ?dev 0x50 = 0x80000850" "reg_address ?dev (0x50 + 4) = 0x80000854"
    "reg_address ?dev (0x50 + 8) = 0x80000858" "reg_address ?dev (0x50 + 12) = 0x8000085c"
    by code_simp+
  have "\<forall>c2 \<in> set []. cap_id_at (\<lambda>a. ReadConfReg demo_pci_config ?dev a ?p) c2 \<noteq> 0x05" by simp
  from ConfigureMSI_enables [OF list id this, of "0xfee00000" "0xc041" 0]
  show ?thesis unfolding shape(2-) if_P [OF shape(1)] by auto
qed

end
