(* ===== verification/Usb_Memory.thy ===== *)
theory Usb_Memory
  imports Kernel_Prelude
begin

text \<open>
  The memory pool and the fixed-size map of the USB driver: \<open>kernel/usb/memory.hpp\<close>,
  \<open>kernel/usb/memory.cpp\<close> and \<open>kernel/usb/arraymap.hpp\<close>.  The pool is a static array at the
  address \<open>memory_pool\<close>; its state is the address \<open>alloc_ptr\<close> of the next free byte, in 64-bit
  arithmetic.
\<close>

section \<open>The pool\<close>

definition kMemoryPoolSize :: u64 where "kMemoryPoolSize = 4096 * 32"

text \<open>\<open>alignment - 1\<close> is computed in 32 bits and converted.\<close>

definition Ceil :: "u64 \<Rightarrow> u32 \<Rightarrow> u64" where
  "Ceil value alignment = (value + ucast alignment - 1) AND NOT (ucast (alignment - 1))"

definition MaskBits :: "u64 \<Rightarrow> u64 \<Rightarrow> u64" where
  "MaskBits value m = value AND NOT (m - 1)"

definition AllocMem :: "u64 \<Rightarrow> u64 \<Rightarrow> u32 \<Rightarrow> u32 \<Rightarrow> u64 \<Rightarrow> u64 \<times> u64 option" where
  "AllocMem memory_pool sz alignment boundary alloc_ptr =
    (let p1 = (if 0 < alignment then Ceil alloc_ptr alignment else alloc_ptr);
         p2 = (if 0 < boundary
               then let next_boundary = Ceil p1 boundary in
                    if next_boundary < p1 + sz then next_boundary else p1
               else p1)
     in if memory_pool + kMemoryPoolSize < p2 + sz then (p2, None)
        else (p2 + sz, Some p2))"

definition AllocArray :: "u64 \<Rightarrow> u64 \<Rightarrow> u64 \<Rightarrow> u32 \<Rightarrow> u32 \<Rightarrow> u64 \<Rightarrow> u64 \<times> u64 option" where
  "AllocArray memory_pool element_size num_obj alignment boundary alloc_ptr =
    AllocMem memory_pool (element_size * num_obj) alignment boundary alloc_ptr"

definition FreeMem :: "u64 \<Rightarrow> u64 \<Rightarrow> u64" where
  "FreeMem p alloc_ptr = alloc_ptr"

section \<open>The map\<close>

type_synonym ('k, 'v) array_map = "('k option \<times> 'v) list"

definition new_ArrayMap :: "nat \<Rightarrow> 'v \<Rightarrow> ('k, 'v) array_map" where
  "new_ArrayMap n v = replicate n (None, v)"

fun ArrayMap_Get :: "'k \<Rightarrow> ('k, 'v) array_map \<Rightarrow> 'v option" where
  "ArrayMap_Get key [] = None"
| "ArrayMap_Get key ((k, v) # t) = (if k = Some key then Some v else ArrayMap_Get key t)"

fun ArrayMap_Put :: "'k \<Rightarrow> 'v \<Rightarrow> ('k, 'v) array_map \<Rightarrow> ('k, 'v) array_map" where
  "ArrayMap_Put key v [] = []"
| "ArrayMap_Put key v ((k, w) # t) = (if k = None then (Some key, v) # t else (k, w) # ArrayMap_Put key v t)"

fun ArrayMap_Delete :: "'k \<Rightarrow> ('k, 'v) array_map \<Rightarrow> ('k, 'v) array_map" where
  "ArrayMap_Delete key [] = []"
| "ArrayMap_Delete key ((k, v) # t) = (if k = Some key then (None, v) # t else (k, v) # ArrayMap_Delete key t)"

section \<open>Aligning\<close>

lemma and_not_mask_unat: "unat (w AND NOT (mask n)) = unat w div 2 ^ n * 2 ^ n" for w :: u64
proof -
  have "w AND NOT (mask n) = push_bit n (drop_bit n w)"
    by (rule bit_eqI) (auto simp: bit_simps)
  then have "unat (w AND NOT (mask n)) = take_bit LENGTH(64) (unat w div 2 ^ n * 2 ^ n)"
    by (simp only: unsigned_push_bit_eq unat_drop_bit_eq) (simp only: push_bit_eq_mult drop_bit_eq_div)
  moreover have "unat w div 2 ^ n * 2 ^ n \<le> unat w" by simp
  then have "unat w div 2 ^ n * 2 ^ n < 2 ^ LENGTH(64)" by (rule le_less_trans) (rule unsigned_less)
  ultimately show ?thesis by (simp add: take_bit_nat_eq_self)
qed

definition ceil_to :: "nat \<Rightarrow> nat \<Rightarrow> nat" where
  "ceil_to k v = (v + 2 ^ k - 1) div 2 ^ k * 2 ^ k"

lemma ceil_to_props:
  "v \<le> ceil_to k v" "ceil_to k v < v + 2 ^ k" "2 ^ k dvd ceil_to k v"
proof -
  let ?n = "v + 2 ^ k - 1"
  have "?n div 2 ^ k * 2 ^ k + ?n mod 2 ^ k = ?n" by (rule div_mult_mod_eq)
  moreover have "?n mod 2 ^ k < 2 ^ k" "(0 :: nat) < 2 ^ k" by simp_all
  ultimately show "v \<le> ceil_to k v" "ceil_to k v < v + 2 ^ k" unfolding ceil_to_def by linarith+
  show "2 ^ k dvd ceil_to k v" by (simp add: ceil_to_def)
qed

lemma Ceil_unat:
  assumes "k < 32" "unat v + 2 ^ k < 2 ^ 64"
  shows "unat (Ceil v (2 ^ k)) = ceil_to k (unat v)"
proof -
  have u: "(ucast (2 ^ k :: u32) :: u64) = 2 ^ k"
    using assms(1) by (intro bit_eqI) (auto simp: bit_simps word_bits)
  have m: "(ucast ((2 :: u32) ^ k - 1) :: u64) = mask k"
    using assms(1) by (intro bit_eqI) (auto simp: bit_simps mask_eq_exp_minus_1 [symmetric])
  have "v + 2 ^ k - 1 = (of_nat (unat v + 2 ^ k - 1) :: u64)"
    by (simp add: of_nat_diff trans_le_add2)
  then have "unat (v + 2 ^ k - 1) = unat v + 2 ^ k - 1" using assms(2) by (simp only: unat_of_nat_less) (simp add: unat_of_nat_less)
  then show ?thesis unfolding Ceil_def u m and_not_mask_unat ceil_to_def by simp
qed

section \<open>What an allocation returns\<close>

lemma pow32: "k < 32 \<Longrightarrow> unat ((2 :: u32) ^ k) = 2 ^ k"
proof -
  assume "k < 32"
  then have "(2 :: nat) ^ k < 2 ^ LENGTH(32)" by (intro power_strict_increasing) simp_all
  from unat_of_nat_less [OF this] show ?thesis by simp
qed

lemma unat_plus: "unat a + unat b < 2 ^ 64 \<Longrightarrow> unat (a + b :: u64) = unat a + unat b"
  by (simp add: unat_word_ariths)

lemma same_block:
  fixes c :: nat
  assumes "0 < n" "n \<le> 2 ^ j" "c + n \<le> ceil_to j c"
  shows "c div 2 ^ j = (c + n - 1) div 2 ^ j"
proof -
  obtain q where q: "ceil_to j c = q * 2 ^ j" by (simp add: ceil_to_def)
  with assms ceil_to_props(2) [of j c] have "c < q * 2 ^ j" "q * 2 ^ j < c + 2 ^ j" by simp_all
  then obtain r where r: "q = Suc r" by (cases q) auto
  then have "r * 2 ^ j \<le> c" "c < Suc r * 2 ^ j" "c + n - 1 < Suc r * 2 ^ j" "r * 2 ^ j \<le> c + n - 1"
    using q assms ceil_to_props(2) [of j c] by auto
  then have "c div 2 ^ j = r" "(c + n - 1) div 2 ^ j = r" by (simp_all add: div_nat_eqI mult.commute)
  then show ?thesis by simp
qed

lemma AllocMem_spec:
  assumes pool: "unat memory_pool + 131072 \<le> 2 ^ 62" "unat ptr \<le> unat memory_pool + 131072"
    and sz: "unat sz < 2 ^ 62"
    and align: "i \<le> j" "j < 32"
    and res: "AllocMem memory_pool sz (2 ^ i) (2 ^ j) ptr = (ptr', Some p)"
  shows "unat ptr \<le> unat p" "unat p + unat sz \<le> unat memory_pool + 131072" "unat ptr' = unat p + unat sz"
    "2 ^ i dvd unat p" "0 < unat sz \<Longrightarrow> unat sz \<le> 2 ^ j \<Longrightarrow> unat p div 2 ^ j = (unat p + unat sz - 1) div 2 ^ j"
proof -
  have i: "i < 32" using align by simp
  have pow: "(2 :: nat) ^ i \<le> 2 ^ 31" "(2 :: nat) ^ j \<le> 2 ^ 31" using align i by (intro power_increasing; simp)+
  have pos: "(0 :: u32) < 2 ^ i" "(0 :: u32) < 2 ^ j"
    unfolding word_less_nat_alt pow32 [OF i] pow32 [OF align(2)] by simp_all
  define c where "c = Ceil ptr (2 ^ i)"
  define nb where "nb = Ceil c (2 ^ j)"
  have cu: "unat c = ceil_to i (unat ptr)" unfolding c_def by (rule Ceil_unat [OF i]) (use pool pow in simp)
  have cb: "unat c < 2 ^ 62 + 2 ^ 31" using ceil_to_props(2) [of i "unat ptr"] pool pow unfolding cu by simp
  have nu: "unat nb = ceil_to j (unat c)" unfolding nb_def by (rule Ceil_unat [OF align(2)]) (use cb pow in simp)
  have nbb: "unat nb < 2 ^ 62 + 2 ^ 32" using ceil_to_props(2) [of j "unat c"] cb pow unfolding nu by simp
  have csz: "unat (c + sz) = unat c + unat sz" by (rule unat_plus) (use cb sz in simp)
  define q where "q = (if nb < c + sz then nb else c)"
  have qsz: "unat (q + sz) = unat q + unat sz" by (rule unat_plus) (use cb nbb sz in \<open>simp add: q_def\<close>)
  have lim: "unat (memory_pool + kMemoryPoolSize) = unat memory_pool + 131072"
    by (subst unat_plus) (use pool in \<open>simp_all add: kMemoryPoolSize_def\<close>)
  have "AllocMem memory_pool sz (2 ^ i) (2 ^ j) ptr =
      (if memory_pool + kMemoryPoolSize < q + sz then (q, None) else (q + sz, Some q))"
    using pos unfolding AllocMem_def Let_def by (simp only: if_True c_def nb_def q_def)
  with res have q: "p = q" "ptr' = q + sz" "\<not> memory_pool + kMemoryPoolSize < q + sz"
    by (auto split: if_splits)
  show "unat ptr' = unat p + unat sz" using q qsz by simp
  show "unat p + unat sz \<le> unat memory_pool + 131072"
    using q(1,3) unfolding word_less_nat_alt lim qsz by simp
  have dv: "2 ^ i dvd unat c" "2 ^ j dvd unat nb" unfolding cu nu by (rule ceil_to_props(3))+
  have "(2 :: nat) ^ i dvd 2 ^ j" using align(1) by (rule le_imp_power_dvd)
  with dv show "2 ^ i dvd unat p" unfolding q(1) q_def by (auto intro: dvd_trans)
  have "unat ptr \<le> unat c" "unat c \<le> unat nb" unfolding nu using ceil_to_props(1) cu by simp_all
  then show "unat ptr \<le> unat p" unfolding q(1) q_def by (auto split: if_split)
  show "unat p div 2 ^ j = (unat p + unat sz - 1) div 2 ^ j" if "0 < unat sz" "unat sz \<le> 2 ^ j"
  proof (cases "nb < c + sz")
    case True
    from dv(2) obtain m where m: "unat nb = 2 ^ j * m" by (auto simp: dvd_def)
    have "(2 ^ j * m + (unat sz - 1)) div 2 ^ j = m"
      using that by (intro div_nat_eqI) (simp_all add: algebra_simps)
    moreover have "2 ^ j * m + (unat sz - 1) = 2 ^ j * m + unat sz - 1" using that by simp
    ultimately have "(2 ^ j * m + unat sz - 1) div 2 ^ j = m" by (simp only:)
    with True that m show ?thesis by (simp add: q(1) q_def)
  next
    case False
    then have "unat c + unat sz \<le> ceil_to j (unat c)" by (simp add: word_less_nat_alt csz nu not_less)
    from same_block [OF that this] False show ?thesis by (simp add: q(1) q_def)
  qed
qed

section \<open>Lookup\<close>

lemma Get_Put:
  "ArrayMap_Get k m = None \<Longrightarrow> None \<in> fst ` set m \<Longrightarrow> ArrayMap_Get k (ArrayMap_Put k v m) = Some v"
  "k' \<noteq> k \<Longrightarrow> ArrayMap_Get k' (ArrayMap_Put k v m) = ArrayMap_Get k' m"
  by (induction m) (auto split: if_splits)

lemma Put_full: "None \<notin> fst ` set m \<Longrightarrow> ArrayMap_Put k v m = m"
  by (induction m) (auto split: if_splits)

lemma Get_Delete: "k' \<noteq> k \<Longrightarrow> ArrayMap_Get k' (ArrayMap_Delete k m) = ArrayMap_Get k' m"
  by (induction m) auto

section \<open>Properties\<close>

text \<open>
  An allocation that succeeds, for an alignment and a boundary that are powers of two with
  the alignment not above the boundary, yields memory that was free, that lies in the pool,
  that has the alignment, and that, if it is not longer than the boundary, does not cross a
  multiple of it; the free area starts right behind it afterwards.
\<close>

lemma AllocMem_bounds:
  assumes "unat memory_pool + 131072 \<le> 2 ^ 62" "unat ptr \<le> unat memory_pool + 131072" "unat sz < 2 ^ 62"
    and "i \<le> j" "j < 32" "AllocMem memory_pool sz (2 ^ i) (2 ^ j) ptr = (ptr', Some p)"
  shows "unat ptr \<le> unat p \<and> unat p + unat sz \<le> unat memory_pool + 131072 \<and> unat ptr' = unat p + unat sz \<and>
    2 ^ i dvd unat p \<and>
    (0 < unat sz \<and> unat sz \<le> 2 ^ j \<longrightarrow> unat p div 2 ^ j = (unat p + unat sz - 1) div 2 ^ j)"
  using AllocMem_spec [OF assms] by blast

lemma AllocMem_bounds_witness:
  "unat (0x10000000 :: u64) + 4096 \<le> unat (0x10000000 :: u64) + 131072 \<and>
   AllocMem 0x10000000 4096 (2 ^ 6) (2 ^ 12) 0x10000010 = (0x10002000, Some 0x10001000)"
proof -
  have a: "AllocMem 0x10000000 4096 (2 ^ 6) (2 ^ 12) 0x10000010 = (0x10002000, Some 0x10001000)"
    by code_simp
  have "unat (0x10001000 :: u64) + unat (4096 :: u64) \<le> unat (0x10000000 :: u64) + 131072"
    using AllocMem_bounds [OF _ _ _ _ _ a] by simp
  with a show ?thesis by simp
qed

end
