(* ===== verification/Trb.thy ===== *)
theory Trb
  imports Bit_Layouts
begin

text \<open>
  Transfer request blocks: \<open>kernel/usb/xhci/trb.hpp\<close> and \<open>kernel/usb/xhci/trb.cpp\<close>.  All of them
  are 128-bit words; each union of the source is its layout, its constructor and its methods.
  The constants \<open>Type\<close> are the numbers in the constructors.
\<close>

type_synonym trb = "128 word"

section \<open>Layouts\<close>

definition TRB_bits :: layout where
  "TRB_bits =
    [(''parameter'', 64), (''status'', 32), (''cycle_bit'', 1), (''evaluate_next_trb'', 1),
     ('''', 8), (''trb_type'', 6), (''control'', 16)]"

definition NormalTRB_bits :: layout where
  "NormalTRB_bits =
    [(''data_buffer_pointer'', 64), (''trb_transfer_length'', 17), (''td_size'', 5),
     (''interrupter_target'', 10), (''cycle_bit'', 1), (''evaluate_next_trb'', 1),
     (''interrupt_on_short_packet'', 1), (''no_snoop'', 1), (''chain_bit'', 1),
     (''interrupt_on_completion'', 1), (''immediate_data'', 1), ('''', 2),
     (''block_event_interrupt'', 1), (''trb_type'', 6), ('''', 16)]"

definition SetupStageTRB_bits :: layout where
  "SetupStageTRB_bits =
    [(''request_type'', 8), (''request'', 8), (''value'', 16), (''index'', 16), (''length'', 16),
     (''trb_transfer_length'', 17), ('''', 5), (''interrupter_target'', 10), (''cycle_bit'', 1),
     ('''', 4), (''interrupt_on_completion'', 1), (''immediate_data'', 1), ('''', 3),
     (''trb_type'', 6), (''transfer_type'', 2), ('''', 14)]"

definition DataStageTRB_bits :: layout where
  "DataStageTRB_bits =
    [(''data_buffer_pointer'', 64), (''trb_transfer_length'', 17), (''td_size'', 5),
     (''interrupter_target'', 10), (''cycle_bit'', 1), (''evaluate_next_trb'', 1),
     (''interrupt_on_short_packet'', 1), (''no_snoop'', 1), (''chain_bit'', 1),
     (''interrupt_on_completion'', 1), (''immediate_data'', 1), ('''', 3), (''trb_type'', 6),
     (''direction'', 1), ('''', 15)]"

definition StatusStageTRB_bits :: layout where
  "StatusStageTRB_bits =
    [('''', 64), ('''', 22), (''interrupter_target'', 10), (''cycle_bit'', 1),
     (''evaluate_next_trb'', 1), ('''', 2), (''chain_bit'', 1), (''interrupt_on_completion'', 1),
     ('''', 4), (''trb_type'', 6), (''direction'', 1), ('''', 15)]"

definition LinkTRB_bits :: layout where
  "LinkTRB_bits =
    [('''', 4), (''ring_segment_pointer'', 60), ('''', 22), (''interrupter_target'', 10),
     (''cycle_bit'', 1), (''toggle_cycle'', 1), ('''', 2), (''chain_bit'', 1),
     (''interrupt_on_completion'', 1), ('''', 4), (''trb_type'', 6), ('''', 16)]"

definition NoOpTRB_bits :: layout where
  "NoOpTRB_bits =
    [('''', 64), ('''', 22), (''interrupter_target'', 10), (''cycle_bit'', 1),
     (''evaluate_next_trb'', 1), ('''', 2), (''chain_bit'', 1), (''interrupt_on_completion'', 1),
     ('''', 4), (''trb_type'', 6), ('''', 16)]"

definition EnableSlotCommandTRB_bits :: layout where
  "EnableSlotCommandTRB_bits =
    [('''', 32), ('''', 32), ('''', 32), (''cycle_bit'', 1), ('''', 9), (''trb_type'', 6),
     (''slot_type'', 5), ('''', 11)]"

definition AddressDeviceCommandTRB_bits :: layout where
  "AddressDeviceCommandTRB_bits =
    [('''', 4), (''input_context_pointer'', 60), ('''', 32), (''cycle_bit'', 1), ('''', 8),
     (''block_set_address_request'', 1), (''trb_type'', 6), ('''', 8), (''slot_id'', 8)]"

definition ConfigureEndpointCommandTRB_bits :: layout where
  "ConfigureEndpointCommandTRB_bits =
    [('''', 4), (''input_context_pointer'', 60), ('''', 32), (''cycle_bit'', 1), ('''', 8),
     (''deconfigure'', 1), (''trb_type'', 6), ('''', 8), (''slot_id'', 8)]"

definition StopEndpointCommandTRB_bits :: layout where
  "StopEndpointCommandTRB_bits =
    [('''', 32), ('''', 32), ('''', 32), (''cycle_bit'', 1), ('''', 9), (''trb_type'', 6),
     (''endpoint_id'', 5), ('''', 2), (''suspend'', 1), (''slot_id'', 8)]"

definition NoOpCommandTRB_bits :: layout where
  "NoOpCommandTRB_bits =
    [('''', 32), ('''', 32), ('''', 32), (''cycle_bit'', 1), ('''', 9), (''trb_type'', 6),
     ('''', 16)]"

definition TransferEventTRB_bits :: layout where
  "TransferEventTRB_bits =
    [(''trb_pointer'', 64), (''trb_transfer_length'', 24), (''completion_code'', 8),
     (''cycle_bit'', 1), ('''', 1), (''event_data'', 1), ('''', 7), (''trb_type'', 6),
     (''endpoint_id'', 5), ('''', 3), (''slot_id'', 8)]"

definition CommandCompletionEventTRB_bits :: layout where
  "CommandCompletionEventTRB_bits =
    [('''', 4), (''command_trb_pointer'', 60), (''command_completion_parameter'', 24),
     (''completion_code'', 8), (''cycle_bit'', 1), ('''', 9), (''trb_type'', 6), (''vf_id'', 8),
     (''slot_id'', 8)]"

definition PortStatusChangeEventTRB_bits :: layout where
  "PortStatusChangeEventTRB_bits =
    [('''', 24), (''port_id'', 8), ('''', 32), ('''', 24), (''completion_code'', 8),
     (''cycle_bit'', 1), ('''', 9), (''trb_type'', 6)]"

section \<open>Pointers\<close>

definition NormalTRB_Pointer :: "trb \<Rightarrow> u64" where
  "NormalTRB_Pointer t = ucast (get_field NormalTRB_bits ''data_buffer_pointer'' t)"

definition NormalTRB_SetPointer :: "u64 \<Rightarrow> trb \<Rightarrow> trb" where
  "NormalTRB_SetPointer p t = set_field NormalTRB_bits ''data_buffer_pointer'' (ucast p) t"

definition DataStageTRB_Pointer :: "trb \<Rightarrow> u64" where
  "DataStageTRB_Pointer t = ucast (get_field DataStageTRB_bits ''data_buffer_pointer'' t)"

definition DataStageTRB_SetPointer :: "u64 \<Rightarrow> trb \<Rightarrow> trb" where
  "DataStageTRB_SetPointer p t = set_field DataStageTRB_bits ''data_buffer_pointer'' (ucast p) t"

definition LinkTRB_Pointer :: "trb \<Rightarrow> u64" where
  "LinkTRB_Pointer t = push_bit 4 (ucast (get_field LinkTRB_bits ''ring_segment_pointer'' t))"

definition LinkTRB_SetPointer :: "u64 \<Rightarrow> trb \<Rightarrow> trb" where
  "LinkTRB_SetPointer p t = set_field LinkTRB_bits ''ring_segment_pointer'' (ucast (drop_bit 4 p)) t"

definition AddressDeviceCommandTRB_Pointer :: "trb \<Rightarrow> u64" where
  "AddressDeviceCommandTRB_Pointer t = push_bit 4 (ucast (get_field AddressDeviceCommandTRB_bits ''input_context_pointer'' t))"

definition AddressDeviceCommandTRB_SetPointer :: "u64 \<Rightarrow> trb \<Rightarrow> trb" where
  "AddressDeviceCommandTRB_SetPointer p t = set_field AddressDeviceCommandTRB_bits ''input_context_pointer'' (ucast (drop_bit 4 p)) t"

definition ConfigureEndpointCommandTRB_Pointer :: "trb \<Rightarrow> u64" where
  "ConfigureEndpointCommandTRB_Pointer t = push_bit 4 (ucast (get_field ConfigureEndpointCommandTRB_bits ''input_context_pointer'' t))"

definition ConfigureEndpointCommandTRB_SetPointer :: "u64 \<Rightarrow> trb \<Rightarrow> trb" where
  "ConfigureEndpointCommandTRB_SetPointer p t = set_field ConfigureEndpointCommandTRB_bits ''input_context_pointer'' (ucast (drop_bit 4 p)) t"

definition TransferEventTRB_Pointer :: "trb \<Rightarrow> u64" where
  "TransferEventTRB_Pointer t = ucast (get_field TransferEventTRB_bits ''trb_pointer'' t)"

definition TransferEventTRB_SetPointer :: "u64 \<Rightarrow> trb \<Rightarrow> trb" where
  "TransferEventTRB_SetPointer p t = set_field TransferEventTRB_bits ''trb_pointer'' (ucast p) t"

definition CommandCompletionEventTRB_Pointer :: "trb \<Rightarrow> u64" where
  "CommandCompletionEventTRB_Pointer t = push_bit 4 (ucast (get_field CommandCompletionEventTRB_bits ''command_trb_pointer'' t))"

definition CommandCompletionEventTRB_SetPointer :: "u64 \<Rightarrow> trb \<Rightarrow> trb" where
  "CommandCompletionEventTRB_SetPointer p t = set_field CommandCompletionEventTRB_bits ''command_trb_pointer'' (ucast (drop_bit 4 p)) t"

section \<open>Constructors\<close>

definition new_NormalTRB :: trb where
  "new_NormalTRB = set_field NormalTRB_bits ''trb_type'' 1 0"

definition new_SetupStageTRB :: trb where
  "new_SetupStageTRB = set_field SetupStageTRB_bits ''trb_transfer_length'' 8 (set_field SetupStageTRB_bits ''immediate_data'' 1 (set_field SetupStageTRB_bits ''trb_type'' 2 0))"

definition new_DataStageTRB :: trb where
  "new_DataStageTRB = set_field DataStageTRB_bits ''trb_type'' 3 0"

definition new_StatusStageTRB :: trb where
  "new_StatusStageTRB = set_field StatusStageTRB_bits ''trb_type'' 4 0"

definition new_NoOpTRB :: trb where
  "new_NoOpTRB = set_field NoOpTRB_bits ''trb_type'' 8 0"

definition new_EnableSlotCommandTRB :: trb where
  "new_EnableSlotCommandTRB = set_field EnableSlotCommandTRB_bits ''trb_type'' 9 0"

definition new_NoOpCommandTRB :: trb where
  "new_NoOpCommandTRB = set_field NoOpCommandTRB_bits ''trb_type'' 23 0"

definition new_TransferEventTRB :: trb where
  "new_TransferEventTRB = set_field TransferEventTRB_bits ''trb_type'' 32 0"

definition new_CommandCompletionEventTRB :: trb where
  "new_CommandCompletionEventTRB = set_field CommandCompletionEventTRB_bits ''trb_type'' 33 0"

definition new_PortStatusChangeEventTRB :: trb where
  "new_PortStatusChangeEventTRB = set_field PortStatusChangeEventTRB_bits ''trb_type'' 34 0"

definition new_LinkTRB :: "u64 \<Rightarrow> trb" where
  "new_LinkTRB ring_segment_pointer =
    LinkTRB_SetPointer ring_segment_pointer (set_field LinkTRB_bits ''trb_type'' 6 0)"

definition new_AddressDeviceCommandTRB :: "u64 \<Rightarrow> u8 \<Rightarrow> trb" where
  "new_AddressDeviceCommandTRB input_context slot_id =
    AddressDeviceCommandTRB_SetPointer input_context
      (set_field AddressDeviceCommandTRB_bits ''slot_id'' (ucast slot_id)
        (set_field AddressDeviceCommandTRB_bits ''trb_type'' 11 0))"

definition new_ConfigureEndpointCommandTRB :: "u64 \<Rightarrow> u8 \<Rightarrow> trb" where
  "new_ConfigureEndpointCommandTRB input_context slot_id =
    ConfigureEndpointCommandTRB_SetPointer input_context
      (set_field ConfigureEndpointCommandTRB_bits ''slot_id'' (ucast slot_id)
        (set_field ConfigureEndpointCommandTRB_bits ''trb_type'' 12 0))"

definition new_StopEndpointCommandTRB :: "nat \<Rightarrow> u8 \<Rightarrow> trb" where
  "new_StopEndpointCommandTRB endpoint_id slot_id =
    set_field StopEndpointCommandTRB_bits ''slot_id'' (ucast slot_id)
      (set_field StopEndpointCommandTRB_bits ''endpoint_id'' (of_nat endpoint_id)
        (set_field StopEndpointCommandTRB_bits ''trb_type'' 15 0))"

text \<open>The address of the endpoint, from which \<open>EndpointID\<close> is made.\<close>

definition StopEndpointCommandTRB_EndpointID :: "trb \<Rightarrow> nat" where
  "StopEndpointCommandTRB_EndpointID t = unat (get_field StopEndpointCommandTRB_bits ''endpoint_id'' t)"

definition TransferEventTRB_EndpointID :: "trb \<Rightarrow> nat" where
  "TransferEventTRB_EndpointID t = unat (get_field TransferEventTRB_bits ''endpoint_id'' t)"

text \<open>The cast of a pointer, which succeeds for one number of \<open>ToType::Type\<close>.\<close>

definition TRBDynamicCast :: "nat \<Rightarrow> trb \<Rightarrow> trb option" where
  "TRBDynamicCast ty t = (if of_nat ty = get_field TRB_bits ''trb_type'' t then Some t else None)"

section \<open>Names\<close>

definition kTRBCompletionCodeToName :: "string list" where
  "kTRBCompletionCodeToName =
    [''Invalid'', ''Success'', ''Data Buffer Error'', ''Babble Detected Error'',
     ''USB Transaction Error'', ''TRB Error'', ''Stall Error'', ''Resource Error'',
     ''Bandwidth Error'', ''No Slots Avaliable Error'', ''Invalid Stream Type Error'',
     ''Slot Not Enabled Error'', ''Endpoint Not Enabled Error'', ''Short Packet'',
     ''Ring Underrun'', ''Ring Overrun'', ''VF Event Ring Full Error'', ''Parameter Error'',
     ''Bandwidth Overrun Error'', ''Context State Error'', ''No ping Response Error'',
     ''Event Ring Full Error'', ''Incompatible Device Error'', ''Missed Service Error'',
     ''Command Ring Stopped'', ''Command Aborted'', ''Stopped'', ''Stopped - Length Invalid'',
     ''Stopped - Short Packet'', ''Max Exit Latency Too Large Error'', ''Reserved'',
     ''Isoch Buffer Overrun'', ''Event Lost Error'', ''Undefined Error'',
     ''Invalid Stream ID Error'', ''Secondary Bandwidth Error'', ''Split Transaction Error'']"

text \<open>
  The array has 64 elements; the literals number 20 and 21 of the initialiser are joined by
  a missing comma, so that there are only 63 and the last pointer is null.
\<close>

definition kTRBTypeToName :: "string list" where
  "kTRBTypeToName =
    [''Reserved'', ''Normal'', ''Setup Stage'', ''Data Stage'', ''Status Stage'', ''Isoch'',
     ''Link'', ''EventData'', ''No-Op'', ''Enable Slot Command'', ''Disable Slot Command'',
     ''Address Device Command'', ''Configure Endpoint Command'', ''Evaluate Context Command'',
     ''Reset Endpoint Command'', ''Stop Endpoint Command'', ''Set TR Dequeue Pointer Command'',
     ''Reset Device Command'', ''Force Event Command'', ''Negotiate Bandwidth Command'',
     ''Set Latency Tolerance Value CommandGet Port Bandwidth Command'', ''Force Header Command'',
     ''No Op Command'', ''Reserved'', ''Reserved'', ''Reserved'', ''Reserved'', ''Reserved'',
     ''Reserved'', ''Reserved'', ''Reserved'', ''Transfer Event'', ''Command Completion Event'',
     ''Port Status Change Event'', ''Bandwidth Request Event'', ''Doorbell Event'',
     ''Host Controller Event'', ''Device Notification Event'', ''MFINDEX Wrap Event'',
     ''Reserved'', ''Reserved'', ''Reserved'', ''Reserved'', ''Reserved'', ''Reserved'',
     ''Reserved'', ''Reserved'', ''Vendor Defined'', ''Vendor Defined'', ''Vendor Defined'',
     ''Vendor Defined'', ''Vendor Defined'', ''Vendor Defined'', ''Vendor Defined'',
     ''Vendor Defined'', ''Vendor Defined'', ''Vendor Defined'', ''Vendor Defined'',
     ''Vendor Defined'', ''Vendor Defined'', ''Vendor Defined'', ''Vendor Defined'',
     ''Vendor Defined'']"

section \<open>All unions agree\<close>

definition trb_layouts :: "layout list" where
  "trb_layouts =
    [TRB_bits, NormalTRB_bits, SetupStageTRB_bits, DataStageTRB_bits, StatusStageTRB_bits, LinkTRB_bits,
     NoOpTRB_bits, EnableSlotCommandTRB_bits, AddressDeviceCommandTRB_bits, ConfigureEndpointCommandTRB_bits,
     StopEndpointCommandTRB_bits, NoOpCommandTRB_bits, TransferEventTRB_bits, CommandCompletionEventTRB_bits,
     PortStatusChangeEventTRB_bits]"

lemmas trb_bits_defs =
  TRB_bits_def NormalTRB_bits_def SetupStageTRB_bits_def DataStageTRB_bits_def StatusStageTRB_bits_def
  LinkTRB_bits_def NoOpTRB_bits_def EnableSlotCommandTRB_bits_def AddressDeviceCommandTRB_bits_def
  ConfigureEndpointCommandTRB_bits_def StopEndpointCommandTRB_bits_def NoOpCommandTRB_bits_def
  TransferEventTRB_bits_def CommandCompletionEventTRB_bits_def PortStatusChangeEventTRB_bits_def

lemma trb_layouts_fields:
  "\<forall>L \<in> set trb_layouts. field_at L ''trb_type'' = Some (106, 6) \<and> field_at L ''cycle_bit'' = Some (96, 1) \<and>
     layout_size L = (if L = PortStatusChangeEventTRB_bits then 112 else 128)"
  by code_simp

text \<open>What the constructors make; \<open>p\<close>, \<open>slot\<close> and \<open>e\<close> are their arguments.\<close>

definition constructed :: "u64 \<Rightarrow> u8 \<Rightarrow> nat \<Rightarrow> (nat \<times> trb) list" where
  "constructed p slot e =
    [(1, new_NormalTRB), (2, new_SetupStageTRB), (3, new_DataStageTRB), (4, new_StatusStageTRB),
     (6, new_LinkTRB p), (8, new_NoOpTRB), (9, new_EnableSlotCommandTRB),
     (11, new_AddressDeviceCommandTRB p slot), (12, new_ConfigureEndpointCommandTRB p slot),
     (15, new_StopEndpointCommandTRB e slot), (23, new_NoOpCommandTRB), (32, new_TransferEventTRB),
     (33, new_CommandCompletionEventTRB), (34, new_PortStatusChangeEventTRB)]"

lemmas trb_constructors =
  new_NormalTRB_def new_SetupStageTRB_def new_DataStageTRB_def new_StatusStageTRB_def new_LinkTRB_def
  new_NoOpTRB_def new_EnableSlotCommandTRB_def new_AddressDeviceCommandTRB_def
  new_ConfigureEndpointCommandTRB_def new_StopEndpointCommandTRB_def new_NoOpCommandTRB_def
  new_TransferEventTRB_def new_CommandCompletionEventTRB_def new_PortStatusChangeEventTRB_def
  LinkTRB_SetPointer_def AddressDeviceCommandTRB_SetPointer_def ConfigureEndpointCommandTRB_SetPointer_def

lemmas field_simps = field_at_def get_field_def set_field_def

lemma constructed_type:
  "\<forall>(ty, t) \<in> set (constructed p slot e). ty < 64 \<and> get_field TRB_bits ''trb_type'' t = of_nat ty"
  unfolding constructed_def list.set ball_simps prod.case trb_constructors trb_bits_defs
  by (simp add: field_simps)

lemma of_nat_trb_inj: "a < 64 \<Longrightarrow> b < 64 \<Longrightarrow> (of_nat a :: trb) = of_nat b \<longleftrightarrow> a = b"
  by (simp add: word_of_nat_eq_iff take_bit_nat_eq_self)

section \<open>Pointers\<close>

lemma shifted_pointer:
  assumes "take_bit 4 (p :: u64) = 0"
  shows "push_bit 4 (ucast (take_bit 60 (ucast (drop_bit 4 p) :: trb))) = p"
proof (rule bit_word_eqI)
  fix n assume n: "n < LENGTH(64)"
  have "\<not> bit p k" if "k < 4" for k using assms that by (metis bit_0_eq bit_take_bit_iff bot_apply bot_bool_def)
  with n show "bit (push_bit 4 (ucast (take_bit 60 (ucast (drop_bit 4 p) :: trb))) :: u64) n = bit p n"
    by (cases "4 \<le> n") (auto simp: bit_simps)
qed

lemma plain_pointer: "ucast (take_bit 64 (ucast (p :: u64) :: trb)) = p"
  by (rule bit_word_eqI) (auto simp: bit_simps)

lemma shifted_field:
  assumes "field_at L f = Some (a, 60)" "layout_size L \<le> 128" "take_bit 4 p = 0"
  shows "push_bit 4 (ucast (get_field L f (set_field L f (ucast (drop_bit 4 p)) (t :: trb)))) = (p :: u64)"
proof -
  have "layout_size L \<le> LENGTH(128)" using assms(2) by simp
  from get_set_same [OF assms(1) this] shifted_pointer [OF assms(3)] show ?thesis by (simp only:)
qed

lemma plain_field:
  assumes "field_at L f = Some (a, 64)" "layout_size L \<le> 128"
  shows "ucast (get_field L f (set_field L f (ucast p) (t :: trb))) = (p :: u64)"
proof -
  have "layout_size L \<le> LENGTH(128)" using assms(2) by simp
  from get_set_same [OF assms(1) this] plain_pointer [of p] show ?thesis by (simp only:)
qed

section \<open>Properties\<close>

text \<open>
  C37. A block made by one of the constructors is recovered by \<open>TRBDynamicCast\<close> as its own
  union and as no other: whatever pointer, slot and endpoint it was made with, the cast to
  type number \<open>ty'\<close> succeeds exactly for the number of its constructor.
\<close>

theorem cast_only_to_own_type:
  assumes "(ty, t) \<in> set (constructed p slot e)" "ty' < 64"
  shows "TRBDynamicCast ty' t = (if ty' = ty then Some t else None)"
proof -
  from bspec [OF constructed_type assms(1)] have "ty < 64" "get_field TRB_bits ''trb_type'' t = of_nat ty" by simp_all
  then show ?thesis unfolding TRBDynamicCast_def by (simp only: of_nat_trb_inj [OF assms(2)])
qed

theorem cast_only_to_own_type_witness:
  "TRBDynamicCast 6 (new_LinkTRB 0x1000) = Some (new_LinkTRB 0x1000)"
proof -
  have "(6, new_LinkTRB 0x1000) \<in> set (constructed 0x1000 0 0)" unfolding constructed_def list.set by blast
  from cast_only_to_own_type [OF this, of 6] have "6 < (64 :: nat) \<Longrightarrow> TRBDynamicCast 6 (new_LinkTRB 0x1000) = Some (new_LinkTRB 0x1000)"
    unfolding if_P [OF refl] .
  moreover have "6 < (64 :: nat)" by simp
  ultimately show ?thesis by (rule meta_mp)
qed

text \<open>
  A pointer to a 16-byte aligned object that is stored in a block is read back unchanged,
  by every pair of \<open>SetPointer\<close> and \<open>Pointer\<close>, although four of the unions keep only the upper
  60 bits.
\<close>

lemma trb_pointers_roundtrip:
  assumes "take_bit 4 p = 0"
  shows "\<forall>q \<in> set [LinkTRB_Pointer (LinkTRB_SetPointer p t),
      AddressDeviceCommandTRB_Pointer (AddressDeviceCommandTRB_SetPointer p t),
      ConfigureEndpointCommandTRB_Pointer (ConfigureEndpointCommandTRB_SetPointer p t),
      CommandCompletionEventTRB_Pointer (CommandCompletionEventTRB_SetPointer p t),
      NormalTRB_Pointer (NormalTRB_SetPointer p t), DataStageTRB_Pointer (DataStageTRB_SetPointer p t),
      TransferEventTRB_Pointer (TransferEventTRB_SetPointer p t)]. q = p"
proof -
  note unf = LinkTRB_Pointer_def LinkTRB_SetPointer_def AddressDeviceCommandTRB_Pointer_def
    AddressDeviceCommandTRB_SetPointer_def ConfigureEndpointCommandTRB_Pointer_def
    ConfigureEndpointCommandTRB_SetPointer_def CommandCompletionEventTRB_Pointer_def
    CommandCompletionEventTRB_SetPointer_def NormalTRB_Pointer_def NormalTRB_SetPointer_def
    DataStageTRB_Pointer_def DataStageTRB_SetPointer_def TransferEventTRB_Pointer_def TransferEventTRB_SetPointer_def
  show ?thesis
    unfolding unf list.set ball_simps
    by (intro conjI TrueI shifted_field [OF _ _ assms] plain_field; code_simp)
qed

lemma trb_pointers_roundtrip_witness:
  "LinkTRB_Pointer (LinkTRB_SetPointer 0x123450 0) = 0x123450"
proof -
  have "take_bit 4 (0x123450 :: u64) = 0" by simp
  from trb_pointers_roundtrip [OF this, of 0] show ?thesis unfolding list.set ball_simps by (elim conjE)
qed

lemma type_names_shifted:
  "length kTRBTypeToName = 63" "kTRBTypeToName ! 32 = ''Command Completion Event''"
  by code_simp+

end
