(* ===== verification/Xhci_Registers.thy ===== *)
theory Xhci_Registers
  imports Bit_Layouts
begin

text \<open>
  The registers of the host controller: \<open>kernel/usb/xhci/registers.hpp\<close>, \<open>registers.cpp\<close> and
  \<open>kernel/register.hpp\<close>.  A register is a word; \<open>MemMapRegister::Read\<close> and \<open>Write\<close>, which copy the
  words one by one, are the reading and updating of a record field.
\<close>

section \<open>Bit fields\<close>

definition HCSPARAMS1_Bitmap_bits :: layout where
  "HCSPARAMS1_Bitmap_bits =
    [(''max_device_slots'', 8), (''max_interrupters'', 11), ('''', 5), (''max_ports'', 8)]"

definition HCSPARAMS2_Bitmap_bits :: layout where
  "HCSPARAMS2_Bitmap_bits =
    [(''isochronous_scheduling_threshold'', 4), (''event_ring_segment_table_max'', 4), ('''', 13),
     (''max_scratchpad_buffers_high'', 5), (''scratchpad_restore'', 1),
     (''max_scratchpad_buffers_low'', 5)]"

definition HCSPARAMS3_Bitmap_bits :: layout where
  "HCSPARAMS3_Bitmap_bits =
    [(''u1_device_exit_latency'', 8), ('''', 8), (''u2_device_exit_latency'', 16)]"

definition HCCPARAMS1_Bitmap_bits :: layout where
  "HCCPARAMS1_Bitmap_bits =
    [(''addressing_capability_64'', 1), (''bw_negotiation_capability'', 1), (''context_size'', 1),
     (''port_power_control'', 1), (''port_indicators'', 1), (''light_hc_reset_capability'', 1),
     (''latency_tolerance_messaging_capability'', 1), (''no_secondary_sid_support'', 1),
     (''parse_all_event_data'', 1), (''stopped_short_packet_capability'', 1),
     (''stopped_edtla_capability'', 1), (''contiguous_frame_id_capability'', 1),
     (''maximum_primary_stream_array_size'', 4), (''xhci_extended_capabilities_pointer'', 16)]"

definition DBOFF_Bitmap_bits :: layout where
  "DBOFF_Bitmap_bits =
    [('''', 2), (''doorbell_array_offset'', 30)]"

definition RTSOFF_Bitmap_bits :: layout where
  "RTSOFF_Bitmap_bits =
    [('''', 5), (''runtime_register_space_offset'', 27)]"

definition HCCPARAMS2_Bitmap_bits :: layout where
  "HCCPARAMS2_Bitmap_bits =
    [(''u3_entry_capability'', 1), (''configure_endpoint_context_capability'', 1),
     (''compliance_transition_capability'', 1), (''large_esit_payload_capability'', 1),
     (''configuration_information_capability'', 1), ('''', 26)]"

definition USBCMD_Bitmap_bits :: layout where
  "USBCMD_Bitmap_bits =
    [(''run_stop'', 1), (''host_controller_reset'', 1), (''interrupter_enable'', 1),
     (''host_system_error_enable'', 1), ('''', 3), (''light_host_controller_reset'', 1),
     (''controller_save_state'', 1), (''controller_restore_state'', 1), (''enable_wrap_event'', 1),
     (''enable_u3_mfindex_stop'', 1), (''stopped_short_packet_enable'', 1), (''cem_enable'', 1),
     ('''', 18)]"

definition USBSTS_Bitmap_bits :: layout where
  "USBSTS_Bitmap_bits =
    [(''host_controller_halted'', 1), ('''', 1), (''host_system_error'', 1),
     (''event_interrupt'', 1), (''port_change_detect'', 1), ('''', 3), (''save_state_status'', 1),
     (''restore_state_status'', 1), (''save_restore_error'', 1), (''controller_not_ready'', 1),
     (''host_controller_error'', 1), ('''', 19)]"

definition CRCR_Bitmap_bits :: layout where
  "CRCR_Bitmap_bits =
    [(''ring_cycle_state'', 1), (''command_stop'', 1), (''command_abort'', 1),
     (''command_ring_running'', 1), ('''', 2), (''command_ring_pointer'', 58)]"

definition DCBAAP_Bitmap_bits :: layout where
  "DCBAAP_Bitmap_bits =
    [('''', 6), (''device_context_base_address_array_pointer'', 26)]"

definition CONFIG_Bitmap_bits :: layout where
  "CONFIG_Bitmap_bits =
    [(''max_device_slots_enabled'', 8), (''u3_entry_enable'', 1),
     (''configuration_information_enable'', 1), ('''', 22)]"

definition PORTSC_Bitmap_bits :: layout where
  "PORTSC_Bitmap_bits =
    [(''current_connect_status'', 1), (''port_enabled_disabled'', 1), ('''', 1),
     (''over_current_active'', 1), (''port_reset'', 1), (''port_link_state'', 4),
     (''port_power'', 1), (''port_speed'', 4), (''port_indicator_control'', 2),
     (''port_link_state_write_strobe'', 1), (''connect_status_change'', 1),
     (''port_enabled_disabled_change'', 1), (''warm_port_reset_change'', 1),
     (''over_current_change'', 1), (''port_reset_change'', 1), (''port_link_state_change'', 1),
     (''port_config_error_change'', 1), (''cold_attach_status'', 1),
     (''wake_on_connect_enable'', 1), (''wake_on_disconnect_enable'', 1),
     (''wake_on_over_current_enable'', 1), ('''', 2), (''device_removable'', 1),
     (''warm_port_reset'', 1)]"

definition PORTPMSC_Bitmap_bits :: layout where
  "PORTPMSC_Bitmap_bits =
    [(''u1_timeout'', 8), (''u2_timeout'', 8), (''force_link_pm_accept'', 1), ('''', 15)]"

definition PORTLI_Bitmap_bits :: layout where
  "PORTLI_Bitmap_bits =
    [(''link_error_count'', 16), (''rx_lane_count'', 4), (''tx_lane_count'', 4), ('''', 8)]"

definition PORTHLPMC_Bitmap_bits :: layout where
  "PORTHLPMC_Bitmap_bits =
    [(''host_initiated_resume_duration_mode'', 2), (''l1_timeout'', 8),
     (''best_effort_service_latency_deep'', 4), ('''', 18)]"

definition IMAN_Bitmap_bits :: layout where
  "IMAN_Bitmap_bits =
    [(''interrupt_pending'', 1), (''interrupt_enable'', 1), ('''', 30)]"

definition IMOD_Bitmap_bits :: layout where
  "IMOD_Bitmap_bits =
    [(''interrupt_moderation_interval'', 16), (''interrupt_moderation_counter'', 16)]"

definition ERSTSZ_Bitmap_bits :: layout where
  "ERSTSZ_Bitmap_bits =
    [(''event_ring_segment_table_size'', 16), ('''', 16)]"

definition ERSTBA_Bitmap_bits :: layout where
  "ERSTBA_Bitmap_bits =
    [('''', 6), (''event_ring_segment_table_base_address'', 58)]"

definition ERDP_Bitmap_bits :: layout where
  "ERDP_Bitmap_bits =
    [(''dequeue_erst_segment_index'', 3), (''event_handler_busy'', 1),
     (''event_ring_dequeue_pointer'', 60)]"

definition Doorbell_Bitmap_bits :: layout where
  "Doorbell_Bitmap_bits =
    [(''db_target'', 8), ('''', 8), (''db_stream_id'', 16)]"

definition ExtendedRegister_Bitmap_bits :: layout where
  "ExtendedRegister_Bitmap_bits =
    [(''capability_id'', 8), (''next_pointer'', 8), (''value'', 16)]"

definition USBLEGSUP_Bitmap_bits :: layout where
  "USBLEGSUP_Bitmap_bits =
    [(''capability_id'', 8), (''next_pointer'', 8), (''hc_bios_owned_semaphore'', 1), ('''', 7),
     (''hc_os_owned_semaphore'', 1), ('''', 7)]"

section \<open>Methods of the bitmaps\<close>

definition DBOFF_Offset :: "u32 \<Rightarrow> u32" where
  "DBOFF_Offset x = push_bit 2 (get_field DBOFF_Bitmap_bits ''doorbell_array_offset'' x)"

definition RTSOFF_Offset :: "u32 \<Rightarrow> u32" where
  "RTSOFF_Offset x = push_bit 5 (get_field RTSOFF_Bitmap_bits ''runtime_register_space_offset'' x)"

definition CRCR_Pointer :: "u64 \<Rightarrow> u64" where
  "CRCR_Pointer x = push_bit 6 (get_field CRCR_Bitmap_bits ''command_ring_pointer'' x)"

definition CRCR_SetPointer :: "u64 \<Rightarrow> u64 \<Rightarrow> u64" where
  "CRCR_SetPointer value x = set_field CRCR_Bitmap_bits ''command_ring_pointer'' (drop_bit 6 value) x"

definition DCBAAP_Pointer :: "u64 \<Rightarrow> u64" where
  "DCBAAP_Pointer x = push_bit 6 (get_field DCBAAP_Bitmap_bits ''device_context_base_address_array_pointer'' x)"

definition DCBAAP_SetPointer :: "u64 \<Rightarrow> u64 \<Rightarrow> u64" where
  "DCBAAP_SetPointer value x =
    set_field DCBAAP_Bitmap_bits ''device_context_base_address_array_pointer'' (drop_bit 6 value) x"

definition ERSTSZ_Size :: "u32 \<Rightarrow> u16" where
  "ERSTSZ_Size x = ucast (get_field ERSTSZ_Bitmap_bits ''event_ring_segment_table_size'' x)"

definition ERSTSZ_SetSize :: "u16 \<Rightarrow> u32 \<Rightarrow> u32" where
  "ERSTSZ_SetSize value x = set_field ERSTSZ_Bitmap_bits ''event_ring_segment_table_size'' (ucast value) x"

text \<open>The result type of the source is 16 bits wide.\<close>

definition ERSTBA_Pointer :: "u64 \<Rightarrow> u16" where
  "ERSTBA_Pointer x =
    ucast (push_bit 6 (get_field ERSTBA_Bitmap_bits ''event_ring_segment_table_base_address'' x))"

definition ERSTBA_SetPointer :: "u64 \<Rightarrow> u64 \<Rightarrow> u64" where
  "ERSTBA_SetPointer value x =
    set_field ERSTBA_Bitmap_bits ''event_ring_segment_table_base_address'' (drop_bit 6 value) x"

definition ERDP_Pointer :: "u64 \<Rightarrow> u64" where
  "ERDP_Pointer x = push_bit 4 (get_field ERDP_Bitmap_bits ''event_ring_dequeue_pointer'' x)"

definition ERDP_SetPointer :: "u64 \<Rightarrow> u64 \<Rightarrow> u64" where
  "ERDP_SetPointer value x = set_field ERDP_Bitmap_bits ''event_ring_dequeue_pointer'' (drop_bit 4 value) x"

text \<open>The value that \<open>DoorbellRegister::Ring\<close> writes.\<close>

definition Doorbell_Ring :: "u8 \<Rightarrow> u16 \<Rightarrow> u32" where
  "Doorbell_Ring target stream_id =
    set_field Doorbell_Bitmap_bits ''db_stream_id'' (ucast stream_id)
      (set_field Doorbell_Bitmap_bits ''db_target'' (ucast target) 0)"

section \<open>Register sets\<close>

record CapabilityRegisters =
  CAPLENGTH :: u8
  HCIVERSION :: u16
  HCSPARAMS1 :: u32
  HCSPARAMS2 :: u32
  HCSPARAMS3 :: u32
  HCCPARAMS1 :: u32
  DBOFF :: u32
  RTSOFF :: u32
  HCCPARAMS2 :: u32

record OperationalRegisters =
  USBCMD :: u32
  USBSTS :: u32
  PAGESIZE :: u32
  DNCTRL :: u32
  CRCR :: u64
  DCBAAP :: u64
  CONFIG :: u32

record PortRegisterSet =
  PORTSC :: u32
  PORTPMSC :: u32
  PORTLI :: u32
  PORTHLPMC :: u32

record InterrupterRegisterSet =
  IMAN :: u32
  IMOD :: u32
  ERSTSZ :: u32
  ERSTBA :: u64
  ERDP :: u64

text \<open>\<open>ArrayWrapper\<close>: the address of an element; there is no check.\<close>

definition ArrayWrapper_at :: "u64 \<Rightarrow> nat \<Rightarrow> nat \<Rightarrow> u64" where
  "ArrayWrapper_at array_base_addr element_size index = array_base_addr + of_nat (element_size * index)"

section \<open>Extended capabilities\<close>

text \<open>Pointers are addresses, \<open>0\<close> the null pointer; the elements are 4 bytes.\<close>

definition AddOrNull :: "u64 \<Rightarrow> u32 \<Rightarrow> u64" where
  "AddOrNull p d = (if d = 0 then 0 else p + 4 * ucast d)"

definition ExtendedRegister_next :: "(u64 \<Rightarrow> u32) \<Rightarrow> u64 \<Rightarrow> u64" where
  "ExtendedRegister_next mem reg =
    (if reg \<noteq> 0 then AddOrNull reg (get_field ExtendedRegister_Bitmap_bits ''next_pointer'' (mem reg)) else reg)"

definition ExtendedRegister_first :: "u64 \<Rightarrow> u32 \<Rightarrow> u64" where
  "ExtendedRegister_first mmio_base hccp =
    AddOrNull mmio_base (get_field HCCPARAMS1_Bitmap_bits ''xhci_extended_capabilities_pointer'' hccp)"

lemmas register_bits_defs =
  HCSPARAMS1_Bitmap_bits_def
  HCSPARAMS2_Bitmap_bits_def
  HCSPARAMS3_Bitmap_bits_def
  HCCPARAMS1_Bitmap_bits_def
  DBOFF_Bitmap_bits_def
  RTSOFF_Bitmap_bits_def
  HCCPARAMS2_Bitmap_bits_def
  USBCMD_Bitmap_bits_def
  USBSTS_Bitmap_bits_def
  CRCR_Bitmap_bits_def
  DCBAAP_Bitmap_bits_def
  CONFIG_Bitmap_bits_def
  PORTSC_Bitmap_bits_def
  PORTPMSC_Bitmap_bits_def
  PORTLI_Bitmap_bits_def
  PORTHLPMC_Bitmap_bits_def
  IMAN_Bitmap_bits_def
  IMOD_Bitmap_bits_def
  ERSTSZ_Bitmap_bits_def
  ERSTBA_Bitmap_bits_def
  ERDP_Bitmap_bits_def
  Doorbell_Bitmap_bits_def
  ExtendedRegister_Bitmap_bits_def
  USBLEGSUP_Bitmap_bits_def

lemma register_layout_sizes:
  "\<forall>(L, n) \<in> set
    [(HCSPARAMS1_Bitmap_bits, 32), (HCSPARAMS2_Bitmap_bits, 32), (HCSPARAMS3_Bitmap_bits, 32),
     (HCCPARAMS1_Bitmap_bits, 32), (DBOFF_Bitmap_bits, 32), (RTSOFF_Bitmap_bits, 32),
     (USBCMD_Bitmap_bits, 32), (USBSTS_Bitmap_bits, 32), (CRCR_Bitmap_bits, 64), (CONFIG_Bitmap_bits, 32),
     (PORTSC_Bitmap_bits, 32), (PORTPMSC_Bitmap_bits, 32), (PORTLI_Bitmap_bits, 32), (PORTHLPMC_Bitmap_bits, 32),
     (IMAN_Bitmap_bits, 32), (IMOD_Bitmap_bits, 32), (ERSTSZ_Bitmap_bits, 32), (ERSTBA_Bitmap_bits, 64),
     (ERDP_Bitmap_bits, 64), (Doorbell_Bitmap_bits, 32), (ExtendedRegister_Bitmap_bits, 32),
     (USBLEGSUP_Bitmap_bits, 32)]. layout_size L = n"
  by code_simp

text \<open>Two layouts are shorter than their registers.\<close>

lemma short_layouts: "layout_size DCBAAP_Bitmap_bits = 32" "layout_size HCCPARAMS2_Bitmap_bits = 31"
  by code_simp+

section \<open>Pointers in registers\<close>

lemma push_take_drop:
  assumes "take_bit k (p :: u64) = 0" "p = take_bit (k + n) p"
  shows "push_bit k (take_bit n (drop_bit k p)) = p"
proof (rule bit_word_eqI)
  fix i assume "i < LENGTH(64)"
  have "\<not> bit p j" if "j < k" for j using assms(1) that by (metis bit_0_eq bit_take_bit_iff bot_apply bot_bool_def)
  then have low: "k \<le> i" if "bit p i" using that not_le by blast
  have high: "i < k + n" if "bit p i" using assms(2) that by (metis bit_take_bit_iff)
  show "bit (push_bit k (take_bit n (drop_bit k p))) i = bit p i"
    using low high \<open>i < LENGTH(64)\<close> by (cases "k \<le> i") (auto simp: bit_simps)
qed

lemma pointer_field:
  assumes "field_at L f = Some (k, n)" "layout_size L \<le> 64" "take_bit k p = 0" "p = take_bit (k + n) p"
  shows "push_bit k (get_field L f (set_field L f (drop_bit k p) (x :: u64))) = p"
proof -
  have "layout_size L \<le> LENGTH(64)" using assms(2) by simp
  from get_set_same [OF assms(1) this] push_take_drop [OF assms(3,4)] show ?thesis by (simp only:)
qed

lemma register_pointers:
  "take_bit 6 p = 0 \<Longrightarrow> CRCR_Pointer (CRCR_SetPointer p x) = p"
  "take_bit 4 p = 0 \<Longrightarrow> ERDP_Pointer (ERDP_SetPointer p x) = p"
  "take_bit 6 p = 0 \<Longrightarrow> p = take_bit 32 p \<Longrightarrow> DCBAAP_Pointer (DCBAAP_SetPointer p x) = p"
proof -
  have full: "p = take_bit (k + n) p" if "64 \<le> k + n" for k n and p :: u64
    using that by (simp add: take_bit_word_beyond_length_eq)
  show "take_bit 6 p = 0 \<Longrightarrow> CRCR_Pointer (CRCR_SetPointer p x) = p"
    unfolding CRCR_Pointer_def CRCR_SetPointer_def
    by (rule pointer_field [where n = 58], code_simp, code_simp, assumption, rule full, simp)
  show "take_bit 4 p = 0 \<Longrightarrow> ERDP_Pointer (ERDP_SetPointer p x) = p"
    unfolding ERDP_Pointer_def ERDP_SetPointer_def
    by (rule pointer_field [where n = 60], code_simp, code_simp, assumption, rule full, simp)
  show "take_bit 6 p = 0 \<Longrightarrow> p = take_bit 32 p \<Longrightarrow> DCBAAP_Pointer (DCBAAP_SetPointer p x) = p"
    unfolding DCBAAP_Pointer_def DCBAAP_SetPointer_def
    by (rule pointer_field [where n = 26], code_simp, code_simp, assumption, simp)
qed

text \<open>An address above 4 GB does not fit the 26 bits of \<open>DCBAAP_Bitmap\<close>.\<close>

lemma DCBAAP_truncates: "DCBAAP_Pointer (DCBAAP_SetPointer 0x100000040 0) = 0x40"
  by code_simp

end
