(* ===== verification/Xhci_Rings.thy ===== *)
theory Xhci_Rings
  imports Usb_Memory Trb Xhci_Registers
begin

text \<open>
  The command, transfer and event rings: \<open>kernel/usb/xhci/ring.hpp\<close> and \<open>ring.cpp\<close>.  The memory
  that holds transfer request blocks maps the address of a block to the block; the driver
  stores the four 32-bit words of a block one after another.  \<open>0\<close> is the null pointer.
\<close>

section \<open>Memory\<close>

type_synonym trb_heap = "u64 \<Rightarrow> trb"

definition trb_addr :: "u64 \<Rightarrow> nat \<Rightarrow> u64" where
  "trb_addr buf i = buf + of_nat (16 * i)"

definition store_dword :: "u64 \<Rightarrow> nat \<times> u32 \<Rightarrow> trb_heap \<Rightarrow> trb_heap" where
  "store_dword p iv h = h(p := put_bits (32 * fst iv) 32 (ucast (snd iv)) (h p))"

definition trb_dword :: "trb \<Rightarrow> nat \<Rightarrow> u32" where
  "trb_dword t i = ucast (get_bits (32 * i) 32 t)"

text \<open>\<open>memset\<close> of \<open>n\<close> blocks.\<close>

definition zero_trbs :: "u64 \<Rightarrow> nat \<Rightarrow> trb_heap \<Rightarrow> trb_heap" where
  "zero_trbs buf n h = fold (\<lambda>i h. h(trb_addr buf i := 0)) [0..<n] h"

section \<open>Command and transfer rings\<close>

record Ring =
  ring_buf :: u64
  ring_size :: nat
  ring_cycle :: bool
  ring_write :: nat

text \<open>\<open>ptr\<close> is the state of the memory pool.\<close>

definition Ring_Initialize ::
  "u64 \<Rightarrow> nat \<Rightarrow> Ring \<Rightarrow> u64 \<Rightarrow> trb_heap \<Rightarrow> Ring \<times> u64 \<times> trb_heap \<times> ErrorCode" where
  "Ring_Initialize memory_pool buf_size r ptr h =
    (let ptr0 = (if ring_buf r \<noteq> 0 then FreeMem (ring_buf r) ptr else ptr);
         (ptr1, p) = AllocArray memory_pool 16 (of_nat buf_size) 64 (64 * 1024) ptr0;
         r1 = r\<lparr>ring_cycle := True, ring_write := 0, ring_size := buf_size\<rparr>
     in case p of
          None \<Rightarrow> (r1\<lparr>ring_buf := 0\<rparr>, ptr1, h, kNoEnoughMemory)
        | Some buf \<Rightarrow> (r1\<lparr>ring_buf := buf\<rparr>, ptr1, zero_trbs buf buf_size h, kSuccess))"

text \<open>The stores of \<open>CopyToLast\<close>, in their order: the word with the cycle bit comes last.\<close>

definition copy_stores :: "bool \<Rightarrow> trb \<Rightarrow> (nat \<times> u32) list" where
  "copy_stores cycle data =
    [(0, trb_dword data 0), (1, trb_dword data 1), (2, trb_dword data 2),
     (3, (trb_dword data 3 AND 0xfffffffe) OR (if cycle then 1 else 0))]"

definition CopyToLast :: "Ring \<Rightarrow> trb \<Rightarrow> trb_heap \<Rightarrow> trb_heap" where
  "CopyToLast r data h = fold (store_dword (trb_addr (ring_buf r) (ring_write r))) (copy_stores (ring_cycle r) data) h"

definition Ring_Push :: "Ring \<Rightarrow> trb \<Rightarrow> trb_heap \<Rightarrow> Ring \<times> trb_heap \<times> u64" where
  "Ring_Push r data h =
    (let trb_ptr = trb_addr (ring_buf r) (ring_write r);
         h1 = CopyToLast r data h;
         r1 = r\<lparr>ring_write := ring_write r + 1\<rparr>
     in if ring_write r1 = ring_size r - 1
        then let link = set_field LinkTRB_bits ''toggle_cycle'' 1 (new_LinkTRB (ring_buf r));
                 h2 = CopyToLast r1 link h1
             in (r1\<lparr>ring_write := 0, ring_cycle := \<not> ring_cycle r\<rparr>, h2, trb_ptr)
        else (r1, h1, trb_ptr))"

section \<open>Event rings\<close>

definition EventRingSegmentTableEntry_bits :: layout where
  "EventRingSegmentTableEntry_bits =
    [(''ring_segment_base_address'', 64), (''ring_segment_size'', 16), ('''', 16), ('''', 32)]"

record EventRing =
  er_buf :: u64
  er_buf_size :: nat
  er_cycle :: bool
  er_erst :: trb
  er_erst_addr :: u64

definition WriteDequeuePointer :: "u64 \<Rightarrow> InterrupterRegisterSet \<Rightarrow> InterrupterRegisterSet" where
  "WriteDequeuePointer p regs = regs\<lparr>ERDP := ERDP_SetPointer p (ERDP regs)\<rparr>"

definition ReadDequeuePointer :: "InterrupterRegisterSet \<Rightarrow> u64" where
  "ReadDequeuePointer regs = ERDP_Pointer (ERDP regs)"

definition EventRing_Initialize ::
  "u64 \<Rightarrow> nat \<Rightarrow> EventRing \<Rightarrow> InterrupterRegisterSet \<Rightarrow> u64 \<Rightarrow> trb_heap
    \<Rightarrow> EventRing \<times> InterrupterRegisterSet \<times> u64 \<times> trb_heap \<times> ErrorCode" where
  "EventRing_Initialize memory_pool buf_size er regs ptr h =
    (let ptr0 = (if er_buf er \<noteq> 0 then FreeMem (er_buf er) ptr else ptr);
         (ptr1, p) = AllocArray memory_pool 16 (of_nat buf_size) 64 (64 * 1024) ptr0;
         er1 = er\<lparr>er_cycle := True, er_buf_size := buf_size\<rparr>
     in case p of
          None \<Rightarrow> (er1\<lparr>er_buf := 0\<rparr>, regs, ptr1, h, kNoEnoughMemory)
        | Some buf \<Rightarrow>
            let h1 = zero_trbs buf buf_size h;
                (ptr2, q) = AllocArray memory_pool 16 1 64 (64 * 1024) ptr1
            in case q of
                 None \<Rightarrow> (er1\<lparr>er_buf := buf, er_erst_addr := 0\<rparr>, regs, FreeMem buf ptr2, h1, kNoEnoughMemory)
               | Some erst \<Rightarrow>
                   let entry = set_field EventRingSegmentTableEntry_bits ''ring_segment_size'' (of_nat buf_size)
                         (set_field EventRingSegmentTableEntry_bits ''ring_segment_base_address'' (ucast buf) 0);
                       regs1 = regs\<lparr>ERSTSZ := ERSTSZ_SetSize 1 (ERSTSZ regs)\<rparr>;
                       regs2 = WriteDequeuePointer buf regs1;
                       regs3 = regs2\<lparr>ERSTBA := ERSTBA_SetPointer erst (ERSTBA regs2)\<rparr>
                   in (er1\<lparr>er_buf := buf, er_erst := entry, er_erst_addr := erst\<rparr>, regs3, ptr2, h1, kSuccess))"

definition Front :: "InterrupterRegisterSet \<Rightarrow> u64" where
  "Front regs = ReadDequeuePointer regs"

definition HasFront :: "EventRing \<Rightarrow> InterrupterRegisterSet \<Rightarrow> trb_heap \<Rightarrow> bool" where
  "HasFront er regs h \<longleftrightarrow> get_field TRB_bits ''cycle_bit'' (h (Front regs)) = (if er_cycle er then 1 else 0)"

definition EventRing_Pop :: "EventRing \<Rightarrow> InterrupterRegisterSet \<Rightarrow> EventRing \<times> InterrupterRegisterSet" where
  "EventRing_Pop er regs =
    (let p = ReadDequeuePointer regs + 16;
         segment_begin = ucast (get_field EventRingSegmentTableEntry_bits ''ring_segment_base_address'' (er_erst er));
         segment_size = unat (get_field EventRingSegmentTableEntry_bits ''ring_segment_size'' (er_erst er));
         segment_end = trb_addr segment_begin segment_size
     in if p = segment_end then (er\<lparr>er_cycle := \<not> er_cycle er\<rparr>, WriteDequeuePointer segment_begin regs)
        else (er, WriteDequeuePointer p regs))"

section \<open>Copying a block\<close>

definition with_cycle :: "bool \<Rightarrow> trb \<Rightarrow> trb" where
  "with_cycle c t = set_field TRB_bits ''cycle_bit'' (if c then 1 else 0) t"

lemma cycle_field: "field_at TRB_bits ''cycle_bit'' = Some (96, 1)"
  by code_simp

lemma get_cycle: "get_field TRB_bits ''cycle_bit'' t = get_bits 96 1 t"
  by (simp add: get_field_def cycle_field)

lemma with_cycle_bits: "with_cycle c t = put_bits 96 1 (if c then 1 else 0) t"
  by (simp add: with_cycle_def set_field_def cycle_field)

lemma cycle_with_cycle: "get_field TRB_bits ''cycle_bit'' (with_cycle c t) = (if c then 1 else 0)"
  by (simp add: get_cycle with_cycle_bits)

lemma mask_word: "(0xfffffffe :: u32) = NOT 1"
  by simp

lemma last_dword:
  "bit ((trb_dword t 3 AND 0xfffffffe) OR (if c then 1 else 0) :: u32) k \<longleftrightarrow>
     k < 32 \<and> (if k = 0 then c else bit t (96 + k))"
  unfolding mask_word by (cases k) (auto simp: trb_dword_def bit_simps word_bits dest: bit_imp_le_length)

lemma put_dwords:
  "put_bits 96 32 (ucast ((trb_dword t 3 AND 0xfffffffe) OR (if c then 1 else 0) :: u32))
     (put_bits 64 32 (ucast (trb_dword t 2)) (put_bits 32 32 (ucast (trb_dword t 1)) (put_bits 0 32 (ucast (trb_dword t 0)) x)))
   = with_cycle c t"
proof (rule bit_word_eqI)
  fix i assume i: "i < LENGTH(128)"
  have d: "bit (trb_dword t j) k \<longleftrightarrow> k < 32 \<and> bit t (32 * j + k)" for j k
    by (auto simp: trb_dword_def bit_simps word_bits)
  consider "i < 32" | "32 \<le> i" "i < 64" | "64 \<le> i" "i < 96" | "i = 96" | "96 < i" "i < 128" using i by force
  then show "bit (put_bits 96 32 (ucast ((trb_dword t 3 AND 0xfffffffe) OR (if c then 1 else 0) :: u32))
      (put_bits 64 32 (ucast (trb_dword t 2)) (put_bits 32 32 (ucast (trb_dword t 1))
        (put_bits 0 32 (ucast (trb_dword t 0)) x)))) i = bit (with_cycle c t) i"
    unfolding bit_put_bits with_cycle_bits bit_ucast_iff last_dword d
    by cases auto
qed

lemma copy_stores_effect: "fold (store_dword p) (copy_stores c t) h = h(p := with_cycle c t)"
  using put_dwords [of t c "h p"] by (simp add: copy_stores_def store_dword_def fun_upd_def fun_eq_iff)

lemma CopyToLast_effect:
  "CopyToLast r data h = h(trb_addr (ring_buf r) (ring_write r) := with_cycle (ring_cycle r) data)"
  by (simp add: CopyToLast_def copy_stores_effect)

lemma copy_stores_prefix:
  assumes "k < 4"
  shows "get_field TRB_bits ''cycle_bit'' (fold (store_dword p) (take k (copy_stores c t)) h p) =
    get_field TRB_bits ''cycle_bit'' (h p)"
proof -
  consider "k = 0" | "k = 1" | "k = 2" | "k = 3" using assms by linarith
  then show ?thesis unfolding get_cycle copy_stores_def
    by cases (simp_all add: store_dword_def eval_nat_numeral)
qed

section \<open>A ring as the controller sees it\<close>

text \<open>
  The \<open>k\<close>-th block pushed lies in slot \<open>k mod m\<close> of the \<open>m\<close> slots before the link block, and
  its cycle bit is that of its round.
\<close>

definition round_cycle :: "nat \<Rightarrow> nat \<Rightarrow> bool" where
  "round_cycle m k \<longleftrightarrow> even (k div m)"

fun push_all :: "trb list \<Rightarrow> Ring \<times> trb_heap \<Rightarrow> Ring \<times> trb_heap" where
  "push_all [] s = s"
| "push_all (t # ts) (r, h) = (case Ring_Push r t h of (r', h', p) \<Rightarrow> push_all ts (r', h'))"

definition link_block :: "u64 \<Rightarrow> trb" where
  "link_block buf = set_field LinkTRB_bits ''toggle_cycle'' 1 (new_LinkTRB buf)"

definition ring_state :: "u64 \<Rightarrow> nat \<Rightarrow> trb list \<Rightarrow> Ring \<Rightarrow> trb_heap \<Rightarrow> bool" where
  "ring_state buf m ts r h \<longleftrightarrow>
    (let n = length ts in
     ring_buf r = buf \<and> ring_size r = m + 1 \<and> ring_write r = n mod m \<and> ring_cycle r = round_cycle m n \<and>
     (\<forall>k < n. n \<le> k + m \<longrightarrow> h (trb_addr buf (k mod m)) = with_cycle (round_cycle m k) (ts ! k)) \<and>
     (\<forall>i < m. n \<le> i \<longrightarrow> h (trb_addr buf i) = 0) \<and>
     (m \<le> n \<longrightarrow> h (trb_addr buf m) = with_cycle (\<not> round_cycle m n) (link_block buf)))"

lemma trb_addr_inj:
  assumes "16 * a < 2 ^ 64" "16 * b < 2 ^ 64"
  shows "trb_addr buf a = trb_addr buf b \<longleftrightarrow> a = b"
proof -
  have "(of_nat (16 * a) :: u64) = of_nat (16 * b) \<longleftrightarrow> 16 * a = 16 * b"
    using assms by (simp add: word_of_nat_eq_iff take_bit_nat_eq_self del: of_nat_mult)
  then show ?thesis by (simp add: trb_addr_def)
qed

lemma mod_distinct:
  assumes "k < n" "n < k + m" shows "k mod m \<noteq> n mod (m :: nat)"
proof
  assume "k mod m = n mod m"
  then have "n mod m = k mod m" by simp
  then have "m dvd n - k" using assms(1) mod_eq_dvd_iff_nat [of k n m] by simp
  then show False using assms by (auto dest: dvd_imp_le)
qed

lemma round_cycle_Suc:
  "0 < m \<Longrightarrow> round_cycle m (Suc n) = (if Suc n mod m = 0 then \<not> round_cycle m n else round_cycle m n)"
  by (simp add: round_cycle_def div_Suc)

lemma ring_push_state:
  assumes st: "ring_state buf m ts r h" and m: "0 < m" "16 * (m + 1) < 2 ^ 64"
  shows "\<exists>r' h'. Ring_Push r t h = (r', h', trb_addr buf (length ts mod m)) \<and> ring_state buf m (ts @ [t]) r' h'"
proof -
  let ?n = "length ts"
  let ?s = "?n mod m"
  have r: "ring_buf r = buf" "ring_size r = m + 1" "ring_write r = ?s" "ring_cycle r = round_cycle m ?n"
    and old: "\<And>k. k < ?n \<Longrightarrow> ?n \<le> k + m \<Longrightarrow> h (trb_addr buf (k mod m)) = with_cycle (round_cycle m k) (ts ! k)"
    and fresh: "\<And>i. i < m \<Longrightarrow> ?n \<le> i \<Longrightarrow> h (trb_addr buf i) = 0"
    and lnk: "m \<le> ?n \<Longrightarrow> h (trb_addr buf m) = with_cycle (\<not> round_cycle m ?n) (link_block buf)"
    using st by (auto simp: ring_state_def Let_def)
  have s: "?s < m" using m(1) by simp
  have inj: "trb_addr buf a = trb_addr buf b \<longleftrightarrow> a = b" if "a \<le> m" "b \<le> m" for a b
    using that m(2) by (intro trb_addr_inj) auto
  define h1 where "h1 = h(trb_addr buf ?s := with_cycle (round_cycle m ?n) t)"
  have copy: "CopyToLast r t h = h1" by (simp add: CopyToLast_effect r h1_def)
  have h1_old: "h1 (trb_addr buf (k mod m)) = with_cycle (round_cycle m k) ((ts @ [t]) ! k)"
    if "k < Suc ?n" "Suc ?n \<le> k + m" for k
  proof (cases "k = ?n")
    case False
    then have "k < ?n" "?n < k + m" using that by simp_all
    moreover from mod_distinct [OF this] have "trb_addr buf (k mod m) \<noteq> trb_addr buf ?s"
      using s m(1) by (subst inj) (simp_all add: less_imp_le)
    ultimately show ?thesis using old [of k] by (simp add: h1_def nth_append)
  qed (simp add: h1_def)
  have h1_fresh: "h1 (trb_addr buf i) = 0" if "i < m" "Suc ?n \<le> i" for i
  proof -
    have "?s \<noteq> i" using that mod_le_divisor s by (metis Suc_n_not_le_n mod_less_eq_dividend order_trans not_less_eq_eq)
    then have "trb_addr buf i \<noteq> trb_addr buf ?s" using that s by (subst inj) auto
    then show ?thesis using fresh [of i] that by (simp add: h1_def)
  qed
  have h1_link: "h1 (trb_addr buf m) = h (trb_addr buf m)" using s inj [of m ?s] by (simp add: h1_def)
  show ?thesis
  proof (cases "Suc ?s = m")
    case True
    then have wrap: "Suc ?n mod m = 0" by (simp add: mod_Suc)
    then have "m \<le> Suc ?n" by (metis Suc_le_eq dvd_imp_le mod_0_imp_dvd zero_less_Suc)
    define h2 where "h2 = h1(trb_addr buf m := with_cycle (round_cycle m ?n) (link_block buf))"
    define r' where "r' = r\<lparr>ring_write := 0, ring_cycle := \<not> round_cycle m ?n\<rparr>"
    have "Ring_Push r t h = (r', h2, trb_addr buf ?s)"
      using True r by (simp add: Ring_Push_def CopyToLast_effect h1_def h2_def link_block_def r'_def Let_def)
    moreover have "h2 (trb_addr buf i) = h1 (trb_addr buf i)" if "i < m" for i
      using inj [of i m] that by (simp add: h2_def)
    with h1_old h1_fresh m(1) have "ring_state buf m (ts @ [t]) r' h2"
      using r wrap round_cycle_Suc [OF m(1), of ?n] by (simp add: ring_state_def Let_def r'_def) (simp add: h2_def)
    ultimately show ?thesis by blast
  next
    case False
    then have nowrap: "Suc ?n mod m = Suc ?s" by (simp add: mod_Suc)
    define r' where "r' = r\<lparr>ring_write := Suc ?s\<rparr>"
    have "Ring_Push r t h = (r', h1, trb_addr buf ?s)"
      using False r s by (simp add: Ring_Push_def copy r'_def Let_def)
    moreover have "m \<le> ?n" if "m \<le> Suc ?n"
    proof (rule ccontr)
      assume "\<not> m \<le> ?n"
      with that have "m = Suc ?n" by simp
      with nowrap show False by simp
    qed
    with h1_old h1_fresh h1_link lnk have "ring_state buf m (ts @ [t]) r' h1"
      using r nowrap round_cycle_Suc [OF m(1), of ?n] by (simp add: ring_state_def Let_def r'_def)
    ultimately show ?thesis by blast
  qed
qed

lemma push_all_state:
  assumes "0 < m" "16 * (m + 1) < 2 ^ 64"
  shows "ring_state buf m us r h \<Longrightarrow> push_all ts (r, h) = (r', h') \<Longrightarrow> ring_state buf m (us @ ts) r' h'"
proof (induction ts arbitrary: us r h)
  case (Cons t ts)
  from ring_push_state [OF Cons.prems(1) assms, of t] obtain r1 h1 where
    "Ring_Push r t h = (r1, h1, trb_addr buf (length us mod m))" "ring_state buf m (us @ [t]) r1 h1" by blast
  with Cons.IH [of "us @ [t]" r1 h1] Cons.prems(2) show ?case by simp
qed simp

lemma ring_next_free:
  assumes st: "ring_state buf m ts r h" and m: "0 < m"
  shows "get_field TRB_bits ''cycle_bit'' (h (trb_addr buf (length ts mod m))) \<noteq> (if round_cycle m (length ts) then 1 else 0)"
proof (cases "m \<le> length ts")
  case True
  let ?k = "length ts - m"
  have k: "?k mod m = length ts mod m" "round_cycle m ?k = (\<not> round_cycle m (length ts))"
    using True m by (simp_all add: round_cycle_def le_mod_geq le_div_geq)
  have "h (trb_addr buf (?k mod m)) = with_cycle (round_cycle m ?k) (ts ! ?k)"
    using st True m by (simp add: ring_state_def Let_def)
  then show ?thesis unfolding k by (simp add: cycle_with_cycle)
next
  case False
  then have "h (trb_addr buf (length ts mod m)) = 0" using st by (simp add: ring_state_def Let_def)
  then show ?thesis using False by (simp add: get_cycle get_bits_def round_cycle_def)
qed

section \<open>The consumer of the event ring\<close>

fun pops :: "nat \<Rightarrow> EventRing \<times> InterrupterRegisterSet \<Rightarrow> EventRing \<times> InterrupterRegisterSet" where
  "pops 0 s = s"
| "pops (Suc j) s = (case pops j s of (er, regs) \<Rightarrow> EventRing_Pop er regs)"

definition event_ring_at :: "u64 \<Rightarrow> nat \<Rightarrow> nat \<Rightarrow> EventRing \<times> InterrupterRegisterSet \<Rightarrow> bool" where
  "event_ring_at buf n j s \<longleftrightarrow>
    ReadDequeuePointer (snd s) = trb_addr buf (j mod n) \<and> er_cycle (fst s) = even (j div n) \<and>
    get_field EventRingSegmentTableEntry_bits ''ring_segment_base_address'' (er_erst (fst s)) = ucast buf \<and>
    get_field EventRingSegmentTableEntry_bits ''ring_segment_size'' (er_erst (fst s)) = of_nat n"

lemma addr_aligned:
  assumes "take_bit 4 buf = 0" shows "take_bit 4 (trb_addr buf i) = 0"
proof -
  have "2 ^ 4 dvd buf" using assms by (simp only: take_bit_eq_0_iff)
  moreover have "2 ^ 4 dvd (of_nat (16 * i) :: u64)" by (simp add: dvd_def) blast
  ultimately show ?thesis unfolding trb_addr_def take_bit_eq_0_iff by (rule dvd_add)
qed

lemma ucast_trb: "ucast (ucast (p :: u64) :: trb) = p"
  by (rule bit_word_eqI) (simp add: bit_simps)

lemma trb_addr_Suc: "trb_addr buf i + 16 = trb_addr buf (Suc i)"
  by (simp add: trb_addr_def)

lemma Pop_step:
  assumes at: "event_ring_at buf n j (er, regs)" and n: "0 < n" "n < 2 ^ 16" and buf: "take_bit 4 buf = 0"
  shows "event_ring_at buf n (Suc j) (EventRing_Pop er regs)"
proof -
  have p: "ReadDequeuePointer regs = trb_addr buf (j mod n)" "er_cycle er = even (j div n)"
    and b: "ucast (get_field EventRingSegmentTableEntry_bits ''ring_segment_base_address'' (er_erst er)) = buf"
    and sz: "unat (get_field EventRingSegmentTableEntry_bits ''ring_segment_size'' (er_erst er)) = n"
    using at n by (simp_all add: event_ring_at_def unat_of_nat_less ucast_trb)
  have inj: "trb_addr buf (Suc (j mod n)) = trb_addr buf n \<longleftrightarrow> Suc (j mod n) = n"
    using n mod_less_divisor [OF n(1), of j] by (intro trb_addr_inj) auto
  have wr: "ReadDequeuePointer (WriteDequeuePointer (trb_addr buf i) regs) = trb_addr buf i" for i
    using register_pointers(2) [OF addr_aligned [OF buf]]
    by (simp add: ReadDequeuePointer_def WriteDequeuePointer_def)
  have wr0: "ReadDequeuePointer (WriteDequeuePointer buf regs) = buf"
    using wr [of 0] by (simp add: trb_addr_def)
  have pop: "EventRing_Pop er regs =
      (if Suc (j mod n) = n then (er\<lparr>er_cycle := \<not> er_cycle er\<rparr>, WriteDequeuePointer buf regs)
       else (er, WriteDequeuePointer (trb_addr buf (Suc (j mod n))) regs))"
    unfolding EventRing_Pop_def Let_def p(1) b sz trb_addr_Suc inj ..
  show ?thesis
    using at n(1) p(2) wr wr0 unfolding pop event_ring_at_def
    by (simp add: mod_Suc div_Suc trb_addr_def [of buf 0])
qed

lemma pops_at:
  assumes "event_ring_at buf n 0 s" "0 < n" "n < 2 ^ 16" "take_bit 4 buf = 0"
  shows "event_ring_at buf n j (pops j s)"
proof (induction j)
  case (Suc j)
  obtain er regs where p: "pops j s = (er, regs)" by (cases "pops j s")
  from Pop_step [OF Suc [unfolded p] assms(2-4)] show ?case by (simp add: p)
qed (simp add: assms(1))

text \<open>What a successful initialisation leaves behind.\<close>

lemma segment_entry:
  fixes buf :: u64 and n :: nat
  defines "e \<equiv> set_field EventRingSegmentTableEntry_bits ''ring_segment_size'' (of_nat n)
    (set_field EventRingSegmentTableEntry_bits ''ring_segment_base_address'' (ucast buf) (0 :: trb))"
  assumes "n < 2 ^ 16"
  shows "get_field EventRingSegmentTableEntry_bits ''ring_segment_base_address'' e = ucast buf"
    "get_field EventRingSegmentTableEntry_bits ''ring_segment_size'' e = of_nat n"
proof -
  have f: "field_at EventRingSegmentTableEntry_bits ''ring_segment_base_address'' = Some (0, 64)"
    "field_at EventRingSegmentTableEntry_bits ''ring_segment_size'' = Some (64, 16)" by code_simp+
  have l: "layout_size EventRingSegmentTableEntry_bits \<le> LENGTH(128)" by code_simp
  have "take_bit 64 (ucast buf :: trb) = ucast buf"
    by (rule bit_word_eqI) (auto simp: bit_simps word_bits dest: bit_imp_le_length)
  then show "get_field EventRingSegmentTableEntry_bits ''ring_segment_base_address'' e = ucast buf"
    unfolding e_def get_set_other [OF _ l, of "''ring_segment_base_address''" "''ring_segment_size''", simplified]
      get_set_same [OF f(1) l] .
  have "take_bit 16 (of_nat n :: trb) = of_nat n"
    using assms(2) by (simp add: take_bit_of_nat take_bit_nat_eq_self)
  then show "get_field EventRingSegmentTableEntry_bits ''ring_segment_size'' e = of_nat n"
    unfolding e_def get_set_same [OF f(2) l] .
qed

lemma Initialize_at:
  assumes init: "EventRing_Initialize pool n er regs ptr h = (er', regs', ptr', h', kSuccess)"
    and n: "0 < n" "n < 2 ^ 16" and buf: "take_bit 4 (er_buf er') = 0"
  shows "event_ring_at (er_buf er') n 0 (er', regs')"
proof -
  from init obtain buf erst where b: "er_buf er' = buf" "er_cycle er' = True" 
    "er_erst er' = set_field EventRingSegmentTableEntry_bits ''ring_segment_size'' (of_nat n)
       (set_field EventRingSegmentTableEntry_bits ''ring_segment_base_address'' (ucast buf) 0)"
    "ERDP regs' = ERDP_SetPointer buf (ERDP regs)"
    by (auto simp: EventRing_Initialize_def WriteDequeuePointer_def Let_def split: prod.splits option.splits)
  then have "ReadDequeuePointer regs' = buf" using buf register_pointers(2) by (simp add: ReadDequeuePointer_def)
  with b segment_entry [OF n(2), of buf] show ?thesis by (simp add: event_ring_at_def trb_addr_def)
qed

section \<open>The consumer of a command or transfer ring\<close>

text \<open>
  How the host controller reads a ring, from the dequeue pointer \<open>p\<close> and its cycle state \<open>c\<close>:
  it stops at the first block whose cycle bit is not \<open>c\<close>, and follows a link block (type 6),
  inverting \<open>c\<close> if the block asks for it.
\<close>

fun controller_reads :: "nat \<Rightarrow> trb_heap \<Rightarrow> u64 \<Rightarrow> bool \<Rightarrow> trb list \<times> u64 \<times> bool" where
  "controller_reads 0 h p c = ([], p, c)"
| "controller_reads (Suc fuel) h p c =
    (if get_field TRB_bits ''cycle_bit'' (h p) \<noteq> (if c then 1 else 0) then ([], p, c)
     else if get_field TRB_bits ''trb_type'' (h p) = 6
     then controller_reads fuel h (LinkTRB_Pointer (h p)) (if get_field LinkTRB_bits ''toggle_cycle'' (h p) = 1 then \<not> c else c)
     else case controller_reads fuel h (p + 16) c of (ts, s) \<Rightarrow> (h p # ts, s))"

lemma with_cycle_type: "get_field TRB_bits ''trb_type'' (with_cycle c t) = get_field TRB_bits ''trb_type'' t"
  unfolding with_cycle_def by (rule get_set_other) (simp, code_simp)

lemma with_cycle_link: "with_cycle c t = set_field LinkTRB_bits ''cycle_bit'' (if c then 1 else 0) t"
proof -
  have "field_at LinkTRB_bits ''cycle_bit'' = field_at TRB_bits ''cycle_bit''" by code_simp
  then show ?thesis unfolding with_cycle_def set_field_def by (simp only:)
qed

lemma link_fields:
  assumes "take_bit 4 buf = 0"
  shows "get_field TRB_bits ''trb_type'' (with_cycle c (link_block buf)) = 6"
    "LinkTRB_Pointer (with_cycle c (link_block buf)) = buf"
    "get_field LinkTRB_bits ''toggle_cycle'' (with_cycle c (link_block buf)) = 1"
proof -
  have l: "layout_size LinkTRB_bits \<le> LENGTH(128)" by code_simp
  have f: "field_at LinkTRB_bits ''trb_type'' = Some (106, 6)" "field_at LinkTRB_bits ''toggle_cycle'' = Some (97, 1)"
    "field_at LinkTRB_bits ''ring_segment_pointer'' = Some (4, 60)" by code_simp+
  have ty: "get_field TRB_bits ''trb_type'' t = get_field LinkTRB_bits ''trb_type'' t" for t
  proof -
    have "field_at LinkTRB_bits ''trb_type'' = field_at TRB_bits ''trb_type''" by code_simp
    then show ?thesis unfolding get_field_def by (simp only:)
  qed
  have ne: "''trb_type'' \<noteq> ''cycle_bit''" "''trb_type'' \<noteq> ''toggle_cycle''" "''trb_type'' \<noteq> ''ring_segment_pointer''"
    "''ring_segment_pointer'' \<noteq> ''cycle_bit''" "''ring_segment_pointer'' \<noteq> ''toggle_cycle''"
    "''toggle_cycle'' \<noteq> ''cycle_bit''" by simp_all
  note unf = with_cycle_link link_block_def new_LinkTRB_def LinkTRB_SetPointer_def LinkTRB_Pointer_def
  show "get_field TRB_bits ''trb_type'' (with_cycle c (link_block buf)) = 6"
    unfolding ty unf get_set_other [OF ne(1) l] get_set_other [OF ne(2) l] get_set_other [OF ne(3) l] get_set_same [OF f(1) l]
    by simp
  show "get_field LinkTRB_bits ''toggle_cycle'' (with_cycle c (link_block buf)) = 1"
    unfolding unf get_set_other [OF ne(6) l] get_set_same [OF f(2) l] by simp
  show "LinkTRB_Pointer (with_cycle c (link_block buf)) = buf"
    unfolding unf get_set_other [OF ne(4) l] get_set_other [OF ne(5) l]
    using assms l by (intro shifted_field [OF f(3)]) simp_all
qed

lemma round_last:
  assumes "0 < m" "Suc j mod m = 0" "Suc j \<le> n" "n \<le> j + m"
  shows "round_cycle m j = (\<not> round_cycle m n)" "round_cycle m (Suc j) = (\<not> round_cycle m j)"
proof -
  from assms(2) obtain q where q: "Suc j = q * m" by (metis dvd_def mod_0_imp_dvd mult.commute)
  with assms have "n div m = q" by (intro div_nat_eqI) (simp_all add: algebra_simps)
  moreover have "Suc j div m = q" using q assms(1) by (metis nonzero_mult_div_cancel_right less_not_refl)
  ultimately show "round_cycle m (Suc j) = (\<not> round_cycle m j)" "round_cycle m j = (\<not> round_cycle m n)"
    using round_cycle_Suc [OF assms(1), of j] assms(2) by (simp_all add: round_cycle_def)
qed

lemma controller_reads_ring:
  assumes st: "ring_state buf m ts r h" and m: "0 < m" and buf: "take_bit 4 buf = 0"
    and nolink: "\<forall>t \<in> set ts. get_field TRB_bits ''trb_type'' t \<noteq> 6"
  shows "j \<le> length ts \<Longrightarrow> length ts \<le> j + m \<Longrightarrow> 2 * (length ts - j) < fuel \<Longrightarrow>
    controller_reads fuel h (trb_addr buf (j mod m)) (round_cycle m j) =
      (map (\<lambda>k. with_cycle (round_cycle m k) (ts ! k)) [j..<length ts],
       trb_addr buf (length ts mod m), round_cycle m (length ts))"
proof (induction "length ts - j" arbitrary: j fuel)
  case 0
  then have j: "j = length ts" by simp
  obtain f where "fuel = Suc f" using 0 by (cases fuel) auto
  with ring_next_free [OF st m] show ?case by (simp add: j)
next
  case (Suc d)
  let ?n = "length ts"
  have j: "j < ?n" "?n - j = Suc d" using Suc.hyps(2) by simp_all
  obtain f where f: "fuel = Suc (Suc f)" using Suc.prems(3) j by (cases fuel; cases "fuel - 1") auto
  have blk: "h (trb_addr buf (j mod m)) = with_cycle (round_cycle m j) (ts ! j)"
    using st j Suc.prems by (simp add: ring_state_def Let_def)
  have "get_field TRB_bits ''trb_type'' (ts ! j) \<noteq> 6" using nolink j by simp
  then have step: "controller_reads fuel h (trb_addr buf (j mod m)) (round_cycle m j) =
      (case controller_reads (Suc f) h (trb_addr buf (Suc (j mod m))) (round_cycle m j) of
        (us, s) \<Rightarrow> (with_cycle (round_cycle m j) (ts ! j) # us, s))"
    unfolding f controller_reads.simps(2) [of "Suc f"] blk trb_addr_Suc cycle_with_cycle with_cycle_type by simp
  have up: "[j..<?n] = j # [Suc j..<?n]" using j by (simp add: upt_conv_Cons)
  show ?case
  proof (cases "Suc j mod m = 0")
    case False
    then have "Suc j mod m = Suc (j mod m)" "round_cycle m (Suc j) = round_cycle m j"
      using m round_cycle_Suc [OF m, of j] by (auto simp: mod_Suc split: if_splits)
    with Suc.hyps(1) [of "Suc j" "Suc f"] Suc.hyps(2) Suc.prems f j show ?thesis unfolding step up by simp
  next
    case True
    then have slot: "Suc (j mod m) = m" using m by (auto simp: mod_Suc split: if_splits)
    have cyc: "round_cycle m j = (\<not> round_cycle m ?n)" "round_cycle m (Suc j) = (\<not> round_cycle m j)"
      using round_last [OF m True, of ?n] j Suc.prems by simp_all
    have "m \<le> ?n" using True m j by (metis Suc_leI dvd_imp_le le_trans mod_0_imp_dvd zero_less_Suc)
    then have "h (trb_addr buf m) = with_cycle (round_cycle m j) (link_block buf)"
      using st cyc(1) by (simp add: ring_state_def Let_def)
    then have link: "controller_reads (Suc f) h (trb_addr buf m) (round_cycle m j) =
        controller_reads f h (trb_addr buf (Suc j mod m)) (round_cycle m (Suc j))"
      unfolding controller_reads.simps(2) True cyc(2)
      by (simp add: cycle_with_cycle link_fields [OF buf]) (simp add: trb_addr_def)
    show ?thesis using Suc.hyps(1) [of "Suc j" f] Suc.hyps(2) Suc.prems f j
      unfolding step up slot link by simp
  qed
qed

section \<open>The buffers\<close>

lemma buffer_alignment:
  assumes "unat memory_pool + 131072 \<le> 2 ^ 62" "unat ptr \<le> unat memory_pool + 131072" "n < 2 ^ 16"
    and "AllocArray memory_pool 16 (of_nat n) 64 (64 * 1024) ptr = (ptr', Some p)"
  shows "take_bit 4 p = 0"
proof -
  have sz: "unat (16 * of_nat n :: u64) < 2 ^ 62"
  proof -
    have "16 * n < 2 ^ LENGTH(64)" using assms(3) by simp
    from unat_of_nat_less [OF this] assms(3) show ?thesis by simp
  qed
  have al: "AllocMem memory_pool (16 * of_nat n) (2 ^ 6) (2 ^ 16) ptr = (ptr', Some p)"
    using assms(4) by (simp add: AllocArray_def)
  have "2 ^ 6 dvd unat p" by (rule AllocMem_spec(4) [OF assms(1,2) sz _ _ al]) simp_all
  then have "2 ^ 4 dvd unat p" by (rule dvd_trans [rotated]) simp
  then have "take_bit 4 (unat p) = 0" by (simp only: take_bit_eq_0_iff)
  then show ?thesis by (metis unsigned_take_bit_eq unsigned_0 unsigned_word_eqI)
qed

lemma zero_trbs_at:
  assumes "i < n" shows "zero_trbs buf n h (trb_addr buf i) = 0"
proof -
  have "fold (\<lambda>i h. h(trb_addr buf i := 0)) xs h p = (if p \<in> trb_addr buf ` set xs then 0 else h p)"
    for xs p and h :: trb_heap
    by (induction xs arbitrary: h) auto
  then show ?thesis using assms by (simp add: zero_trbs_def)
qed

lemma Ring_Initialize_state:
  assumes pool: "unat memory_pool + 131072 \<le> 2 ^ 62" "unat ptr \<le> unat memory_pool + 131072"
    and m: "0 < m" "m + 1 < 2 ^ 16"
    and init: "Ring_Initialize memory_pool (m + 1) r ptr h = (r', ptr', h', kSuccess)"
  shows "take_bit 4 (ring_buf r') = 0" "ring_state (ring_buf r') m [] r' h'"
proof -
  obtain p where a: "AllocArray memory_pool 16 (of_nat (m + 1)) 64 (64 * 1024) ptr = (ptr', Some p)"
    and r': "ring_buf r' = p" "ring_size r' = m + 1" "ring_write r' = 0" "ring_cycle r' = True"
    "h' = zero_trbs p (m + 1) h"
    using init unfolding Ring_Initialize_def FreeMem_def if_cancel Let_def
    by (auto split: prod.splits option.splits)
  show "take_bit 4 (ring_buf r') = 0" using buffer_alignment [OF pool m(2) a] r' by simp
  show "ring_state (ring_buf r') m [] r' h'"
    using m(1) r' zero_trbs_at [where n = "m + 1" and buf = p and h = h]
    by (simp add: ring_state_def round_cycle_def)
qed

section \<open>Properties\<close>

text \<open>
  C7. A command or transfer ring is a queue between the driver and the controller: after a
  successful initialisation with \<open>m + 1\<close> blocks, whatever was pushed and read before, a
  controller that resumes where the blocks \<open>us\<close> end reads exactly the blocks \<open>ts\<close> pushed
  since (at most \<open>m\<close> of them, none a link block), in their order, following the link block at
  every end of the segment, stops behind the last one, and is then where the next pushes go.
\<close>

theorem ring_delivers_in_order:
  assumes "unat memory_pool + 131072 \<le> 2 ^ 62" "unat ptr \<le> unat memory_pool + 131072"
    and "0 < m" "m + 1 < 2 ^ 16"
    and "Ring_Initialize memory_pool (m + 1) r ptr h = (r0, ptr', h0, kSuccess)"
    and "push_all (us @ ts) (r0, h0) = (r', h')" "length ts \<le> m"
    and "\<forall>t \<in> set (us @ ts). get_field TRB_bits ''trb_type'' t \<noteq> 6"
    and "2 * length ts < fuel"
  shows "controller_reads fuel h' (trb_addr (ring_buf r0) (length us mod m)) (round_cycle m (length us)) =
    (map (\<lambda>k. with_cycle (round_cycle m k) ((us @ ts) ! k)) [length us..<length (us @ ts)],
     trb_addr (ring_buf r0) (length (us @ ts) mod m), round_cycle m (length (us @ ts)))"
proof -
  note init = Ring_Initialize_state [OF assms(1-5)]
  have "16 * (m + 1) < 2 ^ 64" using assms(4) by simp
  from push_all_state [OF assms(3) this init(2) assms(6)]
  have "ring_state (ring_buf r0) m (us @ ts) r' h'" by simp
  from controller_reads_ring [OF this assms(3) init(1) assms(8), of "length us" fuel] assms(7,9)
  show ?thesis by simp
qed

text \<open>The null ring, before its initialisation.\<close>

definition empty_Ring :: Ring where
  "empty_Ring = \<lparr>ring_buf = 0, ring_size = 0, ring_cycle = True, ring_write = 0\<rparr>"

theorem ring_delivers_in_order_witness:
  "\<exists>r0 h0 r' h'. Ring_Initialize 0x10000000 3 empty_Ring 0x10000000 (\<lambda>p. 0) = (r0, 0x10000030, h0, kSuccess) \<and>
    push_all [new_NoOpCommandTRB, new_EnableSlotCommandTRB, new_NoOpCommandTRB] (r0, h0) = (r', h') \<and>
    controller_reads 5 h' 0x10000010 True =
      ([with_cycle True new_EnableSlotCommandTRB, with_cycle False new_NoOpCommandTRB], 0x10000010, False)"
proof -
  let ?us = "[new_NoOpCommandTRB]" and ?ts = "[new_EnableSlotCommandTRB, new_NoOpCommandTRB]"
  have al: "AllocArray 0x10000000 16 3 64 65536 0x10000000 = (0x10000030, Some 0x10000000)" by code_simp
  obtain r0 h0 where i: "Ring_Initialize 0x10000000 (2 + 1) empty_Ring 0x10000000 (\<lambda>p. 0) = (r0, 0x10000030, h0, kSuccess)"
    "ring_buf r0 = 0x10000000"
    using al by (simp add: Ring_Initialize_def empty_Ring_def)
  obtain r' h' where p: "push_all (?us @ ?ts) (r0, h0) = (r', h')" by (cases "push_all (?us @ ?ts) (r0, h0)")
  have nl: "\<forall>t \<in> set (?us @ ?ts). get_field TRB_bits ''trb_type'' t \<noteq> 6" by code_simp
  have ix: "[1..<3] = [1, 2 :: nat]" by code_simp
  have "controller_reads 5 h' (trb_addr (ring_buf r0) (length ?us mod 2)) (round_cycle 2 (length ?us)) =
    (map (\<lambda>k. with_cycle (round_cycle 2 k) ((?us @ ?ts) ! k)) [length ?us..<length (?us @ ?ts)],
     trb_addr (ring_buf r0) (length (?us @ ?ts) mod 2), round_cycle 2 (length (?us @ ?ts)))"
    by (rule ring_delivers_in_order [OF _ _ _ _ i(1) p _ nl]) simp_all
  then have "controller_reads 5 h' 0x10000010 True =
      ([with_cycle True new_EnableSlotCommandTRB, with_cycle False new_NoOpCommandTRB], 0x10000010, False)"
    using ix by (simp add: i(2) trb_addr_def round_cycle_def)
  with i p show ?thesis by auto
qed

text \<open>
  C40. While a block is being stored into a slot, the controller never sees a half-written one:
  after each of the first three of the four stores the slot still has its old cycle bit, and
  after the fourth it holds the whole block with the cycle bit of the ring; no other slot
  changes at any point.
\<close>

theorem block_published_last:
  "(\<forall>k < 4. let h' = fold (store_dword p) (take k (copy_stores c t)) h in
      get_field TRB_bits ''cycle_bit'' (h' p) = get_field TRB_bits ''cycle_bit'' (h p) \<and> (\<forall>q. q \<noteq> p \<longrightarrow> h' q = h q)) \<and>
   CopyToLast r t h = h(trb_addr (ring_buf r) (ring_write r) := with_cycle (ring_cycle r) t)"
proof -
  have "fold (store_dword p) xs h q = h q" if "q \<noteq> p" for xs q
    using that by (induction xs arbitrary: h) (simp_all add: store_dword_def)
  then show ?thesis using copy_stores_prefix by (simp add: CopyToLast_effect Let_def)
qed

theorem block_published_last_witness:
  "get_field TRB_bits ''cycle_bit''
      (fold (store_dword 0x1000) (take 3 (copy_stores True new_NoOpCommandTRB)) (\<lambda>p. 0) 0x1000) = 0"
proof -
  have "(3 :: nat) < 4" by simp
  with conjunct1 [OF block_published_last [where p = "0x1000" and c = True and t = new_NoOpCommandTRB and h = "\<lambda>p. 0"]]
  have "get_field TRB_bits ''cycle_bit''
      (fold (store_dword 0x1000) (take 3 (copy_stores True new_NoOpCommandTRB)) (\<lambda>p. 0) 0x1000) =
    get_field TRB_bits ''cycle_bit'' (0 :: trb)" unfolding Let_def by blast
  moreover have "get_field TRB_bits ''cycle_bit'' (0 :: trb) = 0" by code_simp
  ultimately show ?thesis by (simp only:)
qed

text \<open>
  The driver's end of the event ring keeps in step with the controller's: after a
  successful initialisation with \<open>n\<close> blocks and \<open>j\<close> pops, the dequeue pointer register holds the
  address of block \<open>j mod n\<close>, and the expected cycle bit is set in the rounds of even number.
\<close>

lemma event_ring_pops:
  assumes "unat memory_pool + 131072 \<le> 2 ^ 62" "unat ptr \<le> unat memory_pool + 131072"
    and "0 < n" "n < 2 ^ 16"
    and "EventRing_Initialize memory_pool n er regs ptr h = (er0, regs0, ptr', h0, kSuccess)"
    and "pops j (er0, regs0) = (er', regs')"
  shows "Front regs' = trb_addr (er_buf er0) (j mod n) \<and> er_cycle er' = even (j div n)"
proof -
  obtain ptr1 p where a: "AllocArray memory_pool 16 (of_nat n) 64 (64 * 1024) ptr = (ptr1, Some p)" "er_buf er0 = p"
    using assms(5) unfolding EventRing_Initialize_def FreeMem_def if_cancel Let_def
    by (auto split: prod.splits option.splits)
  from buffer_alignment [OF assms(1,2,4) a(1)] a(2) have al: "take_bit 4 (er_buf er0) = 0" by simp
  from pops_at [OF Initialize_at [OF assms(5,3,4) al] assms(3,4) al, of j] assms(6)
  show ?thesis by (simp add: event_ring_at_def Front_def)
qed

lemma event_ring_pops_witness:
  "\<exists>er0 regs0 h0. EventRing_Initialize 0x10000000 32
      \<lparr>er_buf = 0, er_buf_size = 0, er_cycle = False, er_erst = 0, er_erst_addr = 0\<rparr>
      \<lparr>IMAN = 0, IMOD = 0, ERSTSZ = 0, ERSTBA = 0, ERDP = 0\<rparr> 0x10000000 (\<lambda>p. 0) = (er0, regs0, 0x10000210, h0, kSuccess) \<and>
    Front (snd (pops 33 (er0, regs0))) = 0x10000010 \<and> \<not> er_cycle (fst (pops 33 (er0, regs0)))"
proof -
  let ?er = "\<lparr>er_buf = 0, er_buf_size = 0, er_cycle = False, er_erst = 0, er_erst_addr = 0\<rparr>"
  let ?regs = "\<lparr>IMAN = 0, IMOD = 0, ERSTSZ = 0, ERSTBA = 0, ERDP = 0\<rparr>"
  have al: "AllocArray 0x10000000 16 32 64 65536 0x10000000 = (0x10000200, Some 0x10000000)"
    "AllocArray 0x10000000 16 1 64 65536 0x10000200 = (0x10000210, Some 0x10000200)" by code_simp+
  obtain er0 regs0 h0 where i: "EventRing_Initialize 0x10000000 32 ?er ?regs 0x10000000 (\<lambda>p. 0) = (er0, regs0, 0x10000210, h0, kSuccess)"
    "er_buf er0 = 0x10000000"
    using al by (simp add: EventRing_Initialize_def Let_def)
  obtain er' regs' where p: "pops 33 (er0, regs0) = (er', regs')" by (cases "pops 33 (er0, regs0)")
  have "Front regs' = trb_addr (er_buf er0) (33 mod 32) \<and> er_cycle er' = even (33 div 32 :: nat)"
    by (rule event_ring_pops [OF _ _ _ _ i(1) p]) simp_all
  with i p show ?thesis by (simp add: trb_addr_def)
qed

end
