(* ===== verification/Xhci_Contexts.thy ===== *)
theory Xhci_Contexts
  imports Trb
begin

text \<open>
  Endpoints and the contexts the driver shares with the host controller:
  \<open>kernel/usb/endpoint.hpp\<close>, \<open>kernel/usb/xhci/context.hpp\<close> and \<open>speed.hpp\<close>.  A slot or
  endpoint context is a 256-bit word.
\<close>

section \<open>Endpoints\<close>

datatype EndpointType = kControl | kIsochronous | kBulk | kInterrupt

text \<open>An \<open>EndpointID\<close> is its address, an \<open>int\<close>.\<close>

type_synonym EndpointID = int

definition new_EndpointID :: "int \<Rightarrow> bool \<Rightarrow> EndpointID" where
  "new_EndpointID ep_num dir_in = push_bit 1 ep_num OR (if dir_in then 1 else 0)"

definition EndpointID_Number :: "EndpointID \<Rightarrow> int" where
  "EndpointID_Number addr = drop_bit 1 addr"

definition EndpointID_IsIn :: "EndpointID \<Rightarrow> bool" where
  "EndpointID_IsIn addr \<longleftrightarrow> addr AND 1 \<noteq> 0"

definition kDefaultControlPipeID :: EndpointID where
  "kDefaultControlPipeID = new_EndpointID 0 True"

record EndpointConfig =
  cfg_ep_id :: EndpointID
  cfg_ep_type :: EndpointType
  cfg_max_packet_size :: int
  cfg_interval :: int

section \<open>Contexts\<close>

type_synonym ctx = "256 word"

definition SlotContext_bits :: layout where
  "SlotContext_bits =
    [(''route_string'', 20), (''speed'', 4), ('''', 1), (''mtt'', 1), (''hub'', 1),
     (''context_entries'', 5), (''max_exit_latency'', 16), (''root_hub_port_num'', 8),
     (''num_ports'', 8), (''tt_hub_slot_id'', 8), (''tt_port_num'', 8), (''ttt'', 2), ('''', 4),
     (''interrupter_target'', 10), (''usb_device_address'', 8), ('''', 19), (''slot_state'', 5)]"

definition EndpointContext_bits :: layout where
  "EndpointContext_bits =
    [(''ep_state'', 3), ('''', 5), (''mult'', 2), (''max_primary_streams'', 5),
     (''linear_stream_array'', 1), (''interval'', 8), (''max_esit_payload_hi'', 8), ('''', 1),
     (''error_count'', 2), (''ep_type'', 3), ('''', 1), (''host_initiate_disable'', 1),
     (''max_burst_size'', 8), (''max_packet_size'', 16), (''dequeue_cycle_state'', 1), ('''', 3),
     (''tr_dequeue_pointer'', 60), (''average_trb_length'', 16), (''max_esit_payload_lo'', 16)]"

definition TransferRingBuffer :: "ctx \<Rightarrow> u64" where
  "TransferRingBuffer c = push_bit 4 (ucast (get_field EndpointContext_bits ''tr_dequeue_pointer'' c))"

definition SetTransferRingBuffer :: "u64 \<Rightarrow> ctx \<Rightarrow> ctx" where
  "SetTransferRingBuffer buffer c =
    set_field EndpointContext_bits ''tr_dequeue_pointer'' (ucast (drop_bit 4 buffer)) c"

text \<open>A \<open>DeviceContextIndex\<close> is its \<open>value\<close>; its constructor from a number and a direction.\<close>

type_synonym DeviceContextIndex = int

definition new_DeviceContextIndex :: "int \<Rightarrow> bool \<Rightarrow> DeviceContextIndex" where
  "new_DeviceContextIndex ep_num dir_in = 2 * ep_num + (if ep_num = 0 then 1 else if dir_in then 1 else 0)"

definition DeviceContextIndex_of :: "EndpointID \<Rightarrow> DeviceContextIndex" where
  "DeviceContextIndex_of ep_id = ep_id"

record DeviceContext =
  dc_slot_context :: ctx
  dc_ep_contexts :: "ctx list"

record InputControlContext =
  drop_context_flags :: u32
  add_context_flags :: u32
  icc_configuration_value :: u8
  icc_interface_number :: u8
  icc_alternate_setting :: u8

definition zero_InputControlContext :: InputControlContext where
  "zero_InputControlContext =
    \<lparr>drop_context_flags = 0, add_context_flags = 0, icc_configuration_value = 0, icc_interface_number = 0,
     icc_alternate_setting = 0\<rparr>"

record InputContext =
  ic_control :: InputControlContext
  ic_slot_context :: ctx
  ic_ep_contexts :: "ctx list"

text \<open>
  \<open>EnableSlotContext\<close> and \<open>EnableEndpoint\<close> set a flag and return a pointer.  The pointer for
  index \<open>dci\<close> is \<open>&ep_contexts[dci - 1]\<close>; \<open>ep_context\<close> and \<open>set_ep_context\<close> are its
  dereference.  For index 0 it points to the word before the array, the slot context.
\<close>

definition EnableSlotContext :: "InputContext \<Rightarrow> InputContext" where
  "EnableSlotContext ic =
    ic\<lparr>ic_control := (ic_control ic)\<lparr>add_context_flags := add_context_flags (ic_control ic) OR 1\<rparr>\<rparr>"

definition EnableEndpoint :: "DeviceContextIndex \<Rightarrow> InputContext \<Rightarrow> InputContext" where
  "EnableEndpoint dci ic =
    ic\<lparr>ic_control := (ic_control ic)\<lparr>add_context_flags := add_context_flags (ic_control ic) OR push_bit (nat dci) 1\<rparr>\<rparr>"

definition ep_context :: "DeviceContextIndex \<Rightarrow> InputContext \<Rightarrow> ctx" where
  "ep_context dci ic = (if dci = 0 then ic_slot_context ic else ic_ep_contexts ic ! nat (dci - 1))"

definition set_ep_context :: "DeviceContextIndex \<Rightarrow> ctx \<Rightarrow> InputContext \<Rightarrow> InputContext" where
  "set_ep_context dci c ic =
    (if dci = 0 then ic\<lparr>ic_slot_context := c\<rparr>
     else ic\<lparr>ic_ep_contexts := (ic_ep_contexts ic)[nat (dci - 1) := c]\<rparr>)"

section \<open>Speeds\<close>

definition kFullSpeed :: int where "kFullSpeed = 1"
definition kLowSpeed :: int where "kLowSpeed = 2"
definition kHighSpeed :: int where "kHighSpeed = 3"
definition kSuperSpeed :: int where "kSuperSpeed = 4"
definition kSuperSpeedPlus :: int where "kSuperSpeedPlus = 5"

section \<open>Endpoint numbers\<close>

lemma new_EndpointID_eq: "new_EndpointID n d = 2 * n + (if d then 1 else 0)"
proof -
  have "push_bit 1 n OR 1 = 2 * n + (1 :: int)" by (simp add: or_int_unfold)
  then show ?thesis by (simp add: new_EndpointID_def)
qed

lemma EndpointID_parts: "EndpointID_Number (new_EndpointID n d) = n" "EndpointID_IsIn (new_EndpointID n d) = d"
  by (simp_all add: new_EndpointID_eq EndpointID_Number_def EndpointID_IsIn_def and_one_eq drop_bit_eq_div)

lemma DeviceContextIndex_agree:
  "n \<noteq> 0 \<or> d \<Longrightarrow> new_DeviceContextIndex n d = DeviceContextIndex_of (new_EndpointID n d)"
  by (simp add: new_DeviceContextIndex_def DeviceContextIndex_of_def new_EndpointID_eq)

end
