(* ===== verification/Usb_Devices.thy ===== *)
theory Usb_Devices
  imports Xhci_Rings Xhci_Contexts
begin

text \<open>
  USB devices behind the host controller: \<open>kernel/usb/setupdata.hpp\<close>, \<open>descriptor.hpp\<close>,
  \<open>device.hpp\<close>, \<open>device.cpp\<close>, the class drivers in \<open>kernel/usb/classdriver/\<close>, and
  \<open>kernel/usb/xhci/device.hpp\<close> and \<open>device.cpp\<close>.

  Objects that the driver allocates in its pool live in maps from their addresses: rings,
  devices, class drivers.  The pool is zero initialised and never reuses memory, so an object
  whose constructor sets nothing starts as zero.  A map is total, so a null pointer that the
  code dereferences reads whatever the map has at 0.  \<open>u_dma\<close> is the memory the controller
  transfers data to.  Sizes and offsets that the C++ compiler chooses are the record \<open>Abi\<close>.
\<close>

section \<open>Requests\<close>

record SetupData =
  sd_request_type :: u8
  sd_request :: u8
  sd_value :: u16
  sd_index :: u16
  sd_length :: u16

definition SetupData_request_type_bits :: layout where
  "SetupData_request_type_bits = [(''recipient'', 5), (''type'', 2), (''direction'', 1)]"

definition make_request_type :: "u8 \<Rightarrow> u8 \<Rightarrow> u8 \<Rightarrow> u8" where
  "make_request_type direction type recipient =
    set_field SetupData_request_type_bits ''recipient'' recipient
      (set_field SetupData_request_type_bits ''type'' type
        (set_field SetupData_request_type_bits ''direction'' direction 0))"

definition kRecipientDevice :: u8 where "kRecipientDevice = 0"
definition kRecipientInterface :: u8 where "kRecipientInterface = 1"
definition kStandard :: u8 where "kStandard = 0"
definition kClass :: u8 where "kClass = 1"
definition kOut :: u8 where "kOut = 0"
definition kIn :: u8 where "kIn = 1"
definition kGetDescriptor :: u8 where "kGetDescriptor = 6"
definition kSetConfiguration :: u8 where "kSetConfiguration = 9"
definition kSetProtocol :: u8 where "kSetProtocol = 11"

section \<open>Descriptors\<close>

definition le16 :: "(u64 \<Rightarrow> u8) \<Rightarrow> u64 \<Rightarrow> u16" where
  "le16 mem p = ucast (mem p) OR push_bit 8 (ucast (mem (p + 1)))"

record DeviceDescriptor =
  dd_length :: u8
  dd_usb_release :: u16
  dd_device_class :: u8
  dd_device_sub_class :: u8
  dd_device_protocol :: u8
  dd_max_packet_size :: u8
  dd_vendor_id :: u16
  dd_product_id :: u16
  dd_device_release :: u16
  dd_manufacturer :: u8
  dd_product :: u8
  dd_serial_number :: u8
  dd_num_configurations :: u8

definition DeviceDescriptor_at :: "(u64 \<Rightarrow> u8) \<Rightarrow> u64 \<Rightarrow> DeviceDescriptor" where
  "DeviceDescriptor_at mem p =
    \<lparr>dd_length = mem p, dd_usb_release = le16 mem (p + 2), dd_device_class = mem (p + 4),
     dd_device_sub_class = mem (p + 5), dd_device_protocol = mem (p + 6), dd_max_packet_size = mem (p + 7),
     dd_vendor_id = le16 mem (p + 8), dd_product_id = le16 mem (p + 10), dd_device_release = le16 mem (p + 12),
     dd_manufacturer = mem (p + 14), dd_product = mem (p + 15), dd_serial_number = mem (p + 16),
     dd_num_configurations = mem (p + 17)\<rparr>"

record ConfigurationDescriptor =
  cd_length :: u8
  cd_total_length :: u16
  cd_num_interfaces :: u8
  cd_configuration_value :: u8
  cd_configuration_id :: u8
  cd_attributes :: u8
  cd_max_power :: u8

definition ConfigurationDescriptor_at :: "(u64 \<Rightarrow> u8) \<Rightarrow> u64 \<Rightarrow> ConfigurationDescriptor" where
  "ConfigurationDescriptor_at mem p =
    \<lparr>cd_length = mem p, cd_total_length = le16 mem (p + 2), cd_num_interfaces = mem (p + 4),
     cd_configuration_value = mem (p + 5), cd_configuration_id = mem (p + 6), cd_attributes = mem (p + 7),
     cd_max_power = mem (p + 8)\<rparr>"

record InterfaceDescriptor =
  id_length :: u8
  id_interface_number :: u8
  id_alternate_setting :: u8
  id_num_endpoints :: u8
  id_interface_class :: u8
  id_interface_sub_class :: u8
  id_interface_protocol :: u8
  id_interface_id :: u8

definition InterfaceDescriptor_at :: "(u64 \<Rightarrow> u8) \<Rightarrow> u64 \<Rightarrow> InterfaceDescriptor" where
  "InterfaceDescriptor_at mem p =
    \<lparr>id_length = mem p, id_interface_number = mem (p + 2), id_alternate_setting = mem (p + 3),
     id_num_endpoints = mem (p + 4), id_interface_class = mem (p + 5), id_interface_sub_class = mem (p + 6),
     id_interface_protocol = mem (p + 7), id_interface_id = mem (p + 8)\<rparr>"

text \<open>The two unions of an endpoint descriptor are bytes here, with the layouts of their bits.\<close>

record EndpointDescriptor =
  ed_length :: u8
  ed_endpoint_address :: u8
  ed_attributes :: u8
  ed_max_packet_size :: u16
  ed_interval :: u8

definition endpoint_address_bits :: layout where
  "endpoint_address_bits = [(''number'', 4), ('''', 3), (''dir_in'', 1)]"

definition endpoint_attributes_bits :: layout where
  "endpoint_attributes_bits = [(''transfer_type'', 2), (''sync_type'', 2), (''usage_type'', 2), ('''', 2)]"

definition EndpointDescriptor_at :: "(u64 \<Rightarrow> u8) \<Rightarrow> u64 \<Rightarrow> EndpointDescriptor" where
  "EndpointDescriptor_at mem p =
    \<lparr>ed_length = mem p, ed_endpoint_address = mem (p + 2), ed_attributes = mem (p + 3),
     ed_max_packet_size = le16 mem (p + 4), ed_interval = mem (p + 6)\<rparr>"

record HIDDescriptor =
  hd_length :: u8
  hd_hid_release :: u16
  hd_country_code :: u8
  hd_num_descriptors :: u8

definition HIDDescriptor_at :: "(u64 \<Rightarrow> u8) \<Rightarrow> u64 \<Rightarrow> HIDDescriptor" where
  "HIDDescriptor_at mem p =
    \<lparr>hd_length = mem p, hd_hid_release = le16 mem (p + 2), hd_country_code = mem (p + 4),
     hd_num_descriptors = mem (p + 5)\<rparr>"

definition GetClassDescriptor :: "(u64 \<Rightarrow> u8) \<Rightarrow> u64 \<Rightarrow> nat \<Rightarrow> u64" where
  "GetClassDescriptor mem p index =
    (if unat (hd_num_descriptors (HIDDescriptor_at mem p)) \<le> index then 0 else p + 6 + of_nat (3 * index))"

text \<open>\<open>T::kType\<close> is a number; a pointer that does not have the type becomes null.\<close>

definition DescriptorDynamicCast :: "u8 \<Rightarrow> (u64 \<Rightarrow> u8) \<Rightarrow> u64 \<Rightarrow> u64" where
  "DescriptorDynamicCast kType mem desc_data = (if mem (desc_data + 1) = kType then desc_data else 0)"

definition kDeviceDescriptorType :: u8 where "kDeviceDescriptorType = 1"
definition kConfigurationDescriptorType :: u8 where "kConfigurationDescriptorType = 2"
definition kInterfaceDescriptorType :: u8 where "kInterfaceDescriptorType = 4"
definition kEndpointDescriptorType :: u8 where "kEndpointDescriptorType = 5"

section \<open>The reader of a configuration descriptor\<close>

text \<open>
  The reader's state is its pointer \<open>p_\<close>.  \<open>Next\<close> answers the new pointer and its result.  The
  loop of the second \<open>Next\<close> need not end, because a descriptor of length 0 does not move the
  pointer; then the result is \<open>None\<close>.
\<close>

definition reader_Next :: "(u64 \<Rightarrow> u8) \<Rightarrow> u64 \<Rightarrow> int \<Rightarrow> u64 \<Rightarrow> u64 \<times> u64" where
  "reader_Next mem desc_buf len p =
    (let p' = p + ucast (mem p) in (p', if p' < desc_buf + of_int len then p' else 0))"

partial_function (option) reader_Next_as ::
  "u8 \<Rightarrow> (u64 \<Rightarrow> u8) \<Rightarrow> u64 \<Rightarrow> int \<Rightarrow> u64 \<Rightarrow> (u64 \<times> u64) option" where
  "reader_Next_as kType mem desc_buf len p =
    (case reader_Next mem desc_buf len p of (p', n) \<Rightarrow>
       if n = 0 then Some (p', 0)
       else if DescriptorDynamicCast kType mem n \<noteq> 0 then Some (p', n)
       else reader_Next_as kType mem desc_buf len p')"

fun EndpointType_of :: "nat \<Rightarrow> EndpointType" where
  "EndpointType_of 0 = kControl"
| "EndpointType_of (Suc 0) = kIsochronous"
| "EndpointType_of (Suc (Suc 0)) = kBulk"
| "EndpointType_of (Suc (Suc (Suc _))) = kInterrupt"

definition MakeEPConfig :: "EndpointDescriptor \<Rightarrow> EndpointConfig" where
  "MakeEPConfig ep_desc =
    \<lparr>cfg_ep_id = new_EndpointID (uint (get_field endpoint_address_bits ''number'' (ed_endpoint_address ep_desc)))
        (get_field endpoint_address_bits ''dir_in'' (ed_endpoint_address ep_desc) = 1),
     cfg_ep_type = EndpointType_of (unat (get_field endpoint_attributes_bits ''transfer_type'' (ed_attributes ep_desc))),
     cfg_max_packet_size = uint (ed_max_packet_size ep_desc),
     cfg_interval = uint (ed_interval ep_desc)\<rparr>"

text \<open>
  The loop of \<open>InitializePhase2\<close> over the endpoints of an interface whose driver is at \<open>drv\<close>.
  It goes on until it has seen \<open>num_endpoints\<close> of them; \<open>None\<close> also if it writes behind the 16
  entries of \<open>ep_configs_\<close>.
\<close>

partial_function (option) collect_endpoints ::
  "(u64 \<Rightarrow> u8) \<Rightarrow> u64 \<Rightarrow> int \<Rightarrow> int \<Rightarrow> u64 \<Rightarrow> u64 \<Rightarrow> int \<Rightarrow> EndpointConfig list \<Rightarrow> u64 list
    \<Rightarrow> (int \<times> EndpointConfig list \<times> u64 list) option" where
  "collect_endpoints mem buf len num_endpoints drv p num configs class_drivers =
    (if num < num_endpoints
     then (case reader_Next mem buf len p of (p', desc) \<Rightarrow>
       let ep_desc = DescriptorDynamicCast kEndpointDescriptorType mem desc in
       if ep_desc \<noteq> 0
       then let conf = MakeEPConfig (EndpointDescriptor_at mem ep_desc) in
         if num < 16
         then collect_endpoints mem buf len num_endpoints drv p' (num + 1) (configs[nat num := conf])
           (class_drivers[nat (EndpointID_Number (cfg_ep_id conf)) := drv])
         else None
       else collect_endpoints mem buf len num_endpoints drv p' num configs class_drivers)
     else Some (num, configs, class_drivers))"

section \<open>State\<close>

record Abi =
  memory_pool :: u64
  sizeof_Ring :: u64
  sizeof_Device :: u64
  sizeof_HIDKeyboardDriver :: u64
  sizeof_HIDMouseDriver :: u64
  offset_ctx :: u64
  offset_input_ctx :: u64
  offset_dev_buf :: u64
  offset_hid_buf :: u64

datatype HidKind = KeyboardDriver | MouseDriver

record Hid =
  hid_kind :: HidKind
  hid_dev :: u64
  hid_ep_interrupt_in :: EndpointID
  hid_ep_interrupt_out :: EndpointID
  hid_interface_index :: int
  hid_in_packet_size :: int
  hid_initialize_phase :: int
  hid_previous_buf :: "nat \<Rightarrow> u8"
  hid_num_observers :: nat

text \<open>
  A device with its base class.  \<open>d_before_rings\<close> is the word in front of \<open>transfer_rings_\<close>,
  which holds \<open>state_\<close>: the code reaches it with the index -1.  \<open>d_ctx\<close> is written by the
  controller.  \<open>d_dbreg\<close> is the index of the doorbell register.
\<close>

record Dev =
  d_ctx :: DeviceContext
  d_input_ctx :: InputContext
  d_slot_id :: u8
  d_dbreg :: u8
  d_before_rings :: u64
  d_transfer_rings :: "u64 list"
  d_setup_stage_map :: "(u64, u64) array_map"
  d_class_drivers :: "u64 list"
  d_num_configurations :: u8
  d_config_index :: u8
  d_is_initialized :: bool
  d_initialize_phase :: int
  d_ep_configs :: "EndpointConfig list"
  d_num_ep_configs :: int
  d_event_waiters :: "(SetupData, u64) array_map"

datatype DeviceState = kInvalid | kBlank | kSlotAssigning | kSlotAssigned

definition DeviceState_number :: "DeviceState \<Rightarrow> u64" where
  "DeviceState_number s = (case s of kInvalid \<Rightarrow> 0 | kBlank \<Rightarrow> 1 | kSlotAssigning \<Rightarrow> 2 | kSlotAssigned \<Rightarrow> 3)"

definition zero_EndpointConfig :: EndpointConfig where
  "zero_EndpointConfig = \<lparr>cfg_ep_id = 0, cfg_ep_type = kControl, cfg_max_packet_size = 0, cfg_interval = 0\<rparr>"

definition zero_SetupData :: SetupData where
  "zero_SetupData = \<lparr>sd_request_type = 0, sd_request = 0, sd_value = 0, sd_index = 0, sd_length = 0\<rparr>"

definition zero_DeviceContext :: DeviceContext where
  "zero_DeviceContext = \<lparr>dc_slot_context = 0, dc_ep_contexts = replicate 31 0\<rparr>"

definition zero_InputContext :: InputContext where
  "zero_InputContext =
    \<lparr>ic_control = zero_InputControlContext, ic_slot_context = 0, ic_ep_contexts = replicate 31 0\<rparr>"

definition new_Device :: "u8 \<Rightarrow> u8 \<Rightarrow> Dev" where
  "new_Device slot_id dbreg =
    \<lparr>d_ctx = zero_DeviceContext, d_input_ctx = zero_InputContext, d_slot_id = slot_id, d_dbreg = dbreg,
     d_before_rings = 0, d_transfer_rings = replicate 31 0, d_setup_stage_map = new_ArrayMap 16 0,
     d_class_drivers = replicate 16 0, d_num_configurations = 0, d_config_index = 0,
     d_is_initialized = False, d_initialize_phase = 0, d_ep_configs = replicate 16 zero_EndpointConfig,
     d_num_ep_configs = 0, d_event_waiters = new_ArrayMap 4 0\<rparr>"

definition Device_Initialize :: "Dev \<Rightarrow> Dev \<times> ErrorCode" where
  "Device_Initialize d =
    (d\<lparr>d_before_rings := put_bits 0 32 (DeviceState_number kBlank) (d_before_rings d)\<rparr>, kSuccess)"

definition SelectForSlotAssignment :: "Dev \<Rightarrow> Dev" where
  "SelectForSlotAssignment d =
    d\<lparr>d_before_rings := put_bits 0 32 (DeviceState_number kSlotAssigning) (d_before_rings d)\<rparr>"

definition transfer_ring :: "DeviceContextIndex \<Rightarrow> Dev \<Rightarrow> u64" where
  "transfer_ring dci d = (if dci = 0 then d_before_rings d else d_transfer_rings d ! nat (dci - 1))"

definition set_transfer_ring :: "DeviceContextIndex \<Rightarrow> u64 \<Rightarrow> Dev \<Rightarrow> Dev" where
  "set_transfer_ring dci tr d =
    (if dci = 0 then d\<lparr>d_before_rings := tr\<rparr>
     else d\<lparr>d_transfer_rings := (d_transfer_rings d)[nat (dci - 1) := tr]\<rparr>)"

text \<open>What a class driver tells its observers.\<close>

datatype HidEvent = KeyPush u8 u8 bool | MouseMove u8 int int

record Usb =
  u_ptr :: u64
  u_blocks :: trb_heap
  u_rings :: "u64 \<Rightarrow> Ring"
  u_devs :: "u64 \<Rightarrow> Dev"
  u_hids :: "u64 \<Rightarrow> Hid"
  u_dma :: "u64 \<Rightarrow> u8"
  u_doorbells :: "(u8 \<times> u32) list"
  u_keyboard_observer :: bool
  u_mouse_observer :: bool
  u_events :: "HidEvent list"

definition update_dev :: "u64 \<Rightarrow> (Dev \<Rightarrow> Dev) \<Rightarrow> Usb \<Rightarrow> Usb" where
  "update_dev p g u = u\<lparr>u_devs := (u_devs u)(p := g (u_devs u p))\<rparr>"

definition update_hid :: "u64 \<Rightarrow> (Hid \<Rightarrow> Hid) \<Rightarrow> Usb \<Rightarrow> Usb" where
  "update_hid p g u = u\<lparr>u_hids := (u_hids u)(p := g (u_hids u p))\<rparr>"

definition push_to :: "u64 \<Rightarrow> trb \<Rightarrow> Usb \<Rightarrow> Usb \<times> u64" where
  "push_to tr t u =
    (case Ring_Push (u_rings u tr) t (u_blocks u) of (r', h', p) \<Rightarrow>
      (u\<lparr>u_rings := (u_rings u)(tr := r'), u_blocks := h'\<rparr>, p))"

definition ring_doorbell :: "u8 \<Rightarrow> u8 \<Rightarrow> Usb \<Rightarrow> Usb" where
  "ring_doorbell index target u = u\<lparr>u_doorbells := u_doorbells u @ [(index, Doorbell_Ring target 0)]\<rparr>"

text \<open>The cast of a pointer to a block; null if the block has another type.\<close>

definition trb_cast :: "nat \<Rightarrow> u64 \<Rightarrow> Usb \<Rightarrow> u64" where
  "trb_cast ty p u = (if TRBDynamicCast ty (u_blocks u p) = None then 0 else p)"

section \<open>Transfers\<close>

definition AllocTransferRing :: "Abi \<Rightarrow> u64 \<Rightarrow> DeviceContextIndex \<Rightarrow> nat \<Rightarrow> Usb \<Rightarrow> Usb \<times> u64" where
  "AllocTransferRing abi dev index buf_size u =
    (let (ptr1, p) = AllocArray (memory_pool abi) (sizeof_Ring abi) 1 64 4096 (u_ptr u);
         u1 = u\<lparr>u_ptr := ptr1\<rparr>;
         tr = (case p of None \<Rightarrow> 0 | Some a \<Rightarrow> a);
         u2 = (if tr \<noteq> 0
               then case Ring_Initialize (memory_pool abi) buf_size (u_rings u1 tr) (u_ptr u1) (u_blocks u1) of
                      (r, ptr2, h, err) \<Rightarrow> u1\<lparr>u_ptr := ptr2, u_rings := (u_rings u1)(tr := r), u_blocks := h\<rparr>
               else u1)
     in (update_dev dev (set_transfer_ring index tr) u2, tr))"

definition kNoDataStage :: trb where "kNoDataStage = 0"
definition kOutDataStage :: trb where "kOutDataStage = 2"
definition kInDataStage :: trb where "kInDataStage = 3"

definition MakeSetupStageTRB :: "SetupData \<Rightarrow> trb \<Rightarrow> trb" where
  "MakeSetupStageTRB setup_data transfer_type =
    (let s1 = set_field SetupStageTRB_bits ''request_type'' (ucast (sd_request_type setup_data)) new_SetupStageTRB;
         s2 = set_field SetupStageTRB_bits ''request'' (ucast (sd_request setup_data)) s1;
         s3 = set_field SetupStageTRB_bits ''value'' (ucast (sd_value setup_data)) s2;
         s4 = set_field SetupStageTRB_bits ''index'' (ucast (sd_index setup_data)) s3;
         s5 = set_field SetupStageTRB_bits ''length'' (ucast (sd_length setup_data)) s4
     in set_field SetupStageTRB_bits ''transfer_type'' transfer_type s5)"

definition MakeDataStageTRB :: "u64 \<Rightarrow> int \<Rightarrow> bool \<Rightarrow> trb" where
  "MakeDataStageTRB buf len dir_in =
    (let d1 = DataStageTRB_SetPointer buf new_DataStageTRB;
         d2 = set_field DataStageTRB_bits ''trb_transfer_length'' (of_int len) d1;
         d3 = set_field DataStageTRB_bits ''td_size'' 0 d2
     in set_field DataStageTRB_bits ''direction'' (if dir_in then 1 else 0) d3)"

text \<open>\<open>usb::Device::ControlIn\<close> and \<open>ControlOut\<close>, which the transfers call first.\<close>

definition base_Control :: "u64 \<Rightarrow> SetupData \<Rightarrow> u64 \<Rightarrow> Usb \<Rightarrow> Usb" where
  "base_Control dev setup_data issuer u =
    (if issuer \<noteq> 0 then update_dev dev (\<lambda>d. d\<lparr>d_event_waiters := ArrayMap_Put setup_data issuer (d_event_waiters d)\<rparr>) u
     else u)"

definition put_setup_stage :: "u64 \<Rightarrow> u64 \<Rightarrow> u64 \<Rightarrow> Usb \<Rightarrow> Usb" where
  "put_setup_stage dev position setup_position u =
    update_dev dev (\<lambda>d. d\<lparr>d_setup_stage_map := ArrayMap_Put position setup_position (d_setup_stage_map d)\<rparr>) u"

definition ControlIn ::
  "u64 \<Rightarrow> EndpointID \<Rightarrow> SetupData \<Rightarrow> u64 \<Rightarrow> int \<Rightarrow> u64 \<Rightarrow> Usb \<Rightarrow> Usb \<times> ErrorCode" where
  "ControlIn dev ep_id setup_data buf len issuer u0 =
    (let u = base_Control dev setup_data issuer u0 in
     if EndpointID_Number ep_id < 0 \<or> 15 < EndpointID_Number ep_id then (u, kInvalidEndpointNumber)
     else
       let dci = DeviceContextIndex_of ep_id; tr = transfer_ring dci (u_devs u dev) in
       if tr = 0 then (u, kTransferRingNotSet)
       else
         let status = new_StatusStageTRB;
             u' =
               (if buf \<noteq> 0
                then
                  let (u1, p) = push_to tr (MakeSetupStageTRB setup_data kInDataStage) u;
                      setup_trb_position = trb_cast 2 p u1;
                      data = set_field DataStageTRB_bits ''interrupt_on_completion'' 1 (MakeDataStageTRB buf len True);
                      (u2, data_trb_position) = push_to tr data u1;
                      (u3, _) = push_to tr status u2
                  in put_setup_stage dev data_trb_position setup_trb_position u3
                else
                  let (u1, p) = push_to tr (MakeSetupStageTRB setup_data kNoDataStage) u;
                      setup_trb_position = trb_cast 2 p u1;
                      status1 = set_field StatusStageTRB_bits ''interrupt_on_completion'' 1
                        (set_field StatusStageTRB_bits ''direction'' 1 status);
                      (u2, status_trb_position) = push_to tr status1 u1
                  in put_setup_stage dev status_trb_position setup_trb_position u2)
         in (ring_doorbell (d_dbreg (u_devs u' dev)) (of_int dci) u', kSuccess))"

definition ControlOut ::
  "u64 \<Rightarrow> EndpointID \<Rightarrow> SetupData \<Rightarrow> u64 \<Rightarrow> int \<Rightarrow> u64 \<Rightarrow> Usb \<Rightarrow> Usb \<times> ErrorCode" where
  "ControlOut dev ep_id setup_data buf len issuer u0 =
    (let u = base_Control dev setup_data issuer u0 in
     if EndpointID_Number ep_id < 0 \<or> 15 < EndpointID_Number ep_id then (u, kInvalidEndpointNumber)
     else
       let dci = DeviceContextIndex_of ep_id; tr = transfer_ring dci (u_devs u dev) in
       if tr = 0 then (u, kTransferRingNotSet)
       else
         let status = set_field StatusStageTRB_bits ''direction'' 1 new_StatusStageTRB;
             u' =
               (if buf \<noteq> 0
                then
                  let (u1, p) = push_to tr (MakeSetupStageTRB setup_data kOutDataStage) u;
                      setup_trb_position = trb_cast 2 p u1;
                      data = set_field DataStageTRB_bits ''interrupt_on_completion'' 1 (MakeDataStageTRB buf len False);
                      (u2, data_trb_position) = push_to tr data u1;
                      (u3, _) = push_to tr status u2
                  in put_setup_stage dev data_trb_position setup_trb_position u3
                else
                  let (u1, p) = push_to tr (MakeSetupStageTRB setup_data kNoDataStage) u;
                      setup_trb_position = trb_cast 2 p u1;
                      status1 = set_field StatusStageTRB_bits ''interrupt_on_completion'' 1 status;
                      (u2, status_trb_position) = push_to tr status1 u1
                  in put_setup_stage dev status_trb_position setup_trb_position u2)
         in (ring_doorbell (d_dbreg (u_devs u' dev)) (of_int dci) u', kSuccess))"

definition InterruptIn :: "u64 \<Rightarrow> EndpointID \<Rightarrow> u64 \<Rightarrow> int \<Rightarrow> Usb \<Rightarrow> Usb \<times> ErrorCode" where
  "InterruptIn dev ep_id buf len u =
    (let dci = DeviceContextIndex_of ep_id; tr = transfer_ring dci (u_devs u dev) in
     if tr = 0 then (u, kTransferRingNotSet)
     else
       let n1 = NormalTRB_SetPointer buf new_NormalTRB;
           n2 = set_field NormalTRB_bits ''trb_transfer_length'' (of_int len) n1;
           n3 = set_field NormalTRB_bits ''interrupt_on_short_packet'' 1 n2;
           normal = set_field NormalTRB_bits ''interrupt_on_completion'' 1 n3;
           (u1, _) = push_to tr normal u
       in (ring_doorbell (d_dbreg (u_devs u1 dev)) (of_int dci) u1, kSuccess))"

definition InterruptOut :: "u64 \<Rightarrow> EndpointID \<Rightarrow> u64 \<Rightarrow> int \<Rightarrow> Usb \<Rightarrow> Usb \<times> ErrorCode" where
  "InterruptOut dev ep_id buf len u = (u, kNotImplemented)"

section \<open>Class drivers\<close>

definition new_Hid :: "HidKind \<Rightarrow> u64 \<Rightarrow> int \<Rightarrow> Hid" where
  "new_Hid kind dev interface_index =
    \<lparr>hid_kind = kind, hid_dev = dev, hid_ep_interrupt_in = 0, hid_ep_interrupt_out = 0,
     hid_interface_index = interface_index, hid_in_packet_size = (case kind of KeyboardDriver \<Rightarrow> 8 | MouseDriver \<Rightarrow> 3),
     hid_initialize_phase = 0, hid_previous_buf = (\<lambda>_. 0), hid_num_observers = 0\<rparr>"

text \<open>
  \<open>operator new\<close> takes the memory from the pool; a null pointer is passed on.  The initial
  contents of \<open>buf_\<close> are those of the pool.
\<close>

definition new_HidDriver :: "Abi \<Rightarrow> HidKind \<Rightarrow> u64 \<Rightarrow> int \<Rightarrow> Usb \<Rightarrow> Usb \<times> u64" where
  "new_HidDriver abi kind dev interface_index u =
    (let size = (case kind of KeyboardDriver \<Rightarrow> sizeof_HIDKeyboardDriver abi | MouseDriver \<Rightarrow> sizeof_HIDMouseDriver abi);
         (ptr1, p) = AllocMem (memory_pool abi) size 0 0 (u_ptr u);
         a = (case p of None \<Rightarrow> 0 | Some a \<Rightarrow> a)
     in (u\<lparr>u_ptr := ptr1, u_hids := (u_hids u)(a := new_Hid kind dev interface_index)\<rparr>, a))"

definition Subscribe :: "Hid \<Rightarrow> Hid" where
  "Subscribe h = h\<lparr>hid_num_observers := hid_num_observers h + 1\<rparr>"

definition NewClassDriver :: "Abi \<Rightarrow> u64 \<Rightarrow> InterfaceDescriptor \<Rightarrow> Usb \<Rightarrow> Usb \<times> u64" where
  "NewClassDriver abi dev if_desc u =
    (if id_interface_class if_desc = 3 \<and> id_interface_sub_class if_desc = 1
     then if id_interface_protocol if_desc = 1
       then let (u1, p) = new_HidDriver abi KeyboardDriver dev (uint (id_interface_number if_desc)) u
            in (if u_keyboard_observer u1 then update_hid p Subscribe u1 else u1, p)
       else if id_interface_protocol if_desc = 2
       then let (u1, p) = new_HidDriver abi MouseDriver dev (uint (id_interface_number if_desc)) u
            in (if u_mouse_observer u1 then update_hid p Subscribe u1 else u1, p)
       else (u, 0)
     else (u, 0))"

definition HID_SetEndpoint :: "EndpointConfig \<Rightarrow> Hid \<Rightarrow> Hid" where
  "HID_SetEndpoint config h =
    (if cfg_ep_type config = kInterrupt \<and> EndpointID_IsIn (cfg_ep_id config)
     then h\<lparr>hid_ep_interrupt_in := cfg_ep_id config\<rparr>
     else if cfg_ep_type config = kInterrupt \<and> \<not> EndpointID_IsIn (cfg_ep_id config)
     then h\<lparr>hid_ep_interrupt_out := cfg_ep_id config\<rparr>
     else h)"

definition HID_OnEndpointsConfigured :: "u64 \<Rightarrow> Usb \<Rightarrow> Usb \<times> ErrorCode" where
  "HID_OnEndpointsConfigured p u =
    (let setup_data = zero_SetupData\<lparr>sd_request_type := make_request_type kOut kClass kRecipientInterface,
           sd_request := kSetProtocol, sd_value := 0, sd_index := of_int (hid_interface_index (u_hids u p)), sd_length := 0\<rparr>;
         u1 = update_hid p (\<lambda>h. h\<lparr>hid_initialize_phase := 1\<rparr>) u
     in ControlOut (hid_dev (u_hids u1 p)) kDefaultControlPipeID setup_data 0 0 p u1)"

definition HID_OnControlCompleted :: "Abi \<Rightarrow> u64 \<Rightarrow> Usb \<Rightarrow> Usb \<times> ErrorCode" where
  "HID_OnControlCompleted abi p u =
    (let h = u_hids u p in
     if hid_initialize_phase h = 1
     then InterruptIn (hid_dev h) (hid_ep_interrupt_in h) (p + offset_hid_buf abi) (hid_in_packet_size h)
       (update_hid p (\<lambda>h. h\<lparr>hid_initialize_phase := 2\<rparr>) u)
     else (u, kNotImplemented))"

text \<open>The bytes of \<open>buf_\<close>, where the controller put them.\<close>

definition HID_Buffer :: "Abi \<Rightarrow> u64 \<Rightarrow> Usb \<Rightarrow> nat \<Rightarrow> u8" where
  "HID_Buffer abi p u i = u_dma u (p + offset_hid_buf abi + of_nat i)"

definition notify :: "nat \<Rightarrow> HidEvent \<Rightarrow> Usb \<Rightarrow> Usb" where
  "notify num_observers e u = u\<lparr>u_events := u_events u @ replicate num_observers e\<rparr>"

text \<open>The sets of keys are those of bytes 2 to 7 of the reports.\<close>

definition report_keys :: "(nat \<Rightarrow> u8) \<Rightarrow> u8 list" where
  "report_keys buf = map buf [2..<8]"

definition Keyboard_OnDataReceived :: "Abi \<Rightarrow> u64 \<Rightarrow> Usb \<Rightarrow> Usb" where
  "Keyboard_OnDataReceived abi p u =
    (let h = u_hids u p;
         prev = report_keys (hid_previous_buf h); current = report_keys (HID_Buffer abi p u)
     in fold (\<lambda>key u. let k = of_nat key; changed = (k \<in> set prev) \<noteq> (k \<in> set current); pressed = changed \<and> k \<in> set current in
           if changed then notify (hid_num_observers h) (KeyPush (HID_Buffer abi p u 0) k pressed) u else u)
         [1..<256] u)"

definition Mouse_OnDataReceived :: "Abi \<Rightarrow> u64 \<Rightarrow> Usb \<Rightarrow> Usb" where
  "Mouse_OnDataReceived abi p u =
    (let buttons = HID_Buffer abi p u 0;
         displacement_x = sint (HID_Buffer abi p u 1);
         displacement_y = sint (HID_Buffer abi p u 2)
     in notify (hid_num_observers (u_hids u p)) (MouseMove buttons displacement_x displacement_y) u)"

definition HID_OnDataReceived :: "Abi \<Rightarrow> u64 \<Rightarrow> Usb \<Rightarrow> Usb" where
  "HID_OnDataReceived abi p u =
    (case hid_kind (u_hids u p) of KeyboardDriver \<Rightarrow> Keyboard_OnDataReceived abi p u | MouseDriver \<Rightarrow> Mouse_OnDataReceived abi p u)"

text \<open>\<open>copy_n\<close> copies nothing for a length that is not positive.\<close>

definition HID_OnInterruptCompleted :: "Abi \<Rightarrow> u64 \<Rightarrow> EndpointID \<Rightarrow> int \<Rightarrow> Usb \<Rightarrow> Usb \<times> ErrorCode" where
  "HID_OnInterruptCompleted abi p ep_id len u =
    (if EndpointID_IsIn ep_id
     then
       let u1 = HID_OnDataReceived abi p u;
           u2 = update_hid p (\<lambda>h. h\<lparr>hid_previous_buf :=
             (\<lambda>i. if int i < len then HID_Buffer abi p u1 i else hid_previous_buf h i)\<rparr>) u1;
           h = u_hids u2 p
       in InterruptIn (hid_dev h) (hid_ep_interrupt_in h) (p + offset_hid_buf abi) (hid_in_packet_size h) u2
     else (u, kNotImplemented))"

section \<open>Devices\<close>

definition GetDescriptor :: "u64 \<Rightarrow> EndpointID \<Rightarrow> u8 \<Rightarrow> u8 \<Rightarrow> u64 \<Rightarrow> int \<Rightarrow> Usb \<Rightarrow> Usb \<times> ErrorCode" where
  "GetDescriptor dev ep_id desc_type desc_index buf len u =
    (let setup_data = zero_SetupData\<lparr>sd_request_type := make_request_type kIn kStandard kRecipientDevice,
           sd_request := kGetDescriptor, sd_value := push_bit 8 (ucast desc_type) OR ucast desc_index,
           sd_index := 0, sd_length := of_int len\<rparr>
     in ControlIn dev ep_id setup_data buf len 0 u)"

definition SetConfiguration :: "u64 \<Rightarrow> EndpointID \<Rightarrow> u8 \<Rightarrow> Usb \<Rightarrow> Usb \<times> ErrorCode" where
  "SetConfiguration dev ep_id config_value u =
    (let setup_data = zero_SetupData\<lparr>sd_request_type := make_request_type kOut kStandard kRecipientDevice,
           sd_request := kSetConfiguration, sd_value := ucast config_value, sd_index := 0, sd_length := 0\<rparr>
     in ControlOut dev ep_id setup_data 0 0 0 u)"

definition StartInitialize :: "Abi \<Rightarrow> u64 \<Rightarrow> Usb \<Rightarrow> Usb \<times> ErrorCode" where
  "StartInitialize abi dev u =
    GetDescriptor dev kDefaultControlPipeID kDeviceDescriptorType 0 (dev + offset_dev_buf abi) 256
      (update_dev dev (\<lambda>d. d\<lparr>d_is_initialized := False, d_initialize_phase := 1\<rparr>) u)"

fun configure_drivers :: "u64 list \<Rightarrow> Usb \<Rightarrow> Usb \<times> ErrorCode" where
  "configure_drivers [] u = (u, kSuccess)"
| "configure_drivers (p # ps) u =
    (if p \<noteq> 0
     then case HID_OnEndpointsConfigured p u of
            (u1, err) \<Rightarrow> if err \<noteq> kSuccess then (u1, err) else configure_drivers ps u1
     else configure_drivers ps u)"

definition OnEndpointsConfigured :: "u64 \<Rightarrow> Usb \<Rightarrow> Usb \<times> ErrorCode" where
  "OnEndpointsConfigured dev u = configure_drivers (d_class_drivers (u_devs u dev)) u"

definition InitializePhase1 :: "Abi \<Rightarrow> u64 \<Rightarrow> u64 \<Rightarrow> Usb \<Rightarrow> Usb \<times> ErrorCode" where
  "InitializePhase1 abi dev buf u =
    (let device_desc = DeviceDescriptor_at (u_dma u) (DescriptorDynamicCast kDeviceDescriptorType (u_dma u) buf);
         u1 = update_dev dev (\<lambda>d. d\<lparr>d_num_configurations := dd_num_configurations device_desc,
           d_config_index := 0, d_initialize_phase := 2\<rparr>) u
     in GetDescriptor dev kDefaultControlPipeID kConfigurationDescriptorType (d_config_index (u_devs u1 dev))
          (dev + offset_dev_buf abi) 256 u1)"

text \<open>The loop of \<open>InitializePhase2\<close> over the interfaces, up to the first one that has a driver.\<close>

partial_function (option) find_interface ::
  "Abi \<Rightarrow> u64 \<Rightarrow> u64 \<Rightarrow> int \<Rightarrow> u64 \<Rightarrow> Usb \<Rightarrow> (Usb \<times> u64) option" where
  "find_interface abi dev buf len p u =
    do { (p', if_desc) \<leftarrow> reader_Next_as kInterfaceDescriptorType (u_dma u) buf len p;
         if if_desc = 0 then Some (u, 0)
         else
           let ifd = InterfaceDescriptor_at (u_dma u) if_desc;
               (u1, class_driver) = NewClassDriver abi dev ifd u
           in if class_driver = 0 then find_interface abi dev buf len p' u1
              else do {
                (num, configs, drivers) \<leftarrow> collect_endpoints (u_dma u1) buf len (uint (id_num_endpoints ifd)) class_driver
                  p' 0 (d_ep_configs (u_devs u1 dev)) (d_class_drivers (u_devs u1 dev));
                Some (update_dev dev (\<lambda>d. d\<lparr>d_num_ep_configs := num, d_ep_configs := configs,
                  d_class_drivers := drivers\<rparr>) u1, class_driver) } }"

definition InitializePhase2 :: "Abi \<Rightarrow> u64 \<Rightarrow> u64 \<Rightarrow> int \<Rightarrow> Usb \<Rightarrow> (Usb \<times> ErrorCode) option" where
  "InitializePhase2 abi dev buf len u =
    (let conf_desc = DescriptorDynamicCast kConfigurationDescriptorType (u_dma u) buf in
     if conf_desc = 0 then Some (u, kInvalidDescriptor)
     else do { (u1, class_driver) \<leftarrow> find_interface abi dev buf len buf u;
       if class_driver = 0 then Some (u1, kSuccess)
       else Some (SetConfiguration dev kDefaultControlPipeID
              (cd_configuration_value (ConfigurationDescriptor_at (u_dma u1) conf_desc))
              (update_dev dev (\<lambda>d. d\<lparr>d_initialize_phase := 3\<rparr>) u1)) })"

text \<open>\<open>None\<close>: the call through a null pointer.\<close>

definition InitializePhase3 :: "u64 \<Rightarrow> Usb \<Rightarrow> (Usb \<times> ErrorCode) option" where
  "InitializePhase3 dev u =
    (let d = u_devs u dev;
         driver = (\<lambda>conf. d_class_drivers d ! nat (EndpointID_Number (cfg_ep_id conf)));
         configs = take (nat (d_num_ep_configs d)) (d_ep_configs d)
     in if list_ex (\<lambda>conf. driver conf = 0) configs then None
        else
          let u1 = fold (\<lambda>conf. update_hid (driver conf) (HID_SetEndpoint conf)) configs u
          in Some (update_dev dev (\<lambda>d. d\<lparr>d_initialize_phase := 4, d_is_initialized := True\<rparr>) u1, kSuccess))"

definition OnControlCompleted :: "Abi \<Rightarrow> u64 \<Rightarrow> SetupData \<Rightarrow> u64 \<Rightarrow> int \<Rightarrow> Usb \<Rightarrow> (Usb \<times> ErrorCode) option" where
  "OnControlCompleted abi dev setup_data buf len u =
    (let d = u_devs u dev in
     if d_is_initialized d
     then case ArrayMap_Get setup_data (d_event_waiters d) of
            Some w \<Rightarrow> Some (HID_OnControlCompleted abi w u)
          | None \<Rightarrow> Some (u, kNoWaiter)
     else if d_initialize_phase d = 1
     then if sd_request setup_data = kGetDescriptor \<and> DescriptorDynamicCast kDeviceDescriptorType (u_dma u) buf \<noteq> 0
       then Some (InitializePhase1 abi dev buf u) else Some (u, kInvalidPhase)
     else if d_initialize_phase d = 2
     then if sd_request setup_data = kGetDescriptor \<and> DescriptorDynamicCast kConfigurationDescriptorType (u_dma u) buf \<noteq> 0
       then InitializePhase2 abi dev buf len u else Some (u, kInvalidPhase)
     else if d_initialize_phase d = 3
     then if sd_request setup_data = kSetConfiguration
       then InitializePhase3 dev u else Some (u, kInvalidPhase)
     else Some (u, kNotImplemented))"

definition OnInterruptCompleted :: "Abi \<Rightarrow> u64 \<Rightarrow> EndpointID \<Rightarrow> int \<Rightarrow> Usb \<Rightarrow> Usb \<times> ErrorCode" where
  "OnInterruptCompleted abi dev ep_id len u =
    (let w = d_class_drivers (u_devs u dev) ! nat (EndpointID_Number ep_id) in
     if w \<noteq> 0 then HID_OnInterruptCompleted abi w ep_id len u else (u, kNoWaiter))"

text \<open>Bit fields of less than 32 bits are promoted to \<open>int\<close>, so the difference may be negative.\<close>

definition OnTransferEventReceived :: "Abi \<Rightarrow> u64 \<Rightarrow> trb \<Rightarrow> Usb \<Rightarrow> (Usb \<times> ErrorCode) option" where
  "OnTransferEventReceived abi dev t u =
    (let residual_length = uint (get_field TransferEventTRB_bits ''trb_transfer_length'' t);
         completion_code = get_field TransferEventTRB_bits ''completion_code'' t
     in if completion_code \<noteq> 1 \<and> completion_code \<noteq> 13 then Some (u, kTransferFailed)
     else
       let issuer_trb = TransferEventTRB_Pointer t; blk = u_blocks u issuer_trb in
       case TRBDynamicCast 1 blk of
         Some normal_trb \<Rightarrow>
           Some (OnInterruptCompleted abi dev (int (TransferEventTRB_EndpointID t))
             (uint (get_field NormalTRB_bits ''trb_transfer_length'' normal_trb) - residual_length) u)
       | None \<Rightarrow>
           case ArrayMap_Get issuer_trb (d_setup_stage_map (u_devs u dev)) of
             None \<Rightarrow> Some (u, kNoCorrespondingSetupStage)
           | Some setup_stage \<Rightarrow>
               let u1 = update_dev dev (\<lambda>d. d\<lparr>d_setup_stage_map := ArrayMap_Delete issuer_trb (d_setup_stage_map d)\<rparr>) u;
                   s = u_blocks u1 setup_stage;
                   setup_data = \<lparr>sd_request_type = ucast (get_field SetupStageTRB_bits ''request_type'' s),
                     sd_request = ucast (get_field SetupStageTRB_bits ''request'' s),
                     sd_value = ucast (get_field SetupStageTRB_bits ''value'' s),
                     sd_index = ucast (get_field SetupStageTRB_bits ''index'' s),
                     sd_length = ucast (get_field SetupStageTRB_bits ''length'' s)\<rparr>
               in case TRBDynamicCast 3 blk of
                    Some data_stage_trb \<Rightarrow>
                      OnControlCompleted abi dev setup_data (DataStageTRB_Pointer data_stage_trb)
                        (uint (get_field DataStageTRB_bits ''trb_transfer_length'' data_stage_trb) - residual_length) u1
                  | None \<Rightarrow>
                      (case TRBDynamicCast 4 blk of
                         Some _ \<Rightarrow> OnControlCompleted abi dev setup_data 0 0 u1
                       | None \<Rightarrow> Some (u1, kNotImplemented)))"

end
