(* ===== verification/Xhci_Controller.thy ===== *)
theory Xhci_Controller
  imports Usb_Devices
begin

text \<open>
  The host controller driver: \<open>kernel/usb/xhci/devmgr.hpp\<close>, \<open>devmgr.cpp\<close>, \<open>port.hpp\<close>,
  \<open>port.cpp\<close>, \<open>xhci.hpp\<close> and \<open>xhci.cpp\<close> (without the search on the PCI bus).

  The registers belong to the hardware.  \<open>Hw\<close> gives the values the driver reads after it has
  written one: \<open>hw_portsc old v n\<close> is what the \<open>n\<close>-th read of a PORTSC register sees after
  \<open>v\<close> was written over \<open>old\<close>, and so on.  A loop that waits for the hardware returns \<open>None\<close>
  when it never ends.
\<close>

section \<open>Hardware\<close>

record Hw =
  hw_portsc :: "u32 \<Rightarrow> u32 \<Rightarrow> nat \<Rightarrow> u32"
  hw_usbcmd :: "OperationalRegisters \<Rightarrow> u32 \<Rightarrow> nat \<Rightarrow> OperationalRegisters"
  hw_legsup :: "u32 \<Rightarrow> nat \<Rightarrow> u32"
  hw_extregs :: "u64 \<Rightarrow> u32"

section \<open>State\<close>

datatype ConfigPhase =
    kNotConnected | kWaitingAddressed | kResettingPort | kEnablingSlot | kAddressingDevice
  | kInitializingDevice | kConfiguringEndpoints | kConfigured

record DeviceManager =
  dm_device_contexts :: u64
  dm_device_context_pointers :: "u64 list"
  dm_max_slots :: nat
  dm_devices :: "u64 list"

text \<open>
  \<open>dm_device_contexts\<close> is the address of the array that \<open>dm_device_context_pointers\<close> holds.
  The port registers are indexed like the array of the code; port 0 would be index -1.  The
  phases are indexed by the port number, an 8-bit integer.
\<close>

record Xhc =
  xhc_mmio_base :: u64
  xhc_max_ports :: u8
  xhc_cap :: CapabilityRegisters
  xhc_op :: OperationalRegisters
  xhc_interrupter :: InterrupterRegisterSet
  xhc_ports :: "int \<Rightarrow> PortRegisterSet"
  xhc_devmgr :: DeviceManager
  xhc_cr :: Ring
  xhc_er :: EventRing
  xhc_scratchpad :: "u64 list"
  xhc_usb :: Usb
  port_config_phase :: "u8 \<Rightarrow> ConfigPhase"
  addressing_port :: u8

definition set_phase :: "u8 \<Rightarrow> ConfigPhase \<Rightarrow> Xhc \<Rightarrow> Xhc" where
  "set_phase p ph x = x\<lparr>port_config_phase := (port_config_phase x)(p := ph)\<rparr>"

definition on_usb :: "(Usb \<Rightarrow> Usb \<times> 'a) \<Rightarrow> Xhc \<Rightarrow> Xhc \<times> 'a" where
  "on_usb g x = (case g (xhc_usb x) of (u, a) \<Rightarrow> (x\<lparr>xhc_usb := u\<rparr>, a))"

definition on_dev :: "u64 \<Rightarrow> (Dev \<Rightarrow> Dev) \<Rightarrow> Xhc \<Rightarrow> Xhc" where
  "on_dev p g x = x\<lparr>xhc_usb := update_dev p g (xhc_usb x)\<rparr>"

definition dev_at :: "u64 \<Rightarrow> Xhc \<Rightarrow> Dev" where
  "dev_at p x = u_devs (xhc_usb x) p"

section \<open>The device manager\<close>

definition DeviceManager_Initialize :: "Abi \<Rightarrow> nat \<Rightarrow> Xhc \<Rightarrow> Xhc \<times> ErrorCode" where
  "DeviceManager_Initialize abi max_slots x =
    (let u = xhc_usb x;
         dm = (xhc_devmgr x)\<lparr>dm_max_slots := max_slots\<rparr>;
         (ptr1, p) = AllocArray (memory_pool abi) 8 (of_nat (max_slots + 1)) 0 0 (u_ptr u)
     in case p of
          None \<Rightarrow> (x\<lparr>xhc_devmgr := dm, xhc_usb := u\<lparr>u_ptr := ptr1\<rparr>\<rparr>, kNoEnoughMemory)
        | Some devices \<Rightarrow>
            let (ptr2, q) = AllocArray (memory_pool abi) 8 (of_nat (max_slots + 1)) 64 4096 ptr1 in
            case q of
              None \<Rightarrow> (x\<lparr>xhc_devmgr := dm, xhc_usb := u\<lparr>u_ptr := FreeMem devices ptr2\<rparr>\<rparr>, kNoEnoughMemory)
            | Some contexts \<Rightarrow>
                (x\<lparr>xhc_devmgr := dm\<lparr>dm_device_contexts := contexts, dm_devices := replicate (max_slots + 1) 0,
                   dm_device_context_pointers := replicate (max_slots + 1) 0\<rparr>,
                  xhc_usb := u\<lparr>u_ptr := ptr2\<rparr>\<rparr>, kSuccess))"

fun find_device :: "(u64 \<Rightarrow> bool) \<Rightarrow> u64 list \<Rightarrow> u64" where
  "find_device P [] = 0"
| "find_device P (p # ps) = (if p = 0 then find_device P ps else if P p then p else find_device P ps)"

definition FindByPort :: "u8 \<Rightarrow> Xhc \<Rightarrow> u64" where
  "FindByPort port_num x =
    find_device (\<lambda>p. get_field SlotContext_bits ''root_hub_port_num'' (dc_slot_context (d_ctx (dev_at p x))) = ucast port_num)
      (tl (dm_devices (xhc_devmgr x)))"

definition FindByState :: "DeviceState \<Rightarrow> Xhc \<Rightarrow> u64" where
  "FindByState s x =
    find_device (\<lambda>p. get_bits 0 32 (d_before_rings (dev_at p x)) = DeviceState_number s) (tl (dm_devices (xhc_devmgr x)))"

definition FindBySlot :: "u8 \<Rightarrow> Xhc \<Rightarrow> u64" where
  "FindBySlot slot_id x =
    (if unat slot_id > dm_max_slots (xhc_devmgr x) then 0 else dm_devices (xhc_devmgr x) ! unat slot_id)"

text \<open>When the pool is exhausted the constructor runs on a null pointer.\<close>

definition AllocDevice :: "Abi \<Rightarrow> u8 \<Rightarrow> u8 \<Rightarrow> Xhc \<Rightarrow> Xhc \<times> ErrorCode" where
  "AllocDevice abi slot_id dbreg x =
    (let dm = xhc_devmgr x; u = xhc_usb x in
     if unat slot_id > dm_max_slots dm then (x, kInvalidSlotID)
     else if dm_devices dm ! unat slot_id \<noteq> 0 then (x, kAlreadyAllocated)
     else
       let (ptr1, p) = AllocArray (memory_pool abi) (sizeof_Device abi) 1 64 4096 (u_ptr u);
           a = (case p of None \<Rightarrow> 0 | Some a \<Rightarrow> a)
       in (x\<lparr>xhc_devmgr := dm\<lparr>dm_devices := (dm_devices dm)[unat slot_id := a]\<rparr>,
             xhc_usb := u\<lparr>u_ptr := ptr1, u_devs := (u_devs u)(a := new_Device slot_id dbreg)\<rparr>\<rparr>, kSuccess))"

definition LoadDCBAA :: "Abi \<Rightarrow> u8 \<Rightarrow> Xhc \<Rightarrow> Xhc \<times> ErrorCode" where
  "LoadDCBAA abi slot_id x =
    (let dm = xhc_devmgr x in
     if unat slot_id > dm_max_slots dm then (x, kInvalidSlotID)
     else (x\<lparr>xhc_devmgr := dm\<lparr>dm_device_context_pointers := (dm_device_context_pointers dm)[unat slot_id :=
            dm_devices dm ! unat slot_id + offset_ctx abi]\<rparr>\<rparr>, kSuccess))"

definition Remove :: "u8 \<Rightarrow> Xhc \<Rightarrow> Xhc \<times> ErrorCode" where
  "Remove slot_id x =
    (let dm = xhc_devmgr x; u = xhc_usb x in
     (x\<lparr>xhc_devmgr := dm\<lparr>dm_device_context_pointers := (dm_device_context_pointers dm)[unat slot_id := 0],
          dm_devices := (dm_devices dm)[unat slot_id := 0]\<rparr>,
        xhc_usb := u\<lparr>u_ptr := FreeMem (dm_devices dm ! unat slot_id) (u_ptr u)\<rparr>\<rparr>, kSuccess))"

section \<open>Ports\<close>

definition port_regs :: "u8 \<Rightarrow> Xhc \<Rightarrow> PortRegisterSet" where
  "port_regs port_num x = xhc_ports x (uint port_num - 1)"

definition port_bit :: "string \<Rightarrow> u8 \<Rightarrow> Xhc \<Rightarrow> bool" where
  "port_bit name port_num x \<longleftrightarrow> get_field PORTSC_Bitmap_bits name (PORTSC (port_regs port_num x)) \<noteq> 0"

definition IsConnected :: "u8 \<Rightarrow> Xhc \<Rightarrow> bool" where
  "IsConnected = port_bit ''current_connect_status''"

definition IsEnabled :: "u8 \<Rightarrow> Xhc \<Rightarrow> bool" where
  "IsEnabled = port_bit ''port_enabled_disabled''"

definition IsConnectStatusChanged :: "u8 \<Rightarrow> Xhc \<Rightarrow> bool" where
  "IsConnectStatusChanged = port_bit ''connect_status_change''"

definition IsPortResetChanged :: "u8 \<Rightarrow> Xhc \<Rightarrow> bool" where
  "IsPortResetChanged = port_bit ''port_reset_change''"

definition Speed :: "u8 \<Rightarrow> Xhc \<Rightarrow> int" where
  "Speed port_num x = uint (get_field PORTSC_Bitmap_bits ''port_speed'' (PORTSC (port_regs port_num x)))"

definition set_portsc :: "u8 \<Rightarrow> u32 \<Rightarrow> Xhc \<Rightarrow> Xhc" where
  "set_portsc port_num v x =
    x\<lparr>xhc_ports := (xhc_ports x)(uint port_num - 1 := (port_regs port_num x)\<lparr>PORTSC := v\<rparr>)\<rparr>"

definition Port_Reset :: "Hw \<Rightarrow> u8 \<Rightarrow> Xhc \<Rightarrow> (Xhc \<times> ErrorCode) option" where
  "Port_Reset hw port_num x =
    (let portsc = PORTSC (port_regs port_num x);
         v = (portsc AND 0x0e00c3e0) OR 0x00020010
     in do { n \<leftarrow> busy_wait (hw_portsc hw portsc v) (\<lambda>r. get_field PORTSC_Bitmap_bits ''port_reset'' r \<noteq> 0) 0;
             Some (set_portsc port_num (hw_portsc hw portsc v n) x, kSuccess) })"

text \<open>\<open>CLEAR_STATUS_BIT\<close>.\<close>

definition clear_status_bit :: "Hw \<Rightarrow> string \<Rightarrow> u8 \<Rightarrow> Xhc \<Rightarrow> Xhc" where
  "clear_status_bit hw bitname port_num x =
    (let portsc = PORTSC (port_regs port_num x);
         v = set_field PORTSC_Bitmap_bits bitname 1 (portsc AND 0x0e01c3e0)
     in set_portsc port_num (hw_portsc hw portsc v 0) x)"

definition ClearConnectStatusChanged :: "Hw \<Rightarrow> u8 \<Rightarrow> Xhc \<Rightarrow> Xhc" where
  "ClearConnectStatusChanged hw = clear_status_bit hw ''connect_status_change''"

definition ClearPortResetChange :: "Hw \<Rightarrow> u8 \<Rightarrow> Xhc \<Rightarrow> Xhc" where
  "ClearPortResetChange hw = clear_status_bit hw ''port_reset_change''"

section \<open>Commands\<close>

definition push_command :: "trb \<Rightarrow> Xhc \<Rightarrow> Xhc" where
  "push_command t x =
    (case Ring_Push (xhc_cr x) t (u_blocks (xhc_usb x)) of (r', h', p) \<Rightarrow>
      x\<lparr>xhc_cr := r', xhc_usb := (xhc_usb x)\<lparr>u_blocks := h'\<rparr>\<rparr>)"

text \<open>A doorbell is rung through its index in the array.\<close>

definition DoorbellRegisterAt :: "u8 \<Rightarrow> u8" where
  "DoorbellRegisterAt index = index"

definition ring_command_doorbell :: "Xhc \<Rightarrow> Xhc" where
  "ring_command_doorbell x = x\<lparr>xhc_usb := ring_doorbell (DoorbellRegisterAt 0) 0 (xhc_usb x)\<rparr>"

definition RegisterCommandRing :: "Ring \<Rightarrow> u64 \<Rightarrow> u64" where
  "RegisterCommandRing ring crcr =
    (let v1 = set_field CRCR_Bitmap_bits ''ring_cycle_state'' 1 crcr;
         v2 = set_field CRCR_Bitmap_bits ''command_stop'' 0 v1;
         v3 = set_field CRCR_Bitmap_bits ''command_abort'' 0 v2
     in CRCR_SetPointer (ring_buf ring) v3)"

definition InitializeSlotContext :: "u8 \<Rightarrow> Xhc \<Rightarrow> ctx \<Rightarrow> ctx" where
  "InitializeSlotContext port_num x c =
    (let c1 = set_field SlotContext_bits ''route_string'' 0 c;
         c2 = set_field SlotContext_bits ''root_hub_port_num'' (ucast port_num) c1;
         c3 = set_field SlotContext_bits ''context_entries'' 1 c2
     in set_field SlotContext_bits ''speed'' (of_int (Speed port_num x)) c3)"

definition DetermineMaxPacketSizeForControlPipe :: "int \<Rightarrow> int" where
  "DetermineMaxPacketSizeForControlPipe slot_speed =
    (if slot_speed = 4 then 512 else if slot_speed = 3 then 64 else 8)"

text \<open>The instruction \<open>bsr\<close>: the position of the highest bit that is set.\<close>

fun highest_bit :: "nat \<Rightarrow> u32 \<Rightarrow> int" where
  "highest_bit 0 v = -1"
| "highest_bit (Suc k) v = (if bit v k then int k else highest_bit k v)"

definition MostSignificantBit :: "u32 \<Rightarrow> int" where
  "MostSignificantBit v = (if v = 0 then -1 else highest_bit 32 v)"

definition InitializeEP0Context :: "u64 \<Rightarrow> int \<Rightarrow> ctx \<Rightarrow> ctx" where
  "InitializeEP0Context transfer_ring_buffer max_packet_size c =
    (let c1 = set_field EndpointContext_bits ''ep_type'' 4 c;
         c2 = set_field EndpointContext_bits ''max_packet_size'' (of_int max_packet_size) c1;
         c3 = set_field EndpointContext_bits ''max_burst_size'' 0 c2;
         c4 = SetTransferRingBuffer transfer_ring_buffer c3;
         c5 = set_field EndpointContext_bits ''dequeue_cycle_state'' 1 c4;
         c6 = set_field EndpointContext_bits ''interval'' 0 c5;
         c7 = set_field EndpointContext_bits ''max_primary_streams'' 0 c6;
         c8 = set_field EndpointContext_bits ''mult'' 0 c7
     in set_field EndpointContext_bits ''error_count'' 3 c8)"

section \<open>The phases of a port\<close>

definition ResetPort :: "Hw \<Rightarrow> u8 \<Rightarrow> Xhc \<Rightarrow> (Xhc \<times> ErrorCode) option" where
  "ResetPort hw port x =
    (if \<not> IsConnected port x then Some (x, kSuccess)
     else if addressing_port x \<noteq> 0 then Some (set_phase port kWaitingAddressed x, kSuccess)
     else
       let port_phase = port_config_phase x port in
       if port_phase \<noteq> kNotConnected \<and> port_phase \<noteq> kWaitingAddressed then Some (x, kInvalidPhase)
       else do {
         (x', err) \<leftarrow> Port_Reset hw port (set_phase port kResettingPort (x\<lparr>addressing_port := port\<rparr>));
         Some (x', kSuccess) })"

definition EnableSlot :: "Hw \<Rightarrow> u8 \<Rightarrow> Xhc \<Rightarrow> Xhc \<times> ErrorCode" where
  "EnableSlot hw port x =
    (let is_enabled = IsEnabled port x; reset_completed = IsPortResetChanged port x in
     if is_enabled \<and> reset_completed
     then
       let x1 = ClearPortResetChange hw port x;
           x2 = set_phase port kEnablingSlot x1
       in (ring_command_doorbell (push_command new_EnableSlotCommandTRB x2), kSuccess)
     else (x, kSuccess))"

definition AddressDevice :: "Abi \<Rightarrow> u8 \<Rightarrow> u8 \<Rightarrow> Xhc \<Rightarrow> Xhc \<times> ErrorCode" where
  "AddressDevice abi port_id slot_id x =
    (let (x1, _) = AllocDevice abi slot_id (DoorbellRegisterAt slot_id) x;
         dev = FindBySlot slot_id x1
     in if dev = 0 then (x1, kInvalidSlotID)
     else
       let ep0_dci = new_DeviceContextIndex 0 False;
           x2 = on_dev dev (\<lambda>d. d\<lparr>d_input_ctx := (d_input_ctx d)\<lparr>ic_control := zero_InputControlContext\<rparr>\<rparr>) x1;
           x3 = on_dev dev (\<lambda>d. d\<lparr>d_input_ctx := EnableEndpoint ep0_dci (EnableSlotContext (d_input_ctx d))\<rparr>) x2;
           x4 = on_dev dev (\<lambda>d. d\<lparr>d_input_ctx := (d_input_ctx d)\<lparr>ic_slot_context :=
             InitializeSlotContext port_id x3 (ic_slot_context (d_input_ctx d))\<rparr>\<rparr>) x3;
           (x5, tr) = on_usb (AllocTransferRing abi dev ep0_dci 32) x4;
           slot_speed = uint (get_field SlotContext_bits ''speed'' (ic_slot_context (d_input_ctx (dev_at dev x5))));
           x6 = on_dev dev (\<lambda>d. d\<lparr>d_input_ctx := set_ep_context ep0_dci
             (InitializeEP0Context (ring_buf (u_rings (xhc_usb x5) tr)) (DetermineMaxPacketSizeForControlPipe slot_speed)
               (ep_context ep0_dci (d_input_ctx d))) (d_input_ctx d)\<rparr>) x5;
           (x7, _) = LoadDCBAA abi slot_id x6;
           x8 = set_phase port_id kAddressingDevice x7;
           x9 = push_command (new_AddressDeviceCommandTRB (dev + offset_input_ctx abi) slot_id) x8
       in (ring_command_doorbell x9, kSuccess))"

definition InitializeDevice :: "Abi \<Rightarrow> u8 \<Rightarrow> u8 \<Rightarrow> Xhc \<Rightarrow> Xhc \<times> ErrorCode" where
  "InitializeDevice abi port_id slot_id x =
    (let dev = FindBySlot slot_id x in
     if dev = 0 then (x, kInvalidSlotID)
     else
       let x1 = set_phase port_id kInitializingDevice x;
           (x2, _) = on_usb (StartInitialize abi dev) x1
       in (x2, kSuccess))"

definition CompleteConfiguration :: "u8 \<Rightarrow> u8 \<Rightarrow> Xhc \<Rightarrow> Xhc \<times> ErrorCode" where
  "CompleteConfiguration port_id slot_id x =
    (let dev = FindBySlot slot_id x in
     if dev = 0 then (x, kInvalidSlotID)
     else
       let (x1, _) = on_usb (OnEndpointsConfigured dev) x
       in (set_phase port_id kConfigured x1, kSuccess))"

definition convert_interval :: "int \<Rightarrow> EndpointType \<Rightarrow> int \<Rightarrow> int" where
  "convert_interval port_speed type interval =
    (if port_speed = kFullSpeed \<or> port_speed = kLowSpeed
     then if type = kIsochronous then interval + 2 else MostSignificantBit (of_int interval) + 3
     else interval - 1)"

definition context_ep_type :: "EndpointConfig \<Rightarrow> ctx" where
  "context_ep_type config =
    (case cfg_ep_type config of
       kControl \<Rightarrow> 4
     | kIsochronous \<Rightarrow> if EndpointID_IsIn (cfg_ep_id config) then 5 else 1
     | kBulk \<Rightarrow> if EndpointID_IsIn (cfg_ep_id config) then 6 else 2
     | kInterrupt \<Rightarrow> if EndpointID_IsIn (cfg_ep_id config) then 7 else 3)"

definition configure_endpoint :: "Abi \<Rightarrow> u64 \<Rightarrow> int \<Rightarrow> EndpointConfig \<Rightarrow> Xhc \<Rightarrow> Xhc" where
  "configure_endpoint abi dev port_speed config x =
    (let ep_dci = DeviceContextIndex_of (cfg_ep_id config);
         upd = (\<lambda>g. on_dev dev (\<lambda>d. d\<lparr>d_input_ctx := set_ep_context ep_dci (g (ep_context ep_dci (d_input_ctx d))) (d_input_ctx d)\<rparr>));
         x1 = on_dev dev (\<lambda>d. d\<lparr>d_input_ctx := EnableEndpoint ep_dci (d_input_ctx d)\<rparr>) x;
         x2 = upd (\<lambda>c. let c1 = set_field EndpointContext_bits ''ep_type'' (context_ep_type config) c;
                           c2 = set_field EndpointContext_bits ''max_packet_size'' (of_int (cfg_max_packet_size config)) c1;
                           c3 = set_field EndpointContext_bits ''interval''
                             (of_int (convert_interval port_speed (cfg_ep_type config) (cfg_interval config))) c2
                       in set_field EndpointContext_bits ''average_trb_length'' 1 c3) x1;
         (x3, tr) = on_usb (AllocTransferRing abi dev ep_dci 32) x2;
         buffer = ring_buf (u_rings (xhc_usb x3) tr)
     in upd (\<lambda>c. let c1 = SetTransferRingBuffer buffer c;
                     c2 = set_field EndpointContext_bits ''dequeue_cycle_state'' 1 c1;
                     c3 = set_field EndpointContext_bits ''max_primary_streams'' 0 c2;
                     c4 = set_field EndpointContext_bits ''mult'' 0 c3
                 in set_field EndpointContext_bits ''error_count'' 3 c4) x3)"

definition device_port :: "u64 \<Rightarrow> Xhc \<Rightarrow> u8" where
  "device_port dev x = ucast (get_field SlotContext_bits ''root_hub_port_num'' (dc_slot_context (d_ctx (dev_at dev x))))"

definition ConfigureEndpoints :: "Abi \<Rightarrow> u64 \<Rightarrow> Xhc \<Rightarrow> Xhc \<times> ErrorCode" where
  "ConfigureEndpoints abi dev x =
    (let configs = take (nat (d_num_ep_configs (dev_at dev x))) (d_ep_configs (dev_at dev x));
         x1 = on_dev dev (\<lambda>d. d\<lparr>d_input_ctx := (d_input_ctx d)\<lparr>ic_control := zero_InputControlContext,
           ic_slot_context := dc_slot_context (d_ctx d)\<rparr>\<rparr>) x;
         x2 = on_dev dev (\<lambda>d. let ic = EnableSlotContext (d_input_ctx d) in
           d\<lparr>d_input_ctx := ic\<lparr>ic_slot_context := set_field SlotContext_bits ''context_entries'' 31 (ic_slot_context ic)\<rparr>\<rparr>) x1;
         port_id = device_port dev x2;
         port_speed = Speed port_id x2
     in if port_speed = 0 \<or> port_speed > kSuperSpeedPlus then (x2, kUnknownXHCISpeedID)
     else
       let x3 = fold (configure_endpoint abi dev port_speed) configs x2;
           x4 = set_phase port_id kConfiguringEndpoints x3;
           x5 = push_command (new_ConfigureEndpointCommandTRB (dev + offset_input_ctx abi) (d_slot_id (dev_at dev x4))) x4
       in (ring_command_doorbell x5, kSuccess))"

section \<open>Events\<close>

definition OnPortStatusChange :: "Hw \<Rightarrow> trb \<Rightarrow> Xhc \<Rightarrow> (Xhc \<times> ErrorCode) option" where
  "OnPortStatusChange hw t x =
    (let port_id = ucast (get_field PortStatusChangeEventTRB_bits ''port_id'' t) in
     case port_config_phase x port_id of
       kNotConnected \<Rightarrow> ResetPort hw port_id x
     | kResettingPort \<Rightarrow> Some (EnableSlot hw port_id x)
     | _ \<Rightarrow> Some (x, kInvalidPhase))"

definition OnTransferEvent :: "Abi \<Rightarrow> trb \<Rightarrow> Xhc \<Rightarrow> (Xhc \<times> ErrorCode) option" where
  "OnTransferEvent abi t x =
    (let slot_id = ucast (get_field TransferEventTRB_bits ''slot_id'' t);
         dev = FindBySlot slot_id x
     in if dev = 0 then Some (x, kInvalidSlotID)
     else do {
       (u, err) \<leftarrow> OnTransferEventReceived abi dev t (xhc_usb x);
       let x1 = x\<lparr>xhc_usb := u\<rparr>;
       if err \<noteq> kSuccess then Some (x1, err)
       else
         let port_id = device_port dev x1 in
         if d_is_initialized (dev_at dev x1) \<and> port_config_phase x1 port_id = kInitializingDevice
         then Some (ConfigureEndpoints abi dev x1)
         else Some (x1, kSuccess) })"

text \<open>The search for the first port that waits, in the order of the numbers.\<close>

definition first_waiting :: "Xhc \<Rightarrow> nat option" where
  "first_waiting x = List.find (\<lambda>i. port_config_phase x (of_nat i) = kWaitingAddressed) [0..<256]"

definition OnCommandCompletion :: "Abi \<Rightarrow> Hw \<Rightarrow> trb \<Rightarrow> Xhc \<Rightarrow> (Xhc \<times> ErrorCode) option" where
  "OnCommandCompletion abi hw t x =
    (let issuer_type = unat (get_field TRB_bits ''trb_type'' (u_blocks (xhc_usb x) (CommandCompletionEventTRB_Pointer t)));
         slot_id = ucast (get_field CommandCompletionEventTRB_bits ''slot_id'' t)
     in if issuer_type = 9
     then if port_config_phase x (addressing_port x) \<noteq> kEnablingSlot then Some (x, kInvalidPhase)
       else Some (AddressDevice abi (addressing_port x) slot_id x)
     else if issuer_type = 11
     then
       let dev = FindBySlot slot_id x in
       if dev = 0 then Some (x, kInvalidSlotID)
       else
         let port_id = device_port dev x in
         if port_id \<noteq> addressing_port x then Some (x, kInvalidPhase)
         else if port_config_phase x port_id \<noteq> kAddressingDevice then Some (x, kInvalidPhase)
         else
           let x1 = x\<lparr>addressing_port := 0\<rparr> in
           do { (x2, err) \<leftarrow> (case first_waiting x1 of None \<Rightarrow> Some (x1, kSuccess) | Some i \<Rightarrow> ResetPort hw (of_nat i) x1);
                if err \<noteq> kSuccess then Some (x2, err)
                else Some (InitializeDevice abi port_id slot_id x2) }
     else if issuer_type = 12
     then
       let dev = FindBySlot slot_id x in
       if dev = 0 then Some (x, kInvalidSlotID)
       else
         let port_id = device_port dev x in
         if port_config_phase x port_id \<noteq> kConfiguringEndpoints then Some (x, kInvalidPhase)
         else Some (CompleteConfiguration port_id slot_id x)
     else Some (x, kInvalidPhase))"

definition ConfigurePort :: "Hw \<Rightarrow> u8 \<Rightarrow> Xhc \<Rightarrow> (Xhc \<times> ErrorCode) option" where
  "ConfigurePort hw port x =
    (if port_config_phase x port = kNotConnected then ResetPort hw port x else Some (x, kSuccess))"

definition event_at_front :: "Xhc \<Rightarrow> trb" where
  "event_at_front x = u_blocks (xhc_usb x) (Front (xhc_interrupter x))"

definition event_pending :: "Xhc \<Rightarrow> bool" where
  "event_pending x \<longleftrightarrow> HasFront (xhc_er x) (xhc_interrupter x) (u_blocks (xhc_usb x))"

definition pop_event :: "Xhc \<Rightarrow> Xhc" where
  "pop_event x =
    (case EventRing_Pop (xhc_er x) (xhc_interrupter x) of (er, regs) \<Rightarrow> x\<lparr>xhc_er := er, xhc_interrupter := regs\<rparr>)"

definition ProcessEvent :: "Abi \<Rightarrow> Hw \<Rightarrow> Xhc \<Rightarrow> (Xhc \<times> ErrorCode) option" where
  "ProcessEvent abi hw x =
    (if \<not> event_pending x then Some (x, kSuccess)
     else
       let event_trb = event_at_front x in
       do { (x1, err) \<leftarrow>
              (case TRBDynamicCast 32 event_trb of
                 Some t \<Rightarrow> OnTransferEvent abi t x
               | None \<Rightarrow>
                   (case TRBDynamicCast 34 event_trb of
                      Some t \<Rightarrow> OnPortStatusChange hw t x
                    | None \<Rightarrow>
                        (case TRBDynamicCast 33 event_trb of
                           Some t \<Rightarrow> OnCommandCompletion abi hw t x
                         | None \<Rightarrow> Some (x, kNotImplemented))));
            Some (pop_event x1, err) })"

partial_function (option) ProcessEvents :: "Abi \<Rightarrow> Hw \<Rightarrow> Xhc \<Rightarrow> Xhc option" where
  "ProcessEvents abi hw x =
    (if event_pending x then do { (x1, err) \<leftarrow> ProcessEvent abi hw x; ProcessEvents abi hw x1 } else Some x)"

section \<open>Starting the controller\<close>

definition kDeviceSize :: nat where "kDeviceSize = 8"

text \<open>The addresses of the register sets, which \<open>xhc_op\<close>, \<open>xhc_interrupter\<close> and so on stand for.\<close>

definition op_base :: "u64 \<Rightarrow> CapabilityRegisters \<Rightarrow> u64" where
  "op_base mmio_base cap = mmio_base + ucast (CAPLENGTH cap)"

definition InterrupterRegisterSets :: "u64 \<Rightarrow> CapabilityRegisters \<Rightarrow> nat \<Rightarrow> u64" where
  "InterrupterRegisterSets mmio_base cap = ArrayWrapper_at (mmio_base + ucast (RTSOFF_Offset (RTSOFF cap)) + 0x20) 32"

definition PortRegisterSets :: "u64 \<Rightarrow> CapabilityRegisters \<Rightarrow> nat \<Rightarrow> u64" where
  "PortRegisterSets mmio_base cap = ArrayWrapper_at (op_base mmio_base cap + 0x400) 16"

definition DoorbellRegisters :: "u64 \<Rightarrow> CapabilityRegisters \<Rightarrow> nat \<Rightarrow> u64" where
  "DoorbellRegisters mmio_base cap = ArrayWrapper_at (mmio_base + ucast (DBOFF_Offset (DBOFF cap))) 4"

definition new_Controller :: "u64 \<Rightarrow> CapabilityRegisters \<Rightarrow> Xhc \<Rightarrow> Xhc" where
  "new_Controller mmio_base cap x =
    x\<lparr>xhc_mmio_base := mmio_base, xhc_cap := cap,
      xhc_max_ports := ucast (get_field HCSPARAMS1_Bitmap_bits ''max_ports'' (HCSPARAMS1 cap))\<rparr>"

text \<open>\<open>std::find_if\<close> over the extended capabilities; 0 is the end of the list.\<close>

partial_function (option) find_legsup :: "(u64 \<Rightarrow> u32) \<Rightarrow> u64 \<Rightarrow> u64 option" where
  "find_legsup mem reg =
    (if reg = 0 then Some 0
     else if get_field ExtendedRegister_Bitmap_bits ''capability_id'' (mem reg) = 1 then Some reg
     else find_legsup mem (ExtendedRegister_next mem reg))"

text \<open>The result is what is written to the register with the semaphores, if anything.\<close>

definition RequestHCOwnership :: "Hw \<Rightarrow> u64 \<Rightarrow> u32 \<Rightarrow> (u64 \<times> u32) option option" where
  "RequestHCOwnership hw mmio_base hccp =
    do { reg \<leftarrow> find_legsup (hw_extregs hw) (ExtendedRegister_first mmio_base hccp);
         if reg = 0 then Some None
         else
           let r = hw_extregs hw reg in
           if get_field USBLEGSUP_Bitmap_bits ''hc_os_owned_semaphore'' r \<noteq> 0 then Some None
           else
             let r1 = set_field USBLEGSUP_Bitmap_bits ''hc_os_owned_semaphore'' 1 r in
             do { n \<leftarrow> busy_wait (hw_legsup hw r1)
                    (\<lambda>r. get_field USBLEGSUP_Bitmap_bits ''hc_bios_owned_semaphore'' r \<noteq> 0 \<or>
                         get_field USBLEGSUP_Bitmap_bits ''hc_os_owned_semaphore'' r = 0) 0;
                  Some (Some (reg, r1)) } }"

text \<open>A write to USBCMD, and the registers the driver sees when the loops behind it have ended.\<close>

definition write_usbcmd :: "Hw \<Rightarrow> u32 \<Rightarrow> (OperationalRegisters \<Rightarrow> bool) list \<Rightarrow> Xhc \<Rightarrow> Xhc option" where
  "write_usbcmd hw v loops x =
    (let reads = hw_usbcmd hw (xhc_op x) v
     in do { n \<leftarrow> fold (\<lambda>waiting m. m \<bind> busy_wait reads waiting) loops (Some 0); Some (x\<lparr>xhc_op := reads n\<rparr>) })"

definition usbsts_bit :: "string \<Rightarrow> OperationalRegisters \<Rightarrow> bool" where
  "usbsts_bit name regs \<longleftrightarrow> get_field USBSTS_Bitmap_bits name (USBSTS regs) \<noteq> 0"

fun alloc_scratchpad :: "Abi \<Rightarrow> nat \<Rightarrow> u64 \<Rightarrow> u64 \<times> u64 list" where
  "alloc_scratchpad abi 0 ptr = (ptr, [])"
| "alloc_scratchpad abi (Suc n) ptr =
    (case AllocMem (memory_pool abi) 4096 4096 4096 ptr of (ptr1, p) \<Rightarrow>
       case alloc_scratchpad abi n ptr1 of (ptr2, ps) \<Rightarrow> (ptr2, (case p of None \<Rightarrow> 0 | Some a \<Rightarrow> a) # ps))"

definition max_scratchpad_buffers :: "CapabilityRegisters \<Rightarrow> u16" where
  "max_scratchpad_buffers cap =
    ucast (get_field HCSPARAMS2_Bitmap_bits ''max_scratchpad_buffers_low'' (HCSPARAMS2 cap) OR
      push_bit 5 (get_field HCSPARAMS2_Bitmap_bits ''max_scratchpad_buffers_high'' (HCSPARAMS2 cap)))"

definition setup_scratchpad :: "Abi \<Rightarrow> Xhc \<Rightarrow> Xhc" where
  "setup_scratchpad abi x =
    (let n = max_scratchpad_buffers (xhc_cap x) in
     if n > 0
     then
       let (ptr1, p) = AllocArray (memory_pool abi) 8 (ucast n) 64 4096 (u_ptr (xhc_usb x));
           arr = (case p of None \<Rightarrow> 0 | Some a \<Rightarrow> a);
           (ptr2, bufs) = alloc_scratchpad abi (unat n) ptr1;
           dm = xhc_devmgr x
       in x\<lparr>xhc_scratchpad := bufs, xhc_usb := (xhc_usb x)\<lparr>u_ptr := ptr2\<rparr>,
            xhc_devmgr := dm\<lparr>dm_device_context_pointers := (dm_device_context_pointers dm)[0 := arr]\<rparr>\<rparr>
     else x)"

definition DeviceContexts :: "Xhc \<Rightarrow> u64" where
  "DeviceContexts x = dm_device_contexts (xhc_devmgr x)"

definition setup_rings :: "Abi \<Rightarrow> Xhc \<Rightarrow> Xhc \<times> ErrorCode" where
  "setup_rings abi x =
    (let x1 = x\<lparr>xhc_op := (xhc_op x)\<lparr>DCBAAP := DCBAAP_SetPointer (DeviceContexts x) 0\<rparr>\<rparr>;
         u = xhc_usb x1;
         (cr, ptr1, h1, err1) = Ring_Initialize (memory_pool abi) 32 (xhc_cr x1) (u_ptr u) (u_blocks u);
         x2 = x1\<lparr>xhc_cr := cr, xhc_usb := u\<lparr>u_ptr := ptr1, u_blocks := h1\<rparr>\<rparr>
     in if err1 \<noteq> kSuccess then (x2, err1)
     else
       let x3 = x2\<lparr>xhc_op := (xhc_op x2)\<lparr>CRCR := RegisterCommandRing cr (CRCR (xhc_op x2))\<rparr>\<rparr>;
           (er, regs, ptr2, h2, err2) = EventRing_Initialize (memory_pool abi) 32 (xhc_er x3) (xhc_interrupter x3) ptr1 h1;
           x4 = x3\<lparr>xhc_er := er, xhc_interrupter := regs, xhc_usb := (xhc_usb x3)\<lparr>u_ptr := ptr2, u_blocks := h2\<rparr>\<rparr>
       in if err2 \<noteq> kSuccess then (x4, err2)
       else
         let iman = set_field IMAN_Bitmap_bits ''interrupt_enable'' 1
               (set_field IMAN_Bitmap_bits ''interrupt_pending'' 1 (IMAN (xhc_interrupter x4)))
         in (x4\<lparr>xhc_interrupter := (xhc_interrupter x4)\<lparr>IMAN := iman\<rparr>\<rparr>, kSuccess))"

definition Controller_Initialize :: "Abi \<Rightarrow> Hw \<Rightarrow> Xhc \<Rightarrow> (Xhc \<times> ErrorCode) option" where
  "Controller_Initialize abi hw x0 =
    (let (x, err0) = DeviceManager_Initialize abi kDeviceSize x0 in
     if err0 \<noteq> kSuccess then Some (x, err0)
     else do {
       _ \<leftarrow> RequestHCOwnership hw (xhc_mmio_base x) (HCCPARAMS1 (xhc_cap x));
       let c1 = set_field USBCMD_Bitmap_bits ''interrupter_enable'' 0 (USBCMD (xhc_op x));
       let c2 = set_field USBCMD_Bitmap_bits ''host_system_error_enable'' 0 c1;
       let c3 = (if \<not> usbsts_bit ''host_controller_halted'' (xhc_op x)
                 then set_field USBCMD_Bitmap_bits ''run_stop'' 0 c2 else c2);
       x1 \<leftarrow> write_usbcmd hw c3 [\<lambda>r. \<not> usbsts_bit ''host_controller_halted'' r] x;
       let c4 = set_field USBCMD_Bitmap_bits ''host_controller_reset'' 1 (USBCMD (xhc_op x1));
       x2 \<leftarrow> write_usbcmd hw c4 [\<lambda>r. get_field USBCMD_Bitmap_bits ''host_controller_reset'' (USBCMD r) \<noteq> 0,
               usbsts_bit ''controller_not_ready''] x1;
       let config = set_field CONFIG_Bitmap_bits ''max_device_slots_enabled'' (of_nat kDeviceSize) (CONFIG (xhc_op x2));
       let x3 = setup_scratchpad abi (x2\<lparr>xhc_op := (xhc_op x2)\<lparr>CONFIG := config\<rparr>\<rparr>);
       let (x4, err) = setup_rings abi x3;
       if err \<noteq> kSuccess then Some (x4, err)
       else do {
         x5 \<leftarrow> write_usbcmd hw (set_field USBCMD_Bitmap_bits ''interrupter_enable'' 1 (USBCMD (xhc_op x4))) [] x4;
         Some (x5, kSuccess) } })"

definition Controller_Run :: "Hw \<Rightarrow> Xhc \<Rightarrow> (Xhc \<times> ErrorCode) option" where
  "Controller_Run hw x =
    do { x1 \<leftarrow> write_usbcmd hw (set_field USBCMD_Bitmap_bits ''run_stop'' 1 (USBCMD (xhc_op x)))
           [usbsts_bit ''host_controller_halted''] x;
         Some (x1, kSuccess) }"

text \<open>The loop of \<open>usb::xhci::Initialize\<close> over the ports; an error only skips the port.\<close>

fun configure_ports :: "Hw \<Rightarrow> nat list \<Rightarrow> Xhc \<Rightarrow> Xhc option" where
  "configure_ports hw [] x = Some x"
| "configure_ports hw (i # is) x =
    (if IsConnected (of_nat i) x
     then do { (x1, err) \<leftarrow> ConfigurePort hw (of_nat i) x; configure_ports hw is x1 }
     else configure_ports hw is x)"

definition start_ports :: "Hw \<Rightarrow> Xhc \<Rightarrow> Xhc option" where
  "start_ports hw x = configure_ports hw [1..<unat (xhc_max_ports x) + 1] x"

end
