(* ===== verification/Xhci_Ports.thy ===== *)
theory Xhci_Ports
  imports Xhci_Controller
begin

text \<open>
  The configuration of the ports: which phase follows which, and that at most one port at a
  time is between its reset and the assignment of its address.
\<close>

section \<open>What the operations leave alone\<close>

lemma phases_kept [simp]:
  "port_config_phase (on_dev p g x) = port_config_phase x"
  "port_config_phase (fst (on_usb g' x)) = port_config_phase x"
  "port_config_phase (push_command t x) = port_config_phase x"
  "port_config_phase (ring_command_doorbell x) = port_config_phase x"
  "port_config_phase (set_portsc port v x) = port_config_phase x"
  "port_config_phase (ClearPortResetChange hw port x) = port_config_phase x"
  "port_config_phase (fst (AllocDevice abi s db x)) = port_config_phase x"
  "port_config_phase (fst (LoadDCBAA abi s x)) = port_config_phase x"
  "port_config_phase (pop_event x) = port_config_phase x"
  "port_config_phase (set_phase q ph x) = (port_config_phase x)(q := ph)"
  by (simp_all add: on_dev_def on_usb_def push_command_def ring_command_doorbell_def set_portsc_def set_phase_def
      ClearPortResetChange_def clear_status_bit_def AllocDevice_def LoadDCBAA_def pop_event_def Let_def split_beta)

lemma addressing_kept [simp]:
  "addressing_port (on_dev p g x) = addressing_port x"
  "addressing_port (fst (on_usb g' x)) = addressing_port x"
  "addressing_port (push_command t x) = addressing_port x"
  "addressing_port (ring_command_doorbell x) = addressing_port x"
  "addressing_port (set_portsc port v x) = addressing_port x"
  "addressing_port (ClearPortResetChange hw port x) = addressing_port x"
  "addressing_port (fst (AllocDevice abi s db x)) = addressing_port x"
  "addressing_port (fst (LoadDCBAA abi s x)) = addressing_port x"
  "addressing_port (pop_event x) = addressing_port x"
  "addressing_port (set_phase q ph x) = addressing_port x"
  by (simp_all add: on_dev_def on_usb_def push_command_def ring_command_doorbell_def set_portsc_def set_phase_def
      ClearPortResetChange_def clear_status_bit_def AllocDevice_def LoadDCBAA_def pop_event_def Let_def split_beta)

lemma configure_endpoint_kept [simp]:
  "port_config_phase (configure_endpoint abi dev speed c x) = port_config_phase x"
  "addressing_port (configure_endpoint abi dev speed c x) = addressing_port x"
  by (simp_all add: configure_endpoint_def Let_def split_beta)

lemma configure_endpoints_kept [simp]:
  "port_config_phase (fold (configure_endpoint abi dev speed) configs x) = port_config_phase x"
  "addressing_port (fold (configure_endpoint abi dev speed) configs x) = addressing_port x"
  by (induction configs arbitrary: x) simp_all

section \<open>The effect of the handlers on the phases\<close>

lemma ResetPort_phases:
  assumes "ResetPort hw port x = Some (x', err)"
  shows "port_config_phase x' = port_config_phase x \<and> addressing_port x' = addressing_port x \<or>
    addressing_port x \<noteq> 0 \<and> port_config_phase x' = (port_config_phase x)(port := kWaitingAddressed) \<and>
      addressing_port x' = addressing_port x \<or>
    addressing_port x = 0 \<and> port_config_phase x port \<in> {kNotConnected, kWaitingAddressed} \<and>
      port_config_phase x' = (port_config_phase x)(port := kResettingPort) \<and> addressing_port x' = port"
proof (cases "\<not> IsConnected port x \<or> addressing_port x \<noteq> 0 \<or> port_config_phase x port \<notin> {kNotConnected, kWaitingAddressed}")
  case True
  with assms show ?thesis by (auto simp: ResetPort_def Let_def split: if_splits)
next
  case False
  with assms obtain n where
    "x' = set_portsc port n (set_phase port kResettingPort (x\<lparr>addressing_port := port\<rparr>))"
    by (auto simp: ResetPort_def Port_Reset_def Let_def bind_eq_Some)
  with False show ?thesis by auto
qed

lemma EnableSlot_phases:
  "port_config_phase (fst (EnableSlot hw port x)) = (port_config_phase x)(port := kEnablingSlot) \<or>
     port_config_phase (fst (EnableSlot hw port x)) = port_config_phase x"
  "addressing_port (fst (EnableSlot hw port x)) = addressing_port x"
  by (simp_all add: EnableSlot_def Let_def)

lemma AddressDevice_phases:
  "port_config_phase (fst (AddressDevice abi port slot x)) = (port_config_phase x)(port := kAddressingDevice) \<or>
     port_config_phase (fst (AddressDevice abi port slot x)) = port_config_phase x"
  "addressing_port (fst (AddressDevice abi port slot x)) = addressing_port x"
  by (simp_all add: AddressDevice_def Let_def split_beta)

lemma InitializeDevice_phases:
  "port_config_phase (fst (InitializeDevice abi port slot x)) =
     (if FindBySlot slot x = 0 then port_config_phase x else (port_config_phase x)(port := kInitializingDevice))"
  "addressing_port (fst (InitializeDevice abi port slot x)) = addressing_port x"
  by (simp_all add: InitializeDevice_def Let_def split_beta)

lemma CompleteConfiguration_phases:
  "port_config_phase (fst (CompleteConfiguration port slot x)) = (port_config_phase x)(port := kConfigured) \<or>
     port_config_phase (fst (CompleteConfiguration port slot x)) = port_config_phase x"
  "addressing_port (fst (CompleteConfiguration port slot x)) = addressing_port x"
  by (simp_all add: CompleteConfiguration_def Let_def split_beta)

lemma device_port_on_dev:
  "(\<And>d. d_ctx (g d) = d_ctx d) \<Longrightarrow> device_port p (on_dev p g x) = device_port p x"
  by (simp add: device_port_def dev_at_def on_dev_def update_dev_def)

lemma ConfigureEndpoints_phases:
  "port_config_phase (fst (ConfigureEndpoints abi dev x)) =
     (port_config_phase x)(device_port dev x := kConfiguringEndpoints) \<or>
   port_config_phase (fst (ConfigureEndpoints abi dev x)) = port_config_phase x"
  "addressing_port (fst (ConfigureEndpoints abi dev x)) = addressing_port x"
  by (simp_all add: ConfigureEndpoints_def Let_def device_port_on_dev)

section \<open>The order of the phases\<close>

fun phase_number :: "ConfigPhase \<Rightarrow> nat" where
  "phase_number kNotConnected = 0"
| "phase_number kWaitingAddressed = 1"
| "phase_number kResettingPort = 2"
| "phase_number kEnablingSlot = 3"
| "phase_number kAddressingDevice = 4"
| "phase_number kInitializingDevice = 5"
| "phase_number kConfiguringEndpoints = 6"
| "phase_number kConfigured = 7"

lemma phase_number_inj: "phase_number p = phase_number q \<Longrightarrow> p = q"
  by (cases p; cases q) simp_all

instantiation ConfigPhase :: linorder
begin

definition less_eq_ConfigPhase :: "ConfigPhase \<Rightarrow> ConfigPhase \<Rightarrow> bool" where
  "p \<le> q \<longleftrightarrow> phase_number p \<le> phase_number q"

definition less_ConfigPhase :: "ConfigPhase \<Rightarrow> ConfigPhase \<Rightarrow> bool" where
  "p < q \<longleftrightarrow> phase_number p < phase_number q"

instance
  by standard (auto simp: less_eq_ConfigPhase_def less_ConfigPhase_def intro: phase_number_inj)

end

section \<open>One port at a time\<close>

definition addressing_phases :: "ConfigPhase set" where
  "addressing_phases = {kResettingPort, kEnablingSlot, kAddressingDevice}"

definition port_inv :: "Xhc \<Rightarrow> bool" where
  "port_inv x \<longleftrightarrow> port_config_phase x 0 = kNotConnected \<and>
    (\<forall>p. port_config_phase x p \<in> addressing_phases \<longleftrightarrow> p = addressing_port x \<and> p \<noteq> 0)"

definition advances :: "Xhc \<Rightarrow> Xhc \<Rightarrow> bool" where
  "advances x x' \<longleftrightarrow> (\<forall>p. port_config_phase x p \<le> port_config_phase x' p)"

lemma kept: 
  "port_config_phase x' = port_config_phase x \<Longrightarrow> addressing_port x' = addressing_port x \<Longrightarrow> port_inv x \<Longrightarrow>
     port_inv x' \<and> advances x x'"
  by (simp add: port_inv_def advances_def)

text \<open>A handler that only moves one port forward, inside or outside of the phases of addressing.\<close>

lemma moved:
  assumes "port_inv x" "port_config_phase x' = (port_config_phase x)(p := ph)" "addressing_port x' = addressing_port x"
    and "p \<noteq> 0" "port_config_phase x p \<le> ph" "port_config_phase x p \<in> addressing_phases \<longleftrightarrow> ph \<in> addressing_phases"
  shows "port_inv x' \<and> advances x x'"
  using assms by (auto simp: port_inv_def advances_def)

lemma not_zero: "port_inv x \<Longrightarrow> port_config_phase x p \<noteq> kNotConnected \<Longrightarrow> p \<noteq> 0"
  by (auto simp: port_inv_def)

lemma phase_le: "phase_number p \<le> phase_number q \<Longrightarrow> p \<le> q"
  by (simp add: less_eq_ConfigPhase_def)

lemma ResetPort_inv:
  assumes "port_inv x" "port \<noteq> 0" "port_config_phase x port \<in> {kNotConnected, kWaitingAddressed}"
    "ResetPort hw port x = Some (x', err)"
  shows "port_inv x' \<and> advances x x'"
  using ResetPort_phases [OF assms(4)]
proof (elim disjE conjE)
  assume "port_config_phase x' = (port_config_phase x)(port := kWaitingAddressed)" "addressing_port x' = addressing_port x"
  from moved [OF assms(1) this assms(2)] assms(3) show ?thesis by (auto simp: addressing_phases_def phase_le)
next
  assume a: "addressing_port x = 0" "port_config_phase x' = (port_config_phase x)(port := kResettingPort)" "addressing_port x' = port"
  have "port_config_phase x p \<le> port_config_phase x' p" for p using a(2) assms(3) by (auto intro: phase_le)
  moreover have "port_inv x'" using assms(1,2) a by (auto simp: port_inv_def addressing_phases_def)
  ultimately show ?thesis by (simp add: advances_def)
qed (use kept [OF _ _ assms(1)] in blast)

lemma EnableSlot_inv:
  assumes "port_inv x" "port_config_phase x port = kResettingPort"
  shows "port_inv (fst (EnableSlot hw port x)) \<and> advances x (fst (EnableSlot hw port x))"
  using EnableSlot_phases(1) [of hw port x]
proof
  assume "port_config_phase (fst (EnableSlot hw port x)) = (port_config_phase x)(port := kEnablingSlot)"
  from moved [OF assms(1) this EnableSlot_phases(2) not_zero [OF assms(1)]] assms(2)
  show ?thesis by (simp add: addressing_phases_def phase_le)
qed (use kept [OF _ EnableSlot_phases(2) assms(1)] in blast)

lemma AddressDevice_inv:
  assumes "port_inv x" "port_config_phase x port = kEnablingSlot"
  shows "port_inv (fst (AddressDevice abi port slot x)) \<and> advances x (fst (AddressDevice abi port slot x))"
  using AddressDevice_phases(1) [of abi port slot x]
proof
  assume "port_config_phase (fst (AddressDevice abi port slot x)) = (port_config_phase x)(port := kAddressingDevice)"
  from moved [OF assms(1) this AddressDevice_phases(2) not_zero [OF assms(1)]] assms(2)
  show ?thesis by (simp add: addressing_phases_def phase_le)
qed (use kept [OF _ AddressDevice_phases(2) assms(1)] in blast)

lemma CompleteConfiguration_inv:
  assumes "port_inv x" "port_config_phase x port = kConfiguringEndpoints"
  shows "port_inv (fst (CompleteConfiguration port slot x)) \<and> advances x (fst (CompleteConfiguration port slot x))"
  using CompleteConfiguration_phases(1) [of port slot x]
proof
  assume "port_config_phase (fst (CompleteConfiguration port slot x)) = (port_config_phase x)(port := kConfigured)"
  from moved [OF assms(1) this CompleteConfiguration_phases(2) not_zero [OF assms(1)]] assms(2)
  show ?thesis by (simp add: addressing_phases_def phase_le)
qed (use kept [OF _ CompleteConfiguration_phases(2) assms(1)] in blast)

lemma ConfigureEndpoints_inv:
  assumes "port_inv x" "port_config_phase x (device_port dev x) = kInitializingDevice"
  shows "port_inv (fst (ConfigureEndpoints abi dev x)) \<and> advances x (fst (ConfigureEndpoints abi dev x))"
  using ConfigureEndpoints_phases(1) [of abi dev x]
proof
  assume "port_config_phase (fst (ConfigureEndpoints abi dev x)) = (port_config_phase x)(device_port dev x := kConfiguringEndpoints)"
  from moved [OF assms(1) this ConfigureEndpoints_phases(2) not_zero [OF assms(1)]] assms(2)
  show ?thesis by (simp add: addressing_phases_def phase_le)
qed (use kept [OF _ ConfigureEndpoints_phases(2) assms(1)] in blast)

section \<open>The events\<close>

lemma OnPortStatusChange_inv:
  assumes "port_inv x" "ucast (get_field PortStatusChangeEventTRB_bits ''port_id'' t) \<noteq> (0 :: u8)"
    and "OnPortStatusChange hw t x = Some (x', err)"
  shows "port_inv x' \<and> advances x x'"
proof -
  define port :: u8 where "port = ucast (get_field PortStatusChangeEventTRB_bits ''port_id'' t)"
  have p: "port \<noteq> 0" using assms(2) by (simp add: port_def)
  note run = assms(3) [unfolded OnPortStatusChange_def Let_def, folded port_def]
  consider "port_config_phase x port = kNotConnected" | "port_config_phase x port = kResettingPort"
    | "port_config_phase x port \<notin> {kNotConnected, kResettingPort}" by blast
  then show ?thesis
  proof cases
    case 1
    then show ?thesis using ResetPort_inv [OF assms(1) p, of hw x' err] run by simp
  next
    case 2
    then show ?thesis using EnableSlot_inv [OF assms(1) 2, of hw] run by simp
  next
    case 3
    then have "x' = x" using run by (auto split: ConfigPhase.splits)
    then show ?thesis using kept assms(1) by blast
  qed
qed

lemma OnTransferEvent_inv:
  assumes "port_inv x" "OnTransferEvent abi t x = Some (x', err)"
  shows "port_inv x' \<and> advances x x'"
proof (cases "FindBySlot (ucast (get_field TransferEventTRB_bits ''slot_id'' t)) x = 0")
  case True
  then have "x' = x" using assms(2) by (simp add: OnTransferEvent_def)
  then show ?thesis using kept assms(1) by blast
next
  case False
  let ?dev = "FindBySlot (ucast (get_field TransferEventTRB_bits ''slot_id'' t)) x"
  obtain u e where ue: "OnTransferEventReceived abi ?dev t (xhc_usb x) = Some (u, e)"
    using assms(2) False by (auto simp: OnTransferEvent_def Let_def bind_eq_Some)
  let ?x = "x\<lparr>xhc_usb := u\<rparr>"
  have inv: "port_inv ?x" "advances x ?x" using assms(1) by (simp_all add: port_inv_def advances_def)
  have run: "(if e \<noteq> kSuccess then Some (?x, e)
     else if d_is_initialized (dev_at ?dev ?x) \<and> port_config_phase x (device_port ?dev ?x) = kInitializingDevice
     then Some (ConfigureEndpoints abi ?dev ?x) else Some (?x, kSuccess)) = Some (x', err)"
    using assms(2) False ue by (simp add: OnTransferEvent_def Let_def split del: if_split cong: if_cong)
  show ?thesis
  proof (cases "x' = ?x")
    case False
    with run have "x' = fst (ConfigureEndpoints abi ?dev ?x)" "port_config_phase ?x (device_port ?dev ?x) = kInitializingDevice"
      by (auto split: if_splits)
    with ConfigureEndpoints_inv [OF inv(1)] show ?thesis by (simp add: advances_def)
  qed (use inv in simp)
qed

lemma ResetPort_devmgr: "ResetPort hw port x = Some (x', err) \<Longrightarrow> xhc_devmgr x' = xhc_devmgr x"
  by (auto simp: ResetPort_def Port_Reset_def Let_def bind_eq_Some set_phase_def set_portsc_def split: if_splits)

lemma first_waiting_phase: "first_waiting x = Some i \<Longrightarrow> port_config_phase x (of_nat i) = kWaitingAddressed"
  by (auto simp: first_waiting_def find_Some_iff)

lemma address_completed_inv:
  assumes "port_inv x" "port_config_phase x port = kAddressingDevice" "port = addressing_port x" "FindBySlot slot x \<noteq> 0"
    and "(case first_waiting (x\<lparr>addressing_port := 0\<rparr>) of None \<Rightarrow> Some (x\<lparr>addressing_port := 0\<rparr>, kSuccess)
       | Some i \<Rightarrow> ResetPort hw (of_nat i) (x\<lparr>addressing_port := 0\<rparr>)) = Some (x2, e)"
  shows "port_inv (fst (InitializeDevice abi port slot x2)) \<and> advances x (fst (InitializeDevice abi port slot x2))"
proof -
  let ?x = "x\<lparr>addressing_port := 0\<rparr>"
  have p: "port \<noteq> 0" using not_zero [OF assms(1)] assms(2) by simp
  have other: "port_config_phase x q \<notin> addressing_phases" if "q \<noteq> port" for q
    using assms(1,3) that by (auto simp: port_inv_def)
  have "xhc_devmgr x2 = xhc_devmgr x"
  proof (cases "first_waiting ?x")
    case (Some i)
    with assms(5) ResetPort_devmgr [of hw "of_nat i" ?x x2 e] show ?thesis by simp
  qed (use assms(5) in auto)
  with assms(4) have dm: "FindBySlot slot x2 \<noteq> 0" by (simp add: FindBySlot_def split: if_splits)
  let ?y = "fst (InitializeDevice abi port slot x2)"
  have y: "port_config_phase ?y = (port_config_phase x2)(port := kInitializingDevice)" "addressing_port ?y = addressing_port x2"
    using dm by (simp_all add: InitializeDevice_phases)
  have "port_config_phase x2 = port_config_phase x \<and> addressing_port x2 = 0 \<or>
     (\<exists>i. i \<noteq> 0 \<and> i \<noteq> port \<and> port_config_phase x i = kWaitingAddressed \<and>
       port_config_phase x2 = (port_config_phase x)(i := kResettingPort) \<and> addressing_port x2 = i)"
  proof (cases "first_waiting ?x")
    case None
    then show ?thesis using assms(5) by auto
  next
    case (Some i)
    then have w: "port_config_phase x (of_nat i) = kWaitingAddressed" using first_waiting_phase [of ?x i] by simp
    with not_zero [OF assms(1)] assms(2) have "of_nat i \<noteq> (0 :: u8)" "of_nat i \<noteq> port" by auto
    moreover from Some assms(5) have "ResetPort hw (of_nat i) ?x = Some (x2, e)" by simp
    from ResetPort_phases [OF this] have "port_config_phase x2 = port_config_phase x \<and> addressing_port x2 = 0 \<or>
      port_config_phase x2 = (port_config_phase x)(of_nat i := kResettingPort) \<and> addressing_port x2 = of_nat i" by auto
    ultimately show ?thesis using w by blast
  qed
  then show ?thesis
  proof
    assume "port_config_phase x2 = port_config_phase x \<and> addressing_port x2 = 0"
    then show ?thesis using y other assms(1,2) p
      by (auto simp: port_inv_def advances_def addressing_phases_def intro: phase_le)
  next
    assume "\<exists>i. i \<noteq> 0 \<and> i \<noteq> port \<and> port_config_phase x i = kWaitingAddressed \<and>
       port_config_phase x2 = (port_config_phase x)(i := kResettingPort) \<and> addressing_port x2 = i"
    then obtain i where i: "i \<noteq> 0" "i \<noteq> port" "port_config_phase x i = kWaitingAddressed"
      "port_config_phase x2 = (port_config_phase x)(i := kResettingPort)" "addressing_port x2 = i" by blast
    have "port_config_phase x q \<le> port_config_phase ?y q" for q
      using i assms(2) y by (auto intro: phase_le)
    moreover have "port_inv ?y" unfolding port_inv_def
      using i other p assms(1) y by (auto simp: port_inv_def addressing_phases_def)
    ultimately show ?thesis by (simp add: advances_def)
  qed
qed

lemma OnCommandCompletion_inv:
  assumes inv: "port_inv x" and run: "OnCommandCompletion abi hw t x = Some (x', err)"
  shows "port_inv x' \<and> advances x x'"
proof -
  define ty where "ty = unat (get_field TRB_bits ''trb_type'' (u_blocks (xhc_usb x) (CommandCompletionEventTRB_Pointer t)))"
  define slot :: u8 where "slot = ucast (get_field CommandCompletionEventTRB_bits ''slot_id'' t)"
  define port where "port = device_port (FindBySlot slot x) x"
  note run = run [unfolded OnCommandCompletion_def Let_def, folded ty_def slot_def, folded port_def]
  have same: ?thesis if "x' = x" using kept that inv by blast
  consider "ty = 9" | "ty = 11" | "ty = 12" | "ty \<notin> {9, 11, 12}" by blast
  then show ?thesis
  proof cases
    case 1
    then show ?thesis
      using run same AddressDevice_inv [OF inv, of "addressing_port x" abi slot] by (auto split: if_splits)
  next
    case 2
    show ?thesis
    proof (cases "x' = x")
      case False
      with run 2 have c0: "FindBySlot slot x \<noteq> 0" "port = addressing_port x" "port_config_phase x port = kAddressingDevice"
        by (auto split: if_splits)
      let ?next = "case first_waiting (x\<lparr>addressing_port := 0\<rparr>) of None \<Rightarrow> Some (x\<lparr>addressing_port := 0\<rparr>, kSuccess)
           | Some i \<Rightarrow> ResetPort hw (of_nat i) (x\<lparr>addressing_port := 0\<rparr>)"
      have "?next \<bind> (\<lambda>(x2, e). if e \<noteq> kSuccess then Some (x2, e) else Some (InitializeDevice abi port slot x2)) = Some (x', err)"
        using run 2 c0 by (simp split del: if_split cong: if_cong)
      then obtain x2 e where c: "FindBySlot slot x \<noteq> 0" "port = addressing_port x" "port_config_phase x port = kAddressingDevice"
        "(case first_waiting (x\<lparr>addressing_port := 0\<rparr>) of None \<Rightarrow> Some (x\<lparr>addressing_port := 0\<rparr>, kSuccess)
           | Some i \<Rightarrow> ResetPort hw (of_nat i) (x\<lparr>addressing_port := 0\<rparr>)) = Some (x2, e)"
        "(if e \<noteq> kSuccess then Some (x2, e) else Some (InitializeDevice abi port slot x2)) = Some (x', err)"
        unfolding bind_eq_Some split_paired_Ex prod.case using c0 by blast
      have "e = kSuccess"
      proof (cases "first_waiting (x\<lparr>addressing_port := 0\<rparr>)")
        case None
        with c(4) show ?thesis by simp
      next
        case (Some i)
        from first_waiting_phase [OF this] c(4) Some show ?thesis
          by (auto simp: ResetPort_def Let_def bind_eq_Some split: if_splits)
      qed
      with c(5) address_completed_inv [OF inv c(3,2,1,4), of abi] show ?thesis by simp
    qed (rule same)
  next
    case 3
    then show ?thesis
      using run same CompleteConfiguration_inv [OF inv, of port slot] by (auto split: if_splits)
  next
    case 4
    then show ?thesis using run same by simp
  qed
qed

section \<open>All events, in any order\<close>

text \<open>
  A step is the handling of the event at the front of the event ring, the configuration of a
  port at start-up, or anything the hardware does to its registers and to the memory it can
  write.  Port numbers in status change events start at 1.
\<close>

definition port_event_number :: "Xhc \<Rightarrow> u8 option" where
  "port_event_number x =
    map_option (\<lambda>t. ucast (get_field PortStatusChangeEventTRB_bits ''port_id'' t)) (TRBDynamicCast 34 (event_at_front x))"

inductive xhc_step :: "Abi \<Rightarrow> Hw \<Rightarrow> Xhc \<Rightarrow> Xhc \<Rightarrow> bool" for abi hw where
  event: "event_pending x \<Longrightarrow> port_event_number x \<noteq> Some 0 \<Longrightarrow> ProcessEvent abi hw x = Some (x', err) \<Longrightarrow>
    xhc_step abi hw x x'"
| configure: "port \<noteq> 0 \<Longrightarrow> ConfigurePort hw port x = Some (x', err) \<Longrightarrow> xhc_step abi hw x x'"
| hardware: "xhc_step abi hw x
    (x\<lparr>xhc_ports := ps, xhc_op := regs, xhc_interrupter := ir,
       xhc_usb := (xhc_usb x)\<lparr>u_dma := m, u_blocks := b, u_devs := (\<lambda>p. (u_devs (xhc_usb x) p)\<lparr>d_ctx := c p\<rparr>)\<rparr>\<rparr>)"

lemma pop_event_inv: "port_inv (pop_event x) = port_inv x" "advances y (pop_event x) = advances y x"
  by (simp_all add: port_inv_def advances_def)

lemma ProcessEvent_inv:
  assumes inv: "port_inv x" and ev: "port_event_number x \<noteq> Some 0" and run: "ProcessEvent abi hw x = Some (x', err)"
  shows "port_inv x' \<and> advances x x'"
proof (cases "event_pending x")
  case False
  then have "x' = x" using run by (simp add: ProcessEvent_def)
  then show ?thesis using kept inv by blast
next
  case True
  let ?t = "event_at_front x"
  from run True obtain x1 where x1: "x' = pop_event x1"
    "(case TRBDynamicCast 32 ?t of Some t \<Rightarrow> OnTransferEvent abi t x
      | None \<Rightarrow> (case TRBDynamicCast 34 ?t of Some t \<Rightarrow> OnPortStatusChange hw t x
      | None \<Rightarrow> (case TRBDynamicCast 33 ?t of Some t \<Rightarrow> OnCommandCompletion abi hw t x
      | None \<Rightarrow> Some (x, kNotImplemented)))) = Some (x1, err)"
    by (auto simp: ProcessEvent_def Let_def bind_eq_Some)
  have "port_inv x1 \<and> advances x x1"
  proof (cases "TRBDynamicCast 32 ?t")
    case (Some t)
    with x1 OnTransferEvent_inv [OF inv] show ?thesis by simp
  next
    case n1: None
    show ?thesis
    proof (cases "TRBDynamicCast 34 ?t")
      case (Some t)
      with ev have "ucast (get_field PortStatusChangeEventTRB_bits ''port_id'' t) \<noteq> (0 :: u8)"
        by (simp add: port_event_number_def)
      from OnPortStatusChange_inv [OF inv this] x1 n1 Some show ?thesis by simp
    next
      case n2: None
      show ?thesis
      proof (cases "TRBDynamicCast 33 ?t")
        case (Some t)
        with x1 n1 n2 OnCommandCompletion_inv [OF inv] show ?thesis by simp
      next
        case None
        with x1 n1 n2 have "x1 = x" by simp
        then show ?thesis using kept inv by blast
      qed
    qed
  qed
  then show ?thesis by (simp add: x1(1) pop_event_inv)
qed

lemma xhc_step_inv: "xhc_step abi hw x x' \<Longrightarrow> port_inv x \<Longrightarrow> port_inv x' \<and> advances x x'"
proof (induction rule: xhc_step.induct)
  case (event x x' err)
  then show ?case using ProcessEvent_inv by blast
next
  case (configure port x x' err)
  show ?case
  proof (cases "port_config_phase x port = kNotConnected")
    case True
    with configure ResetPort_inv [of x port hw x' err] show ?thesis by (simp add: ConfigurePort_def)
  next
    case False
    with configure have "x' = x" by (simp add: ConfigurePort_def)
    then show ?thesis using kept configure.prems by blast
  qed
next
  case hardware
  then show ?case by (simp add: port_inv_def advances_def)
qed

definition ports_at_boot :: "Xhc \<Rightarrow> bool" where
  "ports_at_boot x \<longleftrightarrow> (\<forall>p. port_config_phase x p = kNotConnected) \<and> addressing_port x = 0"

lemma reachable_inv: "(xhc_step abi hw)\<^sup>*\<^sup>* x x' \<Longrightarrow> ports_at_boot x \<Longrightarrow> port_inv x'"
proof (induction rule: rtranclp_induct)
  case base
  then show ?case by (auto simp: ports_at_boot_def port_inv_def addressing_phases_def)
next
  case (step y z)
  then show ?case using xhc_step_inv by blast
qed

section \<open>Properties\<close>

text \<open>
  C20. Whatever the controller reports and in whatever order, at most one port is between its
  reset and the assignment of its address, namely the one in \<open>addressing_port\<close>, and that
  port is in one of these phases whenever it is not 0; and no port ever goes back to an
  earlier phase.
\<close>

theorem one_port_is_addressed:
  assumes "ports_at_boot x0" "(xhc_step abi hw)\<^sup>*\<^sup>* x0 x"
  shows "(\<forall>p. port_config_phase x p \<in> {kResettingPort, kEnablingSlot, kAddressingDevice} \<longleftrightarrow>
      p = addressing_port x \<and> p \<noteq> 0) \<and>
    (\<forall>x'. xhc_step abi hw x x' \<longrightarrow> (\<forall>p. port_config_phase x p \<le> port_config_phase x' p))"
  using reachable_inv [OF assms(2,1)] xhc_step_inv [of abi hw x]
  unfolding port_inv_def addressing_phases_def advances_def by blast

text \<open>A controller whose ports all have a device, and hardware that answers at once.\<close>

definition example_xhc :: Xhc where
  "example_xhc =
    \<lparr>xhc_mmio_base = 0xfebf0000, xhc_max_ports = 4,
     xhc_cap = \<lparr>CAPLENGTH = 0x40, HCIVERSION = 0x100, HCSPARAMS1 = 0x04000008, HCSPARAMS2 = 0, HCSPARAMS3 = 0,
       HCCPARAMS1 = 0, DBOFF = 0x2000, RTSOFF = 0x1000, HCCPARAMS2 = 0\<rparr>,
     xhc_op = \<lparr>USBCMD = 0, USBSTS = 0, PAGESIZE = 1, DNCTRL = 0, CRCR = 0, DCBAAP = 0, CONFIG = 0\<rparr>,
     xhc_interrupter = \<lparr>IMAN = 0, IMOD = 0, ERSTSZ = 0, ERSTBA = 0, ERDP = 0\<rparr>,
     xhc_ports = (\<lambda>_. \<lparr>PORTSC = 1, PORTPMSC = 0, PORTLI = 0, PORTHLPMC = 0\<rparr>),
     xhc_devmgr = \<lparr>dm_device_contexts = 0, dm_device_context_pointers = replicate 9 0, dm_max_slots = 8, dm_devices = replicate 9 0\<rparr>,
     xhc_cr = empty_Ring,
     xhc_er = \<lparr>er_buf = 0, er_buf_size = 0, er_cycle = False, er_erst = 0, er_erst_addr = 0\<rparr>,
     xhc_scratchpad = [],
     xhc_usb = \<lparr>u_ptr = 0x10000000, u_blocks = (\<lambda>_. 0), u_rings = (\<lambda>_. empty_Ring), u_devs = (\<lambda>_. new_Device 0 0),
       u_hids = (\<lambda>_. new_Hid KeyboardDriver 0 0), u_dma = (\<lambda>_. 0), u_doorbells = [], u_keyboard_observer = False,
       u_mouse_observer = False, u_events = []\<rparr>,
     port_config_phase = (\<lambda>_. kNotConnected), addressing_port = 0\<rparr>"

definition example_hw :: Hw where
  "example_hw = \<lparr>hw_portsc = (\<lambda>old v n. 0x00200003), hw_usbcmd = (\<lambda>regs v n. regs), hw_legsup = (\<lambda>v n. v), hw_extregs = (\<lambda>_. 0)\<rparr>"

theorem one_port_is_addressed_witness:
  "\<forall>abi. \<exists>x. (xhc_step abi example_hw)\<^sup>*\<^sup>* example_xhc x \<and> addressing_port x = 1 \<and> port_config_phase x 1 = kResettingPort \<and>
    (\<forall>p. p \<noteq> 1 \<longrightarrow> port_config_phase x p \<notin> {kResettingPort, kEnablingSlot, kAddressingDevice})"
proof
  fix abi
  have conn: "IsConnected 1 example_xhc" by code_simp
  have "get_field PORTSC_Bitmap_bits ''port_reset'' (0x00200003 :: u32) = 0" by code_simp
  then have wait: "busy_wait (\<lambda>n. 0x00200003 :: u32) (\<lambda>r. get_field PORTSC_Bitmap_bits ''port_reset'' r \<noteq> 0) 0 = Some 0"
    by (simp add: busy_wait.simps)
  have start: "addressing_port example_xhc = 0" "port_config_phase example_xhc 1 = kNotConnected"
    by (simp_all add: example_xhc_def)
  obtain x where x: "ConfigurePort example_hw 1 example_xhc = Some (x, kSuccess)" "addressing_port x = 1"
    "port_config_phase x 1 = kResettingPort"
    using conn wait start by (simp add: ConfigurePort_def ResetPort_def Port_Reset_def Let_def example_hw_def)
  have step: "(xhc_step abi example_hw)\<^sup>*\<^sup>* example_xhc x"
    by (rule r_into_rtranclp, rule xhc_step.configure [OF _ x(1)]) simp
  have "ports_at_boot example_xhc" by (simp add: ports_at_boot_def example_xhc_def)
  from one_port_is_addressed [OF this step] x(2)
  have "\<forall>p. p \<noteq> 1 \<longrightarrow> port_config_phase x p \<notin> {kResettingPort, kEnablingSlot, kAddressingDevice}" by auto
  with step x show "\<exists>x. (xhc_step abi example_hw)\<^sup>*\<^sup>* example_xhc x \<and> addressing_port x = 1 \<and>
      port_config_phase x 1 = kResettingPort \<and>
      (\<forall>p. p \<noteq> 1 \<longrightarrow> port_config_phase x p \<notin> {kResettingPort, kEnablingSlot, kAddressingDevice})" by blast
qed

end
