(* ===== verification/Xhci_Start.thy ===== *)
theory Xhci_Start
  imports Pci Xhci_Ports Descriptors
begin

text \<open>
  Starting the host controller: \<open>SwitchEhci2Xhci\<close> and \<open>Initialize\<close> at the end of
  \<open>kernel/usb/xhci/xhci.cpp\<close>.  The controller is looked up in the table of PCI devices, its
  interrupt is routed to the bootstrap processor, it is reset and started, and the ports with
  a device are configured.  The registers found at an address are a parameter.
\<close>

fun find_xhc :: "ConfigSpace \<Rightarrow> PciPorts \<Rightarrow> PciDevice list \<Rightarrow> PciDevice option \<Rightarrow> PciDevice option" where
  "find_xhc hw p [] xhc_dev = xhc_dev"
| "find_xhc hw p (dev # devs) xhc_dev =
    (if Match3 (class_code dev) 0x0c 0x03 0x30
     then if ReadVendorId_of hw dev p = 0x8086 then Some dev else find_xhc hw p devs (Some dev)
     else find_xhc hw p devs xhc_dev)"

definition SwitchEhci2Xhci :: "ConfigSpace \<Rightarrow> PciDevice list \<Rightarrow> PciDevice \<Rightarrow> PciPorts \<Rightarrow> PciPorts" where
  "SwitchEhci2Xhci hw devs xhc_dev p =
    (if \<not> (\<exists>dev \<in> set devs. Match3 (class_code dev) 0x0c 0x03 0x20 \<and> ReadVendorId_of hw dev p = 0x8086) then p
     else
       let superspeed_ports = ReadConfReg hw xhc_dev 0xdc p;
           p1 = WriteConfReg xhc_dev 0xd8 superspeed_ports p;
           ehci2xhci_ports = ReadConfReg hw xhc_dev 0xd4 p1
       in WriteConfReg xhc_dev 0xd0 ehci2xhci_ports p1)"

text \<open>
  \<open>lapic_id\<close> is the register at \<open>0xfee00020\<close>; \<open>regs_at\<close> is the state of the driver with the
  registers of a controller at an address.  \<open>Inl\<close> is the end of the kernel by \<open>exit\<close>.
\<close>

definition xhci_Initialize ::
  "Abi \<Rightarrow> Hw \<Rightarrow> ConfigSpace \<Rightarrow> u32 \<Rightarrow> (u64 \<Rightarrow> Xhc) \<Rightarrow> PciDevice list \<Rightarrow> PciPorts \<Rightarrow> (unit + Xhc \<times> PciPorts) option" where
  "xhci_Initialize abi hw pci lapic_id regs_at devs p =
    (case find_xhc pci p devs None of
       None \<Rightarrow> Some (Inl ())
     | Some xhc_dev \<Rightarrow>
         let bsp_local_apic_id = ucast (drop_bit 24 lapic_id)
         in do {
           (p1, _) \<leftarrow> ConfigureMSIFixedDestination pci xhc_dev bsp_local_apic_id kLevel kFixed (of_nat kXHCI) 0 p;
           let (xhc_bar, _) = ReadBar pci xhc_dev 0 p1;
           let xhc_mmio_base = xhc_bar AND NOT 0xf;
           let xhc = new_Controller xhc_mmio_base (xhc_cap (regs_at xhc_mmio_base)) (regs_at xhc_mmio_base);
           let p2 = (if ReadVendorId_of pci xhc_dev p1 = 0x8086 then SwitchEhci2Xhci pci devs xhc_dev p1 else p1);
           (xhc1, err) \<leftarrow> Controller_Initialize abi hw xhc;
           if err \<noteq> kSuccess then Some (Inl ())
           else do {
             (xhc2, _) \<leftarrow> Controller_Run hw xhc1;
             xhc3 \<leftarrow> start_ports hw xhc2;
             Some (Inr (xhc3, p2)) } })"

section \<open>The choice of the controller\<close>

definition is_xhc :: "PciDevice \<Rightarrow> bool" where
  "is_xhc dev \<longleftrightarrow> Match3 (class_code dev) 0x0c 0x03 0x30"

text \<open>The first xHC of Intel in the table, and the last one if none is.\<close>

lemma find_xhc_choice:
  "find_xhc hw p devs d =
    (case find (\<lambda>dev. ReadVendorId_of hw dev p = 0x8086) (filter is_xhc devs) of
       Some dev \<Rightarrow> Some dev
     | None \<Rightarrow> if filter is_xhc devs = [] then d else Some (last (filter is_xhc devs)))"
proof (induction devs arbitrary: d)
  case (Cons dev devs)
  then show ?case by (cases "is_xhc dev") (auto simp flip: is_xhc_def split: option.split)
qed simp

lemma find_xhc_is_xhc: "find_xhc hw p devs None = Some dev \<Longrightarrow> dev \<in> set devs \<and> is_xhc dev"
proof -
  have "find_xhc hw p devs d = Some dev \<Longrightarrow> dev \<in> set devs \<and> is_xhc dev \<or> d = Some dev" for d
    by (induction devs arbitrary: d) (auto simp: is_xhc_def split: if_splits)
  then show "find_xhc hw p devs None = Some dev \<Longrightarrow> dev \<in> set devs \<and> is_xhc dev" by fastforce
qed

text \<open>Without a controller the kernel ends, and with one it ends only if resetting it fails.\<close>

lemma xhci_Initialize_exit:
  "filter is_xhc devs = [] \<Longrightarrow> xhci_Initialize abi hw pci lapic_id regs_at devs p = Some (Inl ())"
  by (simp add: xhci_Initialize_def find_xhc_choice)

text \<open>Neither the search nor the switch of the ports touches another device.\<close>

lemma SwitchEhci2Xhci_writes:
  "\<exists>ws. config_writes (SwitchEhci2Xhci hw devs dev p) = config_writes p @ ws \<and>
     map fst ws \<in> {[], [reg_address dev 0xd8, reg_address dev 0xd0]}"
  by (simp add: SwitchEhci2Xhci_def Let_def)

end
