(* ===== verification/Usb_Configuration.thy ===== *)
theory Usb_Configuration
  imports Usb_Devices
begin

text \<open>
  What the second phase of a device's initialisation makes of a configuration descriptor.  The
  reader follows the length bytes; here the bytes of the buffer are a list of descriptors.
\<close>

section \<open>A buffer of descriptors\<close>

fun descs_at :: "(u64 \<Rightarrow> u8) \<Rightarrow> u64 \<Rightarrow> u8 list list \<Rightarrow> bool" where
  "descs_at mem p [] \<longleftrightarrow> True"
| "descs_at mem p (d # ds) \<longleftrightarrow>
    2 \<le> length d \<and> length d = unat (d ! 0) \<and> (\<forall>i < length d. mem (p + of_nat i) = d ! i) \<and>
    descs_at mem (p + of_nat (length d)) ds"

definition reader_at :: "(u64 \<Rightarrow> u8) \<Rightarrow> u64 \<Rightarrow> int \<Rightarrow> u64 \<Rightarrow> u8 list list \<Rightarrow> bool" where
  "reader_at mem buf len p ds \<longleftrightarrow>
    descs_at mem p ds \<and> 0 \<le> len \<and> unat p + length (concat ds) = unat buf + nat len \<and> unat buf + nat len < 2 ^ 64"

lemma byte_at:
  "descs_at mem p (d # ds) \<Longrightarrow> i < length d \<Longrightarrow> mem (p + of_nat i) = d ! i"
  by simp

lemma reader_step:
  assumes "reader_at mem buf len p (d # ds)"
  shows "reader_Next mem buf len p = (p + of_nat (length d), if ds = [] then 0 else p + of_nat (length d))"
    "reader_at mem buf len (p + of_nat (length d)) ds" "p + of_nat (length d) \<noteq> 0"
proof -
  have d: "2 \<le> length d" "length d = unat (d ! 0)" "mem (p + of_nat 0) = d ! 0"
    and total: "unat p + (length d + length (concat ds)) = unat buf + nat len" "unat buf + nat len < 2 ^ 64" "0 \<le> len"
    and ds: "descs_at mem (p + of_nat (length d)) ds"
    using assms byte_at [of mem p d ds 0] by (auto simp: reader_at_def)
  let ?p = "p + of_nat (length d)"
  have len: "unat (of_nat (length d) :: u64) = length d" by (rule unat_of_nat_less) (use total in simp)
  have p: "unat ?p = unat p + length d"
    using total by (subst unat_word_ariths) (simp add: len)
  have "(of_int len :: u64) = of_nat (nat len)" using total(3) by simp
  moreover have "unat (of_nat (nat len) :: u64) = nat len" by (rule unat_of_nat_less) (use total in simp)
  ultimately have e: "unat (buf + of_int len) = unat buf + nat len"
    using total(2) by (subst unat_word_ariths) simp
  have lt: "?p < buf + of_int len \<longleftrightarrow> ds \<noteq> []"
  proof
    assume "?p < buf + of_int len"
    then show "ds \<noteq> []" using total unfolding word_less_nat_alt e p by auto
  next
    assume "ds \<noteq> []"
    then obtain d' ds' where "ds = d' # ds'" by (cases ds) auto
    with ds have "0 < length (concat ds)" by auto
    with total show "?p < buf + of_int len" unfolding word_less_nat_alt e p by linarith
  qed
  have "(ucast (mem p) :: u64) = of_nat (length d)" using d(2,3) by simp
  with lt show "reader_Next mem buf len p = (?p, if ds = [] then 0 else ?p)" by (simp add: reader_Next_def Let_def)
  show "reader_at mem buf len ?p ds" using ds total p by (simp add: reader_at_def)
  show "?p \<noteq> 0"
  proof
    assume "?p = 0"
    with p d(1) show False by simp
  qed
qed

text \<open>A memory that holds the bytes \<open>bs\<close> from the address \<open>base\<close> on.\<close>

definition bytes_mem :: "u64 \<Rightarrow> u8 list \<Rightarrow> u64 \<Rightarrow> u8" where
  "bytes_mem base bs a = (let i = unat (a - base) in if i < length bs then bs ! i else 0)"

fun descs_ok :: "u8 list list \<Rightarrow> bool" where
  "descs_ok [] \<longleftrightarrow> True"
| "descs_ok (d # ds) \<longleftrightarrow> 2 \<le> length d \<and> length d = unat (d ! 0) \<and> descs_ok ds"

lemma descs_at_bytes_mem:
  assumes "length (pre @ concat ds) < 2 ^ 64" "descs_ok ds"
  shows "descs_at (bytes_mem base (pre @ concat ds)) (base + of_nat (length pre)) ds"
  using assms
proof (induction ds arbitrary: pre)
  case (Cons d ds)
  have "bytes_mem base (pre @ concat (d # ds)) (base + of_nat (length pre) + of_nat i) = d ! i" if "i < length d" for i
  proof -
    have "base + of_nat (length pre) + of_nat i - base = (of_nat (length pre + i) :: u64)" by simp
    moreover have "unat (of_nat (length pre + i) :: u64) = length pre + i"
      by (rule unat_of_nat_less) (use that Cons.prems(1) in simp)
    ultimately show ?thesis using that by (simp only: bytes_mem_def Let_def) (simp add: nth_append)
  qed
  moreover have "length ((pre @ d) @ concat ds) < 2 ^ 64" "descs_ok ds" using Cons.prems by simp_all
  then have "descs_at (bytes_mem base ((pre @ d) @ concat ds)) (base + of_nat (length (pre @ d))) ds"
    by (rule Cons.IH)
  then have "descs_at (bytes_mem base (pre @ concat (d # ds))) (base + of_nat (length pre) + of_nat (length d)) ds"
    by (simp only: append_assoc concat.simps length_append of_nat_add add.assoc)
  ultimately show ?case using Cons.prems(2) unfolding descs_at.simps descs_ok.simps by blast
qed simp

lemma reader_at_bytes_mem:
  assumes "unat base + length (concat ds) < 2 ^ 64" "descs_ok ds"
    and "len = int (length (concat ds))"
  shows "reader_at (bytes_mem base (concat ds)) base len base ds"
proof -
  have "length (concat ds) < 2 ^ 64" using assms(1) by linarith
  with descs_at_bytes_mem [of "[]" ds base] assms(2) have "descs_at (bytes_mem base (concat ds)) base ds" by simp
  with assms(1,3) show ?thesis by (simp add: reader_at_def)
qed

section \<open>Searching a type\<close>

lemma Next_as_found:
  assumes "reader_at mem buf len p (d # xs @ e # es)" "\<forall>x \<in> set xs. x ! 1 \<noteq> k" "e ! 1 = k"
  shows "\<exists>q. reader_Next_as k mem buf len p = Some (q, q) \<and> q \<noteq> 0 \<and> reader_at mem buf len q (e # es)"
  using assms
proof (induction xs arbitrary: d p)
  case Nil
  let ?q = "p + of_nat (length d)"
  note st = reader_step [OF Nil.prems(1)]
  have "mem (?q + of_nat 1) = e ! 1" using st(2) by (intro byte_at) (auto simp: reader_at_def)
  with Nil.prems(3) st show ?case
    by (subst reader_Next_as.simps) (simp add: DescriptorDynamicCast_def)
next
  case (Cons x xs)
  let ?q = "p + of_nat (length d)"
  note st = reader_step [OF Cons.prems(1)]
  have "mem (?q + of_nat 1) = x ! 1" using st(2) by (intro byte_at) (auto simp: reader_at_def)
  with Cons.prems(2) st(1,3) have "reader_Next_as k mem buf len p = reader_Next_as k mem buf len ?q"
    by (subst reader_Next_as.simps) (simp add: DescriptorDynamicCast_def)
  moreover have "reader_at mem buf len ?q (x # xs @ e # es)" using st(2) by simp
  ultimately show ?case using Cons.IH Cons.prems(2,3) by simp
qed

lemma Next_as_absent:
  assumes "reader_at mem buf len p (d # xs)" "\<forall>x \<in> set xs. x ! 1 \<noteq> k"
  shows "\<exists>q. reader_Next_as k mem buf len p = Some (q, 0)"
  using assms
proof (induction xs arbitrary: d p)
  case Nil
  from reader_step [OF Nil.prems(1)] show ?case by (subst reader_Next_as.simps) simp
next
  case (Cons x xs)
  let ?q = "p + of_nat (length d)"
  note st = reader_step [OF Cons.prems(1)]
  have "mem (?q + of_nat 1) = x ! 1" using st(2) by (intro byte_at) (auto simp: reader_at_def)
  with Cons.prems(2) st(1,3) have "reader_Next_as k mem buf len p = reader_Next_as k mem buf len ?q"
    by (subst reader_Next_as.simps) (simp add: DescriptorDynamicCast_def)
  then show ?case using Cons.IH [OF st(2)] Cons.prems(2) by simp
qed

text \<open>A descriptor of length 0 in the middle of the buffer is never left.\<close>

definition stuck_at :: "u8 \<Rightarrow> (u64 \<Rightarrow> u8) \<Rightarrow> u64 \<Rightarrow> int \<Rightarrow> u64 \<Rightarrow> bool" where
  "stuck_at k mem buf len p \<longleftrightarrow> mem p = 0 \<and> p < buf + of_int len \<and> p \<noteq> 0 \<and> mem (p + 1) \<noteq> k"

lemma Next_as_returns:
  assumes "reader_Next_as k mem buf len p = Some y" shows "\<not> stuck_at k mem buf len p"
proof (rule reader_Next_as.raw_induct [OF _ assms, where P = "\<lambda>k mem buf len p y. \<not> stuck_at k mem buf len p"])
  fix rec and k :: u8 and mem :: "u64 \<Rightarrow> u8" and buf :: u64 and len :: int and p :: u64 and y :: "u64 \<times> u64"
  assume IH: "\<And>k mem buf len p y. rec k mem buf len p = Some y \<Longrightarrow> \<not> stuck_at k mem buf len p"
    and body: "(case reader_Next mem buf len p of (p', n) \<Rightarrow> if n = 0 then Some (p', 0)
      else if DescriptorDynamicCast k mem n \<noteq> 0 then Some (p', n) else rec k mem buf len p') = Some y"
  show "\<not> stuck_at k mem buf len p"
  proof
    assume "stuck_at k mem buf len p"
    with body have "rec k mem buf len p = Some y"
      by (simp add: stuck_at_def reader_Next_def DescriptorDynamicCast_def)
    from IH [OF this] \<open>stuck_at k mem buf len p\<close> show False by blast
  qed
qed

lemma Next_as_stuck:
  assumes "mem p = 0" "p < buf + of_int len" "p \<noteq> 0" "mem (p + 1) \<noteq> k"
  shows "reader_Next_as k mem buf len p = None"
  using Next_as_returns [of k mem buf len p] assms
  by (cases "reader_Next_as k mem buf len p") (auto simp: stuck_at_def)

section \<open>Endpoints and interfaces as lists of bytes\<close>

definition ep_desc_of :: "u8 list \<Rightarrow> EndpointDescriptor" where
  "ep_desc_of d =
    \<lparr>ed_length = d ! 0, ed_endpoint_address = d ! 2, ed_attributes = d ! 3,
     ed_max_packet_size = ucast (d ! 4) OR push_bit 8 (ucast (d ! 5)), ed_interval = d ! 6\<rparr>"

definition ep_of :: "u8 list \<Rightarrow> EndpointConfig" where
  "ep_of d = MakeEPConfig (ep_desc_of d)"

definition is_endpoint :: "u8 list \<Rightarrow> bool" where
  "is_endpoint d \<longleftrightarrow> d ! 1 = kEndpointDescriptorType"

definition iface_of :: "u8 list \<Rightarrow> InterfaceDescriptor" where
  "iface_of d =
    \<lparr>id_length = d ! 0, id_interface_number = d ! 2, id_alternate_setting = d ! 3, id_num_endpoints = d ! 4,
     id_interface_class = d ! 5, id_interface_sub_class = d ! 6, id_interface_protocol = d ! 7, id_interface_id = d ! 8\<rparr>"

lemma bytes_at:
  assumes "descs_at mem p (d # ds)"
  shows "0 < length d \<Longrightarrow> mem p = d ! 0" "k < length d \<Longrightarrow> of_nat k = n \<Longrightarrow> mem (p + n) = d ! k"
  using byte_at [OF assms, of 0] byte_at [OF assms, of k] by auto

lemma EndpointDescriptor_at_bytes:
  assumes "descs_at mem p (d # ds)" "7 \<le> length d"
  shows "EndpointDescriptor_at mem p = ep_desc_of d"
proof -
  note b = bytes_at [OF assms(1)]
  have "mem p = d ! 0" "mem (p + 2) = d ! 2" "mem (p + 3) = d ! 3" "mem (p + 4) = d ! 4" "mem (p + 5) = d ! 5" "mem (p + 6) = d ! 6"
    using assms(2) by (auto intro!: b)
  then show ?thesis by (simp add: EndpointDescriptor_at_def ep_desc_of_def le16_def add.assoc)
qed

lemma InterfaceDescriptor_at_bytes:
  assumes "descs_at mem p (d # ds)" "9 \<le> length d"
  shows "InterfaceDescriptor_at mem p = iface_of d"
proof -
  note b = bytes_at [OF assms(1)]
  have "mem p = d ! 0" "mem (p + 2) = d ! 2" "mem (p + 3) = d ! 3" "mem (p + 4) = d ! 4" "mem (p + 5) = d ! 5" "mem (p + 6) = d ! 6"
    "mem (p + 7) = d ! 7" "mem (p + 8) = d ! 8"
    using assms(2) by (auto intro!: b)
  then show ?thesis by (simp add: InterfaceDescriptor_at_def iface_of_def)
qed

definition assign_drivers :: "u64 \<Rightarrow> EndpointConfig list \<Rightarrow> u64 list \<Rightarrow> u64 list" where
  "assign_drivers drv eps dr = fold (\<lambda>c dr. dr[nat (EndpointID_Number (cfg_ep_id c)) := drv]) eps dr"

definition put_configs :: "nat \<Rightarrow> EndpointConfig list \<Rightarrow> EndpointConfig list \<Rightarrow> EndpointConfig list" where
  "put_configs k eps cs = take k cs @ eps @ drop (k + length eps) cs"

lemma put_configs_Cons:
  "k < length cs \<Longrightarrow> put_configs (Suc k) es (cs[k := e]) = put_configs k (e # es) cs"
  by (simp add: put_configs_def take_Suc_conv_app_nth)

lemma collect_done: "collect_endpoints mem buf len (int n) drv p (int n) cs dr = Some (int n, cs, dr)"
  by (subst collect_endpoints.simps) simp

lemma collect_endpoints_reads:
  assumes "reader_at mem buf len p (d # ds)" "\<forall>x \<in> set ds. is_endpoint x \<longrightarrow> 7 \<le> length x"
    and "k \<le> n" "n \<le> k + length (filter is_endpoint ds)" "n \<le> 16" "length cs = 16"
  shows "collect_endpoints mem buf len (int n) drv p (int k) cs dr =
    (let eps = map ep_of (take (n - k) (filter is_endpoint ds))
     in Some (int n, put_configs k eps cs, assign_drivers drv eps dr))"
  using assms
proof (induction ds arbitrary: d p k cs dr)
  case Nil
  then have "k = n" by simp
  then show ?case by (simp add: collect_done put_configs_def assign_drivers_def)
next
  case (Cons x ds)
  show ?case
  proof (cases "k = n")
    case True
    then show ?thesis by (simp add: collect_done put_configs_def assign_drivers_def)
  next
    case False
    then have k: "k < n" "k < 16" "k < length cs" using Cons.prems by simp_all
    let ?q = "p + of_nat (length d)"
    note st = reader_step [OF Cons.prems(1)]
    have x: "descs_at mem ?q (x # ds)" using st(2) unfolding reader_at_def by (rule conjunct1)
    have ty: "mem (?q + 1) = x ! 1" using bytes_at(2) [OF x, of 1 1] x by simp
    have le16: "int k < 16 \<longleftrightarrow> True" using k by simp
    show ?thesis
    proof (cases "is_endpoint x")
      case True
      with Cons.prems(2) have "EndpointDescriptor_at mem ?q = ep_desc_of x"
        by (intro EndpointDescriptor_at_bytes [OF x]) simp
      with True k st ty have "collect_endpoints mem buf len (int n) drv p (int k) cs dr =
          collect_endpoints mem buf len (int n) drv ?q (int (Suc k)) (cs[k := ep_of x])
            (dr[nat (EndpointID_Number (cfg_ep_id (ep_of x))) := drv])"
        by (subst collect_endpoints.simps)
          (simp add: DescriptorDynamicCast_def is_endpoint_def Let_def ep_of_def add.commute)
      also have "\<dots> = (let eps = map ep_of (take (n - Suc k) (filter is_endpoint ds))
          in Some (int n, put_configs (Suc k) eps (cs[k := ep_of x]),
            assign_drivers drv eps (dr[nat (EndpointID_Number (cfg_ep_id (ep_of x))) := drv])))"
        using Cons.prems k True by (intro Cons.IH [OF st(2)]) simp_all
      also have "\<dots> = (let eps = map ep_of (take (n - k) (filter is_endpoint (x # ds)))
          in Some (int n, put_configs k eps cs, assign_drivers drv eps dr))"
      proof -
        have "take (n - k) (filter is_endpoint (x # ds)) = x # take (n - Suc k) (filter is_endpoint ds)"
          using True k by (simp add: take_Cons')
        then show ?thesis using put_configs_Cons [OF k(3)] by (simp add: Let_def assign_drivers_def)
      qed
      finally show ?thesis .
    next
      case False
      with k st ty have "collect_endpoints mem buf len (int n) drv p (int k) cs dr =
          collect_endpoints mem buf len (int n) drv ?q (int k) cs dr"
        by (subst collect_endpoints.simps) (simp add: DescriptorDynamicCast_def is_endpoint_def Let_def)
      also have "\<dots> = (let eps = map ep_of (take (n - k) (filter is_endpoint ds))
          in Some (int n, put_configs k eps cs, assign_drivers drv eps dr))"
        using Cons.prems False by (intro Cons.IH [OF st(2)]) simp_all
      finally show ?thesis using False by simp
    qed
  qed
qed

section \<open>The first interface with a driver\<close>

definition supported :: "InterfaceDescriptor \<Rightarrow> bool" where
  "supported i \<longleftrightarrow> id_interface_class i = 3 \<and> id_interface_sub_class i = 1 \<and> id_interface_protocol i \<in> {1, 2}"

lemma NewClassDriver_unsupported: "\<not> supported i \<Longrightarrow> NewClassDriver abi dev i u = (u, 0)"
  by (auto simp: NewClassDriver_def supported_def)

lemma NewClassDriver_keeps:
  assumes "NewClassDriver abi dev i u = (u1, drv)"
  shows "u_devs u1 = u_devs u" "u_dma u1 = u_dma u"
  using assms
  by (auto simp: NewClassDriver_def new_HidDriver_def update_hid_def Let_def split: if_splits prod.splits)

lemma find_interface_skips:
  assumes "reader_at (u_dma u) buf len p (d # skipped @ iface # rest)"
    and "\<forall>x \<in> set skipped. x ! 1 = kInterfaceDescriptorType \<longrightarrow> 9 \<le> length x \<and> \<not> supported (iface_of x)"
    and "iface ! 1 = kInterfaceDescriptorType"
  shows "\<exists>q q'. find_interface abi dev buf len p u = find_interface abi dev buf len q u \<and>
    reader_Next_as kInterfaceDescriptorType (u_dma u) buf len q = Some (q', q') \<and> q' \<noteq> 0 \<and>
    reader_at (u_dma u) buf len q' (iface # rest)"
  using assms
proof (induction "length skipped" arbitrary: skipped p d rule: less_induct)
  case less
  let ?k = kInterfaceDescriptorType
  show ?case
  proof (cases "\<exists>x \<in> set skipped. x ! 1 = ?k")
    case False
    then have "\<forall>x \<in> set skipped. x ! 1 \<noteq> ?k" by blast
    from Next_as_found [OF less.prems(1) this less.prems(3)] show ?thesis by blast
  next
    case True
    from split_list_first_prop [OF this] obtain a s b where
      ab: "skipped = a @ s # b" "s ! 1 = ?k" "\<forall>x \<in> set a. x ! 1 \<noteq> ?k" by blast
    have "reader_at (u_dma u) buf len p (d # a @ s # (b @ iface # rest))" using less.prems(1) ab(1) by simp
    from Next_as_found [OF this ab(3,2)] obtain q where
      q: "reader_Next_as ?k (u_dma u) buf len p = Some (q, q)" "q \<noteq> 0"
        "reader_at (u_dma u) buf len q (s # b @ iface # rest)" by blast
    have s: "9 \<le> length s" "\<not> supported (iface_of s)" using less.prems(2) ab by auto
    have "InterfaceDescriptor_at (u_dma u) q = iface_of s"
      using q(3) s(1) InterfaceDescriptor_at_bytes unfolding reader_at_def by blast
    with q s have skip: "find_interface abi dev buf len p u = find_interface abi dev buf len q u"
      by (subst find_interface.simps) (simp add: NewClassDriver_unsupported)
    have shorter: "length b < length skipped" using ab(1) by simp
    have "\<forall>x \<in> set b. x ! 1 = ?k \<longrightarrow> 9 \<le> length x \<and> \<not> supported (iface_of x)"
      using less.prems(2) ab(1) by simp
    from less.hyps [OF shorter q(3) this less.prems(3)] show ?thesis unfolding skip .
  qed
qed

lemma find_interface_configures:
  assumes "reader_at (u_dma u) buf len p (d # skipped @ iface # rest)"
    and "\<forall>x \<in> set skipped. x ! 1 = kInterfaceDescriptorType \<longrightarrow> 9 \<le> length x \<and> \<not> supported (iface_of x)"
    and "iface ! 1 = kInterfaceDescriptorType" "9 \<le> length iface"
    and "\<forall>x \<in> set rest. is_endpoint x \<longrightarrow> 7 \<le> length x"
    and "unat (iface ! 4) \<le> length (filter is_endpoint rest)" "unat (iface ! 4) \<le> 16"
    and "length (d_ep_configs (u_devs u dev)) = 16"
    and "NewClassDriver abi dev (iface_of iface) u = (u1, drv)" "drv \<noteq> 0"
  shows "find_interface abi dev buf len p u =
    (let n = unat (iface ! 4); eps = map ep_of (take n (filter is_endpoint rest))
     in Some (update_dev dev (\<lambda>d. d\<lparr>d_num_ep_configs := int n, d_ep_configs := put_configs 0 eps (d_ep_configs d),
          d_class_drivers := assign_drivers drv eps (d_class_drivers d)\<rparr>) u1, drv))"
proof -
  from find_interface_skips [where abi = abi and dev = dev, OF assms(1-3)] obtain q q' where
    q: "find_interface abi dev buf len p u = find_interface abi dev buf len q u"
      "reader_Next_as kInterfaceDescriptorType (u_dma u) buf len q = Some (q', q')" "q' \<noteq> 0"
      "reader_at (u_dma u) buf len q' (iface # rest)" by (elim exE conjE)
  have i: "InterfaceDescriptor_at (u_dma u) q' = iface_of iface"
    using q(4) assms(4) InterfaceDescriptor_at_bytes unfolding reader_at_def by blast
  note keep = NewClassDriver_keeps [OF assms(9)]
  have n: "uint (id_num_endpoints (iface_of iface)) = int (unat (iface ! 4))" by (simp add: iface_of_def)
  have col: "collect_endpoints (u_dma u) buf len (int (unat (iface ! 4))) drv q' (int 0) (d_ep_configs (u_devs u dev))
      (d_class_drivers (u_devs u dev)) =
    (let eps = map ep_of (take (unat (iface ! 4) - 0) (filter is_endpoint rest))
     in Some (int (unat (iface ! 4)), put_configs 0 eps (d_ep_configs (u_devs u dev)),
       assign_drivers drv eps (d_class_drivers (u_devs u dev))))"
    using assms(6-8) by (intro collect_endpoints_reads [OF q(4) assms(5)]) simp_all
  show ?thesis
    unfolding q(1) using q(2,3) assms(9,10) col
    by (subst find_interface.simps) (simp add: i n keep Let_def update_dev_def)
qed

section \<open>A control transfer keeps the configuration\<close>

definition configuration :: "Dev \<Rightarrow> int \<times> int \<times> EndpointConfig list \<times> u64 list" where
  "configuration d = (d_initialize_phase d, d_num_ep_configs d, d_ep_configs d, d_class_drivers d)"

lemma push_to_devs: "u_devs (fst (push_to tr t u)) = u_devs u"
  by (simp add: push_to_def split_beta)

lemma configuration_steps [simp]:
  "configuration (u_devs (base_Control dev' sd issuer u) dev) = configuration (u_devs u dev)"
  "configuration (u_devs (put_setup_stage dev' p q u) dev) = configuration (u_devs u dev)"
  "configuration (u_devs (ring_doorbell i t u) dev) = configuration (u_devs u dev)"
  by (simp_all add: configuration_def base_Control_def put_setup_stage_def ring_doorbell_def update_dev_def)

lemma ControlOut_configuration:
  "configuration (u_devs (fst (ControlOut dev' ep sd buf len issuer u)) dev) = configuration (u_devs u dev)"
  by (simp add: ControlOut_def Let_def split_beta push_to_devs)

section \<open>Properties\<close>

text \<open>
  C19. The second phase of a device's initialisation takes from a well-formed configuration
  descriptor the first interface it has a driver for, however many others precede it, and
  exactly the first \<open>num_endpoints\<close> endpoint descriptors behind it, in their order: their
  configurations are recorded, the driver is entered for each of them, and the device goes to
  phase 3.
\<close>

theorem InitializePhase2_configures:
  assumes "reader_at (u_dma u) buf len buf (conf # skipped @ iface # rest)" "buf \<noteq> 0"
    and "conf ! 1 = kConfigurationDescriptorType"
    and "\<forall>x \<in> set skipped. x ! 1 = kInterfaceDescriptorType \<longrightarrow> 9 \<le> length x \<and> \<not> supported (iface_of x)"
    and "iface ! 1 = kInterfaceDescriptorType" "9 \<le> length iface"
    and "\<forall>x \<in> set rest. is_endpoint x \<longrightarrow> 7 \<le> length x"
    and "unat (iface ! 4) \<le> length (filter is_endpoint rest)" "unat (iface ! 4) \<le> 16"
    and "length (d_ep_configs (u_devs u dev)) = 16"
    and "NewClassDriver abi dev (iface_of iface) u = (u1, drv)" "drv \<noteq> 0"
  shows "\<exists>u' err. InitializePhase2 abi dev buf len u = Some (u', err) \<and>
    (let d' = u_devs u' dev; n = unat (iface ! 4); eps = map ep_of (take n (filter is_endpoint rest))
     in d_initialize_phase d' = 3 \<and> d_num_ep_configs d' = int n \<and> take n (d_ep_configs d') = eps \<and>
        d_class_drivers d' = assign_drivers drv eps (d_class_drivers (u_devs u dev)))"
proof -
  let ?n = "unat (iface ! 4)"
  let ?eps = "map ep_of (take ?n (filter is_endpoint rest))"
  note find = find_interface_configures [OF assms(1,4-12), unfolded Let_def]
  note keep = NewClassDriver_keeps [OF assms(11)]
  have at: "descs_at (u_dma u) buf (conf # skipped @ iface # rest)" using assms(1) unfolding reader_at_def by (rule conjunct1)
  then have "1 < length conf" by simp
  from bytes_at(2) [OF at this] have "u_dma u (buf + 1) = conf ! 1" by simp
  then have conf: "DescriptorDynamicCast kConfigurationDescriptorType (u_dma u) buf = buf"
    using assms(3) by (simp add: DescriptorDynamicCast_def)
  define u2 where "u2 = update_dev dev (\<lambda>d. d\<lparr>d_initialize_phase := 3\<rparr>)
    (update_dev dev (\<lambda>d. d\<lparr>d_num_ep_configs := int ?n, d_ep_configs := put_configs 0 ?eps (d_ep_configs d),
       d_class_drivers := assign_drivers drv ?eps (d_class_drivers d)\<rparr>) u1)"
  define v where "v = cd_configuration_value (ConfigurationDescriptor_at (u_dma u) buf)"
  have run: "InitializePhase2 abi dev buf len u = Some (SetConfiguration dev kDefaultControlPipeID v u2)"
    using assms(2,12) find keep conf by (simp add: InitializePhase2_def Let_def v_def u2_def update_dev_def)
  obtain u' err where u': "SetConfiguration dev kDefaultControlPipeID v u2 = (u', err)"
    by (cases "SetConfiguration dev kDefaultControlPipeID v u2")
  then have "configuration (u_devs u' dev) = configuration (u_devs u2 dev)"
    using ControlOut_configuration [of dev kDefaultControlPipeID _ 0 0 0 u2 dev] by (simp add: SetConfiguration_def Let_def)
      (metis fst_conv)
  moreover have "length ?eps = ?n" using assms(8) by simp
  ultimately show ?thesis using run u' assms(10) keep
    by (simp add: configuration_def u2_def update_dev_def put_configs_def Let_def)
qed

text \<open>A boot keyboard's descriptors behind those of a mass storage interface.\<close>

definition example_descs :: "u8 list list" where
  "example_descs =
    [[9, 2, 48, 0, 2, 1, 0, 160, 50], [9, 4, 0, 0, 1, 8, 6, 80, 0], [7, 5, 0x81, 2, 0, 2, 0],
     [9, 4, 1, 0, 1, 3, 1, 1, 0], [9, 33, 17, 1, 0, 1, 34, 63, 0], [7, 5, 0x83, 3, 8, 0, 10]]"

definition example_memory :: "u64 \<Rightarrow> u8" where
  "example_memory = bytes_mem 0x1000 (concat example_descs)"

lemma example_reader: "reader_at example_memory 0x1000 50 0x1000 example_descs"
  unfolding example_memory_def by (rule reader_at_bytes_mem) (simp_all add: example_descs_def)

definition example_usb :: Usb where
  "example_usb = \<lparr>u_ptr = 0x10000000, u_blocks = (\<lambda>_. 0), u_rings = (\<lambda>_. empty_Ring), u_devs = (\<lambda>_. new_Device 1 1),
     u_hids = (\<lambda>_. new_Hid KeyboardDriver 0 0), u_dma = example_memory, u_doorbells = [], u_keyboard_observer = True,
     u_mouse_observer = True, u_events = []\<rparr>"

definition example_abi :: Abi where
  "example_abi = \<lparr>memory_pool = 0x10000000, sizeof_Ring = 32, sizeof_Device = 3200, sizeof_HIDKeyboardDriver = 2240,
     sizeof_HIDMouseDriver = 2240, offset_ctx = 640, offset_input_ctx = 1664, offset_dev_buf = 136, offset_hid_buf = 32\<rparr>"

theorem InitializePhase2_configures_witness:
  "\<exists>u' err. InitializePhase2 example_abi 0x2000 0x1000 50 example_usb = Some (u', err) \<and>
    d_num_ep_configs (u_devs u' 0x2000) = 1 \<and>
    take 1 (d_ep_configs (u_devs u' 0x2000)) =
      [\<lparr>cfg_ep_id = 7, cfg_ep_type = kInterrupt, cfg_max_packet_size = 8, cfg_interval = 10\<rparr>]"
proof -
  let ?conf = "example_descs ! 0" and ?skip = "take 2 (drop 1 example_descs)" and ?iface = "example_descs ! 3"
    and ?rest = "drop 4 example_descs"
  have ds: "example_descs = ?conf # ?skip @ ?iface # ?rest" by (simp add: example_descs_def)
  from example_reader have at: "reader_at (u_dma example_usb) 0x1000 50 0x1000 (?conf # ?skip @ ?iface # ?rest)"
    unfolding ds [symmetric] by (simp add: example_usb_def)
  have alloc: "AllocMem 0x10000000 2240 0 0 0x10000000 = (0x100008c0, Some 0x10000000)" by code_simp
  have iface: "iface_of ?iface = \<lparr>id_length = 9, id_interface_number = 1, id_alternate_setting = 0, id_num_endpoints = 1,
      id_interface_class = 3, id_interface_sub_class = 1, id_interface_protocol = 1, id_interface_id = 0\<rparr>"
    by (simp add: iface_of_def example_descs_def)
  obtain u1 where drv: "NewClassDriver example_abi 0x2000 (iface_of ?iface) example_usb = (u1, 0x10000000)"
    unfolding iface using alloc
    by (simp add: NewClassDriver_def new_HidDriver_def example_usb_def example_abi_def Let_def)
  have skip: "\<forall>x \<in> set ?skip. x ! 1 = kInterfaceDescriptorType \<longrightarrow> 9 \<le> length x \<and> \<not> supported (iface_of x)" by code_simp
  have "\<exists>u' err. InitializePhase2 example_abi 0x2000 0x1000 50 example_usb = Some (u', err) \<and>
    (let d' = u_devs u' 0x2000; n = unat (?iface ! 4); eps = map ep_of (take n (filter is_endpoint ?rest))
     in d_initialize_phase d' = 3 \<and> d_num_ep_configs d' = int n \<and> take n (d_ep_configs d') = eps \<and>
        d_class_drivers d' = assign_drivers 0x10000000 eps (d_class_drivers (u_devs example_usb 0x2000)))"
    by (rule InitializePhase2_configures [OF at _ _ skip _ _ _ _ _ _ drv]; (code_simp | simp add: example_usb_def new_Device_def))
  then obtain u' err where r: "InitializePhase2 example_abi 0x2000 0x1000 50 example_usb = Some (u', err)"
    "d_num_ep_configs (u_devs u' 0x2000) = int (unat (?iface ! 4))"
    "take (unat (?iface ! 4)) (d_ep_configs (u_devs u' 0x2000)) = map ep_of (take (unat (?iface ! 4)) (filter is_endpoint ?rest))"
    unfolding Let_def by blast
  have n: "unat (?iface ! 4) = 1" by code_simp
  have e: "map ep_of (take 1 (filter is_endpoint ?rest)) =
      [\<lparr>cfg_ep_id = 7, cfg_ep_type = kInterrupt, cfg_max_packet_size = 8, cfg_interval = 10\<rparr>]" by code_simp
  show ?thesis using r unfolding n e by auto
qed

text \<open>
  Reading on for a descriptor of a type ends, with the descriptor or with null, in every
  buffer whose length bytes are at least 2 and agree with the descriptors; on a
  descriptor with the length 0 it never ends.
\<close>

lemma reader_ends:
  "(reader_at mem buf len p (d # ds) \<longrightarrow> reader_Next_as k mem buf len p \<noteq> None) \<and>
   (mem p = 0 \<and> p < buf + of_int len \<and> p \<noteq> 0 \<and> mem (p + 1) \<noteq> k \<longrightarrow> reader_Next_as k mem buf len p = None)"
proof (intro conjI impI)
  assume at: "reader_at mem buf len p (d # ds)"
  show "reader_Next_as k mem buf len p \<noteq> None"
  proof (cases "\<exists>x \<in> set ds. x ! 1 = k")
    case True
    from split_list_first_prop [OF this] obtain xs e es where
      "ds = xs @ e # es" "e ! 1 = k" "\<forall>x \<in> set xs. x ! 1 \<noteq> k" by blast
    with Next_as_found [of mem buf len p d xs e es k] at show ?thesis by auto
  next
    case False
    then have "\<forall>x \<in> set ds. x ! 1 \<noteq> k" by blast
    from Next_as_absent [OF at this] show ?thesis by auto
  qed
qed (use Next_as_stuck in blast)

lemma reader_ends_witness:
  "reader_Next_as 4 example_memory 0x1000 50 0x1000 \<noteq> None \<and> reader_Next_as 4 (\<lambda>_. 0) 0x1000 48 0x1000 = None"
proof -
  have "hd example_descs # tl example_descs = example_descs" by (simp add: example_descs_def)
  with example_reader have at: "reader_at example_memory 0x1000 50 0x1000 (hd example_descs # tl example_descs)" by (simp only:)
  have stuck: "(0 :: u8) = 0 \<and> (0x1000 :: u64) < 0x1000 + of_int 48 \<and> (0x1000 :: u64) \<noteq> 0 \<and> (0 :: u8) \<noteq> 4" by code_simp
  show ?thesis
    using at stuck
      reader_ends [where mem = example_memory and buf = "0x1000" and len = 50 and p = "0x1000" and k = 4
        and d = "hd example_descs" and ds = "tl example_descs"]
      reader_ends [where mem = "\<lambda>_. 0" and buf = "0x1000" and len = 48 and p = "0x1000" and k = 4] by blast
qed

end
