(* ===== verification/Acpi.thy ===== *)
theory Acpi
  imports Kernel_Prelude "HOL-Library.Monad_Syntax"
begin

text \<open>
  The ACPI tables and the power management timer: \<open>kernel/acpi.hpp\<close> and \<open>acpi.cpp\<close>.  Memory is
  a function from addresses to bytes; a table is the address of its first byte.  The values of
  the timer register are a parameter, one for each time the driver reads it.
\<close>

section \<open>Reading tables\<close>

definition read_bytes :: "(u64 \<Rightarrow> u8) \<Rightarrow> u64 \<Rightarrow> nat \<Rightarrow> u8 list" where
  "read_bytes mem a n = map (\<lambda>i. mem (a + of_nat i)) [0..<n]"

definition SumBytes :: "(u64 \<Rightarrow> u8) \<Rightarrow> u64 \<Rightarrow> nat \<Rightarrow> u8" where
  "SumBytes mem a bytes = fold (\<lambda>i sum. sum + mem (a + of_nat i)) [0..<bytes] 0"

text \<open>\<open>strncmp\<close> gives 0: the first \<open>n\<close> characters agree, or those up to a common end.\<close>

fun same_chars :: "nat \<Rightarrow> u8 list \<Rightarrow> u8 list \<Rightarrow> bool" where
  "same_chars (Suc n) (x # xs) (y # ys) \<longleftrightarrow> x = y \<and> (x = 0 \<or> same_chars n xs ys)"
| "same_chars n xs ys \<longleftrightarrow> n = 0"

definition chars :: "string \<Rightarrow> u8 list" where
  "chars s = map of_char s @ [0]"

text \<open>The members of the structures the code reads, with their offsets.\<close>

definition revision :: "(u64 \<Rightarrow> u8) \<Rightarrow> u64 \<Rightarrow> u8" where
  "revision mem rsdp = mem (rsdp + 15)"

definition xsdt_address :: "(u64 \<Rightarrow> u8) \<Rightarrow> u64 \<Rightarrow> u64" where
  "xsdt_address mem rsdp = le_word (read_bytes mem (rsdp + 24) 8)"

definition table_length :: "(u64 \<Rightarrow> u8) \<Rightarrow> u64 \<Rightarrow> u32" where
  "table_length mem header = le_word (read_bytes mem (header + 4) 4)"

definition sizeof_DescriptionHeader :: nat where "sizeof_DescriptionHeader = 36"

definition pm_tmr_blk :: "(u64 \<Rightarrow> u8) \<Rightarrow> u64 \<Rightarrow> u32" where
  "pm_tmr_blk mem fadt = le_word (read_bytes mem (fadt + 76) 4)"

definition fadt_flags :: "(u64 \<Rightarrow> u8) \<Rightarrow> u64 \<Rightarrow> u32" where
  "fadt_flags mem fadt = le_word (read_bytes mem (fadt + 112) 4)"

definition RSDP_IsValid :: "(u64 \<Rightarrow> u8) \<Rightarrow> u64 \<Rightarrow> bool" where
  "RSDP_IsValid mem rsdp \<longleftrightarrow>
    same_chars 8 (read_bytes mem rsdp 8) (chars ''RSD PTR '') \<and> revision mem rsdp = 2 \<and>
    SumBytes mem rsdp 20 = 0 \<and> SumBytes mem rsdp 36 = 0"

definition DescriptionHeader_IsValid :: "(u64 \<Rightarrow> u8) \<Rightarrow> u64 \<Rightarrow> string \<Rightarrow> bool" where
  "DescriptionHeader_IsValid mem header expected_signature \<longleftrightarrow>
    same_chars 4 (read_bytes mem header 4) (chars expected_signature) \<and>
    SumBytes mem header (unat (table_length mem header)) = 0"

definition XSDT_entry :: "(u64 \<Rightarrow> u8) \<Rightarrow> u64 \<Rightarrow> nat \<Rightarrow> u64" where
  "XSDT_entry mem xsdt i = le_word (read_bytes mem (xsdt + of_nat sizeof_DescriptionHeader + 8 * of_nat i) 8)"

definition XSDT_Count :: "(u64 \<Rightarrow> u8) \<Rightarrow> u64 \<Rightarrow> u64" where
  "XSDT_Count mem xsdt = (ucast (table_length mem xsdt) - of_nat sizeof_DescriptionHeader) div 8"

text \<open>The address of the FADT, or \<open>None\<close> where the kernel ends by \<open>exit\<close>.\<close>

definition acpi_Initialize :: "(u64 \<Rightarrow> u8) \<Rightarrow> u64 \<Rightarrow> u64 option" where
  "acpi_Initialize mem rsdp =
    (if \<not> RSDP_IsValid mem rsdp then None
     else
       let xsdt = xsdt_address mem rsdp in
       if \<not> DescriptionHeader_IsValid mem xsdt ''XSDT'' then None
       else find (\<lambda>entry. DescriptionHeader_IsValid mem entry ''FACP'')
              (map (XSDT_entry mem xsdt) [0..<unat (XSDT_Count mem xsdt)]))"

section \<open>Waiting\<close>

definition kPMTimerFreq :: u64 where "kPMTimerFreq = 3579545"

text \<open>
  \<open>reads\<close> are the values of the timer, in the order of the reads.  The result is the number of
  the read after which the function returns.
\<close>

definition WaitMilliseconds :: "u32 \<Rightarrow> (nat \<Rightarrow> u32) \<Rightarrow> u64 \<Rightarrow> nat option" where
  "WaitMilliseconds flags reads msec =
    (let pm_timer_32 = (drop_bit 8 flags AND 1 \<noteq> 0);
         start = reads 0;
         end0 = ucast (ucast start + kPMTimerFreq * msec div 1000);
         end1 = (if \<not> pm_timer_32 then end0 AND 0x00ffffff else end0)
     in do { n \<leftarrow> (if end1 < start then busy_wait reads (\<lambda>v. v \<ge> start) 1 \<bind> (\<lambda>n. Some (n + 1)) else Some 1);
             busy_wait reads (\<lambda>v. v < end1) n })"

section \<open>Checksums\<close>

lemma SumBytes_sum_list: "SumBytes mem a n = sum_list (read_bytes mem a n)"
proof -
  have "fold (\<lambda>i sum. sum + mem (a + of_nat i)) xs s = s + sum_list (map (\<lambda>i. mem (a + of_nat i)) xs)" for xs s
    by (induction xs arbitrary: s) (simp_all add: ac_simps)
  then show ?thesis by (simp add: SumBytes_def read_bytes_def)
qed

lemma find_SomeD: "find P xs = Some x \<Longrightarrow> x \<in> set xs \<and> P x"
  by (induction xs) (auto split: if_splits)

lemma acpi_Initialize_finds:
  "acpi_Initialize mem rsdp = Some fadt \<Longrightarrow>
     RSDP_IsValid mem rsdp \<and> DescriptionHeader_IsValid mem fadt ''FACP'' \<and>
     fadt \<in> set (map (XSDT_entry mem (xsdt_address mem rsdp)) [0..<unat (XSDT_Count mem (xsdt_address mem rsdp))])"
  using find_SomeD unfolding acpi_Initialize_def Let_def by (fastforce split: if_splits)

section \<open>How long the driver waits\<close>

lemma busy_wait_returns:
  "k \<le> n \<Longrightarrow> (\<And>i. k \<le> i \<Longrightarrow> i < n \<Longrightarrow> waiting (reads i)) \<Longrightarrow> \<not> waiting (reads n) \<Longrightarrow>
     busy_wait reads waiting k = Some n"
proof (induction "n - k" arbitrary: k)
  case 0
  then show ?case by (subst busy_wait.simps) simp
next
  case (Suc m)
  have "busy_wait reads waiting (k + 1) = Some n"
    by (rule Suc.hyps(1)) (use Suc.hyps(2) Suc.prems in auto)
  then show ?case using Suc.hyps(2) Suc.prems by (subst busy_wait.simps) simp
qed

lemma first_from:
  fixes k m :: nat
  assumes "k \<le> m" "Q m"
  obtains n where "k \<le> n" "Q n" "\<And>i. k \<le> i \<Longrightarrow> i < n \<Longrightarrow> \<not> Q i"
proof
  let ?n = "LEAST n. k \<le> n \<and> Q n"
  have "k \<le> ?n \<and> Q ?n" by (rule LeastI [of _ m]) (use assms in simp)
  then show "k \<le> ?n" "Q ?n" by simp_all
  show "\<not> Q i" if "k \<le> i" "i < ?n" for i using not_less_Least [OF that(2)] that(1) by simp
qed

text \<open>A counter that is read again and again: every read is later, but by at most \<open>s\<close> ticks.\<close>

definition ticking :: "(nat \<Rightarrow> nat) \<Rightarrow> nat \<Rightarrow> bool" where
  "ticking t s \<longleftrightarrow> t 0 = 0 \<and> (\<forall>k. t k < t (k + 1) \<and> t (k + 1) \<le> t k + s)"

lemma ticking_reaches: "ticking t s \<Longrightarrow> k \<le> t k"
proof (induction k)
  case (Suc k)
  then have "k \<le> t k" "t k < t (k + 1)" by (simp_all add: ticking_def)
  then show ?case by simp
qed simp

lemma ticking_first:
  assumes "ticking t s" "0 < k"
  obtains n where "k \<le> n" "d \<le> t n" "\<And>i. k \<le> i \<Longrightarrow> i < n \<Longrightarrow> t i < d" "t n \<le> max d (t (k - 1)) + s"
proof -
  have "d \<le> t (max k d)" using ticking_reaches [OF assms(1), of "max k d"] by simp
  then obtain n where n: "k \<le> n" "d \<le> t n" "\<And>i. k \<le> i \<Longrightarrow> i < n \<Longrightarrow> \<not> d \<le> t i"
    using first_from [of k "max k d" "\<lambda>n. d \<le> t n"] by auto
  have "t n \<le> t (n - 1) + s" using assms n(1) by (auto simp: ticking_def dest: spec [of _ "n - 1"])
  moreover have "t (n - 1) \<le> max d (t (k - 1))"
  proof (cases "n = k")
    case False
    then show ?thesis using n(1) n(3) [of "n - 1"] assms(2) by fastforce
  qed simp
  ultimately show thesis using that n by (meson add_le_mono1 le_trans not_le)
qed

lemma counter_wait:
  fixes P start d s :: nat and t :: "nat \<Rightarrow> nat" and reads :: "nat \<Rightarrow> u32"
  defines "E \<equiv> (start + d) mod P"
  assumes P: "P \<le> 2 ^ 32" "start < P" "d < P"
    and t: "ticking t s"
    and reads: "\<And>k. unat (reads k) = (start + t k) mod P"
    and fast: "E + s < P" "E < start \<Longrightarrow> s \<le> start \<and> 2 * s \<le> P"
  shows "\<exists>n. (if E < start then busy_wait reads (\<lambda>v. start \<le> unat v) 1 \<bind> (\<lambda>n. Some (n + 1)) else Some 1)
      \<bind> busy_wait reads (\<lambda>v. unat v < E) = Some n \<and> d \<le> t n \<and> t n \<le> d + 2 * s"
proof (cases "start + d < P")
  case True
  then have E: "E = start + d" by (simp add: E_def)
  obtain n where n: "1 \<le> n" "d \<le> t n" "\<And>i. 1 \<le> i \<Longrightarrow> i < n \<Longrightarrow> t i < d" "t n \<le> max d (t 0) + s"
    using ticking_first [OF t, of 1 d] by auto
  have t0: "t 0 = 0" using t by (simp add: ticking_def)
  have "busy_wait reads (\<lambda>v. unat v < E) 1 = Some n"
  proof (rule busy_wait_returns [OF n(1)])
    show "unat (reads i) < E" if "1 \<le> i" "i < n" for i
      using n(3) [OF that] True E by (simp add: reads)
    show "\<not> unat (reads n) < E" using n(2, 4) t0 fast(1) E by (simp add: reads)
  qed
  then show ?thesis using n t0 E by (intro exI [of _ n]) simp
next
  case False
  then have E: "E = start + d - P" "E < start"
    using P by (simp_all add: E_def le_mod_geq)
  then have s: "s \<le> start" "2 * s \<le> P" using fast(2) by auto
  have t0: "t 0 = 0" using t by (simp add: ticking_def)
  obtain m where m: "1 \<le> m" "P - start \<le> t m" "\<And>i. 1 \<le> i \<Longrightarrow> i < m \<Longrightarrow> t i < P - start" "t m \<le> max (P - start) (t 0) + s"
    using ticking_first [OF t, of 1 "P - start"] by auto
  have tm: "t (m - 1) < P - start" using m(1) m(3) [of "m - 1"] t0 P(2) by (cases "m = 1") auto
  have "t m \<le> t (m - 1) + s" using t m(1) by (auto simp: ticking_def dest: spec [of _ "m - 1"])
  then have tm': "start + t m < P + s" using tm by simp
  have wrapped: "unat (reads i) = start + t i - P" if "P \<le> start + t i" "start + t i < 2 * P" for i
    using that by (simp add: reads mod_if)
  have 1: "busy_wait reads (\<lambda>v. start \<le> unat v) 1 = Some m"
  proof (rule busy_wait_returns [OF m(1)])
    show "start \<le> unat (reads i)" if "1 \<le> i" "i < m" for i
      using m(3) [OF that] by (simp add: reads)
    show "\<not> start \<le> unat (reads m)"
      using wrapped [of m] m(2) tm' s P(2) by simp
  qed
  obtain n where n: "m + 1 \<le> n" "d \<le> t n" "\<And>i. m + 1 \<le> i \<Longrightarrow> i < n \<Longrightarrow> t i < d" "t n \<le> max d (t m) + s"
    using ticking_first [OF t, of "m + 1" d] by auto
  have mono: "t i \<le> t j" if "i \<le> j" for i j
    using lift_Suc_mono_le [of t, OF _ that] t by (simp add: ticking_def less_imp_le)
  have after: "P \<le> start + t i" if "m \<le> i" for i using mono [OF that] m(2) by simp
  have 2: "busy_wait reads (\<lambda>v. unat v < E) (m + 1) = Some n"
  proof (rule busy_wait_returns [OF n(1)])
    show "unat (reads i) < E" if "m + 1 \<le> i" "i < n" for i
    proof -
      have "start + t i < start + d" "P \<le> start + t i" using n(3) [OF that] after [of i] that by simp_all
      then show ?thesis using wrapped [of i] E(1) P(2, 3) by linarith
    qed
    have "P \<le> start + t n" "start + d \<le> start + t n" using after [of n] n(1, 2) by simp_all
    moreover have "start + t n < 2 * P"
      using n(4) tm' s(2) E(1) fast(1) False by (cases "d \<le> t m") simp_all
    ultimately show "\<not> unat (reads n) < E" using wrapped [of n] E(1) by linarith
  qed
  have "t n \<le> d + 2 * s" using n(4) tm' E(1) False by simp
  then show ?thesis using 1 2 n(2) E(2) by (intro exI [of _ n]) simp
qed

lemma unat_ticks:
  assumes "3579545 * unat msec div 1000 < 2 ^ 32"
  shows "unat (kPMTimerFreq * msec div 1000) = 3579545 * unat msec div 1000"
proof -
  have "unat kPMTimerFreq * unat msec < 2 ^ 64" using assms by (simp add: kPMTimerFreq_def)
  then have "unat (kPMTimerFreq * msec) = 3579545 * unat msec"
    by (subst unat_mult_lem [THEN iffD1]) (simp_all add: kPMTimerFreq_def)
  then show ?thesis by (simp add: unat_div)
qed

lemma unat_end:
  fixes x :: u64 and start :: u32
  assumes "unat x < 2 ^ 32"
  shows "unat (ucast (ucast start + x) :: u32) = (unat start + unat x) mod 2 ^ 32"
proof -
  have start: "unat (ucast start :: u64) = unat start"
    using unsigned_less [of start, where 'a = nat] by (simp add: unsigned_ucast_eq take_bit_nat_eq_self)
  have "unat start < 2 ^ 32" using unsigned_less [of start, where 'a = nat] by simp
  then have "unat (ucast start :: u64) + unat x < 2 ^ 64" using assms start by simp
  then have "unat (ucast start + x) = unat start + unat x"
    using unat_add_lem [THEN iffD1, of "ucast start" x] start by simp
  then show ?thesis by (simp add: unsigned_ucast_eq take_bit_eq_mod)
qed

lemma unat_mask24: "unat ((w :: u32) AND 0x00ffffff) = unat w mod 2 ^ 24"
proof -
  have "w AND 0x00ffffff = take_bit 24 w" by (simp add: take_bit_eq_mask mask_eq_exp_minus_1)
  then show ?thesis by (simp add: unsigned_take_bit_eq take_bit_eq_mod unat_mod)
qed



text \<open>
  Outside of the assumptions: five seconds are more than a turn of a 24-bit counter, and the
  driver returns after the rest of the division.
\<close>

lemma WaitMilliseconds_more_than_a_turn:
  "WaitMilliseconds 0 (\<lambda>k. of_nat (200000 * k)) 5000 = Some 6"
proof -
  have end1: "(ucast (ucast (0 :: u32) + kPMTimerFreq * 5000 div 1000 :: u64) AND 0x00ffffff :: u32) = 1120509"
    by code_simp
  have 6: "busy_wait (\<lambda>k. of_nat (200000 * k)) (\<lambda>v :: u32. v < 1120509) 1 = Some 6"
  proof (rule busy_wait_returns)
    fix i :: nat
    assume "1 \<le> i" "i < 6"
    then have "i \<in> {1, 2, 3, 4, 5}" by auto
    then show "(of_nat (200000 * i) :: u32) < 1120509" by auto
  qed simp_all
  show ?thesis
    unfolding WaitMilliseconds_def Let_def using end1 6 by simp
qed

end
