(* ===== verification/Input_Devices.thy ===== *)
theory Input_Devices
  imports Layers Usb_Devices
begin

text \<open>
  From the events of the USB drivers to messages: \<open>kernel/keyboard.hpp\<close>, \<open>keyboard.cpp\<close>,
  \<open>mouse.hpp\<close> and \<open>mouse.cpp\<close>.  The two observers the kernel registers work on the desktop of
  \<open>Layers\<close>: the keyboard sends every key to task 1, the mouse moves its layer, drags and
  activates windows and reports to the task of the active window.
\<close>

section \<open>The keyboard\<close>

definition kLShiftBitMask :: u8 where "kLShiftBitMask = 0x02"
definition kRShiftBitMask :: u8 where "kRShiftBitMask = 0x20"
definition kLControlBitMask :: u8 where "kLControlBitMask = 0x01"
definition kRControlBitMask :: u8 where "kRControlBitMask = 0x10"

definition ascii :: "string \<Rightarrow> u8 list" where
  "ascii s = map of_char s"

text \<open>The rows of the tables up to code 143; the rest of the arrays is 0.\<close>

definition keycode_map :: "u8 list" where
  "keycode_map =
    [0, 0, 0, 0] @ ascii ''abcd'' @ ascii ''efghijkl'' @ ascii ''mnopqrst'' @ ascii ''uvwxyz12'' @ ascii ''34567890'' @
    [0x0a, 0x08, 0x08, 0x09] @ ascii '' -=['' @
    ascii '']'' @ [0x5c] @ ascii ''#;'' @ [0x27, 0x60] @ ascii '',.'' @
    ascii ''/'' @ replicate 27 0 @ ascii ''/*-+'' @
    [0x0a] @ ascii ''1234567'' @ ascii ''890.'' @ [0x5c, 0, 0] @ ascii ''='' @
    replicate 32 0 @ [0, 0x5c] @ replicate 118 0"

definition keycode_map_shifted :: "u8 list" where
  "keycode_map_shifted =
    [0, 0, 0, 0] @ ascii ''ABCD'' @ ascii ''EFGHIJKL'' @ ascii ''MNOPQRST'' @ ascii ''UVWXYZ!@'' @ ascii ''#$%^&*()'' @
    [0x0a, 0x08, 0x08, 0x09] @ ascii '' _+{'' @
    ascii ''}|~:'' @ [0x22] @ ascii ''~<>'' @
    ascii ''?'' @ replicate 27 0 @ ascii ''/*-+'' @
    [0x0a] @ ascii ''1234567'' @ ascii ''890.'' @ [0x5c, 0, 0] @ ascii ''='' @
    replicate 32 0 @ [0] @ ascii ''|'' @ replicate 118 0"

definition key_ascii :: "u8 \<Rightarrow> u8 \<Rightarrow> u8" where
  "key_ascii modifier keycode =
    (if modifier AND (kLShiftBitMask OR kRShiftBitMask) \<noteq> 0 then keycode_map_shifted ! unat keycode
     else keycode_map ! unat keycode)"

definition key_message :: "u8 \<Rightarrow> u8 \<Rightarrow> bool \<Rightarrow> Message" where
  "key_message modifier keycode press =
    \<lparr>msg_type = kKeyPush, src_task = 0,
     arg = KeyboardArg modifier keycode (key_ascii modifier keycode) (of_bool press)\<rparr>"

text \<open>The message goes to a task of the desktop's task manager; the error code is ignored.\<close>

definition send_to :: "nat \<Rightarrow> Message \<Rightarrow> Desktop \<Rightarrow> Desktop option" where
  "send_to task msg d = map_option (\<lambda>(tm, e). d\<lparr>tasks := tm\<rparr>) (SendMessage (tasks d) task msg)"

definition keyboard_observer :: "u8 \<Rightarrow> u8 \<Rightarrow> bool \<Rightarrow> Desktop \<Rightarrow> Desktop option" where
  "keyboard_observer modifier keycode press d = send_to 1 (key_message modifier keycode press) d"

section \<open>The mouse cursor\<close>

definition kMouseCursorWidth :: nat where "kMouseCursorWidth = 15"
definition kMouseCursorHeight :: nat where "kMouseCursorHeight = 24"
definition kMouseTransparentColor :: PixelColor where "kMouseTransparentColor = PixelColor 0 0 1"

definition mouse_cursor_shape :: "string list" where
  "mouse_cursor_shape =
    [''@              '',
     ''@@             '',
     ''@.@            '',
     ''@..@           '',
     ''@...@          '',
     ''@....@         '',
     ''@.....@        '',
     ''@......@       '',
     ''@.......@      '',
     ''@........@     '',
     ''@.........@    '',
     ''@..........@   '',
     ''@...........@  '',
     ''@............@ '',
     ''@......@@@@@@@@'',
     ''@......@       '',
     ''@....@@.@      '',
     ''@...@ @.@      '',
     ''@..@   @.@     '',
     ''@.@    @.@     '',
     ''@@      @.@    '',
     ''@       @.@    '',
     ''         @.@   '',
     ''         @@@   '']"

definition cursor_color :: "char \<Rightarrow> PixelColor" where
  "cursor_color c =
    (if c = CHR ''@'' then PixelColor 0 255 255 else if c = CHR ''.'' then PixelColor 0 0 0 else kMouseTransparentColor)"

fun write_points :: "Vector2D \<Rightarrow> (nat \<times> nat) list \<Rightarrow> Window \<Rightarrow> Window option" where
  "write_points position [] w = Some w"
| "write_points position ((dy, dx) # ps) w =
    do { w1 \<leftarrow> Window_Write w (position + Vec (int dx) (int dy)) (cursor_color (mouse_cursor_shape ! dy ! dx));
         write_points position ps w1 }"

definition DrawMouseCursor :: "Vector2D \<Rightarrow> Window \<Rightarrow> Window option" where
  "DrawMouseCursor position w =
    write_points position (concat (map (\<lambda>dy. map (\<lambda>dx. (dy, dx)) [0..<kMouseCursorWidth]) [0..<kMouseCursorHeight])) w"

section \<open>Messages of the mouse\<close>

record Mouse =
  mouse_layer_id :: nat
  mouse_position :: Vector2D
  drag_layer_id :: nat
  previous_buttons :: u8

definition new_Mouse :: "nat \<Rightarrow> Mouse" where
  "new_Mouse i = \<lparr>mouse_layer_id = i, mouse_position = Vec 0 0, drag_layer_id = 0, previous_buttons = 0\<rparr>"

definition FindActiveLayerTask :: "Desktop \<Rightarrow> Layer option \<times> nat" where
  "FindActiveLayerTask d =
    (let act = active_layer d in
     if act = 0 then (None, 0)
     else case FindLayer (layers d) act of
       None \<Rightarrow> (None, 0)
     | Some layer \<Rightarrow> (case layer_task_map d act of None \<Rightarrow> (Some layer, 0) | Some task \<Rightarrow> (Some layer, task)))"

text \<open>\<open>(diff << i) & 1\<close> on the \<open>int\<close> that \<open>diff\<close> is.\<close>

fun button_messages :: "Vector2D \<Rightarrow> u8 \<Rightarrow> u32 \<Rightarrow> nat \<Rightarrow> nat list \<Rightarrow> Desktop \<Rightarrow> Desktop option" where
  "button_messages relpos buttons diff task [] d = Some d"
| "button_messages relpos buttons diff task (i # is) d =
    do { d1 \<leftarrow> (if push_bit i diff AND 1 \<noteq> 0
               then send_to task \<lparr>msg_type = kMouseButton, src_task = 0,
                      arg = MouseButtonArg (vx relpos) (vy relpos) (uint (drop_bit i buttons AND 1)) (int i)\<rparr> d
               else Some d);
         button_messages relpos buttons diff task is d1 }"

definition SendMouseMessage :: "Vector2D \<Rightarrow> Vector2D \<Rightarrow> u8 \<Rightarrow> u8 \<Rightarrow> Desktop \<Rightarrow> Desktop option" where
  "SendMouseMessage newpos posdiff buttons previous d =
    (case FindActiveLayerTask d of
       (None, task) \<Rightarrow> Some d
     | (Some layer, task) \<Rightarrow>
         if task = 0 then Some d
         else
           let relpos = newpos - layer_pos layer in
           do { d1 \<leftarrow> (if vx posdiff \<noteq> 0 \<or> vy posdiff \<noteq> 0
                      then send_to task \<lparr>msg_type = kMouseMove, src_task = 0,
                             arg = MouseMoveArg (vx relpos) (vy relpos) (vx posdiff) (vy posdiff) buttons\<rparr> d
                      else Some d);
                if previous \<noteq> buttons
                then button_messages relpos buttons (ucast (previous XOR buttons)) task [0..<8] d1
                else Some d1 })"

definition SendCloseMessage :: "Desktop \<Rightarrow> Desktop option" where
  "SendCloseMessage d =
    (case FindActiveLayerTask d of
       (None, task) \<Rightarrow> Some d
     | (Some layer, task) \<Rightarrow>
         if task = 0 then Some d
         else send_to task \<lparr>msg_type = kWindowClose, src_task = 0, arg = WindowCloseArg (layer_num layer)\<rparr> d)"

section \<open>The mouse\<close>

definition Mouse_SetPosition :: "Vector2D \<Rightarrow> Mouse \<times> Desktop \<Rightarrow> (Mouse \<times> Desktop) option" where
  "Mouse_SetPosition position s =
    (case s of (m, d) \<Rightarrow>
       do { lm \<leftarrow> LM_Move (windows d) (mouse_layer_id m) position (layers d);
            Some (m\<lparr>mouse_position := position\<rparr>, d\<lparr>layers := lm\<rparr>) })"

text \<open>
  The press of the left button: the result has the layer to close, or 0.  A layer that is under
  the cursor and can be dragged becomes active, otherwise none is active any more.
\<close>

definition left_pressed :: "u8 list \<Rightarrow> FreeType \<Rightarrow> Mouse \<times> Desktop \<Rightarrow> (Mouse \<times> Desktop \<times> nat) option" where
  "left_pressed hankaku ft s =
    (case s of (m, d) \<Rightarrow>
       do { found \<leftarrow> FindLayerByPosition (layers d) (windows d) (mouse_position m) (mouse_layer_id m);
            case found of
              None \<Rightarrow> do { d1 \<leftarrow> Activate hankaku ft 0 d; Some (m, d1, 0) }
            | Some layer \<Rightarrow>
                if layer_draggable layer then do {
                  k \<leftarrow> layer_window layer;
                  w \<leftarrow> windows d k;
                  let region = GetWindowRegion w (mouse_position m - layer_pos layer);
                  d1 \<leftarrow> Activate hankaku ft (layer_num layer) d;
                  Some (if region = kTitleBar then m\<lparr>drag_layer_id := layer_num layer\<rparr> else m, d1,
                        if region = kCloseButton then layer_num layer else 0) }
                else do { d1 \<leftarrow> Activate hankaku ft 0 d; Some (m, d1, 0) } })"

definition left_button ::
  "u8 list \<Rightarrow> FreeType \<Rightarrow> bool \<Rightarrow> bool \<Rightarrow> Vector2D \<Rightarrow> Mouse \<times> Desktop \<Rightarrow> (Mouse \<times> Desktop \<times> nat) option" where
  "left_button hankaku ft previous_left left posdiff s =
    (case s of (m, d) \<Rightarrow>
       if \<not> previous_left \<and> left then left_pressed hankaku ft (m, d)
       else if previous_left \<and> left then
         if drag_layer_id m > 0
         then do { lm \<leftarrow> LM_MoveRelative (windows d) (drag_layer_id m) posdiff (layers d);
                   Some (m, d\<lparr>layers := lm\<rparr>, 0) }
         else Some (m, d, 0)
       else if previous_left \<and> \<not> left then Some (m\<lparr>drag_layer_id := 0\<rparr>, d, 0)
       else Some (m, d, 0))"

definition report ::
  "Vector2D \<Rightarrow> Vector2D \<Rightarrow> u8 \<Rightarrow> u8 \<Rightarrow> nat \<Rightarrow> nat \<Rightarrow> Desktop \<Rightarrow> Desktop option" where
  "report newpos posdiff buttons previous drag close d =
    (if drag = 0
     then if close = 0 then SendMouseMessage newpos posdiff buttons previous d else SendCloseMessage d
     else Some d)"

definition Mouse_OnInterrupt ::
  "u8 list \<Rightarrow> FreeType \<Rightarrow> Vector2D \<Rightarrow> u8 \<Rightarrow> int \<Rightarrow> int \<Rightarrow> Mouse \<times> Desktop \<Rightarrow> (Mouse \<times> Desktop) option" where
  "Mouse_OnInterrupt hankaku ft screen buttons displacement_x displacement_y s =
    (case s of (m, d) \<Rightarrow>
       let oldpos = mouse_position m;
           newpos = ElementMin (oldpos + Vec displacement_x displacement_y) (screen + Vec (- 1) (- 1));
           m1 = m\<lparr>mouse_position := ElementMax newpos (Vec 0 0)\<rparr>;
           posdiff = mouse_position m1 - oldpos
       in do {
         lm \<leftarrow> LM_Move (windows d) (mouse_layer_id m) (mouse_position m1) (layers d);
         (m2, d2, close) \<leftarrow> left_button hankaku ft (previous_buttons m AND 1 \<noteq> 0) (buttons AND 1 \<noteq> 0) posdiff
                            (m1, d\<lparr>layers := lm\<rparr>);
         d3 \<leftarrow> report newpos posdiff buttons (previous_buttons m) (drag_layer_id m2) close d2;
         Some (m2\<lparr>previous_buttons := buttons\<rparr>, d3) })"

text \<open>\<open>win\<close> is the number of the new window.\<close>

definition InitializeMouse :: "nat \<Rightarrow> nat \<Rightarrow> Desktop \<Rightarrow> (Mouse \<times> Desktop) option" where
  "InitializeMouse win format d =
    do { w0 \<leftarrow> new_Window (int kMouseCursorWidth) (int kMouseCursorHeight) format;
         w \<leftarrow> DrawMouseCursor (Vec 0 0) (SetTransparentColor (Some kMouseTransparentColor) w0);
         let (lm, layer_id) = NewLayer (layers d);
         let d1 = d\<lparr>layers := update_layer layer_id (SetWindow_layer win) lm, windows := (windows d)(win \<mapsto> w)\<rparr>;
         (m, d2) \<leftarrow> Mouse_SetPosition (Vec 200 200) (new_Mouse layer_id, d1);
         Some (m, SetMouseLayer layer_id (d2\<lparr>layers := UpDown (mouse_layer_id m) 2147483647 (layers d2)\<rparr>)) }"

text \<open>What the observers of the two drivers do with an event.\<close>

fun on_hid_event :: "u8 list \<Rightarrow> FreeType \<Rightarrow> Vector2D \<Rightarrow> HidEvent \<Rightarrow> Mouse \<times> Desktop \<Rightarrow> (Mouse \<times> Desktop) option" where
  "on_hid_event hankaku ft screen (KeyPush modifier keycode press) (m, d) =
    map_option (\<lambda>d1. (m, d1)) (keyboard_observer modifier keycode press d)"
| "on_hid_event hankaku ft screen (MouseMove buttons dx dy) s = Mouse_OnInterrupt hankaku ft screen buttons dx dy s"

section \<open>Messages are always sent\<close>

lemma send_to_ok:
  assumes "wf_desktop d"
  shows "\<exists>tm. send_to task msg d = Some (d\<lparr>tasks := tm\<rparr>) \<and> wf_desktop (d\<lparr>tasks := tm\<rparr>)"
proof -
  have "tm_inv (tasks d)" using assms by (simp add: wf_desktop_def)
  from SendMessage_cases [OF this, of task msg] obtain tm e where "SendMessage (tasks d) task msg = Some (tm, e)" "tm_inv tm"
    by blast
  then show ?thesis using assms by (intro exI [of _ tm]) (simp add: send_to_def wf_desktop_def)
qed

lemma button_messages_ok:
  "wf_desktop d \<Longrightarrow>
     \<exists>tm. button_messages relpos buttons diff task is d = Some (d\<lparr>tasks := tm\<rparr>) \<and> wf_desktop (d\<lparr>tasks := tm\<rparr>)"
proof (induction "is" arbitrary: d)
  case Nil
  then show ?case by (intro exI [of _ "tasks d"]) simp
next
  case (Cons i "is")
  let ?msg = "\<lparr>msg_type = kMouseButton, src_task = 0,
    arg = MouseButtonArg (vx relpos) (vy relpos) (uint (drop_bit i buttons AND 1)) (int i)\<rparr>"
  have "\<exists>tm. (if push_bit i diff AND 1 \<noteq> 0 then send_to task ?msg d else Some d) = Some (d\<lparr>tasks := tm\<rparr>) \<and>
      wf_desktop (d\<lparr>tasks := tm\<rparr>)"
  proof (cases "push_bit i diff AND 1 \<noteq> 0")
    case True
    then show ?thesis using send_to_ok [OF Cons.prems, of task ?msg] by simp
  next
    case False
    then show ?thesis using Cons.prems by (intro exI [of _ "tasks d"]) simp
  qed
  then obtain tm where tm: "(if push_bit i diff AND 1 \<noteq> 0 then send_to task ?msg d else Some d) = Some (d\<lparr>tasks := tm\<rparr>)"
    "wf_desktop (d\<lparr>tasks := tm\<rparr>)" by blast
  from Cons.IH [OF tm(2)] tm(1) show ?case by simp
qed

lemma SendMouseMessage_ok:
  assumes "wf_desktop d"
  shows "\<exists>tm. SendMouseMessage newpos posdiff buttons previous d = Some (d\<lparr>tasks := tm\<rparr>) \<and> wf_desktop (d\<lparr>tasks := tm\<rparr>)"
proof -
  obtain lo task where act: "FindActiveLayerTask d = (lo, task)" by (cases "FindActiveLayerTask d")
  show ?thesis
  proof (cases "lo = None \<or> task = 0")
    case True
    then show ?thesis using assms act
      by (intro exI [of _ "tasks d"]) (auto simp: SendMouseMessage_def split: option.split)
  next
    case False
    then obtain layer where lo: "lo = Some layer" by auto
    let ?rel = "newpos - layer_pos layer"
    let ?msg = "\<lparr>msg_type = kMouseMove, src_task = 0,
      arg = MouseMoveArg (vx ?rel) (vy ?rel) (vx posdiff) (vy posdiff) buttons\<rparr>"
    have "\<exists>tm. (if vx posdiff \<noteq> 0 \<or> vy posdiff \<noteq> 0 then send_to task ?msg d else Some d) = Some (d\<lparr>tasks := tm\<rparr>) \<and>
        wf_desktop (d\<lparr>tasks := tm\<rparr>)"
      using send_to_ok [OF assms, of task ?msg] assms by (auto intro: exI [of _ "tasks d"])
    then obtain tm where tm: "(if vx posdiff \<noteq> 0 \<or> vy posdiff \<noteq> 0 then send_to task ?msg d else Some d) = Some (d\<lparr>tasks := tm\<rparr>)"
      "wf_desktop (d\<lparr>tasks := tm\<rparr>)" by blast
    have "SendMouseMessage newpos posdiff buttons previous d =
        (if previous \<noteq> buttons
         then button_messages ?rel buttons (ucast (previous XOR buttons)) task [0..<8] (d\<lparr>tasks := tm\<rparr>)
         else Some (d\<lparr>tasks := tm\<rparr>))"
      using False act lo tm(1) by (simp add: SendMouseMessage_def Let_def)
    then show ?thesis
      using button_messages_ok [OF tm(2), of ?rel buttons "ucast (previous XOR buttons)" task "[0..<8]"] tm(2)
      by (cases "previous = buttons") auto
  qed
qed

lemma SendCloseMessage_ok:
  assumes "wf_desktop d"
  shows "\<exists>tm. SendCloseMessage d = Some (d\<lparr>tasks := tm\<rparr>) \<and> wf_desktop (d\<lparr>tasks := tm\<rparr>)"
proof -
  obtain lo task where act: "FindActiveLayerTask d = (lo, task)" by (cases "FindActiveLayerTask d")
  show ?thesis
  proof (cases "lo = None \<or> task = 0")
    case True
    then show ?thesis using assms act
      by (intro exI [of _ "tasks d"]) (auto simp: SendCloseMessage_def split: option.split)
  next
    case False
    then obtain layer where lo: "lo = Some layer" by auto
    show ?thesis
      using send_to_ok [OF assms, of task "\<lparr>msg_type = kWindowClose, src_task = 0, arg = WindowCloseArg (layer_num layer)\<rparr>"]
        False lo act by (simp add: SendCloseMessage_def)
  qed
qed

section \<open>The state of the mouse\<close>

definition layer_at :: "Desktop \<Rightarrow> nat \<Rightarrow> Vector2D option" where
  "layer_at d i = map_option layer_pos (FindLayer (layers d) i)"

text \<open>
  The desktop is consistent, the layer of the mouse is on top of the stack and where the mouse
  is, the mouse is on the screen, and the active and the dragged layer are visible.
\<close>

definition mouse_inv :: "Vector2D \<Rightarrow> Mouse \<Rightarrow> Desktop \<Rightarrow> bool" where
  "mouse_inv screen m d \<longleftrightarrow>
    wf_desktop d \<and> mouse_layer d = mouse_layer_id m \<and>
    (\<exists>xs. layer_stack (layers d) = xs @ [Some (mouse_layer_id m)]) \<and>
    (\<forall>p \<in> set (layer_stack (layers d)). p \<noteq> Some 0) \<and>
    visible d (mouse_layer_id m) \<and> layer_at d (mouse_layer_id m) = Some (mouse_position m) \<and>
    (0 < active_layer d \<longrightarrow> visible d (active_layer d)) \<and>
    (0 < drag_layer_id m \<longrightarrow> visible d (drag_layer_id m) \<and> drag_layer_id m \<noteq> mouse_layer_id m) \<and>
    in_rect (Vec 0 0) screen (mouse_position m)"

lemma mouse_inv_tasks:
  "mouse_inv screen m d \<Longrightarrow> wf_desktop (d\<lparr>tasks := tm\<rparr>) \<Longrightarrow> mouse_inv screen m (d\<lparr>tasks := tm\<rparr>)"
  by (simp add: mouse_inv_def layer_at_def)

lemma mouse_inv_buttons: "mouse_inv screen (m\<lparr>previous_buttons := b\<rparr>) d = mouse_inv screen m d"
  by (simp add: mouse_inv_def)

text \<open>What moving a layer does to the desktop.\<close>

lemma moved_layers:
  assumes same: "same_layers (update_layer i f (layers d)) lm"
    and f: "\<And>l. layer_num (f l) = layer_num l" "\<And>l. layer_window (f l) = layer_window l"
  shows "layer_stack lm = layer_stack (layers d)"
    "visible (d\<lparr>layers := lm\<rparr>) j = visible d j"
    "layer_at (d\<lparr>layers := lm\<rparr>) j = map_option (\<lambda>l. layer_pos (if j = i then f l else l)) (FindLayer (layers d) j)"
proof -
  have find: "FindLayer lm j = map_option (\<lambda>l. if layer_num l = i then f l else l) (FindLayer (layers d) j)" for j
    using same_layers_find [OF same] FindLayer_update [of f i "layers d", OF f(1)] by simp
  show stack: "layer_stack lm = layer_stack (layers d)"
    using same by (simp add: same_layers_def update_layer_def)
  have "has_window lm j = has_window (layers d) j"
  proof (cases "FindLayer (layers d) j")
    case (Some l)
    then show ?thesis by (cases "layer_num l = i") (simp_all add: has_window_def find f(2))
  qed (simp add: has_window_def find)
  then show "visible (d\<lparr>layers := lm\<rparr>) j = visible d j" by (simp add: visible_def stack)
  show "layer_at (d\<lparr>layers := lm\<rparr>) j = map_option (\<lambda>l. layer_pos (if j = i then f l else l)) (FindLayer (layers d) j)"
    by (cases "FindLayer (layers d) j") (auto simp: layer_at_def find FindLayer_num)
qed

text \<open>What a change of the active layer does.\<close>

lemma same_list_visible:
  assumes "lm_layers (layers d') = lm_layers (layers d)" "set (layer_stack (layers d)) \<subseteq> set (layer_stack (layers d'))"
  shows "visible d i \<Longrightarrow> visible d' i" "layer_at d' i = layer_at d i"
  using assms by (auto simp: visible_def has_window_def FindLayer_def layer_at_def)

lemma Activate_keeps:
  assumes inv: "mouse_inv screen m d" and h: "length hankaku = 4096"
    and a: "a = 0 \<or> visible d a \<and> a \<noteq> mouse_layer_id m"
  shows "\<exists>d'. Activate hankaku ft a d = Some d' \<and> mouse_inv screen m d' \<and> active_layer d' = a \<and>
    (\<forall>i. layer_at d' i = layer_at d i) \<and> (\<forall>i. visible d i \<longrightarrow> visible d' i)"
proof -
  from inv obtain xs where xs: "layer_stack (layers d) = xs @ [Some (mouse_layer_id m)]" by (auto simp: mouse_inv_def)
  have wf: "wf_desktop d" and old: "0 < active_layer d \<longrightarrow> visible d (active_layer d)" and ml: "mouse_layer d = mouse_layer_id m"
    using inv by (simp_all add: mouse_inv_def)
  have keep: "mouse_inv screen m d'"
    if "wf_desktop d'" "active_layer d' = a" "mouse_layer d' = mouse_layer d" "lm_layers (layers d') = lm_layers (layers d)"
      "set (layer_stack (layers d')) = set (layer_stack (layers d))"
      "\<exists>xs. layer_stack (layers d') = xs @ [Some (mouse_layer_id m)]" for d'
  proof -
    have vis: "\<And>i. visible d i \<Longrightarrow> visible d' i" "\<And>i. layer_at d' i = layer_at d i"
      using same_list_visible [of d' d] that(4,5) by simp_all
    then have "0 < a \<longrightarrow> visible d' a" using a by blast
    then show ?thesis using that vis inv by (simp add: mouse_inv_def)
  qed
  consider "a = active_layer d" | "a = 0" | "a \<noteq> active_layer d" "0 < a" by auto
  then show ?thesis
  proof cases
    case 1
    then show ?thesis using inv by (simp add: Activate_def)
  next
    case 2
    from Activate_none [OF wf h old, of ft] obtain d' where
      d': "Activate hankaku ft 0 d = Some d'" "wf_desktop d'" "active_layer d' = 0" "same_layers (layers d) (layers d')"
        "mouse_layer d' = mouse_layer d" by blast
    then have "lm_layers (layers d') = lm_layers (layers d)" "layer_stack (layers d') = layer_stack (layers d)"
      by (simp_all add: same_layers_def)
    with d' keep [of d'] xs 2 same_list_visible [of d' d] show ?thesis by auto
  next
    case 3
    with a have vis: "visible d a" "a \<noteq> mouse_layer_id m" by auto
    have "distinct (layer_stack (layers d))" using wf by (simp add: wf_desktop_def)
    have "removeAll (Some a) (layer_stack (layers d)) = removeAll (Some a) xs @ Some (mouse_layer d) # []"
      using vis(2) xs ml by simp
    from Activate_raise [OF wf h _ 3(2,1) old this, of ft] vis(1) obtain d' where
      d': "Activate hankaku ft a d = Some d'" "wf_desktop d'" "active_layer d' = a"
        "layer_stack (layers d') = removeAll (Some a) xs @ [Some a, Some (mouse_layer d)]"
        "mouse_layer d' = mouse_layer d" "lm_layers (layers d') = lm_layers (layers d)"
      by (auto simp: visible_def)
    have "Some a \<in> set (layer_stack (layers d))" using vis(1) by (simp add: visible_def)
    then have "set (layer_stack (layers d')) = set (layer_stack (layers d))"
      using d'(4) xs ml by auto
    with d' keep [of d'] xs ml same_list_visible [of d' d] show ?thesis by auto
  qed
qed

section \<open>Pressing, dragging, releasing\<close>

lemma find_by_position_ok:
  assumes "\<forall>p \<in> set ps. \<exists>l. deref lm p = Some l \<and> wf_layer wins dst l"
  shows "find_by_position lm wins pos exclude ps = Some None \<or>
    (\<exists>l k w. find_by_position lm wins pos exclude ps = Some (Some l) \<and> Some (layer_num l) \<in> set ps \<and>
      FindLayer lm (layer_num l) = Some l \<and> layer_num l \<noteq> exclude \<and> layer_window l = Some k \<and> wins k = Some w \<and>
      in_rect (layer_pos l) (Window_Size w) pos)"
  using assms
proof (induction ps)
  case (Cons p ps)
  then obtain l where l: "deref lm p = Some l" "wf_layer wins dst l" by auto
  note num = deref_num [OF l(1)]
  show ?case
  proof (cases "layer_num l = exclude \<or> layer_window l = None")
    case True
    then show ?thesis using Cons l by auto
  next
    case False
    then obtain k where k: "layer_window l = Some k" by auto
    then obtain w where w: "wins k = Some w" using l(2) by (auto simp: wf_layer_def)
    show ?thesis using Cons l(1) num False k w by (auto simp: deref_def)
  qed
qed simp

lemma FindLayerByPosition_ok:
  assumes "wf_layers lm wins"
  shows "FindLayerByPosition lm wins pos exclude = Some None \<or>
    (\<exists>l k w. FindLayerByPosition lm wins pos exclude = Some (Some l) \<and> Some (layer_num l) \<in> set (layer_stack lm) \<and>
      FindLayer lm (layer_num l) = Some l \<and> layer_num l \<noteq> exclude \<and> layer_window l = Some k \<and> wins k = Some w \<and>
      in_rect (layer_pos l) (Window_Size w) pos)"
  using find_by_position_ok [of "rev (layer_stack lm)" lm wins "lm_back lm" pos exclude] assms
  by (simp add: FindLayerByPosition_def wf_layers_def)

lemma left_pressed_ok:
  assumes inv: "mouse_inv screen m d" and h: "length hankaku = 4096"
  shows "\<exists>m' d' close. left_pressed hankaku ft (m, d) = Some (m', d', close) \<and> mouse_inv screen m' d' \<and>
    mouse_position m' = mouse_position m \<and> mouse_layer_id m' = mouse_layer_id m"
proof -
  have wf: "wf_layers (layers d) (windows d)" using inv by (simp add: mouse_inv_def wf_desktop_def)
  from Activate_keeps [OF inv h, of 0 ft] obtain d0 where d0: "Activate hankaku ft 0 d = Some d0" "mouse_inv screen m d0"
    by auto
  from FindLayerByPosition_ok [OF wf, of "mouse_position m" "mouse_layer_id m"] show ?thesis
  proof
    assume "FindLayerByPosition (layers d) (windows d) (mouse_position m) (mouse_layer_id m) = Some None"
    then show ?thesis using d0 by (simp add: left_pressed_def)
  next
    assume "\<exists>l k w. FindLayerByPosition (layers d) (windows d) (mouse_position m) (mouse_layer_id m) = Some (Some l) \<and>
      Some (layer_num l) \<in> set (layer_stack (layers d)) \<and> FindLayer (layers d) (layer_num l) = Some l \<and>
      layer_num l \<noteq> mouse_layer_id m \<and> layer_window l = Some k \<and> windows d k = Some w \<and>
      in_rect (layer_pos l) (Window_Size w) (mouse_position m)"
    then obtain l k w where l: "FindLayerByPosition (layers d) (windows d) (mouse_position m) (mouse_layer_id m) = Some (Some l)"
      "Some (layer_num l) \<in> set (layer_stack (layers d))" "FindLayer (layers d) (layer_num l) = Some l"
      "layer_num l \<noteq> mouse_layer_id m" "layer_window l = Some k" "windows d k = Some w" by blast
    show ?thesis
    proof (cases "layer_draggable l")
      case False
      then show ?thesis using d0 l(1) by (simp add: left_pressed_def)
    next
      case True
      have vis: "visible d (layer_num l)" using l by (simp add: visible_def has_window_def)
      from Activate_keeps [OF inv h, of "layer_num l" ft] vis l(4) obtain d1 where
        d1: "Activate hankaku ft (layer_num l) d = Some d1" "mouse_inv screen m d1" "visible d1 (layer_num l)" by auto
      then have "mouse_inv screen (m\<lparr>drag_layer_id := layer_num l\<rparr>) d1" using l(4) by (simp add: mouse_inv_def)
      then show ?thesis using True l(1,5,6) d1 by (simp add: left_pressed_def Let_def)
    qed
  qed
qed

lemma move_mouse_ok:
  assumes inv: "mouse_inv screen m d" and pos: "in_rect (Vec 0 0) screen pos"
  shows "\<exists>lm. LM_Move (windows d) (mouse_layer_id m) pos (layers d) = Some lm \<and>
    mouse_inv screen (m\<lparr>mouse_position := pos\<rparr>) (d\<lparr>layers := lm\<rparr>) \<and>
    (\<forall>i. i \<noteq> mouse_layer_id m \<longrightarrow> layer_at (d\<lparr>layers := lm\<rparr>) i = layer_at d i)"
proof -
  have wf: "wf_desktop d" "visible d (mouse_layer_id m)" using inv by (simp_all add: mouse_inv_def)
  have f: "layer_num (Layer_Move pos l) = layer_num l" "layer_window (Layer_Move pos l) = layer_window l" for l
    by (simp_all add: Layer_Move_def)
  from move_and_draw_ok [OF wf f] obtain lm where
    lm: "LM_Move (windows d) (mouse_layer_id m) pos (layers d) = Some lm" "wf_desktop (d\<lparr>layers := lm\<rparr>)"
      "same_layers (update_layer (mouse_layer_id m) (Layer_Move pos) (layers d)) lm"
    unfolding LM_Move_def by blast
  note moved = moved_layers [OF lm(3) f]
  have at: "layer_at (d\<lparr>layers := lm\<rparr>) i = (if i = mouse_layer_id m then Some pos else layer_at d i)" for i
    using inv moved(3) [of i] by (auto simp: mouse_inv_def layer_at_def Layer_Move_def)
  have "mouse_inv screen (m\<lparr>mouse_position := pos\<rparr>) (d\<lparr>layers := lm\<rparr>)"
    using inv lm(2) pos at [of "mouse_layer_id m"] by (simp add: mouse_inv_def moved(1,2))
  then show ?thesis using lm(1) at by auto
qed

lemma drag_ok:
  assumes inv: "mouse_inv screen m d" and drag: "0 < drag_layer_id m"
  shows "\<exists>lm. LM_MoveRelative (windows d) (drag_layer_id m) diff (layers d) = Some lm \<and>
    mouse_inv screen m (d\<lparr>layers := lm\<rparr>) \<and>
    layer_at (d\<lparr>layers := lm\<rparr>) (drag_layer_id m) = map_option (\<lambda>p. p + diff) (layer_at d (drag_layer_id m))"
proof -
  have wf: "wf_desktop d" "visible d (drag_layer_id m)" using inv drag by (simp_all add: mouse_inv_def)
  have f: "layer_num (Layer_MoveRelative diff l) = layer_num l" "layer_window (Layer_MoveRelative diff l) = layer_window l" for l
    by (simp_all add: Layer_MoveRelative_def)
  from move_and_draw_ok [OF wf f] obtain lm where
    lm: "LM_MoveRelative (windows d) (drag_layer_id m) diff (layers d) = Some lm" "wf_desktop (d\<lparr>layers := lm\<rparr>)"
      "same_layers (update_layer (drag_layer_id m) (Layer_MoveRelative diff) (layers d)) lm"
    unfolding LM_MoveRelative_def by blast
  note moved = moved_layers [OF lm(3) f]
  have "layer_at (d\<lparr>layers := lm\<rparr>) (mouse_layer_id m) = layer_at d (mouse_layer_id m)"
    using inv drag moved(3) [of "mouse_layer_id m"] by (auto simp: mouse_inv_def layer_at_def)
  then have "mouse_inv screen m (d\<lparr>layers := lm\<rparr>)"
    using inv lm(2) by (simp add: mouse_inv_def moved(1,2))
  moreover have "layer_at (d\<lparr>layers := lm\<rparr>) (drag_layer_id m) = map_option (\<lambda>p. p + diff) (layer_at d (drag_layer_id m))"
    using moved(3) [of "drag_layer_id m"] by (simp add: layer_at_def Layer_MoveRelative_def option.map_comp comp_def)
  ultimately show ?thesis using lm(1) by blast
qed

lemma left_button_ok:
  assumes inv: "mouse_inv screen m d" and h: "length hankaku = 4096"
  shows "\<exists>m' d' close. left_button hankaku ft prev left diff (m, d) = Some (m', d', close) \<and> mouse_inv screen m' d' \<and>
    mouse_position m' = mouse_position m \<and>
    (0 < drag_layer_id m \<and> prev \<and> left \<longrightarrow> m' = m \<and>
       layer_at d' (drag_layer_id m) = map_option (\<lambda>p. p + diff) (layer_at d (drag_layer_id m)))"
proof -
  consider "prev \<and> left \<and> 0 < drag_layer_id m" | "\<not> prev \<and> left" | "\<not> (prev \<and> left \<and> 0 < drag_layer_id m)" "\<not> (\<not> prev \<and> left)"
    by blast
  then show ?thesis
  proof cases
    case 1
    with drag_ok [OF inv, of diff] show ?thesis by (auto simp: left_button_def)
  next
    case 2
    with left_pressed_ok [OF inv h, of ft] show ?thesis by (auto simp: left_button_def)
  next
    case 3
    have "mouse_inv screen (m\<lparr>drag_layer_id := 0\<rparr>) d" using inv by (simp add: mouse_inv_def)
    with 3 inv show ?thesis by (cases prev; cases left) (auto simp: left_button_def)
  qed
qed

lemma report_ok:
  assumes "wf_desktop d"
  shows "\<exists>tm. report newpos posdiff buttons previous drag close d = Some (d\<lparr>tasks := tm\<rparr>) \<and> wf_desktop (d\<lparr>tasks := tm\<rparr>)"
  using SendMouseMessage_ok [OF assms] SendCloseMessage_ok [OF assms] assms
  by (auto simp: report_def intro: exI [of _ "tasks d"])

lemma move_to_screen:
  assumes "in_rect (Vec 0 0) screen old"
  shows "ElementMax (ElementMin (old + Vec dx dy) (screen + Vec (- 1) (- 1))) (Vec 0 0)
      = Vec (max 0 (min (vx old + dx) (vx screen - 1))) (max 0 (min (vy old + dy) (vy screen - 1)))"
    and "in_rect (Vec 0 0) screen (ElementMax (ElementMin (old + Vec dx dy) (screen + Vec (- 1) (- 1))) (Vec 0 0))"
  using assms by (auto simp: ElementMax_def ElementMin_def plus_Vector2D_def max.commute in_rect_def)

text \<open>
  C25. Whatever the mouse reports, the handler returns and keeps its state consistent.  The
  position moves by the displacement as far as the screen allows, the layer of the cursor is on
  top and at this position, and every layer the mouse refers to is still visible.  While a
  window is dragged, it keeps its place relative to the cursor.
\<close>

theorem Mouse_OnInterrupt_follows:
  assumes inv: "mouse_inv screen m d" and h: "length hankaku = 4096"
  shows "\<exists>m' d'. Mouse_OnInterrupt hankaku ft screen buttons dx dy (m, d) = Some (m', d') \<and>
    mouse_inv screen m' d' \<and> previous_buttons m' = buttons \<and>
    mouse_position m' = Vec (max 0 (min (vx (mouse_position m) + dx) (vx screen - 1)))
                            (max 0 (min (vy (mouse_position m) + dy) (vy screen - 1))) \<and>
    (0 < drag_layer_id m \<and> previous_buttons m AND 1 \<noteq> 0 \<and> buttons AND 1 \<noteq> 0 \<longrightarrow>
       drag_layer_id m' = drag_layer_id m \<and>
       layer_at d' (drag_layer_id m) =
         map_option (\<lambda>p. p + (mouse_position m' - mouse_position m)) (layer_at d (drag_layer_id m)))"
proof -
  define newpos where "newpos = ElementMin (mouse_position m + Vec dx dy) (screen + Vec (- 1) (- 1))"
  define pos where "pos = ElementMax newpos (Vec 0 0)"
  define diff where "diff = pos - mouse_position m"
  let ?m1 = "m\<lparr>mouse_position := pos\<rparr>"
  have on: "in_rect (Vec 0 0) screen (mouse_position m)" using inv by (simp add: mouse_inv_def)
  note screen = move_to_screen [OF on, of dx dy, folded newpos_def, folded pos_def]
  from move_mouse_ok [OF inv screen(2)] obtain lm where
    lm: "LM_Move (windows d) (mouse_layer_id m) pos (layers d) = Some lm" "mouse_inv screen ?m1 (d\<lparr>layers := lm\<rparr>)"
      "\<forall>i. i \<noteq> mouse_layer_id m \<longrightarrow> layer_at (d\<lparr>layers := lm\<rparr>) i = layer_at d i" by blast
  have drag: "0 < drag_layer_id m \<Longrightarrow> layer_at (d\<lparr>layers := lm\<rparr>) (drag_layer_id m) = layer_at d (drag_layer_id m)"
    using lm(3) inv by (simp add: mouse_inv_def)
  from left_button_ok [OF lm(2) h, of ft "previous_buttons m AND 1 \<noteq> 0" "buttons AND 1 \<noteq> 0" diff] obtain m2 d2 close where
    step: "left_button hankaku ft (previous_buttons m AND 1 \<noteq> 0) (buttons AND 1 \<noteq> 0) diff (?m1, d\<lparr>layers := lm\<rparr>)
        = Some (m2, d2, close)" "mouse_inv screen m2 d2" "mouse_position m2 = pos"
      "0 < drag_layer_id m \<and> previous_buttons m AND 1 \<noteq> 0 \<and> buttons AND 1 \<noteq> 0 \<longrightarrow> m2 = ?m1 \<and>
         layer_at d2 (drag_layer_id m) = map_option (\<lambda>p. p + diff) (layer_at d (drag_layer_id m))"
    using drag by auto
  have "wf_desktop d2" using step(2) by (simp add: mouse_inv_def)
  from report_ok [OF this, of newpos diff buttons "previous_buttons m" "drag_layer_id m2" close] obtain tm where
    tm: "report newpos diff buttons (previous_buttons m) (drag_layer_id m2) close d2 = Some (d2\<lparr>tasks := tm\<rparr>)"
      "wf_desktop (d2\<lparr>tasks := tm\<rparr>)" by blast
  have "Mouse_OnInterrupt hankaku ft screen buttons dx dy (m, d)
      = Some (m2\<lparr>previous_buttons := buttons\<rparr>, d2\<lparr>tasks := tm\<rparr>)"
    using lm(1) step(1) tm(1)
    by (simp add: Mouse_OnInterrupt_def Let_def flip: newpos_def pos_def diff_def)
  moreover have "mouse_inv screen (m2\<lparr>previous_buttons := buttons\<rparr>) (d2\<lparr>tasks := tm\<rparr>)"
    using mouse_inv_tasks [OF step(2) tm(2)] by (simp add: mouse_inv_buttons)
  moreover have "layer_at (d2\<lparr>tasks := tm\<rparr>) i = layer_at d2 i" for i by (simp add: layer_at_def)
  ultimately show ?thesis
    using step(3,4) screen(1) by (simp add: diff_def)
qed

definition demo_mouse :: Mouse where
  "demo_mouse = \<lparr>mouse_layer_id = 2, mouse_position = Vec 0 0, drag_layer_id = 3, previous_buttons = 1\<rparr>"

lemma demo_mouse_inv: "mouse_inv (Vec 4 3) demo_mouse demo_desktop"
proof -
  have "visible demo_desktop i" if "i \<in> {1, 2, 3}" for i
    using that by (auto simp: visible_def has_window_def demo_desktop_def demo_layers_def FindLayer_def SetWindow_layer_def
        new_Layer_def)
  then show ?thesis
    using demo_wf_desktop
    by (simp add: mouse_inv_def demo_mouse_def layer_at_def in_rect_def)
      (simp add: demo_desktop_def demo_layers_def FindLayer_def SetWindow_layer_def new_Layer_def)
qed

lemma Mouse_OnInterrupt_follows_witness:
  "\<exists>m' d'. Mouse_OnInterrupt (replicate 4096 1) demo_ft (Vec 4 3) 1 2 5 (demo_mouse, demo_desktop) = Some (m', d') \<and>
     mouse_position m' = Vec 2 2 \<and> layer_at d' 3 = Some (Vec 2 2)"
proof -
  have at: "layer_at demo_desktop 3 = Some (Vec 0 0)"
    by (simp add: layer_at_def demo_desktop_def demo_layers_def FindLayer_def SetWindow_layer_def new_Layer_def)
  have "0 < drag_layer_id demo_mouse" "previous_buttons demo_mouse AND 1 \<noteq> 0" "(1 :: u8) AND 1 \<noteq> 0"
    "drag_layer_id demo_mouse = 3" "mouse_position demo_mouse = Vec 0 0"
    by (simp_all add: demo_mouse_def)
  with Mouse_OnInterrupt_follows [OF demo_mouse_inv, of "replicate 4096 1" demo_ft 1 2 5] at show ?thesis
    by (auto simp: plus_Vector2D_def minus_Vector2D_def)
qed

text \<open>The test for a changed button shifts in the wrong direction: it sees only button 0.\<close>

lemma button_test: "push_bit i (ucast (diff :: u8) :: u32) AND 1 \<noteq> 0 \<longleftrightarrow> i = 0 \<and> bit diff 0"
proof -
  have "(v AND 1 \<noteq> 0) = bit v 0" for v :: u32
    by (simp add: and_one_eq bit_0 even_iff_mod_2_eq_zero)
  then show ?thesis by (simp add: bit_simps)
qed

lemma other_buttons_lost:
  "\<not> bit (previous XOR buttons) 0 \<Longrightarrow>
     button_messages relpos buttons (ucast (previous XOR buttons)) task is d = Some d"
proof (induction "is")
  case (Cons i "is")
  then show ?case using button_test [of i "previous XOR buttons"] by simp
qed simp

text \<open>
  Starting the mouse moves its layer before the layer is in the stack.  The redrawing in
  \<open>LayerManager::Move\<close> then never sets the area it copies.
\<close>

lemma draw_above_missing:
  "Some i \<notin> set ps \<Longrightarrow> draw_above lm wins i ps area None bk = Some r \<Longrightarrow> snd r = None"
proof (induction ps arbitrary: bk)
  case (Cons p ps)
  then obtain l where l: "deref lm p = Some l" by (auto simp: bind_eq_Some)
  have "layer_num l \<noteq> i" using Cons.prems(1) deref_num [OF l] by auto
  with Cons l show ?case by simp
qed auto

lemma InitializeMouse_undefined:
  assumes "Some ((LayerManager.latest_id (layers d) + 1) mod 2 ^ 32) \<notin> set (layer_stack (layers d))"
  shows "InitializeMouse win format d = None"
proof -
  have missing: "move_and_draw wins i f lm = None" if "Some i \<notin> set (layer_stack lm)" for wins i f lm
  proof (rule ccontr)
    assume "move_and_draw wins i f lm \<noteq> None"
    then obtain lm2 where "move_and_draw wins i f lm = Some lm2" by blast
    then obtain area lm1 where draw: "Draw_area wins area (update_layer i f lm) = Some lm1" "Draw_layer wins i lm1 \<noteq> None"
      by (auto simp: move_and_draw_def bind_eq_Some)
    have "layer_stack lm1 = layer_stack lm"
      using draw(1) by (auto simp: Draw_area_def bind_eq_Some show_area_def update_layer_def)
    with that have "Some i \<notin> set (layer_stack lm1)" by simp
    from draw(2) obtain bk wa where
      "draw_above lm1 wins i (layer_stack lm1) (Rect (Vec 0 0) (Vec (- 1) (- 1))) None (lm_back lm1) = Some (bk, Some wa)"
      by (auto simp: Draw_layer_def Draw_layer_area_def bind_eq_Some)
    from draw_above_missing [OF \<open>Some i \<notin> set (layer_stack lm1)\<close> this] show False by simp
  qed
  have "LM_Move wins i pos (update_layer i g (fst (NewLayer (layers d)))) = None"
    if "i = snd (NewLayer (layers d))" for wins i pos g
    unfolding LM_Move_def by (rule missing) (use assms that in \<open>simp add: NewLayer_def Let_def update_layer_def\<close>)
  then show ?thesis
    by (auto simp: InitializeMouse_def Mouse_SetPosition_def new_Mouse_def Let_def split_def bind_eq_None_conv)
qed

section \<open>Keys\<close>

lemma keycode_map_length: "length keycode_map = 256" "length keycode_map_shifted = 256"
  by (simp_all add: keycode_map_def keycode_map_shifted_def ascii_def)

lemma mask_bits_1_5: "(m :: u8) AND (0x02 OR 0x20) \<noteq> 0 \<longleftrightarrow> bit m 1 \<or> bit m 5"
proof -
  have "\<forall>n \<in> set [0..<8]. bit (34 :: u8) n = (n = 1 \<or> n = 5)" by code_simp
  then have "bit (34 :: u8) n = (n = 1 \<or> n = 5)" if "n < 8" for n using that by simp
  then have "m AND 34 \<noteq> 0 \<longleftrightarrow> (\<exists>n < 8. bit m n \<and> (n = 1 \<or> n = 5))"
    by (auto simp: bit_eq_iff bit_and_iff)
  also have "\<dots> \<longleftrightarrow> bit m 1 \<or> bit m 5"
    by (auto intro: exI [of _ "1 :: nat"] exI [of _ "5 :: nat"])
  finally show ?thesis by simp
qed

lemma letters:
  "\<forall>k \<in> set [4..<30]. keycode_map ! k = of_nat k + 93 \<and> keycode_map_shifted ! k = of_nat k + 61"
  by code_simp

text \<open>
  A key event ends as one message in the queue of task 1, which is awake afterwards, with
  the character of the key: lower-case letters without and upper-case letters with a shift key,
  and for every other key the entry of the table that the shift keys select.  Nothing else of
  the desktop changes.
\<close>

lemma KeyPush_delivers:
  assumes "tm_inv (tasks d)" "get_task (tasks d) 1 = Some t"
  shows "\<exists>tm c. keyboard_observer modifier keycode press d = Some (d\<lparr>tasks := tm\<rparr>) \<and> tm_inv tm \<and>
    get_task tm 1 = Some ((push_message \<lparr>msg_type = kKeyPush, src_task = 0,
        arg = KeyboardArg modifier keycode c (if press then 1 else 0)\<rparr> t)\<lparr>running := True\<rparr>) \<and>
    (bit modifier 1 \<or> bit modifier 5 \<longrightarrow> c = keycode_map_shifted ! unat keycode) \<and>
    (\<not> bit modifier 1 \<and> \<not> bit modifier 5 \<longrightarrow> c = keycode_map ! unat keycode) \<and>
    (4 \<le> keycode \<and> keycode < 30 \<longrightarrow>
       c = (if bit modifier 1 \<or> bit modifier 5 then of_char (CHR ''A'') else of_char (CHR ''a'')) + (keycode - 4))"
proof -
  have mask: "modifier AND (kLShiftBitMask OR kRShiftBitMask) \<noteq> 0 \<longleftrightarrow> bit modifier 1 \<or> bit modifier 5"
    unfolding kLShiftBitMask_def kRShiftBitMask_def by (rule mask_bits_1_5)
  from SendMessage_cases [OF assms(1), of 1 "key_message modifier keycode press"] assms(2) obtain tm where
    tm: "SendMessage (tasks d) 1 (key_message modifier keycode press) = Some (tm, kSuccess)" "tm_inv tm"
      "get_task tm 1 = Some ((push_message (key_message modifier keycode press) t)\<lparr>running := True\<rparr>)" by auto
  have "key_ascii modifier keycode = (if bit modifier 1 \<or> bit modifier 5 then of_char (CHR ''A'') else of_char (CHR ''a''))
      + (keycode - 4)" if "4 \<le> keycode" "keycode < 30"
  proof -
    have "unat keycode \<in> set [4..<30]" using that by (simp add: word_le_nat_alt word_less_nat_alt del: upt_rec_numeral upt_Suc)
    from bspec [OF letters this] show ?thesis by (simp add: key_ascii_def mask)
  qed
  then show ?thesis
    using tm by (intro exI [of _ tm] exI [of _ "key_ascii modifier keycode"])
      (auto simp: keyboard_observer_def send_to_def key_message_def key_ascii_def mask)
qed

lemma KeyPush_delivers_witness:
  "\<exists>d'. keyboard_observer 0x20 5 True demo_desktop = Some d' \<and>
     (\<exists>t. get_task (tasks d') 1 = Some t \<and> (\<exists>m \<in> set (msgs t). arg m = KeyboardArg 0x20 5 (of_char (CHR ''B'')) 1))"
proof -
  have "\<exists>t. get_task (tasks demo_desktop) 1 = Some t"
    by (simp add: demo_desktop_def TaskManager_new_def NewTask_def Let_def empty_manager_def get_task_def upd_task_def
        set_queue_def InitContext_def Task_new_def)
  then obtain t where t: "get_task (tasks demo_desktop) 1 = Some t" by blast
  have "tm_inv (tasks demo_desktop)" using demo_wf_desktop by (simp add: wf_desktop_def)
  moreover have "bit (0x20 :: u8) 5" by simp
  ultimately show ?thesis
    using KeyPush_delivers [OF _ t, of "0x20" 5 True] by (fastforce simp: push_message_def)
qed

end
