(* ===== verification/Pipes.thy ===== *)
theory Pipes
  imports Scheduler "HOL-Library.Monad_Syntax"
begin

text \<open>
  Pipes between tasks: \<open>PipeDescriptor\<close> in \<open>kernel/terminal.hpp\<close> and \<open>terminal.cpp\<close>.  The writer
  sends its bytes in messages of at most 16 to the reading task; the reader keeps what it could
  not deliver of a message.  A message without bytes is the end of the data.
\<close>

section \<open>Operations\<close>

text \<open>\<open>pipe_buf\<close> is the part \<open>data_[0..len_]\<close>; what is behind it is never read.\<close>

record Pipe =
  pipe_task :: nat
  pipe_buf :: "u8 list"
  pipe_closed :: bool

definition new_Pipe :: "nat \<Rightarrow> Pipe" where
  "new_Pipe task = \<lparr>pipe_task = task, pipe_buf = [], pipe_closed = False\<rparr>"

definition pipe_message :: "u8 list \<Rightarrow> nat \<Rightarrow> Message" where
  "pipe_message data n = \<lparr>msg_type = kPipe, src_task = 0, arg = PipeArg data n\<rparr>"

text \<open>The message is reused, so the bytes behind its length are those of the message before.\<close>

function pipe_messages :: "u8 list \<Rightarrow> u8 list \<Rightarrow> Message list" where
  "pipe_messages data buf =
    (if buf = [] then []
     else let n = min (length buf) 16;
              data1 = take n buf @ drop n data
          in pipe_message data1 n # pipe_messages data1 (drop n buf))"
  by pat_completeness auto
termination by (relation "measure (\<lambda>(data, buf). length buf)") auto

declare pipe_messages.simps [simp del]

fun send_all :: "nat \<Rightarrow> Message list \<Rightarrow> TaskManager \<Rightarrow> TaskManager option" where
  "send_all task [] tm = Some tm"
| "send_all task (m # ms) tm = do { tm1 \<leftarrow> Task_SendMessage tm task m; send_all task ms tm1 }"

definition Pipe_Write :: "Pipe \<Rightarrow> u8 list \<Rightarrow> TaskManager \<Rightarrow> (TaskManager \<times> nat) option" where
  "Pipe_Write p buf tm =
    map_option (\<lambda>tm1. (tm1, length buf)) (send_all (pipe_task p) (pipe_messages (replicate 16 0) buf) tm)"

definition Pipe_FinishWrite :: "Pipe \<Rightarrow> TaskManager \<Rightarrow> TaskManager option" where
  "Pipe_FinishWrite p tm = Task_SendMessage tm (pipe_task p) (pipe_message (replicate 16 0) 0)"

definition pipe_arg :: "Message \<Rightarrow> (u8 list \<times> nat) option" where
  "pipe_arg m = (if msg_type m \<noteq> kPipe then None else case arg m of PipeArg data n \<Rightarrow> Some (data, n) | _ \<Rightarrow> None)"

text \<open>
  The loop over the messages that have arrived.  The result has the messages that are left, and
  \<open>None\<close> if the task has to sleep.
\<close>

fun pipe_receive :: "nat \<Rightarrow> Pipe \<Rightarrow> Message list \<Rightarrow> Pipe \<times> Message list \<times> u8 list option" where
  "pipe_receive len p [] = (p, [], None)"
| "pipe_receive len p (m # ms) =
    (case pipe_arg m of
       None \<Rightarrow> pipe_receive len p ms
     | Some (data, n) \<Rightarrow>
         if n = 0 then (p\<lparr>pipe_closed := True\<rparr>, ms, Some [])
         else
           let k = min n len
           in (p\<lparr>pipe_buf := take (n - k) (drop k data)\<rparr>, ms, Some (take k data)))"

text \<open>
  One round of \<open>Read\<close> in the reading task: \<open>Inl\<close> when it went to sleep, to continue with the
  next messages.
\<close>

definition Pipe_Read :: "Pipe \<Rightarrow> nat \<Rightarrow> TaskManager \<Rightarrow> (Pipe \<times> TaskManager \<times> (unit + u8 list)) option" where
  "Pipe_Read p len tm =
    (if pipe_buf p \<noteq> [] then
       let k = min (length (pipe_buf p)) len
       in Some (p\<lparr>pipe_buf := drop k (pipe_buf p)\<rparr>, tm, Inr (take k (pipe_buf p)))
     else if pipe_closed p then Some (p, tm, Inr [])
     else do {
       t \<leftarrow> get_task tm (pipe_task p);
       let (p1, ms, r) = pipe_receive len p (msgs t);
       let tm1 = upd_task (pipe_task p) (\<lambda>t. t\<lparr>msgs := ms\<rparr>) tm;
       case r of
         None \<Rightarrow> map_option (\<lambda>tm2. (p1, tm2, Inl ())) (Sleep_task tm1 (pipe_task p))
       | Some bs \<Rightarrow> Some (p1, tm1, Inr bs) })"

text \<open>\<open>Size\<close> and \<open>Load\<close> are 0: a pipe cannot be mapped.\<close>

definition Pipe_Size :: "Pipe \<Rightarrow> nat" where "Pipe_Size p = 0"
definition Pipe_Load :: "Pipe \<Rightarrow> nat \<Rightarrow> nat \<Rightarrow> nat" where "Pipe_Load p len offset = 0"

section \<open>The bytes under way\<close>

text \<open>What a queue of messages holds: the bytes before the first end of the data.\<close>

fun queued :: "Message list \<Rightarrow> u8 list" where
  "queued [] = []"
| "queued (m # ms) =
    (case pipe_arg m of None \<Rightarrow> queued ms | Some (data, n) \<Rightarrow> if n = 0 then [] else take n data @ queued ms)"

definition is_end :: "Message \<Rightarrow> bool" where
  "is_end m \<longleftrightarrow> (\<exists>data. pipe_arg m = Some (data, 0))"

text \<open>The messages the writer sends: at most 16 bytes, all of them present.\<close>

definition good_message :: "Message \<Rightarrow> bool" where
  "good_message m \<longleftrightarrow> (\<forall>data n. pipe_arg m = Some (data, n) \<longrightarrow> n \<le> 16 \<and> length data = 16)"

lemma pipe_arg_message [simp]: "pipe_arg (pipe_message data n) = Some (data, n)"
  by (simp add: pipe_arg_def pipe_message_def)

lemma queued_append: "(\<forall>m \<in> set ms. \<not> is_end m) \<Longrightarrow> queued (ms @ ns) = queued ms @ queued ns"
  by (induction ms) (auto simp: is_end_def split: option.split)

lemma queued_no_pipe: "\<forall>m \<in> set ms. pipe_arg m = None \<Longrightarrow> queued ms = [] \<and> queued (ms @ ns) = queued ns"
  by (induction ms) auto

lemma queued_end: "is_end e \<Longrightarrow> queued (e # ns) = []"
  by (auto simp: is_end_def)

lemma pipe_messages_spec:
  "length data = 16 \<Longrightarrow>
     queued (pipe_messages data buf) = buf \<and> (\<forall>m \<in> set (pipe_messages data buf). good_message m \<and> \<not> is_end m)"
proof (induction data buf rule: pipe_messages.induct)
  case (1 data buf)
  show ?case
  proof (cases "buf = []")
    case True
    have "pipe_messages data [] = []" by (subst pipe_messages.simps) simp
    with True show ?thesis by simp
  next
    case False
    define n where "n = min (length buf) 16"
    define data1 where "data1 = take n buf @ drop n data"
    have n: "0 < n" "n \<le> 16" "n \<le> length buf" using False by (simp_all add: n_def)
    have len: "length data1 = 16" using 1(2) n by (simp add: data1_def)
    from "1.IH" [OF False n_def data1_def len] have IH:
      "queued (pipe_messages data1 (drop n buf)) = drop n buf"
      "\<forall>m \<in> set (pipe_messages data1 (drop n buf)). good_message m \<and> \<not> is_end m" by simp_all
    have eq: "pipe_messages data buf = pipe_message data1 n # pipe_messages data1 (drop n buf)"
      using False by (subst pipe_messages.simps) (simp add: Let_def n_def data1_def)
    have "take n data1 = take n buf" using n by (simp add: data1_def)
    then have "queued (pipe_message data1 n # pipe_messages data1 (drop n buf)) = take n buf @ drop n buf"
      using n(1) by (simp add: IH(1))
    moreover have "good_message (pipe_message data1 n)" "\<not> is_end (pipe_message data1 n)"
      using n(1,2) len by (simp_all add: good_message_def is_end_def)
    ultimately show ?thesis unfolding eq using IH(2) by (metis append_take_drop_id set_ConsD)
  qed
qed


section \<open>What sending and sleeping do to the queue\<close>

lemma Task_SendMessage_ok:
  assumes "tm_inv tm" "get_task tm i = Some t"
  shows "\<exists>tm'. Task_SendMessage tm i m = Some tm' \<and> tm_inv tm' \<and>
    get_task tm' i = Some ((push_message m t)\<lparr>running := True\<rparr>)"
proof -
  from SendMessage_cases [OF assms(1), of i m] assms(2) obtain tm' where
    "SendMessage tm i m = Some (tm', kSuccess)" "tm_inv tm'" "get_task tm' i = Some ((push_message m t)\<lparr>running := True\<rparr>)"
    by auto
  then show ?thesis using assms(2) by (auto simp: SendMessage_def)
qed

lemma send_all_ok:
  "tm_inv tm \<Longrightarrow> get_task tm i = Some t \<Longrightarrow>
     \<exists>tm' t'. send_all i ms tm = Some tm' \<and> tm_inv tm' \<and> get_task tm' i = Some t' \<and> msgs t' = msgs t @ ms"
proof (induction ms arbitrary: tm t)
  case (Cons m ms)
  from Task_SendMessage_ok [OF Cons.prems, of m] obtain tm1 where
    tm1: "Task_SendMessage tm i m = Some tm1" "tm_inv tm1" "get_task tm1 i = Some ((push_message m t)\<lparr>running := True\<rparr>)"
    by blast
  from Cons.IH [OF tm1(2,3)] tm1(1) show ?case by (auto simp: push_message_def)
qed auto

lemma Rotate_get_task: "RotateCurrentRunQueue tm b = Some (tm', c) \<Longrightarrow> get_task tm' = get_task tm"
  by (rule ext) (auto simp: RotateCurrentRunQueue_def Let_def split: option.splits if_splits)

lemma Sleep_task_msgs:
  assumes "Sleep_task tm i = Some tm'"
  shows "map_option msgs (get_task tm' j) = map_option msgs (get_task tm j)"
proof -
  let ?s = "upd_task i (\<lambda>t. t\<lparr>running := False\<rparr>) tm"
  have upd: "map_option msgs (get_task (upd_task k f s) j) = map_option msgs (get_task s j)"
    if "\<And>t. msgs (f t) = msgs t \<and> task_id (f t) = task_id t" for k f s
    using that by (cases "j = k") (simp_all add: option.map_comp comp_def)
  obtain t where t: "get_task tm i = Some t" using assms by (auto simp: Sleep_task_def split: option.splits)
  show ?thesis
  proof (cases "running t \<and> front ?s (current_level ?s) = Some i")
    case True
    then obtain a b n where r: "RotateCurrentRunQueue ?s True = Some (a, b)" "SwitchContext n b a = Some tm'"
      using assms t by (auto simp: Sleep_task_def Let_def bind_eq_Some)
    then obtain u where "get_task tm' = get_task (upd_task b (\<lambda>t. t\<lparr>ctx := cpu a\<rparr>) a)"
      by (fastforce simp: SwitchContext_def save_context_def RestoreContext_def bind_eq_Some split: option.splits)
    then show ?thesis using Rotate_get_task [OF r(1)] upd [of "\<lambda>t. t\<lparr>ctx := cpu a\<rparr>" b a] upd [of "\<lambda>t. t\<lparr>running := False\<rparr>" i tm]
      by simp
  next
    case False
    then have "get_task tm' j = get_task tm j \<or> get_task tm' j = get_task ?s j"
      using assms t by (auto simp: Sleep_task_def Let_def split: option.splits if_splits)
    then show ?thesis using upd [of "\<lambda>t. t\<lparr>running := False\<rparr>" i tm] by auto
  qed
qed

section \<open>The reader\<close>

lemma pipe_receive_cases:
  obtains (sleep) "pipe_receive len p ms = (p, [], None)" "\<forall>m \<in> set ms. pipe_arg m = None"
  | (last) as m ns where "ms = as @ m # ns" "\<forall>x \<in> set as. pipe_arg x = None" "is_end m"
      "pipe_receive len p ms = (p\<lparr>pipe_closed := True\<rparr>, ns, Some [])"
  | (data) as m ns data n where "ms = as @ m # ns" "\<forall>x \<in> set as. pipe_arg x = None" "pipe_arg m = Some (data, n)" "0 < n"
      "pipe_receive len p ms =
        (p\<lparr>pipe_buf := take (n - min n len) (drop (min n len) data)\<rparr>, ns, Some (take (min n len) data))"
proof (induction ms arbitrary: thesis)
  case Nil
  then show ?case by simp
next
  case (Cons m ms)
  show ?case
  proof (cases "pipe_arg m")
    case None
    show ?thesis
    proof (rule Cons.IH)
      assume "pipe_receive len p ms = (p, [], None)" "\<forall>m \<in> set ms. pipe_arg m = None"
      then show ?thesis using None Cons.prems(1) by simp
    next
      fix as x ns assume "ms = as @ x # ns" "\<forall>x \<in> set as. pipe_arg x = None" "is_end x"
        "pipe_receive len p ms = (p\<lparr>pipe_closed := True\<rparr>, ns, Some [])"
      then show ?thesis using None Cons.prems(2) [of "m # as" x ns] by simp
    next
      fix as x ns data n assume "ms = as @ x # ns" "\<forall>x \<in> set as. pipe_arg x = None" "pipe_arg x = Some (data, n)" "0 < n"
        "pipe_receive len p ms =
          (p\<lparr>pipe_buf := take (n - min n len) (drop (min n len) data)\<rparr>, ns, Some (take (min n len) data))"
      then show ?thesis using None Cons.prems(3) [of "m # as" x ns data n] by simp
    qed
  next
    case (Some dn)
    obtain data n where dn: "dn = (data, n)" by (cases dn)
    show ?thesis
    proof (cases "n = 0")
      case True
      then show ?thesis using Some dn Cons.prems(2) [of "[]" m ms] by (simp add: is_end_def)
    next
      case False
      then show ?thesis using Some dn Cons.prems(3) [of "[]" m ms data n] by (simp add: Let_def)
    qed
  qed
qed

section \<open>Writer and reader together\<close>

text \<open>
  Any order of writes, the end, reads and everything else that keeps the task manager in order
  and may send other messages to the reader.  \<open>sent\<close> and \<open>received\<close> are the bytes of all writes
  and of all reads so far, \<open>fin\<close> says that \<open>FinishWrite\<close> was called.
\<close>

inductive pipe_run :: "TaskManager \<Rightarrow> Pipe \<Rightarrow> u8 list \<Rightarrow> bool \<Rightarrow> u8 list \<Rightarrow> bool" where
  start: "tm_inv tm \<Longrightarrow> get_task tm i = Some t \<Longrightarrow> i \<noteq> 2 \<Longrightarrow> \<forall>m \<in> set (msgs t). pipe_arg m = None \<Longrightarrow>
    pipe_run tm (new_Pipe i) [] False []"
| writes: "pipe_run tm p sent False received \<Longrightarrow> Pipe_Write p bs tm = Some (tm', n) \<Longrightarrow>
    pipe_run tm' p (sent @ bs) False received"
| finish: "pipe_run tm p sent False received \<Longrightarrow> Pipe_FinishWrite p tm = Some tm' \<Longrightarrow> pipe_run tm' p sent True received"
| read: "pipe_run tm p sent fin received \<Longrightarrow> Pipe_Read p len tm = Some (p', tm', Inr bs) \<Longrightarrow>
    pipe_run tm' p' sent fin (received @ bs)"
| sleep: "pipe_run tm p sent fin received \<Longrightarrow> Pipe_Read p len tm = Some (p', tm', Inl ()) \<Longrightarrow>
    pipe_run tm' p' sent fin received"
| other: "pipe_run tm p sent fin received \<Longrightarrow> tm_inv tm' \<Longrightarrow> get_task tm (pipe_task p) = Some t \<Longrightarrow>
    get_task tm' (pipe_task p) = Some t' \<Longrightarrow> msgs t' = msgs t @ ms \<Longrightarrow> \<forall>m \<in> set ms. pipe_arg m = None \<Longrightarrow>
    pipe_run tm' p sent fin received"

definition pending :: "Pipe \<Rightarrow> Message list \<Rightarrow> u8 list" where
  "pending p ms = pipe_buf p @ (if pipe_closed p then [] else queued ms)"

text \<open>Before the end there is no end in the queue, afterwards there is one until it is read.\<close>

definition queue_ok :: "Pipe \<Rightarrow> bool \<Rightarrow> Message list \<Rightarrow> bool" where
  "queue_ok p fin ms \<longleftrightarrow>
    (\<forall>m \<in> set ms. good_message m) \<and>
    (if \<not> fin then \<not> pipe_closed p \<and> (\<forall>m \<in> set ms. \<not> is_end m)
     else if pipe_closed p then \<forall>m \<in> set ms. pipe_arg m = None
     else \<exists>as e bs. ms = as @ e # bs \<and> is_end e \<and> (\<forall>m \<in> set as. \<not> is_end m) \<and> (\<forall>m \<in> set bs. pipe_arg m = None))"

definition run_inv :: "TaskManager \<Rightarrow> Pipe \<Rightarrow> u8 list \<Rightarrow> bool \<Rightarrow> u8 list \<Rightarrow> bool" where
  "run_inv tm p sent fin received \<longleftrightarrow>
    tm_inv tm \<and> pipe_task p \<noteq> 2 \<and>
    (\<exists>t. get_task tm (pipe_task p) = Some t \<and> sent = received @ pending p (msgs t) \<and> queue_ok p fin (msgs t))"

lemma not_end_None: "pipe_arg m = None \<Longrightarrow> \<not> is_end m \<and> good_message m"
  by (simp add: is_end_def good_message_def)

lemma queue_ok_other:
  assumes "queue_ok p fin ms" "\<forall>m \<in> set ns. pipe_arg m = None"
  shows "queue_ok p fin (ms @ ns) \<and> pending p (ms @ ns) = pending p ms"
proof (cases "fin \<and> \<not> pipe_closed p")
  case True
  with assms(1) obtain as e bs where ms: "ms = as @ e # bs" "is_end e" "\<forall>m \<in> set as. \<not> is_end m"
    "\<forall>m \<in> set bs. pipe_arg m = None" by (auto simp: queue_ok_def)
  have "queue_ok p fin (ms @ ns)"
    using True assms ms not_end_None unfolding queue_ok_def
    by (simp, intro conjI exI [of _ as] exI [of _ e] exI [of _ "bs @ ns"]) auto
  moreover have "queued (ms @ ns) = queued ms"
    using ms(2) by (simp add: ms(1) queued_append [OF ms(3)] queued_end del: queued.simps)
  ultimately show ?thesis using True by (simp add: pending_def)
next
  case False
  then have "\<not> pipe_closed p \<Longrightarrow> queued (ms @ ns) = queued ms @ queued ns"
    using assms(1) by (intro queued_append) (simp add: queue_ok_def)
  then show ?thesis
    using False assms not_end_None queued_no_pipe [OF assms(2), of "[]"]
    by (cases fin; cases "pipe_closed p") (auto simp: queue_ok_def pending_def)
qed

lemma write_ok:
  assumes "run_inv tm p sent False received"
  shows "\<exists>tm'. Pipe_Write p bs tm = Some (tm', length bs) \<and> run_inv tm' p (sent @ bs) False received"
proof -
  from assms obtain t where t: "tm_inv tm" "get_task tm (pipe_task p) = Some t" "sent = received @ pending p (msgs t)"
    "queue_ok p False (msgs t)" by (auto simp: run_inv_def)
  let ?ms = "pipe_messages (replicate 16 0) bs"
  from send_all_ok [OF t(1,2), of ?ms] obtain tm' t' where
    s: "send_all (pipe_task p) ?ms tm = Some tm'" "tm_inv tm'" "get_task tm' (pipe_task p) = Some t'" "msgs t' = msgs t @ ?ms"
    by blast
  have ms: "queued ?ms = bs" "\<forall>m \<in> set ?ms. good_message m \<and> \<not> is_end m"
    using pipe_messages_spec [of "replicate 16 0" bs] by simp_all
  have q: "\<forall>m \<in> set (msgs t). \<not> is_end m" "\<not> pipe_closed p" using t(4) by (simp_all add: queue_ok_def)
  have "pending p (msgs t') = pending p (msgs t) @ bs"
    using q(2) by (simp add: pending_def s(4) queued_append [OF q(1)] ms(1))
  moreover have "queue_ok p False (msgs t')" using t(4) ms(2) q by (auto simp: queue_ok_def s(4))
  ultimately have "run_inv tm' p (sent @ bs) False received"
    using assms s t(3) by (simp add: run_inv_def)
  then show ?thesis using s(1) by (simp add: Pipe_Write_def)
qed

lemma finish_ok:
  assumes "run_inv tm p sent False received"
  shows "\<exists>tm'. Pipe_FinishWrite p tm = Some tm' \<and> run_inv tm' p sent True received"
proof -
  from assms obtain t where t: "tm_inv tm" "get_task tm (pipe_task p) = Some t" "sent = received @ pending p (msgs t)"
    "queue_ok p False (msgs t)" by (auto simp: run_inv_def)
  let ?e = "pipe_message (replicate 16 0) 0"
  from Task_SendMessage_ok [OF t(1,2), of ?e] obtain tm' t' where
    s: "Task_SendMessage tm (pipe_task p) ?e = Some tm'" "tm_inv tm'" "get_task tm' (pipe_task p) = Some t'"
      "msgs t' = msgs t @ [?e]" by (auto simp: push_message_def)
  have e: "is_end ?e" "good_message ?e" by (simp_all add: is_end_def good_message_def)
  have q: "\<forall>m \<in> set (msgs t). \<not> is_end m" "\<not> pipe_closed p" using t(4) by (simp_all add: queue_ok_def)
  have "queue_ok p True (msgs t')"
    using t(4) q e unfolding queue_ok_def s(4)
    by (simp, intro exI [of _ "msgs t"] exI [of _ ?e] exI [of _ "[]"]) simp
  moreover have "pending p (msgs t') = pending p (msgs t)"
    using q(2) e(1) by (simp add: pending_def s(4) queued_append [OF q(1)] queued_end)
  ultimately have "run_inv tm' p sent True received" using assms s t(3) by (simp add: run_inv_def)
  then show ?thesis using s(1) by (simp add: Pipe_FinishWrite_def)
qed

text \<open>A read: some bytes, or nothing at the end of the data, or it sleeps until more data comes.\<close>

definition read_result :: "nat \<Rightarrow> u8 list \<Rightarrow> bool \<Rightarrow> u8 list \<Rightarrow> unit + u8 list \<Rightarrow> bool" where
  "read_result len sent fin received r \<longleftrightarrow>
    (case r of
       Inl _ \<Rightarrow> received = sent \<and> \<not> fin
     | Inr bs \<Rightarrow> length bs \<le> len \<and> (bs = [] \<longrightarrow> len = 0 \<or> received = sent \<and> fin))"

definition taken :: "unit + u8 list \<Rightarrow> u8 list" where
  "taken r = (case r of Inl _ \<Rightarrow> [] | Inr bs \<Rightarrow> bs)"

lemma run_inv_msgs:
  assumes "run_inv tm p sent fin received" "get_task tm (pipe_task p) = Some t" "pipe_task p' = pipe_task p"
    and "received @ pending p (msgs t) = received' @ pending p' ns" "queue_ok p' fin ns"
  shows "run_inv (upd_task (pipe_task p) (\<lambda>t. t\<lparr>msgs := ns\<rparr>) tm) p' sent fin received'"
proof -
  have "tm_inv (upd_task (pipe_task p) (\<lambda>t. t\<lparr>msgs := ns\<rparr>) tm)"
    by (rule tm_inv_upd_task) (use assms(1) in \<open>simp_all add: run_inv_def\<close>)
  then show ?thesis using assms by (auto simp: run_inv_def)
qed

lemma first_end:
  assumes "as @ m # ns = as' @ e # bs" "\<forall>x \<in> set as. \<not> is_end x" "\<forall>x \<in> set as'. \<not> is_end x" "is_end e"
  shows "if is_end m then ns = bs else \<exists>cs. ns = cs @ e # bs \<and> (\<forall>x \<in> set cs. \<not> is_end x)"
  using assms
proof (induction as arbitrary: as')
  case Nil
  then show ?case by (cases as') auto
next
  case (Cons a as)
  then show ?case by (cases as') auto
qed

lemma read_waits:
  assumes inv: "run_inv tm p sent fin received" and p: "pipe_buf p = []" "\<not> pipe_closed p"
    and t: "get_task tm (pipe_task p) = Some t"
  shows "\<exists>p' tm' r. Pipe_Read p len tm = Some (p', tm', r) \<and> run_inv tm' p' sent fin (received @ taken r) \<and>
    read_result len sent fin received r"
proof -
  from inv t have sent: "sent = received @ queued (msgs t)" and ok: "queue_ok p fin (msgs t)" and i: "pipe_task p \<noteq> 2"
    using p by (auto simp: run_inv_def pending_def)
  have pend: "received @ pending p (msgs t) = sent" using sent p by (simp add: pending_def)
  show ?thesis
  proof (cases rule: pipe_receive_cases [of len p "msgs t"])
    case sleep
    have none: "queued (msgs t) = []" using queued_no_pipe [OF sleep(2), of "[]"] by simp
    have fin: "\<not> fin" using ok sleep(2) p(2) not_end_None by (fastforce simp: queue_ok_def)
    let ?tm1 = "upd_task (pipe_task p) (\<lambda>t. t\<lparr>msgs := []\<rparr>) tm"
    have inv1: "run_inv ?tm1 p sent fin received"
      by (rule run_inv_msgs [OF inv t refl]) (use pend none fin p in \<open>simp_all add: pending_def queue_ok_def\<close>)
    then have "get_task ?tm1 (pipe_task p) \<noteq> None" "tm_inv ?tm1" by (auto simp: run_inv_def)
    from Sleep_task_inv [OF this(2,1) i] obtain tm2 where tm2: "Sleep_task ?tm1 (pipe_task p) = Some tm2" "tm_inv tm2" by blast
    have "run_inv tm2 p sent fin received"
      using inv1 tm2(2) Sleep_task_msgs [OF tm2(1), of "pipe_task p"] by (auto simp: run_inv_def)
    then show ?thesis
      using p t sleep(1) tm2(1) none fin sent by (simp add: Pipe_Read_def Let_def taken_def read_result_def)
  next
    case (last as m ns)
    let ?p = "p\<lparr>pipe_closed := True\<rparr>"
    have fin: "fin"
    proof (rule ccontr)
      assume "\<not> fin"
      then show False using ok last(1,3) by (simp add: queue_ok_def)
    qed
    then obtain as' e bs where d: "as @ m # ns = as' @ e # bs" "is_end e" "\<forall>m \<in> set as'. \<not> is_end m"
      "\<forall>m \<in> set bs. pipe_arg m = None" using ok p(2) by (auto simp: queue_ok_def last(1))
    have "\<forall>x \<in> set as. \<not> is_end x" using last(2) not_end_None by blast
    from first_end [OF d(1) this d(3,2)] last(3) have "ns = bs" by simp
    then have ns: "queue_ok ?p fin ns" using ok d(4) fin by (simp add: queue_ok_def last(1))
    have "queued (msgs t) = []"
      using queued_no_pipe [OF last(2), of "m # ns"] queued_end [OF last(3), of ns] by (simp only: last(1))
    then have "run_inv (upd_task (pipe_task p) (\<lambda>t. t\<lparr>msgs := ns\<rparr>) tm) ?p sent fin received"
      by (intro run_inv_msgs [OF inv t _ _ ns]) (use pend p in \<open>simp_all add: pending_def\<close>)
    then show ?thesis
      using p t last(4) fin \<open>queued (msgs t) = []\<close> sent
      by (simp add: Pipe_Read_def Let_def taken_def read_result_def)
  next
    case (data as m ns data n)
    let ?k = "min n len"
    let ?p = "p\<lparr>pipe_buf := take (n - ?k) (drop ?k data)\<rparr>"
    have m: "good_message m" "\<not> is_end m" using ok data(1,3,4) by (auto simp: queue_ok_def is_end_def)
    have as: "\<forall>x \<in> set as. \<not> is_end x" using data(2) not_end_None by blast
    have ns: "queue_ok ?p fin ns"
    proof (cases fin)
      case True
      then obtain as' e bs where d: "as @ m # ns = as' @ e # bs" "is_end e" "\<forall>m \<in> set as'. \<not> is_end m"
        "\<forall>m \<in> set bs. pipe_arg m = None" using ok p(2) by (auto simp: queue_ok_def data(1))
      from first_end [OF d(1) as d(3,2)] m(2) obtain cs where "ns = cs @ e # bs" "\<forall>x \<in> set cs. \<not> is_end x" by auto
      then show ?thesis using ok d True p(2) by (auto simp: queue_ok_def data(1))
    qed (use ok in \<open>simp add: queue_ok_def data(1)\<close>)
    have "take ?k data @ take (n - ?k) (drop ?k data) = take n data"
      by (metis le_add_diff_inverse min.cobounded1 take_add)
    then have "queued (msgs t) = take ?k data @ take (n - ?k) (drop ?k data) @ queued ns"
      using queued_no_pipe [OF data(2), of "m # ns"] data(3,4) by (simp add: data(1))
    then have "run_inv (upd_task (pipe_task p) (\<lambda>t. t\<lparr>msgs := ns\<rparr>) tm) ?p sent fin (received @ take ?k data)"
      by (intro run_inv_msgs [OF inv t _ _ ns]) (use p in \<open>simp_all add: pending_def\<close>)
    moreover have "length data = 16" using m(1) data(3) by (simp add: good_message_def)
    ultimately show ?thesis
      using p t data(4,5) by (auto simp: Pipe_Read_def Let_def taken_def read_result_def)
  qed
qed

lemma read_ok:
  assumes inv: "run_inv tm p sent fin received"
  shows "\<exists>p' tm' r. Pipe_Read p len tm = Some (p', tm', r) \<and> run_inv tm' p' sent fin (received @ taken r) \<and>
    read_result len sent fin received r"
proof -
  from inv obtain t where t: "get_task tm (pipe_task p) = Some t" "sent = received @ pending p (msgs t)"
    "queue_ok p fin (msgs t)" by (auto simp: run_inv_def)
  consider (kept) "pipe_buf p \<noteq> []" | (closed) "pipe_buf p = []" "pipe_closed p" | (wait) "pipe_buf p = []" "\<not> pipe_closed p"
    by blast
  then show ?thesis
  proof cases
    case kept
    let ?k = "min (length (pipe_buf p)) len"
    have "run_inv tm (p\<lparr>pipe_buf := drop ?k (pipe_buf p)\<rparr>) sent fin (received @ take ?k (pipe_buf p))"
      using inv t by (auto simp: run_inv_def pending_def queue_ok_def)
    moreover have "take ?k (pipe_buf p) = [] \<longrightarrow> len = 0"
      using kept by (cases "pipe_buf p") (auto simp: min_def split: if_splits)
    ultimately show ?thesis using kept by (simp add: Pipe_Read_def Let_def taken_def read_result_def)
  next
    case closed
    then have "fin" "received = sent" using t by (auto simp: queue_ok_def pending_def split: if_splits)
    then show ?thesis using closed inv by (simp add: Pipe_Read_def taken_def read_result_def)
  next
    case wait
    from read_waits [OF inv wait t(1)] show ?thesis .
  qed
qed

lemma pipe_run_inv: "pipe_run tm p sent fin received \<Longrightarrow> run_inv tm p sent fin received"
proof (induction rule: pipe_run.induct)
  case (start tm i t)
  then show ?case
    using not_end_None queued_no_pipe [of "msgs t" "[]"]
    by (auto simp: run_inv_def new_Pipe_def pending_def queue_ok_def)
next
  case (writes tm p sent received bs tm' n)
  with write_ok [of tm p sent received bs] show ?case by auto
next
  case (finish tm p sent received tm')
  with finish_ok [of tm p sent received] show ?case by auto
next
  case (read tm p sent fin received len p' tm' bs)
  with read_ok [of tm p sent fin received len] show ?case by (auto simp: taken_def)
next
  case (sleep tm p sent fin received len p' tm')
  with read_ok [of tm p sent fin received len] show ?case by (auto simp: taken_def)
next
  case (other tm p sent fin received tm' t t' ms)
  then have "queue_ok p fin (msgs t)" "sent = received @ pending p (msgs t)" by (auto simp: run_inv_def)
  with queue_ok_other [OF this(1) other(6)] other show ?case by (auto simp: run_inv_def)
qed

text \<open>
  C18. A pipe is a queue of bytes.  Whatever the order in which the writer writes and ends, the
  reader reads with any buffer sizes, and other messages reach the reader in between: the bytes
  received are always the first of the bytes sent.  Every write and every read can be done; a read of
  at least one byte returns nothing only after the end, when everything was received, and it
  makes the reader wait only when everything sent so far was received and the end was not sent.
\<close>

theorem pipe_delivers_in_order:
  assumes "pipe_run tm p sent fin received"
  shows "(\<exists>rest. sent = received @ rest) \<and>
    (\<not> fin \<longrightarrow> (\<forall>bs. \<exists>tm'. Pipe_Write p bs tm = Some (tm', length bs)) \<and> (\<exists>tm'. Pipe_FinishWrite p tm = Some tm')) \<and>
    (\<forall>len. \<exists>p' tm' r. Pipe_Read p len tm = Some (p', tm', r) \<and>
      (case r of Inl _ \<Rightarrow> received = sent \<and> \<not> fin
       | Inr bs \<Rightarrow> length bs \<le> len \<and> (bs = [] \<longrightarrow> len = 0 \<or> received = sent \<and> fin)))"
proof -
  note inv = pipe_run_inv [OF assms]
  have "\<exists>rest. sent = received @ rest" using inv by (auto simp: run_inv_def)
  moreover have "\<exists>tm'. Pipe_Write p bs tm = Some (tm', length bs)" if "\<not> fin" for bs
    using write_ok [of tm p sent received bs] inv that by auto
  moreover have "\<exists>tm'. Pipe_FinishWrite p tm = Some tm'" if "\<not> fin"
    using finish_ok [of tm p sent received] inv that by auto
  moreover have "\<exists>p' tm' r. Pipe_Read p len tm = Some (p', tm', r) \<and> read_result len sent fin received r" for len
    using read_ok [OF inv, of len] by blast
  ultimately show ?thesis by (simp add: read_result_def)
qed

text \<open>Task 1 reads what is written to it: three bytes are on their way.\<close>

lemma pipe_delivers_in_order_witness:
  "\<exists>tm p rest. pipe_run tm p [1, 2, 3] False [] \<and> [1, 2, 3] = [] @ (rest :: u8 list)"
proof -
  have "\<exists>t. get_task boot_manager 1 = Some t \<and> msgs t = []"
    by (simp add: TaskManager_new_def NewTask_def Let_def empty_manager_def get_task_def upd_task_def
        set_queue_def InitContext_def Task_new_def)
  then obtain t where "get_task boot_manager 1 = Some t" "msgs t = []" by blast
  then have start: "pipe_run boot_manager (new_Pipe 1) [] False []"
    by (intro pipe_run.start [of boot_manager 1 t] tm_inv_new) simp_all
  from pipe_delivers_in_order [OF this] obtain tm' n where "Pipe_Write (new_Pipe 1) [1, 2, 3] boot_manager = Some (tm', n)"
    by (metis (no_types))
  from pipe_run.writes [OF start this] pipe_delivers_in_order [OF pipe_run.writes [OF start this]] show ?thesis by auto
qed

end
