(* ===== verification/Terminals.thy ===== *)
theory Terminals
  imports Consoles
begin

text \<open>
  The terminal as a text screen and a line editor: class \<open>Terminal\<close> of \<open>kernel/terminal.hpp\<close> and
  its methods in \<open>terminal.cpp\<close> that only touch the terminal and its window.  What it draws on is a
  state \<open>'s\<close> with a pixel writer and a \<open>Move\<close>; a terminal without window has none, and a use of
  the null pointer is \<open>None\<close>.
\<close>

section \<open>State\<close>

definition kTermRows :: int where "kTermRows = 15"
definition kTermColumns :: int where "kTermColumns = 60"
definition kLineMax :: nat where "kLineMax = 128"

text \<open>\<open>term_window\<close> and \<open>term_files\<close> refer to a window and to three file descriptors.\<close>

record Terminal =
  term_window :: "nat option"
  term_layer_id :: nat
  term_task :: nat
  cursor :: Vector2D
  cursor_visible :: bool
  linebuf_index :: nat
  linebuf :: "u8 list"
  cmd_history :: "u8 list list"
  cmd_history_index :: int
  show_window :: bool
  term_files :: "nat list"
  last_exit_code :: int

text \<open>The member initialisers; \<open>layer_id_\<close> has none, \<open>junk\<close> is what it holds.\<close>

definition blank_Terminal :: "nat \<Rightarrow> nat \<Rightarrow> bool \<Rightarrow> nat list \<Rightarrow> Terminal" where
  "blank_Terminal junk task show fds =
    \<lparr>term_window = None, term_layer_id = junk, term_task = task, cursor = Vec 0 0, cursor_visible = False,
     linebuf_index = 0, linebuf = replicate kLineMax 0, cmd_history = replicate 8 (replicate kLineMax 0),
     cmd_history_index = - 1, show_window = show, term_files = fds, last_exit_code = 0\<rparr>"

record 's drawing =
  d_write :: "'s \<Rightarrow> Vector2D \<Rightarrow> PixelColor \<Rightarrow> 's option"
  d_move :: "'s \<Rightarrow> Vector2D \<Rightarrow> Rectangle \<Rightarrow> 's option"
  d_hankaku :: "u8 list"
  d_ft :: FreeType

definition inner_write :: "'s drawing \<Rightarrow> 's \<Rightarrow> Vector2D \<Rightarrow> PixelColor \<Rightarrow> 's option" where
  "inner_write D s pos c = d_write D s (pos + kTopLeftMargin) c"

text \<open>A drawing operation on \<open>*window_\<close>.\<close>

definition on_window :: "('s \<Rightarrow> 's option) \<Rightarrow> Terminal \<times> 's option \<Rightarrow> (Terminal \<times> 's option) option" where
  "on_window f tw =
    (case snd tw of None \<Rightarrow> None | Some w \<Rightarrow> map_option (\<lambda>w'. (fst tw, Some w')) (f w))"

abbreviation white :: PixelColor where "white \<equiv> PixelColor 255 255 255"

section \<open>Cursor and scrolling\<close>

definition CalcCursorPos :: "Terminal \<Rightarrow> Vector2D" where
  "CalcCursorPos t = kTopLeftMargin + Vec (4 + 8 * vx (cursor t)) (4 + 16 * vy (cursor t))"

definition set_x :: "int \<Rightarrow> Terminal \<Rightarrow> Terminal" where
  "set_x x t = t\<lparr>cursor := Vec x (vy (cursor t))\<rparr>"

definition set_y :: "int \<Rightarrow> Terminal \<Rightarrow> Terminal" where
  "set_y y t = t\<lparr>cursor := Vec (vx (cursor t)) y\<rparr>"

definition DrawCursor :: "'s drawing \<Rightarrow> bool \<Rightarrow> Terminal \<times> 's option \<Rightarrow> (Terminal \<times> 's option) option" where
  "DrawCursor D visible tw =
    (if show_window (fst tw) then
       on_window (FillRectangle (d_write D) (CalcCursorPos (fst tw)) (Vec 1 15)
         (ToColor (if visible then terminalFGColor else terminalBGColor))) tw
     else Some tw)"

definition BlinkCursor ::
  "'s drawing \<Rightarrow> Terminal \<times> 's option \<Rightarrow> (Terminal \<times> 's option \<times> Rectangle) option" where
  "BlinkCursor D tw =
    (let t = (fst tw)\<lparr>cursor_visible := \<not> cursor_visible (fst tw)\<rparr> in
     map_option (\<lambda>(t, w). (t, w, Rect (CalcCursorPos t) (Vec 1 15))) (DrawCursor D (cursor_visible t) (t, snd tw)))"

definition Scroll1 :: "'s drawing \<Rightarrow> Terminal \<times> 's option \<Rightarrow> (Terminal \<times> 's option) option" where
  "Scroll1 D tw =
    on_window (\<lambda>w. do {
      w1 \<leftarrow> d_move D w (kTopLeftMargin + Vec 4 4)
             (Rect (kTopLeftMargin + Vec 4 (4 + 16)) (Vec (8 * kTermColumns) (16 * (kTermRows - 1))));
      FillRectangle (inner_write D) (Vec 4 (4 + 16 * vy (cursor (fst tw)))) (Vec (8 * kTermColumns) 16)
        (ToColor terminalBGColor) w1 }) tw"

text \<open>The next line, from the first column: in \<open>Print\<close> and \<open>InputKey\<close>.\<close>

definition newline :: "'s drawing \<Rightarrow> Terminal \<times> 's option \<Rightarrow> (Terminal \<times> 's option) option" where
  "newline D tw =
    (let t = set_x 0 (fst tw) in
     if vy (cursor t) < kTermRows - 1 then Some (set_y (vy (cursor t) + 1) t, snd tw)
     else Scroll1 D (t, snd tw))"

section \<open>Printing\<close>

definition draw_unicode ::
  "'s drawing \<Rightarrow> u32 \<Rightarrow> PixelColor \<Rightarrow> int \<Rightarrow> Terminal \<times> 's option \<Rightarrow> (Terminal \<times> 's option) option" where
  "draw_unicode D c color columns tw =
    map_option (\<lambda>(t, w). (set_x (vx (cursor t) + columns) t, w))
      (on_window (\<lambda>w. map_option fst (WriteUnicode (d_write D) (d_hankaku D) (d_ft D) (CalcCursorPos (fst tw)) c color w)) tw)"

definition Print_char ::
  "'s drawing \<Rightarrow> u32 \<Rightarrow> PixelColor \<Rightarrow> Terminal \<times> 's option \<Rightarrow> (Terminal \<times> 's option) option" where
  "Print_char D c color tw =
    (if \<not> show_window (fst tw) then Some tw
     else if c = 0x0a then newline D tw
     else if IsHankaku c then do {
       tw1 \<leftarrow> (if vx (cursor (fst tw)) = kTermColumns then newline D tw else Some tw);
       draw_unicode D c color 1 tw1
     }
     else do {
       tw1 \<leftarrow> (if vx (cursor (fst tw)) \<ge> kTermColumns - 1 then newline D tw else Some tw);
       draw_unicode D c color 2 tw1
     })"

text \<open>
  The loop of \<open>Print\<close>; \<open>mem\<close> is the memory from \<open>&s[i]\<close> on and \<open>left\<close> is \<open>len - i\<close>.  The character is
  read before the length is compared, also behind the end, where its value does not matter.  A byte
  that starts no character makes the loop run for ever.
\<close>

partial_function (option) print_loop ::
  "'s drawing \<Rightarrow> PixelColor \<Rightarrow> u8 list \<Rightarrow> nat option \<Rightarrow> Terminal \<times> 's option \<Rightarrow> (Terminal \<times> 's option) option" where
  "print_loop D color mem left tw =
    (case mem of
       [] \<Rightarrow> if left = Some 0 then Some tw else None
     | b # _ \<Rightarrow>
         if b = 0 \<or> left = Some 0 then Some tw
         else do {
           (u32, bytes) \<leftarrow> ConvertUTF8To32 mem;
           tw1 \<leftarrow> Print_char D u32 color tw;
           print_loop D color (drop bytes mem) (map_option (\<lambda>n. n - bytes) left) tw1
         })"

text \<open>\<open>Print\<close> up to the message: the result has the area to be redrawn.  \<open>inner\<close> is \<open>InnerSize\<close>.\<close>

definition Print_text ::
  "'s drawing \<Rightarrow> ('s \<Rightarrow> Vector2D) \<Rightarrow> u8 list \<Rightarrow> PixelColor \<Rightarrow> nat option \<Rightarrow> Terminal \<times> 's option
    \<Rightarrow> (Terminal \<times> 's option \<times> Rectangle) option" where
  "Print_text D inner mem color len tw =
    do {
      let cursor_before = CalcCursorPos (fst tw);
      tw1 \<leftarrow> DrawCursor D False tw;
      tw2 \<leftarrow> print_loop D color mem len tw1;
      tw3 \<leftarrow> DrawCursor D True tw2;
      let cursor_after = CalcCursorPos (fst tw3);
      w \<leftarrow> snd tw3;
      Some (fst tw3, snd tw3,
        Rect (Vec (vx kTopLeftMargin) (vy cursor_before)) (Vec (vx (inner w)) (vy cursor_after - vy cursor_before + 16)))
    }"

section \<open>Line editing\<close>

definition c_string :: "u8 list \<Rightarrow> u8 list" where
  "c_string bs = takeWhile (\<lambda>b. b \<noteq> 0) bs"

definition HistoryUpDown ::
  "'s drawing \<Rightarrow> int \<Rightarrow> Terminal \<times> 's option \<Rightarrow> (Terminal \<times> 's option \<times> Rectangle) option" where
  "HistoryUpDown D direction tw =
    (let t = fst tw;
         i = (if direction = - 1 \<and> cmd_history_index t \<ge> 0 then cmd_history_index t - 1
              else if direction = 1 \<and> cmd_history_index t + 1 < int (length (cmd_history t)) then cmd_history_index t + 1
              else cmd_history_index t);
         t1 = set_x 3 (t\<lparr>cmd_history_index := i\<rparr>);
         first_pos = CalcCursorPos t1;
         draw_area = Rect first_pos (Vec (8 * (kTermColumns - 3)) 16)
     in do {
       (t2, w2) \<leftarrow> on_window (FillRectangle (d_write D) (rpos draw_area) (rsize draw_area) (ToColor terminalBGColor)) (t1, snd tw);
       let history = (if i \<ge> 0 then c_string (cmd_history t2 ! nat i) else []);
       if length history \<ge> kLineMax then None
       else do {
         let t3 = t2\<lparr>linebuf := history @ 0 # drop (length history + 1) (linebuf t2), linebuf_index := length history\<rparr>;
         (t4, w4) \<leftarrow> on_window (DrawString (d_write D) (d_hankaku D) (d_ft D) first_pos (history @ [0]) white) (t3, w2);
         Some (set_x (int (linebuf_index t4) + 3) t4, w4, draw_area)
       }
     })"

text \<open>The cases of \<open>InputKey\<close>: Enter up to \<open>ExecuteLine\<close>, Backspace, and a character.\<close>

definition end_line :: "'s drawing \<Rightarrow> Terminal \<times> 's option \<Rightarrow> (Terminal \<times> 's option) option" where
  "end_line D tw =
    (let t = fst tw in
     if linebuf_index t \<ge> kLineMax then None
     else
       let t1 = t\<lparr>linebuf := (linebuf t)[linebuf_index t := 0]\<rparr>;
           t2 = (if linebuf_index t1 > 0 then t1\<lparr>cmd_history := linebuf t1 # butlast (cmd_history t1)\<rparr> else t1)
       in newline D (t2\<lparr>cmd_history_index := - 1\<rparr>, snd tw))"

definition input_backspace ::
  "'s drawing \<Rightarrow> Rectangle \<Rightarrow> Terminal \<times> 's option \<Rightarrow> (Terminal \<times> 's option \<times> Rectangle) option" where
  "input_backspace D draw_area tw =
    (let t = fst tw in
     if vx (cursor t) > 0 then
       let t1 = set_x (vx (cursor t) - 1) t in do {
         (t2, w2) \<leftarrow> (if show_window t1
           then on_window (FillRectangle (d_write D) (CalcCursorPos t1) (Vec 8 16) (PixelColor 0 0 0)) (t1, snd tw)
           else Some (t1, snd tw));
         Some (if linebuf_index t2 > 0 then t2\<lparr>linebuf_index := linebuf_index t2 - 1\<rparr> else t2, w2,
               Rect (CalcCursorPos t2) (rsize draw_area))
       }
     else Some (t, snd tw, draw_area))"

text \<open>The first part appends the character, the second wraps the line.\<close>

definition append_char :: "'s drawing \<Rightarrow> u8 \<Rightarrow> Terminal \<times> 's option \<Rightarrow> (Terminal \<times> 's option) option" where
  "append_char D ascii tw =
    (let t = fst tw in
     if vx (cursor t) < kTermColumns - 1 \<and> linebuf_index t < kLineMax - 1 then
       let t1 = t\<lparr>linebuf := (linebuf t)[linebuf_index t := ascii], linebuf_index := linebuf_index t + 1\<rparr> in do {
         (t2, w2) \<leftarrow> (if show_window t1
           then on_window (WriteAscii (d_write D) (d_hankaku D) (CalcCursorPos t1) ascii white) (t1, snd tw)
           else Some (t1, snd tw));
         Some (set_x (vx (cursor t2) + 1) t2, w2)
       }
     else Some tw)"

definition input_char :: "'s drawing \<Rightarrow> u8 \<Rightarrow> Terminal \<times> 's option \<Rightarrow> (Terminal \<times> 's option) option" where
  "input_char D ascii tw =
    do {
      tw1 \<leftarrow> append_char D ascii tw;
      if vx (cursor (fst tw1)) = kTermColumns - 1 then newline D tw1 else Some tw1
    }"

text \<open>\<open>InputKey\<close> without the case of Enter, which runs a command.\<close>

definition edit_case ::
  "'s drawing \<Rightarrow> u8 \<Rightarrow> u8 \<Rightarrow> Rectangle \<Rightarrow> Terminal \<times> 's option \<Rightarrow> (Terminal \<times> 's option \<times> Rectangle) option" where
  "edit_case D keycode ascii draw_area tw =
    (if ascii = 0x08 then input_backspace D draw_area tw
     else if ascii \<noteq> 0 then map_option (\<lambda>(t, w). (t, w, draw_area)) (input_char D ascii tw)
     else if keycode = 0x51 then HistoryUpDown D (- 1) tw
     else if keycode = 0x52 then HistoryUpDown D 1 tw
     else Some (fst tw, snd tw, draw_area))"

definition edit_key ::
  "'s drawing \<Rightarrow> u8 \<Rightarrow> u8 \<Rightarrow> Terminal \<times> 's option \<Rightarrow> (Terminal \<times> 's option \<times> Rectangle) option" where
  "edit_key D keycode ascii tw =
    do {
      tw1 \<leftarrow> DrawCursor D False tw;
      (t2, w2, area) \<leftarrow> edit_case D keycode ascii (Rect (CalcCursorPos (fst tw1)) (Vec (8 * 2) 16)) tw1;
      (t3, w3) \<leftarrow> DrawCursor D True (t2, w2);
      Some (t3, w3, area)
    }"

text \<open>A sequence of characters.\<close>

fun type_keys :: "'s drawing \<Rightarrow> u8 list \<Rightarrow> Terminal \<times> 's option \<Rightarrow> (Terminal \<times> 's option) option" where
  "type_keys D [] tw = Some tw"
| "type_keys D (c # cs) tw = do { (t, w, area) \<leftarrow> edit_key D 0 c tw; type_keys D cs (t, w) }"

section \<open>The contract of the screen\<close>

text \<open>The window has 496 by 276 pixels.  FreeType renders a character within 16 by 16 pixels.\<close>

definition screen_area :: "Vector2D \<Rightarrow> bool" where
  "screen_area p \<longleftrightarrow> in_rect (Vec 0 0) (Vec 496 276) p"

definition glyphs_in_cell :: "FreeType \<Rightarrow> bool" where
  "glyphs_in_cell ft \<longleftrightarrow> (\<forall>c. NewFTFace ft = kSuccess \<and> RenderUnicode ft c = kSuccess \<longrightarrow>
     (let g = ft_glyph ft (ft_get_char_index ft c) in
      face_units_per_EM g \<noteq> 0 \<and> glyph_readable g \<and>
      (\<forall>pos. \<forall>p \<in> set (glyph_points g (pos + Vec (bitmap_left g)
          ((face_height g + face_descender g) * face_y_ppem g sdiv face_units_per_EM g - bitmap_top g))).
        in_rect pos (Vec 16 16) p)))"

definition wf_cursor :: "Vector2D \<Rightarrow> bool" where
  "wf_cursor p \<longleftrightarrow> 0 \<le> vx p \<and> vx p \<le> kTermColumns \<and> 0 \<le> vy p \<and> vy p < kTermRows"

definition wf_line :: "u8 list \<Rightarrow> bool" where
  "wf_line h \<longleftrightarrow> length h = kLineMax \<and> 0 \<in> set h"

definition wf_term :: "Terminal \<Rightarrow> bool" where
  "wf_term t \<longleftrightarrow> wf_cursor (cursor t) \<and> linebuf_index t < kLineMax \<and> length (linebuf t) = kLineMax \<and>
     length (cmd_history t) = 8 \<and> (\<forall>h \<in> set (cmd_history t). wf_line h) \<and>
     - 1 \<le> cmd_history_index t \<and> cmd_history_index t < 8 \<and> show_window t"

lemmas grid_defs = kTermRows_def kTermColumns_def kLineMax_def kTopLeftMargin_def CalcCursorPos_def set_x_def set_y_def

text \<open>Where the cursor goes: down by one line, or scrolling in the last one.\<close>

definition next_row :: "int \<Rightarrow> int" where
  "next_row y = (if y < kTermRows - 1 then y + 1 else y)"

definition advance :: "u32 \<Rightarrow> Vector2D \<Rightarrow> Vector2D" where
  "advance c p =
    (if c = 0x0a then Vec 0 (next_row (vy p))
     else let n = (if IsHankaku c then 1 else 2) in
       if vx p + n > kTermColumns then Vec n (next_row (vy p)) else Vec (vx p + n) (vy p))"

lemma wf_cursor_advance: "wf_cursor p \<Longrightarrow> wf_cursor (advance c p)"
  by (auto simp: wf_cursor_def advance_def next_row_def grid_defs Let_def)

text \<open>A cell is 8 pixels wide and 16 high.\<close>

definition cell :: "Vector2D \<Rightarrow> int \<Rightarrow> bool" where
  "cell pos n \<longleftrightarrow> 0 \<le> vx pos \<and> 0 \<le> vy pos \<and> vx pos + 8 * n \<le> 496 \<and> vy pos + 16 \<le> 276"

text \<open>The commands in the history fit into the columns behind the prompt.\<close>

definition history_fits :: "Terminal \<Rightarrow> bool" where
  "history_fits t \<longleftrightarrow> (\<forall>h \<in> set (cmd_history t). length (c_string h) \<le> 57 \<and> (\<forall>b \<in> set (c_string h). b < 128))"

definition step_history :: "int \<Rightarrow> Terminal \<Rightarrow> int" where
  "step_history direction t = max (- 1) (min 7 (cmd_history_index t + direction))"

definition history_line :: "int \<Rightarrow> Terminal \<Rightarrow> u8 list" where
  "history_line i t = (if i \<ge> 0 then c_string (cmd_history t ! nat i) else [])"

locale text_screen =
  fixes D :: "'s drawing" and inv :: "'s \<Rightarrow> bool"
  assumes write_ok: "inv s \<Longrightarrow> screen_area p \<Longrightarrow> \<exists>s'. d_write D s p c = Some s' \<and> inv s'"
    and move_ok: "inv s \<Longrightarrow> \<exists>s'. d_move D s (Vec 8 28) (Rect (Vec 8 44) (Vec 480 224)) = Some s' \<and> inv s'"
    and font_ok: "inv s \<Longrightarrow> length (d_hankaku D) = 4096"
    and cell_ok: "inv s \<Longrightarrow> glyphs_in_cell (d_ft D)"
begin

lemma write_all_ok: "inv s \<Longrightarrow> \<forall>p \<in> set ps. screen_area p \<Longrightarrow> \<exists>s'. write_all (d_write D) ps c s = Some s' \<and> inv s'"
proof (induction ps arbitrary: s)
  case (Cons p ps)
  then obtain u where "d_write D s p c = Some u" "inv u" using write_ok [of s p c] by auto
  with Cons show ?case by auto
qed simp

lemma Fill_ok:
  "inv s \<Longrightarrow> 0 \<le> vx pos \<Longrightarrow> 0 \<le> vy pos \<Longrightarrow> vx pos + vx sz \<le> 496 \<Longrightarrow> vy pos + vy sz \<le> 276 \<Longrightarrow>
     \<exists>s'. FillRectangle (d_write D) pos sz c s = Some s' \<and> inv s'"
  unfolding FillRectangle_def
  by (rule write_all_ok) (auto simp: set_fill_points screen_area_def in_rect_def)

lemma inner_write_all:
  "write_all (inner_write D) ps c s = write_all (d_write D) (map (\<lambda>p. p + kTopLeftMargin) ps) c s"
  by (induction ps arbitrary: s) (auto simp: inner_write_def split: option.splits)

lemma Fill_inner_ok:
  assumes "inv s" "0 \<le> vx pos" "0 \<le> vy pos" "vx pos + vx sz \<le> 488" "vy pos + vy sz \<le> 252"
  shows "\<exists>s'. FillRectangle (inner_write D) pos sz c s = Some s' \<and> inv s'"
  unfolding FillRectangle_def inner_write_all
  by (rule write_all_ok) (use assms in \<open>auto simp: set_fill_points screen_area_def in_rect_def kTopLeftMargin_def\<close>)

lemma cell_cursor: "wf_cursor (cursor t) \<Longrightarrow> vx (cursor t) + n \<le> kTermColumns + 1 \<Longrightarrow> cell (CalcCursorPos t) n"
  by (auto simp: cell_def wf_cursor_def grid_defs)

lemma WriteAscii_ok:
  assumes "inv s" "cell pos 1"
  shows "\<exists>s'. WriteAscii (d_write D) (d_hankaku D) pos ch color s = Some s' \<and> inv s'"
proof -
  have "\<forall>p \<in> set (ascii_points font pos). screen_area p" for font
    using assms(2) by (auto simp: ascii_points_def screen_area_def in_rect_def cell_def)
  from write_all_ok [OF assms(1) this] GetFont_readable [OF font_ok [OF assms(1)]] assms(1) show ?thesis
    by (fastforce simp: WriteAscii_def split: option.split)
qed

lemma WriteUnicode_ok:
  assumes "inv s" "cell pos (if IsHankaku c then 1 else 2)"
  shows "\<exists>s' e. WriteUnicode (d_write D) (d_hankaku D) (d_ft D) pos c color s = Some (s', e) \<and> inv s'"
proof (cases "c \<le> 0x7f")
  case True
  then show ?thesis using WriteAscii_ok [OF assms(1)] assms(2) by (fastforce simp: WriteUnicode_def IsHankaku_def)
next
  case False
  then have c: "cell pos 1" "cell (pos + Vec 8 0) 1" "cell pos 2" using assms(2) by (auto simp: IsHankaku_def cell_def)
  obtain s1 where s1: "WriteAscii (d_write D) (d_hankaku D) pos 0x3f color s = Some s1" "inv s1"
    using WriteAscii_ok [OF assms(1) c(1)] by blast
  obtain s2 where s2: "WriteAscii (d_write D) (d_hankaku D) (pos + Vec 8 0) 0x3f color s1 = Some s2" "inv s2"
    using WriteAscii_ok [OF s1(2) c(2)] by blast
  show ?thesis
  proof (cases "NewFTFace (d_ft D) = kSuccess \<and> RenderUnicode (d_ft D) c = kSuccess")
    case True
    let ?g = "ft_glyph (d_ft D) (ft_get_char_index (d_ft D) c)"
    let ?ps = "glyph_points ?g (pos + Vec (bitmap_left ?g)
          ((face_height ?g + face_descender ?g) * face_y_ppem ?g sdiv face_units_per_EM ?g - bitmap_top ?g))"
    have g: "face_units_per_EM ?g \<noteq> 0" "glyph_readable ?g" "\<forall>p \<in> set ?ps. in_rect pos (Vec 16 16) p"
      using cell_ok [OF assms(1)] True unfolding glyphs_in_cell_def Let_def by blast+
    have "\<forall>p \<in> set ?ps. screen_area p" using g(3) c(3) by (fastforce simp: in_rect_def screen_area_def cell_def)
    from write_all_ok [OF assms(1) this] g(1,2) True False show ?thesis
      by (auto simp: WriteUnicode_def Let_def)
  next
    case no: False
    with s1 s2 False show ?thesis by (auto simp: WriteUnicode_def Let_def)
  qed
qed

lemma on_window_ok:
  assumes "\<exists>s'. f s = Some s' \<and> inv s'"
  shows "\<exists>s'. on_window f (t, Some s) = Some (t, Some s') \<and> inv s'"
  using assms by (auto simp: on_window_def)

lemma DrawCursor_ok:
  assumes "wf_cursor (cursor t)" "inv s"
  shows "\<exists>s'. DrawCursor D v (t, Some s) = Some (t, Some s') \<and> inv s'"
proof -
  have "\<exists>s'. FillRectangle (d_write D) (CalcCursorPos t) (Vec 1 15) c s = Some s' \<and> inv s'" for c
    by (rule Fill_ok [OF assms(2)]) (use assms(1) in \<open>auto simp: wf_cursor_def grid_defs\<close>)
  then show ?thesis using assms(2) on_window_ok by (auto simp: DrawCursor_def)
qed

lemma newline_ok:
  assumes "wf_cursor (cursor t)" "inv s"
  shows "\<exists>s'. newline D (t, Some s) = Some (t\<lparr>cursor := Vec 0 (next_row (vy (cursor t)))\<rparr>, Some s') \<and> inv s'"
proof (cases "vy (cursor t) < kTermRows - 1")
  case True
  then show ?thesis using assms(2) by (simp add: newline_def next_row_def grid_defs)
next
  case False
  then have y: "vy (cursor t) = 14" using assms(1) by (simp add: wf_cursor_def grid_defs)
  obtain s1 where s1: "d_move D s (Vec 8 28) (Rect (Vec 8 44) (Vec 480 224)) = Some s1" "inv s1"
    using move_ok [OF assms(2)] by blast
  obtain s2 where "FillRectangle (inner_write D) (Vec 4 228) (Vec 480 16) (ToColor terminalBGColor) s1 = Some s2" "inv s2"
    using Fill_inner_ok [OF s1(2), of "Vec 4 228" "Vec 480 16"] by auto
  with s1 y False show ?thesis
    by (auto simp: newline_def Scroll1_def on_window_def next_row_def grid_defs)
qed

lemma draw_unicode_ok:
  assumes "wf_cursor (cursor t)" "inv s" "vx (cursor t) + (if IsHankaku c then 1 else 2) \<le> kTermColumns"
  shows "\<exists>s'. draw_unicode D c color n (t, Some s) =
      Some (t\<lparr>cursor := Vec (vx (cursor t) + n) (vy (cursor t))\<rparr>, Some s') \<and> inv s'"
proof -
  have "cell (CalcCursorPos t) (if IsHankaku c then 1 else 2)" using cell_cursor [OF assms(1)] assms(3) by simp
  from WriteUnicode_ok [OF assms(2) this] obtain s' e where
    "WriteUnicode (d_write D) (d_hankaku D) (d_ft D) (CalcCursorPos t) c color s = Some (s', e)" "inv s'" by blast
  then show ?thesis by (simp add: draw_unicode_def on_window_def set_x_def)
qed

lemma Print_char_ok:
  assumes "wf_cursor (cursor t)" "show_window t" "inv s"
  shows "\<exists>s'. Print_char D c color (t, Some s) = Some (t\<lparr>cursor := advance c (cursor t)\<rparr>, Some s') \<and> inv s'"
proof -
  let ?n = "if IsHankaku c then 1 else 2 :: int"
  obtain s1 where s1: "newline D (t, Some s) = Some (t\<lparr>cursor := Vec 0 (next_row (vy (cursor t)))\<rparr>, Some s1)" "inv s1"
    using newline_ok [OF assms(1,3)] by blast
  have x: "vx (cursor t) \<le> 60" using assms(1) by (simp add: wf_cursor_def kTermColumns_def)
  show ?thesis
  proof (cases "c = 0x0a")
    case True
    then show ?thesis using s1 assms(2) by (auto simp: Print_char_def advance_def)
  next
    case nl: False
    show ?thesis
    proof (cases "vx (cursor t) + ?n > kTermColumns")
      case True
      let ?t = "t\<lparr>cursor := Vec 0 (next_row (vy (cursor t)))\<rparr>"
      have "wf_cursor (cursor ?t)" using assms(1) by (simp add: wf_cursor_def next_row_def grid_defs)
      from draw_unicode_ok [OF this s1(2), of c color ?n] obtain s' where
        "draw_unicode D c color ?n (?t, Some s1) = Some (?t\<lparr>cursor := Vec ?n (next_row (vy (cursor t)))\<rparr>, Some s')" "inv s'"
        by (cases "IsHankaku c") (auto simp: kTermColumns_def)
      then show ?thesis using nl True s1 x assms(2) by (auto simp: Print_char_def advance_def kTermColumns_def)
    next
      case False
      from draw_unicode_ok [OF assms(1,3), of c color ?n] False obtain s' where
        "draw_unicode D c color ?n (t, Some s) = Some (t\<lparr>cursor := Vec (vx (cursor t) + ?n) (vy (cursor t))\<rparr>, Some s')" "inv s'"
        by auto
      then show ?thesis using nl False x assms(2) by (auto simp: Print_char_def advance_def kTermColumns_def)
    qed
  qed
qed

text \<open>The text is a sequence of encoded characters with a terminator within the length.\<close>

lemma print_loop_ok:
  assumes "\<forall>n \<in> set ns. code_point n"
  shows "wf_cursor (cursor t) \<Longrightarrow> show_window t \<Longrightarrow> inv s \<Longrightarrow> \<forall>k. len = Some k \<longrightarrow> length (utf8_string ns) \<le> k \<Longrightarrow>
    \<exists>s'. print_loop D color (utf8_string ns @ 0 # rest) len (t, Some s) =
      Some (t\<lparr>cursor := fold advance (map of_nat ns) (cursor t)\<rparr>, Some s') \<and> inv s'"
  using assms
proof (induction ns arbitrary: t s len)
  case Nil
  then show ?case by (subst print_loop.simps) (simp add: utf8_string_def)
next
  case (Cons n ns)
  have n: "code_point n" "n < 0x200000" using Cons.prems by (auto simp: code_point_def)
  define tail where "tail = utf8_string ns @ 0 # rest"
  have str: "utf8_string (n # ns) @ 0 # rest = utf8_encode n @ tail" by (simp add: utf8_string_def tail_def)
  obtain b bs where b: "utf8_encode n = b # bs" "b \<noteq> 0" using utf8_encode_head [OF n(1)] by (cases "utf8_encode n") auto
  have len: "length (utf8_encode n) + length (utf8_string ns) \<le> k" if "len = Some k" for k
    using Cons.prems(4) that by (simp add: utf8_string_def)
  then have l0: "len \<noteq> Some 0" using b(1) by auto
  from Print_char_ok [OF Cons.prems(1-3), of "of_nat n" color] obtain s1 where
    s1: "Print_char D (of_nat n) color (t, Some s) = Some (t\<lparr>cursor := advance (of_nat n) (cursor t)\<rparr>, Some s1)" "inv s1"
    by blast
  have step: "print_loop D color (utf8_encode n @ tail) len (t, Some s) =
      print_loop D color tail (map_option (\<lambda>k. k - length (utf8_encode n)) len) (t\<lparr>cursor := advance (of_nat n) (cursor t)\<rparr>, Some s1)"
    using b l0 s1(1) Convert_encode [OF n(2), of tail] by (subst print_loop.simps) simp
  have "\<exists>s'. print_loop D color (utf8_string ns @ 0 # rest) (map_option (\<lambda>k. k - length (utf8_encode n)) len)
        (t\<lparr>cursor := advance (of_nat n) (cursor t)\<rparr>, Some s1) =
      Some (t\<lparr>cursor := advance (of_nat n) (cursor t), cursor := fold advance (map of_nat ns)
        (cursor (t\<lparr>cursor := advance (of_nat n) (cursor t)\<rparr>))\<rparr>, Some s') \<and> inv s'"
    by (rule Cons.IH) (use Cons.prems s1(2) wf_cursor_advance len in auto)
  then show ?case unfolding str step by (simp add: tail_def)
qed

lemma wf_cursor_fold: "wf_cursor p \<Longrightarrow> wf_cursor (fold advance cs p)"
  by (induction cs arbitrary: p) (simp_all add: wf_cursor_advance)

lemma Print_text_ok:
  assumes "\<forall>n \<in> set ns. code_point n" "wf_cursor (cursor t)" "show_window t" "inv s"
    "\<forall>k. len = Some k \<longrightarrow> length (utf8_string ns) \<le> k"
  shows "\<exists>s' area. Print_text D inner (utf8_string ns @ 0 # rest) color len (t, Some s) =
      Some (t\<lparr>cursor := fold advance (map of_nat ns) (cursor t)\<rparr>, Some s', area) \<and> inv s'"
proof -
  let ?t = "t\<lparr>cursor := fold advance (map of_nat ns) (cursor t)\<rparr>"
  obtain s1 where s1: "DrawCursor D False (t, Some s) = Some (t, Some s1)" "inv s1" using DrawCursor_ok [OF assms(2,4)] by blast
  obtain s2 where s2: "print_loop D color (utf8_string ns @ 0 # rest) len (t, Some s1) = Some (?t, Some s2)" "inv s2"
    using print_loop_ok [OF assms(1-3) s1(2) assms(5)] by blast
  have "wf_cursor (cursor ?t)" using wf_cursor_fold [OF assms(2)] by simp
  then obtain s3 where "DrawCursor D True (?t, Some s2) = Some (?t, Some s3)" "inv s3" using DrawCursor_ok [of ?t, OF _ s2(2)] by blast
  with s1 s2 show ?thesis by (simp add: Print_text_def Let_def)
qed

text \<open>A string of ASCII characters that ends within the columns.\<close>

lemma WriteString_ascii_ok:
  assumes "\<forall>b \<in> set h. 0 < b \<and> b < 128"
  shows "inv s \<Longrightarrow> 0 \<le> x \<Longrightarrow> cell (pos + Vec (8 * x) 0) (int (length h)) \<Longrightarrow> length h < fuel \<Longrightarrow>
    \<exists>s'. WriteString_loop fuel (d_write D) (d_hankaku D) (d_ft D) pos (h @ [0]) x color s = Some s' \<and> inv s'"
  using assms
proof (induction h arbitrary: s x fuel)
  case Nil
  then show ?case by (cases fuel) auto
next
  case (Cons b h)
  have b: "0 < b" "b < 128" using Cons.prems(5) by auto
  have ub: "unat b < 128" using b(2) by (simp add: word_less_nat_alt)
  have conv: "ConvertUTF8To32 (b # h @ [0]) = Some (of_nat (unat b), 1)"
    using Convert_encode [of "unat b" "h @ [0]"] ub by (simp add: utf8_encode_def)
  have hank: "IsHankaku (of_nat (unat b))" using IsHankaku_of_nat [of "unat b"] ub by simp
  obtain k where k: "fuel = Suc k" "length h < k" using Cons.prems(4) by (cases fuel) auto
  have "cell (pos + Vec (8 * x) 0) (if IsHankaku (of_nat (unat b)) then 1 else 2)"
    using Cons.prems(3) hank by (simp add: cell_def)
  from WriteUnicode_ok [OF Cons.prems(1) this, of color] obtain s1 e where
    s1: "WriteUnicode (d_write D) (d_hankaku D) (d_ft D) (pos + Vec (8 * x) 0) (of_nat (unat b)) color s = Some (s1, e)" "inv s1"
    by blast
  have "cell (pos + Vec (8 * (x + 1)) 0) (int (length h))" using Cons.prems(2,3) by (simp add: cell_def)
  from Cons.IH [OF s1(2) _ this k(2)] Cons.prems(2,5) obtain s' where
    "WriteString_loop k (d_write D) (d_hankaku D) (d_ft D) pos (h @ [0]) (x + 1) color s1 = Some s'" "inv s'" by auto
  moreover have "b \<noteq> 0" using b(1) by auto
  ultimately show ?case using k(1) conv hank s1(1) by simp
qed

lemma history_line_ok:
  assumes "wf_term t" "history_fits t" "i < 8"
  shows "length (history_line i t) \<le> 57" "\<forall>b \<in> set (history_line i t). 0 < b \<and> b < 128"
proof -
  have "history_line i t = [] \<or> (\<exists>x \<in> set (cmd_history t). history_line i t = c_string x)"
    using assms by (auto simp: history_line_def wf_term_def intro!: nth_mem)
  then show "length (history_line i t) \<le> 57" "\<forall>b \<in> set (history_line i t). 0 < b \<and> b < 128"
    using assms(2) by (auto simp: history_fits_def c_string_def word_gt_0 dest: set_takeWhileD)
qed

lemma HistoryUpDown_ok:
  assumes t: "wf_term t" "history_fits t" and "inv s" and dir: "direction = 1 \<or> direction = - 1"
  shows "\<exists>t' s' area. HistoryUpDown D direction (t, Some s) = Some (t', Some s', area) \<and> wf_term t' \<and> inv s' \<and>
    cmd_history t' = cmd_history t \<and> cmd_history_index t' = step_history direction t \<and>
    linebuf_index t' = length (history_line (step_history direction t) t) \<and>
    c_string (linebuf t') = history_line (step_history direction t) t \<and>
    cursor t' = Vec (3 + int (linebuf_index t')) (vy (cursor t))"
proof -
  define i where "i = step_history direction t"
  define h where "h = history_line i t"
  have r: "- 1 \<le> cmd_history_index t" "cmd_history_index t < 8" "length (cmd_history t) = 8" using t(1) by (simp_all add: wf_term_def)
  have eq: "(if direction = - 1 \<and> cmd_history_index t \<ge> 0 then cmd_history_index t - 1
      else if direction = 1 \<and> cmd_history_index t + 1 < int (length (cmd_history t)) then cmd_history_index t + 1
      else cmd_history_index t) = i" using r dir by (auto simp: i_def step_history_def)
  have i: "- 1 \<le> i" "i < 8" by (simp_all add: i_def step_history_def)
  have h: "length h \<le> 57" "\<forall>b \<in> set h. 0 < b \<and> b < 128" using history_line_ok [OF t i(2)] by (simp_all add: h_def)
  define t1 where "t1 = set_x 3 (t\<lparr>cmd_history_index := i\<rparr>)"
  have y: "0 \<le> vy (cursor t)" "vy (cursor t) < 15" using t(1) by (simp_all add: wf_term_def wf_cursor_def kTermRows_def)
  have pos: "CalcCursorPos t1 = Vec 32 (28 + 16 * vy (cursor t))" by (simp add: t1_def grid_defs)
  obtain s1 where s1: "FillRectangle (d_write D) (CalcCursorPos t1) (Vec (8 * (kTermColumns - 3)) 16) (ToColor terminalBGColor) s = Some s1"
    "inv s1"
    using Fill_ok [OF assms(3), of "CalcCursorPos t1" "Vec (8 * (kTermColumns - 3)) 16"] y by (auto simp: pos kTermColumns_def)
  have "cell (CalcCursorPos t1 + Vec (8 * 0) 0) (int (length h))" using y h(1) by (simp add: cell_def pos)
  from WriteString_ascii_ok [OF h(2) s1(2) _ this, of "length h + 2"] obtain s2 where
    s2: "DrawString (d_write D) (d_hankaku D) (d_ft D) (CalcCursorPos t1) (h @ [0]) white s1 = Some s2" "inv s2"
    by (auto simp: DrawString_def WriteString_def)
  define t2 where "t2 = t1\<lparr>linebuf := h @ 0 # drop (length h + 1) (linebuf t1), linebuf_index := length h\<rparr>"
  define t' where "t' = set_x (int (length h) + 3) t2"
  have hist: "(if i \<ge> 0 then c_string (cmd_history t1 ! nat i) else []) = h"
    by (simp add: h_def history_line_def t1_def set_x_def)
  have "HistoryUpDown D direction (t, Some s) = Some (t', Some s2, Rect (CalcCursorPos t1) (Vec (8 * (kTermColumns - 3)) 16))"
    unfolding HistoryUpDown_def Let_def fst_conv snd_conv eq t1_def [symmetric]
    using s1(1) s2(1) h(1) by (simp add: on_window_def hist t'_def t2_def kLineMax_def)
  moreover have "wf_term t'"
    using t(1) h(1) i y by (simp add: wf_term_def t'_def t2_def t1_def wf_cursor_def grid_defs)
  moreover have "c_string (linebuf t') = h"
    using h(2) by (simp add: t'_def t2_def set_x_def c_string_def takeWhile_append2 word_gt_0)
  moreover have "cmd_history t' = cmd_history t" "cmd_history_index t' = i" "linebuf_index t' = length h"
    "cursor t' = Vec (3 + int (length h)) (vy (cursor t))"
    by (simp_all add: t'_def t2_def t1_def set_x_def)
  ultimately show ?thesis using s2(2) unfolding i_def [symmetric] h_def [symmetric] by metis
qed

lemma end_line_ok:
  assumes "wf_term t" "inv s"
  shows "\<exists>t' s'. end_line D (t, Some s) = Some (t', Some s') \<and> wf_term t' \<and> inv s' \<and>
    linebuf t' = (linebuf t)[linebuf_index t := 0] \<and> linebuf_index t' = linebuf_index t \<and> vx (cursor t') = 0 \<and>
    (linebuf_index t > 0 \<longrightarrow> hd (cmd_history t') = linebuf t')"
proof -
  let ?t1 = "t\<lparr>linebuf := (linebuf t)[linebuf_index t := 0]\<rparr>"
  let ?t2 = "(if linebuf_index ?t1 > 0 then ?t1\<lparr>cmd_history := linebuf ?t1 # butlast (cmd_history ?t1)\<rparr> else ?t1)
    \<lparr>cmd_history_index := - 1\<rparr>"
  have i: "linebuf_index t < kLineMax" "length (linebuf t) = kLineMax" using assms(1) by (simp_all add: wf_term_def)
  then have "wf_line (linebuf ?t1)" by (simp add: wf_line_def set_update_memI)
  then have wf2: "wf_term ?t2" using assms(1) by (auto simp: wf_term_def kLineMax_def dest: in_set_butlastD)
  then have "wf_cursor (cursor ?t2)" by (simp only: wf_term_def)
  from newline_ok [OF this assms(2)] obtain s' where
    n: "newline D (?t2, Some s) = Some (?t2\<lparr>cursor := Vec 0 (next_row (vy (cursor ?t2)))\<rparr>, Some s')" "inv s'" by blast
  let ?t' = "?t2\<lparr>cursor := Vec 0 (next_row (vy (cursor ?t2)))\<rparr>"
  have "end_line D (t, Some s) = Some (?t', Some s')" using n(1) i by (simp add: end_line_def Let_def)
  moreover have "wf_term ?t'" using wf2 by (auto simp: wf_term_def wf_cursor_def next_row_def grid_defs)
  ultimately show ?thesis using n(2) by (intro exI [of _ ?t'] exI [of _ s']) simp
qed

lemma input_backspace_ok:
  assumes "wf_term t" "inv s"
  shows "\<exists>t' s' area. input_backspace D a (t, Some s) = Some (t', Some s', area) \<and> wf_term t' \<and> inv s' \<and>
    cmd_history t' = cmd_history t \<and> linebuf t' = linebuf t \<and>
    linebuf_index t' = (if vx (cursor t) > 0 then linebuf_index t - 1 else linebuf_index t) \<and>
    cursor t' = Vec (max 0 (vx (cursor t) - 1)) (vy (cursor t))"
proof (cases "vx (cursor t) > 0")
  case True
  let ?t1 = "set_x (vx (cursor t) - 1) t"
  have c: "wf_cursor (cursor t)" "show_window t" using assms(1) by (simp_all add: wf_term_def)
  obtain s1 where "FillRectangle (d_write D) (CalcCursorPos ?t1) (Vec 8 16) (PixelColor 0 0 0) s = Some s1" "inv s1"
    using Fill_ok [OF assms(2), of "CalcCursorPos ?t1" "Vec 8 16"] c True by (auto simp: wf_cursor_def grid_defs)
  moreover have "wf_term (?t1\<lparr>linebuf_index := linebuf_index ?t1 - 1\<rparr>)" "wf_term ?t1"
    using assms(1) True by (auto simp: wf_term_def wf_cursor_def grid_defs)
  ultimately show ?thesis using True c
    by (auto simp: input_backspace_def on_window_def set_x_def Let_def)
next
  case False
  then have "max 0 (vx (cursor t) - 1) = vx (cursor t)" using assms(1) by (simp add: wf_term_def wf_cursor_def)
  with False show ?thesis using assms by (cases "cursor t") (auto simp: input_backspace_def)
qed

lemma append_char_ok:
  assumes "wf_term t" "inv s" "vx (cursor t) < kTermColumns - 1" "linebuf_index t < kLineMax - 1"
  shows "\<exists>s'. append_char D ascii (t, Some s) = Some (set_x (vx (cursor t) + 1)
      (t\<lparr>linebuf := (linebuf t)[linebuf_index t := ascii], linebuf_index := linebuf_index t + 1\<rparr>), Some s') \<and> inv s'"
proof -
  let ?t1 = "t\<lparr>linebuf := (linebuf t)[linebuf_index t := ascii], linebuf_index := linebuf_index t + 1\<rparr>"
  have "wf_cursor (cursor ?t1)" "show_window t" using assms(1) by (simp_all add: wf_term_def)
  moreover have "cell (CalcCursorPos ?t1) 1"
    by (rule cell_cursor) (use assms in \<open>simp_all add: wf_term_def kTermColumns_def\<close>)
  from WriteAscii_ok [OF assms(2) this] obtain s' where
    "WriteAscii (d_write D) (d_hankaku D) (CalcCursorPos ?t1) ascii white s = Some s'" "inv s'" by blast
  ultimately show ?thesis using assms(3,4) by (simp add: append_char_def on_window_def Let_def)
qed

text \<open>One character: taken when there is room, and the line wraps before the last column.\<close>

lemma input_char_ok:
  assumes "wf_term t" "inv s"
  shows "\<exists>t' s'. input_char D ascii (t, Some s) = Some (t', Some s') \<and> wf_term t' \<and> inv s' \<and> cmd_history t' = cmd_history t \<and>
    (if vx (cursor t) < kTermColumns - 1 \<and> linebuf_index t < kLineMax - 1
     then linebuf t' = (linebuf t)[linebuf_index t := ascii] \<and> linebuf_index t' = linebuf_index t + 1 \<and>
       vx (cursor t') < kTermColumns - 1
     else linebuf t' = linebuf t \<and> linebuf_index t' = linebuf_index t)"
proof -
  define b where "b \<longleftrightarrow> vx (cursor t) < kTermColumns - 1 \<and> linebuf_index t < kLineMax - 1"
  define t1 where "t1 = (if b then set_x (vx (cursor t) + 1)
      (t\<lparr>linebuf := (linebuf t)[linebuf_index t := ascii], linebuf_index := linebuf_index t + 1\<rparr>) else t)"
  have "\<exists>s1. append_char D ascii (t, Some s) = Some (t1, Some s1) \<and> inv s1"
  proof (cases b)
    case True
    then show ?thesis using append_char_ok [OF assms, of ascii] by (simp add: b_def t1_def)
  next
    case False
    then have "append_char D ascii (t, Some s) = Some (t, Some s)" unfolding b_def by (auto simp: append_char_def)
    with False assms(2) show ?thesis by (simp add: t1_def)
  qed
  then obtain s1 where s1: "append_char D ascii (t, Some s) = Some (t1, Some s1)" "inv s1" by blast
  have wf1: "wf_term t1"
    using assms(1) by (auto simp: t1_def b_def wf_term_def wf_cursor_def grid_defs)
  have f: "cmd_history t1 = cmd_history t" "b \<Longrightarrow> vx (cursor t1) < kTermColumns"
    "if b then linebuf t1 = (linebuf t)[linebuf_index t := ascii] \<and> linebuf_index t1 = linebuf_index t + 1
     else linebuf t1 = linebuf t \<and> linebuf_index t1 = linebuf_index t"
    by (auto simp: t1_def b_def set_x_def)
  show ?thesis
  proof (cases "vx (cursor t1) = kTermColumns - 1")
    case True
    have "wf_cursor (cursor t1)" using wf1 by (simp add: wf_term_def)
    from newline_ok [OF this s1(2)] obtain s2 where
      s2: "newline D (t1, Some s1) = Some (t1\<lparr>cursor := Vec 0 (next_row (vy (cursor t1)))\<rparr>, Some s2)" "inv s2" by blast
    have "wf_term (t1\<lparr>cursor := Vec 0 (next_row (vy (cursor t1)))\<rparr>)"
      using wf1 by (auto simp: wf_term_def wf_cursor_def next_row_def grid_defs)
    with s1(1) s2 True f show ?thesis
      unfolding b_def [symmetric] by (simp add: input_char_def kTermColumns_def)
  next
    case False
    with f(2) have "b \<Longrightarrow> vx (cursor t1) < kTermColumns - 1" by simp
    with False s1 wf1 f show ?thesis unfolding b_def [symmetric] by (simp add: input_char_def)
  qed
qed

lemma edit_case_ok:
  assumes "wf_term t" "inv s" "ascii = 0 \<Longrightarrow> history_fits t"
  shows "\<exists>t' s' area. edit_case D keycode ascii a (t, Some s) = Some (t', Some s', area) \<and> wf_term t' \<and> inv s' \<and>
    cmd_history t' = cmd_history t"
proof -
  consider "ascii = 8" | "ascii \<noteq> 8" "ascii \<noteq> 0" | "ascii = 0" "keycode = 0x51" | "ascii = 0" "keycode = 0x52"
    | "ascii = 0" "keycode \<noteq> 0x51" "keycode \<noteq> 0x52" by blast
  then show ?thesis
  proof cases
    case 1
    then show ?thesis using input_backspace_ok [OF assms(1,2), of a] by (auto simp: edit_case_def)
  next
    case 2
    then show ?thesis using input_char_ok [OF assms(1,2), of ascii] by (auto simp: edit_case_def)
  next
    case 3
    then show ?thesis using HistoryUpDown_ok [OF assms(1) assms(3) assms(2), of "- 1"] by (auto simp: edit_case_def)
  next
    case 4
    then show ?thesis using HistoryUpDown_ok [OF assms(1) assms(3) assms(2), of 1] by (auto simp: edit_case_def)
  next
    case 5
    then show ?thesis using assms(1,2) by (simp add: edit_case_def)
  qed
qed

text \<open>The cursor is drawn before and after, and changes nothing else.\<close>

lemma edit_key_case:
  assumes "wf_term t" "inv s"
    and result: "\<And>a s. inv s \<Longrightarrow> \<exists>t' s' area. edit_case D keycode ascii a (t, Some s) = Some (t', Some s', area) \<and> wf_term t' \<and>
      inv s' \<and> Q t'"
  shows "\<exists>t' s' area. edit_key D keycode ascii (t, Some s) = Some (t', Some s', area) \<and> wf_term t' \<and> inv s' \<and> Q t'"
proof -
  have c: "wf_cursor (cursor t)" using assms(1) by (simp add: wf_term_def)
  obtain s1 where s1: "DrawCursor D False (t, Some s) = Some (t, Some s1)" "inv s1" using DrawCursor_ok [OF c assms(2)] by blast
  from result [OF s1(2)] obtain t2 s2 area where
    r: "edit_case D keycode ascii (Rect (CalcCursorPos t) (Vec (8 * 2) 16)) (t, Some s1) = Some (t2, Some s2, area)"
      "wf_term t2" "inv s2" "Q t2" by blast
  have "wf_cursor (cursor t2)" using r(2) by (simp add: wf_term_def)
  then obtain s3 where "DrawCursor D True (t2, Some s2) = Some (t2, Some s3)" "inv s3" using DrawCursor_ok [of t2, OF _ r(3)] by blast
  with s1(1) r show ?thesis by (simp add: edit_key_def)
qed

lemma edit_key_ok:
  assumes "wf_term t" "inv s" "ascii = 0 \<Longrightarrow> history_fits t"
  shows "\<exists>t' s' area. edit_key D keycode ascii (t, Some s) = Some (t', Some s', area) \<and> wf_term t' \<and> inv s' \<and>
    cmd_history t' = cmd_history t"
  by (rule edit_key_case [OF assms(1,2)]) (rule edit_case_ok [OF assms(1) _ assms(3)])

lemma type_keys_ok:
  assumes "\<forall>c \<in> set cs. c \<noteq> 0 \<and> c \<noteq> 8"
  shows "wf_term t \<Longrightarrow> inv s \<Longrightarrow> vx (cursor t) < kTermColumns - 1 \<Longrightarrow> linebuf_index t + length cs < kLineMax \<Longrightarrow>
    \<exists>t' s'. type_keys D cs (t, Some s) = Some (t', Some s') \<and> wf_term t' \<and> inv s' \<and> cmd_history t' = cmd_history t \<and>
      linebuf_index t' = linebuf_index t + length cs \<and>
      take (linebuf_index t') (linebuf t') = take (linebuf_index t) (linebuf t) @ cs \<and> vx (cursor t') < kTermColumns - 1"
  using assms
proof (induction cs arbitrary: t s)
  case (Cons c cs)
  let ?Q = "\<lambda>t'. cmd_history t' = cmd_history t \<and> linebuf t' = (linebuf t)[linebuf_index t := c] \<and>
    linebuf_index t' = linebuf_index t + 1 \<and> vx (cursor t') < kTermColumns - 1"
  have i: "linebuf_index t < kLineMax - 1" using Cons.prems(4) by (simp add: kLineMax_def)
  have "\<exists>t' s' area. edit_case D 0 c a (t, Some u) = Some (t', Some s', area) \<and> wf_term t' \<and> inv s' \<and> ?Q t'" if "inv u" for a u
    using input_char_ok [OF Cons.prems(1) that, of c] Cons.prems(3,5) i by (auto simp: edit_case_def)
  from edit_key_case [OF Cons.prems(1,2) this] obtain t1 s1 area where
    t1: "edit_key D 0 c (t, Some s) = Some (t1, Some s1, area)" "wf_term t1" "inv s1" "?Q t1" by blast
  have "linebuf_index t < length (linebuf t)" using Cons.prems(1) by (simp add: wf_term_def)
  then have tk: "take (linebuf_index t1) (linebuf t1) = take (linebuf_index t) (linebuf t) @ [c]"
    using t1(4) by (simp add: take_Suc_conv_app_nth)
  from Cons.IH [OF t1(2,3)] t1(4) Cons.prems(4,5) obtain t' s' where
    "type_keys D cs (t1, Some s1) = Some (t', Some s')" "wf_term t'" "inv s'" "cmd_history t' = cmd_history t"
    "linebuf_index t' = linebuf_index t + length (c # cs)" "vx (cursor t') < kTermColumns - 1"
    "take (linebuf_index t') (linebuf t') = take (linebuf_index t1) (linebuf t1) @ cs" by auto
  with t1(1) tk show ?case by simp
qed simp

end

section \<open>Windows are such screens\<close>

definition window_drawing :: "u8 list \<Rightarrow> FreeType \<Rightarrow> Window drawing" where
  "window_drawing hankaku ft = \<lparr>d_write = Window_Write, d_move = Window_Move, d_hankaku = hankaku, d_ft = ft\<rparr>"

definition term_window_ok :: "Window \<Rightarrow> bool" where
  "term_window_ok w \<longleftrightarrow> wf_pixels w \<and> Window_Size w = Vec 496 276"

definition screen_ok :: "u8 list \<Rightarrow> FreeType \<Rightarrow> Window \<Rightarrow> bool" where
  "screen_ok hankaku ft w \<longleftrightarrow> term_window_ok w \<and> length hankaku = 4096 \<and> glyphs_in_cell ft"

interpretation terminal_window: text_screen "window_drawing hankaku ft" "screen_ok hankaku ft" for hankaku ft
proof
  fix s p c assume "screen_ok hankaku ft s" "screen_area p"
  then show "\<exists>s'. d_write (window_drawing hankaku ft) s p c = Some s' \<and> screen_ok hankaku ft s'"
    using wf_pixels_write [of s p c]
    by (auto simp: screen_ok_def term_window_ok_def window_drawing_def win_inside_def screen_area_def)
next
  fix s assume s: "screen_ok hankaku ft s"
  then have "win_inside s (Vec 8 28)" "win_inside s (Vec (8 + 480 - 1) (44 + 224 - 1))"
    by (simp_all add: screen_ok_def term_window_ok_def win_inside_def in_rect_def)
  from wf_pixels_move_up [OF _ _ _ _ this] s
  show "\<exists>s'. d_move (window_drawing hankaku ft) s (Vec 8 28) (Rect (Vec 8 44) (Vec 480 224)) = Some s' \<and> screen_ok hankaku ft s'"
    by (auto simp: screen_ok_def term_window_ok_def window_drawing_def)
qed (simp_all add: screen_ok_def window_drawing_def)

lemma glyphs_demo: "glyphs_in_cell demo_ft"
  by (simp add: glyphs_in_cell_def demo_ft_def NewFTFace_def)

section \<open>Drawing outside of the window\<close>

lemma term_window_keeps:
  "term_window_ok w \<Longrightarrow> Window_Write w p c = Some w' \<Longrightarrow> term_window_ok w' \<and> win_inside w p"
proof -
  assume w: "term_window_ok w" and wr: "Window_Write w p c = Some w'"
  have len: "length (win_data w ! y) = nat (win_width w)" if "y < length (win_data w)" for y
    using w nth_mem [OF that] by (simp add: term_window_ok_def wf_pixels_def)
  have "At w p \<noteq> None" using wr by (auto simp: Window_Write_def split: option.splits)
  then have "win_inside w p"
    using w len by (auto simp: At_def win_inside_def in_rect_def Window_Size_def term_window_ok_def wf_pixels_def split: if_splits)
  with w wr wf_pixels_write [of w p c] show ?thesis by (auto simp: term_window_ok_def)
qed

lemma write_all_keeps:
  "term_window_ok w \<Longrightarrow> write_all Window_Write ps c w = Some w' \<Longrightarrow>
     term_window_ok w' \<and> (\<forall>p \<in> set ps. in_rect (Vec 0 0) (Vec 496 276) p)"
proof (induction ps arbitrary: w)
  case (Cons p ps)
  from Cons.prems(2) obtain u where "Window_Write w p c = Some u" "write_all Window_Write ps c u = Some w'"
    by (auto split: option.splits)
  with Cons.IH term_window_keeps [OF Cons.prems(1)] Cons.prems(1) show ?case
    by (auto simp: win_inside_def term_window_ok_def)
qed simp

text \<open>A character of the font that is not blank.\<close>

definition has_ink :: "u8 list \<Rightarrow> u8 \<Rightarrow> bool" where
  "has_ink hankaku b \<longleftrightarrow> (case GetFont hankaku b of None \<Rightarrow> False
     | Some font \<Rightarrow> \<exists>dy \<in> set [0..<16]. \<exists>dx \<in> set [0..<8]. bit (font ! dy) (7 - dx))"

lemma WriteAscii_keeps:
  assumes "term_window_ok w" "WriteAscii Window_Write hankaku pos b c w = Some w'"
  shows "term_window_ok w' \<and> (has_ink hankaku b \<longrightarrow> vx pos < 496)"
proof (cases "GetFont hankaku b")
  case None
  with assms show ?thesis by (simp add: WriteAscii_def has_ink_def)
next
  case (Some font)
  then have "write_all Window_Write (ascii_points font pos) c w = Some w'"
    using assms(2) by (auto simp: WriteAscii_def split: if_splits)
  note k = write_all_keeps [OF assms(1) this]
  have "vx pos < 496" if ink: "has_ink hankaku b"
  proof -
    obtain dy dx where "dy < 16" "dx < 8" "bit (font ! dy) (7 - dx)" using ink Some by (auto simp: has_ink_def)
    then have "pos + Vec (int dx) (int dy) \<in> set (ascii_points font pos)" by (auto simp: ascii_points_def intro!: bexI [of _ dy])
    with k show ?thesis by (force simp: in_rect_def)
  qed
  with k show ?thesis by blast
qed

lemma WriteString_leaves:
  "term_window_ok w \<Longrightarrow> k < length h \<Longrightarrow> \<forall>b \<in> set h. 0 < b \<and> b < 128 \<Longrightarrow> has_ink hankaku (h ! k) \<Longrightarrow>
     496 \<le> vx pos + 8 * (x + int k) \<Longrightarrow> WriteString_loop fuel Window_Write hankaku ft pos (h @ r) x c w = None"
proof (induction h arbitrary: k x w fuel)
  case (Cons b h)
  have ub: "unat b < 128" "b \<noteq> 0" using Cons.prems(3) by (auto simp: word_less_nat_alt)
  have conv: "ConvertUTF8To32 (b # h @ r) = Some (of_nat (unat b), 1)"
    using Convert_encode [of "unat b" "h @ r"] ub by (simp add: utf8_encode_def)
  have hank: "IsHankaku (of_nat (unat b))" using IsHankaku_of_nat [of "unat b"] ub by simp
  let ?pos = "pos + Vec (8 * x) 0"
  have ucast: "ucast (ucast b :: u32) = b" by (rule bit_eqI) (auto simp: bit_simps)
  have uni: "WriteUnicode Window_Write hankaku ft ?pos (of_nat (unat b)) c w =
      map_option (\<lambda>s1. (s1, kSuccess)) (WriteAscii Window_Write hankaku ?pos b c w)"
    using hank ucast by (simp add: WriteUnicode_def IsHankaku_def)
  show ?case
  proof (cases fuel)
    case (Suc n)
    show ?thesis
    proof (cases "WriteAscii Window_Write hankaku ?pos b c w")
      case None
      with Suc ub(2) conv uni show ?thesis by simp
    next
      case (Some w1)
      note keep = WriteAscii_keeps [OF Cons.prems(1) Some]
      show ?thesis
      proof (cases k)
        case 0
        with keep Cons.prems(4,5) show ?thesis by simp
      next
        case (Suc j)
        have "WriteString_loop n Window_Write hankaku ft pos (h @ r) (x + 1) c w1 = None"
          by (rule Cons.IH [of w1 j]) (use keep Cons.prems Suc in auto)
        with \<open>fuel = Suc n\<close> ub(2) conv uni hank Some show ?thesis by simp
      qed
    qed
  qed simp
qed simp

lemma on_window_keeps:
  assumes "on_window (FillRectangle Window_Write pos sz c) (t, Some w) = Some (t', w')" "term_window_ok w"
  shows "t' = t \<and> (\<exists>u. w' = Some u \<and> term_window_ok u)"
  using assms write_all_keeps [OF assms(2)] by (auto simp: on_window_def FillRectangle_def)

section \<open>Properties\<close>





section \<open>A terminal and its window\<close>

definition demo_term :: Terminal where
  "demo_term = blank_Terminal 0 1 True [0, 1, 2]"

lemma demo_term_ok: "wf_term demo_term" "history_fits demo_term"
  by (simp_all add: demo_term_def blank_Terminal_def wf_term_def wf_cursor_def wf_line_def history_fits_def c_string_def
      kTermRows_def kTermColumns_def kLineMax_def)

lemma demo_term_window: "\<exists>w. new_Window 496 276 1 = Some w \<and> screen_ok (replicate 4096 1) demo_ft w"
  using new_Window_ok [of 496 276 1] wf_win_pixels by (auto simp: screen_ok_def term_window_ok_def glyphs_demo)





end
