(* ===== verification/Command_Lines.thy ===== *)
theory Command_Lines
  imports File_Streams
begin

text \<open>
  What the terminal does with a command line and with the directories it names:
  \<open>MakeArgVector\<close>, \<open>FindCommand\<close> and \<open>ListAllEntries\<close> of \<open>kernel/terminal.cpp\<close>.  C strings are byte
  lists without the terminator; a pointer into the buffer for arguments is an offset.
\<close>

section \<open>Argument vectors\<close>

text \<open>\<open>isspace\<close> of newlib in the C locale; it is 0 for a negative \<open>char\<close>.\<close>

definition is_space :: "u8 \<Rightarrow> bool" where
  "is_space c \<longleftrightarrow> c = 0x20 \<or> 9 \<le> c \<and> c \<le> 13"

record ArgVec =
  argv :: "nat list"
  argbuf_index :: nat
  argbuf :: "u8 list"

text \<open>\<open>None\<close>: \<open>strcpy\<close> runs over the end of the buffer.\<close>

definition push_to_argv :: "nat \<Rightarrow> u8 list \<Rightarrow> ArgVec \<Rightarrow> (ArgVec \<times> ErrorCode) option" where
  "push_to_argv argv_len s v =
    (if length (argv v) \<ge> argv_len \<or> argbuf_index v \<ge> length (argbuf v) then Some (v, kFull)
     else if argbuf_index v + length s + 1 > length (argbuf v) then None
     else Some (v\<lparr>argv := argv v @ [argbuf_index v],
                  argbuf := patch_bytes (argbuf_index v) (s @ [0]) (argbuf v),
                  argbuf_index := argbuf_index v + length s + 1\<rparr>, kSuccess))"

lemma length_dropWhile_tl: "dropWhile Q p \<noteq> [] \<Longrightarrow> length (tl (dropWhile P (dropWhile Q p))) < length p"
  using length_dropWhile_le [of P "dropWhile Q p"] length_dropWhile_le [of Q p]
  by (cases "dropWhile Q p") auto

text \<open>The loop over the words of \<open>first_arg\<close>.\<close>

function push_words :: "nat \<Rightarrow> u8 list \<Rightarrow> ArgVec \<Rightarrow> (ArgVec \<times> ErrorCode) option" where
  "push_words argv_len p v =
    (let q = dropWhile is_space p in
     if q = [] then Some (v, kSuccess)
     else
       let word = takeWhile (\<lambda>c. \<not> is_space c) q; rest = dropWhile (\<lambda>c. \<not> is_space c) q in
       case push_to_argv argv_len word v of
         None \<Rightarrow> None
       | Some (v1, err) \<Rightarrow>
           if err \<noteq> kSuccess then Some (v1, err)
           else if rest = [] then Some (v1, kSuccess)
           else push_words argv_len (tl rest) v1)"
  by pat_completeness auto

termination
  by (relation "measure (\<lambda>(n, p, v). length p)") (use length_dropWhile_tl in \<open>auto simp del: dropWhile_eq_Nil_conv\<close>)

declare push_words.simps [simp del]

definition MakeArgVector ::
  "u8 list \<Rightarrow> u8 list option \<Rightarrow> nat \<Rightarrow> u8 list \<Rightarrow> (ArgVec \<times> ErrorCode) option" where
  "MakeArgVector command first_arg argv_len buf =
    (case push_to_argv argv_len command \<lparr>argv = [], argbuf_index = 0, argbuf = buf\<rparr> of
       None \<Rightarrow> None
     | Some (v, err) \<Rightarrow>
         if err \<noteq> kSuccess then Some (v, err)
         else (case first_arg of None \<Rightarrow> Some (v, kSuccess) | Some p \<Rightarrow> push_words argv_len p v))"

section \<open>Finding a command\<close>

definition apps_name :: "u8 list" where "apps_name = [0x61, 0x70, 0x70, 0x73]"

text \<open>A directory \<open>apps\<close> whose first cluster is 0 makes the recursion endless.\<close>

partial_function (option) FindCommand :: "volume \<Rightarrow> u8 list \<Rightarrow> nat \<Rightarrow> nat option option" where
  "FindCommand v command dir_cluster =
    do {
      (found, post_slash) \<leftarrow> FindFile v command dir_cluster;
      case found of
        Some a \<Rightarrow> do {
          e \<leftarrow> dir_entry v a;
          Some (if attr e = kDirectory \<or> post_slash then None else Some a)
        }
      | None \<Rightarrow>
          if dir_cluster \<noteq> 0 \<or> slash \<in> set command then Some None
          else do {
            (apps, _) \<leftarrow> FindFile v apps_name 0;
            case apps of
              None \<Rightarrow> Some None
            | Some b \<Rightarrow> do {
                e \<leftarrow> dir_entry v b;
                if attr e \<noteq> kDirectory then Some None else FindCommand v command (FirstCluster e)
              }
          }
    }"

section \<open>Listing a directory\<close>

text \<open>
  The output goes through \<open>print\<close>, which may change the volume: \<open>vol\<close> reads it from the state.
  \<open>listed\<close> tells whether an entry is shown; \<open>Inl\<close> is the end of the directory.
\<close>

definition listed :: "DirectoryEntry \<Rightarrow> bool" where
  "listed e \<longleftrightarrow> hd (name e) \<noteq> 0xe5 \<and> attr e \<noteq> kLongName"

fun list_cluster ::
  "('s \<Rightarrow> volume) \<Rightarrow> ('s \<Rightarrow> u8 list \<Rightarrow> 's option) \<Rightarrow> nat \<Rightarrow> nat \<Rightarrow> nat \<Rightarrow> 's \<Rightarrow> ('s + 's) option" where
  "list_cluster vol print dir i 0 s = Some (Inr s)"
| "list_cluster vol print dir i (Suc k) s =
    (case dir_entry (vol s) (dir + 32 * i) of
       None \<Rightarrow> None
     | Some e \<Rightarrow>
         if hd (name e) = 0 then Some (Inl s)
         else if \<not> listed e then list_cluster vol print dir (Suc i) k s
         else (case print s (FormatName e @ [0x0a]) of
                 None \<Rightarrow> None
               | Some s' \<Rightarrow> list_cluster vol print dir (Suc i) k s'))"

partial_function (option) ListAllEntries ::
  "('s \<Rightarrow> volume) \<Rightarrow> ('s \<Rightarrow> u8 list \<Rightarrow> 's option) \<Rightarrow> nat \<Rightarrow> 's \<Rightarrow> 's option" where
  "ListAllEntries vol print dir_cluster s =
    (if dir_cluster = kEndOfClusterchain then Some s
     else
       case list_cluster vol print (GetClusterAddr (vol s) dir_cluster) 0 (entries_per_cluster (vol s)) s of
         None \<Rightarrow> None
       | Some (Inl s1) \<Rightarrow> Some s1
       | Some (Inr s1) \<Rightarrow>
           (case NextCluster (vol s1) dir_cluster of
              None \<Rightarrow> None
            | Some nxt \<Rightarrow> ListAllEntries vol print nxt s1))"

section \<open>Words of a line\<close>

text \<open>A line split at every blank, by recursion on the line; words are the non-empty parts.\<close>

fun split_spaces :: "u8 list \<Rightarrow> u8 list list" where
  "split_spaces [] = [[]]"
| "split_spaces (c # cs) =
    (if is_space c then [] # split_spaces cs
     else case split_spaces cs of [] \<Rightarrow> [[c]] | w # ws \<Rightarrow> (c # w) # ws)"

definition line_words :: "u8 list \<Rightarrow> u8 list list" where
  "line_words s = filter (\<lambda>w. w \<noteq> []) (split_spaces s)"

definition string_at :: "u8 list \<Rightarrow> nat \<Rightarrow> u8 list" where
  "string_at buf p = takeWhile (\<lambda>c. c \<noteq> 0) (drop p buf)"

definition arg_bytes :: "u8 list list \<Rightarrow> nat" where
  "arg_bytes ws = sum_list (map (\<lambda>w. length w + 1) ws)"

lemma split_spaces_not_Nil: "split_spaces s \<noteq> []"
  by (induction s) (auto split: list.splits)

lemma split_spaces_word:
  "split_spaces q = takeWhile (\<lambda>c. \<not> is_space c) q #
     (case dropWhile (\<lambda>c. \<not> is_space c) q of [] \<Rightarrow> [] | _ # r \<Rightarrow> split_spaces r)"
  by (induction q) (auto split: list.splits)

lemma line_words_blank: "line_words (dropWhile is_space p) = line_words p"
  by (induction p) (auto simp: line_words_def)

lemma line_words_step:
  assumes "dropWhile is_space p = q"
  shows "line_words p = (if q = [] then [] else
    takeWhile (\<lambda>c. \<not> is_space c) q # (case dropWhile (\<lambda>c. \<not> is_space c) q of [] \<Rightarrow> [] | _ # r \<Rightarrow> line_words r))"
proof -
  have "q \<noteq> [] \<Longrightarrow> \<not> is_space (hd q)" using hd_dropWhile [of is_space p] assms by auto
  then have "q \<noteq> [] \<Longrightarrow> takeWhile (\<lambda>c. \<not> is_space c) q \<noteq> []" by (cases q) auto
  moreover have "line_words p = line_words q" using line_words_blank [of p] assms by simp
  ultimately show ?thesis
    using split_spaces_word [of q]
    by (cases "q = []"; cases "dropWhile (\<lambda>c. \<not> is_space c) q") (simp_all add: line_words_def del: dropWhile_eq_Nil_conv)
qed

lemma split_spaces_bytes: "arg_bytes (split_spaces s) = length s + 1"
  by (induction s) (auto simp: arg_bytes_def split_spaces_not_Nil split: list.splits)

lemma arg_bytes_filter: "arg_bytes (filter P ws) \<le> arg_bytes ws"
  by (induction ws) (auto simp: arg_bytes_def)

lemma line_words_bytes: "arg_bytes (line_words s) \<le> length s + 1"
  using arg_bytes_filter split_spaces_bytes by (metis line_words_def)

lemma split_spaces_set: "w \<in> set (split_spaces s) \<Longrightarrow> set w \<subseteq> set s"
  by (induction s arbitrary: w) (fastforce split: list.splits if_splits)+

section \<open>Correctness of the argument vector\<close>

text \<open>The vector holds the strings \<open>ws\<close>, one behind the other.\<close>

definition holds_strings :: "u8 list list \<Rightarrow> nat \<Rightarrow> ArgVec \<Rightarrow> bool" where
  "holds_strings ws n v \<longleftrightarrow> length (argbuf v) = n \<and> argbuf_index v = arg_bytes ws \<and> arg_bytes ws \<le> n \<and>
     length (argv v) = length ws \<and>
     (\<forall>i < length ws. argv v ! i + length (ws ! i) < argbuf_index v \<and> string_at (argbuf v) (argv v ! i) = ws ! i \<and>
        argbuf v ! (argv v ! i + length (ws ! i)) = 0)"

lemma takeWhile_string: "(0 :: u8) \<notin> set s \<Longrightarrow> takeWhile (\<lambda>c. c \<noteq> 0) (s @ 0 # r) = s"
  by (induction s) auto

lemma string_at_prefix:
  assumes "string_at buf p = w" "buf ! (p + length w) = 0" "p + length w < n" "n \<le> length buf"
    "take n buf' = take n buf"
  shows "string_at buf' p = w"
proof -
  have d: "take (n - p) (drop p buf') = take (n - p) (drop p buf)" using assms(5) by (metis drop_take)
  let ?k = "length w"
  have lens: "?k < n - p" using assms(3) by simp
  have w: "w = take ?k (drop p buf)" using assms(1) takeWhile_eq_take by (metis string_at_def)
  have "drop p buf ! ?k = 0" using assms by simp
  have k: "take ?k (drop p buf') = w" using d lens w by (metis less_imp_le min.absorb1 take_take)
  have z: "drop p buf' ! ?k = 0" using d lens assms by (metis nth_take \<open>drop p buf ! ?k = 0\<close>)
  have nz: "\<forall>c \<in> set w. c \<noteq> 0" using assms(1) by (auto simp: string_at_def dest: set_takeWhileD)
  have "n \<le> length buf'" using assms(4,5) by (metis length_take min.absorb_iff2)
  then have "?k < length (drop p buf')" using lens by simp
  then have "drop p buf' = w @ 0 # drop (Suc ?k) (drop p buf')"
    using k z id_take_nth_drop [of ?k "drop p buf'"] by simp
  moreover have "0 \<notin> set w" using nz by auto
  ultimately show ?thesis using takeWhile_string by (metis string_at_def)
qed

lemma patch_new:
  assumes "p + length s + 1 \<le> length buf" "0 \<notin> set s"
  shows "string_at (patch_bytes p (s @ [0]) buf) p = s" "patch_bytes p (s @ [0]) buf ! (p + length s) = 0"
    "length (patch_bytes p (s @ [0]) buf) = length buf" "take p (patch_bytes p (s @ [0]) buf) = take p buf"
proof -
  have "drop p (patch_bytes p (s @ [0]) buf) = s @ 0 # drop (p + length s + 1) buf"
    using assms(1) by (simp add: patch_bytes_def)
  then show "string_at (patch_bytes p (s @ [0]) buf) p = s"
    using takeWhile_string [OF assms(2)] by (simp add: string_at_def)
  show "patch_bytes p (s @ [0]) buf ! (p + length s) = 0"
    using assms(1) by (simp add: patch_bytes_def nth_append)
qed (use assms(1) in \<open>simp_all add: patch_bytes_def\<close>)

lemma push_to_argv_spec:
  assumes "holds_strings ws n v" "0 \<notin> set s" "arg_bytes (ws @ [s]) \<le> n"
  shows "if length ws < len then \<exists>v'. push_to_argv len s v = Some (v', kSuccess) \<and> holds_strings (ws @ [s]) n v'
    else push_to_argv len s v = Some (v, kFull)"
proof (cases "length ws < len")
  case True
  let ?p = "argbuf_index v" and ?b = "patch_bytes (argbuf_index v) (s @ [0]) (argbuf v)"
  have p: "?p + length s + 1 \<le> length (argbuf v)" using assms by (simp add: holds_strings_def arg_bytes_def)
  note new = patch_new [OF p assms(2)]
  have old: "string_at ?b (argv v ! i) = ws ! i \<and> ?b ! (argv v ! i + length (ws ! i)) = 0" if "i < length ws" for i
  proof
    have h: "argv v ! i + length (ws ! i) < ?p" "string_at (argbuf v) (argv v ! i) = ws ! i"
      "argbuf v ! (argv v ! i + length (ws ! i)) = 0" using assms(1) that by (auto simp: holds_strings_def)
    show "string_at ?b (argv v ! i) = ws ! i"
      by (rule string_at_prefix [OF h(2,3,1) _ new(4)]) (use p in simp)
    show "?b ! (argv v ! i + length (ws ! i)) = 0" using h new(4) by (metis nth_take)
  qed
  have "holds_strings (ws @ [s]) n (v\<lparr>argv := argv v @ [?p], argbuf := ?b, argbuf_index := ?p + length s + 1\<rparr>)"
    using assms old new by (fastforce simp: holds_strings_def arg_bytes_def nth_append less_Suc_eq)
  then show ?thesis using True p assms(1) by (auto simp: push_to_argv_def holds_strings_def)
next
  case False
  then show ?thesis using assms(1) by (simp add: push_to_argv_def holds_strings_def)
qed

lemma push_words_spec:
  "holds_strings ws n v \<Longrightarrow> 0 \<notin> set p \<Longrightarrow> length ws \<le> len \<Longrightarrow> arg_bytes (ws @ line_words p) \<le> n \<Longrightarrow>
     \<exists>v' err. push_words len p v = Some (v', err) \<and> holds_strings (take len (ws @ line_words p)) n v' \<and>
       err = (if length (ws @ line_words p) \<le> len then kSuccess else kFull)"
proof (induction len p v arbitrary: ws rule: push_words.induct)
  case (1 len p v)
  define q where "q = dropWhile is_space p"
  define w where "w = takeWhile (\<lambda>c. \<not> is_space c) q"
  define r where "r = dropWhile (\<lambda>c. \<not> is_space c) q"
  note lw = line_words_step [OF q_def [symmetric], folded w_def r_def]
  show ?case
  proof (cases "q = []")
    case True
    then show ?thesis using 1 lw by (subst push_words.simps) (simp add: Let_def flip: q_def)
  next
    case False
    define ws' where "ws' = (case r of [] \<Rightarrow> [] | _ # r' \<Rightarrow> line_words r')"
    have lw': "line_words p = w # ws'" using lw False by (simp add: ws'_def)
    have q: "set q \<subseteq> set p" "set r \<subseteq> set q" "set w \<subseteq> set q"
      by (auto simp: q_def r_def w_def dest: set_dropWhileD set_takeWhileD)
    moreover have "set (tl r) \<subseteq> set r" by (cases r) auto
    ultimately have nz: "0 \<notin> set w" "0 \<notin> set (tl r)" using 1(3) by auto
    have "arg_bytes (ws @ [w]) \<le> n" using 1(5) by (simp add: lw' arg_bytes_def)
    note push = push_to_argv_spec [OF 1(2) nz(1) this, of len]
    have eq: "push_words len p v = (case push_to_argv len w v of None \<Rightarrow> None | Some (v1, err) \<Rightarrow>
        if err \<noteq> kSuccess then Some (v1, err) else if r = [] then Some (v1, kSuccess) else push_words len (tl r) v1)"
      using False by (subst push_words.simps) (simp only: Let_def if_False flip: q_def w_def r_def)
    show ?thesis
    proof (cases "length ws < len")
      case True
      with push obtain v1 where v1: "push_to_argv len w v = Some (v1, kSuccess)" "holds_strings (ws @ [w]) n v1" by auto
      show ?thesis
      proof (cases r)
        case Nil
        then show ?thesis using eq v1 lw' True by (simp add: ws'_def Suc_leI)
      next
        case (Cons c r')
        have "\<exists>v' err. push_words len (tl r) v1 = Some (v', err) \<and>
            holds_strings (take len ((ws @ [w]) @ line_words (tl r))) n v' \<and>
            err = (if length ((ws @ [w]) @ line_words (tl r)) \<le> len then kSuccess else kFull)"
          by (rule "1.IH" [OF q_def _ w_def r_def v1(1) refl, of "ws @ [w]"])
            (use False v1(2) nz(2) True 1(5) Cons in \<open>simp_all add: lw' ws'_def\<close>)
        then show ?thesis using eq v1 lw' Cons by (simp add: ws'_def)
      qed
    next
      case notless: False
      then show ?thesis using push eq 1(2,4) lw' by simp
    qed
  qed
qed

text \<open>
  C21. The argument vector of a program: when command and arguments fit into the buffer, nothing is
  written outside it and the pointers are those of the NUL-terminated command and of the words of
  the arguments in order, separated by any blanks; \<open>kFull\<close> is reported exactly when there are more
  words than pointers, and then the first ones are still there.
\<close>

theorem MakeArgVector_words:
  assumes "0 \<notin> set command" "\<forall>s. first_arg = Some s \<longrightarrow> 0 \<notin> set s"
    and "length command + (case first_arg of None \<Rightarrow> 0 | Some s \<Rightarrow> length s + 1) < length buf" "0 < argv_len"
  shows "\<exists>v err. MakeArgVector command first_arg argv_len buf = Some (v, err) \<and>
    length (argbuf v) = length buf \<and>
    (let ws = command # (case first_arg of None \<Rightarrow> [] | Some s \<Rightarrow> line_words s) in
     err = (if length ws \<le> argv_len then kSuccess else kFull) \<and>
     map (string_at (argbuf v)) (argv v) = take argv_len ws)"
proof -
  define ws where "ws = (case first_arg of None \<Rightarrow> [] | Some s \<Rightarrow> line_words s)"
  have init: "holds_strings [] (length buf) \<lparr>argv = [], argbuf_index = 0, argbuf = buf\<rparr>"
    by (simp add: holds_strings_def arg_bytes_def)
  have "arg_bytes [command] \<le> length buf" using assms(3) by (simp add: arg_bytes_def)
  with push_to_argv_spec [OF init assms(1), of argv_len] assms(4) obtain v where
    v: "push_to_argv argv_len command \<lparr>argv = [], argbuf_index = 0, argbuf = buf\<rparr> = Some (v, kSuccess)"
      "holds_strings [command] (length buf) v" by auto
  have post: "length (argbuf v') = length buf \<and> map (string_at (argbuf v')) (argv v') = us"
    if "holds_strings us (length buf) v'" for us v'
    using that by (auto simp: holds_strings_def intro: nth_equalityI)
  show ?thesis
  proof (cases first_arg)
    case None
    then show ?thesis using v(1) post [OF v(2)] assms(4)
      by (auto simp: MakeArgVector_def Let_def take_Cons')
  next
    case (Some s)
    have "arg_bytes ([command] @ line_words s) \<le> length buf"
      using assms(3) line_words_bytes [of s] Some by (simp add: arg_bytes_def)
    from push_words_spec [OF v(2) _ _ this, of argv_len] Some assms(2,4) obtain v' err where
      "push_words argv_len s v = Some (v', err)" "holds_strings (take argv_len ([command] @ line_words s)) (length buf) v'"
      "err = (if length ([command] @ line_words s) \<le> argv_len then kSuccess else kFull)" by auto
    then show ?thesis using v(1) post Some by (auto simp: MakeArgVector_def Let_def)
  qed
qed

text \<open>The line \<open>a b  c\<close>.\<close>

lemma MakeArgVector_words_witness:
  "\<exists>v. MakeArgVector [0x61] (Some [0x62, 0x20, 0x20, 0x63]) 32 (replicate 3840 0) = Some (v, kSuccess) \<and>
    map (string_at (argbuf v)) (argv v) = [[0x61], [0x62], [0x63]]"
  using MakeArgVector_words [of "[0x61]" "Some [0x62, 0x20, 0x20, 0x63]" "replicate 3840 0" 32]
  by (auto simp: Let_def line_words_def is_space_def)

section \<open>Correctness of the listing\<close>

fun shown_slots :: "volume \<Rightarrow> nat list \<Rightarrow> u8 list list" where
  "shown_slots v [] = []"
| "shown_slots v (a # as) =
    (let e = dir_entry_of (raw_entry v a) in
     if hd (name e) = 0 then []
     else (if listed e then [FormatName e @ [0x0a]] else []) @ shown_slots v as)"

definition ends_in :: "volume \<Rightarrow> nat list \<Rightarrow> bool" where
  "ends_in v as \<longleftrightarrow> (\<exists>a \<in> set as. hd (slot_name v a) = 0)"

lemma ends_in_simps [simp]:
  "\<not> ends_in v []" "ends_in v (a # as) \<longleftrightarrow> hd (slot_name v a) = 0 \<or> ends_in v as"
  by (auto simp: ends_in_def)

lemma shown_slots_append:
  "shown_slots v (as @ bs) = shown_slots v as @ (if ends_in v as then [] else shown_slots v bs)"
  by (induction as) (auto simp: Let_def)

lemma length_drop_spaces: "length (drop_spaces bs) \<le> length bs"
  by (induction bs) auto

lemma FormatName_length: "length (FormatName e) \<le> 12"
proof -
  have "length (c_str bs) \<le> length bs" for bs by (simp add: c_str_def length_takeWhile_le)
  then have "length (c_str (rev (drop_spaces (rev bs)))) \<le> length bs" for bs
    using length_drop_spaces [of "rev bs"] by (metis length_rev order_trans)
  from this [of "take 8 (name e)"] this [of "bytes_at 8 3 (name e)"] show ?thesis
    by (auto simp: FormatName_def ReadName_def bytes_at_def split: if_splits)
qed

lemma list_cluster_shown:
  assumes print: "\<And>s x. length x < 128 \<Longrightarrow> print s x = Some (prt s x) \<and> vol (prt s x) = vol s"
  shows "wf_volume v \<Longrightarrow> valid_cluster v c \<Longrightarrow> i + k = entries_per_cluster v \<Longrightarrow> vol s = v \<Longrightarrow>
    let as = map (\<lambda>i. GetClusterAddr v c + 32 * i) [i..<i + k]; s' = foldl prt s (shown_slots v as) in
    list_cluster vol print (GetClusterAddr v c) i k s = Some (if ends_in v as then Inl s' else Inr s') \<and> vol s' = v"
proof (induction k arbitrary: i s)
  case 0
  then show ?case by simp
next
  case (Suc k)
  let ?a = "GetClusterAddr v c + 32 * i"
  let ?e = "dir_entry_of (raw_entry v ?a)"
  have "entry_in v ?a c i" using Suc.prems by (simp add: entry_in_def)
  note e = entry_in_range(3) [OF Suc.prems(1) this]
  have upt: "[i..<i + Suc k] = i # [Suc i..<Suc i + k]" by (simp add: upt_rec)
  have k: "Suc i + k = entries_per_cluster v" using Suc.prems(3) by simp
  have "length (FormatName ?e @ [0x0a]) < 128" using FormatName_length [of ?e] by simp
  note p = print [OF this]
  show ?case
  proof (cases "listed ?e")
    case True
    have "vol (prt s (FormatName ?e @ [0x0a])) = v" using p Suc.prems(4) by simp
    from Suc.IH [OF Suc.prems(1,2) k this] show ?thesis
      using e p True Suc.prems(4) unfolding upt by (simp add: Let_def del: upt_Suc)
  next
    case False
    from Suc.IH [OF Suc.prems(1,2) k Suc.prems(4)] show ?thesis
      using e False Suc.prems(4) unfolding upt by (simp add: Let_def del: upt_Suc)
  qed
qed



end
