(* ===== verification/Kernel_State.thy ===== *)
theory Kernel_State
  imports Interrupts Input_Devices Pipes Terminals Command_Lines Pci
begin

text \<open>
  The state of the running kernel that terminals, applications and system calls share: the
  global objects behind \<open>task_manager\<close>, \<open>layer_manager\<close>, \<open>timer_manager\<close>, \<open>memory_manager\<close>,
  \<open>app_loads\<close> and the volume, and the objects on the heap that several owners refer to.  The
  methods of \<open>FileDescriptor\<close> (\<open>kernel/file.hpp\<close>) are dispatched here, and \<open>Terminal::Print\<close>,
  \<open>Terminal::Redraw\<close> and the terminal's file descriptor (\<open>kernel/terminal.cpp\<close>) are defined.
\<close>

section \<open>Objects\<close>

text \<open>A shared object is known by its number, which is not 0; \<open>k_next\<close> is the number of the next one.\<close>

datatype OpenedFile = FatFile FileDescriptor | TermFile nat | PipeFile Pipe

record TerminalDescriptor =
  command_line :: "u8 list"
  exit_after_command :: bool
  desc_show_window :: bool
  desc_files :: "nat list"

record AppLoadInfo =
  ali_vaddr_end :: u64
  ali_entry :: u64
  ali_pml4 :: u64

text \<open>
  A terminal is kept under the number of its task, the cache of applications under the address of
  the directory entry.  The task manager is part of the desktop.  CR3 is both in the paging state
  and among the registers of the task manager's processor.
\<close>

record kernel =
  k_pg :: paging_state
  k_desk :: Desktop
  k_vol :: volume
  k_timers :: TimerManager
  k_pci :: "PciDevice list"
  k_files :: "nat \<Rightarrow> OpenedFile option"
  k_descs :: "nat \<Rightarrow> TerminalDescriptor option"
  k_loads :: "nat \<Rightarrow> AppLoadInfo option"
  k_terms :: "nat \<Rightarrow> Terminal option"
  k_next :: nat

text \<open>
  What comes from outside of the kernel's code: the processor's address translation, the fonts,
  the addresses of static data and of new stacks, the vendor numbers that PCI devices answer, what
  an uninitialised \<open>layer_id_\<close> holds, and the programs.  \<open>others i\<close> is what all other tasks and
  interrupts do while task \<open>i\<close> sleeps, until it runs again; \<open>call_app argc argv ss rip rsp\<close> is
  \<open>CallApp\<close>, from the first instruction of a program to its exit code.
\<close>

record machine =
  xlat :: translation
  hankaku_font :: "u8 list"
  freetype :: FreeType
  ktables :: kernel_tables
  screen_format :: nat
  stack_addr :: "nat \<Rightarrow> u64"
  task_terminal :: u64
  vendor_id :: "PciDevice \<Rightarrow> u16"
  junk :: nat
  others :: "nat \<Rightarrow> kernel \<Rightarrow> kernel option"
  call_app :: "nat \<Rightarrow> u64 \<Rightarrow> u64 \<Rightarrow> u64 \<Rightarrow> u64 \<Rightarrow> kernel \<Rightarrow> (kernel \<times> int) option"

section \<open>Tasks and objects\<close>

definition k_tm :: "kernel \<Rightarrow> TaskManager" where
  "k_tm k = tasks (k_desk k)"

definition set_tm :: "TaskManager \<Rightarrow> kernel \<Rightarrow> kernel" where
  "set_tm tm k = k\<lparr>k_desk := (k_desk k)\<lparr>tasks := tm\<rparr>\<rparr>"

definition current_task :: "kernel \<Rightarrow> nat option" where
  "current_task k = CurrentTask (k_tm k)"

definition task_of :: "kernel \<Rightarrow> nat \<Rightarrow> Task option" where
  "task_of k i = get_task (k_tm k) i"

definition on_task :: "nat \<Rightarrow> (Task \<Rightarrow> Task) \<Rightarrow> kernel \<Rightarrow> kernel" where
  "on_task i f k = set_tm (upd_task i f (k_tm k)) k"

text \<open>\<open>task_manager->SendMessage\<close>, whose error is not looked at.\<close>

definition send :: "nat \<Rightarrow> Message \<Rightarrow> kernel \<Rightarrow> kernel option" where
  "send i msg k = map_option (\<lambda>(tm, e). set_tm tm k) (SendMessage (k_tm k) i msg)"

text \<open>\<open>task.Sleep()\<close>, and everything until the task runs again.\<close>

definition sleep :: "machine \<Rightarrow> nat \<Rightarrow> kernel \<Rightarrow> kernel option" where
  "sleep mach i k = do { tm \<leftarrow> Sleep_task (k_tm k) i; others mach i (set_tm tm k) }"

definition receive :: "nat \<Rightarrow> kernel \<Rightarrow> (kernel \<times> Message option) option" where
  "receive i k =
    (case task_of k i of None \<Rightarrow> None
     | Some t \<Rightarrow> let (t', m) = ReceiveMessage t in Some (on_task i (\<lambda>_. t') k, m))"

definition new_file :: "OpenedFile \<Rightarrow> kernel \<Rightarrow> kernel \<times> nat" where
  "new_file f k = (k\<lparr>k_files := (k_files k)(k_next k \<mapsto> f), k_next := k_next k + 1\<rparr>, k_next k)"

section \<open>Terminals and their windows\<close>

text \<open>An operation on terminal \<open>i\<close> and \<open>*window_\<close>.\<close>

definition window_of :: "kernel \<Rightarrow> Terminal \<Rightarrow> Window option" where
  "window_of k t = (case term_window t of None \<Rightarrow> None | Some n \<Rightarrow> windows (k_desk k) n)"

definition put_window :: "nat option \<Rightarrow> Window option \<Rightarrow> kernel \<Rightarrow> kernel" where
  "put_window n w k =
    (case (n, w) of (Some n, Some w) \<Rightarrow> k\<lparr>k_desk := (k_desk k)\<lparr>windows := (windows (k_desk k))(n \<mapsto> w)\<rparr>\<rparr> | _ \<Rightarrow> k)"

definition on_terminal ::
  "nat \<Rightarrow> (Terminal \<times> Window option \<Rightarrow> (Terminal \<times> Window option) option) \<Rightarrow> kernel \<Rightarrow> kernel option" where
  "on_terminal i f k =
    do {
      t \<leftarrow> k_terms k i;
      (t', w') \<leftarrow> f (t, window_of k t);
      Some (put_window (term_window t) w' (k\<lparr>k_terms := (k_terms k)(i \<mapsto> t')\<rparr>))
    }"

text \<open>The same for an operation that returns an area.\<close>

definition on_terminal_area ::
  "nat \<Rightarrow> (Terminal \<times> Window option \<Rightarrow> (Terminal \<times> Window option \<times> Rectangle) option) \<Rightarrow> kernel
     \<Rightarrow> (kernel \<times> Rectangle) option" where
  "on_terminal_area i f k =
    do {
      t \<leftarrow> k_terms k i;
      (t', w', area) \<leftarrow> f (t, window_of k t);
      Some (put_window (term_window t) w' (k\<lparr>k_terms := (k_terms k)(i \<mapsto> t')\<rparr>), area)
    }"

definition drawing_of :: "machine \<Rightarrow> Window drawing" where
  "drawing_of mach = window_drawing (hankaku_font mach) (freetype mach)"

definition upd_terminal :: "nat \<Rightarrow> (Terminal \<Rightarrow> Terminal) \<Rightarrow> kernel \<Rightarrow> kernel" where
  "upd_terminal i f k = k\<lparr>k_terms := (k_terms k)(i := map_option f (k_terms k i))\<rparr>"

text \<open>\<open>Print\<close> and \<open>Redraw\<close> tell task 1 to draw.\<close>

definition draw_message :: "nat \<Rightarrow> Rectangle \<Rightarrow> kernel \<Rightarrow> kernel option" where
  "draw_message i area k =
    do { t \<leftarrow> k_terms k i; send 1 (MakeLayerMessage (term_task t) (term_layer_id t) DrawArea area) k }"

definition Terminal_Print :: "machine \<Rightarrow> nat \<Rightarrow> u8 list \<Rightarrow> PixelColor \<Rightarrow> nat option \<Rightarrow> kernel \<Rightarrow> kernel option" where
  "Terminal_Print mach i s color len k =
    do {
      (k1, area) \<leftarrow> on_terminal_area i (Print_text (drawing_of mach) InnerSize s color len) k;
      draw_message i area k1
    }"

definition inner_area :: "nat \<Rightarrow> kernel \<Rightarrow> Rectangle option" where
  "inner_area i k =
    do { t \<leftarrow> k_terms k i; w \<leftarrow> window_of k t; Some (Rect kTopLeftMargin (InnerSize w)) }"

definition Redraw :: "nat \<Rightarrow> kernel \<Rightarrow> kernel option" where
  "Redraw i k = do { area \<leftarrow> inner_area i k; draw_message i area k }"

section \<open>The file descriptor of a terminal\<close>

definition control_key :: "MessageArg \<Rightarrow> bool" where
  "control_key a \<longleftrightarrow> kb_modifier a AND (kLControlBitMask OR kRControlBitMask) \<noteq> 0"

definition is_key_press :: "Message \<Rightarrow> bool" where
  "is_key_press m \<longleftrightarrow> msg_type m = kKeyPush \<and> kb_press (arg m) \<noteq> 0"

text \<open>
  Other messages are lost; a key with Ctrl is echoed, and Ctrl-D ends the input.  The byte behind the
  one for the key is read by \<open>Print\<close>, but its value does not matter.
\<close>

partial_function (option) TermFile_Read :: "machine \<Rightarrow> nat \<Rightarrow> kernel \<Rightarrow> (kernel \<times> u8 list) option" where
  "TermFile_Read mach i k =
    do {
      t \<leftarrow> k_terms k i;
      (k1, msg) \<leftarrow> receive (term_task t) k;
      case msg of
        None \<Rightarrow> do { k2 \<leftarrow> sleep mach (term_task t) k1; TermFile_Read mach i k2 }
      | Some m \<Rightarrow>
          if \<not> is_key_press m then TermFile_Read mach i k1
          else if control_key (arg m) then do {
            k2 \<leftarrow> Terminal_Print mach i [0x5e, toupper (kb_ascii (arg m)), 0] white None k1;
            if kb_keycode (arg m) = 7 then Some (k2, []) else TermFile_Read mach i k2
          }
          else do {
            k2 \<leftarrow> Terminal_Print mach i [kb_ascii (arg m), 0] white (Some 1) k1;
            k3 \<leftarrow> Redraw i k2;
            Some (k3, [kb_ascii (arg m)])
          }
    }"

definition TermFile_Write :: "machine \<Rightarrow> nat \<Rightarrow> u8 list \<Rightarrow> nat \<Rightarrow> kernel \<Rightarrow> (kernel \<times> nat) option" where
  "TermFile_Write mach i buf len k =
    do { k1 \<leftarrow> Terminal_Print mach i buf white (Some len) k; k2 \<leftarrow> Redraw i k1; Some (k2, len) }"

section \<open>The methods of a file descriptor\<close>

partial_function (option) PipeFile_Read :: "machine \<Rightarrow> nat \<Rightarrow> Pipe \<Rightarrow> nat \<Rightarrow> kernel \<Rightarrow> (kernel \<times> u8 list) option" where
  "PipeFile_Read mach f p len k =
    do {
      (p1, tm, r) \<leftarrow> Pipe_Read p len (k_tm k);
      let k1 = (set_tm tm k)\<lparr>k_files := (k_files k)(f \<mapsto> PipeFile p1)\<rparr>;
      case r of
        Inl _ \<Rightarrow> do { k2 \<leftarrow> others mach (pipe_task p) k1; PipeFile_Read mach f p1 len k2 }
      | Inr bs \<Rightarrow> Some (k1, bs)
    }"

definition fd_read :: "machine \<Rightarrow> nat \<Rightarrow> nat \<Rightarrow> kernel \<Rightarrow> (kernel \<times> u8 list) option" where
  "fd_read mach f len k =
    (case k_files k f of
       None \<Rightarrow> None
     | Some (FatFile fd) \<Rightarrow>
         map_option (\<lambda>(fd1, bs). (k\<lparr>k_files := (k_files k)(f \<mapsto> FatFile fd1)\<rparr>, bs)) (Read (k_vol k) fd len)
     | Some (TermFile i) \<Rightarrow> TermFile_Read mach i k
     | Some (PipeFile p) \<Rightarrow> PipeFile_Read mach f p len k)"

text \<open>\<open>buf\<close> is the memory from \<open>buf\<close> on that may be read.\<close>

definition fd_write :: "machine \<Rightarrow> nat \<Rightarrow> u8 list \<Rightarrow> nat \<Rightarrow> kernel \<Rightarrow> (kernel \<times> nat) option" where
  "fd_write mach f buf len k =
    (case k_files k f of
       None \<Rightarrow> None
     | Some (FatFile fd) \<Rightarrow>
         map_option (\<lambda>(v, fd1, n). (k\<lparr>k_vol := v, k_files := (k_files k)(f \<mapsto> FatFile fd1)\<rparr>, n))
           (Write (k_vol k) fd buf len)
     | Some (TermFile i) \<Rightarrow> TermFile_Write mach i buf len k
     | Some (PipeFile p) \<Rightarrow>
         if len \<le> length buf then map_option (\<lambda>(tm, n). (set_tm tm k, n)) (Pipe_Write p (take len buf) (k_tm k)) else None)"

definition fd_size :: "nat \<Rightarrow> kernel \<Rightarrow> nat option" where
  "fd_size f k =
    (case k_files k f of
       None \<Rightarrow> None
     | Some (FatFile fd) \<Rightarrow> Size (k_vol k) fd
     | Some (TermFile i) \<Rightarrow> Some 0
     | Some (PipeFile p) \<Rightarrow> Some (Pipe_Size p))"

text \<open>\<open>Load\<close> of a terminal or a pipe returns 0 and copies nothing.\<close>

definition fd_load :: "kernel \<Rightarrow> nat \<Rightarrow> nat \<Rightarrow> u64 \<Rightarrow> u8 list option" where
  "fd_load k f len offset =
    (case k_files k f of
       None \<Rightarrow> None
     | Some (FatFile fd) \<Rightarrow> Load (k_vol k) fd len (unat offset)
     | Some _ \<Rightarrow> Some [])"

definition print_fd :: "machine \<Rightarrow> nat \<Rightarrow> u8 list \<Rightarrow> kernel \<Rightarrow> kernel option" where
  "print_fd mach f s k = map_option fst (PrintToFD (\<lambda>k s len. fd_write mach f s len k) k s)"

section \<open>New terminal tasks\<close>

definition new_task :: "kernel \<Rightarrow> kernel \<times> nat" where
  "new_task k = (let (tm, i) = NewTask (k_tm k) in (set_tm tm k, i))"

text \<open>\<open>InitContext(TaskTerminal, data).Wakeup()\<close>.\<close>

definition init_terminal :: "machine \<Rightarrow> nat \<Rightarrow> nat \<Rightarrow> kernel \<Rightarrow> kernel option" where
  "init_terminal mach i data k =
    map_option (\<lambda>tm. set_tm tm k)
      (Wakeup_task (upd_task i (InitContext (stack_addr mach i) (cr3 (k_pg k)) (task_terminal mach) (of_nat data)) (k_tm k)) i (- 1))"

definition new_desc :: "TerminalDescriptor \<Rightarrow> kernel \<Rightarrow> kernel \<times> nat" where
  "new_desc d k = (k\<lparr>k_descs := (k_descs k)(k_next k \<mapsto> d), k_next := k_next k + 1\<rparr>, k_next k)"

end
