(* ===== verification/App_Loading.thy ===== *)
theory App_Loading
  imports Kernel_State
begin

text \<open>
  Loading and running application files: \<open>kernel/elf.hpp\<close> and the functions from \<open>GetProgramHeader\<close>
  to \<open>LoadApp\<close> and \<open>ExecuteFile\<close> of \<open>kernel/terminal.cpp\<close>.  A file in memory is a list of bytes; the
  structures in it are read where the code reads them, and a read outside it is \<open>None\<close>.
\<close>

section \<open>ELF files\<close>

definition ET_EXEC :: u16 where "ET_EXEC = 2"
definition PT_LOAD :: u32 where "PT_LOAD = 1"

definition file_word :: "u8 list \<Rightarrow> nat \<Rightarrow> nat \<Rightarrow> 'a::len word option" where
  "file_word bs off n = (if off + n \<le> length bs then Some (le_word (bytes_at off n bs)) else None)"

text \<open>The fields of \<open>Elf64_Ehdr\<close> and of the \<open>i\<close>-th \<open>Elf64_Phdr\<close>, 56 bytes each, that are used.\<close>

definition e_type :: "u8 list \<Rightarrow> u16 option" where "e_type f = file_word f 16 2"
definition e_entry :: "u8 list \<Rightarrow> u64 option" where "e_entry f = file_word f 24 8"
definition e_phoff :: "u8 list \<Rightarrow> u64 option" where "e_phoff f = file_word f 32 8"
definition e_phnum :: "u8 list \<Rightarrow> u16 option" where "e_phnum f = file_word f 56 2"

definition p_type :: "u8 list \<Rightarrow> nat \<Rightarrow> nat \<Rightarrow> u32 option" where
  "p_type f phdr i = file_word f (phdr + 56 * i) 4"
definition p_offset :: "u8 list \<Rightarrow> nat \<Rightarrow> nat \<Rightarrow> u64 option" where
  "p_offset f phdr i = file_word f (phdr + 56 * i + 8) 8"
definition p_vaddr :: "u8 list \<Rightarrow> nat \<Rightarrow> nat \<Rightarrow> u64 option" where
  "p_vaddr f phdr i = file_word f (phdr + 56 * i + 16) 8"
definition p_filesz :: "u8 list \<Rightarrow> nat \<Rightarrow> nat \<Rightarrow> u64 option" where
  "p_filesz f phdr i = file_word f (phdr + 56 * i + 32) 8"
definition p_memsz :: "u8 list \<Rightarrow> nat \<Rightarrow> nat \<Rightarrow> u64 option" where
  "p_memsz f phdr i = file_word f (phdr + 56 * i + 40) 8"

definition GetProgramHeader :: "u8 list \<Rightarrow> nat option" where
  "GetProgramHeader f = map_option unat (e_phoff f)"

fun first_load :: "u8 list \<Rightarrow> nat \<Rightarrow> nat \<Rightarrow> nat \<Rightarrow> u64 option" where
  "first_load f phdr i 0 = Some 0"
| "first_load f phdr i (Suc k) =
    do {
      ty \<leftarrow> p_type f phdr i;
      if ty \<noteq> PT_LOAD then first_load f phdr (Suc i) k else p_vaddr f phdr i
    }"

definition GetFirstLoadAddress :: "u8 list \<Rightarrow> u64 option" where
  "GetFirstLoadAddress f = do { phdr \<leftarrow> GetProgramHeader f; n \<leftarrow> e_phnum f; first_load f phdr 0 (unat n) }"

section \<open>Registers\<close>

definition SetCR3 :: "u64 \<Rightarrow> kernel \<Rightarrow> kernel" where
  "SetCR3 v k =
    (let tm = k_tm k in set_tm (tm\<lparr>cpu := (cpu tm)\<lparr>reg_cr3 := v\<rparr>\<rparr>) (k\<lparr>k_pg := (k_pg k)\<lparr>cr3 := v\<rparr>\<rparr>))"

definition set_task_cr3 :: "nat \<Rightarrow> u64 \<Rightarrow> kernel \<Rightarrow> kernel" where
  "set_task_cr3 i v k = on_task i (\<lambda>t. t\<lparr>ctx := (ctx t)\<lparr>reg_cr3 := v\<rparr>\<rparr>) k"

section \<open>Access through virtual addresses\<close>

text \<open>
  The kernel runs with write protection off.  A page that is not there raises a page fault with
  error code \<open>code\<close> (2: a write of the kernel, 0: a read), after which the access is done again; a
  fault that is not resolved halts the machine.
\<close>

definition access_page :: "machine \<Rightarrow> u64 \<Rightarrow> nat \<Rightarrow> u64 \<Rightarrow> kernel \<Rightarrow> (kernel \<times> u64) option" where
  "access_page mach code i a k =
    (let page = a AND 0xfffffffffffff000 in
     case xlat mach (pmem (k_pg k)) (cr3 (k_pg k)) page of
       Some p \<Rightarrow> Some (k, p)
     | None \<Rightarrow> do {
         t \<leftarrow> task_of k i;
         (pg, err) \<leftarrow> HandlePageFault (xlat mach) (fd_load k) t (k_pg k) code a;
         if err = kSuccess then map_option (\<lambda>p. (k\<lparr>k_pg := pg\<rparr>, p)) (xlat mach (pmem pg) (cr3 pg) page) else None
       })"

definition store_phys :: "u64 \<Rightarrow> u8 \<Rightarrow> kernel \<Rightarrow> kernel" where
  "store_phys p b k = k\<lparr>k_pg := (k_pg k)\<lparr>pmem := store_byte p b (pmem (k_pg k))\<rparr>\<rparr>"

fun store_virtual :: "machine \<Rightarrow> nat \<Rightarrow> u64 \<Rightarrow> u8 list \<Rightarrow> kernel \<Rightarrow> kernel option" where
  "store_virtual mach i a [] k = Some k"
| "store_virtual mach i a (b # bs) k =
    (case access_page mach 2 i a k of
       None \<Rightarrow> None
     | Some (k1, p) \<Rightarrow> store_virtual mach i (a + 1) bs (store_phys (p + (a AND 0xfff)) b k1))"

definition load_byte :: "memory \<Rightarrow> u64 \<Rightarrow> u8" where
  "load_byte m p = ucast (get_bits (8 * unat (p AND 7)) 8 (m (p AND NOT 7)))"

fun load_virtual :: "machine \<Rightarrow> nat \<Rightarrow> u64 \<Rightarrow> nat \<Rightarrow> kernel \<Rightarrow> (kernel \<times> u8 list) option" where
  "load_virtual mach i a 0 k = Some (k, [])"
| "load_virtual mach i a (Suc n) k =
    do {
      (k1, p) \<leftarrow> access_page mach 0 i a k;
      (k2, bs) \<leftarrow> load_virtual mach i (a + 1) n k1;
      Some (k2, load_byte (pmem (k_pg k1)) (p + (a AND 0xfff)) # bs)
    }"

text \<open>A C string without its terminator.\<close>

partial_function (option) load_string :: "machine \<Rightarrow> nat \<Rightarrow> u64 \<Rightarrow> kernel \<Rightarrow> (kernel \<times> u8 list) option" where
  "load_string mach i a k =
    do {
      (k1, p) \<leftarrow> access_page mach 0 i a k;
      let b = load_byte (pmem (k_pg k1)) (p + (a AND 0xfff));
      if b = 0 then Some (k1, [])
      else do { (k2, bs) \<leftarrow> load_string mach i (a + 1) k1; Some (k2, b # bs) }
    }"

section \<open>Loading\<close>

text \<open>
  One segment: \<open>memcpy\<close> of the file part and \<open>memset\<close> of the rest.  Sizes wrap around at 64 bits,
  and the number of pages does not count where in its first page the segment begins.
\<close>

definition copy_segment ::
  "machine \<Rightarrow> nat \<Rightarrow> u8 list \<Rightarrow> u64 \<Rightarrow> u64 \<Rightarrow> u64 \<Rightarrow> u64 \<Rightarrow> kernel \<Rightarrow> kernel option" where
  "copy_segment mach t f offset vaddr filesz memsz s =
    (if unat offset + unat filesz \<le> length f then do {
       s1 \<leftarrow> store_virtual mach t vaddr (bytes_at (unat offset) (unat filesz) f) s;
       store_virtual mach t (vaddr + filesz) (replicate (unat (memsz - filesz)) 0) s1
     } else None)"

definition segment_pages :: "u64 \<Rightarrow> nat" where
  "segment_pages memsz = unat ((memsz + 4095) div 4096)"

fun load_segments ::
  "machine \<Rightarrow> nat \<Rightarrow> u8 list \<Rightarrow> nat \<Rightarrow> nat \<Rightarrow> nat \<Rightarrow> u64 \<Rightarrow> kernel \<Rightarrow> (kernel \<times> u64 \<times> ErrorCode) option" where
  "load_segments mach t f phdr i 0 last_addr s = Some (s, last_addr, kSuccess)"
| "load_segments mach t f phdr i (Suc k) last_addr s =
    do {
      ty \<leftarrow> p_type f phdr i;
      if ty \<noteq> PT_LOAD then load_segments mach t f phdr (Suc i) k last_addr s
      else do {
        vaddr \<leftarrow> p_vaddr f phdr i;
        memsz \<leftarrow> p_memsz f phdr i;
        let last1 = max last_addr (vaddr + memsz);
        (pg, err) \<leftarrow> SetupPageMaps (k_pg s) vaddr (segment_pages memsz) False;
        let s1 = s\<lparr>k_pg := pg\<rparr>;
        if err \<noteq> kSuccess then Some (s1, last1, err)
        else do {
          offset \<leftarrow> p_offset f phdr i;
          filesz \<leftarrow> p_filesz f phdr i;
          s2 \<leftarrow> copy_segment mach t f offset vaddr filesz memsz s1;
          load_segments mach t f phdr (Suc i) k last1 s2
        }
      }
    }"

definition CopyLoadSegments :: "machine \<Rightarrow> nat \<Rightarrow> u8 list \<Rightarrow> kernel \<Rightarrow> (kernel \<times> u64 \<times> ErrorCode) option" where
  "CopyLoadSegments mach t f s =
    do { phdr \<leftarrow> GetProgramHeader f; n \<leftarrow> e_phnum f; load_segments mach t f phdr 0 (unat n) 0 s }"

definition LoadELF :: "machine \<Rightarrow> nat \<Rightarrow> u8 list \<Rightarrow> kernel \<Rightarrow> (kernel \<times> u64 \<times> ErrorCode) option" where
  "LoadELF mach t f s =
    do {
      ty \<leftarrow> e_type f;
      if ty \<noteq> ET_EXEC then Some (s, 0, kInvalidFormat)
      else do {
        addr_first \<leftarrow> GetFirstLoadAddress f;
        if addr_first < 0xffff800000000000 then Some (s, 0, kInvalidFormat)
        else CopyLoadSegments mach t f s
      }
    }"

definition SetupPML4 :: "nat \<Rightarrow> kernel \<Rightarrow> (kernel \<times> u64 WithError) option" where
  "SetupPML4 i k =
    (case NewPageMap (k_pg k) of
       None \<Rightarrow> None
     | Some (pg, Inl e) \<Rightarrow> Some (k\<lparr>k_pg := pg\<rparr>, Inl e)
     | Some (pg, Inr pml4) \<Rightarrow>
         let pg1 = pg\<lparr>pmem := copy_words pml4 (cr3 pg) 256 (pmem pg)\<rparr>
         in Some (set_task_cr3 i pml4 (SetCR3 pml4 (k\<lparr>k_pg := pg1\<rparr>)), Inr pml4))"

definition FreePML4 :: "machine \<Rightarrow> nat \<Rightarrow> kernel \<Rightarrow> (kernel \<times> ErrorCode) option" where
  "FreePML4 mach i k =
    do {
      t \<leftarrow> task_of k i;
      let pml4 = reg_cr3 (ctx t);
      let k1 = SetCR3 (pml4_table (ktables mach)) (set_task_cr3 i 0 k);
      (pg, err) \<leftarrow> FreePageMap (k_pg k1) pml4;
      Some (k1\<lparr>k_pg := pg\<rparr>, err)
    }"

definition ELF_magic :: "u8 list" where "ELF_magic = [0x7f, 0x45, 0x4c, 0x46]"

text \<open>\<open>CopyPageMaps\<close> of the upper half into the table that runs.\<close>

definition copy_app :: "AppLoadInfo \<Rightarrow> u64 \<Rightarrow> u64 \<Rightarrow> kernel \<Rightarrow> (kernel \<times> AppLoadInfo \<times> ErrorCode) option" where
  "copy_app info dest src k =
    map_option (\<lambda>(pg, err). (k\<lparr>k_pg := pg\<rparr>, info\<lparr>ali_pml4 := dest\<rparr>, err)) (CopyPageMaps (k_pg k) dest src 4 256)"

definition no_info :: AppLoadInfo where
  "no_info = \<lparr>ali_vaddr_end = 0, ali_entry = 0, ali_pml4 = 0\<rparr>"

text \<open>The file is read into a buffer of its size, which starts as zeros.\<close>

definition read_file :: "volume \<Rightarrow> nat \<Rightarrow> u8 list option" where
  "read_file v entry =
    do {
      e \<leftarrow> dir_entry v entry;
      bs \<leftarrow> LoadFile v (unat (file_size e)) entry;
      Some (bs @ replicate (unat (file_size e) - length bs) 0)
    }"

text \<open>An image that is not in the cache, loaded under \<open>temp_pml4\<close>, and copied for this run.\<close>

definition load_new_app :: "machine \<Rightarrow> nat \<Rightarrow> nat \<Rightarrow> u64 \<Rightarrow> kernel \<Rightarrow> (kernel \<times> AppLoadInfo \<times> ErrorCode) option" where
  "load_new_app mach file_entry i temp_pml4 k =
    do {
      file_buf \<leftarrow> read_file (k_vol k) file_entry;
      if length file_buf < 4 then None
      else if take 4 file_buf \<noteq> ELF_magic then Some (k, no_info, kInvalidFile)
      else do {
        (k1, last_addr, err) \<leftarrow> LoadELF mach i file_buf k;
        if err \<noteq> kSuccess then Some (k1, no_info, err)
        else do {
          entry \<leftarrow> e_entry file_buf;
          let info = \<lparr>ali_vaddr_end = last_addr, ali_entry = entry, ali_pml4 = temp_pml4\<rparr>;
          r \<leftarrow> SetupPML4 i (k1\<lparr>k_loads := (k_loads k1)(file_entry \<mapsto> info)\<rparr>);
          (case r of
             (k2, Inl e) \<Rightarrow> Some (k2, info, e)
           | (k2, Inr pml4) \<Rightarrow> copy_app info pml4 temp_pml4 k2)
        }
      }
    }"

definition LoadApp :: "machine \<Rightarrow> nat \<Rightarrow> nat \<Rightarrow> kernel \<Rightarrow> (kernel \<times> AppLoadInfo \<times> ErrorCode) option" where
  "LoadApp mach file_entry i k =
    (case SetupPML4 i k of
       None \<Rightarrow> None
     | Some (k1, Inl e) \<Rightarrow> Some (k1, no_info, e)
     | Some (k1, Inr temp_pml4) \<Rightarrow>
         (case k_loads k1 file_entry of
            Some info \<Rightarrow> copy_app info temp_pml4 (ali_pml4 info) k1
          | None \<Rightarrow> load_new_app mach file_entry i temp_pml4 k1))"

section \<open>Running\<close>

definition args_frame_addr :: u64 where "args_frame_addr = 0xfffffffffffff000"
definition app_stack_size :: u64 where "app_stack_size = 16 * 4096"
definition stack_frame_addr :: u64 where "stack_frame_addr = 0xffffffffffffe000 - app_stack_size"

text \<open>The page for the arguments: 32 pointers, then the strings.\<close>

definition argbuf_addr :: u64 where "argbuf_addr = args_frame_addr + 256"

definition store_args :: "machine \<Rightarrow> nat \<Rightarrow> ArgVec \<Rightarrow> kernel \<Rightarrow> kernel option" where
  "store_args mach i v k =
    do {
      k1 \<leftarrow> store_virtual mach i args_frame_addr (concat (map (\<lambda>p. le_bytes (argbuf_addr + of_nat p)) (argv v))) k;
      store_virtual mach i argbuf_addr (take (argbuf_index v) (argbuf v)) k1
    }"

text \<open>What the task keeps for the program, and what is dropped after it; \<open>fds\<close> are the terminal's files.\<close>

definition enter_app :: "nat list \<Rightarrow> AppLoadInfo \<Rightarrow> Task \<Rightarrow> Task" where
  "enter_app fds info t =
    (let elf_next_page = (ali_vaddr_end info + 4095) AND 0xfffffffffffff000
     in t\<lparr>files := files t @ map Some fds, dpaging_begin := elf_next_page, dpaging_end := elf_next_page,
          file_map_end := stack_frame_addr\<rparr>)"

definition leave_app :: "Task \<Rightarrow> Task" where
  "leave_app t = t\<lparr>files := [], file_maps := []\<rparr>"

text \<open>The memory of the program is set up: the arguments and the stack.\<close>

definition setup_pages :: "u64 \<Rightarrow> nat \<Rightarrow> kernel \<Rightarrow> (kernel \<times> ErrorCode) option" where
  "setup_pages addr n k = map_option (\<lambda>(pg, err). (k\<lparr>k_pg := pg\<rparr>, err)) (SetupPageMaps (k_pg k) addr n True)"

definition prepare_app ::
  "machine \<Rightarrow> nat \<Rightarrow> u8 list \<Rightarrow> u8 list option \<Rightarrow> kernel \<Rightarrow> (kernel \<times> nat \<times> ErrorCode) option" where
  "prepare_app mach i command first_arg k =
    do {
      (k1, err) \<leftarrow> setup_pages args_frame_addr 1 k;
      if err \<noteq> kSuccess then Some (k1, 0, err)
      else do {
        (v, err) \<leftarrow> MakeArgVector command first_arg 32 (replicate 3840 0);
        k2 \<leftarrow> store_args mach i v k1;
        if err \<noteq> kSuccess then Some (k2, length (argv v), err)
        else do {
          (k3, err) \<leftarrow> setup_pages stack_frame_addr 16 k2;
          Some (k3, length (argv v), err)
        }
      }
    }"

text \<open>After the program: its files, its memory and its page table are given back.\<close>

definition finish_app :: "machine \<Rightarrow> nat \<Rightarrow> kernel \<Rightarrow> (kernel \<times> ErrorCode) option" where
  "finish_app mach i k =
    do {
      let k1 = on_task i leave_app k;
      (pg, err) \<leftarrow> CleanPageMaps (k_pg k1) 0xffff800000000000;
      let k2 = k1\<lparr>k_pg := pg\<rparr>;
      if err \<noteq> kSuccess then Some (k2, err) else FreePML4 mach i k2
    }"

definition ExecuteFile ::
  "machine \<Rightarrow> nat list \<Rightarrow> nat \<Rightarrow> u8 list \<Rightarrow> u8 list option \<Rightarrow> kernel \<Rightarrow> (kernel \<times> int \<times> ErrorCode) option" where
  "ExecuteFile mach fds file_entry command first_arg k =
    do {
      i \<leftarrow> current_task k;
      (k1, info, err) \<leftarrow> LoadApp mach file_entry i k;
      if err \<noteq> kSuccess then Some (k1, 0, err)
      else do {
        (k2, argc, err) \<leftarrow> prepare_app mach i command first_arg k1;
        if err \<noteq> kSuccess then Some (k2, 0, err)
        else do {
          (k3, ret) \<leftarrow> call_app mach argc args_frame_addr 27 (ali_entry info) (stack_frame_addr + app_stack_size - 8)
            (on_task i (enter_app fds info) k2);
          (k4, err) \<leftarrow> finish_app mach i k3;
          Some (k4, ret, err)
        }
      }
    }"

end
