(* ===== verification/Terminal_Commands.thy ===== *)
theory Terminal_Commands
  imports App_Loading
begin

text \<open>
  The commands of the terminal: \<open>ExecuteLine\<close>, \<open>InputKey\<close>, the constructor of \<open>Terminal\<close> and the
  task \<open>TaskTerminal\<close> of \<open>kernel/terminal.cpp\<close>.  A pointer into \<open>linebuf_\<close> is an index.
\<close>

section \<open>Strings in the line buffer\<close>

definition str_at :: "u8 list \<Rightarrow> nat \<Rightarrow> u8 list" where
  "str_at buf i = c_string (drop i buf)"

definition str_index :: "u8 list \<Rightarrow> u8 \<Rightarrow> nat option" where
  "str_index buf c = (let s = c_string buf in if c \<in> set s then Some (length (takeWhile (\<lambda>x. x \<noteq> c) s)) else None)"

definition skip_blanks :: "u8 list \<Rightarrow> nat \<Rightarrow> nat" where
  "skip_blanks buf i = i + length (takeWhile is_space (drop i buf))"

text \<open>The command is cut off at the first blank; the index of the arguments.\<close>

definition cut_args :: "u8 list \<Rightarrow> u8 list \<times> nat option" where
  "cut_args buf =
    (case str_index buf 0x20 of
       None \<Rightarrow> (buf, None)
     | Some i \<Rightarrow> let b = buf[i := 0] in (b, Some (skip_blanks b (i + 1))))"

section \<open>Formatted numbers\<close>

function digits :: "nat \<Rightarrow> nat \<Rightarrow> nat list" where
  "digits base n = (if n < base \<or> base < 2 then [n] else digits base (n div base) @ [n mod base])"
  by pat_completeness auto
termination by (relation "measure snd") (auto simp: div_less_dividend)

declare digits.simps [simp del]

definition digit_char :: "nat \<Rightarrow> u8" where
  "digit_char d = of_nat (if d < 10 then 0x30 + d else 0x61 + d - 10)"

definition dec :: "nat \<Rightarrow> u8 list" where
  "dec n = map digit_char (digits 10 n)"

definition dec_int :: "int \<Rightarrow> u8 list" where
  "dec_int i = (if i < 0 then 0x2d # dec (nat (- i)) else dec (nat i))"

definition hex :: "nat \<Rightarrow> nat \<Rightarrow> u8 list" where
  "hex width n = (let ds = map digit_char (digits 16 n) in replicate (width - length ds) 0x30 @ ds)"

definition pci_line :: "machine \<Rightarrow> PciDevice \<Rightarrow> u8 list" where
  "pci_line mach dev =
    hex 2 (unat (pci_bus dev)) @ [0x3a] @ hex 2 (unat (pci_device dev)) @ [0x2e] @ dec (unat (pci_function dev)) @
    ascii '' vend='' @ hex 4 (unat (vendor_id mach dev)) @ ascii '' head='' @ hex 2 (unat (header_type dev)) @
    ascii '' class='' @ hex 2 (unat (cc_base (class_code dev))) @ [0x2e] @ hex 2 (unat (cc_sub (class_code dev))) @ [0x2e] @
    hex 2 (unat (cc_interface (class_code dev))) @ [0x0a]"

definition frames_text :: "string \<Rightarrow> nat \<Rightarrow> u8 list" where
  "frames_text label n = ascii label @ dec n @ ascii '' frames ('' @ dec (n * kBytesPerFrame div 1024 div 1024) @ ascii '' MiB)'' @ [0x0a]"

section \<open>Built-in commands\<close>

text \<open>
  Each takes the terminal's number, the line buffer, the index of the arguments and the file for the
  output, and returns the exit code.
\<close>

definition stdin_of :: "Terminal \<Rightarrow> nat" where "stdin_of t = term_files t ! 0"
definition stdout_of :: "Terminal \<Rightarrow> nat" where "stdout_of t = term_files t ! 1"
definition stderr_of :: "Terminal \<Rightarrow> nat" where "stderr_of t = term_files t ! 2"

definition run_echo :: "machine \<Rightarrow> Terminal \<Rightarrow> u8 list \<Rightarrow> nat option \<Rightarrow> kernel \<Rightarrow> (kernel \<times> int) option" where
  "run_echo mach t buf first_arg k =
    do {
      k1 \<leftarrow> (case first_arg of
               None \<Rightarrow> Some k
             | Some i \<Rightarrow>
                 if i < length buf \<and> buf ! i = 0x24 then
                   if str_at buf (i + 1) = [0x3f] then print_fd mach (stdout_of t) (dec_int (last_exit_code t)) k else Some k
                 else print_fd mach (stdout_of t) (str_at buf i) k);
      k2 \<leftarrow> print_fd mach (stdout_of t) [0x0a] k1;
      Some (k2, 0)
    }"

definition run_clear :: "machine \<Rightarrow> nat \<Rightarrow> kernel \<Rightarrow> (kernel \<times> int) option" where
  "run_clear mach i k =
    map_option (\<lambda>k1. (k1, 0))
      (on_terminal i (\<lambda>tw. do {
         (t, w) \<leftarrow> (if show_window (fst tw)
           then on_window (FillRectangle (inner_write (drawing_of mach)) (Vec 4 4)
                  (Vec (8 * kTermColumns) (16 * kTermRows)) (ToColor terminalBGColor)) tw
           else Some tw);
         Some (set_y 0 t, w) }) k)"

fun print_all :: "machine \<Rightarrow> nat \<Rightarrow> u8 list list \<Rightarrow> kernel \<Rightarrow> kernel option" where
  "print_all mach f [] k = Some k"
| "print_all mach f (s # ss) k = do { k1 \<leftarrow> print_fd mach f s k; print_all mach f ss k1 }"

definition run_lspci :: "machine \<Rightarrow> Terminal \<Rightarrow> kernel \<Rightarrow> (kernel \<times> int) option" where
  "run_lspci mach t k = map_option (\<lambda>k1. (k1, 0)) (print_all mach (stdout_of t) (map (pci_line mach) (k_pci k)) k)"

definition list_dir :: "machine \<Rightarrow> nat \<Rightarrow> nat \<Rightarrow> kernel \<Rightarrow> kernel option" where
  "list_dir mach f dir_cluster k = ListAllEntries k_vol (\<lambda>k s. print_fd mach f s k) dir_cluster k"

text \<open>A message with exit code 1.\<close>

definition fail_with :: "machine \<Rightarrow> nat \<Rightarrow> u8 list \<Rightarrow> kernel \<Rightarrow> (kernel \<times> int) option" where
  "fail_with mach f s k = map_option (\<lambda>k1. (k1, 1)) (print_fd mach f s k)"

definition no_argument :: "u8 list \<Rightarrow> nat option \<Rightarrow> bool" where
  "no_argument buf first_arg \<longleftrightarrow> (case first_arg of None \<Rightarrow> True | Some i \<Rightarrow> str_at buf i = [])"

definition arg_string :: "u8 list \<Rightarrow> nat option \<Rightarrow> u8 list" where
  "arg_string buf first_arg = (case first_arg of None \<Rightarrow> [] | Some i \<Rightarrow> str_at buf i)"

definition run_ls :: "machine \<Rightarrow> Terminal \<Rightarrow> u8 list \<Rightarrow> nat option \<Rightarrow> kernel \<Rightarrow> (kernel \<times> int) option" where
  "run_ls mach t buf first_arg k =
    (if no_argument buf first_arg
     then map_option (\<lambda>k1. (k1, 0)) (list_dir mach (stdout_of t) (unat (root_cluster (bpb (k_vol k)))) k)
     else do {
       (dir, post_slash) \<leftarrow> FindFile (k_vol k) (arg_string buf first_arg) 0;
       case dir of
         None \<Rightarrow> fail_with mach (stderr_of t) (ascii ''No such file or directory: '' @ arg_string buf first_arg @ [0x0a]) k
       | Some a \<Rightarrow> do {
           e \<leftarrow> dir_entry (k_vol k) a;
           if attr e = kDirectory then map_option (\<lambda>k1. (k1, 0)) (list_dir mach (stdout_of t) (FirstCluster e) k)
           else if post_slash then fail_with mach (stderr_of t) (FormatName e @ ascii '' is not a directory'' @ [0x0a]) k
           else map_option (\<lambda>k1. (k1, 0)) (print_fd mach (stdout_of t) (FormatName e @ [0x0a]) k)
         }
     })"

text \<open>Line after line, each at most 1023 bytes, through a buffer of 128 bytes in \<open>PrintToFD\<close>.\<close>

partial_function (option) cat_loop :: "machine \<Rightarrow> nat \<Rightarrow> nat \<Rightarrow> kernel \<Rightarrow> kernel option" where
  "cat_loop mach fd out k =
    do {
      (k1, line) \<leftarrow> ReadDelim (\<lambda>k n. fd_read mach fd n k) k 0x0a 1024;
      if line = [] then Some k1
      else do { k2 \<leftarrow> print_fd mach out (c_string line) k1; cat_loop mach fd out k2 }
    }"

text \<open>The file to show; \<open>Inl\<close> is a failure with a message.\<close>

definition cat_source :: "Terminal \<Rightarrow> u8 list \<Rightarrow> nat option \<Rightarrow> kernel \<Rightarrow> (u8 list + kernel \<times> nat) option" where
  "cat_source t buf first_arg k =
    (if no_argument buf first_arg then Some (Inr (k, stdin_of t))
     else do {
       (found, post_slash) \<leftarrow> FindFile (k_vol k) (arg_string buf first_arg) 0;
       case found of
         None \<Rightarrow> Some (Inl (ascii ''no such file: '' @ arg_string buf first_arg @ [0x0a]))
       | Some a \<Rightarrow> do {
           e \<leftarrow> dir_entry (k_vol k) a;
           if attr e \<noteq> kDirectory \<and> post_slash then Some (Inl (FormatName e @ ascii '' is not a directory'' @ [0x0a]))
           else if attr e = kDirectory then Some (Inl (FormatName e @ ascii '' is a directory'' @ [0x0a]))
           else Some (Inr (new_file (FatFile (FileDescriptor_new a)) k))
         }
     })"

definition run_cat :: "machine \<Rightarrow> nat \<Rightarrow> Terminal \<Rightarrow> u8 list \<Rightarrow> nat option \<Rightarrow> kernel \<Rightarrow> (kernel \<times> int) option" where
  "run_cat mach i t buf first_arg k =
    do {
      src \<leftarrow> cat_source t buf first_arg k;
      case src of
        Inl s \<Rightarrow> fail_with mach (stderr_of t) s k
      | Inr (k1, fd) \<Rightarrow> do {
          k2 \<leftarrow> on_terminal i (DrawCursor (drawing_of mach) False) k1;
          k3 \<leftarrow> cat_loop mach fd (stdout_of t) k2;
          k4 \<leftarrow> on_terminal i (DrawCursor (drawing_of mach) True) k3;
          Some (k4, 0)
        }
    }"

text \<open>A task without window that runs \<open>command\<close> and ends.\<close>

definition start_command :: "machine \<Rightarrow> u8 list \<Rightarrow> nat list \<Rightarrow> kernel \<Rightarrow> kernel option" where
  "start_command mach command fds k =
    (let (k1, d) = new_desc \<lparr>command_line = command, exit_after_command = True, desc_show_window = False, desc_files = fds\<rparr> k;
         (k2, i) = new_task k1
     in init_terminal mach i d k2)"

text \<open>Without arguments the string is constructed from a null pointer.\<close>

definition run_noterm :: "machine \<Rightarrow> Terminal \<Rightarrow> u8 list \<Rightarrow> nat option \<Rightarrow> kernel \<Rightarrow> (kernel \<times> int) option" where
  "run_noterm mach t buf first_arg k =
    (case first_arg of
       None \<Rightarrow> None
     | Some i \<Rightarrow> map_option (\<lambda>k1. (k1, 0)) (start_command mach (str_at buf i) (term_files t) k))"

text \<open>
  A line that ends in \<open>&\<close>: the blank before the arguments is put back; without arguments the write
  goes through a null pointer minus one.
\<close>

definition background_line :: "u8 list \<Rightarrow> nat \<Rightarrow> nat option \<Rightarrow> u8 list option" where
  "background_line buf n first_arg =
    (case first_arg of
       None \<Rightarrow> None
     | Some i \<Rightarrow>
         if n < 2 then None
         else let b = buf[i - 1 := 0x20, n - 1 := 0] in Some (if b ! (n - 2) = 0x20 then b[n - 2 := 0] else b))"

definition run_background :: "machine \<Rightarrow> nat \<Rightarrow> Terminal \<Rightarrow> u8 list \<Rightarrow> nat option \<Rightarrow> kernel \<Rightarrow> (kernel \<times> int) option" where
  "run_background mach i t buf first_arg k =
    do {
      b \<leftarrow> background_line buf (linebuf_index t) first_arg;
      k1 \<leftarrow> start_command mach (str_at b 0) (term_files t) (upd_terminal i (\<lambda>t. t\<lparr>linebuf := b\<rparr>) k);
      Some (k1, 0)
    }"

definition run_memstat :: "machine \<Rightarrow> Terminal \<Rightarrow> kernel \<Rightarrow> (kernel \<times> int) option" where
  "run_memstat mach t k =
    (let p_stat = Stat (memory_manager (k_pg k)) in
     map_option (\<lambda>k1. (k1, 0))
       (print_all mach (stdout_of t)
          [frames_text ''Phys used : '' (allocated_frames p_stat), frames_text ''Phys total: '' (total_frames p_stat)] k))"

definition run_program :: "machine \<Rightarrow> Terminal \<Rightarrow> u8 list \<Rightarrow> nat option \<Rightarrow> kernel \<Rightarrow> (kernel \<times> int) option" where
  "run_program mach t buf first_arg k =
    do {
      found \<leftarrow> FindCommand (k_vol k) (str_at buf 0) 0;
      case found of
        None \<Rightarrow> fail_with mach (stderr_of t) (ascii ''no such command: '' @ str_at buf 0 @ [0x0a]) k
      | Some file_entry \<Rightarrow> do {
          (k1, ec, err) \<leftarrow> ExecuteFile mach (term_files t) file_entry (str_at buf 0) (map_option (str_at buf) first_arg) k;
          if err \<noteq> kSuccess then do {
            nm \<leftarrow> Error_Name \<lparr>err_code = err, err_line = 0, err_file = ''''\<rparr>;
            k2 \<leftarrow> print_fd mach (stderr_of t) (ascii ''failed to exec file: '' @ ascii nm @ [0x0a]) k1;
            Some (k2, - ec)
          }
          else Some (k1, ec)
        }
    }"

text \<open>
  The choice of the command.  Whether the line ends in \<open>&\<close> is tested before the empty command is
  recognised, on an empty line with index -1.
\<close>

definition run_command :: "machine \<Rightarrow> nat \<Rightarrow> Terminal \<Rightarrow> u8 list \<Rightarrow> nat option \<Rightarrow> kernel \<Rightarrow> (kernel \<times> int) option" where
  "run_command mach i t buf first_arg k =
    (let command = str_at buf 0 in
     if command = ascii ''echo'' then run_echo mach t buf first_arg k
     else if command = ascii ''clear'' then run_clear mach i k
     else if command = ascii ''lspci'' then run_lspci mach t k
     else if command = ascii ''ls'' then run_ls mach t buf first_arg k
     else if command = ascii ''cat'' then run_cat mach i t buf first_arg k
     else if command = ascii ''noterm'' then run_noterm mach t buf first_arg k
     else if linebuf_index t = 0 then None
     else if buf ! (linebuf_index t - 1) = 0x26 then run_background mach i t buf first_arg k
     else if command = ascii ''memstat'' then run_memstat mach t k
     else if command \<noteq> [] then run_program mach t buf first_arg k
     else Some (k, 0))"

section \<open>Redirection and pipes\<close>

definition set_stdout :: "nat \<Rightarrow> Terminal \<Rightarrow> Terminal" where
  "set_stdout f t = t\<lparr>term_files := (term_files t)[1 := f]\<rparr>"

text \<open>The file behind \<open>>\<close>; \<open>Inl\<close> is a failure with a message.\<close>

definition redirect_file :: "u8 list \<Rightarrow> kernel \<Rightarrow> (kernel \<times> (u8 list + nat)) option" where
  "redirect_file dest k =
    do {
      (found, post_slash) \<leftarrow> FindFile (k_vol k) dest 0;
      case found of
        None \<Rightarrow> do {
          (v, r) \<leftarrow> CreateFile (k_vol k) dest;
          let k1 = k\<lparr>k_vol := v\<rparr>;
          case r of
            Inr a \<Rightarrow> Some (k1, Inr a)
          | Inl e \<Rightarrow> do {
              nm \<leftarrow> Error_Name \<lparr>err_code = e, err_line = 0, err_file = ''''\<rparr>;
              Some (k1, Inl (ascii ''failed to create a redirect file: '' @ ascii nm @ [0x0a]))
            }
        }
      | Some a \<Rightarrow> do {
          e \<leftarrow> dir_entry (k_vol k) a;
          Some (k, if attr e = kDirectory \<or> post_slash then Inl (ascii ''cannot redirect to a directory'' @ [0x0a]) else Inr a)
        }
    }"

text \<open>The result is \<open>False\<close> if \<open>ExecuteLine\<close> returns here.\<close>

definition redirect :: "machine \<Rightarrow> nat \<Rightarrow> nat option \<Rightarrow> kernel \<Rightarrow> (kernel \<times> bool) option" where
  "redirect mach i redir_char k =
    (case redir_char of
       None \<Rightarrow> Some (k, True)
     | Some r \<Rightarrow> do {
         t \<leftarrow> k_terms k i;
         let buf = (linebuf t)[r := 0];
         let k1 = upd_terminal i (\<lambda>t. t\<lparr>linebuf := buf\<rparr>) k;
         (k2, dest) \<leftarrow> redirect_file (str_at buf (skip_blanks buf (r + 1))) k1;
         case dest of
           Inl s \<Rightarrow> map_option (\<lambda>k3. (k3, False)) (print_fd mach (stderr_of t) s k2)
         | Inr a \<Rightarrow>
             let (k3, f) = new_file (FatFile (FileDescriptor_new a)) k2
             in Some (upd_terminal i (set_stdout f) k3, True)
       })"

definition set_layer_task :: "nat \<Rightarrow> nat \<Rightarrow> kernel \<Rightarrow> kernel" where
  "set_layer_task layer_id task k =
    k\<lparr>k_desk := (k_desk k)\<lparr>layer_task_map := (layer_task_map (k_desk k))(layer_id \<mapsto> task)\<rparr>\<rparr>"

text \<open>The task behind \<open>|\<close> with the pipe; the result has the pipe's file and the task.\<close>

definition open_pipe :: "machine \<Rightarrow> nat \<Rightarrow> nat option \<Rightarrow> kernel \<Rightarrow> (kernel \<times> (nat \<times> nat) option) option" where
  "open_pipe mach i pipe_char k =
    (case pipe_char of
       None \<Rightarrow> Some (k, None)
     | Some p \<Rightarrow> do {
         t \<leftarrow> k_terms k i;
         let buf = (linebuf t)[p := 0];
         let (k1, subtask) = new_task (upd_terminal i (\<lambda>t. t\<lparr>linebuf := buf\<rparr>) k);
         let (k2, f) = new_file (PipeFile (new_Pipe subtask)) k1;
         let (k3, d) = new_desc \<lparr>command_line = str_at buf (skip_blanks buf (p + 1)), exit_after_command = True,
                         desc_show_window = False, desc_files = [f, stdout_of t, stderr_of t]\<rparr> k2;
         k4 \<leftarrow> init_terminal mach subtask d (upd_terminal i (set_stdout f) k3);
         Some (set_layer_task (term_layer_id t) subtask k4, Some (f, subtask))
       })"

partial_function (option) wait_finish :: "machine \<Rightarrow> nat \<Rightarrow> kernel \<Rightarrow> (kernel \<times> int) option" where
  "wait_finish mach task k =
    do {
      i \<leftarrow> current_task k;
      (tm, r) \<leftarrow> WaitFinish_round (k_tm k) task;
      case r of
        Inr ec \<Rightarrow> Some (set_tm tm k, ec)
      | Inl _ \<Rightarrow> do { k1 \<leftarrow> others mach i (set_tm tm k); wait_finish mach task k1 }
    }"

definition close_pipe :: "machine \<Rightarrow> nat \<Rightarrow> (nat \<times> nat) option \<Rightarrow> int \<Rightarrow> kernel \<Rightarrow> (kernel \<times> int) option" where
  "close_pipe mach i pipe exit_code k =
    (case pipe of
       None \<Rightarrow> Some (k, exit_code)
     | Some (f, subtask) \<Rightarrow>
         (case k_files k f of
            Some (PipeFile p) \<Rightarrow> do {
              tm \<leftarrow> Pipe_FinishWrite p (k_tm k);
              (k1, ec) \<leftarrow> wait_finish mach subtask (set_tm tm k);
              t \<leftarrow> k_terms k1 i;
              Some (set_layer_task (term_layer_id t) (term_task t) k1, ec)
            }
          | _ \<Rightarrow> None))"

definition ExecuteLine :: "machine \<Rightarrow> nat \<Rightarrow> kernel \<Rightarrow> kernel option" where
  "ExecuteLine mach i k =
    do {
      t0 \<leftarrow> k_terms k i;
      let (buf, first_arg) = cut_args (linebuf t0);
      (k1, go_on) \<leftarrow> redirect mach i (str_index (linebuf t0) 0x3e) (upd_terminal i (\<lambda>t. t\<lparr>linebuf := buf\<rparr>) k);
      if \<not> go_on then Some k1
      else do {
        (k2, pipe) \<leftarrow> open_pipe mach i (str_index (linebuf t0) 0x7c) k1;
        t \<leftarrow> k_terms k2 i;
        (k3, code) \<leftarrow> run_command mach i t (linebuf t) first_arg k2;
        (k4, exit_code) \<leftarrow> close_pipe mach i pipe code k3;
        Some (upd_terminal i (\<lambda>t. (set_stdout (stdout_of t0) t)\<lparr>last_exit_code := exit_code, linebuf_index := 0\<rparr>) k4)
      }
    }"

section \<open>Keys\<close>

definition prompt :: "u8 list" where "prompt = [0x3e, 0x3e, 0x20, 0]"
definition prompt_color :: PixelColor where "prompt_color = PixelColor 0 255 255"

text \<open>\<open>InputKey\<close> with the area to be redrawn.\<close>

definition InputKey :: "machine \<Rightarrow> nat \<Rightarrow> u8 \<Rightarrow> u8 \<Rightarrow> kernel \<Rightarrow> (kernel \<times> Rectangle) option" where
  "InputKey mach i keycode ascii_code k =
    (if ascii_code = 0x0a then do {
       k1 \<leftarrow> on_terminal i (DrawCursor (drawing_of mach) False) k;
       k2 \<leftarrow> on_terminal i (end_line (drawing_of mach)) k1;
       k3 \<leftarrow> ExecuteLine mach i k2;
       k4 \<leftarrow> Terminal_Print mach i prompt prompt_color None k3;
       area \<leftarrow> inner_area i k4;
       k5 \<leftarrow> on_terminal i (DrawCursor (drawing_of mach) True) k4;
       Some (k5, area)
     }
     else on_terminal_area i (edit_key (drawing_of mach) keycode ascii_code) k)"

section \<open>The terminal task\<close>

definition terminal_title :: "u8 list" where
  "terminal_title = ascii ''MikanTerminal'' @ [0]"

text \<open>The window of a new terminal, its layer and the first prompt.\<close>

definition open_window :: "machine \<Rightarrow> nat \<Rightarrow> kernel \<Rightarrow> kernel option" where
  "open_window mach i k =
    do {
      w \<leftarrow> new_ToplevelWindow (hankaku_font mach) (freetype mach) (kTermColumns * 8 + 8 + kMarginX)
             (kTermRows * 16 + 8 + kMarginY) (screen_format mach) terminal_title;
      w1 \<leftarrow> DrawTerminal (inner_write (drawing_of mach)) (Vec 0 0) (InnerSize w) w;
      let n = k_next k;
      let (lm, layer_id) = NewLayer (layers (k_desk k));
      let lm1 = update_layer layer_id (\<lambda>l. SetDraggable True (SetWindow_layer n l)) lm;
      let k1 = k\<lparr>k_next := n + 1, k_desk := (k_desk k)\<lparr>layers := lm1, windows := (windows (k_desk k))(n \<mapsto> w1)\<rparr>\<rparr>;
      Terminal_Print mach i prompt prompt_color None
        (upd_terminal i (\<lambda>t. t\<lparr>term_window := Some n, term_layer_id := layer_id\<rparr>) k1)
    }"

text \<open>The constructor, with the descriptor behind \<open>data\<close> if there is one.\<close>

definition new_Terminal :: "machine \<Rightarrow> nat \<Rightarrow> TerminalDescriptor option \<Rightarrow> kernel \<Rightarrow> kernel option" where
  "new_Terminal mach i term_desc k =
    (case term_desc of
       Some d \<Rightarrow>
         let k1 = k\<lparr>k_terms := (k_terms k)(i \<mapsto> blank_Terminal (junk mach) i (desc_show_window d) (desc_files d))\<rparr>
         in if desc_show_window d then open_window mach i k1 else Some k1
     | None \<Rightarrow>
         let (k1, f0) = new_file (TermFile i) k; (k2, f1) = new_file (TermFile i) k1; (k3, f2) = new_file (TermFile i) k2
         in open_window mach i (k3\<lparr>k_terms := (k_terms k3)(i \<mapsto> blank_Terminal (junk mach) i True [f0, f1, f2])\<rparr>))"

fun input_keys :: "machine \<Rightarrow> nat \<Rightarrow> u8 list \<Rightarrow> kernel \<Rightarrow> kernel option" where
  "input_keys mach i [] k = Some k"
| "input_keys mach i (c # cs) k = do { (k1, area) \<leftarrow> InputKey mach i 0 c k; input_keys mach i cs k1 }"

definition add_blink_timer :: "nat \<Rightarrow> u64 \<Rightarrow> kernel \<Rightarrow> kernel" where
  "add_blink_timer i t k = k\<lparr>k_timers := AddTimer \<lparr>timeout = t + 50, timer_val = 1, timer_task = i\<rparr> (k_timers k)\<rparr>"

text \<open>The window is placed and activated, unless the task runs without one.\<close>

definition show_terminal :: "machine \<Rightarrow> nat \<Rightarrow> kernel \<Rightarrow> kernel option" where
  "show_terminal mach i k =
    do {
      t \<leftarrow> k_terms k i;
      let d = k_desk k;
      lm \<leftarrow> LM_Move (windows d) (term_layer_id t) (Vec 100 200) (layers d);
      let ltm = (case layer_task_map d (term_layer_id t) of
                   None \<Rightarrow> (layer_task_map d)(term_layer_id t \<mapsto> i) | Some _ \<Rightarrow> layer_task_map d);
      d1 \<leftarrow> Activate (hankaku_font mach) (freetype mach) (term_layer_id t) (d\<lparr>layers := lm, layer_task_map := ltm\<rparr>);
      Some (k\<lparr>k_desk := d1\<rparr>)
    }"

text \<open>\<open>Finish\<close> ends the task; control goes to another one.\<close>

definition finish_terminal :: "nat \<Rightarrow> kernel \<Rightarrow> kernel option" where
  "finish_terminal i k =
    do { t \<leftarrow> k_terms k i; tm \<leftarrow> Finish (k_tm k) (last_exit_code t); Some (set_tm tm k) }"

text \<open>\<open>TaskTerminal\<close> up to its loop; \<open>Inl\<close> is the end of the task.\<close>

definition TaskTerminal_start :: "machine \<Rightarrow> nat \<Rightarrow> nat \<Rightarrow> kernel \<Rightarrow> (kernel + kernel) option" where
  "TaskTerminal_start mach i data k =
    do {
      term_desc \<leftarrow> (if data = 0 then Some None else map_option Some (k_descs k data));
      let show = (case term_desc of None \<Rightarrow> True | Some d \<Rightarrow> desc_show_window d);
      k1 \<leftarrow> new_Terminal mach i term_desc k;
      k2 \<leftarrow> (if show then show_terminal mach i k1 else Some k1);
      k3 \<leftarrow> (case term_desc of
               Some d \<Rightarrow> if command_line d \<noteq> [] then input_keys mach i (command_line d @ [0x0a]) k2 else Some k2
             | None \<Rightarrow> Some k2);
      case term_desc of
        Some d \<Rightarrow>
          if exit_after_command d
          then map_option Inl (finish_terminal i (k3\<lparr>k_descs := (k_descs k3)(data := None)\<rparr>))
          else Some (Inr (add_blink_timer i (tick (k_timers k3)) k3))
      | None \<Rightarrow> Some (Inr (add_blink_timer i (tick (k_timers k3)) k3))
    }"

text \<open>The handling of a message; the flag is \<open>window_isactive\<close>.\<close>

definition terminal_timer :: "machine \<Rightarrow> nat \<Rightarrow> bool \<Rightarrow> bool \<Rightarrow> u64 \<Rightarrow> kernel \<Rightarrow> kernel option" where
  "terminal_timer mach i show active time k =
    (let k1 = add_blink_timer i time k in
     if show \<and> active then do {
       (k2, area) \<leftarrow> on_terminal_area i (BlinkCursor (drawing_of mach)) k1;
       draw_message i area k2
     }
     else Some k1)"

definition terminal_key :: "machine \<Rightarrow> nat \<Rightarrow> bool \<Rightarrow> MessageArg \<Rightarrow> kernel \<Rightarrow> kernel option" where
  "terminal_key mach i show a k =
    (if kb_press a \<noteq> 0 then do {
       (k1, area) \<leftarrow> InputKey mach i (kb_keycode a) (kb_ascii a) k;
       if show then draw_message i area k1 else Some k1
     }
     else Some k)"

definition close_terminal :: "machine \<Rightarrow> nat \<Rightarrow> nat \<Rightarrow> kernel \<Rightarrow> kernel option" where
  "close_terminal mach i layer_id k =
    do {
      (d, e) \<leftarrow> CloseLayer (hankaku_font mach) (freetype mach) layer_id (k_desk k);
      finish_terminal i (k\<lparr>k_desk := d\<rparr>)
    }"

datatype terminal_next = Continue bool | Ended

definition terminal_message ::
  "machine \<Rightarrow> nat \<Rightarrow> bool \<Rightarrow> bool \<Rightarrow> Message \<Rightarrow> kernel \<Rightarrow> (kernel \<times> terminal_next) option" where
  "terminal_message mach i show active m k =
    (case msg_type m of
       kTimerTimeout \<Rightarrow>
         map_option (\<lambda>k1. (k1, Continue active)) (terminal_timer mach i show active (timer_timeout (arg m)) k)
     | kKeyPush \<Rightarrow> map_option (\<lambda>k1. (k1, Continue active)) (terminal_key mach i show (arg m) k)
     | kWindowActive \<Rightarrow> Some (k, Continue (wa_activate (arg m) \<noteq> 0))
     | kWindowClose \<Rightarrow> map_option (\<lambda>k1. (k1, Ended)) (close_terminal mach i (wc_layer_id (arg m)) k)
     | _ \<Rightarrow> Some (k, Continue active))"

text \<open>One round of the loop.\<close>

definition TaskTerminal_round :: "machine \<Rightarrow> nat \<Rightarrow> bool \<Rightarrow> bool \<Rightarrow> kernel \<Rightarrow> (kernel \<times> terminal_next) option" where
  "TaskTerminal_round mach i show active k =
    do {
      (k1, msg) \<leftarrow> receive i k;
      case msg of
        None \<Rightarrow> map_option (\<lambda>k2. (k2, Continue active)) (sleep mach i k1)
      | Some m \<Rightarrow> terminal_message mach i show active m k1
    }"

end
