(* ===== verification/User_Memory.thy ===== *)
theory User_Memory
  imports App_Loading
begin

text \<open>
  Reading and writing the memory of a program through its page tables: what a store of the kernel
  changes and what a load gives, for addresses whose pages are mapped.
\<close>

section \<open>Bytes in words\<close>

lemma mask3: "(7 :: u64) = mask 3"
  by (simp add: mask_eq_exp_minus_1)

lemma byte_offset: "unat ((p :: u64) AND 7) < 8"
  unfolding mask3 take_bit_eq_mask [symmetric]
  using take_bit_nat_less_exp [of 3 "unat p"] by (simp add: unsigned_take_bit_eq del: take_bit_nat_less_exp)

lemma word_and_offset: "(p :: u64) = q \<longleftrightarrow> p AND NOT 7 = q AND NOT 7 \<and> unat (p AND 7) = unat (q AND 7)"
proof
  assume "p AND NOT 7 = q AND NOT 7 \<and> unat (p AND 7) = unat (q AND 7)"
  then have "p AND NOT 7 = q AND NOT 7" "p AND 7 = q AND 7" by (simp_all add: word_unat_eq_iff)
  then show "p = q" by (metis bit.conj_disj_distrib bit.conj_one_right bit.disj_cancel_right)
qed simp

lemma load_store_byte: "load_byte (store_byte p b m) q = (if p = q then b else load_byte m q)"
proof (cases "p AND NOT 7 = q AND NOT 7")
  case True
  have lt: "unat (p AND 7) < 8" "unat (q AND 7) < 8" by (rule byte_offset)+
  show ?thesis
  proof (cases "unat (p AND 7) = unat (q AND 7)")
    case same: True
    then have "p = q" using True word_and_offset by blast
    moreover have "ucast (take_bit 8 (ucast b :: u64)) = b"
      by (rule bit_word_eqI) (simp add: bit_simps)
    ultimately show ?thesis
      using lt by (simp add: load_byte_def store_byte_def Let_def)
  next
    case False
    then have "8 * unat (q AND 7) + 8 \<le> 8 * unat (p AND 7) \<or> 8 * unat (p AND 7) + 8 \<le> 8 * unat (q AND 7)" by linarith
    moreover have "p \<noteq> q" using False by blast
    ultimately show ?thesis
      using lt True by (simp add: load_byte_def store_byte_def Let_def)
  qed
next
  case False
  then have "p \<noteq> q" by blast
  with False show ?thesis by (simp add: load_byte_def store_byte_def Let_def)
qed

section \<open>Physical addresses of pages\<close>

definition page_off :: "u64 \<Rightarrow> nat" where
  "page_off a = unat (a AND 0xfff)"

lemma mask12: "(0xfff :: u64) = mask 12"
  by (simp add: mask_eq_exp_minus_1)

lemma page_off_less: "page_off a < 4096"
  unfolding page_off_def mask12 take_bit_eq_mask [symmetric]
  using take_bit_nat_less_exp [of 12 "unat a"] by (simp add: unsigned_take_bit_eq del: take_bit_nat_less_exp)

lemma unat_in_frame:
  assumes "f < kFrameCount" "off < 4096"
  shows "unat (Frame f + of_nat off) = 4096 * f + off"
proof -
  have "f * kBytesPerFrame + off < 2 ^ LENGTH(64)" using assms by (simp add: frame_consts)
  from unat_of_nat_less [OF this] show ?thesis by (simp only: Frame_def flip: of_nat_add) (simp add: frame_consts)
qed

lemma in_frame_inj:
  assumes "f < kFrameCount" "g < kFrameCount" "x < 4096" "y < 4096"
  shows "Frame f + of_nat x = Frame g + of_nat y \<longleftrightarrow> f = g \<and> x = y"
proof
  assume "Frame f + of_nat x = Frame g + of_nat y"
  then have "4096 * f + x = 4096 * g + y"
    using unat_in_frame [OF assms(1,3)] unat_in_frame [OF assms(2,4)] by simp
  then show "f = g \<and> x = y" using assms(3,4) by (cases f g rule: linorder_cases) auto
qed simp

lemma clear_low: "unat (p AND NOT 7) = 8 * (unat (p :: u64) div 8)"
proof -
  have "p AND NOT 7 = push_bit 3 (drop_bit 3 p)"
    unfolding mask3 by (rule bit_word_eqI) (auto simp: bit_simps)
  moreover have "unat (drop_bit 3 p) = unat p div 8" by (simp only: unat_drop_bit_eq) (simp add: drop_bit_eq_div)
  moreover have "unat (push_bit 3 w) = 8 * unat w" if "8 * unat w < 2 ^ 64" for w :: u64
    using that by (simp add: push_bit_eq_mult unat_mult_lem [THEN iffD1])
  moreover have "8 * (unat p div 8) < 2 ^ 64" 
    using unsigned_less [of p, where 'a = nat] by simp
  ultimately show ?thesis by simp
qed

lemma frame_word:
  assumes "f < kFrameCount" "off < 4096"
  shows "(Frame f + of_nat off) AND NOT 7 = entry_addr (Frame f) (off div 8)"
proof -
  have "4096 * f + off = off + 512 * f * 8" by simp
  then have "(4096 * f + off) div 8 = 512 * f + off div 8" by (simp only: div_mult_self1)
  then have div: "8 * ((4096 * f + off) div 8) = 4096 * f + 8 * (off div 8)" by simp
  have "off div 8 < 512" using assms(2) by simp
  then show ?thesis
    unfolding word_unat_eq_iff clear_low unat_in_frame [OF assms] div by (rule unat_entry_addr [OF assms(1), symmetric])
qed

text \<open>A byte stored in one page changes no word of another one.\<close>

lemma store_byte_other:
  assumes "f < kFrameCount" "g < kFrameCount" "off < 4096" "j < 512" "f \<noteq> g"
  shows "get_entry (store_byte (Frame f + of_nat off) b m) (Frame g) j = get_entry m (Frame g) j"
proof -
  have "off div 8 < 512" using assms(3) by simp
  then have "entry_addr (Frame g) j \<noteq> entry_addr (Frame f) (off div 8)"
    using entry_addr_inj [OF assms(1,2), of "off div 8" j] assms(4,5) by auto
  then show ?thesis
    unfolding store_byte_def Let_def get_entry_def frame_word [OF assms(1,3)] by simp
qed

section \<open>Mapped areas\<close>

lemma not_mask12: "(0xfffffffffffff000 :: u64) = NOT (mask 12)"
  by (simp add: mask_eq_exp_minus_1)

definition page_frame :: "kernel \<Rightarrow> u64 \<Rightarrow> u64 option" where
  "page_frame k a = walk (pmem (k_pg k)) (cr3 (k_pg k)) 4 a"

definition user_byte :: "kernel \<Rightarrow> u64 \<Rightarrow> u8" where
  "user_byte k a = load_byte (pmem (k_pg k)) (the (page_frame k a) + of_nat (page_off a))"

text \<open>
  The page tables are well-formed, and every address of \<open>A\<close> is on a page that is mapped; no page is
  mapped twice.
\<close>

definition user_area :: "machine \<Rightarrow> (nat \<Rightarrow> nat set) \<Rightarrow> u64 set \<Rightarrow> kernel \<Rightarrow> bool" where
  "user_area mach R A k \<longleftrightarrow>
    mmu_walks (xlat mach) \<and> pt_inv (k_pg k) R \<and> (\<exists>root \<in> R 4. cr3 (k_pg k) = Frame root) \<and>
    (\<forall>a \<in> A. 256 \<le> Part a 4 \<and> page_frame k a \<noteq> None) \<and>
    (\<forall>a \<in> A. \<forall>b \<in> A. page_frame k a = page_frame k b \<longrightarrow> a AND 0xfffffffffffff000 = b AND 0xfffffffffffff000)"

lemma user_area_frame:
  assumes "user_area mach R A k" "a \<in> A"
  shows "\<exists>f \<in> R 0. page_frame k a = Some (Frame f) \<and> f < kFrameCount"
proof -
  from assms obtain root q where *: "pt_inv (k_pg k) R" "root \<in> R 4" "cr3 (k_pg k) = Frame root" "256 \<le> Part a 4"
    "walk (pmem (k_pg k)) (Frame root) 4 a = Some q" by (auto simp: user_area_def page_frame_def)
  then have "upper 4 (Part a 4)" by (simp add: upper_def)
  from walk_level0 [OF *(1,2) this order_refl *(5)] obtain f where "f \<in> R 0" "q = Frame f" by blast
  then show ?thesis
    using *(3,5) used_less [OF pt_inv_used [OF *(1) \<open>f \<in> R 0\<close>]] by (auto simp: page_frame_def)
qed

lemma user_area_access:
  assumes "user_area mach R A k" "a \<in> A" "page_frame k a = Some p"
  shows "access_page mach code t a k = Some (k, p)"
proof -
  have "xlat mach (pmem (k_pg k)) (cr3 (k_pg k)) (a AND 0xfffffffffffff000) = Some p"
    using assms unfolding user_area_def mmu_walks_def page_frame_def by blast
  then show ?thesis by (simp add: access_page_def Let_def)
qed

lemma off_word: "a AND 0xfff = (of_nat (page_off a) :: u64)"
  by (simp add: page_off_def)

lemma page_split: "(a :: u64) = b \<longleftrightarrow> a AND 0xfffffffffffff000 = b AND 0xfffffffffffff000 \<and> page_off a = page_off b"
proof
  assume "a AND 0xfffffffffffff000 = b AND 0xfffffffffffff000 \<and> page_off a = page_off b"
  then have "a AND NOT (mask 12) = b AND NOT (mask 12)" "a AND mask 12 = b AND mask 12"
    unfolding page_off_def word_unat_eq_iff not_mask12 mask12 by blast+
  then show "a = b" by (metis bit.conj_disj_distrib bit.conj_one_right bit.disj_cancel_right)
qed simp

section \<open>Stores to mapped pages\<close>

text \<open>Page tables whose entries are the same translate the same.\<close>

definition same_tables :: "(nat \<Rightarrow> nat set) \<Rightarrow> memory \<Rightarrow> memory \<Rightarrow> bool" where
  "same_tables R m m' \<longleftrightarrow>
    (\<forall>l. \<forall>f \<in> R (Suc l). \<forall>i < 512. get_entry m' (Frame f) i = get_entry m (Frame f) i)"

lemma same_tables_inv:
  assumes "pt_inv s R" "same_tables R (pmem s) m"
  shows "pt_inv (s\<lparr>pmem := m\<rparr>) R"
proof -
  have "get_entry m (Frame f) i = entry_of s f i" if "f \<in> R (Suc l)" "i < 512" for f l i
    using assms(2) that by (simp add: same_tables_def)
  then have "\<exists>g \<in> R l. Pointer (get_entry m (Frame f) i) = Frame g"
    if "f \<in> R (Suc l)" "i < 512" "upper (Suc l) i" "pme_present (get_entry m (Frame f) i)" for l f i
    using assms(1) that unfolding pt_inv_def by simp
  then show ?thesis using assms(1) unfolding pt_inv_def used_frames_def by simp
qed

lemma same_tables_walk:
  assumes "pt_inv s R" "same_tables R (pmem s) m"
  shows "f \<in> R l \<Longrightarrow> upper l (Part a l) \<Longrightarrow> l \<le> 4 \<Longrightarrow> walk m (Frame f) l a = walk (pmem s) (Frame f) l a"
proof (induction l arbitrary: f)
  case (Suc l)
  let ?i = "Part a (Suc l)"
  have i: "?i < 512" by (simp add: Part_less)
  have e: "get_entry m (Frame f) ?i = entry_of s f ?i" using assms(2) Suc.prems(1) i by (simp add: same_tables_def)
  show ?case
  proof (cases "pme_present (entry_of s f ?i)")
    case True
    then obtain g where g: "g \<in> R l" "Pointer (entry_of s f ?i) = Frame g"
      using assms(1) Suc.prems(1,2) i unfolding pt_inv_def by blast
    have "upper l (Part a l)" using Suc.prems(3) by (simp add: upper_def)
    with Suc.IH [OF g(1)] Suc.prems(3) e g(2) show ?thesis by (simp add: Let_def)
  qed (simp add: e Let_def)
qed simp

definition set_mem :: "memory \<Rightarrow> kernel \<Rightarrow> kernel" where
  "set_mem m k = k\<lparr>k_pg := (k_pg k)\<lparr>pmem := m\<rparr>\<rparr>"

lemma store_phys_mem: "store_phys p b k = set_mem (store_byte p b (pmem (k_pg k))) k"
  by (simp add: store_phys_def set_mem_def)

lemma set_mem_simps [simp]:
  "pmem (k_pg (set_mem m k)) = m" "cr3 (k_pg (set_mem m k)) = cr3 (k_pg k)" "set_mem m (set_mem n k) = set_mem m k"
  "set_mem (pmem (k_pg k)) k = k"
  by (simp_all add: set_mem_def)

lemma same_tables_page_frame:
  assumes area: "user_area mach R A k" and m: "same_tables R (pmem (k_pg k)) m" and a: "a \<in> A"
  shows "page_frame (set_mem m k) a = page_frame k a"
proof -
  from area a obtain root where r: "pt_inv (k_pg k) R" "root \<in> R 4" "cr3 (k_pg k) = Frame root" "256 \<le> Part a 4"
    by (auto simp: user_area_def)
  then have "upper 4 (Part a 4)" by (simp add: upper_def)
  from same_tables_walk [OF r(1) m r(2) this] r(3) show ?thesis by (simp add: page_frame_def)
qed

lemma same_tables_area:
  assumes "user_area mach R A k" "same_tables R (pmem (k_pg k)) m"
  shows "user_area mach R A (set_mem m k)"
proof -
  have inv: "pt_inv (k_pg (set_mem m k)) R"
    using same_tables_inv assms by (simp add: user_area_def set_mem_def)
  have same: "page_frame (set_mem m k) a = page_frame k a" if "a \<in> A" for a
    by (rule same_tables_page_frame [OF assms that])
  note area = assms(1) [unfolded user_area_def]
  show ?thesis
    unfolding user_area_def
  proof (intro conjI ballI impI)
    show "mmu_walks (xlat mach)" "\<exists>root \<in> R 4. cr3 (k_pg (set_mem m k)) = Frame root" using area by simp_all
    show "256 \<le> Part a 4" "page_frame (set_mem m k) a \<noteq> None" if "a \<in> A" for a
      using area that same [OF that] by simp_all
    show "a AND 0xfffffffffffff000 = b AND 0xfffffffffffff000"
      if "a \<in> A" "b \<in> A" "page_frame (set_mem m k) a = page_frame (set_mem m k) b" for a b
      using area that same [OF that(1)] same [OF that(2)] by metis
  qed (rule inv)
qed

text \<open>A store changes the byte, and no frame that is not a mapped page.\<close>

definition only_pages :: "(nat \<Rightarrow> nat set) \<Rightarrow> memory \<Rightarrow> memory \<Rightarrow> bool" where
  "only_pages R m m' \<longleftrightarrow>
    (\<forall>g < kFrameCount. g \<notin> R 0 \<longrightarrow> (\<forall>i < 512. get_entry m' (Frame g) i = get_entry m (Frame g) i))"

lemma only_pages_tables:
  assumes "pt_inv s R" "only_pages R m m'"
  shows "same_tables R m m'"
proof -
  have "f < kFrameCount \<and> f \<notin> R 0" if "f \<in> R (Suc l)" for f l
    using used_less [OF pt_inv_used [OF assms(1) that]] assms(1) that unfolding pt_inv_def by blast
  then show ?thesis using assms(2) unfolding only_pages_def same_tables_def by blast
qed

lemma only_pages_trans: "only_pages R m m' \<Longrightarrow> only_pages R m' m'' \<Longrightarrow> only_pages R m m''"
  by (simp add: only_pages_def)

lemma store_byte_user:
  assumes area: "user_area mach R A k" and a: "a \<in> A"
  shows "\<exists>p m. access_page mach 2 t a k = Some (k, p) \<and> store_phys (p + (a AND 0xfff)) b k = set_mem m k \<and>
    only_pages R (pmem (k_pg k)) m \<and> (\<forall>x \<in> A. user_byte (set_mem m k) x = (if x = a then b else user_byte k x))"
proof -
  from user_area_frame [OF area a] obtain f where f: "f \<in> R 0" "page_frame k a = Some (Frame f)" "f < kFrameCount" by blast
  define p where "p = Frame f + of_nat (page_off a)"
  define m where "m = store_byte p b (pmem (k_pg k))"
  have only: "only_pages R (pmem (k_pg k)) m"
    unfolding only_pages_def m_def p_def using store_byte_other [OF f(3) _ page_off_less] f(1) by blast
  have inv: "pt_inv (k_pg k) R" using area by (simp add: user_area_def)
  note same = same_tables_page_frame [OF area only_pages_tables [OF inv only]]
  have "user_byte (set_mem m k) x = (if x = a then b else user_byte k x)" if x: "x \<in> A" for x
  proof -
    from user_area_frame [OF area x] obtain g where g: "page_frame k x = Some (Frame g)" "g < kFrameCount" by blast
    have "p = Frame g + of_nat (page_off x) \<longleftrightarrow> f = g \<and> page_off a = page_off x"
      unfolding p_def by (rule in_frame_inj [OF f(3) g(2) page_off_less page_off_less])
    also have "\<dots> \<longleftrightarrow> page_frame k a = page_frame k x \<and> page_off a = page_off x"
      using f g Frame_inj [OF f(3) g(2)] by simp
    also have "\<dots> \<longleftrightarrow> a = x" using area a x page_split [of a x] unfolding user_area_def by blast
    finally have eq: "p = Frame g + of_nat (page_off x) \<longleftrightarrow> x = a" by (simp add: eq_commute)
    have "user_byte (set_mem m k) x = load_byte m (Frame g + of_nat (page_off x))"
      by (simp add: user_byte_def same [OF x] g(1))
    then show ?thesis unfolding m_def load_store_byte eq by (simp add: user_byte_def g(1))
  qed
  then show ?thesis
    using user_area_access [OF area a f(2)] only
    by (intro exI [of _ "Frame f"] exI [of _ m]) (simp add: store_phys_mem off_word m_def p_def)
qed

lemma unat_pred: "(y :: u64) \<noteq> 0 \<Longrightarrow> unat y = Suc (unat (y - 1))"
  by (metis Suc_pred' bot_nat_0.not_eq_extremum unat_0_iff unat_minus_one)

lemma store_virtual_user:
  assumes "user_area mach R A k" "\<forall>i < length bs. a + of_nat i \<in> A" "length bs \<le> 2 ^ 64"
  shows "\<exists>m. store_virtual mach t a bs k = Some (set_mem m k) \<and> only_pages R (pmem (k_pg k)) m \<and>
    user_area mach R A (set_mem m k) \<and>
    (\<forall>x \<in> A. user_byte (set_mem m k) x = (if unat (x - a) < length bs then bs ! unat (x - a) else user_byte k x))"
  using assms
proof (induction bs arbitrary: a k)
  case Nil
  then show ?case by (intro exI [of _ "pmem (k_pg k)"]) (simp add: only_pages_def)
next
  case (Cons b bs)
  have a: "a \<in> A" using Cons.prems(2) by (auto dest: spec [of _ 0])
  from store_byte_user [OF Cons.prems(1) a, of t b] obtain p m where
    m: "access_page mach 2 t a k = Some (k, p)" "store_phys (p + (a AND 0xfff)) b k = set_mem m k"
      "only_pages R (pmem (k_pg k)) m" "\<forall>x \<in> A. user_byte (set_mem m k) x = (if x = a then b else user_byte k x)" by blast
  have inv: "pt_inv (k_pg k) R" using Cons.prems(1) by (simp add: user_area_def)
  have area: "user_area mach R A (set_mem m k)"
    by (rule same_tables_area [OF Cons.prems(1) only_pages_tables [OF inv m(3)]])
  have "a + 1 + of_nat i \<in> A" if "i < length bs" for i
    using Cons.prems(2) that by (auto dest!: spec [of _ "Suc i"] simp: add.assoc)
  with Cons.IH [OF area, of "a + 1"] Cons.prems(3) obtain m' where
    m': "store_virtual mach t (a + 1) bs (set_mem m k) = Some (set_mem m' k)" "only_pages R m m'"
      "user_area mach R A (set_mem m' k)"
      "\<forall>x \<in> A. user_byte (set_mem m' k) x =
        (if unat (x - (a + 1)) < length bs then bs ! unat (x - (a + 1)) else user_byte (set_mem m k) x)" by auto
  have "user_byte (set_mem m' k) x =
      (if unat (x - a) < length (b # bs) then (b # bs) ! unat (x - a) else user_byte k x)" if x: "x \<in> A" for x
  proof (cases "x = a")
    case True
    have "x - (a + 1) = 0xffffffffffffffff" using True by simp
    then have "unat (x - (a + 1)) = unat (0xffffffffffffffff :: u64)" by (simp only:)
    then have "unat (x - (a + 1)) = 2 ^ 64 - 1" by simp
    then show ?thesis using True m'(4) m(4) x Cons.prems(3) by simp
  next
    case False
    then have "unat (x - a) = Suc (unat (x - (a + 1)))" using unat_pred [of "x - a"] by (simp add: algebra_simps)
    then show ?thesis using False m'(4) m(4) x by simp
  qed
  then show ?case
    using m'(1,3) m(1,2) only_pages_trans [OF m(3) m'(2)] by (intro exI [of _ m']) simp
qed

lemma load_virtual_user:
  assumes "user_area mach R A k" "\<forall>i < n. a + of_nat i \<in> A"
  shows "load_virtual mach t a n k = Some (k, map (\<lambda>i. user_byte k (a + of_nat i)) [0..<n])"
  using assms(2)
proof (induction n arbitrary: a)
  case (Suc n)
  have a: "a \<in> A" using Suc.prems by (auto dest: spec [of _ 0])
  from user_area_frame [OF assms(1) a] obtain f where f: "page_frame k a = Some (Frame f)" by blast
  have "a + 1 + of_nat i \<in> A" if "i < n" for i
    using Suc.prems that by (auto dest!: spec [of _ "Suc i"] simp: add.assoc)
  then have "load_virtual mach t (a + 1) n k = Some (k, map (\<lambda>i. user_byte k (a + 1 + of_nat i)) [0..<n])"
    using Suc.IH by blast
  moreover have "[0..<Suc n] = 0 # map Suc [0..<n]" by (simp add: upt_conv_Cons map_Suc_upt del: upt_Suc)
  ultimately show ?case
    using user_area_access [OF assms(1) a f]
    by (simp add: user_byte_def f off_word o_def add.assoc del: upt_Suc)
qed simp

lemma load_string_user:
  assumes "user_area mach R A k" "\<forall>i \<le> length s. a + of_nat i \<in> A" "(0 :: u8) \<notin> set s"
    and "\<forall>i < length s. user_byte k (a + of_nat i) = s ! i" "user_byte k (a + of_nat (length s)) = 0"
  shows "load_string mach t a k = Some (k, s)"
  using assms(2-)
proof (induction s arbitrary: a)
  case Nil
  then have "a \<in> A" "user_byte k a = 0" by auto
  moreover from user_area_frame [OF assms(1) this(1)] obtain f where f: "page_frame k a = Some (Frame f)" by blast
  ultimately show ?case
    using user_area_access [OF assms(1) _ f, of 0 t]
    by (subst load_string.simps) (simp add: user_byte_def f off_word)
next
  case (Cons b s)
  have a: "a \<in> A" using Cons.prems(1) by (auto dest: spec [of _ 0])
  from user_area_frame [OF assms(1) a] obtain f where f: "page_frame k a = Some (Frame f)" by blast
  have b: "user_byte k a = b" "b \<noteq> 0" using Cons.prems(2,3) by (auto dest: spec [of _ 0])
  have "a + 1 + of_nat i \<in> A" if "i \<le> length s" for i
    using Cons.prems(1) that by (auto dest!: spec [of _ "Suc i"] simp: add.assoc)
  moreover have "user_byte k (a + 1 + of_nat i) = s ! i" if "i < length s" for i
    using Cons.prems(3) that by (auto dest!: spec [of _ "Suc i"] simp: add.assoc)
  ultimately have "load_string mach t (a + 1) k = Some (k, s)"
    using Cons.IH [of "a + 1"] Cons.prems(2,4) by (simp add: add.assoc)
  then show ?case
    using user_area_access [OF assms(1) a f, of 0 t] b
    by (subst load_string.simps) (simp add: user_byte_def f off_word)
qed

section \<open>Stores to a page by its physical address\<close>

lemma store_bytes_frame:
  assumes "g < kFrameCount" "off + length bs \<le> 4096"
  shows "(\<forall>x < 4096. load_byte (store_bytes (Frame g + of_nat off) bs m) (Frame g + of_nat x) =
      (if off \<le> x \<and> x < off + length bs then bs ! (x - off) else load_byte m (Frame g + of_nat x))) \<and>
    (\<forall>f < kFrameCount. f \<noteq> g \<longrightarrow> (\<forall>i < 512.
      get_entry (store_bytes (Frame g + of_nat off) bs m) (Frame f) i = get_entry m (Frame f) i))"
  using assms(2)
proof (induction bs arbitrary: off m)
  case (Cons b bs)
  let ?p = "Frame g + of_nat off"
  let ?m = "store_byte ?p b m"
  have off: "off < 4096" using Cons.prems by simp
  have p: "?p + 1 = Frame g + of_nat (Suc off)" by simp
  note IH = Cons.IH [of "Suc off" ?m, folded p]
  have eq: "?p = Frame g + of_nat x \<longleftrightarrow> off = x" if "x < 4096" for x
    using in_frame_inj [OF assms(1) assms(1) off that] by blast
  show ?case
  proof (intro conjI allI impI)
    fix x :: nat assume x: "x < 4096"
    have "load_byte ?m (Frame g + of_nat x) = (if off = x then b else load_byte m (Frame g + of_nat x))"
      unfolding load_store_byte eq [OF x] ..
    then show "load_byte (store_bytes ?p (b # bs) m) (Frame g + of_nat x) =
        (if off \<le> x \<and> x < off + length (b # bs) then (b # bs) ! (x - off) else load_byte m (Frame g + of_nat x))"
      using IH Cons.prems x by (auto simp: nth_Cons' Suc_le_eq)
  next
    fix f i assume "f < kFrameCount" "f \<noteq> g" "i < (512 :: nat)"
    then show "get_entry (store_bytes ?p (b # bs) m) (Frame f) i = get_entry m (Frame f) i"
      using IH Cons.prems store_byte_other [OF assms(1) _ off, of f i b m] by simp
  qed
qed auto

end
