(* ===== verification/System_Calls.thy ===== *)
theory System_Calls
  imports App_Loading "HOL-Library.Log_Nat"
begin

text \<open>
  System calls: \<open>kernel/syscall.cpp\<close>, \<open>kernel/app_event.hpp\<close> and \<open>kernel/msr.hpp\<close>.  A call gets the
  arguments of the program and returns a value and an error number; memory of the program is read and
  written through its page tables, with page faults.  What is logged is not part of the model.
\<close>

section \<open>Arguments and results\<close>

record Args =
  arg1 :: u64
  arg2 :: u64
  arg3 :: u64
  arg4 :: u64
  arg5 :: u64
  arg6 :: u64

record Result =
  res_value :: u64
  res_error :: int

definition result :: "u64 \<Rightarrow> int \<Rightarrow> Result" where
  "result v e = \<lparr>res_value = v, res_error = e\<rparr>"

text \<open>The error numbers of newlib.\<close>

definition EPERM :: int where "EPERM = 1"
definition ENOENT :: int where "ENOENT = 2"
definition E2BIG :: int where "E2BIG = 7"
definition EBADF :: int where "EBADF = 9"
definition EFAULT :: int where "EFAULT = 14"
definition EISDIR :: int where "EISDIR = 21"
definition EINVAL :: int where "EINVAL = 22"
definition ENOSPC :: int where "ENOSPC = 28"
definition O_CREAT :: u32 where "O_CREAT = 0x200"

text \<open>The conversion of an argument to \<open>int\<close>, and the bytes of an \<open>int\<close>.\<close>

definition int_arg :: "u64 \<Rightarrow> int" where "int_arg a = sint (ucast a :: u32)"
definition int_bytes :: "int \<Rightarrow> u8 list" where "int_bytes v = le_bytes (word_of_int v :: u32)"

text \<open>\<open>Files()[fd]\<close> of the task, if there is one.\<close>

definition open_file :: "Task \<Rightarrow> nat \<Rightarrow> nat option" where
  "open_file t fd = (if fd < length (files t) then files t ! fd else None)"

definition int_file :: "Task \<Rightarrow> int \<Rightarrow> nat option" where
  "int_file t fd = (if fd < 0 then None else open_file t (nat fd))"

section \<open>Output\<close>

definition log_levels :: "u64 list" where "log_levels = [3, 4, 6, 7]"

definition LogString :: "machine \<Rightarrow> Args \<Rightarrow> kernel \<Rightarrow> (kernel \<times> Result) option" where
  "LogString mach a k =
    (if arg1 a \<notin> set log_levels then Some (k, result 0 EPERM)
     else do {
       i \<leftarrow> current_task k;
       (k1, s) \<leftarrow> load_string mach i (arg2 a) k;
       Some (k1, if length s > 1024 then result 0 E2BIG else result (of_nat (length s)) 0)
     })"

text \<open>
  The text and what lies behind it on its last page can be read by \<open>Write\<close>.
\<close>

definition rest_of_page :: "u64 \<Rightarrow> nat" where
  "rest_of_page a = (4096 - unat (a AND 0xfff)) mod 4096"

definition PutString_call :: "machine \<Rightarrow> Args \<Rightarrow> kernel \<Rightarrow> (kernel \<times> Result) option" where
  "PutString_call mach a k =
    (let fd = unat (arg1 a); len = unat (arg3 a) in
     if len > 1024 then Some (k, result 0 E2BIG)
     else do {
       i \<leftarrow> current_task k;
       t \<leftarrow> task_of k i;
       case open_file t fd of
         None \<Rightarrow> Some (k, result 0 EBADF)
       | Some f \<Rightarrow> do {
           (k1, s) \<leftarrow> load_virtual mach i (arg2 a) (len + rest_of_page (arg2 a + arg3 a)) k;
           (k2, n) \<leftarrow> fd_write mach f s len k1;
           Some (k2, result (of_nat n) 0)
         }
     })"

text \<open>The value is the kernel's stack, to which \<open>SyscallEntry\<close> returns for this call.\<close>

definition Exit :: "machine \<Rightarrow> Args \<Rightarrow> kernel \<Rightarrow> (kernel \<times> Result) option" where
  "Exit mach a k =
    do { i \<leftarrow> current_task k; t \<leftarrow> task_of k i; Some (k, result (os_stack_ptr t) (int_arg (arg1 a))) }"

section \<open>Windows\<close>

definition OpenWindow :: "machine \<Rightarrow> Args \<Rightarrow> kernel \<Rightarrow> (kernel \<times> Result) option" where
  "OpenWindow mach a k =
    do {
      i \<leftarrow> current_task k;
      (k0, title) \<leftarrow> load_string mach i (arg5 a) k;
      w \<leftarrow> new_ToplevelWindow (hankaku_font mach) (freetype mach) (int_arg (arg1 a)) (int_arg (arg2 a))
             (screen_format mach) (title @ [0]);
      let n = k_next k0;
      let (lm, layer_id) = NewLayer (layers (k_desk k0));
      let lm1 = update_layer layer_id
            (\<lambda>l. Layer_Move (Vec (int_arg (arg3 a)) (int_arg (arg4 a))) (SetDraggable True (SetWindow_layer n l))) lm;
      d \<leftarrow> Activate (hankaku_font mach) (freetype mach) layer_id
            ((k_desk k0)\<lparr>layers := lm1, windows := (windows (k_desk k0))(n \<mapsto> w)\<rparr>);
      let ltm = (case layer_task_map d layer_id of
                   None \<Rightarrow> (layer_task_map d)(layer_id \<mapsto> i) | Some _ \<Rightarrow> layer_task_map d);
      Some (k0\<lparr>k_next := n + 1, k_desk := d\<lparr>layer_task_map := ltm\<rparr>\<rparr>, result (of_nat layer_id) 0)
    }"

text \<open>\<open>f\<close> works on the window; bit 32 of the argument suppresses the drawing.\<close>

definition DoWinFunc ::
  "(Window \<Rightarrow> kernel \<Rightarrow> (kernel \<times> Window \<times> Result) option) \<Rightarrow> u64 \<Rightarrow> kernel \<Rightarrow> (kernel \<times> Result) option" where
  "DoWinFunc f layer_id_flags k =
    (let layer_flags = drop_bit 32 layer_id_flags; layer_id = unat (layer_id_flags AND 0xffffffff) in
     case FindLayer (layers (k_desk k)) layer_id of
       None \<Rightarrow> Some (k, result 0 EBADF)
     | Some l \<Rightarrow> do {
         n \<leftarrow> layer_window l;
         w \<leftarrow> windows (k_desk k) n;
         (k1, w1, res) \<leftarrow> f w k;
         let k2 = put_window (Some n) (Some w1) k1;
         if res_error res \<noteq> 0 then Some (k2, res)
         else if layer_flags AND 1 = 0 then do {
           d \<leftarrow> draw_desktop_layer layer_id (k_desk k2);
           Some (k2\<lparr>k_desk := d\<rparr>, res)
         }
         else Some (k2, res)
       })"

text \<open>A function that only draws.\<close>

definition drawing_only :: "(Window \<Rightarrow> Window option) \<Rightarrow> Window \<Rightarrow> kernel \<Rightarrow> (kernel \<times> Window \<times> Result) option" where
  "drawing_only f w k = map_option (\<lambda>w1. (k, w1, result 0 0)) (f w)"

definition WinWriteString :: "machine \<Rightarrow> Args \<Rightarrow> kernel \<Rightarrow> (kernel \<times> Result) option" where
  "WinWriteString mach a k =
    DoWinFunc (\<lambda>w k. do {
      i \<leftarrow> current_task k;
      (k1, s) \<leftarrow> load_string mach i (arg5 a) k;
      drawing_only (DrawString Window_Write (hankaku_font mach) (freetype mach)
        (Vec (int_arg (arg2 a)) (int_arg (arg3 a))) (s @ [0]) (ToColor (ucast (arg4 a)))) w k1 }) (arg1 a) k"

definition WinFillRectangle :: "machine \<Rightarrow> Args \<Rightarrow> kernel \<Rightarrow> (kernel \<times> Result) option" where
  "WinFillRectangle mach a k =
    DoWinFunc (drawing_only (FillRectangle Window_Write (Vec (int_arg (arg2 a)) (int_arg (arg3 a)))
      (Vec (int_arg (arg4 a)) (int_arg (arg5 a))) (ToColor (ucast (arg6 a))))) (arg1 a) k"

definition GetCurrentTick :: "machine \<Rightarrow> Args \<Rightarrow> kernel \<Rightarrow> (kernel \<times> Result) option" where
  "GetCurrentTick mach a k = Some (k, result (tick (k_timers k)) (uint kTimerFreq))"

definition WinRedraw :: "machine \<Rightarrow> Args \<Rightarrow> kernel \<Rightarrow> (kernel \<times> Result) option" where
  "WinRedraw mach a k = DoWinFunc (drawing_only Some) (arg1 a) k"

subsection \<open>Lines\<close>

text \<open>
  The value of type \<open>double\<close> next to a rational number, the even one of two at the same distance.
  The numbers here are far from the limits of the exponent.
\<close>

definition round_even :: "rat \<Rightarrow> int" where
  "round_even x =
    (let f = \<lfloor>x\<rfloor>; d = x - of_int f in
     if d < 1 / 2 \<or> d = 1 / 2 \<and> even f then f else f + 1)"

definition two_to :: "int \<Rightarrow> rat" where
  "two_to e = (if e \<ge> 0 then 2 ^ nat e else 1 / 2 ^ nat (- e))"

definition ulp_exponent :: "rat \<Rightarrow> int" where
  "ulp_exponent x =
    (let (p, q) = quotient_of \<bar>x\<bar>; e = bitlen p - bitlen q in
     if two_to e \<le> \<bar>x\<bar> then e - 52 else e - 53)"

definition to_double :: "rat \<Rightarrow> rat" where
  "to_double x =
    (if x = 0 then 0 else let e = ulp_exponent x in of_int (round_even (x / two_to e)) * two_to e)"

definition sign :: "int \<Rightarrow> int" where
  "sign x = (if x > 0 then 1 else if x < 0 then - 1 else 0)"

text \<open>
  The points for the steps along the longer direction, from \<open>a0\<close> to \<open>a1\<close>; the other coordinate
  begins with \<open>b0\<close> and is rounded towards it.
\<close>

definition minor :: "rat \<Rightarrow> int \<Rightarrow> int \<Rightarrow> int \<Rightarrow> int \<Rightarrow> int" where
  "minor m a0 b0 b1 a =
    (let b = to_double (to_double (m * of_int (a - a0)) + of_int b0) in if b1 \<ge> b0 then \<lfloor>b\<rfloor> else \<lceil>b\<rceil>)"

definition along :: "rat \<Rightarrow> int \<Rightarrow> int \<Rightarrow> int \<Rightarrow> int \<Rightarrow> (int \<times> int) list" where
  "along m a0 b0 a1 b1 = map (\<lambda>a. (a, minor m a0 b0 b1 a)) [a0..a1]"

definition line_points :: "int \<Rightarrow> int \<Rightarrow> int \<Rightarrow> int \<Rightarrow> Vector2D list" where
  "line_points x0 y0 x1 y1 =
    (let dx = x1 - x0 + sign (x1 - x0); dy = y1 - y0 + sign (y1 - y0) in
     if dx = 0 \<and> dy = 0 then [Vec x0 y0]
     else if \<bar>dx\<bar> \<ge> \<bar>dy\<bar> then
       let m = to_double (of_int dy / of_int dx) in
       map (\<lambda>(x, y). Vec x y) (if dx < 0 then along m x1 y1 x0 y0 else along m x0 y0 x1 y1)
     else
       let m = to_double (of_int dx / of_int dy) in
       map (\<lambda>(y, x). Vec x y) (if dy < 0 then along m y1 x1 y0 x0 else along m y0 x0 y1 x1))"

text \<open>A difference that is no \<open>int\<close> is undefined.\<close>

definition draw_line :: "int \<Rightarrow> int \<Rightarrow> int \<Rightarrow> int \<Rightarrow> PixelColor \<Rightarrow> Window \<Rightarrow> Window option" where
  "draw_line x0 y0 x1 y1 c w =
    (if \<bar>x1 - x0\<bar> < 2 ^ 31 - 1 \<and> \<bar>y1 - y0\<bar> < 2 ^ 31 - 1
     then write_each Window_Write (map (\<lambda>p. (p, c)) (line_points x0 y0 x1 y1)) w else None)"

definition WinDrawLine :: "machine \<Rightarrow> Args \<Rightarrow> kernel \<Rightarrow> (kernel \<times> Result) option" where
  "WinDrawLine mach a k =
    DoWinFunc (drawing_only (draw_line (int_arg (arg2 a)) (int_arg (arg3 a)) (int_arg (arg4 a)) (int_arg (arg5 a))
      (ToColor (ucast (arg6 a))))) (arg1 a) k"

text \<open>The error number is returned as the value.\<close>

definition CloseWindow :: "machine \<Rightarrow> Args \<Rightarrow> kernel \<Rightarrow> (kernel \<times> Result) option" where
  "CloseWindow mach a k =
    do {
      (d, err) \<leftarrow> CloseLayer (hankaku_font mach) (freetype mach) (unat (arg1 a AND 0xffffffff)) (k_desk k);
      Some (k\<lparr>k_desk := d\<rparr>, if err = kNoSuchEntry then result (word_of_int EBADF) 0 else result 0 0)
    }"

section \<open>Events\<close>

definition kQuit :: int where "kQuit = 0"
definition event_MouseMove :: int where "event_MouseMove = 1"
definition event_MouseButton :: int where "event_MouseButton = 2"
definition event_TimerTimeout :: int where "event_TimerTimeout = 3"
definition event_KeyPush :: int where "event_KeyPush = 4"

text \<open>
  An \<open>AppEvent\<close> has 32 bytes, the union begins at 8.  The fields that are stored for a message, as
  offsets with bytes; \<open>None\<close> is a message that is no event.
\<close>

definition key_event :: "MessageArg \<Rightarrow> (nat \<times> u8 list) list" where
  "key_event a =
    (if kb_keycode a = 20 \<and> control_key a then [(0, int_bytes kQuit)]
     else [(0, int_bytes event_KeyPush), (8, [kb_modifier a]), (9, [kb_keycode a]), (10, [kb_ascii a]),
           (12, int_bytes (kb_press a))])"

definition event_fields :: "Message \<Rightarrow> (nat \<times> u8 list) list option" where
  "event_fields m =
    (let a = arg m in
     case msg_type m of
       kKeyPush \<Rightarrow> Some (key_event a)
     | kMouseMove \<Rightarrow>
         Some [(0, int_bytes event_MouseMove), (8, int_bytes (mm_x a)), (12, int_bytes (mm_y a)),
               (16, int_bytes (mm_dx a)), (20, int_bytes (mm_dy a)), (24, [mm_buttons a])]
     | kMouseButton \<Rightarrow>
         Some [(0, int_bytes event_MouseButton), (8, int_bytes (mb_x a)), (12, int_bytes (mb_y a)),
               (16, int_bytes (mb_press a)), (20, int_bytes (mb_button a))]
     | kTimerTimeout \<Rightarrow>
         if timer_value a < 0
         then Some [(0, int_bytes event_TimerTimeout), (8, le_bytes (timer_timeout a)), (16, int_bytes (timer_value a))]
         else None
     | kWindowClose \<Rightarrow> Some [(0, int_bytes kQuit)]
     | _ \<Rightarrow> None)"

fun store_fields :: "machine \<Rightarrow> nat \<Rightarrow> u64 \<Rightarrow> (nat \<times> u8 list) list \<Rightarrow> kernel \<Rightarrow> kernel option" where
  "store_fields mach t p [] k = Some k"
| "store_fields mach t p ((off, bs) # fs) k =
    do { k1 \<leftarrow> store_virtual mach t (p + of_nat off) bs k; store_fields mach t p fs k1 }"

text \<open>\<open>i\<close> events are there; the task sleeps only for the first one.\<close>

partial_function (option) read_events ::
  "machine \<Rightarrow> nat \<Rightarrow> u64 \<Rightarrow> nat \<Rightarrow> nat \<Rightarrow> kernel \<Rightarrow> (kernel \<times> nat) option" where
  "read_events mach t app_events len i k =
    (if i < len then do {
       (k1, msg) \<leftarrow> receive t k;
       case msg of
         None \<Rightarrow>
           if i = 0 then do { k2 \<leftarrow> sleep mach t k1; read_events mach t app_events len i k2 }
           else Some (k1, i)
       | Some m \<Rightarrow>
           (case event_fields m of
              None \<Rightarrow> read_events mach t app_events len i k1
            | Some fs \<Rightarrow> do {
                k2 \<leftarrow> store_fields mach t (app_events + of_nat (32 * i)) fs k1;
                read_events mach t app_events len (i + 1) k2
              })
     }
     else Some (k, i))"

definition ReadEvent :: "machine \<Rightarrow> Args \<Rightarrow> kernel \<Rightarrow> (kernel \<times> Result) option" where
  "ReadEvent mach a k =
    (if arg1 a < 0x8000000000000000 then Some (k, result 0 EFAULT)
     else do {
       t \<leftarrow> current_task k;
       (k1, i) \<leftarrow> read_events mach t (arg1 a) (unat (arg2 a)) 0 k;
       Some (k1, result (of_nat i) 0)
     })"

definition CreateTimer :: "machine \<Rightarrow> Args \<Rightarrow> kernel \<Rightarrow> (kernel \<times> Result) option" where
  "CreateTimer mach a k =
    (let mode = (ucast (arg1 a) :: u32); timer_value = int_arg (arg2 a) in
     if timer_value \<le> 0 then Some (k, result 0 EINVAL)
     else do {
       i \<leftarrow> current_task k;
       let t0 = arg3 a * kTimerFreq div 1000;
       let t = (if mode AND 1 \<noteq> 0 then t0 + tick (k_timers k) else t0);
       Some (k\<lparr>k_timers := AddTimer \<lparr>timeout = t, timer_val = - timer_value, timer_task = i\<rparr> (k_timers k)\<rparr>,
             result (t * 1000 div kTimerFreq) 0)
     })"

section \<open>Files and memory\<close>

text \<open>The first closed descriptor, or a new one.\<close>

definition AllocateFD :: "Task \<Rightarrow> Task \<times> nat" where
  "AllocateFD t =
    (case find (\<lambda>i. files t ! i = None) [0..<length (files t)] of
       Some i \<Rightarrow> (t, i)
     | None \<Rightarrow> (t\<lparr>files := files t @ [None]\<rparr>, length (files t)))"

text \<open>\<open>CreateFile\<close> of this file: an error that has no number leaves a null pointer.\<close>

definition CreateFile_call :: "volume \<Rightarrow> u8 list \<Rightarrow> (volume \<times> nat option \<times> int) option" where
  "CreateFile_call v path =
    (case CreateFile v path of
       None \<Rightarrow> None
     | Some (v1, Inr a) \<Rightarrow> Some (v1, Some a, 0)
     | Some (v1, Inl e) \<Rightarrow>
         Some (v1, None, if e = kIsDirectory then EISDIR else if e = kNoSuchEntry then ENOENT
                         else if e = kNoEnoughMemory then ENOSPC else 0))"

definition dev_stdin :: "u8 list" where
  "dev_stdin = map of_char ''/dev/stdin''"

text \<open>The entry to open; \<open>Inl\<close> is an error number.\<close>

definition find_or_create :: "u8 list \<Rightarrow> u32 \<Rightarrow> kernel \<Rightarrow> (kernel \<times> (int + nat)) option" where
  "find_or_create path flags k =
    do {
      (found, post_slash) \<leftarrow> FindFile (k_vol k) path 0;
      case found of
        None \<Rightarrow>
          if flags AND O_CREAT = 0 then Some (k, Inl ENOENT)
          else do {
            (v, entry, err) \<leftarrow> CreateFile_call (k_vol k) path;
            if err \<noteq> 0 then Some (k\<lparr>k_vol := v\<rparr>, Inl err)
            else map_option (\<lambda>a. (k\<lparr>k_vol := v\<rparr>, Inr a)) entry
          }
      | Some a \<Rightarrow> do {
          e \<leftarrow> dir_entry (k_vol k) a;
          Some (k, if attr e \<noteq> kDirectory \<and> post_slash then Inl ENOENT else Inr a)
        }
    }"

definition OpenFile :: "machine \<Rightarrow> Args \<Rightarrow> kernel \<Rightarrow> (kernel \<times> Result) option" where
  "OpenFile mach a k =
    do {
      i \<leftarrow> current_task k;
      (k1, path) \<leftarrow> load_string mach i (arg1 a) k;
      if path = dev_stdin then Some (k1, result 0 0)
      else do {
        (k2, found) \<leftarrow> find_or_create path (ucast (arg2 a)) k1;
        case found of
          Inl err \<Rightarrow> Some (k2, result 0 err)
        | Inr entry \<Rightarrow> do {
            t \<leftarrow> task_of k2 i;
            let (t1, fd) = AllocateFD t;
            let (k3, f) = new_file (FatFile (FileDescriptor_new entry)) k2;
            Some (on_task i (\<lambda>_. t1\<lparr>files := (files t1)[fd := Some f]\<rparr>) k3, result (of_nat fd) 0)
          }
      }
    }"

definition ReadFile :: "machine \<Rightarrow> Args \<Rightarrow> kernel \<Rightarrow> (kernel \<times> Result) option" where
  "ReadFile mach a k =
    do {
      i \<leftarrow> current_task k;
      t \<leftarrow> task_of k i;
      case int_file t (int_arg (arg1 a)) of
        None \<Rightarrow> Some (k, result 0 EBADF)
      | Some f \<Rightarrow> do {
          (k1, bs) \<leftarrow> fd_read mach f (unat (arg3 a)) k;
          k2 \<leftarrow> store_virtual mach i (arg2 a) bs k1;
          Some (k2, result (of_nat (length bs)) 0)
        }
    }"

definition DemandPages :: "machine \<Rightarrow> Args \<Rightarrow> kernel \<Rightarrow> (kernel \<times> Result) option" where
  "DemandPages mach a k =
    do {
      i \<leftarrow> current_task k;
      t \<leftarrow> task_of k i;
      Some (on_task i (\<lambda>t. t\<lparr>dpaging_end := dpaging_end t + 4096 * arg1 a\<rparr>) k, result (dpaging_end t) 0)
    }"

definition MapFile :: "machine \<Rightarrow> Args \<Rightarrow> kernel \<Rightarrow> (kernel \<times> Result) option" where
  "MapFile mach a k =
    do {
      i \<leftarrow> current_task k;
      t \<leftarrow> task_of k i;
      let fd = int_arg (arg1 a);
      case int_file t fd of
        None \<Rightarrow> Some (k, result 0 EBADF)
      | Some f \<Rightarrow> do {
          n \<leftarrow> fd_size f k;
          k1 \<leftarrow> store_virtual mach i (arg2 a) (le_bytes (of_nat n :: u64)) k;
          let v_end = file_map_end t;
          let v_begin = (v_end - of_nat n) AND 0xfffffffffffff000;
          Some (on_task i (\<lambda>t. t\<lparr>file_map_end := v_begin,
                  file_maps := file_maps t @ [\<lparr>fm_fd = nat fd, vaddr_begin = v_begin, vaddr_end = v_end\<rparr>]\<rparr>) k1,
                result v_begin 0)
        }
    }"

section \<open>The table of system calls\<close>

definition syscall_table :: "(machine \<Rightarrow> Args \<Rightarrow> kernel \<Rightarrow> (kernel \<times> Result) option) list" where
  "syscall_table =
    [LogString, PutString_call, Exit, OpenWindow, WinWriteString, WinFillRectangle, GetCurrentTick, WinRedraw,
     WinDrawLine, CloseWindow, ReadEvent, CreateTimer, OpenFile, ReadFile, DemandPages, MapFile]"

text \<open>\<open>SyscallEntry\<close> ignores the highest bit of the number in \<open>eax\<close> and does not compare it.\<close>

definition system_call :: "machine \<Rightarrow> u32 \<Rightarrow> Args \<Rightarrow> kernel \<Rightarrow> (kernel \<times> Result) option" where
  "system_call mach number a k =
    (let n = unat (number AND 0x7fffffff) in
     if n < length syscall_table then (syscall_table ! n) mach a k else None)"

text \<open>The writes to model-specific registers; \<open>entry\<close> is the address of \<open>SyscallEntry\<close>.\<close>

definition kIA32_EFER :: u32 where "kIA32_EFER = 0xc0000080"
definition kIA32_STAR :: u32 where "kIA32_STAR = 0xc0000081"
definition kIA32_LSTAR :: u32 where "kIA32_LSTAR = 0xc0000082"
definition kIA32_FMASK :: u32 where "kIA32_FMASK = 0xc0000084"

definition InitializeSyscall :: "u64 \<Rightarrow> (u32 \<times> u64) list" where
  "InitializeSyscall entry =
    [(kIA32_EFER, 0x0501), (kIA32_LSTAR, entry),
     (kIA32_STAR, push_bit 32 8 OR push_bit 48 (16 OR 3)), (kIA32_FMASK, 0)]"

end
