(* ===== verification/Demo_Kernel.thy ===== *)
theory Demo_Kernel
  imports User_Memory System_Calls Fat_Correct
begin

text \<open>
  A small kernel to apply the properties to: one task, one mapped page of its memory, and a volume
  with one file.
\<close>

section \<open>A volume with a file\<close>

text \<open>The file \<open>*\<close> has the entry at 128 and the text \<open>hello\<close> in cluster 3.\<close>

definition demo_entry :: "u8 list" where
  "demo_entry = [0x2a] @ replicate 10 0x20 @ [0x20] @ replicate 14 0 @ [3, 0] @ [5, 0, 0, 0]"

definition hello :: "u8 list" where
  "hello = [0x68, 0x65, 0x6c, 0x6c, 0x6f]"

definition demo_volume :: volume where
  "demo_volume = sample_volume\<lparr>img :=
     replicate 104 0 @ [0xff, 0xff, 0xff, 0x0f, 0xff, 0xff, 0xff, 0x0f] @ replicate 16 0 @
     demo_entry @ replicate 32 0 @ hello @ replicate 315 0\<rparr>"

lemma demo_volume_simps [simp]:
  "bpb demo_volume = bpb sample_volume" "bytes_per_cluster demo_volume = 64" "length (img demo_volume) = 512"
  by (simp_all add: demo_volume_def sample_volume_def demo_entry_def hello_def)

lemma demo_volume_shape: "fat_entries demo_volume = 8" "GetFAT demo_volume = 96" "data_start demo_volume = 128"
  "entries_per_cluster demo_volume = 2"
  by (simp_all add: fat_entries_def GetFAT_def data_start_def entries_per_cluster_def sample_bpb)

lemma demo_wf_volume: "wf_volume demo_volume"
  by (simp add: wf_volume_def sample_bpb demo_volume_shape)

lemma demo_fat: "fat_get demo_volume 3 = Some 0x0fffffff"
proof -
  have "bytes_at 108 4 (img demo_volume) = [0xff, 0xff, 0xff, 0x0f]"
    by (simp add: demo_volume_def bytes_at_def)
  moreover have "(le_word [0xff, 0xff, 0xff, 0x0f] :: u32) = 0x0fffffff" by code_simp
  ultimately show ?thesis
    by (simp add: fat_get_def read_mem_def demo_volume_shape sample_bpb del: le_word.simps)
qed

lemma demo_dir_entry: "dir_entry demo_volume 128 = Some (dir_entry_of demo_entry)"
proof -
  have "bytes_at 128 32 (img demo_volume) = demo_entry"
    by (simp add: demo_volume_def bytes_at_def demo_entry_def)
  then show ?thesis by (simp add: dir_entry_def read_mem_def)
qed

lemma demo_entry_fields: "FirstCluster (dir_entry_of demo_entry) = 3" "unat (file_size (dir_entry_of demo_entry)) = 5"
  "attr (dir_entry_of demo_entry) = 0x20"
  by code_simp+

lemma demo_chain: "chain demo_volume [3]"
  by (simp add: chain_def demo_fat valid_cluster_def demo_volume_shape IsEndOfClusterchain_def)

lemma demo_file_ok: "file_ok demo_volume 128 [3]"
  using demo_dir_entry demo_entry_fields demo_chain by (simp add: file_ok_def)

lemma demo_file_bytes: "file_bytes demo_volume 128 [3] = hello"
proof -
  have "GetClusterAddr demo_volume 3 = 192"
    using cluster_addr(1) [OF demo_wf_volume, of 3] by (simp add: valid_cluster_def demo_volume_shape)
  then have "take 5 (cluster_data demo_volume 3) = hello"
    by (simp add: cluster_data_def bytes_at_def) (simp add: demo_volume_def demo_entry_def hello_def)
  then show ?thesis using demo_dir_entry demo_entry_fields by (simp add: file_bytes_def content_def)
qed

lemma demo_root: "is_chain (fat_get demo_volume) (valid_cluster demo_volume) [2]"
proof -
  have "bytes_at 104 4 (img demo_volume) = [0xff, 0xff, 0xff, 0x0f]"
    by (simp add: demo_volume_def bytes_at_def)
  moreover have "(le_word [0xff, 0xff, 0xff, 0x0f] :: u32) = 0x0fffffff" by code_simp
  ultimately have "fat_get demo_volume 2 = Some 0x0fffffff"
    by (simp add: fat_get_def read_mem_def demo_volume_shape sample_bpb del: le_word.simps)
  then show ?thesis by (simp add: valid_cluster_def demo_volume_shape IsEndOfClusterchain_def)
qed

lemma demo_find_file: "FindFile demo_volume [0x2a] 0 = Some (Some 128, False)"
proof -
  have "GetClusterAddr demo_volume 2 = 128"
    using cluster_addr(1) [OF demo_wf_volume, of 2] by (simp add: valid_cluster_def demo_volume_shape)
  then have slots: "slots demo_volume [2] = [128, 160]" by (simp add: slots_def demo_volume_shape upt_rec)
  have raw: "raw_entry demo_volume 128 = demo_entry"
    by (simp add: raw_entry_def bytes_at_def) (simp add: demo_volume_def demo_entry_def)
  have "scan_slots demo_volume [0x2a] [128, 160] = FoundEntry 128"
  proof -
    have "NameIsEqual (dir_entry_of demo_entry) [0x2a]" "hd (name (dir_entry_of demo_entry)) = 0x2a" by code_simp+
    then show ?thesis by (simp add: raw)
  qed
  with slots FindFile_plain [OF demo_wf_volume demo_root, of "[0x2a]"] show ?thesis
    by (simp add: sample_bpb slash_def)
qed

section \<open>A kernel with a task\<close>

text \<open>The page at \<open>0xffff800000000000\<close> is mapped to frame 4; descriptor 0 is the file.\<close>

definition demo_task :: "Task \<Rightarrow> Task" where
  "demo_task t = t\<lparr>files := [Some 7], dpaging_begin := 0xffff800000001000, dpaging_end := 0xffff800000001000,
     file_map_end := 0xfffffffffffe0000\<rparr>"

definition demo_kernel :: kernel where
  "demo_kernel = \<lparr>k_pg = sample_mapped,
     k_desk = demo_desktop\<lparr>Desktop.tasks := upd_task 1 demo_task boot_manager\<rparr>,
     k_vol = demo_volume, k_timers = TimerManager_new, k_pci = [],
     k_files = [7 \<mapsto> FatFile (FileDescriptor_new 128)], k_descs = Map.empty,
     k_loads = Map.empty, k_terms = Map.empty, k_next = 8\<rparr>"

definition demo_machine :: machine where
  "demo_machine = \<lparr>xlat = sample_xlat, hankaku_font = replicate 4096 1, freetype = demo_ft,
     ktables = \<lparr>pml4_table = 0x100000, pdp_table = 0x101000, page_directory = 0x102000\<rparr>,
     screen_format = 1, stack_addr = (\<lambda>_. 0x200000), task_terminal = 0x3000, vendor_id = (\<lambda>_. 0), junk = 0,
     others = (\<lambda>_ _. None), call_app = (\<lambda>_ _ _ _ _ k. Some (k, 0))\<rparr>"

definition demo_page :: "u64 set" where
  "demo_page = {a. a AND 0xfffffffffffff000 = 0xffff800000000000}"

lemma demo_current: "current_task demo_kernel = Some 1"
  by (simp add: current_task_def k_tm_def demo_kernel_def CurrentTask_def front_def upd_task_def)
    (simp add: TaskManager_new_def NewTask_def empty_manager_def set_queue_def upd_task_def Let_def)

definition demo_boot_task :: Task where
  "demo_boot_task = the (get_task boot_manager 1)"

lemma demo_task_of: "task_of demo_kernel 1 = Some (demo_task demo_boot_task)"
proof -
  have "get_task boot_manager 1 = Some demo_boot_task"
    by (simp add: demo_boot_task_def get_task_def TaskManager_new_def NewTask_def empty_manager_def set_queue_def
        upd_task_def Let_def Task_new_def InitContext_def)
  then show ?thesis by (simp add: task_of_def k_tm_def demo_kernel_def demo_task_def)
qed

lemma demo_pages: "a \<in> demo_page \<Longrightarrow> Part a 4 = 256 \<and> Part a 3 = 0 \<and> Part a 2 = 0 \<and> Part a 1 = 0"
proof -
  assume "a \<in> demo_page"
  then have "Part a l = Part 0xffff800000000000 l" if "1 \<le> l" for l
    using Part_aligned [OF that, of a] by (simp add: demo_page_def)
  moreover have "Part 0xffff800000000000 4 = 256" "Part 0xffff800000000000 3 = 0" "Part 0xffff800000000000 2 = 0"
    "Part 0xffff800000000000 1 = 0"
    by (simp_all add: Part_def unat_get_bits part_numerals take_bit_eq_mod)
  ultimately show ?thesis by simp
qed

lemma demo_walk: "a \<in> demo_page \<Longrightarrow> page_frame demo_kernel a = Some (Frame 4)"
proof -
  assume "a \<in> demo_page"
  note parts = demo_pages [OF this]
  have e: "entry_of sample_mapped 0 256 = 0x1007" "entry_of sample_mapped 1 0 = 0x2007"
    "entry_of sample_mapped 2 0 = 0x3007" "entry_of sample_mapped 3 0 = 0x4005"
    by (simp_all add: sample_mapped_entry frame_consts)
  have step: "walk m t (Suc l) a = walk m (Pointer (get_entry m t (Part a (Suc l)))) l a"
    if "get_entry m t (Part a (Suc l)) \<in> {0x1007, 0x2007, 0x3007, 0x4005}" for m t l
    using that by (auto simp: Let_def pme_present_def pme_user_def)
  let ?w = "walk (pmem sample_mapped)"
  have "?w (Frame 3) (Suc 0) a = Some (Frame 4)"
    using step [of "pmem sample_mapped" "Frame 3" 0] e parts by (simp add: sample_pointers)
  then have "?w (Frame 2) (Suc 1) a = Some (Frame 4)"
    using step [of "pmem sample_mapped" "Frame 2" 1] e parts by (simp add: sample_pointers numeral_2_eq_2)
  then have "?w (Frame 1) (Suc 2) a = Some (Frame 4)"
    using step [of "pmem sample_mapped" "Frame 1" 2] e parts by (simp add: sample_pointers numeral_2_eq_2 numeral_3_eq_3)
  then have "?w (Frame 0) (Suc 3) a = Some (Frame 4)"
    using step [of "pmem sample_mapped" "Frame 0" 3] e parts by (simp add: sample_pointers eval_nat_numeral)
  then show "page_frame demo_kernel a = Some (Frame 4)"
    by (simp add: page_frame_def demo_kernel_def sample_mapped_def sample_paging_def eval_nat_numeral)
qed

lemma demo_area: "user_area demo_machine mapped_levels demo_page demo_kernel"
proof -
  have "mmu_walks (xlat demo_machine)" by (simp add: demo_machine_def mmu_walks_sample)
  moreover have "pt_inv (k_pg demo_kernel) mapped_levels" by (simp add: demo_kernel_def sample_mapped_inv)
  moreover have "0 \<in> mapped_levels 4" "cr3 (k_pg demo_kernel) = Frame 0"
    by (simp_all add: mapped_levels_def demo_kernel_def sample_mapped_def sample_paging_def)
  ultimately show ?thesis
    using demo_pages demo_walk by (auto simp: user_area_def demo_page_def)
qed

lemma demo_bytes: "user_byte demo_kernel 0xffff800000000000 = 0x2a" "user_byte demo_kernel 0xffff800000000001 = 0"
proof -
  have "pmem sample_mapped (Frame 4) = 42"
    using sample_mapped_entry [of 4 0] by (simp add: get_entry_def entry_addr_def frame_consts)
  then have "load_byte (pmem sample_mapped) 0x4000 = 0x2a" "load_byte (pmem sample_mapped) 0x4001 = 0"
    by (simp_all add: load_byte_def Frame_def frame_consts get_bits_def)
  moreover have "0xffff800000000000 \<in> demo_page" "0xffff800000000001 \<in> demo_page" by (simp_all add: demo_page_def)
  ultimately show "user_byte demo_kernel 0xffff800000000000 = 0x2a" "user_byte demo_kernel 0xffff800000000001 = 0"
    by (simp_all add: user_byte_def demo_walk page_off_def Frame_def frame_consts) (simp_all add: demo_kernel_def)
qed

end
