(* ===== verification/System_Calls_Correct.thy ===== *)
theory System_Calls_Correct
  imports Demo_Kernel
begin

text \<open>
  What the system calls promise, together with the page fault handler and the file system.
\<close>

section \<open>Addresses of programs\<close>

lemma upper_half: "0xffff800000000000 \<le> (a :: u64) \<Longrightarrow> 256 \<le> Part a 4"
proof -
  assume a: "0xffff800000000000 \<le> a"
  have "0xffff800000000000 \<le> unat a" using a by (simp add: word_le_nat_alt)
  then have "0xffff800000000000 div 2 ^ 39 \<le> unat a div 2 ^ 39" by (rule div_le_mono)
  then have lo: "33554176 \<le> unat a div 2 ^ 39" by simp
  have "unat a < 2 ^ 64" using unsigned_less [of a, where 'a = nat] by simp
  then have hi: "unat a div 2 ^ 39 < 33554432" by simp
  have "256 \<le> n mod 512" if "33554176 \<le> n" "n < 33554432" for n :: nat
  proof -
    have "n mod 512 = (n - 33554176) + 256"
      using that mod_add_self2 by (simp add: mod_eq_nat1E mod_nat_eqI)
    then show ?thesis by simp
  qed
  from this [OF lo hi] have "256 \<le> take_bit 9 (unat a div 2 ^ 39)" by (simp add: take_bit_eq_mod)
  moreover have "Part a 4 = take_bit 9 (unat a div 2 ^ 39)"
    by (simp add: Part_def unat_get_bits part_numerals)
  ultimately show ?thesis by simp
qed

lemma SetPart_page: "SetPart a 0 0 = a AND 0xfffffffffffff000"
  unfolding not_mask12 by (simp add: SetPart_def put_bits_def)

lemma walk_page: "walk m t k (SetPart a 0 0) = walk m t k a"
  by (rule walk_cong) (simp add: Part_SetPart_other)

section \<open>Filling a page from a file\<close>

lemma PreparePageCache_fills:
  assumes inv: "pt_inv s R" and pml4: "pml4 \<in> R 4" "cr3 s = Frame pml4" "256 \<le> Part a 4"
    and mmu: "mmu_walks xl" and load: "load 4096 (SetPart a 0 0 - vaddr_begin m) = Some bs" "length bs \<le> 4096"
  shows "\<exists>s' e R'. PreparePageCache xl load s m a = Some (s', e) \<and> pt_inv s' R' \<and>
    (if e = kSuccess
     then \<exists>g \<in> R' 0. walk (pmem s') (cr3 s') 4 a = Some (Frame g) \<and>
            (\<forall>x < length bs. load_byte (pmem s') (Frame g + of_nat x) = bs ! x)
     else e = kNoEnoughMemory)"
proof -
  let ?p = "SetPart a 0 0"
  have part: "Part ?p 4 = Part a 4" by (simp add: Part_SetPart_other)
  from SetupPageMaps_cases [OF inv pml4(1,2), of ?p 1 True] pml4(3) obtain s1 e R1 where
    s1: "SetupPageMaps s ?p 1 True = Some (s1, e)" "pt_inv s1 R1" "grows s R s1 R1"
      "if e = kSuccess then \<forall>b. vpn 4 ?p \<le> vpn 4 b \<and> vpn 4 b < vpn 4 ?p + 1 \<longrightarrow>
         (\<exists>q. walk (pmem s1) (cr3 s1) 4 b = Some q) else e = kNoEnoughMemory"
    unfolding part by blast
  show ?thesis
  proof (cases "e = kSuccess")
    case False
    then show ?thesis using s1 by (intro exI [of _ s1] exI [of _ e] exI [of _ R1]) (simp add: PreparePageCache_def)
  next
    case True
    then obtain q where "walk (pmem s1) (cr3 s1) 4 ?p = Some q" using s1(4) by auto
    then have q: "walk (pmem s1) (cr3 s1) 4 a = Some q" by (simp only: walk_page)
    have r1: "pml4 \<in> R1 4" "cr3 s1 = Frame pml4" using s1(3) pml4(1,2) by (auto simp: grows_def)
    have up: "upper 4 (Part a 4)" using pml4(3) by (simp add: upper_def)
    from walk_level0 [OF s1(2) r1(1) up order_refl q [unfolded r1(2)]] obtain g where g: "g \<in> R1 0" "q = Frame g" by blast
    have gk: "g < kFrameCount" by (rule used_less [OF pt_inv_used [OF s1(2) g(1)]])
    define m' where "m' = store_bytes (Frame g) bs (pmem s1)"
    note st = store_bytes_frame [OF gk, of 0 bs "pmem s1", simplified, OF load(2), folded m'_def]
    have only: "only_pages R1 (pmem s1) m'" using st g(1) unfolding only_pages_def by metis
    note same = only_pages_tables [OF s1(2) only]
    have "xl (pmem s1) (cr3 s1) ?p = Some q" using mmu q unfolding mmu_walks_def SetPart_page by blast
    then have "PreparePageCache xl load s m a = Some (s1\<lparr>pmem := m'\<rparr>, kSuccess)"
      using s1(1) True load(1) g(2) by (simp add: PreparePageCache_def m'_def Let_def)
    moreover have "walk m' (cr3 s1) 4 a = Some (Frame g)"
      using same_tables_walk [OF s1(2) same r1(1) up] q g(2) r1(2) by simp
    ultimately show ?thesis
      using same_tables_inv [OF s1(2) same] g(1) st load(2)
      by (intro exI [of _ "s1\<lparr>pmem := m'\<rparr>"] exI [of _ kSuccess] exI [of _ R1]) auto
  qed
qed

section \<open>The running task\<close>

lemma task_on_task:
  "(\<And>t. task_id (f t) = task_id t) \<Longrightarrow> task_of (on_task i f k) j = (if i = j then map_option f (task_of k j) else task_of k j)"
  by (simp add: task_of_def on_task_def set_tm_def k_tm_def)

lemma on_task_simps [simp]:
  "k_pg (on_task i f k) = k_pg k" "k_vol (on_task i f k) = k_vol k" "k_files (on_task i f k) = k_files k"
  by (simp_all add: on_task_def set_tm_def)

lemma set_mem_kernel [simp]:
  "k_vol (set_mem m k) = k_vol k" "k_files (set_mem m k) = k_files k" "task_of (set_mem m k) i = task_of k i"
  "current_task (set_mem m k) = current_task k"
  by (simp_all add: set_mem_def task_of_def current_task_def k_tm_def)

section \<open>More memory\<close>



section \<open>Files in memory\<close>

lemma unat_page: "unat (x AND 0xfffffffffffff000) = 4096 * (unat (x :: u64) div 4096)"
proof -
  have "x AND 0xfffffffffffff000 = push_bit 12 (drop_bit 12 x)"
    unfolding not_mask12 by (rule bit_word_eqI) (auto simp: bit_simps)
  moreover have "unat (drop_bit 12 x) = unat x div 4096" by (simp only: unat_drop_bit_eq) (simp add: drop_bit_eq_div)
  moreover have "unat (push_bit 12 w) = 4096 * unat w" if "4096 * unat w < 2 ^ 64" for w :: u64
    using that by (simp add: push_bit_eq_mult unat_mult_lem [THEN iffD1])
  moreover have "4096 * (unat x div 4096) < 2 ^ 64" using unsigned_less [of x, where 'a = nat] by simp
  ultimately show ?thesis by simp
qed

lemma unat_page_off: "page_off x = unat x mod 4096"
  unfolding page_off_def mask12 take_bit_eq_mask [symmetric] unsigned_take_bit_eq by (simp add: take_bit_eq_mod)

lemma length_file_bytes:
  assumes "wf_volume v" "file_ok v a cs"
  shows "map_option (\<lambda>e. unat (file_size e)) (dir_entry v a) = Some (length (file_bytes v a cs))"
proof -
  from assms(2) obtain e where e: "dir_entry v a = Some e" "unat (file_size e) \<le> length cs * bytes_per_cluster v"
    "if cs = [] then FirstCluster e = 0 else FirstCluster e = hd cs \<and> chain v cs" by (auto simp: file_ok_def)
  have "\<forall>c \<in> set cs. valid_cluster v c" using e(3) is_chain_ok by (auto simp: chain_def split: if_splits)
  with length_content [OF assms(1)] e show ?thesis by (simp add: file_bytes_def)
qed

text \<open>The place of a file of \<open>n\<close> bytes below \<open>v_end\<close>.\<close>

definition map_begin :: "u64 \<Rightarrow> nat \<Rightarrow> u64" where
  "map_begin v_end n = (v_end - of_nat n) AND 0xfffffffffffff000"

lemma map_begin_bounds:
  assumes "n \<le> unat v_end"
  shows "4096 dvd unat (map_begin v_end n)" "unat (map_begin v_end n) + n \<le> unat v_end"
    "unat v_end < unat (map_begin v_end n) + n + 4096"
proof -
  have "n < 2 ^ 64" using assms unsigned_less [of v_end, where 'a = nat] by simp
  then have "unat (of_nat n :: u64) = n" by (simp add: unat_of_nat_less)
  moreover have "unat (v_end - of_nat n) = unat v_end - unat (of_nat n :: u64)"
    by (rule unat_sub) (simp add: word_le_nat_alt calculation assms)
  ultimately have "unat (map_begin v_end n) = 4096 * ((unat v_end - n) div 4096)"
    by (simp add: map_begin_def unat_page)
  moreover have "unat v_end - n < 4096 * ((unat v_end - n) div 4096) + 4096"
    using mod_less_divisor [of 4096 "unat v_end - n"] mult_div_mod_eq [of 4096 "unat v_end - n"] by linarith
  ultimately show "4096 dvd unat (map_begin v_end n)" "unat (map_begin v_end n) + n \<le> unat v_end"
    "unat v_end < unat (map_begin v_end n) + n + 4096" using assms by auto
qed

lemma MapFile_result:
  assumes "user_area mach R A k" "\<forall>j < 8. arg2 a + of_nat j \<in> A"
    and "current_task k = Some i" "task_of k i = Some t" "int_arg (arg1 a) = int fd" "open_file t fd = Some f"
    and "k_files k f = Some (FatFile d)" "wf_volume (k_vol k)" "file_ok (k_vol k) (fd_entry d) cs"
    and n: "n = length (file_bytes (k_vol k) (fd_entry d) cs)"
  defines "b \<equiv> map_begin (file_map_end t) n"
  shows "\<exists>m k'. MapFile mach a k = Some (k', result b 0) \<and>
    k' = on_task i (\<lambda>u. u\<lparr>file_map_end := b,
           file_maps := file_maps u @ [\<lparr>fm_fd = fd, vaddr_begin = b, vaddr_end = file_map_end t\<rparr>]\<rparr>) (set_mem m k) \<and>
    user_area mach R A (set_mem m k) \<and> (\<forall>j < 8. user_byte (set_mem m k) (arg2 a + of_nat j) = le_bytes (of_nat n :: u64) ! j)"
proof -
  have fl: "int_file t (int fd) = Some f" using assms(6) by (simp add: int_file_def)
  have size: "fd_size f k = Some n"
    using length_file_bytes [OF assms(8,9)] assms(7) n by (simp add: fd_size_def Size_def)
  let ?bs = "le_bytes (of_nat n :: u64)"
  have "\<forall>j < length ?bs. arg2 a + of_nat j \<in> A" "length ?bs \<le> 2 ^ 64" using assms(2) by simp_all
  from store_virtual_user [OF assms(1) this, of i] obtain m where
    m: "store_virtual mach i (arg2 a) ?bs k = Some (set_mem m k)" "user_area mach R A (set_mem m k)"
      "\<forall>x \<in> A. user_byte (set_mem m k) x = (if unat (x - arg2 a) < length ?bs then ?bs ! unat (x - arg2 a) else user_byte k x)"
    by blast
  have "user_byte (set_mem m k) (arg2 a + of_nat j) = ?bs ! j" if "j < 8" for j
  proof -
    have "unat (of_nat j :: u64) = j" using that by (simp add: unat_of_nat_less)
    then show ?thesis using m(3) assms(2) that by simp
  qed
  then show ?thesis
    using assms(3-5) fl size m(1,2) by (intro exI [of _ m]) (simp add: MapFile_def Let_def b_def map_begin_def)
qed

text \<open>The page of \<open>v\<close> lies behind the beginning of the mapping, which is aligned.\<close>

lemma page_in_mapping:
  assumes "4096 dvd unat b" "unat b \<le> unat v"
  shows "unat (SetPart v 0 0 - b) = 4096 * (unat v div 4096) - unat b" "unat b \<le> 4096 * (unat v div 4096)"
proof -
  from assms(1) obtain c where c: "unat b = 4096 * c" by blast
  then have "c \<le> unat v div 4096" using assms(2) by (simp add: less_eq_div_iff_mult_less_eq)
  then show le: "unat b \<le> 4096 * (unat v div 4096)" using c by simp
  have "unat (SetPart v 0 0) = 4096 * (unat v div 4096)" by (simp add: SetPart_page unat_page)
  then show "unat (SetPart v 0 0 - b) = 4096 * (unat v div 4096) - unat b"
    using le by (simp add: unat_sub word_le_nat_alt)
qed

lemma fault_in_mapping:
  assumes inv: "pt_inv s R" "pml4 \<in> R 4" "cr3 s = Frame pml4" "256 \<le> Part v 4" "mmu_walks xl"
    and find: "FindFileMapping (file_maps t) v = Some m" "open_file t (fm_fd m) = Some f" "\<not> bit code 0"
      "\<not> (dpaging_begin t \<le> v \<and> v < dpaging_end t)"
    and off: "off = unat (SetPart v 0 0 - vaddr_begin m)" "load f 4096 (SetPart v 0 0 - vaddr_begin m) = Some (take 4096 (drop off bs))"
  shows "\<exists>s' e. HandlePageFault xl load t s code v = Some (s', e) \<and>
    (if e = kSuccess
     then \<exists>g. walk (pmem s') (cr3 s') 4 v = Some (Frame g) \<and>
            (\<forall>x < 4096. off + x < length bs \<longrightarrow> load_byte (pmem s') (Frame g + of_nat x) = bs ! (off + x))
     else e = kNoEnoughMemory)"
proof -
  have "HandlePageFault xl load t s code v = PreparePageCache xl (load f) s m v"
    using find by (auto simp: HandlePageFault_def open_file_def Let_def split: if_splits)
  moreover from PreparePageCache_fills [OF inv, of "load f" m "take 4096 (drop off bs)"] off obtain s' e R' where
    "PreparePageCache xl (load f) s m v = Some (s', e)"
    "if e = kSuccess
     then \<exists>g \<in> R' 0. walk (pmem s') (cr3 s') 4 v = Some (Frame g) \<and>
            (\<forall>x < length (take 4096 (drop off bs)). load_byte (pmem s') (Frame g + of_nat x) = take 4096 (drop off bs) ! x)
     else e = kNoEnoughMemory" by auto
  ultimately show ?thesis by (intro exI [of _ s'] exI [of _ e]) (auto split: if_splits)
qed

lemma FindFileMapping_last:
  "FindFileMapping ms v = None \<Longrightarrow> FindFileMapping (ms @ [m]) v = (if vaddr_begin m \<le> v \<and> v < vaddr_end m then Some m else None)"
  by (induction ms) (auto split: if_splits)

lemma user_byte_on_task [simp]: "user_byte (on_task i f k) a = user_byte k a"
  by (simp add: user_byte_def page_frame_def)

text \<open>An address on the same page as \<open>v\<close>.\<close>

lemma same_page_offset:
  assumes "4096 dvd unat b" "unat b \<le> unat v" "w AND 0xfffffffffffff000 = v AND 0xfffffffffffff000"
  shows "unat (SetPart v 0 0 - b) + page_off w = unat (w - b)" "unat (w - b) = unat w - unat b" "unat b \<le> unat w"
proof -
  have page: "4096 * (unat w div 4096) = 4096 * (unat v div 4096)"
    using arg_cong [OF assms(3), of unat] unfolding unat_page .
  have le: "unat b \<le> 4096 * (unat v div 4096)" by (rule page_in_mapping(2) [OF assms(1,2)])
  have w: "4096 * (unat w div 4096) + unat w mod 4096 = unat w" by simp
  then show bw: "unat b \<le> unat w" using le page by linarith
  then show diff: "unat (w - b) = unat w - unat b" by (simp add: unat_sub word_le_nat_alt)
  show "unat (SetPart v 0 0 - b) + page_off w = unat (w - b)"
    unfolding diff page_in_mapping(1) [OF assms(1,2)] unat_page_off using le page w by linarith
qed

text \<open>
  C14. A program that maps a file gets the size of the file in its variable and the address of the mapping; a fault
  on a missing page of it is resolved, unless memory is exhausted, and then every address of the file on
  this page reads the byte of the file at that offset.
\<close>

theorem MapFile_then_fault:
  assumes area: "user_area mach R A k" "\<forall>j < 8. arg2 a + of_nat j \<in> A"
    and task: "current_task k = Some i" "task_of k i = Some t"
    and fd: "int_arg (arg1 a) = int fd" "open_file t fd = Some f" "k_files k f = Some (FatFile d)"
    and vol: "wf_volume (k_vol k)" "file_ok (k_vol k) (fd_entry d) cs" "bs = file_bytes (k_vol k) (fd_entry d) cs"
    and place: "0xffff800000001000 + length bs \<le> unat (file_map_end t)" "b = map_begin (file_map_end t) (length bs)"
    and fault: "unat b \<le> unat v" "unat v < unat b + length bs" "\<not> bit code 0"
      "\<not> (dpaging_begin t \<le> v \<and> v < dpaging_end t)" "FindFileMapping (file_maps t) v = None"
  shows "\<exists>k' t' s e. MapFile mach a k = Some (k', result b 0) \<and>
    (\<forall>j < 8. user_byte k' (arg2 a + of_nat j) = le_bytes (of_nat (length bs) :: u64) ! j) \<and>
    task_of k' i = Some t' \<and> HandlePageFault (xlat mach) (fd_load k') t' (k_pg k') code v = Some (s, e) \<and>
    (if e = kSuccess
     then \<exists>g. walk (pmem s) (cr3 s) 4 v = Some (Frame g) \<and>
       (\<forall>w. w AND 0xfffffffffffff000 = v AND 0xfffffffffffff000 \<and> unat w < unat b + length bs \<longrightarrow>
          load_byte (pmem s) (Frame g + of_nat (page_off w)) = bs ! unat (w - b))
     else e = kNoEnoughMemory)"
proof -
  note len = vol(3) [THEN arg_cong [of _ _ length]]
  from MapFile_result [OF area task fd vol(1,2) len, folded place(2)] obtain m k' where
    call: "MapFile mach a k = Some (k', result b 0)"
      "k' = on_task i (\<lambda>u. u\<lparr>file_map_end := b,
           file_maps := file_maps u @ [\<lparr>fm_fd = fd, vaddr_begin = b, vaddr_end = file_map_end t\<rparr>]\<rparr>) (set_mem m k)"
      "user_area mach R A (set_mem m k)"
      "\<forall>j < 8. user_byte (set_mem m k) (arg2 a + of_nat j) = le_bytes (of_nat (length bs) :: u64) ! j"
    by (auto simp: len)
  define mp where "mp = \<lparr>fm_fd = fd, vaddr_begin = b, vaddr_end = file_map_end t\<rparr>"
  define t' where "t' = t\<lparr>file_map_end := b, file_maps := file_maps t @ [mp]\<rparr>"
  have k': "task_of k' i = Some t'" "k_pg k' = k_pg (set_mem m k)" "k_vol k' = k_vol k" "k_files k' = k_files k"
    "\<And>x. user_byte k' x = user_byte (set_mem m k) x"
    using task(2) by (simp_all add: call(2) task_on_task t'_def mp_def)
  note bounds = map_begin_bounds [of "length bs" "file_map_end t", folded place(2)]
  have ab: "4096 dvd unat b" "unat b + length bs \<le> unat (file_map_end t)" "0xffff800000000000 \<le> unat v"
    using bounds place(1) fault(1) by auto
  have upper: "256 \<le> Part v 4" by (rule upper_half) (use ab(3) in \<open>simp add: word_le_nat_alt\<close>)
  from call(3) obtain pml4 where inv: "mmu_walks (xlat mach)" "pt_inv (k_pg k') R" "pml4 \<in> R 4" "cr3 (k_pg k') = Frame pml4"
    unfolding user_area_def k'(2) by blast
  have find: "FindFileMapping (file_maps t') v = Some mp"
    using FindFileMapping_last [OF fault(5)] fault(1,2) ab(2)
    by (simp add: t'_def mp_def word_le_nat_alt word_less_nat_alt)
  define off where "off = unat (SetPart v 0 0 - b)"
  have off: "off \<le> length bs"
    using page_in_mapping(1) [OF ab(1) fault(1)] fault(1,2) unfolding off_def by linarith
  have load: "fd_load k' f 4096 (SetPart v 0 0 - vaddr_begin mp) = Some (take 4096 (drop off bs))"
    using Load_spec [OF vol(1,2), of off 4096] off vol(3) fd(3) by (simp add: fd_load_def k' mp_def off_def)
  have op: "open_file t' (fm_fd mp) = Some f" using fd(2) by (auto simp: open_file_def t'_def mp_def split: if_splits)
  have range: "\<not> (dpaging_begin t' \<le> v \<and> v < dpaging_end t')" using fault(4) by (simp add: t'_def)
  have off_mp: "off = unat (SetPart v 0 0 - vaddr_begin mp)" by (simp add: off_def mp_def)
  from fault_in_mapping [where load = "fd_load k'" and off = off, OF inv(2-4) upper inv(1) find op fault(3) range off_mp load]
  obtain s e where
    s: "HandlePageFault (xlat mach) (fd_load k') t' (k_pg k') code v = Some (s, e)"
      "if e = kSuccess then \<exists>g. walk (pmem s) (cr3 s) 4 v = Some (Frame g) \<and>
         (\<forall>x < 4096. off + x < length bs \<longrightarrow> load_byte (pmem s) (Frame g + of_nat x) = bs ! (off + x))
       else e = kNoEnoughMemory" by blast
  have w: "off + page_off w = unat (w - b) \<and> page_off w < 4096 \<and> (unat w < unat b + length bs \<longrightarrow> off + page_off w < length bs)"
    if "w AND 0xfffffffffffff000 = v AND 0xfffffffffffff000" for w
  proof -
    note eq = same_page_offset [OF ab(1) fault(1) that, folded off_def]
    show ?thesis using eq page_off_less [of w] by simp linarith
  qed
  from s(2) have "if e = kSuccess then \<exists>g. walk (pmem s) (cr3 s) 4 v = Some (Frame g) \<and>
       (\<forall>w. w AND 0xfffffffffffff000 = v AND 0xfffffffffffff000 \<and> unat w < unat b + length bs \<longrightarrow>
          load_byte (pmem s) (Frame g + of_nat (page_off w)) = bs ! unat (w - b)) else e = kNoEnoughMemory"
    using w by (auto split: if_splits) metis
  with call(1,4) k'(1,5) s(1) show ?thesis by (intro exI [of _ k'] exI [of _ t'] exI [of _ s] exI [of _ e]) simp
qed

definition demo_args :: "u64 \<Rightarrow> u64 \<Rightarrow> u64 \<Rightarrow> Args" where
  "demo_args a b c = \<lparr>arg1 = a, arg2 = b, arg3 = c, arg4 = 0, arg5 = 0, arg6 = 0\<rparr>"

lemma demo_page_near: "n < 4096 \<Longrightarrow> 0xffff800000000000 + of_nat n \<in> demo_page"
proof -
  assume n: "n < 4096"
  then have "unat (of_nat n :: u64) = n" by (simp add: unat_of_nat_less)
  then have "unat (0xffff800000000000 + of_nat n :: u64) = 0xffff800000000000 + n"
    using n unat_add_lem [of "0xffff800000000000 :: u64" "of_nat n"] by simp
  then have "unat ((0xffff800000000000 + of_nat n :: u64) AND 0xfffffffffffff000) = 4096 * ((0xffff800000000000 + n) div 4096)"
    by (simp only: unat_page)
  moreover have "(0xffff800000000000 + n) div 4096 = 0xffff800000000" using n by simp
  ultimately show ?thesis unfolding demo_page_def mem_Collect_eq word_unat_eq_iff by simp
qed

theorem MapFile_then_fault_witness:
  "\<exists>k' t' s e. MapFile demo_machine (demo_args 0 0xffff800000000010 0) demo_kernel = Some (k', result 0xfffffffffffdf000 0) \<and>
    user_byte k' 0xffff800000000010 = 5 \<and>
    HandlePageFault sample_xlat (fd_load k') t' (k_pg k') 4 0xfffffffffffdf002 = Some (s, e) \<and>
    (e = kSuccess \<longrightarrow> (\<exists>g. load_byte (pmem s) (Frame g + 4) = 0x6f))"
proof -
  let ?a = "demo_args 0 0xffff800000000010 0"
  have x: "xlat demo_machine = sample_xlat" by (simp add: demo_machine_def)
  have mem: "\<forall>j < 8. arg2 ?a + of_nat j \<in> demo_page"
    using demo_page_near [of "16 + j" for j] by (auto simp: demo_args_def algebra_simps)
  have fd: "int_arg (arg1 ?a) = int 0" "open_file (demo_task demo_boot_task) 0 = Some 7"
    "k_files demo_kernel 7 = Some (FatFile (FileDescriptor_new 128))"
    by (simp_all add: int_arg_def demo_args_def open_file_def demo_task_def demo_kernel_def)
  have vol: "wf_volume (k_vol demo_kernel)" "file_ok (k_vol demo_kernel) (fd_entry (FileDescriptor_new 128)) [3]"
    "hello = file_bytes (k_vol demo_kernel) (fd_entry (FileDescriptor_new 128)) [3]"
    using demo_wf_volume demo_file_ok demo_file_bytes by (simp_all add: demo_kernel_def FileDescriptor_new_def)
  have place: "0xffff800000001000 + length hello \<le> unat (file_map_end (demo_task demo_boot_task))"
    "0xfffffffffffdf000 = map_begin (file_map_end (demo_task demo_boot_task)) (length hello)"
    by (simp_all add: demo_task_def hello_def map_begin_def)
  have fault: "FindFileMapping (file_maps (demo_task demo_boot_task)) 0xfffffffffffdf002 = None"
    "dpaging_end (demo_task demo_boot_task) = 0xffff800000001000"
    by (simp_all add: demo_task_def demo_boot_task_def get_task_def TaskManager_new_def NewTask_def empty_manager_def
        set_queue_def upd_task_def Let_def Task_new_def InitContext_def)
  have same: "(0xfffffffffffdf004 :: u64) AND 0xfffffffffffff000 = 0xfffffffffffdf002 AND 0xfffffffffffff000"
    "page_off 0xfffffffffffdf004 = 4" "unat (0xfffffffffffdf004 - 0xfffffffffffdf000 :: u64) = 4"
    by (simp_all add: page_off_def)
  have byte: "le_bytes (of_nat (length hello) :: u64) ! 0 = 5" "hello ! 4 = 0x6f"
    by (code_simp, simp add: hello_def)
  have range: "unat (0xfffffffffffdf000 :: u64) \<le> unat (0xfffffffffffdf002 :: u64)"
    "unat (0xfffffffffffdf002 :: u64) < unat (0xfffffffffffdf000 :: u64) + length hello" "\<not> bit (4 :: u64) 0"
    "\<not> (dpaging_begin (demo_task demo_boot_task) \<le> 0xfffffffffffdf002 \<and>
        0xfffffffffffdf002 < dpaging_end (demo_task demo_boot_task))"
    by (simp_all add: hello_def fault(2))
  from MapFile_then_fault [OF demo_area mem demo_current demo_task_of fd vol place range fault(1)] obtain k' t' s e where
    r: "MapFile demo_machine ?a demo_kernel = Some (k', result 0xfffffffffffdf000 0)"
      "\<forall>j < 8. user_byte k' (arg2 ?a + of_nat j) = le_bytes (of_nat (length hello) :: u64) ! j"
      "HandlePageFault sample_xlat (fd_load k') t' (k_pg k') 4 0xfffffffffffdf002 = Some (s, e)"
      "if e = kSuccess then \<exists>g. walk (pmem s) (cr3 s) 4 0xfffffffffffdf002 = Some (Frame g) \<and>
         (\<forall>w. w AND 0xfffffffffffff000 = 0xfffffffffffdf002 AND 0xfffffffffffff000 \<and>
            unat w < unat (0xfffffffffffdf000 :: u64) + length hello \<longrightarrow>
            load_byte (pmem s) (Frame g + of_nat (page_off w)) = hello ! unat (w - 0xfffffffffffdf000))
       else e = kNoEnoughMemory"
    unfolding x by blast
  have "unat (0xfffffffffffdf004 :: u64) < unat (0xfffffffffffdf000 :: u64) + length hello" by (simp add: hello_def)
  with r(4) same byte(2) have "e = kSuccess \<longrightarrow> (\<exists>g. load_byte (pmem s) (Frame g + 4) = 0x6f)" by (metis of_nat_numeral)
  moreover have "user_byte k' 0xffff800000000010 = 5"
    using spec [OF r(2), of 0] byte(1) by (simp add: demo_args_def)
  ultimately show ?thesis using r(1,3) by blast
qed

section \<open>Opening and reading\<close>

lemma find_task_const:
  "task_id u = i \<Longrightarrow> find_task ts i \<noteq> None \<Longrightarrow>
     find_task (map (\<lambda>t. if task_id t = i then u else t) ts) i = Some u"
  by (induction ts) auto

lemma task_of_replaced: "task_of k i = Some t \<Longrightarrow> task_id u = i \<Longrightarrow> task_of (on_task i (\<lambda>_. u) k) i = Some u"
  using find_task_const [of u i] by (simp add: task_of_def on_task_def set_tm_def k_tm_def get_task_def upd_task_def)

lemma task_of_id: "task_of k i = Some t \<Longrightarrow> task_id t = i"
  using find_task_Some by (auto simp: task_of_def get_task_def)

lemma user_area_pages: "k_pg k' = k_pg k \<Longrightarrow> user_area mach R A k' = user_area mach R A k"
  by (simp add: user_area_def page_frame_def)

lemma current_on_task [simp]: "current_task (on_task i f k) = current_task k"
  by (simp add: current_task_def k_tm_def on_task_def set_tm_def CurrentTask_def front_def upd_task_def)

text \<open>The descriptor is the lowest one that is not open.\<close>

lemma AllocateFD_lowest:
  assumes "AllocateFD t = (t1, fd)"
  shows "fd \<le> length (files t) \<and> fd < length (files t1) \<and> open_file t fd = None \<and>
    (\<forall>j < fd. open_file t j \<noteq> None) \<and> task_id t1 = task_id t \<and> (\<forall>j. j \<noteq> fd \<longrightarrow> open_file t1 j = open_file t j)"
proof (cases "find (\<lambda>i. files t ! i = None) [0..<length (files t)]")
  case None
  then have "\<forall>i < length (files t). files t ! i \<noteq> None" by (auto simp: find_None_iff)
  with None assms show ?thesis by (auto simp: AllocateFD_def open_file_def nth_append)
next
  case (Some i)
  then have "i < length (files t)" "files t ! i = None" "\<forall>j < i. files t ! j \<noteq> None"
    by (auto simp: find_Some_iff)
  with Some assms show ?thesis by (auto simp: AllocateFD_def open_file_def)
qed

lemma ReadFile_copies:
  assumes area: "user_area mach R A k" "\<forall>j < unat (arg3 r). arg2 r + of_nat j \<in> A"
    and task: "current_task k = Some i" "task_of k i = Some t" "int_file t (int_arg (arg1 r)) = Some f"
    and fl: "k_files k f = Some (FatFile d)" "wf_volume (k_vol k)" "file_ok (k_vol k) (fd_entry d) cs" "rd_ok (k_vol k) d cs"
    and bs: "bs = drop (rd_off d) (file_bytes (k_vol k) (fd_entry d) cs)"
  defines "n \<equiv> min (unat (arg3 r)) (length bs)"
  shows "\<exists>k' d'. ReadFile mach r k = Some (k', result (of_nat n) 0) \<and> (\<forall>j < n. user_byte k' (arg2 r + of_nat j) = bs ! j) \<and>
    k_files k' = (k_files k)(f \<mapsto> FatFile d') \<and> rd_ok (k_vol k) d' cs \<and> rd_off d' = rd_off d + n"
proof -
  let ?bs = "take (unat (arg3 r)) bs"
  from Read_spec [OF fl(2-4), of "unat (arg3 r)"] obtain d' where
    d': "Read (k_vol k) d (unat (arg3 r)) = Some (d', ?bs)" "rd_ok (k_vol k) d' cs" "rd_off d' = rd_off d + n"
    by (auto simp: bs n_def)
  define k1 where "k1 = k\<lparr>k_files := (k_files k)(f \<mapsto> FatFile d')\<rparr>"
  have rd: "fd_read mach f (unat (arg3 r)) k = Some (k1, ?bs)" using d'(1) fl(1) by (simp add: fd_read_def k1_def)
  have area1: "user_area mach R A k1" using area(1) user_area_pages [of k1 k] by (simp add: k1_def)
  have "length ?bs \<le> 2 ^ 64" using unsigned_less [of "arg3 r", where 'a = nat] by simp
  from store_virtual_user [OF area1 _ this, of "arg2 r" i] area(2) obtain m where
    m: "store_virtual mach i (arg2 r) ?bs k1 = Some (set_mem m k1)"
      "\<forall>x \<in> A. user_byte (set_mem m k1) x = (if unat (x - arg2 r) < length ?bs then ?bs ! unat (x - arg2 r) else user_byte k1 x)"
    by auto
  have "user_byte (set_mem m k1) (arg2 r + of_nat j) = bs ! j" if "j < n" for j
  proof -
    have "j < unat (arg3 r)" using that by (simp add: n_def)
    then have "unat (of_nat j :: u64) = j"
      using unsigned_less [of "arg3 r", where 'a = nat] by (simp add: unat_of_nat_less)
    then show ?thesis using m(2) area(2) that \<open>j < unat (arg3 r)\<close> by (simp add: n_def)
  qed
  moreover have "ReadFile mach r k = Some (set_mem m k1, result (of_nat n) 0)"
    using task rd m(1) by (simp add: ReadFile_def n_def min.commute)
  ultimately show ?thesis using d'(2,3) by (intro exI [of _ "set_mem m k1"] exI [of _ d']) (simp add: k1_def)
qed

text \<open>
  C16. Opening an existing file gives the lowest free descriptor and leaves the others alone; reading
  from it stores the beginning of the file, as much as the buffer takes, in the memory of the program
  and returns the number of bytes.
\<close>

theorem OpenFile_then_ReadFile:
  assumes area: "user_area mach R A k"
    and path: "\<forall>i \<le> length p. arg1 a + of_nat i \<in> A" "0 \<notin> set p" "\<forall>i < length p. user_byte k (arg1 a + of_nat i) = p ! i"
      "user_byte k (arg1 a + of_nat (length p)) = 0" "p \<noteq> dev_stdin"
    and fl: "FindFile (k_vol k) p 0 = Some (Some e, False)" "wf_volume (k_vol k)" "file_ok (k_vol k) e cs"
      "bs = file_bytes (k_vol k) e cs"
    and task: "current_task k = Some i" "task_of k i = Some t" "length (files t) < 2 ^ 31"
    and buf: "\<forall>j < unat (arg3 r). arg2 r + of_nat j \<in> A"
  shows "\<exists>fd k1. OpenFile mach a k = Some (k1, result (of_nat fd) 0) \<and> open_file t fd = None \<and>
    (\<forall>j < fd. open_file t j \<noteq> None) \<and>
    (\<exists>t1. task_of k1 i = Some t1 \<and> (\<forall>j. j \<noteq> fd \<longrightarrow> open_file t1 j = open_file t j)) \<and>
    (arg1 r = of_nat fd \<longrightarrow>
      (\<exists>k2. ReadFile mach r k1 = Some (k2, result (of_nat (min (unat (arg3 r)) (length bs))) 0) \<and>
        (\<forall>j < min (unat (arg3 r)) (length bs). user_byte k2 (arg2 r + of_nat j) = bs ! j)))"
proof -
  obtain t1 fd where fd: "AllocateFD t = (t1, fd)" by fastforce
  note lowest = AllocateFD_lowest [OF fd]
  define f where "f = k_next k"
  define k0 where "k0 = k\<lparr>k_files := (k_files k)(f \<mapsto> FatFile (FileDescriptor_new e)), k_next := f + 1\<rparr>"
  define t2 where "t2 = t1\<lparr>files := (files t1)[fd := Some f]\<rparr>"
  define k1 where "k1 = on_task i (\<lambda>_. t2) k0"
  obtain en where en: "dir_entry (k_vol k) e = Some en" using fl(3) by (auto simp: file_ok_def)
  have find: "find_or_create p flags k = Some (k, Inr e)" for flags using fl(1) en by (simp add: find_or_create_def)
  have call: "OpenFile mach a k = Some (k1, result (of_nat fd) 0)"
    using task(1,2) load_string_user [OF area path(1-4), of i] path(5) find fd
    by (simp add: OpenFile_def new_file_def k1_def t2_def k0_def f_def)
  have "task_of k0 i = Some t" "task_id t2 = i"
    using task(2) task_of_id [OF task(2)] lowest by (simp_all add: k0_def task_of_def k_tm_def t2_def)
  then have t2: "task_of k1 i = Some t2" unfolding k1_def by (rule task_of_replaced)
  have other: "open_file t2 j = open_file t j" if "j \<noteq> fd" for j
  proof -
    have "open_file t2 j = open_file t1 j" using that by (simp add: t2_def open_file_def)
    then show ?thesis using lowest that by simp
  qed
  have int: "int_arg (of_nat fd) = int fd"
  proof -
    have "fd < 2 ^ 31" using lowest task(3) by linarith
    then have "(ucast (of_nat fd :: u64) :: u32) = of_nat fd" by (simp add: unsigned_of_nat take_bit_nat_eq_self)
    moreover have "sint (of_nat fd :: u32) = int fd"
      using \<open>fd < 2 ^ 31\<close> by (simp add: signed_of_nat signed_take_bit_int_eq_self)
    ultimately show ?thesis by (simp add: int_arg_def)
  qed
  have opened: "int_file t2 (int fd) = Some f" using lowest by (simp add: int_file_def open_file_def t2_def)
  have same: "k_pg k1 = k_pg k" "k_vol k1 = k_vol k" "k_files k1 f = Some (FatFile (FileDescriptor_new e))"
    by (simp_all add: k1_def k0_def)
  have "user_area mach R A k1" using area user_area_pages [of k1 k] same(1) by simp
  moreover have "current_task k1 = Some i"
    using task(1) unfolding k1_def current_on_task by (simp add: k0_def current_task_def k_tm_def)
  moreover have "int_file t2 (int_arg (arg1 r)) = Some f" if "arg1 r = of_nat fd" using that int opened by simp
  moreover have "rd_ok (k_vol k1) (FileDescriptor_new e) cs"
    by (simp add: rd_ok_def FileDescriptor_new_def)
  moreover have "wf_volume (k_vol k1)" "file_ok (k_vol k1) (fd_entry (FileDescriptor_new e)) cs"
    "bs = drop (rd_off (FileDescriptor_new e)) (file_bytes (k_vol k1) (fd_entry (FileDescriptor_new e)) cs)"
    using fl same(2) by (simp_all add: FileDescriptor_new_def)
  ultimately have "\<exists>k2. ReadFile mach r k1 = Some (k2, result (of_nat (min (unat (arg3 r)) (length bs))) 0) \<and>
      (\<forall>j < min (unat (arg3 r)) (length bs). user_byte k2 (arg2 r + of_nat j) = bs ! j)"
    if "arg1 r = of_nat fd"
    using ReadFile_copies [OF _ buf _ t2 _ same(3)] that by meson
  with call t2 other lowest show ?thesis by (intro exI [of _ fd] exI [of _ k1]) simp
qed

theorem OpenFile_then_ReadFile_witness:
  "\<exists>k1 k2. OpenFile demo_machine (demo_args 0xffff800000000000 0 0) demo_kernel = Some (k1, result 1 0) \<and>
    ReadFile demo_machine (demo_args 1 0xffff800000000010 3) k1 = Some (k2, result 3 0) \<and>
    user_byte k2 0xffff800000000012 = 0x6c"
proof -
  let ?a = "demo_args 0xffff800000000000 0 0"
  let ?r = "demo_args 1 0xffff800000000010 3"
  have near: "0xffff800000000000 \<in> demo_page" "0xffff800000000001 \<in> demo_page" "0xffff800000000010 \<in> demo_page"
    "0xffff800000000011 \<in> demo_page" "0xffff800000000012 \<in> demo_page" by (simp_all add: demo_page_def)
  have path: "\<forall>i \<le> length [0x2a]. arg1 ?a + of_nat i \<in> demo_page" "0 \<notin> set [0x2a :: u8]"
    "\<forall>i < length [0x2a :: u8]. user_byte demo_kernel (arg1 ?a + of_nat i) = [0x2a] ! i"
    "user_byte demo_kernel (arg1 ?a + of_nat (length [0x2a :: u8])) = 0" "[0x2a] \<noteq> dev_stdin"
    using near demo_bytes by (auto simp: demo_args_def dev_stdin_def le_Suc_eq)
  have fl: "FindFile (k_vol demo_kernel) [0x2a] 0 = Some (Some 128, False)" "wf_volume (k_vol demo_kernel)"
    "file_ok (k_vol demo_kernel) 128 [3]" "hello = file_bytes (k_vol demo_kernel) 128 [3]"
    using demo_find_file demo_wf_volume demo_file_ok demo_file_bytes by (simp_all add: demo_kernel_def)
  have task: "length (files (demo_task demo_boot_task)) < 2 ^ 31" by (simp add: demo_task_def)
  have n: "unat (arg3 ?r) = 3" "arg2 ?r = 0xffff800000000010" by (simp_all add: demo_args_def)
  have buf: "\<forall>j < unat (arg3 ?r). arg2 ?r + of_nat j \<in> demo_page"
    unfolding n using demo_page_near [of "16 + j" for j] by (auto simp: algebra_simps)
  from OpenFile_then_ReadFile [OF demo_area path fl demo_current demo_task_of task buf] obtain fd k1 where
    r: "OpenFile demo_machine ?a demo_kernel = Some (k1, result (of_nat fd) 0)" "open_file (demo_task demo_boot_task) fd = None"
      "\<forall>j < fd. open_file (demo_task demo_boot_task) j \<noteq> None"
      "arg1 ?r = of_nat fd \<longrightarrow> (\<exists>k2. ReadFile demo_machine ?r k1 = Some (k2, result (of_nat (min (unat (arg3 ?r)) (length hello))) 0) \<and>
        (\<forall>j < min (unat (arg3 ?r)) (length hello). user_byte k2 (arg2 ?r + of_nat j) = hello ! j))" by blast
  have "open_file (demo_task demo_boot_task) 0 \<noteq> None" "open_file (demo_task demo_boot_task) 1 = None"
    by (simp_all add: open_file_def demo_task_def)
  with r(2,3) have "fd = 1" by (metis less_one linorder_neqE_nat)
  moreover have "min (unat (arg3 ?r)) (length hello) = 3" by (simp add: demo_args_def hello_def)
  ultimately obtain k2 where "ReadFile demo_machine ?r k1 = Some (k2, result 3 0)"
    "\<forall>j < 3. user_byte k2 (arg2 ?r + of_nat j) = hello ! j" using r(4) by (auto simp: demo_args_def)
  moreover from spec [OF this(2), of 2] have "user_byte k2 0xffff800000000012 = 0x6c"
    by (simp add: demo_args_def hello_def)
  ultimately show ?thesis using r(1) \<open>fd = 1\<close> by auto
qed

end
