(* ===== verification/Address_Spaces.thy ===== *)
theory Address_Spaces
  imports Paging_Correct
begin

text \<open>
  Who owns the frames of an address space: the tables and the writable pages below the top table of
  an application belong to it alone; its read-only pages are shared.
\<close>

section \<open>Ownership\<close>

text \<open>The entry \<open>p\<close> (frame of the table, index) leads to frame \<open>g\<close> of level \<open>l\<close>.\<close>

definition edge :: "paging_state \<Rightarrow> (nat \<Rightarrow> nat set) \<Rightarrow> nat \<Rightarrow> nat \<times> nat \<Rightarrow> nat \<Rightarrow> bool" where
  "edge s R l p g \<longleftrightarrow> fst p \<in> R (Suc l) \<and> g \<in> R l \<and> snd p < 512 \<and> upper (Suc l) (snd p) \<and>
     pme_present (entry_of s (fst p) (snd p)) \<and> Pointer (entry_of s (fst p) (snd p)) = Frame g"

text \<open>
  The frames in use are those of the others, \<open>F\<close>, and the tables and pages of this address space.
  Each of the latter is reached by exactly one entry, and an entry is writable exactly if it leads to one.
\<close>

definition owns :: "paging_state \<Rightarrow> (nat \<Rightarrow> nat set) \<Rightarrow> nat set \<Rightarrow> bool" where
  "owns s R F \<longleftrightarrow> pt_inv s R \<and> (\<forall>l>4. R l = {}) \<and> (\<forall>l>0. R l \<inter> F = {}) \<and>
     used_frames s = F \<union> (\<Union>l. R l) \<and>
     (\<forall>l<4. \<forall>g \<in> R l - F. \<exists>!p. edge s R l p g) \<and>
     (\<forall>l f i g. edge s R l (f, i) g \<longrightarrow>
        pme_user (entry_of s f i) \<and> (pme_writable (entry_of s f i) \<longleftrightarrow> g \<notin> F))"

text \<open>What an operation adds leads only to frames that were free; the top table stays.\<close>

definition fresh_edges ::
  "paging_state \<Rightarrow> (nat \<Rightarrow> nat set) \<Rightarrow> paging_state \<Rightarrow> (nat \<Rightarrow> nat set) \<Rightarrow> bool" where
  "fresh_edges s R s' R' \<longleftrightarrow> R' 4 = R 4 \<and> (\<forall>l p g. edge s' R' l p g \<longrightarrow> edge s R l p g \<or> g \<notin> used_frames s)"

lemma fresh_edges_refl [simp]: "fresh_edges s R s R"
  by (simp add: fresh_edges_def)

lemma fresh_edges_trans:
  assumes "fresh_edges s R s' R'" "fresh_edges s' R' s'' R''" "used_frames s \<subseteq> used_frames s'"
  shows "fresh_edges s R s'' R''"
  unfolding fresh_edges_def
proof (intro conjI allI impI)
  show "R'' 4 = R 4" using assms(1,2) by (simp add: fresh_edges_def)
  fix l p g assume "edge s'' R'' l p g"
  then have "edge s' R' l p g \<or> g \<notin> used_frames s'" using assms(2) unfolding fresh_edges_def by blast
  then show "edge s R l p g \<or> g \<notin> used_frames s"
    using assms(1,3) unfolding fresh_edges_def by blast
qed

lemma ownsI:
  assumes "pt_inv s R" "\<And>l. 4 < l \<Longrightarrow> R l = {}" "\<And>l. 0 < l \<Longrightarrow> R l \<inter> F = {}" "used_frames s = F \<union> (\<Union>l. R l)"
    and "\<And>l g. l < 4 \<Longrightarrow> g \<in> R l - F \<Longrightarrow> \<exists>!p. edge s R l p g"
    and "\<And>l f i g. edge s R l (f, i) g \<Longrightarrow>
      pme_user (entry_of s f i) \<and> (pme_writable (entry_of s f i) \<longleftrightarrow> g \<notin> F)"
  shows "owns s R F"
  using assms(1-4) unfolding owns_def by (intro conjI allI impI ballI; (rule assms(5,6))?; simp add: assms(5,6))

lemma owns_inv: "owns s R F \<Longrightarrow> pt_inv s R"
  by (simp add: owns_def)

lemma owns_top: "owns s R F \<Longrightarrow> f \<in> R l \<Longrightarrow> l \<le> 4"
  by (cases "l \<le> 4") (auto simp: owns_def)

lemma owns_used: "owns s R F \<Longrightarrow> used_frames s = F \<union> (\<Union>l. R l)"
  by (simp add: owns_def)

lemma owns_tables: "owns s R F \<Longrightarrow> f \<in> R (Suc l) \<Longrightarrow> f \<notin> F"
  unfolding owns_def by (metis disjoint_iff zero_less_Suc)

lemma owns_flags:
  "owns s R F \<Longrightarrow> edge s R l (f, i) g \<Longrightarrow> pme_user (entry_of s f i) \<and> (pme_writable (entry_of s f i) \<longleftrightarrow> g \<notin> F)"
  unfolding owns_def by blast

lemma owns_unique:
  assumes "owns s R F" "edge s R l p g" "edge s R l q g" "g \<notin> F"
  shows "p = q"
proof -
  have "l < 4" using owns_top [OF assms(1), of "fst p" "Suc l"] assms(2) by (simp add: edge_def)
  moreover have "g \<in> R l - F" using assms(2,4) by (simp add: edge_def)
  ultimately have "\<exists>!p. edge s R l p g" using assms(1) unfolding owns_def by blast
  then show ?thesis using assms(2,3) by blast
qed

lemma owns_lt: "owns s R F \<Longrightarrow> f \<in> R l \<Longrightarrow> f < kFrameCount"
  using pt_inv_used [OF owns_inv] used_less by blast

lemma edge_exists:
  "pt_inv s R \<Longrightarrow> f \<in> R (Suc l) \<Longrightarrow> i < 512 \<Longrightarrow> upper (Suc l) i \<Longrightarrow> pme_present (entry_of s f i) \<Longrightarrow>
     \<exists>g. edge s R l (f, i) g"
  unfolding pt_inv_def edge_def by fastforce

lemma edge_target:
  assumes "pt_inv s R" "edge s R l p g" "edge s R l p h"
  shows "g = h"
proof -
  have "g < kFrameCount" "h < kFrameCount" using assms pt_inv_used used_less unfolding edge_def by blast+
  then show ?thesis using assms(2,3) Frame_inj by (simp add: edge_def)
qed

text \<open>The same edges with the same flags: nothing changes in who owns what.\<close>

lemma owns_same:
  assumes "owns s R F" "pt_inv s' R" "used_frames s' = used_frames s"
    and "\<And>l p g. edge s' R l p g \<longleftrightarrow> edge s R l p g"
    and "\<And>l f i g. edge s R l (f, i) g \<Longrightarrow>
      pme_user (entry_of s' f i) \<and> (pme_writable (entry_of s' f i) \<longleftrightarrow> g \<notin> F)"
  shows "owns s' R F"
proof -
  have "edge s' R = edge s R" using assms(4) by (intro ext) simp
  then show ?thesis using assms(1,2,5) unfolding owns_def assms(3) by simp
qed

lemma upd_entry_upd [simp]:
  "upd_entry t i h (upd_entry t i h' s) = upd_entry t i (\<lambda>e. h (h' e)) s"
  by (simp add: upd_entry_def get_entry_def put_entry_def)

text \<open>Setting the flags of an entry that leads to a frame of the address space.\<close>

lemma owns_flag_entry:
  assumes own: "owns s R F" and e: "edge s R l (f, i) g" "g \<notin> F"
    and h: "\<And>e. pme_present (h e) = pme_present e" "\<And>e. Pointer (h e) = Pointer e"
      "\<And>e. pme_user (h e)" "\<And>e. pme_writable (h e)"
  shows "owns (upd_entry (Frame f) i h s) R F \<and> grows s R (upd_entry (Frame f) i h s) R \<and>
    fresh_edges s R (upd_entry (Frame f) i h s) R"
proof -
  let ?s = "upd_entry (Frame f) i h s"
  have f: "f \<in> R (Suc l)" "i < 512" "upper (Suc l) i" using e(1) by (simp_all add: edge_def)
  have inv: "pt_inv ?s R \<and> grows s R ?s R"
    using flag_inv [OF owns_inv [OF own] f] h by simp
  have ent: "entry_of ?s q j = (if f = q \<and> i = j then h (entry_of s f i) else entry_of s q j)"
    if "q < kFrameCount" "j < 512" for q j
    using entry_of_upd [OF owns_lt [OF own f(1)] that(1) f(2) that(2)] .
  have edges: "edge ?s R k p q \<longleftrightarrow> edge s R k p q" for k p q
  proof (cases "fst p \<in> R (Suc k) \<and> snd p < 512")
    case True
    then show ?thesis using ent [OF owns_lt [OF own], of "fst p" "Suc k" "snd p"] h(1,2)
      by (auto simp: edge_def)
  qed (auto simp: edge_def)
  have flags: "pme_user (entry_of ?s q j) \<and> (pme_writable (entry_of ?s q j) \<longleftrightarrow> c \<notin> F)"
    if "edge s R k (q, j) c" for k q j c
  proof (cases "f = q \<and> i = j")
    case True
    then have "k = l" using that f(1) owns_inv [OF own] unfolding edge_def pt_inv_def by (metis IntI empty_iff fst_conv nat.inject)
    then have "c = g" using edge_target [OF owns_inv [OF own] _ e(1), of c] that True by simp
    then show ?thesis using True ent [of f i] owns_lt [OF own f(1)] f(2) h(3,4) e(2) by simp
  next
    case False
    have "q < kFrameCount" "j < 512" using that owns_lt [OF own] by (auto simp: edge_def)
    then show ?thesis using False ent owns_flags [OF own that] by auto
  qed
  have "owns ?s R F" by (rule owns_same [OF own]) (use inv edges flags in auto)
  then show ?thesis using inv edges by (simp add: fresh_edges_def)
qed

section \<open>A new table or page\<close>

lemma owns_add:
  assumes own: "owns s R F" and g: "g \<notin> used_frames s" "used_frames s' = insert g (used_frames s)" and l: "l < 4"
    and inv: "pt_inv s' (R(l := insert g (R l)))"
    and edges: "\<And>k p h. edge s' (R(l := insert g (R l))) k p h \<longleftrightarrow> edge s R k p h \<or> (k = l \<and> p = (f, i) \<and> h = g)"
    and old: "\<And>k q j h. edge s R k (q, j) h \<Longrightarrow> entry_of s' q j = entry_of s q j"
    and new: "pme_user (entry_of s' f i)" "pme_writable (entry_of s' f i)"
  shows "owns s' (R(l := insert g (R l))) F"
proof -
  let ?R = "R(l := insert g (R l))"
  have gR: "g \<notin> R k" for k using g(1) owns_used [OF own] by blast
  have gF: "g \<notin> F" using g(1) owns_used [OF own] by blast
  have "\<exists>!p. edge s' ?R k p h" if k: "k < 4" and h: "h \<in> ?R k - F" for k h
  proof (cases "h = g")
    case True
    have "\<not> edge s R k p g" for k p using gR by (simp add: edge_def)
    moreover have "k = l" using h gR True by (auto split: if_splits)
    ultimately show ?thesis unfolding edges using True by auto
  next
    case False
    then have "h \<in> R k - F" using h by (auto split: if_splits)
    then show ?thesis using own k False unfolding edges owns_def by simp
  qed
  moreover have "used_frames s' = F \<union> (\<Union>k. ?R k)" using owns_used [OF own] g(2) by auto
  moreover have "pme_user (entry_of s' q j) \<and> (pme_writable (entry_of s' q j) \<longleftrightarrow> h \<notin> F)"
    if "edge s' ?R k (q, j) h" for k q j h
    using that new gF owns_flags [OF own] old unfolding edges by auto
  moreover have "\<forall>k>4. ?R k = {}" "\<forall>k>0. ?R k \<inter> F = {}" using own l gF by (auto simp: owns_def)
  ultimately show ?thesis using inv by (intro ownsI) blast+
qed

text \<open>An entry that was not present now leads to a frame \<open>g\<close> that was free.\<close>

lemma owns_new_entry:
  assumes own: "owns s R F" and f: "f \<in> R (Suc l)" "i < 512" "upper (Suc l) i" and np: "\<not> pme_present (entry_of s f i)"
    and g: "g \<notin> used_frames s" "g < kFrameCount" and used: "used_frames s' = insert g (used_frames s)"
    and mu: "mm_usable (memory_manager s')"
    and ent: "\<And>q j. q \<in> used_frames s \<Longrightarrow> j < 512 \<Longrightarrow> (q, j) \<noteq> (f, i) \<Longrightarrow> entry_of s' q j = entry_of s q j"
    and empty: "\<And>j. j < 512 \<Longrightarrow> 0 < l \<Longrightarrow> \<not> pme_present (entry_of s' g j)"
    and new: "pme_present (entry_of s' f i)" "Pointer (entry_of s' f i) = Frame g" "pme_user (entry_of s' f i)"
      "pme_writable (entry_of s' f i)"
  shows "owns s' (R(l := insert g (R l))) F \<and> fresh_edges s R s' (R(l := insert g (R l)))"
proof -
  define R' where "R' = R(l := insert g (R l))"
  have gR: "g \<notin> R k" for k using g(1) owns_used [OF own] by blast
  have l: "l < 4" using owns_top [OF own f(1)] by simp
  have ru: "q \<in> used_frames s" if "q \<in> R k" for q k using that pt_inv_used [OF owns_inv [OF own]] by blast
  have table: "a \<in> R (Suc k)" if "a \<in> R' (Suc k)" "b < 512" "pme_present (entry_of s' a b)" for a b k
    using that empty by (cases "a = g") (auto simp: R'_def split: if_splits)
  have level: "k = l" if "f \<in> R (Suc k)" for k
    using that f(1) owns_inv [OF own] unfolding pt_inv_def by (metis disjoint_iff nat.inject)
  have gl: "g \<in> R' l" "f \<in> R' (Suc l)" using f(1) by (simp_all add: R'_def)
  have inv: "pt_inv s' R'"
    unfolding pt_inv_def
  proof (intro conjI allI impI)
    show "R' k \<subseteq> used_frames s'" for k using ru used by (auto simp: R'_def)
    show "R' k \<inter> R' k' = {}" if "k \<noteq> k'" for k k'
      using that owns_inv [OF own] gR unfolding R'_def pt_inv_def by auto
    fix k q j assume a: "q \<in> R' (Suc k) \<and> j < 512 \<and> upper (Suc k) j \<and> pme_present (entry_of s' q j)"
    then have q: "q \<in> R (Suc k)" using table by blast
    show "\<exists>c \<in> R' k. Pointer (entry_of s' q j) = Frame c"
    proof (cases "(q, j) = (f, i)")
      case True
      then show ?thesis using level q new(2) gl(1) by auto
    next
      case False
      then have "entry_of s' q j = entry_of s q j" using ent ru [OF q] a by blast
      then have "\<exists>c \<in> R k. Pointer (entry_of s' q j) = Frame c" using a q owns_inv [OF own] unfolding pt_inv_def by auto
      then show ?thesis by (auto simp: R'_def)
    qed
  qed (rule mu)
  have edges: "edge s' R' k q c \<longleftrightarrow> edge s R k q c \<or> (k = l \<and> q = (f, i) \<and> c = g)" for k q c
  proof (cases "q = (f, i)")
    case True
    have "k = l \<and> c = g" if e: "edge s' R' k (f, i) c"
    proof -
      have "f \<in> R (Suc k)" "c \<in> R' k" "Frame g = Frame c" using e new(1,2) table f(2) by (auto simp: edge_def)
      moreover have "c < kFrameCount" using calculation(2) pt_inv_used [OF inv] used_less by blast
      ultimately show ?thesis using Frame_inj [OF g(2)] level by simp
    qed
    moreover have "edge s' R' l (f, i) g" using gl f(2,3) new(1,2) by (simp add: edge_def)
    moreover have "\<not> edge s R k (f, i) c" using np by (simp add: edge_def)
    ultimately show ?thesis unfolding True by blast
  next
    case False
    obtain a b where q: "q = (a, b)" by fastforce
    have same: "entry_of s' a b = entry_of s a b" if "a \<in> R (Suc k)" "b < 512" using ent [OF ru [OF that(1)] that(2)] False q by blast
    have "edge s R k (a, b) c" if e: "edge s' R' k (a, b) c"
    proof -
      have a: "a \<in> R (Suc k)" "b < 512" "upper (Suc k) b" using e table by (auto simp: edge_def)
      then obtain d where d: "edge s R k (a, b) d"
        using edge_exists [OF owns_inv [OF own] a] e same [OF a(1,2)] by (auto simp: edge_def)
      then have "Frame d = Frame c" "d \<in> R k" using e same [OF a(1,2)] by (simp_all add: edge_def)
      moreover have "c < kFrameCount" using e pt_inv_used [OF inv] used_less by (auto simp: edge_def)
      ultimately show ?thesis using d Frame_inj owns_lt [OF own] by blast
    qed
    moreover have "edge s' R' k (a, b) c" if "edge s R k (a, b) c"
      using that same by (auto simp: edge_def R'_def)
    ultimately show ?thesis using q False by blast
  qed
  have "owns s' R' F"
    unfolding R'_def
  proof (rule owns_add [OF own g(1) used l, where f = f and i = i])
    show "entry_of s' q j = entry_of s q j" if e: "edge s R k (q, j) c" for k q j c
    proof (rule ent)
      show "q \<in> used_frames s" "j < 512" using e ru by (auto simp: edge_def)
      show "(q, j) \<noteq> (f, i)" using e np by (auto simp: edge_def)
    qed
  qed (use inv edges new in \<open>simp_all add: R'_def\<close>)
  moreover have "fresh_edges s R s' R'" unfolding fresh_edges_def edges using g(1) l by (auto simp: R'_def)
  ultimately show ?thesis by (simp add: R'_def)
qed

lemma owns_new_child:
  assumes own: "owns s R F" and f: "f \<in> R (Suc l)" "i < 512" "upper (Suc l) i"
    and np: "\<not> pme_present (entry_of s f i)" and n: "NewPageMap s = Some (s1, Inr p)"
    and h: "\<And>e. pme_present (h e)" "\<And>e. Pointer (h e) = p" "\<And>e. pme_user (h e)" "\<And>e. pme_writable (h e)"
  shows "\<exists>g. p = Frame g \<and> g \<notin> used_frames s \<and>
    (let s' = upd_entry (Frame f) i h s1; R' = R(l := insert g (R l))
     in owns s' R' F \<and> grows s R s' R' \<and> fresh_edges s R s' R' \<and> (\<forall>j<512. entry_of s' g j = 0) \<and>
        entry_of s' f i = h (entry_of s f i) \<and>
        (\<forall>q j. q \<in> used_frames s \<and> j < 512 \<and> (q, j) \<noteq> (f, i) \<longrightarrow> entry_of s' q j = entry_of s q j))"
proof -
  from NewPageMap_fresh [OF owns_inv [OF own] n] obtain g where g: "p = Frame g" "g < kFrameCount" "g \<notin> used_frames s"
    "pt_inv s1 R" "grows s R s1 R" "used_frames s1 = insert g (used_frames s)" "\<forall>j<512. entry_of s1 g j = 0"
    "\<forall>q j. q \<in> used_frames s \<and> j < 512 \<longrightarrow> entry_of s1 q j = entry_of s q j" by blast
  let ?s = "upd_entry (Frame f) i h s1" and ?R = "R(l := insert g (R l))"
  have fu: "f \<in> used_frames s" using f(1) pt_inv_used [OF owns_inv [OF own]] by blast
  have ent: "entry_of ?s q j = (if f = q \<and> i = j then h (entry_of s f i) else entry_of s1 q j)"
    if "q < kFrameCount" "j < 512" for q j
    using entry_of_upd [OF used_less [OF fu] that(1) f(2) that(2)] g(8) fu f(2) by auto
  have other: "entry_of ?s q j = entry_of s q j" if "q \<in> used_frames s" "j < 512" "(q, j) \<noteq> (f, i)" for q j
    using ent [OF used_less [OF that(1)] that(2)] g(8) that by auto
  have zero: "entry_of ?s g j = 0" if "j < 512" for j using ent [OF g(2) that] g(3,7) fu that by auto
  have set: "entry_of ?s f i = h (entry_of s f i)" using ent [OF used_less [OF fu] f(2)] by simp
  have "owns ?s ?R F \<and> fresh_edges s R ?s ?R"
    by (rule owns_new_entry [OF own f np g(3,2)])
      (use g(1,4,6) other zero set h in \<open>auto simp: pt_inv_def\<close>)
  moreover have "grows s R ?s ?R"
    unfolding grows_def
  proof (intro conjI allI ballI impI)
    show "cr3 ?s = cr3 s" using g(5) by (simp add: grows_def)
    fix q j assume q: "q \<in> used_frames s" and j: "j < (512 :: nat)"
    show "entry_le (entry_of s q j) (entry_of ?s q j)"
      using np other [OF q j] by (cases "(q, j) = (f, i)") (auto simp: entry_le_def)
    assume "\<forall>l. q \<notin> R (Suc l)"
    then have "(q, j) \<noteq> (f, i)" using f(1) by blast
    then show "entry_of ?s q j = entry_of s q j" using other [OF q j] by blast
  qed (use g(3,6) in auto)
  ultimately show ?thesis using g(1,3) set other zero by (intro exI [of _ g]) (simp add: Let_def)
qed

section \<open>Mapping\<close>

lemma enter_owned:
  assumes own: "owns s R F" and f: "f \<in> R (Suc l)" "i < 512" "upper (Suc l) i"
    and free: "\<And>g. edge s R l (f, i) g \<Longrightarrow> g \<notin> F"
  shows "\<exists>s1 r. SetNewPageMapIfNotPresent s (Frame f) i = Some (s1, r) \<and>
    (case r of
       Inl e \<Rightarrow> s1 = s \<and> e = kNoEnoughMemory
     | Inr p \<Rightarrow> \<exists>g R3. p = Frame g \<and>
        (let s3 = upd_entry (Frame f) i (set_writable True) (upd_entry (Frame f) i (set_user True) s1)
         in owns s3 R3 F \<and> grows s R s3 R3 \<and> fresh_edges s R s3 R3 \<and> edge s3 R3 l (f, i) g))"
proof (cases "pme_present (entry_of s f i)")
  case True
  then obtain g where g: "edge s R l (f, i) g" using edge_exists [OF owns_inv [OF own] f] by blast
  let ?s3 = "upd_entry (Frame f) i (\<lambda>e. set_writable True (set_user True e)) s"
  from owns_flag_entry [OF own g free [OF g], of "\<lambda>e. set_writable True (set_user True e)"]
  have s3: "owns ?s3 R F" "grows s R ?s3 R" "fresh_edges s R ?s3 R" by auto
  have "entry_of ?s3 f i = set_writable True (set_user True (entry_of s f i))"
    using entry_of_upd owns_lt [OF own f(1)] f(2) by simp
  then have "edge ?s3 R l (f, i) g" using g by (simp add: edge_def)
  then show ?thesis using True g s3
    by (intro exI [of _ s] exI [of _ "Inr (Frame g)"])
      (auto simp: SetNewPageMapIfNotPresent_def Let_def edge_def)
next
  case False
  have mu: "mm_usable (memory_manager s)" using owns_inv [OF own] by (simp add: pt_inv_def)
  consider "NewPageMap s = Some (s, Inl kNoEnoughMemory)" | s1 p where "NewPageMap s = Some (s1, Inr p)"
    using NewPageMap_total [OF mu] by blast
  then show ?thesis
  proof cases
    case 1
    then show ?thesis using False by (simp add: SetNewPageMapIfNotPresent_def)
  next
    case 2
    let ?h = "\<lambda>e. set_writable True (set_user True (set_present True (SetPointer p e)))"
    obtain g0 where g0: "p = Frame g0" "g0 < kFrameCount" using NewPageMap_fresh [OF owns_inv [OF own] 2] by blast
    have "Pointer (?h e) = p" for e using page_ok_Frame g0 by simp
    with owns_new_child [OF own f False 2, of ?h] obtain g where g: "p = Frame g" "g \<notin> used_frames s"
      "let s' = upd_entry (Frame f) i ?h s1; R' = R(l := insert g (R l))
       in owns s' R' F \<and> grows s R s' R' \<and> fresh_edges s R s' R' \<and> (\<forall>j<512. entry_of s' g j = 0) \<and>
          entry_of s' f i = ?h (entry_of s f i) \<and>
          (\<forall>q j. q \<in> used_frames s \<and> j < 512 \<and> (q, j) \<noteq> (f, i) \<longrightarrow> entry_of s' q j = entry_of s q j)"
      by auto
    then have "edge (upd_entry (Frame f) i ?h s1) (R(l := insert g (R l))) l (f, i) g"
      using f \<open>\<And>e. Pointer (?h e) = p\<close> by (simp add: edge_def Let_def)
    then show ?thesis using False 2 g
      by (intro exI [of _ "upd_entry (Frame f) i (\<lambda>e. set_present True (SetPointer p e)) s1"] exI [of _ "Inr p"])
        (auto simp: SetNewPageMapIfNotPresent_def Let_def)
  qed
qed

text \<open>A frame of the others is reached only over entries that were there before.\<close>

lemma walk_edge:
  assumes "pt_inv s R" "f \<in> R (Suc l)" "upper (Suc l) (Part a (Suc l))" "walk (pmem s) (Frame f) (Suc l) a = Some q"
  shows "\<exists>g. edge s R l (f, Part a (Suc l)) g \<and> walk (pmem s) (Frame g) l a = Some q"
proof -
  have i: "Part a (Suc l) < 512" by (simp add: Part_less)
  from assms(4) have "pme_present (entry_of s f (Part a (Suc l)))"
    "walk (pmem s) (Pointer (entry_of s f (Part a (Suc l)))) l a = Some q"
    by (auto simp: Let_def split: if_splits)
  then show ?thesis using edge_exists [OF assms(1,2) i assms(3)] by (auto simp: edge_def)
qed

lemma walk_fresh:
  assumes inv: "pt_inv s R" "pt_inv s' R'" and fr: "fresh_edges s R s' R'"
  shows "g \<in> R' l \<Longrightarrow> g \<notin> used_frames s \<Longrightarrow> l \<le> 3 \<Longrightarrow> walk (pmem s') (Frame g) l a = Some (Frame q) \<Longrightarrow>
    q < kFrameCount \<Longrightarrow> q \<notin> used_frames s"
proof (induction l arbitrary: g)
  case 0
  then have "g < kFrameCount" using pt_inv_used [OF inv(2)] used_less by blast
  with 0 Frame_inj show ?case by simp
next
  case (Suc l)
  have "upper (Suc l) (Part a (Suc l))" using Suc.prems(3) by (simp add: upper_def)
  from walk_edge [OF inv(2) Suc.prems(1) this Suc.prems(4)] obtain h where
    h: "edge s' R' l (g, Part a (Suc l)) h" "walk (pmem s') (Frame h) l a = Some (Frame q)" by blast
  have "\<not> edge s R l (g, Part a (Suc l)) h" using Suc.prems(2) pt_inv_used [OF inv(1)] by (auto simp: edge_def)
  then have "h \<notin> used_frames s" using fr h(1) unfolding fresh_edges_def by blast
  then show ?case using Suc.IH [of h] h Suc.prems(3,5) by (simp add: edge_def)
qed

lemma walk_old:
  assumes own: "owns s R F" and inv: "pt_inv s' R'" and fr: "fresh_edges s R s' R'" "grows s R s' R'" and q: "q \<in> F"
  shows "f \<in> R l \<Longrightarrow> l \<le> 4 \<Longrightarrow> upper l (Part a l) \<Longrightarrow> walk (pmem s') (Frame f) l a = Some (Frame q) \<Longrightarrow>
    walk (pmem s) (Frame f) l a = Some (Frame q)"
proof (induction l arbitrary: f)
  case 0
  then show ?case by simp
next
  case (Suc l)
  let ?i = "Part a (Suc l)"
  have f': "f \<in> R' (Suc l)" using fr(2) Suc.prems(1) by (auto simp: grows_def)
  have qu: "q \<in> used_frames s" using q owns_used [OF own] by blast
  from walk_edge [OF inv f' Suc.prems(3,4)] obtain g where
    g: "edge s' R' l (f, ?i) g" "walk (pmem s') (Frame g) l a = Some (Frame q)" by blast
  have "g \<in> R' l" "l \<le> 3" using g(1) Suc.prems(2) by (auto simp: edge_def)
  then have "g \<in> used_frames s"
    using walk_fresh [OF owns_inv [OF own] inv fr(1)] g(2) qu used_less by blast
  then have e: "edge s R l (f, ?i) g" using fr(1) g(1) unfolding fresh_edges_def by blast
  then have "pme_user (entry_of s f ?i)" using owns_flags [OF own] by blast
  moreover have "walk (pmem s) (Frame g) l a = Some (Frame q)"
    using Suc.IH [of g] e g(2) Suc.prems(2) by (simp add: edge_def upper_def)
  ultimately show ?case using e by (simp add: edge_def Let_def)
qed

text \<open>None of \<open>n\<close> pages from an address on is a page of the others.\<close>

definition unshared :: "paging_state \<Rightarrow> nat \<Rightarrow> nat \<Rightarrow> LinearAddress4Level \<Rightarrow> nat \<Rightarrow> nat set \<Rightarrow> bool" where
  "unshared s f lvl addr n F \<longleftrightarrow>
     (\<forall>b. vpn lvl addr \<le> vpn lvl b \<and> vpn lvl b < vpn lvl addr + n \<longrightarrow>
        (\<forall>q \<in> F. walk (pmem s) (Frame f) lvl b \<noteq> Some (Frame q)))"

lemma walk_cong_below: "(\<And>l. 1 \<le> l \<Longrightarrow> l \<le> k \<Longrightarrow> Part a l = Part b l) \<Longrightarrow> walk m t k a = walk m t k b"
  by (induction k arbitrary: t) (auto simp: Let_def)

lemma vpn_cong_below: "(\<And>l. 1 \<le> l \<Longrightarrow> l \<le> k \<Longrightarrow> Part a l = Part b l) \<Longrightarrow> vpn k a = vpn k b"
  by (induction k) auto

lemma unshared_later:
  assumes own: "owns s R F" and inv: "pt_inv s' R'" and fr: "fresh_edges s R s' R'" "grows s R s' R'"
    and f: "f \<in> R (Suc l)" "Suc l \<le> 4" "upper (Suc l) (Part addr (Suc l))" and u: "unshared s f (Suc l) addr n F"
  shows "unshared s' f (Suc l) addr n F"
  unfolding unshared_def
proof (intro allI impI ballI)
  fix b q assume b: "vpn (Suc l) addr \<le> vpn (Suc l) b \<and> vpn (Suc l) b < vpn (Suc l) addr + n" and q: "q \<in> F"
  have "Part addr (Suc l) \<le> Part b (Suc l)" using vpn_Part_le b by blast
  then have "upper (Suc l) (Part b (Suc l))" using f(3) unfolding upper_def by (meson le_trans)
  then show "walk (pmem s') (Frame f) (Suc l) b \<noteq> Some (Frame q)"
    using walk_old [OF own inv fr q f(1,2), of b] u b q unfolding unshared_def by blast
qed

lemma unshared_next:
  assumes u: "unshared s f (Suc l) addr n F" and p: "Part addr (Suc l) \<noteq> 511" "Suc l \<le> 4"
  shows "unshared s f (Suc l) (next_addr (Suc l) addr) (n - (512 ^ l - vpn l addr)) F"
proof -
  have nx: "vpn (Suc l) (next_addr (Suc l) addr) = Part addr (Suc l) * 512 ^ l + 512 ^ l"
    using vpn_next [of "Suc l" addr] p by simp
  have "vpn l addr < 512 ^ l" by (rule vpn_less)
  then have "vpn (Suc l) addr \<le> vpn (Suc l) b \<and> vpn (Suc l) b < vpn (Suc l) addr + n"
    if "vpn (Suc l) (next_addr (Suc l) addr) \<le> vpn (Suc l) b"
      "vpn (Suc l) b < vpn (Suc l) (next_addr (Suc l) addr) + (n - (512 ^ l - vpn l addr))" for b
    using that unfolding nx by simp
  then show ?thesis using u unfolding unshared_def by blast
qed

lemma unshared_child:
  assumes u: "unshared s f (Suc l) addr n F" and own: "owns s R F" and e: "edge s R l (f, Part addr (Suc l)) g"
    and l: "l \<le> 3"
  shows "unshared s g l addr n F"
  unfolding unshared_def
proof (intro allI impI ballI)
  fix b q assume b: "vpn l addr \<le> vpn l b \<and> vpn l b < vpn l addr + n" and q: "q \<in> F"
  define c where "c = SetPart b (Suc l) (Part addr (Suc l))"
  have w: "part_width (Suc l) = 9" using l by (cases l) auto
  have top: "Part c (Suc l) = Part addr (Suc l)"
    unfolding c_def using Part_SetPart_same [of "Suc l" "Part addr (Suc l)" b] Part_less [of "Suc l" addr] w l by simp
  have below: "Part c k = Part b k" if "1 \<le> k" "k \<le> l" for k
    unfolding c_def using Part_SetPart_other that by simp
  have v: "vpn l c = vpn l b" and wk: "walk m t l c = walk m t l b" for m t
    using below by (auto intro!: vpn_cong_below walk_cong_below)
  have "walk (pmem s) (Frame f) (Suc l) c \<noteq> Some (Frame q)"
    using u [unfolded unshared_def, rule_format, of c q] q b top v by simp
  moreover have "pme_user (entry_of s f (Part addr (Suc l)))" using owns_flags [OF own e] by blast
  ultimately show "walk (pmem s) (Frame g) l b \<noteq> Some (Frame q)"
    using e top wk by (simp add: edge_def Let_def)
qed

text \<open>What \<open>SetupPageMap\<close> leaves behind, also when it runs out of memory.\<close>

definition own_post ::
  "paging_state \<Rightarrow> (nat \<Rightarrow> nat set) \<Rightarrow> nat set \<Rightarrow> (paging_state \<times> nat WithError) option \<Rightarrow> bool" where
  "own_post s R F res \<longleftrightarrow> (\<exists>s' r R'. res = Some (s', r) \<and> owns s' R' F \<and> grows s R s' R' \<and> fresh_edges s R s' R')"

lemma own_postI:
  "res = Some (s', r) \<Longrightarrow> owns s' R' F \<Longrightarrow> grows s R s' R' \<Longrightarrow> fresh_edges s R s' R' \<Longrightarrow> own_post s R F res"
  unfolding own_post_def by blast

lemma own_post_trans:
  assumes "own_post s' R' F res" "grows s R s' R'" "fresh_edges s R s' R'"
  shows "own_post s R F res"
proof -
  have "used_frames s \<subseteq> used_frames s'" using assms(2) by (simp add: grows_def)
  with assms fresh_edges_trans grows_trans show ?thesis unfolding own_post_def by blast
qed

lemma SetupPageMap_own_round:
  assumes n: "n \<noteq> 0" and lvl: "Suc l \<le> 4" "upper (Suc l) (Part addr (Suc l))"
    and own: "owns s R F" and f: "f \<in> R (Suc l)" and u: "unshared s f (Suc l) addr n F"
    and child: "\<And>s R f. owns s R F \<Longrightarrow> f \<in> R l \<Longrightarrow> 1 \<le> l \<Longrightarrow> unshared s f l addr n F \<Longrightarrow>
      own_post s R F (SetupPageMap s (Frame f) l addr n True)"
    and rest: "\<And>s R n. Part addr (Suc l) \<noteq> 511 \<Longrightarrow> owns s R F \<Longrightarrow> f \<in> R (Suc l) \<Longrightarrow>
      unshared s f (Suc l) (next_addr (Suc l) addr) n F \<Longrightarrow>
      own_post s R F (SetupPageMap s (Frame f) (Suc l) (next_addr (Suc l) addr) n True)"
  shows "own_post s R F (SetupPageMap s (Frame f) (Suc l) addr n True)"
proof -
  let ?i = "Part addr (Suc l)"
  have free: "g \<notin> F" if g: "edge s R l (f, ?i) g" for g
  proof (cases l)
    case 0
    have "walk (pmem s) (Frame f) (Suc l) addr = Some (Frame g)"
      using g owns_flags [OF own g] 0 by (simp add: edge_def Let_def)
    moreover have "vpn (Suc l) addr < vpn (Suc l) addr + n" using n by simp
    ultimately show ?thesis using u unfolding unshared_def by blast
  next
    case (Suc k)
    then show ?thesis using owns_tables [OF own, of g k] g by (simp add: edge_def)
  qed
  from enter_owned [OF own f _ lvl(2) free] obtain s1 r where
    s1: "SetNewPageMapIfNotPresent s (Frame f) ?i = Some (s1, r)" and
    r: "case r of Inl e \<Rightarrow> s1 = s \<and> e = kNoEnoughMemory
     | Inr p \<Rightarrow> \<exists>g R3. p = Frame g \<and>
        (let s3 = upd_entry (Frame f) ?i (set_writable True) (upd_entry (Frame f) ?i (set_user True) s1)
         in owns s3 R3 F \<and> grows s R s3 R3 \<and> fresh_edges s R s3 R3 \<and> edge s3 R3 l (f, ?i) g)"
    using Part_less [of "Suc l" addr] by auto
  show ?thesis
  proof (cases r)
    case (Inl e)
    have "SetupPageMap s (Frame f) (Suc l) addr n True = Some (s, Inl e)"
      using s1 r Inl n lvl(1) by (simp add: SetupPageMap.simps)
    then show ?thesis by (rule own_postI [where R' = R]) (use own in simp_all)
  next
    case (Inr p)
    define s3 where "s3 = upd_entry (Frame f) ?i (set_writable True) (upd_entry (Frame f) ?i (set_user True) s1)"
    from r Inr obtain g R3 where g: "p = Frame g" "owns s3 R3 F" "grows s R s3 R3" "fresh_edges s R s3 R3"
      "edge s3 R3 l (f, ?i) g" by (auto simp: Let_def s3_def)
    have f3: "f \<in> R3 (Suc l)" using g(5) by (simp add: edge_def)
    have u3: "unshared s3 f (Suc l) addr n F"
      by (rule unshared_later [OF own owns_inv [OF g(2)] g(4,3) f lvl u])
    have next_own: "own_post s R F (SetupPageMap s' (Frame f) (Suc l) (next_addr (Suc l) addr) (n - (512 ^ l - vpn l addr)) True)"
      if "?i \<noteq> 511" "owns s' R' F" "grows s3 R3 s' R'" "fresh_edges s3 R3 s' R'" for s' R'
    proof (rule own_post_trans [OF rest [OF that(1,2)]])
      show "f \<in> R' (Suc l)" using f3 that(3) by (auto simp: grows_def)
      show "unshared s' f (Suc l) (next_addr (Suc l) addr) (n - (512 ^ l - vpn l addr)) F"
        by (intro unshared_next unshared_later [OF g(2) owns_inv [OF that(2)] that(4,3) f3 lvl u3] that(1) lvl(1))
      show "grows s R s' R'" using grows_trans g(3) that(3) by blast
      show "fresh_edges s R s' R'" using fresh_edges_trans [OF g(4) that(4)] g(3) by (simp add: grows_def)
    qed
    show ?thesis
    proof (cases "l = 0")
      case True
      have "SetupPageMap s (Frame f) (Suc l) addr n True =
          (if ?i = 511 then Some (s3, Inr (n - 1))
           else SetupPageMap s3 (Frame f) (Suc l) (next_addr (Suc l) addr) (n - 1) True)"
        using True s1 Inr n g(1) by (subst SetupPageMap.simps) (simp add: s3_def Let_def)
      then show ?thesis
        using next_own [of s3 R3] g(2,3,4) True own_postI [of _ s3 _ R3 F s R] by (cases "?i = 511") simp_all
    next
      case False
      have l: "1 \<le> l" "l \<le> 3" using False lvl(1) by simp_all
      have gl: "g \<in> R3 l" using g(5) by (simp add: edge_def)
      from child [OF g(2) gl l(1) unshared_child [OF u3 g(2,5) l(2)]] obtain s4 r4 R4 where
        c: "SetupPageMap s3 (Frame g) l addr n True = Some (s4, r4)" "owns s4 R4 F" "grows s3 R3 s4 R4"
          "fresh_edges s3 R3 s4 R4" unfolding own_post_def by blast
      have n4: "case r4 of Inl e \<Rightarrow> True | Inr n4 \<Rightarrow> n4 = n - (512 ^ l - vpn l addr)"
        using SetupPageMap_post [OF owns_inv [OF g(2)] gl l(1), of addr n True] c(1) l(2)
        unfolding setup_post_def by (auto simp: upper_def split: sum.splits)
      have eq: "SetupPageMap s (Frame f) (Suc l) addr n True =
          (case r4 of Inl e \<Rightarrow> Some (s4, Inl e)
           | Inr n4 \<Rightarrow> if ?i = 511 then Some (s4, Inr n4)
               else SetupPageMap s4 (Frame f) (Suc l) (next_addr (Suc l) addr) n4 True)"
        using False s1 Inr n g(1) lvl(1) c(1)
        by (subst SetupPageMap.simps) (simp add: s3_def Let_def split: sum.split)
      have all: "grows s R s4 R4" "fresh_edges s R s4 R4"
        using grows_trans [OF g(3) c(3)] fresh_edges_trans [OF g(4) c(4)] g(3) by (simp_all add: grows_def)
      show ?thesis
        using eq n4 next_own [of s4 R4] c(2,3,4) own_postI [OF _ c(2) all]
        by (cases r4; cases "?i = 511") simp_all
    qed
  qed
qed

lemma SetupPageMap_owned:
  "owns s R F \<Longrightarrow> f \<in> R lvl \<Longrightarrow> 1 \<le> lvl \<Longrightarrow> lvl \<le> 4 \<Longrightarrow> upper lvl (Part addr lvl) \<Longrightarrow> unshared s f lvl addr n F \<Longrightarrow>
     own_post s R F (SetupPageMap s (Frame f) lvl addr n True)"
proof (induction lvl arbitrary: s R f addr n)
  case 0
  then show ?case by simp
next
  case (Suc l)
  note outer = Suc.IH
  from Suc.prems show ?case
  proof (induction "511 - Part addr (Suc l)" arbitrary: s R addr n rule: less_induct)
    case less
    show ?case
    proof (cases "n = 0")
      case True
      then have "SetupPageMap s (Frame f) (Suc l) addr n True = Some (s, Inr 0)" by (simp add: SetupPageMap.simps)
      then show ?thesis by (rule own_postI [where R' = R]) (use less.prems(1) in simp_all)
    next
      case False
      show ?thesis
      proof (rule SetupPageMap_own_round [OF False less.prems(4,5,1,2,6)])
        show "own_post s R F (SetupPageMap s (Frame f) l addr n True)"
          if "owns s R F" "f \<in> R l" "1 \<le> l" "unshared s f l addr n F" for s R f
          using outer [OF that(1-3) _ _ that(4)] less.prems(4) by (simp add: upper_def)
      next
        fix s R n assume a: "Part addr (Suc l) \<noteq> 511" "owns s R F" "f \<in> R (Suc l)"
          "unshared s f (Suc l) (next_addr (Suc l) addr) n F"
        have nx: "Part (next_addr (Suc l) addr) (Suc l) = Part addr (Suc l) + 1"
          using Part_next_addr a(1) less.prems(4) by simp
        have lt: "511 - Part (next_addr (Suc l) addr) (Suc l) < 511 - Part addr (Suc l)"
          using next_addr_decreases a(1) less.prems(4) by simp
        have "upper (Suc l) (Part (next_addr (Suc l) addr) (Suc l))"
          using less.prems(5) unfolding upper_def nx by (cases "Suc l = 4") auto
        then show "own_post s R F (SetupPageMap s (Frame f) (Suc l) (next_addr (Suc l) addr) n True)"
          using less.hyps [OF lt a(2,3)] less.prems(3,4) a(4) by simp
      qed
    qed
  qed
qed

section \<open>Cleaning up\<close>

text \<open>The entry \<open>(f, i)\<close> is cleared; a frame of the address space that it led to is free again.\<close>

lemma clear_entry:
  assumes own: "owns s R F" and e: "edge s R l (f, i) g"
    and others: "\<And>q j. q < kFrameCount \<Longrightarrow> j < 512 \<Longrightarrow> (q, j) \<noteq> (f, i) \<Longrightarrow> entry_of s' q j = entry_of s q j"
    and clear: "\<not> pme_present (entry_of s' f i)"
  shows "edge s' R k p h \<longleftrightarrow> edge s R k p h \<and> p \<noteq> (f, i)"
proof (cases "p = (f, i)")
  case True
  then show ?thesis using clear by (simp add: edge_def)
next
  case False
  obtain a b where p: "p = (a, b)" by fastforce
  have "entry_of s' a b = entry_of s a b" if "a \<in> R (Suc k)" "b < 512"
    using others owns_lt [OF own that(1)] that(2) False p by blast
  then show ?thesis using False p by (auto simp: edge_def)
qed

lemma pt_inv_clear:
  assumes inv: "pt_inv s R" and mu: "mm_usable (memory_manager s')" and sub: "\<And>k. R' k \<subseteq> R k" "\<And>k. R' k \<subseteq> used_frames s'"
    and ent: "\<And>k q j. q \<in> R' (Suc k) \<Longrightarrow> j < 512 \<Longrightarrow> pme_present (entry_of s' q j) \<Longrightarrow>
      entry_of s' q j = entry_of s q j \<and> (\<forall>h. edge s R k (q, j) h \<longrightarrow> h \<in> R' k)"
  shows "pt_inv s' R'"
  unfolding pt_inv_def
proof (intro conjI allI impI)
  show "R' l \<inter> R' k = {}" if "l \<noteq> k" for l k using that inv sub(1) unfolding pt_inv_def by blast
  fix l q j assume a: "q \<in> R' (Suc l) \<and> j < 512 \<and> upper (Suc l) j \<and> pme_present (entry_of s' q j)"
  then have e: "entry_of s' q j = entry_of s q j" "\<forall>h. edge s R l (q, j) h \<longrightarrow> h \<in> R' l" using ent by blast+
  then obtain h where "edge s R l (q, j) h" using edge_exists [OF inv, of q l j] a sub(1) by auto
  with e show "\<exists>g \<in> R' l. Pointer (entry_of s' q j) = Frame g" by (intro bexI [of _ h]) (auto simp: edge_def)
qed (use mu sub(2) in auto)

lemma owns_drop_shared:
  assumes own: "owns s R F" and e: "edge s R l (f, i) g" "g \<in> F"
    and others: "\<And>q j. q < kFrameCount \<Longrightarrow> j < 512 \<Longrightarrow> (q, j) \<noteq> (f, i) \<Longrightarrow> entry_of s' q j = entry_of s q j"
    and s': "\<not> pme_present (entry_of s' f i)" "memory_manager s' = memory_manager s"
  shows "owns s' R F"
proof -
  have edges: "edge s' R k p h \<longleftrightarrow> edge s R k p h \<and> p \<noteq> (f, i)" for k p h
    by (rule clear_entry [OF own e(1)]) (use others s'(1) in blast)+
  have used: "used_frames s' = used_frames s" using s'(2) by (simp add: used_frames_def)
  have inv: "pt_inv s' R"
  proof (rule pt_inv_clear [OF owns_inv [OF own]])
    show "mm_usable (memory_manager s')" using owns_inv [OF own] s'(2) by (simp add: pt_inv_def)
    show "R k \<subseteq> used_frames s'" for k using owns_used [OF own] used by blast
    show "entry_of s' q j = entry_of s q j \<and> (\<forall>h. edge s R k (q, j) h \<longrightarrow> h \<in> R k)"
      if "q \<in> R (Suc k)" "j < 512" "pme_present (entry_of s' q j)" for k q j
      using others [OF owns_lt [OF own that(1)] that(2)] that(3) s'(1) by (auto simp: edge_def)
  qed simp
  have "\<exists>!p. edge s' R k p h" if k: "k < 4" and h: "h \<in> R k - F" for k h
  proof -
    have "\<not> edge s R k (f, i) h"
    proof
      assume x: "edge s R k (f, i) h"
      then have "Suc k = Suc l" using e(1) owns_inv [OF own] unfolding edge_def pt_inv_def fst_conv by (metis disjoint_iff)
      then show False using edge_target [OF owns_inv [OF own] _ e(1), of h] x h e(2) by simp
    qed
    moreover have "\<exists>!p. edge s R k p h" using own k h unfolding owns_def by blast
    ultimately show ?thesis unfolding edges by metis
  qed
  moreover have "pme_user (entry_of s' q j) \<and> (pme_writable (entry_of s' q j) \<longleftrightarrow> h \<notin> F)"
    if "edge s' R k (q, j) h" for k q j h
  proof -
    have x: "edge s R k (q, j) h" "(q, j) \<noteq> (f, i)" using that unfolding edges by simp_all
    moreover have "entry_of s' q j = entry_of s q j"
      by (rule others) (use x owns_lt [OF own] in \<open>auto simp: edge_def\<close>)
    ultimately show ?thesis using owns_flags [OF own] by simp
  qed
  ultimately show ?thesis using own used inv by (intro ownsI) (auto simp: owns_def)
qed

lemma owns_remove:
  assumes own: "owns s R F" and e: "edge s R l (f, i) g" "g \<notin> F"
    and others: "\<And>q j. q < kFrameCount \<Longrightarrow> j < 512 \<Longrightarrow> (q, j) \<noteq> (f, i) \<Longrightarrow> entry_of s' q j = entry_of s q j"
    and s': "\<not> pme_present (entry_of s' f i)" "used_frames s' = used_frames s - {g}" "mm_usable (memory_manager s')"
    and empty: "\<And>j k. j < 512 \<Longrightarrow> upper l j \<Longrightarrow> l = Suc k \<Longrightarrow> \<not> pme_present (entry_of s g j)"
  shows "owns s' (R(l := R l - {g})) F"
proof -
  let ?R = "R(l := R l - {g})"
  have edges: "edge s' R k p h \<longleftrightarrow> edge s R k p h \<and> p \<noteq> (f, i)" for k p h
    by (rule clear_entry [OF own e(1)]) (use others s'(1) in blast)+
  have gl: "g \<in> R l" using e(1) by (simp add: edge_def)
  have level: "k = l" if "g \<in> R k" for k
    using that gl owns_inv [OF own] unfolding pt_inv_def by (metis disjoint_iff)
  have RR: "?R k = R k - {g}" for k using level by auto
  have out: "a \<noteq> g" if "edge s R k (a, b) h" for k a b h
  proof
    assume "a = g"
    moreover from this have "l = Suc k" using that level by (auto simp: edge_def)
    ultimately show False using that empty by (auto simp: edge_def)
  qed
  have only: "p = (f, i)" if "edge s R k p g" for k p
    using owns_unique [OF own _ e, of p] level [of k] that by (simp add: edge_def)
  have edges': "edge s' ?R k p h \<longleftrightarrow> edge s R k p h \<and> p \<noteq> (f, i)" for k p h
  proof -
    have "edge s' ?R k p h \<longleftrightarrow> edge s' R k p h \<and> fst p \<noteq> g \<and> h \<noteq> g" unfolding edge_def RR by blast
    then show ?thesis unfolding edges using out [of k "fst p" "snd p" h] only [of k p] by auto
  qed
  have inv: "pt_inv s' ?R"
  proof (rule pt_inv_clear [OF owns_inv [OF own] s'(3)])
    show "?R k \<subseteq> R k" for k unfolding RR by blast
    show "?R k \<subseteq> used_frames s'" for k unfolding RR s'(2) using owns_used [OF own] by blast
    show "entry_of s' q j = entry_of s q j \<and> (\<forall>h. edge s R k (q, j) h \<longrightarrow> h \<in> ?R k)"
      if q: "q \<in> ?R (Suc k)" "j < 512" "pme_present (entry_of s' q j)" for k q j
    proof -
      have ne: "(q, j) \<noteq> (f, i)" using q(3) s'(1) by auto
      then have "entry_of s' q j = entry_of s q j" using others owns_lt [OF own, of q "Suc k"] q(1,2) unfolding RR by blast
      moreover have "h \<in> ?R k" if "edge s R k (q, j) h" for h
        using that only ne unfolding RR by (auto simp: edge_def)
      ultimately show ?thesis by blast
    qed
  qed
  have "\<exists>!p. edge s' ?R k p h" if k: "k < 4" and h: "h \<in> ?R k - F" for k h
  proof -
    have h': "h \<in> R k - F" "h \<noteq> g" using h unfolding RR by blast+
    have "\<not> edge s R k (f, i) h"
    proof
      assume x: "edge s R k (f, i) h"
      then have "Suc k = Suc l" using e(1) owns_inv [OF own] unfolding edge_def pt_inv_def fst_conv by (metis disjoint_iff)
      then show False using edge_target [OF owns_inv [OF own] _ e(1), of h] x h' by simp
    qed
    moreover have "\<exists>!p. edge s R k p h" using own k h'(1) unfolding owns_def by blast
    ultimately show ?thesis unfolding edges' by metis
  qed
  moreover have "pme_user (entry_of s' q j) \<and> (pme_writable (entry_of s' q j) \<longleftrightarrow> h \<notin> F)"
    if "edge s' ?R k (q, j) h" for k q j h
  proof -
    have x: "edge s R k (q, j) h" "(q, j) \<noteq> (f, i)" using that unfolding edges' by simp_all
    moreover have "entry_of s' q j = entry_of s q j"
      by (rule others) (use x owns_lt [OF own] in \<open>auto simp: edge_def\<close>)
    ultimately show ?thesis using owns_flags [OF own] by simp
  qed
  moreover have "used_frames s' = F \<union> (\<Union>k. ?R k)" unfolding RR s'(2) using owns_used [OF own] e(2) by blast
  moreover have "\<forall>k>4. ?R k = {}" "\<forall>k>0. ?R k \<inter> F = {}" unfolding RR using own by (auto simp: owns_def)
  ultimately show ?thesis using inv by (intro ownsI) blast+
qed

lemma FreePageMap_frame:
  assumes "g < kFrameCount"
  shows "\<exists>s'. FreePageMap s (Frame g) = Some (s', kSuccess) \<and> pmem s' = pmem s \<and> cr3 s' = cr3 s \<and>
    used_frames s' = used_frames s - {g} \<and> (mm_usable (memory_manager s) \<longrightarrow> mm_usable (memory_manager s'))"
proof -
  have "unat (Frame g div of_nat kBytesPerFrame) = g"
    unfolding unat_div_distrib unat_Frame [OF assms] by (simp add: frame_consts)
  moreover obtain m where "Free (memory_manager s) g 1 = Some (m, kSuccess)"
    "allocated m = allocated (memory_manager s) - {g}" "range_end m = range_end (memory_manager s)"
    using Free_Some [of g 1 "memory_manager s"] assms by auto
  ultimately show ?thesis
    by (intro exI [of _ "s\<lparr>memory_manager := m\<rparr>"]) (simp add: FreePageMap_def used_frames_def mm_usable_def)
qed

text \<open>What is known after the entries of the level \<open>Suc l\<close> table \<open>f\<close> from \<open>i\<close> on were cleaned.\<close>

definition clean_post ::
  "paging_state \<Rightarrow> (nat \<Rightarrow> nat set) \<Rightarrow> nat set \<Rightarrow> nat \<Rightarrow> nat \<Rightarrow> nat \<Rightarrow> paging_state \<Rightarrow> (nat \<Rightarrow> nat set) \<Rightarrow> bool" where
  "clean_post s R F f l i s' R' \<longleftrightarrow> owns s' R' F \<and> cr3 s' = cr3 s \<and> (\<forall>k. R' k \<subseteq> R k) \<and> (\<forall>k>l. R' k = R k) \<and>
     (\<forall>j. i \<le> j \<and> j < 512 \<and> upper (Suc l) j \<longrightarrow> \<not> pme_present (entry_of s' f j)) \<and>
     (\<forall>j. j < i \<and> j < 512 \<longrightarrow> entry_of s' f j = entry_of s f j) \<and>
     (\<forall>q j. q < kFrameCount \<and> j < 512 \<and> q \<noteq> f \<and> (\<forall>k. 1 \<le> k \<and> k \<le> l \<longrightarrow> q \<notin> R k) \<longrightarrow>
        entry_of s' q j = entry_of s q j)"

text \<open>One present entry, after what is below it has been cleaned.\<close>

lemma clean_entry:
  assumes own: "owns s1 R1 F" and e: "edge s1 R1 l (f, i) g"
    and empty: "\<And>j k. j < 512 \<Longrightarrow> upper l j \<Longrightarrow> l = Suc k \<Longrightarrow> \<not> pme_present (entry_of s1 g j)"
  shows "\<exists>s2 R3. (if pme_writable (entry_of s1 f i) then FreePageMap s1 (Frame g) else Some (s1, kSuccess)) = Some (s2, kSuccess) \<and>
    (let s3 = upd_entry (Frame f) i (\<lambda>_. 0) s2
     in owns s3 R3 F \<and> cr3 s3 = cr3 s1 \<and> (\<forall>k. R3 k \<subseteq> R1 k) \<and> (\<forall>k>l. R3 k = R1 k) \<and>
        \<not> pme_present (entry_of s3 f i) \<and>
        (\<forall>q j. q < kFrameCount \<and> j < 512 \<and> (q, j) \<noteq> (f, i) \<longrightarrow> entry_of s3 q j = entry_of s1 q j))"
proof -
  have f: "f < kFrameCount" "i < 512" using e owns_lt [OF own] by (auto simp: edge_def)
  have g: "g < kFrameCount" using e owns_lt [OF own] by (auto simp: edge_def)
  have upd: "entry_of (upd_entry (Frame f) i (\<lambda>_. 0) s2) q j = (if (q, j) = (f, i) then 0 else entry_of s2 q j)"
    if "q < kFrameCount" "j < 512" for s2 q j
    using entry_of_upd [OF f(1) that(1) f(2) that(2)] by simp
  have mu: "mm_usable (memory_manager s1)" using owns_inv [OF own] by (simp add: pt_inv_def)
  show ?thesis
  proof (cases "g \<in> F")
    case True
    let ?s3 = "upd_entry (Frame f) i (\<lambda>_. 0) s1"
    have "owns ?s3 R1 F"
      by (rule owns_drop_shared [OF own e True]) (use upd f in auto)
    moreover have "\<not> pme_writable (entry_of s1 f i)" using owns_flags [OF own e] True by blast
    ultimately show ?thesis using upd f by (intro exI [of _ s1] exI [of _ R1]) (auto simp: Let_def)
  next
    case False
    obtain s2 where s2: "FreePageMap s1 (Frame g) = Some (s2, kSuccess)" "pmem s2 = pmem s1" "cr3 s2 = cr3 s1"
      "used_frames s2 = used_frames s1 - {g}" "mm_usable (memory_manager s2)"
      using FreePageMap_frame [OF g, of s1] mu by blast
    let ?s3 = "upd_entry (Frame f) i (\<lambda>_. 0) s2"
    have "owns ?s3 (R1(l := R1 l - {g})) F"
      by (rule owns_remove [OF own e False]) (use upd f s2 empty in auto)
    moreover have "pme_writable (entry_of s1 f i)" using owns_flags [OF own e] False by blast
    ultimately show ?thesis using upd f s2
      by (intro exI [of _ s2] exI [of _ "R1(l := R1 l - {g})"]) (auto simp: Let_def)
  qed
qed

lemma clean_step:
  assumes own: "owns s R F" and e: "edge s R l (f, i) g"
    and below: "\<exists>s1 R1. (if Suc l > 1 then CleanPageMap_from s (Frame g) l a (Part a l) else Some (s, kSuccess)) = Some (s1, kSuccess) \<and>
      (case l of 0 \<Rightarrow> s1 = s \<and> R1 = R | Suc m \<Rightarrow> clean_post s R F g m 0 s1 R1)"
    and rest: "\<And>s3 R3. owns s3 R3 F \<Longrightarrow> f \<in> R3 (Suc l) \<Longrightarrow>
      \<exists>s' R'. CleanPageMap_from s3 (Frame f) (Suc l) a (Suc i) = Some (s', kSuccess) \<and> clean_post s3 R3 F f l (Suc i) s' R'"
  shows "\<exists>s' R'. CleanPageMap_from s (Frame f) (Suc l) a i = Some (s', kSuccess) \<and> clean_post s R F f l i s' R'"
proof -
  from below obtain s1 R1 where
    s1: "(if Suc l > 1 then CleanPageMap_from s (Frame g) l a (Part a l) else Some (s, kSuccess)) = Some (s1, kSuccess)" and
    post: "case l of 0 \<Rightarrow> s1 = s \<and> R1 = R | Suc m \<Rightarrow> clean_post s R F g m 0 s1 R1" by blast
  have f: "f \<in> R (Suc l)" "i < 512" "f < kFrameCount" "g \<in> R l" using e owns_lt [OF own] by (auto simp: edge_def)
  have level: "k = k'" if "q \<in> R k" "q \<in> R k'" for q k k'
    using that owns_inv [OF own] unfolding pt_inv_def by (metis disjoint_iff)
  have below: "owns s1 R1 F" "cr3 s1 = cr3 s" "\<And>k. R1 k \<subseteq> R k" "\<And>k. l \<le> k \<Longrightarrow> R1 k = R k"
    "\<And>j k. j < 512 \<Longrightarrow> upper l j \<Longrightarrow> l = Suc k \<Longrightarrow> \<not> pme_present (entry_of s1 g j)"
    using post own by (auto simp: clean_post_def split: nat.splits)
  have kept: "entry_of s1 q j = entry_of s q j" if q: "q < kFrameCount" "j < (512 :: nat)" "\<forall>k. 1 \<le> k \<and> k \<le> l \<longrightarrow> q \<notin> R k" for q j
  proof (cases l)
    case 0
    then show ?thesis using post by simp
  next
    case (Suc m)
    then have "q \<noteq> g" using q(3) f(4) by auto
    then show ?thesis using post q Suc by (auto simp: clean_post_def)
  qed
  have notbelow: "\<forall>k. 1 \<le> k \<and> k \<le> l \<longrightarrow> f \<notin> R k" using level f(1) by fastforce
  have same_f: "entry_of s1 f j = entry_of s f j" if "j < 512" for j using kept [OF f(3) that notbelow] .
  have e1: "edge s1 R1 l (f, i) g" using e below(4) same_f [OF f(2)] by (simp add: edge_def)
  have "\<exists>s2 R3. (if pme_writable (entry_of s1 f i) then FreePageMap s1 (Frame g) else Some (s1, kSuccess)) = Some (s2, kSuccess) \<and>
    (let s3 = upd_entry (Frame f) i (\<lambda>_. 0) s2
     in owns s3 R3 F \<and> cr3 s3 = cr3 s1 \<and> (\<forall>k. R3 k \<subseteq> R1 k) \<and> (\<forall>k>l. R3 k = R1 k) \<and>
        \<not> pme_present (entry_of s3 f i) \<and>
        (\<forall>q j. q < kFrameCount \<and> j < 512 \<and> (q, j) \<noteq> (f, i) \<longrightarrow> entry_of s3 q j = entry_of s1 q j))"
    by (rule clean_entry [OF below(1) e1]) (rule below(5))
  then obtain s2 R3 where
    s2: "(if pme_writable (entry_of s1 f i) then FreePageMap s1 (Frame g) else Some (s1, kSuccess)) = Some (s2, kSuccess)" and
    s3: "let s3 = upd_entry (Frame f) i (\<lambda>_. 0) s2
     in owns s3 R3 F \<and> cr3 s3 = cr3 s1 \<and> (\<forall>k. R3 k \<subseteq> R1 k) \<and> (\<forall>k>l. R3 k = R1 k) \<and>
        \<not> pme_present (entry_of s3 f i) \<and>
        (\<forall>q j. q < kFrameCount \<and> j < 512 \<and> (q, j) \<noteq> (f, i) \<longrightarrow> entry_of s3 q j = entry_of s1 q j)" by blast
  define s3 where "s3 = upd_entry (Frame f) i (\<lambda>_. 0) s2"
  note s3 = s3 [unfolded Let_def, folded s3_def]
  have f3: "f \<in> R3 (Suc l)" using s3 below(4) f(1) by simp
  from rest [OF conjunct1 [OF s3] f3] obtain s' R' where
    s': "CleanPageMap_from s3 (Frame f) (Suc l) a (Suc i) = Some (s', kSuccess)" "clean_post s3 R3 F f l (Suc i) s' R'" by blast
  have run: "CleanPageMap_from s (Frame f) (Suc l) a i = Some (s', kSuccess)"
  proof -
    have en: "pme_present (entry_of s f i)" "Pointer (entry_of s f i) = Frame g" using e by (simp_all add: edge_def)
    have wr: "(if pme_writable (entry_of s f i) then FreePageMap s1 (Frame g) else Some (s1, kSuccess)) = Some (s2, kSuccess)"
      using s2 same_f [OF f(2)] by simp
    have ch: "(if Suc l > 1 then CleanPageMap_from s (Frame g) (Suc l - 1) a (Part a (Suc l - 1)) else Some (s, kSuccess)) = Some (s1, kSuccess)"
      using s1 by (cases "l = 0") simp_all
    show ?thesis
      by (subst CleanPageMap_from.simps, simp only: Let_def en ch wr f(2) if_True not_True_eq_False if_False
          option.case prod.case not_False_eq_True simp_thms) (simp add: s'(1) [unfolded s3_def])
  qed
  have "clean_post s R F f l i s' R'"
    unfolding clean_post_def
  proof (intro conjI allI impI)
    show "owns s' R' F" "cr3 s' = cr3 s" using s'(2) s3 below(2) by (simp_all add: clean_post_def)
    show "R' k \<subseteq> R k" for k using s'(2) s3 below(3) unfolding clean_post_def by (meson subset_trans)
    show "R' k = R k" if "l < k" for k using s'(2) s3 below(4) that unfolding clean_post_def by simp
    fix j assume j: "i \<le> j \<and> j < 512 \<and> upper (Suc l) j"
    then show "\<not> pme_present (entry_of s' f j)"
      using s'(2) s3 by (cases "i = j") (auto simp: clean_post_def)
  next
    fix j assume j: "j < i \<and> j < 512"
    then have "entry_of s' f j = entry_of s3 f j" using s'(2) by (simp add: clean_post_def)
    then show "entry_of s' f j = entry_of s f j" using s3 f(3) j same_f by simp
  next
    fix q j :: nat assume q: "q < kFrameCount \<and> j < 512 \<and> q \<noteq> f \<and> (\<forall>k. 1 \<le> k \<and> k \<le> l \<longrightarrow> q \<notin> R k)"
    then have "\<forall>k. 1 \<le> k \<and> k \<le> l \<longrightarrow> q \<notin> R3 k" using s3 below(3) by blast
    then have "entry_of s' q j = entry_of s3 q j" using s'(2) q by (simp add: clean_post_def)
    also have "\<dots> = entry_of s1 q j" using s3 q by simp
    finally show "entry_of s' q j = entry_of s q j" using kept q by simp
  qed
  with run show ?thesis by blast
qed

lemma clean_loop:
  assumes below: "\<And>s R g. owns s R F \<Longrightarrow> g \<in> R l \<Longrightarrow>
      \<exists>s1 R1. (if Suc l > 1 then CleanPageMap_from s (Frame g) l a (Part a l) else Some (s, kSuccess)) = Some (s1, kSuccess) \<and>
        (case l of 0 \<Rightarrow> s1 = s \<and> R1 = R | Suc m \<Rightarrow> clean_post s R F g m 0 s1 R1)"
  shows "owns s R F \<Longrightarrow> f \<in> R (Suc l) \<Longrightarrow> upper (Suc l) i \<Longrightarrow>
    \<exists>s' R'. CleanPageMap_from s (Frame f) (Suc l) a i = Some (s', kSuccess) \<and> clean_post s R F f l i s' R'"
proof (induction "512 - i" arbitrary: s R i rule: less_induct)
  case less
  have up: "upper (Suc l) (Suc i)" using less.prems(3) unfolding upper_def by (meson le_SucI)
  show ?case
  proof (cases "i < 512")
    case False
    then have "CleanPageMap_from s (Frame f) (Suc l) a i = Some (s, kSuccess)" by (simp add: CleanPageMap_from.simps)
    moreover have "clean_post s R F f l i s R" using less.prems(1) False by (auto simp: clean_post_def)
    ultimately show ?thesis by blast
  next
    case i: True
    then have lt: "512 - Suc i < 512 - i" by simp
    show ?thesis
    proof (cases "pme_present (entry_of s f i)")
      case True
      then obtain g where g: "edge s R l (f, i) g"
        using edge_exists [OF owns_inv [OF less.prems(1)] less.prems(2) i less.prems(3)] by blast
      then have gl: "g \<in> R l" by (simp add: edge_def)
      show ?thesis
        by (rule clean_step [OF less.prems(1) g below [OF less.prems(1) gl]]) (rule less.hyps [OF lt _ _ up])
    next
      case False
      from less.hyps [OF lt less.prems(1,2) up] obtain s' R' where
        s': "CleanPageMap_from s (Frame f) (Suc l) a (Suc i) = Some (s', kSuccess)" "clean_post s R F f l (Suc i) s' R'" by blast
      have "CleanPageMap_from s (Frame f) (Suc l) a i = Some (s', kSuccess)"
        using s'(1) False i by (subst CleanPageMap_from.simps) (simp add: Let_def)
      moreover have "\<not> pme_present (entry_of s' f j)" if "i \<le> j" "j < 512" "upper (Suc l) j" for j
        using s'(2) that False i by (cases "i = j") (auto simp: clean_post_def)
      then have "clean_post s R F f l i s' R'" using s'(2) by (simp add: clean_post_def)
      ultimately show ?thesis by blast
    qed
  qed
qed

lemma CleanPageMap_owned:
  "owns s R F \<Longrightarrow> f \<in> R (Suc l) \<Longrightarrow> (\<forall>k. 1 \<le> k \<and> k \<le> l \<longrightarrow> Part a k = 0) \<Longrightarrow> upper (Suc l) i \<Longrightarrow>
     \<exists>s' R'. CleanPageMap_from s (Frame f) (Suc l) a i = Some (s', kSuccess) \<and> clean_post s R F f l i s' R'"
proof (induction l arbitrary: s R f i)
  case 0
  show ?case by (rule clean_loop) (use 0 in auto)
next
  case (Suc l)
  show ?case
  proof (rule clean_loop [OF _ Suc.prems(1,2,4)])
    fix s R g assume a: "owns s R F" "g \<in> R (Suc l)"
    have "Part a (Suc l) = 0" using Suc.prems(3) by simp
    moreover have "upper (Suc l) 0" using owns_top [OF Suc.prems(1,2)] by (simp add: upper_def)
    ultimately show "\<exists>s1 R1. (if Suc (Suc l) > 1 then CleanPageMap_from s (Frame g) (Suc l) a (Part a (Suc l)) else Some (s, kSuccess)) =
        Some (s1, kSuccess) \<and> (case Suc l of 0 \<Rightarrow> s1 = s \<and> R1 = R | Suc m \<Rightarrow> clean_post s R F g m 0 s1 R1)"
      using Suc.IH [OF a, of 0] Suc.prems(3) by simp
  qed
qed

text \<open>At the top: every frame of the address space but the top table is free again.\<close>

lemma CleanPageMaps_owned:
  assumes own: "owns s R F" and root: "R 4 = {root}" "cr3 s = Frame root"
  shows "\<exists>s'. CleanPageMaps s 0xffff800000000000 = Some (s', kSuccess) \<and> used_frames s' = insert root F \<and>
    cr3 s' = cr3 s \<and> mm_usable (memory_manager s') \<and> (\<forall>q j. q \<in> F \<and> j < 512 \<longrightarrow> entry_of s' q j = entry_of s q j)"
proof -
  let ?a = "0xffff800000000000 :: u64"
  have parts: "Part ?a 4 = 256" "Part ?a 3 = 0" "Part ?a 2 = 0" "Part ?a 1 = 0"
    by (simp_all add: Part_def unat_get_bits part_numerals take_bit_eq_mod)
  have r4: "root \<in> R (Suc 3)" using root(1) by simp
  have low: "\<forall>k. 1 \<le> k \<and> k \<le> 3 \<longrightarrow> Part ?a k = 0"
  proof (intro allI impI)
    fix k :: nat assume "1 \<le> k \<and> k \<le> 3"
    then have "k = 1 \<or> k = 2 \<or> k = 3" by linarith
    then show "Part ?a k = 0" using parts by auto
  qed
  have "upper (Suc 3) 256" by (simp add: upper_def)
  from CleanPageMap_owned [OF own r4 low this] obtain s' R' where
    s': "CleanPageMap_from s (Frame root) (Suc 3) ?a 256 = Some (s', kSuccess)" "clean_post s R F root 3 256 s' R'" by blast
  have own': "owns s' R' F" using s'(2) by (simp add: clean_post_def)
  have top: "R' 4 = {root}" using s'(2) root(1) by (simp add: clean_post_def)
  have none: "R' l - F = {}" if "\<forall>p g. \<not> edge s' R' l p g" "l < 4" for l
    using that own' unfolding owns_def by blast
  have "\<not> edge s' R' 3 p g" for p g
  proof
    assume "edge s' R' 3 p g"
    then have "fst p = root" "snd p < 512" "upper (Suc 3) (snd p)" "pme_present (entry_of s' (fst p) (snd p))"
      using top by (auto simp: edge_def)
    then show False using s'(2) by (auto simp: clean_post_def upper_def)
  qed
  moreover have apart: "R' l \<inter> F = {}" if "0 < l" for l using own' that by (simp add: owns_def)
  ultimately have "R' 3 - F = {}" using none [of 3] by simp
  then have "R' 3 = {}" using apart [of 3] by auto
  then have "R' 2 = {}" using none [of 2] apart [of 2] by (simp add: edge_def) blast
  then have "R' 1 = {}" using none [of 1] apart [of 1] by (simp add: edge_def numeral_2_eq_2) blast
  then have r0: "R' 0 - F = {}" using none [of 0] by (auto simp: edge_def)
  have "R' l \<subseteq> insert root F" for l
  proof -
    have "l = 0 \<or> l = 1 \<or> l = 2 \<or> l = 3 \<or> l = 4 \<or> 4 < l" by linarith
    then show ?thesis using r0 top \<open>R' 1 = {}\<close> \<open>R' 2 = {}\<close> \<open>R' 3 = {}\<close> own' by (auto simp: owns_def)
  qed
  then have "used_frames s' = insert root F" using owns_used [OF own'] top by auto
  moreover have "entry_of s' q j = entry_of s q j" if "q \<in> F" "j < 512" for q j
  proof -
    have "q \<notin> R k" if "1 \<le> k" for k using owns_tables [OF own, of q "k - 1"] that \<open>q \<in> F\<close> by (cases k) auto
    then have "\<forall>k. 1 \<le> k \<and> k \<le> 3 \<longrightarrow> q \<notin> R k" by blast
    moreover have "q < kFrameCount" using owns_used [OF own] that(1) used_less by blast
    moreover have "q \<noteq> root" using owns_tables [OF own r4] that(1) by blast
    ultimately show ?thesis using s'(2) that(2) by (simp add: clean_post_def)
  qed
  moreover have "CleanPageMaps s ?a = Some (s', kSuccess)"
    using s'(1) root(2) parts(1) by (simp add: CleanPageMaps_def CleanPageMap_def)
  ultimately show ?thesis using s'(2) owns_inv [OF own'] by (auto simp: clean_post_def pt_inv_def)
qed

section \<open>Copying a page on a write\<close>

lemma CopyOnePage_owned:
  assumes own: "owns s R F" and root: "root \<in> R 4" "cr3 s = Frame root" "256 \<le> Part a 4"
    and w: "walk (pmem s) (cr3 s) 4 a = Some (Frame old)" "old \<in> F" and mmu: "mmu_walks xlat"
  shows "\<exists>s' e R'. CopyOnePage xlat s a = Some (s', e) \<and> owns s' R' F \<and> cr3 s' = cr3 s \<and> R' 4 = R 4 \<and> R 0 \<subseteq> R' 0 \<and>
    (\<forall>q j. q \<in> F \<and> j < 512 \<longrightarrow> entry_of s' q j = entry_of s q j)"
proof -
  note inv = owns_inv [OF own]
  have up: "upper 4 (Part a 4)" using root(3) by (simp add: upper_def)
  have w0: "walk (pmem s) (Frame root) 4 a = Some (Frame old)" using w(1) root(2) by simp
  have Fu: "q \<in> used_frames s" if "q \<in> F" for q using that owns_used [OF own] by blast
  obtain o' where "o' \<in> R 0" "Frame old = Frame o'" using walk_level0 [OF inv root(1) up _ w0] by auto
  then have old: "old \<in> R 0" using Frame_inj [of old o'] used_less [OF Fu [OF w(2)]] owns_lt [OF own] by blast
  consider "NewPageMap s = Some (s, Inl kNoEnoughMemory)" | s1 p where "NewPageMap s = Some (s1, Inr p)"
    using NewPageMap_total [of s] inv by (auto simp: pt_inv_def)
  then show ?thesis
  proof cases
    case 1
    then show ?thesis using own by (intro exI [of _ s] exI [of _ kNoEnoughMemory] exI [of _ R]) (simp add: CopyOnePage_def)
  next
    case 2
    define sc where "sc = copied s1 p old"
    from copied_page [OF inv 2 old, folded sc_def] obtain g where g: "p = Frame g" "g < kFrameCount" "g \<notin> used_frames s"
      "grows s R s1 R" "pt_inv sc R" "grows s R sc R" "used_frames sc = insert g (used_frames s)"
      "\<forall>h i. h \<in> used_frames s \<and> i < 512 \<longrightarrow> entry_of sc h i = entry_of s h i" by auto
    have cr: "cr3 s1 = Frame root" "cr3 sc = Frame root" using g(4,6) root(2) by (simp_all add: grows_def)
    have wc: "walk (pmem sc) (Frame root) (Suc 3) a = Some (Frame old)"
      using walk_grows [OF g(6) inv root(1) up _ w0] by simp
    have r3: "root \<in> R (Suc 3)" "upper (Suc 3) (Part a (Suc 3))" using root(1) up by simp_all
    from SetPageContent_cases [OF g(5) r3 _ wc, of "Frame g"] obtain t where t: "t \<in> R 1"
      "SetPageContent sc (Frame root) (Suc 3) a (Frame g) =
         Some (upd_entry (Frame t) (Part a 1) (\<lambda>e. set_writable True (SetPointer (Frame g) e)) sc, kSuccess)"
      "pme_present (entry_of sc t (Part a 1))" "pme_user (entry_of sc t (Part a 1))"
      "walk (pmem sc) (Frame root) (Suc 3) a = walk (pmem sc) (Frame t) 1 a" by auto
    let ?i = "Part a 1"
    let ?s' = "upd_entry (Frame t) ?i (\<lambda>e. set_writable True (SetPointer (Frame g) e)) sc"
    have i: "?i < 512" "upper 1 ?i" by (simp_all add: Part_less upper_def)
    have tu: "t \<in> used_frames s" by (rule pt_inv_used [OF inv t(1)])
    have "Pointer (entry_of sc t ?i) = Frame old" using t(3-5) wc by (simp add: Let_def)
    then have e: "edge s R 0 (t, ?i) old" using t(1,3) i old g(8) tu by (simp add: edge_def)
    define s0 where "s0 = upd_entry (Frame t) ?i (\<lambda>_. 0) s"
    have e0: "entry_of s0 q j = (if (q, j) = (t, ?i) then 0 else entry_of s q j)" if "q < kFrameCount" "j < 512" for q j
      using entry_of_upd [OF used_less [OF tu] that(1) i(1) that(2)] by (auto simp: s0_def)
    have own0: "owns s0 R F"
      by (rule owns_drop_shared [OF own e w(2)]) (use e0 used_less [OF tu] i in \<open>auto simp: s0_def\<close>)
    have e': "entry_of ?s' q j = (if (q, j) = (t, ?i) then set_writable True (SetPointer (Frame g) (entry_of s q j)) else entry_of s q j)"
      if "q \<in> used_frames s" "j < 512" for q j
      using entry_of_upd [OF used_less [OF tu] used_less [OF that(1)] i(1) that(2)] g(8) that by auto
    have "t \<in> R (Suc 0)" "upper (Suc 0) ?i" using t(1) i(2) by simp_all
    then have "owns ?s' (R(0 := insert g (R 0))) F \<and> fresh_edges s0 R ?s' (R(0 := insert g (R 0)))"
      using i(1) e0 e' used_less tu g t(3,4) page_ok_Frame [OF g(2)]
      by (intro owns_new_entry [OF own0, where f = t and i = ?i]) (auto simp: s0_def pt_inv_def)
    moreover have "CopyOnePage xlat s a = Some (?s', kSuccess)"
    proof -
      have "walk (pmem s1) (Frame root) 4 a = Some (Frame old)" using walk_grows [OF g(4) inv root(1) up _ w0] by simp
      then have "xlat (pmem s1) (cr3 s1) (a AND 0xfffffffffffff000) = Some (Frame old)"
        using mmu cr(1) unfolding mmu_walks_def by simp
      then show ?thesis using 2 t(2) cr g(1) by (simp add: CopyOnePage_def sc_def copied_def)
    qed
    moreover have "entry_of ?s' q j = entry_of s q j" if "q \<in> F" "j < 512" for q j
    proof -
      have "q \<noteq> t" using owns_tables [OF own, of t 0] t(1) that(1) by auto
      then show ?thesis using e' [OF Fu [OF that(1)] that(2)] by simp
    qed
    ultimately show ?thesis using cr root(2)
      by (intro exI [of _ ?s'] exI [of _ kSuccess] exI [of _ "R(0 := insert g (R 0))"]) auto
  qed
qed

section \<open>Sharing an image\<close>

text \<open>Entries of level 1 tables that come to lead to frames of the others, read only.\<close>

lemma owns_more_shared:
  assumes own: "owns s R F" and same: "used_frames s' = used_frames s" "memory_manager s' = memory_manager s"
    and ent: "\<And>q j. q \<in> used_frames s \<Longrightarrow> j < 512 \<Longrightarrow> entry_of s' q j = entry_of s q j \<or>
      (q \<in> R 1 \<and> \<not> pme_present (entry_of s q j) \<and> pme_user (entry_of s' q j) \<and> \<not> pme_writable (entry_of s' q j) \<and>
       (\<exists>g \<in> R 0 \<inter> F. Pointer (entry_of s' q j) = Frame g))"
  shows "owns s' R F"
proof -
  note inv = owns_inv [OF own]
  have ru: "q \<in> used_frames s" if "q \<in> R k" for q k using that pt_inv_used [OF inv] by blast
  have level1: "k = 0" if "q \<in> R (Suc k)" "q \<in> R 1" for q k
    using that inv unfolding pt_inv_def by (metis One_nat_def disjoint_iff nat.inject)
  have inv': "pt_inv s' R"
    unfolding pt_inv_def
  proof (intro conjI allI impI)
    fix k q j assume a: "q \<in> R (Suc k) \<and> j < 512 \<and> upper (Suc k) j \<and> pme_present (entry_of s' q j)"
    then consider "entry_of s' q j = entry_of s q j" | "q \<in> R 1" "\<exists>g \<in> R 0 \<inter> F. Pointer (entry_of s' q j) = Frame g"
      using ent [OF ru, of q "Suc k" j] by blast
    then show "\<exists>c \<in> R k. Pointer (entry_of s' q j) = Frame c"
    proof cases
      case 1
      then show ?thesis using a inv unfolding pt_inv_def by auto
    next
      case 2
      then show ?thesis using level1 a by blast
    qed
  qed (use inv same in \<open>auto simp: pt_inv_def\<close>)
  have edge_iff: "edge s' R k p g \<longleftrightarrow> edge s R k p g" if "g \<notin> F" for k p g
  proof (cases "fst p \<in> R (Suc k) \<and> snd p < 512")
    case True
    then consider "entry_of s' (fst p) (snd p) = entry_of s (fst p) (snd p)" |
      h where "\<not> pme_present (entry_of s (fst p) (snd p))" "h \<in> R 0 \<inter> F" "Pointer (entry_of s' (fst p) (snd p)) = Frame h"
      using ent [OF ru, of "fst p" "Suc k" "snd p"] by blast
    then show ?thesis
    proof cases
      case 2
      have "\<not> edge s' R k p g"
      proof
        assume "edge s' R k p g"
        then have "Frame h = Frame g" "g \<in> R k" using 2(3) by (simp_all add: edge_def)
        then have "h = g" using Frame_inj owns_lt [OF own] 2(2) by blast
        then show False using 2(2) that by blast
      qed
      then show ?thesis using 2(1) by (simp add: edge_def)
    qed (simp add: edge_def)
  qed (auto simp: edge_def)
  have flags: "pme_user (entry_of s' q j) \<and> (pme_writable (entry_of s' q j) \<longleftrightarrow> g \<notin> F)" if e: "edge s' R k (q, j) g" for k q j g
  proof -
    have q: "q \<in> used_frames s" "j < 512" using e ru by (auto simp: edge_def)
    consider "entry_of s' q j = entry_of s q j" |
      h where "pme_user (entry_of s' q j)" "\<not> pme_writable (entry_of s' q j)" "h \<in> R 0 \<inter> F" "Pointer (entry_of s' q j) = Frame h"
      using ent [OF q] by blast
    then show ?thesis
    proof cases
      case 1
      then have "edge s R k (q, j) g" using e by (simp add: edge_def)
      then show ?thesis using owns_flags [OF own] 1 by simp
    next
      case 2
      then have "Frame h = Frame g" "g \<in> R k" using e by (simp_all add: edge_def)
      then have "h = g" using Frame_inj owns_lt [OF own] 2(3) by blast
      then show ?thesis using 2 by blast
    qed
  qed
  have "\<exists>!p. edge s' R k p g" if "k < 4" "g \<in> R k - F" for k g
    using edge_iff that own unfolding owns_def by auto
  then show ?thesis using own inv' flags same(1) by (intro ownsI) (auto simp: owns_def)
qed

lemma get_copy_leaf_entries:
  assumes "d < kFrameCount" "c < kFrameCount" "d \<noteq> c"
  shows "q < kFrameCount \<Longrightarrow> j < 512 \<Longrightarrow>
    get_entry (copy_leaf_entries (Frame d) (Frame c) i m) (Frame q) j =
      (if q = d \<and> i \<le> j \<and> pme_present (get_entry m (Frame c) j) then set_writable False (get_entry m (Frame c) j)
       else get_entry m (Frame q) j)"
proof (induction "512 - i" arbitrary: i m rule: less_induct)
  case less
  let ?e = "get_entry m (Frame c) i"
  let ?m = "if pme_present ?e then put_entry (Frame d) i (set_writable False ?e) m else m"
  show ?case
  proof (cases "i < 512")
    case False
    then show ?thesis using less.prems by (simp add: copy_leaf_entries.simps)
  next
    case True
    have m: "get_entry ?m (Frame h) k = (if pme_present ?e \<and> h = d \<and> k = i then set_writable False ?e else get_entry m (Frame h) k)"
      if "h < kFrameCount" "k < 512" for h k
      using get_put_entry [OF assms(1) that(1) True that(2)] by auto
    have "get_entry (copy_leaf_entries (Frame d) (Frame c) i m) (Frame q) j =
        get_entry (copy_leaf_entries (Frame d) (Frame c) (Suc i) ?m) (Frame q) j"
      using True by (subst copy_leaf_entries.simps) (simp add: Let_def)
    also have "\<dots> = (if q = d \<and> Suc i \<le> j \<and> pme_present (get_entry ?m (Frame c) j) then set_writable False (get_entry ?m (Frame c) j)
       else get_entry ?m (Frame q) j)" using less.hyps [of "Suc i" ?m] True less.prems by simp
    finally show ?thesis unfolding m [OF assms(2) less.prems(2)] m [OF less.prems] using assms(3)
      by (cases "j = i") (auto simp: not_less_eq_eq)
  qed
qed

text \<open>
  A tree of page tables of the others, ready for copying: every entry is for users, and those above
  the lowest level are writable, as \<open>SetupPageMap\<close> makes them.
\<close>

definition image_ok :: "paging_state \<Rightarrow> (nat \<Rightarrow> nat set) \<Rightarrow> nat set \<Rightarrow> bool" where
  "image_ok s S F \<longleftrightarrow> (\<forall>l. S l \<subseteq> F) \<and>
     (\<forall>l f i. f \<in> S (Suc l) \<and> i < 512 \<and> upper (Suc l) i \<and> pme_present (entry_of s f i) \<longrightarrow>
        pme_user (entry_of s f i) \<and> (0 < l \<longrightarrow> pme_writable (entry_of s f i)) \<and>
        (\<exists>g \<in> S l. Pointer (entry_of s f i) = Frame g))"

lemma image_ok_kept:
  assumes "image_ok s S F" "\<And>q j. q \<in> F \<Longrightarrow> j < 512 \<Longrightarrow> entry_of s' q j = entry_of s q j"
  shows "image_ok s' S F"
proof -
  have "f \<in> F" if "f \<in> S l" for f l using assms(1) that by (auto simp: image_ok_def)
  then show ?thesis using assms unfolding image_ok_def by auto
qed

text \<open>The copy of \<open>c\<close> in \<open>d\<close> from index \<open>i\<close> on: nothing else changes, and the copy leads nowhere but where the image does.\<close>

definition copy_post ::
  "paging_state \<Rightarrow> (nat \<Rightarrow> nat set) \<Rightarrow> nat set \<Rightarrow> nat \<Rightarrow> nat \<Rightarrow> nat \<Rightarrow> nat \<Rightarrow> (paging_state \<times> ErrorCode) option \<Rightarrow> bool" where
  "copy_post s R F d c part i res \<longleftrightarrow> (\<exists>s' e R'. res = Some (s', e) \<and> owns s' R' F \<and> cr3 s' = cr3 s \<and>
     (\<forall>k. R k \<subseteq> R' k) \<and> (\<forall>k\<ge>part. R' k = R k) \<and> used_frames s \<subseteq> used_frames s' \<and>
     (\<forall>q j. q \<in> used_frames s \<and> j < 512 \<and> (q \<noteq> d \<or> j < i) \<longrightarrow> entry_of s' q j = entry_of s q j) \<and>
     (\<forall>b q. i \<le> Part b part \<and> walk (pmem s') (Frame d) part b = Some q \<longrightarrow> walk (pmem s) (Frame c) part b = Some q))"

lemma copy_postI:
  "res = Some (s', e) \<Longrightarrow> owns s' R' F \<Longrightarrow> cr3 s' = cr3 s \<Longrightarrow> (\<And>k. R k \<subseteq> R' k) \<Longrightarrow> (\<And>k. part \<le> k \<Longrightarrow> R' k = R k) \<Longrightarrow>
   used_frames s \<subseteq> used_frames s' \<Longrightarrow>
   (\<And>q j. q \<in> used_frames s \<Longrightarrow> j < 512 \<Longrightarrow> q \<noteq> d \<or> j < i \<Longrightarrow> entry_of s' q j = entry_of s q j) \<Longrightarrow>
   (\<And>b q. i \<le> Part b part \<Longrightarrow> walk (pmem s') (Frame d) part b = Some q \<Longrightarrow> walk (pmem s) (Frame c) part b = Some q) \<Longrightarrow>
   copy_post s R F d c part i res"
  unfolding copy_post_def by blast

lemma walk_absent: "\<not> pme_present (entry_of s f (Part b (Suc l))) \<Longrightarrow> walk (pmem s) (Frame f) (Suc l) b = None"
  by (simp add: Let_def)

lemma walk_present:
  "walk (pmem s) (Frame f) (Suc l) b = Some q \<Longrightarrow>
     pme_present (entry_of s f (Part b (Suc l))) \<and> pme_user (entry_of s f (Part b (Suc l))) \<and>
     walk (pmem s) (Pointer (entry_of s f (Part b (Suc l)))) l b = Some q"
  by (auto simp: Let_def split: if_splits)

lemma image_walk:
  assumes img: "image_ok s S F" and same: "\<And>q j. q \<in> F \<Longrightarrow> j < 512 \<Longrightarrow> entry_of s' q j = entry_of s q j"
  shows "f \<in> S l \<Longrightarrow> upper l (Part b l) \<Longrightarrow> l \<le> 4 \<Longrightarrow> walk (pmem s') (Frame f) l b = walk (pmem s) (Frame f) l b"
proof (induction l arbitrary: f)
  case (Suc l)
  let ?i = "Part b (Suc l)"
  have f: "f \<in> F" "?i < 512" using Suc.prems(1) img by (auto simp: image_ok_def Part_less)
  note e = same [OF f]
  show ?case
  proof (cases "pme_present (entry_of s f ?i)")
    case True
    then obtain g where g: "g \<in> S l" "Pointer (entry_of s f ?i) = Frame g"
      using img Suc.prems(1,2) f(2) unfolding image_ok_def by blast
    have "upper l (Part b l)" using Suc.prems(3) by (simp add: upper_def)
    then show ?thesis using Suc.IH [OF g(1)] Suc.prems(3) g(2) e by (simp add: Let_def)
  qed (simp add: e Let_def)
qed simp

lemma walk_tables_same:
  assumes inv: "pt_inv s R"
  shows "f \<in> R l \<Longrightarrow> upper l (Part b l) \<Longrightarrow> l \<le> 4 \<Longrightarrow>
    (\<And>k q j. 1 \<le> k \<Longrightarrow> k \<le> l \<Longrightarrow> q \<in> R k \<Longrightarrow> j < 512 \<Longrightarrow> entry_of s' q j = entry_of s q j) \<Longrightarrow>
    walk (pmem s') (Frame f) l b = walk (pmem s) (Frame f) l b"
proof (induction l arbitrary: f)
  case (Suc l)
  let ?i = "Part b (Suc l)"
  have i: "?i < 512" by (simp add: Part_less)
  have e: "entry_of s' f ?i = entry_of s f ?i" by (rule Suc.prems(4) [of "Suc l"]) (use Suc.prems(1) i in simp_all)
  show ?case
  proof (cases "pme_present (entry_of s f ?i)")
    case True
    then obtain g where g: "g \<in> R l" "Pointer (entry_of s f ?i) = Frame g"
      using inv Suc.prems(1,2) i unfolding pt_inv_def by blast
    have "upper l (Part b l)" using Suc.prems(3) by (simp add: upper_def)
    then have "walk (pmem s') (Frame g) l b = walk (pmem s) (Frame g) l b"
      using Suc.IH [OF g(1)] Suc.prems(3,4) by simp
    then show ?thesis using g(2) e by (simp add: Let_def)
  qed (simp add: e Let_def)
qed simp

lemma copy_leaf_owned:
  assumes own: "owns s R F" and d: "d \<in> R 1" "\<And>j. i \<le> j \<Longrightarrow> j < 512 \<Longrightarrow> \<not> pme_present (entry_of s d j)"
    and img: "image_ok s S F" "c \<in> S 1" and sh: "F \<subseteq> R 0"
  shows "copy_post s R F d c 1 i (CopyPageMaps s (Frame d) (Frame c) 1 i)"
proof -
  let ?s' = "s\<lparr>pmem := copy_leaf_entries (Frame d) (Frame c) i (pmem s)\<rparr>"
  have c: "c \<in> F" using img by (auto simp: image_ok_def)
  have dF: "d \<notin> F" using owns_tables [OF own, of d 0] d(1) by simp
  have lt: "d < kFrameCount" "c < kFrameCount" using owns_lt [OF own] d(1) sh c by blast+
  have used: "used_frames ?s' = used_frames s" by (simp add: used_frames_def)
  have ent: "entry_of ?s' q j = (if q = d \<and> i \<le> j \<and> pme_present (entry_of s c j) then set_writable False (entry_of s c j) else entry_of s q j)"
    if "q < kFrameCount" "j < 512" for q j
  proof -
    have "d \<noteq> c" using c dF by blast
    from get_copy_leaf_entries [OF lt this that] show ?thesis by simp
  qed
  have leaf: "pme_user (entry_of s c j) \<and> (\<exists>g \<in> R 0 \<inter> F. Pointer (entry_of s c j) = Frame g)" if "j < 512" "pme_present (entry_of s c j)" for j
  proof -
    have "c \<in> S (Suc 0)" "upper (Suc 0) j" using img(2) by (simp_all add: upper_def)
    then have "pme_user (entry_of s c j) \<and> (\<exists>g \<in> S 0. Pointer (entry_of s c j) = Frame g)" "S 0 \<subseteq> F"
      using img(1) that unfolding image_ok_def by auto
    then show ?thesis using sh by blast
  qed
  have "owns ?s' R F"
  proof (rule owns_more_shared [OF own used])
    fix q j assume "q \<in> used_frames s" "j < (512 :: nat)"
    then show "entry_of ?s' q j = entry_of s q j \<or>
      (q \<in> R 1 \<and> \<not> pme_present (entry_of s q j) \<and> pme_user (entry_of ?s' q j) \<and> \<not> pme_writable (entry_of ?s' q j) \<and>
       (\<exists>g \<in> R 0 \<inter> F. Pointer (entry_of ?s' q j) = Frame g))"
      using ent [OF used_less] d leaf sh by auto
  qed simp
  moreover have "CopyPageMaps s (Frame d) (Frame c) 1 i = Some (?s', kSuccess)" by (simp add: CopyPageMaps.simps)
  moreover have "entry_of ?s' q j = entry_of s q j" if "q \<in> used_frames s" "j < 512" "q \<noteq> d \<or> j < i" for q j
    using ent [OF used_less [OF that(1)] that(2)] that(3) by auto
  moreover have "walk (pmem s) (Frame c) 1 b = Some q" if "i \<le> Part b 1" "walk (pmem ?s') (Frame d) 1 b = Some q" for b q
  proof -
    have j: "Part b 1 < 512" by (simp add: Part_less)
    have w: "pme_present (entry_of ?s' d (Part b 1))" "pme_user (entry_of ?s' d (Part b 1))" "Pointer (entry_of ?s' d (Part b 1)) = q"
      using walk_present [of ?s' d 0 b q] that(2) by simp_all
    then have "pme_present (entry_of s c (Part b 1)) \<and> entry_of ?s' d (Part b 1) = set_writable False (entry_of s c (Part b 1))"
      using ent [OF lt(1) j] d(2) [OF that(1) j] that(1) by (auto split: if_splits)
    then show ?thesis using w by (simp add: Let_def)
  qed
  ultimately show ?thesis by (intro copy_postI [where s' = ?s' and e = kSuccess and R' = R]) (auto simp: used)
qed

text \<open>One present entry of the image at level \<open>Suc l\<close>: a new table below, filled by \<open>child\<close>, then the rest.\<close>

lemma copy_entry:
  assumes own: "owns s R F" and d: "d \<in> R (Suc l)" "\<And>j. i \<le> j \<Longrightarrow> j < 512 \<Longrightarrow> \<not> pme_present (entry_of s d j)"
    and img: "image_ok s S F" "c \<in> S (Suc l)" and sh: "F \<subseteq> R 0"
    and l: "1 \<le> l" and i: "i < 512" "upper (Suc l) i" "pme_present (entry_of s c i)"
    and child: "\<And>s R d c. owns s R F \<Longrightarrow> d \<in> R l \<Longrightarrow> (\<And>j. j < 512 \<Longrightarrow> \<not> pme_present (entry_of s d j)) \<Longrightarrow> image_ok s S F \<Longrightarrow>
      c \<in> S l \<Longrightarrow> F \<subseteq> R 0 \<Longrightarrow> copy_post s R F d c l 0 (CopyPageMaps s (Frame d) (Frame c) l 0)"
    and rest: "\<And>s R. owns s R F \<Longrightarrow> d \<in> R (Suc l) \<Longrightarrow> (\<And>j. Suc i \<le> j \<Longrightarrow> j < 512 \<Longrightarrow> \<not> pme_present (entry_of s d j)) \<Longrightarrow>
      image_ok s S F \<Longrightarrow> F \<subseteq> R 0 \<Longrightarrow> copy_post s R F d c (Suc l) (Suc i) (CopyPageMaps s (Frame d) (Frame c) (Suc l) (Suc i))"
  shows "copy_post s R F d c (Suc l) i (CopyPageMaps s (Frame d) (Frame c) (Suc l) i)"
proof -
  have cF: "c \<in> F" using img by (auto simp: image_ok_def)
  have dF: "d \<notin> F" by (rule owns_tables [OF own d(1)])
  have Fu: "F \<subseteq> used_frames s" using owns_used [OF own] by blast
  have du: "d \<in> used_frames s" by (rule pt_inv_used [OF owns_inv [OF own] d(1)])
  have src: "pme_user (entry_of s c i)" "pme_writable (entry_of s c i)" "\<exists>g \<in> S l. Pointer (entry_of s c i) = Frame g"
    using img i l unfolding image_ok_def by auto
  consider "NewPageMap s = Some (s, Inl kNoEnoughMemory)" | s1 p where "NewPageMap s = Some (s1, Inr p)"
    using NewPageMap_total [of s] owns_inv [OF own] by (auto simp: pt_inv_def)
  then show ?thesis
  proof cases
    case 1
    then have "CopyPageMaps s (Frame d) (Frame c) (Suc l) i = Some (s, kNoEnoughMemory)"
      using i l by (subst CopyPageMaps.simps) (simp add: Let_def)
    moreover have "walk (pmem s) (Frame d) (Suc l) b \<noteq> Some q" if "i \<le> Part b (Suc l)" for b q
      using walk_absent [of s d b l] d(2) [OF that] Part_less [of "Suc l" b] by simp
    ultimately show ?thesis by (intro copy_postI [where s' = s and R' = R]) (use own in simp_all)
  next
    case 2
    obtain g0 where g0: "p = Frame g0" "g0 < kFrameCount"
      "\<forall>q j. q \<in> used_frames s \<and> j < 512 \<longrightarrow> entry_of s1 q j = entry_of s q j"
      using NewPageMap_fresh [OF owns_inv [OF own] 2] by blast
    have e1: "entry_of s1 c i = entry_of s c i" using g0(3) cF Fu i(1) by blast
    let ?h = "\<lambda>_. SetPointer p (entry_of s1 c i)"
    have h: "Pointer (?h e) = p" for e using page_ok_Frame g0 by simp
    from owns_new_child [OF own d(1) i(1,2) d(2) 2, of ?h] obtain g R2 where
      g: "p = Frame g" "g \<notin> used_frames s" and R2: "R2 = R(l := insert g (R l))" and
      s2: "let s' = upd_entry (Frame d) i ?h s1
       in owns s' R2 F \<and> grows s R s' R2 \<and> (\<forall>j<512. entry_of s' g j = 0) \<and> entry_of s' d i = SetPointer p (entry_of s1 c i) \<and>
        (\<forall>q j. q \<in> used_frames s \<and> j < 512 \<and> (q, j) \<noteq> (d, i) \<longrightarrow> entry_of s' q j = entry_of s q j)"
      using h e1 i(1,3) src by (auto simp: Let_def)
    define s2 where "s2 = upd_entry (Frame d) i ?h s1"
    note s2 = s2 [unfolded Let_def, folded s2_def]
    have s2_eq: "s2 = s1\<lparr>pmem := put_entry (Frame d) i (SetPointer p (entry_of s1 c i)) (pmem s1)\<rparr>"
      by (simp add: s2_def upd_entry_def)
    have e2: "entry_of s2 q j = entry_of s q j" if "q \<in> used_frames s" "j < 512" "(q, j) \<noteq> (d, i)" for q j
      using s2 that by blast
    have F2: "entry_of s2 q j = entry_of s q j" if "q \<in> F" "j < 512" for q j
      by (rule e2) (use that Fu dF in auto)
    obtain g' where g': "g' \<in> S l" "Pointer (entry_of s c i) = Frame g'" using src(3) by auto
    have p2: "Pointer (entry_of s2 c i) = Frame g'" using F2 [OF cF i(1)] g'(2) by simp
    have img2: "image_ok s2 S F" by (rule image_ok_kept [OF img(1) F2])
    have sub2: "R k \<subseteq> R2 k" for k by (auto simp: R2)
    have "copy_post s2 R2 F g g' l 0 (CopyPageMaps s2 (Frame g) (Frame g') l 0)"
      using s2 g' img2 sub2 [of 0] sh by (intro child) (auto simp: R2)
    then obtain s3 e R3 where s3: "CopyPageMaps s2 (Frame g) (Frame g') l 0 = Some (s3, e)" "owns s3 R3 F" "cr3 s3 = cr3 s2"
      "\<forall>k. R2 k \<subseteq> R3 k" "\<forall>k\<ge>l. R3 k = R2 k" "used_frames s2 \<subseteq> used_frames s3"
      "\<forall>q j. q \<in> used_frames s2 \<and> j < 512 \<and> q \<noteq> g \<longrightarrow> entry_of s3 q j = entry_of s2 q j"
      and w3: "\<forall>b q. walk (pmem s3) (Frame g) l b = Some q \<longrightarrow> walk (pmem s2) (Frame g') l b = Some q"
      unfolding copy_post_def by auto
    have run: "CopyPageMaps s (Frame d) (Frame c) (Suc l) i =
        (if e \<noteq> kSuccess then Some (s3, e) else CopyPageMaps s3 (Frame d) (Frame c) (Suc l) (Suc i))"
      using i l 2 g p2 s3(1) by (subst CopyPageMaps.simps) (simp add: Let_def s2_eq)
    have used2: "used_frames s \<subseteq> used_frames s2" "cr3 s2 = cr3 s" using s2 by (simp_all add: grows_def)
    have kept3: "entry_of s3 q j = entry_of s2 q j" if "q \<in> used_frames s" "j < 512" for q j
      using s3(7) that g(2) used2 by blast
    have e3: "entry_of s3 q j = entry_of s q j" if "q \<in> used_frames s" "j < 512" "(q, j) \<noteq> (d, i)" for q j
      using kept3 e2 that by simp
    have F3: "entry_of s3 q j = entry_of s q j" if "q \<in> F" "j < 512" for q j
      by (rule e3) (use that Fu dF in auto)
    have d3: "Pointer (entry_of s3 d i) = Frame g" using kept3 [OF du i(1)] s2 h g(1) by simp
    have l4: "Suc l \<le> 4" by (rule owns_top [OF own d(1)])
    have below: "walk (pmem s) (Frame c) (Suc l) b = Some q"
      if w: "walk (pmem s3) (Frame g) l b = Some q" "Part b (Suc l) = i" for b q
    proof -
      have "upper l (Part b l)" using l4 by (simp add: upper_def)
      then have "walk (pmem s) (Frame g') l b = Some q"
        using w3 w(1) image_walk [OF img(1) F2, of g' l b] g'(1) l4 by auto
      then show ?thesis using w(2) i(3) src(1) g'(2) by (simp add: Let_def)
    qed
    have sub3: "R k \<subseteq> R3 k" for k using sub2 s3(4) by blast
    have up3: "R3 k = R k" if "Suc l \<le> k" for k using s3(5) that by (simp add: R2)
    have used3: "used_frames s \<subseteq> used_frames s3" "cr3 s3 = cr3 s" using used2 s3(3,6) by auto
    have empty3: "\<not> pme_present (entry_of s3 d j)" if "Suc i \<le> j" "j < 512" for j using e3 [OF du that(2)] d(2) that by simp
    show ?thesis
    proof (cases "e = kSuccess")
      case False
      then have "CopyPageMaps s (Frame d) (Frame c) (Suc l) i = Some (s3, e)" using run by simp
      moreover have "walk (pmem s) (Frame c) (Suc l) b = Some q"
        if "i \<le> Part b (Suc l)" "walk (pmem s3) (Frame d) (Suc l) b = Some q" for b q
      proof (cases "Part b (Suc l) = i")
        case True
        then show ?thesis using below walk_present [OF that(2)] d3 by simp
      next
        case False
        then show ?thesis using walk_present [OF that(2)] empty3 that(1) Part_less [of "Suc l" b] by simp
      qed
      ultimately show ?thesis
        by (intro copy_postI [where s' = s3 and R' = R3]) (use s3(2) sub3 up3 used3 e3 in auto)
    next
      case True
      have img3: "image_ok s3 S F" by (rule image_ok_kept [OF img(1) F3])
      have "copy_post s3 R3 F d c (Suc l) (Suc i) (CopyPageMaps s3 (Frame d) (Frame c) (Suc l) (Suc i))"
        by (rule rest [OF s3(2) _ empty3 img3]) (use sub3 d(1) sh in blast)+
      then obtain s4 e4 R4 where s4: "CopyPageMaps s3 (Frame d) (Frame c) (Suc l) (Suc i) = Some (s4, e4)" "owns s4 R4 F"
        "cr3 s4 = cr3 s3" "\<forall>k. R3 k \<subseteq> R4 k" "\<forall>k\<ge>Suc l. R4 k = R3 k" "used_frames s3 \<subseteq> used_frames s4"
        and e4: "\<forall>q j. q \<in> used_frames s3 \<and> j < 512 \<and> (q \<noteq> d \<or> j < Suc i) \<longrightarrow> entry_of s4 q j = entry_of s3 q j"
        and w4: "\<forall>b q. Suc i \<le> Part b (Suc l) \<and> walk (pmem s4) (Frame d) (Suc l) b = Some q \<longrightarrow>
          walk (pmem s3) (Frame c) (Suc l) b = Some q"
        unfolding copy_post_def by blast
      have "CopyPageMaps s (Frame d) (Frame c) (Suc l) i = Some (s4, e4)" using run True s4(1) by simp
      moreover have "walk (pmem s) (Frame c) (Suc l) b = Some q"
        if w: "i \<le> Part b (Suc l)" "walk (pmem s4) (Frame d) (Suc l) b = Some q" for b q
      proof (cases "Part b (Suc l) = i")
        case True
        have d4: "entry_of s4 d i = entry_of s3 d i" using e4 used3 du i(1) by auto
        have "g \<in> R3 l" "upper l (Part b l)" using s3(5) l4 by (simp_all add: R2 upper_def)
        moreover have "entry_of s4 q j = entry_of s3 q j" if q: "q \<in> R3 k" "k \<le> l" "j < 512" for k q j
        proof -
          have "q \<in> used_frames s3" by (rule pt_inv_used [OF owns_inv [OF s3(2)] q(1)])
          moreover have "q \<noteq> d"
          proof
            assume "q = d"
            moreover have "d \<in> R3 (Suc l)" using sub3 d(1) by blast
            ultimately have "k = Suc l" using q(1) owns_inv [OF s3(2)] unfolding pt_inv_def by (metis disjoint_iff)
            then show False using q(2) by simp
          qed
          ultimately show ?thesis using e4 q(3) by blast
        qed
        ultimately have "walk (pmem s4) (Frame g) l b = walk (pmem s3) (Frame g) l b"
          using walk_tables_same [OF owns_inv [OF s3(2)], of g l b s4] l4 by simp
        then show ?thesis using below True walk_present [OF w(2)] d3 d4 by simp
      next
        case False
        then have "walk (pmem s3) (Frame c) (Suc l) b = Some q" using w4 w by simp
        moreover have "upper (Suc l) (Part b (Suc l))" using i(2) w(1) unfolding upper_def by (meson le_trans)
        ultimately show ?thesis using image_walk [OF img(1) F3 img(2)] l4 by simp
      qed
      moreover have "entry_of s4 q j = entry_of s q j" if "q \<in> used_frames s" "j < 512" "q \<noteq> d \<or> j < i" for q j
        using e4 used3 e3 that by auto
      moreover have "R k \<subseteq> R4 k" for k using sub3 s4(4) by blast
      moreover have "R4 k = R k" if "Suc l \<le> k" for k using up3 s4(5) that by simp
      ultimately show ?thesis using s4(2,3,6) used3 by (intro copy_postI [where s' = s4 and R' = R4]) auto
    qed
  qed
qed

text \<open>An entry that is neither in the image nor in the copy can be skipped.\<close>

lemma copy_skip:
  assumes post: "copy_post s R F d c (Suc l) (Suc i) res" and i: "i < 512"
    and d: "\<And>j. i \<le> j \<Longrightarrow> j < 512 \<Longrightarrow> \<not> pme_present (entry_of s d j)" "d \<in> used_frames s"
  shows "copy_post s R F d c (Suc l) i res"
proof -
  from post obtain s' e R' where s': "res = Some (s', e)" "owns s' R' F" "cr3 s' = cr3 s" "\<forall>k. R k \<subseteq> R' k"
    "\<forall>k\<ge>Suc l. R' k = R k" "used_frames s \<subseteq> used_frames s'"
    "\<forall>q j. q \<in> used_frames s \<and> j < 512 \<and> (q \<noteq> d \<or> j < Suc i) \<longrightarrow> entry_of s' q j = entry_of s q j"
    and w: "\<forall>b q. Suc i \<le> Part b (Suc l) \<and> walk (pmem s') (Frame d) (Suc l) b = Some q \<longrightarrow> walk (pmem s) (Frame c) (Suc l) b = Some q"
    unfolding copy_post_def by blast
  have "entry_of s' d i = entry_of s d i" using s'(7) d(2) i by auto
  then have none: "walk (pmem s') (Frame d) (Suc l) b = None" if "Part b (Suc l) = i" for b
    using walk_absent [of s' d b l] d(1) [of i] i that by simp
  have "walk (pmem s) (Frame c) (Suc l) b = Some q" if "i \<le> Part b (Suc l)" "walk (pmem s') (Frame d) (Suc l) b = Some q" for b q
    using that none w by (cases "Part b (Suc l) = i") simp_all
  with s' show ?thesis by (intro copy_postI [where s' = s' and R' = R']) auto
qed

lemma CopyPageMaps_owned:
  "owns s R F \<Longrightarrow> d \<in> R (Suc l) \<Longrightarrow> (\<And>j. i \<le> j \<Longrightarrow> j < 512 \<Longrightarrow> \<not> pme_present (entry_of s d j)) \<Longrightarrow> image_ok s S F \<Longrightarrow>
   c \<in> S (Suc l) \<Longrightarrow> F \<subseteq> R 0 \<Longrightarrow> upper (Suc l) i \<Longrightarrow>
   copy_post s R F d c (Suc l) i (CopyPageMaps s (Frame d) (Frame c) (Suc l) i)"
proof (induction l arbitrary: s R d c i)
  case 0
  show ?case using copy_leaf_owned [of s R F d i S c] 0 by simp
next
  case (Suc l)
  note outer = Suc.IH
  from Suc.prems show ?case
  proof (induction "512 - i" arbitrary: s R i rule: less_induct)
    case less
    show ?case
    proof (cases "i < 512")
      case False
      then have "CopyPageMaps s (Frame d) (Frame c) (Suc (Suc l)) i = Some (s, kSuccess)" by (simp add: CopyPageMaps.simps)
      moreover have "\<not> i \<le> Part b (Suc (Suc l))" for b using False Part_less [of "Suc (Suc l)" b] by simp
      ultimately show ?thesis by (intro copy_postI [where s' = s and R' = R]) (use less.prems(1) in auto)
    next
      case i: True
      have lt: "512 - Suc i < 512 - i" using i by simp
      have up: "upper (Suc (Suc l)) (Suc i)" using less.prems(7) unfolding upper_def by (meson le_SucI)
      show ?thesis
      proof (cases "pme_present (entry_of s c i)")
        case False
        then have "CopyPageMaps s (Frame d) (Frame c) (Suc (Suc l)) i = CopyPageMaps s (Frame d) (Frame c) (Suc (Suc l)) (Suc i)"
          using i by (subst CopyPageMaps.simps) (simp add: Let_def)
        moreover have "copy_post s R F d c (Suc (Suc l)) (Suc i) (CopyPageMaps s (Frame d) (Frame c) (Suc (Suc l)) (Suc i))"
          using less.hyps [OF lt less.prems(1,2) _ less.prems(4-6) up] less.prems(3) by simp
        ultimately show ?thesis using False i less.prems(3) by (auto intro: copy_skip pt_inv_used [OF owns_inv [OF less.prems(1)] less.prems(2)])
      next
        case True
        have l4: "Suc (Suc l) \<le> 4" by (rule owns_top [OF less.prems(1,2)])
        have l1: "1 \<le> Suc l" by simp
        show ?thesis
        proof (rule copy_entry [OF less.prems(1-6) l1 i less.prems(7) True])
          fix s R d c assume a: "owns s R F" "d \<in> R (Suc l)" "\<And>j. j < 512 \<Longrightarrow> \<not> pme_present (entry_of s d j)"
            "image_ok s S F" "c \<in> S (Suc l)" "F \<subseteq> R 0"
          show "copy_post s R F d c (Suc l) 0 (CopyPageMaps s (Frame d) (Frame c) (Suc l) 0)"
            by (rule outer [OF a(1,2) _ a(4-6)]) (use a(3) l4 in \<open>auto simp: upper_def\<close>)
        next
          fix s R assume a: "owns s R F" "d \<in> R (Suc (Suc l))" "\<And>j. Suc i \<le> j \<Longrightarrow> j < 512 \<Longrightarrow> \<not> pme_present (entry_of s d j)"
            "image_ok s S F" "F \<subseteq> R 0"
          show "copy_post s R F d c (Suc (Suc l)) (Suc i) (CopyPageMaps s (Frame d) (Frame c) (Suc (Suc l)) (Suc i))"
            by (rule less.hyps [OF lt a(1,2) _ a(4) less.prems(5) a(5) up]) (use a(3) in auto)
        qed
      qed
    qed
  qed
qed

section \<open>The life of an address space\<close>

lemma SetupPageMaps_owned:
  assumes own: "owns s R F" and root: "R 4 = {root}" "cr3 s = Frame root" and sh: "F \<subseteq> R 0"
    and a: "256 \<le> Part a 4" and u: "unshared s root 4 a n F"
  shows "\<exists>s' e R'. SetupPageMaps s a n True = Some (s', e) \<and> owns s' R' F \<and> R' 4 = {root} \<and> cr3 s' = Frame root \<and>
    F \<subseteq> R' 0 \<and> (\<forall>q j. q \<in> F \<and> j < 512 \<longrightarrow> entry_of s' q j = entry_of s q j)"
proof -
  have "root \<in> R 4" "upper 4 (Part a 4)" using root(1) a by (simp_all add: upper_def)
  from SetupPageMap_owned [OF own this(1) _ _ this(2) u] obtain s' r R' where
    s': "SetupPageMap s (Frame root) 4 a n True = Some (s', r)" "owns s' R' F" "grows s R s' R'" "fresh_edges s R s' R'"
    unfolding own_post_def by auto
  have "entry_of s' q j = entry_of s q j" if "q \<in> F" "j < 512" for q j
  proof -
    have "q \<in> used_frames s" "\<forall>l. q \<notin> R (Suc l)" using owns_used [OF own] owns_tables [OF own] that(1) by blast+
    then show ?thesis using s'(3) that(2) by (auto simp: grows_def)
  qed
  moreover have "R 0 \<subseteq> R' 0" "cr3 s' = cr3 s" using s'(3) by (simp_all add: grows_def)
  moreover have "R' 4 = {root}" using s'(4) root(1) by (simp add: fresh_edges_def)
  ultimately show ?thesis using s'(1,2) root(2) sh
    by (intro exI [of _ s'] exI [of _ "case r of Inl e \<Rightarrow> e | Inr _ \<Rightarrow> kSuccess"] exI [of _ R'])
      (auto simp: SetupPageMaps_def split: sum.splits)
qed

text \<open>A page that the program may write: a walk reaches it and no one else uses its frame.\<close>

definition own_page :: "paging_state \<Rightarrow> nat set \<Rightarrow> nat \<Rightarrow> bool" where
  "own_page s F g \<longleftrightarrow> g \<notin> F \<and> g < kFrameCount \<and> (\<exists>a. 256 \<le> Part a 4 \<and> walk (pmem s) (cr3 s) 4 a = Some (Frame g))"

text \<open>
  The states of an address space from its start in state \<open>s0\<close>, when the frames \<open>F\<close> are in use, on: the new
  top table gets the kernel half; an image may be shared; pages are mapped where there is no page of the
  others, copied when the program writes to a shared one, and written by the program.
\<close>

inductive address_space :: "translation \<Rightarrow> paging_state \<Rightarrow> paging_state \<Rightarrow> bool" for xlat s0 where
  start: "NewPageMap s0 = Some (s1, Inr p) \<Longrightarrow> cr3 s0 = Frame c \<Longrightarrow> c \<in> used_frames s0 \<Longrightarrow>
    address_space xlat s0 (s1\<lparr>pmem := copy_words p (cr3 s1) 256 (pmem s1), cr3 := p\<rparr>)"
| share: "address_space xlat s0 s \<Longrightarrow> image_ok s S (used_frames s0) \<Longrightarrow> c \<in> S 4 \<Longrightarrow>
    \<forall>j. 256 \<le> j \<and> j < 512 \<longrightarrow> \<not> pme_present (get_entry (pmem s) (cr3 s) j) \<Longrightarrow>
    CopyPageMaps s (cr3 s) (Frame c) 4 256 = Some (s', e) \<Longrightarrow> address_space xlat s0 s'"
| maps: "address_space xlat s0 s \<Longrightarrow> 256 \<le> Part a 4 \<Longrightarrow>
    \<forall>b. vpn 4 a \<le> vpn 4 b \<and> vpn 4 b < vpn 4 a + n \<longrightarrow>
      (\<forall>q \<in> used_frames s0. walk (pmem s) (cr3 s) 4 b \<noteq> Some (Frame q)) \<Longrightarrow>
    SetupPageMaps s a n True = Some (s', e) \<Longrightarrow> address_space xlat s0 s'"
| copy: "address_space xlat s0 s \<Longrightarrow> 256 \<le> Part a 4 \<Longrightarrow> walk (pmem s) (cr3 s) 4 a = Some (Frame old) \<Longrightarrow>
    old \<in> used_frames s0 \<Longrightarrow> CopyOnePage xlat s a = Some (s', e) \<Longrightarrow> address_space xlat s0 s'"
| writes: "address_space xlat s0 s \<Longrightarrow>
    \<forall>q j. q < kFrameCount \<and> j < 512 \<and> \<not> own_page s (used_frames s0) q \<longrightarrow> get_entry m (Frame q) j = entry_of s q j \<Longrightarrow>
    address_space xlat s0 (s\<lparr>pmem := m\<rparr>)"

definition space_inv :: "paging_state \<Rightarrow> paging_state \<Rightarrow> bool" where
  "space_inv s0 s \<longleftrightarrow> (\<exists>R root. owns s R (used_frames s0) \<and> R 4 = {root} \<and> cr3 s = Frame root \<and> used_frames s0 \<subseteq> R 0 \<and>
     (\<forall>q j. q \<in> used_frames s0 \<and> j < 512 \<longrightarrow> entry_of s q j = entry_of s0 q j))"

lemma space_inv_start:
  assumes mu: "mm_usable (memory_manager s0)" and n: "NewPageMap s0 = Some (s1, Inr p)"
    and c: "cr3 s0 = Frame c" "c \<in> used_frames s0"
  shows "space_inv s0 (s1\<lparr>pmem := copy_words p (cr3 s1) 256 (pmem s1), cr3 := p\<rparr>)" (is "space_inv s0 ?s")
proof -
  from NewPageMap_cases [OF mu] n obtain r where r: "p = Frame r" "r < kFrameCount" "r \<notin> used_frames s0" "cr3 s1 = cr3 s0"
    "used_frames s1 = insert r (used_frames s0)" "mm_usable (memory_manager s1)" "\<forall>i<512. entry_of s1 r i = 0"
    "\<forall>g i. g < kFrameCount \<and> g \<noteq> r \<and> i < 512 \<longrightarrow> entry_of s1 g i = entry_of s0 g i" by auto
  let ?F = "used_frames s0"
  define R :: "nat \<Rightarrow> nat set" where "R = (\<lambda>l. if l = 4 then {r} else if l = 0 then ?F else {})"
  have rc: "r \<noteq> c" using r(3) c(2) by blast
  have ent: "entry_of ?s q j = (if q = r \<and> j < 256 then entry_of s1 c j else entry_of s1 q j)" if "q < kFrameCount" "j < 512" for q j
    using get_copy_words [OF r(2) used_less [OF c(2)] that(1) rc _ that(2), of 256] r(1,4) c(1) by simp
  have top: "\<not> pme_present (entry_of ?s r j)" if "256 \<le> j" "j < 512" for j using ent [OF r(2) that(2)] r(7) that by simp
  have used: "used_frames ?s = insert r ?F" using r(5) by (simp add: used_frames_def)
  have table: "q = r \<and> l = 3" if "q \<in> R (Suc l)" for q l using that by (auto simp: R_def split: if_splits)
  have no_edge: "\<not> edge ?s R l q g" for l q g
  proof
    assume e: "edge ?s R l q g"
    then have "fst q = r" "l = 3" using table by (auto simp: edge_def)
    then show False using e top [of "snd q"] by (simp add: edge_def upper_def)
  qed
  have inv: "pt_inv ?s R"
    unfolding pt_inv_def
  proof (intro conjI allI impI)
    show "mm_usable (memory_manager ?s)" using r(6) by simp
    show "R l \<subseteq> used_frames ?s" for l unfolding used R_def by auto
    show "R l \<inter> R k = {}" if "l \<noteq> k" for l k using that r(3) by (auto simp: R_def)
    fix l f i assume a: "f \<in> R (Suc l) \<and> i < 512 \<and> upper (Suc l) i \<and> pme_present (entry_of ?s f i)"
    then have "f = r" "l = 3" using table by blast+
    then show "\<exists>g \<in> R l. Pointer (entry_of ?s f i) = Frame g" using a top [of i] by (simp add: upper_def)
  qed
  have "owns ?s R ?F"
    by (rule ownsI [OF inv]) (use no_edge used r(3) in \<open>auto simp: R_def split: if_splits\<close>)
  moreover have "entry_of ?s q j = entry_of s0 q j" if "q \<in> ?F" "j < 512" for q j
  proof -
    have "q \<noteq> r" "q < kFrameCount" using that(1) r(3) used_less by auto
    then show ?thesis using ent r(8) that(2) by simp
  qed
  ultimately show ?thesis unfolding space_inv_def using r(1)
    by (intro exI [of _ R] exI [of _ r]) (simp add: R_def)
qed

lemma space_inv_writes:
  assumes s: "space_inv s0 s" and m: "\<And>q j. q < kFrameCount \<Longrightarrow> j < 512 \<Longrightarrow> \<not> own_page s (used_frames s0) q \<Longrightarrow>
    get_entry m (Frame q) j = entry_of s q j"
  shows "space_inv s0 (s\<lparr>pmem := m\<rparr>)"
proof -
  let ?F = "used_frames s0" and ?s = "s\<lparr>pmem := m\<rparr>"
  from s obtain R root where own: "owns s R ?F" and root: "R 4 = {root}" "cr3 s = Frame root" and sh: "?F \<subseteq> R 0"
    and kept: "\<forall>q j. q \<in> ?F \<and> j < 512 \<longrightarrow> entry_of s q j = entry_of s0 q j" unfolding space_inv_def by blast
  note inv = owns_inv [OF own]
  have data: "q \<in> R 0" if "own_page s ?F q" for q
  proof -
    from that obtain a where a: "256 \<le> Part a 4" "walk (pmem s) (Frame root) 4 a = Some (Frame q)" "q < kFrameCount"
      using root(2) unfolding own_page_def by auto
    then obtain g where "g \<in> R 0" "Frame q = Frame g"
      using walk_level0 [OF inv, of root 4 a] root(1) by (auto simp: upper_def)
    then show ?thesis using Frame_inj [OF a(3)] owns_lt [OF own] by blast
  qed
  have tables: "entry_of ?s q j = entry_of s q j" if "q \<in> R (Suc l)" "j < 512" for q j l
  proof -
    have "\<not> own_page s ?F q" using data that(1) inv unfolding pt_inv_def by (metis disjoint_iff nat.simps(3))
    then show ?thesis using m owns_lt [OF own that(1)] that(2) by simp
  qed
  have used: "used_frames ?s = used_frames s" by (simp add: used_frames_def)
  have edges: "edge ?s R l p g \<longleftrightarrow> edge s R l p g" for l p g
    using tables [of "fst p" l "snd p"] by (auto simp: edge_def)
  have "pt_inv ?s R" using inv tables unfolding pt_inv_def used by auto
  moreover have "pme_user (entry_of ?s f i) \<and> (pme_writable (entry_of ?s f i) \<longleftrightarrow> g \<notin> ?F)" if "edge s R l (f, i) g" for l f i g
    using owns_flags [OF own that] tables [of f l i] that by (simp add: edge_def)
  ultimately have "owns ?s R ?F" using owns_same [OF own _ used edges] by blast
  moreover have "entry_of ?s q j = entry_of s0 q j" if "q \<in> ?F" "j < 512" for q j
  proof -
    have "\<not> own_page s ?F q" "q < kFrameCount" using that(1) used_less by (auto simp: own_page_def)
    then show ?thesis using m kept that by simp
  qed
  ultimately show ?thesis unfolding space_inv_def using root sh by (intro exI [of _ R] exI [of _ root]) simp
qed

lemma address_space_inv:
  "address_space xlat s0 s \<Longrightarrow> mm_usable (memory_manager s0) \<Longrightarrow> mmu_walks xlat \<Longrightarrow> space_inv s0 s"
proof (induction rule: address_space.induct)
  case (start s1 p c)
  then show ?case by (intro space_inv_start)
next
  case (share s S c s' e)
  let ?F = "used_frames s0"
  from share obtain R root where own: "owns s R ?F" and root: "R 4 = {root}" "cr3 s = Frame root" and sh: "?F \<subseteq> R 0"
    and kept: "\<forall>q j. q \<in> ?F \<and> j < 512 \<longrightarrow> entry_of s q j = entry_of s0 q j" unfolding space_inv_def by blast
  have "root \<in> R (Suc 3)" "c \<in> S (Suc 3)" "upper (Suc 3) 256" using root(1) share.hyps(3) by (simp_all add: upper_def)
  then have "copy_post s R ?F root c (Suc 3) 256 (CopyPageMaps s (Frame root) (Frame c) (Suc 3) 256)"
    by (intro CopyPageMaps_owned [OF own _ _ share.hyps(2) _ sh]) (use share.hyps(4) root(2) in auto)
  then obtain R' where R': "owns s' R' ?F" "cr3 s' = cr3 s" "\<forall>k. R k \<subseteq> R' k" "\<forall>k\<ge>4. R' k = R k"
    "\<forall>q j. q \<in> used_frames s \<and> j < 512 \<and> q \<noteq> root \<longrightarrow> entry_of s' q j = entry_of s q j"
    using share.hyps(5) root(2) by (auto simp: copy_post_def)
  have "entry_of s' q j = entry_of s0 q j" if "q \<in> ?F" "j < 512" for q j
  proof -
    have "q \<in> used_frames s" "q \<noteq> root" using that(1) owns_used [OF own] owns_tables [OF own, of root 3] root(1) by auto
    then show ?thesis using R'(5) kept that by simp
  qed
  moreover have "R' 4 = {root}" "cr3 s' = Frame root" using R'(2,4) root by simp_all
  moreover have "?F \<subseteq> R' 0" using R'(3) sh by blast
  ultimately show ?case unfolding space_inv_def using R'(1) by blast
next
  case (maps s a n s' e)
  from maps obtain R root where own: "owns s R (used_frames s0)" and root: "R 4 = {root}" "cr3 s = Frame root"
    and sh: "used_frames s0 \<subseteq> R 0"
    and kept: "\<forall>q j. q \<in> used_frames s0 \<and> j < 512 \<longrightarrow> entry_of s q j = entry_of s0 q j" unfolding space_inv_def by blast
  have "unshared s root 4 a n (used_frames s0)" using maps.hyps(3) root(2) unfolding unshared_def by simp
  from SetupPageMaps_owned [OF own root sh maps.hyps(2) this] maps.hyps(4) kept show ?case
    unfolding space_inv_def by auto
next
  case (copy s a old s' e)
  from copy obtain R root where own: "owns s R (used_frames s0)" and root: "R 4 = {root}" "cr3 s = Frame root"
    and sh: "used_frames s0 \<subseteq> R 0"
    and kept: "\<forall>q j. q \<in> used_frames s0 \<and> j < 512 \<longrightarrow> entry_of s q j = entry_of s0 q j" unfolding space_inv_def by blast
  have "root \<in> R 4" using root(1) by simp
  from CopyOnePage_owned [OF own this root(2) copy.hyps(2,3,4) copy.prems(2)] copy.hyps(5) obtain R' where
    "owns s' R' (used_frames s0)" "cr3 s' = cr3 s" "R' 4 = R 4" "R 0 \<subseteq> R' 0"
    "\<forall>q j. q \<in> used_frames s0 \<and> j < 512 \<longrightarrow> entry_of s' q j = entry_of s q j" by auto
  then show ?case unfolding space_inv_def using root sh kept by (intro exI [of _ R'] exI [of _ root]) auto
next
  case (writes s m)
  then show ?case by (intro space_inv_writes) auto
qed

end
