(* ===== verification/Application_Memory.thy ===== *)
theory Application_Memory
  imports System_Calls_Correct Address_Spaces
begin

text \<open>
  The end of a program: \<open>ExecuteFile\<close> gives back every frame that its address space took, and no other.
\<close>

lemma task_of_pages [simp]: "task_of (k\<lparr>k_pg := pg\<rparr>) i = task_of k i"
  by (simp add: task_of_def k_tm_def)

lemma SetCR3_pages [simp]: "k_pg (SetCR3 v k) = (k_pg k)\<lparr>cr3 := v\<rparr>"
  by (simp add: SetCR3_def Let_def set_tm_def)

lemma FreePML4_frees:
  assumes t: "task_of k i = Some t" "reg_cr3 (ctx t) = Frame rt" and rt: "rt < kFrameCount"
  shows "\<exists>k'. FreePML4 mach i k = Some (k', kSuccess) \<and> used_frames (k_pg k') = used_frames (k_pg k) - {rt} \<and>
    cr3 (k_pg k') = pml4_table (ktables mach) \<and> pmem (k_pg k') = pmem (k_pg k)"
proof -
  let ?k = "SetCR3 (pml4_table (ktables mach)) (set_task_cr3 i 0 k)"
  have pg: "k_pg ?k = (k_pg k)\<lparr>cr3 := pml4_table (ktables mach)\<rparr>" by (simp add: set_task_cr3_def)
  from FreePageMap_frame [OF rt, of "k_pg ?k"] obtain s' where s': "FreePageMap (k_pg ?k) (Frame rt) = Some (s', kSuccess)"
    "pmem s' = pmem (k_pg ?k)" "cr3 s' = cr3 (k_pg ?k)" "used_frames s' = used_frames (k_pg ?k) - {rt}" by blast
  have "used_frames (k_pg ?k) = used_frames (k_pg k)" unfolding pg by (simp add: used_frames_def)
  with t s' pg show ?thesis by (intro exI [of _ "?k\<lparr>k_pg := s'\<rparr>"]) (simp add: FreePML4_def Let_def set_task_cr3_def)
qed

text \<open>
  C1. An address space that began when the frames \<open>used_frames s0\<close> were in use may share the image of a program,
  run out of memory while it is mapped, get pages on demand, copy shared pages and be written to by its program, in any order:
  at its end \<open>finish_app\<close> (\<open>CleanPageMaps\<close>, then \<open>FreePML4\<close>) succeeds, exactly the frames that were in use at the
  beginning are in use again, every word in them is what it was, and the tables of the kernel are active.
\<close>

theorem application_memory_returned:
  assumes space: "address_space (xlat mach) s0 (k_pg k)" and boot: "mm_usable (memory_manager s0)" "mmu_walks (xlat mach)"
    and task: "task_of k i = Some t" "reg_cr3 (ctx t) = cr3 (k_pg k)"
  shows "\<exists>k'. finish_app mach i k = Some (k', kSuccess) \<and> used_frames (k_pg k') = used_frames s0 \<and>
    cr3 (k_pg k') = pml4_table (ktables mach) \<and>
    (\<forall>f j. f \<in> used_frames s0 \<and> j < 512 \<longrightarrow> entry_of (k_pg k') f j = entry_of s0 f j)"
proof -
  from address_space_inv [OF space boot] obtain R rt where own: "owns (k_pg k) R (used_frames s0)"
    and rt: "R 4 = {rt}" "cr3 (k_pg k) = Frame rt"
    and kept: "\<forall>f j. f \<in> used_frames s0 \<and> j < 512 \<longrightarrow> entry_of (k_pg k) f j = entry_of s0 f j"
    unfolding space_inv_def by blast
  have r: "rt < kFrameCount" "rt \<notin> used_frames s0"
    using owns_lt [OF own, of rt 4] owns_tables [OF own, of rt 3] rt(1) by simp_all
  from CleanPageMaps_owned [OF own rt] obtain s1 where s1: "CleanPageMaps (k_pg k) 0xffff800000000000 = Some (s1, kSuccess)"
    "used_frames s1 = insert rt (used_frames s0)"
    "\<forall>q j. q \<in> used_frames s0 \<and> j < 512 \<longrightarrow> entry_of s1 q j = entry_of (k_pg k) q j" by blast
  let ?k1 = "(on_task i leave_app k)\<lparr>k_pg := s1\<rparr>"
  have left: "task_of ?k1 i = Some (leave_app t)"
    using task(1) task_on_task [of leave_app i k i] by (simp add: leave_app_def)
  moreover have "reg_cr3 (ctx (leave_app t)) = Frame rt" using task(2) rt(2) by (simp add: leave_app_def)
  ultimately obtain k' where k': "FreePML4 mach i ?k1 = Some (k', kSuccess)" "used_frames (k_pg k') = used_frames s1 - {rt}"
    "cr3 (k_pg k') = pml4_table (ktables mach)" "pmem (k_pg k') = pmem s1"
    using FreePML4_frees [OF _ _ r(1), of ?k1 i "leave_app t" mach] by auto
  have "finish_app mach i k = Some (k', kSuccess)" using s1(1) k'(1) by (simp add: finish_app_def Let_def)
  with k' s1 kept r(2) show ?thesis by (intro exI [of _ k']) auto
qed

text \<open>A program that gets one page on top of the tables of the sample.\<close>

lemma sample_new_page: "\<exists>s1 p. NewPageMap sample_mapped = Some (s1, Inr p)"
proof -
  let ?m = "memory_manager sample_mapped"
  have mu: "mm_usable ?m" using sample_mapped_inv by (simp add: pt_inv_def)
  have "8 \<notin> allocated ?m"
    by (simp add: sample_mapped_def sample_paging_def allocated_def frame_bit_def frame_consts)
  moreover have "range_begin ?m \<le> 8" "8 + 1 \<le> range_end ?m"
    by (simp_all add: sample_mapped_def sample_paging_def BitmapMemoryManager_new_def frame_consts)
  ultimately have "fits ?m 8 1"
    unfolding fits_def by (metis Suc_eq_plus1 atLeastLessThan_iff le_antisym less_Suc_eq_le)
  moreover have "range_end ?m \<le> kFrameCount" using mu by (simp add: mm_usable_def)
  ultimately obtain m t where "Allocate ?m 1 = Some (m, Inr t)"
    using Allocate_cases [of ?m 1] by (fastforce split: sum.splits)
  then show ?thesis by (simp add: NewPageMap_def Let_def)
qed

lemma sample_mapped_root: "0 \<in> used_frames sample_mapped"
  using pt_inv_used [OF sample_mapped_inv, of 0 4] by (simp add: mapped_levels_def)

lemma start_page_unmapped:
  assumes n: "NewPageMap sample_mapped = Some (s1, Inr p)" and b: "256 \<le> Part b 4"
  shows "walk (copy_words p (cr3 s1) 256 (pmem s1)) p 4 b = None"
proof -
  have "mm_usable (memory_manager sample_mapped)" using sample_mapped_inv by (simp add: pt_inv_def)
  from NewPageMap_cases [OF this] n obtain r where r: "p = Frame r" "r < kFrameCount" "r \<notin> used_frames sample_mapped"
    "cr3 s1 = cr3 sample_mapped" "\<forall>i<512. entry_of s1 r i = 0" by auto
  have "0 \<in> used_frames sample_mapped" by (rule sample_mapped_root)
  then have "r \<noteq> 0" using r(3) by metis
  moreover have "0 < kFrameCount" by (simp add: frame_consts)
  ultimately have "get_entry (copy_words p (cr3 s1) 256 (pmem s1)) p (Part b 4) = 0"
    using get_copy_words [OF r(2) _ r(2), of 0 256 "Part b 4"] r b Part_less [of 4 b]
    by (simp add: sample_mapped_def sample_paging_def)
  then show ?thesis using walk.simps(2) [of "copy_words p (cr3 s1) 256 (pmem s1)" p 3 b] by simp
qed

theorem application_memory_returned_witness:
  "\<exists>s1 p s' e k'. NewPageMap sample_mapped = Some (s1, Inr p) \<and>
    SetupPageMaps (s1\<lparr>pmem := copy_words p (cr3 s1) 256 (pmem s1), cr3 := p\<rparr>) 0xffff800000000000 1 True = Some (s', e) \<and>
    finish_app demo_machine 1 (on_task 1 (\<lambda>_. (demo_task demo_boot_task)
        \<lparr>ctx := (ctx (demo_task demo_boot_task))\<lparr>reg_cr3 := cr3 s'\<rparr>\<rparr>) (demo_kernel\<lparr>k_pg := s'\<rparr>)) = Some (k', kSuccess) \<and>
    used_frames (k_pg k') = used_frames sample_mapped"
proof -
  from sample_new_page obtain s1 p where n: "NewPageMap sample_mapped = Some (s1, Inr p)" by blast
  let ?s = "s1\<lparr>pmem := copy_words p (cr3 s1) 256 (pmem s1), cr3 := p\<rparr>" and ?a = "0xffff800000000000 :: u64"
  have mu: "mm_usable (memory_manager sample_mapped)" using sample_mapped_inv by (simp add: pt_inv_def)
  have c: "cr3 sample_mapped = Frame 0" "0 \<in> used_frames sample_mapped"
    using sample_mapped_root by (simp_all add: sample_mapped_def sample_paging_def)
  have p4: "256 \<le> Part ?a 4" by (simp add: Part_def unat_get_bits part_numerals take_bit_eq_mod)
  have start: "address_space (xlat demo_machine) sample_mapped ?s" by (rule address_space.start [OF n c])
  have none: "\<forall>b. vpn 4 ?a \<le> vpn 4 b \<and> vpn 4 b < vpn 4 ?a + 1 \<longrightarrow>
      (\<forall>q \<in> used_frames sample_mapped. walk (pmem ?s) (cr3 ?s) 4 b \<noteq> Some (Frame q))"
  proof (intro allI impI ballI)
    fix b q assume "vpn 4 ?a \<le> vpn 4 b \<and> vpn 4 b < vpn 4 ?a + 1"
    then have "Part ?a (Suc 3) \<le> Part b (Suc 3)" by (intro vpn_Part_le) simp
    then have "256 \<le> Part b 4" using p4 by simp
    then show "walk (pmem ?s) (cr3 ?s) 4 b \<noteq> Some (Frame q)" using start_page_unmapped [OF n] by simp
  qed
  from space_inv_start [OF mu n c] obtain R rt where R: "owns ?s R (used_frames sample_mapped)" "R 4 = {rt}" "cr3 ?s = Frame rt"
    "used_frames sample_mapped \<subseteq> R 0" unfolding space_inv_def by blast
  have "unshared ?s rt 4 ?a 1 (used_frames sample_mapped)" using none R(3) unfolding unshared_def by simp
  from SetupPageMaps_owned [OF R p4 this] obtain s' e where s': "SetupPageMaps ?s ?a 1 True = Some (s', e)" by blast
  let ?t = "(demo_task demo_boot_task)\<lparr>ctx := (ctx (demo_task demo_boot_task))\<lparr>reg_cr3 := cr3 s'\<rparr>\<rparr>"
  let ?k = "on_task 1 (\<lambda>_. ?t) (demo_kernel\<lparr>k_pg := s'\<rparr>)"
  have "address_space (xlat demo_machine) sample_mapped (k_pg ?k)"
    using address_space.maps [OF start p4 none s'] by simp
  moreover have "task_of ?k 1 = Some ?t"
    using task_of_replaced [of "demo_kernel\<lparr>k_pg := s'\<rparr>" 1 "demo_task demo_boot_task" ?t] demo_task_of task_of_id [OF demo_task_of] by simp
  moreover have "reg_cr3 (ctx ?t) = cr3 (k_pg ?k)" by simp
  moreover have "mmu_walks (xlat demo_machine)" using mmu_walks_sample by (simp add: demo_machine_def)
  ultimately obtain k' where "finish_app demo_machine 1 ?k = Some (k', kSuccess)" "used_frames (k_pg k') = used_frames sample_mapped"
    using application_memory_returned [OF _ mu, of demo_machine ?k 1 ?t] by blast
  with n s' show ?thesis by blast
qed

end
