(* ===== verification/Line_Drawing.thy ===== *)
theory Line_Drawing
  imports System_Calls
begin

text \<open>
  \<open>WinDrawLine\<close> (\<open>kernel/syscall.cpp\<close>) computes the points of a line with numbers of type \<open>double\<close>.  For
  coordinates of real windows the rounding errors are too small to be seen: the line begins and ends at the given
  points, stays in their box and is connected.
\<close>

section \<open>Rounding to \<open>double\<close>\<close>

lemma two_to_pos [simp]: "0 < two_to e"
  by (simp add: two_to_def)

lemma two_to_powi: "two_to e = 2 powi e"
  by (simp add: two_to_def power_int_def inverse_eq_divide power_one_over)

lemma two_to_add: "two_to (a + b) = two_to a * two_to b"
  unfolding two_to_powi by (rule power_int_add) simp

lemma two_to_minus: "two_to (a - b) = two_to a / two_to b"
  using two_to_add [of "a - b" b] two_to_pos [of b] by (simp add: field_simps del: two_to_pos)

lemma two_to_nat: "two_to (int n) = 2 ^ n"
  by (simp add: two_to_def)

lemma two_to_mono: "a \<le> b \<Longrightarrow> two_to a \<le> two_to b"
proof -
  assume "a \<le> b"
  then have "two_to b = two_to a * 2 ^ nat (b - a)"
    using two_to_add [of a "b - a"] two_to_nat [of "nat (b - a)"] by simp
  moreover have "(1::rat) \<le> 2 ^ nat (b - a)" by simp
  ultimately show ?thesis using mult_left_mono [of 1 "2 ^ nat (b - a)" "two_to a"] by simp
qed

lemma bitlen_less: "0 < n \<Longrightarrow> two_to (bitlen n - 1) \<le> of_int n \<and> of_int n < two_to (bitlen n)"
proof -
  assume n: "0 < n"
  from bitlen_bounds [OF n] have b: "2 ^ nat (bitlen n - 1) \<le> n" "n < 2 ^ nat (bitlen n)" by simp_all
  have "of_int (2 ^ nat (bitlen n - 1)) \<le> (of_int n :: rat)" "(of_int n :: rat) < of_int (2 ^ nat (bitlen n))"
    using b by (simp_all only: of_int_le_iff of_int_less_iff)
  moreover have "0 < bitlen n" using n bitlen_eq_zero_iff [of n] bitlen_nonneg [of n] by linarith
  ultimately show ?thesis by (simp add: two_to_def)
qed

lemma ulp_small:
  assumes "x \<noteq> 0"
  shows "two_to (ulp_exponent x) * 2 ^ 52 \<le> \<bar>x\<bar>"
proof -
  obtain p q where pq: "quotient_of \<bar>x\<bar> = (p, q)" by fastforce
  have q: "0 < q" using quotient_of_denom_pos [OF pq] .
  have x: "\<bar>x\<bar> = of_int p / of_int q" using quotient_of_div [OF pq] .
  have p: "0 < p"
  proof (rule ccontr)
    assume "\<not> 0 < p"
    then have "of_int p / of_int q \<le> (0 :: rat)" using q by (simp add: divide_le_0_iff)
    then show False using x assms by simp
  qed
  let ?e = "bitlen p - bitlen q"
  have "two_to (?e - 1) = two_to (bitlen p - 1) / two_to (bitlen q)"
    using two_to_minus [of "bitlen p - 1" "bitlen q"] by (simp add: algebra_simps)
  also have "\<dots> \<le> of_int p / of_int q"
    using bitlen_less [OF p] bitlen_less [OF q] p q by (intro frac_le) auto
  finally have low: "two_to (?e - 1) \<le> \<bar>x\<bar>" using x by simp
  have sub: "two_to (a - int n) * 2 ^ n = two_to a" for a n
    using two_to_minus [of a "int n"] by (simp add: two_to_nat)
  show ?thesis
    using low sub [of ?e 52] sub [of "?e - 1" 52] by (auto simp: ulp_exponent_def pq Let_def algebra_simps)
qed

lemma round_even_near: "\<bar>of_int (round_even y) - y\<bar> \<le> 1 / 2"
proof -
  have "of_int \<lfloor>y\<rfloor> \<le> y" "y < of_int \<lfloor>y\<rfloor> + 1" by linarith+
  then show ?thesis unfolding round_even_def Let_def by (auto simp: abs_le_iff)
qed

lemma round_even_int [simp]: "round_even (of_int n) = n"
  by (simp add: round_even_def)

text \<open>The relative error.\<close>

lemma to_double_near: "\<bar>to_double x - x\<bar> \<le> \<bar>x\<bar> / 2 ^ 53"
proof (cases "x = 0")
  case False
  let ?u = "two_to (ulp_exponent x)"
  have "\<bar>to_double x - x\<bar> = \<bar>of_int (round_even (x / ?u)) - x / ?u\<bar> * ?u"
    using False two_to_pos [of "ulp_exponent x"]
    by (simp add: to_double_def Let_def abs_mult_pos left_diff_distrib less_imp_le del: two_to_pos)
  also have "\<dots> \<le> 1 / 2 * ?u" by (intro mult_right_mono round_even_near less_imp_le two_to_pos)
  finally show ?thesis using ulp_small [OF False] by simp
qed (simp add: to_double_def)

lemma to_double_int [simp]:
  assumes "\<bar>n\<bar> < 2 ^ 53"
  shows "to_double (of_int n) = of_int n"
proof (cases "n = 0")
  case False
  let ?e = "ulp_exponent (of_int n :: rat)"
  have "two_to ?e * 2 ^ 52 \<le> \<bar>of_int n :: rat\<bar>" using ulp_small [of "of_int n"] False by simp
  also have "\<dots> < 2 ^ 53" using assms by (simp flip: of_int_abs)
  finally have "two_to ?e < two_to 1" by (simp add: two_to_def)
  then have "?e \<le> 0" using two_to_mono [of 1 ?e] by (cases "?e \<le> 0") auto
  then have "of_int n / two_to ?e = (of_int (n * 2 ^ nat (- ?e)) :: rat)"
    by (cases "?e = 0") (simp_all add: two_to_def)
  then have "of_int (round_even (of_int n / two_to ?e)) = (of_int n / two_to ?e :: rat)"
    by (metis round_even_int)
  then show ?thesis using False two_to_pos [of ?e] by (simp add: to_double_def Let_def del: two_to_pos)
qed (simp add: to_double_def)

section \<open>One step along the longer direction\<close>

text \<open>How far the computed coordinate may be from the exact one.\<close>

definition line_error :: rat where "line_error = 1 / 2 ^ 34"

lemma minor_error:
  fixes r :: rat
  assumes "\<bar>r\<bar> \<le> 1" "0 \<le> k" "k \<le> 2 ^ 16" "\<bar>b0\<bar> \<le> 2 ^ 15"
  shows "\<bar>to_double (to_double (to_double r * of_int k) + of_int b0) - (of_int b0 + r * of_int k)\<bar> \<le> line_error"
proof -
  define m where "m = to_double r"
  define t where "t = to_double (m * of_int k)"
  define v where "v = to_double (t + of_int b0)"
  have k: "0 \<le> (of_int k :: rat)" "(of_int k :: rat) \<le> 65536" using assms(2,3) by simp_all
  have b: "\<bar>of_int b0 :: rat\<bar> \<le> 65536" using assms(4) by (simp flip: of_int_abs)
  have m: "\<bar>m - r\<bar> \<le> 1 / 2 ^ 53" using to_double_near [of r] assms(1) by (simp add: m_def)
  moreover have "(1 :: rat) / 2 ^ 53 \<le> 1" by simp
  ultimately have "\<bar>m\<bar> \<le> 2" using assms(1) by linarith
  have mk: "\<bar>m * of_int k - r * of_int k\<bar> \<le> 1 / 2 ^ 53 * 65536"
    using mult_mono [OF m k(2)] k(1) by (simp add: abs_mult flip: left_diff_distrib)
  have mk2: "\<bar>m * of_int k\<bar> \<le> 2 * 65536"
    using mult_mono [OF \<open>\<bar>m\<bar> \<le> 2\<close> k(2)] k(1) by (simp add: abs_mult)
  then have tk: "\<bar>t - m * of_int k\<bar> \<le> 2 * 65536 / 2 ^ 53"
    using to_double_near [of "m * of_int k"] by (simp add: t_def)
  also have "\<dots> \<le> (1 :: rat)" by simp
  finally have t: "\<bar>t\<bar> \<le> 3 * 65536" using mk2 by linarith
  have t': "\<bar>t - r * of_int k\<bar> \<le> 3 * 65536 / 2 ^ 53" using mk tk by linarith
  have "\<bar>t + of_int b0\<bar> \<le> 4 * 65536" using t b by linarith
  then have "\<bar>v - (t + of_int b0)\<bar> \<le> 4 * 65536 / 2 ^ 53"
    using to_double_near [of "t + of_int b0"] by (simp add: v_def)
  with t' have "\<bar>v - (of_int b0 + r * of_int k)\<bar> \<le> 7 * 65536 / 2 ^ 53" by linarith
  then show ?thesis unfolding v_def t_def m_def line_error_def by simp
qed

text \<open>
  Values that are close enough to the exact line have the right whole numbers: they begin and end where
  the line does and never go back or jump.
\<close>

definition digital :: "(int \<Rightarrow> int) \<Rightarrow> int \<Rightarrow> int \<Rightarrow> int \<Rightarrow> bool" where
  "digital g n b d \<longleftrightarrow> g 0 = b \<and> g n = b + d \<and> (\<forall>k. 0 \<le> k \<and> k < n \<longrightarrow> g k \<le> g (k + 1) \<and> g (k + 1) \<le> g k + 1)"

lemma digital_floor:
  fixes f :: "int \<Rightarrow> rat"
  assumes f: "\<And>k. 0 \<le> k \<Longrightarrow> k \<le> n \<Longrightarrow> \<bar>f k - (of_int b + of_int (d + 1) / of_int (n + 1) * of_int k)\<bar> \<le> e"
    and f0: "f 0 = of_int b" and d: "0 < d" "d < n" and e: "2 * e < 1 / of_int (n + 1)"
  shows "digital (\<lambda>k. \<lfloor>f k\<rfloor>) n b d"
proof -
  define r :: rat where "r = of_int (d + 1) / of_int (n + 1)"
  define q :: rat where "q = 1 / of_int (n + 1)"
  have q: "q * of_int (n + 1) = 1" "0 < q" using d by (simp_all add: q_def)
  have r: "r = of_int (d + 1) * q" by (simp add: r_def q_def)
  have "2 * q \<le> r" using q(2) d unfolding r by (intro mult_right_mono) simp_all
  have "of_int (d + 1) * q \<le> of_int n * q" using q(2) d by (intro mult_right_mono) simp_all
  then have "r \<le> 1 - q" using q(1) unfolding r by (simp add: algebra_simps)
  have rn: "r * of_int n = of_int (d + 1) - r"
  proof -
    have "r * of_int n = of_int (d + 1) * (q * of_int (n + 1)) - r" unfolding r by (simp add: algebra_simps)
    then show ?thesis using q(1) by simp
  qed
  have e': "2 * e < q" using e by (simp add: q_def)
  have "0 \<le> e" using f [of 0] d by simp
  have step: "\<lfloor>f k\<rfloor> \<le> \<lfloor>f (k + 1)\<rfloor> \<and> \<lfloor>f (k + 1)\<rfloor> \<le> \<lfloor>f k\<rfloor> + 1" if k: "0 \<le> k" "k < n" for k
  proof -
    have "\<bar>f k - (of_int b + r * of_int k)\<bar> \<le> e" "\<bar>f (k + 1) - (of_int b + r * of_int (k + 1))\<bar> \<le> e"
      using f [of k] f [of "k + 1"] k by (simp_all add: r_def)
    then have "f k \<le> f (k + 1)" "f (k + 1) \<le> f k + 1"
      using \<open>2 * q \<le> r\<close> \<open>r \<le> 1 - q\<close> e' q(2) by (auto simp: abs_le_iff algebra_simps)
    then show ?thesis by (metis floor_mono floor_add_int of_int_1)
  qed
  have "\<bar>f n - (of_int b + (of_int (d + 1) - r))\<bar> \<le> e" using f [of n] d rn by (simp add: r_def)
  then have "of_int (b + d) \<le> f n" "f n < of_int (b + d) + 1"
    using \<open>2 * q \<le> r\<close> \<open>r \<le> 1 - q\<close> e' q(2) \<open>0 \<le> e\<close> by (auto simp: abs_le_iff)
  then have "\<lfloor>f n\<rfloor> = b + d" by (simp add: floor_unique)
  with step f0 show ?thesis by (simp add: digital_def)
qed

lemma digital_diagonal: "(\<And>k. 0 \<le> k \<Longrightarrow> k \<le> n \<Longrightarrow> g k = b + k) \<Longrightarrow> 0 < n \<Longrightarrow> digital g n b n"
  by (simp add: digital_def)

lemma digital_between:
  assumes "digital g n b d" "0 \<le> k" "k \<le> n"
  shows "b \<le> g k \<and> g k \<le> b + d"
proof -
  have up: "g j \<le> g (j + int i)" if "0 \<le> j" "j + int i \<le> n" for i j
    using that
  proof (induction i)
    case (Suc i)
    have "g (j + int i) \<le> g (j + int i + 1)" using assms(1) Suc.prems unfolding digital_def by simp
    with Suc show ?case by (simp add: algebra_simps)
  qed simp
  from up [of 0 "nat k"] up [of k "nat (n - k)"] assms show ?thesis by (simp add: digital_def)
qed

lemma to_double_0 [simp]: "to_double 0 = 0"
  by (simp add: to_double_def)

lemma to_double_signs [simp]: "to_double 1 = 1" "to_double (- 1) = - 1"
  using to_double_int [of 1] to_double_int [of "- 1"] by simp_all

text \<open>\<open>minor\<close> for a line that goes up, and for one that goes down.\<close>

definition slope :: "int \<Rightarrow> int \<Rightarrow> rat" where "slope n d = to_double (of_int (d + sign d) / of_int (n + 1))"

lemma slope_le: "\<bar>d\<bar> \<le> n \<Longrightarrow> \<bar>of_int (d + sign d) / of_int (n + 1) :: rat\<bar> \<le> 1"
  by (auto simp: sign_def abs_if divide_le_eq le_divide_eq)

lemma line_error_small: "n \<le> 2 ^ 16 \<Longrightarrow> 0 \<le> n \<Longrightarrow> 2 * line_error < 1 / of_int (n + 1)"
proof -
  assume n: "n \<le> 2 ^ 16" "0 \<le> n"
  then have "(1 :: rat) / (2 ^ 16 + 1) \<le> 1 / of_int (n + 1)" by (intro divide_left_mono) simp_all
  then show ?thesis by (simp add: line_error_def)
qed

lemma minor_up:
  assumes "0 \<le> d" "d \<le> n" "0 < n" "n \<le> 2 ^ 16" "\<bar>b\<bar> \<le> 2 ^ 15"
  shows "digital (\<lambda>k. minor (slope n d) a b (b + d) (a + k)) n b d"
proof -
  let ?r = "of_int (d + sign d) / of_int (n + 1) :: rat"
  let ?f = "\<lambda>k. to_double (to_double (to_double ?r * of_int k) + of_int b)"
  have small: "\<bar>k\<bar> < 2 ^ 53" "\<bar>k + b\<bar> < 2 ^ 53" if "\<bar>k\<bar> \<le> 2 ^ 16" for k :: int
    using that assms(5) by (auto simp: abs_le_iff abs_less_iff)
  have g: "minor (slope n d) a b (b + d) (a + k) = \<lfloor>?f k\<rfloor>" for k
    using assms(1) by (simp add: minor_def slope_def Let_def)
  consider "d = 0" | "d = n" | "0 < d" "d < n" using assms(1,2) by linarith
  then show ?thesis
  proof cases
    case 1
    then have "\<lfloor>?f k\<rfloor> = b" for k using small [of 0] by (simp add: sign_def)
    then show ?thesis unfolding g using 1 by (simp add: digital_def)
  next
    case 2
    then have r: "?r = 1" using assms(3) by (simp add: sign_def)
    have "\<lfloor>?f k\<rfloor> = b + k" if "0 \<le> k" "k \<le> n" for k
      using small [of k] that assms(4) unfolding r to_double_signs by (simp flip: of_int_add)
    from digital_diagonal [OF this assms(3)] show ?thesis unfolding g using 2 by simp
  next
    case 3
    then have "sign d = 1" by (simp add: sign_def)
    show ?thesis unfolding g
    proof (rule digital_floor [where e = line_error])
      show "?f 0 = of_int b" using small [of 0] by simp
      show "2 * line_error < 1 / of_int (n + 1)" using assms by (intro line_error_small) simp_all
      show "0 < d" "d < n" by (rule 3)+
    next
      fix k assume "0 \<le> k" "k \<le> n"
      then show "\<bar>?f k - (of_int b + of_int (d + 1) / of_int (n + 1) * of_int k)\<bar> \<le> line_error"
        using minor_error [OF slope_le, of d n k b] assms \<open>sign d = 1\<close> by simp
    qed
  qed
qed

lemma round_even_minus: "round_even (- y) = - round_even y"
proof (cases "y = of_int \<lfloor>y\<rfloor>")
  case True
  then show ?thesis by (metis of_int_minus round_even_int)
next
  case False
  then have "\<lfloor>- y\<rfloor> = - \<lfloor>y\<rfloor> - 1" by linarith
  then show ?thesis by (simp add: round_even_def Let_def) linarith
qed

lemma to_double_minus: "to_double (- x) = - to_double x"
proof -
  have "ulp_exponent (- x) = ulp_exponent x" by (simp add: ulp_exponent_def)
  moreover have "round_even (- x / u) = - round_even (x / u)" for u using round_even_minus [of "x / u"] by simp
  ultimately show ?thesis by (simp add: to_double_def Let_def)
qed

lemma minor_minus: "b1 < b0 \<Longrightarrow> minor m a0 b0 b1 a = - minor (- m) a0 (- b0) (- b1) a"
  using to_double_minus [of "m * of_int (a - a0)"] to_double_minus [of "to_double (m * of_int (a - a0)) + of_int b0"]
  by (simp add: minor_def Let_def ceiling_def add.commute)

lemma sign_minus: "sign (- d) = - sign d"
  by (simp add: sign_def)

lemma minor_down:
  assumes "d < 0" "- d \<le> n" "0 < n" "n \<le> 2 ^ 16" "\<bar>b\<bar> \<le> 2 ^ 15"
  shows "digital (\<lambda>k. - minor (slope n d) a b (b + d) (a + k)) n (- b) (- d)"
proof -
  have "slope n (- d) = - slope n d"
    using to_double_minus [of "of_int (d + sign d) / of_int (n + 1)"]
    by (simp add: slope_def sign_minus minus_divide_left)
  then have "- minor (slope n d) a b (b + d) (a + k) = minor (slope n (- d)) a (- b) (- b + - d) (a + k)" for k
    using minor_minus [of "b + d" b "slope n d" a "a + k"] assms(1) by simp
  with minor_up [of "- d" n "- b" a] assms show ?thesis by simp
qed

section \<open>The points of a line\<close>

definition adjacent :: "Vector2D \<Rightarrow> Vector2D \<Rightarrow> bool" where
  "adjacent p q \<longleftrightarrow> max \<bar>vx p - vx q\<bar> \<bar>vy p - vy q\<bar> = 1"

text \<open>Every point is next to the one before it, one further in the longer direction, and in the box.\<close>

lemma along_steps:
  assumes "a < a1" "\<bar>b1 - b\<bar> \<le> a1 - a" "a1 - a \<le> 2 ^ 16" "\<bar>b\<bar> \<le> 2 ^ 15"
  defines "g \<equiv> minor (slope (a1 - a) (b1 - b)) a b b1"
  shows "g a = b" "g a1 = b1"
    "\<And>c. a \<le> c \<Longrightarrow> c < a1 \<Longrightarrow> \<bar>g c - g (c + 1)\<bar> \<le> 1"
    "\<And>c. a \<le> c \<Longrightarrow> c \<le> a1 \<Longrightarrow> min b b1 \<le> g c \<and> g c \<le> max b b1"
proof -
  have "(g a = b \<and> g a1 = b1) \<and> (\<forall>c. a \<le> c \<and> c < a1 \<longrightarrow> \<bar>g c - g (c + 1)\<bar> \<le> 1) \<and>
      (\<forall>c. a \<le> c \<and> c \<le> a1 \<longrightarrow> min b b1 \<le> g c \<and> g c \<le> max b b1)"
  proof (cases "b \<le> b1")
    case True
    then have dig: "digital (\<lambda>k. g (a + k)) (a1 - a) b (b1 - b)"
      using minor_up [of "b1 - b" "a1 - a" b a] assms by (simp add: g_def)
    show ?thesis
    proof (intro conjI allI impI)
      fix c assume "a \<le> c \<and> c < a1"
      with dig show "\<bar>g c - g (c + 1)\<bar> \<le> 1" unfolding digital_def by (auto dest: spec [of _ "c - a"])
    next
      fix c assume "a \<le> c \<and> c \<le> a1"
      with digital_between [OF dig, of "c - a"] True show "min b b1 \<le> g c" "g c \<le> max b b1" by auto
    qed (use dig in \<open>simp_all add: digital_def\<close>)
  next
    case False
    then have dig: "digital (\<lambda>k. - g (a + k)) (a1 - a) (- b) (b - b1)"
      using minor_down [of "b1 - b" "a1 - a" b a] assms by (simp add: g_def)
    show ?thesis
    proof (intro conjI allI impI)
      fix c assume "a \<le> c \<and> c < a1"
      with dig show "\<bar>g c - g (c + 1)\<bar> \<le> 1" unfolding digital_def by (auto dest: spec [of _ "c - a"])
    next
      fix c assume "a \<le> c \<and> c \<le> a1"
      with digital_between [OF dig, of "c - a"] False show "min b b1 \<le> g c" "g c \<le> max b b1" by auto
    qed (use dig in \<open>simp_all add: digital_def\<close>)
  qed
  then show "g a = b" "g a1 = b1"
    "\<And>c. a \<le> c \<Longrightarrow> c < a1 \<Longrightarrow> \<bar>g c - g (c + 1)\<bar> \<le> 1"
    "\<And>c. a \<le> c \<Longrightarrow> c \<le> a1 \<Longrightarrow> min b b1 \<le> g c \<and> g c \<le> max b b1" by auto
qed

lemma nth_upto_point: "i < nat (b - a + 1) \<Longrightarrow> [a..b] ! i = a + int i"
  by (simp add: nth_upto)

text \<open>A list of points along the longer direction, in either order of the coordinates.\<close>

lemma along_connected:
  assumes "a < a1" "\<bar>b1 - b\<bar> \<le> a1 - a" "a1 - a \<le> 2 ^ 16" "\<bar>b\<bar> \<le> 2 ^ 15"
  defines "ps \<equiv> along (slope (a1 - a) (b1 - b)) a b a1 b1"
  shows "length ps = nat (a1 - a + 1)" "ps \<noteq> []" "hd ps = (a, b)" "last ps = (a1, b1)"
    "\<And>i. Suc i < length ps \<Longrightarrow>
      fst (ps ! Suc i) = fst (ps ! i) + 1 \<and> \<bar>snd (ps ! i) - snd (ps ! Suc i)\<bar> \<le> 1"
    "\<And>p. p \<in> set ps \<Longrightarrow> a \<le> fst p \<and> fst p \<le> a1 \<and> min b b1 \<le> snd p \<and> snd p \<le> max b b1"
proof -
  note steps = along_steps [OF assms(1-4)]
  show len: "length ps = nat (a1 - a + 1)" by (simp add: ps_def along_def)
  then show "ps \<noteq> []" using assms(1) by auto
  have nth: "ps ! i = (a + int i, minor (slope (a1 - a) (b1 - b)) a b b1 (a + int i))" if "i < length ps" for i
    using that len by (simp add: ps_def along_def nth_upto)
  show "hd ps = (a, b)" using nth [of 0] steps(1) len \<open>ps \<noteq> []\<close> assms(1) by (simp add: hd_conv_nth)
  show "last ps = (a1, b1)"
    using nth [of "length ps - 1"] steps(2) len \<open>ps \<noteq> []\<close> assms(1) by (simp add: last_conv_nth nat_diff_distrib)
  show "fst (ps ! Suc i) = fst (ps ! i) + 1 \<and> \<bar>snd (ps ! i) - snd (ps ! Suc i)\<bar> \<le> 1" if "Suc i < length ps" for i
    using steps(3) [of "a + int i"] nth [of i] nth [of "Suc i"] that len by (simp add: add.commute add.left_commute)
  show "a \<le> fst p \<and> fst p \<le> a1 \<and> min b b1 \<le> snd p \<and> snd p \<le> max b b1" if "p \<in> set ps" for p
    using that steps(4) by (auto simp: ps_def along_def)
qed

definition in_box :: "int \<Rightarrow> int \<Rightarrow> int \<Rightarrow> int \<Rightarrow> Vector2D \<Rightarrow> bool" where
  "in_box x0 y0 x1 y1 p \<longleftrightarrow> min x0 x1 \<le> vx p \<and> vx p \<le> max x0 x1 \<and> min y0 y1 \<le> vy p \<and> vy p \<le> max y0 y1"

definition draws_line :: "int \<Rightarrow> int \<Rightarrow> int \<Rightarrow> int \<Rightarrow> Vector2D list \<Rightarrow> bool" where
  "draws_line x0 y0 x1 y1 ps \<longleftrightarrow>
    ps \<noteq> [] \<and> {hd ps, last ps} = {Vec x0 y0, Vec x1 y1} \<and>
    int (length ps) = max \<bar>x1 - x0\<bar> \<bar>y1 - y0\<bar> + 1 \<and>
    (\<forall>i. Suc i < length ps \<longrightarrow> adjacent (ps ! i) (ps ! Suc i)) \<and>
    (\<forall>p \<in> set ps. in_box x0 y0 x1 y1 p)"

lemma draws_line_flip: "draws_line x1 y1 x0 y0 ps \<Longrightarrow> draws_line x0 y0 x1 y1 ps"
  by (simp add: draws_line_def in_box_def insert_commute abs_minus_commute min.commute max.commute)

lemma draws_along:
  assumes "a < a1" "\<bar>b1 - b\<bar> \<le> a1 - a" "a1 - a \<le> 2 ^ 16" "\<bar>b\<bar> \<le> 2 ^ 15"
  defines "ps \<equiv> along (slope (a1 - a) (b1 - b)) a b a1 b1"
  shows "draws_line a b a1 b1 (map (\<lambda>(x, y). Vec x y) ps)" (is ?x)
    "draws_line b a b1 a1 (map (\<lambda>(y, x). Vec x y) ps)" (is ?y)
proof -
  note c = along_connected [OF assms(1-4), folded ps_def]
  have ends: "hd (map f ps) = f (a, b)" "last (map f ps) = f (a1, b1)" for f :: "int \<times> int \<Rightarrow> Vector2D"
    using c(2-4) by (simp_all add: hd_map last_map)
  show ?x using c ends assms(1,2) unfolding draws_line_def
    by (auto simp: adjacent_def in_box_def split_beta)
  show ?y using c ends assms(1,2) unfolding draws_line_def
    by (auto simp: adjacent_def in_box_def split_beta)
qed

lemma sign_step:
  "(d + sign d = 0) = (d = 0)" "\<bar>d + sign d\<bar> = (if d = 0 then 0 else \<bar>d\<bar> + 1)" "(d + sign d < 0) = (d < 0)"
  by (auto simp: sign_def)

lemma slope_quotient:
  "0 < n \<Longrightarrow> to_double (of_int (d + sign d) / of_int (n + sign n)) = slope n d"
  "n < 0 \<Longrightarrow> to_double (of_int (d + sign d) / of_int (n + sign n)) = slope (- n) (- d)"
proof -
  show "0 < n \<Longrightarrow> to_double (of_int (d + sign d) / of_int (n + sign n)) = slope n d"
    by (simp add: slope_def sign_def)
  assume "n < 0"
  then have "(of_int (d + sign d) / of_int (n + sign n) :: rat) = of_int (- d + sign (- d)) / of_int (- n + 1)"
    using minus_divide_divide [of "of_int (d + sign d) :: rat" "of_int (n - 1)"] sign_minus [of d]
    by (simp add: sign_def [of n])
  then show "to_double (of_int (d + sign d) / of_int (n + sign n)) = slope (- n) (- d)" by (simp add: slope_def)
qed

text \<open>The four ways to step along a line.\<close>

lemma line_points_cases:
  "0 < n \<Longrightarrow> \<bar>d\<bar> \<le> n \<Longrightarrow>
     line_points x y (x + n) (y + d) = map (\<lambda>(x, y). Vec x y) (along (slope n d) x y (x + n) (y + d))"
  "n < 0 \<Longrightarrow> \<bar>d\<bar> \<le> - n \<Longrightarrow>
     line_points x y (x + n) (y + d) = map (\<lambda>(x, y). Vec x y) (along (slope (- n) (- d)) (x + n) (y + d) x y)"
  "0 < d \<Longrightarrow> \<bar>n\<bar> < d \<Longrightarrow>
     line_points x y (x + n) (y + d) = map (\<lambda>(y, x). Vec x y) (along (slope d n) y x (y + d) (x + n))"
  "d < 0 \<Longrightarrow> \<bar>n\<bar> < - d \<Longrightarrow>
     line_points x y (x + n) (y + d) = map (\<lambda>(y, x). Vec x y) (along (slope (- d) (- n)) (y + d) (x + n) y x)"
  using slope_quotient(1) [of n d] slope_quotient(2) [of n d] slope_quotient(1) [of d n] slope_quotient(2) [of d n]
  by (auto simp: line_points_def Let_def sign_step)

lemma line_points_draws:
  assumes "\<bar>x0\<bar> \<le> 2 ^ 15" "\<bar>y0\<bar> \<le> 2 ^ 15" "\<bar>x1\<bar> \<le> 2 ^ 15" "\<bar>y1\<bar> \<le> 2 ^ 15"
  shows "draws_line x0 y0 x1 y1 (line_points x0 y0 x1 y1)"
proof -
  obtain n d where nd: "x1 = x0 + n" "y1 = y0 + d" by (metis add.commute diff_add_cancel)
  then have far: "\<bar>n\<bar> \<le> 2 ^ 16" "\<bar>d\<bar> \<le> 2 ^ 16" using assms by auto
  consider "n = 0" "d = 0" | "0 < n" "\<bar>d\<bar> \<le> n" | "n < 0" "\<bar>d\<bar> \<le> - n" | "0 < d" "\<bar>n\<bar> < d" | "d < 0" "\<bar>n\<bar> < - d"
    by linarith
  then show ?thesis
  proof cases
    case 1
    then show ?thesis using nd by (simp add: line_points_def sign_def draws_line_def in_box_def)
  next
    case 2
    then show ?thesis
      using line_points_cases(1) [OF 2, of x0 y0] draws_along(1) [of x0 x1 y1 y0] nd far assms by simp
  next
    case 3
    then show ?thesis
      using line_points_cases(2) [OF 3, of x0 y0] draws_along(1) [of x1 x0 y0 y1] nd far assms by (simp add: draws_line_flip)
  next
    case 4
    then show ?thesis
      using line_points_cases(3) [OF 4, of x0 y0] draws_along(2) [of y0 y1 x1 x0] nd far assms by simp
  next
    case 5
    then show ?thesis
      using line_points_cases(4) [OF 5, of x0 y0] draws_along(2) [of y1 y0 x0 x1] nd far assms by (simp add: draws_line_flip)
  qed
qed

text \<open>
  C0. For end points with coordinates of real windows \<open>WinDrawLine\<close> draws a connected line: one point for every
  step of the longer direction, each next to the one before, from one end point exactly to the other, and none
  outside of their box.  No rounding error of \<open>double\<close> shows.
\<close>

theorem line_points_connected:
  assumes "\<bar>x0\<bar> \<le> 2 ^ 15" "\<bar>y0\<bar> \<le> 2 ^ 15" "\<bar>x1\<bar> \<le> 2 ^ 15" "\<bar>y1\<bar> \<le> 2 ^ 15"
  shows "draws_line x0 y0 x1 y1 (line_points x0 y0 x1 y1)"
  using assms by (rule line_points_draws)

theorem line_points_connected_witness: "draws_line 2 3 7 5 (line_points 2 3 7 5)"
  by (rule line_points_connected) simp_all

end
