(* ===== verification/Programs.thy ===== *)
theory Programs
  imports Line_Drawing
begin

text \<open>
  The programs' side of the system calls: \<open>apps/syscall.h\<close>, \<open>apps/syscall.asm\<close> and the events of
  \<open>kernel/app_event.hpp\<close>.  A program is modelled by the calls it makes, as a list, in dependence of the events it
  reads; a call is carried out by the kernel of \<open>System_Calls\<close>.  What a program that draws may rely on is stated as a
  locale: the kernel checks no coordinates, so a call is only defined when it stays inside of the window.
\<close>

section \<open>System calls and events\<close>

text \<open>Strings are kept as their bytes, other pointers as addresses.\<close>

datatype SysCall =
    SyscallLogString int "u8 list"
  | SyscallPutString int "u8 list"
  | SyscallExit int
  | SyscallOpenWindow int int int int "u8 list"
  | SyscallWinWriteString u64 int int u32 "u8 list"
  | SyscallWinFillRectangle u64 int int int int u32
  | SyscallGetCurrentTick
  | SyscallWinRedraw u64
  | SyscallWinDrawLine u64 int int int int u32
  | SyscallCloseWindow u64
  | SyscallReadEvent u64 u64
  | SyscallCreateTimer u32 int u64
  | SyscallOpenFile "u8 list" int
  | SyscallReadFile int u64 u64
  | SyscallDemandPages u64 int
  | SyscallMapFile int u64 int

definition LAYER_NO_REDRAW :: u64 where "LAYER_NO_REDRAW = push_bit 32 1"
definition TIMER_ONESHOT_REL :: u32 where "TIMER_ONESHOT_REL = 1"
definition TIMER_ONESHOT_ABS :: u32 where "TIMER_ONESHOT_ABS = 0"

text \<open>The number in \<open>eax\<close>, and an \<open>int\<close> or a short word in a register.\<close>

fun syscall_number :: "SysCall \<Rightarrow> u32" where
  "syscall_number (SyscallLogString _ _) = 0x80000000"
| "syscall_number (SyscallPutString _ _) = 0x80000001"
| "syscall_number (SyscallExit _) = 0x80000002"
| "syscall_number (SyscallOpenWindow _ _ _ _ _) = 0x80000003"
| "syscall_number (SyscallWinWriteString _ _ _ _ _) = 0x80000004"
| "syscall_number (SyscallWinFillRectangle _ _ _ _ _ _) = 0x80000005"
| "syscall_number SyscallGetCurrentTick = 0x80000006"
| "syscall_number (SyscallWinRedraw _) = 0x80000007"
| "syscall_number (SyscallWinDrawLine _ _ _ _ _ _) = 0x80000008"
| "syscall_number (SyscallCloseWindow _) = 0x80000009"
| "syscall_number (SyscallReadEvent _ _) = 0x8000000a"
| "syscall_number (SyscallCreateTimer _ _ _) = 0x8000000b"
| "syscall_number (SyscallOpenFile _ _) = 0x8000000c"
| "syscall_number (SyscallReadFile _ _ _) = 0x8000000d"
| "syscall_number (SyscallDemandPages _ _) = 0x8000000e"
| "syscall_number (SyscallMapFile _ _ _) = 0x8000000f"

definition int_reg :: "int \<Rightarrow> u64" where "int_reg x = ucast (word_of_int x :: u32)"

definition regs :: "u64 list \<Rightarrow> Args" where
  "regs xs = (let r = (\<lambda>i. if i < length xs then xs ! i else 0) in
     \<lparr>arg1 = r 0, arg2 = r 1, arg3 = r 2, arg4 = r 3, arg5 = r 4, arg6 = r 5\<rparr>)"

text \<open>The registers of a call; \<open>loc\<close> is where the program keeps a string.\<close>

fun syscall_args :: "(u8 list \<Rightarrow> u64) \<Rightarrow> SysCall \<Rightarrow> Args" where
  "syscall_args loc (SyscallLogString v s) = regs [int_reg v, loc s]"
| "syscall_args loc (SyscallPutString fd s) = regs [int_reg fd, loc s, of_nat (length s)]"
| "syscall_args loc (SyscallExit c) = regs [int_reg c]"
| "syscall_args loc (SyscallOpenWindow w h x y title) = regs [int_reg w, int_reg h, int_reg x, int_reg y, loc title]"
| "syscall_args loc (SyscallWinWriteString l x y c s) = regs [l, int_reg x, int_reg y, ucast c, loc s]"
| "syscall_args loc (SyscallWinFillRectangle l x y w h c) = regs [l, int_reg x, int_reg y, int_reg w, int_reg h, ucast c]"
| "syscall_args loc SyscallGetCurrentTick = regs []"
| "syscall_args loc (SyscallWinRedraw l) = regs [l]"
| "syscall_args loc (SyscallWinDrawLine l x0 y0 x1 y1 c) =
     regs [l, int_reg x0, int_reg y0, int_reg x1, int_reg y1, ucast c]"
| "syscall_args loc (SyscallCloseWindow l) = regs [l]"
| "syscall_args loc (SyscallReadEvent events len) = regs [events, len]"
| "syscall_args loc (SyscallCreateTimer ty v ms) = regs [ucast ty, int_reg v, ms]"
| "syscall_args loc (SyscallOpenFile path flags) = regs [loc path, int_reg flags]"
| "syscall_args loc (SyscallReadFile fd buf n) = regs [int_reg fd, buf, n]"
| "syscall_args loc (SyscallDemandPages n flags) = regs [n, int_reg flags]"
| "syscall_args loc (SyscallMapFile fd p flags) = regs [int_reg fd, p, int_reg flags]"

definition perform :: "machine \<Rightarrow> (u8 list \<Rightarrow> u64) \<Rightarrow> SysCall \<Rightarrow> kernel \<Rightarrow> (kernel \<times> Result) option" where
  "perform mach loc c k = system_call mach (syscall_number c) (syscall_args loc c) k"

text \<open>The members of the union that belong to the type of the event.\<close>

datatype AppEvent =
    AppQuit
  | AppMouseMove int int int int u8
  | AppMouseButton int int int int
  | AppTimerTimeout u64 int
  | AppKeyPush u8 u8 u8 int

section \<open>What programs rely on\<close>

text \<open>A call that needs nothing but a window of the given size.\<close>

fun stays_inside :: "u64 \<Rightarrow> int \<Rightarrow> int \<Rightarrow> SysCall \<Rightarrow> bool" where
  "stays_inside l w h (SyscallWinFillRectangle l' x y rw rh c) \<longleftrightarrow>
     l' AND 0xffffffff = l \<and> 0 \<le> x \<and> 0 \<le> rw \<and> x + rw \<le> w \<and> 0 \<le> y \<and> 0 \<le> rh \<and> y + rh \<le> h"
| "stays_inside l w h (SyscallWinDrawLine l' x0 y0 x1 y1 c) \<longleftrightarrow>
     l' AND 0xffffffff = l \<and> 0 \<le> x0 \<and> x0 < w \<and> 0 \<le> x1 \<and> x1 < w \<and> 0 \<le> y0 \<and> y0 < h \<and> 0 \<le> y1 \<and> y1 < h"
| "stays_inside l w h (SyscallWinRedraw l') \<longleftrightarrow> l' AND 0xffffffff = l"
| "stays_inside l w h (SyscallCreateTimer ty v ms) \<longleftrightarrow> 0 < v \<and> v < 2 ^ 31"
| "stays_inside l w h SyscallGetCurrentTick \<longleftrightarrow> True"
| "stays_inside l w h _ \<longleftrightarrow> False"

fun perform_all :: "(SysCall \<Rightarrow> 'k \<Rightarrow> ('k \<times> 'r) option) \<Rightarrow> SysCall list \<Rightarrow> 'k \<Rightarrow> 'k option" where
  "perform_all p [] k = Some k"
| "perform_all p (c # cs) k = (case p c k of None \<Rightarrow> None | Some (k', r) \<Rightarrow> perform_all p cs k')"

locale window_system =
  fixes carry_out :: "SysCall \<Rightarrow> 'k \<Rightarrow> ('k \<times> 'r) option"
    and window_open :: "u64 \<Rightarrow> int \<Rightarrow> int \<Rightarrow> 'k \<Rightarrow> bool"
  assumes inside_defined: "window_open l w h k \<Longrightarrow> stays_inside l w h c \<Longrightarrow>
      \<exists>k' r. carry_out c k = Some (k', r) \<and> window_open l w h k'"
begin

lemma all_inside_defined:
  "window_open l w h k \<Longrightarrow> \<forall>c \<in> set cs. stays_inside l w h c \<Longrightarrow>
    \<exists>k'. perform_all carry_out cs k = Some k' \<and> window_open l w h k'"
proof (induction cs arbitrary: k)
  case (Cons c cs)
  then obtain k' r where "carry_out c k = Some (k', r)" "window_open l w h k'"
    using inside_defined [of l w h k c] by auto
  with Cons.IH [of k'] Cons.prems(2) show ?case by simp
qed simp

end

section \<open>The kernel provides it\<close>

definition window_open :: "u64 \<Rightarrow> int \<Rightarrow> int \<Rightarrow> kernel \<Rightarrow> bool" where
  "window_open layer w h k \<longleftrightarrow>
    wf_desktop (k_desk k) \<and> visible (k_desk k) (unat layer) \<and> w \<le> 2 ^ 15 \<and> h \<le> 2 ^ 15 \<and>
    (\<exists>l n win. FindLayer (layers (k_desk k)) (unat layer) = Some l \<and> layer_window l = Some n \<and>
      windows (k_desk k) n = Some win \<and> win_width win = w \<and> win_height win = h)"

lemma ucast_back: "ucast (ucast (c :: u32) :: u64) = c"
  by (rule bit_word_eqI) (auto simp: bit_ucast_iff dest: bit_imp_le_length)

lemma int_arg_reg [simp]: "- (2 ^ 31) \<le> x \<Longrightarrow> x < 2 ^ 31 \<Longrightarrow> int_arg (int_reg x) = x"
  by (simp add: int_arg_def int_reg_def ucast_back signed_of_int signed_take_bit_int_eq_self)

lemma open_window_wf:
  assumes "window_open layer w h k"
  obtains l n win where "FindLayer (layers (k_desk k)) (unat layer) = Some l" "layer_window l = Some n"
    "windows (k_desk k) n = Some win" "win_width win = w" "win_height win = h" "wf_win win" "title_fits win"
proof -
  from assms obtain l n win where *: "FindLayer (layers (k_desk k)) (unat layer) = Some l" "layer_window l = Some n"
    "windows (k_desk k) n = Some win" "win_width win = w" "win_height win = h" unfolding window_open_def by blast
  have "l \<in> set (lm_layers (layers (k_desk k)))" using *(1) by (auto simp: FindLayer_def find_Some_iff)
  then have "wf_win win" "title_fits win"
    using assms *(2,3) by (auto simp: window_open_def wf_desktop_def wf_layer_def)
  with * that show thesis by blast
qed

text \<open>A function that draws inside of the window keeps it open, with and without showing the result.\<close>

lemma DoWinFunc_draws:
  assumes win: "window_open layer w h k" and flags: "flags AND 0xffffffff = layer"
    and f: "\<And>v. wf_win v \<Longrightarrow> win_width v = w \<Longrightarrow> win_height v = h \<Longrightarrow> \<exists>v'. f v = Some v' \<and> wf_win v' \<and> like v v'"
  shows "\<exists>k'. DoWinFunc (drawing_only f) flags k = Some (k', result 0 0) \<and> window_open layer w h k'"
proof -
  let ?d = "k_desk k" and ?i = "unat layer"
  from open_window_wf [OF win] obtain l n v where v: "FindLayer (layers ?d) ?i = Some l" "layer_window l = Some n"
    "windows ?d n = Some v" "win_width v = w" "win_height v = h" "wf_win v" "title_fits v" by blast
  from f [OF v(6,4,5)] obtain v' where v': "f v = Some v'" "wf_win v'" "like v v'" by blast
  let ?d1 = "?d\<lparr>windows := (windows ?d)(n \<mapsto> v')\<rparr>"
  have has: "has_window (layers ?d) ?i" using v(1,2) by (auto simp: has_window_def)
  let ?f = "\<lambda>u. if u = v then Some v' else Some u"
  have "\<exists>u'. ?f u = Some u' \<and> wf_win u' \<and> like u u'" if "wf_win u" for u using that v'(2,3) by (simp add: like_def)
  moreover have "wf_desktop ?d" using win by (simp add: window_open_def)
  ultimately obtain wins where "redecorate ?f ?i ?d = Some (?d\<lparr>windows := wins\<rparr>)" "wf_desktop (?d\<lparr>windows := wins\<rparr>)"
    using redecorate_ok [OF _ has, of ?f] by blast
  moreover have "redecorate ?f ?i ?d = Some ?d1" using v(1-3) by (simp add: redecorate_def)
  ultimately have d1: "wf_desktop ?d1" by (metis option.inject)
  have open1: "window_open layer w h (k\<lparr>k_desk := ?d1\<rparr>)"
    using d1 win v(1-5) v'(3) by (simp add: window_open_def visible_def like_def)
  have "visible ?d1 ?i" using win by (simp add: window_open_def visible_def)
  from draw_desktop_ok [OF d1 this] obtain lm where lm: "draw_desktop_layer ?i ?d1 = Some (?d1\<lparr>layers := lm\<rparr>)"
    "wf_desktop (?d1\<lparr>layers := lm\<rparr>)" "same_layers (layers ?d) lm" by auto
  have "window_open layer w h (k\<lparr>k_desk := ?d1\<lparr>layers := lm\<rparr>\<rparr>)"
    using open1 lm(2) same_layers_find [OF lm(3)] lm(3)
    by (simp add: window_open_def visible_def same_layers_def has_window_def)
  then show ?thesis
    using open1 lm(1) v(1-3) v'(1) flags
    by (simp add: DoWinFunc_def Let_def drawing_only_def put_window_def result_def)
qed

text \<open>Rectangles and lines.\<close>

lemma FillRectangle_inside:
  assumes "wf_win v" "0 \<le> x" "x + rw \<le> win_width v" "0 \<le> y" "y + rh \<le> win_height v"
  shows "\<exists>v'. FillRectangle Window_Write (Vec x y) (Vec rw rh) c v = Some v' \<and> wf_win v' \<and> like v v'"
proof -
  have "\<forall>p. in_rect (Vec x y) (Vec rw rh) p \<longrightarrow> win_inside v p"
    using in_rect_inside [of "Vec x y" "Vec rw rh" v] assms by simp
  with winl.FillRectangle_spec [of v v "Vec x y" "Vec rw rh" c] assms(1) show ?thesis by (auto simp: like_def)
qed

lemma draw_line_inside:
  assumes v: "wf_win v" "win_width v \<le> 2 ^ 15" "win_height v \<le> 2 ^ 15"
    and p: "0 \<le> x0" "x0 < win_width v" "0 \<le> x1" "x1 < win_width v"
      "0 \<le> y0" "y0 < win_height v" "0 \<le> y1" "y1 < win_height v"
  shows "\<exists>v'. draw_line x0 y0 x1 y1 c v = Some v' \<and> wf_win v' \<and> like v v'"
proof -
  have "draws_line x0 y0 x1 y1 (line_points x0 y0 x1 y1)" using v(2,3) p by (intro line_points_draws) simp_all
  then have "\<forall>(q, c) \<in> set (map (\<lambda>p. (p, c)) (line_points x0 y0 x1 y1)). win_inside v q"
    using p by (auto simp: draws_line_def in_box_def win_inside_def in_rect_def Window_Size_def)
  with winl.write_each_ok [of v v "map (\<lambda>p. (p, c)) (line_points x0 y0 x1 y1)"] v(1)
  obtain v' where "write_each Window_Write (map (\<lambda>p. (p, c)) (line_points x0 y0 x1 y1)) v = Some v'" "wf_win v'" "like v v'"
    by (auto simp: like_def)
  moreover have "\<bar>x1 - x0\<bar> < 2 ^ 31 - 1 \<and> \<bar>y1 - y0\<bar> < 2 ^ 31 - 1" using v(2,3) p by auto
  ultimately show ?thesis by (simp add: draw_line_def)
qed

lemma CreateTimer_defined:
  assumes "window_open l w h k" "0 < int_arg (arg2 a)"
  shows "\<exists>k' r. CreateTimer mach a k = Some (k', r) \<and> window_open l w h k'"
proof -
  have "tm_inv (k_tm k)" using assms(1) by (simp add: window_open_def wf_desktop_def k_tm_def)
  then obtain i where "current_task k = Some i" using tm_inv_current by (auto simp: current_task_def)
  then show ?thesis using assms by (simp add: CreateTimer_def Let_def window_open_def)
qed

lemma perform_numbers:
  "perform mach loc (SyscallWinFillRectangle l x y w h c) =
     WinFillRectangle mach (syscall_args loc (SyscallWinFillRectangle l x y w h c))"
  "perform mach loc (SyscallWinDrawLine l x y w h c) = WinDrawLine mach (syscall_args loc (SyscallWinDrawLine l x y w h c))"
  "perform mach loc (SyscallWinRedraw l) = WinRedraw mach (syscall_args loc (SyscallWinRedraw l))"
  "perform mach loc (SyscallCreateTimer ty v ms) = CreateTimer mach (syscall_args loc (SyscallCreateTimer ty v ms))"
  "perform mach loc SyscallGetCurrentTick = GetCurrentTick mach (syscall_args loc SyscallGetCurrentTick)"
  by (rule ext, simp add: perform_def system_call_def syscall_table_def)+

lemma perform_inside:
  assumes "window_open l w h k" "stays_inside l w h c"
  shows "\<exists>k' r. perform mach loc c k = Some (k', r) \<and> window_open l w h k'"
proof (cases c)
  case (SyscallWinFillRectangle l' x y rw rh col)
  have "w \<le> 2 ^ 15" "h \<le> 2 ^ 15" using assms(1) by (simp_all add: window_open_def)
  with assms SyscallWinFillRectangle DoWinFunc_draws [OF assms(1), of l'] FillRectangle_inside [of _ x rw y rh]
  show ?thesis by (fastforce simp: perform_numbers WinFillRectangle_def regs_def)
next
  case (SyscallWinDrawLine l' x0 y0 x1 y1 col)
  have "w \<le> 2 ^ 15" "h \<le> 2 ^ 15" using assms(1) by (simp_all add: window_open_def)
  with assms SyscallWinDrawLine DoWinFunc_draws [OF assms(1), of l'] draw_line_inside [of _ x0 x1 y0 y1]
  show ?thesis by (fastforce simp: perform_numbers WinDrawLine_def regs_def)
next
  case (SyscallWinRedraw l')
  with assms DoWinFunc_draws [OF assms(1), of l' Some] show ?thesis
    by (fastforce simp: perform_numbers WinRedraw_def regs_def like_def)
next
  case (SyscallCreateTimer ty v ms)
  with assms CreateTimer_defined [OF assms(1)] show ?thesis by (simp add: perform_numbers regs_def)
next
  case SyscallGetCurrentTick
  with assms show ?thesis by (simp add: perform_numbers GetCurrentTick_def)
qed (use assms(2) in simp_all)

interpretation kernel_windows: window_system "perform mach loc" window_open for mach loc
  by unfold_locales (rule perform_inside)

end
