(* ===== verification/Blocks.thy ===== *)
theory Blocks
  imports Programs "HOL-Library.Signed_Division"
begin

text \<open>
  The game \<open>apps/blocks/blocks.cpp\<close>: a ball between walls, a bar and blocks.  The speed of the ball comes from the
  library functions \<open>cos\<close> and \<open>sin\<close> on \<open>double\<close>; they are parameters, of which only a small error is assumed.
  Whatever the player does, the game draws nothing outside of its window.
\<close>

section \<open>The game\<close>

definition kNumBlocksX :: int where "kNumBlocksX = 10"
definition kNumBlocksY :: int where "kNumBlocksY = 5"
definition kBlockWidth :: int where "kBlockWidth = 20"
definition kBlockHeight :: int where "kBlockHeight = 10"
definition kBarWidth :: int where "kBarWidth = 30"
definition kBarHeight :: int where "kBarHeight = 5"
definition kBallRadius :: int where "kBallRadius = 5"
definition kGapWidth :: int where "kGapWidth = 30"
definition kGapHeight :: int where "kGapHeight = 30"
definition kGapBar :: int where "kGapBar = 80"
definition kBarFloat :: int where "kBarFloat = 10"

definition kCanvasWidth :: int where "kCanvasWidth = kNumBlocksX * kBlockWidth + 2 * kGapWidth"
definition kCanvasHeight :: int where
  "kCanvasHeight = kGapHeight + kNumBlocksY * kBlockHeight + kGapBar + kBarHeight + kBarFloat"
definition kBarY :: int where "kBarY = kCanvasHeight - kBarFloat - kBarHeight"
definition kFrameRate :: int where "kFrameRate = 60"
definition kBarSpeed :: int where "kBarSpeed = kCanvasWidth div 2"
definition kBallSpeed :: int where "kBallSpeed = kBarSpeed"

definition kBallX :: int where "kBallX = kCanvasWidth div 2 - kBallRadius - 20"
definition kBallY :: int where "kBallY = kCanvasHeight - kBarFloat - kBarHeight - kBallRadius - 20"

lemmas sizes = kNumBlocksX_def kNumBlocksY_def kBlockWidth_def kBlockHeight_def kBarWidth_def kBarHeight_def
  kBallRadius_def kGapWidth_def kGapHeight_def kGapBar_def kBarFloat_def kCanvasWidth_def kCanvasHeight_def kBarY_def
  kFrameRate_def kBarSpeed_def kBallSpeed_def kBallX_def kBallY_def

record Game =
  blocks :: "bool list list"
  bar_x :: int
  ball_x :: int
  ball_y :: int
  move_dir :: int
  ball_dir :: int
  ball_dx :: int
  ball_dy :: int

text \<open>\<open>blocks[y].test(x)\<close> is only defined inside of the field.\<close>

definition test_block :: "bool list list \<Rightarrow> int \<Rightarrow> int \<Rightarrow> bool option" where
  "test_block bs y x =
    (if 0 \<le> y \<and> nat y < length bs \<and> 0 \<le> x \<and> nat x < length (bs ! nat y) then Some (bs ! nat y ! nat x) else None)"

definition reset_block :: "bool list list \<Rightarrow> int \<Rightarrow> int \<Rightarrow> bool list list" where
  "reset_block bs y x = bs[nat y := (bs ! nat y)[nat x := False]]"

section \<open>Drawing\<close>

definition DrawBlocks :: "u64 \<Rightarrow> bool list list \<Rightarrow> SysCall list" where
  "DrawBlocks layer_id bs =
    concat (map (\<lambda>by.
      let y = 24 + kGapHeight + by * kBlockHeight; color = push_bit (nat (by mod 3) * 8) (0xff :: u32) in
      concat (map (\<lambda>bx.
        if test_block bs by bx = Some True then
          let x = 4 + kGapWidth + bx * kBlockWidth;
              c = color OR push_bit (nat ((bx + by) mod 3) * 8) 0xff in
          [SyscallWinFillRectangle layer_id x y kBlockWidth kBlockHeight c]
        else []) [0..kNumBlocksX - 1])) [0..kNumBlocksY - 1])"

definition DrawBar :: "u64 \<Rightarrow> int \<Rightarrow> SysCall list" where
  "DrawBar layer_id x = [SyscallWinFillRectangle layer_id (4 + x) (24 + kBarY) kBarWidth kBarHeight 0xffffff]"

definition DrawBall :: "u64 \<Rightarrow> int \<Rightarrow> int \<Rightarrow> SysCall list" where
  "DrawBall layer_id x y =
    [SyscallWinFillRectangle layer_id (4 + x - kBallRadius) (24 + y - kBallRadius) (2 * kBallRadius) (2 * kBallRadius) 0x007f00,
     SyscallWinFillRectangle layer_id (4 + x - kBallRadius div 2) (24 + y - kBallRadius div 2) kBallRadius kBallRadius 0x00ff00]"

definition draw_frame :: "u64 \<Rightarrow> Game \<Rightarrow> SysCall list" where
  "draw_frame layer_id g =
    (let l = layer_id OR LAYER_NO_REDRAW in
     [SyscallWinFillRectangle l 4 24 kCanvasWidth kCanvasHeight 0] @ DrawBlocks l (blocks g) @ DrawBar l (bar_x g) @
     (if ball_y g \<ge> 0 then DrawBall l (ball_x g) (ball_y g) else []) @ [SyscallWinRedraw layer_id])"

section \<open>Keys\<close>

definition LimitRange :: "int \<Rightarrow> int \<Rightarrow> int \<Rightarrow> int" where
  "LimitRange x lo hi = (if x < lo then lo else if x > hi then hi else x)"

definition push_key :: "u8 \<Rightarrow> int \<Rightarrow> Game \<Rightarrow> Game" where
  "push_key keycode press g =
    (if press = 0 then g\<lparr>move_dir := 0\<rparr>
     else
       let g1 =
         (if keycode = 79 then g\<lparr>move_dir := 1\<rparr>
          else if keycode = 80 then g\<lparr>move_dir := - 1\<rparr>
          else if keycode = 44 then
            if ball_dir g = 0 \<and> ball_y g < 0 then g\<lparr>ball_x := kBallX, ball_y := kBallY\<rparr>
            else if ball_dir g = 0 then g\<lparr>ball_dir := 45\<rparr> else g
          else g) in
       if bar_x g1 = 0 \<and> move_dir g1 < 0 then g1\<lparr>move_dir := 0\<rparr>
       else if bar_x g1 + kBarWidth = kCanvasWidth - 1 \<and> move_dir g1 > 0 then g1\<lparr>move_dir := 0\<rparr> else g1)"

datatype Waited = TimedOut Game "AppEvent list" | Quitted | Waiting

fun wait_timeout :: "AppEvent list \<Rightarrow> Game \<Rightarrow> Waited" where
  "wait_timeout [] g = Waiting"
| "wait_timeout (e # es) g =
    (case e of
       AppTimerTimeout _ _ \<Rightarrow> TimedOut g es
     | AppQuit \<Rightarrow> Quitted
     | AppKeyPush _ keycode _ press \<Rightarrow> wait_timeout es (push_key keycode press g)
     | _ \<Rightarrow> wait_timeout es g)"

lemma wait_timeout_shorter: "wait_timeout es g = TimedOut g' es' \<Longrightarrow> length es' < length es"
  by (induction es g rule: wait_timeout.induct) (auto split: AppEvent.splits intro: less_SucI)

section \<open>The ball\<close>

text \<open>The two reflections; a direction that is no \<open>int\<close> is undefined.\<close>

definition int_dir :: "int \<Rightarrow> int option" where
  "int_dir d = (if - (2 ^ 31) \<le> d \<and> d < 2 ^ 31 then Some d else None)"

text \<open>\<open>Inl\<close> when the ball falls.\<close>

definition bounce :: "Game \<Rightarrow> int \<Rightarrow> int \<Rightarrow> (unit + int) option" where
  "bounce g x y =
    do {
      dir \<leftarrow> (if (ball_dx g < 0 \<and> x < kBallRadius) \<or> (ball_dx g > 0 \<and> kCanvasWidth - kBallRadius \<le> x)
              then int_dir (180 - ball_dir g) else Some (ball_dir g));
      if ball_dy g < 0 \<and> y < kBallRadius then map_option Inr (int_dir (- dir))
      else if bar_x g \<le> x \<and> x < bar_x g + kBarWidth \<and> ball_dy g > 0 \<and> kBarY - kBallRadius \<le> y
      then map_option Inr (int_dir (- dir))
      else if ball_dy g > 0 \<and> kCanvasHeight - kBallRadius \<le> y then Some (Inl ())
      else Some (Inr dir)
    }"

definition hit_block :: "Game \<Rightarrow> int \<Rightarrow> int \<Rightarrow> int \<Rightarrow> (bool list list \<times> int) option" where
  "hit_block g x y dir =
    (if x < kGapWidth \<or> kCanvasWidth - kGapWidth \<le> x \<or> y < kGapHeight \<or> kGapHeight + kNumBlocksY * kBlockHeight \<le> y
     then Some (blocks g, dir)
     else
       let index_x = (x - kGapWidth) div kBlockWidth; index_y = (y - kGapHeight) div kBlockHeight in
       do {
         there \<leftarrow> test_block (blocks g) index_y index_x;
         if \<not> there then Some (blocks g, dir)
         else
           let block_left = kGapWidth + index_x * kBlockWidth; block_right = kGapWidth + (index_x + 1) * kBlockWidth;
               block_top = kGapHeight + index_y * kBlockHeight; block_bottom = kGapHeight + (index_y + 1) * kBlockHeight in
           do {
             dir1 \<leftarrow> (if (ball_x g < block_left \<and> block_left \<le> x) \<or> (block_right < ball_x g \<and> x \<le> block_right)
                      then int_dir (180 - dir) else Some dir);
             dir2 \<leftarrow> (if (ball_y g < block_top \<and> block_top \<le> y) \<or> (block_bottom < ball_y g \<and> y \<le> block_bottom)
                      then int_dir (- dir1) else Some dir1);
             Some (reset_block (blocks g) index_y index_x, dir2)
           }
       })"

text \<open>C's \<open>round\<close>; the values of \<open>kBallSpeed * cos(M_PI * ball_dir / 180) / kFrameRate\<close> and with \<open>sin\<close>.\<close>

definition c_round :: "real \<Rightarrow> int" where
  "c_round x = (if x \<ge> 0 then \<lfloor>x + 1 / 2\<rfloor> else \<lceil>x - 1 / 2\<rceil>)"

record speeds =
  speed_x :: "int \<Rightarrow> real"
  speed_y :: "int \<Rightarrow> real"

definition move_objects :: "speeds \<Rightarrow> Game \<Rightarrow> Game option" where
  "move_objects sp g0 =
    (let g = g0\<lparr>bar_x := LimitRange (bar_x g0 + move_dir g0 * kBarSpeed sdiv kFrameRate) 0 (kCanvasWidth - kBarWidth - 1)\<rparr> in
     if ball_dir g = 0 then Some g
     else
       let x = ball_x g + ball_dx g; y = ball_y g + ball_dy g in
       do {
         r \<leftarrow> bounce g x y;
         case r of
           Inl _ \<Rightarrow> Some (g\<lparr>ball_dir := 0, ball_y := - 1\<rparr>)
         | Inr dir \<Rightarrow> do {
             (bs, dir2) \<leftarrow> hit_block g x y dir;
             let dx = c_round (speed_x sp dir2);
             let dy = c_round (speed_y sp dir2);
             Some (g\<lparr>blocks := bs, ball_dir := dir2, ball_dx := dx, ball_dy := dy,
                     ball_x := ball_x g + dx, ball_y := ball_y g + dy\<rparr>)
           }
       })"

section \<open>The program\<close>

text \<open>\<open>first\<close> is the value that the first call of \<open>SyscallCreateTimer\<close> returns.\<close>

definition next_timer :: "u64 \<Rightarrow> u64 \<Rightarrow> u64 \<times> SysCall" where
  "next_timer first prev_timeout =
    (if prev_timeout = 0 then (first, SyscallCreateTimer TIMER_ONESHOT_REL 1 (1000 div word_of_int kFrameRate))
     else let t = prev_timeout + 1000 div word_of_int kFrameRate in (t, SyscallCreateTimer TIMER_ONESHOT_ABS 1 t))"

text \<open>The calls until the program ends or waits for an event that has not come.\<close>

function blocks_loop :: "speeds \<Rightarrow> u64 \<Rightarrow> u64 \<Rightarrow> u64 \<Rightarrow> AppEvent list \<Rightarrow> Game \<Rightarrow> SysCall list option" where
  "blocks_loop sp layer_id first prev_timeout es g =
    (let (timeout, timer) = next_timer first prev_timeout; calls = draw_frame layer_id g @ [timer] in
     case wait_timeout es g of
       Waiting \<Rightarrow> Some calls
     | Quitted \<Rightarrow> Some (calls @ [SyscallCloseWindow layer_id, SyscallExit 0])
     | TimedOut g1 es1 \<Rightarrow>
         (case move_objects sp g1 of
            None \<Rightarrow> None
          | Some g2 \<Rightarrow> map_option (\<lambda>cs. calls @ cs) (blocks_loop sp layer_id first timeout es1 g2)))"
  by pat_completeness auto
termination by (relation "measure (\<lambda>(sp, l, first, prev, es, g). length es)") (auto dest: wait_timeout_shorter)

declare blocks_loop.simps [simp del]

definition first_game :: Game where
  "first_game =
    \<lparr>blocks = replicate (nat kNumBlocksY) (replicate (nat kNumBlocksX) True),
     bar_x = kCanvasWidth div 2 - kBarWidth div 2, ball_x = kBallX, ball_y = kBallY,
     move_dir = 0, ball_dir = 0, ball_dx = 0, ball_dy = 0\<rparr>"

text \<open>\<open>window\<close> is the result of \<open>SyscallOpenWindow\<close>: the layer, or the error.\<close>

definition blocks_main :: "speeds \<Rightarrow> int + u64 \<Rightarrow> u64 \<Rightarrow> AppEvent list \<Rightarrow> SysCall list option" where
  "blocks_main sp window first es =
    map_option (Cons (SyscallOpenWindow (kCanvasWidth + 8) (kCanvasHeight + 28) 10 10 (ascii ''blocks'')))
      (case window of
         Inl err \<Rightarrow> Some [SyscallExit err]
       | Inr layer_id \<Rightarrow> blocks_loop sp layer_id first 0 es first_game)"

section \<open>The speed of the ball\<close>

text \<open>All that is assumed of \<open>cos\<close> and \<open>sin\<close>.\<close>

definition accurate :: "speeds \<Rightarrow> bool" where
  "accurate sp \<longleftrightarrow>
    (\<forall>d. - (2 ^ 31) \<le> d \<and> d < 2 ^ 31 \<longrightarrow>
      \<bar>speed_x sp d - 130 * cos (pi * of_int d / 180) / 60\<bar> \<le> 1 / 100 \<and>
      \<bar>speed_y sp d - 130 * sin (pi * of_int d / 180) / 60\<bar> \<le> 1 / 100)"

definition diagonal :: "int \<Rightarrow> bool" where "diagonal d \<longleftrightarrow> d mod 90 = 45"

definition dir_x :: "int \<Rightarrow> int" where "dir_x d = (if d mod 360 = 45 \<or> d mod 360 = 315 then 2 else - 2)"
definition dir_y :: "int \<Rightarrow> int" where "dir_y d = (if d mod 360 = 45 \<or> d mod 360 = 135 then 2 else - 2)"

lemma diagonal_cases: "diagonal d \<Longrightarrow> d mod 360 = 45 \<or> d mod 360 = 135 \<or> d mod 360 = 225 \<or> d mod 360 = 315"
proof -
  assume "diagonal d"
  then have "(d mod 360) mod 90 = 45" by (simp add: diagonal_def mod_mod_cancel)
  moreover define q where "q = (d mod 360) div 90"
  ultimately have "d mod 360 = 90 * q + 45" by (metis mult_div_mod_eq)
  moreover from this have "0 \<le> q" "q < 4" using pos_mod_bound [of 360 d] pos_mod_sign [of 360 d] by linarith+
  then have "q = 0 \<or> q = 1 \<or> q = 2 \<or> q = 3" by linarith
  ultimately show ?thesis by auto
qed

lemma reflections:
  assumes "diagonal d"
  shows "diagonal (180 - d)" "dir_x (180 - d) = - dir_x d" "dir_y (180 - d) = dir_y d"
    "diagonal (- d)" "dir_x (- d) = dir_x d" "dir_y (- d) = - dir_y d"
proof -
  have "(180 - d) mod 90 = (180 - d mod 90) mod 90" "(- d) mod 90 = (- (d mod 90)) mod 90"
    by (simp_all add: mod_diff_right_eq mod_minus_eq)
  then show "diagonal (180 - d)" "diagonal (- d)" using assms by (simp_all add: diagonal_def)
  have "(180 - d) mod 360 = (180 - d mod 360) mod 360" "(- d) mod 360 = (- (d mod 360)) mod 360"
    by (simp_all add: mod_diff_right_eq mod_minus_eq)
  with diagonal_cases [OF assms]
  show "dir_x (180 - d) = - dir_x d" "dir_y (180 - d) = dir_y d" "dir_x (- d) = dir_x d" "dir_y (- d) = - dir_y d"
    by (auto simp: dir_x_def dir_y_def)
qed

text \<open>The real values at the diagonal directions.\<close>

lemma turns:
  "cos (pi * of_int (r + 360 * q) / 180) = cos (pi * of_int r / 180)"
  "sin (pi * of_int (r + 360 * q) / 180) = sin (pi * of_int r / 180)"
proof -
  have "pi * of_int (r + 360 * q) / 180 = pi * of_int r / 180 + 2 * pi * of_int q" 
    by (simp add: distrib_left add_divide_distrib)
  note split = this
  show "cos (pi * of_int (r + 360 * q) / 180) = cos (pi * of_int r / 180)"
    "sin (pi * of_int (r + 360 * q) / 180) = sin (pi * of_int r / 180)"
    unfolding split by (simp_all add: cos_add sin_add cos_int_2pin sin_int_2pin)
qed

lemma diagonal_values:
  assumes "diagonal d"
  shows "cos (pi * of_int d / 180) = of_int (dir_x d) * (sqrt 2 / 4)"
    "sin (pi * of_int d / 180) = of_int (dir_y d) * (sqrt 2 / 4)"
proof -
  have d: "d = d mod 360 + 360 * (d div 360)" by simp
  have a: "3 * pi / 4 = pi - pi / 4" "5 * pi / 4 = pi / 4 + pi" "7 * pi / 4 = 2 * pi - pi / 4" by simp_all
  have b: "cos (3 * pi / 4) = - (sqrt 2 / 2)" "sin (3 * pi / 4) = sqrt 2 / 2"
    "cos (5 * pi / 4) = - (sqrt 2 / 2)" "sin (5 * pi / 4) = - (sqrt 2 / 2)"
    "cos (7 * pi / 4) = sqrt 2 / 2" "sin (7 * pi / 4) = - (sqrt 2 / 2)"
    unfolding a by (simp_all only: cos_pi_minus sin_pi_minus cos_periodic_pi sin_periodic_pi cos_2pi_minus sin_2pi_minus cos_45 sin_45)
  from diagonal_cases [OF assms]
  have "cos (pi * of_int (d mod 360) / 180) = of_int (dir_x d) * (sqrt 2 / 4)
      \<and> sin (pi * of_int (d mod 360) / 180) = of_int (dir_y d) * (sqrt 2 / 4)"
    by (elim disjE) (simp_all add: b dir_x_def dir_y_def cos_45 sin_45)
  then show "cos (pi * of_int d / 180) = of_int (dir_x d) * (sqrt 2 / 4)"
    "sin (pi * of_int d / 180) = of_int (dir_y d) * (sqrt 2 / 4)"
    using turns [of "d mod 360" "d div 360"] d by simp_all
qed

lemma round_step:
  assumes "\<bar>v - 130 * (of_int s * (sqrt 2 / 4)) / 60\<bar> \<le> 1 / 100" "s = 2 \<or> s = - 2"
  shows "c_round v = s"
proof -
  have "1.41 \<le> sqrt (2::real)" by (rule real_le_rsqrt) (simp add: power2_eq_square)
  moreover have "sqrt (2::real) \<le> 1.42" by (rule real_le_lsqrt) (simp_all add: power2_eq_square)
  ultimately have root: "3 / 2 + 1 / 100 \<le> 13 * sqrt 2 / 12" "13 * sqrt 2 / 12 < 5 / 2 - 1 / 100" by simp_all
  from assms(2) show ?thesis
  proof
    assume s: "s = 2"
    then have "\<bar>v - 13 * sqrt 2 / 12\<bar> \<le> 1 / 100" using assms(1) by simp
    with root have "3 / 2 \<le> v" "v < 5 / 2" by linarith+
    then have "\<lfloor>v + 1 / 2\<rfloor> = 2" by (intro floor_unique) simp_all
    with s \<open>3 / 2 \<le> v\<close> show ?thesis by (simp add: c_round_def)
  next
    assume s: "s = - 2"
    then have "\<bar>v + 13 * sqrt 2 / 12\<bar> \<le> 1 / 100" using assms(1) by simp
    with root have "v \<le> - (3 / 2)" "- (5 / 2) < v" by linarith+
    then have "\<lceil>v - 1 / 2\<rceil> = - 2" by (intro ceiling_unique) simp_all
    with s \<open>v \<le> - (3 / 2)\<close> show ?thesis by (simp add: c_round_def)
  qed
qed

lemma ball_speed:
  assumes "accurate sp" "diagonal d" "\<bar>d\<bar> < 2 ^ 31"
  shows "c_round (speed_x sp d) = dir_x d" "c_round (speed_y sp d) = dir_y d"
proof -
  have "dir_x d = 2 \<or> dir_x d = - 2" "dir_y d = 2 \<or> dir_y d = - 2" by (auto simp: dir_x_def dir_y_def)
  moreover have "- (2 ^ 31) \<le> d \<and> d < 2 ^ 31" using assms(3) by auto
  then have "\<bar>speed_x sp d - 130 * (of_int (dir_x d) * (sqrt 2 / 4)) / 60\<bar> \<le> 1 / 100"
    "\<bar>speed_y sp d - 130 * (of_int (dir_y d) * (sqrt 2 / 4)) / 60\<bar> \<le> 1 / 100"
    using assms(1) unfolding diagonal_values [OF assms(2), symmetric] accurate_def by blast+
  ultimately show "c_round (speed_x sp d) = dir_x d" "c_round (speed_y sp d) = dir_y d"
    by (simp_all add: round_step)
qed

section \<open>The ball stays on the canvas\<close>

text \<open>
  \<open>n\<close> bounds the number of frames so far.  The ball moves diagonally, two pixels to each side, or waits at its place;
  after it was launched its old speed is used once.
\<close>

definition flying :: "nat \<Rightarrow> Game \<Rightarrow> bool" where
  "flying n g \<longleftrightarrow>
    diagonal (ball_dir g) \<and> \<bar>ball_dir g\<bar> \<le> 45 + 180 * int n \<and>
    5 \<le> ball_x g \<and> ball_x g \<le> 254 \<and> 5 \<le> ball_y g \<and> ball_y g \<le> 169 \<and>
    (ball_dx g = dir_x (ball_dir g) \<and> ball_dy g = dir_y (ball_dir g) \<or>
     ball_dir g = 45 \<and> ball_x g = kBallX \<and> ball_y g = kBallY)"

definition game_ok :: "nat \<Rightarrow> Game \<Rightarrow> bool" where
  "game_ok n g \<longleftrightarrow>
    length (blocks g) = 5 \<and> (\<forall>row \<in> set (blocks g). length row = 10) \<and>
    0 \<le> bar_x g \<and> bar_x g \<le> 229 \<and> ball_dx g \<in> {-2, 0, 2} \<and> ball_dy g \<in> {-2, 0, 2} \<and> move_dir g \<in> {-1, 0, 1} \<and>
    (ball_dir g = 0 \<and> (ball_y g = -1 \<or> ball_x g = kBallX \<and> ball_y g = kBallY) \<or> flying n g)"

lemma flying_dir: "flying n g \<Longrightarrow> ball_dir g \<noteq> 0"
  by (auto simp: flying_def diagonal_def)

lemma flying_later: "flying n g \<Longrightarrow> n \<le> m \<Longrightarrow> flying m g"
  by (auto simp: flying_def)

lemma game_ok_turn: "game_ok n g \<Longrightarrow> m \<in> {-1, 0, 1} \<Longrightarrow> game_ok n (g\<lparr>move_dir := m\<rparr>)"
  by (simp add: game_ok_def flying_def)

lemma game_ok_again: "game_ok n g \<Longrightarrow> ball_dir g = 0 \<Longrightarrow> game_ok n (g\<lparr>ball_x := kBallX, ball_y := kBallY\<rparr>)"
  by (simp add: game_ok_def)

lemma game_ok_launch: "game_ok n g \<Longrightarrow> ball_dir g = 0 \<Longrightarrow> \<not> ball_y g < 0 \<Longrightarrow> game_ok n (g\<lparr>ball_dir := 45\<rparr>)"
  by (auto simp: game_ok_def flying_def diagonal_def sizes)

lemma push_key_ok: "game_ok n g \<Longrightarrow> game_ok n (push_key keycode press g)"
  by (auto simp: push_key_def Let_def intro: game_ok_turn game_ok_again game_ok_launch)

lemma wait_timeout_ok: "wait_timeout es g = TimedOut g' es' \<Longrightarrow> game_ok n g \<Longrightarrow> game_ok n g'"
  by (induction es g rule: wait_timeout.induct) (auto split: AppEvent.splits simp: push_key_ok)

definition in_canvas :: "Game \<Rightarrow> int \<Rightarrow> bool" where
  "in_canvas g d \<longleftrightarrow>
    5 \<le> ball_x g + dir_x d \<and> ball_x g + dir_x d \<le> 254 \<and> 5 \<le> ball_y g + dir_y d \<and> ball_y g + dir_y d \<le> 169"

definition in_field :: "int \<Rightarrow> int \<Rightarrow> bool" where
  "in_field x y \<longleftrightarrow> 30 \<le> x \<and> x < 230 \<and> 30 \<le> y \<and> y < 80"

lemma int_dir_reflected:
  assumes "\<bar>d\<bar> \<le> 45 + 180 * int n" "45 + 180 * int (Suc n) < 2 ^ 31"
  shows "int_dir (180 - d) = Some (180 - d)" "int_dir (- d) = Some (- d)" "\<bar>180 - d\<bar> \<le> 45 + 180 * int (Suc n)"
    "int_dir (- (180 - d)) = Some (- (180 - d))"
  using assms by (auto simp: int_dir_def)

lemma dir_values: "(dir_x d = 2 \<or> dir_x d = - 2) \<and> (dir_y d = 2 \<or> dir_y d = - 2)"
  by (simp add: dir_x_def dir_y_def)

text \<open>The walls, and then the ceiling, the bar or the floor.\<close>

lemma wall_ok:
  assumes d: "diagonal d" "\<bar>d\<bar> \<le> 45 + 180 * int n" "45 + 180 * int (Suc n) < 2 ^ 31"
    and bx: "5 \<le> bx" "bx \<le> 254"
  defines "x \<equiv> bx + dir_x d"
  shows "\<exists>e. (if dir_x d < 0 \<and> x < 5 \<or> dir_x d > 0 \<and> 255 \<le> x then int_dir (180 - d) else Some d) = Some e \<and>
    diagonal e \<and> \<bar>e\<bar> \<le> 45 + 180 * int (Suc n) \<and> int_dir (- e) = Some (- e) \<and> dir_y e = dir_y d \<and>
    5 \<le> bx + dir_x e \<and> bx + dir_x e \<le> 254 \<and> (30 \<le> x \<and> x < 230 \<longrightarrow> e = d)"
proof (cases "dir_x d < 0 \<and> x < 5 \<or> dir_x d > 0 \<and> 255 \<le> x")
  case True
  with reflections [OF d(1)] int_dir_reflected [OF d(2,3)] dir_values [of d] bx show ?thesis
    by (auto simp: x_def)
next
  case False
  with int_dir_reflected [OF d(2,3)] dir_values [of d] bx d show ?thesis by (auto simp: x_def)
qed

lemma bounce_ok:
  assumes g: "flying n g" "45 + 180 * int (Suc n) < 2 ^ 31" "ball_dx g \<in> {-2, 0, 2}" "ball_dy g \<in> {-2, 0, 2}"
  defines "x \<equiv> ball_x g + ball_dx g" and "y \<equiv> ball_y g + ball_dy g"
  shows "bounce g x y = Some (Inl ()) \<or>
    (\<exists>d. bounce g x y = Some (Inr d) \<and> diagonal d \<and> \<bar>d\<bar> \<le> 45 + 180 * int (Suc n) \<and> in_canvas g d \<and>
      (in_field x y \<longrightarrow> d = ball_dir g \<and> x = ball_x g + dir_x d \<and> y = ball_y g + dir_y d))"
proof (cases "ball_dx g = dir_x (ball_dir g) \<and> ball_dy g = dir_y (ball_dir g)")
  case True
  have d: "diagonal (ball_dir g)" "\<bar>ball_dir g\<bar> \<le> 45 + 180 * int n"
    "5 \<le> ball_x g" "ball_x g \<le> 254" "5 \<le> ball_y g" "ball_y g \<le> 169" using g(1) by (simp_all add: flying_def)
  from wall_ok [OF d(1,2) g(2) d(3,4)] obtain e where
    e: "(if ball_dx g < 0 \<and> x < 5 \<or> ball_dx g > 0 \<and> 255 \<le> x then int_dir (180 - ball_dir g) else Some (ball_dir g)) = Some e"
      "diagonal e" "\<bar>e\<bar> \<le> 45 + 180 * int (Suc n)" "int_dir (- e) = Some (- e)" "dir_y e = dir_y (ball_dir g)"
      "5 \<le> ball_x g + dir_x e" "ball_x g + dir_x e \<le> 254" "30 \<le> x \<and> x < 230 \<longrightarrow> e = ball_dir g"
    using True by (auto simp: x_def)
  have dy: "ball_dy g = dir_y e" using True e(5) by simp
  have b: "bounce g x y =
    (if dir_y e < 0 \<and> y < 5 then Some (Inr (- e))
     else if bar_x g \<le> x \<and> x < bar_x g + 30 \<and> dir_y e > 0 \<and> 155 \<le> y then Some (Inr (- e))
     else if dir_y e > 0 \<and> 170 \<le> y then Some (Inl ()) else Some (Inr e))"
    using e(1,4) unfolding bounce_def dy [symmetric] by (auto simp: sizes)
  have yd: "y = ball_y g + dir_y e" "x = ball_x g + dir_x (ball_dir g)" using True dy by (simp_all add: x_def y_def)
  have up: "dir_y e = 2 \<or> dir_y e = - 2" using dir_values by simp
  consider "bounce g x y = Some (Inr (- e))" "dir_y e < 0" "y < 5" | "bounce g x y = Some (Inr (- e))" "0 < dir_y e" "155 \<le> y"
    | "bounce g x y = Some (Inl ())" | "bounce g x y = Some (Inr e)" "\<not> (dir_y e < 0 \<and> y < 5)" "\<not> (0 < dir_y e \<and> 170 \<le> y)"
    unfolding b by argo
  then show ?thesis
  proof cases
    case 1
    with reflections(4-6) [OF e(2)] e d(5) up yd show ?thesis by (simp add: in_canvas_def in_field_def)
  next
    case 2
    with reflections(4-6) [OF e(2)] e d(6) up yd show ?thesis by (auto simp: in_canvas_def in_field_def)
  next
    case 4
    with e d(5,6) up yd show ?thesis by (auto simp: in_canvas_def in_field_def)
  qed simp
next
  case False
  then have start: "ball_dir g = 45" "ball_x g = 105" "ball_y g = 135" using g(1) by (auto simp: flying_def sizes)
  then have xy: "103 \<le> x" "x \<le> 107" "133 \<le> y" "y \<le> 137" using g(3,4) by (auto simp: x_def y_def)
  then have "bounce g x y = Some (Inr 45)" using start by (auto simp: bounce_def sizes)
  moreover have "dir_x 45 = 2" "dir_y 45 = 2" by (simp_all add: dir_x_def dir_y_def)
  ultimately show ?thesis using start xy by (simp add: in_canvas_def in_field_def diagonal_def)
qed

lemma test_block_inside:
  assumes "length bs = 5" "\<forall>row \<in> set bs. length row = 10" "0 \<le> y" "y < 5" "0 \<le> x" "x < 10"
  shows "\<exists>b. test_block bs y x = Some b"
    "length (reset_block bs y x) = 5" "\<forall>row \<in> set (reset_block bs y x). length row = 10"
proof -
  have y: "nat y < length bs" using assms by simp
  then have "length (bs ! nat y) = 10" using assms(2) by auto
  then show "\<exists>b. test_block bs y x = Some b" "length (reset_block bs y x) = 5"
    "\<forall>row \<in> set (reset_block bs y x). length row = 10"
    using assms y by (auto simp: test_block_def reset_block_def dest!: set_update_subset_insert [THEN subsetD])
qed

lemma hit_block_ok:
  assumes d: "diagonal d" "\<bar>d\<bar> \<le> 45 + 180 * int (Suc n)" "in_canvas g d" "45 + 180 * int (Suc n) < 2 ^ 31"
    and field: "in_field x y \<Longrightarrow> \<bar>d\<bar> \<le> 45 + 180 * int n \<and> x = ball_x g + dir_x d \<and> y = ball_y g + dir_y d"
    and bs: "length (blocks g) = 5" "\<forall>row \<in> set (blocks g). length row = 10"
  shows "\<exists>bs d'. hit_block g x y d = Some (bs, d') \<and> length bs = 5 \<and> (\<forall>row \<in> set bs. length row = 10) \<and>
    diagonal d' \<and> \<bar>d'\<bar> \<le> 45 + 180 * int (Suc n) \<and> in_canvas g d'"
proof (cases "in_field x y")
  case True
  note f = field [OF True]
  have i: "0 \<le> (y - 30) div 10" "(y - 30) div 10 < 5" "0 \<le> (x - 30) div 20" "(x - 30) div 20 < 10"
    using True by (auto simp: in_field_def)
  note t = test_block_inside [OF bs i]
  from t(1) obtain there where there: "test_block (blocks g) ((y - 30) div 10) ((x - 30) div 20) = Some there" by blast
  note r = reflections [OF d(1)] reflections(4-6) [OF reflections(1) [OF d(1)]] int_dir_reflected [OF _ d(4), of d]
  have near: "in_canvas g (180 - d)" "in_canvas g (- d)" "in_canvas g (- (180 - d))"
    using True f r(1-9) dir_values [of d] by (auto simp: in_canvas_def in_field_def)
  show ?thesis
    using True f there t(2,3) bs d r near
    by (auto simp: hit_block_def in_field_def Let_def sizes)
next
  case False
  then have "hit_block g x y d = Some (blocks g, d)" by (auto simp: hit_block_def in_field_def sizes)
  with d bs show ?thesis by simp
qed

lemma bar_range: "0 \<le> LimitRange x 0 229" "LimitRange x 0 229 \<le> 229"
  by (simp_all add: LimitRange_def)

lemma move_objects_ok:
  assumes "accurate sp" "game_ok n g0" "45 + 180 * int (Suc n) < 2 ^ 31"
  shows "\<exists>g'. move_objects sp g0 = Some g' \<and> game_ok (Suc n) g'"
proof -
  define g where "g = g0\<lparr>bar_x := LimitRange (bar_x g0 + move_dir g0 * kBarSpeed sdiv kFrameRate) 0 229\<rparr>"
  have g: "game_ok n g" using assms(2) bar_range by (simp add: g_def game_ok_def flying_def)
  have m: "move_objects sp g0 =
     (if ball_dir g = 0 then Some g
      else
        let x = ball_x g + ball_dx g; y = ball_y g + ball_dy g in
        do {
          r \<leftarrow> bounce g x y;
          case r of
            Inl _ \<Rightarrow> Some (g\<lparr>ball_dir := 0, ball_y := - 1\<rparr>)
          | Inr dir \<Rightarrow> do {
              (bs, dir2) \<leftarrow> hit_block g x y dir;
              let dx = c_round (speed_x sp dir2);
              let dy = c_round (speed_y sp dir2);
              Some (g\<lparr>blocks := bs, ball_dir := dir2, ball_dx := dx, ball_dy := dy,
                      ball_x := ball_x g + dx, ball_y := ball_y g + dy\<rparr>)
            }
        })" by (simp add: move_objects_def g_def sizes Let_def)
  show ?thesis
  proof (cases "ball_dir g = 0")
    case True
    with g m show ?thesis by (auto simp: game_ok_def flying_def diagonal_def)
  next
    case False
    then have fl: "flying n g" "ball_dx g \<in> {-2, 0, 2}" "ball_dy g \<in> {-2, 0, 2}"
      and bs: "length (blocks g) = 5" "\<forall>row \<in> set (blocks g). length row = 10" using g by (auto simp: game_ok_def)
    let ?x = "ball_x g + ball_dx g" and ?y = "ball_y g + ball_dy g"
    from bounce_ok [OF fl(1) assms(3) fl(2,3)] consider "bounce g ?x ?y = Some (Inl ())"
      | d where "bounce g ?x ?y = Some (Inr d)" "diagonal d" "\<bar>d\<bar> \<le> 45 + 180 * int (Suc n)" "in_canvas g d"
        "in_field ?x ?y \<longrightarrow> d = ball_dir g \<and> ?x = ball_x g + dir_x d \<and> ?y = ball_y g + dir_y d" by blast
    then show ?thesis
    proof cases
      case 1
      with False g m show ?thesis by (auto simp: game_ok_def)
    next
      case 2
      have "in_field ?x ?y \<Longrightarrow> \<bar>d\<bar> \<le> 45 + 180 * int n \<and> ?x = ball_x g + dir_x d \<and> ?y = ball_y g + dir_y d"
        using 2(5) fl(1) by (auto simp: flying_def)
      from hit_block_ok [OF 2(2-4) assms(3) this bs] obtain b e where
        e: "hit_block g ?x ?y d = Some (b, e)" "length b = 5" "\<forall>row \<in> set b. length row = 10"
        "diagonal e" "\<bar>e\<bar> \<le> 45 + 180 * int (Suc n)" "in_canvas g e" by blast
      have "\<bar>e\<bar> < 2 ^ 31" using e(5) assms(3) by linarith
      note speed = ball_speed [OF assms(1) e(4) this]
      have "e \<noteq> 0" using e(4) by (auto simp: diagonal_def)
      with False 2(1) e speed m g dir_values [of e] show ?thesis
        by (auto simp: game_ok_def flying_def in_canvas_def Let_def)
    qed
  qed
qed

section \<open>Every call stays in the window\<close>

lemma layer_flags: "layer AND 0xffffffff = layer \<Longrightarrow> (layer OR LAYER_NO_REDRAW) AND 0xffffffff = (layer :: u64)"
  by (simp add: LAYER_NO_REDRAW_def bit.conj_disj_distrib2)

lemma draw_frame_inside:
  assumes "game_ok n g" "layer AND 0xffffffff = layer"
  shows "\<forall>c \<in> set (draw_frame layer g). stays_inside layer 268 203 c"
proof -
  note l = layer_flags [OF assms(2)]
  have ball: "ball_y g \<ge> 0 \<Longrightarrow> 5 \<le> ball_x g \<and> ball_x g \<le> 254 \<and> 5 \<le> ball_y g \<and> ball_y g \<le> 169"
    using assms(1) by (auto simp: game_ok_def flying_def sizes)
  have bar: "0 \<le> bar_x g" "bar_x g \<le> 229" using assms(1) by (simp_all add: game_ok_def)
  have "\<forall>c \<in> set (DrawBlocks (layer OR LAYER_NO_REDRAW) (blocks g)). stays_inside layer 268 203 c"
    using l by (auto simp: DrawBlocks_def Let_def sizes split: if_splits)
  moreover have "\<forall>c \<in> set (DrawBar (layer OR LAYER_NO_REDRAW) (bar_x g)). stays_inside layer 268 203 c"
    using l bar by (simp add: DrawBar_def sizes)
  moreover have "ball_y g \<ge> 0 \<Longrightarrow>
      \<forall>c \<in> set (DrawBall (layer OR LAYER_NO_REDRAW) (ball_x g) (ball_y g)). stays_inside layer 268 203 c"
    using l ball by (simp add: DrawBall_def sizes)
  ultimately show ?thesis using assms(2) l by (auto simp: draw_frame_def Let_def sizes)
qed

lemma next_timer_inside: "stays_inside l w h (snd (next_timer first prev))"
  by (simp add: next_timer_def Let_def)

text \<open>Calls that open or close the window, or end the program.\<close>

fun window_life :: "SysCall \<Rightarrow> bool" where
  "window_life (SyscallOpenWindow _ _ _ _ _) = True"
| "window_life (SyscallCloseWindow _) = True"
| "window_life (SyscallExit _) = True"
| "window_life _ = False"

lemma blocks_loop_inside:
  assumes "accurate sp" "layer AND 0xffffffff = layer"
  shows "game_ok n g \<Longrightarrow> 45 + 180 * int (n + length es) < 2 ^ 31 \<Longrightarrow>
    \<exists>cs. blocks_loop sp layer first prev es g = Some cs \<and> (\<forall>c \<in> set cs. window_life c \<or> stays_inside layer 268 203 c)"
proof (induction es arbitrary: n prev g rule: length_induct)
  case (1 es)
  let ?timer = "next_timer first prev"
  let ?calls = "draw_frame layer g @ [snd ?timer]"
  have calls: "\<forall>c \<in> set ?calls. window_life c \<or> stays_inside layer 268 203 c"
    using draw_frame_inside [OF 1(2) assms(2)] next_timer_inside [of layer 268 203 first prev] by auto
  have loop: "blocks_loop sp layer first prev es g =
     (case wait_timeout es g of
       Waiting \<Rightarrow> Some ?calls
     | Quitted \<Rightarrow> Some (?calls @ [SyscallCloseWindow layer, SyscallExit 0])
     | TimedOut g1 es1 \<Rightarrow>
         (case move_objects sp g1 of
            None \<Rightarrow> None
          | Some g2 \<Rightarrow> map_option (\<lambda>cs. ?calls @ cs) (blocks_loop sp layer first (fst ?timer) es1 g2)))"
    by (subst blocks_loop.simps) (simp add: Let_def split_beta)
  show ?case
  proof (cases "wait_timeout es g")
    case (TimedOut g1 es1)
    have shorter: "length es1 < length es" by (rule wait_timeout_shorter [OF TimedOut])
    have "45 + 180 * int (Suc n) < 2 ^ 31" using 1(3) shorter by simp
    from move_objects_ok [OF assms(1) wait_timeout_ok [OF TimedOut 1(2)] this] obtain g2 where
      g2: "move_objects sp g1 = Some g2" "game_ok (Suc n) g2" by blast
    have "45 + 180 * int (Suc n + length es1) < 2 ^ 31" using 1(3) shorter by simp
    with 1(1) shorter g2(2) obtain cs where "blocks_loop sp layer first (fst ?timer) es1 g2 = Some cs"
      "\<forall>c \<in> set cs. window_life c \<or> stays_inside layer 268 203 c" by blast
    with loop TimedOut g2(1) calls show ?thesis by auto
  qed (use loop calls in auto)
qed

definition exact_speeds :: speeds where
  "exact_speeds = \<lparr>speed_x = (\<lambda>d. 130 * cos (pi * of_int d / 180) / 60), speed_y = (\<lambda>d. 130 * sin (pi * of_int d / 180) / 60)\<rparr>"

lemma first_game_ok: "game_ok 0 first_game"
  by (simp add: game_ok_def first_game_def sizes)

text \<open>
  C0. Whatever events come, a game of fewer than ten million events never meets undefined behaviour, and each of its
  calls between opening and closing the window is one that the kernel, which checks no coordinates, carries out in
  every state in which the window is open, and which keeps it open.
\<close>

theorem blocks_draws_inside:
  assumes "accurate sp" "layer AND 0xffffffff = layer" "length es < 10 ^ 7"
  shows "\<exists>calls. blocks_main sp (Inr layer) first es = Some calls \<and>
    (\<forall>c \<in> set calls. window_life c \<or>
      (\<forall>mach loc k. window_open layer 268 203 k \<longrightarrow>
        (\<exists>k' r. perform mach loc c k = Some (k', r) \<and> window_open layer 268 203 k')))"
proof -
  have "45 + 180 * int (0 + length es) < 2 ^ 31" using assms(3) by simp
  from blocks_loop_inside [OF assms(1,2) first_game_ok this, of first 0] obtain cs where
    "blocks_loop sp layer first 0 es first_game = Some cs" "\<forall>c \<in> set cs. window_life c \<or> stays_inside layer 268 203 c"
    by blast
  then show ?thesis using kernel_windows.inside_defined by (fastforce simp: blocks_main_def)
qed

lemma exact_speeds_accurate: "accurate exact_speeds"
  by (simp add: accurate_def exact_speeds_def)

theorem blocks_draws_inside_witness:
  "\<exists>calls. blocks_main exact_speeds (Inr 7) 600 [AppKeyPush 0 44 0 1, AppTimerTimeout 600 (- 1), AppTimerTimeout 616 (- 1), AppQuit]
      = Some calls \<and>
    (\<forall>c \<in> set calls. window_life c \<or>
      (\<forall>mach loc k. window_open 7 268 203 k \<longrightarrow>
        (\<exists>k' r. perform mach loc c k = Some (k', r) \<and> window_open 7 268 203 k')))"
  by (rule blocks_draws_inside [OF exact_speeds_accurate]) simp_all

end
