(* ===== verification/Program_Library.thy ===== *)
theory Program_Library
  imports Programs Terminal_Commands "HOL-Library.Signed_Division"
begin

text \<open>
  What the programs use of the C library: numbers in decimal, C strings and buffered input.  A stream of
  \<open>stdio\<close> is the list of the bytes that are still to come; a C string is a list without its terminator.
\<close>

section \<open>Numbers\<close>

definition is_digit :: "u8 \<Rightarrow> bool" where "is_digit c \<longleftrightarrow> 0x30 \<le> c \<and> c \<le> 0x39"

definition digits_value :: "u8 list \<Rightarrow> int" where
  "digits_value ds = foldl (\<lambda>n c. 10 * n + (uint c - 0x30)) 0 ds"

text \<open>The number at the beginning of a string, after blanks and a sign; 0 when there is none.\<close>

definition decimal :: "u8 list \<Rightarrow> int" where
  "decimal s =
    (case dropWhile is_space s of
       [] \<Rightarrow> 0
     | c # cs \<Rightarrow>
         if c = 0x2d then - digits_value (takeWhile is_digit cs)
         else if c = 0x2b then digits_value (takeWhile is_digit cs)
         else digits_value (takeWhile is_digit (c # cs)))"

text \<open>Signed integers of \<open>w\<close> bits; a value outside is undefined.\<close>

definition in_int :: "nat \<Rightarrow> int \<Rightarrow> int option" where
  "in_int w x = (if - (2 ^ (w - 1)) \<le> x \<and> x < 2 ^ (w - 1) then Some x else None)"

definition atol :: "u8 list \<Rightarrow> int option" where "atol s = in_int 64 (decimal s)"
definition atoi :: "u8 list \<Rightarrow> int option" where "atoi s = in_int 32 (decimal s)"

lemma is_digit_char: "d < 10 \<Longrightarrow> is_digit (digit_char d) \<and> uint (digit_char d) = 0x30 + int d"
proof -
  assume d: "d < 10"
  then have "digit_char d = of_nat (0x30 + d)" by (simp add: digit_char_def)
  then have "unat (digit_char d) = 0x30 + d" using d by (simp only: unat_of_nat) simp
  with d show ?thesis by (simp add: is_digit_def word_le_nat_alt uint_nat del: of_nat_unat)
qed

lemma digits_less: "2 \<le> b \<Longrightarrow> \<forall>d \<in> set (digits b n). d < b"
proof (induction b n rule: digits.induct)
  case (1 b n)
  then show ?case by (subst digits.simps) auto
qed

lemma digits_nonempty: "digits b n \<noteq> []"
  by (subst digits.simps) simp

lemma digits_value_append: "digits_value (ds @ [c]) = 10 * digits_value ds + (uint c - 0x30)"
  by (simp add: digits_value_def)

lemma digits_value_dec: "digits_value (dec n) = int n"
proof (induction n rule: less_induct)
  case (less n)
  show ?case
  proof (cases "n < 10")
    case True
    then have "dec n = [digit_char n]" by (simp add: dec_def digits.simps [of 10 n])
    then show ?thesis using is_digit_char [OF True] by (simp add: digits_value_def)
  next
    case False
    then have "dec n = dec (n div 10) @ [digit_char (n mod 10)]" by (simp add: dec_def digits.simps [of 10 n])
    then show ?thesis
      using less.IH [of "n div 10"] False is_digit_char [of "n mod 10"]
      by (simp add: digits_value_append flip: of_nat_add of_nat_mult) (metis mult_div_mod_eq of_nat_add of_nat_mult of_nat_numeral)
  qed
qed

lemma dec_digits: "\<forall>c \<in> set (dec n). is_digit c" "dec n \<noteq> []"
  using digits_less [of 10 n] is_digit_char digits_nonempty by (auto simp: dec_def)

lemma digit_no_space: "is_digit c \<Longrightarrow> \<not> is_space c \<and> c \<noteq> 0x2d \<and> c \<noteq> 0x2b"
  by (auto simp: is_digit_def is_space_def word_le_nat_alt)

text \<open>Printing a number and reading it again.\<close>

lemma decimal_dec_int: "decimal (dec_int i) = i"
proof (cases "i < 0")
  case True
  moreover have "\<not> is_space 0x2d" by (simp add: is_space_def)
  ultimately show ?thesis using dec_digits(1) [of "nat (- i)"]
    by (simp add: dec_int_def decimal_def takeWhile_eq_all_conv [THEN iffD2] digits_value_dec)
next
  case False
  obtain c cs where c: "dec (nat i) = c # cs" using dec_digits(2) by (cases "dec (nat i)") auto
  with dec_digits(1) [of "nat i"] digit_no_space [of c] have "decimal (dec_int i) = digits_value (dec (nat i))"
    using False by (auto simp: dec_int_def decimal_def takeWhile_eq_all_conv [THEN iffD2])
  then show ?thesis using False by (simp add: digits_value_dec)
qed

lemma atol_dec_int: "in_int 64 i = Some j \<Longrightarrow> atol (dec_int i) = Some i"
  by (simp add: atol_def decimal_dec_int in_int_def split: if_splits)

section \<open>Streams\<close>

text \<open>
  \<open>fgets\<close> reads up to a newline, at most one byte less than the size of the buffer; no result at the
  end of the stream.
\<close>

fun take_line :: "nat \<Rightarrow> u8 list \<Rightarrow> u8 list \<times> u8 list" where
  "take_line 0 bs = ([], bs)"
| "take_line (Suc n) [] = ([], [])"
| "take_line (Suc n) (b # bs) = (if b = 0x0a then ([b], bs) else let (l, r) = take_line n bs in (b # l, r))"

definition fgets :: "nat \<Rightarrow> u8 list \<Rightarrow> (u8 list \<times> u8 list) option" where
  "fgets len bs = (if bs = [] then None else Some (take_line (len - 1) bs))"

lemma take_line_split: "take_line n bs = (l, r) \<Longrightarrow> bs = l @ r"
  by (induction n bs arbitrary: l r rule: take_line.induct) (auto split: if_splits prod.splits)

lemma take_line_takes: "take_line (Suc n) (b # bs) = (l, r) \<Longrightarrow> l \<noteq> []"
  by (auto split: if_splits prod.splits)

text \<open>The lines that a loop over \<open>fgets\<close> gets, and what of them is a C string.\<close>

function fgets_lines :: "nat \<Rightarrow> u8 list \<Rightarrow> u8 list list" where
  "fgets_lines len bs =
    (if len < 2 then [] else
     case fgets len bs of None \<Rightarrow> [] | Some (l, r) \<Rightarrow> l # fgets_lines len r)"
  by pat_completeness auto
termination
proof (relation "measure (length \<circ> snd)")
  fix len :: nat and bs l r :: "u8 list" and x y
  assume *: "\<not> len < 2" "fgets len bs = Some x" "(l, r) = x"
  then obtain b bs' n where "bs = b # bs'" "len - 1 = Suc n" by (cases bs; cases "len - 1") (auto simp: fgets_def)
  with * take_line_split [of "Suc n" "b # bs'" l r] take_line_takes [of n b bs' l r]
  show "((len, r), len, bs) \<in> measure (length \<circ> snd)" by (auto simp: fgets_def)
qed simp

declare fgets_lines.simps [simp del]

definition c_string :: "u8 list \<Rightarrow> u8 list" where "c_string s = takeWhile (\<lambda>c. c \<noteq> 0) s"

lemma c_string_id: "0 \<notin> set s \<Longrightarrow> c_string s = s"
  by (auto simp: c_string_def takeWhile_eq_all_conv)

text \<open>No byte of the input is lost.\<close>

lemma concat_fgets_lines: "2 \<le> len \<Longrightarrow> concat (fgets_lines len bs) = bs"
proof (induction len bs rule: fgets_lines.induct)
  case (1 len bs)
  show ?case
  proof (cases "fgets len bs")
    case None
    then show ?thesis by (subst fgets_lines.simps) (auto simp: fgets_def split: if_splits)
  next
    case (Some lr)
    obtain l r where lr: "lr = (l, r)" by (cases lr)
    with Some take_line_split [of "len - 1" bs l r] have "bs = l @ r" by (auto simp: fgets_def split: if_splits)
    moreover have "concat (fgets_lines len r) = r" using 1 Some lr by auto
    ultimately show ?thesis using Some lr 1(2) by (subst fgets_lines.simps) simp
  qed
qed

end
