(* ===== verification/Rpn.thy ===== *)
theory Rpn
  imports Program_Library
begin

text \<open>
  The calculator \<open>apps/rpn/rpn.cpp\<close>: its arguments are a formula in postfix notation.  A result that is no \<open>long\<close>, a
  division by zero and an access outside of the array are undefined.  The property compares it with the value of
  the formula as a tree.
\<close>

section \<open>The program\<close>

record Rpn =
  stack_ptr :: int
  rpn_stack :: "int list"

definition Pop_rpn :: "Rpn \<Rightarrow> (int \<times> Rpn) option" where
  "Pop_rpn s =
    (if 0 \<le> stack_ptr s \<and> nat (stack_ptr s) < length (rpn_stack s)
     then Some (rpn_stack s ! nat (stack_ptr s), s\<lparr>stack_ptr := stack_ptr s - 1\<rparr>) else None)"

definition Push_rpn :: "int \<Rightarrow> Rpn \<Rightarrow> Rpn option" where
  "Push_rpn v s =
    (let i = stack_ptr s + 1 in
     if 0 \<le> i \<and> nat i < length (rpn_stack s)
     then Some \<lparr>stack_ptr = i, rpn_stack = (rpn_stack s)[nat i := v]\<rparr> else None)"

datatype operator = Plus | Minus | Times | Divide | Modulo

fun op_char :: "operator \<Rightarrow> u8 list" where
  "op_char Plus = [0x2b]"
| "op_char Minus = [0x2d]"
| "op_char Times = [0x2a]"
| "op_char Divide = [0x2f]"
| "op_char Modulo = [0x25]"

text \<open>Arithmetic of \<open>long\<close>; the remainder is computed with the quotient, which must be a \<open>long\<close> as well.\<close>

fun compute :: "operator \<Rightarrow> int \<Rightarrow> int \<Rightarrow> int option" where
  "compute Plus a b = in_int 64 (a + b)"
| "compute Minus a b = in_int 64 (a - b)"
| "compute Times a b = in_int 64 (a * b)"
| "compute Divide a b = (if b = 0 then None else in_int 64 (a sdiv b))"
| "compute Modulo a b = (if b = 0 then None else do { q \<leftarrow> in_int 64 (a sdiv b); Some (a smod b) })"

definition operator_of :: "u8 list \<Rightarrow> operator option" where
  "operator_of str = find (\<lambda>op. op_char op = str) [Plus, Minus, Times, Divide, Modulo]"

definition rpn_arg :: "u8 list \<Rightarrow> Rpn \<Rightarrow> Rpn option" where
  "rpn_arg str s =
    (case operator_of str of
       Some op \<Rightarrow> do {
         (b, s1) \<leftarrow> Pop_rpn s;
         (a, s2) \<leftarrow> Pop_rpn s1;
         v \<leftarrow> compute op a b;
         Push_rpn v s2
       }
     | None \<Rightarrow> do { a \<leftarrow> atol str; Push_rpn a s })"

fun rpn_args :: "u8 list list \<Rightarrow> Rpn \<Rightarrow> Rpn option" where
  "rpn_args [] s = Some s"
| "rpn_args (str # strs) s = do { s1 \<leftarrow> rpn_arg str s; rpn_args strs s1 }"

definition rpn_start :: Rpn where "rpn_start = \<lparr>stack_ptr = - 1, rpn_stack = replicate 100 0\<rparr>"

text \<open>What is printed and the exit code, which is the result as an \<open>int\<close>.\<close>

definition rpn_main :: "u8 list list \<Rightarrow> (u8 list \<times> int) option" where
  "rpn_main args =
    do {
      s \<leftarrow> rpn_args (tl args) rpn_start;
      result \<leftarrow> (if stack_ptr s \<ge> 0 then map_option fst (Pop_rpn s) else Some 0);
      Some (dec_int result @ [0x0a], sint (word_of_int result :: u32))
    }"

section \<open>Formulas\<close>

datatype formula = Number int | Operation operator formula formula

fun formula_value :: "formula \<Rightarrow> int option" where
  "formula_value (Number n) = in_int 64 n"
| "formula_value (Operation op f g) = do { a \<leftarrow> formula_value f; b \<leftarrow> formula_value g; compute op a b }"

fun postfix :: "formula \<Rightarrow> u8 list list" where
  "postfix (Number n) = [dec_int n]"
| "postfix (Operation op f g) = postfix f @ postfix g @ [op_char op]"

text \<open>The places of the stack that are needed.\<close>

fun places :: "formula \<Rightarrow> nat" where
  "places (Number n) = 1"
| "places (Operation op f g) = max (places f) (Suc (places g))"

lemma places_positive [simp]: "0 < places f"
  by (induction f) auto

section \<open>The calculator computes the value\<close>

lemma operator_of_char [simp]: "operator_of (op_char op) = Some op"
  by (cases op) (simp_all add: operator_of_def)

lemma operator_of_number [simp]: "operator_of (dec_int n) = None"
proof -
  have number: "dec m \<noteq> op_char op" "0x2d # dec m \<noteq> op_char op" for m op
  proof -
    have "is_digit (hd (dec m))" using dec_digits [of m] by simp
    moreover have "\<not> is_digit (hd (op_char op))" by (cases op) (simp_all add: is_digit_def)
    ultimately show "dec m \<noteq> op_char op" by metis
    show "0x2d # dec m \<noteq> op_char op" using dec_digits(2) [of m] by (cases op) simp_all
  qed
  then have "dec_int n \<noteq> op_char op" for op by (simp add: dec_int_def)
  then show ?thesis by (simp add: operator_of_def del: op_char.simps)  (metis)
qed

text \<open>
  A formula needs its places above the top, leaves its value there and keeps what is below.
\<close>

definition below :: "Rpn \<Rightarrow> int list" where
  "below s = take (nat (stack_ptr s + 1)) (rpn_stack s)"

definition rpn_ok :: "Rpn \<Rightarrow> bool" where
  "rpn_ok s \<longleftrightarrow> length (rpn_stack s) = 100 \<and> - 1 \<le> stack_ptr s \<and> stack_ptr s < 100"

lemma Push_ok:
  assumes "rpn_ok s" "length (below s) < 100"
  shows "\<exists>s1. Push_rpn v s = Some s1 \<and> rpn_ok s1 \<and> below s1 = below s @ [v]"
proof -
  define n where "n = nat (stack_ptr s + 1)"
  have n: "n < 100" "length (rpn_stack s) = 100" "stack_ptr s + 1 = int n" "below s = take n (rpn_stack s)"
    using assms by (auto simp: below_def rpn_ok_def n_def)
  then have "take (Suc n) ((rpn_stack s)[n := v]) = below s @ [v]" by (simp add: take_Suc_conv_app_nth)
  moreover have "Push_rpn v s = Some \<lparr>stack_ptr = int n, rpn_stack = (rpn_stack s)[n := v]\<rparr>"
    using n by (simp add: Push_rpn_def Let_def)
  moreover have "nat (int n + 1) = Suc n" by simp
  ultimately show ?thesis using n(1,2) by (simp add: rpn_ok_def below_def)
qed

lemma Pop_ok:
  assumes "rpn_ok s" "below s = st @ [v]"
  shows "\<exists>s1. Pop_rpn s = Some (v, s1) \<and> rpn_ok s1 \<and> below s1 = st"
proof -
  have "length (below s) = nat (stack_ptr s + 1)" using assms(1) by (auto simp: below_def rpn_ok_def)
  with assms(2) have p: "stack_ptr s = int (length st)" by simp
  with assms have "take (Suc (length st)) (rpn_stack s) = st @ [v]" "length st < length (rpn_stack s)"
    by (simp_all add: below_def rpn_ok_def nat_add_distrib)
  then have "rpn_stack s ! length st = v" "take (length st) (rpn_stack s) = st"
    by (simp_all add: take_Suc_conv_app_nth)
  with p assms(1) show ?thesis by (simp add: Pop_rpn_def rpn_ok_def below_def)
qed

lemma rpn_args_append: "rpn_args (xs @ ys) s = do { s1 \<leftarrow> rpn_args xs s; rpn_args ys s1 }"
proof (induction xs arbitrary: s)
  case (Cons x xs)
  then show ?case by (cases "rpn_arg x s") simp_all
qed simp

lemma rpn_formula:
  "formula_value f = Some v \<Longrightarrow> rpn_ok s \<Longrightarrow> length (below s) + places f \<le> 100 \<Longrightarrow>
    \<exists>s1. rpn_args (postfix f) s = Some s1 \<and> rpn_ok s1 \<and> below s1 = below s @ [v]"
proof (induction f arbitrary: v s)
  case (Number n)
  then have "atol (dec_int n) = Some n" "v = n" by (auto simp: in_int_def intro: atol_dec_int split: if_splits)
  with Push_ok [OF Number(2), of n] Number(3) show ?case by (auto simp: rpn_arg_def)
next
  case (Operation op f g)
  then obtain a b where ab: "formula_value f = Some a" "formula_value g = Some b" "compute op a b = Some v"
    by (auto simp: bind_eq_Some)
  from Operation.IH(1) [OF ab(1) Operation.prems(2)] Operation.prems(3) obtain s1 where
    s1: "rpn_args (postfix f) s = Some s1" "rpn_ok s1" "below s1 = below s @ [a]" by fastforce
  from Operation.IH(2) [OF ab(2) s1(2)] s1(3) Operation.prems(3) obtain s2 where
    s2: "rpn_args (postfix g) s1 = Some s2" "rpn_ok s2" "below s2 = (below s @ [a]) @ [b]" by fastforce
  from Pop_ok [OF s2(2,3)] obtain s3 where s3: "Pop_rpn s2 = Some (b, s3)" "rpn_ok s3" "below s3 = below s @ [a]" by blast
  from Pop_ok [OF s3(2,3)] obtain s4 where s4: "Pop_rpn s3 = Some (a, s4)" "rpn_ok s4" "below s4 = below s" by blast
  have "length (below s4) < 100" using s4(3) Operation.prems(3) places_positive [of f] by (simp del: places_positive)
  from Push_ok [OF s4(2) this, of v] obtain s5 where "Push_rpn v s4 = Some s5" "rpn_ok s5" "below s5 = below s @ [v]"
    using s4(3) by auto
  with s1 s2 s3 s4 ab(3) show ?case by (simp add: rpn_args_append rpn_arg_def)
qed

text \<open>
  C0. For every formula that has a value, with no step outside of \<open>long\<close> and no division by zero, and that needs
  at most 100 places of the stack, the calculator prints exactly this value and ends with it, as an \<open>int\<close>, as its
  exit code.
\<close>

theorem rpn_computes:
  assumes "formula_value f = Some v" "places f \<le> 100"
  shows "rpn_main (cmd # postfix f) = Some (dec_int v @ [0x0a], sint (word_of_int v :: u32))"
proof -
  have "rpn_ok rpn_start" "below rpn_start = []" by (simp_all add: rpn_ok_def rpn_start_def below_def)
  with rpn_formula [OF assms(1), of rpn_start] assms(2) obtain s where
    s: "rpn_args (postfix f) rpn_start = Some s" "rpn_ok s" "below s = [] @ [v]" by auto
  from Pop_ok [OF s(2,3)] obtain s1 where "Pop_rpn s = Some (v, s1)" by blast
  moreover have "0 \<le> stack_ptr s" using calculation by (auto simp: Pop_rpn_def split: if_splits)
  ultimately show ?thesis using s(1) by (simp add: rpn_main_def)
qed

theorem rpn_computes_witness:
  "rpn_main [ascii ''rpn'', ascii ''7'', ascii ''-2'', ascii ''5'', ascii ''*'', ascii ''-''] = Some (ascii ''17'' @ [0x0a], 17)"
proof -
  have "[ascii ''7'', ascii ''-2'', ascii ''5'', ascii ''*'', ascii ''-''] =
      postfix (Operation Minus (Number 7) (Operation Times (Number (- 2)) (Number 5)))"
    by (simp add: ascii_def dec_int_def dec_def digits.simps digit_char_def)
  moreover have "dec_int 17 = ascii ''17''" by (simp add: ascii_def dec_int_def dec_def digits.simps digit_char_def)
  ultimately show ?thesis
    using rpn_computes [of "Operation Minus (Number 7) (Operation Times (Number (- 2)) (Number 5))" 17 "ascii ''rpn''"]
    by (simp add: in_int_def)
qed

end
