(* ===== verification/Text_Programs.thy ===== *)
theory Text_Programs
  imports Program_Library "HOL-Library.List_Lexorder"
begin

text \<open>
  The programs that read files and print text: \<open>sort\<close>, \<open>more\<close>, \<open>grep\<close>, \<open>cp\<close>, \<open>readfile\<close>, \<open>dpage\<close>, \<open>mmap\<close> and
  \<open>timer\<close> (\<open>apps/*/*.cpp\<close>).  Each is a function from its arguments, the files it can open and the events it
  reads to what it prints and its exit code.
\<close>

section \<open>Files, output and events\<close>

text \<open>What \<open>fopen\<close> finds under a name, the input, and the texts of the error numbers.\<close>

record library =
  stdin_bytes :: "u8 list"
  file_bytes :: "u8 list \<Rightarrow> u8 list option"
  strerror :: "int \<Rightarrow> u8 list"

datatype Print = Stdout "u8 list" | Stderr "u8 list"

text \<open>An exit code, waiting for an event that has not come, or a trap of the processor.\<close>

datatype End = Exited int | Waits | Trapped

type_synonym run = "Print list \<times> End"

definition fails :: "(u8 list \<Rightarrow> Print) \<Rightarrow> u8 list \<Rightarrow> run" where
  "fails out msg = ([out msg], Exited 1)"

definition printing :: "Print list \<Rightarrow> run \<Rightarrow> run" where
  "printing ps r = (ps @ fst r, snd r)"

definition lf_text :: "u8 list" where "lf_text = [0x0a]"

text \<open>What a read of one event gives: an error number or the event.\<close>

type_synonym read_result = "int + AppEvent"

section \<open>\<open>sort\<close>\<close>

text \<open>\<open>char\<close> is signed.\<close>

fun sort_comp :: "u8 list \<Rightarrow> u8 list \<Rightarrow> bool" where
  "sort_comp (a # as) (b # bs) =
    (if sint a < sint b then True else if sint a > sint b then False else sort_comp as bs)"
| "sort_comp as bs = (length as < length bs)"

text \<open>\<open>std::sort\<close>.  Only one order of the lines is sorted, so it does not matter how it is found.\<close>

fun insert_line :: "u8 list \<Rightarrow> u8 list list \<Rightarrow> u8 list list" where
  "insert_line l [] = [l]"
| "insert_line l (m # ms) = (if sort_comp m l then m # insert_line l ms else l # m # ms)"

definition sort_lines :: "u8 list list \<Rightarrow> u8 list list" where
  "sort_lines ls = foldr insert_line ls []"

definition input_of :: "library \<Rightarrow> u8 list option \<Rightarrow> u8 list option" where
  "input_of lib path = (case path of None \<Rightarrow> Some (stdin_bytes lib) | Some f \<Rightarrow> file_bytes lib f)"

definition nth_arg :: "nat \<Rightarrow> u8 list list \<Rightarrow> u8 list option" where
  "nth_arg i args = (if i < length args then Some (args ! i) else None)"

definition sort_main :: "library \<Rightarrow> u8 list list \<Rightarrow> run" where
  "sort_main lib args =
    (case input_of lib (nth_arg 1 args) of
       None \<Rightarrow> fails Stderr (ascii ''failed to open '' @ [0x27] @ args ! 1 @ [0x27] @ lf_text)
     | Some bs \<Rightarrow> (map Stdout (sort_lines (map c_string (fgets_lines 1024 bs))), Exited 0))"

section \<open>\<open>more\<close>\<close>

datatype Key = Pressed "read_result list" | Leave Print int | Quit_key | No_event

fun WaitKey :: "library \<Rightarrow> read_result list \<Rightarrow> Key" where
  "WaitKey lib [] = No_event"
| "WaitKey lib (r # rs) =
    (case r of
       Inl err \<Rightarrow> Leave (Stderr (ascii ''ReadEvent failed: '' @ strerror lib err @ lf_text)) 1
     | Inr e \<Rightarrow>
         (case e of
            AppQuit \<Rightarrow> Quit_key
          | AppKeyPush _ _ _ press \<Rightarrow> if press \<noteq> 0 then Pressed rs else WaitKey lib rs
          | _ \<Rightarrow> WaitKey lib rs))"

fun more_lines :: "library \<Rightarrow> int \<Rightarrow> nat \<Rightarrow> u8 list list \<Rightarrow> read_result list \<Rightarrow> run" where
  "more_lines lib page_size i [] rs = ([], Exited 0)"
| "more_lines lib page_size i (l # ls) rs =
    (if i = 0 then printing [Stdout l] (more_lines lib page_size (i + 1) ls rs)
     else if page_size = 0 then ([], Trapped)
     else if int i smod page_size = 0 then
       printing [Stderr (ascii ''---more---'' @ lf_text)]
         (case WaitKey lib rs of
            Pressed rs' \<Rightarrow> printing [Stdout l] (more_lines lib page_size (i + 1) ls rs')
          | Leave msg code \<Rightarrow> ([msg], Exited code)
          | Quit_key \<Rightarrow> ([], Exited 0)
          | No_event \<Rightarrow> ([], Waits))
     else printing [Stdout l] (more_lines lib page_size (i + 1) ls rs))"

text \<open>The page size is the number behind a minus in the first argument.\<close>

definition page_option :: "u8 list list \<Rightarrow> u8 list option" where
  "page_option args =
    (case nth_arg 1 args of
       Some (c # d # s) \<Rightarrow> if c = 0x2d \<and> is_digit d then Some (d # s) else None
     | _ \<Rightarrow> None)"

definition more_main :: "library \<Rightarrow> u8 list list \<Rightarrow> read_result list \<Rightarrow> run option" where
  "more_main lib args rs =
    do {
      (page_size, arg_file) \<leftarrow>
        (case page_option args of
           None \<Rightarrow> Some (10, 1)
         | Some s \<Rightarrow> do { n \<leftarrow> atoi s; Some (n, 2) });
      Some (case input_of lib (nth_arg arg_file args) of
              None \<Rightarrow> fails Stderr (ascii ''failed to open '' @ args ! arg_file @ lf_text)
            | Some bs \<Rightarrow> more_lines lib page_size 0 (map c_string (fgets_lines 256 bs)) rs)
    }"

section \<open>\<open>grep\<close>, \<open>readfile\<close>, \<open>cp\<close>\<close>

text \<open>\<open>search pattern line\<close> is \<open>std::regex_search\<close>.\<close>

definition grep_main :: "(u8 list \<Rightarrow> u8 list \<Rightarrow> bool) \<Rightarrow> library \<Rightarrow> u8 list list \<Rightarrow> run" where
  "grep_main search lib args =
    (if length args < 2 then fails Stderr (ascii ''Usage: '' @ args ! 0 @ ascii '' <pattern> <file>'' @ lf_text)
     else
       case input_of lib (nth_arg 2 args) of
         None \<Rightarrow> fails Stderr (ascii ''failed to open: '' @ args ! 2 @ lf_text)
       | Some bs \<Rightarrow>
           (map Stdout (filter (search (args ! 1)) (map c_string (fgets_lines 256 bs))), Exited 0))"

fun read_three :: "nat \<Rightarrow> u8 list \<Rightarrow> run" where
  "read_three 0 bs = ([Stdout (ascii ''-----'' @ lf_text)], Exited 0)"
| "read_three (Suc n) bs =
    (case fgets 256 bs of
       None \<Rightarrow> fails Stdout (ascii ''failed to get a line'' @ lf_text)
     | Some (l, r) \<Rightarrow> printing [Stdout (c_string l)] (read_three n r))"

definition readfile_main :: "library \<Rightarrow> u8 list list \<Rightarrow> run" where
  "readfile_main lib args =
    (let path = (case nth_arg 1 args of None \<Rightarrow> ascii ''/memmap'' | Some p \<Rightarrow> p) in
     case file_bytes lib path of
       None \<Rightarrow> fails Stdout (ascii ''failed to open: '' @ path @ lf_text)
     | Some bs \<Rightarrow> read_three 3 bs)"

text \<open>
  The copy in pieces of 256 bytes.  \<open>written n\<close> is what \<open>fwrite\<close> returns for the n-th piece; the second part of the
  result is what was handed to it.
\<close>

function cp_loop :: "(nat \<Rightarrow> nat) \<Rightarrow> u8 list \<Rightarrow> nat \<Rightarrow> u8 list \<Rightarrow> run \<times> u8 list" where
  "cp_loop written dest n bs =
    (if bs = [] then (([], Exited 0), [])
     else
       let piece = take 256 bs in
       if written n \<noteq> length piece then (fails Stdout (ascii ''failed to write to '' @ dest @ lf_text), piece)
       else let (r, copied) = cp_loop written dest (n + 1) (drop 256 bs) in (r, piece @ copied))"
  by pat_completeness auto
termination by (relation "measure (\<lambda>(w, d, n, bs). length bs)") auto

declare cp_loop.simps [simp del]

text \<open>\<open>writable\<close> tells whether \<open>fopen\<close> opens the name for writing.\<close>

definition cp_main :: "(u8 list \<Rightarrow> bool) \<Rightarrow> (nat \<Rightarrow> nat) \<Rightarrow> library \<Rightarrow> u8 list list \<Rightarrow> run \<times> u8 list" where
  "cp_main writable written lib args =
    (if length args < 3 then (fails Stdout (ascii ''Usage: '' @ args ! 0 @ ascii '' <src> <dest> '' @ lf_text), [])
     else
       case file_bytes lib (args ! 1) of
         None \<Rightarrow> (fails Stdout (ascii ''fafiled to open for read: '' @ args ! 1 @ lf_text), [])
       | Some bs \<Rightarrow>
           if \<not> writable (args ! 2) then (fails Stdout (ascii ''failed to open for write: '' @ args ! 2 @ lf_text), [])
           else cp_loop written (args ! 2) 0 bs)"

section \<open>\<open>dpage\<close>, \<open>mmap\<close>, \<open>timer\<close>\<close>

text \<open>\<open>pages\<close> is the number of pages the kernel can still demand; one more is asked for after every full one.\<close>

definition count_byte :: "int \<Rightarrow> u8 list \<Rightarrow> nat" where
  "count_byte ch bs = length (filter (\<lambda>b. sint b = ch) bs)"

definition dpage_main :: "nat \<Rightarrow> library \<Rightarrow> u8 list list \<Rightarrow> run option" where
  "dpage_main pages lib args =
    do {
      (filename, ch) \<leftarrow>
        (if length args \<ge> 3 then do { c \<leftarrow> atoi (args ! 2); Some (args ! 1, c) } else Some (ascii ''/memmap'', 0x0a));
      Some (case file_bytes lib filename of
              None \<Rightarrow> fails Stdout (ascii ''failed to open '' @ filename @ lf_text)
            | Some bs \<Rightarrow>
                if length bs div 4096 \<ge> pages then ([], Exited 1)
                else
                  ([Stdout (ascii ''size of '' @ filename @ ascii '' = '' @ dec (length bs) @ ascii '' bytes'' @ lf_text),
                    Stdout (ascii ''the number of '' @ [0x27, word_of_int ch, 0x27] @ ascii '' (0x'' @
                      hex 2 (unat (word_of_int ch :: u32)) @ ascii '') = '' @ dec (count_byte ch bs) @ lf_text)],
                   Exited 0))
    }"

text \<open>
  The last 256 bytes of the mapped file.  For a shorter file the unsigned difference is larger than the size, and
  nothing is printed.
\<close>

definition mmap_main :: "int + int \<Rightarrow> int + u8 list \<Rightarrow> run" where
  "mmap_main opened mapped =
    (case opened of
       Inl err \<Rightarrow> ([], Exited err)
     | Inr fd \<Rightarrow>
         (case mapped of
            Inl err \<Rightarrow> ([], Exited err)
          | Inr bs \<Rightarrow>
              let file_size = of_nat (length bs) :: u64; i = file_size - 256;
                  tail = (if i < file_size then drop (unat i) bs else []) in
              (map (\<lambda>b. Stdout [b]) tail @
               [Stdout (lf_text @ ascii ''read from mapped file ('' @ dec (length tail) @ ascii '' bytes)'' @ lf_text)],
               Exited 0)))"

definition event_type :: "AppEvent \<Rightarrow> int" where
  "event_type e =
    (case e of AppQuit \<Rightarrow> 0 | AppMouseMove _ _ _ _ _ \<Rightarrow> 1 | AppMouseButton _ _ _ _ \<Rightarrow> 2
     | AppTimerTimeout _ _ \<Rightarrow> 3 | AppKeyPush _ _ _ _ \<Rightarrow> 4)"

fun timer_wait :: "u64 \<Rightarrow> AppEvent list \<Rightarrow> run" where
  "timer_wait ms [] = ([], Waits)"
| "timer_wait ms (e # es) =
    (if event_type e = 3 then ([Stdout (dec (unat ms) @ ascii '' msecs elapsed!'' @ lf_text)], Exited 0)
     else printing [Stdout (ascii ''unknown event: type = '' @ dec_int (event_type e) @ lf_text)] (timer_wait ms es))"

text \<open>\<open>first\<close> is the value of the call that creates the timer.\<close>

definition timer_main :: "u64 \<Rightarrow> u8 list list \<Rightarrow> AppEvent list \<Rightarrow> (SysCall list \<times> run) option" where
  "timer_main first args es =
    (if length args \<le> 1 then Some ([], fails Stdout (ascii ''Usage: timer <msec>'' @ lf_text))
     else do {
       n \<leftarrow> atoi (args ! 1);
       let duration_ms = word_of_int n;
       Some ([SyscallCreateTimer TIMER_ONESHOT_REL 1 duration_ms],
             printing [Stdout (ascii ''timer created. timeout = '' @ dec (unat first) @ lf_text)] (timer_wait duration_ms es))
     })"

section \<open>What \<open>sort\<close> prints\<close>

text \<open>\<open>comp\<close> is the lexicographic order of the lines as lists of signed numbers.\<close>

abbreviation signed_bytes :: "u8 list \<Rightarrow> int list" where "signed_bytes l \<equiv> map sint l"

lemma Nil_less: "[] < (l :: int list) \<longleftrightarrow> l \<noteq> []"
  by (cases l) simp_all

lemma sort_comp_less: "sort_comp a b \<longleftrightarrow> signed_bytes a < signed_bytes b"
  by (induction a b rule: sort_comp.induct) (auto simp: Nil_less signed_word_eqI)

lemma insert_line_insort: "insert_line l ls = insort_key signed_bytes l ls"
  by (induction ls) (auto simp: sort_comp_less not_less)

lemma sort_lines_key: "sort_lines ls = sort_key signed_bytes ls"
proof -
  have "insert_line = insort_key signed_bytes" by (intro ext) (rule insert_line_insort)
  then show ?thesis by (simp add: sort_lines_def sort_key_def)
qed

lemma signed_bytes_inj: "signed_bytes a = signed_bytes b \<longleftrightarrow> a = b"
  by (intro inj_eq inj_mapI injI) simp

lemma one_sorted_order:
  assumes "mset ls' = mset ls" "sorted_wrt (\<lambda>a b. \<not> sort_comp b a) ls'"
  shows "ls' = sort_lines ls"
proof -
  have "sorted (map signed_bytes ls')" using assms(2) by (simp add: sort_comp_less not_less sorted_map)
  moreover have "sorted (map signed_bytes (sort_lines ls))" by (simp add: sort_lines_key)
  moreover have "mset (map signed_bytes ls') = mset (map signed_bytes (sort_lines ls))"
    using assms(1) by (simp add: sort_lines_key)
  ultimately have "map signed_bytes ls' = map signed_bytes (sort_lines ls)" by (metis properties_for_sort)
  then show ?thesis by (simp add: map_injective signed_bytes_inj inj_def inj_map_eq_map)
qed

text \<open>
  C0. For an input without zero bytes \<open>sort\<close> prints exactly the pieces of up to 1023 bytes into which the input is
  read, none lost, in ascending order of signed bytes; any correct implementation of \<open>std::sort\<close> would
  print the same, since its comparison leaves only one order.
\<close>

theorem sort_prints_sorted:
  assumes "input_of lib (nth_arg 1 args) = Some bs" "0 \<notin> set bs"
  shows "\<exists>ls. sort_main lib args = (map Stdout ls, Exited 0) \<and>
    concat (fgets_lines 1024 bs) = bs \<and> mset ls = mset (fgets_lines 1024 bs) \<and>
    sorted (map signed_bytes ls) \<and>
    (\<forall>ls'. mset ls' = mset ls \<and> sorted_wrt (\<lambda>a b. \<not> sort_comp b a) ls' \<longrightarrow> ls' = ls)"
proof -
  have bs: "concat (fgets_lines 1024 bs) = bs" by (rule concat_fgets_lines) simp
  have "c_string l = l" if "l \<in> set (fgets_lines 1024 bs)" for l
    using that assms(2) bs by (intro c_string_id) (metis UN_I set_concat)
  then have "map c_string (fgets_lines 1024 bs) = fgets_lines 1024 bs" by (simp add: map_idI)
  then have "sort_main lib args = (map Stdout (sort_lines (fgets_lines 1024 bs)), Exited 0)"
    using assms(1) by (simp add: sort_main_def)
  then show ?thesis using bs one_sorted_order by (auto simp: sort_lines_key)
qed

theorem sort_prints_sorted_witness:
  "\<exists>ls. sort_main \<lparr>stdin_bytes = [0x62, 0x0a, 0x61, 0x0a, 0xe3], file_bytes = (\<lambda>_. None), strerror = (\<lambda>_. [])\<rparr> [ascii ''sort'']
      = (map Stdout ls, Exited 0) \<and>
    concat (fgets_lines 1024 [0x62, 0x0a, 0x61, 0x0a, 0xe3]) = [0x62, 0x0a, 0x61, 0x0a, 0xe3] \<and>
    mset ls = mset (fgets_lines 1024 [0x62, 0x0a, 0x61, 0x0a, 0xe3]) \<and> sorted (map signed_bytes ls) \<and>
    (\<forall>ls'. mset ls' = mset ls \<and> sorted_wrt (\<lambda>a b. \<not> sort_comp b a) ls' \<longrightarrow> ls' = ls)"
  by (rule sort_prints_sorted) (simp_all add: input_of_def nth_arg_def)

end
