(* ===== verification/Text_Viewer.thy ===== *)
theory Text_Viewer
  imports Program_Library
begin

text \<open>
  The text viewer \<open>apps/tview/tview.cpp\<close>: a mapped file is split into lines, of which those in the window are drawn
  and scrolled.  A pointer into the file is an offset; what may be read from it on is a list, which can be longer than
  the file, since the loop that copies a line looks at the byte behind it.
\<close>

section \<open>Opening\<close>

text \<open>\<open>opened\<close> and \<open>mapped\<close> are the results of the calls: an error number, or the descriptor and the memory.\<close>

definition tview_MapFile ::
  "(int \<Rightarrow> u8 list) \<Rightarrow> u8 list \<Rightarrow> int + int \<Rightarrow> int + (u8 list \<times> nat) \<Rightarrow> u8 list + (int \<times> u8 list \<times> nat)" where
  "tview_MapFile errors filepath opened mapped =
    (case opened of
       Inl err \<Rightarrow> Inl (errors err @ ascii '': '' @ filepath @ [0x0a])
     | Inr fd \<Rightarrow>
         (case mapped of
            Inl err \<Rightarrow> Inl (errors err @ [0x0a])
          | Inr (mem, filesize) \<Rightarrow> Inr (fd, mem, filesize)))"

definition OpenTextWindow :: "u64 \<Rightarrow> int \<Rightarrow> int \<Rightarrow> u8 list \<Rightarrow> SysCall list" where
  "OpenTextWindow layer_id w h title =
    [SyscallOpenWindow (8 + 8 * w) (28 + 16 * h) 10 10 title,
     SyscallWinFillRectangle layer_id 3 23 (1 + 8 * w) 1 0x666666,
     SyscallWinFillRectangle layer_id 3 24 1 (1 + 16 * h) 0x666666,
     SyscallWinFillRectangle layer_id 4 (25 + 16 * h) (1 + 8 * w) 1 0xcccccc,
     SyscallWinFillRectangle layer_id (5 + 8 * w) 24 1 (1 + 16 * h) 0xcccccc]"

section \<open>Lines\<close>

text \<open>The offset of the next newline from \<open>s\<close> on, or the end.\<close>

function next_lf :: "u8 list \<Rightarrow> nat \<Rightarrow> nat \<Rightarrow> nat" where
  "next_lf mem len s = (if s < len \<and> mem ! s \<noteq> 0x0a then next_lf mem len (s + 1) else s)"
  by pat_completeness auto
termination by (relation "measure (\<lambda>(m, len, s). len - s)") auto

declare next_lf.simps [simp del]

lemma next_lf_ge: "s \<le> next_lf mem len s"
proof (induction mem len s rule: next_lf.induct)
  case (1 mem len s)
  then show ?case by (subst next_lf.simps) auto
qed

function find_lines :: "u8 list \<Rightarrow> nat \<Rightarrow> nat \<Rightarrow> (nat \<times> nat) list" where
  "find_lines mem len p =
    (let lf = next_lf mem len p in
     if lf < len then (p, lf - p) # find_lines mem len (lf + 1)
     else if p < len then [(p, len - p)] else [])"
  by pat_completeness auto
termination
proof (relation "measure (\<lambda>(m, len, p). Suc len - p)")
  fix mem :: "u8 list" and len p x
  assume "x = next_lf mem len p" "x < len"
  with next_lf_ge [of p mem len] show "((mem, len, x + 1), mem, len, p) \<in> measure (\<lambda>(m, len, p). Suc len - p)" by simp
qed simp

declare find_lines.simps [simp del]

definition FindLines :: "u8 list \<Rightarrow> nat \<Rightarrow> (nat \<times> nat) list" where
  "FindLines mem len = find_lines mem len 0"

section \<open>Copying a line\<close>

definition tview_CountUTF8Size :: "u8 \<Rightarrow> nat" where
  "tview_CountUTF8Size c =
    (if c < 0x80 then 1
     else if 0xc0 \<le> c \<and> c < 0xe0 then 2
     else if 0xe0 \<le> c \<and> c < 0xf0 then 3
     else if 0xf0 \<le> c \<and> c < 0xf8 then 4
     else 0)"

text \<open>
  \<open>src\<close> is the memory from the pointer on, \<open>left\<close> the distance to \<open>src_end\<close>, \<open>dst\<close> what has been copied.
  A remainder by zero and a negative number of blanks are undefined, like reading behind the memory.
\<close>

function copy_utf8 :: "nat \<Rightarrow> u8 list \<Rightarrow> int \<Rightarrow> int \<Rightarrow> int \<Rightarrow> int \<Rightarrow> u8 list \<Rightarrow> u8 list option" where
  "copy_utf8 dst_size src left w tab x dst =
    (case src of
       [] \<Rightarrow> None
     | c # cs \<Rightarrow>
         if c = 0 then Some dst
         else if c = 0x09 then
           if tab \<le> 0 then None
           else
             let spaces = nat (tab - x smod tab) in
             if length dst + spaces \<ge> dst_size then Some dst
             else if spaces = 0 then None
             else copy_utf8 dst_size cs (left - 1) w tab (x + int spaces) (dst @ replicate spaces 0x20)
         else
           let x1 = (if c < 0x80 then x + 1 else x + 2); n = tview_CountUTF8Size c in
           if x1 \<ge> w then Some dst
           else if int n > left \<or> length dst + n \<ge> dst_size then Some dst
           else if n > length src then None
           else copy_utf8 dst_size (drop n src) (left - int n) w tab x1 (dst @ take n src))"
  by pat_completeness auto
termination
  by (relation "measure (\<lambda>(size, src, left, w, tab, x, dst). nat (w - x) + length src)")
    (auto simp: Let_def split: if_splits)

declare copy_utf8.simps [simp del]

definition CopyUTF8String :: "nat \<Rightarrow> u8 list \<Rightarrow> nat \<Rightarrow> int \<Rightarrow> int \<Rightarrow> u8 list option" where
  "CopyUTF8String dst_size src src_size w tab = copy_utf8 dst_size src (int src_size) w tab 0 []"

section \<open>Drawing\<close>

definition draw_row ::
  "(nat \<times> nat) list \<Rightarrow> u8 list \<Rightarrow> int \<Rightarrow> u64 \<Rightarrow> int \<Rightarrow> int \<Rightarrow> int \<Rightarrow> SysCall list option" where
  "draw_row lines mem start_line layer_id w tab i =
    (let line_index = start_line + i in
     if line_index < 0 \<or> int (length lines) \<le> line_index then Some []
     else
       let (line, line_len) = lines ! nat line_index in
       map_option (\<lambda>buf. [SyscallWinWriteString layer_id 4 (24 + 16 * i) 0x00ffff buf])
         (CopyUTF8String 1024 (drop line mem) line_len w tab))"

definition DrawLines ::
  "(nat \<times> nat) list \<Rightarrow> u8 list \<Rightarrow> int \<Rightarrow> u64 \<Rightarrow> int \<Rightarrow> int \<Rightarrow> int \<Rightarrow> SysCall list option" where
  "DrawLines lines mem start_line layer_id w h tab =
    (let rows = map (draw_row lines mem start_line layer_id w tab) [0..h - 1] in
     if None \<in> set rows then None
     else Some (SyscallWinFillRectangle layer_id 4 24 (8 * w) (16 * h) 0x323232 # concat (map the rows)))"

section \<open>Scrolling\<close>

text \<open>A key, the end, or nothing yet; an error is printed and gives the key 0.\<close>

datatype Waited_key = Key_event u8 "(int + AppEvent) list" | Quit_event | No_more

fun tview_WaitEvent :: "(int + AppEvent) list \<Rightarrow> Waited_key" where
  "tview_WaitEvent [] = No_more"
| "tview_WaitEvent (Inl err # rs) = Key_event 0 rs"
| "tview_WaitEvent (Inr e # rs) =
    (case e of
       AppQuit \<Rightarrow> Quit_event
     | AppKeyPush _ keycode _ press \<Rightarrow> if press \<noteq> 0 then Key_event keycode rs else tview_WaitEvent rs
     | _ \<Rightarrow> tview_WaitEvent rs)"

lemma WaitEvent_shorter: "tview_WaitEvent rs = Key_event k rs' \<Longrightarrow> length rs' < length rs"
  by (induction rs rule: tview_WaitEvent.induct) (auto split: AppEvent.splits if_splits)

definition scroll_by :: "int \<Rightarrow> u8 \<Rightarrow> int option" where
  "scroll_by height keycode =
    (if keycode = 75 then Some ((- height) sdiv 2)
     else if keycode = 78 then Some (height sdiv 2)
     else if keycode = 81 then Some 1
     else if keycode = 82 then Some (- 1)
     else None)"

text \<open>The comparisons of \<open>int\<close> with \<open>size_t\<close> are unsigned.\<close>

definition as_size :: "int \<Rightarrow> u64" where "as_size x = word_of_int x"

definition scroll :: "int \<Rightarrow> u64 \<Rightarrow> int \<Rightarrow> int \<Rightarrow> int option" where
  "scroll height num_lines diff start_line =
    (if diff < 0 \<and> start_line = 0 \<or> diff > 0 \<and> as_size start_line = num_lines - as_size height then None
     else
       let s = start_line + diff in
       Some (if s < 0 then 0 else if as_size s > num_lines - as_size height then sint (ucast (num_lines - as_size height) :: u32)
             else s))"

datatype Updated = Scrolled int "(int + AppEvent) list" | Closed | Idle

function UpdateStartLine :: "int \<Rightarrow> u64 \<Rightarrow> int \<Rightarrow> (int + AppEvent) list \<Rightarrow> Updated" where
  "UpdateStartLine height num_lines start_line rs =
    (case tview_WaitEvent rs of
       Quit_event \<Rightarrow> Closed
     | No_more \<Rightarrow> Idle
     | Key_event keycode rs' \<Rightarrow>
         if num_lines < as_size height then UpdateStartLine height num_lines start_line rs'
         else
           case scroll_by height keycode of
             None \<Rightarrow> UpdateStartLine height num_lines start_line rs'
           | Some diff \<Rightarrow>
               (case scroll height num_lines diff start_line of
                  None \<Rightarrow> UpdateStartLine height num_lines start_line rs'
                | Some s \<Rightarrow> Scrolled s rs'))"
  by pat_completeness auto
termination by (relation "measure (\<lambda>(h, n, s, rs). length rs)") (auto dest: WaitEvent_shorter)

declare UpdateStartLine.simps [simp del]

lemma UpdateStartLine_shorter: "UpdateStartLine h n s rs = Scrolled s' rs' \<Longrightarrow> length rs' < length rs"
proof (induction h n s rs rule: UpdateStartLine.induct)
  case (1 h n s rs)
  show ?case
  proof (cases "tview_WaitEvent rs")
    case (Key_event k rs1)
    note shorter = WaitEvent_shorter [OF Key_event]
    consider (few) "n < as_size h" | (other) "\<not> n < as_size h" "scroll_by h k = None"
      | (edge) d where "\<not> n < as_size h" "scroll_by h k = Some d" "scroll h n d s = None"
      | (moved) d s1 where "\<not> n < as_size h" "scroll_by h k = Some d" "scroll h n d s = Some s1" by fastforce
    then show ?thesis
    proof cases
      case few
      with 1(1) [OF Key_event] 1(4) Key_event shorter show ?thesis by (subst (asm) UpdateStartLine.simps) simp
    next
      case other
      with 1(2) [OF Key_event] 1(4) Key_event shorter show ?thesis by (subst (asm) UpdateStartLine.simps) simp
    next
      case edge
      with 1(3) [OF Key_event] 1(4) Key_event shorter show ?thesis by (subst (asm) UpdateStartLine.simps) simp
    next
      case moved
      with 1(4) Key_event shorter show ?thesis by (subst (asm) UpdateStartLine.simps) simp
    qed
  qed (use 1(4) in \<open>subst (asm) UpdateStartLine.simps, simp\<close>)+
qed

section \<open>The program\<close>

function tview_loop ::
  "(nat \<times> nat) list \<Rightarrow> u8 list \<Rightarrow> u64 \<Rightarrow> int \<Rightarrow> int \<Rightarrow> int \<Rightarrow> int \<Rightarrow> (int + AppEvent) list \<Rightarrow> SysCall list option" where
  "tview_loop lines mem layer_id w h tab start_line rs =
    do {
      calls \<leftarrow> DrawLines lines mem start_line layer_id w h tab;
      case UpdateStartLine h (of_nat (length lines)) start_line rs of
        Closed \<Rightarrow> Some (calls @ [SyscallCloseWindow layer_id, SyscallExit 0])
      | Idle \<Rightarrow> Some calls
      | Scrolled s rs' \<Rightarrow> map_option (\<lambda>cs. calls @ cs) (tview_loop lines mem layer_id w h tab s rs')
    }"
  by pat_completeness auto
termination by (relation "measure (\<lambda>(ls, m, l, w, h, t, s, rs). length rs)") (auto dest: UpdateStartLine_shorter)

declare tview_loop.simps [simp del]

text \<open>\<open>options\<close> is what \<open>getopt\<close> returns, one after the other; an unknown option ends the program.\<close>

record tview_options =
  opt_width :: int
  opt_height :: int
  opt_tab :: int

fun read_options :: "(u8 \<times> u8 list) list \<Rightarrow> tview_options \<Rightarrow> tview_options option option" where
  "read_options [] o1 = Some (Some o1)"
| "read_options ((opt, s) # os) o1 =
    (if opt = 0x77 then do { n \<leftarrow> atoi s; read_options os (o1\<lparr>opt_width := n\<rparr>) }
     else if opt = 0x68 then do { n \<leftarrow> atoi s; read_options os (o1\<lparr>opt_height := n\<rparr>) }
     else if opt = 0x74 then do { n \<leftarrow> atoi s; read_options os (o1\<lparr>opt_tab := n\<rparr>) }
     else Some None)"

text \<open>The part of a path behind the last slash.\<close>

definition base_name :: "u8 list \<Rightarrow> u8 list" where
  "base_name path = rev (takeWhile (\<lambda>c. c \<noteq> 0x2f) (rev path))"

text \<open>
  The calls of the program after its options; \<open>Inl\<close> is the message before it ends with exit code 1.
\<close>

definition tview_main ::
  "(int \<Rightarrow> u8 list) \<Rightarrow> u8 list \<Rightarrow> (u8 \<times> u8 list) list \<Rightarrow> u8 list option \<Rightarrow> int + int \<Rightarrow> int + (u8 list \<times> nat) \<Rightarrow>
     int + u64 \<Rightarrow> (int + AppEvent) list \<Rightarrow> (u8 list + SysCall list) option" where
  "tview_main errors cmd options filepath opened mapped window rs =
    (let help = ascii ''Usage: '' @ cmd @ ascii '' [-w WIDTH] [-h HEIGHT] [-t TAB] <file>'' @ [0x0a] in
     do {
       opts \<leftarrow> read_options options \<lparr>opt_width = 80, opt_height = 20, opt_tab = 8\<rparr>;
       case (opts, filepath) of
         (Some o1, Some path) \<Rightarrow>
           (case tview_MapFile errors path opened mapped of
              Inl msg \<Rightarrow> Some (Inl msg)
            | Inr (fd, mem, filesize) \<Rightarrow>
                (case window of
                   Inl err \<Rightarrow> Some (Inl (errors err @ [0x0a]))
                 | Inr layer_id \<Rightarrow>
                     map_option (\<lambda>cs. Inr (OpenTextWindow layer_id (opt_width o1) (opt_height o1) (base_name path) @ cs))
                       (tview_loop (FindLines mem filesize) mem layer_id (opt_width o1) (opt_height o1) (opt_tab o1) 0 rs)))
       | _ \<Rightarrow> Some (Inl help)
     })"

section \<open>Every line ends at a newline or at the end of the file\<close>

lemma next_lf_end:
  "s \<le> len \<Longrightarrow> next_lf mem len s \<le> len \<and> (next_lf mem len s < len \<longrightarrow> mem ! next_lf mem len s = 0x0a) \<and>
    (\<forall>i. s \<le> i \<and> i < next_lf mem len s \<longrightarrow> mem ! i \<noteq> 0x0a)"
proof (induction mem len s rule: next_lf.induct)
  case (1 mem len s)
  show ?case
  proof (cases "s < len \<and> mem ! s \<noteq> 0x0a")
    case True
    then have "next_lf mem len s = next_lf mem len (s + 1)" by (subst next_lf.simps) simp
    moreover have "mem ! i \<noteq> 0x0a" if "s \<le> i" "i < next_lf mem len (s + 1)" for i
      using 1 True that by (cases "i = s") auto
    ultimately show ?thesis using 1 True by auto
  next
    case False
    then have "next_lf mem len s = s" by (subst next_lf.simps) auto
    with 1(2) False show ?thesis by auto
  qed
qed

lemma find_lines_ends:
  "p \<le> len \<Longrightarrow> (s, n) \<in> set (find_lines mem len p) \<Longrightarrow>
    p \<le> s \<and> s + n \<le> len \<and> (s + n < len \<longrightarrow> mem ! (s + n) = 0x0a) \<and> (\<forall>i < n. mem ! (s + i) \<noteq> 0x0a)"
proof (induction mem len p rule: find_lines.induct)
  case (1 mem len p)
  let ?lf = "next_lf mem len p"
  note lf = next_lf_ge [of p mem len] next_lf_end [OF 1(2), of mem]
  show ?case
  proof (cases "?lf < len")
    case True
    then have "find_lines mem len p = (p, ?lf - p) # find_lines mem len (?lf + 1)"
      by (subst find_lines.simps) (simp add: Let_def)
    then consider "s = p" "n = ?lf - p" | "(s, n) \<in> set (find_lines mem len (?lf + 1))" using 1(3) by auto
    then show ?thesis
    proof cases
      case 1
      with lf True show ?thesis by auto
    next
      case 2
      with 1(1) [OF refl True] True lf show ?thesis by auto
    qed
  next
    case False
    then have "s = p \<and> n = len - p" using 1(3) by (subst (asm) find_lines.simps) (auto simp: Let_def split: if_splits)
    moreover have "?lf = len" using False lf by simp
    ultimately show ?thesis using lf 1(2) by auto
  qed
qed

section \<open>A copied line fits\<close>

definition is_char :: "u8 list \<Rightarrow> bool" where
  "is_char ch \<longleftrightarrow> ch \<noteq> [] \<and> length ch = tview_CountUTF8Size (hd ch)"

definition char_width :: "u8 list \<Rightarrow> int" where
  "char_width ch = (if hd ch < 0x80 then 1 else 2)"

definition columns :: "u8 list list \<Rightarrow> int" where
  "columns chars = sum_list (map char_width chars)"

text \<open>Every character but a blank ends before column \<open>w\<close>.\<close>

definition in_columns :: "int \<Rightarrow> u8 list list \<Rightarrow> bool" where
  "in_columns w chars \<longleftrightarrow> (\<forall>ch \<in> set chars. is_char ch) \<and>
    (\<forall>pre ch post. chars = pre @ ch # post \<longrightarrow> ch = [0x20] \<or> columns (pre @ [ch]) < w)"

text \<open>The text fits in a buffer and shows a beginning of the line, with blanks in the place of tabs.\<close>

definition black :: "u8 list \<Rightarrow> u8 list" where "black s = filter (\<lambda>b. b \<noteq> 0x20 \<and> b \<noteq> 0x09) s"

definition fits :: "nat \<Rightarrow> int \<Rightarrow> u8 list \<Rightarrow> u8 list \<Rightarrow> bool" where
  "fits dst_size w line out \<longleftrightarrow>
    length out < dst_size \<and> (\<exists>chars. out = concat chars \<and> in_columns w chars) \<and> (\<exists>n. black out = black (take n line))"

lemma in_columns_snoc:
  assumes "in_columns w chars" "is_char ch" "ch = [0x20] \<or> columns (chars @ [ch]) < w"
  shows "in_columns w (chars @ [ch])"
  unfolding in_columns_def
proof (intro conjI allI impI)
  show "\<forall>c \<in> set (chars @ [ch]). is_char c" using assms(1,2) by (simp add: in_columns_def)
next
  fix pre c post assume eq: "chars @ [ch] = pre @ c # post"
  show "c = [0x20] \<or> columns (pre @ [c]) < w"
  proof (cases post rule: rev_cases)
    case Nil
    with eq assms(3) show ?thesis by simp
  next
    case (snoc post' d)
    with eq have "chars = pre @ c # post'" by simp
    with assms(1) show ?thesis by (simp add: in_columns_def)
  qed
qed

lemma blank_char: "is_char [0x20]" "char_width [0x20] = 1"
  by (simp_all add: is_char_def tview_CountUTF8Size_def char_width_def)

lemma in_columns_blanks: "in_columns w chars \<Longrightarrow> in_columns w (chars @ replicate n [0x20])"
proof (induction n)
  case (Suc n)
  with in_columns_snoc [of w "chars @ replicate n [0x20]" "[0x20]"] blank_char show ?case
    by (simp add: replicate_append_same)
qed simp

lemma columns_blanks: "columns (chars @ replicate n [0x20]) = columns chars + int n"
  by (simp add: columns_def blank_char sum_list_replicate)

lemma concat_blanks: "concat (replicate n [0x20]) = (replicate n 0x20 :: u8 list)"
  by (induction n) simp_all

lemma black_append: "black (a @ b) = black a @ black b"
  by (simp add: black_def)

lemma black_blanks: "black (replicate n 0x20) = []"
  by (simp add: black_def)

lemma spaces_range: "0 < (tab :: int) \<Longrightarrow> 0 \<le> x \<Longrightarrow> 0 < tab - x smod (tab :: int)"
  by (cases "x = 0") (simp_all add: smod_int_alt_def sgn_if)

text \<open>What the loop adds to the characters that are there.\<close>

definition adds :: "nat \<Rightarrow> int \<Rightarrow> u8 list \<Rightarrow> u8 list list \<Rightarrow> u8 list option \<Rightarrow> bool" where
  "adds dst_size w row chars r \<longleftrightarrow>
    (\<exists>more n. r = Some (concat (chars @ more)) \<and> in_columns w (chars @ more) \<and>
      length (concat (chars @ more)) < dst_size \<and> black (concat more) = black (take n row))"

lemma adds_stop: "in_columns w chars \<Longrightarrow> length (concat chars) < dst_size \<Longrightarrow> adds dst_size w row chars (Some (concat chars))"
  unfolding adds_def by (intro exI [of _ "[]"] exI [of _ 0]) (simp add: black_def)

lemma adds_go_on:
  assumes "adds dst_size w row' (chars @ new) r" "black (concat new) = black (take k row)" "row' = drop k row"
  shows "adds dst_size w row chars r"
proof -
  from assms(1) obtain more n where m: "r = Some (concat (chars @ new @ more))" "in_columns w (chars @ new @ more)"
    "length (concat (chars @ new @ more)) < dst_size" "black (concat more) = black (take n row')" unfolding adds_def by auto
  then have "black (concat (new @ more)) = black (take (k + n) row)"
    using assms(2,3) by (simp add: black_append take_add)
  with m show ?thesis unfolding adds_def by blast
qed

lemma copy_utf8_adds:
  "src = row @ c0 # rest \<Longrightarrow> c0 \<noteq> 0x09 \<Longrightarrow> left = int (length row) \<Longrightarrow> 0 < tab \<Longrightarrow> 0 \<le> x \<Longrightarrow> columns chars \<le> x \<Longrightarrow>
    in_columns w chars \<Longrightarrow> length dst < dst_size \<Longrightarrow> dst = concat chars \<Longrightarrow>
    adds dst_size w row chars (copy_utf8 dst_size src left w tab x dst)"
proof (induction dst_size src left w tab x dst arbitrary: row chars rule: copy_utf8.induct)
  case (1 dst_size src left w tab x dst)
  note prems = 1(3-11)
  have "src \<noteq> []" using prems(1) by simp
  then obtain c cs where src: "src = c # cs" by (meson list.exhaust)
  let ?r = "copy_utf8 dst_size src left w tab x dst"
  have stop: "adds dst_size w row chars (Some dst)" using adds_stop prems(7-9) by simp
  show ?case
  proof (cases "c = 0x09")
    case True
    then obtain row' where row: "row = c # row'" "cs = row' @ c0 # rest" using prems(1,2) src by (cases row) auto
    define spaces where "spaces = nat (tab - x smod tab)"
    have sp: "0 < spaces" using spaces_range [OF prems(4,5)] by (simp add: spaces_def)
    show ?thesis
    proof (cases "length dst + spaces \<ge> dst_size")
      case True
      with \<open>c = 0x09\<close> src sp prems(4) have "?r = Some dst" by (subst copy_utf8.simps) (simp add: Let_def spaces_def)
      with stop show ?thesis by simp
    next
      case False
      let ?new = "replicate spaces [0x20 :: u8]"
      have r: "?r = copy_utf8 dst_size cs (left - 1) w tab (x + int spaces) (dst @ replicate spaces 0x20)"
        using False \<open>c = 0x09\<close> src sp prems(4) by (subst copy_utf8.simps) (simp add: Let_def spaces_def)
      have "adds dst_size w row' (chars @ ?new) ?r" unfolding r
        by (rule 1(1) [OF src _ True _ refl, folded spaces_def])
          (use True False prems sp row in_columns_blanks in \<open>auto simp: columns_blanks concat_blanks spaces_def\<close>)
      then show ?thesis by (rule adds_go_on [where k = 1]) (simp_all add: row True concat_blanks black_def)
    qed
  next
    case tab: False
    define x1 where "x1 = (if c < 0x80 then x + 1 else x + 2)"
    define n where "n = tview_CountUTF8Size c"
    show ?thesis
    proof (cases "c = 0 \<or> x1 \<ge> w \<or> int n > left \<or> length dst + n \<ge> dst_size")
      case True
      with tab src have "?r = Some dst" by (subst copy_utf8.simps) (auto simp: Let_def x1_def n_def)
      with stop show ?thesis by simp
    next
      case False
      have n: "n \<le> length row" "n \<le> length src" using False prems(1,3) by simp_all
      then have r: "?r = copy_utf8 dst_size (drop n src) (left - int n) w tab x1 (dst @ take n src)"
        using False tab src prems(1) by (subst copy_utf8.simps) (auto simp: Let_def x1_def n_def)
      have x1: "x \<le> x1" by (simp add: x1_def)
      let ?new = "if n = 0 then [] else [take n src]"
      have char: "is_char (take n src) \<and> columns (chars @ [take n src]) \<le> x1" if "0 < n"
      proof -
        have "take n src = c # take (n - 1) cs" using that unfolding src by (cases n) auto
        moreover have "length (take n src) = n" using n(2) by simp
        ultimately show ?thesis using prems(6) by (simp add: is_char_def columns_def char_width_def x1_def n_def)
      qed
      have "adds dst_size w (drop n row) (chars @ ?new) ?r" unfolding r
        by (rule 1(2) [OF src _ tab x1_def n_def])
          (use False n tab prems x1 char in_columns_snoc [OF prems(7)] in \<open>auto simp: min_def\<close>)
      then show ?thesis by (rule adds_go_on [where k = n]) (use n prems(1) in \<open>auto simp: black_def\<close>)
    qed
  qed
qed

lemma CopyUTF8String_fits:
  assumes "src = row @ c0 # rest" "c0 \<noteq> 0x09" "0 < tab" "0 < dst_size"
  shows "\<exists>out. CopyUTF8String dst_size src (length row) w tab = Some out \<and> fits dst_size w row out"
proof -
  have "in_columns w []" "columns [] \<le> 0" by (simp_all add: in_columns_def columns_def)
  with copy_utf8_adds [OF assms(1,2) refl assms(3), of 0 "[]" w "[]" dst_size] assms(4)
  obtain more n where "copy_utf8 dst_size src (int (length row)) w tab 0 [] = Some (concat more)" "in_columns w more"
    "length (concat more) < dst_size" "black (concat more) = black (take n row)" unfolding adds_def by auto
  then show ?thesis unfolding CopyUTF8String_def fits_def by blast
qed

section \<open>The drawing of the lines\<close>

text \<open>A text is in a row of the window, fits there, and shows the beginning of a line of the file.\<close>

definition row_ok :: "u8 list \<Rightarrow> nat \<Rightarrow> int \<Rightarrow> int \<Rightarrow> SysCall \<Rightarrow> bool" where
  "row_ok mem filesize w h c \<longleftrightarrow>
    (\<forall>l x y col t. c = SyscallWinWriteString l x y col t \<longrightarrow>
      x = 4 \<and> (\<exists>i. 0 \<le> i \<and> i < h \<and> y = 24 + 16 * i) \<and>
      (\<exists>(p, n) \<in> set (FindLines mem filesize). fits 1024 w (take n (drop p mem)) t))"

lemma draw_row_ok:
  assumes mem: "filesize < length mem" "mem ! filesize \<noteq> 0x09" and "0 < tab" "0 \<le> i" "i < h"
  shows "\<exists>cs. draw_row (FindLines mem filesize) mem s l w tab i = Some cs \<and> (\<forall>c \<in> set cs. row_ok mem filesize w h c)"
proof (cases "s + i < 0 \<or> int (length (FindLines mem filesize)) \<le> s + i")
  case True
  then show ?thesis by (simp add: draw_row_def)
next
  case False
  obtain p n where pn: "FindLines mem filesize ! nat (s + i) = (p, n)" by fastforce
  with False have line: "(p, n) \<in> set (FindLines mem filesize)" by (metis linorder_not_le nth_mem zless_nat_eq_int_zless nat_less_iff)
  from find_lines_ends [OF _ line [unfolded FindLines_def]] have e: "p + n \<le> filesize"
    "p + n < filesize \<Longrightarrow> mem ! (p + n) = 0x0a" by auto
  have after: "mem ! (p + n) \<noteq> 0x09" using e mem(2) by (cases "p + n = filesize") auto
  have "drop p mem = take n (drop p mem) @ mem ! (p + n) # drop (Suc (p + n)) mem"
    using e(1) mem(1) by (simp add: Cons_nth_drop_Suc add.commute flip: drop_drop)
  moreover have "length (take n (drop p mem)) = n" using e(1) mem(1) by simp
  ultimately obtain out where "CopyUTF8String 1024 (drop p mem) n w tab = Some out" "fits 1024 w (take n (drop p mem)) out"
    using CopyUTF8String_fits [of "drop p mem" "take n (drop p mem)" "mem ! (p + n)" "drop (Suc (p + n)) mem" tab 1024 w]
      after assms(3) by auto
  with False pn line assms(4,5) show ?thesis by (fastforce simp: draw_row_def Let_def row_ok_def)
qed

lemma DrawLines_ok:
  assumes "filesize < length mem" "mem ! filesize \<noteq> 0x09" "0 < tab"
  shows "\<exists>cs. DrawLines (FindLines mem filesize) mem s l w h tab = Some cs \<and> (\<forall>c \<in> set cs. row_ok mem filesize w h c)"
proof -
  let ?row = "draw_row (FindLines mem filesize) mem s l w tab"
  have rows: "\<exists>cs. ?row i = Some cs \<and> (\<forall>c \<in> set cs. row_ok mem filesize w h c)" if "i \<in> set [0..h - 1]" for i
    using draw_row_ok [OF assms, of i h s l w] that by simp
  then have "None \<notin> set (map ?row [0..h - 1])" by fastforce
  moreover have "\<forall>c \<in> set (concat (map the (map ?row [0..h - 1]))). row_ok mem filesize w h c" using rows by fastforce
  moreover have "row_ok mem filesize w h (SyscallWinFillRectangle l 4 24 (8 * w) (16 * h) 0x323232)" by (simp add: row_ok_def)
  ultimately show ?thesis by (simp add: DrawLines_def Let_def)
qed

lemma tview_loop_ok:
  assumes "filesize < length mem" "mem ! filesize \<noteq> 0x09" "0 < tab"
  shows "\<exists>cs. tview_loop (FindLines mem filesize) mem l w h tab s rs = Some cs \<and> (\<forall>c \<in> set cs. row_ok mem filesize w h c)"
proof (induction rs arbitrary: s rule: length_induct)
  case (1 rs)
  from DrawLines_ok [OF assms] obtain cs where cs: "DrawLines (FindLines mem filesize) mem s l w h tab = Some cs"
    "\<forall>c \<in> set cs. row_ok mem filesize w h c" by blast
  let ?u = "UpdateStartLine h (of_nat (length (FindLines mem filesize))) s rs"
  note loop = tview_loop.simps [of "FindLines mem filesize" mem l w h tab s rs]
  show ?case
  proof (cases ?u)
    case (Scrolled s' rs')
    with 1 UpdateStartLine_shorter obtain more where "tview_loop (FindLines mem filesize) mem l w h tab s' rs' = Some more"
      "\<forall>c \<in> set more. row_ok mem filesize w h c" by meson
    with cs Scrolled loop show ?thesis by auto
  next
    case Closed
    with cs loop show ?thesis by (auto simp: row_ok_def)
  next
    case Idle
    with cs loop show ?thesis by auto
  qed
qed

text \<open>
  C0. For every file, whatever bytes it has, and every sequence of events, the viewer never meets undefined behaviour
  (the byte behind the file must be readable and no tab, the width of a tab positive), and each text it draws stands in
  a row of the window, is terminated inside of its buffer of 1024 bytes, shows the beginning of one line of the
  file with blanks for tabs, and every character of it but blanks ends before the last column.
\<close>

theorem tview_rows_fit:
  assumes "filesize < length mem" "mem ! filesize \<noteq> 0x09" "0 < tab"
  shows "\<exists>calls. tview_loop (FindLines mem filesize) mem layer_id w h tab 0 rs = Some calls \<and>
    (\<forall>l x y col t. SyscallWinWriteString l x y col t \<in> set calls \<longrightarrow>
      x = 4 \<and> (\<exists>i. 0 \<le> i \<and> i < h \<and> y = 24 + 16 * i) \<and>
      (\<exists>(p, n) \<in> set (FindLines mem filesize). fits 1024 w (take n (drop p mem)) t))"
proof -
  from tview_loop_ok [OF assms] obtain calls where
    calls: "tview_loop (FindLines mem filesize) mem layer_id w h tab 0 rs = Some calls"
      "\<forall>c \<in> set calls. row_ok mem filesize w h c" by blast
  show ?thesis
    by (rule exI, rule conjI [OF calls(1)]) (use calls(2) in \<open>auto simp: row_ok_def dest!: bspec\<close>)
qed

theorem tview_rows_fit_witness:
  "\<exists>calls. tview_loop (FindLines [0x61, 0x62, 0x09, 0xe3, 0x81, 0x82, 0x0a, 0x80, 0] 8)
      [0x61, 0x62, 0x09, 0xe3, 0x81, 0x82, 0x0a, 0x80, 0] 7 20 5 8 0 [Inr (AppKeyPush 0 81 0 1), Inr AppQuit] = Some calls \<and>
    (\<forall>l x y col t. SyscallWinWriteString l x y col t \<in> set calls \<longrightarrow>
      x = 4 \<and> (\<exists>i. 0 \<le> i \<and> i < 5 \<and> y = 24 + 16 * i) \<and>
      (\<exists>(p, n) \<in> set (FindLines [0x61, 0x62, 0x09, 0xe3, 0x81, 0x82, 0x0a, 0x80, 0] 8).
        fits 1024 20 (take n (drop p [0x61, 0x62, 0x09, 0xe3, 0x81, 0x82, 0x0a, 0x80, 0])) t))"
  by (rule tview_rows_fit [where mem = "[0x61, 0x62, 0x09, 0xe3, 0x81, 0x82, 0x0a, 0x80, 0]" and filesize = 8]) simp_all

section \<open>The first line stays in range\<close>

lemma as_size_uint: "0 \<le> x \<Longrightarrow> x < 2 ^ 32 \<Longrightarrow> uint (as_size x) = x"
  by (simp add: as_size_def uint_word_of_int)

lemma as_size_int: "0 \<le> x \<Longrightarrow> x < 2 ^ 31 \<Longrightarrow> sint (ucast (as_size x) :: u32) = x"
  using as_size_uint [of x] by (simp add: ucast_eq signed_of_int signed_take_bit_int_eq_self)

lemma scroll_in_range:
  assumes "0 < height" "height \<le> int n" "int n < 2 ^ 31" "0 \<le> s" "s \<le> int n - height" "\<bar>diff\<bar> < 2 ^ 30"
    and "scroll height (of_nat n) diff s = Some s'"
  shows "0 \<le> s' \<and> s' \<le> int n - height"
proof -
  have last: "of_nat n - as_size height = as_size (int n - height)" by (simp add: as_size_def)
  have "uint (as_size (int n - height)) = int n - height" using assms by (intro as_size_uint) simp_all
  moreover have "0 \<le> s + diff \<Longrightarrow> uint (as_size (s + diff)) = s + diff"
    using assms(1,3,5,6) by (intro as_size_uint) (simp_all add: abs_less_iff)
  moreover have "sint (ucast (as_size (int n - height)) :: u32) = int n - height"
    using assms(1-3) by (intro as_size_int) simp_all
  ultimately show ?thesis using assms unfolding scroll_def last
    by (auto simp: Let_def word_less_def split: if_splits)
qed

end
