(* ===== verification/Drawing_Programs.thy ===== *)
theory Drawing_Programs
  imports Blocks Text_Programs Text_Viewer
begin

text \<open>
  The programs that draw: \<open>lines\<close>, \<open>stars\<close>, \<open>eye\<close>, \<open>paint\<close>, \<open>gview\<close>, \<open>winhello\<close> and \<open>winjpn\<close>
  (\<open>apps/*/*.cpp\<close>).  Floating-point functions of the library, the random numbers and the decoder of images are
  parameters.  All but \<open>paint\<close> stay in their window; \<open>paint\<close> draws where a button is pressed or released.
\<close>

section \<open>What they do\<close>

text \<open>A system call, or a text on the standard output.\<close>

datatype Act = Call SysCall | Out "u8 list"

definition calls_of :: "Act list \<Rightarrow> SysCall list" where
  "calls_of as = concat (map (\<lambda>a. case a of Call c \<Rightarrow> [c] | Out _ \<Rightarrow> []) as)"

text \<open>Conversion of a \<open>double\<close> to \<open>int\<close>.\<close>

definition c_trunc :: "'a::floor_ceiling \<Rightarrow> int" where "c_trunc x = (if x \<ge> 0 then \<lfloor>x\<rfloor> else \<lceil>x\<rceil>)"

definition closing :: "u64 \<Rightarrow> Act list" where
  "closing layer_id = [Call (SyscallCloseWindow layer_id), Call (SyscallExit 0)]"

definition read_failed :: "library \<Rightarrow> int \<Rightarrow> Act" where
  "read_failed lib err = Out (ascii ''ReadEvent failed: '' @ strerror lib err @ lf_text)"

definition unknown_event :: "string \<Rightarrow> AppEvent \<Rightarrow> Act" where
  "unknown_event label e = Out (ascii label @ dec_int (event_type e) @ lf_text)"

section \<open>\<open>lines\<close>\<close>

definition Color_deg :: "int \<Rightarrow> u32" where
  "Color_deg deg =
    (if deg \<le> 30 then push_bit 8 (word_of_int (255 * deg sdiv 30)) OR 0xff0000
     else if deg \<le> 60 then push_bit 16 (word_of_int (255 * (60 - deg) sdiv 30)) OR 0x00ff00
     else if deg \<le> 90 then word_of_int (255 * (deg - 60) sdiv 30) OR 0x00ff00
     else if deg \<le> 120 then push_bit 8 (word_of_int (255 * (120 - deg) sdiv 30)) OR 0x0000ff
     else if deg \<le> 150 then push_bit 16 (word_of_int (255 * (deg - 120) sdiv 30)) OR 0x0000ff
     else word_of_int (255 * (180 - deg) sdiv 30) OR 0xff0000)"

text \<open>\<open>speed_x\<close> and \<open>speed_y\<close> are the values of \<open>kRadius * cos(M_PI * deg / 180.0)\<close> and with \<open>sin\<close>.\<close>

definition kRadius :: int where "kRadius = 90"

definition draw_rays :: "speeds \<Rightarrow> u64 \<Rightarrow> int \<Rightarrow> SysCall list" where
  "draw_rays trig layer_id deg =
    (let x0 = 4; y0 = 24; x1 = 4 + kRadius + 10; y1 = 24 + kRadius;
         x = c_trunc (speed_x trig deg); y = c_trunc (speed_y trig deg) in
     [SyscallWinDrawLine layer_id x0 y0 (x0 + x) (y0 + y) (Color_deg deg),
      SyscallWinDrawLine layer_id x1 y1 (x1 + x) (y1 - y) (Color_deg (deg + 90))])"

definition lines_main :: "speeds \<Rightarrow> int + u64 \<Rightarrow> SysCall list" where
  "lines_main trig window =
    SyscallOpenWindow (kRadius * 2 + 10 + 8) (kRadius + 28) 10 10 (ascii ''lines'') #
    (case window of
       Inl err \<Rightarrow> [SyscallExit err]
     | Inr layer_id \<Rightarrow> concat (map (\<lambda>i. draw_rays trig layer_id (5 * i)) [0..18]) @ [SyscallExit 0])"

section \<open>\<open>stars\<close>\<close>

text \<open>\<open>rand i\<close> is the i-th pair of random coordinates, \<open>t0\<close> and \<open>t1\<close> the ticks.\<close>

definition stars_main ::
  "(nat \<Rightarrow> int \<times> int) \<Rightarrow> u8 list list \<Rightarrow> int + u64 \<Rightarrow> u64 \<times> int \<Rightarrow> u64 \<Rightarrow> Act list option" where
  "stars_main rand args window t0 t1 =
    do {
      num_stars \<leftarrow> (if length args \<ge> 2 then atoi (args ! 1) else Some 100);
      Some (Call (SyscallOpenWindow (100 + 8) (100 + 28) 10 10 (ascii ''stars'')) #
        (case window of
           Inl err \<Rightarrow> [Call (SyscallExit err)]
         | Inr layer_id \<Rightarrow>
             let l = layer_id OR LAYER_NO_REDRAW in
             [Call (SyscallWinFillRectangle l 4 24 100 100 0x000000), Call SyscallGetCurrentTick] @
             map (\<lambda>i. Call (SyscallWinFillRectangle l (4 + fst (rand i)) (24 + snd (rand i)) 2 2 0xfff100)) [0..<nat num_stars] @
             [Call (SyscallWinRedraw layer_id), Call SyscallGetCurrentTick,
              Out (dec_int num_stars @ ascii '' stars in '' @ dec (unat ((t1 - fst t0) * 1000 div word_of_int (snd t0))) @
                ascii '' ms.'' @ lf_text),
              Call (SyscallExit 0)]))
    }"

section \<open>\<open>eye\<close>\<close>

text \<open>\<open>direct x y\<close> are the values of \<open>eye_center_x\<close> and \<open>eye_center_y\<close> for the place of the mouse.\<close>

definition DrawEye :: "(int \<Rightarrow> int \<Rightarrow> real \<times> real) \<Rightarrow> u64 \<Rightarrow> int \<Rightarrow> int \<Rightarrow> u32 \<Rightarrow> SysCall" where
  "DrawEye direct l mouse_x mouse_y color =
    (let (cx, cy) = direct (mouse_x - 50 - 4) (mouse_y - 50 - 24);
         eye_x = c_trunc cx + 50 + 4; eye_y = c_trunc cy + 50 + 24 in
     SyscallWinFillRectangle l (eye_x - 5) (eye_y - 5) 10 10 color)"

fun eye_loop :: "library \<Rightarrow> (int \<Rightarrow> int \<Rightarrow> real \<times> real) \<Rightarrow> u64 \<Rightarrow> read_result list \<Rightarrow> Act list" where
  "eye_loop lib direct layer_id [] = []"
| "eye_loop lib direct layer_id (r # rs) =
    (case r of
       Inl err \<Rightarrow> read_failed lib err # closing layer_id
     | Inr e \<Rightarrow>
         (case e of
            AppQuit \<Rightarrow> closing layer_id
          | AppMouseMove x y _ _ _ \<Rightarrow>
              [Call (SyscallWinFillRectangle (layer_id OR LAYER_NO_REDRAW) 4 24 100 100 0x323232),
               Call (DrawEye direct layer_id x y 0x00ffff)] @ eye_loop lib direct layer_id rs
          | _ \<Rightarrow> unknown_event ''unkown event: type = '' e # eye_loop lib direct layer_id rs))"

definition eye_main :: "library \<Rightarrow> (int \<Rightarrow> int \<Rightarrow> real \<times> real) \<Rightarrow> int + u64 \<Rightarrow> read_result list \<Rightarrow> Act list" where
  "eye_main lib direct window rs =
    Call (SyscallOpenWindow (100 + 8) (100 + 28) 10 10 (ascii ''eye'')) #
    (case window of
       Inl err \<Rightarrow> [Call (SyscallExit err)]
     | Inr layer_id \<Rightarrow>
         Call (SyscallWinFillRectangle layer_id 4 24 100 100 0x323232) # eye_loop lib direct layer_id rs)"

section \<open>\<open>paint\<close>\<close>

definition IsInside :: "int \<Rightarrow> int \<Rightarrow> bool" where
  "IsInside x y \<longleftrightarrow> 4 \<le> x \<and> x < 4 + 200 \<and> 24 \<le> y \<and> y < 24 + 130"

fun paint_loop :: "library \<Rightarrow> u64 \<Rightarrow> bool \<Rightarrow> read_result list \<Rightarrow> Act list" where
  "paint_loop lib layer_id pressed [] = []"
| "paint_loop lib layer_id pressed (r # rs) =
    (case r of
       Inl err \<Rightarrow> read_failed lib err # closing layer_id
     | Inr e \<Rightarrow>
         (case e of
            AppQuit \<Rightarrow> closing layer_id
          | AppMouseMove x y dx dy _ \<Rightarrow>
              (let prev_x = x - dx; prev_y = y - dy in
               if pressed \<and> IsInside prev_x prev_y \<and> IsInside x y
               then [Call (SyscallWinDrawLine layer_id prev_x prev_y x y 0x00ffff)] else []) @
              paint_loop lib layer_id pressed rs
          | AppMouseButton x y press button \<Rightarrow>
              if button = 0
              then Call (SyscallWinFillRectangle layer_id x y 1 1 0x00ffff) # paint_loop lib layer_id (press \<noteq> 0) rs
              else paint_loop lib layer_id pressed rs
          | _ \<Rightarrow> unknown_event ''unkown event: type = '' e # paint_loop lib layer_id pressed rs))"

definition paint_main :: "library \<Rightarrow> int + u64 \<Rightarrow> read_result list \<Rightarrow> Act list" where
  "paint_main lib window rs =
    Call (SyscallOpenWindow (200 + 8) (130 + 28) 10 10 (ascii ''paint'')) #
    (case window of Inl err \<Rightarrow> [Call (SyscallExit err)] | Inr layer_id \<Rightarrow> paint_loop lib layer_id False rs)"

section \<open>\<open>gview\<close>\<close>

record image =
  img_width :: int
  img_height :: int
  bytes_per_pixel :: nat
  image_data :: "u8 list"

text \<open>A read behind the data is undefined.\<close>

definition GetColorRGB :: "u8 list \<Rightarrow> nat \<Rightarrow> u32 option" where
  "GetColorRGB data i =
    (if i + 2 < length data
     then Some (push_bit 16 (ucast (data ! i)) OR push_bit 8 (ucast (data ! (i + 1))) OR ucast (data ! (i + 2)))
     else None)"

definition GetColorGray :: "u8 list \<Rightarrow> nat \<Rightarrow> u32 option" where
  "GetColorGray data i =
    (if i < length data
     then let gray = ucast (data ! i) in Some (push_bit 16 gray OR push_bit 8 gray OR gray) else None)"

definition image_pixel :: "image \<Rightarrow> u64 \<Rightarrow> int \<Rightarrow> int \<Rightarrow> SysCall option" where
  "image_pixel im layer_id y x =
    (let get_color = (if bytes_per_pixel im \<le> 2 then GetColorGray else GetColorRGB) in
     map_option (\<lambda>c. SyscallWinFillRectangle (layer_id OR LAYER_NO_REDRAW) (4 + x) (24 + y) 1 1 c)
       (get_color (image_data im) (bytes_per_pixel im * nat (y * img_width im + x))))"

definition draw_image :: "image \<Rightarrow> u64 \<Rightarrow> SysCall list option" where
  "draw_image im layer_id =
    (let pixels = concat (map (\<lambda>y. map (image_pixel im layer_id y) [0..img_width im - 1]) [0..img_height im - 1]) in
     if None \<in> set pixels then None else Some (map the pixels))"

fun gview_WaitEvent :: "library \<Rightarrow> read_result list \<Rightarrow> Print list option" where
  "gview_WaitEvent lib [] = None"
| "gview_WaitEvent lib (Inl err # rs) = Some [Stderr (ascii ''ReadEvent failed: '' @ strerror lib err @ lf_text)]"
| "gview_WaitEvent lib (Inr e # rs) = (if e = AppQuit then Some [] else gview_WaitEvent lib rs)"

text \<open>The calls for an image that could be decoded and a window that could be opened.\<close>

definition gview_show :: "library \<Rightarrow> image \<Rightarrow> u64 \<Rightarrow> read_result list \<Rightarrow> SysCall list option" where
  "gview_show lib im layer_id rs =
    map_option (\<lambda>cs. cs @ [SyscallWinRedraw layer_id] @
        (case gview_WaitEvent lib rs of None \<Rightarrow> [] | Some _ \<Rightarrow> [SyscallCloseWindow layer_id, SyscallExit 0]))
      (draw_image im layer_id)"

text \<open>
  \<open>opened\<close> and \<open>mapped\<close> are the results of the calls for the file, \<open>decode\<close> is \<open>stbi_load_from_memory\<close>: the
  reason of a failure, or the image.
\<close>

definition gview_fails :: "u8 list \<Rightarrow> (Print list \<times> SysCall list) option" where
  "gview_fails msg = Some ([Stderr msg], [SyscallExit 1])"

definition gview_main ::
  "library \<Rightarrow> u8 list list \<Rightarrow> int + int \<Rightarrow> int + u8 list \<Rightarrow> (u8 list \<Rightarrow> u8 list + image) \<Rightarrow> int + u64 \<Rightarrow>
     read_result list \<Rightarrow> (Print list \<times> SysCall list) option" where
  "gview_main lib args opened mapped decode window rs =
    (if length args < 2 then gview_fails (ascii ''Usage: '' @ args ! 0 @ ascii '' <file>'' @ lf_text)
     else
       case (opened, mapped) of
         (Inl err, _) \<Rightarrow> gview_fails (strerror lib err @ ascii '': '' @ args ! 1 @ lf_text)
       | (_, Inl err) \<Rightarrow> gview_fails (strerror lib err @ lf_text)
       | (Inr fd, Inr bs) \<Rightarrow>
           (case decode bs of
              Inl reason \<Rightarrow> gview_fails (ascii ''failed to load image: '' @ reason @ lf_text)
            | Inr im \<Rightarrow>
                let info = Stderr (dec_int (img_width im) @ ascii ''x'' @ dec_int (img_height im) @ ascii '', '' @
                                   dec (bytes_per_pixel im) @ ascii '' bytes/pixel'' @ lf_text);
                    opening = SyscallOpenWindow (8 + img_width im) (28 + img_height im) 10 10 (base_name (args ! 1)) in
                (case window of
                   Inl err \<Rightarrow> Some ([info, Stderr (strerror lib err @ lf_text)], [opening, SyscallExit 1])
                 | Inr layer_id \<Rightarrow>
                     map_option (\<lambda>cs. (info # (case gview_WaitEvent lib rs of None \<Rightarrow> [] | Some ps \<Rightarrow> ps), opening # cs))
                       (gview_show lib im layer_id rs))))"

section \<open>\<open>winhello\<close> and \<open>winjpn\<close>\<close>

fun hello_loop :: "library \<Rightarrow> u64 \<Rightarrow> read_result list \<Rightarrow> Act list" where
  "hello_loop lib layer_id [] = []"
| "hello_loop lib layer_id (r # rs) =
    (case r of
       Inl err \<Rightarrow> read_failed lib err # closing layer_id
     | Inr e \<Rightarrow>
         if e = AppQuit then closing layer_id
         else if event_type e \<in> {1, 2, 4} then hello_loop lib layer_id rs
         else unknown_event ''unknown event: type = '' e # hello_loop lib layer_id rs)"

definition hello_window :: "u8 list \<Rightarrow> (u8 list \<times> u32) list \<Rightarrow> library \<Rightarrow> int + u64 \<Rightarrow> read_result list \<Rightarrow> Act list" where
  "hello_window title texts lib window rs =
    Call (SyscallOpenWindow 200 100 10 10 title) #
    (case window of
       Inl err \<Rightarrow> [Call (SyscallExit err)]
     | Inr layer_id \<Rightarrow>
         map (\<lambda>((x, y), (s, c)). Call (SyscallWinWriteString layer_id x y c s)) (zip [(7, 24), (24, 40), (40, 56)] texts) @
         hello_loop lib layer_id rs)"

definition winhello_main :: "library \<Rightarrow> int + u64 \<Rightarrow> read_result list \<Rightarrow> Act list" where
  "winhello_main =
    (let s = ascii ''hello world!'' in
     hello_window (ascii ''winhello'') [(s, 0xc00000), (s, 0x00c000), (s, 0xc000c0)])"

definition winjpn_main :: "library \<Rightarrow> int + u64 \<Rightarrow> read_result list \<Rightarrow> Act list" where
  "winjpn_main =
    (let world = [0x20, 0x4e16, 0x754c, 0xff01] in
     hello_window (utf8_string [0x3053, 0x3093, 0x306b, 0x3061, 0x306f])
       [(utf8_string ([0x304a, 0x306f, 0x3088, 0x3046] @ world), 0xc00000),
        (utf8_string ([0x3053, 0x3093, 0x306b, 0x3061, 0x306f] @ world), 0x00c000),
        (utf8_string ([0x3053, 0x3093, 0x3070, 0x3093, 0x306f] @ world), 0x0000c0)])"

section \<open>Where they draw\<close>

definition acts_inside :: "u64 \<Rightarrow> int \<Rightarrow> int \<Rightarrow> SysCall list \<Rightarrow> bool" where
  "acts_inside layer w h cs \<longleftrightarrow> (\<forall>c \<in> set cs. window_life c \<or> stays_inside layer w h c)"

lemma calls_of_simps [simp]:
  "calls_of [] = []" "calls_of (Call c # as) = c # calls_of as" "calls_of (Out s # as) = calls_of as"
  "calls_of (as @ bs) = calls_of as @ calls_of bs"
  by (simp_all add: calls_of_def)

lemma calls_of_map [simp]: "calls_of (map (\<lambda>x. Call (f x)) xs) = map f xs"
  by (induction xs) simp_all

lemma acts_inside_simps [simp]:
  "acts_inside layer w h []"
  "acts_inside layer w h (c # cs) \<longleftrightarrow> (window_life c \<or> stays_inside layer w h c) \<and> acts_inside layer w h cs"
  "acts_inside layer w h (cs @ ds) \<longleftrightarrow> acts_inside layer w h cs \<and> acts_inside layer w h ds"
  by (auto simp: acts_inside_def)

text \<open>The errors of the library functions that are allowed.\<close>

definition rays_accurate :: "speeds \<Rightarrow> bool" where
  "rays_accurate trig \<longleftrightarrow>
    (\<forall>d. \<bar>speed_x trig d - 90 * cos (pi * of_int d / 180)\<bar> \<le> 1 / 100 \<and> \<bar>speed_y trig d - 90 * sin (pi * of_int d / 180)\<bar> \<le> 1 / 100)"

lemma trunc_range: "- 1 < (v :: real) \<Longrightarrow> v < of_int n + 1 \<Longrightarrow> 0 \<le> n \<Longrightarrow> 0 \<le> c_trunc v \<and> c_trunc v \<le> n"
  by (auto simp: c_trunc_def floor_le_iff ceiling_le_iff le_ceiling_iff le_floor_iff)

lemma ray_range:
  assumes "rays_accurate trig" "0 \<le> d" "d \<le> 90"
  shows "0 \<le> c_trunc (speed_x trig d) \<and> c_trunc (speed_x trig d) \<le> 90"
    "0 \<le> c_trunc (speed_y trig d) \<and> c_trunc (speed_y trig d) \<le> 90"
proof -
  let ?a = "pi * of_int d / 180"
  have a: "0 \<le> ?a" "?a \<le> pi / 2" using assms(2,3) by (simp_all add: field_simps)
  have "0 \<le> cos ?a" using a by (intro cos_ge_zero) linarith+
  moreover have "0 \<le> sin ?a" using a pi_gt_zero by (intro sin_ge_zero) linarith+
  moreover have "cos ?a \<le> 1" "sin ?a \<le> 1" by simp_all
  moreover have "\<bar>speed_x trig d - 90 * cos ?a\<bar> \<le> 1 / 100" "\<bar>speed_y trig d - 90 * sin ?a\<bar> \<le> 1 / 100"
    using assms(1) by (simp_all add: rays_accurate_def)
  ultimately have "- 1 < speed_x trig d" "speed_x trig d < of_int 90 + 1" "- 1 < speed_y trig d" "speed_y trig d < of_int 90 + 1"
    unfolding of_int_numeral by linarith+
  then show "0 \<le> c_trunc (speed_x trig d) \<and> c_trunc (speed_x trig d) \<le> 90"
    "0 \<le> c_trunc (speed_y trig d) \<and> c_trunc (speed_y trig d) \<le> 90"
    using trunc_range [of _ 90] by simp_all
qed

lemma lines_inside:
  assumes "rays_accurate trig" "layer AND 0xffffffff = layer"
  shows "acts_inside layer 198 118 (lines_main trig (Inr layer))"
proof -
  have "acts_inside layer 198 118 (draw_rays trig layer (5 * i))" if "0 \<le> i" "i \<le> 18" for i
    using ray_range [OF assms(1), of "5 * i"] that assms(2) by (simp add: draw_rays_def Let_def kRadius_def)
  then have "\<forall>i \<in> {0..18}. acts_inside layer 198 118 (draw_rays trig layer (5 * i))" by simp
  then have "acts_inside layer 198 118 (concat (map (\<lambda>i. draw_rays trig layer (5 * i)) [0..18]))"
    unfolding acts_inside_def by fastforce
  then show ?thesis by (simp add: lines_main_def)
qed

lemma stars_inside:
  assumes "stars_main rand args (Inr layer) t0 t1 = Some as" "layer AND 0xffffffff = layer"
    "\<forall>i. 0 \<le> fst (rand i) \<and> fst (rand i) \<le> 98 \<and> 0 \<le> snd (rand i) \<and> snd (rand i) \<le> 98"
  shows "acts_inside layer 108 128 (calls_of as)"
proof -
  let ?l = "layer OR LAYER_NO_REDRAW"
  have "stays_inside layer 108 128 (SyscallWinFillRectangle ?l (4 + fst (rand i)) (24 + snd (rand i)) 2 2 c)" for i c
    using assms(3) [rule_format, of i] layer_flags [OF assms(2)] by simp
  then have "acts_inside layer 108 128 (map (\<lambda>i. SyscallWinFillRectangle ?l (4 + fst (rand i)) (24 + snd (rand i)) 2 2 0xfff100) ks)" for ks
    by (induction ks) simp_all
  then show ?thesis using assms(1,2) layer_flags [OF assms(2)] by (auto simp: stars_main_def bind_eq_Some Let_def)
qed

lemma eye_loop_inside:
  assumes "layer AND 0xffffffff = layer" "\<forall>x y. \<bar>fst (direct x y)\<bar> < 46 \<and> \<bar>snd (direct x y)\<bar> < 46"
  shows "acts_inside layer 108 128 (calls_of (eye_loop lib direct layer rs))"
proof (induction rs)
  case (Cons r rs)
  have "- 45 \<le> c_trunc v \<and> c_trunc v \<le> 45" if "\<bar>v\<bar> < 46" for v :: real
  proof (cases "0 \<le> v")
    case True
    with that have "\<lfloor>v\<rfloor> < 46" "0 \<le> \<lfloor>v\<rfloor>" by (simp_all add: floor_less_iff)
    with True show ?thesis by (simp add: c_trunc_def)
  next
    case False
    with that have "- 46 < \<lceil>v\<rceil>" "\<lceil>v\<rceil> \<le> 0" by (simp_all add: less_ceiling_iff ceiling_le_iff)
    with False show ?thesis by (simp add: c_trunc_def)
  qed
  then have range: "- 45 \<le> c_trunc (fst (direct x y))" "c_trunc (fst (direct x y)) \<le> 45"
    "- 45 \<le> c_trunc (snd (direct x y))" "c_trunc (snd (direct x y)) \<le> 45" for x y using assms(2) by simp_all
  have eye: "stays_inside layer 108 128 (DrawEye direct layer x y c)" for x y c
    using range [of "x - 50 - 4" "y - 50 - 24"] assms(1) by (simp add: DrawEye_def split_beta Let_def)
  show ?case
  proof (cases r)
    case (Inl err)
    then show ?thesis by (simp add: closing_def read_failed_def)
  next
    case (Inr e)
    with Cons eye layer_flags [OF assms(1)] show ?thesis
      by (cases e) (simp_all add: closing_def unknown_event_def)
  qed
qed simp

lemma draw_image_inside:
  assumes "draw_image im layer = Some cs" "layer AND 0xffffffff = layer"
  shows "acts_inside layer (8 + img_width im) (28 + img_height im) cs"
proof -
  have "stays_inside layer (8 + img_width im) (28 + img_height im) c"
    if "image_pixel im layer y x = Some c" "0 \<le> x" "x < img_width im" "0 \<le> y" "y < img_height im" for x y c
    using that layer_flags [OF assms(2)] by (auto simp: image_pixel_def Let_def)
  note pixel = this
  let ?ps = "concat (map (\<lambda>y. map (image_pixel im layer y) [0..img_width im - 1]) [0..img_height im - 1])"
  have cs: "None \<notin> set ?ps" "cs = map the ?ps" using assms(1) by (auto simp: draw_image_def Let_def split: if_splits)
  show ?thesis unfolding acts_inside_def
  proof
    fix c assume "c \<in> set cs"
    then obtain q where q: "q \<in> set ?ps" "c = the q" using cs(2) by auto
    then have "q \<noteq> None" using cs(1) by metis
    then have "q = Some c" using q(2) by (cases q) simp_all
    with q(1) obtain x y where "image_pixel im layer y x = Some c" "x \<in> {0..img_width im - 1}" "y \<in> {0..img_height im - 1}"
      by auto
    with pixel show "window_life c \<or> stays_inside layer (8 + img_width im) (28 + img_height im) c" by auto
  qed
qed

text \<open>A call that the kernel carries out whenever the window is open, or that opens or closes it.\<close>

definition safe_call :: "u64 \<Rightarrow> int \<Rightarrow> int \<Rightarrow> SysCall \<Rightarrow> bool" where
  "safe_call layer w h c \<longleftrightarrow> window_life c \<or>
    (\<forall>mach loc k. window_open layer w h k \<longrightarrow> (\<exists>k' r. perform mach loc c k = Some (k', r) \<and> window_open layer w h k'))"

lemma inside_safe: "acts_inside layer w h cs \<Longrightarrow> \<forall>c \<in> set cs. safe_call layer w h c"
  using kernel_windows.inside_defined unfolding acts_inside_def safe_call_def by blast

text \<open>
  C0. \<open>lines\<close>, \<open>stars\<close>, \<open>eye\<close> and the pictures of \<open>gview\<close> only make calls that the kernel carries out in every state
  in which their window is open: with small errors of the library's \<open>cos\<close>, \<open>sin\<close>, \<open>atan2\<close> and \<open>sqrt\<close>, random numbers in the
  wanted range, any place of the mouse, any events, and any picture.
\<close>

theorem programs_draw_inside:
  assumes "layer AND 0xffffffff = layer" "rays_accurate trig"
    "\<forall>i. 0 \<le> fst (rand i) \<and> fst (rand i) \<le> 98 \<and> 0 \<le> snd (rand i) \<and> snd (rand i) \<le> 98"
    "\<forall>x y. \<bar>fst (direct x y)\<bar> < 46 \<and> \<bar>snd (direct x y)\<bar> < 46"
  shows "(\<forall>c \<in> set (lines_main trig (Inr layer)). safe_call layer 198 118 c) \<and>
    (\<forall>as. stars_main rand args (Inr layer) t0 t1 = Some as \<longrightarrow> (\<forall>c \<in> set (calls_of as). safe_call layer 108 128 c)) \<and>
    (\<forall>c \<in> set (calls_of (eye_main lib direct (Inr layer) rs)). safe_call layer 108 128 c) \<and>
    (\<forall>cs. gview_show lib im layer rs = Some cs \<longrightarrow> (\<forall>c \<in> set cs. safe_call layer (8 + img_width im) (28 + img_height im) c))"
proof (intro conjI allI impI)
  show "\<forall>c \<in> set (lines_main trig (Inr layer)). safe_call layer 198 118 c"
    by (rule inside_safe, rule lines_inside [OF assms(2,1)])
  show "\<forall>c \<in> set (calls_of as). safe_call layer 108 128 c" if "stars_main rand args (Inr layer) t0 t1 = Some as" for as
    by (rule inside_safe, rule stars_inside [OF that assms(1,3)])
  show "\<forall>c \<in> set (calls_of (eye_main lib direct (Inr layer) rs)). safe_call layer 108 128 c"
    using eye_loop_inside [OF assms(1,4)] assms(1) by (intro inside_safe) (simp add: eye_main_def)
  show "\<forall>c \<in> set cs. safe_call layer (8 + img_width im) (28 + img_height im) c" if "gview_show lib im layer rs = Some cs" for cs
    using that draw_image_inside [of im layer] assms(1)
    by (intro inside_safe) (auto simp: gview_show_def split: option.splits)
qed

definition exact_rays :: speeds where
  "exact_rays = \<lparr>speed_x = (\<lambda>d. 90 * cos (pi * of_int d / 180)), speed_y = (\<lambda>d. 90 * sin (pi * of_int d / 180))\<rparr>"

definition quiet :: library where
  "quiet = \<lparr>stdin_bytes = [], file_bytes = (\<lambda>_. None), strerror = (\<lambda>_. [])\<rparr>"

definition two_pixels :: image where
  "two_pixels = \<lparr>img_width = 2, img_height = 1, bytes_per_pixel = 1, image_data = [9, 200]\<rparr>"

theorem programs_draw_inside_witness:
  "(\<forall>c \<in> set (lines_main exact_rays (Inr 7)). safe_call 7 198 118 c) \<and>
    (\<forall>as. stars_main (\<lambda>i. (int i mod 99, 5)) [] (Inr 7) (0, 100) 3 = Some as \<longrightarrow> (\<forall>c \<in> set (calls_of as). safe_call 7 108 128 c)) \<and>
    (\<forall>c \<in> set (calls_of (eye_main quiet (\<lambda>x y. (45, - 45)) (Inr 7) [Inr (AppMouseMove 90 3 1 1 0), Inr AppQuit])). safe_call 7 108 128 c) \<and>
    (\<forall>cs. gview_show quiet two_pixels 7 [Inr (AppMouseMove 90 3 1 1 0), Inr AppQuit] = Some cs \<longrightarrow>
      (\<forall>c \<in> set cs. safe_call 7 (8 + img_width two_pixels) (28 + img_height two_pixels) c))"
proof -
  have rays: "rays_accurate exact_rays" by (simp add: rays_accurate_def exact_rays_def)
  have "0 \<le> int i mod 99 \<and> int i mod 99 \<le> 98" for i
    using pos_mod_bound [of 99 "int i"] pos_mod_sign [of 99 "int i"] by linarith
  then have rand: "\<forall>i. 0 \<le> fst (int i mod 99, 5 :: int) \<and> fst (int i mod 99, 5 :: int) \<le> 98 \<and>
      0 \<le> snd (int i mod 99, 5 :: int) \<and> snd (int i mod 99, 5 :: int) \<le> 98" by simp
  show ?thesis
    by (rule programs_draw_inside [of 7 exact_rays "\<lambda>i. (int i mod 99, 5)" "\<lambda>x y. (45, - 45)", OF _ rays rand]) simp_all
qed

section \<open>\<open>paint\<close> draws outside\<close>

lemma FillRectangle_outside:
  assumes "wf_win v" "\<not> win_inside v (Vec x y)"
  shows "FillRectangle Window_Write (Vec x y) (Vec 1 1) c v = None"
proof -
  have "fill_points (Vec x y) (Vec 1 1) = [Vec x y]" by (simp add: fill_points_def plus_Vector2D_def)
  moreover have "Window_Write v (Vec x y) c = None" using At_iff [OF assms(1), of "Vec x y"] assms(2) by (simp add: Window_Write_def)
  ultimately show ?thesis by (simp add: FillRectangle_def)
qed

text \<open>
  C0. \<open>paint\<close> also colours the point where the button is released, without comparing it with its window; when the
  mouse has left the window before, the kernel writes outside of the window's pixels, which is undefined.
\<close>

theorem paint_draws_outside:
  assumes "layer AND 0xffffffff = layer" "\<bar>x\<bar> < 2 ^ 31" "\<bar>y\<bar> < 2 ^ 31" "\<not> (0 \<le> x \<and> x < 208 \<and> 0 \<le> y \<and> y < 158)"
  shows "\<exists>c \<in> set (calls_of (paint_main lib (Inr layer) [Inr (AppMouseButton 100 60 1 0), Inr (AppMouseButton x y 0 0)])).
    \<forall>mach loc k. window_open layer 208 158 k \<longrightarrow> perform mach loc c k = None"
proof (intro bexI allI impI)
  let ?c = "SyscallWinFillRectangle layer x y 1 1 0x00ffff"
  show "?c \<in> set (calls_of (paint_main lib (Inr layer) [Inr (AppMouseButton 100 60 1 0), Inr (AppMouseButton x y 0 0)]))"
    by (simp add: paint_main_def)
  fix mach loc k assume "window_open layer 208 158 k"
  from open_window_wf [OF this] obtain l n win where w: "FindLayer (layers (k_desk k)) (unat layer) = Some l"
    "layer_window l = Some n" "windows (k_desk k) n = Some win" "win_width win = 208" "win_height win = 158" "wf_win win" .
  then have "\<not> win_inside win (Vec x y)" using assms(4) by (auto simp: win_inside_def in_rect_def Window_Size_def)
  from FillRectangle_outside [OF w(6) this] w(1-3) assms(1-3) show "perform mach loc ?c k = None"
    by (simp add: perform_numbers WinFillRectangle_def regs_def DoWinFunc_def Let_def drawing_only_def)
qed

theorem paint_draws_outside_witness:
  "\<exists>c \<in> set (calls_of (paint_main quiet (Inr 7) [Inr (AppMouseButton 100 60 1 0), Inr (AppMouseButton 300 20 0 0)])).
    \<forall>mach loc k. window_open 7 208 158 k \<longrightarrow> perform mach loc c k = None"
  by (rule paint_draws_outside) simp_all

end
