(* ===== verification/Main_Task.thy ===== *)
theory Main_Task
  imports Terminal_Commands Xhci_Start
begin

text \<open>
  The main task: \<open>kernel/main.cpp\<close>.  The two windows of the kernel, what is set up before the loop,
  and one round of the loop for each kind of message.
\<close>

section \<open>State\<close>

text \<open>
  The state of the kernel with what only the main task uses.  The console draws on window 1, as
  \<open>InitializeLayer\<close> leaves it.
\<close>

record system =
  m_kernel :: kernel
  m_xhc :: Xhc
  m_mouse :: Mouse
  m_console :: Console
  main_window :: nat
  main_window_layer_id :: nat
  text_window :: nat
  text_window_layer_id :: nat
  text_window_index :: int
  textbox_cursor_visible :: bool

text \<open>What comes from outside: the processor and the devices.\<close>

record platform =
  m_machine :: machine
  m_abi :: Abi
  m_hw :: Hw
  m_config :: FrameBufferConfig

definition on_desk :: "(Desktop \<Rightarrow> Desktop option) \<Rightarrow> system \<Rightarrow> system option" where
  "on_desk f s = map_option (\<lambda>d. s\<lparr>m_kernel := (m_kernel s)\<lparr>k_desk := d\<rparr>\<rparr>) (f (k_desk (m_kernel s)))"

definition on_kernel :: "(kernel \<Rightarrow> kernel option) \<Rightarrow> system \<Rightarrow> system option" where
  "on_kernel f s = map_option (\<lambda>k. s\<lparr>m_kernel := k\<rparr>) (f (m_kernel s))"

definition on_win :: "nat \<Rightarrow> (Window \<Rightarrow> Window option) \<Rightarrow> Desktop \<Rightarrow> Desktop option" where
  "on_win n f d = do { w \<leftarrow> windows d n; w' \<leftarrow> f w; Some (d\<lparr>windows := (windows d)(n \<mapsto> w')\<rparr>) }"

definition hankaku_of :: "platform \<Rightarrow> u8 list" where "hankaku_of p = hankaku_font (m_machine p)"
definition freetype_of :: "platform \<Rightarrow> FreeType" where "freetype_of p = freetype (m_machine p)"

section \<open>The windows of the kernel\<close>

text \<open>A window with its layer at a position and on top; its number and the layer's.\<close>

definition place_window :: "Vector2D \<Rightarrow> Window \<Rightarrow> nat \<Rightarrow> Desktop \<Rightarrow> Desktop \<times> nat" where
  "place_window pos w n d =
    (let (lm, layer_id) = NewLayer (layers d);
         lm1 = update_layer layer_id (\<lambda>l. Layer_Move pos (SetDraggable True (SetWindow_layer n l))) lm
     in (d\<lparr>layers := UpDown layer_id 2147483647 lm1, windows := (windows d)(n \<mapsto> w)\<rparr>, layer_id))"

definition InitializeMainWindow :: "platform \<Rightarrow> system \<Rightarrow> system option" where
  "InitializeMainWindow p s =
    do {
      w \<leftarrow> new_ToplevelWindow (hankaku_of p) (freetype_of p) 160 52 (pixel_format (m_config p)) (ascii ''Hello Window'' @ [0]);
      let k = m_kernel s;
      let n = k_next k;
      let (d, layer_id) = place_window (Vec 300 100) w n (k_desk k);
      Some (s\<lparr>m_kernel := k\<lparr>k_desk := d, k_next := n + 1\<rparr>, main_window := n, main_window_layer_id := layer_id\<rparr>)
    }"

definition InitializeTextWindow :: "platform \<Rightarrow> system \<Rightarrow> system option" where
  "InitializeTextWindow p s =
    do {
      w \<leftarrow> new_ToplevelWindow (hankaku_of p) (freetype_of p) 160 52 (pixel_format (m_config p)) (ascii ''Text Box Test'' @ [0]);
      w1 \<leftarrow> DrawTextbox Inner_Write (Vec 0 0) (InnerSize w) w;
      let k = m_kernel s;
      let n = k_next k;
      let (d, layer_id) = place_window (Vec 500 100) w1 n (k_desk k);
      Some (s\<lparr>m_kernel := k\<lparr>k_desk := d, k_next := n + 1\<rparr>, text_window := n, text_window_layer_id := layer_id\<rparr>)
    }"

section \<open>The text box\<close>

text \<open>On the window, with \<open>text_window_index\<close>.\<close>

definition DrawTextCursor :: "bool \<Rightarrow> int \<Rightarrow> Window \<Rightarrow> Window option" where
  "DrawTextCursor shown index w =
    FillRectangle Inner_Write (Vec (4 + 8 * index) 5) (Vec 1 15)
      (if shown then ToColor windowFGColor else ToColor windowBGColor) w"

definition max_chars :: "Window \<Rightarrow> int" where
  "max_chars w = (vx (InnerSize w) - 8) div 8 - 1"

text \<open>The cases of \<open>InputTextWindow\<close>; a character from 128 on is negative.\<close>

definition erase_char :: "int \<Rightarrow> Window \<Rightarrow> (Window \<times> int) option" where
  "erase_char index w =
    do {
      w1 \<leftarrow> DrawTextCursor False index w;
      w2 \<leftarrow> FillRectangle Inner_Write (Vec (4 + 8 * (index - 1)) 6) (Vec 8 16) (ToColor windowBGColor) w1;
      w3 \<leftarrow> DrawTextCursor True (index - 1) w2;
      Some (w3, index - 1)
    }"

definition add_char :: "u8 list \<Rightarrow> u8 \<Rightarrow> int \<Rightarrow> Window \<Rightarrow> (Window \<times> int) option" where
  "add_char hankaku c index w =
    do {
      w1 \<leftarrow> DrawTextCursor False index w;
      w2 \<leftarrow> WriteAscii Inner_Write hankaku (Vec (4 + 8 * index) 6) c (ToColor windowFGColor) w1;
      w3 \<leftarrow> DrawTextCursor True (index + 1) w2;
      Some (w3, index + 1)
    }"

definition edit_text :: "u8 list \<Rightarrow> u8 \<Rightarrow> int \<Rightarrow> Window \<Rightarrow> (Window \<times> int) option" where
  "edit_text hankaku c index w =
    (if c = 0x08 \<and> index > 0 then erase_char index w
     else if 0x20 \<le> c \<and> c < 0x80 \<and> index < max_chars w then add_char hankaku c index w
     else Some (w, index))"

definition InputTextWindow :: "platform \<Rightarrow> u8 \<Rightarrow> system \<Rightarrow> system option" where
  "InputTextWindow p c s =
    (if c = 0 then Some s
     else do {
       let d = k_desk (m_kernel s);
       w \<leftarrow> windows d (text_window s);
       (w1, index) \<leftarrow> edit_text (hankaku_of p) c (text_window_index s) w;
       on_desk (draw_desktop_layer (text_window_layer_id s))
         (s\<lparr>m_kernel := (m_kernel s)\<lparr>k_desk := d\<lparr>windows := (windows d)(text_window s \<mapsto> w1)\<rparr>\<rparr>, text_window_index := index\<rparr>)
     })"

section \<open>Output\<close>

text \<open>\<open>printk\<close> with the text already formatted; the redrawing comes after all characters.\<close>

definition printk :: "platform \<Rightarrow> u8 list \<Rightarrow> system \<Rightarrow> system option" where
  "printk p str s =
    (if length str \<ge> 1024 then None
     else do {
       let d = k_desk (m_kernel s);
       w \<leftarrow> windows d 1;
       (con, w1) \<leftarrow> PutString Window_Write Window_Move (hankaku_of p) (freetype_of p) (\<lambda>_ w. Some w) (str @ [0]) (m_console s) w;
       on_desk (draw_desktop_layer (unat (con_layer_id con)))
         (s\<lparr>m_kernel := (m_kernel s)\<lparr>k_desk := d\<lparr>windows := (windows d)(1 \<mapsto> w1)\<rparr>\<rparr>, m_console := con\<rparr>)
     })"

text \<open>The tick counter with ten digits.\<close>

definition tick_text :: "u64 \<Rightarrow> u8 list" where
  "tick_text t = (let ds = dec (unat t) in replicate (10 - length ds) 0x30 @ ds)"

definition draw_tick :: "platform \<Rightarrow> u64 \<Rightarrow> Window \<Rightarrow> Window option" where
  "draw_tick p t w =
    do {
      w1 \<leftarrow> FillRectangle Inner_Write (Vec 20 4) (Vec (8 * 10) 16) (PixelColor 0x32 0x32 0x32) w;
      DrawString Inner_Write (hankaku_of p) (freetype_of p) (Vec 20 4) (tick_text t @ [0]) (ToColor windowFGColor) w1
    }"

definition show_tick :: "platform \<Rightarrow> system \<Rightarrow> system option" where
  "show_tick p s =
    do {
      s1 \<leftarrow> on_desk (on_win (main_window s) (draw_tick p (tick (k_timers (m_kernel s))))) s;
      on_desk (draw_desktop_layer (main_window_layer_id s)) s1
    }"

section \<open>Start\<close>

definition kTextboxCursorTimer :: int where "kTextboxCursorTimer = 1"
definition kTimer05Sec :: u64 where "kTimer05Sec = 50"

definition add_cursor_timer :: "u64 \<Rightarrow> kernel \<Rightarrow> kernel" where
  "add_cursor_timer t k =
    k\<lparr>k_timers := AddTimer \<lparr>timeout = t + kTimer05Sec, timer_val = kTextboxCursorTimer, timer_task = 1\<rparr> (k_timers k)\<rparr>"

definition new_terminal_task :: "platform \<Rightarrow> kernel \<Rightarrow> kernel option" where
  "new_terminal_task p k = (let (k1, i) = new_task k in init_terminal (m_machine p) i 0 k1)"

text \<open>
  \<open>KernelMainNewStack\<close> from the windows to the loop, after the desktop and its task manager have
  been made; \<open>usb\<close> is the host controller as \<open>usb::xhci::Initialize\<close> leaves it.
\<close>

definition start_windows :: "platform \<Rightarrow> system \<Rightarrow> system option" where
  "start_windows p s =
    do {
      s1 \<leftarrow> InitializeMainWindow p s;
      s2 \<leftarrow> InitializeTextWindow p s1;
      on_desk (\<lambda>d. map_option (\<lambda>lm. d\<lparr>layers := lm\<rparr>)
                (Draw_area (windows d) (Rect (Vec 0 0) (ScreenSize (m_config p))) (layers d))) s2
    }"

definition start_input :: "platform \<Rightarrow> Xhc \<Rightarrow> system \<Rightarrow> system option" where
  "start_input p usb s =
    do {
      let k = add_cursor_timer 0 (m_kernel s);
      (m, d) \<leftarrow> InitializeMouse (k_next k) (pixel_format (m_config p)) (k_desk k);
      k1 \<leftarrow> new_terminal_task p (k\<lparr>k_desk := d, k_next := k_next k + 1, k_loads := Map.empty\<rparr>);
      Some (s\<lparr>m_kernel := k1, m_xhc := usb, m_mouse := m, textbox_cursor_visible := False\<rparr>)
    }"

section \<open>Messages\<close>

text \<open>
  \<open>ProcessEvents\<close> of the host controller, and what the observers of the keyboard and the mouse do
  with the events in the order of their arrival; they use no state of the controller.
\<close>

fun deliver_events :: "platform \<Rightarrow> HidEvent list \<Rightarrow> Mouse \<times> Desktop \<Rightarrow> (Mouse \<times> Desktop) option" where
  "deliver_events p [] md = Some md"
| "deliver_events p (e # es) md =
    do { md1 \<leftarrow> on_hid_event (hankaku_of p) (freetype_of p) (ScreenSize (m_config p)) e md; deliver_events p es md1 }"

definition process_usb :: "platform \<Rightarrow> system \<Rightarrow> system option" where
  "process_usb p s =
    do {
      x \<leftarrow> ProcessEvents (m_abi p) (m_hw p) (m_xhc s);
      (m, d) \<leftarrow> deliver_events p (u_events (xhc_usb x)) (m_mouse s, k_desk (m_kernel s));
      Some (s\<lparr>m_xhc := x\<lparr>xhc_usb := (xhc_usb x)\<lparr>u_events := []\<rparr>\<rparr>, m_mouse := m, m_kernel := (m_kernel s)\<lparr>k_desk := d\<rparr>\<rparr>)
    }"

definition process_timer :: "u64 \<Rightarrow> int \<Rightarrow> system \<Rightarrow> system option" where
  "process_timer t v s =
    (if v = kTextboxCursorTimer then do {
       let shown = \<not> textbox_cursor_visible s;
       s1 \<leftarrow> on_desk (on_win (text_window s) (DrawTextCursor shown (text_window_index s)))
              (s\<lparr>m_kernel := add_cursor_timer t (m_kernel s), textbox_cursor_visible := shown\<rparr>);
       on_desk (draw_desktop_layer (text_window_layer_id s)) s1
     }
     else Some s)"

definition kLAltBitMask :: u8 where "kLAltBitMask = 0x04"
definition kRAltBitMask :: u8 where "kRAltBitMask = 0x40"

definition alt_key :: "MessageArg \<Rightarrow> bool" where
  "alt_key a \<longleftrightarrow> kb_modifier a AND (kLAltBitMask OR kRAltBitMask) \<noteq> 0"

text \<open>
  The layer that Alt-A activates: the search for the next number that is in use.  Numbers are of
  type \<open>unsigned int\<close> and wrap around.
\<close>

definition skip_fixed :: "nat \<Rightarrow> nat" where
  "skip_fixed i = (if i = 1 \<or> i = 2 then 3 else i)"

definition next_id :: "nat \<Rightarrow> nat" where
  "next_id i = (if i + 1 < 2 ^ 32 then i + 1 else 0)"

function next_used :: "LayerManager \<Rightarrow> nat \<Rightarrow> nat" where
  "next_used lm i =
    (if i = 0 \<or> FindLayer lm i \<noteq> None then i
     else if i > latest_id lm then 0
     else next_used lm (next_id i))"
  by pat_completeness auto
termination
  by (relation "measure (\<lambda>(lm, i). if i = 0 then 0 else LayerManager.latest_id lm + 2 - i)")
    (auto simp: next_id_def)

declare next_used.simps [simp del]

definition next_window :: "Desktop \<Rightarrow> nat" where
  "next_window d =
    (let i = skip_fixed (next_id (active_layer d));
         j = (if i = mouse_layer d then next_id i else i)
     in skip_fixed (next_used (layers d) j))"

definition key_not_handled :: "MessageArg \<Rightarrow> u8 list" where
  "key_not_handled a =
    ascii ''key push not handled: keycode '' @ hex 2 (unat (kb_keycode a)) @
    ascii '', ascii '' @ hex 2 (unat (scast (kb_ascii a) :: u32)) @ [0x0a]"

text \<open>A key for the task of the active layer.\<close>

definition forward_key :: "platform \<Rightarrow> Message \<Rightarrow> system \<Rightarrow> system option" where
  "forward_key p m s =
    (let d = k_desk (m_kernel s) in
     case layer_task_map d (active_layer d) of
       Some task \<Rightarrow> on_kernel (send task m) s
     | None \<Rightarrow> if kb_press (arg m) \<noteq> 0 then printk p (key_not_handled (arg m)) s else Some s)"

definition process_key :: "platform \<Rightarrow> Message \<Rightarrow> system \<Rightarrow> system option" where
  "process_key p m s =
    (let d = k_desk (m_kernel s); a = arg m; press = kb_press a \<noteq> 0 in
     if alt_key a \<and> kb_ascii a = 0x61 then
       if press then on_desk (Activate (hankaku_of p) (freetype_of p) (next_window d)) s else Some s
     else if active_layer d = text_window_layer_id s then
       if press then InputTextWindow p (kb_ascii a) s else Some s
     else if press \<and> kb_keycode a = 59 then on_kernel (new_terminal_task p) s
     else forward_key p m s)"

definition process_layer :: "Message \<Rightarrow> system \<Rightarrow> system option" where
  "process_layer m s =
    do {
      s1 \<leftarrow> on_desk (ProcessLayerMessage (arg m)) s;
      on_kernel (send (src_task m) \<lparr>msg_type = kLayerFinish, src_task = 0, arg = NoArg\<rparr>) s1
    }"

definition dispatch :: "platform \<Rightarrow> Message \<Rightarrow> system \<Rightarrow> system option" where
  "dispatch p m s =
    (case msg_type m of
       kInterruptXHCI \<Rightarrow> process_usb p s
     | kTimerTimeout \<Rightarrow> process_timer (timer_timeout (arg m)) (timer_value (arg m)) s
     | kKeyPush \<Rightarrow> process_key p m s
     | kLayer \<Rightarrow> process_layer m s
     | _ \<Rightarrow> Some s)"

text \<open>One round of the loop.\<close>

definition main_round :: "platform \<Rightarrow> system \<Rightarrow> system option" where
  "main_round p s =
    do {
      s1 \<leftarrow> show_tick p s;
      (k, msg) \<leftarrow> receive 1 (m_kernel s1);
      case msg of
        None \<Rightarrow> on_kernel (sleep (m_machine p) 1) (s1\<lparr>m_kernel := k\<rparr>)
      | Some m \<Rightarrow> dispatch p m (s1\<lparr>m_kernel := k\<rparr>)
    }"

end
