(* ===== verification/Library_Glue.thy ===== *)
theory Library_Glue
  imports Programs Main_Task System_Calls_Correct "HOL-Library.Signed_Division"
begin

text \<open>
  The functions that connect the C library with the system: \<open>apps/newlib_support.c\<close> for programs and
  \<open>kernel/newlib_support.c\<close>, \<open>kernel/libcxx_support.cpp\<close> for the kernel; and the log of the kernel
  (\<open>kernel/logger.cpp\<close>).  What \<open>malloc\<close> of a program relies on is shown: \<open>sbrk\<close> hands out memory that nothing else has.
\<close>

section \<open>System functions of a program\<close>

text \<open>\<open>ssize_t\<close> and \<open>int\<close> results with the value of \<open>errno\<close>, if it is set.\<close>

type_synonym posix_result = "int \<times> int option"

definition from_result :: "Result \<Rightarrow> posix_result" where
  "from_result r = (if res_error r = 0 then (sint (res_value r), None) else (- 1, Some (res_error r)))"

definition newlib_open :: "(SysCall \<Rightarrow> 'k \<Rightarrow> ('k \<times> Result) option) \<Rightarrow> u8 list \<Rightarrow> int \<Rightarrow> 'k \<Rightarrow> ('k \<times> posix_result) option" where
  "newlib_open call path flags k = map_option (map_prod id from_result) (call (SyscallOpenFile path flags) k)"

definition newlib_read :: "(SysCall \<Rightarrow> 'k \<Rightarrow> ('k \<times> Result) option) \<Rightarrow> int \<Rightarrow> u64 \<Rightarrow> u64 \<Rightarrow> 'k \<Rightarrow> ('k \<times> posix_result) option" where
  "newlib_read call fd buf n k = map_option (map_prod id from_result) (call (SyscallReadFile fd buf n) k)"

definition newlib_write :: "(SysCall \<Rightarrow> 'k \<Rightarrow> ('k \<times> Result) option) \<Rightarrow> int \<Rightarrow> u8 list \<Rightarrow> 'k \<Rightarrow> ('k \<times> posix_result) option" where
  "newlib_write call fd s k = map_option (map_prod id from_result) (call (SyscallPutString fd s) k)"

definition newlib_close :: "int \<Rightarrow> posix_result" where "newlib_close fd = (- 1, Some EBADF)"
definition newlib_fstat :: "int \<Rightarrow> posix_result" where "newlib_fstat fd = (- 1, Some EBADF)"
definition newlib_isatty :: "int \<Rightarrow> posix_result" where "newlib_isatty fd = (- 1, Some EBADF)"
definition newlib_lseek :: "int \<Rightarrow> int \<Rightarrow> int \<Rightarrow> posix_result" where "newlib_lseek fd off whence = (- 1, Some EBADF)"
definition newlib_kill :: "int \<Rightarrow> int \<Rightarrow> posix_result" where "newlib_kill pid sig = (- 1, Some EPERM)"
definition newlib_getpid :: int where "newlib_getpid = 0"
definition newlib_exit :: "int \<Rightarrow> SysCall" where "newlib_exit status = SyscallExit status"

text \<open>\<open>p\<close> is the result of \<open>malloc(size + alignment - 1)\<close>; the alignment is a power of two.\<close>

definition ENOMEM :: int where "ENOMEM = 12"

definition posix_memalign :: "u64 \<Rightarrow> u64 \<Rightarrow> int + u64" where
  "posix_memalign p alignment =
    (if p = 0 then Inl ENOMEM else Inr ((p + alignment - 1) AND NOT (alignment - 1)))"

section \<open>\<open>sbrk\<close> of a program\<close>

record heap =
  dpage_end :: u64
  program_break :: u64

definition start_heap :: heap where "start_heap = \<lparr>dpage_end = 0, program_break = 0\<rparr>"

text \<open>\<open>demand n\<close> is \<open>SyscallDemandPages(n, 0)\<close>.  \<open>None\<close>: \<open>incr + 4095\<close> is no \<open>int\<close>.\<close>

definition sbrk ::
  "(u64 \<Rightarrow> 'k \<Rightarrow> ('k \<times> Result) option) \<Rightarrow> int \<Rightarrow> heap \<Rightarrow> 'k \<Rightarrow> (heap \<times> 'k \<times> u64 \<times> int option) option" where
  "sbrk demand incr h k =
    (let give = (\<lambda>h k. Some (h\<lparr>program_break := program_break h + word_of_int incr\<rparr>, k, program_break h, None)) in
     if dpage_end h = 0 \<or> dpage_end h < program_break h + word_of_int incr then
       if incr + 4095 \<ge> 2 ^ 31 then None
       else
         let num_pages = (incr + 4095) sdiv 4096 in
         do {
           (k1, res) \<leftarrow> demand (word_of_int num_pages) k;
           if res_error res \<noteq> 0 then Some (h, k1, - 1, Some ENOMEM)
           else give \<lparr>dpage_end = res_value res + word_of_int (4096 * num_pages), program_break = res_value res\<rparr> k1
         }
     else give h k)"

section \<open>The kernel's side\<close>

text \<open>\<open>sbrk\<close> in the heap from \<open>InitializeHeap\<close>: the break, or \<open>None\<close> with \<open>ENOMEM\<close>.\<close>

definition kernel_sbrk :: "int \<Rightarrow> u64 \<Rightarrow> u64 \<Rightarrow> u64 \<times> u64 option" where
  "kernel_sbrk incr break_now break_end =
    (if break_now = 0 \<or> break_now + word_of_int incr \<ge> break_end then (break_now, None)
     else (break_now + word_of_int incr, Some break_now))"

text \<open>The other functions of \<open>kernel/newlib_support.c\<close> and \<open>libcxx_support.cpp\<close> only fail.\<close>

definition kernel_getpid :: int where "kernel_getpid = 1"
definition kernel_kill :: posix_result where "kernel_kill = (- 1, Some EINVAL)"
definition kernel_open :: posix_result where "kernel_open = (- 1, Some ENOENT)"
definition kernel_no_file :: posix_result where "kernel_no_file = (- 1, Some EBADF)"
definition kernel_posix_memalign :: int where "kernel_posix_memalign = ENOMEM"

section \<open>The log\<close>

datatype LogLevel = kError | kWarn | kInfo | kDebug

fun log_number :: "LogLevel \<Rightarrow> int" where
  "log_number kError = 3"
| "log_number kWarn = 4"
| "log_number kInfo = 6"
| "log_number kDebug = 7"

definition first_log_level :: LogLevel where "first_log_level = kWarn"

definition SetLogLevel :: "LogLevel \<Rightarrow> LogLevel \<Rightarrow> LogLevel" where "SetLogLevel new old = new"

text \<open>\<open>text\<close> is the formatted message, which must fit in 1024 bytes; the result is its length.\<close>

definition Log :: "platform \<Rightarrow> LogLevel \<Rightarrow> LogLevel \<Rightarrow> u8 list \<Rightarrow> system \<Rightarrow> (system \<times> int) option" where
  "Log p log_level lv str s =
    (if log_number lv > log_number log_level then Some (s, 0)
     else map_option (\<lambda>s1. (s1, int (length str))) (printk p str s))"

section \<open>Memory that nothing else has\<close>

text \<open>What a program does for memory: \<open>malloc\<close> calls \<open>sbrk\<close>, and the program may demand pages itself.\<close>

datatype heap_call = Sbrk int | Pages u64

fun do_step :: "(u64 \<Rightarrow> 'k \<Rightarrow> ('k \<times> Result) option) \<Rightarrow> heap_call \<Rightarrow> heap \<Rightarrow> 'k \<Rightarrow> (heap \<times> 'k \<times> u64 \<times> nat) option" where
  "do_step demand (Sbrk incr) h k =
    map_option (\<lambda>(h1, k1, a, e). (h1, k1, a, if e = None then nat incr else 0)) (sbrk demand incr h k)"
| "do_step demand (Pages n) h k =
    map_option (\<lambda>(k1, res). (h, k1, res_value res, if res_error res = 0 then 4096 * unat n else 0)) (demand n k)"

text \<open>The areas that are handed out.\<close>

fun heap_run :: "(u64 \<Rightarrow> 'k \<Rightarrow> ('k \<times> Result) option) \<Rightarrow> heap_call list \<Rightarrow> heap \<Rightarrow> 'k \<Rightarrow> (heap \<times> 'k \<times> (u64 \<times> nat) list) option" where
  "heap_run demand [] h k = Some (h, k, [])"
| "heap_run demand (s # ss) h k =
    do {
      (h1, k1, a, n) \<leftarrow> do_step demand s h k;
      (h2, k2, areas) \<leftarrow> heap_run demand ss h1 k1;
      Some (h2, k2, (a, n) # areas)
    }"

definition area :: "u64 \<times> nat \<Rightarrow> nat set" where "area x = {unat (fst x) ..< unat (fst x) + snd x}"

definition apart :: "u64 \<times> nat \<Rightarrow> u64 \<times> nat \<Rightarrow> bool" where "apart x y \<longleftrightarrow> area x \<inter> area y = {}"

text \<open>How much a step asks for, and how much the break can move for it.\<close>

fun wanted :: "heap_call \<Rightarrow> nat" where
  "wanted (Sbrk incr) = nat incr"
| "wanted (Pages n) = 4096 * unat n"

fun reach :: "heap_call \<Rightarrow> nat" where
  "reach (Sbrk incr) = nat incr + 4095"
| "reach (Pages n) = 4096 * unat n"

fun step_ok :: "heap_call \<Rightarrow> bool" where
  "step_ok (Sbrk incr) = (0 \<le> incr \<and> incr + 4095 < 2 ^ 31)"
| "step_ok (Pages n) = True"

lemma unat_small: "0 \<le> i \<Longrightarrow> i < 2 ^ 64 \<Longrightarrow> unat (word_of_int i :: u64) = nat i"
  by (simp add: unat_eq_nat_uint uint_word_of_int)

locale page_source =
  fixes demand :: "u64 \<Rightarrow> 'k \<Rightarrow> ('k \<times> Result) option"
    and ready :: "'k \<Rightarrow> bool"
    and mem_end :: "'k \<Rightarrow> u64"
  assumes demand_moves: "ready k \<Longrightarrow>
      \<exists>k'. demand n k = Some (k', result (mem_end k) 0) \<and> ready k' \<and> mem_end k' = mem_end k + 4096 * n"
begin

text \<open>Everything from \<open>lo\<close> to the end was handed out once, or is the rest of the pages of \<open>sbrk\<close>.\<close>

definition heap_inv :: "nat \<Rightarrow> heap \<Rightarrow> 'k \<Rightarrow> (u64 \<times> nat) list \<Rightarrow> bool" where
  "heap_inv lo h k as \<longleftrightarrow>
    ready k \<and> 0 < lo \<and> lo \<le> unat (mem_end k) \<and> sorted_wrt apart as \<and>
    (\<forall>x \<in> set as. lo \<le> unat (fst x) \<and> unat (fst x) + snd x \<le> unat (mem_end k)) \<and>
    (dpage_end h = 0 \<or>
      lo \<le> unat (program_break h) \<and> program_break h \<le> dpage_end h \<and> dpage_end h \<le> mem_end k \<and>
      (\<forall>x \<in> set as. area x \<inter> {unat (program_break h) ..< unat (dpage_end h)} = {}))"

lemma demand_step:
  assumes "ready k" "unat (mem_end k) + 4096 * unat n < 2 ^ 64"
  obtains k' where "demand n k = Some (k', result (mem_end k) 0)" "ready k'"
    "unat (mem_end k') = unat (mem_end k) + 4096 * unat n"
proof -
  from demand_moves [OF assms(1), of n] obtain k' where
    k': "demand n k = Some (k', result (mem_end k) 0)" "ready k'" "mem_end k' = mem_end k + 4096 * n" by blast
  have "unat (4096 * n) = 4096 * unat n" using assms(2) by (simp add: unat_mult_lem [THEN iffD1])
  then have "unat (mem_end k') = unat (mem_end k) + 4096 * unat n"
    using assms(2) unfolding k'(3) by (subst unat_add_lem [THEN iffD1]) simp_all
  with k' that show thesis by blast
qed

lemma apart_above: "\<forall>x \<in> set as. unat (fst x) + snd x \<le> unat a \<Longrightarrow> sorted_wrt apart as \<Longrightarrow> sorted_wrt apart (as @ [(a, n)])"
  by (fastforce simp: sorted_wrt_append apart_def area_def)

lemma Pages_inv:
  assumes inv: "heap_inv lo h k as" and far: "unat (mem_end k) + 4096 * unat n < 2 ^ 64"
  shows "\<exists>k1. do_step demand (Pages n) h k = Some (h, k1, mem_end k, 4096 * unat n) \<and>
    heap_inv lo h k1 (as @ [(mem_end k, 4096 * unat n)]) \<and> unat (mem_end k1) = unat (mem_end k) + 4096 * unat n"
proof -
  have "ready k" using inv by (simp add: heap_inv_def)
  from demand_step [OF this far] obtain k' where
    k': "demand n k = Some (k', result (mem_end k) 0)" "ready k'" "unat (mem_end k') = unat (mem_end k) + 4096 * unat n" .
  have "heap_inv lo h k' (as @ [(mem_end k, 4096 * unat n)])"
    using inv k'(2,3) apart_above [of as "mem_end k"] unfolding heap_inv_def
    by (fastforce simp: word_le_nat_alt area_def)
  with k' show ?thesis by (simp add: result_def)
qed

text \<open>\<open>sbrk\<close> from its rest, and with new pages.\<close>

lemma sbrk_rest:
  assumes inv: "heap_inv lo h k as" and incr: "0 \<le> incr" "unat (mem_end k) + nat incr < 2 ^ 64"
    and rest: "dpage_end h \<noteq> 0" "\<not> dpage_end h < program_break h + word_of_int incr"
  shows "\<exists>h1. sbrk demand incr h k = Some (h1, k, program_break h, None) \<and>
    heap_inv lo h1 k (as @ [(program_break h, nat incr)])"
proof -
  let ?pb = "unat (program_break h)" and ?de = "unat (dpage_end h)"
  have i: "unat (word_of_int incr :: u64) = nat incr" using incr by (simp add: unat_small)
  have free: "lo \<le> ?pb" "?pb \<le> ?de" "?de \<le> unat (mem_end k)" "\<forall>x \<in> set as. area x \<inter> {?pb ..< ?de} = {}"
    using inv rest(1) by (auto simp: heap_inv_def word_le_nat_alt)
  have sum: "unat (program_break h + word_of_int incr) = ?pb + nat incr"
    using free(2,3) incr(2) i by (subst unat_add_lem [THEN iffD1]) simp_all
  then have "?pb + nat incr \<le> ?de" using rest(2) by (simp add: word_less_nat_alt)
  then have new: "\<forall>x \<in> set as. apart x (program_break h, nat incr)"
    using free(4) by (fastforce simp: apart_def area_def)
  have "heap_inv lo (h\<lparr>program_break := program_break h + word_of_int incr\<rparr>) k (as @ [(program_break h, nat incr)])"
    using inv rest(1) free sum \<open>?pb + nat incr \<le> ?de\<close> new unfolding heap_inv_def
    by (fastforce simp: sorted_wrt_append word_le_nat_alt area_def)
  with rest show ?thesis by (simp add: sbrk_def)
qed

lemma sbrk_new:
  assumes inv: "heap_inv lo h k as" and incr: "0 \<le> incr" "incr + 4095 < 2 ^ 31" "unat (mem_end k) + nat incr + 4095 < 2 ^ 64"
    and new: "dpage_end h = 0 \<or> dpage_end h < program_break h + word_of_int incr"
  shows "\<exists>h1 k1. sbrk demand incr h k = Some (h1, k1, mem_end k, None) \<and>
    heap_inv lo h1 k1 (as @ [(mem_end k, nat incr)]) \<and> unat (mem_end k1) \<le> unat (mem_end k) + nat incr + 4095"
proof -
  define np where "np = (incr + 4095) div 4096"
  have np: "(incr + 4095) sdiv 4096 = np" "0 \<le> np" "incr \<le> 4096 * np" "4096 * np \<le> incr + 4095"
    using incr(1) by (simp_all add: np_def signed_divide_int_def sgn_if)
  let ?n = "word_of_int np :: u64"
  have n: "unat ?n = nat np" using np incr(2) by (simp add: unat_small)
  have far: "unat (mem_end k) + 4096 * unat ?n < 2 ^ 64" using n np incr(1,3) by simp
  have "ready k" using inv by (simp add: heap_inv_def)
  from demand_step [OF this far] obtain k' where
    k': "demand ?n k = Some (k', result (mem_end k) 0)" "ready k'" "unat (mem_end k') = unat (mem_end k) + 4096 * nat np"
    using n by metis
  let ?h = "\<lparr>dpage_end = mem_end k + word_of_int (4096 * np), program_break = mem_end k + word_of_int incr\<rparr>"
  have "unat (word_of_int (4096 * np) :: u64) = nat (4096 * np)" "unat (word_of_int incr :: u64) = nat incr"
    using np incr(1,2) by (intro unat_small; simp)+
  then have ends: "unat (dpage_end ?h) = unat (mem_end k) + 4096 * nat np" "unat (program_break ?h) = unat (mem_end k) + nat incr"
    using np incr(1,3) by (simp_all add: unat_add_lem [THEN iffD1] nat_mult_distrib)
  have "nat incr \<le> 4096 * nat np" using np(2,3) by simp
  then have "heap_inv lo ?h k' (as @ [(mem_end k, nat incr)])"
    using inv k'(2,3) ends apart_above [of as "mem_end k"] unfolding heap_inv_def
    by (fastforce simp: word_le_nat_alt area_def)
  moreover have "sbrk demand incr h k = Some (?h, k', mem_end k, None)"
    using new incr(2) k'(1) by (simp add: sbrk_def np(1) result_def)
  ultimately show ?thesis using k'(3) np by (intro exI conjI) auto
qed

lemma step_inv:
  assumes "heap_inv lo h k as" "step_ok s" "unat (mem_end k) + reach s < 2 ^ 64"
  shows "\<exists>h1 k1 a. do_step demand s h k = Some (h1, k1, a, wanted s) \<and> heap_inv lo h1 k1 (as @ [(a, wanted s)]) \<and>
    unat (mem_end k1) \<le> unat (mem_end k) + reach s"
proof (cases s)
  case (Sbrk incr)
  show ?thesis
  proof (cases "dpage_end h = 0 \<or> dpage_end h < program_break h + word_of_int incr")
    case True
    from sbrk_new [OF assms(1) _ _ _ True] Sbrk assms(2,3) show ?thesis by fastforce
  next
    case False
    from sbrk_rest [OF assms(1), of incr] False Sbrk assms(2,3) show ?thesis by fastforce
  qed
next
  case (Pages n)
  have "unat (mem_end k) + 4096 * unat n < 2 ^ 64" using Pages assms(3) by simp
  from Pages_inv [OF assms(1) this] Pages show ?thesis by (fastforce simp del: do_step.simps)
qed

lemma run_inv:
  "heap_inv lo h k as \<Longrightarrow> \<forall>s \<in> set ss. step_ok s \<Longrightarrow> unat (mem_end k) + sum_list (map reach ss) < 2 ^ 64 \<Longrightarrow>
    \<exists>h1 k1 bs. heap_run demand ss h k = Some (h1, k1, bs) \<and> heap_inv lo h1 k1 (as @ bs) \<and> map snd bs = map wanted ss"
proof (induction ss arbitrary: h k as)
  case (Cons s ss)
  from step_inv [OF Cons.prems(1), of s] Cons.prems(2,3) obtain h1 k1 a where
    s: "do_step demand s h k = Some (h1, k1, a, wanted s)" "heap_inv lo h1 k1 (as @ [(a, wanted s)])"
      "unat (mem_end k1) \<le> unat (mem_end k) + reach s" by auto
  from Cons.IH [OF s(2)] Cons.prems(2,3) s(3) obtain h2 k2 bs where
    "heap_run demand ss h1 k1 = Some (h2, k2, bs)" "heap_inv lo h2 k2 ((as @ [(a, wanted s)]) @ bs)"
    "map snd bs = map wanted ss" by auto
  with s(1) show ?case by auto
qed auto

end

section \<open>On the kernel\<close>

definition program_ready :: "kernel \<Rightarrow> bool" where
  "program_ready k \<longleftrightarrow> (\<exists>i t. current_task k = Some i \<and> task_of k i = Some t)"

definition program_end :: "kernel \<Rightarrow> u64" where
  "program_end k = (case current_task k of None \<Rightarrow> 0 | Some i \<Rightarrow> (case task_of k i of None \<Rightarrow> 0 | Some t \<Rightarrow> dpaging_end t))"

lemma perform_DemandPages:
  "perform mach loc (SyscallDemandPages n 0) = DemandPages mach (syscall_args loc (SyscallDemandPages n 0))"
  by (rule ext) (simp add: perform_def system_call_def syscall_table_def)

interpretation kernel_pages: page_source "\<lambda>n. perform mach loc (SyscallDemandPages n 0)" program_ready program_end for mach loc
proof
  fix k n assume "program_ready k"
  then obtain i t where it: "current_task k = Some i" "task_of k i = Some t" by (auto simp: program_ready_def)
  let ?k = "on_task i (\<lambda>t. t\<lparr>dpaging_end := dpaging_end t + 4096 * n\<rparr>) k"
  have "current_task ?k = Some i" "task_of ?k i = Some (t\<lparr>dpaging_end := dpaging_end t + 4096 * n\<rparr>)"
    using it by (simp_all add: task_on_task)
  then show "\<exists>k'. perform mach loc (SyscallDemandPages n 0) k = Some (k', result (program_end k) 0) \<and>
      program_ready k' \<and> program_end k' = program_end k + 4096 * n"
    using it by (auto simp: perform_DemandPages DemandPages_def regs_def program_ready_def program_end_def)
qed

text \<open>
  C0. Every step of a program that gets memory, by \<open>malloc\<close> through \<open>sbrk\<close> or by demanding pages itself, in any
  order, succeeds as long as the addresses last; no two of the areas they hand out overlap, each has the wanted size, and
  all of them lie in the pages that the kernel has demanded for the program in between.
\<close>

theorem heap_areas_apart:
  assumes "program_ready k" "0 < unat (program_end k)" "\<forall>s \<in> set steps. step_ok s"
    "unat (program_end k) + sum_list (map reach steps) < 2 ^ 64"
  shows "\<exists>h1 k1 areas. heap_run (\<lambda>n. perform mach loc (SyscallDemandPages n 0)) steps start_heap k = Some (h1, k1, areas) \<and>
    map snd areas = map wanted steps \<and> sorted_wrt apart areas \<and>
    (\<forall>x \<in> set areas. area x \<subseteq> {unat (program_end k) ..< unat (program_end k1)})"
proof -
  have "kernel_pages.heap_inv (unat (program_end k)) start_heap k []"
    using assms(1,2) by (simp add: kernel_pages.heap_inv_def start_heap_def)
  from kernel_pages.run_inv [OF this assms(3,4)] obtain h1 k1 areas where
    r: "heap_run (\<lambda>n. perform mach loc (SyscallDemandPages n 0)) steps start_heap k = Some (h1, k1, areas)"
      "kernel_pages.heap_inv (unat (program_end k)) h1 k1 ([] @ areas)" "map snd areas = map wanted steps" by blast
  then show ?thesis unfolding kernel_pages.heap_inv_def by (fastforce simp: area_def)
qed

theorem heap_areas_apart_witness:
  "\<exists>k h1 k1 areas. heap_run (\<lambda>n. perform demo_machine (\<lambda>_. 0) (SyscallDemandPages n 0)) [Sbrk 100, Pages 2, Sbrk 5000, Sbrk 24]
      start_heap k = Some (h1, k1, areas) \<and>
    map snd areas = [100, 8192, 5000, 24] \<and> sorted_wrt apart areas \<and>
    (\<forall>x \<in> set areas. area x \<subseteq> {unat (program_end k) ..< unat (program_end k1)})"
proof -
  let ?steps = "[Sbrk 100, Pages 2, Sbrk 5000, Sbrk 24]"
  have k: "program_ready demo_kernel" "0 < unat (program_end demo_kernel)" "\<forall>s \<in> set ?steps. step_ok s"
    "unat (program_end demo_kernel) + sum_list (map reach ?steps) < 2 ^ 64"
    using demo_current demo_task_of by (simp_all add: program_end_def program_ready_def demo_task_def)
  have "map wanted ?steps = [100, 8192, 5000, 24]" by simp
  from heap_areas_apart [OF k, of demo_machine "\<lambda>_. 0", unfolded this] show ?thesis by (rule exI)
qed

end
