(* ===== verification/Program_Events.thy ===== *)
theory Program_Events
  imports System_Calls_Correct
begin

text \<open>
  \<open>ReadEvent\<close>: the messages of a task as events in the memory of the program.
\<close>

section \<open>Fields of an event\<close>

type_synonym fields = "(nat \<times> u8 list) list"

text \<open>The fields lie one behind the other in the 32 bytes of an event.\<close>

fun fields_ok :: "nat \<Rightarrow> fields \<Rightarrow> bool" where
  "fields_ok lo [] \<longleftrightarrow> lo \<le> 32"
| "fields_ok lo ((off, bs) # fs) \<longleftrightarrow> lo \<le> off \<and> fields_ok (off + length bs) fs"

fun field_byte :: "fields \<Rightarrow> nat \<Rightarrow> u8 option" where
  "field_byte [] x = None"
| "field_byte ((off, bs) # fs) x =
    (if off \<le> x \<and> x < off + length bs then Some (bs ! (x - off)) else field_byte fs x)"

lemma length_int_bytes [simp]: "length (int_bytes v) = 4"
  by (simp add: int_bytes_def)

lemma event_fields_ok: "event_fields m = Some fs \<Longrightarrow> fields_ok 0 fs"
  by (auto simp: event_fields_def key_event_def Let_def split: MessageType.splits if_splits)

lemma fields_ok_range: "fields_ok lo fs \<Longrightarrow> field_byte fs x = Some b \<Longrightarrow> lo \<le> x \<and> x < 32"
proof (induction lo fs rule: fields_ok.induct)
  case (2 lo off bs fs)
  have "lo' \<le> 32" if "fields_ok lo' fs'" for lo' and fs' :: fields
    using that by (induction lo' fs' rule: fields_ok.induct) auto
  then show ?case using 2 by (fastforce split: if_splits)
qed simp

lemma fields_ok_end: "fields_ok lo fs \<Longrightarrow> lo \<le> 32"
  by (induction lo fs rule: fields_ok.induct) auto

section \<open>Addresses of the events\<close>

lemma offset_diff:
  assumes "u < 2 ^ 63" "v < 2 ^ 63"
  shows "unat ((p + of_nat u) - (p + of_nat v) :: u64) = (if v \<le> u then u - v else 2 ^ 64 - (v - u))"
proof -
  have eq: "(p + of_nat u) - (p + of_nat v) = (of_nat u - of_nat v :: u64)" by simp
  have n: "unat (of_nat u :: u64) = u" "unat (of_nat v :: u64) = v" using assms by (simp_all add: unat_of_nat_less)
  show ?thesis
  proof (cases "v \<le> u")
    case True
    then show ?thesis unfolding eq using n by (simp add: unat_sub word_le_nat_alt)
  next
    case False
    then have "of_nat u - of_nat v = (of_nat (2 ^ 64 - (v - u)) :: u64)"
      using assms by (simp add: of_nat_diff)
    moreover have "2 ^ 64 - (v - u) < 2 ^ LENGTH(64)" using False by simp
    ultimately show ?thesis unfolding eq using False unat_of_nat_less by metis
  qed
qed

lemma store_at:
  assumes area: "user_area mach R A k" and A: "\<forall>u < N. p + of_nat u \<in> A" and N: "N \<le> 2 ^ 63"
    and bs: "v + length bs \<le> N"
  shows "\<exists>m. store_virtual mach t (p + of_nat v) bs k = Some (set_mem m k) \<and> user_area mach R A (set_mem m k) \<and>
    (\<forall>u < N. user_byte (set_mem m k) (p + of_nat u) =
      (if v \<le> u \<and> u < v + length bs then bs ! (u - v) else user_byte k (p + of_nat u)))"
proof -
  have "\<forall>i < length bs. p + of_nat v + of_nat i \<in> A" using A bs by (auto simp: add.assoc simp flip: of_nat_add)
  moreover have "length bs \<le> 2 ^ 64" using bs N by simp
  ultimately obtain m where m: "store_virtual mach t (p + of_nat v) bs k = Some (set_mem m k)" "user_area mach R A (set_mem m k)"
    "\<forall>x \<in> A. user_byte (set_mem m k) x =
      (if unat (x - (p + of_nat v)) < length bs then bs ! unat (x - (p + of_nat v)) else user_byte k x)"
    using store_virtual_user [OF area] by meson
  have "user_byte (set_mem m k) (p + of_nat u) =
      (if v \<le> u \<and> u < v + length bs then bs ! (u - v) else user_byte k (p + of_nat u))" if "u < N" for u
  proof (cases "bs = []")
    case False
    then have "0 < length bs" by simp
    then have "v < N" "length bs \<le> N" using bs by linarith+
    then have "u < 2 ^ 63" "v < 2 ^ 63" "length bs < 2 ^ 63 + 1" using that N by linarith+
    then show ?thesis using m(3) A that offset_diff [of u v p] by auto
  qed (use m(3) A that in auto)
  with m show ?thesis by blast
qed

lemma store_fields_at:
  assumes "user_area mach R A k" "\<forall>u < N. p + of_nat u \<in> A" "N \<le> 2 ^ 63" "fields_ok lo fs" "v + 32 \<le> N"
  shows "\<exists>m. store_fields mach t (p + of_nat v) fs k = Some (set_mem m k) \<and> user_area mach R A (set_mem m k) \<and>
    (\<forall>u < N. user_byte (set_mem m k) (p + of_nat u) =
      (if v \<le> u then case field_byte fs (u - v) of Some b \<Rightarrow> b | None \<Rightarrow> user_byte k (p + of_nat u)
       else user_byte k (p + of_nat u)))"
  using assms(1,4)
proof (induction fs arbitrary: k lo)
  case Nil
  then show ?case by (intro exI [of _ "pmem (k_pg k)"]) simp
next
  case (Cons f fs)
  obtain off bs where f: "f = (off, bs)" by fastforce
  have ok: "fields_ok (off + length bs) fs" using Cons.prems(2) f by simp
  then have "off + length bs \<le> 32" by (rule fields_ok_end)
  then have "v + off + length bs \<le> N" using assms(5) by simp
  from store_at [OF Cons.prems(1) assms(2,3) this, of t] obtain m where
    m: "store_virtual mach t (p + of_nat v + of_nat off) bs k = Some (set_mem m k)" "user_area mach R A (set_mem m k)"
      "\<forall>u < N. user_byte (set_mem m k) (p + of_nat u) =
        (if v + off \<le> u \<and> u < v + off + length bs then bs ! (u - (v + off)) else user_byte k (p + of_nat u))"
    by (auto simp: add.assoc)
  from Cons.IH [OF m(2) ok] obtain m' where
    m': "store_fields mach t (p + of_nat v) fs (set_mem m k) = Some (set_mem m' k)" "user_area mach R A (set_mem m' k)"
      "\<forall>u < N. user_byte (set_mem m' k) (p + of_nat u) =
        (if v \<le> u then case field_byte fs (u - v) of Some b \<Rightarrow> b | None \<Rightarrow> user_byte (set_mem m k) (p + of_nat u)
         else user_byte (set_mem m k) (p + of_nat u))" by auto
  have "user_byte (set_mem m' k) (p + of_nat u) =
      (if v \<le> u then case field_byte (f # fs) (u - v) of Some b \<Rightarrow> b | None \<Rightarrow> user_byte k (p + of_nat u)
       else user_byte k (p + of_nat u))" if u: "u < N" for u
  proof (cases "v + off \<le> u \<and> u < v + off + length bs")
    case True
    then have "field_byte fs (u - v) = None" using fields_ok_range [OF ok, of "u - v"] by (cases "field_byte fs (u - v)") auto
    then show ?thesis using True m(3) m'(3) u f by (auto simp: diff_diff_left)
  next
    case False
    then have "\<not> (off \<le> u - v \<and> u - v < off + length bs) \<or> \<not> v \<le> u" by linarith
    then have "v \<le> u \<Longrightarrow> field_byte (f # fs) (u - v) = field_byte fs (u - v)" using f by auto
    moreover have "user_byte (set_mem m k) (p + of_nat u) = user_byte k (p + of_nat u)" using False m(3) u by auto
    ultimately show ?thesis using m'(3) u by (auto split: option.splits)
  qed
  then show ?case using m(1) m'(1,2) f by (intro exI [of _ m']) simp
qed

section \<open>Reading the events\<close>

text \<open>The first \<open>n\<close> events among messages, and the messages behind them.\<close>

fun take_events :: "nat \<Rightarrow> Message list \<Rightarrow> fields list \<times> Message list" where
  "take_events 0 ms = ([], ms)"
| "take_events (Suc n) [] = ([], [])"
| "take_events (Suc n) (m # ms) =
    (case event_fields m of
       None \<Rightarrow> take_events (Suc n) ms
     | Some fs \<Rightarrow> (case take_events n ms of (es, rest) \<Rightarrow> (fs # es, rest)))"

text \<open>The bytes of the events \<open>es\<close>, from event \<open>i\<close> on.\<close>

definition holds_events :: "u64 \<Rightarrow> nat \<Rightarrow> fields list \<Rightarrow> kernel \<Rightarrow> bool" where
  "holds_events p i es k \<longleftrightarrow>
    (\<forall>j < length es. \<forall>x b. field_byte (es ! j) x = Some b \<longrightarrow> user_byte k (p + of_nat (32 * (i + j) + x)) = b)"

lemma receive_some:
  "task_of k t = Some u \<Longrightarrow> msgs u = m # ms \<Longrightarrow>
     receive t k = Some (on_task t (\<lambda>_. u\<lparr>msgs := ms\<rparr>) k, Some m) \<and>
     task_of (on_task t (\<lambda>_. u\<lparr>msgs := ms\<rparr>) k) t = Some (u\<lparr>msgs := ms\<rparr>)"
  using task_of_replaced [of k t u "u\<lparr>msgs := ms\<rparr>"] task_of_id [of k t u]
  by (simp add: receive_def ReceiveMessage_def)

lemma receive_none:
  "task_of k t = Some u \<Longrightarrow> msgs u = [] \<Longrightarrow>
     receive t k = Some (on_task t (\<lambda>_. u) k, None) \<and> task_of (on_task t (\<lambda>_. u) k) t = Some u"
  using task_of_replaced [of k t u u] task_of_id [of k t u]
  by (simp add: receive_def ReceiveMessage_def)

lemma event_byte_range:
  assumes "event_fields m = Some fs" "field_byte fs x = Some b"
  shows "x < 32"
  using fields_ok_range [OF event_fields_ok [OF assms(1)] assms(2)] by simp

lemma take_events_ok: "take_events n ms = (es, rest) \<Longrightarrow> fs \<in> set es \<Longrightarrow> \<exists>m. event_fields m = Some fs"
  by (induction n ms arbitrary: es rest rule: take_events.induct) (auto split: option.splits prod.splits)

lemma take_events_length: "take_events n ms = (es, rest) \<Longrightarrow> length es \<le> n"
  by (induction n ms arbitrary: es rest rule: take_events.induct) (auto split: option.splits prod.splits)

lemma holds_events_Cons:
  assumes "\<And>x b. field_byte fs x = Some b \<Longrightarrow> user_byte k (p + of_nat (32 * i + x)) = b" "holds_events p (i + 1) es k"
  shows "holds_events p i (fs # es) k"
  unfolding holds_events_def
proof (intro allI impI)
  fix j x b assume "j < length (fs # es)" "field_byte ((fs # es) ! j) x = Some b"
  then show "user_byte k (p + of_nat (32 * (i + j) + x)) = b"
    using assms by (cases j) (auto simp: holds_events_def)
qed

lemma read_events_spec:
  assumes "user_area mach R A k" "\<forall>u < 32 * n. p + of_nat u \<in> A" "32 * n \<le> 2 ^ 63"
    and "task_of k t = Some task" "take_events (n - i) (msgs task) = (es, rest)" "i \<le> n" "0 < i \<or> es \<noteq> []"
  shows "\<exists>k'. read_events mach t p n i k = Some (k', i + length es) \<and> task_of k' t = Some (task\<lparr>msgs := rest\<rparr>) \<and>
    holds_events p i es k' \<and> (\<forall>u < 32 * i. user_byte k' (p + of_nat u) = user_byte k (p + of_nat u))"
  using assms(1,4-7) assms(2,3)
proof (induction "msgs task" arbitrary: k task i es)
  case Nil
  then have es: "es = []" "rest = []" "0 < i" by (cases "n - i"; simp)+
  have task: "task_of k t = Some (task\<lparr>msgs := []\<rparr>)" using Nil.prems(2) Nil.hyps by simp
  show ?case
  proof (cases "i < n")
    case True
    then show ?thesis
      using receive_none [OF Nil.prems(2)] Nil.hyps es task
      by (intro exI [of _ "on_task t (\<lambda>_. task) k"], subst read_events.simps) (simp add: holds_events_def)
  next
    case False
    then show ?thesis using es task by (intro exI [of _ k], subst read_events.simps) (simp add: holds_events_def)
  qed
next
  case (Cons m ms)
  note msgs = Cons.hyps(2) [symmetric]
  show ?case
  proof (cases "i < n")
    case False
    then have "n - i = 0" by simp
    then have "es = []" "rest = msgs task" using Cons.prems(3) by simp_all
    then show ?thesis using False Cons.prems(2)
      by (intro exI [of _ k], subst read_events.simps) (simp add: holds_events_def)
  next
    case True
    then have n: "n - i = Suc (n - (i + 1))" by simp
    let ?k = "on_task t (\<lambda>_. task\<lparr>msgs := ms\<rparr>) k"
    note rc = receive_some [OF Cons.prems(2) msgs]
    have area: "user_area mach R A ?k" using Cons.prems(1) user_area_pages [of ?k k] by simp
    show ?thesis
    proof (cases "event_fields m")
      case None
      have "take_events (n - i) ms = (es, rest)" using Cons.prems(3) msgs None unfolding n by simp
      from Cons.hyps(1) [OF _ area conjunct2 [OF rc] _ Cons.prems(4-7)] this obtain k' where
        "read_events mach t p n i ?k = Some (k', i + length es)" "task_of k' t = Some (task\<lparr>msgs := rest\<rparr>)"
        "holds_events p i es k'" "\<forall>u < 32 * i. user_byte k' (p + of_nat u) = user_byte k (p + of_nat u)" by auto
      then show ?thesis using True None rc by (intro exI [of _ k'], subst read_events.simps) simp
    next
      case (Some fs)
      obtain es' where es: "es = fs # es'" "take_events (n - (i + 1)) ms = (es', rest)"
        using Cons.prems(3) msgs Some unfolding n by (auto split: prod.splits)
      have room: "32 * i + 32 \<le> 32 * n" using True by simp
      have bytes32: "x < 32" if "field_byte fs x = Some b" for x b using event_byte_range [OF Some that] .
      from store_fields_at [OF area Cons.prems(6,7) event_fields_ok [OF Some] room, of t] obtain m2 where
        st: "store_fields mach t (p + of_nat (32 * i)) fs ?k = Some (set_mem m2 ?k)" and area2: "user_area mach R A (set_mem m2 ?k)"
        and byte: "\<And>u. u < 32 * n \<Longrightarrow> user_byte (set_mem m2 ?k) (p + of_nat u) =
          (if 32 * i \<le> u then case field_byte fs (u - 32 * i) of Some b \<Rightarrow> b | None \<Rightarrow> user_byte ?k (p + of_nat u)
           else user_byte ?k (p + of_nat u))" by blast
      have "task_of (set_mem m2 ?k) t = Some (task\<lparr>msgs := ms\<rparr>)" using rc by simp
      moreover have "take_events (n - (i + 1)) (msgs (task\<lparr>msgs := ms\<rparr>)) = (es', rest)" using es by simp
      ultimately obtain k' where
        k': "read_events mach t p n (i + 1) (set_mem m2 ?k) = Some (k', i + 1 + length es')"
          "task_of k' t = Some (task\<lparr>msgs := rest\<rparr>)" "holds_events p (i + 1) es' k'"
        and kept: "\<forall>u < 32 * (i + 1). user_byte k' (p + of_nat u) = user_byte (set_mem m2 ?k) (p + of_nat u)"
        using Cons.hyps(1) [of "task\<lparr>msgs := ms\<rparr>" "set_mem m2 ?k" "i + 1" es'] area2 True Cons.prems(6,7) by auto
      have first: "user_byte k' (p + of_nat (32 * i + x)) = b" if "field_byte fs x = Some b" for x b
      proof -
        have u: "32 * i + x < 32 * (i + 1)" "32 * i + x < 32 * n" using bytes32 [OF that] room by (simp_all add: algebra_simps)
        show ?thesis unfolding kept [rule_format, OF u(1)] byte [OF u(2)] by (simp add: that)
      qed
      have "holds_events p i es k'" unfolding es(1) by (rule holds_events_Cons [OF first k'(3)])
      moreover have "user_byte k' (p + of_nat u) = user_byte k (p + of_nat u)" if "u < 32 * i" for u
        using kept byte [of u] that room by simp
      ultimately show ?thesis using True Some rc st k'(1,2) es(1)
        by (intro exI [of _ k'], subst read_events.simps) simp
    qed
  qed
qed

text \<open>
  C15. \<open>SyscallReadEvent\<close> with an event in the queue never sleeps: it takes messages from the front up to the
  \<open>n\<close>th event, drops those that are no events, stores event \<open>j\<close> in the 32 bytes at \<open>app_events + 32 j\<close>
  in the order of the messages, leaves every later message in the queue, and returns the number of events.
\<close>

theorem ReadEvent_in_order:
  assumes area: "user_area mach R A k" "\<forall>u < 32 * unat (arg2 a). arg1 a + of_nat u \<in> A"
    and upper: "0x8000000000000000 \<le> arg1 a" "32 * unat (arg2 a) \<le> 2 ^ 63"
    and task: "current_task k = Some t" "task_of k t = Some task"
    and events: "take_events (unat (arg2 a)) (msgs task) = (es, rest)" "es \<noteq> []"
  shows "\<exists>k'. ReadEvent mach a k = Some (k', result (of_nat (length es)) 0) \<and> length es \<le> unat (arg2 a) \<and>
    task_of k' t = Some (task\<lparr>msgs := rest\<rparr>) \<and>
    (\<forall>j < length es. \<forall>x b. field_byte (es ! j) x = Some b \<longrightarrow>
       user_byte k' (arg1 a + of_nat (32 * j + x)) = b)"
proof -
  obtain k' where "read_events mach t (arg1 a) (unat (arg2 a)) 0 k = Some (k', length es)"
    "task_of k' t = Some (task\<lparr>msgs := rest\<rparr>)" "holds_events (arg1 a) 0 es k'"
    using read_events_spec [OF area upper(2) task(2), of 0 es rest] events by auto
  then show ?thesis
    using upper(1) task(1) take_events_length [OF events(1)]
    by (intro exI [of _ k']) (simp add: ReadEvent_def holds_events_def not_less)
qed

definition demo_queue :: "Message list" where
  "demo_queue = [\<lparr>msg_type = kLayerFinish, src_task = 1, arg = NoArg\<rparr>,
     \<lparr>msg_type = kKeyPush, src_task = 1, arg = KeyboardArg 0 4 0x61 1\<rparr>,
     \<lparr>msg_type = kWindowClose, src_task = 1, arg = WindowCloseArg 3\<rparr>]"

theorem ReadEvent_in_order_witness:
  "\<exists>k'. ReadEvent demo_machine (demo_args 0xffff800000000000 1 0)
      (on_task 1 (\<lambda>_. (demo_task demo_boot_task)\<lparr>msgs := demo_queue\<rparr>) demo_kernel) = Some (k', result 1 0) \<and>
    user_byte k' 0xffff80000000000a = 0x61"
proof -
  let ?t = "(demo_task demo_boot_task)\<lparr>msgs := demo_queue\<rparr>"
  let ?k = "on_task 1 (\<lambda>_. ?t) demo_kernel"
  let ?a = "demo_args 0xffff800000000000 1 0"
  let ?fs = "key_event (KeyboardArg 0 4 0x61 1)"
  have n: "unat (arg2 ?a) = 1" "arg1 ?a = 0xffff800000000000" by (simp_all add: demo_args_def)
  have "user_area demo_machine mapped_levels demo_page ?k" using demo_area user_area_pages [of ?k demo_kernel] by simp
  moreover have "\<forall>u < 32 * unat (arg2 ?a). arg1 ?a + of_nat u \<in> demo_page"
    unfolding n using demo_page_near by auto
  moreover have "current_task ?k = Some 1" using demo_current unfolding current_on_task .
  moreover have "task_of ?k 1 = Some ?t"
    using task_of_replaced [OF demo_task_of, of ?t] task_of_id [OF demo_task_of] by simp
  moreover have ev: "take_events (unat (arg2 ?a)) (msgs ?t) = ([?fs], [demo_queue ! 2])"
    unfolding n by (simp add: demo_queue_def event_fields_def numeral_2_eq_2 One_nat_def)
  ultimately obtain k' where k': "ReadEvent demo_machine ?a ?k = Some (k', result 1 0)"
    "\<forall>j < length [?fs]. \<forall>x b. field_byte ([?fs] ! j) x = Some b \<longrightarrow> user_byte k' (arg1 ?a + of_nat (32 * j + x)) = b"
    using ReadEvent_in_order [of demo_machine mapped_levels demo_page ?k ?a 1 ?t "[?fs]"] n by auto
  moreover have "field_byte ?fs 10 = Some 0x61" by code_simp
  ultimately have "user_byte k' (0xffff800000000000 + of_nat 10) = 0x61" unfolding n by force
  with k'(1) show ?thesis by (intro exI [of _ k']) simp
qed

end
