(* ===== verification/Spec2Isabelle.thy ===== *)
theory Spec2Isabelle
  imports Memory_Manager Paging_Correct Timers Interrupts Layers File_Streams Xhci_Start Usb_Configuration Acpi Terminal_Commands Application_Memory Blocks Rpn Text_Programs Text_Viewer Drawing_Programs Library_Glue Program_Events Main_Task
begin

text \<open>
  A model of the kernel of an operating system written in C++ (\<open>src/kernel/\<close>) and what holds
  of it.  The boot loader hands the kernel a memory map, a frame buffer and a FAT volume; the
  kernel sets up descriptors, page tables and the frame allocator, starts tasks, timers and the
  xHCI host controller with its keyboard and mouse, draws windows through a stack of layers,
  and reads and writes files for its terminal and its applications.

  \<^bold>\<open>Conventions\<close> (theory \<open>Kernel_Prelude\<close>).  A class is a record, its methods are functions
  from states to states, an \<open>Error\<close> is its code, \<open>WithError\<close> is a sum.  Integers that wrap in
  the program are words of their width; sizes, indices and coordinates that cannot reach the
  bounds of their types are numbers.  \<open>None\<close> is undefined behaviour or a loop that never ends,
  so a property that ends in \<open>Some\<close> also says that the code returns and is defined.  Loops
  whose end depends on data are partial functions with the value \<open>None\<close> for not returning;
  the others terminate by a measure.  Fuel is taken only by \<open>Fonts.WriteString\<close>, whose property
  says for which strings some fuel is enough (one step more than characters), and by
  \<open>Xhci_Rings.controller_reads\<close>, the other side of a ring, where twice the number of blocks to
  read and one more step is enough.  Hardware, firmware, the C++ allocator, FreeType and the
  compiler's layout of objects are parameters.

  \<^bold>\<open>Memory.\<close>  \<open>Memory_Manager\<close>: the bitmap allocator of page frames (\<open>memory_manager.cpp\<close>,
  \<open>memory_map.hpp\<close>); \<open>Allocate\<close> is first fit, \<open>Free\<close> undoes it, and after start-up only
  available memory is handed out.  The locale \<open>frame_allocator\<close> is what its clients rely on.
  \<open>Paging\<close>, \<open>Paging_Correct\<close>: page tables in physical memory (\<open>paging.cpp\<close>); an invariant on
  the tree of tables, identity mapping, mapping on demand, copy on write.  \<open>Descriptors\<close>: the
  GDT, TSS and IDT (\<open>segment.cpp\<close>, \<open>x86_descriptor.hpp\<close>, \<open>interrupt.cpp\<close>).

  \<^bold>\<open>Tasks.\<close>  \<open>Messages\<close>, \<open>Task_Manager\<close>, \<open>Scheduler\<close>: run queues of four levels, sleeping,
  waking, levels, finishing and waiting (\<open>task.cpp\<close>); the step relation of the scheduler keeps
  queues and tasks in agreement.  \<open>Timers\<close>: the timer queue and preemption (\<open>timer.cpp\<close>), with
  the locales \<open>timer_queue\<close> and \<open>message_sink\<close>.  \<open>Interrupts\<close>: fault handlers and demand paging
  (\<open>interrupt.cpp\<close>, \<open>HandlePageFault\<close> of \<open>paging.cpp\<close>).

  \<^bold>\<open>Files.\<close>  \<open>Fat\<close>, \<open>Fat_Correct\<close>: the FAT volume as bytes (\<open>fat.cpp\<close>); cluster chains, paths,
  directory entries, reading and writing.  \<open>File_Streams\<close>: line input and output over any file
  descriptor (\<open>file.cpp\<close>), with the locale \<open>byte_source\<close>.

  \<^bold>\<open>Graphics.\<close>  \<open>Graphics\<close>, \<open>Frame_Buffers\<close>, \<open>Fonts\<close>, \<open>Windows\<close>, \<open>Consoles\<close>, \<open>Layers\<close>
  (\<open>graphics.cpp\<close>, \<open>frame_buffer.cpp\<close>, \<open>font.cpp\<close>, \<open>window.cpp\<close>, \<open>console.cpp\<close>, \<open>layer.cpp\<close>):
  from bytes of a frame buffer up to the composition of overlapping windows.  The locale
  \<open>pixel_writer\<close> is the contract of \<open>PixelWriter::Write\<close>, which the frame buffer, the window and
  the inner part of a window satisfy; \<open>console_target\<close> is what the console draws on.

  \<^bold>\<open>USB\<close> (\<open>usb/\<close>).  \<open>Usb_Memory\<close>: the pool and the fixed-size map.  \<open>Bit_Layouts\<close>, \<open>Trb\<close>,
  \<open>Xhci_Registers\<close>, \<open>Xhci_Contexts\<close>: the structures shared with the controller, as layouts of bit
  fields over words.  \<open>Xhci_Rings\<close>: command, transfer and event rings; the controller receives
  the blocks in order and never a half-written one.  \<open>Usb_Devices\<close>: transfers, the phases of a
  device's initialisation, the keyboard and mouse drivers.  \<open>Usb_Configuration\<close>: which endpoints
  a configuration descriptor yields, and where reading it does not end.  \<open>Xhci_Controller\<close>,
  \<open>Xhci_Ports\<close>: device manager, ports and events; at most one port is being addressed.

  \<^bold>\<open>Buses, firmware and input.\<close>  \<open>Pci\<close> (\<open>pci.cpp\<close>): configuration registers, the scan of the buses, which
  is a depth-first listing cut off after 32 functions, and message-signalled interrupts.  \<open>Acpi\<close>
  (\<open>acpi.cpp\<close>): checks of the tables and the wait on the timer, which ends and is not too short.
  \<open>Xhci_Start\<close>: \<open>usb::xhci::Initialize\<close> and the interrupt of the controller.  \<open>Input_Devices\<close>
  (\<open>keyboard.cpp\<close>, \<open>mouse.cpp\<close>): key messages and the mouse, whose cursor stays on the screen and on top.

  \<^bold>\<open>Terminals\<close> (\<open>terminal.cpp\<close>).  \<open>Pipes\<close>: \<open>PipeDescriptor\<close> is a queue of bytes, whatever the order of the two
  sides.  \<open>Command_Lines\<close>: \<open>MakeArgVector\<close>, \<open>FindCommand\<close>, \<open>ListAllEntries\<close>.  \<open>Terminals\<close>: the text area, the line
  that is typed and the history, over any drawing that meets the locale of the screen.  \<open>App_Loading\<close>: ELF
  files, their page tables, \<open>ExecuteFile\<close>, and memory accesses of the kernel through page tables and faults.
  \<open>Address_Spaces\<close>, \<open>Application_Memory\<close>: which tables and pages an address space owns (\<open>paging.cpp\<close>), through sharing
  of an image, pages on demand and copy on write; all of it is given back when the program ends.
  \<open>Terminal_Commands\<close>: \<open>ExecuteLine\<close> with redirection, pipes and every built-in command, and the tasks of terminals.

  \<^bold>\<open>The whole kernel.\<close>  \<open>Kernel_State\<close> joins the states of the parts in one record.  \<open>System_Calls\<close>
  (\<open>syscall.cpp\<close>): every handler on that record.  \<open>User_Memory\<close> shows how loads and stores at program addresses
  read and write bytes of the mapped frames; \<open>System_Calls_Correct\<close> and \<open>Program_Events\<close> rest on it for
  \<open>DemandPages\<close>, \<open>MapFile\<close>, \<open>OpenFile\<close>, \<open>ReadFile\<close> and \<open>ReadEvent\<close>; \<open>Demo_Kernel\<close> is one concrete kernel for
  their witnesses.  \<open>Main_Task\<close> (\<open>main.cpp\<close>): the windows of the kernel and one round of the main loop for
  every kind of message.

  \<^bold>\<open>Not modelled.\<close>  The text of log messages.  The
  boot loader is a UEFI application: almost all of it is calls of firmware services.  The
  applications are programs of their own (\<open>call_app\<close> is a parameter);
  \<open>apps/gview/stb_image.h\<close> is third-party code.  Logging and the panic output are pure output.
  The assembly routines are single instructions (their effect is in the states of the model) or
  the context switch, which is \<open>SwitchContext\<close> of \<open>Task_Manager\<close>.  \<open>newlib_support.c\<close> and
  \<open>libcxx_support.cpp\<close> connect libraries that are not part of the repository.
\<close>

end
